(* ===== verification/Prelude.thy ===== *)
theory Prelude
  imports
    Main
    "HOL-Library.Word"
    "HOL-Library.Char_ord"
    "HOL-Library.List_Lexorder"
begin

text \<open>
  Shared vocabulary of the development: machine integers at their width, byte strings,
  the error values of \<^verbatim>\<open>qiven::Result\<close>, the abort value of \<^verbatim>\<open>QIVEN_ASSERT\<close>, and the
  generic list, option and word lemmas the components use.  A run that stops in a failed
  assertion is the value \<open>None\<close> of an option; a typed failure is \<open>Inl\<close> of a sum.
\<close>

unbundle bit_operations_syntax

named_theorems qv_defs \<open>definitions of small accessors and predicates\<close>
named_theorems qv_inv \<open>preservation facts of the invariants\<close>

type_synonym u8 = "8 word"
type_synonym u16 = "16 word"
type_synonym u32 = "32 word"
type_synonym u64 = "64 word"
type_synonym byte = "8 word"
type_synonym bytes = "byte list"

section \<open>Typed failures and aborted runs\<close>

text \<open>
  The categories the sources pass to \<^verbatim>\<open>qiven::Error::make\<close>, with the numeric code.  The
  human-readable message carries no behaviour and is left out.
\<close>

datatype error_category =
    Cat_none
  | Cat_invalid_argument
  | Cat_internal
  | Cat_permission_denied
  | Cat_resource_exhausted
  | Cat_unavailable

record error =
  category :: error_category
  code :: int

definition mk_error :: "error_category \<Rightarrow> int \<Rightarrow> error" where
  "mk_error c n = \<lparr>category = c, code = n\<rparr>"

type_synonym 'a res = "error + 'a"

abbreviation is_ok :: "'a res \<Rightarrow> bool" where
  "is_ok r \<equiv> \<not> isl r"

lemma mk_error_sel [simp]: "category (mk_error c n) = c" "code (mk_error c n) = n"
  by (simp_all add: mk_error_def)

section \<open>Text as bytes\<close>

definition text_bytes :: "string \<Rightarrow> bytes" where
  "text_bytes s = map of_char s"

lemma length_text_bytes [simp]: "length (text_bytes s) = length s"
  by (simp add: text_bytes_def)

lemma of_char_byte_inj: "(of_char c :: byte) = of_char d \<longleftrightarrow> c = d"
proof
  assume "(of_char c :: byte) = of_char d"
  then have "(of_nat (of_char c) :: byte) = of_nat (of_char d)"
    by (simp add: of_nat_of_char)
  then have "take_bit 8 (of_char c :: nat) = take_bit 8 (of_char d)"
    by (simp add: word_of_nat_eq_iff)
  then show "c = d"
    by (simp add: take_bit_eq_mod)
qed simp

lemma text_bytes_inj [simp]: "text_bytes s = text_bytes t \<longleftrightarrow> s = t"
  unfolding text_bytes_def
  by (rule inj_map_eq_map) (simp add: inj_on_def of_char_byte_inj)

text \<open>\<^verbatim>\<open>std::to_string\<close> on an unsigned integer.\<close>

fun digits_of :: "nat \<Rightarrow> string" where
  "digits_of n =
     (if n < 10 then [char_of (48 + n)] else digits_of (n div 10) @ [char_of (48 + n mod 10)])"

declare digits_of.simps [simp del]

definition to_string_u64 :: "u64 \<Rightarrow> string" where
  "to_string_u64 w = digits_of (unat w)"

section \<open>Little-endian layout\<close>

definition le_bytes :: "nat \<Rightarrow> 'a::len word \<Rightarrow> bytes" where
  "le_bytes n w = map (\<lambda>i. ucast (drop_bit (8 * i) w)) [0..<n]"

lemma length_le_bytes [simp]: "length (le_bytes n w) = n"
  by (simp add: le_bytes_def)

lemma nth_le_bytes [simp]: "i < n \<Longrightarrow> le_bytes n w ! i = ucast (drop_bit (8 * i) w)"
  by (simp add: le_bytes_def)

definition le_value :: "bytes \<Rightarrow> 'a::len word" where
  "le_value bs = foldr (\<lambda>b acc. (ucast b :: 'a word) OR push_bit 8 acc) bs 0"

lemma le_value_Nil [simp]: "le_value [] = 0"
  by (simp add: le_value_def)

lemma le_value_Cons [simp]: "le_value (b # bs) = (ucast b :: 'a::len word) OR push_bit 8 (le_value bs)"
  by (simp add: le_value_def)

lemma bit_le_value:
  "bit (le_value bs :: 'a::len word) n \<longleftrightarrow>
     n < LENGTH('a) \<and> n < 8 * length bs \<and> bit (bs ! (n div 8)) (n mod 8)"
proof (induction bs arbitrary: n)
  case Nil
  then show ?case by simp
next
  case (Cons b bs)
  show ?case
  proof (cases "n < 8")
    case True
    then show ?thesis
      by (auto simp: bit_or_iff bit_push_bit_iff bit_ucast_iff)
  next
    case False
    then have d: "n div 8 = Suc ((n - 8) div 8)" "n mod 8 = (n - 8) mod 8"
      by (simp_all add: le_div_geq le_mod_geq)
    have nb: "\<not> bit b n"
      using False bit_imp_le_length [of b n] by auto
    show ?thesis
      using False Cons.IH [of "n - 8"] nb
      by (auto simp: bit_or_iff bit_push_bit_iff bit_ucast_iff d)
  qed
qed

lemma le_value_le_bytes:
  assumes "LENGTH('a::len) = 8 * n"
  shows "le_value (le_bytes n w) = (w :: 'a word)"
proof (rule bit_word_eqI)
  fix k assume "k < LENGTH('a)"
  then have "k < 8 * n" "k div 8 < n" "8 * (k div 8) + k mod 8 = k"
    using assms by auto
  then show "bit (le_value (le_bytes n w) :: 'a word) k = bit w k"
    using \<open>k < LENGTH('a)\<close>
    by (simp add: bit_le_value bit_ucast_iff bit_drop_bit_eq)
qed

lemma le_bytes_le_value:
  assumes "LENGTH('a::len) = 8 * length bs"
  shows "le_bytes (length bs) (le_value bs :: 'a word) = bs"
proof (rule nth_equalityI)
  fix i assume i: "i < length (le_bytes (length bs) (le_value bs :: 'a word))"
  then have i': "i < length bs" by simp
  have "(ucast (drop_bit (8 * i) (le_value bs :: 'a word)) :: byte) = bs ! i"
  proof (rule bit_word_eqI)
    fix k assume "k < LENGTH(8)"
    then have k: "k < 8" by simp
    then have "8 * i + k < 8 * length bs" "(8 * i + k) div 8 = i" "(8 * i + k) mod 8 = k"
      using i' by auto
    then show "bit (ucast (drop_bit (8 * i) (le_value bs :: 'a word)) :: byte) k = bit (bs ! i) k"
      using k assms by (simp add: bit_le_value bit_ucast_iff bit_drop_bit_eq)
  qed
  then show "le_bytes (length bs) (le_value bs :: 'a word) ! i = bs ! i"
    using i' by simp
qed simp

lemma le_bytes_inj:
  assumes "LENGTH('a::len) = 8 * n" "le_bytes n v = le_bytes n (w :: 'a word)"
  shows "v = w"
proof -
  have "v = le_value (le_bytes n v)"
    by (rule le_value_le_bytes [OF assms(1), symmetric])
  also have "\<dots> = w"
    unfolding assms(2) by (rule le_value_le_bytes [OF assms(1)])
  finally show ?thesis .
qed

section \<open>Words\<close>

lemma unat_succ: "x \<noteq> - 1 \<Longrightarrow> unat (x + 1) = Suc (unat x)" for x :: "'a::len word"
proof -
  assume "x \<noteq> - 1"
  then have "1 + x \<noteq> 0" by (metis add.commute add_eq_0_iff)
  then have "unat (1 + x) = Suc (unat x)" by (rule unatSuc)
  then show "unat (x + 1) = Suc (unat x)" by (simp add: add.commute)
qed

lemma word_less_succ: "x \<noteq> - 1 \<Longrightarrow> x < x + 1" for x :: "'a::len word"
  by (simp add: word_less_nat_alt unat_succ)

section \<open>Lists\<close>

lemma append_eq_fixed:
  "length a = length b \<Longrightarrow> a @ x = b @ y \<longleftrightarrow> a = b \<and> x = y"
  by (simp add: append_eq_append_conv)

lemma concat_map_fixed_inj:
  assumes "length xs = length ys" "concat (map f xs) = concat (map f ys)"
    and "\<And>x. length (f x) = w" "\<And>x y. f x = f y \<longleftrightarrow> x = y"
  shows "xs = ys"
  using assms(1,2)
proof (induction xs ys rule: list_induct2)
  case (Cons x xs y ys)
  from Cons.prems have "f x = f y" "concat (map f xs) = concat (map f ys)"
    using assms(3) by (simp_all add: append_eq_append_conv)
  with Cons.IH assms(4) show ?case by simp
qed simp

lemma distinct_snoc: "distinct xs \<Longrightarrow> x \<notin> set xs \<Longrightarrow> distinct (xs @ [x])"
  by simp

lemma list_all_snoc [simp]: "list_all P (xs @ [x]) \<longleftrightarrow> list_all P xs \<and> P x"
  by simp

end
