(* ===== verification/Foundation.thy ===== *)
theory Foundation
  imports Prelude
begin

text \<open>
  Code the runtime calls but does not contain: the \<^verbatim>\<open>qiven\<close> foundation library (byte
  codecs, hashes, hex rendering) and the frozen cognition library \<^verbatim>\<open>qiven::context\<close>.
  Both are parameters of the model.  Their functions are the fields of the records
  \<open>foundation\<close> and \<open>draft\<close>; what the runtime relies on is stated by the locales
  \<open>codec_laws\<close> and \<open>draft_laws\<close>, whose predicates the properties carry as hypotheses.
  The data types of \<^verbatim>\<open>qiven::context\<close> have the fields and enumerators the runtime names;
  the enumerators it never names are covered by one catch-all constructor per type.
\<close>

section \<open>Foundation library\<close>

record foundation =
  enc_u32 :: "u32 \<Rightarrow> bytes"
  enc_u64 :: "u64 \<Rightarrow> bytes"
  dec_u32 :: "bytes \<Rightarrow> u32 option"
  dec_u64 :: "bytes \<Rightarrow> u64 option"
  sha256 :: "bytes \<Rightarrow> bytes"
  fnv_basis :: u64
  fnv_prime :: u64
  fnv1a64 :: "string \<Rightarrow> u64"
  fnv1a64_from :: "string \<Rightarrow> u64 \<Rightarrow> u64"
  hex_u64 :: "u64 \<Rightarrow> string"
  hex_sha256 :: "bytes \<Rightarrow> string"

text \<open>
  The codecs are fixed-width little-endian and their decoders invert them; a decoder
  refuses a span of another length.
\<close>

locale codec_laws =
  fixes F :: foundation
  assumes enc_u32_le: "enc_u32 F v = le_bytes 4 v"
    and enc_u64_le: "enc_u64 F w = le_bytes 8 w"
    and dec_u32_le: "length bs = 4 \<Longrightarrow> dec_u32 F bs = Some (le_value bs)"
    and dec_u64_le: "length bs = 8 \<Longrightarrow> dec_u64 F bs = Some (le_value bs)"
begin

lemma length_enc [simp]: "length (enc_u32 F v) = 4" "length (enc_u64 F w) = 8"
  by (simp_all add: enc_u32_le enc_u64_le)

lemma enc_u32_inj [simp]: "enc_u32 F v = enc_u32 F w \<longleftrightarrow> v = w"
  using le_bytes_inj [of 4 v w] by (auto simp: enc_u32_le)

lemma enc_u64_inj [simp]: "enc_u64 F v = enc_u64 F w \<longleftrightarrow> v = w"
  using le_bytes_inj [of 8 v w] by (auto simp: enc_u64_le)

lemma dec_enc [simp]: "dec_u32 F (enc_u32 F v) = Some v" "dec_u64 F (enc_u64 F w) = Some w"
  by (simp_all add: dec_u32_le dec_u64_le enc_u32_le enc_u64_le le_value_le_bytes)

lemma enc_u32_app [simp]: "enc_u32 F v @ x = enc_u32 F w @ y \<longleftrightarrow> v = w \<and> x = y"
  by (simp add: append_eq_fixed)

lemma enc_u64_app [simp]: "enc_u64 F v @ x = enc_u64 F w @ y \<longleftrightarrow> v = w \<and> x = y"
  by (simp add: append_eq_fixed)

end

text \<open>
  A concrete foundation: little-endian codecs, and short stand-ins for the hashes.  It
  interprets the laws and evaluates the witnesses.
\<close>

definition ref_fnv :: "string \<Rightarrow> u64 \<Rightarrow> u64" where
  "ref_fnv s seed = foldl (\<lambda>h c. (h XOR of_char c) * 1099511628211) seed s"

definition ref_foundation :: foundation where
  "ref_foundation =
     \<lparr>enc_u32 = le_bytes 4, enc_u64 = le_bytes 8,
      dec_u32 = (\<lambda>bs. if length bs = 4 then Some (le_value bs) else None),
      dec_u64 = (\<lambda>bs. if length bs = 8 then Some (le_value bs) else None),
      sha256 = (\<lambda>bs. take 32 (bs @ replicate 32 1)),
      fnv_basis = 14695981039346656037, fnv_prime = 1099511628211,
      fnv1a64 = (\<lambda>s. ref_fnv s 14695981039346656037), fnv1a64_from = ref_fnv,
      hex_u64 = (\<lambda>_. replicate 16 CHR ''0''), hex_sha256 = (\<lambda>_. replicate 64 CHR ''0'')\<rparr>"

interpretation ref: codec_laws ref_foundation
  by unfold_locales (simp_all add: ref_foundation_def)

text \<open>SHA-256 digests have 32 bytes.\<close>

locale digest_laws =
  fixes F :: foundation
  assumes digest_length: "length (sha256 F bs) = 32"

interpretation ref_digest: digest_laws ref_foundation
  by unfold_locales (simp add: ref_foundation_def)

lemma ref_codec_laws: "codec_laws ref_foundation"
  by (rule ref.codec_laws_axioms)

section \<open>Bounded preimage builder\<close>

text \<open>
  \<^verbatim>\<open>qiven::ByteBuilder\<close> accumulates appended bytes up to the capacity it was created with;
  every user asserts \<^verbatim>\<open>ok()\<close> before it reads the bytes, so exceeding the 16 MiB limit
  aborts the process.
\<close>

definition preimage_capacity_limit :: nat where
  "preimage_capacity_limit = 16 * 1024 * 1024"

definition sealed :: "bytes \<Rightarrow> bytes option" where
  "sealed bs = (if length bs \<le> preimage_capacity_limit then Some bs else None)"

lemma sealed_Some [simp]: "sealed bs = Some cs \<longleftrightarrow> bs = cs \<and> length bs \<le> preimage_capacity_limit"
  by (auto simp: sealed_def)

lemma sealed_None [simp]: "sealed bs = None \<longleftrightarrow> preimage_capacity_limit < length bs"
  by (auto simp: sealed_def)

text \<open>A string field of a preimage: its length as a u64, then its raw bytes.\<close>

definition put_bytes :: "foundation \<Rightarrow> string \<Rightarrow> bytes" where
  "put_bytes F s = enc_u64 F (of_nat (length s)) @ text_bytes s"

context codec_laws
begin

lemma length_put_bytes [simp]: "length (put_bytes F s) = 8 + length s"
  by (simp add: put_bytes_def)

text \<open>Length prefixes make string fields self-delimiting, whatever follows them.\<close>

lemma put_bytes_app:
  assumes "put_bytes F s @ x = put_bytes F t @ y" "length s < 2 ^ 64" "length t < 2 ^ 64"
  shows "s = t \<and> x = y"
proof -
  from assms(1) have l: "(of_nat (length s) :: u64) = of_nat (length t)"
    and r: "text_bytes s @ x = text_bytes t @ y"
    by (simp_all add: put_bytes_def)
  from l assms(2,3) have "length s = length t"
    by (simp add: word_of_nat_eq_iff take_bit_nat_eq_self)
  with r show ?thesis by (simp add: append_eq_fixed)
qed

end

section \<open>Cognition library\<close>

text \<open>\<^verbatim>\<open>qiven::context\<close> enumerations, as far as the runtime names them.\<close>

datatype requirement_kind = MandatoryRecall | Kind_other u32
datatype requirement_boundary = BeforeJudgment | BeforeExecution | Boundary_other u32
datatype requirement_status = Pending | Satisfied | Failed | Status_other u32
datatype preparation_failure = PF_None | PF_other u32
datatype action_kind =
    BeginTask | InvokeTool | MakeCanonicalClaim | ModifyPublicAPI
  | ModifyReferencedContract | RetryFailure | Action_other u32
datatype claim_class = CanonicalFact | LocalRecall | Claim_other u32

type_synonym revision_id = string

text \<open>
  A snapshot is opaque to the runtime: it is created, serialized and interpreted by the
  cognition library only.  It stands for its canonical serialization.
\<close>

type_synonym snapshot = bytes

record failure_fingerprint =
  ff_operation :: string
  ff_tool :: string
  ff_category :: string
  ff_stableMessage :: string
  ff_exitCode :: int

record action_intent =
  ai_kind :: action_kind
  ai_claimClass :: claim_class
  ai_tool :: string
  ai_operation :: string
  ai_concepts :: "string list"
  ai_files :: "string list"
  ai_priorFailure :: "failure_fingerprint option"

record cognitive_requirement =
  cr_kind :: requirement_kind
  cr_subject :: string
  cr_blocking :: bool

record prepared_requirement =
  pr_requirement :: cognitive_requirement
  pr_boundary :: requirement_boundary
  pr_status :: requirement_status
  pr_evidence :: "string list"

record preparation_packet =
  pk_requirements :: "prepared_requirement list"
  pk_failure :: preparation_failure

record draft =
  kind_code :: "requirement_kind \<Rightarrow> u32"
  boundary_code :: "requirement_boundary \<Rightarrow> u32"
  status_code :: "requirement_status \<Rightarrow> u32"
  action_code :: "action_kind \<Rightarrow> u32"
  claim_code :: "claim_class \<Rightarrow> u32"
  default_intent :: action_intent
  default_fingerprint :: failure_fingerprint
  default_failure :: preparation_failure
  ready_for_judgment :: "preparation_packet \<Rightarrow> bool"
  ready_for_execution :: "preparation_packet \<Rightarrow> bool"
  derive_requirements :: "snapshot \<Rightarrow> action_intent \<Rightarrow> prepared_requirement list"
  normalize_failure_text :: "string \<Rightarrow> string"

abbreviation pr_blocking :: "prepared_requirement \<Rightarrow> bool" where
  "pr_blocking p \<equiv> cr_blocking (pr_requirement p)"

definition blocking_bj :: "prepared_requirement \<Rightarrow> bool" where
  "blocking_bj p \<longleftrightarrow> pr_blocking p \<and> pr_boundary p = BeforeJudgment"

text \<open>
  The two gates of the cognition library, as the component description states them: a
  typed preparation failure fails both, the judgment gate needs every blocking
  BeforeJudgment requirement satisfied, the execution gate every blocking requirement.
\<close>

locale draft_laws =
  fixes D :: draft
  assumes judgment_no_failure: "ready_for_judgment D k \<Longrightarrow> pk_failure k = PF_None"
    and judgment_satisfied:
      "ready_for_judgment D k \<Longrightarrow> p \<in> set (pk_requirements k) \<Longrightarrow> blocking_bj p \<Longrightarrow> pr_status p = Satisfied"
    and execution_no_failure: "ready_for_execution D k \<Longrightarrow> pk_failure k = PF_None"
    and execution_satisfied:
      "ready_for_execution D k \<Longrightarrow> p \<in> set (pk_requirements k) \<Longrightarrow> pr_blocking p \<Longrightarrow> pr_status p = Satisfied"

text \<open>A concrete cognition library with the weakest gates the laws allow.\<close>

definition ref_draft :: draft where
  "ref_draft =
     \<lparr>kind_code = (\<lambda>k. case k of MandatoryRecall \<Rightarrow> 0 | Kind_other n \<Rightarrow> n),
      boundary_code = (\<lambda>b. case b of BeforeJudgment \<Rightarrow> 0 | BeforeExecution \<Rightarrow> 1 | Boundary_other n \<Rightarrow> n),
      status_code = (\<lambda>s. case s of Pending \<Rightarrow> 0 | Satisfied \<Rightarrow> 1 | Failed \<Rightarrow> 2 | Status_other n \<Rightarrow> n),
      action_code = (\<lambda>a. case a of BeginTask \<Rightarrow> 0 | InvokeTool \<Rightarrow> 1 | MakeCanonicalClaim \<Rightarrow> 2
                         | ModifyPublicAPI \<Rightarrow> 3 | ModifyReferencedContract \<Rightarrow> 4 | RetryFailure \<Rightarrow> 5
                         | Action_other n \<Rightarrow> n),
      claim_code = (\<lambda>c. case c of CanonicalFact \<Rightarrow> 0 | LocalRecall \<Rightarrow> 1 | Claim_other n \<Rightarrow> n),
      default_intent = \<lparr>ai_kind = BeginTask, ai_claimClass = LocalRecall, ai_tool = [], ai_operation = [],
                        ai_concepts = [], ai_files = [], ai_priorFailure = None\<rparr>,
      default_fingerprint = \<lparr>ff_operation = [], ff_tool = [], ff_category = [], ff_stableMessage = [],
                             ff_exitCode = 0\<rparr>,
      default_failure = PF_None,
      ready_for_judgment = (\<lambda>k. pk_failure k = PF_None \<and>
         list_all (\<lambda>p. blocking_bj p \<longrightarrow> pr_status p = Satisfied) (pk_requirements k)),
      ready_for_execution = (\<lambda>k. pk_failure k = PF_None \<and>
         list_all (\<lambda>p. pr_blocking p \<longrightarrow> pr_status p = Satisfied) (pk_requirements k)),
      derive_requirements = (\<lambda>s i.
         [\<lparr>pr_requirement = \<lparr>cr_kind = MandatoryRecall, cr_subject = ''policy'', cr_blocking = True\<rparr>,
           pr_boundary = BeforeJudgment, pr_status = Pending, pr_evidence = []\<rparr>,
          \<lparr>pr_requirement = \<lparr>cr_kind = Kind_other 7, cr_subject = ai_tool i, cr_blocking = True\<rparr>,
           pr_boundary = BeforeExecution, pr_status = Pending, pr_evidence = []\<rparr>]),
      normalize_failure_text = (\<lambda>s. s)\<rparr>"

interpretation refd: draft_laws ref_draft
  by unfold_locales (auto simp: ref_draft_def list_all_iff)

lemma ref_draft_laws: "draft_laws ref_draft"
  by (rule refd.draft_laws_axioms)

end
