(* ===== verification/Identity.thy ===== *)
theory Identity
  imports Foundation
begin

text \<open>
  Identities of the control plane (\<^verbatim>\<open>identity.hpp\<close>, \<^verbatim>\<open>identity.cpp\<close>): the five-tuple
  correlation key with its bucketing hash, the 128-bit sortable identifiers with their
  minter, log rendering, and the generation minter's counter.  One-field identity structs
  are the integers they hold; fixed byte arrays are byte lists.
\<close>

section \<open>Identity values\<close>

type_synonym generation_id = u64
type_synonym transaction_id = u64
type_synonym adapter_id = u64
type_synonym session_id = u64
type_synonym actor_id = u64
type_synonym harness_action_id = u64
type_synonym capability_id = u64
type_synonym profile_revision = u64
type_synonym sortable_id = bytes
type_synonym content_digest = bytes
type_synonym token_hash = bytes

datatype id_kind =
    Id_Generation | Id_Transaction | Id_Adapter | Id_Session | Id_Actor | Id_Capability
  | Id_Evidence | Id_Decision | Id_Requirement | Id_EffectScope | Id_Dispatch

record decision_token =
  tok_mac :: bytes
  tok_nonce :: bytes

record correlation_key =
  ck_generation :: generation_id
  ck_adapter :: adapter_id
  ck_session :: session_id
  ck_actor :: actor_id
  ck_action :: harness_action_id

definition correlation_hash :: "foundation \<Rightarrow> correlation_key \<Rightarrow> u64" where
  "correlation_hash F key =
     (let seed = fnv_basis F;
          seed = (seed XOR ck_generation key) * fnv_prime F;
          seed = (seed XOR ck_adapter key) * fnv_prime F;
          seed = (seed XOR ck_session key) * fnv_prime F;
          seed = (seed XOR ck_actor key) * fnv_prime F;
          seed = (seed XOR ck_action key) * fnv_prime F
      in seed)"

section \<open>Log rendering\<close>

fun kind_name :: "id_kind \<Rightarrow> string" where
  "kind_name Id_Generation = ''generation''"
| "kind_name Id_Transaction = ''transaction''"
| "kind_name Id_Adapter = ''adapter''"
| "kind_name Id_Session = ''session''"
| "kind_name Id_Actor = ''actor''"
| "kind_name Id_Capability = ''capability''"
| "kind_name Id_Evidence = ''evidence''"
| "kind_name Id_Decision = ''decision''"
| "kind_name Id_Requirement = ''requirement''"
| "kind_name Id_EffectScope = ''effect-scope''"
| "kind_name Id_Dispatch = ''dispatch''"

definition render_id_u64 :: "foundation \<Rightarrow> id_kind \<Rightarrow> u64 \<Rightarrow> string" where
  "render_id_u64 F kind bits = kind_name kind @ ''-'' @ hex_u64 F bits"

definition hex_digits :: string where
  "hex_digits = ''0123456789abcdef''"

definition hex_byte :: "byte \<Rightarrow> string" where
  "hex_byte b = [hex_digits ! unat (drop_bit 4 b), hex_digits ! unat (b AND 0x0F)]"

definition render_id_sortable :: "id_kind \<Rightarrow> sortable_id \<Rightarrow> string" where
  "render_id_sortable kind sid = kind_name kind @ ''-'' @ concat (map hex_byte sid)"

text \<open>The two digits of a byte determine it.\<close>

lemma hex_digit_inj: "m < 16 \<Longrightarrow> n < 16 \<Longrightarrow> hex_digits ! m = hex_digits ! n \<longleftrightarrow> m = n"
proof -
  have "distinct hex_digits" "length hex_digits = 16" by (simp_all add: hex_digits_def)
  then show "m < 16 \<Longrightarrow> n < 16 \<Longrightarrow> hex_digits ! m = hex_digits ! n \<longleftrightarrow> m = n" by (simp add: nth_eq_iff_index_eq)
qed

lemma hex_byte_eq: "hex_byte w = [hex_digits ! (unat w div 16), hex_digits ! (unat w mod 16)]"
proof -
  have "w AND 15 = w mod 16" using take_bit_eq_mask [of 4 w] by (simp add: mask_eq_exp_minus_1 take_bit_eq_mod)
  moreover have "unat (w mod 16) = unat w mod 16" using unat_mod [of w 16] by simp
  ultimately show ?thesis by (simp add: hex_byte_def drop_bit_eq_div unat_div)
qed

lemma hex_byte_inj [simp]: "hex_byte a = hex_byte b \<longleftrightarrow> a = b"
proof
  have "unat w < 256" for w :: byte using unsigned_less [of w, where ?'a = nat] by simp
  then have "unat w div 16 < 16" for w :: byte by (simp add: less_mult_imp_div_less)
  moreover assume "hex_byte a = hex_byte b"
  ultimately have "unat a div 16 = unat b div 16" "unat a mod 16 = unat b mod 16"
    by (simp_all add: hex_byte_eq hex_digit_inj)
  then have "unat a = unat b" by (metis div_mult_mod_eq)
  then show "a = b" by (simp add: word_unat_eq_iff)
qed simp

section \<open>The sortable-id minter\<close>

text \<open>
  \<^verbatim>\<open>SortableIdMinter::next\<close>: the wall clock \<open>unix_ms\<close> is an input, the minter's state is
  its counter.  Byte 8 is overwritten after the counter has been stored little-endian.
\<close>

definition sortable_next :: "foundation \<Rightarrow> u64 \<Rightarrow> u64 \<Rightarrow> sortable_id \<times> u64" where
  "sortable_next F unix_ms counter =
     (let high = (push_bit 16 unix_ms OR 0x7000) OR (drop_bit 20 counter AND 0x0FFF);
          raw = enc_u64 F high @ enc_u64 F counter
      in (raw[8 := 0x80 OR (raw ! 8 AND 0x3F)], counter + 1))"

definition sortable_less :: "sortable_id \<Rightarrow> sortable_id \<Rightarrow> bool" where
  "sortable_less a b \<longleftrightarrow> a < b"

fun mint_many :: "foundation \<Rightarrow> u64 list \<Rightarrow> u64 \<Rightarrow> sortable_id list" where
  "mint_many F [] counter = []"
| "mint_many F (ms # clock) counter =
     (case sortable_next F ms counter of (sid, counter') \<Rightarrow> sid # mint_many F clock counter')"

section \<open>What an identifier determines\<close>

lemma and_3F: "x AND (0x3F :: byte) = take_bit 6 x"
proof -
  have "(0x3F :: byte) = mask 6" by (simp add: mask_eq_exp_minus_1)
  then show ?thesis by (simp only: take_bit_eq_mask)
qed

lemma bit_C0: "bit (0xC0 :: u64) n \<longleftrightarrow> n = 6 \<or> n = 7"
proof -
  have "(0xC0 :: u64) = push_bit 6 (mask 2)" by (simp add: mask_eq_exp_minus_1)
  then show ?thesis by (simp only: bit_push_bit_iff bit_mask_iff) auto
qed

lemma bit_clear_C0: "bit (c AND NOT (0xC0 :: u64)) n \<longleftrightarrow> bit c n \<and> n \<noteq> 6 \<and> n \<noteq> 7"
  by (simp only: bit_and_iff bit_not_iff bit_C0) (auto dest: bit_imp_le_length)

lemma marked_byte_eq:
  "(0x80 OR (x AND 0x3F) = (0x80 OR (y AND 0x3F) :: byte)) \<longleftrightarrow> take_bit 6 x = take_bit 6 y"
proof
  assume a: "0x80 OR (x AND 0x3F) = (0x80 OR (y AND 0x3F) :: byte)"
  have "take_bit 6 (0x80 OR (z AND 0x3F)) = take_bit 6 (z :: byte)" for z
    by (simp add: and_3F)
  then show "take_bit 6 x = take_bit 6 y" using a by metis
qed (simp add: and_3F)

lemma le_bytes_8_Cons:
  "le_bytes 8 (w :: u64) = ucast w # map (\<lambda>i. ucast (drop_bit (8 * i) w)) [1..<8]"
  by (simp add: le_bytes_def upt_conv_Cons)

lemma upper_bytes_eq:
  "map (\<lambda>i. (ucast (drop_bit (8 * i) c) :: byte)) [1..<8] = map (\<lambda>i. ucast (drop_bit (8 * i) d)) [1..<8]
   \<longleftrightarrow> (\<forall>n. 8 \<le> n \<longrightarrow> bit (c :: u64) n = bit (d :: u64) n)" (is "?L \<longleftrightarrow> ?R")
proof
  assume l: ?L
  show ?R
  proof (intro allI impI)
    fix n :: nat assume n: "8 \<le> n"
    show "bit c n = bit d n"
    proof (cases "n < 64")
      case True
      with n have i: "n div 8 \<in> set [1..<8]" and e: "8 * (n div 8) + n mod 8 = n"
        by auto
      from l i have "(ucast (drop_bit (8 * (n div 8)) c) :: byte) = ucast (drop_bit (8 * (n div 8)) d)"
        by (simp only: map_eq_conv)
      then have "bit (ucast (drop_bit (8 * (n div 8)) c) :: byte) (n mod 8)
               = bit (ucast (drop_bit (8 * (n div 8)) d) :: byte) (n mod 8)"
        by simp
      then show ?thesis by (simp add: bit_ucast_iff bit_drop_bit_eq e)
    next
      case False
      then show ?thesis using bit_imp_le_length [of c n] bit_imp_le_length [of d n] by auto
    qed
  qed
next
  assume r: ?R
  have "(ucast (drop_bit (8 * i) c) :: byte) = ucast (drop_bit (8 * i) d)" if "1 \<le> i" for i
    using r that by (intro bit_word_eqI) (simp add: bit_ucast_iff bit_drop_bit_eq)
  then show ?L by simp
qed

lemma low_bits_eq:
  "take_bit 6 (ucast (c :: u64) :: byte) = take_bit 6 (ucast (d :: u64)) \<longleftrightarrow> (\<forall>n. n < 6 \<longrightarrow> bit c n = bit d n)"
  (is "?L \<longleftrightarrow> ?R")
proof
  assume l: ?L
  show ?R
  proof (intro allI impI)
    fix n :: nat assume "n < 6"
    moreover from l have "bit (take_bit 6 (ucast c :: byte)) n = bit (take_bit 6 (ucast d :: byte)) n" by simp
    ultimately show "bit c n = bit d n" by (simp add: bit_take_bit_iff bit_ucast_iff)
  qed
next
  assume ?R
  then show ?L by (intro bit_word_eqI) (auto simp add: bit_take_bit_iff bit_ucast_iff)
qed

lemma counter_bytes_eq:
  "(take_bit 6 (ucast c :: byte) = take_bit 6 (ucast d) \<and>
    map (\<lambda>i. (ucast (drop_bit (8 * i) c) :: byte)) [1..<8] = map (\<lambda>i. ucast (drop_bit (8 * i) d)) [1..<8])
   \<longleftrightarrow> (c :: u64) AND NOT 0xC0 = d AND NOT 0xC0" (is "?L \<longleftrightarrow> ?R")
proof -
  have split: "n < 6 \<or> 8 \<le> n \<longleftrightarrow> n \<noteq> 6 \<and> n \<noteq> 7" for n :: nat by auto
  have "?L \<longleftrightarrow> (\<forall>n. n \<noteq> 6 \<and> n \<noteq> 7 \<longrightarrow> bit c n = bit d n)"
    unfolding upper_bytes_eq low_bits_eq split [symmetric] by blast
  also have "\<dots> \<longleftrightarrow> (\<forall>n. bit (c AND NOT 0xC0) n = bit (d AND NOT 0xC0) n)"
    unfolding bit_clear_C0 by blast
  also have "\<dots> \<longleftrightarrow> ?R"
    by (metis bit_word_eqI)
  finally show ?thesis .
qed

text \<open>The high word keeps the low 48 clock bits and counter bits 20 to 31 apart.\<close>

lemma high_word_clock:
  "drop_bit 16 ((push_bit 16 ms OR 0x7000) OR (drop_bit 20 c AND 0x0FFF)) = take_bit 48 (ms :: u64)"
proof (rule bit_word_eqI)
  fix n assume n: "n < LENGTH(64)"
  have "\<not> bit (0x7000 :: u64) (16 + n)" "\<not> bit (0x0FFF :: u64) (16 + n)"
  proof -
    have "(0x7000 :: u64) = push_bit 12 (mask 3)" "(0x0FFF :: u64) = mask 12"
      by (simp_all add: mask_eq_exp_minus_1)
    then show "\<not> bit (0x7000 :: u64) (16 + n)" "\<not> bit (0x0FFF :: u64) (16 + n)"
      by (simp_all only: bit_push_bit_iff bit_mask_iff) auto
  qed
  then show "bit (drop_bit 16 ((push_bit 16 ms OR 0x7000) OR (drop_bit 20 c AND 0x0FFF))) n
      = bit (take_bit 48 ms) n"
    using n by (auto simp add: bit_drop_bit_eq bit_or_iff bit_and_iff bit_push_bit_iff bit_take_bit_iff)
qed

context codec_laws
begin

lemma sortable_next_bytes:
  "fst (sortable_next F ms c) =
     enc_u64 F ((push_bit 16 ms OR 0x7000) OR (drop_bit 20 c AND 0x0FFF)) @
     (0x80 OR (ucast c AND 0x3F)) # map (\<lambda>i. ucast (drop_bit (8 * i) c)) [1..<8]"
  by (simp add: sortable_next_def Let_def list_update_append nth_append)
     (simp add: enc_u64_le le_bytes_8_Cons)

lemma length_sortable_next: "length (fst (sortable_next F ms c)) = 16"
  by (simp add: sortable_next_bytes)

text \<open>Exactly what an identifier determines: the low 48 clock bits and the counter
  without its bits 6 and 7.\<close>

lemma sortable_next_eq:
  "fst (sortable_next F ms c) = fst (sortable_next F ms' c')
   \<longleftrightarrow> take_bit 48 ms = take_bit 48 ms' \<and> c AND NOT 0xC0 = c' AND NOT 0xC0"
proof -
  let ?h = "\<lambda>ms c. (push_bit 16 ms OR 0x7000) OR (drop_bit 20 c AND 0x0FFF) :: u64"
  have e: "fst (sortable_next F ms c) = fst (sortable_next F ms' c') \<longleftrightarrow>
        ?h ms c = ?h ms' c' \<and> c AND NOT 0xC0 = c' AND NOT 0xC0"
    by (simp only: sortable_next_bytes enc_u64_app list.inject marked_byte_eq counter_bytes_eq)
  have "?h ms c = ?h ms' c' \<longleftrightarrow> take_bit 48 ms = take_bit 48 ms'"
    if "c AND NOT 0xC0 = c' AND NOT 0xC0"
  proof
    assume "?h ms c = ?h ms' c'"
    then show "take_bit 48 ms = take_bit 48 ms'" using high_word_clock by metis
  next
    assume t: "take_bit 48 ms = take_bit 48 ms'"
    have "push_bit 16 ms = push_bit 16 ms'"
    proof (rule bit_word_eqI)
      fix n assume "n < LENGTH(64)"
      moreover have "bit (take_bit 48 ms) (n - 16) = bit (take_bit 48 ms') (n - 16)" using t by simp
      ultimately show "bit (push_bit 16 ms) n = bit (push_bit 16 ms') n"
        by (auto simp add: bit_push_bit_iff bit_take_bit_iff)
    qed
    moreover have "drop_bit 20 c = drop_bit 20 c'"
    proof (rule bit_word_eqI)
      fix n
      have "bit (c AND NOT 0xC0) (20 + n) = bit (c' AND NOT 0xC0) (20 + n)" using that by simp
      then show "bit (drop_bit 20 c) n = bit (drop_bit 20 c') n"
        unfolding bit_clear_C0 by (simp add: bit_drop_bit_eq)
    qed
    ultimately show "?h ms c = ?h ms' c'" by simp
  qed
  with e show ?thesis by blast
qed

end

section \<open>Uniqueness and order of minted identifiers\<close>

lemma small_counter_unmasked:
  assumes "unat c < 64"
  shows "(c :: u64) AND NOT 0xC0 = c"
proof (rule bit_word_eqI)
  fix n
  have "take_bit 6 c = c"
    unfolding word_unat_eq_iff using assms by (simp add: unsigned_take_bit_eq take_bit_nat_eq_self)
  then have "bit c n \<Longrightarrow> n < 6" by (metis bit_take_bit_iff)
  then show "bit (c AND NOT 0xC0) n = bit c n" unfolding bit_clear_C0 by auto
qed

lemma in_mint_many:
  "sid \<in> set (mint_many F clock c) \<Longrightarrow>
     \<exists>i < length clock. sid = fst (sortable_next F (clock ! i) (c + of_nat i))"
proof (induction clock arbitrary: c)
  case (Cons ms clock)
  from Cons.prems consider "sid = fst (sortable_next F ms c)" | "sid \<in> set (mint_many F clock (c + 1))"
    by (auto simp: sortable_next_def Let_def)
  then show ?case
  proof cases
    case 1
    then show ?thesis by (intro exI [of _ 0]) simp
  next
    case 2
    from Cons.IH [OF this] obtain i where "i < length clock"
      "sid = fst (sortable_next F (clock ! i) (c + 1 + of_nat i))" by blast
    then show ?thesis by (intro exI [of _ "Suc i"]) (simp add: add.assoc)
  qed
qed simp

context codec_laws
begin

lemma mint_many_distinct:
  "unat c + length clock \<le> 64 \<Longrightarrow> distinct (mint_many F clock c)"
proof (induction clock arbitrary: c)
  case (Cons ms clock)
  have u: "unat (c + of_nat i) = unat c + i" if "i \<le> length clock" for i
    using that Cons.prems by (simp add: unat_word_ariths unat_of_nat)
  have "fst (sortable_next F ms c) \<notin> set (mint_many F clock (c + 1))"
  proof
    assume "fst (sortable_next F ms c) \<in> set (mint_many F clock (c + 1))"
    then obtain i where i: "i < length clock"
      and "fst (sortable_next F ms c) = fst (sortable_next F (clock ! i) (c + 1 + of_nat i))"
      using in_mint_many by blast
    moreover have "c + 1 + of_nat i = c + of_nat (Suc i)" by simp
    ultimately have "c AND NOT 0xC0 = (c + of_nat (Suc i)) AND NOT 0xC0"
      unfolding sortable_next_eq by simp
    moreover have "unat c < 64" "unat (c + of_nat (Suc i)) < 64"
      using Cons.prems u [of "Suc i"] i by simp_all
    ultimately have "c = c + of_nat (Suc i)" by (simp only: small_counter_unmasked)
    then have "unat c = unat (c + of_nat (Suc i))" by simp
    then show False using u [of "Suc i"] i by simp
  qed
  moreover have "distinct (mint_many F clock (c + 1))"
    using Cons.IH [of "c + 1"] Cons.prems u [of 1] by (cases clock) simp_all
  ultimately show ?case by (simp add: sortable_next_def Let_def)
qed simp

end

text \<open>the first 64 identifiers of a minter are pairwise distinct, whatever the clock does.\<close>

theorem minted_ids_distinct:
  assumes "codec_laws F" and "length clock \<le> 64"
  shows "distinct (mint_many F clock 0)"
  using assms by (simp add: codec_laws.mint_many_distinct)

theorem minted_ids_distinct_witness:
  "distinct (mint_many ref_foundation [5, 5, 5] 0)"
  by (rule minted_ids_distinct [OF ref_codec_laws]) simp

text \<open>
  An identifier determines the low 48 bits of the clock and the counter except its bits
  6 and 7: two mints give the same identifier exactly when these agree.
\<close>

theorem minted_id_determines:
  assumes "codec_laws F"
  shows "fst (sortable_next F ms c) = fst (sortable_next F ms' c')
         \<longleftrightarrow> take_bit 48 ms = take_bit 48 ms' \<and> c AND NOT 0xC0 = c' AND NOT 0xC0"
  using assms by (rule codec_laws.sortable_next_eq)

theorem minted_id_determines_witness:
  "fst (sortable_next ref_foundation 9 1) = fst (sortable_next ref_foundation 9 65)"
  unfolding minted_id_determines [OF ref_codec_laws] by simp

text \<open>
  The uniqueness promise of the minter does not hold beyond that: the first and the
  sixty-fifth identifier minted within one millisecond are equal, since the variant bits
  overwrite two bits of the counter's least significant byte.
\<close>

theorem minted_id_repeats:
  assumes "codec_laws F"
  shows "\<not> distinct (mint_many F (replicate 65 ms) 0)"
proof -
  have step: "mint_many F (replicate (Suc n) ms) c = fst (sortable_next F ms c) # mint_many F (replicate n ms) (c + 1)"
    for n c by (simp add: sortable_next_def Let_def)
  have later: "fst (sortable_next F ms (c + of_nat n)) \<in> set (mint_many F (replicate (Suc n) ms) c)" for n c
  proof (induction n arbitrary: c)
    case 0
    then show ?case unfolding step by simp
  next
    case (Suc n)
    from Suc [of "c + 1"] show ?case unfolding step [of "Suc n" c] by (simp add: add.assoc)
  qed
  have "fst (sortable_next F ms 0) = fst (sortable_next F ms (1 + of_nat 63))"
    unfolding codec_laws.sortable_next_eq [OF assms] by simp
  with later [of 1 63] have "fst (sortable_next F ms 0) \<in> set (mint_many F (replicate (Suc 63) ms) 1)"
    by (simp only:)
  moreover have "mint_many F (replicate 65 ms) 0 = fst (sortable_next F ms 0) # mint_many F (replicate (Suc 63) ms) 1"
  proof -
    have n: "(65 :: nat) = Suc (Suc 63)" by simp
    show ?thesis unfolding n step [of "Suc 63" 0] by (simp only: add_0_left)
  qed
  ultimately show ?thesis by (simp only: distinct.simps) blast
qed

theorem minted_id_repeats_witness: "\<not> distinct (mint_many ref_foundation (replicate 65 7) 0)"
  by (rule minted_id_repeats [OF ref_codec_laws])

text \<open>
  Identifiers do not sort by mint time: the words are stored least significant byte
  first, so the second identifier of a minter, minted at millisecond 256, compares below
  the first one, minted at 255.
\<close>

theorem minted_ids_not_time_ordered:
  assumes "codec_laws F"
  shows "sortable_less (fst (sortable_next F 256 1)) (fst (sortable_next F 255 0))"
proof -
  have "le_bytes 8 (0x1007000 :: u64) = [0, 0x70, 0, 1, 0, 0, 0, 0]"
    and "le_bytes 8 (0xFF7000 :: u64) = [0, 0x70, 0xFF, 0, 0, 0, 0, 0]"
    by (simp_all add: le_bytes_def upt_rec drop_bit_eq_div)
  then show ?thesis
    unfolding sortable_less_def codec_laws.sortable_next_bytes [OF assms] codec_laws.enc_u64_le [OF assms]
    by simp
qed

theorem minted_ids_not_time_ordered_witness:
  "sortable_less (fst (sortable_next ref_foundation 256 1)) (fst (sortable_next ref_foundation 255 0))"
  by (rule minted_ids_not_time_ordered [OF ref_codec_laws])

end
