(* ===== verification/Manifest.thy ===== *)
theory Manifest
  imports Identity
begin

text \<open>
  The declared world (\<^verbatim>\<open>adapter/manifest\<close>, \<^verbatim>\<open>profile\<close>, \<^verbatim>\<open>adapter/handshake\<close>, \<^verbatim>\<open>generation\<close>):
  capability descriptors, adapter manifests with their content identity, deployment
  profiles with the validating builder, the handshake of a manifest against an accepted
  profile, and the minting of runtime generations.
\<close>

section \<open>Capabilities and manifests\<close>

datatype operation_class =
    Observe | FileSystemRead | FileSystemWrite | ProcessLaunch | NetworkAccess | ClaimChannel

fun class_code :: "operation_class \<Rightarrow> u32" where
  "class_code Observe = 0"
| "class_code FileSystemRead = 1"
| "class_code FileSystemWrite = 2"
| "class_code ProcessLaunch = 3"
| "class_code NetworkAccess = 4"
| "class_code ClaimChannel = 5"

record capability_descriptor =
  cap_id :: capability_id
  cap_adapter :: adapter_id
  cap_class :: operation_class
  can_mutate_world :: bool
  can_publish_claims :: bool
  requires_execution_authority :: bool

definition default_capability :: capability_descriptor where
  "default_capability =
     \<lparr>cap_id = 0, cap_adapter = 0, cap_class = Observe, can_mutate_world = False,
      can_publish_claims = False, requires_execution_authority = False\<rparr>"

definition same_surface :: "capability_descriptor \<Rightarrow> capability_descriptor \<Rightarrow> bool" where
  "same_surface a b \<longleftrightarrow>
     cap_id a = cap_id b \<and> cap_adapter a = cap_adapter b \<and> cap_class a = cap_class b \<and>
     can_mutate_world a = can_mutate_world b \<and> can_publish_claims a = can_publish_claims b \<and>
     requires_execution_authority a = requires_execution_authority b"

record adapter_manifest =
  mf_adapter_name :: string
  mf_version :: u32
  mf_capabilities :: "capability_descriptor list"
  mf_credential :: u64

definition adapter_instance_id :: "foundation \<Rightarrow> adapter_manifest \<Rightarrow> adapter_id" where
  "adapter_instance_id F m = fnv1a64 F (mf_adapter_name m)"

definition capability_flags :: "capability_descriptor \<Rightarrow> u32" where
  "capability_flags c =
     ((if can_mutate_world c then 1 else 0) OR (if can_publish_claims c then 2 else 0))
       OR (if requires_execution_authority c then 4 else 0)"

definition put_capability :: "foundation \<Rightarrow> capability_descriptor \<Rightarrow> bytes" where
  "put_capability F c =
     enc_u64 F (cap_id c) @ enc_u64 F (cap_adapter c) @ enc_u32 F (class_code (cap_class c)) @
     enc_u32 F (capability_flags c)"

definition manifest_preimage :: "foundation \<Rightarrow> adapter_manifest \<Rightarrow> bytes" where
  "manifest_preimage F m =
     put_bytes F (mf_adapter_name m) @ enc_u32 F (mf_version m) @
     enc_u64 F (of_nat (length (mf_capabilities m))) @ concat (map (put_capability F) (mf_capabilities m))"

definition manifest_identity :: "foundation \<Rightarrow> adapter_manifest \<Rightarrow> content_digest option" where
  "manifest_identity F m = map_option (sha256 F) (sealed (manifest_preimage F m))"

section \<open>Deployment profiles\<close>

record actor_binding =
  ab_adapter :: adapter_id
  ab_session :: u64
  ab_credential :: u64

datatype mediation_kind = ActionInterception | ClaimChannelOnly | Unmediated

record mediation_entry =
  me_capability :: capability_id
  me_kind :: mediation_kind

record deployment_profile =
  dp_name :: string
  dp_revision :: profile_revision
  dp_actors_revision :: u64
  dp_actors :: "actor_binding list"
  dp_capabilities_revision :: u64
  dp_capabilities :: "capability_descriptor list"
  dp_mediation_revision :: u64
  dp_mediation :: "mediation_entry list"
  dp_tool_mediated :: bool
  dp_free_text :: bool
  dp_resolver_registry_revision :: u64
  dp_classifier_contract_revision :: u64
  dp_control_version :: u64
  dp_conformance_evidence :: string

text \<open>\<^verbatim>\<open>ProfileBuilder\<close>: the setters write the partial profile; \<^verbatim>\<open>build\<close> checks it in this order.\<close>

definition empty_profile :: deployment_profile where
  "empty_profile =
     \<lparr>dp_name = [], dp_revision = 0, dp_actors_revision = 0, dp_actors = [],
      dp_capabilities_revision = 0, dp_capabilities = [], dp_mediation_revision = 0,
      dp_mediation = [], dp_tool_mediated = False, dp_free_text = False,
      dp_resolver_registry_revision = 0, dp_classifier_contract_revision = 0,
      dp_control_version = 0, dp_conformance_evidence = []\<rparr>"

definition set_name :: "string \<Rightarrow> deployment_profile \<Rightarrow> deployment_profile" where
  "set_name n p = p\<lparr>dp_name := n\<rparr>"

definition set_revision :: "profile_revision \<Rightarrow> deployment_profile \<Rightarrow> deployment_profile" where
  "set_revision r p = p\<lparr>dp_revision := r\<rparr>"

definition set_actor_set :: "u64 \<Rightarrow> actor_binding list \<Rightarrow> deployment_profile \<Rightarrow> deployment_profile" where
  "set_actor_set r as p = p\<lparr>dp_actors_revision := r, dp_actors := as\<rparr>"

definition set_capability_universe ::
    "u64 \<Rightarrow> capability_descriptor list \<Rightarrow> deployment_profile \<Rightarrow> deployment_profile" where
  "set_capability_universe r cs p = p\<lparr>dp_capabilities_revision := r, dp_capabilities := cs\<rparr>"

definition set_mediation_inventory ::
    "u64 \<Rightarrow> mediation_entry list \<Rightarrow> deployment_profile \<Rightarrow> deployment_profile" where
  "set_mediation_inventory r es p = p\<lparr>dp_mediation_revision := r, dp_mediation := es\<rparr>"

definition set_claims :: "bool \<Rightarrow> bool \<Rightarrow> deployment_profile \<Rightarrow> deployment_profile" where
  "set_claims tool free p = p\<lparr>dp_tool_mediated := tool, dp_free_text := free\<rparr>"

definition set_control_version :: "u64 \<Rightarrow> deployment_profile \<Rightarrow> deployment_profile" where
  "set_control_version v p = p\<lparr>dp_control_version := v\<rparr>"

definition set_conformance_evidence :: "string \<Rightarrow> deployment_profile \<Rightarrow> deployment_profile" where
  "set_conformance_evidence e p = p\<lparr>dp_conformance_evidence := e\<rparr>"

definition same_actor :: "actor_binding \<Rightarrow> actor_binding \<Rightarrow> bool" where
  "same_actor a b \<longleftrightarrow> ab_adapter b = ab_adapter a \<and> ab_session b = ab_session a"

definition profile_build :: "deployment_profile \<Rightarrow> deployment_profile res" where
  "profile_build p =
     (if dp_name p = [] \<or> dp_revision p = 0 then Inl (mk_error Cat_invalid_argument 1)
      else if dp_conformance_evidence p = [] then Inl (mk_error Cat_invalid_argument 2)
      else if \<exists>a \<in> set (dp_actors p). length (filter (same_actor a) (dp_actors p)) \<noteq> 1
        then Inl (mk_error Cat_invalid_argument 3)
      else if \<exists>c \<in> set (dp_capabilities p).
                length (filter (\<lambda>o'. cap_id o' = cap_id c) (dp_capabilities p)) \<noteq> 1
        then Inl (mk_error Cat_invalid_argument 4)
      else if \<exists>e \<in> set (dp_mediation p). \<not> (\<exists>c \<in> set (dp_capabilities p). cap_id c = me_capability e)
        then Inl (mk_error Cat_invalid_argument 5)
      else if dp_free_text p then Inl (mk_error Cat_invalid_argument 6)
      else Inr p)"

section \<open>Handshake\<close>

datatype handshake_issue =
    UnknownAdapterCredential | UnrepresentedInProfile | AbsentFromManifest | SurfaceChanged

record handshake_finding =
  hf_issue :: handshake_issue
  hf_capability :: capability_descriptor

record handshake_result =
  hr_admitted :: bool
  hr_findings :: "handshake_finding list"
  hr_fail_closed :: "operation_class list"

definition add_fail_closed :: "operation_class list \<Rightarrow> operation_class \<Rightarrow> operation_class list" where
  "add_fail_closed cs c = (if c \<in> set cs then cs else cs @ [c])"

definition report :: "handshake_issue \<Rightarrow> capability_descriptor \<Rightarrow> handshake_result \<Rightarrow> handshake_result" where
  "report issue c r =
     r\<lparr>hr_findings := hr_findings r @ [\<lparr>hf_issue = issue, hf_capability = c\<rparr>],
       hr_fail_closed := add_fail_closed (hr_fail_closed r) (cap_class c)\<rparr>"

definition check_presented ::
    "adapter_id \<Rightarrow> capability_descriptor list \<Rightarrow> handshake_result \<Rightarrow> capability_descriptor \<Rightarrow> handshake_result" where
  "check_presented inst declared r c =
     (if cap_adapter c \<noteq> inst then report UnrepresentedInProfile c r
      else case find (\<lambda>d. cap_id d = cap_id c \<and> cap_adapter d = inst) declared of
             None \<Rightarrow> report UnrepresentedInProfile c r
           | Some d \<Rightarrow> if \<not> same_surface d c then report SurfaceChanged c r else r)"

definition check_declared ::
    "adapter_id \<Rightarrow> capability_descriptor list \<Rightarrow> handshake_result \<Rightarrow> capability_descriptor \<Rightarrow> handshake_result" where
  "check_declared inst presented r d =
     (if cap_adapter d \<noteq> inst then r
      else case find (\<lambda>c. cap_id c = cap_id d) presented of
             None \<Rightarrow> report AbsentFromManifest d r
           | Some _ \<Rightarrow> r)"

definition credential_accepted :: "foundation \<Rightarrow> adapter_manifest \<Rightarrow> deployment_profile \<Rightarrow> bool" where
  "credential_accepted F m p \<longleftrightarrow>
     (\<exists>a \<in> set (dp_actors p). ab_adapter a = adapter_instance_id F m \<and> ab_credential a = mf_credential m)"

definition admit_against_profile ::
    "foundation \<Rightarrow> adapter_manifest \<Rightarrow> deployment_profile \<Rightarrow> handshake_result" where
  "admit_against_profile F m p =
     (let inst = adapter_instance_id F m;
          r0 = \<lparr>hr_admitted = False, hr_findings = [], hr_fail_closed = []\<rparr>
      in if \<not> credential_accepted F m p
         then r0\<lparr>hr_findings := [\<lparr>hf_issue = UnknownAdapterCredential, hf_capability = default_capability\<rparr>],
                 hr_fail_closed := foldl (\<lambda>cs c. add_fail_closed cs (cap_class c)) [] (mf_capabilities m)\<rparr>
         else let r1 = foldl (check_presented inst (dp_capabilities p)) r0 (mf_capabilities m);
                  r2 = foldl (check_declared inst (mf_capabilities m)) r1 (dp_capabilities p)
              in r2\<lparr>hr_admitted := (hr_findings r2 = [])\<rparr>)"

section \<open>Generations\<close>

record runtime_generation =
  rg_id :: generation_id
  rg_profile :: deployment_profile
  rg_adapters :: "adapter_manifest list"
  rg_cognition :: snapshot

definition generation_mint ::
    "u64 \<Rightarrow> deployment_profile \<Rightarrow> adapter_manifest list \<Rightarrow> snapshot \<Rightarrow> runtime_generation \<times> u64" where
  "generation_mint next_value p ms s =
     (\<lparr>rg_id = next_value, rg_profile = p, rg_adapters = ms, rg_cognition = s\<rparr>, next_value + 1)"

section \<open>Well-formed profiles\<close>

lemma same_surface_eq [simp]: "same_surface a b \<longleftrightarrow> a = b"
  by (cases a; cases b) (auto simp: same_surface_def)

lemma count_one_distinct:
  "(\<forall>a \<in> set xs. length (filter (\<lambda>b. f b = f a) xs) = 1) \<longleftrightarrow> distinct (map f xs)"
proof (induction xs)
  case (Cons x xs)
  have "length (filter (\<lambda>b. f b = f x) (x # xs)) = 1 \<longleftrightarrow> f x \<notin> f ` set xs"
    by (auto simp: filter_empty_conv image_iff)
  moreover have "filter (\<lambda>b. f b = f a) (x # xs) = filter (\<lambda>b. f b = f a) xs"
    if "a \<in> set xs" "f x \<notin> f ` set xs" for a
    using that by auto
  ultimately have "(\<forall>a \<in> set (x # xs). length (filter (\<lambda>b. f b = f a) (x # xs)) = 1) \<longleftrightarrow>
      f x \<notin> f ` set xs \<and> (\<forall>a \<in> set xs. length (filter (\<lambda>b. f b = f a) xs) = 1)"
    by (metis list.set_intros(1) list.set_intros(2) set_ConsD)
  with Cons.IH show ?case by simp
qed simp

definition profile_ok :: "deployment_profile \<Rightarrow> bool" where
  "profile_ok p \<longleftrightarrow>
     dp_name p \<noteq> [] \<and> dp_revision p \<noteq> 0 \<and> dp_conformance_evidence p \<noteq> [] \<and>
     distinct (map (\<lambda>a. (ab_adapter a, ab_session a)) (dp_actors p)) \<and>
     distinct (map cap_id (dp_capabilities p)) \<and>
     (\<forall>e \<in> set (dp_mediation p). \<exists>c \<in> set (dp_capabilities p). cap_id c = me_capability e) \<and>
     \<not> dp_free_text p"

text \<open>
  The profile builder accepts exactly the well-formed profiles, unchanged: a name, a
  non-zero revision, cited conformance evidence, unique actor bindings, unique capability
  ids, mediation entries for declared capabilities only, and no free-text claim channel.
\<close>

theorem profile_build_iff: "profile_build q = Inr p \<longleftrightarrow> p = q \<and> profile_ok q"
proof -
  have "(\<forall>a \<in> set (dp_actors q). length (filter (same_actor a) (dp_actors q)) = 1)
      \<longleftrightarrow> distinct (map (\<lambda>a. (ab_adapter a, ab_session a)) (dp_actors q))"
    using count_one_distinct [of "dp_actors q" "\<lambda>a. (ab_adapter a, ab_session a)"]
    by (simp add: same_actor_def [abs_def])
  moreover note count_one_distinct [of "dp_capabilities q" cap_id]
  ultimately show ?thesis
    unfolding profile_build_def profile_ok_def by (simp split: if_split) blast
qed

lemma profile_build_ids:
  assumes "profile_build q = Inr p"
  shows "inj_on cap_id (set (dp_capabilities p))"
proof -
  have "\<forall>c \<in> set (dp_capabilities p). length (filter (\<lambda>b. cap_id b = cap_id c) (dp_capabilities p)) = 1"
    using assms unfolding profile_build_def by (simp split: if_split_asm)
  then show ?thesis by (simp only: count_one_distinct distinct_map)
qed

section \<open>What the handshake reports\<close>

definition presented_ok :: "adapter_id \<Rightarrow> capability_descriptor list \<Rightarrow> capability_descriptor \<Rightarrow> bool" where
  "presented_ok inst declared c \<longleftrightarrow>
     cap_adapter c = inst \<and> find (\<lambda>d. cap_id d = cap_id c \<and> cap_adapter d = inst) declared = Some c"

definition declared_ok :: "adapter_id \<Rightarrow> capability_descriptor list \<Rightarrow> capability_descriptor \<Rightarrow> bool" where
  "declared_ok inst presented d \<longleftrightarrow>
     (cap_adapter d = inst \<longrightarrow> (\<exists>c \<in> set presented. cap_id c = cap_id d))"

definition classes_match :: "handshake_result \<Rightarrow> bool" where
  "classes_match r \<longleftrightarrow>
     set (hr_fail_closed r) = (\<lambda>f. cap_class (hf_capability f)) ` set (hr_findings r) \<and>
     distinct (hr_fail_closed r)"

lemma set_add_fail_closed [simp]: "set (add_fail_closed cs c) = insert c (set cs)"
  by (auto simp: add_fail_closed_def)

lemma distinct_add_fail_closed: "distinct cs \<Longrightarrow> distinct (add_fail_closed cs c)"
  by (simp add: add_fail_closed_def)

lemma classes_match_report: "classes_match r \<Longrightarrow> classes_match (report i c r)"
  by (auto simp: classes_match_def report_def distinct_add_fail_closed)

lemma report_findings [simp]: "hr_findings (report i c r) \<noteq> []"
  by (simp add: report_def)

lemma check_presented_step:
  "(hr_findings (check_presented inst ds r c) = [] \<longleftrightarrow> hr_findings r = [] \<and> presented_ok inst ds c) \<and>
   (classes_match r \<longrightarrow> classes_match (check_presented inst ds r c))"
  by (auto simp: check_presented_def presented_ok_def classes_match_report split: option.splits)

lemma check_declared_step:
  "(hr_findings (check_declared inst cs r d) = [] \<longleftrightarrow> hr_findings r = [] \<and> declared_ok inst cs d) \<and>
   (classes_match r \<longrightarrow> classes_match (check_declared inst cs r d))"
  by (auto simp: check_declared_def declared_ok_def classes_match_report find_None_iff find_Some_iff
           split: option.splits)

lemma foldl_check:
  assumes "\<And>r x. (hr_findings (f r x) = [] \<longleftrightarrow> hr_findings r = [] \<and> Q x) \<and>
                  (classes_match r \<longrightarrow> classes_match (f r x))"
  shows "(hr_findings (foldl f r xs) = [] \<longleftrightarrow> hr_findings r = [] \<and> (\<forall>x \<in> set xs. Q x)) \<and>
         (classes_match r \<longrightarrow> classes_match (foldl f r xs))"
  by (induction xs arbitrary: r) (auto simp: assms)

lemmas foldl_presented = foldl_check [of "check_presented inst ds" "presented_ok inst ds" for inst ds,
    OF check_presented_step]
lemmas foldl_declared = foldl_check [of "check_declared inst cs" "declared_ok inst cs" for inst cs,
    OF check_declared_step]

lemma fold_add_fail_closed:
  "set (foldl (\<lambda>cs c. add_fail_closed cs (cap_class c)) cs xs) = set cs \<union> cap_class ` set xs \<and>
   (distinct cs \<longrightarrow> distinct (foldl (\<lambda>cs c. add_fail_closed cs (cap_class c)) cs xs))"
  by (induction xs arbitrary: cs) (auto simp: distinct_add_fail_closed)

lemma admitted_checks:
  "hr_admitted (admit_against_profile F m p) \<longleftrightarrow>
     credential_accepted F m p \<and>
     (\<forall>c \<in> set (mf_capabilities m). presented_ok (adapter_instance_id F m) (dp_capabilities p) c) \<and>
     (\<forall>d \<in> set (dp_capabilities p). declared_ok (adapter_instance_id F m) (mf_capabilities m) d)"
  by (simp add: admit_against_profile_def Let_def foldl_presented foldl_declared)

lemma find_unique:
  assumes "inj_on f (set xs)" "x \<in> set xs" "P x" "\<And>y. P y \<Longrightarrow> f y = f x"
  shows "find P xs = Some x"
proof (cases "find P xs")
  case None
  with assms(2,3) show ?thesis by (auto simp: find_None_iff)
next
  case (Some y)
  then have "y \<in> set xs" "P y" by (auto simp: find_Some_iff)
  with assms have "y = x" by (auto dest: inj_onD)
  with Some show ?thesis by simp
qed

text \<open>
  against a profile the builder accepted, a registration is admitted exactly when its
  credential is bound to this adapter and the manifest presents precisely the capabilities
  the profile declares for it, no more, no fewer, with the same surface.
\<close>

theorem handshake_admits_exact_surface:
  assumes "profile_build q = Inr p"
  shows "hr_admitted (admit_against_profile F m p) \<longleftrightarrow>
           credential_accepted F m p \<and>
           set (mf_capabilities m) = {d \<in> set (dp_capabilities p). cap_adapter d = adapter_instance_id F m}"
proof -
  let ?i = "adapter_instance_id F m"
  have inj: "inj_on cap_id (set (dp_capabilities p))"
    using assms by (rule profile_build_ids)
  have pres: "presented_ok ?i (dp_capabilities p) c \<longleftrightarrow> c \<in> set (dp_capabilities p) \<and> cap_adapter c = ?i" for c
    using find_unique [OF inj, of c "\<lambda>d. cap_id d = cap_id c \<and> cap_adapter d = ?i"]
    by (auto simp: presented_ok_def find_Some_iff)
  have "(\<forall>d \<in> set (dp_capabilities p). declared_ok ?i (mf_capabilities m) d) \<longleftrightarrow>
        {d \<in> set (dp_capabilities p). cap_adapter d = ?i} \<subseteq> set (mf_capabilities m)"
    if "set (mf_capabilities m) \<subseteq> {d \<in> set (dp_capabilities p). cap_adapter d = ?i}"
  proof
    assume d: "\<forall>d \<in> set (dp_capabilities p). declared_ok ?i (mf_capabilities m) d"
    show "{d \<in> set (dp_capabilities p). cap_adapter d = ?i} \<subseteq> set (mf_capabilities m)"
    proof
      fix x assume x: "x \<in> {d \<in> set (dp_capabilities p). cap_adapter d = ?i}"
      with d obtain c where c: "c \<in> set (mf_capabilities m)" "cap_id c = cap_id x"
        by (auto simp: declared_ok_def)
      with that x inj have "c = x" by (auto dest: inj_onD)
      with c show "x \<in> set (mf_capabilities m)" by simp
    qed
  qed (auto simp: declared_ok_def)
  then show ?thesis unfolding admitted_checks pres by blast
qed

definition ex_capability :: capability_descriptor where
  "ex_capability =
     \<lparr>cap_id = 1, cap_adapter = fnv1a64 ref_foundation ''loop'', cap_class = FileSystemWrite,
      can_mutate_world = True, can_publish_claims = False, requires_execution_authority = True\<rparr>"

definition ex_profile :: deployment_profile where
  "ex_profile =
     empty_profile\<lparr>dp_name := ''dev'', dp_revision := 3, dp_conformance_evidence := ''run-7'',
       dp_actors := [\<lparr>ab_adapter = fnv1a64 ref_foundation ''loop'', ab_session = 4, ab_credential = 9\<rparr>],
       dp_capabilities := [ex_capability],
       dp_mediation := [\<lparr>me_capability = 1, me_kind = ActionInterception\<rparr>]\<rparr>"

definition ex_manifest :: adapter_manifest where
  "ex_manifest = \<lparr>mf_adapter_name = ''loop'', mf_version = 1, mf_capabilities = [ex_capability], mf_credential = 9\<rparr>"

theorem handshake_admits_exact_surface_witness:
  "profile_build ex_profile = Inr ex_profile \<and>
   hr_admitted (admit_against_profile ref_foundation ex_manifest ex_profile)"
proof -
  have b: "profile_build ex_profile = Inr ex_profile"
    by (simp add: profile_build_def ex_profile_def empty_profile_def same_actor_def ex_capability_def)
  then show ?thesis
    unfolding handshake_admits_exact_surface [OF b]
    by (auto simp: credential_accepted_def ex_profile_def ex_manifest_def ex_capability_def
        adapter_instance_id_def empty_profile_def)
qed

text \<open>
  The fail-closed classes are duplicate-free and name exactly the classes the findings
  touch; without an accepted credential they are all the classes the manifest exposes.
  With an accepted credential the registration is admitted exactly when no class fails closed.
\<close>

theorem handshake_fail_closed_classes:
  "let r = admit_against_profile F m p in
     distinct (hr_fail_closed r) \<and>
     (if credential_accepted F m p
      then set (hr_fail_closed r) = (\<lambda>f. cap_class (hf_capability f)) ` set (hr_findings r) \<and>
           (hr_admitted r = (hr_fail_closed r = []))
      else \<not> hr_admitted r \<and> set (hr_fail_closed r) = cap_class ` set (mf_capabilities m))"
proof (cases "credential_accepted F m p")
  case True
  have "classes_match (admit_against_profile F m p)"
    using True foldl_presented foldl_declared
    by (simp add: admit_against_profile_def Let_def classes_match_def)
  moreover have "hr_admitted (admit_against_profile F m p) \<longleftrightarrow> hr_findings (admit_against_profile F m p) = []"
    using True by (simp add: admit_against_profile_def Let_def)
  ultimately show ?thesis
    using True by (auto simp: classes_match_def Let_def)
next
  case False
  then show ?thesis
    using fold_add_fail_closed [of "[]" "mf_capabilities m"]
    by (simp add: admit_against_profile_def Let_def)
qed

section \<open>Manifest identity\<close>

lemma class_code_inj [simp]: "class_code a = class_code b \<longleftrightarrow> a = b"
  by (cases a; cases b) simp_all

lemma capability_flags_inj:
  "capability_flags a = capability_flags b \<longleftrightarrow>
     can_mutate_world a = can_mutate_world b \<and> can_publish_claims a = can_publish_claims b \<and>
     requires_execution_authority a = requires_execution_authority b"
  by (cases "can_mutate_world a"; cases "can_publish_claims a"; cases "requires_execution_authority a";
      cases "can_mutate_world b"; cases "can_publish_claims b"; cases "requires_execution_authority b")
     (simp_all add: capability_flags_def)

context codec_laws
begin

lemma length_put_capability: "length (put_capability F c) = 24"
  by (simp add: put_capability_def)

lemma put_capability_inj: "put_capability F a = put_capability F b \<longleftrightarrow> a = b"
  by (cases a; cases b) (auto simp: put_capability_def capability_flags_inj)

lemma manifest_preimage_inj:
  assumes e: "manifest_preimage F m = manifest_preimage F n"
    and l: "length (manifest_preimage F m) \<le> preimage_capacity_limit"
  shows "mf_adapter_name m = mf_adapter_name n \<and> mf_version m = mf_version n \<and>
         mf_capabilities m = mf_capabilities n"
proof -
  have len: "length (manifest_preimage F k) =
      8 + length (mf_adapter_name k) + 4 + 8 + 24 * length (mf_capabilities k)" for k
    by (simp add: manifest_preimage_def length_concat o_def length_put_capability sum_list_triv)
  have b: "length (mf_adapter_name k) < 2 ^ 64 \<and> length (mf_capabilities k) < 2 ^ 64"
    if "length (manifest_preimage F k) \<le> preimage_capacity_limit" for k
    using that unfolding len preimage_capacity_limit_def by simp
  have bm: "length (mf_adapter_name m) < 2 ^ 64" "length (mf_capabilities m) < 2 ^ 64"
    and bn: "length (mf_adapter_name n) < 2 ^ 64" "length (mf_capabilities n) < 2 ^ 64"
    using b [of m] b [of n] l e by simp_all
  from put_bytes_app [OF e [unfolded manifest_preimage_def] bm(1) bn(1)]
  have "mf_adapter_name m = mf_adapter_name n" "mf_version m = mf_version n"
    and c: "(of_nat (length (mf_capabilities m)) :: u64) = of_nat (length (mf_capabilities n))"
    and r: "concat (map (put_capability F) (mf_capabilities m)) = concat (map (put_capability F) (mf_capabilities n))"
    by simp_all
  moreover have "length (mf_capabilities m) = length (mf_capabilities n)"
    using c bm(2) bn(2) by (simp add: word_of_nat_eq_iff take_bit_nat_eq_self)
  then have "mf_capabilities m = mf_capabilities n"
    using r by (rule concat_map_fixed_inj) (simp_all add: length_put_capability put_capability_inj)
  ultimately show ?thesis by simp
qed

end

text \<open>
  the manifest identity binds the declared surface: when two manifests have the same
  identity and the digest does not collide on their preimages, they agree on the adapter
  name, the version and the capability list.  The credential is not bound.
\<close>

theorem manifest_identity_binds:
  assumes "codec_laws F"
    and "manifest_identity F m = Some d" and "manifest_identity F n = Some d"
    and "sha256 F (manifest_preimage F m) = sha256 F (manifest_preimage F n) \<Longrightarrow>
         manifest_preimage F m = manifest_preimage F n"
  shows "n = m\<lparr>mf_credential := mf_credential n\<rparr>"
proof -
  have "manifest_preimage F m = manifest_preimage F n"
    and "length (manifest_preimage F m) \<le> preimage_capacity_limit"
    using assms(2-4) by (auto simp: manifest_identity_def)
  from codec_laws.manifest_preimage_inj [OF assms(1) this]
  show ?thesis by (cases m; cases n) simp
qed

theorem manifest_identity_binds_witness:
  "ex_manifest\<lparr>mf_credential := 10\<rparr> = ex_manifest\<lparr>mf_credential := mf_credential (ex_manifest\<lparr>mf_credential := 10\<rparr>)\<rparr>"
proof -
  let ?n = "ex_manifest\<lparr>mf_credential := 10\<rparr>"
  have p: "manifest_preimage ref_foundation ?n = manifest_preimage ref_foundation ex_manifest"
    by (simp add: manifest_preimage_def)
  have "length (manifest_preimage ref_foundation ex_manifest) \<le> preimage_capacity_limit"
    by (simp add: manifest_preimage_def ex_manifest_def ref.length_put_capability preimage_capacity_limit_def)
  then show ?thesis
    by (intro manifest_identity_binds [OF ref_codec_laws, where d = "sha256 ref_foundation (manifest_preimage ref_foundation ex_manifest)"])
       (simp_all add: manifest_identity_def p)
qed

end
