(* ===== verification/Scope.thy ===== *)
theory Scope
  imports Manifest
begin

text \<open>
  The governed resource scope (\<^verbatim>\<open>scope.hpp\<close>, \<^verbatim>\<open>scope.cpp\<close>) and the governance claims
  computed from a profile and a scope (\<^verbatim>\<open>claims.hpp\<close>, \<^verbatim>\<open>claims.cpp\<close>).  A scope is its
  sorted list of normalized paths.
\<close>

section \<open>Path normalization and containment\<close>

abbreviation slash :: char where "slash \<equiv> CHR ''/''"
abbreviation backslash :: char where "backslash \<equiv> CHR 0x5C"

definition forward_slashes :: "string \<Rightarrow> string" where
  "forward_slashes p = map (\<lambda>c. if c = backslash then slash else c) p"

fun strip_trailing :: "string \<Rightarrow> string" where
  "strip_trailing p = (if 1 < length p \<and> last p = slash then strip_trailing (butlast p) else p)"

declare strip_trailing.simps [simp del]

function components_ok :: "string \<Rightarrow> bool" where
  "components_ok p =
     (if p = [] then True
      else let comp = takeWhile (\<lambda>c. c \<noteq> slash) p; rest = dropWhile (\<lambda>c. c \<noteq> slash) p
           in if comp = [] \<or> comp = ''.'' \<or> comp = ''..'' then False
              else if rest = [] then True else components_ok (tl rest))"
  by pat_completeness auto
termination
proof (relation "measure length", goal_cases)
  case (2 p comp rest)
  have "length rest \<le> length p" unfolding 2(3) by (rule length_dropWhile_le)
  moreover have "0 < length rest" using 2(5) by simp
  ultimately show ?case by (cases rest) simp_all
qed simp

declare components_ok.simps [simp del]

definition normalize_path :: "string \<Rightarrow> string option" where
  "normalize_path path =
     (if path = [] then None
      else let p = forward_slashes path
           in if CHR ''*'' \<in> set p \<or> CHR ''?'' \<in> set p then None
              else let q = strip_trailing p
                   in if q = [] \<or> q = ''.'' \<or> q = ''..'' then None
                      else if components_ok q then Some q else None)"

definition path_contains :: "string \<Rightarrow> string \<Rightarrow> bool" where
  "path_contains root target =
     (if root = target then True
      else if length target \<le> length root then False
      else take (length root) target = root \<and> target ! length root = slash)"

section \<open>The scope builder and its queries\<close>

datatype scope_coverage = Covered | NotCovered

type_synonym resource_scope = "string list"

fun normalize_all :: "string list \<Rightarrow> string list option" where
  "normalize_all [] = Some []"
| "normalize_all (p # ps) =
     (case normalize_path p of None \<Rightarrow> None
      | Some q \<Rightarrow> (case normalize_all ps of None \<Rightarrow> None | Some qs \<Rightarrow> Some (q # qs)))"

fun adjacent_equal :: "string list \<Rightarrow> bool" where
  "adjacent_equal (x # y # zs) = (y = x \<or> adjacent_equal (y # zs))"
| "adjacent_equal _ = False"

definition scope_build :: "string list \<Rightarrow> resource_scope res" where
  "scope_build pending =
     (case normalize_all pending of
        None \<Rightarrow> Inl (mk_error Cat_invalid_argument 40)
      | Some ps \<Rightarrow>
          let sorted_ps = sort ps
          in if adjacent_equal sorted_ps then Inl (mk_error Cat_invalid_argument 41) else Inr sorted_ps)"

definition scope_covers :: "resource_scope \<Rightarrow> string \<Rightarrow> scope_coverage" where
  "scope_covers scope target =
     (if \<exists>p \<in> set scope. path_contains p (forward_slashes target) then Covered else NotCovered)"

definition scope_preimage :: "foundation \<Rightarrow> resource_scope \<Rightarrow> bytes" where
  "scope_preimage F scope = enc_u64 F (of_nat (length scope)) @ concat (map (put_bytes F) scope)"

definition scope_digest :: "foundation \<Rightarrow> resource_scope \<Rightarrow> content_digest option" where
  "scope_digest F scope = map_option (sha256 F) (sealed (scope_preimage F scope))"

section \<open>Governance claims\<close>

datatype class_governance = FullyGoverned | NotFullyGoverned

record class_report =
  cg_class :: operation_class
  cg_governance :: class_governance
  cg_unmediated :: "capability_id list"

definition mediated :: "deployment_profile \<Rightarrow> capability_descriptor \<Rightarrow> bool" where
  "mediated p c \<longleftrightarrow>
     (case find (\<lambda>e. me_capability e = cap_id c) (dp_mediation p) of
        None \<Rightarrow> False | Some e \<Rightarrow> me_kind e \<noteq> Unmediated)"

text \<open>\<^verbatim>\<open>report_for\<close>: the report of a class, appended as fully governed at its first use.\<close>

definition ensure_report :: "class_report list \<Rightarrow> operation_class \<Rightarrow> class_report list" where
  "ensure_report rs k =
     (if \<exists>r \<in> set rs. cg_class r = k then rs
      else rs @ [\<lparr>cg_class = k, cg_governance = FullyGoverned, cg_unmediated = []\<rparr>])"

fun update_report :: "(class_report \<Rightarrow> class_report) \<Rightarrow> operation_class \<Rightarrow> class_report list \<Rightarrow> class_report list" where
  "update_report f k [] = []"
| "update_report f k (r # rs) = (if cg_class r = k then f r # rs else r # update_report f k rs)"

definition claim_step :: "deployment_profile \<Rightarrow> class_report list \<Rightarrow> capability_descriptor \<Rightarrow> class_report list" where
  "claim_step p rs c =
     (let rs' = ensure_report rs (cap_class c)
      in if mediated p c then rs'
         else update_report
                (\<lambda>r. r\<lparr>cg_governance := NotFullyGoverned, cg_unmediated := cg_unmediated r @ [cap_id c]\<rparr>)
                (cap_class c) rs')"

definition governance_claims :: "deployment_profile \<Rightarrow> class_report list" where
  "governance_claims p = foldl (claim_step p) [] (dp_capabilities p)"

record scope_report =
  sg_scope_declared :: bool
  sg_write_mediated :: bool
  sg_target_coverage :: scope_coverage

definition scope_governance :: "deployment_profile \<Rightarrow> resource_scope \<Rightarrow> string \<Rightarrow> scope_report" where
  "scope_governance p scope target =
     \<lparr>sg_scope_declared = (scope \<noteq> []),
      sg_write_mediated =
        (\<forall>r \<in> set (governance_claims p). \<not> (cg_class r = FileSystemWrite \<and> cg_governance r \<noteq> FullyGoverned)),
      sg_target_coverage = scope_covers scope target\<rparr>"

section \<open>Containment is by path components\<close>

fun path_components :: "string \<Rightarrow> string list" where
  "path_components [] = [[]]"
| "path_components (c # cs) =
     (if c = slash then [] # path_components cs
      else (c # hd (path_components cs)) # tl (path_components cs))"

fun join_components :: "string list \<Rightarrow> string" where
  "join_components [] = []"
| "join_components [x] = x"
| "join_components (x # y # ys) = x @ slash # join_components (y # ys)"

lemma path_components_nonempty [simp]: "path_components p \<noteq> []"
  by (induction p) auto

lemma join_path_components [simp]: "join_components (path_components p) = p"
proof (induction p)
  case (Cons c cs)
  show ?case
  proof (cases "path_components cs")
    case (Cons y ys)
    then show ?thesis using Cons.IH by (cases ys) auto
  qed simp
qed simp

lemma join_append:
  "xs \<noteq> [] \<Longrightarrow> ys \<noteq> [] \<Longrightarrow> join_components (xs @ ys) = join_components xs @ slash # join_components ys"
proof (induction xs rule: join_components.induct)
  case (2 x)
  then show ?case by (cases ys) auto
qed auto

lemma path_components_append: "path_components (r @ slash # s) = path_components r @ path_components s"
  by (induction r) (auto simp: hd_append tl_append split: list.splits)

lemma path_contains_iff: "path_contains root target \<longleftrightarrow> target = root \<or> (\<exists>s. target = root @ slash # s)"
proof (cases "length root < length target")
  case True
  have "take (length root) target = root \<and> target ! length root = slash \<longleftrightarrow> (\<exists>s. target = root @ slash # s)"
    using id_take_nth_drop [OF True] by (metis append_take_drop_id drop_eq_Nil append_eq_conv_conj nth_append_length)
  with True show ?thesis by (auto simp: path_contains_def)
next
  case False
  then show ?thesis by (auto simp: path_contains_def)
qed

text \<open>
  containment is by path components, never by string prefix: a root governs a target
  exactly when the root's components are a prefix of the target's.
\<close>

theorem path_contains_components:
  "path_contains root target \<longleftrightarrow> (\<exists>rest. path_components target = path_components root @ rest)"
proof
  assume "path_contains root target"
  then show "\<exists>rest. path_components target = path_components root @ rest"
    by (auto simp: path_contains_iff path_components_append)
next
  assume "\<exists>rest. path_components target = path_components root @ rest"
  then obtain rest where r: "path_components target = path_components root @ rest" by blast
  have "target = join_components (path_components root @ rest)"
    using r by (metis join_path_components)
  then show "path_contains root target"
    by (cases "rest = []") (auto simp: path_contains_iff join_append)
qed

section \<open>What the scope builder accepts\<close>

definition normalized_path :: "string \<Rightarrow> bool" where
  "normalized_path q \<longleftrightarrow>
     backslash \<notin> set q \<and> CHR ''*'' \<notin> set q \<and> CHR ''?'' \<notin> set q \<and>
     (\<forall>c \<in> set (path_components q). c \<noteq> [] \<and> c \<noteq> ''.'' \<and> c \<noteq> ''..'')"

lemma path_components_split:
  "path_components p =
     takeWhile (\<lambda>c. c \<noteq> slash) p #
     (if dropWhile (\<lambda>c. c \<noteq> slash) p = [] then [] else path_components (tl (dropWhile (\<lambda>c. c \<noteq> slash) p)))"
  by (induction p) auto

lemma components_ok_rest:
  assumes "p \<noteq> []" "last p \<noteq> slash" "dropWhile (\<lambda>c. c \<noteq> slash) p \<noteq> []"
  shows "tl (dropWhile (\<lambda>c. c \<noteq> slash) p) \<noteq> []" "last (tl (dropWhile (\<lambda>c. c \<noteq> slash) p)) \<noteq> slash"
proof -
  let ?rest = "dropWhile (\<lambda>c. c \<noteq> slash) p"
  have "hd ?rest = slash" using hd_dropWhile [of "\<lambda>c. c \<noteq> slash" p] assms(3) by simp
  then obtain t where rest: "?rest = slash # t" using assms(3) by (cases ?rest) auto
  then have "p = takeWhile (\<lambda>c. c \<noteq> slash) p @ slash # t"
    using takeWhile_dropWhile_id [of "\<lambda>c. c \<noteq> slash" p] by simp
  then have "last p = last (slash # t)" by (metis last_appendR list.distinct(1))
  with assms(2) have "t \<noteq> []" "last t \<noteq> slash" by (auto split: if_splits)
  with rest show "tl ?rest \<noteq> []" "last (tl ?rest) \<noteq> slash" by simp_all
qed

lemma components_ok_iff:
  "p \<noteq> [] \<Longrightarrow> last p \<noteq> slash \<Longrightarrow>
   components_ok p \<longleftrightarrow> (\<forall>c \<in> set (path_components p). c \<noteq> [] \<and> c \<noteq> ''.'' \<and> c \<noteq> ''..'')"
proof (induction p rule: components_ok.induct)
  case (1 p)
  let ?comp = "takeWhile (\<lambda>c. c \<noteq> slash) p" and ?rest = "dropWhile (\<lambda>c. c \<noteq> slash) p"
  let ?ok = "\<lambda>c. c \<noteq> [] \<and> c \<noteq> ''.'' \<and> c \<noteq> ''..''"
  have ck: "components_ok p = (?ok ?comp \<and> (?rest = [] \<or> components_ok (tl ?rest)))"
    using 1(2) by (subst components_ok.simps) (simp only: Let_def if_False, metis)
  have pc: "(\<forall>c \<in> set (path_components p). ?ok c) \<longleftrightarrow>
            ?ok ?comp \<and> (?rest = [] \<or> (\<forall>c \<in> set (path_components (tl ?rest)). ?ok c))"
    by (subst path_components_split) (simp only: list.set if_split, auto)
  have "components_ok (tl ?rest) \<longleftrightarrow> (\<forall>c \<in> set (path_components (tl ?rest)). ?ok c)"
    if "?ok ?comp" "?rest \<noteq> []"
    using 1(1) [OF 1(2) refl refl] components_ok_rest [OF 1(2,3) that(2)] that by blast
  then show ?case unfolding ck pc by blast
qed

lemma strip_trailing_props:
  "set (strip_trailing p) \<subseteq> set p \<and> (1 < length (strip_trailing p) \<longrightarrow> last (strip_trailing p) \<noteq> slash)"
proof (induction p rule: strip_trailing.induct)
  case (1 p)
  show ?case
  proof (cases "1 < length p \<and> last p = slash")
    case True
    then have "strip_trailing p = strip_trailing (butlast p)" by (subst strip_trailing.simps) simp
    with 1 [OF True] show ?thesis by (auto dest: in_set_butlastD)
  next
    case False
    then have "strip_trailing p = p" by (subst strip_trailing.simps) auto
    with False show ?thesis by auto
  qed
qed

lemma set_forward_slashes: "backslash \<notin> set (forward_slashes p)"
  by (auto simp: forward_slashes_def)

lemma normalize_path_Some: "normalize_path p = Some q \<Longrightarrow> normalized_path q"
proof -
  assume n: "normalize_path p = Some q"
  then have q: "q = strip_trailing (forward_slashes p)" and ok: "components_ok q" "q \<noteq> []"
    and g: "CHR ''*'' \<notin> set (forward_slashes p)" "CHR ''?'' \<notin> set (forward_slashes p)"
    by (auto simp: normalize_path_def Let_def split: if_splits)
  have "last q \<noteq> slash"
  proof (cases "1 < length q")
    case True
    then show ?thesis using strip_trailing_props [of "forward_slashes p"] q by simp
  next
    case False
    then obtain c where "q = [c]" using ok(2) by (cases q) auto
    then show ?thesis using ok(1) by (auto simp: components_ok.simps)
  qed
  moreover have "set q \<subseteq> set (forward_slashes p)" using strip_trailing_props q by blast
  ultimately show ?thesis
    using ok g set_forward_slashes [of p] components_ok_iff [OF ok(2)]
    by (auto simp: normalized_path_def)
qed

lemma normalize_all_Some:
  "normalize_all ps = Some qs \<Longrightarrow> length qs = length ps \<and> (\<forall>q \<in> set qs. normalized_path q)"
  by (induction ps arbitrary: qs) (auto dest: normalize_path_Some split: option.splits)

lemma sorted_adjacent: "sorted xs \<Longrightarrow> \<not> adjacent_equal xs \<Longrightarrow> distinct xs"
  by (induction xs rule: adjacent_equal.induct) (auto simp: less_le)

text \<open>
  an accepted scope is sorted, duplicate-free, as long as the list of entries given,
  and every path in it is normalized: forward slashes only, no globs, no empty, dot or
  parent component.
\<close>

theorem scope_build_wellformed:
  assumes "scope_build pending = Inr scope"
  shows "sorted scope \<and> distinct scope \<and> length scope = length pending \<and>
         (\<forall>p \<in> set scope. normalized_path p)"
proof -
  from assms obtain ps where ps: "normalize_all pending = Some ps" "scope = sort ps"
    and "\<not> adjacent_equal (sort ps)"
    by (auto simp: scope_build_def Let_def split: option.splits if_splits)
  then show ?thesis
    using normalize_all_Some [OF ps(1)] sorted_adjacent [of "sort ps"] by simp
qed

lemma ex_scope: "scope_build [''src'', ''docs''] = Inr [''docs'', ''src'']"
  by (simp add: scope_build_def normalize_path_def forward_slashes_def strip_trailing.simps
      components_ok.simps Let_def less_char_def less_eq_char_def)

theorem scope_build_wellformed_witness:
  "scope_build [''src'', ''docs''] = Inr [''docs'', ''src''] \<and> distinct [''docs'', ''src'']"
  using scope_build_wellformed [OF ex_scope] ex_scope by simp

section \<open>The scope digest\<close>

context codec_laws
begin

lemma concat_put_bytes_inj:
  assumes "length xs = length ys" "concat (map (put_bytes F) xs) = concat (map (put_bytes F) ys)"
    and "\<forall>x \<in> set xs. length x < 2 ^ 64" "\<forall>y \<in> set ys. length y < 2 ^ 64"
  shows "xs = ys"
  using assms
proof (induction xs ys rule: list_induct2)
  case (Cons x xs y ys)
  from Cons.prems have "put_bytes F x @ concat (map (put_bytes F) xs) = put_bytes F y @ concat (map (put_bytes F) ys)"
    by simp
  then have "x = y \<and> concat (map (put_bytes F) xs) = concat (map (put_bytes F) ys)"
    by (rule put_bytes_app) (use Cons.prems in simp_all)
  with Cons show ?case by simp
qed simp

lemma length_concat_put_bytes: "x \<in> set xs \<Longrightarrow> length x \<le> length (concat (map (put_bytes F) xs))"
  by (induction xs) auto

lemma length_le_concat_put_bytes: "length xs \<le> length (concat (map (put_bytes F) xs))"
  by (induction xs) auto

lemma scope_preimage_inj:
  assumes e: "scope_preimage F s = scope_preimage F t"
    and l: "length (scope_preimage F s) \<le> preimage_capacity_limit"
  shows "s = t"
proof -
  have b: "length k < 2 ^ 64 \<and> (\<forall>x \<in> set k. length x < 2 ^ 64)"
    if "length (scope_preimage F k) \<le> preimage_capacity_limit" for k
  proof -
    have c: "length (concat (map (put_bytes F) k)) < 2 ^ 64"
      using that by (simp add: scope_preimage_def preimage_capacity_limit_def)
    then show ?thesis
      using length_concat_put_bytes [of _ k] length_le_concat_put_bytes [of k] by fastforce
  qed
  have bs: "length s < 2 ^ 64" "\<forall>x \<in> set s. length x < 2 ^ 64"
    and bt: "length t < 2 ^ 64" "\<forall>x \<in> set t. length x < 2 ^ 64"
    using b [of s] b [of t] l e by simp_all
  from e have "(of_nat (length s) :: u64) = of_nat (length t)"
    and r: "concat (map (put_bytes F) s) = concat (map (put_bytes F) t)"
    by (simp_all add: scope_preimage_def)
  then have "length s = length t"
    using bs(1) bt(1) by (simp add: word_of_nat_eq_iff take_bit_nat_eq_self)
  then show ?thesis using r bs(2) bt(2) by (rule concat_put_bytes_inj)
qed

end

section \<open>Governance reports\<close>

definition reports_ok :: "deployment_profile \<Rightarrow> capability_descriptor list \<Rightarrow> class_report list \<Rightarrow> bool" where
  "reports_ok p cs rs \<longleftrightarrow>
     distinct (map cg_class rs) \<and> cg_class ` set rs = cap_class ` set cs \<and>
     (\<forall>r \<in> set rs.
        cg_unmediated r = map cap_id (filter (\<lambda>c. cap_class c = cg_class r \<and> \<not> mediated p c) cs) \<and>
        (cg_governance r = FullyGoverned \<longleftrightarrow> cg_unmediated r = []))"

lemma set_update_report:
  "distinct (map cg_class rs) \<Longrightarrow> (\<And>r. cg_class (f r) = cg_class r) \<Longrightarrow>
   set (update_report f k rs) = (\<lambda>r. if cg_class r = k then f r else r) ` set rs"
  by (induction rs) (auto simp: image_iff)

lemma classes_update_report:
  "(\<And>r. cg_class (f r) = cg_class r) \<Longrightarrow> map cg_class (update_report f k rs) = map cg_class rs"
  by (induction rs) auto

lemma claim_step_ok:
  assumes "reports_ok p cs rs"
  shows "reports_ok p (cs @ [c]) (claim_step p rs c)"
proof -
  let ?f = "\<lambda>r. r\<lparr>cg_governance := NotFullyGoverned, cg_unmediated := cg_unmediated r @ [cap_id c]\<rparr>"
  let ?rs = "ensure_report rs (cap_class c)"
  have none: "filter (\<lambda>d. cap_class d = cap_class c \<and> \<not> mediated p d) cs = []"
    if "\<not> (\<exists>r \<in> set rs. cg_class r = cap_class c)"
  proof -
    have "cap_class c \<notin> cg_class ` set rs" using that by auto
    then have "cap_class c \<notin> cap_class ` set cs" using assms by (simp add: reports_ok_def)
    then show ?thesis by (auto simp: filter_empty_conv image_iff)
  qed
  have m: "distinct (map cg_class ?rs)" "cg_class ` set ?rs = cap_class ` set (cs @ [c])"
    "\<forall>r \<in> set ?rs.
        cg_unmediated r = map cap_id (filter (\<lambda>c. cap_class c = cg_class r \<and> \<not> mediated p c) cs) \<and>
        (cg_governance r = FullyGoverned \<longleftrightarrow> cg_unmediated r = [])"
  proof -
    have a: "distinct (map cg_class rs)" "cg_class ` set rs = cap_class ` set cs"
      "\<forall>r \<in> set rs. cg_unmediated r = map cap_id (filter (\<lambda>c. cap_class c = cg_class r \<and> \<not> mediated p c) cs) \<and>
          (cg_governance r = FullyGoverned \<longleftrightarrow> cg_unmediated r = [])"
      using assms unfolding reports_ok_def by blast+
    show "distinct (map cg_class ?rs)" using a(1) by (auto simp: ensure_report_def)
    show "cg_class ` set ?rs = cap_class ` set (cs @ [c])"
    proof (cases "cap_class c \<in> cg_class ` set rs")
      case True
      then have "?rs = rs" by (auto simp: ensure_report_def)
      with True a(2) show ?thesis by auto
    next
      case False
      then have "?rs = rs @ [\<lparr>cg_class = cap_class c, cg_governance = FullyGoverned, cg_unmediated = []\<rparr>]"
        by (force simp: ensure_report_def)
      with a(2) show ?thesis by simp
    qed
    show "\<forall>r \<in> set ?rs. cg_unmediated r = map cap_id (filter (\<lambda>c. cap_class c = cg_class r \<and> \<not> mediated p c) cs) \<and>
          (cg_governance r = FullyGoverned \<longleftrightarrow> cg_unmediated r = [])"
      using a(3) none by (auto simp: ensure_report_def)
  qed
  show ?thesis
  proof (cases "mediated p c")
    case True
    then show ?thesis using m by (simp add: claim_step_def Let_def reports_ok_def)
  next
    case False
    then have s: "claim_step p rs c = update_report ?f (cap_class c) ?rs"
      by (simp add: claim_step_def Let_def)
    have k: "map cg_class (update_report ?f (cap_class c) ?rs) = map cg_class ?rs"
      by (rule classes_update_report) simp
    then have k': "cg_class ` set (update_report ?f (cap_class c) ?rs) = cg_class ` set ?rs"
      by (metis list.set_map)
    have "set (update_report ?f (cap_class c) ?rs) = (\<lambda>r. if cg_class r = cap_class c then ?f r else r) ` set ?rs"
      by (rule set_update_report) (use m in simp_all)
    then show ?thesis
      unfolding reports_ok_def s k k' using m False by auto
  qed
qed

text \<open>
  the governance claims report every operation class of the capability universe once;
  a class is fully governed exactly when each of its capabilities has a mediation entry
  that is not Unmediated, and otherwise the report names the unmediated producers, all of
  them, in the order of the universe.
\<close>

theorem governance_claims_exact: "reports_ok p (dp_capabilities p) (governance_claims p)"
proof -
  have "reports_ok p cs (foldl (claim_step p) [] cs)" for cs
  proof (induction cs rule: rev_induct)
    case Nil
    then show ?case by (simp add: reports_ok_def)
  next
    case (snoc c cs)
    then show ?case by (simp add: claim_step_ok)
  qed
  then show ?thesis by (simp add: governance_claims_def)
qed

end
