(* ===== verification/Auth.thy ===== *)
theory Auth
  imports Identity
begin

text \<open>
  Cryptographic primitives (\<^verbatim>\<open>auth.hpp\<close>, \<^verbatim>\<open>auth.cpp\<close>).  The platform random device is a
  list of 32-bit words that the filling loop consumes; SHA-256 is the foundation's, and a
  hasher fed piecewise digests the concatenation of the pieces.
\<close>

type_synonym secret_key = bytes

definition block_size :: nat where
  "block_size = 64"

definition xor_pad :: "byte \<Rightarrow> secret_key \<Rightarrow> bytes" where
  "xor_pad v key = map (\<lambda>i. (if i < length key then key ! i else 0) XOR v) [0..<block_size]"

text \<open>
  \<^verbatim>\<open>csrandom_fill\<close> writes \<open>n\<close> bytes: four per device word, low byte first, the last word
  cut to what is left.
\<close>

fun csrandom_fill :: "nat \<Rightarrow> u32 list \<Rightarrow> bytes \<times> u32 list" where
  "csrandom_fill 0 device = ([], device)"
| "csrandom_fill (Suc n) [] = ([], [])"
| "csrandom_fill (Suc n) (w # device) =
     (let take_n = (if Suc n < 4 then Suc n else 4);
          (rest, device') = csrandom_fill (Suc n - take_n) device
      in (le_bytes take_n w @ rest, device'))"

definition csrandom_secret :: "u32 list \<Rightarrow> secret_key \<times> u32 list" where
  "csrandom_secret device = csrandom_fill 32 device"

definition hmac_sha256 :: "foundation \<Rightarrow> secret_key \<Rightarrow> bytes \<Rightarrow> bytes" where
  "hmac_sha256 F key message =
     (let inner = sha256 F (xor_pad 0x36 key @ message)
      in sha256 F (xor_pad 0x5C key @ inner))"

fun diff_bits :: "byte \<Rightarrow> bytes \<Rightarrow> bytes \<Rightarrow> byte" where
  "diff_bits d (a # as) (b # bs) = diff_bits (d OR (a XOR b)) as bs"
| "diff_bits d _ _ = d"

definition constant_time_equal :: "bytes \<Rightarrow> bytes \<Rightarrow> bool" where
  "constant_time_equal a b = (if length a \<noteq> length b then False else diff_bits 0 a b = 0)"

section \<open>The accumulated difference\<close>

lemma diff_bits_zero:
  "length a = length b \<Longrightarrow> diff_bits d a b = 0 \<longleftrightarrow> d = 0 \<and> a = b"
proof (induction a b arbitrary: d rule: list_induct2)
  case (Cons x xs y ys)
  have "x XOR y = 0 \<longleftrightarrow> x = y"
    by (metis xor.right_neutral xor_self_eq xor.left_commute)
  then show ?case using Cons.IH by (auto simp: or_eq_0_iff)
qed simp

lemma csrandom_fill_length:
  "n \<le> 4 * length device \<Longrightarrow> length (fst (csrandom_fill n device)) = n"
proof (induction n device rule: csrandom_fill.induct)
  case (3 n w device)
  let ?k = "if Suc n < 4 then Suc n else 4 :: nat"
  have "length (fst (csrandom_fill (Suc n - ?k) device)) = Suc n - ?k"
    using "3.prems" by (intro "3.IH") auto
  then show ?case by (auto simp: Let_def split: prod.splits)
qed simp_all

text \<open>The comparison without early exit decides equality of the two byte strings.\<close>

theorem constant_time_equal_iff: "constant_time_equal a b \<longleftrightarrow> a = b"
  by (auto simp: constant_time_equal_def diff_bits_zero)

text \<open>A secret takes 32 bytes from eight device words, all of them, low byte first.\<close>

theorem csrandom_secret_length:
  assumes "8 \<le> length device"
  shows "length (fst (csrandom_secret device)) = 32"
  using assms by (simp add: csrandom_secret_def csrandom_fill_length)

end
