(* ===== verification/Action.thy ===== *)
theory Action
  imports Manifest
begin

text \<open>
  Observed actions and where they come from: \<^verbatim>\<open>observed_action\<close>, the interception port's
  \<^verbatim>\<open>materialize_proposal\<close>, the outbound-claim port and the in-process loopback adapter.
\<close>

section \<open>Observed actions\<close>

record observed_action =
  oa_adapter :: adapter_id
  oa_session :: session_id
  oa_actor :: actor_id
  oa_capability :: capability_id
  oa_operation :: string
  oa_target :: string
  oa_argument_digest :: content_digest
  oa_argument_blob :: bytes

definition observe_action ::
    "foundation \<Rightarrow> adapter_id \<Rightarrow> session_id \<Rightarrow> actor_id \<Rightarrow> capability_id \<Rightarrow> string \<Rightarrow> string \<Rightarrow> bytes
     \<Rightarrow> observed_action" where
  "observe_action F adapter session actor capability operation target arguments =
     \<lparr>oa_adapter = adapter, oa_session = session, oa_actor = actor, oa_capability = capability,
      oa_operation = operation, oa_target = target, oa_argument_digest = sha256 F arguments,
      oa_argument_blob = arguments\<rparr>"

definition correlation_key_of ::
    "generation_id \<Rightarrow> observed_action \<Rightarrow> harness_action_id \<Rightarrow> correlation_key" where
  "correlation_key_of generation action harness_action =
     \<lparr>ck_generation = generation, ck_adapter = oa_adapter action, ck_session = oa_session action,
      ck_actor = oa_actor action, ck_action = harness_action\<rparr>"

section \<open>Interception\<close>

record intercepted_proposal =
  ip_adapter_name :: string
  ip_session :: u64
  ip_actor :: u64
  ip_credential :: u64
  ip_capability :: u64
  ip_operation :: string
  ip_target :: string
  ip_arguments :: bytes
  ip_harness_action :: u64

definition materialize_proposal :: "foundation \<Rightarrow> intercepted_proposal \<Rightarrow> observed_action res" where
  "materialize_proposal F p =
     (if ip_adapter_name p = [] \<or> ip_operation p = [] \<or> ip_target p = [] \<or> ip_session p = 0 \<or>
         ip_actor p = 0 \<or> ip_capability p = 0 \<or> ip_harness_action p = 0
      then Inl (mk_error Cat_invalid_argument 50)
      else Inr (observe_action F (fnv1a64 F (ip_adapter_name p)) (ip_session p) (ip_actor p)
                  (ip_capability p) (ip_operation p) (ip_target p) (ip_arguments p)))"

section \<open>The loopback adapter\<close>

datatype claim_channel = ToolMediated | FreeResponse
datatype claim_channel_result = Governed | NotGovernedClaim

record loopback_adapter =
  la_manifest :: adapter_manifest
  la_observed :: "u64 set"
  la_activations :: u64
  la_next_injection :: u64

definition loopback_init :: "foundation \<Rightarrow> string \<Rightarrow> u64 \<Rightarrow> loopback_adapter" where
  "loopback_init F name credential =
     (let m = \<lparr>mf_adapter_name = name, mf_version = 1, mf_capabilities = [], mf_credential = credential\<rparr>;
          cap = default_capability\<lparr>cap_id := 1, cap_adapter := adapter_instance_id F m, cap_class := Observe\<rparr>
      in \<lparr>la_manifest = m\<lparr>mf_capabilities := [cap]\<rparr>, la_observed = {}, la_activations = 0,
          la_next_injection = 1\<rparr>)"

definition submit_proposal :: "foundation \<Rightarrow> loopback_adapter \<Rightarrow> intercepted_proposal \<Rightarrow> observed_action res" where
  "submit_proposal F a p =
     (case materialize_proposal F p of
        Inl e \<Rightarrow> Inl e
      | Inr act \<Rightarrow>
          if oa_adapter act \<noteq> adapter_instance_id F (la_manifest a)
          then Inl (mk_error Cat_invalid_argument 51) else Inr act)"

definition loopback_notify_activation :: "loopback_adapter \<Rightarrow> u64 \<times> loopback_adapter" where
  "loopback_notify_activation a =
     (la_next_injection a,
      a\<lparr>la_activations := la_activations a + 1, la_next_injection := la_next_injection a + 1\<rparr>)"

definition route_claim :: "claim_channel \<Rightarrow> claim_channel_result" where
  "route_claim ch = (if ch = ToolMediated then Governed else NotGovernedClaim)"

definition observation_recorded :: "loopback_adapter \<Rightarrow> u64 \<Rightarrow> bool" where
  "observation_recorded a h \<longleftrightarrow> h \<in> la_observed a"

definition record_observation :: "loopback_adapter \<Rightarrow> u64 \<Rightarrow> loopback_adapter" where
  "record_observation a h = a\<lparr>la_observed := insert h (la_observed a)\<rparr>"

section \<open>What a materialized proposal carries\<close>

lemma loopback_manifest_identity:
  "adapter_instance_id F (la_manifest (loopback_init F name c)) = fnv1a64 F name"
  by (simp add: loopback_init_def adapter_instance_id_def Let_def)

text \<open>
  A proposal submitted to the loopback adapter is materialized exactly when its surface
  is complete and its adapter name has the adapter's own identity; the observed action then
  carries the proposal's fields, and its argument digest is the digest of the bytes it holds.
\<close>

theorem loopback_submit_exact:
  "submit_proposal F (loopback_init F name cred) p = Inr act \<longleftrightarrow>
     ip_adapter_name p \<noteq> [] \<and> ip_operation p \<noteq> [] \<and> ip_target p \<noteq> [] \<and> ip_session p \<noteq> 0 \<and>
     ip_actor p \<noteq> 0 \<and> ip_capability p \<noteq> 0 \<and> ip_harness_action p \<noteq> 0 \<and>
     fnv1a64 F (ip_adapter_name p) = fnv1a64 F name \<and>
     act = \<lparr>oa_adapter = fnv1a64 F name, oa_session = ip_session p, oa_actor = ip_actor p,
            oa_capability = ip_capability p, oa_operation = ip_operation p, oa_target = ip_target p,
            oa_argument_digest = sha256 F (oa_argument_blob act), oa_argument_blob = ip_arguments p\<rparr>"
  by (cases act)
     (auto simp: submit_proposal_def materialize_proposal_def observe_action_def loopback_manifest_identity)

end
