(* ===== verification/Intent.thy ===== *)
theory Intent
  imports Action "HOL-Library.Multiset"
begin

text \<open>
  Intent classification (\<^verbatim>\<open>intent.hpp\<close>, \<^verbatim>\<open>intent.cpp\<close>).  An intent set is the list of its
  members in order; a failed \<^verbatim>\<open>QIVEN_VERIFY\<close> of the classifier is \<open>None\<close>.
\<close>

datatype classification_basis = Mechanical | Structural | Declared | Judgment

fun basis_code :: "classification_basis \<Rightarrow> u32" where
  "basis_code Mechanical = 0"
| "basis_code Structural = 1"
| "basis_code Declared = 2"
| "basis_code Judgment = 3"

record intent_classification =
  ic_intent :: action_intent
  ic_basis :: classification_basis

type_synonym intent_set = "intent_classification list"

record structural_facts =
  sf_capability :: capability_descriptor
  sf_public_contract :: bool

definition same_string_set :: "string list \<Rightarrow> string list \<Rightarrow> bool" where
  "same_string_set left right =
     (if length left \<noteq> length right then False else sort left = sort right)"

definition same_failure :: "failure_fingerprint \<Rightarrow> failure_fingerprint \<Rightarrow> bool" where
  "same_failure l r \<longleftrightarrow>
     ff_operation l = ff_operation r \<and> ff_tool l = ff_tool r \<and> ff_category l = ff_category r \<and>
     ff_stableMessage l = ff_stableMessage r \<and> ff_exitCode l = ff_exitCode r"

definition same_projection :: "action_intent \<Rightarrow> action_intent \<Rightarrow> bool" where
  "same_projection left right =
     (if ai_kind left \<noteq> ai_kind right \<or> ai_claimClass left \<noteq> ai_claimClass right \<or>
         ai_tool left \<noteq> ai_tool right \<or> ai_operation left \<noteq> ai_operation right then False
      else if \<not> same_string_set (ai_concepts left) (ai_concepts right) \<or>
              \<not> same_string_set (ai_files left) (ai_files right) then False
      else case (ai_priorFailure left, ai_priorFailure right) of
             (None, None) \<Rightarrow> True
           | (Some l, Some r) \<Rightarrow> same_failure l r
           | _ \<Rightarrow> False)"

definition contains_kind :: "intent_set \<Rightarrow> action_kind \<Rightarrow> bool" where
  "contains_kind s k \<longleftrightarrow> (\<exists>m \<in> set s. ai_kind (ic_intent m) = k)"

definition same_member :: "intent_classification \<Rightarrow> intent_classification \<Rightarrow> bool" where
  "same_member a b \<longleftrightarrow> ic_basis a = ic_basis b \<and> same_projection (ic_intent a) (ic_intent b)"

definition intent_set_eq :: "intent_set \<Rightarrow> intent_set \<Rightarrow> bool" where
  "intent_set_eq s t \<longleftrightarrow> list_all2 same_member s t"

definition keep_member :: "intent_set \<Rightarrow> intent_classification \<Rightarrow> intent_set" where
  "keep_member kept m = (if \<exists>k \<in> set kept. same_member k m then kept else kept @ [m])"

definition make_intent_set :: "intent_classification list \<Rightarrow> intent_set res" where
  "make_intent_set members =
     (if members = [] then Inl (mk_error Cat_internal 10)
      else Inr (foldl keep_member [] members))"

definition classification_members ::
    "draft \<Rightarrow> observed_action \<Rightarrow> structural_facts \<Rightarrow> action_intent list \<Rightarrow> intent_classification list" where
  "classification_members D action facts declared =
     (let cap = sf_capability facts;
          claim = (if can_publish_claims cap
            then [\<lparr>ic_intent = (default_intent D)\<lparr>ai_kind := MakeCanonicalClaim,
                     ai_claimClass := CanonicalFact, ai_tool := oa_operation action\<rparr>,
                   ic_basis = Mechanical\<rparr>] else []);
          mutation = (if can_mutate_world cap
            then [\<lparr>ic_intent = (default_intent D)\<lparr>
                     ai_kind := (if sf_public_contract facts then ModifyPublicAPI else ModifyReferencedContract),
                     ai_tool := oa_operation action,
                     ai_files := ai_files (default_intent D) @ [oa_target action]\<rparr>,
                   ic_basis = Structural\<rparr>] else []);
          launch = (if cap_class cap = ProcessLaunch
            then [\<lparr>ic_intent = (default_intent D)\<lparr>ai_kind := InvokeTool,
                     ai_claimClass := LocalRecall, ai_tool := oa_operation action\<rparr>,
                   ic_basis = Mechanical\<rparr>] else []);
          advisory = map (\<lambda>i. \<lparr>ic_intent = i, ic_basis = Declared\<rparr>) declared;
          members = claim @ mutation @ launch @ advisory
      in if members = []
         then [\<lparr>ic_intent = (default_intent D)\<lparr>ai_kind := BeginTask\<rparr>, ic_basis = Mechanical\<rparr>]
         else members)"

definition classify ::
    "draft \<Rightarrow> observed_action \<Rightarrow> structural_facts \<Rightarrow> action_intent list \<Rightarrow> intent_set option" where
  "classify D action facts declared =
     (case make_intent_set (classification_members D action facts declared) of
        Inl _ \<Rightarrow> None | Inr s \<Rightarrow> Some s)"

section \<open>Projection equality\<close>

lemma same_string_set_mset: "same_string_set l r \<longleftrightarrow> mset l = mset r"
proof -
  have "sort l = sort r \<longleftrightarrow> mset l = mset r"
    by (metis mset_sort properties_for_sort sorted_sort)
  then show ?thesis by (auto simp: same_string_set_def dest: mset_eq_length)
qed

lemma same_failure_eq [simp]: "same_failure l r \<longleftrightarrow> l = r"
  by (cases l; cases r) (auto simp: same_failure_def)

text \<open>The facts an intent is compared by: file and concept order does not matter.\<close>

definition intent_key :: "action_intent \<Rightarrow>
    action_kind \<times> claim_class \<times> string \<times> string \<times> string multiset \<times> string multiset \<times> failure_fingerprint option" where
  "intent_key i = (ai_kind i, ai_claimClass i, ai_tool i, ai_operation i, mset (ai_concepts i), mset (ai_files i),
                   ai_priorFailure i)"

definition member_key where
  "member_key m = (ic_basis m, intent_key (ic_intent m))"

text \<open>
  Two projections are the same intent exactly when they agree on kind, claim class, tool,
  operation and prior failure and have the same concepts and files up to order.
\<close>

theorem same_projection_iff: "same_projection l r \<longleftrightarrow> intent_key l = intent_key r"
  by (auto simp: same_projection_def intent_key_def same_string_set_mset split: option.splits)

lemma same_member_key: "same_member a b \<longleftrightarrow> member_key a = member_key b"
proof -
  have "same_projection l r \<longleftrightarrow> intent_key l = intent_key r" for l r
    by (auto simp: same_projection_def intent_key_def same_string_set_mset split: option.splits)
  then show ?thesis by (simp add: same_member_def member_key_def)
qed

section \<open>Intent sets\<close>

lemma keep_member_props:
  assumes "distinct (map member_key kept)"
  shows "distinct (map member_key (keep_member kept m)) \<and>
         member_key ` set (keep_member kept m) = insert (member_key m) (member_key ` set kept) \<and>
         set (keep_member kept m) \<subseteq> insert m (set kept)"
proof (cases "member_key m \<in> member_key ` set kept")
  case True
  then have "keep_member kept m = kept" by (force simp: keep_member_def same_member_key)
  with True assms show ?thesis by auto
next
  case False
  have "\<not> (\<exists>k \<in> set kept. same_member k m)"
  proof
    assume "\<exists>k \<in> set kept. same_member k m"
    then obtain k where "k \<in> set kept" "member_key m = member_key k" by (auto simp: same_member_key)
    then have "member_key m \<in> member_key ` set kept" by (simp only: image_eqI)
    with False show False ..
  qed
  then have "keep_member kept m = kept @ [m]" by (simp add: keep_member_def)
  with False assms show ?thesis by auto
qed

lemma fold_keep_member:
  "distinct (map member_key kept) \<Longrightarrow>
   distinct (map member_key (foldl keep_member kept ms)) \<and>
   member_key ` set (foldl keep_member kept ms) = member_key ` set kept \<union> member_key ` set ms \<and>
   set (foldl keep_member kept ms) \<subseteq> set kept \<union> set ms"
proof (induction ms arbitrary: kept)
  case (Cons m ms)
  note k = keep_member_props [OF Cons.prems, of m]
  then have "distinct (map member_key (keep_member kept m))" by blast
  from Cons.IH [OF this] k show ?case by auto
qed simp

lemma make_intent_set_Inr:
  assumes "ms \<noteq> []"
  shows "make_intent_set ms = Inr (foldl keep_member [] ms)" and "foldl keep_member [] ms \<noteq> []"
proof -
  show "make_intent_set ms = Inr (foldl keep_member [] ms)" using assms by (simp add: make_intent_set_def)
  have "member_key ` set (foldl keep_member [] ms) = member_key ` set ms"
    using fold_keep_member [of "[]" ms] by simp
  with assms show "foldl keep_member [] ms \<noteq> []" by auto
qed

lemma classification_members_nonempty [simp]: "classification_members D a f ds \<noteq> []"
  by (simp add: classification_members_def Let_def)

lemma classify_total:
  "classify D a f ds = Some (foldl keep_member [] (classification_members D a f ds))"
  by (simp add: classify_def make_intent_set_Inr)

lemma classify_member:
  assumes "classify D a f ds = Some s" "m \<in> set (classification_members D a f ds)"
  shows "\<exists>k \<in> set s. member_key k = member_key m"
proof -
  have "member_key ` set s = member_key ` set (classification_members D a f ds)"
    using assms(1) fold_keep_member [of "[]" "classification_members D a f ds"]
    by (simp add: classify_total)
  then have "member_key m \<in> member_key ` set s" using assms(2) by simp
  then show ?thesis by force
qed

lemma contains_kindI: "k \<in> set s \<Longrightarrow> member_key k = member_key m \<Longrightarrow> contains_kind s (ai_kind (ic_intent m))"
  by (auto simp: contains_kind_def member_key_def intent_key_def)

text \<open>
  classification never fails; its result is non-empty, has no two members with the same
  basis and projection, contains the intents that the capability makes undeniable (a canonical
  claim, a contract change, a tool invocation) whatever the participant declares, and contains
  every declared intent as an advisory member.
\<close>

theorem classify_floor:
  "\<exists>s. classify D action facts declared = Some s \<and> s \<noteq> [] \<and> distinct (map member_key s) \<and>
     (can_publish_claims (sf_capability facts) \<longrightarrow> contains_kind s MakeCanonicalClaim) \<and>
     (can_mutate_world (sf_capability facts) \<longrightarrow>
        contains_kind s (if sf_public_contract facts then ModifyPublicAPI else ModifyReferencedContract)) \<and>
     (cap_class (sf_capability facts) = ProcessLaunch \<longrightarrow> contains_kind s InvokeTool) \<and>
     (\<forall>d \<in> set declared. \<exists>m \<in> set s. ic_basis m = Declared \<and> same_projection (ic_intent m) d)"
proof -
  let ?ms = "classification_members D action facts declared"
  let ?s = "foldl keep_member [] ?ms"
  have c: "classify D action facts declared = Some ?s" by (rule classify_total)
  have kind: "contains_kind ?s (ai_kind (ic_intent m))" if "m \<in> set ?ms" for m
    using classify_member [OF c that] contains_kindI by blast
  have "\<exists>m \<in> set ?s. ic_basis m = Declared \<and> same_projection (ic_intent m) d" if "d \<in> set declared" for d
  proof -
    have "\<lparr>ic_intent = d, ic_basis = Declared\<rparr> \<in> set ?ms"
      using that by (auto simp: classification_members_def Let_def)
    from classify_member [OF c this] show ?thesis
      by (auto simp: same_member_def same_member_key [symmetric])
  qed
  moreover have "contains_kind ?s MakeCanonicalClaim" if "can_publish_claims (sf_capability facts)"
    using kind [of "\<lparr>ic_intent = (default_intent D)\<lparr>ai_kind := MakeCanonicalClaim,
       ai_claimClass := CanonicalFact, ai_tool := oa_operation action\<rparr>, ic_basis = Mechanical\<rparr>"] that
    by (simp add: classification_members_def Let_def)
  moreover have "contains_kind ?s (if sf_public_contract facts then ModifyPublicAPI else ModifyReferencedContract)"
    if "can_mutate_world (sf_capability facts)"
    using kind [of "\<lparr>ic_intent = (default_intent D)\<lparr>
       ai_kind := (if sf_public_contract facts then ModifyPublicAPI else ModifyReferencedContract),
       ai_tool := oa_operation action,
       ai_files := ai_files (default_intent D) @ [oa_target action]\<rparr>, ic_basis = Structural\<rparr>"] that
    by (simp add: classification_members_def Let_def)
  moreover have "contains_kind ?s InvokeTool" if "cap_class (sf_capability facts) = ProcessLaunch"
    using kind [of "\<lparr>ic_intent = (default_intent D)\<lparr>ai_kind := InvokeTool,
       ai_claimClass := LocalRecall, ai_tool := oa_operation action\<rparr>, ic_basis = Mechanical\<rparr>"] that
    by (simp add: classification_members_def Let_def)
  moreover have "?s \<noteq> []" "distinct (map member_key ?s)"
    using make_intent_set_Inr [of ?ms] fold_keep_member [of "[]" ?ms] by simp_all
  ultimately show ?thesis using c by blast
qed

definition ex_action :: observed_action where
  "ex_action = observe_action ref_foundation 1 2 3 4 ''write'' ''src/main'' [7]"

definition ex_facts :: structural_facts where
  "ex_facts = \<lparr>sf_capability = ex_capability\<lparr>can_publish_claims := True\<rparr>, sf_public_contract = False\<rparr>"

theorem classify_floor_witness:
  "\<exists>s. classify ref_draft ex_action ex_facts [] = Some s \<and> contains_kind s MakeCanonicalClaim \<and>
       contains_kind s ModifyReferencedContract"
  using classify_floor [of ref_draft ex_action ex_facts "[]"]
  by (auto simp: ex_facts_def ex_capability_def)

end
