(* ===== verification/Requirement.thy ===== *)
theory Requirement
  imports Intent
begin

text \<open>
  Requirement derivation with provenance (\<^verbatim>\<open>requirement.hpp\<close>, \<^verbatim>\<open>requirement.cpp\<close>).  A
  requirement set is the list of its instances; an instance remembers the indices of the
  intents that produced it.
\<close>

record requirement_identity =
  ri_kind :: requirement_kind
  ri_subject :: string
  ri_boundary :: requirement_boundary
  ri_blocking :: bool

record requirement_instance =
  rq_identity :: requirement_identity
  rq_spec :: cognitive_requirement
  rq_origins :: "u32 list"

definition identity_of :: "prepared_requirement \<Rightarrow> requirement_identity" where
  "identity_of p =
     \<lparr>ri_kind = cr_kind (pr_requirement p), ri_subject = cr_subject (pr_requirement p),
      ri_boundary = pr_boundary p, ri_blocking = pr_blocking p\<rparr>"

definition find_requirement :: "requirement_instance list \<Rightarrow> requirement_identity \<Rightarrow> requirement_instance option" where
  "find_requirement rs i = find (\<lambda>r. rq_identity r = i) rs"

definition add_origin :: "u32 list \<Rightarrow> u32 \<Rightarrow> u32 list" where
  "add_origin os n = (if n \<in> set os then os else os @ [n])"

fun merge_requirement :: "requirement_instance list \<Rightarrow> requirement_instance \<Rightarrow> requirement_instance list" where
  "merge_requirement [] i = [i]"
| "merge_requirement (e # es) i =
     (if rq_identity e = rq_identity i
      then e\<lparr>rq_origins := foldl add_origin (rq_origins e) (rq_origins i)\<rparr> # es
      else e # merge_requirement es i)"

definition instance_of :: "nat \<Rightarrow> prepared_requirement \<Rightarrow> requirement_instance" where
  "instance_of index p =
     \<lparr>rq_identity = identity_of p, rq_spec = pr_requirement p, rq_origins = [of_nat index]\<rparr>"

definition derive_intent ::
    "draft \<Rightarrow> snapshot \<Rightarrow> requirement_instance list \<Rightarrow> nat \<times> intent_classification \<Rightarrow> requirement_instance list" where
  "derive_intent D snap rs x =
     foldl (\<lambda>rs p. merge_requirement rs (instance_of (fst x) p)) rs
       (derive_requirements D snap (ic_intent (snd x)))"

definition derive_requirement_set :: "draft \<Rightarrow> snapshot \<Rightarrow> intent_set \<Rightarrow> requirement_instance list" where
  "derive_requirement_set D snap intents = foldl (derive_intent D snap) [] (enumerate 0 intents)"

section \<open>Merging keeps one instance per identity\<close>

definition origins_of :: "requirement_instance list \<Rightarrow> requirement_identity \<Rightarrow> u32 set" where
  "origins_of xs i = (\<Union>x \<in> {x \<in> set xs. rq_identity x = i}. set (rq_origins x))"

text \<open>\<open>rs\<close> is the merge of the instances \<open>xs\<close>.\<close>

definition merged :: "requirement_instance list \<Rightarrow> requirement_instance list \<Rightarrow> bool" where
  "merged xs rs \<longleftrightarrow>
     distinct (map rq_identity rs) \<and> rq_identity ` set rs = rq_identity ` set xs \<and>
     (\<forall>r \<in> set rs. distinct (rq_origins r) \<and> set (rq_origins r) = origins_of xs (rq_identity r))"

lemma add_origins:
  "set (foldl add_origin os ns) = set os \<union> set ns \<and> (distinct os \<longrightarrow> distinct (foldl add_origin os ns))"
  by (induction ns arbitrary: os) (auto simp: add_origin_def)

lemma identities_merge:
  "map rq_identity (merge_requirement rs i) =
     (if rq_identity i \<in> rq_identity ` set rs then map rq_identity rs else map rq_identity rs @ [rq_identity i])"
  by (induction rs) (auto simp: image_iff)

lemma set_merge_requirement:
  assumes "distinct (map rq_identity rs)" "r \<in> set (merge_requirement rs i)"
  shows "(r \<in> set rs \<and> rq_identity r \<noteq> rq_identity i) \<or>
         (r = i \<and> rq_identity i \<notin> rq_identity ` set rs) \<or>
         (\<exists>e \<in> set rs. rq_identity e = rq_identity i \<and>
            r = e\<lparr>rq_origins := foldl add_origin (rq_origins e) (rq_origins i)\<rparr>)"
  using assms
proof (induction rs)
  case (Cons e es)
  show ?case
  proof (cases "rq_identity e = rq_identity i")
    case True
    with Cons.prems show ?thesis by (auto simp: image_iff)
  next
    case False
    with Cons show ?thesis by (auto simp: image_iff)
  qed
qed simp

lemma origins_of_snoc:
  "origins_of (xs @ [i]) j = origins_of xs j \<union> (if rq_identity i = j then set (rq_origins i) else {})"
  by (auto simp: origins_of_def)

lemma origins_of_absent: "j \<notin> rq_identity ` set xs \<Longrightarrow> origins_of xs j = {}"
  by (auto simp: origins_of_def)

lemma merged_merge:
  assumes m: "merged xs rs" and d: "distinct (rq_origins i)"
  shows "merged (xs @ [i]) (merge_requirement rs i)"
proof -
  have dist: "distinct (map rq_identity rs)" and ids: "rq_identity ` set rs = rq_identity ` set xs"
    and org: "\<And>r. r \<in> set rs \<Longrightarrow> distinct (rq_origins r) \<and> set (rq_origins r) = origins_of xs (rq_identity r)"
    using m by (auto simp: merged_def)
  have dist': "distinct (map rq_identity (merge_requirement rs i))"
    using dist by (auto simp: identities_merge image_iff)
  have "rq_identity ` set (merge_requirement rs i) = set (map rq_identity (merge_requirement rs i))" by simp
  also have "\<dots> = insert (rq_identity i) (rq_identity ` set rs)"
    unfolding identities_merge by auto
  finally have ids': "rq_identity ` set (merge_requirement rs i) = rq_identity ` set (xs @ [i])"
    using ids by simp
  have "distinct (rq_origins r) \<and> set (rq_origins r) = origins_of (xs @ [i]) (rq_identity r)"
    if r: "r \<in> set (merge_requirement rs i)" for r
    using set_merge_requirement [OF dist r]
  proof (elim disjE)
    assume "r \<in> set rs \<and> rq_identity r \<noteq> rq_identity i"
    then show ?thesis using org by (auto simp: origins_of_snoc)
  next
    assume "r = i \<and> rq_identity i \<notin> rq_identity ` set rs"
    then show ?thesis using d ids by (auto simp: origins_of_snoc origins_of_absent)
  next
    assume "\<exists>e \<in> set rs. rq_identity e = rq_identity i \<and>
       r = e\<lparr>rq_origins := foldl add_origin (rq_origins e) (rq_origins i)\<rparr>"
    then show ?thesis using org add_origins by (auto simp: origins_of_snoc)
  qed
  with dist' ids' show ?thesis by (simp add: merged_def)
qed

lemma merged_foldl:
  "merged xs rs \<Longrightarrow> \<forall>i \<in> set is. distinct (rq_origins i) \<Longrightarrow> merged (xs @ is) (foldl merge_requirement rs is)"
proof (induction "is" arbitrary: xs rs)
  case (Cons i "is")
  then have "merged (xs @ [i]) (merge_requirement rs i)" by (simp add: merged_merge)
  from Cons.IH [OF this] Cons.prems show ?case by simp
qed simp

definition derived_instances :: "draft \<Rightarrow> snapshot \<Rightarrow> intent_set \<Rightarrow> requirement_instance list" where
  "derived_instances D snap intents =
     concat (map (\<lambda>k. map (instance_of k) (derive_requirements D snap (ic_intent (intents ! k)))) [0..<length intents])"

lemma enumerate_upt: "enumerate 0 xs = map (\<lambda>k. (k, xs ! k)) [0..<length xs]"
  by (rule nth_equalityI) (simp_all add: nth_enumerate_eq)

lemma derive_intent_fold:
  "foldl (derive_intent D snap) rs (map (\<lambda>k. (k, g k)) ks) =
     foldl merge_requirement rs
       (concat (map (\<lambda>k. map (instance_of k) (derive_requirements D snap (ic_intent (g k)))) ks))"
proof (induction ks arbitrary: rs)
  case (Cons k ks)
  have "derive_intent D snap rs (k, g k) =
      foldl merge_requirement rs (map (instance_of k) (derive_requirements D snap (ic_intent (g k))))"
    by (simp add: derive_intent_def foldl_map)
  with Cons show ?case by simp
qed simp

lemma instance_of_sel [simp]:
  "rq_identity (instance_of k p) = identity_of p" "rq_origins (instance_of k p) = [of_nat k]"
  by (simp_all add: instance_of_def)

lemma in_derived_instances:
  "x \<in> set (derived_instances D snap intents) \<longleftrightarrow>
     (\<exists>k < length intents. \<exists>p \<in> set (derive_requirements D snap (ic_intent (intents ! k))). x = instance_of k p)"
  by (auto simp: derived_instances_def)

lemma merged_derive: "merged (derived_instances D snap intents) (derive_requirement_set D snap intents)"
proof -
  have "\<forall>i \<in> set (derived_instances D snap intents). distinct (rq_origins i)"
    by (auto simp: in_derived_instances instance_of_def)
  moreover have "derive_requirement_set D snap intents = foldl merge_requirement [] (derived_instances D snap intents)"
    unfolding derive_requirement_set_def enumerate_upt derive_intent_fold derived_instances_def ..
  ultimately show ?thesis
    using merged_foldl [of "[]" "[]" "derived_instances D snap intents"] by (simp add: merged_def)
qed

lemma bex_nth: "(\<exists>k < length xs. P (xs ! k)) \<longleftrightarrow> (\<exists>x \<in> set xs. P x)"
  by (metis in_set_conv_nth)

lemma identities_derived:
  "i \<in> rq_identity ` set (derived_instances D snap intents) \<longleftrightarrow>
     (\<exists>m \<in> set intents. i \<in> identity_of ` set (derive_requirements D snap (ic_intent m)))"
proof -
  have "i \<in> rq_identity ` set (derived_instances D snap intents) \<longleftrightarrow>
     (\<exists>k < length intents. \<exists>p \<in> set (derive_requirements D snap (ic_intent (intents ! k))). i = identity_of p)"
    unfolding image_iff Bex_def in_derived_instances by (metis instance_of_sel(1))
  also have "\<dots> \<longleftrightarrow> (\<exists>m \<in> set intents. i \<in> identity_of ` set (derive_requirements D snap (ic_intent m)))"
    unfolding image_iff
    by (rule bex_nth [of intents "\<lambda>m. \<exists>p \<in> set (derive_requirements D snap (ic_intent m)). i = identity_of p"])
  finally show ?thesis .
qed

lemma origins_derived:
  "origins_of (derived_instances D snap intents) i =
     {of_nat k | k. k < length intents \<and> i \<in> identity_of ` set (derive_requirements D snap (ic_intent (intents ! k)))}"
  (is "?L = ?R")
proof (rule set_eqI)
  fix w
  have "w \<in> ?L \<longleftrightarrow> (\<exists>x. x \<in> set (derived_instances D snap intents) \<and> rq_identity x = i \<and> w \<in> set (rq_origins x))"
    by (auto simp: origins_of_def)
  also have "\<dots> \<longleftrightarrow> w \<in> ?R"
    unfolding in_derived_instances by fastforce
  finally show "w \<in> ?L \<longleftrightarrow> w \<in> ?R" .
qed

text \<open>
  the derived set holds each requirement identity once, holds exactly the identities that
  the cognition library derives for some intent of the set, and records for each of them
  exactly the indices of the intents that produced it, without repetition.
\<close>

theorem derive_requirement_set_exact:
  "let rs = derive_requirement_set D snap intents in
     distinct (map rq_identity rs) \<and>
     rq_identity ` set rs =
       (\<Union>m \<in> set intents. identity_of ` set (derive_requirements D snap (ic_intent m))) \<and>
     (\<forall>r \<in> set rs. distinct (rq_origins r) \<and>
        set (rq_origins r) =
          {of_nat k | k. k < length intents \<and>
             rq_identity r \<in> identity_of ` set (derive_requirements D snap (ic_intent (intents ! k)))})"
proof -
  let ?rs = "derive_requirement_set D snap intents" and ?xs = "derived_instances D snap intents"
  have ids: "rq_identity ` set ?xs =
      (\<Union>m \<in> set intents. identity_of ` set (derive_requirements D snap (ic_intent m)))"
    by (rule set_eqI) (simp add: identities_derived)
  show ?thesis
    using merged_derive [of D snap intents] unfolding merged_def ids origins_derived Let_def by blast
qed

theorem derive_requirement_set_exact_witness:
  "distinct (map rq_identity (derive_requirement_set ref_draft [] (foldl keep_member [] (classification_members ref_draft ex_action ex_facts []))))"
  using derive_requirement_set_exact [of ref_draft "[]" "foldl keep_member [] (classification_members ref_draft ex_action ex_facts [])"]
  unfolding Let_def by blast

end
