(* ===== verification/Transaction.thy ===== *)
theory Transaction
  imports Requirement
begin

text \<open>
  The cognition port (\<^verbatim>\<open>port/cognition_port.hpp\<close>, \<^verbatim>\<open>cognition.cpp\<close>) and control transactions
  (\<^verbatim>\<open>transaction.hpp\<close>, \<^verbatim>\<open>transaction.cpp\<close>): pinned cognition, the phase machine and the two
  preparation gates.  A function that updates a transaction in place and returns a bool is a
  function from the transaction to the pair.
\<close>

section \<open>Pinned cognition\<close>

datatype pin_error_kind =
    FileUnavailable | EmptySource | Truncated | BadVersion | BadEnum | ResourceAbuse
  | DigestMismatch | Pin_Unknown

record pin_error =
  pe_kind :: pin_error_kind
  pe_detail :: string

record pinned_cognition =
  pc_revision :: revision_id
  pc_source_revision :: string
  pc_snapshot_digest :: bytes
  pc_snapshot_digest_sha256 :: content_digest
  pc_policy_digest :: content_digest
  pc_epoch :: u64
  pc_snapshot :: "snapshot option"

definition same_revision :: "pinned_cognition \<Rightarrow> pinned_cognition \<Rightarrow> bool" where
  "same_revision a b \<longleftrightarrow> pc_revision a = pc_revision b \<and> pc_source_revision a = pc_source_revision b"

text \<open>
  What the cognition library returns when it materializes a byte string: a handle, or none, and
  the error value it wrote.  The two functions the reader calls are arguments of \<open>pin\<close>:
  materialization with an expected content identity, and the canonical serialization of the
  policy part of a snapshot.
\<close>

datatype deserialize_kind =
    DK_Truncated | DK_BadVersion | DK_BadEnum | DK_ResourceAbuse | DK_DigestMismatch | DK_other u32

record deserialize_error =
  de_kind :: deserialize_kind
  de_detail :: string

record cognition_handle =
  ch_state :: "snapshot option"
  ch_digest :: bytes
  ch_epoch :: u64

fun map_deserialize_kind :: "deserialize_kind \<Rightarrow> pin_error_kind" where
  "map_deserialize_kind DK_Truncated = Truncated"
| "map_deserialize_kind DK_BadVersion = BadVersion"
| "map_deserialize_kind DK_BadEnum = BadEnum"
| "map_deserialize_kind DK_ResourceAbuse = ResourceAbuse"
| "map_deserialize_kind DK_DigestMismatch = DigestMismatch"
| "map_deserialize_kind (DK_other n) = Pin_Unknown"

definition map_deserialize_error :: "deserialize_error \<Rightarrow> pin_error" where
  "map_deserialize_error e = \<lparr>pe_kind = map_deserialize_kind (de_kind e), pe_detail = de_detail e\<rparr>"

definition content_addressed_revision :: "foundation \<Rightarrow> content_digest \<Rightarrow> revision_id" where
  "content_addressed_revision F d = ''sha256:'' @ hex_sha256 F d"

text \<open>
  \<open>file\<close> is the content of the requested file, \<open>None\<close> when it does not exist or cannot be
  opened; \<open>path\<close> is its name, which only the error carries.
\<close>

definition pin ::
    "foundation \<Rightarrow> (bytes \<Rightarrow> string \<Rightarrow> cognition_handle option \<times> deserialize_error) \<Rightarrow> (snapshot \<Rightarrow> bytes)
     \<Rightarrow> string \<Rightarrow> bytes option \<Rightarrow> string \<Rightarrow> pin_error + pinned_cognition" where
  "pin F create_cognition serialize_policy path file expected =
     (case file of
        None \<Rightarrow> Inl \<lparr>pe_kind = FileUnavailable, pe_detail = path\<rparr>
      | Some bs \<Rightarrow>
          (case create_cognition bs expected of (handle, e) \<Rightarrow>
             (case Option.bind handle ch_state of
                None \<Rightarrow> Inl (map_deserialize_error e)
              | Some st \<Rightarrow> Inr
                  \<lparr>pc_revision = content_addressed_revision F (sha256 F bs), pc_source_revision = [],
                   pc_snapshot_digest = ch_digest (the handle), pc_snapshot_digest_sha256 = sha256 F bs,
                   pc_policy_digest = sha256 F (serialize_policy st), pc_epoch = ch_epoch (the handle),
                   pc_snapshot = Some st\<rparr>)))"

section \<open>Transactions\<close>

datatype transaction_phase =
    Observed | Classified | PolicyPinned | RequirementsDerived | PreparingBeforeJudgment
  | Denied | ReDeliberationRequired | PreparedForJudgment | PreparingBeforeExecution
  | AwaitingRequirement | CognitiveAllowed | Stale

record control_transaction =
  ct_id :: transaction_id
  ct_causal_parent :: "transaction_id option"
  ct_correlation :: correlation_key
  ct_action :: observed_action
  ct_intents :: intent_set
  ct_cognition :: pinned_cognition
  ct_packet :: preparation_packet
  ct_phase :: transaction_phase

definition terminal :: "control_transaction \<Rightarrow> bool" where
  "terminal t \<longleftrightarrow> ct_phase t = Denied \<or> ct_phase t = ReDeliberationRequired"

text \<open>The minter is the next value it will hand out; it starts at 1.\<close>

definition minter_next :: "u64 \<Rightarrow> transaction_id \<times> u64" where
  "minter_next m = (m, m + 1)"

definition minter_last_value :: "u64 \<Rightarrow> u64" where
  "minter_last_value m = m - 1"

definition begin_control_transaction ::
    "transaction_id \<Rightarrow> transaction_id option \<Rightarrow> correlation_key \<Rightarrow> observed_action \<Rightarrow> intent_set
     \<Rightarrow> pinned_cognition \<Rightarrow> preparation_packet \<Rightarrow> control_transaction" where
  "begin_control_transaction i parent key action intents cognition packet =
     \<lparr>ct_id = i, ct_causal_parent = parent, ct_correlation = key, ct_action = action,
      ct_intents = intents, ct_cognition = cognition, ct_packet = packet, ct_phase = RequirementsDerived\<rparr>"

definition evaluate_before_judgment :: "draft \<Rightarrow> control_transaction \<Rightarrow> bool \<times> control_transaction" where
  "evaluate_before_judgment D t =
     (if terminal t then (False, t)
      else
        let t = t\<lparr>ct_phase := PreparingBeforeJudgment\<rparr> in
        if pk_failure (ct_packet t) \<noteq> PF_None then (True, t\<lparr>ct_phase := Denied\<rparr>)
        else if ready_for_judgment D (ct_packet t) then (True, t\<lparr>ct_phase := PreparedForJudgment\<rparr>)
        else if \<exists>p \<in> set (pk_requirements (ct_packet t)).
                  pr_blocking p \<and> pr_boundary p = BeforeJudgment \<and> pr_status p = Failed
        then (True, t\<lparr>ct_phase := Denied\<rparr>)
        else (True, t\<lparr>ct_phase := ReDeliberationRequired\<rparr>))"

definition evaluate_before_execution :: "draft \<Rightarrow> control_transaction \<Rightarrow> bool \<times> control_transaction" where
  "evaluate_before_execution D t =
     (if ct_phase t \<noteq> PreparedForJudgment \<and> ct_phase t \<noteq> AwaitingRequirement then (False, t)
      else
        let t = t\<lparr>ct_phase := PreparingBeforeExecution\<rparr> in
        if pk_failure (ct_packet t) \<noteq> PF_None then (True, t\<lparr>ct_phase := Denied\<rparr>)
        else if ready_for_execution D (ct_packet t) then (True, t\<lparr>ct_phase := CognitiveAllowed\<rparr>)
        else if \<exists>p \<in> set (pk_requirements (ct_packet t)). pr_blocking p \<and> pr_status p = Failed
        then (True, t\<lparr>ct_phase := Denied\<rparr>)
        else (True, t\<lparr>ct_phase := AwaitingRequirement\<rparr>))"

datatype disposition = Allow | ReDeliberate | Await | Deny | NotGoverned

fun disposition_of_phase :: "transaction_phase \<Rightarrow> disposition" where
  "disposition_of_phase CognitiveAllowed = Allow"
| "disposition_of_phase ReDeliberationRequired = ReDeliberate"
| "disposition_of_phase AwaitingRequirement = Await"
| "disposition_of_phase PreparingBeforeExecution = Await"
| "disposition_of_phase PreparedForJudgment = Await"
| "disposition_of_phase _ = Deny"

definition disposition_for :: "control_transaction \<Rightarrow> disposition" where
  "disposition_for t = disposition_of_phase (ct_phase t)"

section \<open>What a pin and the gates promise\<close>

text \<open>
  a successful pin describes exactly the bytes it parsed: its integrity digest and its
  content-addressed revision are computed from the same byte string the cognition library
  materialized, and two pins of equal bytes name the same revision.
\<close>

theorem pin_binds_bytes:
  assumes "pin F create_cognition serialize_policy path file expected = Inr p"
  shows "\<exists>bs h s. file = Some bs \<and> fst (create_cognition bs expected) = Some h \<and> ch_state h = Some s \<and>
     pc_snapshot p = Some s \<and> pc_snapshot_digest_sha256 p = sha256 F bs \<and>
     pc_policy_digest p = sha256 F (serialize_policy s) \<and>
     (pin F create_cognition serialize_policy path' (Some bs) expected' = Inr q \<longrightarrow> same_revision p q)"
  using assms
  by (auto simp: pin_def same_revision_def bind_eq_Some_conv split: option.splits prod.splits)

theorem pin_binds_bytes_witness:
  "pc_snapshot_digest_sha256
     (projr (pin ref_foundation (\<lambda>bs _. (Some \<lparr>ch_state = Some bs, ch_digest = [], ch_epoch = 0\<rparr>, \<lparr>de_kind = DK_BadEnum, de_detail = []\<rparr>)) (\<lambda>s. s) ''f'' (Some [1, 2]) []))
   = sha256 ref_foundation [1, 2]"
proof -
  let ?c = "\<lambda>bs _. (Some \<lparr>ch_state = Some bs, ch_digest = [], ch_epoch = 0\<rparr>, \<lparr>de_kind = DK_BadEnum, de_detail = []\<rparr>)"
  obtain p where p: "pin ref_foundation ?c (\<lambda>s. s) ''f'' (Some [1, 2]) [] = Inr p"
    by (simp add: pin_def)
  from pin_binds_bytes [OF p] p show ?thesis by auto
qed

lemma judgment_packet [simp]:
  "ct_packet (snd (evaluate_before_judgment D t)) = ct_packet t"
  "ct_packet (snd (evaluate_before_execution D t)) = ct_packet t"
  by (simp_all add: evaluate_before_judgment_def evaluate_before_execution_def Let_def)

lemma gates_keep [simp]:
  "ct_id (snd (evaluate_before_judgment D t)) = ct_id t"
  "ct_id (snd (evaluate_before_execution D t)) = ct_id t"
  "ct_action (snd (evaluate_before_judgment D t)) = ct_action t"
  "ct_action (snd (evaluate_before_execution D t)) = ct_action t"
  "ct_correlation (snd (evaluate_before_judgment D t)) = ct_correlation t"
  "ct_correlation (snd (evaluate_before_execution D t)) = ct_correlation t"
  by (simp_all add: evaluate_before_judgment_def evaluate_before_execution_def Let_def)

lemma judgment_phase:
  "ct_phase (snd (evaluate_before_judgment D t)) =
     (if terminal t then ct_phase t
      else if pk_failure (ct_packet t) \<noteq> PF_None then Denied
      else if ready_for_judgment D (ct_packet t) then PreparedForJudgment
      else if \<exists>p \<in> set (pk_requirements (ct_packet t)). blocking_bj p \<and> pr_status p = Failed
      then Denied else ReDeliberationRequired)"
  by (auto simp: evaluate_before_judgment_def Let_def blocking_bj_def)

lemma execution_phase:
  "ct_phase (snd (evaluate_before_execution D t)) =
     (if ct_phase t \<noteq> PreparedForJudgment \<and> ct_phase t \<noteq> AwaitingRequirement then ct_phase t
      else if pk_failure (ct_packet t) \<noteq> PF_None then Denied
      else if ready_for_execution D (ct_packet t) then CognitiveAllowed
      else if \<exists>p \<in> set (pk_requirements (ct_packet t)). pr_blocking p \<and> pr_status p = Failed
      then Denied else AwaitingRequirement)"
  by (auto simp: evaluate_before_execution_def Let_def)

text \<open>
  the judgment gate followed by the execution gate moves a transaction that is not settled
  to a phase a harness can act on; it yields Allow exactly when there is no typed preparation
  failure and the packet is ready for both gates, and then every blocking requirement is
  satisfied; a terminal transaction is never changed.
\<close>

theorem gates_decide:
  assumes "draft_laws D" "ct_phase t = RequirementsDerived \<or> terminal t"
  defines "t' \<equiv> snd (evaluate_before_execution D (snd (evaluate_before_judgment D t)))"
  shows "ct_phase t' \<in> {Denied, ReDeliberationRequired, AwaitingRequirement, CognitiveAllowed} \<and>
     (terminal t \<longrightarrow> t' = t) \<and>
     (disposition_for t' = Allow \<longleftrightarrow>
        \<not> terminal t \<and> ready_for_judgment D (ct_packet t) \<and> ready_for_execution D (ct_packet t)) \<and>
     (disposition_for t' = Allow \<longrightarrow>
        (\<forall>p \<in> set (pk_requirements (ct_packet t')). pr_blocking p \<longrightarrow> pr_status p = Satisfied))"
proof -
  let ?j = "snd (evaluate_before_judgment D t)"
  have nf: "ready_for_judgment D (ct_packet t) \<Longrightarrow> pk_failure (ct_packet t) = PF_None"
    by (rule draft_laws.judgment_no_failure [OF assms(1)])
  have sat: "pr_status p = Satisfied"
    if "ready_for_execution D (ct_packet t)" "p \<in> set (pk_requirements (ct_packet t))" "pr_blocking p" for p
    using draft_laws.execution_satisfied [OF assms(1) that] .
  have pk: "ct_packet t' = ct_packet t" by (simp add: t'_def)
  show ?thesis
  proof (cases "terminal t")
    case True
    then have "t' = t"
      by (auto simp: t'_def evaluate_before_judgment_def evaluate_before_execution_def terminal_def)
    with True show ?thesis by (auto simp: terminal_def disposition_for_def)
  next
    case False
    then show ?thesis
      using nf sat assms(2) unfolding pk unfolding t'_def execution_phase judgment_phase disposition_for_def
      by (auto split: if_splits)
  qed
qed

definition ex_transaction :: "requirement_status \<Rightarrow> control_transaction" where
  "ex_transaction st =
     begin_control_transaction 1 None
       \<lparr>ck_generation = 1, ck_adapter = 2, ck_session = 3, ck_actor = 4, ck_action = 5\<rparr> ex_action []
       \<lparr>pc_revision = ''rev'', pc_source_revision = [], pc_snapshot_digest = [], pc_snapshot_digest_sha256 = replicate 32 9,
        pc_policy_digest = replicate 32 3, pc_epoch = 0, pc_snapshot = Some []\<rparr>
       \<lparr>pk_requirements =
          [\<lparr>pr_requirement = \<lparr>cr_kind = MandatoryRecall, cr_subject = ''policy'', cr_blocking = True\<rparr>,
            pr_boundary = BeforeJudgment, pr_status = st, pr_evidence = []\<rparr>], pk_failure = PF_None\<rparr>"

theorem gates_decide_witness:
  "disposition_for (snd (evaluate_before_execution ref_draft (snd (evaluate_before_judgment ref_draft (ex_transaction Satisfied)))))
     = Allow"
proof -
  have p: "ct_phase (ex_transaction Satisfied) = RequirementsDerived \<or> terminal (ex_transaction Satisfied)"
    by (simp add: ex_transaction_def begin_control_transaction_def)
  have "\<not> terminal (ex_transaction Satisfied)" "ready_for_judgment ref_draft (ct_packet (ex_transaction Satisfied))"
    "ready_for_execution ref_draft (ct_packet (ex_transaction Satisfied))"
    by (simp_all add: ex_transaction_def begin_control_transaction_def terminal_def ref_draft_def blocking_bj_def)
  with gates_decide [OF ref_draft_laws p] show ?thesis by blast
qed

end
