(* ===== verification/Resolver.thy ===== *)
theory Resolver
  imports Requirement "HOL-Library.Product_Lexorder"
begin

text \<open>
  Accepted resolver bindings and typed evidence receipts (\<^verbatim>\<open>resolver.hpp\<close>,
  \<^verbatim>\<open>resolver.cpp\<close>).  The registry is the list of its bindings with its content revision;
  \<^verbatim>\<open>Builder::build\<close> is a function of the pending bindings.  \<^verbatim>\<open>std::sort\<close> leaves the order of
  bindings with equal sort keys open; the model takes the stable one.
\<close>

datatype evidence_type =
    AttributableSearch | CanonicalRecord | LiveObservation | ToolContractDocument
  | MechanicalCheckReceipt | TypedHumanHandoff

datatype trust_domain = Mechanism | Canonical | Human

datatype resolver_type =
    RT_AttributableSearch | RT_CanonicalRecall | RT_LiveObservation | RT_ToolContract
  | RT_MechanicalCheck | RT_TypedHumanHandoff

fun evidence_code :: "evidence_type \<Rightarrow> u64" where
  "evidence_code AttributableSearch = 0"
| "evidence_code CanonicalRecord = 1"
| "evidence_code LiveObservation = 2"
| "evidence_code ToolContractDocument = 3"
| "evidence_code MechanicalCheckReceipt = 4"
| "evidence_code TypedHumanHandoff = 5"

fun resolver_type_code :: "resolver_type \<Rightarrow> u64" where
  "resolver_type_code RT_AttributableSearch = 0"
| "resolver_type_code RT_CanonicalRecall = 1"
| "resolver_type_code RT_LiveObservation = 2"
| "resolver_type_code RT_ToolContract = 3"
| "resolver_type_code RT_MechanicalCheck = 4"
| "resolver_type_code RT_TypedHumanHandoff = 5"

record resolver_identity =
  rv_name :: string
  rv_version :: u64

record resolver_key =
  rk_kind :: requirement_kind
  rk_type :: resolver_type
  rk_version :: u64
  rk_view :: string

record resolver_binding =
  rb_key :: resolver_key
  rb_resolver :: resolver_identity
  rb_accepted :: evidence_type
  rb_trust :: trust_domain

record registry =
  rg_bindings :: "resolver_binding list"
  reg_revision :: u64

section \<open>The registry\<close>

definition same_key :: "resolver_key \<Rightarrow> resolver_key \<Rightarrow> bool" where
  "same_key a b \<longleftrightarrow>
     rk_kind a = rk_kind b \<and> rk_type a = rk_type b \<and> rk_version a = rk_version b \<and> rk_view a = rk_view b"

definition find_binding :: "registry \<Rightarrow> resolver_key \<Rightarrow> resolver_binding option" where
  "find_binding R k = find (\<lambda>b. same_key (rb_key b) k) (rg_bindings R)"

definition find_for_kind_and_view :: "registry \<Rightarrow> requirement_kind \<Rightarrow> string \<Rightarrow> resolver_binding list" where
  "find_for_kind_and_view R k v =
     filter (\<lambda>b. rk_kind (rb_key b) = k \<and> rk_view (rb_key b) = v) (rg_bindings R)"

fun check_pending :: "resolver_binding list \<Rightarrow> error option" where
  "check_pending [] = None"
| "check_pending (b # bs) =
     (if rv_name (rb_resolver b) = [] \<or> rk_version (rb_key b) = 0 \<or> rk_view (rb_key b) = []
      then Some (mk_error Cat_invalid_argument 20)
      else if \<exists>c \<in> set bs. same_key (rb_key b) (rb_key c)
      then Some (mk_error Cat_invalid_argument 21)
      else check_pending bs)"

definition revise :: "foundation \<Rightarrow> draft \<Rightarrow> u64 \<Rightarrow> resolver_binding \<Rightarrow> u64" where
  "revise F D revision b =
     (let r = fnv1a64_from F (rv_name (rb_resolver b)) revision;
          r = (r XOR rv_version (rb_resolver b)) * fnv_prime F;
          r = (r XOR ucast (kind_code D (rk_kind (rb_key b)))) * fnv_prime F;
          r = (r XOR resolver_type_code (rk_type (rb_key b))) * fnv_prime F;
          r = fnv1a64_from F (rk_view (rb_key b)) r
      in (r XOR evidence_code (rb_accepted b)) * fnv_prime F)"

definition registry_build :: "foundation \<Rightarrow> draft \<Rightarrow> resolver_binding list \<Rightarrow> registry res" where
  "registry_build F D pending =
     (case check_pending pending of
        Some e \<Rightarrow> Inl e
      | None \<Rightarrow> Inr
          \<lparr>rg_bindings = sort_key (\<lambda>b. (rk_view (rb_key b), kind_code D (rk_kind (rb_key b)))) pending,
           reg_revision = foldl (revise F D) (fnv_basis F) pending\<rparr>)"

section \<open>Evidence receipts\<close>

record evidence_receipt =
  er_id :: u64
  er_requirement :: requirement_identity
  er_resolver :: resolver_identity
  er_type :: resolver_type
  er_resolver_build :: string
  er_source_revision :: revision_id
  er_source_path :: string
  er_evidence_type :: evidence_type
  er_subject :: string
  er_source :: string
  er_content_digest :: content_digest
  er_issued_at_ms :: u64
  er_expires_at_ms :: u64
  er_policy_digest :: content_digest
  er_generation :: generation_id
  er_reusable :: bool

record receipt_context =
  rc_generation :: generation_id
  rc_policy_digest :: content_digest
  rc_source_revision :: revision_id
  rc_resolver_build :: string
  rc_now_ms :: u64

definition mix_byte :: "foundation \<Rightarrow> u64 \<Rightarrow> byte \<Rightarrow> u64" where
  "mix_byte F h b = (h XOR ucast b) * fnv_prime F"

definition mix_u64 :: "foundation \<Rightarrow> u64 \<Rightarrow> u64 \<Rightarrow> u64" where
  "mix_u64 F v h = foldl (\<lambda>h i. (h XOR (drop_bit (8 * i) v AND 0xFF)) * fnv_prime F) h [0..<8]"

definition mix_text :: "foundation \<Rightarrow> string \<Rightarrow> u64 \<Rightarrow> u64" where
  "mix_text F s h = foldl (mix_byte F) (mix_u64 F (of_nat (length s)) h) (text_bytes s)"

definition mix_digest :: "foundation \<Rightarrow> content_digest \<Rightarrow> u64 \<Rightarrow> u64" where
  "mix_digest F d h = foldl (mix_byte F) h d"

definition receipt_id_of :: "foundation \<Rightarrow> draft \<Rightarrow> evidence_receipt \<Rightarrow> u64" where
  "receipt_id_of F D r =
     (let h = fnv_basis F;
          h = mix_u64 F (ucast (kind_code D (ri_kind (er_requirement r)))) h;
          h = mix_text F (ri_subject (er_requirement r)) h;
          h = mix_u64 F (ucast (boundary_code D (ri_boundary (er_requirement r)))) h;
          h = mix_u64 F (if ri_blocking (er_requirement r) then 1 else 0) h;
          h = mix_text F (rv_name (er_resolver r)) h;
          h = mix_u64 F (rv_version (er_resolver r)) h;
          h = mix_u64 F (resolver_type_code (er_type r)) h;
          h = mix_text F (er_resolver_build r) h;
          h = mix_text F (er_source_revision r) h;
          h = mix_text F (er_source_path r) h;
          h = mix_u64 F (evidence_code (er_evidence_type r)) h;
          h = mix_text F (er_subject r) h;
          h = mix_text F (er_source r) h;
          h = mix_digest F (er_content_digest r) h;
          h = mix_u64 F (er_issued_at_ms r) h;
          h = mix_u64 F (er_expires_at_ms r) h;
          h = mix_digest F (er_policy_digest r) h;
          h = mix_u64 F (er_generation r) h
      in mix_u64 F (if er_reusable r then 1 else 0) h)"

definition make_evidence_receipt ::
    "foundation \<Rightarrow> draft \<Rightarrow> requirement_identity \<Rightarrow> resolver_identity \<Rightarrow> resolver_type \<Rightarrow> evidence_type
     \<Rightarrow> string \<Rightarrow> string \<Rightarrow> bytes \<Rightarrow> receipt_context \<Rightarrow> evidence_receipt" where
  "make_evidence_receipt F D req rv ty ev subject source content ctx =
     (let r = \<lparr>er_id = 0, er_requirement = req, er_resolver = rv, er_type = ty,
               er_resolver_build = rc_resolver_build ctx, er_source_revision = rc_source_revision ctx,
               er_source_path = [], er_evidence_type = ev, er_subject = subject, er_source = source,
               er_content_digest = sha256 F content, er_issued_at_ms = rc_now_ms ctx,
               er_expires_at_ms = 0, er_policy_digest = rc_policy_digest ctx,
               er_generation = rc_generation ctx, er_reusable = False\<rparr>
      in r\<lparr>er_id := receipt_id_of F D r\<rparr>)"

datatype receipt_rejection =
    Rej_None | WrongRequirement | WrongResolverType | WrongVersion | WrongEvidenceType
  | WrongGeneration | WrongPolicy | Expired | BadDigest | BadSource

definition validate_receipt ::
    "evidence_receipt \<Rightarrow> resolver_binding \<Rightarrow> requirement_identity \<Rightarrow> generation_id \<Rightarrow> content_digest \<Rightarrow> u64
     \<Rightarrow> receipt_rejection" where
  "validate_receipt r b req gen policy now =
     (if er_requirement r \<noteq> req then WrongRequirement
      else if er_type r \<noteq> rk_type (rb_key b) then WrongResolverType
      else if rv_version (er_resolver r) \<noteq> rk_version (rb_key b) \<or> er_resolver r \<noteq> rb_resolver b then WrongVersion
      else if er_evidence_type r \<noteq> rb_accepted b then WrongEvidenceType
      else if er_generation r \<noteq> gen then WrongGeneration
      else if er_policy_digest r \<noteq> policy then WrongPolicy
      else if er_expires_at_ms r \<noteq> 0 \<and> now \<noteq> 0 \<and> er_expires_at_ms r < now then Expired
      else if \<not> (\<exists>x \<in> set (er_content_digest r). x \<noteq> 0) then BadDigest
      else if er_source_revision r = [] \<or> er_subject r = [] then BadSource
      else Rej_None)"

section \<open>What the registry promises\<close>

lemma same_key_eq: "same_key a b \<longleftrightarrow> a = b"
  by (cases a; cases b) (auto simp: same_key_def)

definition binding_complete :: "resolver_binding \<Rightarrow> bool" where
  "binding_complete b \<longleftrightarrow> rv_name (rb_resolver b) \<noteq> [] \<and> rk_version (rb_key b) \<noteq> 0 \<and> rk_view (rb_key b) \<noteq> []"

lemma check_pending_None:
  "check_pending bs = None \<longleftrightarrow> (\<forall>b \<in> set bs. binding_complete b) \<and> distinct (map rb_key bs)"
  by (induction bs) (auto simp: binding_complete_def same_key_eq image_iff)

lemma registry_build_Inr:
  "registry_build F D pending = Inr R \<longleftrightarrow>
     check_pending pending = None \<and>
     R = \<lparr>rg_bindings = sort_key (\<lambda>b. (rk_view (rb_key b), kind_code D (rk_kind (rb_key b)))) pending,
          reg_revision = foldl (revise F D) (fnv_basis F) pending\<rparr>"
  by (auto simp: registry_build_def split: option.splits)

lemma distinct_sort_key_map: "distinct (map f (sort_key g xs)) = distinct (map f xs)"
  by (metis distinct_map distinct_sort set_sort)

lemma find_by_key:
  assumes "distinct (map f xs)" "x \<in> set xs"
  shows "find (\<lambda>y. f y = f x) xs = Some x"
  using assms by (induction xs) (auto simp: image_iff)

text \<open>A registry with one binding per key answers a lookup exactly.\<close>

definition registry_ok :: "registry \<Rightarrow> bool" where
  "registry_ok R \<longleftrightarrow> distinct (map rb_key (rg_bindings R)) \<and> (\<forall>b \<in> set (rg_bindings R). binding_complete b)"

lemma find_binding_iff:
  assumes "registry_ok R"
  shows "find_binding R k = Some b \<longleftrightarrow> b \<in> set (rg_bindings R) \<and> rb_key b = k"
proof
  assume "find_binding R k = Some b"
  then show "b \<in> set (rg_bindings R) \<and> rb_key b = k"
    unfolding find_binding_def same_key_eq by (auto simp: find_Some_iff)
next
  assume "b \<in> set (rg_bindings R) \<and> rb_key b = k"
  then show "find_binding R k = Some b"
    using assms find_by_key [of rb_key "rg_bindings R" b]
    unfolding find_binding_def same_key_eq registry_ok_def by auto
qed

lemma registry_build_ok: "registry_build F D pending = Inr R \<Longrightarrow> registry_ok R"
  by (auto simp: registry_build_Inr check_pending_None registry_ok_def distinct_sort_key_map)

lemma registry_build_set: "registry_build F D pending = Inr R \<Longrightarrow> set (rg_bindings R) = set pending"
  by (auto simp: registry_build_Inr)

text \<open>
  the builder accepts a list of bindings exactly when each is complete and no two share
  the four-part key; the registry it returns finds, for any key, exactly the one pending
  binding with that key, and nothing when there is none.
\<close>

theorem registry_build_exact:
  "case registry_build F D pending of
     Inl e \<Rightarrow> \<not> ((\<forall>b \<in> set pending. binding_complete b) \<and> distinct (map rb_key pending)) \<and>
              category e = Cat_invalid_argument \<and> code e \<in> {20, 21}
   | Inr R \<Rightarrow> (\<forall>b \<in> set pending. binding_complete b) \<and> distinct (map rb_key pending) \<and>
              (\<forall>k b. find_binding R k = Some b \<longleftrightarrow> b \<in> set pending \<and> rb_key b = k)"
proof (cases "registry_build F D pending")
  case (Inl e)
  have "check_pending pending = Some e"
    using Inl by (auto simp: registry_build_def split: option.splits)
  moreover have "check_pending bs = Some e \<Longrightarrow> category e = Cat_invalid_argument \<and> code e \<in> {20, 21}" for bs
    by (induction bs) (auto split: if_splits)
  ultimately show ?thesis
    using Inl check_pending_None [of pending] by auto
next
  case (Inr R)
  then have "check_pending pending = None" by (simp add: registry_build_Inr)
  moreover have "\<forall>k b. find_binding R k = Some b \<longleftrightarrow> b \<in> set pending \<and> rb_key b = k"
    unfolding find_binding_iff [OF registry_build_ok [OF Inr]] registry_build_set [OF Inr] by simp
  ultimately show ?thesis
    unfolding Inr sum.case using check_pending_None [of pending] by blast
qed

text \<open>
  A receipt is accepted exactly when it binds the requirement, the binding's mechanism
  type, resolver and version, the accepted evidence type, the live generation and policy,
  is not past a claimed expiry, has a content digest that is not all zero, and names a source
  revision and a subject.
\<close>

theorem validate_receipt_iff:
  "validate_receipt r b req gen policy now = Rej_None \<longleftrightarrow>
     er_requirement r = req \<and> er_type r = rk_type (rb_key b) \<and> er_resolver r = rb_resolver b \<and>
     rv_version (rb_resolver b) = rk_version (rb_key b) \<and> er_evidence_type r = rb_accepted b \<and>
     er_generation r = gen \<and> er_policy_digest r = policy \<and>
     (er_expires_at_ms r = 0 \<or> now = 0 \<or> now \<le> er_expires_at_ms r) \<and>
     er_content_digest r \<noteq> replicate (length (er_content_digest r)) 0 \<and>
     er_source_revision r \<noteq> [] \<and> er_subject r \<noteq> []"
proof -
  have "(\<exists>x \<in> set d. x \<noteq> 0) \<longleftrightarrow> d \<noteq> replicate (length d) 0" for d :: bytes
    by (metis in_set_replicate replicate_eqI)
  then show ?thesis
    unfolding validate_receipt_def by (auto simp: not_less)
qed

text \<open>
  a freshly made receipt is accepted by the binding it was made for, in its own context,
  whenever the digest of its content is not all zero and its revision and subject are named,
  however late it is checked.
\<close>

theorem make_receipt_validates:
  assumes "rv_version (rb_resolver b) = rk_version (rb_key b)"
    and "\<exists>x \<in> set (sha256 F content). x \<noteq> 0" "rc_source_revision ctx \<noteq> []" "subject \<noteq> []"
  shows "validate_receipt
     (make_evidence_receipt F D req (rb_resolver b) (rk_type (rb_key b)) (rb_accepted b) subject source content ctx)
     b req (rc_generation ctx) (rc_policy_digest ctx) now = Rej_None"
  using assms unfolding validate_receipt_def make_evidence_receipt_def Let_def by auto

definition ex_binding :: resolver_binding where
  "ex_binding =
     \<lparr>rb_key = \<lparr>rk_kind = Kind_other 7, rk_type = RT_ToolContract, rk_version = 1, rk_view = ''default''\<rparr>,
      rb_resolver = \<lparr>rv_name = ''tool'', rv_version = 1\<rparr>, rb_accepted = ToolContractDocument,
      rb_trust = Mechanism\<rparr>"

theorem registry_build_exact_witness:
  "\<exists>R. registry_build ref_foundation ref_draft [ex_binding] = Inr R \<and>
     find_binding R (rb_key ex_binding) = Some ex_binding"
proof -
  have "\<exists>R. registry_build ref_foundation ref_draft [ex_binding] = Inr R"
    by (simp add: registry_build_def ex_binding_def)
  then obtain R where R: "registry_build ref_foundation ref_draft [ex_binding] = Inr R" ..
  from registry_build_exact [where F = ref_foundation and D = ref_draft and pending = "[ex_binding]"] R
  have "find_binding R (rb_key ex_binding) = Some ex_binding" by simp
  with R show ?thesis by blast
qed

definition ex_context :: receipt_context where
  "ex_context = \<lparr>rc_generation = 1, rc_policy_digest = [3], rc_source_revision = ''rev'',
     rc_resolver_build = ''b1'', rc_now_ms = 5\<rparr>"

theorem make_receipt_validates_witness:
  "validate_receipt
     (make_evidence_receipt ref_foundation ref_draft
        \<lparr>ri_kind = Kind_other 7, ri_subject = ''t'', ri_boundary = BeforeExecution, ri_blocking = True\<rparr>
        (rb_resolver ex_binding) (rk_type (rb_key ex_binding)) (rb_accepted ex_binding) ''t'' ''src'' [4] ex_context)
     ex_binding
     \<lparr>ri_kind = Kind_other 7, ri_subject = ''t'', ri_boundary = BeforeExecution, ri_blocking = True\<rparr>
     (rc_generation ex_context) (rc_policy_digest ex_context) 99 = Rej_None"
  by (rule make_receipt_validates) (simp_all add: ex_binding_def ex_context_def ref_foundation_def)

text \<open>
  The registry revision does not see the key's version or the trust domain: changing only
  those in every binding leaves the revision as it was.
\<close>

theorem revision_ignores_version_and_trust:
  "foldl (revise F D) h (map (\<lambda>b. b\<lparr>rb_key := (rb_key b)\<lparr>rk_version := v\<rparr>, rb_trust := t\<rparr>) pending) =
     foldl (revise F D) h pending"
  by (induction pending arbitrary: h) (simp_all add: revise_def)

end
