(* ===== verification/Contracts.thy ===== *)
theory Contracts
  imports Prelude
begin

text \<open>
  Interfaces several components share, as locales: single-use authorization, bounded
  first-in-first-out queues, and fenced single-writer leases.  The client's consequences are
  proved here once; the components interpret them on their own definitions.
\<close>

section \<open>Single-use authorization\<close>

text \<open>The attempts of a sequence that succeed.\<close>

primrec granted :: "('s \<Rightarrow> 'a \<Rightarrow> bool \<times> 's) \<Rightarrow> 's \<Rightarrow> 'a list \<Rightarrow> 'a list" where
  "granted attempt s [] = []"
| "granted attempt s (a # as) =
     (case attempt s a of (ok, s') \<Rightarrow> if ok then a # granted attempt s' as else granted attempt s' as)"

lemma granted_append:
  "granted attempt s (xs @ ys) = granted attempt s xs @ granted attempt (fold (\<lambda>x s. snd (attempt s x)) xs s) ys"
  by (induction xs arbitrary: s) (auto split: prod.splits)

text \<open>
  An attempt may succeed only for a key that is not yet spent, a success spends its key, and
  nothing ever becomes unspent.
\<close>

locale single_use =
  fixes attempt :: "'s \<Rightarrow> 'a \<Rightarrow> bool \<times> 's"
    and key :: "'a \<Rightarrow> 'k"
    and spent :: "'s \<Rightarrow> 'k set"
  assumes success_fresh: "attempt s a = (True, s') \<Longrightarrow> key a \<notin> spent s"
    and success_spends: "attempt s a = (True, s') \<Longrightarrow> key a \<in> spent s'"
    and spent_grows: "attempt s a = (ok, s') \<Longrightarrow> spent s \<subseteq> spent s'"
begin

lemma granted_fresh: "a \<in> set (granted attempt s as) \<Longrightarrow> key a \<notin> spent s"
proof (induction as arbitrary: s)
  case (Cons b as)
  obtain ok s' where b: "attempt s b = (ok, s')" by (cases "attempt s b")
  show ?case
  proof (cases "a \<in> set (granted attempt s' as)")
    case True
    then show ?thesis using Cons.IH spent_grows [OF b] by blast
  next
    case False
    with Cons.prems b have "ok" "a = b" by (auto split: if_splits)
    then show ?thesis using success_fresh b by simp
  qed
qed simp

lemma granted_once: "distinct (map key (granted attempt s as))"
proof (induction as arbitrary: s)
  case (Cons b as)
  obtain ok s' where b: "attempt s b = (ok, s')" by (cases "attempt s b")
  show ?case
  proof (cases ok)
    case True
    then have "key b \<in> spent s'" using b success_spends by simp
    then have "key b \<notin> key ` set (granted attempt s' as)" by (auto dest: granted_fresh)
    then show ?thesis using Cons.IH b True by simp
  next
    case False
    then show ?thesis using Cons.IH b by simp
  qed
qed simp

end

section \<open>Bounded queues\<close>

text \<open>
  A run of a queue: \<open>Some x\<close> offers \<open>x\<close>, \<open>None\<close> takes one element.  The run returns the
  accepted elements, the delivered elements and the final queue.
\<close>

primrec queue_run :: "('q \<Rightarrow> 'a \<Rightarrow> bool \<times> 'q) \<Rightarrow> ('q \<Rightarrow> 'a option \<times> 'q) \<Rightarrow> 'q \<Rightarrow> 'a option list \<Rightarrow> 'a list \<times> 'a list \<times> 'q" where
  "queue_run push pop q [] = ([], [], q)"
| "queue_run push pop q (e # es) =
     (case e of
        Some x \<Rightarrow> (case push q x of (ok, q') \<Rightarrow>
          (case queue_run push pop q' es of (acc, del, q'') \<Rightarrow> (if ok then x # acc else acc, del, q'')))
      | None \<Rightarrow> (case pop q of (r, q') \<Rightarrow>
          (case queue_run push pop q' es of (acc, del, q'') \<Rightarrow>
             (acc, case r of None \<Rightarrow> del | Some y \<Rightarrow> y # del, q''))))"

locale bounded_fifo =
  fixes push :: "'q \<Rightarrow> 'a \<Rightarrow> bool \<times> 'q"
    and pop :: "'q \<Rightarrow> 'a option \<times> 'q"
    and items :: "'q \<Rightarrow> 'a list"
    and cap :: "'q \<Rightarrow> nat"
  assumes push_ok: "push q x = (True, q') \<Longrightarrow> items q' = items q @ [x] \<and> length (items q) < cap q"
    and push_refused: "push q x = (False, q') \<Longrightarrow> items q' = items q"
    and pop_Some: "pop q = (Some x, q') \<Longrightarrow> items q = x # items q'"
    and pop_None: "pop q = (None, q') \<Longrightarrow> items q = [] \<and> items q' = []"
    and push_cap: "push q x = (ok, q') \<Longrightarrow> cap q' = cap q"
    and pop_cap: "pop q = (r, q') \<Longrightarrow> cap q' = cap q"
begin

text \<open>Every accepted element is delivered or still queued, in the order of acceptance.\<close>

lemma queue_run_fifo: "queue_run push pop q es = (acc, del, q') \<Longrightarrow> items q @ acc = del @ items q'"
proof (induction es arbitrary: q acc del q')
  case (Cons e es)
  show ?case
  proof (cases e)
    case (Some x)
    obtain ok q1 where p: "push q x = (ok, q1)" by (cases "push q x")
    obtain acc1 del1 q2 where r: "queue_run push pop q1 es = (acc1, del1, q2)" by (cases "queue_run push pop q1 es")
    have "items q1 @ acc1 = del1 @ items q2" by (rule Cons.IH [OF r])
    moreover have "q2 = q'" "del = del1" "acc = (if ok then x # acc1 else acc1)"
      using Cons.prems Some p r by auto
    ultimately show ?thesis
      using push_ok [of q x q1] push_refused [of q x q1] p by (cases ok) auto
  next
    case None
    obtain r q1 where p: "pop q = (r, q1)" by (cases "pop q")
    obtain acc1 del1 q2 where r: "queue_run push pop q1 es = (acc1, del1, q2)" by (cases "queue_run push pop q1 es")
    have "items q1 @ acc1 = del1 @ items q2" by (rule Cons.IH [OF r])
    moreover have "q2 = q'" "acc = acc1" "del = (case r of None \<Rightarrow> del1 | Some y \<Rightarrow> y # del1)"
      using Cons.prems None p r by auto
    ultimately show ?thesis
      using pop_Some [of q _ q1] pop_None [of q q1] p by (cases r) auto
  qed
qed simp

text \<open>The queue never grows beyond its capacity.\<close>

lemma queue_run_bounded:
  "queue_run push pop q es = (acc, del, q') \<Longrightarrow> length (items q) \<le> cap q \<Longrightarrow> length (items q') \<le> cap q' \<and> cap q' = cap q"
proof (induction es arbitrary: q acc del q')
  case (Cons e es)
  show ?case
  proof (cases e)
    case (Some x)
    obtain ok q1 where p: "push q x = (ok, q1)" by (cases "push q x")
    obtain acc1 del1 q2 where r: "queue_run push pop q1 es = (acc1, del1, q2)" by (cases "queue_run push pop q1 es")
    have "length (items q1) \<le> cap q1"
      using Cons.prems(2) p push_ok [of q x q1] push_refused [of q x q1] push_cap [OF p] by (cases ok) auto
    with Cons.IH [OF r] show ?thesis
      using Cons.prems(1) Some p r push_cap [OF p] by auto
  next
    case None
    obtain r q1 where p: "pop q = (r, q1)" by (cases "pop q")
    obtain acc1 del1 q2 where q: "queue_run push pop q1 es = (acc1, del1, q2)" by (cases "queue_run push pop q1 es")
    have "length (items q1) \<le> cap q1"
      using Cons.prems(2) p pop_Some [of q _ q1] pop_None [of q q1] pop_cap [OF p] by (cases r) auto
    with Cons.IH [OF q] show ?thesis
      using Cons.prems(1) None p q pop_cap [OF p] by auto
  qed
qed simp

end

section \<open>Fenced single-writer leases\<close>

datatype 'r lease_op = Acquire 'r | Release u64

text \<open>The epochs granted by a sequence of requests and releases, and the final state.\<close>

primrec lease_run ::
    "('s \<Rightarrow> 'r \<Rightarrow> u64 option \<times> 's) \<Rightarrow> ('s \<Rightarrow> u64 \<Rightarrow> 's) \<Rightarrow> 's \<Rightarrow> 'r lease_op list \<Rightarrow> u64 list \<times> 's" where
  "lease_run acquire release s [] = ([], s)"
| "lease_run acquire release s (op # ops) =
     (case op of
        Acquire r \<Rightarrow> (case acquire s r of (g, s') \<Rightarrow>
          (case lease_run acquire release s' ops of (es, s'') \<Rightarrow> (case g of None \<Rightarrow> es | Some e \<Rightarrow> e # es, s'')))
      | Release e \<Rightarrow> lease_run acquire release (release s e) ops)"

text \<open>
  A grant takes the next epoch, is refused while any lease is valid, and is then the only valid
  one; a release ends the validity of its own epoch and of no other.
\<close>

locale fenced_lease =
  fixes acquire :: "'s \<Rightarrow> 'r \<Rightarrow> u64 option \<times> 's"
    and release :: "'s \<Rightarrow> u64 \<Rightarrow> 's"
    and valid :: "'s \<Rightarrow> u64 \<Rightarrow> bool"
    and next_epoch :: "'s \<Rightarrow> u64"
  assumes acquire_granted: "acquire s r = (Some e, s') \<Longrightarrow>
      e = next_epoch s \<and> next_epoch s' = e + 1 \<and> \<not> valid s f \<and> (valid s' f \<longrightarrow> f = e)"
    and acquire_refused: "acquire s r = (None, s') \<Longrightarrow> s' = s"
    and release_next: "next_epoch (release s e) = next_epoch s"
    and release_valid: "valid (release s e) f \<longleftrightarrow> valid s f \<and> f \<noteq> e"
begin

lemma run_epochs:
  "lease_run acquire release s ops = (es, s') \<Longrightarrow>
     es = map (\<lambda>k. next_epoch s + of_nat k) [0..<length es] \<and> next_epoch s' = next_epoch s + of_nat (length es)"
proof (induction ops arbitrary: s es s')
  case (Cons op ops)
  show ?case
  proof (cases op)
    case (Release e)
    with Cons show ?thesis using Cons.IH [of "release s e" es s'] by (simp add: release_next)
  next
    case (Acquire r)
    obtain g s1 where a: "acquire s r = (g, s1)" by (cases "acquire s r")
    obtain es1 s2 where r: "lease_run acquire release s1 ops = (es1, s2)" by (cases "lease_run acquire release s1 ops")
    note IH = Cons.IH [OF r]
    show ?thesis
    proof (cases g)
      case None
      then show ?thesis using Cons.prems Acquire a r IH acquire_refused [of s r s1] by auto
    next
      case (Some e)
      then have n: "e = next_epoch s" "next_epoch s1 = next_epoch s + 1"
        using acquire_granted a by blast+
      have es: "es = e # es1" "s' = s2" using Cons.prems Acquire a r Some by auto
      have "map (\<lambda>k. next_epoch s + of_nat k) [0..<length (e # es1)] =
          e # map (\<lambda>k. next_epoch s1 + of_nat k) [0..<length es1]"
        by (rule nth_equalityI) (auto simp: n nth_Cons algebra_simps simp del: upt_Suc split: nat.split)
      then show ?thesis using IH n unfolding es by (simp add: algebra_simps del: upt_Suc)
    qed
  qed
qed simp

text \<open>Only the most recent grant can be valid.\<close>

lemma run_valid:
  "lease_run acquire release s ops = (es, s') \<Longrightarrow> valid s' f \<Longrightarrow> f = last es \<and> es \<noteq> [] \<or> valid s f \<and> es = []"
proof (induction ops arbitrary: s es s')
  case (Cons op ops)
  show ?case
  proof (cases op)
    case (Release e)
    then have "lease_run acquire release (release s e) ops = (es, s')" using Cons.prems by simp
    from Cons.IH [OF this Cons.prems(2)] show ?thesis by (auto simp: release_valid)
  next
    case (Acquire r)
    obtain g s1 where a: "acquire s r = (g, s1)" by (cases "acquire s r")
    obtain es1 s2 where r: "lease_run acquire release s1 ops = (es1, s2)" by (cases "lease_run acquire release s1 ops")
    have "s' = s2" "es = (case g of None \<Rightarrow> es1 | Some e \<Rightarrow> e # es1)" using Cons.prems Acquire a r by auto
    with Cons.IH [OF r] Cons.prems(2) show ?thesis
      using acquire_granted [of s r _ s1 f] acquire_refused [of s r s1] a by (cases g) auto
  qed
qed simp

text \<open>From a state without a lease: epochs rise one by one and only the last can be valid.\<close>

lemma run_fenced:
  assumes "lease_run acquire release s ops = (es, s')" "next_epoch s = 1" "\<And>f. \<not> valid s f" "length es < 2 ^ 64"
  shows "map unat es = [1..<Suc (length es)] \<and> (valid s' f \<longrightarrow> es \<noteq> [] \<and> f = last es)"
proof -
  have es: "es = map (\<lambda>k. of_nat (Suc k)) [0..<length es]"
    using run_epochs [OF assms(1)] assms(2) by simp
  have u: "unat (of_nat (Suc k) :: u64) = Suc k" if "k < length es" for k
    using that assms(4) by (simp only: unat_of_nat) (simp add: take_bit_nat_eq_self)
  have "map unat es = map (\<lambda>k. unat (of_nat (Suc k) :: u64)) [0..<length es]"
    by (subst es) (simp add: comp_def)
  also have "\<dots> = map Suc [0..<length es]" using u by (intro map_cong) auto
  finally have "map unat es = [1..<Suc (length es)]" by (simp add: map_Suc_upt del: upt_Suc)
  then show ?thesis using run_valid [OF assms(1), of f] assms(3) by blast
qed

end

end
