(* ===== verification/Decision.thy ===== *)
theory Decision
  imports Auth Transaction Resolver Contracts
begin

text \<open>
  Execution decisions (\<^verbatim>\<open>decision.hpp\<close>, \<^verbatim>\<open>decision.cpp\<close>): the canonical preimages, the ALLOW
  binder, the keyed token over the binding, and the ledger that consumes a token once, after
  the freshness checks.  The wall clock of the id minter and the random device are inputs.
\<close>

record execution_decision =
  ed_id :: sortable_id
  ed_token :: decision_token
  ed_token_hash :: token_hash
  ed_transaction :: transaction_id
  ed_generation :: generation_id
  ed_session :: session_id
  ed_actor :: actor_id
  ed_capability :: capability_id
  ed_operation :: string
  ed_target :: string
  ed_resource_scope_digest :: content_digest
  ed_expires_at_ms :: u64
  ed_action_digest :: content_digest
  ed_intent_set_digest :: content_digest
  ed_cognition_revision :: revision_id
  ed_policy_digest :: content_digest
  ed_requirement_set_digest :: content_digest
  ed_evidence_set_digest :: content_digest
  ed_profile :: profile_revision
  ed_resolver_registry_revision :: u64
  ed_classifier_contract :: "u64 option"
  ed_disposition :: disposition

record freshness_facts =
  fr_action_digest :: content_digest
  fr_generation :: generation_id
  fr_cognition_revision :: revision_id
  fr_profile :: profile_revision
  fr_resolver_registry_revision :: u64
  fr_evidence_set_digest :: "content_digest option"
  fr_resource_scope_digest :: content_digest

datatype consume_outcome =
    Consumed | AlreadyConsumed | StaleAction | StaleGeneration | StaleCognition | StalePolicy
  | StaleRegistry | StaleEvidence | StaleScope | DecisionExpired | InvalidToken

section \<open>Canonical preimages\<close>

definition put_flag :: "foundation \<Rightarrow> bool \<Rightarrow> bytes" where
  "put_flag F b = enc_u32 F (if b then 1 else 0)"

definition put_action :: "foundation \<Rightarrow> observed_action \<Rightarrow> bytes" where
  "put_action F a =
     enc_u64 F (oa_adapter a) @ enc_u64 F (oa_session a) @ enc_u64 F (oa_actor a) @
     enc_u64 F (oa_capability a) @ put_bytes F (oa_operation a) @ put_bytes F (oa_target a) @
     oa_argument_digest a"

definition put_strings :: "foundation \<Rightarrow> string list \<Rightarrow> bytes" where
  "put_strings F ss = enc_u64 F (of_nat (length ss)) @ concat (map (put_bytes F) ss)"

definition put_intent :: "foundation \<Rightarrow> draft \<Rightarrow> intent_classification \<Rightarrow> bytes" where
  "put_intent F D m =
     (let i = ic_intent m in
      enc_u32 F (basis_code (ic_basis m)) @ enc_u32 F (action_code D (ai_kind i)) @
      enc_u32 F (claim_code D (ai_claimClass i)) @ put_bytes F (ai_tool i) @ put_bytes F (ai_operation i) @
      put_strings F (ai_concepts i) @ put_strings F (ai_files i) @ put_flag F (ai_priorFailure i \<noteq> None))"

definition put_intents :: "foundation \<Rightarrow> draft \<Rightarrow> intent_set \<Rightarrow> bytes" where
  "put_intents F D ms = enc_u32 F (of_nat (length ms)) @ concat (map (put_intent F D) ms)"

definition put_requirement :: "foundation \<Rightarrow> draft \<Rightarrow> prepared_requirement \<Rightarrow> bytes" where
  "put_requirement F D p =
     enc_u32 F (kind_code D (cr_kind (pr_requirement p))) @ put_bytes F (cr_subject (pr_requirement p)) @
     enc_u32 F (boundary_code D (pr_boundary p)) @ put_flag F (pr_blocking p) @
     enc_u32 F (status_code D (pr_status p)) @ put_strings F (pr_evidence p)"

definition put_requirements :: "foundation \<Rightarrow> draft \<Rightarrow> preparation_packet \<Rightarrow> bytes" where
  "put_requirements F D k =
     enc_u32 F (of_nat (length (pk_requirements k))) @ concat (map (put_requirement F D) (pk_requirements k))"

definition put_receipt :: "foundation \<Rightarrow> draft \<Rightarrow> evidence_receipt \<Rightarrow> bytes" where
  "put_receipt F D r =
     enc_u64 F (er_id r) @ enc_u32 F (kind_code D (ri_kind (er_requirement r))) @
     put_bytes F (ri_subject (er_requirement r)) @
     enc_u32 F (boundary_code D (ri_boundary (er_requirement r))) @
     put_flag F (ri_blocking (er_requirement r)) @ enc_u64 F (resolver_type_code (er_type r)) @
     put_bytes F (rv_name (er_resolver r)) @ enc_u64 F (rv_version (er_resolver r)) @
     put_bytes F (er_subject r) @ put_bytes F (er_source r) @ put_bytes F (er_source_revision r) @
     put_bytes F (er_source_path r) @ put_bytes F (er_resolver_build r) @ er_content_digest r @
     enc_u64 F (er_issued_at_ms r) @ enc_u64 F (er_expires_at_ms r) @ er_policy_digest r @
     enc_u64 F (er_generation r) @ put_flag F (er_reusable r)"

definition put_evidence :: "foundation \<Rightarrow> draft \<Rightarrow> evidence_receipt list \<Rightarrow> bytes" where
  "put_evidence F D rs = enc_u32 F (of_nat (length rs)) @ concat (map (put_receipt F D) rs)"

definition put_binding :: "foundation \<Rightarrow> execution_decision \<Rightarrow> bytes" where
  "put_binding F d =
     enc_u32 F 1 @ ed_id d @ enc_u64 F (ed_transaction d) @ enc_u64 F (ed_generation d) @
     enc_u64 F (ed_session d) @ enc_u64 F (ed_actor d) @ enc_u64 F (ed_capability d) @
     put_bytes F (ed_operation d) @ put_bytes F (ed_target d) @ ed_resource_scope_digest d @
     enc_u64 F (ed_expires_at_ms d) @ ed_action_digest d @ ed_intent_set_digest d @
     put_bytes F (ed_cognition_revision d) @ ed_policy_digest d @ ed_requirement_set_digest d @
     ed_evidence_set_digest d @ enc_u64 F (ed_profile d) @ enc_u64 F (ed_resolver_registry_revision d)"

definition digest_of :: "foundation \<Rightarrow> bytes \<Rightarrow> content_digest option" where
  "digest_of F preimage = map_option (sha256 F) (sealed preimage)"

definition action_digest_of :: "foundation \<Rightarrow> observed_action \<Rightarrow> content_digest option" where
  "action_digest_of F a = digest_of F (put_action F a)"

definition token_hash_of :: "foundation \<Rightarrow> decision_token \<Rightarrow> token_hash" where
  "token_hash_of F t = sha256 F (tok_mac t @ tok_nonce t)"

section \<open>Binding an ALLOW\<close>

definition binding_mac :: "foundation \<Rightarrow> execution_decision \<Rightarrow> secret_key \<Rightarrow> bytes option" where
  "binding_mac F d secret =
     map_option (hmac_sha256 F secret) (sealed (put_binding F d @ tok_nonce (ed_token d)))"

text \<open>
  The result with the id counter and the random device after the call; \<open>None\<close> when a preimage
  exceeds its builder and the assertion stops the process.
\<close>

definition bind_allow ::
    "foundation \<Rightarrow> draft \<Rightarrow> control_transaction \<Rightarrow> runtime_generation \<Rightarrow> content_digest \<Rightarrow> u64
     \<Rightarrow> evidence_receipt list \<Rightarrow> secret_key \<Rightarrow> u64 \<Rightarrow> u64 \<Rightarrow> u32 list \<Rightarrow> u64 \<Rightarrow> u64
     \<Rightarrow> (execution_decision res \<times> u64 \<times> u32 list) option" where
  "bind_allow F D t gen scope_digest registry_revision evidence secret unix_ms counter device now_ms ttl_ms =
     (if ct_phase t \<noteq> CognitiveAllowed then Some (Inl (mk_error Cat_invalid_argument 30), counter, device)
      else
        case (sortable_next F unix_ms counter, csrandom_fill 16 device) of ((did, counter'), (nonce, device')) \<Rightarrow>
        case (action_digest_of F (ct_action t), digest_of F (put_intents F D (ct_intents t)),
              digest_of F (put_requirements F D (ct_packet t)), digest_of F (put_evidence F D evidence)) of
          (Some action_d, Some intents_d, Some requirements_d, Some evidence_d) \<Rightarrow>
            (let d = \<lparr>ed_id = did, ed_token = \<lparr>tok_mac = replicate 32 0, tok_nonce = nonce\<rparr>,
                      ed_token_hash = replicate 32 0, ed_transaction = ct_id t, ed_generation = rg_id gen,
                      ed_session = oa_session (ct_action t), ed_actor = oa_actor (ct_action t),
                      ed_capability = oa_capability (ct_action t), ed_operation = oa_operation (ct_action t),
                      ed_target = oa_target (ct_action t), ed_resource_scope_digest = scope_digest,
                      ed_expires_at_ms = now_ms + ttl_ms, ed_action_digest = action_d,
                      ed_intent_set_digest = intents_d,
                      ed_cognition_revision = pc_revision (ct_cognition t),
                      ed_policy_digest = pc_policy_digest (ct_cognition t),
                      ed_requirement_set_digest = requirements_d, ed_evidence_set_digest = evidence_d,
                      ed_profile = dp_revision (rg_profile gen),
                      ed_resolver_registry_revision = registry_revision,
                      ed_classifier_contract = None, ed_disposition = Allow\<rparr>
             in case binding_mac F d secret of
                  None \<Rightarrow> None
                | Some mac \<Rightarrow>
                    let token = \<lparr>tok_mac = mac, tok_nonce = nonce\<rparr>
                    in Some (Inr (d\<lparr>ed_token := token, ed_token_hash := token_hash_of F token\<rparr>), counter', device'))
        | _ \<Rightarrow> None)"

definition decision_binding_valid :: "foundation \<Rightarrow> execution_decision \<Rightarrow> secret_key \<Rightarrow> bool option" where
  "decision_binding_valid F d secret =
     map_option (\<lambda>expected. constant_time_equal expected (tok_mac (ed_token d))) (binding_mac F d secret)"

section \<open>The ledger\<close>

record decision_ledger =
  dl_secret :: secret_key
  dl_consumed :: "token_hash set"

definition ledger_init :: "secret_key \<Rightarrow> decision_ledger" where
  "ledger_init secret = \<lparr>dl_secret = secret, dl_consumed = {}\<rparr>"

definition burn :: "decision_ledger \<Rightarrow> token_hash \<Rightarrow> decision_ledger" where
  "burn L h = L\<lparr>dl_consumed := insert h (dl_consumed L)\<rparr>"

definition freshness :: "execution_decision \<Rightarrow> freshness_facts \<Rightarrow> consume_outcome" where
  "freshness d f =
     (if ed_action_digest d \<noteq> fr_action_digest f then StaleAction
      else if ed_generation d \<noteq> fr_generation f then StaleGeneration
      else if ed_cognition_revision d \<noteq> fr_cognition_revision f then StaleCognition
      else if ed_profile d \<noteq> fr_profile f then StalePolicy
      else if ed_resolver_registry_revision d \<noteq> fr_resolver_registry_revision f then StaleRegistry
      else if fr_evidence_set_digest f \<noteq> None \<and> Some (ed_evidence_set_digest d) \<noteq> fr_evidence_set_digest f
      then StaleEvidence
      else if ed_resource_scope_digest d \<noteq> fr_resource_scope_digest f then StaleScope
      else Consumed)"

definition consume ::
    "foundation \<Rightarrow> decision_ledger \<Rightarrow> execution_decision \<Rightarrow> freshness_facts \<Rightarrow> u64
     \<Rightarrow> (consume_outcome \<times> decision_ledger) option" where
  "consume F L d f now_ms =
     (if ed_token_hash d \<in> dl_consumed L then Some (AlreadyConsumed, L)
      else case decision_binding_valid F d (dl_secret L) of
             None \<Rightarrow> None
           | Some valid \<Rightarrow>
               if \<not> valid \<or> token_hash_of F (ed_token d) \<noteq> ed_token_hash d
               then Some (InvalidToken, burn L (ed_token_hash d))
               else if ed_expires_at_ms d \<noteq> 0 \<and> ed_expires_at_ms d < now_ms
               then Some (DecisionExpired, burn L (ed_token_hash d))
               else Some (freshness d f, burn L (ed_token_hash d)))"

definition was_consumed :: "decision_ledger \<Rightarrow> token_hash \<Rightarrow> bool" where
  "was_consumed L h \<longleftrightarrow> h \<in> dl_consumed L"

definition seed_consumed :: "decision_ledger \<Rightarrow> token_hash \<Rightarrow> decision_ledger" where
  "seed_consumed L h = L\<lparr>dl_consumed := insert h (dl_consumed L)\<rparr>"

section \<open>What a bound decision carries\<close>

lemma binding_mac_token [simp]:
  "binding_mac F (d\<lparr>ed_token := \<lparr>tok_mac = m, tok_nonce = tok_nonce (ed_token d)\<rparr>, ed_token_hash := h\<rparr>) key = binding_mac F d key"
  by (simp add: binding_mac_def put_binding_def)

text \<open>The decision as the binder holds it before the token is computed.\<close>

definition unsigned_decision ::
    "control_transaction \<Rightarrow> runtime_generation \<Rightarrow> content_digest \<Rightarrow> u64 \<Rightarrow> sortable_id \<Rightarrow> bytes \<Rightarrow> u64
     \<Rightarrow> content_digest \<times> content_digest \<times> content_digest \<times> content_digest \<Rightarrow> execution_decision" where
  "unsigned_decision t gen scope_digest registry_revision did nonce expiry ds =
     (case ds of (action_d, intents_d, requirements_d, evidence_d) \<Rightarrow>
      \<lparr>ed_id = did, ed_token = \<lparr>tok_mac = replicate 32 0, tok_nonce = nonce\<rparr>,
       ed_token_hash = replicate 32 0, ed_transaction = ct_id t, ed_generation = rg_id gen,
       ed_session = oa_session (ct_action t), ed_actor = oa_actor (ct_action t),
       ed_capability = oa_capability (ct_action t), ed_operation = oa_operation (ct_action t),
       ed_target = oa_target (ct_action t), ed_resource_scope_digest = scope_digest,
       ed_expires_at_ms = expiry, ed_action_digest = action_d, ed_intent_set_digest = intents_d,
       ed_cognition_revision = pc_revision (ct_cognition t),
       ed_policy_digest = pc_policy_digest (ct_cognition t),
       ed_requirement_set_digest = requirements_d, ed_evidence_set_digest = evidence_d,
       ed_profile = dp_revision (rg_profile gen), ed_resolver_registry_revision = registry_revision,
       ed_classifier_contract = None, ed_disposition = Allow\<rparr>)"

lemma bind_allow_Inr:
  assumes "bind_allow F D t gen scope reg evidence key unix_ms counter device now ttl = Some (Inr d, c', dev')"
  obtains a i r e mac where "ct_phase t = CognitiveAllowed"
    "action_digest_of F (ct_action t) = Some a" "digest_of F (put_intents F D (ct_intents t)) = Some i"
    "digest_of F (put_requirements F D (ct_packet t)) = Some r" "digest_of F (put_evidence F D evidence) = Some e"
    "binding_mac F (unsigned_decision t gen scope reg (fst (sortable_next F unix_ms counter))
        (fst (csrandom_fill 16 device)) (now + ttl) (a, i, r, e)) key = Some mac"
    "d = (unsigned_decision t gen scope reg (fst (sortable_next F unix_ms counter))
        (fst (csrandom_fill 16 device)) (now + ttl) (a, i, r, e))
        \<lparr>ed_token := \<lparr>tok_mac = mac, tok_nonce = fst (csrandom_fill 16 device)\<rparr>,
         ed_token_hash := token_hash_of F \<lparr>tok_mac = mac, tok_nonce = fst (csrandom_fill 16 device)\<rparr>\<rparr>"
  using assms
  by (auto simp: bind_allow_def unsigned_decision_def Let_def split: if_splits option.splits prod.splits)

text \<open>
  an ALLOW is bound only for a transaction in phase CognitiveAllowed, and the bound decision
  verifies under the binding secret, carries the hash of its own token, and quotes the
  transaction's id, action, cognition revision and policy with the generation and profile it was
  bound under; no other phase yields a decision.
\<close>

theorem bind_allow_sound:
  assumes "bind_allow F D t gen scope reg evidence key unix_ms counter device now ttl = Some (Inr d, c', dev')"
  shows "ct_phase t = CognitiveAllowed \<and> decision_binding_valid F d key = Some True \<and>
     token_hash_of F (ed_token d) = ed_token_hash d \<and> ed_disposition d = Allow \<and>
     ed_transaction d = ct_id t \<and> ed_generation d = rg_id gen \<and> ed_profile d = dp_revision (rg_profile gen) \<and>
     action_digest_of F (ct_action t) = Some (ed_action_digest d) \<and>
     digest_of F (put_evidence F D evidence) = Some (ed_evidence_set_digest d) \<and>
     digest_of F (put_requirements F D (ct_packet t)) = Some (ed_requirement_set_digest d) \<and>
     ed_cognition_revision d = pc_revision (ct_cognition t) \<and> ed_expires_at_ms d = now + ttl"
proof (rule bind_allow_Inr [OF assms])
  fix a i r e mac
  let ?n = "fst (csrandom_fill 16 device)"
  let ?u = "unsigned_decision t gen scope reg (fst (sortable_next F unix_ms counter)) ?n (now + ttl) (a, i, r, e)"
  assume H: "ct_phase t = CognitiveAllowed" "action_digest_of F (ct_action t) = Some a"
    "digest_of F (put_requirements F D (ct_packet t)) = Some r" "digest_of F (put_evidence F D evidence) = Some e"
    "binding_mac F ?u key = Some mac"
    "d = ?u\<lparr>ed_token := \<lparr>tok_mac = mac, tok_nonce = ?n\<rparr>, ed_token_hash := token_hash_of F \<lparr>tok_mac = mac, tok_nonce = ?n\<rparr>\<rparr>"
  have n: "tok_nonce (ed_token ?u) = ?n" by (simp add: unsigned_decision_def)
  have "binding_mac F d key = Some mac"
    using H(5) binding_mac_token [where d = ?u and m = mac] n unfolding H(6) by simp
  then have "decision_binding_valid F d key = Some True"
    using H(6) by (simp add: decision_binding_valid_def constant_time_equal_def diff_bits_zero)
  moreover have "token_hash_of F (ed_token d) = ed_token_hash d" unfolding H(6) by simp
  ultimately show ?thesis using H(1-4) unfolding H(6) by (simp add: unsigned_decision_def)
qed

section \<open>What a consumption needs\<close>

lemma consume_cases:
  assumes "consume F L d f now = Some (out, L')"
  shows "(out = AlreadyConsumed \<and> L' = L \<and> ed_token_hash d \<in> dl_consumed L) \<or>
         (out \<noteq> AlreadyConsumed \<and> L' = burn L (ed_token_hash d) \<and> ed_token_hash d \<notin> dl_consumed L)"
  using assms by (auto simp: consume_def freshness_def split: if_splits option.splits)

definition consume_attempt ::
    "foundation \<Rightarrow> decision_ledger \<Rightarrow> execution_decision \<times> freshness_facts \<times> u64 \<Rightarrow> bool \<times> decision_ledger" where
  "consume_attempt F L x =
     (case x of (d, f, now) \<Rightarrow>
        (case consume F L d f now of None \<Rightarrow> (False, L) | Some (out, L') \<Rightarrow> (out = Consumed, L')))"

lemma consume_attempt_cases:
  assumes "consume_attempt F L x = (ok, L')"
  shows "(ok \<longrightarrow> ed_token_hash (fst x) \<notin> dl_consumed L \<and> ed_token_hash (fst x) \<in> dl_consumed L') \<and>
         dl_consumed L \<subseteq> dl_consumed L'"
proof -
  obtain d f now where x: "x = (d, f, now)" by (cases x)
  show ?thesis
  proof (cases "consume F L d f now")
    case None
    with assms x show ?thesis by (auto simp: consume_attempt_def)
  next
    case (Some r)
    obtain out L1 where r: "r = (out, L1)" by (cases r)
    with assms x Some have "L1 = L'" "ok \<longleftrightarrow> out = Consumed" by (auto simp: consume_attempt_def)
    with consume_cases [of F L d f now out L1] Some r x show ?thesis by (auto simp: burn_def)
  qed
qed

interpretation token: single_use "consume_attempt F" "\<lambda>x. ed_token_hash (fst x)" dl_consumed for F
  by unfold_locales (use consume_attempt_cases in blast)+

text \<open>
  C2: over any sequence of consumption attempts, with any facts and clocks, at most one attempt
  per token hash is granted.
\<close>

theorem decision_single_use:
  "distinct (map (\<lambda>x. ed_token_hash (fst x)) (granted (consume_attempt F) L attempts))"
  by (rule token.granted_once)

text \<open>
  a consumption is granted exactly when the token was never spent, its binding verifies
  under the ledger's secret and its hash is its own, the window is still open, and every bound
  fact is still the live one (the evidence digest only when it is rechecked); the token is then
  spent.
\<close>

theorem consume_granted_iff:
  "consume F L d f now = Some (Consumed, L') \<longleftrightarrow>
     ed_token_hash d \<notin> dl_consumed L \<and> binding_mac F d (dl_secret L) = Some (tok_mac (ed_token d)) \<and>
     token_hash_of F (ed_token d) = ed_token_hash d \<and>
     (ed_expires_at_ms d = 0 \<or> now \<le> ed_expires_at_ms d) \<and>
     ed_action_digest d = fr_action_digest f \<and> ed_generation d = fr_generation f \<and>
     ed_cognition_revision d = fr_cognition_revision f \<and> ed_profile d = fr_profile f \<and>
     ed_resolver_registry_revision d = fr_resolver_registry_revision f \<and>
     fr_evidence_set_digest f \<in> {None, Some (ed_evidence_set_digest d)} \<and>
     ed_resource_scope_digest d = fr_resource_scope_digest f \<and>
     L' = L\<lparr>dl_consumed := insert (ed_token_hash d) (dl_consumed L)\<rparr>"
proof -
  have eq: "constant_time_equal x y \<longleftrightarrow> x = y" for x y
    by (auto simp: constant_time_equal_def diff_bits_zero)
  show ?thesis
    by (auto simp: consume_def decision_binding_valid_def freshness_def burn_def eq not_less
        split: if_splits option.splits)
qed

text \<open>
  a decision bound and then presented to a ledger with the same secret, before its expiry
  and with unchanged facts, is granted once, and every later presentation of it, with whatever
  facts, is refused as already consumed.
\<close>

theorem bind_then_consume:
  assumes "bind_allow F D t gen scope reg evidence (dl_secret L) unix_ms counter device now ttl = Some (Inr d, c', dev')"
    and "ed_token_hash d \<notin> dl_consumed L" and "now + ttl = 0 \<or> later \<le> now + ttl"
  shows "consume F L d
       \<lparr>fr_action_digest = the (action_digest_of F (ct_action t)), fr_generation = rg_id gen,
        fr_cognition_revision = pc_revision (ct_cognition t), fr_profile = dp_revision (rg_profile gen),
        fr_resolver_registry_revision = reg, fr_evidence_set_digest = digest_of F (put_evidence F D evidence),
        fr_resource_scope_digest = scope\<rparr> later = Some (Consumed, burn L (ed_token_hash d)) \<and>
     consume F (burn L (ed_token_hash d)) d facts any_time = Some (AlreadyConsumed, burn L (ed_token_hash d))"
proof (rule bind_allow_Inr [OF assms(1)])
  fix a i r e mac
  let ?n = "fst (csrandom_fill 16 device)"
  let ?u = "unsigned_decision t gen scope reg (fst (sortable_next F unix_ms counter)) ?n (now + ttl) (a, i, r, e)"
  assume H: "action_digest_of F (ct_action t) = Some a" "digest_of F (put_evidence F D evidence) = Some e"
    "binding_mac F ?u (dl_secret L) = Some mac"
    "d = ?u\<lparr>ed_token := \<lparr>tok_mac = mac, tok_nonce = ?n\<rparr>, ed_token_hash := token_hash_of F \<lparr>tok_mac = mac, tok_nonce = ?n\<rparr>\<rparr>"
  have n: "tok_nonce (ed_token ?u) = ?n" by (simp add: unsigned_decision_def)
  have "binding_mac F d (dl_secret L) = Some mac"
    using H(3) binding_mac_token [where d = ?u and m = mac] n unfolding H(4) by simp
  then have v: "decision_binding_valid F d (dl_secret L) = Some True"
    using H(4) by (simp add: decision_binding_valid_def constant_time_equal_def diff_bits_zero)
  have k: "token_hash_of F (ed_token d) = ed_token_hash d" unfolding H(4) by simp
  have x: "\<not> (ed_expires_at_ms d \<noteq> 0 \<and> ed_expires_at_ms d < later)"
    using assms(3) unfolding H(4) by (auto simp: unsigned_decision_def)
  show ?thesis
    using assms(2) v k x H(1,2) unfolding consume_def burn_def
    by (simp add: freshness_def H(4) unsigned_decision_def)
qed

text \<open>
  A forged decision that quotes the hash of a live token burns it: the forgery is refused,
  and the genuine decision is afterwards refused as already consumed, whatever the facts.
\<close>

theorem forgery_burns_quoted_token:
  assumes "ed_token_hash forged = ed_token_hash d" "ed_token_hash d \<notin> dl_consumed L"
    and "decision_binding_valid F forged (dl_secret L) = Some False"
  shows "\<exists>L'. consume F L forged facts now = Some (InvalidToken, L') \<and>
     consume F L' d facts' now' = Some (AlreadyConsumed, L')"
  using assms by (simp add: consume_def burn_def)

text \<open>
  The canonical digests leave two facts out: the intent-set preimage records only whether a
  prior failure is present, and the evidence preimage does not contain the evidence type.
\<close>

theorem preimages_leave_out:
  "put_intents F D (map (\<lambda>m. m\<lparr>ic_intent := (ic_intent m)\<lparr>ai_priorFailure := map_option f (ai_priorFailure (ic_intent m))\<rparr>\<rparr>) ms)
     = put_intents F D ms \<and>
   put_evidence F D (map (\<lambda>r. r\<lparr>er_evidence_type := g r\<rparr>) rs) = put_evidence F D rs"
proof -
  have "put_intent F D (m\<lparr>ic_intent := (ic_intent m)\<lparr>ai_priorFailure := map_option f (ai_priorFailure (ic_intent m))\<rparr>\<rparr>)
      = put_intent F D m" for m
    by (simp add: put_intent_def Let_def)
  moreover have "put_receipt F D (r\<lparr>er_evidence_type := g r\<rparr>) = put_receipt F D r" for r
    by (simp add: put_receipt_def)
  ultimately show ?thesis by (simp add: put_intents_def put_evidence_def comp_def)
qed

section \<open>The token binds the decision\<close>

definition decision_sized :: "execution_decision \<Rightarrow> bool" where
  "decision_sized d \<longleftrightarrow>
     length (ed_id d) = 16 \<and> length (tok_nonce (ed_token d)) = 16 \<and>
     length (ed_resource_scope_digest d) = 32 \<and> length (ed_action_digest d) = 32 \<and>
     length (ed_intent_set_digest d) = 32 \<and> length (ed_policy_digest d) = 32 \<and>
     length (ed_requirement_set_digest d) = 32 \<and> length (ed_evidence_set_digest d) = 32"

definition same_bound_facts :: "execution_decision \<Rightarrow> execution_decision \<Rightarrow> bool" where
  "same_bound_facts d e \<longleftrightarrow>
     e = d\<lparr>ed_token := ed_token e, ed_token_hash := ed_token_hash e,
           ed_classifier_contract := ed_classifier_contract e, ed_disposition := ed_disposition e\<rparr>"

context codec_laws
begin

lemma put_bytes_app_iff:
  "length s \<le> preimage_capacity_limit \<Longrightarrow> length t \<le> preimage_capacity_limit \<Longrightarrow>
     put_bytes F s @ x = put_bytes F t @ y \<longleftrightarrow> s = t \<and> x = y"
  using put_bytes_app [of s x t y] by (auto simp: preimage_capacity_limit_def)

lemma put_bytes_eq_iff:
  "length s \<le> preimage_capacity_limit \<Longrightarrow> length t \<le> preimage_capacity_limit \<Longrightarrow>
     put_bytes F s = put_bytes F t \<longleftrightarrow> s = t"
  using put_bytes_app_iff [of s t "[]" "[]"] by simp

lemma put_binding_inj:
  assumes "decision_sized d" "decision_sized e"
    and "length (put_binding F d) \<le> preimage_capacity_limit" "length (put_binding F e) \<le> preimage_capacity_limit"
    and "put_binding F d @ tok_nonce (ed_token d) = put_binding F e @ tok_nonce (ed_token e)"
  shows "same_bound_facts d e"
proof -
  have l: "length (ed_operation k) \<le> preimage_capacity_limit \<and> length (ed_target k) \<le> preimage_capacity_limit \<and>
      length (ed_cognition_revision k) \<le> preimage_capacity_limit"
    if "length (put_binding F k) \<le> preimage_capacity_limit" for k
    using that by (simp add: put_binding_def)
  show ?thesis
    using assms(5) assms(1,2)[unfolded decision_sized_def] l [OF assms(3)] l [OF assms(4)]
    unfolding put_binding_def same_bound_facts_def append_assoc
    by (cases d; cases e) (simp add: put_bytes_app_iff put_bytes_eq_iff append_eq_fixed)
qed

end

text \<open>
  C9: the token binds every authorized fact: two decisions with the same token that both verify
  under the same secret agree on the identity, transaction, generation, session, actor,
  capability, operation, target, scope, expiry, every digest, the cognition revision, the
  profile and the registry revision, as long as the keyed hash does not collide on the two
  preimages.
\<close>

theorem token_binds_decision:
  assumes "codec_laws F" "decision_sized d" "decision_sized e" "ed_token d = ed_token e"
    and "decision_binding_valid F d key = Some True" "decision_binding_valid F e key = Some True"
    and "hmac_sha256 F key (put_binding F d @ tok_nonce (ed_token d)) =
           hmac_sha256 F key (put_binding F e @ tok_nonce (ed_token e)) \<Longrightarrow>
         put_binding F d @ tok_nonce (ed_token d) = put_binding F e @ tok_nonce (ed_token e)"
  shows "same_bound_facts d e"
proof -
  have eq: "constant_time_equal x y \<longleftrightarrow> x = y" for x y
    by (auto simp: constant_time_equal_def diff_bits_zero)
  have v: "hmac_sha256 F key (put_binding F k @ tok_nonce (ed_token k)) = tok_mac (ed_token k) \<and>
      length (put_binding F k) \<le> preimage_capacity_limit"
    if "decision_binding_valid F k key = Some True" for k
    using that by (auto simp: decision_binding_valid_def binding_mac_def eq)
  have "put_binding F d @ tok_nonce (ed_token d) = put_binding F e @ tok_nonce (ed_token e)"
    by (rule assms(7))
       (rule trans [OF conjunct1 [OF v [OF assms(5)]]],
        rule trans [OF _ conjunct1 [OF v [OF assms(6)], symmetric]], simp add: assms(4))
  with v [OF assms(5)] v [OF assms(6)] show ?thesis
    by (intro codec_laws.put_binding_inj [OF assms(1-3)]) blast+
qed

definition ex_generation :: runtime_generation where
  "ex_generation = \<lparr>rg_id = 1, rg_profile = ex_profile, rg_adapters = [], rg_cognition = []\<rparr>"

definition ex_allowed :: control_transaction where
  "ex_allowed = (ex_transaction Satisfied)\<lparr>ct_phase := CognitiveAllowed\<rparr>"

abbreviation ex_bind :: "u64 \<Rightarrow> (execution_decision res \<times> u64 \<times> u32 list) option" where
  "ex_bind now \<equiv> bind_allow ref_foundation ref_draft ex_allowed ex_generation (replicate 32 5) 77 []
     (replicate 32 3) 1000 0 [1, 2, 3, 4] now 50"

lemmas ex_bind_defs = ex_allowed_def ex_generation_def ex_transaction_def begin_control_transaction_def
  ex_action_def observe_action_def put_action_def put_intents_def put_requirements_def put_requirement_def
  put_evidence_def put_flag_def put_strings_def put_binding_def action_digest_of_def digest_of_def
  binding_mac_def preimage_capacity_limit_def

definition ex_facts_now :: freshness_facts where
  "ex_facts_now =
     \<lparr>fr_action_digest = replicate 32 1, fr_generation = 1, fr_cognition_revision = ''rev'', fr_profile = 1,
      fr_resolver_registry_revision = 77, fr_evidence_set_digest = None, fr_resource_scope_digest = replicate 32 5\<rparr>"

lemma ref_sha256 [simp]: "length (sha256 ref_foundation bs) = 32"
  by (simp add: ref_foundation_def)

lemma ref_sha256_nonempty [simp]: "sha256 ref_foundation bs \<noteq> []"
  using ref_sha256 [of bs] by (metis list.size(3) zero_neq_numeral)

lemma ref_sortable [simp]: "length (fst (sortable_next ref_foundation ms c)) = 16"
  by (simp add: sortable_next_def Let_def)

lemma ex_nonce: "length (fst (csrandom_fill 16 [1, 2, 3, 4])) = 16"
  by (simp add: csrandom_fill_length)

lemma ex_bind_ok: "\<exists>d c' dev'. ex_bind now = Some (Inr d, c', dev')"
proof -
  obtain did c' where a: "sortable_next ref_foundation 1000 0 = (did, c')" by fastforce
  obtain nonce dev' where b: "csrandom_fill 16 [1, 2, 3, 4] = (nonce, dev')" by fastforce
  have "length did = 16" "length nonce = 16"
    using ref_sortable [of 1000 0] ex_nonce a b by simp_all
  then show ?thesis
    by (simp add: bind_allow_def ex_bind_defs sealed_def a b Let_def)
qed

theorem bind_allow_sound_witness:
  "\<exists>d c' dev'. ex_bind 9 = Some (Inr d, c', dev') \<and> decision_binding_valid ref_foundation d (replicate 32 3) = Some True \<and>
     ed_expires_at_ms d = 59"
proof -
  obtain d c' dev' where b: "ex_bind 9 = Some (Inr d, c', dev')" using ex_bind_ok by blast
  from bind_allow_sound [OF b] b show ?thesis by auto
qed

theorem bind_then_consume_witness:
  "\<exists>d c' dev' facts. ex_bind 9 = Some (Inr d, c', dev') \<and>
     consume ref_foundation (ledger_init (replicate 32 3)) d facts 59 = Some (Consumed, burn (ledger_init (replicate 32 3)) (ed_token_hash d)) \<and>
     consume ref_foundation (burn (ledger_init (replicate 32 3)) (ed_token_hash d)) d facts 59 =
       Some (AlreadyConsumed, burn (ledger_init (replicate 32 3)) (ed_token_hash d))"
proof -
  let ?L = "ledger_init (replicate 32 3)"
  obtain d c' dev' where b: "ex_bind 9 = Some (Inr d, c', dev')" using ex_bind_ok by blast
  then have b': "bind_allow ref_foundation ref_draft ex_allowed ex_generation (replicate 32 5) 77 []
     (dl_secret ?L) 1000 0 [1, 2, 3, 4] 9 50 = Some (Inr d, c', dev')"
    by (simp add: ledger_init_def)
  have "ed_token_hash d \<notin> dl_consumed ?L" by (simp add: ledger_init_def)
  from bind_then_consume [OF b' this] b show ?thesis by force
qed

lemma ex_bind_sized:
  assumes "ex_bind now = Some (Inr d, c', dev')"
  shows "decision_sized d"
proof (rule bind_allow_Inr [OF assms])
  fix a i r e mac
  let ?n = "fst (csrandom_fill 16 [1, 2, 3, 4])"
  let ?u = "unsigned_decision ex_allowed ex_generation (replicate 32 5) 77 (fst (sortable_next ref_foundation 1000 0)) ?n
     (now + 50) (a, i, r, e)"
  assume H: "action_digest_of ref_foundation (ct_action ex_allowed) = Some a"
    "digest_of ref_foundation (put_intents ref_foundation ref_draft (ct_intents ex_allowed)) = Some i"
    "digest_of ref_foundation (put_requirements ref_foundation ref_draft (ct_packet ex_allowed)) = Some r"
    "digest_of ref_foundation (put_evidence ref_foundation ref_draft []) = Some e"
    "d = ?u\<lparr>ed_token := \<lparr>tok_mac = mac, tok_nonce = ?n\<rparr>,
       ed_token_hash := token_hash_of ref_foundation \<lparr>tok_mac = mac, tok_nonce = ?n\<rparr>\<rparr>"
  have "length x = 32" if "digest_of ref_foundation p = Some x" for p x
    using that by (auto simp: digest_of_def)
  then have "length a = 32" "length i = 32" "length r = 32" "length e = 32"
    using H(1-4) by (auto simp: action_digest_of_def)
  moreover have "length (pc_policy_digest (ct_cognition ex_allowed)) = 32"
    by (simp add: ex_allowed_def ex_transaction_def begin_control_transaction_def)
  ultimately show ?thesis
    using ex_nonce unfolding H(5) decision_sized_def unsigned_decision_def by simp
qed

theorem token_binds_decision_witness:
  "\<exists>d c' dev'. ex_bind 9 = Some (Inr d, c', dev') \<and> same_bound_facts d (d\<lparr>ed_disposition := Deny\<rparr>)"
proof -
  obtain d c' dev' where b: "ex_bind 9 = Some (Inr d, c', dev')" using ex_bind_ok by blast
  let ?e = "d\<lparr>ed_disposition := Deny\<rparr>"
  have p: "put_binding ref_foundation ?e = put_binding ref_foundation d" by (simp add: put_binding_def)
  have v: "decision_binding_valid ref_foundation d (replicate 32 3) = Some True"
    by (rule bind_allow_Inr [OF b])
       (simp add: decision_binding_valid_def binding_mac_def put_binding_def unsigned_decision_def
         constant_time_equal_def diff_bits_zero)
  then have v': "decision_binding_valid ref_foundation ?e (replicate 32 3) = Some True"
    by (simp add: decision_binding_valid_def binding_mac_def p)
  have z: "decision_sized d" by (rule ex_bind_sized [OF b])
  then have "decision_sized ?e" by (simp add: decision_sized_def)
  from token_binds_decision [OF ref_codec_laws z this _ v v'] p b show ?thesis by auto
qed

theorem forgery_burns_quoted_token_witness:
  "\<exists>d c' dev' L'. ex_bind 9 = Some (Inr d, c', dev') \<and>
     consume ref_foundation (ledger_init (replicate 32 3)) (d\<lparr>ed_token := (ed_token d)\<lparr>tok_mac := []\<rparr>\<rparr>) ex_facts_now 10 = Some (InvalidToken, L') \<and>
     consume ref_foundation L' d ex_facts_now 10 = Some (AlreadyConsumed, L')"
proof -
  obtain d c' dev' where b: "ex_bind 9 = Some (Inr d, c', dev')" using ex_bind_ok by blast
  let ?f = "d\<lparr>ed_token := (ed_token d)\<lparr>tok_mac := []\<rparr>\<rparr>" and ?L = "ledger_init (replicate 32 3)"
  have "decision_binding_valid ref_foundation ?f (dl_secret ?L) = Some False"
    by (rule bind_allow_Inr [OF b])
       (simp add: decision_binding_valid_def binding_mac_def put_binding_def unsigned_decision_def
         constant_time_equal_def ledger_init_def hmac_sha256_def Let_def)
  then obtain L' where "consume ref_foundation ?L ?f ex_facts_now 10 = Some (InvalidToken, L')"
    "consume ref_foundation L' d ex_facts_now 10 = Some (AlreadyConsumed, L')"
    using forgery_burns_quoted_token [of ?f d ?L ref_foundation ex_facts_now 10 ex_facts_now 10]
    by (auto simp: ledger_init_def)
  with b show ?thesis by blast
qed

end
