(* ===== verification/Outcome.thy ===== *)
theory Outcome
  imports Decision
begin

text \<open>
  Post-action observation (\<^verbatim>\<open>outcome.hpp\<close>, \<^verbatim>\<open>outcome.cpp\<close>), the reconciliation barrier and its
  coordinator (\<^verbatim>\<open>reconciliation.hpp\<close>, \<^verbatim>\<open>reconciliation.cpp\<close>), and the failure memory
  (\<^verbatim>\<open>failure.hpp\<close>, \<^verbatim>\<open>failure.cpp\<close>).  An effect scope is its 64-bit identifier.  The barrier is the
  association list of its scopes, since its identifiers are listed in order.
\<close>

section \<open>Observation\<close>

datatype execution_outcome = Succeeded | Outcome_Failed | Indeterminate

type_synonym effect_scope = u64

definition effect_scope_of :: "foundation \<Rightarrow> observed_action \<Rightarrow> effect_scope" where
  "effect_scope_of F a = (fnv1a64 F (oa_target a) XOR oa_capability a) * fnv_prime F"

record post_action_observation =
  po_transaction :: transaction_id
  po_harness_action :: harness_action_id
  po_action_digest :: content_digest
  po_generation :: generation_id
  po_reported :: execution_outcome
  po_scope :: effect_scope
  po_evidence :: string

datatype observation_status =
    Accepted | RejectedCorrelationMismatch | RejectedDuplicate | RejectedUnknownDecision

record observation_result =
  or_status :: observation_status
  or_outcome :: execution_outcome
  or_fingerprint :: failure_fingerprint
  or_barrier_scope :: effect_scope
  or_barrier_active :: bool

record prior_observation =
  po_prior_harness_action :: harness_action_id
  po_prior_transaction :: transaction_id
  po_prior_generation :: generation_id
  po_prior_action_digest :: content_digest
  po_prior_outcome :: execution_outcome

type_synonym post_action_observer = "correlation_key \<rightharpoonup> prior_observation"

definition observed :: "post_action_observer \<Rightarrow> correlation_key \<Rightarrow> bool" where
  "observed obs key \<longleftrightarrow> obs key \<noteq> None"

definition default_result :: "draft \<Rightarrow> observation_result" where
  "default_result D =
     \<lparr>or_status = Accepted, or_outcome = Indeterminate, or_fingerprint = default_fingerprint D,
      or_barrier_scope = 0, or_barrier_active = False\<rparr>"

definition correlation_mismatch :: "execution_decision \<Rightarrow> correlation_key \<Rightarrow> post_action_observation \<Rightarrow> bool" where
  "correlation_mismatch d key ob \<longleftrightarrow>
     po_transaction ob \<noteq> ed_transaction d \<or> po_action_digest ob \<noteq> ed_action_digest d \<or>
     po_generation ob \<noteq> ed_generation d \<or> po_harness_action ob \<noteq> ck_action key \<or>
     ck_generation key \<noteq> ed_generation d \<or> ck_session key \<noteq> ed_session d \<or> ck_actor key \<noteq> ed_actor d"

definition raise_if_indeterminate :: "post_action_observation \<Rightarrow> observation_result \<Rightarrow> observation_result" where
  "raise_if_indeterminate ob r =
     (if or_outcome r = Indeterminate then r\<lparr>or_barrier_scope := po_scope ob, or_barrier_active := True\<rparr> else r)"

definition observe ::
    "draft \<Rightarrow> post_action_observer \<Rightarrow> execution_decision \<Rightarrow> correlation_key \<Rightarrow> post_action_observation
     \<Rightarrow> observation_result \<times> post_action_observer" where
  "observe D obs d key ob =
     (if correlation_mismatch d key ob
      then ((default_result D)\<lparr>or_status := RejectedCorrelationMismatch\<rparr>, obs)
      else case obs key of
        Some recorded \<Rightarrow>
          if po_prior_harness_action recorded = po_harness_action ob \<and>
             po_prior_transaction recorded = po_transaction ob \<and>
             po_prior_generation recorded = po_generation ob \<and>
             po_prior_action_digest recorded = po_action_digest ob \<and> po_prior_outcome recorded = po_reported ob
          then (raise_if_indeterminate ob ((default_result D)\<lparr>or_outcome := po_prior_outcome recorded\<rparr>), obs)
          else ((default_result D)\<lparr>or_status := RejectedDuplicate\<rparr>, obs)
      | None \<Rightarrow>
          let obs' = obs(key \<mapsto> \<lparr>po_prior_harness_action = po_harness_action ob,
                                po_prior_transaction = po_transaction ob,
                                po_prior_generation = po_generation ob,
                                po_prior_action_digest = po_action_digest ob,
                                po_prior_outcome = po_reported ob\<rparr>);
              r = (default_result D)\<lparr>or_outcome := po_reported ob\<rparr>;
              r = (if po_reported ob = Outcome_Failed then
                     (if po_evidence ob = [] then r\<lparr>or_outcome := Indeterminate\<rparr>
                      else r\<lparr>or_fingerprint := (default_fingerprint D)
                                \<lparr>ff_operation := ''post-action'', ff_category := ''mechanism'',
                                 ff_stableMessage := normalize_failure_text D (po_evidence ob)\<rparr>\<rparr>)
                   else if po_reported ob = Succeeded \<and> po_evidence ob = [] then r\<lparr>or_outcome := Indeterminate\<rparr>
                   else r)
          in (raise_if_indeterminate ob r, obs'))"

section \<open>Barrier and reconciliation\<close>

datatype barrier_verdict = Barrier_Allowed | Barrier_Blocked
datatype mutation_relation = Independent | Equivalent

type_synonym barrier = "(u64 \<times> transaction_id) list"

definition barrier_raise :: "barrier \<Rightarrow> effect_scope \<Rightarrow> transaction_id \<Rightarrow> barrier" where
  "barrier_raise b scope t = (if map_of b scope = None then b @ [(scope, t)] else b)"

definition barrier_active :: "barrier \<Rightarrow> effect_scope \<Rightarrow> bool" where
  "barrier_active b scope \<longleftrightarrow> map_of b scope \<noteq> None"

definition barrier_check :: "barrier \<Rightarrow> effect_scope \<Rightarrow> mutation_relation \<Rightarrow> barrier_verdict" where
  "barrier_check b scope relation =
     (if relation = Independent then Barrier_Allowed
      else if map_of b scope \<noteq> None then Barrier_Blocked else Barrier_Allowed)"

definition active_scope_ids :: "barrier \<Rightarrow> u64 list" where
  "active_scope_ids b = sort (map fst b)"

definition barrier_lift :: "barrier \<Rightarrow> effect_scope \<Rightarrow> barrier" where
  "barrier_lift b scope = filter (\<lambda>e. fst e \<noteq> scope) b"

datatype reconciliation_result = ResolvedSucceeded | ResolvedFailed | StillIndeterminate
datatype reconciliation_evidence = AuthoritativeObservation | Evidence_None

record coordinator =
  co_barrier :: barrier
  co_resolutions :: u64

record reconciliation_outcome =
  ro_result :: reconciliation_result
  ro_fingerprint :: "failure_fingerprint option"

definition reconcile ::
    "draft \<Rightarrow> coordinator \<Rightarrow> effect_scope \<Rightarrow> reconciliation_evidence \<Rightarrow> string
     \<Rightarrow> reconciliation_outcome \<times> coordinator" where
  "reconcile D c scope evidence detail =
     (let c = c\<lparr>co_resolutions := co_resolutions c + 1\<rparr> in
      if evidence \<noteq> AuthoritativeObservation \<or> detail = []
      then (\<lparr>ro_result = StillIndeterminate, ro_fingerprint = None\<rparr>, c)
      else
        let c = c\<lparr>co_barrier := barrier_lift (co_barrier c) scope\<rparr> in
        if take 7 detail = ''failed:''
        then (\<lparr>ro_result = ResolvedFailed,
               ro_fingerprint = Some ((default_fingerprint D)
                 \<lparr>ff_operation := ''reconciled'', ff_category := ''authoritative-observation'',
                  ff_stableMessage := normalize_failure_text D (drop 7 detail)\<rparr>)\<rparr>, c)
        else (\<lparr>ro_result = ResolvedSucceeded, ro_fingerprint = None\<rparr>, c))"

section \<open>Failure memory\<close>

record failure_key =
  fk_actor :: u64
  fk_capability :: u64
  fk_target :: u64

record failure_entry =
  fe_fingerprint :: failure_fingerprint
  fe_recurrence :: u64

type_synonym failure_tracker = "failure_key \<rightharpoonup> failure_entry"

definition failure_key_hash :: "failure_key \<Rightarrow> u64" where
  "failure_key_hash k =
     (let seed = fk_actor k;
          seed = seed XOR (fk_capability k + 0x9e3779b97f4a7c15 + push_bit 6 seed + drop_bit 2 seed)
      in seed XOR (fk_target k + 0x9e3779b97f4a7c15 + push_bit 6 seed + drop_bit 2 seed))"

definition record_failure :: "failure_tracker \<Rightarrow> failure_key \<Rightarrow> failure_fingerprint \<Rightarrow> failure_tracker" where
  "record_failure T k fp =
     (case T k of
        None \<Rightarrow> T(k \<mapsto> \<lparr>fe_fingerprint = fp, fe_recurrence = 1\<rparr>)
      | Some e \<Rightarrow> T(k \<mapsto> \<lparr>fe_fingerprint = fp, fe_recurrence = fe_recurrence e + 1\<rparr>))"

definition retry_intent_for :: "draft \<Rightarrow> failure_tracker \<Rightarrow> failure_key \<Rightarrow> action_intent option" where
  "retry_intent_for D T k =
     (case T k of
        None \<Rightarrow> None
      | Some e \<Rightarrow> Some ((default_intent D)\<lparr>ai_kind := RetryFailure, ai_priorFailure := Some (fe_fingerprint e),
                                            ai_tool := ff_tool (fe_fingerprint e)\<rparr>))"

definition failure_key_of :: "foundation \<Rightarrow> observed_action \<Rightarrow> failure_key" where
  "failure_key_of F a =
     \<lparr>fk_actor = oa_actor a, fk_capability = oa_capability a, fk_target = fnv1a64 F (oa_target a)\<rparr>"

definition classify_with_failure_memory ::
    "foundation \<Rightarrow> draft \<Rightarrow> observed_action \<Rightarrow> structural_facts \<Rightarrow> failure_tracker \<Rightarrow> intent_set option" where
  "classify_with_failure_memory F D a facts T =
     (case retry_intent_for D T (failure_key_of F a) of
        None \<Rightarrow> classify D a facts []
      | Some retry \<Rightarrow>
          (case classify D a facts [] of
             None \<Rightarrow> None
           | Some floor \<Rightarrow>
               (case make_intent_set [\<lparr>ic_intent = ic_intent (floor ! 0), ic_basis = Mechanical\<rparr>,
                                      \<lparr>ic_intent = retry, ic_basis = Mechanical\<rparr>] of
                  Inl e \<Rightarrow> None
                | Inr built \<Rightarrow> Some built)))"

section \<open>What an observation establishes\<close>

lemma raise_if_indeterminate_sel [simp]:
  "or_status (raise_if_indeterminate ob r) = or_status r"
  "or_outcome (raise_if_indeterminate ob r) = or_outcome r"
  "or_fingerprint (raise_if_indeterminate ob r) = or_fingerprint r"
  by (simp_all add: raise_if_indeterminate_def)

text \<open>
  the first observation of an execution is accepted exactly when every correlation field
  agrees with the decision and the key; it counts as success or failure only when it was
  reported so with evidence, is indeterminate otherwise, and raises the barrier over its scope
  exactly when it is indeterminate; a failure carries the normalized evidence as its
  fingerprint.
\<close>

theorem first_observation:
  assumes "obs key = None" "observe D obs d key ob = (r, obs')"
  shows "(or_status r = Accepted \<longleftrightarrow> \<not> correlation_mismatch d key ob) \<and>
     (or_status r = Accepted \<longrightarrow>
        or_outcome r = (if po_evidence ob = [] then Indeterminate else po_reported ob) \<and>
        (or_barrier_active r \<longleftrightarrow> or_outcome r = Indeterminate) \<and>
        (or_barrier_active r \<longrightarrow> or_barrier_scope r = po_scope ob) \<and>
        (or_outcome r = Outcome_Failed \<longrightarrow>
           ff_stableMessage (or_fingerprint r) = normalize_failure_text D (po_evidence ob)) \<and>
        observed obs' key)"
  using assms
  by (cases "po_reported ob")
     (auto simp: observe_def default_result_def raise_if_indeterminate_def observed_def Let_def split: if_splits)

text \<open>
  an execution has one final observation: once an observation of a key was accepted, any
  later observation of that key that differs in its harness action, transaction, generation,
  digest or reported outcome is rejected, and the record does not change.
\<close>

theorem one_final_observation:
  assumes "obs key = None" "observe D obs d key ob = (r, obs')" "or_status r = Accepted"
    and "observe D obs' d' key ob' = (r', obs'')"
  shows "obs'' = obs' \<and>
     (or_status r' = Accepted \<longrightarrow>
        po_harness_action ob' = po_harness_action ob \<and> po_transaction ob' = po_transaction ob \<and>
        po_generation ob' = po_generation ob \<and> po_action_digest ob' = po_action_digest ob \<and>
        po_reported ob' = po_reported ob)"
proof -
  have o: "obs' key = Some \<lparr>po_prior_harness_action = po_harness_action ob, po_prior_transaction = po_transaction ob,
      po_prior_generation = po_generation ob, po_prior_action_digest = po_action_digest ob,
      po_prior_outcome = po_reported ob\<rparr>"
    using assms(1-3) by (auto simp: observe_def default_result_def Let_def split: if_splits)
  show ?thesis
    using assms(4) by (auto simp: observe_def o default_result_def split: if_splits)
qed

text \<open>
  a report of success without evidence is indeterminate and barred when it first arrives,
  but the identical report delivered again is answered Succeeded without a barrier: the record
  keeps what was reported, not what was concluded.
\<close>

theorem replay_forgets_indeterminate:
  assumes "obs key = None" "\<not> correlation_mismatch d key ob" "po_evidence ob = []"
    and "po_reported ob \<noteq> Indeterminate"
  shows "\<exists>r obs' r'. observe D obs d key ob = (r, obs') \<and> observe D obs' d key ob = (r', obs') \<and>
     or_outcome r = Indeterminate \<and> or_barrier_active r \<and>
     or_status r' = Accepted \<and> or_outcome r' = po_reported ob \<and> \<not> or_barrier_active r'"
  using assms
  by (cases "po_reported ob")
     (auto simp: observe_def default_result_def raise_if_indeterminate_def Let_def)

definition ex_observation :: "execution_outcome \<Rightarrow> string \<Rightarrow> post_action_observation" where
  "ex_observation out evidence =
     \<lparr>po_transaction = 1, po_harness_action = 5, po_action_digest = replicate 32 1, po_generation = 1,
      po_reported = out, po_scope = 8, po_evidence = evidence\<rparr>"

definition ex_key :: correlation_key where
  "ex_key = \<lparr>ck_generation = 1, ck_adapter = 2, ck_session = 3, ck_actor = 4, ck_action = 5\<rparr>"

definition ex_decision :: execution_decision where
  "ex_decision = (unsigned_decision ex_allowed ex_generation (replicate 32 5) 77 (replicate 16 0) (replicate 16 0) 50
     (replicate 32 1, replicate 32 1, replicate 32 1, replicate 32 1))\<lparr>ed_session := 3, ed_actor := 4\<rparr>"

lemma ex_correlated [simp]: "\<not> correlation_mismatch ex_decision ex_key (ex_observation out evidence)"
  by (simp add: correlation_mismatch_def ex_decision_def unsigned_decision_def ex_key_def ex_observation_def
      ex_allowed_def ex_transaction_def begin_control_transaction_def ex_generation_def)

theorem first_observation_witness:
  "or_outcome (fst (observe ref_draft Map.empty ex_decision ex_key (ex_observation Succeeded ''ok''))) = Succeeded \<and>
   or_outcome (fst (observe ref_draft Map.empty ex_decision ex_key (ex_observation Succeeded []))) = Indeterminate"
proof -
  have "or_status (fst (observe ref_draft Map.empty ex_decision ex_key (ex_observation Succeeded e))) = Accepted" for e
    by (simp add: observe_def default_result_def Let_def)
  then show ?thesis
    using first_observation [of Map.empty ex_key ref_draft ex_decision "ex_observation Succeeded ''ok''"]
      first_observation [of Map.empty ex_key ref_draft ex_decision "ex_observation Succeeded []"]
    by (metis (no_types, lifting) ex_observation_def list.distinct(1) post_action_observation.select_convs(5,7) prod.collapse)
qed

theorem replay_forgets_indeterminate_witness:
  "\<exists>r obs' r'. observe ref_draft Map.empty ex_decision ex_key (ex_observation Succeeded []) = (r, obs') \<and>
     observe ref_draft obs' ex_decision ex_key (ex_observation Succeeded []) = (r', obs') \<and>
     or_barrier_active r \<and> or_outcome r' = Succeeded \<and> \<not> or_barrier_active r'"
proof -
  have "po_evidence (ex_observation Succeeded []) = []" "po_reported (ex_observation Succeeded []) = Succeeded"
    by (simp_all add: ex_observation_def)
  with replay_forgets_indeterminate [of Map.empty ex_key ex_decision "ex_observation Succeeded []" ref_draft]
  show ?thesis by auto
qed

theorem one_final_observation_witness:
  "\<exists>r obs' r'. observe ref_draft Map.empty ex_decision ex_key (ex_observation Succeeded ''ok'') = (r, obs') \<and>
     observe ref_draft obs' ex_decision ex_key (ex_observation Outcome_Failed ''bad'') = (r', obs') \<and>
     or_status r' \<noteq> Accepted"
proof -
  let ?o = "ex_observation Succeeded ''ok''" and ?p = "ex_observation Outcome_Failed ''bad''"
  obtain r obs' where a: "observe ref_draft Map.empty ex_decision ex_key ?o = (r, obs')" by fastforce
  obtain r' obs'' where b: "observe ref_draft obs' ex_decision ex_key ?p = (r', obs'')" by fastforce
  have "or_status r = Accepted" using a by (auto simp: observe_def default_result_def Let_def)
  from one_final_observation [OF _ a this b] a b show ?thesis by (auto simp: ex_observation_def)
qed

section \<open>What the barrier promises\<close>

datatype barrier_event =
    Raise effect_scope transaction_id
  | Reconcile effect_scope reconciliation_evidence string

fun apply_event :: "draft \<Rightarrow> coordinator \<Rightarrow> barrier_event \<Rightarrow> coordinator" where
  "apply_event D c (Raise scope t) = c\<lparr>co_barrier := barrier_raise (co_barrier c) scope t\<rparr>"
| "apply_event D c (Reconcile scope evidence detail) = snd (reconcile D c scope evidence detail)"

text \<open>A scope is barred by a history when it was raised and not authoritatively resolved since.\<close>

fun barred_by :: "effect_scope \<Rightarrow> bool \<Rightarrow> barrier_event list \<Rightarrow> bool" where
  "barred_by scope b [] = b"
| "barred_by scope b (Raise s t # es) = barred_by scope (b \<or> s = scope) es"
| "barred_by scope b (Reconcile s evidence detail # es) =
     barred_by scope (b \<and> \<not> (s = scope \<and> evidence = AuthoritativeObservation \<and> detail \<noteq> [])) es"

lemma active_raise: "barrier_active (barrier_raise b s t) scope \<longleftrightarrow> barrier_active b scope \<or> s = scope"
  by (auto simp: barrier_active_def barrier_raise_def map_of_eq_None_iff image_iff split: if_splits)

lemma active_lift: "barrier_active (barrier_lift b s) scope \<longleftrightarrow> barrier_active b scope \<and> s \<noteq> scope"
  by (auto simp: barrier_active_def barrier_lift_def map_of_eq_None_iff)

lemma active_reconcile:
  "barrier_active (co_barrier (snd (reconcile D c s evidence detail))) scope \<longleftrightarrow>
     barrier_active (co_barrier c) scope \<and> \<not> (s = scope \<and> evidence = AuthoritativeObservation \<and> detail \<noteq> [])"
  by (auto simp: reconcile_def active_lift Let_def)

lemma active_history:
  "barrier_active (co_barrier (foldl (apply_event D) c es)) scope \<longleftrightarrow>
     barred_by scope (barrier_active (co_barrier c) scope) es"
proof (induction es arbitrary: c)
  case (Cons e es)
  have "barrier_active (co_barrier (foldl (apply_event D) c (e # es))) scope \<longleftrightarrow>
      barred_by scope (barrier_active (co_barrier (apply_event D c e)) scope) es"
    using Cons.IH [of "apply_event D c e"] by simp
  also have "\<dots> \<longleftrightarrow> barred_by scope (barrier_active (co_barrier c) scope) (e # es)"
    by (cases e) (simp_all add: active_raise active_reconcile)
  finally show ?case .
qed simp

text \<open>
  after any history of raised barriers and reconciliations, an equivalent mutation of a
  scope is blocked exactly when the scope was raised and has not been resolved by an
  authoritative observation since; nothing else lifts a barrier, and independent mutations are
  never blocked.
\<close>

theorem barrier_blocks_until_resolved:
  "(barrier_check (co_barrier (foldl (apply_event D) \<lparr>co_barrier = [], co_resolutions = 0\<rparr> es)) scope Equivalent
      = Barrier_Blocked \<longleftrightarrow> barred_by scope False es) \<and>
   barrier_check b scope Independent = Barrier_Allowed"
  using active_history [of D "\<lparr>co_barrier = [], co_resolutions = 0\<rparr>" es scope]
  by (auto simp: barrier_check_def barrier_active_def)

text \<open>
  a reconciliation resolves only from an authoritative, non-empty observation: it then lifts
  the barrier of its own scope and no other, and mints a fingerprint exactly when the detail
  reports a failure; otherwise the result is still indeterminate and the barrier is unchanged.
\<close>

theorem reconcile_authoritative_only:
  assumes "reconcile D c scope evidence detail = (out, c')"
  shows "(ro_result out \<noteq> StillIndeterminate \<longleftrightarrow> evidence = AuthoritativeObservation \<and> detail \<noteq> []) \<and>
     (ro_result out = StillIndeterminate \<longrightarrow> co_barrier c' = co_barrier c) \<and>
     (ro_result out \<noteq> StillIndeterminate \<longrightarrow>
        (\<forall>s. barrier_active (co_barrier c') s \<longleftrightarrow> barrier_active (co_barrier c) s \<and> s \<noteq> scope)) \<and>
     (ro_fingerprint out \<noteq> None \<longleftrightarrow> ro_result out = ResolvedFailed)"
  using assms by (auto simp: reconcile_def active_lift Let_def split: if_splits)

theorem reconcile_authoritative_only_witness:
  "ro_result (fst (reconcile ref_draft \<lparr>co_barrier = [(8, 1)], co_resolutions = 0\<rparr> 8 AuthoritativeObservation ''failed: x''))
     \<noteq> StillIndeterminate"
proof -
  let ?c = "\<lparr>co_barrier = [(8, 1)], co_resolutions = 0\<rparr>"
  obtain out c' where r: "reconcile ref_draft ?c 8 AuthoritativeObservation ''failed: x'' = (out, c')" by fastforce
  from reconcile_authoritative_only [OF r] r show ?thesis by simp
qed

section \<open>What the failure memory does\<close>

lemma classify_some: "classify D a facts ds = Some (foldl keep_member [] (classification_members D a facts ds))"
  by (rule classify_total)

lemma keep_prefix: "\<exists>zs. foldl keep_member kept ms = kept @ zs"
proof (induction ms arbitrary: kept)
  case (Cons m ms)
  obtain ys where "keep_member kept m = kept @ ys"
    by (cases "\<exists>k \<in> set kept. same_member k m") (simp_all add: keep_member_def)
  with Cons.IH [of "keep_member kept m"] show ?case by auto
qed simp

lemma keep_two:
  "foldl keep_member [] [x, y] = (if same_member x y then [x] else [x, y])"
  by (simp add: keep_member_def)

text \<open>
  after a failure was recorded for an action's actor, capability and target, classifying the
  action yields a set with a RetryFailure intent that carries the most recent fingerprint, and
  one other member at most: the first intent of the mechanical floor.
\<close>

theorem failure_memory_retry:
  assumes "failure_key_of F a = k"
  shows "\<exists>s floor. classify D a facts [] = Some floor \<and>
     classify_with_failure_memory F D a facts (record_failure T k fp) = Some s \<and>
     length s \<le> 2 \<and> ic_intent (s ! 0) = ic_intent (floor ! 0) \<and>
     (ai_kind (ic_intent (floor ! 0)) \<noteq> RetryFailure \<longrightarrow>
        length s = 2 \<and> ai_kind (ic_intent (s ! 1)) = RetryFailure \<and> ai_priorFailure (ic_intent (s ! 1)) = Some fp)"
proof -
  obtain e where e: "record_failure T k fp k = Some e" "fe_fingerprint e = fp"
    by (cases "T k") (auto simp: record_failure_def)
  let ?r = "(default_intent D)\<lparr>ai_kind := RetryFailure, ai_priorFailure := Some fp, ai_tool := ff_tool fp\<rparr>"
  have r: "retry_intent_for D (record_failure T k fp) (failure_key_of F a) = Some ?r"
    using e assms by (simp add: retry_intent_for_def)
  show ?thesis
    unfolding classify_with_failure_memory_def r classify_some make_intent_set_def keep_two
    by (auto simp: same_member_def same_projection_def)
qed

text \<open>
  With a recorded failure the classification of a capability that both publishes claims and
  changes the world no longer contains the contract-change intent of the floor, so the set is
  narrowed although the retry intent is meant to be added to it.
\<close>

theorem failure_memory_narrows:
  assumes "can_publish_claims (sf_capability facts)" "can_mutate_world (sf_capability facts)"
    and "T (failure_key_of F a) \<noteq> None"
  defines "k \<equiv> if sf_public_contract facts then ModifyPublicAPI else ModifyReferencedContract"
  shows "\<exists>floor s. classify D a facts [] = Some floor \<and> classify_with_failure_memory F D a facts T = Some s \<and>
     contains_kind floor k \<and> \<not> contains_kind s k"
proof -
  obtain e where e: "T (failure_key_of F a) = Some e" using assms(3) by blast
  let ?ms = "classification_members D a facts []"
  let ?floor = "foldl keep_member [] ?ms"
  obtain m rest where ms: "?ms = m # rest" and m: "ai_kind (ic_intent m) = MakeCanonicalClaim"
    using assms(1) by (simp add: classification_members_def Let_def)
  have c: "classify D a facts [] = Some ?floor" by (rule classify_some)
  have "\<exists>n \<in> set ?ms. ai_kind (ic_intent n) = k"
    using assms(2) by (simp add: classification_members_def k_def Let_def)
  then have "contains_kind ?floor k"
    using classify_member [OF c] contains_kindI by metis
  moreover obtain zs where "?floor = m # zs"
    using keep_prefix [of "[m]" rest] unfolding ms by (auto simp: keep_member_def)
  then have "ai_kind (ic_intent (?floor ! 0)) = MakeCanonicalClaim" using m by simp
  moreover have "k \<noteq> MakeCanonicalClaim" "k \<noteq> RetryFailure" by (simp_all add: k_def)
  ultimately show ?thesis
    using e unfolding classify_with_failure_memory_def c retry_intent_for_def make_intent_set_def keep_two
    by (auto simp: contains_kind_def)
qed

theorem failure_memory_narrows_witness:
  "\<exists>floor s. classify ref_draft ex_action ex_facts [] = Some floor \<and>
     classify_with_failure_memory ref_foundation ref_draft ex_action ex_facts
       (record_failure Map.empty (failure_key_of ref_foundation ex_action) (default_fingerprint ref_draft)) = Some s \<and>
     contains_kind floor ModifyReferencedContract \<and> \<not> contains_kind s ModifyReferencedContract"
  using failure_memory_narrows [of ex_facts
    "record_failure Map.empty (failure_key_of ref_foundation ex_action) (default_fingerprint ref_draft)"
    ref_foundation ex_action ref_draft]
  by (simp add: ex_facts_def ex_capability_def record_failure_def)

theorem failure_memory_retry_witness:
  "\<exists>s. classify_with_failure_memory ref_foundation ref_draft ex_action ex_facts
       (record_failure Map.empty (failure_key_of ref_foundation ex_action) (default_fingerprint ref_draft)) = Some s \<and>
     length s \<le> 2"
  using failure_memory_retry [OF refl, where F = ref_foundation and a = ex_action and D = ref_draft and facts = ex_facts and
    T = Map.empty and fp = "default_fingerprint ref_draft"]
  by blast

end
