(* ===== verification/State_Store.thy ===== *)
theory State_Store
  imports Outcome
begin

text \<open>
  The test-only control-state image (\<^verbatim>\<open>state_store.hpp\<close>, \<^verbatim>\<open>state_store.cpp\<close>): serialization of
  the consumed token hashes and the active barrier scopes, the fail-closed parser, the in-memory
  store and the reconstruction after a restart.  Offsets are natural numbers: the image is
  bounded far below the width of the machine's size type.
\<close>

definition image_capacity_limit :: nat where
  "image_capacity_limit = 16 * 1024 * 1024"

definition test_state_magic :: u32 where
  "test_state_magic = 0x51535432"

definition get_u32 :: "foundation \<Rightarrow> bytes \<Rightarrow> nat \<Rightarrow> (u32 \<times> nat) option" where
  "get_u32 F bs offset =
     (if length bs < offset + 4 then None
      else case dec_u32 F (take 4 (drop offset bs)) of None \<Rightarrow> None | Some v \<Rightarrow> Some (v, offset + 4))"

definition get_u64 :: "foundation \<Rightarrow> bytes \<Rightarrow> nat \<Rightarrow> (u64 \<times> nat) option" where
  "get_u64 F bs offset =
     (if length bs < offset + 8 then None
      else case dec_u64 F (take 8 (drop offset bs)) of None \<Rightarrow> None | Some v \<Rightarrow> Some (v, offset + 8))"

definition serialize_test_state_image :: "foundation \<Rightarrow> token_hash set \<Rightarrow> barrier \<Rightarrow> bytes option" where
  "serialize_test_state_image F consumed barriers =
     (let hashes = sorted_list_of_set consumed;
          scopes = active_scope_ids barriers;
          out = enc_u32 F test_state_magic @ enc_u32 F (of_nat (length hashes)) @ concat hashes @
                enc_u32 F (of_nat (length scopes)) @ concat (map (enc_u64 F) scopes)
      in if length out \<le> image_capacity_limit then Some out else None)"

record state_image =
  si_consumed_token_hashes :: "token_hash list"
  si_barrier_scopes :: "u64 list"

fun get_hashes :: "nat \<Rightarrow> bytes \<Rightarrow> nat \<Rightarrow> (token_hash list \<times> nat) option" where
  "get_hashes 0 bs offset = Some ([], offset)"
| "get_hashes (Suc n) bs offset =
     (if length bs < offset + 32 then None
      else case get_hashes n bs (offset + 32) of
             None \<Rightarrow> None
           | Some (hs, offset') \<Rightarrow> Some (map (\<lambda>j. bs ! (offset + j)) [0..<32] # hs, offset'))"

fun get_scopes :: "foundation \<Rightarrow> nat \<Rightarrow> bytes \<Rightarrow> nat \<Rightarrow> (u64 list \<times> nat) option" where
  "get_scopes F 0 bs offset = Some ([], offset)"
| "get_scopes F (Suc n) bs offset =
     (case get_u64 F bs offset of
        None \<Rightarrow> None
      | Some (v, offset1) \<Rightarrow>
          (case get_scopes F n bs offset1 of None \<Rightarrow> None | Some (vs, offset') \<Rightarrow> Some (v # vs, offset')))"

definition deserialize_test_state_image :: "foundation \<Rightarrow> bytes \<Rightarrow> state_image option" where
  "deserialize_test_state_image F bs =
     (case get_u32 F bs 0 of
        None \<Rightarrow> None
      | Some (magic, o1) \<Rightarrow>
          if magic \<noteq> test_state_magic then None
          else case get_u32 F bs o1 of
            None \<Rightarrow> None
          | Some (hash_count, o2) \<Rightarrow>
              if length bs < unat hash_count * 32 + o2 then None
              else case get_hashes (unat hash_count) bs o2 of
                None \<Rightarrow> None
              | Some (hashes, o3) \<Rightarrow>
                  (case get_u32 F bs o3 of
                     None \<Rightarrow> None
                   | Some (scope_count, o4) \<Rightarrow>
                       if length bs < unat scope_count * 8 + o4 then None
                       else case get_scopes F (unat scope_count) bs o4 of
                         None \<Rightarrow> None
                       | Some (scopes, o5) \<Rightarrow>
                           if o5 \<noteq> length bs then None
                           else Some \<lparr>si_consumed_token_hashes = hashes, si_barrier_scopes = scopes\<rparr>))"

section \<open>The in-memory store and the restart\<close>

type_synonym test_store = "bytes option"

definition store_save :: "test_store \<Rightarrow> bytes \<Rightarrow> bool \<times> test_store" where
  "store_save st img = (True, Some img)"

definition store_load :: "test_store \<Rightarrow> bytes option" where
  "store_load st = st"

definition restore_barriers :: "barrier \<Rightarrow> state_image \<Rightarrow> barrier" where
  "restore_barriers b im = foldl (\<lambda>b scope. barrier_raise b scope 0) b (si_barrier_scopes im)"

definition seed_consumed_tokens :: "decision_ledger \<Rightarrow> state_image \<Rightarrow> decision_ledger" where
  "seed_consumed_tokens L im = foldl seed_consumed L (si_consumed_token_hashes im)"

section \<open>The parser accepts exactly the images\<close>

definition encode_image :: "foundation \<Rightarrow> state_image \<Rightarrow> bytes" where
  "encode_image F im =
     enc_u32 F test_state_magic @ enc_u32 F (of_nat (length (si_consumed_token_hashes im))) @
     concat (si_consumed_token_hashes im) @ enc_u32 F (of_nat (length (si_barrier_scopes im))) @
     concat (map (enc_u64 F) (si_barrier_scopes im))"

definition image_sized :: "state_image \<Rightarrow> bool" where
  "image_sized im \<longleftrightarrow>
     (\<forall>h \<in> set (si_consumed_token_hashes im). length h = 32) \<and>
     length (si_consumed_token_hashes im) < 2 ^ 32 \<and> length (si_barrier_scopes im) < 2 ^ 32"

lemma nth_window: "off + n \<le> length bs \<Longrightarrow> map (\<lambda>j. bs ! (off + j)) [0..<n] = take n (drop off bs)"
  by (rule nth_equalityI) auto

lemma drop_split: "drop off bs = take n (drop off bs) @ drop (off + n) bs"
  by (metis add.commute append_take_drop_id drop_drop)

lemma drop_prefix:
  assumes "drop off bs = xs @ rest" "off \<le> length bs"
  shows "off + length xs \<le> length bs \<and> take (length xs) (drop off bs) = xs \<and> drop (off + length xs) bs = rest"
proof (intro conjI)
  show "off + length xs \<le> length bs" using arg_cong [OF assms(1), of length] assms(2) by simp
  show "take (length xs) (drop off bs) = xs" using assms(1) by simp
  show "drop (off + length xs) bs = rest"
    using assms(1) by (metis add.commute append_eq_conv_conj drop_drop)
qed

lemma get_hashes_sound:
  "get_hashes n bs off = Some (hs, p) \<Longrightarrow> off \<le> length bs \<Longrightarrow>
     p = off + 32 * n \<and> p \<le> length bs \<and> length hs = n \<and> (\<forall>h \<in> set hs. length h = 32) \<and>
     drop off bs = concat hs @ drop p bs"
proof (induction n arbitrary: off hs)
  case (Suc n)
  from Suc.prems obtain hs1 where l: "off + 32 \<le> length bs"
    and g: "get_hashes n bs (off + 32) = Some (hs1, p)"
    and hs: "hs = take 32 (drop off bs) # hs1"
    by (auto simp: nth_window simp del: upt_rec_numeral split: if_splits option.splits)
  note IH = Suc.IH [OF g l]
  have "drop off bs = take 32 (drop off bs) @ drop (off + 32) bs" by (rule drop_split)
  also have "\<dots> = concat hs @ drop p bs" using IH hs by simp
  finally have "drop off bs = concat hs @ drop p bs" .
  moreover have "length (take 32 (drop off bs)) = 32" using l by simp
  ultimately show ?case using IH hs by (simp del: length_take)
qed simp

lemma get_hashes_complete:
  "drop off bs = concat hs @ rest \<Longrightarrow> off \<le> length bs \<Longrightarrow> \<forall>h \<in> set hs. length h = 32 \<Longrightarrow>
     get_hashes (length hs) bs off = Some (hs, off + 32 * length hs) \<and> off + 32 * length hs \<le> length bs \<and>
     drop (off + 32 * length hs) bs = rest"
proof (induction hs arbitrary: off)
  case (Cons h hs)
  then have h: "length h = 32" by simp
  have d: "off + 32 \<le> length bs" "take 32 (drop off bs) = h" "drop (off + 32) bs = concat hs @ rest"
    using drop_prefix [of off bs h "concat hs @ rest"] Cons.prems h by auto
  have "map (\<lambda>j. bs ! (off + j)) [0..<32] = h" using nth_window [OF d(1)] d(2) by simp
  with Cons.IH [OF d(3,1)] Cons.prems(3) d(1) show ?case
    by (simp add: algebra_simps del: upt_rec_numeral)
qed simp

context codec_laws
begin

lemma get_u32_iff:
  assumes "off \<le> length bs"
  shows "get_u32 F bs off = Some (v, p) \<longleftrightarrow> p = off + 4 \<and> p \<le> length bs \<and> drop off bs = enc_u32 F v @ drop p bs"
proof
  assume g: "get_u32 F bs off = Some (v, p)"
  then have l: "off + 4 \<le> length bs" "p = off + 4" and d: "dec_u32 F (take 4 (drop off bs)) = Some v"
    by (auto simp: get_u32_def split: if_splits option.splits)
  from l have n: "length (take 4 (drop off bs)) = 4" by simp
  with d have "enc_u32 F v = take 4 (drop off bs)"
    using le_bytes_le_value [of "take 4 (drop off bs)", where ?'a = 32] by (simp add: dec_u32_le enc_u32_le)
  with l drop_split [of off bs 4]
  show "p = off + 4 \<and> p \<le> length bs \<and> drop off bs = enc_u32 F v @ drop p bs" by simp
next
  assume p: "p = off + 4 \<and> p \<le> length bs \<and> drop off bs = enc_u32 F v @ drop p bs"
  then have "take 4 (drop off bs) = enc_u32 F v"
    by (metis append_eq_conv_conj length_enc(1))
  with p show "get_u32 F bs off = Some (v, p)" by (simp add: get_u32_def)
qed

lemma get_u64_iff:
  assumes "off \<le> length bs"
  shows "get_u64 F bs off = Some (v, p) \<longleftrightarrow> p = off + 8 \<and> p \<le> length bs \<and> drop off bs = enc_u64 F v @ drop p bs"
proof
  assume g: "get_u64 F bs off = Some (v, p)"
  then have l: "off + 8 \<le> length bs" "p = off + 8" and d: "dec_u64 F (take 8 (drop off bs)) = Some v"
    by (auto simp: get_u64_def split: if_splits option.splits)
  from l have n: "length (take 8 (drop off bs)) = 8" by simp
  with d have "enc_u64 F v = take 8 (drop off bs)"
    using le_bytes_le_value [of "take 8 (drop off bs)", where ?'a = 64] by (simp add: dec_u64_le enc_u64_le)
  with l drop_split [of off bs 8]
  show "p = off + 8 \<and> p \<le> length bs \<and> drop off bs = enc_u64 F v @ drop p bs" by simp
next
  assume p: "p = off + 8 \<and> p \<le> length bs \<and> drop off bs = enc_u64 F v @ drop p bs"
  then have "take 8 (drop off bs) = enc_u64 F v"
    by (metis append_eq_conv_conj length_enc(2))
  with p show "get_u64 F bs off = Some (v, p)" by (simp add: get_u64_def)
qed

lemma get_scopes_sound:
  "get_scopes F n bs off = Some (vs, p) \<Longrightarrow> off \<le> length bs \<Longrightarrow>
     p = off + 8 * n \<and> p \<le> length bs \<and> length vs = n \<and> drop off bs = concat (map (enc_u64 F) vs) @ drop p bs"
proof (induction n arbitrary: off vs)
  case (Suc n)
  from Suc.prems obtain v q vs1 where u: "get_u64 F bs off = Some (v, q)"
    and g: "get_scopes F n bs q = Some (vs1, p)" and vs: "vs = v # vs1"
    by (auto split: option.splits)
  from u Suc.prems(2) have q: "q = off + 8" "q \<le> length bs" "drop off bs = enc_u64 F v @ drop q bs"
    by (simp_all add: get_u64_iff)
  from Suc.IH [OF g q(2)] q vs show ?case by simp
qed simp

lemma get_scopes_complete:
  "drop off bs = concat (map (enc_u64 F) vs) @ rest \<Longrightarrow> off \<le> length bs \<Longrightarrow>
     get_scopes F (length vs) bs off = Some (vs, off + 8 * length vs) \<and> off + 8 * length vs \<le> length bs \<and>
     drop (off + 8 * length vs) bs = rest"
proof (induction vs arbitrary: off)
  case (Cons v vs)
  have d: "off + 8 \<le> length bs" "drop (off + 8) bs = concat (map (enc_u64 F) vs) @ rest"
    using drop_prefix [of off bs "enc_u64 F v" "concat (map (enc_u64 F) vs) @ rest"] Cons.prems by auto
  have "get_u64 F bs off = Some (v, off + 8)"
    using Cons.prems d by (simp add: get_u64_iff)
  with Cons.IH [OF d(2,1)] show ?case by (simp add: algebra_simps)
qed simp

lemma deserialize_sound:
  assumes "deserialize_test_state_image F bs = Some im"
  shows "bs = encode_image F im \<and> image_sized im"
proof -
  from assms obtain o1 c1 o2 hs o3 c2 o4 vs where
    p1: "get_u32 F bs 0 = Some (test_state_magic, o1)" and p2: "get_u32 F bs o1 = Some (c1, o2)"
    and p3: "get_hashes (unat c1) bs o2 = Some (hs, o3)" and p4: "get_u32 F bs o3 = Some (c2, o4)"
    and p5: "get_scopes F (unat c2) bs o4 = Some (vs, length bs)"
    and im: "im = \<lparr>si_consumed_token_hashes = hs, si_barrier_scopes = vs\<rparr>"
    by (auto simp: deserialize_test_state_image_def split: option.splits if_splits)
  have q1: "o1 \<le> length bs" "bs = enc_u32 F test_state_magic @ drop o1 bs"
    using iffD1 [OF get_u32_iff [OF le0] p1] unfolding drop_0 by blast+
  have q2: "o2 \<le> length bs" "drop o1 bs = enc_u32 F c1 @ drop o2 bs"
    using iffD1 [OF get_u32_iff [OF q1(1)] p2] by blast+
  note q3 = get_hashes_sound [OF p3 q2(1)]
  have l3: "o3 \<le> length bs" using q3 by blast
  have q4: "o4 \<le> length bs" "drop o3 bs = enc_u32 F c2 @ drop o4 bs"
    using iffD1 [OF get_u32_iff [OF l3] p4] by blast+
  note q5 = get_scopes_sound [OF p5 q4(1)]
  have d3: "drop o2 bs = concat hs @ drop o3 bs" using q3 by blast
  have d5: "drop o4 bs = concat (map (enc_u64 F) vs) @ drop (length bs) bs" using q5 by blast
  have n: "length hs = unat c1" "\<forall>h \<in> set hs. length h = 32" "length vs = unat c2" using q3 q5 by blast+
  have "bs = enc_u32 F test_state_magic @ enc_u32 F c1 @ concat hs @ enc_u32 F c2 @ concat (map (enc_u64 F) vs)"
    by (rule trans [OF q1(2)]) (simp only: q2(2) d3 q4(2) d5 drop_all order.refl append_Nil2)
  moreover have "c1 = of_nat (length hs)" "c2 = of_nat (length vs)" by (simp_all add: n)
  moreover have "length hs < 2 ^ 32" "length vs < 2 ^ 32"
    using unsigned_less [of c1, where ?'a = nat] unsigned_less [of c2, where ?'a = nat] by (simp_all add: n)
  ultimately show ?thesis using n(2) by (simp add: im encode_image_def image_sized_def)
qed

lemma deserialize_complete:
  assumes "image_sized im"
  shows "deserialize_test_state_image F (encode_image F im) = Some im"
proof -
  obtain hs vs where im: "im = \<lparr>si_consumed_token_hashes = hs, si_barrier_scopes = vs\<rparr>" by (cases im)
  let ?bs = "encode_image F im"
  let ?t4 = "concat (map (enc_u64 F) vs)"
  let ?t3 = "enc_u32 F (of_nat (length vs)) @ ?t4"
  let ?t2 = "concat hs @ ?t3"
  have bs: "?bs = enc_u32 F test_state_magic @ enc_u32 F (of_nat (length hs)) @ ?t2"
    by (simp add: im encode_image_def)
  have sz: "\<forall>h \<in> set hs. length h = 32" "unat (of_nat (length hs) :: u32) = length hs"
    "unat (of_nat (length vs) :: u32) = length vs"
    using assms by (simp_all add: im image_sized_def unat_of_nat take_bit_nat_eq_self)
  have d1: "4 \<le> length ?bs" "drop 4 ?bs = enc_u32 F (of_nat (length hs)) @ ?t2"
    using drop_prefix [of 0 ?bs "enc_u32 F test_state_magic"] bs by simp_all
  have g1: "get_u32 F ?bs 0 = Some (test_state_magic, 4)" using bs d1 by (simp add: get_u32_iff)
  have d2: "8 \<le> length ?bs" "drop 8 ?bs = ?t2"
    using drop_prefix [OF d1(2,1)] by simp_all
  have g2: "get_u32 F ?bs 4 = Some (of_nat (length hs), 8)" using d1 d2 by (simp add: get_u32_iff)
  let ?o3 = "8 + 32 * length hs"
  have g3: "get_hashes (length hs) ?bs 8 = Some (hs, ?o3)" "?o3 \<le> length ?bs" "drop ?o3 ?bs = ?t3"
    using get_hashes_complete [OF d2(2,1) sz(1)] by simp_all
  have d4: "?o3 + 4 \<le> length ?bs" "drop (?o3 + 4) ?bs = ?t4"
    using drop_prefix [OF g3(3,2)] by simp_all
  have g4: "get_u32 F ?bs ?o3 = Some (of_nat (length vs), ?o3 + 4)"
    using d4 g3 by (simp add: get_u32_iff)
  have g5: "get_scopes F (length vs) ?bs (?o3 + 4) = Some (vs, ?o3 + 4 + 8 * length vs)"
    "?o3 + 4 + 8 * length vs \<le> length ?bs" "drop (?o3 + 4 + 8 * length vs) ?bs = []"
    using get_scopes_complete [of "?o3 + 4" ?bs vs "[]"] d4 by simp_all
  have e: "?o3 + 4 + 8 * length vs = length ?bs" using g5(2,3) by simp
  show ?thesis
    unfolding deserialize_test_state_image_def
    using g1 g2 g3 g4 g5 e sz by (simp add: im algebra_simps)
qed

end

text \<open>
  C7: the parser accepts exactly the encodings: a byte string is parsed to an image if and only
  if it is the magic, the counted 32-byte hashes and the counted scopes of that image with
  nothing after them; truncated, padded or foreign input is refused.
\<close>

theorem state_image_exact:
  assumes "codec_laws F"
  shows "deserialize_test_state_image F bs = Some im \<longleftrightarrow> bs = encode_image F im \<and> image_sized im"
  using codec_laws.deserialize_sound [OF assms] codec_laws.deserialize_complete [OF assms] by metis

theorem state_image_exact_witness:
  "deserialize_test_state_image ref_foundation
     (encode_image ref_foundation \<lparr>si_consumed_token_hashes = [replicate 32 7], si_barrier_scopes = [8, 9]\<rparr>)
     = Some \<lparr>si_consumed_token_hashes = [replicate 32 7], si_barrier_scopes = [8, 9]\<rparr>"
  using state_image_exact [OF ref_codec_laws] by (simp add: image_sized_def)

section \<open>A restart forgets neither tokens nor barriers\<close>

definition image_of :: "token_hash set \<Rightarrow> barrier \<Rightarrow> state_image" where
  "image_of consumed b =
     \<lparr>si_consumed_token_hashes = sorted_list_of_set consumed, si_barrier_scopes = active_scope_ids b\<rparr>"

lemma serialize_encodes:
  "serialize_test_state_image F consumed b = Some img \<longleftrightarrow>
     img = encode_image F (image_of consumed b) \<and> length img \<le> image_capacity_limit"
  by (auto simp: serialize_test_state_image_def encode_image_def image_of_def Let_def)

lemma length_concat_fixed: "\<forall>x \<in> set xs. length x = n \<Longrightarrow> length (concat xs) = n * length xs"
  by (induction xs) simp_all

lemma serialized_sized:
  assumes "codec_laws F" "serialize_test_state_image F consumed b = Some img"
    and "finite consumed" "\<forall>h \<in> consumed. length h = 32"
  shows "image_sized (image_of consumed b)"
proof -
  let ?hs = "sorted_list_of_set consumed" and ?vs = "active_scope_ids b"
  have h: "length (concat ?hs) = 32 * length ?hs"
    using assms(3,4) by (intro length_concat_fixed) simp
  have v: "length (concat (map (enc_u64 F) ?vs)) = 8 * length ?vs"
    using length_concat_fixed [of "map (enc_u64 F) ?vs" 8] codec_laws.length_enc(2) [OF assms(1)] by simp
  have "length (concat ?hs) + length (concat (map (enc_u64 F) ?vs)) \<le> image_capacity_limit"
    using assms(2) by (auto simp: serialize_encodes encode_image_def image_of_def simp del: length_concat)
  then have "length ?hs < 2 ^ 32 \<and> length ?vs < 2 ^ 32"
    unfolding h v by (simp add: image_capacity_limit_def)
  then show ?thesis using assms(3,4) by (simp add: image_sized_def image_of_def)
qed

lemma restore_active:
  "barrier_active (foldl (\<lambda>b scope. barrier_raise b scope 0) b scopes) s \<longleftrightarrow> barrier_active b s \<or> s \<in> set scopes"
  by (induction scopes arbitrary: b) (auto simp: active_raise)

lemma seeded: "dl_consumed (foldl seed_consumed L hs) = dl_consumed L \<union> set hs"
  by (induction hs arbitrary: L) (auto simp: seed_consumed_def)

lemma set_active_scope_ids: "s \<in> set (active_scope_ids b) \<longleftrightarrow> barrier_active b s"
  by (simp add: active_scope_ids_def barrier_active_def map_of_eq_None_iff)

text \<open>
  C8: saving the consumed hashes and the barriers, loading the image after a restart and
  restoring from it gives a ledger that has spent exactly the same tokens and a barrier that
  answers every check as before, so a decision spent before the restart is refused after it.
\<close>

theorem restart_preserves:
  assumes "codec_laws F" "serialize_test_state_image F (dl_consumed L) b = Some img"
    and "finite (dl_consumed L)" "\<forall>h \<in> dl_consumed L. length h = 32"
  shows "\<exists>bytes im. store_load (snd (store_save st img)) = Some bytes \<and>
     deserialize_test_state_image F bytes = Some im \<and>
     dl_consumed (seed_consumed_tokens (ledger_init key) im) = dl_consumed L \<and>
     (\<forall>scope relation. barrier_check (restore_barriers [] im) scope relation = barrier_check b scope relation) \<and>
     (was_consumed L (ed_token_hash d) \<longrightarrow>
        consume F (seed_consumed_tokens (ledger_init key) im) d facts now =
          Some (AlreadyConsumed, seed_consumed_tokens (ledger_init key) im))"
proof -
  let ?im = "image_of (dl_consumed L) b"
  have sz: "image_sized ?im" by (rule serialized_sized [OF assms])
  have img: "img = encode_image F ?im" using assms(2) by (simp add: serialize_encodes)
  have p: "deserialize_test_state_image F img = Some ?im"
    unfolding img by (rule codec_laws.deserialize_complete [OF assms(1) sz])
  have c: "dl_consumed (seed_consumed_tokens (ledger_init key) ?im) = dl_consumed L"
    using assms(3) by (simp add: seed_consumed_tokens_def seeded image_of_def ledger_init_def)
  have "barrier_active (restore_barriers [] ?im) s \<longleftrightarrow> barrier_active b s" for s
    by (simp add: restore_barriers_def restore_active image_of_def set_active_scope_ids)
       (simp add: barrier_active_def)
  then have "barrier_check (restore_barriers [] ?im) scope relation = barrier_check b scope relation" for scope relation
    unfolding barrier_check_def barrier_active_def by simp
  then show ?thesis
    using p c by (auto simp: store_load_def store_save_def consume_def was_consumed_def)
qed

theorem restart_preserves_witness:
  "\<exists>im. deserialize_test_state_image ref_foundation (encode_image ref_foundation (image_of {replicate 32 7} [(9, 1)])) = Some im \<and>
     dl_consumed (seed_consumed_tokens (ledger_init []) im) = {replicate 32 7}"
proof -
  let ?L = "\<lparr>dl_secret = [], dl_consumed = {replicate 32 7}\<rparr>"
  let ?img = "encode_image ref_foundation (image_of {replicate 32 7} [(9, 1)])"
  have "serialize_test_state_image ref_foundation (dl_consumed ?L) [(9, 1)] = Some ?img"
    by (simp add: serialize_encodes encode_image_def image_of_def active_scope_ids_def image_capacity_limit_def)
  from restart_preserves [OF ref_codec_laws this] show ?thesis
    by (fastforce simp: store_load_def store_save_def)
qed

end
