(* ===== verification/Admission.thy ===== *)
theory Admission
  imports Outcome
begin

text \<open>
  The execution-authority plane (\<^verbatim>\<open>port/execution_authority.hpp\<close>, \<^verbatim>\<open>.cpp\<close>) and the admission
  coordinator (\<^verbatim>\<open>admission.hpp\<close>, \<^verbatim>\<open>admission.cpp\<close>) that composes it with a consumed cognitive
  ALLOW and the reconciliation barrier.  The port interface is the record of its operations, so
  that composition is stated for any authority.
\<close>

datatype admission_purpose = RealMutation | SimulatedProof

record admission_request =
  aq_purpose :: admission_purpose
  aq_transaction :: transaction_id
  aq_token :: decision_token
  aq_correlation :: correlation_key

record admission_grant =
  ag_lease_epoch :: u64
  ag_fencing_token :: u64
  ag_transaction :: transaction_id

record 's authority_port =
  ap_request :: "'s \<Rightarrow> admission_request \<Rightarrow> admission_grant res \<times> 's"
  ap_release :: "'s \<Rightarrow> admission_grant \<Rightarrow> 's"
  ap_still_valid :: "'s \<Rightarrow> admission_grant \<Rightarrow> bool"

section \<open>The fail-closed authority\<close>

record null_authority =
  na_next_epoch :: u64
  na_current_lease :: u64
  na_holder :: transaction_id

definition null_init :: null_authority where
  "null_init = \<lparr>na_next_epoch = 1, na_current_lease = 0, na_holder = 0\<rparr>"

definition request_admission :: "null_authority \<Rightarrow> admission_request \<Rightarrow> admission_grant res \<times> null_authority" where
  "request_admission A r =
     (if aq_purpose r = RealMutation then (Inl (mk_error Cat_permission_denied 40), A)
      else if na_current_lease A \<noteq> 0 then (Inl (mk_error Cat_permission_denied 41), A)
      else let epoch = na_next_epoch A in
        (Inr \<lparr>ag_lease_epoch = epoch, ag_fencing_token = epoch, ag_transaction = aq_transaction r\<rparr>,
         \<lparr>na_next_epoch = na_next_epoch A + 1, na_current_lease = epoch, na_holder = aq_transaction r\<rparr>))"

definition release :: "null_authority \<Rightarrow> admission_grant \<Rightarrow> null_authority" where
  "release A g =
     (if na_current_lease A = ag_lease_epoch g then A\<lparr>na_current_lease := 0, na_holder := 0\<rparr> else A)"

definition grant_still_valid :: "null_authority \<Rightarrow> admission_grant \<Rightarrow> bool" where
  "grant_still_valid A g \<longleftrightarrow> ag_lease_epoch g \<noteq> 0 \<and> na_current_lease A = ag_lease_epoch g"

definition null_port :: "null_authority authority_port" where
  "null_port = \<lparr>ap_request = request_admission, ap_release = release, ap_still_valid = grant_still_valid\<rparr>"

section \<open>Composition of the two gates\<close>

record dispatch_permit =
  dpm_grant :: admission_grant
  dpm_transaction :: transaction_id
  dpm_action_digest :: content_digest
  dpm_effect_scope :: effect_scope

datatype admission_outcome =
    Dispatched | DeniedNoCognitiveAllow | DeniedByExecutionAuthority | DeniedAuthorityError
  | DeniedStaleGrant | DeniedReconciliationBarrier

record admission_result =
  ad_outcome :: admission_outcome
  ad_permit :: dispatch_permit

definition no_permit :: dispatch_permit where
  "no_permit =
     \<lparr>dpm_grant = \<lparr>ag_lease_epoch = 0, ag_fencing_token = 0, ag_transaction = 0\<rparr>, dpm_transaction = 0,
      dpm_action_digest = replicate 32 0, dpm_effect_scope = 0\<rparr>"

definition denied :: "admission_outcome \<Rightarrow> admission_result" where
  "denied out = \<lparr>ad_outcome = out, ad_permit = no_permit\<rparr>"

definition compose ::
    "foundation \<Rightarrow> 's authority_port \<Rightarrow> barrier \<Rightarrow> 's \<Rightarrow> execution_decision \<Rightarrow> consume_outcome \<Rightarrow> observed_action
     \<Rightarrow> correlation_key \<Rightarrow> admission_purpose \<Rightarrow> (admission_result \<times> 's) option" where
  "compose F P barriers A d consumption action correlation purpose =
     (if consumption \<noteq> Consumed \<or> ed_disposition d \<noteq> Allow then Some (denied DeniedNoCognitiveAllow, A)
      else case action_digest_of F action of
        None \<Rightarrow> None
      | Some digest \<Rightarrow>
          if digest \<noteq> ed_action_digest d then Some (denied DeniedNoCognitiveAllow, A)
          else
            let scope = effect_scope_of F action in
            if barrier_check barriers scope Equivalent = Barrier_Blocked
            then Some (denied DeniedReconciliationBarrier, A)
            else case ap_request P A \<lparr>aq_purpose = purpose, aq_transaction = ed_transaction d,
                                      aq_token = ed_token d, aq_correlation = correlation\<rparr> of
              (Inl e, A') \<Rightarrow>
                Some (denied (if category e = Cat_permission_denied then DeniedByExecutionAuthority
                              else DeniedAuthorityError), A')
            | (Inr grant, A') \<Rightarrow>
                if \<not> ap_still_valid P A' grant then Some (denied DeniedStaleGrant, ap_release P A' grant)
                else Some (\<lparr>ad_outcome = Dispatched,
                            ad_permit = \<lparr>dpm_grant = grant, dpm_transaction = ed_transaction d,
                                         dpm_action_digest = ed_action_digest d, dpm_effect_scope = scope\<rparr>\<rparr>, A'))"

section \<open>The lease is fenced\<close>

definition acquire_lease :: "null_authority \<Rightarrow> admission_request \<Rightarrow> u64 option \<times> null_authority" where
  "acquire_lease A r =
     (case request_admission A r of (Inl e, A') \<Rightarrow> (None, A') | (Inr g, A') \<Rightarrow> (Some (ag_lease_epoch g), A'))"

definition epoch_grant :: "u64 \<Rightarrow> admission_grant" where
  "epoch_grant e = \<lparr>ag_lease_epoch = e, ag_fencing_token = e, ag_transaction = 0\<rparr>"

interpretation lease: fenced_lease acquire_lease "\<lambda>A e. release A (epoch_grant e)"
  "\<lambda>A e. grant_still_valid A (epoch_grant e)" na_next_epoch
  by unfold_locales
     (auto simp: acquire_lease_def request_admission_def release_def grant_still_valid_def epoch_grant_def
       Let_def split: if_splits)

text \<open>
  the null authority never grants a real mutation; over any sequence of requests and releases
  with fewer than $2^{64}$ grants, its lease epochs rise one by one from 1, and only the most
  recent grant can still be valid, so a superseded epoch never regains validity.
\<close>

theorem null_authority_fenced:
  assumes "lease_run acquire_lease (\<lambda>A e. release A (epoch_grant e)) null_init ops = (es, A)" "length es < 2 ^ 64"
  shows "map unat es = [1..<Suc (length es)] \<and>
     (grant_still_valid A g \<longrightarrow> es \<noteq> [] \<and> ag_lease_epoch g = last es) \<and>
     (aq_purpose r = RealMutation \<longrightarrow> request_admission A r = (Inl (mk_error Cat_permission_denied 40), A))"
proof -
  have "map unat es = [1..<Suc (length es)] \<and>
      (grant_still_valid A (epoch_grant (ag_lease_epoch g)) \<longrightarrow> es \<noteq> [] \<and> ag_lease_epoch g = last es)"
    by (rule lease.run_fenced [OF assms(1) _ _ assms(2)])
       (simp_all add: null_init_def grant_still_valid_def epoch_grant_def)
  then show ?thesis
    by (simp add: grant_still_valid_def epoch_grant_def request_admission_def)
qed

text \<open>
  C4: for any authority, an action is dispatched exactly when the decision was consumed as an
  ALLOW, the presented action has the digest the decision bound, no barrier covers its effect
  scope, and the authority granted a lease that is still valid; the permit then carries that
  grant, the decision's transaction and digest, and the scope.  When the cognitive gate or the
  barrier refuses, the authority is not asked.
\<close>

theorem admission_conjunctive:
  assumes "compose F P barriers A d consumption action correlation purpose = Some (res, A')"
  defines "request \<equiv> \<lparr>aq_purpose = purpose, aq_transaction = ed_transaction d, aq_token = ed_token d,
     aq_correlation = correlation\<rparr>"
  shows "(ad_outcome res = Dispatched \<longleftrightarrow>
       consumption = Consumed \<and> ed_disposition d = Allow \<and>
       action_digest_of F action = Some (ed_action_digest d) \<and>
       \<not> barrier_active barriers (effect_scope_of F action) \<and>
       (\<exists>g. ap_request P A request = (Inr g, A') \<and> ap_still_valid P A' g \<and>
         ad_permit res = \<lparr>dpm_grant = g, dpm_transaction = ed_transaction d,
           dpm_action_digest = ed_action_digest d, dpm_effect_scope = effect_scope_of F action\<rparr>)) \<and>
     (ad_outcome res \<in> {DeniedNoCognitiveAllow, DeniedReconciliationBarrier} \<longrightarrow> A' = A)"
  using assms(1) unfolding compose_def request_def
  by (auto simp: denied_def barrier_check_def barrier_active_def Let_def
      split: if_splits option.splits prod.splits sum.splits)

text \<open>
  Under the null authority no decision, however obtained, dispatches a real mutation: the
  composition denies it and leaves the lease state as it was.
\<close>

theorem null_authority_denies_real_mutation:
  assumes "compose F null_port barriers A d consumption action correlation RealMutation = Some (res, A')"
  shows "ad_outcome res \<noteq> Dispatched \<and> ad_permit res = no_permit \<and> A' = A"
  using assms unfolding compose_def
  by (auto simp: denied_def null_port_def request_admission_def Let_def split: if_splits option.splits)

theorem null_authority_fenced_witness:
  "map unat (fst (lease_run acquire_lease (\<lambda>A e. release A (epoch_grant e)) null_init
     [Acquire \<lparr>aq_purpose = SimulatedProof, aq_transaction = 1, aq_token = ed_token ex_decision, aq_correlation = ex_key\<rparr>,
      Acquire \<lparr>aq_purpose = SimulatedProof, aq_transaction = 2, aq_token = ed_token ex_decision, aq_correlation = ex_key\<rparr>,
      Release 1,
      Acquire \<lparr>aq_purpose = SimulatedProof, aq_transaction = 3, aq_token = ed_token ex_decision, aq_correlation = ex_key\<rparr>]))
     = [1, 2]"
proof -
  let ?r = "\<lambda>t. \<lparr>aq_purpose = SimulatedProof, aq_transaction = t, aq_token = ed_token ex_decision, aq_correlation = ex_key\<rparr>"
  let ?ops = "[Acquire (?r 1), Acquire (?r 2), Release 1, Acquire (?r 3)]"
  obtain es A where r: "lease_run acquire_lease (\<lambda>A e. release A (epoch_grant e)) null_init ?ops = (es, A)" by fastforce
  then have l: "length es = 2"
    by (auto simp: acquire_lease_def request_admission_def null_init_def release_def epoch_grant_def Let_def)
  with null_authority_fenced [OF r] r show ?thesis by (simp add: upt_conv_Cons)
qed

lemma ex_bind_action:
  assumes "ex_bind now = Some (Inr d, c', dev')"
  shows "action_digest_of ref_foundation ex_action = Some (ed_action_digest d)" "ed_disposition d = Allow"
proof -
  have a: "ct_action ex_allowed = ex_action"
    by (simp add: ex_allowed_def ex_transaction_def begin_control_transaction_def)
  show "action_digest_of ref_foundation ex_action = Some (ed_action_digest d)"
    by (rule bind_allow_Inr [OF assms]) (simp add: unsigned_decision_def a)
  show "ed_disposition d = Allow"
    by (rule bind_allow_Inr [OF assms]) (simp add: unsigned_decision_def)
qed

theorem admission_conjunctive_witness:
  "\<exists>d c' dev' res A'. ex_bind 9 = Some (Inr d, c', dev') \<and>
     compose ref_foundation null_port [] null_init d Consumed ex_action ex_key SimulatedProof = Some (res, A') \<and>
     ad_outcome res = Dispatched"
proof -
  obtain d c' dev' where b: "ex_bind 9 = Some (Inr d, c', dev')" using ex_bind_ok by blast
  note a = ex_bind_action [OF b]
  obtain res A' where c: "compose ref_foundation null_port [] null_init d Consumed ex_action ex_key SimulatedProof = Some (res, A')"
    using a by (simp add: compose_def null_port_def request_admission_def null_init_def grant_still_valid_def
        barrier_check_def Let_def)
  have "ad_outcome res = Dispatched"
    using c a by (auto simp: compose_def null_port_def request_admission_def null_init_def grant_still_valid_def
        barrier_check_def Let_def)
  with admission_conjunctive [OF c] b c show ?thesis by blast
qed

theorem null_authority_denies_real_mutation_witness:
  "\<exists>d c' dev' res A'. ex_bind 9 = Some (Inr d, c', dev') \<and>
     compose ref_foundation null_port [] null_init d Consumed ex_action ex_key RealMutation = Some (res, A') \<and>
     ad_outcome res \<noteq> Dispatched"
proof -
  obtain d c' dev' where b: "ex_bind 9 = Some (Inr d, c', dev')" using ex_bind_ok by blast
  note a = ex_bind_action [OF b]
  obtain res A' where c: "compose ref_foundation null_port [] null_init d Consumed ex_action ex_key RealMutation = Some (res, A')"
    using a by (simp add: compose_def null_port_def request_admission_def barrier_check_def Let_def)
  from null_authority_denies_real_mutation [OF c] b c show ?thesis by blast
qed

end
