(* ===== verification/Activation.thy ===== *)
theory Activation
  imports Resolver Contracts
begin

text \<open>
  The activation boundary (\<^verbatim>\<open>port/activation.hpp\<close>, \<^verbatim>\<open>port/activation.cpp\<close>): activation
  receipts, their validity for a new judgment, and the ledger that records events, mints
  receipts and enforces their single use.
\<close>

datatype activation_kind =
    SessionStart | PromptSubmission | TaskTransition | WorkflowTransition | DeclaredIntent

record activation_event =
  ae_kind :: activation_kind
  ae_detail :: string

record activation_receipt =
  ar_kind :: activation_kind
  ar_subject :: string
  ar_canonical_revision :: revision_id
  ar_injected_digest :: content_digest
  ar_evidence_type :: evidence_type
  ar_generation :: generation_id
  ar_actor_token :: u64
  ar_session_token :: u64
  ar_injection_event :: u64
  ar_expires_at_ms :: u64

definition activation_complete :: "activation_receipt \<Rightarrow> bool" where
  "activation_complete r \<longleftrightarrow>
     ar_subject r \<noteq> [] \<and> ar_canonical_revision r \<noteq> [] \<and> ar_actor_token r \<noteq> 0 \<and>
     ar_session_token r \<noteq> 0 \<and> ar_injection_event r \<noteq> 0"

definition evidence_type_for :: "requirement_identity \<Rightarrow> evidence_type" where
  "evidence_type_for req = CanonicalRecord"

definition activation_valid_for ::
    "activation_receipt \<Rightarrow> requirement_identity \<Rightarrow> revision_id \<Rightarrow> content_digest \<Rightarrow> generation_id
     \<Rightarrow> content_digest \<Rightarrow> u64 \<Rightarrow> bool" where
  "activation_valid_for r req pinned_revision pinned_digest live_generation live_policy_digest now =
     (if \<not> activation_complete r then False
      else if ar_subject r \<noteq> ri_subject req then False
      else if ar_evidence_type r \<noteq> evidence_type_for req then False
      else if ar_canonical_revision r \<noteq> pinned_revision then False
      else if ar_injected_digest r \<noteq> pinned_digest then False
      else if ar_generation r \<noteq> live_generation then False
      else if ar_expires_at_ms r \<noteq> 0 \<and> now \<noteq> 0 \<and> ar_expires_at_ms r < now then False
      else True)"

definition activation_use_identity :: "foundation \<Rightarrow> activation_receipt \<Rightarrow> u64" where
  "activation_use_identity F r =
     (let h = fnv1a64_from F (ar_subject r) (fnv_basis F);
          h = (h XOR ar_generation r) * fnv_prime F
      in (h XOR ar_injection_event r) * fnv_prime F)"

section \<open>The ledger\<close>

record activation_ledger =
  al_next_event :: u64
  al_recorded :: "u64 set"
  al_spent :: "u64 set"

definition activation_ledger_init :: activation_ledger where
  "activation_ledger_init = \<lparr>al_next_event = 1, al_recorded = {}, al_spent = {}\<rparr>"

definition notify_activation :: "activation_ledger \<Rightarrow> activation_event \<Rightarrow> u64 \<times> activation_ledger" where
  "notify_activation L e =
     (al_next_event L,
      L\<lparr>al_next_event := al_next_event L + 1, al_recorded := insert (al_next_event L) (al_recorded L)\<rparr>)"

definition mint_receipt :: "activation_ledger \<Rightarrow> activation_receipt \<Rightarrow> activation_receipt option" where
  "mint_receipt L r =
     (if \<not> activation_complete r \<or> ar_injection_event r \<notin> al_recorded L then None else Some r)"

definition try_spend :: "foundation \<Rightarrow> activation_ledger \<Rightarrow> activation_receipt \<Rightarrow> bool \<times> activation_ledger" where
  "try_spend F L r =
     (let use = activation_use_identity F r in
      if use \<in> al_spent L then (False, L) else (True, L\<lparr>al_spent := insert use (al_spent L)\<rparr>))"

definition is_spent :: "foundation \<Rightarrow> activation_ledger \<Rightarrow> activation_receipt \<Rightarrow> bool" where
  "is_spent F L r \<longleftrightarrow> activation_use_identity F r \<in> al_spent L"

section \<open>What the ledger promises\<close>

lemma try_spend_cases:
  "try_spend F L r = (ok, L') \<Longrightarrow>
     (ok \<and> activation_use_identity F r \<notin> al_spent L \<and> al_spent L' = insert (activation_use_identity F r) (al_spent L)) \<or>
     (\<not> ok \<and> L' = L)"
  by (auto simp: try_spend_def Let_def split: if_splits)

interpretation spend: single_use "try_spend F" "activation_use_identity F" al_spent for F
proof
  fix s a s'
  assume "try_spend F s a = (True, s')"
  from try_spend_cases [OF this]
  show "activation_use_identity F a \<notin> al_spent s" "activation_use_identity F a \<in> al_spent s'" by auto
next
  fix s a ok s'
  assume "try_spend F s a = (ok, s')"
  from try_spend_cases [OF this] show "al_spent s \<subseteq> al_spent s'" by auto
qed

text \<open>
  over any sequence of attempts, at most one succeeds for each use identity, whatever
  other receipts are presented between them.
\<close>

theorem activation_single_use:
  "distinct (map (activation_use_identity F) (granted (try_spend F) L rs))"
  by (rule spend.granted_once)

text \<open>
  A receipt pre-satisfies a requirement exactly when it is complete, covers the
  requirement's subject with canonical-record evidence, cites the pinned revision and digest
  and the live generation, and is not past a claimed expiry.  The live policy digest plays no
  part in it.
\<close>

theorem activation_valid_iff:
  "activation_valid_for r req pinned dig gen policy now \<longleftrightarrow>
     activation_complete r \<and> ar_subject r = ri_subject req \<and> ar_evidence_type r = CanonicalRecord \<and>
     ar_canonical_revision r = pinned \<and> ar_injected_digest r = dig \<and> ar_generation r = gen \<and>
     (ar_expires_at_ms r = 0 \<or> now = 0 \<or> now \<le> ar_expires_at_ms r)"
  by (auto simp: activation_valid_for_def evidence_type_for_def not_less)

primrec notify_all :: "activation_ledger \<Rightarrow> activation_event list \<Rightarrow> u64 list \<times> activation_ledger" where
  "notify_all L [] = ([], L)"
| "notify_all L (e # es) =
     (case notify_activation L e of (i, L') \<Rightarrow> case notify_all L' es of (is, L'') \<Rightarrow> (i # is, L''))"

lemma notify_all_ids:
  "notify_all L es = (is, L') \<Longrightarrow>
     is = map (\<lambda>k. al_next_event L + of_nat k) [0..<length es] \<and> al_recorded L' = al_recorded L \<union> set is"
proof (induction es arbitrary: L "is" L')
  case (Cons e es)
  obtain i L1 where n: "notify_activation L e = (i, L1)" by (cases "notify_activation L e")
  obtain js L2 where r: "notify_all L1 es = (js, L2)" by (cases "notify_all L1 es")
  have i: "i = al_next_event L" "al_next_event L1 = al_next_event L + 1"
    "al_recorded L1 = insert i (al_recorded L)"
    using n by (auto simp: notify_activation_def)
  have shift: "map (\<lambda>k. al_next_event L + of_nat k) [0..<length (e # es)] =
      i # map (\<lambda>k. al_next_event L1 + of_nat k) [0..<length es]"
    by (rule nth_equalityI) (auto simp: i nth_Cons algebra_simps simp del: upt_Suc split: nat.split)
  have "is = i # js" "L' = L2" using Cons.prems n r by auto
  moreover have "js = map (\<lambda>k. al_next_event L1 + of_nat k) [0..<length es]"
    "al_recorded L2 = al_recorded L1 \<union> set js"
    using Cons.IH [OF r] by auto
  ultimately show ?case
    unfolding shift by (simp add: i(3))
qed simp

text \<open>
  fewer than $2^{64}$ activations of a fresh ledger get pairwise different, non-zero event
  identities, and a complete receipt is minted exactly when it cites one of them.
\<close>

theorem activation_events_distinct:
  assumes "notify_all activation_ledger_init es = (is, L)" "length es < 2 ^ 64"
  shows "distinct is \<and> 0 \<notin> set is \<and>
     (mint_receipt L r = Some r' \<longleftrightarrow> r' = r \<and> activation_complete r \<and> ar_injection_event r \<in> set is)"
proof -
  have ids: "is = map (\<lambda>k. of_nat (Suc k)) [0..<length es]" and rec: "al_recorded L = set is"
    using notify_all_ids [OF assms(1)] by (simp_all add: activation_ledger_init_def)
  have unat: "unat (of_nat (Suc k) :: u64) = Suc k" if "k < length es" for k
    using that assms(2) by (simp only: unat_of_nat) (simp add: take_bit_nat_eq_self)
  have "inj_on (\<lambda>k. of_nat (Suc k) :: u64) (set [0..<length es])"
    by (rule inj_onI) (metis Suc_inject atLeast_upt lessThan_iff unat)
  then have "distinct is" unfolding ids by (simp add: distinct_map del: of_nat_Suc)
  moreover have "0 \<notin> set is"
  proof
    assume "0 \<in> set is"
    then obtain k where "k < length es" "(of_nat (Suc k) :: u64) = 0" unfolding ids by auto
    then show False using unat [of k] by simp
  qed
  ultimately show ?thesis
    by (auto simp: mint_receipt_def rec)
qed

theorem activation_events_distinct_witness:
  "distinct (fst (notify_all activation_ledger_init (replicate 3 \<lparr>ae_kind = SessionStart, ae_detail = ''s''\<rparr>)))"
proof -
  let ?es = "replicate 3 \<lparr>ae_kind = SessionStart, ae_detail = ''s''\<rparr>"
  obtain "is" L where n: "notify_all activation_ledger_init ?es = (is, L)"
    by (cases "notify_all activation_ledger_init ?es")
  have "length ?es < 2 ^ 64" by simp
  from activation_events_distinct [OF n this] n show ?thesis by simp
qed

end
