(* ===== verification/Ingress.thy ===== *)
theory Ingress
  imports Activation
begin

text \<open>
  The bounded ingress queue and its message values (\<^verbatim>\<open>ingress.hpp\<close>, \<^verbatim>\<open>ingress.cpp\<close>).  Every
  public operation of the queue is one critical section of its mutex, so an operation is an
  atomic step of the model and a run is a sequence of them.
\<close>

section \<open>Messages and the queue\<close>

datatype message_kind = Proposal | EvidenceDelivery | ResolutionFailure

record ingress_message =
  im_kind :: message_kind
  im_correlation :: correlation_key
  im_action :: observed_action
  im_causal_parent :: "transaction_id option"
  im_activation_receipts :: "activation_receipt list"
  im_transaction :: transaction_id
  im_requirement :: requirement_identity
  im_receipt :: evidence_receipt
  im_sequence :: u64

record 'm ingress_queue =
  iq_capacity :: nat
  iq_messages :: "'m list"
  iq_closed :: bool

text \<open>The constructor throws on a zero capacity: then there is no queue.\<close>

definition ingress_init :: "nat \<Rightarrow> 'm ingress_queue option" where
  "ingress_init capacity =
     (if capacity = 0 then None else Some \<lparr>iq_capacity = capacity, iq_messages = [], iq_closed = False\<rparr>)"

definition try_push :: "'m ingress_queue \<Rightarrow> 'm \<Rightarrow> bool \<times> 'm ingress_queue" where
  "try_push q m =
     (if iq_closed q then (False, q)
      else if iq_capacity q \<le> length (iq_messages q) then (False, q)
      else (True, q\<lparr>iq_messages := iq_messages q @ [m]\<rparr>))"

text \<open>\<open>pop_wait\<close> at the moment its wait ends, by arrival, by closing or by timeout.\<close>

definition pop_wait :: "'m ingress_queue \<Rightarrow> 'm option \<times> 'm ingress_queue" where
  "pop_wait q =
     (case iq_messages q of [] \<Rightarrow> (None, q) | m # ms \<Rightarrow> (Some m, q\<lparr>iq_messages := ms\<rparr>))"

definition close :: "'m ingress_queue \<Rightarrow> 'm ingress_queue" where
  "close q = q\<lparr>iq_closed := True\<rparr>"

definition queue_size :: "'m ingress_queue \<Rightarrow> nat" where
  "queue_size q = length (iq_messages q)"

interpretation ingress: bounded_fifo try_push pop_wait iq_messages iq_capacity
  by unfold_locales (auto simp: try_push_def pop_wait_def split: if_splits list.splits)

text \<open>
  over any interleaving of pushes and pops, the delivered messages followed by the queued
  ones are the initially queued messages followed by the accepted ones: nothing accepted is
  lost, duplicated or reordered, and nothing refused is delivered.
\<close>

theorem ingress_fifo:
  assumes "queue_run try_push pop_wait q es = (acc, del, q')"
  shows "iq_messages q @ acc = del @ iq_messages q'"
  using assms by (rule ingress.queue_run_fifo)

theorem ingress_fifo_witness:
  "case queue_run try_push pop_wait \<lparr>iq_capacity = 1, iq_messages = [], iq_closed = False\<rparr>
        [Some (1::nat), Some 2, None, Some 3, None] of
     (acc, del, q') \<Rightarrow> acc = [1, 3] \<and> del = [1, 3]"
proof -
  let ?q = "\<lparr>iq_capacity = 1, iq_messages = [], iq_closed = False\<rparr>"
  obtain acc del q' where r: "queue_run try_push pop_wait ?q [Some (1::nat), Some 2, None, Some 3, None] = (acc, del, q')"
    by (cases "queue_run try_push pop_wait ?q [Some (1::nat), Some 2, None, Some 3, None]")
  have "acc = [1, 3]" "iq_messages q' = []"
    using r by (auto simp: try_push_def pop_wait_def)
  with ingress_fifo [OF r] r show ?thesis by simp
qed

text \<open>
  A queue created with a capacity never holds more messages than it, and an offer is
  accepted exactly when the queue is open and below capacity.
\<close>

theorem ingress_bounded:
  assumes "ingress_init c = Some q" "queue_run try_push pop_wait q es = (acc, del, q')"
  shows "queue_size q' \<le> c \<and> (fst (try_push q' m) \<longleftrightarrow> \<not> iq_closed q' \<and> queue_size q' < c)"
proof -
  have q: "iq_messages q = []" "iq_capacity q = c"
    using assms(1) by (auto simp: ingress_init_def split: if_splits)
  have "length (iq_messages q') \<le> iq_capacity q' \<and> iq_capacity q' = iq_capacity q"
    using assms(2) by (rule ingress.queue_run_bounded) (simp add: q)
  then show ?thesis by (simp add: q queue_size_def try_push_def)
qed

theorem ingress_bounded_witness:
  "queue_size (snd (snd (queue_run try_push pop_wait \<lparr>iq_capacity = 1, iq_messages = [], iq_closed = False\<rparr>
        [Some (1::nat), Some 2]))) \<le> 1"
proof -
  let ?q = "\<lparr>iq_capacity = 1, iq_messages = [], iq_closed = False\<rparr>"
  have i: "ingress_init 1 = Some ?q" by (simp add: ingress_init_def)
  obtain acc del q' where r: "queue_run try_push pop_wait ?q [Some (1::nat), Some 2] = (acc, del, q')"
    by (cases "queue_run try_push pop_wait ?q [Some (1::nat), Some 2]")
  from ingress_bounded [OF i r] r show ?thesis by simp
qed

end
