(* ===== verification/Executor.thy ===== *)
theory Executor
  imports Contracts "HOL-Library.Multiset"
begin

text \<open>
  The bounded resolver executor (\<^verbatim>\<open>executor.hpp\<close>, \<^verbatim>\<open>executor.cpp\<close>).  \<^verbatim>\<open>submit\<close> is one critical
  section of the mutex and one atomic step; the worker threads interleave at the boundaries of
  the critical sections and atomic operations of \<^verbatim>\<open>worker_loop\<close>.
\<close>

section \<open>Executor state and operations\<close>


text \<open>
  Where a worker thread stands in \<^verbatim>\<open>worker_loop\<close>: waiting for a task, holding one it has just
  taken, holding the running count it read, inside the compare-exchange loop with the value it
  last observed, running the task, or returned.
\<close>

datatype 't worker =
    Waiting
  | Taken 't
  | Counted 't nat
  | Comparing 't nat nat
  | Running 't
  | Returned

record 't executor =
  xe_capacity :: nat
  xe_pending :: "'t list"
  xe_running :: nat
  xe_shutdown :: bool
  xe_max_concurrency :: nat
  xe_exceptions :: u64
  xe_workers :: "'t worker list"

definition executor_init :: "nat \<Rightarrow> nat \<Rightarrow> 't executor option" where
  "executor_init workers capacity =
     (if workers = 0 \<or> capacity = 0 then None
      else Some \<lparr>xe_capacity = capacity, xe_pending = [], xe_running = 0, xe_shutdown = False,
                 xe_max_concurrency = 0, xe_exceptions = 0, xe_workers = replicate workers Waiting\<rparr>)"

definition submit :: "'t executor \<Rightarrow> 't \<Rightarrow> bool \<times> 't executor" where
  "submit x t =
     (if xe_shutdown x \<or> xe_capacity x \<le> length (xe_pending x) then (False, x)
      else (True, x\<lparr>xe_pending := xe_pending x @ [t]\<rparr>))"

definition begin_shutdown :: "'t executor \<Rightarrow> 't executor" where
  "begin_shutdown x = x\<lparr>xe_shutdown := True\<rparr>"

text \<open>The conditions under which \<^verbatim>\<open>wait_all\<close> and the joins of \<^verbatim>\<open>shutdown\<close> return.\<close>

definition wait_all_returns :: "'t executor \<Rightarrow> bool" where
  "wait_all_returns x \<longleftrightarrow> xe_pending x = [] \<and> xe_running x = 0"

definition shutdown_returns :: "'t executor \<Rightarrow> bool" where
  "shutdown_returns x \<longleftrightarrow> xe_shutdown x \<and> list_all (\<lambda>w. w = Returned) (xe_workers x)"

definition set_worker :: "'t executor \<Rightarrow> nat \<Rightarrow> 't worker \<Rightarrow> 't executor" where
  "set_worker x i w = x\<lparr>xe_workers := (xe_workers x)[i := w]\<rparr>"

text \<open>
  One step of worker \<open>i\<close>.  \<open>raised\<close> tells whether the task throws, \<open>spurious\<close> whether a weak
  compare-exchange fails although the value matches.  A worker with nothing to do is blocked.
\<close>

definition worker_step :: "bool \<Rightarrow> bool \<Rightarrow> nat \<Rightarrow> 't executor \<Rightarrow> 't executor option" where
  "worker_step raised spurious i x =
     (if i < length (xe_workers x) then
        case xe_workers x ! i of
          Waiting \<Rightarrow>
            (case xe_pending x of
               [] \<Rightarrow> if xe_shutdown x then Some (set_worker x i Returned) else None
             | t # ts \<Rightarrow> Some (set_worker (x\<lparr>xe_pending := ts, xe_running := xe_running x + 1\<rparr>) i (Taken t)))
        | Taken t \<Rightarrow> Some (set_worker x i (Counted t (xe_running x)))
        | Counted t n \<Rightarrow> Some (set_worker x i (Comparing t n (xe_max_concurrency x)))
        | Comparing t n observed \<Rightarrow>
            if \<not> observed < n then Some (set_worker x i (Running t))
            else if xe_max_concurrency x = observed \<and> \<not> spurious
            then Some (set_worker (x\<lparr>xe_max_concurrency := n\<rparr>) i (Running t))
            else Some (set_worker x i (Comparing t n (xe_max_concurrency x)))
        | Running t \<Rightarrow>
            Some (set_worker (x\<lparr>xe_exceptions := xe_exceptions x + (if raised then 1 else 0),
                                xe_running := xe_running x - 1\<rparr>) i Waiting)
        | Returned \<Rightarrow> None
      else None)"

section \<open>Runs\<close>

text \<open>
  A run of the executor with its history: the tasks accepted so far, in order, and the tasks
  whose execution has finished.
\<close>

record 't executor_run =
  xr_state :: "'t executor"
  xr_accepted :: "'t list"
  xr_finished :: "'t list"

fun finishing :: "'t worker \<Rightarrow> 't list" where
  "finishing (Running t) = [t]"
| "finishing _ = []"

inductive executor_step :: "'t executor_run \<Rightarrow> 't executor_run \<Rightarrow> bool" where
  step_submit:
    "submit (xr_state r) t = (ok, x') \<Longrightarrow>
     executor_step r (r\<lparr>xr_state := x', xr_accepted := xr_accepted r @ (if ok then [t] else [])\<rparr>)"
| step_worker:
    "worker_step raised spurious i (xr_state r) = Some x' \<Longrightarrow>
     executor_step r (r\<lparr>xr_state := x', xr_finished := xr_finished r @ finishing (xe_workers (xr_state r) ! i)\<rparr>)"
| step_shutdown:
    "executor_step r (r\<lparr>xr_state := begin_shutdown (xr_state r)\<rparr>)"

inductive executor_reach :: "nat \<Rightarrow> nat \<Rightarrow> 't executor_run \<Rightarrow> bool" for workers capacity where
  reach_init: "executor_init workers capacity = Some x \<Longrightarrow>
     executor_reach workers capacity \<lparr>xr_state = x, xr_accepted = [], xr_finished = []\<rparr>"
| reach_step: "executor_reach workers capacity r \<Longrightarrow> executor_step r r' \<Longrightarrow> executor_reach workers capacity r'"

inductive_cases executor_stepE: "executor_step r r'"

fun held :: "'t worker \<Rightarrow> 't list" where
  "held (Taken t) = [t]"
| "held (Counted t n) = [t]"
| "held (Comparing t n m) = [t]"
| "held (Running t) = [t]"
| "held _ = []"

fun read_count :: "'t worker \<Rightarrow> nat" where
  "read_count (Counted t n) = n"
| "read_count (Comparing t n m) = n"
| "read_count _ = 0"

abbreviation holding :: "'t executor \<Rightarrow> 't list" where
  "holding x \<equiv> concat (map held (xe_workers x))"

definition executor_inv :: "nat \<Rightarrow> nat \<Rightarrow> 't executor_run \<Rightarrow> bool" where
  "executor_inv workers capacity r \<longleftrightarrow>
     (let x = xr_state r in
        0 < workers \<and> length (xe_workers x) = workers \<and> xe_capacity x = capacity \<and>
        length (xe_pending x) \<le> capacity \<and> xe_running x = length (holding x) \<and>
        mset (xr_accepted r) = mset (xr_finished r) + mset (holding x) + mset (xe_pending x) \<and>
        xe_max_concurrency x \<le> workers \<and> (\<forall>w \<in> set (xe_workers x). read_count w \<le> workers) \<and>
        (Returned \<in> set (xe_workers x) \<longrightarrow> xe_shutdown x \<and> xe_pending x = []))"

lemma mset_holding_update:
  assumes "i < length ws"
  shows "mset (concat (map held (ws[i := w]))) + mset (held (ws ! i)) =
         mset (concat (map held ws)) + mset (held w)"
  using assms
proof (induction ws arbitrary: i)
  case (Cons v ws)
  then show ?case by (cases i) (simp_all add: ac_simps)
qed simp

lemma length_holding_update:
  assumes "i < length ws"
  shows "length (concat (map held (ws[i := w]))) + length (held (ws ! i)) =
         length (concat (map held ws)) + length (held w)"
  using arg_cong [OF mset_holding_update [OF assms, of w], of size] by simp

lemma length_holding: "length (concat (map held ws)) \<le> length ws"
proof (induction ws)
  case (Cons w ws)
  then show ?case by (cases w) simp_all
qed simp

lemma inv_submit:
  assumes "executor_inv n c r" "submit (xr_state r) t = (ok, x')"
  shows "executor_inv n c (r\<lparr>xr_state := x', xr_accepted := xr_accepted r @ (if ok then [t] else [])\<rparr>)"
  using assms by (auto simp: executor_inv_def submit_def Let_def split: if_splits)

text \<open>A worker step replaces one worker and moves tasks between the multisets.\<close>

lemma inv_worker_update:
  assumes inv: "executor_inv n c r" and i: "i < length (xe_workers (xr_state r))"
    and ws: "xe_workers x' = (xe_workers (xr_state r))[i := w]"
    and same: "xe_capacity x' = xe_capacity (xr_state r)" "xe_shutdown x' = xe_shutdown (xr_state r)"
    and pend: "length (xe_pending x') \<le> length (xe_pending (xr_state r))"
    and moved: "mset fin + mset (held w) + mset (xe_pending x') =
      mset (held (xe_workers (xr_state r) ! i)) + mset (xe_pending (xr_state r))"
    and run: "xe_running x' + length (held (xe_workers (xr_state r) ! i)) = xe_running (xr_state r) + length (held w)"
    and bounds: "xe_max_concurrency x' \<le> n" "read_count w \<le> n"
    and ret: "w = Returned \<Longrightarrow> xe_shutdown x' \<and> xe_pending x' = []"
  shows "executor_inv n c (r\<lparr>xr_state := x', xr_finished := xr_finished r @ fin\<rparr>)"
proof -
  let ?x = "xr_state r"
  note I = inv [unfolded executor_inv_def Let_def]
  have "mset (xr_accepted r) = mset (xr_finished r @ fin) + mset (holding x') + mset (xe_pending x')"
  proof -
    have "mset (xr_finished r @ fin) + mset (holding x') + mset (xe_pending x') + mset (held (xe_workers ?x ! i)) =
        mset (xr_finished r) + (mset fin + mset (held w) + mset (xe_pending x')) + mset (holding ?x)"
      using mset_holding_update [OF i, of w] ws by (simp add: ac_simps)
    also have "\<dots> = mset (xr_accepted r) + mset (held (xe_workers ?x ! i))"
      unfolding moved using I by (simp add: ac_simps)
    finally show ?thesis by simp
  qed
  moreover have "xe_running x' = length (holding x')"
    using length_holding_update [OF i, of w] run I ws by simp
  moreover have sub: "set (xe_workers x') \<subseteq> insert w (set (xe_workers ?x))"
    unfolding ws by (rule set_update_subset_insert)
  moreover have "Returned \<in> set (xe_workers x') \<Longrightarrow> xe_shutdown x' \<and> xe_pending x' = []"
    using sub I ret pend same by fastforce
  ultimately show ?thesis
    using I ws same pend bounds unfolding executor_inv_def Let_def
    by (auto simp del: mset_append)
qed

lemma worker_step_facts:
  assumes "worker_step raised spurious i x = Some x'"
  shows "i < length (xe_workers x)"
    and "xe_workers x' = (xe_workers x)[i := xe_workers x' ! i]"
    and "xe_capacity x' = xe_capacity x" "xe_shutdown x' = xe_shutdown x"
    and "length (xe_pending x') \<le> length (xe_pending x) \<and>
      mset (finishing (xe_workers x ! i)) + mset (held (xe_workers x' ! i)) + mset (xe_pending x') =
        mset (held (xe_workers x ! i)) + mset (xe_pending x)"
    and "(held (xe_workers x ! i) \<noteq> [] \<Longrightarrow> 0 < xe_running x) \<Longrightarrow>
      xe_running x' + length (held (xe_workers x ! i)) = xe_running x + length (held (xe_workers x' ! i))"
    and "xe_max_concurrency x' \<le> max (xe_max_concurrency x) (read_count (xe_workers x ! i))"
    and "read_count (xe_workers x' ! i) \<le> max (xe_running x) (read_count (xe_workers x ! i))"
    and "xe_workers x' ! i = Returned \<Longrightarrow> xe_shutdown x' \<and> xe_pending x' = []"
  using assms
  by (cases "xe_workers x ! i";
      auto simp: worker_step_def set_worker_def split: list.splits if_splits)+

lemma inv_worker:
  assumes inv: "executor_inv n c r" and st: "worker_step raised spurious i (xr_state r) = Some x'"
  shows "executor_inv n c (r\<lparr>xr_state := x', xr_finished := xr_finished r @ finishing (xe_workers (xr_state r) ! i)\<rparr>)"
proof -
  let ?x = "xr_state r"
  note I = inv [unfolded executor_inv_def Let_def]
  have i: "i < length (xe_workers ?x)" using st by (auto simp: worker_step_def split: if_splits)
  have bound: "read_count (xe_workers ?x ! i) \<le> n" "xe_running ?x \<le> n"
    using I i length_holding [of "xe_workers ?x"] by auto
  have pos: "0 < xe_running ?x" if "held (xe_workers ?x ! i) \<noteq> []"
    using I that i nth_mem [OF i] by auto
  note step = worker_step_facts [OF st]
  show ?thesis
  proof (rule inv_worker_update [OF inv i step(2-4)])
    show "xe_running x' + length (held (xe_workers ?x ! i)) = xe_running ?x + length (held (xe_workers x' ! i))"
      using step(6) pos by blast
    show "xe_max_concurrency x' \<le> n" "read_count (xe_workers x' ! i) \<le> n"
      using step(7,8) bound I by auto
  qed (use step in blast)+
qed

lemma executor_inv_reach: "executor_reach n c r \<Longrightarrow> executor_inv n c r"
proof (induction rule: executor_reach.induct)
  case (reach_init x)
  then show ?case by (auto simp: executor_inv_def executor_init_def Let_def split: if_splits)
next
  case (reach_step r r')
  from reach_step(2) show ?case
  proof (cases rule: executor_step.cases)
    case (step_submit t ok x')
    show ?thesis unfolding step_submit(1) by (rule inv_submit [OF reach_step.IH step_submit(2)])
  next
    case (step_worker raised spurious i x')
    show ?thesis unfolding step_worker(1) by (rule inv_worker [OF reach_step.IH step_worker(2)])
  next
    case step_shutdown
    then show ?thesis using reach_step.IH by (auto simp: executor_inv_def begin_shutdown_def Let_def)
  qed
qed

section \<open>What the executor promises\<close>

lemma inv_idle:
  assumes "executor_inv n c r" "xe_pending (xr_state r) = []" "holding (xr_state r) = []"
  shows "mset (xr_finished r) = mset (xr_accepted r)"
proof -
  have "mset (xr_accepted r) =
      mset (xr_finished r) + mset (holding (xr_state r)) + mset (xe_pending (xr_state r))"
    using assms(1) unfolding executor_inv_def Let_def by blast
  then show ?thesis unfolding assms(2,3) by simp
qed

text \<open>
  C40: when \<^verbatim>\<open>wait_all\<close> may return, and when every worker joined by \<^verbatim>\<open>shutdown\<close> has returned, each
  accepted task has finished, exactly once; after the shutdown no task is accepted.
\<close>

theorem executor_completes:
  assumes "executor_reach n c r" "wait_all_returns (xr_state r) \<or> shutdown_returns (xr_state r)"
  shows "mset (xr_finished r) = mset (xr_accepted r) \<and>
     (shutdown_returns (xr_state r) \<longrightarrow> submit (xr_state r) t = (False, xr_state r))"
proof -
  have inv: "executor_inv n c r" by (rule executor_inv_reach [OF assms(1)])
  note I = inv [unfolded executor_inv_def Let_def]
  have "xe_pending (xr_state r) = [] \<and> holding (xr_state r) = []"
    using assms(2)
  proof
    assume "wait_all_returns (xr_state r)"
    moreover have "xe_running (xr_state r) = length (holding (xr_state r))" using I by blast
    ultimately show ?thesis unfolding wait_all_returns_def by simp
  next
    assume s: "shutdown_returns (xr_state r)"
    have ne: "0 < length (xe_workers (xr_state r))" using I by blast
    have "xe_workers (xr_state r) ! 0 = Returned"
      using s ne unfolding shutdown_returns_def list_all_length by blast
    then have "Returned \<in> set (xe_workers (xr_state r))"
      using nth_mem [OF ne] by simp
    moreover have "concat (map held (xe_workers (xr_state r))) = []"
      using s by (auto simp: shutdown_returns_def list_all_iff)
    moreover have "Returned \<in> set (xe_workers (xr_state r)) \<longrightarrow> xe_pending (xr_state r) = []"
      using I by blast
    ultimately show ?thesis by blast
  qed
  then have "mset (xr_finished r) = mset (xr_accepted r)"
    using inv_idle [OF inv] by blast
  then show ?thesis by (simp add: submit_def shutdown_returns_def)
qed

definition ex_finished :: "nat executor_run" where
  "ex_finished =
     \<lparr>xr_state = \<lparr>xe_capacity = 1, xe_pending = [], xe_running = 0, xe_shutdown = False,
                  xe_max_concurrency = 1, xe_exceptions = 1, xe_workers = [Waiting]\<rparr>,
      xr_accepted = [7], xr_finished = [7]\<rparr>"

definition ex_run :: "nat list \<Rightarrow> nat \<Rightarrow> nat \<Rightarrow> u64 \<Rightarrow> nat worker \<Rightarrow> nat list \<Rightarrow> nat executor_run" where
  "ex_run ts running m e w fin =
     \<lparr>xr_state = \<lparr>xe_capacity = 1, xe_pending = ts, xe_running = running, xe_shutdown = False,
                  xe_max_concurrency = m, xe_exceptions = e, xe_workers = [w]\<rparr>,
      xr_accepted = [7], xr_finished = fin\<rparr>"

lemma ex_finished_reach: "executor_reach 1 1 ex_finished"
proof -
  have s: "executor_reach 1 1 r'"
    if "executor_reach 1 1 r" "worker_step raised False 0 (xr_state r) = Some x'"
      "r' = r\<lparr>xr_state := x', xr_finished := xr_finished r @ finishing (xe_workers (xr_state r) ! 0)\<rparr>"
    for r r' :: "nat executor_run" and x' raised
    using that reach_step step_worker by metis
  note D = ex_run_def worker_step_def set_worker_def
  have "executor_reach 1 1 \<lparr>xr_state = (xr_state (ex_run [] 0 0 0 Waiting [])), xr_accepted = [], xr_finished = []\<rparr>"
    by (rule reach_init) (simp add: executor_init_def ex_run_def)
  from reach_step [OF this step_submit [where t = 7 and ok = True and x' = "xr_state (ex_run [7] 0 0 0 Waiting [])"]]
  have "executor_reach 1 1 (ex_run [7] 0 0 0 Waiting [])"
    by (simp add: ex_run_def submit_def)
  then have "executor_reach 1 1 (ex_run [] 1 0 0 (Taken 7) [])"
    by (rule s [where raised = False]) (simp_all add: D)
  then have "executor_reach 1 1 (ex_run [] 1 0 0 (Counted 7 1) [])"
    by (rule s [where raised = False]) (simp_all add: D)
  then have "executor_reach 1 1 (ex_run [] 1 0 0 (Comparing 7 1 0) [])"
    by (rule s [where raised = False]) (simp_all add: D)
  then have "executor_reach 1 1 (ex_run [] 1 1 0 (Running 7) [])"
    by (rule s [where raised = False]) (simp_all add: D)
  then show ?thesis
    by (rule s [where raised = True]) (simp_all add: D ex_finished_def)
qed

theorem executor_completes_witness:
  "mset (xr_finished ex_finished) = {#7#} \<and> wait_all_returns (xr_state ex_finished)"
proof -
  have w: "wait_all_returns (xr_state ex_finished)"
    by (simp add: wait_all_returns_def ex_finished_def)
  from executor_completes [OF ex_finished_reach disjI1 [OF w]] w
  show ?thesis by (simp add: ex_finished_def)
qed

text \<open>
  in every reachable state the pending queue holds at most its capacity, no more tasks run
  than there are workers, the recorded high-water mark is at most the number of workers, and
  while a task is pending or held some worker can take a step, so nothing accepted is stuck.
\<close>

theorem executor_bounded_live:
  assumes "executor_reach n c r"
  shows "length (xe_pending (xr_state r)) \<le> c \<and> xe_running (xr_state r) \<le> n \<and>
     xe_max_concurrency (xr_state r) \<le> n \<and>
     (xe_pending (xr_state r) \<noteq> [] \<or> xe_running (xr_state r) \<noteq> 0 \<longrightarrow>
        (\<exists>i x'. worker_step raised spurious i (xr_state r) = Some x'))"
proof -
  let ?x = "xr_state r"
  note I = executor_inv_reach [OF assms, unfolded executor_inv_def Let_def]
  have "\<exists>i x'. worker_step raised spurious i ?x = Some x'"
    if "xe_pending ?x \<noteq> [] \<or> xe_running ?x \<noteq> 0"
  proof -
    have "\<exists>i < length (xe_workers ?x). held (xe_workers ?x ! i) \<noteq> [] \<or>
        (xe_pending ?x \<noteq> [] \<and> xe_workers ?x ! i \<noteq> Returned)"
    proof (cases "xe_running ?x = 0")
      case True
      then have "xe_pending ?x \<noteq> []" using that by simp
      then have ret: "Returned \<notin> set (xe_workers ?x)" and ne: "0 < length (xe_workers ?x)"
        using I by blast+
      have "xe_workers ?x ! 0 \<noteq> Returned" using ret nth_mem [OF ne] by metis
      with ne \<open>xe_pending ?x \<noteq> []\<close> show ?thesis by blast
    next
      case False
      moreover have "xe_running ?x = length (holding ?x)" using I by blast
      ultimately have "holding ?x \<noteq> []" by simp
      then obtain w where "w \<in> set (xe_workers ?x)" "held w \<noteq> []" by auto
      then show ?thesis by (metis in_set_conv_nth)
    qed
    then obtain i where i: "i < length (xe_workers ?x)" and h: "held (xe_workers ?x ! i) \<noteq> [] \<or>
        (xe_pending ?x \<noteq> [] \<and> xe_workers ?x ! i \<noteq> Returned)" by blast
    then show ?thesis
      by (intro exI [of _ i]; cases "xe_workers ?x ! i")
         (auto simp: worker_step_def split: list.splits)
  qed
  moreover have "xe_running ?x = length (holding ?x)" "length (xe_workers ?x) = n" using I by blast+
  then have "xe_running ?x \<le> n" using length_holding [of "xe_workers ?x"] by simp
  ultimately show ?thesis using I by blast
qed

theorem executor_bounded_live_witness: "xe_max_concurrency (xr_state ex_finished) \<le> 1"
  using executor_bounded_live [OF ex_finished_reach] by simp

end
