(* ===== verification/Control_Core.thy ===== *)
theory Control_Core
  imports Decision Ingress Executor
begin

text \<open>
  The single-threaded control core (\<^verbatim>\<open>state.hpp\<close>, \<^verbatim>\<open>state.cpp\<close>).  A handler maps the core, the
  executor it submits tasks to and the counters of the current drain to their successors;
  \<open>None\<close> is a failed assertion.  The wall clock of each message is an input.  A resolver task is
  the record of the values its closure captures; the injected mechanism runs it.
\<close>

section \<open>State\<close>

record control_core =
  cc_minter :: u64
  cc_registry :: registry
  cc_cognition :: pinned_cognition
  cc_facts :: structural_facts
  cc_transactions :: "u64 \<rightharpoonup> control_transaction"
  cc_by_correlation :: "correlation_key \<rightharpoonup> transaction_id"
  cc_integrity_failures :: "correlation_key \<rightharpoonup> u64"
  cc_outstanding :: "u64 \<rightharpoonup> u64"
  cc_redeliberation_pending :: "u64 set"
  cc_resume :: "u64 \<rightharpoonup> evidence_receipt list"
  cc_spent_activations :: "u64 set"

definition core_init :: "u64 \<Rightarrow> registry \<Rightarrow> pinned_cognition \<Rightarrow> structural_facts \<Rightarrow> control_core" where
  "core_init minter reg cognition facts =
     \<lparr>cc_minter = minter, cc_registry = reg, cc_cognition = cognition, cc_facts = facts,
      cc_transactions = Map.empty, cc_by_correlation = Map.empty, cc_integrity_failures = Map.empty,
      cc_outstanding = Map.empty, cc_redeliberation_pending = {}, cc_resume = Map.empty,
      cc_spent_activations = {}\<rparr>"

record drain_result =
  dr_processed :: u64
  dr_dropped_unknown :: u64
  dr_integrity_failures :: u64
  dr_replays :: u64
  dr_receipt_rejections :: u64

definition no_drain :: drain_result where
  "no_drain =
     \<lparr>dr_processed = 0, dr_dropped_unknown = 0, dr_integrity_failures = 0, dr_replays = 0,
      dr_receipt_rejections = 0\<rparr>"

record resolver_task =
  rt_transaction :: transaction_id
  rt_identity :: requirement_identity
  rt_binding :: resolver_binding
  rt_generation :: generation_id
  rt_policy_digest :: content_digest
  rt_source_revision :: revision_id

record transaction_view =
  tv_exists :: bool
  tv_id :: transaction_id
  tv_causal_parent :: "transaction_id option"
  tv_phase :: transaction_phase
  tv_disposition :: disposition
  tv_blocking_pending :: nat
  tv_integrity_failed :: bool

section \<open>Queries\<close>

definition transaction :: "control_core \<Rightarrow> transaction_id \<Rightarrow> control_transaction option" where
  "transaction C i = cc_transactions C i"

definition view :: "control_core \<Rightarrow> transaction_id \<Rightarrow> transaction_view" where
  "view C i =
     (case transaction C i of
        None \<Rightarrow> \<lparr>tv_exists = False, tv_id = 0, tv_causal_parent = None, tv_phase = Observed,
                 tv_disposition = Deny, tv_blocking_pending = 0, tv_integrity_failed = False\<rparr>
      | Some t \<Rightarrow>
          \<lparr>tv_exists = True, tv_id = ct_id t, tv_causal_parent = ct_causal_parent t, tv_phase = ct_phase t,
           tv_disposition = disposition_for t,
           tv_blocking_pending = length (filter (\<lambda>p. pr_blocking p \<and> pr_status p = Pending)
                                           (pk_requirements (ct_packet t))),
           tv_integrity_failed = False\<rparr>)"

definition views :: "control_core \<Rightarrow> transaction_view set" where
  "views C = {view C (ct_id t) | i t. cc_transactions C i = Some t}"

definition resume_receipts :: "control_core \<Rightarrow> transaction_id \<Rightarrow> evidence_receipt list" where
  "resume_receipts C i = (case cc_resume C i of None \<Rightarrow> [] | Some rs \<Rightarrow> rs)"

definition binding_for :: "registry \<Rightarrow> requirement_identity \<Rightarrow> resolver_binding option" where
  "binding_for R i =
     (case find_for_kind_and_view R (ri_kind i) ''default'' of [b] \<Rightarrow> Some b | _ \<Rightarrow> None)"

section \<open>Proposals\<close>

definition prepare :: "requirement_instance \<Rightarrow> prepared_requirement" where
  "prepare r =
     \<lparr>pr_requirement = \<lparr>cr_kind = ri_kind (rq_identity r), cr_subject = ri_subject (rq_identity r),
                        cr_blocking = ri_blocking (rq_identity r)\<rparr>,
      pr_boundary = ri_boundary (rq_identity r), pr_status = Pending, pr_evidence = []\<rparr>"

definition usable_activation ::
    "foundation \<Rightarrow> pinned_cognition \<Rightarrow> generation_id \<Rightarrow> u64 \<Rightarrow> requirement_identity \<Rightarrow> u64 set
     \<Rightarrow> activation_receipt \<Rightarrow> bool" where
  "usable_activation F cog gen now i spent a \<longleftrightarrow>
     activation_use_identity F a \<notin> spent \<and>
     activation_valid_for a i (pc_revision cog) (pc_snapshot_digest_sha256 cog) gen (pc_policy_digest cog) now"

definition presatisfy_one ::
    "foundation \<Rightarrow> pinned_cognition \<Rightarrow> generation_id \<Rightarrow> u64 \<Rightarrow> activation_receipt list \<Rightarrow> u64 set
     \<Rightarrow> prepared_requirement \<Rightarrow> prepared_requirement \<times> u64 set" where
  "presatisfy_one F cog gen now activations spent p =
     (if \<not> pr_blocking p \<or> pr_boundary p \<noteq> BeforeJudgment \<or> pr_status p \<noteq> Pending then (p, spent)
      else case find (usable_activation F cog gen now (identity_of p) spent) activations of
             None \<Rightarrow> (p, spent)
           | Some a \<Rightarrow>
               (p\<lparr>pr_status := Satisfied,
                  pr_evidence := pr_evidence p @ [''activation:'' @ to_string_u64 (ar_injection_event a)]\<rparr>,
                insert (activation_use_identity F a) spent))"

fun presatisfy ::
    "foundation \<Rightarrow> pinned_cognition \<Rightarrow> generation_id \<Rightarrow> u64 \<Rightarrow> activation_receipt list \<Rightarrow> u64 set
     \<Rightarrow> prepared_requirement list \<Rightarrow> prepared_requirement list \<times> u64 set" where
  "presatisfy F cog gen now activations spent [] = ([], spent)"
| "presatisfy F cog gen now activations spent (p # ps) =
     (case presatisfy_one F cog gen now activations spent p of (p', spent1) \<Rightarrow>
      case presatisfy F cog gen now activations spent1 ps of (ps', spent2) \<Rightarrow> (p' # ps', spent2))"

definition task_for :: "pinned_cognition \<Rightarrow> control_transaction \<Rightarrow> prepared_requirement \<Rightarrow> resolver_binding \<Rightarrow> resolver_task" where
  "task_for cog t p b =
     \<lparr>rt_transaction = ct_id t, rt_identity = identity_of p, rt_binding = b,
      rt_generation = ck_generation (ct_correlation t), rt_policy_digest = pc_policy_digest cog,
      rt_source_revision = pc_revision cog\<rparr>"

definition dispatch_one ::
    "registry \<Rightarrow> pinned_cognition \<Rightarrow> control_transaction \<Rightarrow> resolver_task executor \<Rightarrow> u64 \<Rightarrow> prepared_requirement
     \<Rightarrow> prepared_requirement \<times> resolver_task executor \<times> u64" where
  "dispatch_one R cog t x outstanding p =
     (if \<not> pr_blocking p \<or> pr_status p \<noteq> Pending then (p, x, outstanding)
      else case binding_for R (identity_of p) of
             None \<Rightarrow> (p\<lparr>pr_status := Failed\<rparr>, x, outstanding)
           | Some b \<Rightarrow>
               (case submit x (task_for cog t p b) of
                  (True, x') \<Rightarrow> (p, x', outstanding + 1)
                | (False, x') \<Rightarrow> (p\<lparr>pr_status := Failed\<rparr>, x', outstanding)))"

fun dispatch_loop ::
    "registry \<Rightarrow> pinned_cognition \<Rightarrow> control_transaction \<Rightarrow> resolver_task executor \<Rightarrow> u64 \<Rightarrow> prepared_requirement list
     \<Rightarrow> prepared_requirement list \<times> resolver_task executor \<times> u64" where
  "dispatch_loop R cog t x n [] = ([], x, n)"
| "dispatch_loop R cog t x n (p # ps) =
     (case dispatch_one R cog t x n p of (p', x1, n1) \<Rightarrow>
      case dispatch_loop R cog t x1 n1 ps of (ps', x2, n2) \<Rightarrow> (p' # ps', x2, n2))"

abbreviation set_requirements :: "prepared_requirement list \<Rightarrow> control_transaction \<Rightarrow> control_transaction" where
  "set_requirements ps t \<equiv> t\<lparr>ct_packet := (ct_packet t)\<lparr>pk_requirements := ps\<rparr>\<rparr>"

definition dispatch_resolvers ::
    "control_core \<Rightarrow> resolver_task executor \<Rightarrow> control_transaction
     \<Rightarrow> control_transaction \<times> control_core \<times> resolver_task executor" where
  "dispatch_resolvers C x t =
     (case dispatch_loop (cc_registry C) (cc_cognition C) t x 0 (pk_requirements (ct_packet t)) of (ps, x', n) \<Rightarrow>
        (set_requirements ps t, C\<lparr>cc_outstanding := (cc_outstanding C)(ct_id t \<mapsto> n)\<rparr>, x'))"

definition reevaluate_after_reports :: "draft \<Rightarrow> control_core \<Rightarrow> control_transaction \<Rightarrow> control_transaction" where
  "reevaluate_after_reports D C t =
     (if terminal t then t
      else if ct_id t \<in> cc_redeliberation_pending C \<and> pk_failure (ct_packet t) = PF_None
      then t\<lparr>ct_phase := ReDeliberationRequired\<rparr>
      else let t' = snd (evaluate_before_judgment D t) in
           if ct_phase t' = PreparedForJudgment then snd (evaluate_before_execution D t') else t')"

definition store_transaction :: "u64 \<Rightarrow> control_transaction \<Rightarrow> control_core \<Rightarrow> control_core" where
  "store_transaction i t C = C\<lparr>cc_transactions := (cc_transactions C)(i \<mapsto> t)\<rparr>"

definition emplace :: "('k \<rightharpoonup> 'v) \<Rightarrow> 'k \<Rightarrow> 'v \<Rightarrow> ('k \<rightharpoonup> 'v)" where
  "emplace m k v = (case m k of None \<Rightarrow> m(k \<mapsto> v) | Some _ \<Rightarrow> m)"

definition handle_known_key ::
    "foundation \<Rightarrow> ingress_message \<Rightarrow> transaction_id \<Rightarrow> control_core \<Rightarrow> drain_result
     \<Rightarrow> (control_core \<times> drain_result) option" where
  "handle_known_key F m i C r =
     (case transaction C i of
        None \<Rightarrow> Some (C, r\<lparr>dr_integrity_failures := dr_integrity_failures r + 1\<rparr>)
      | Some original \<Rightarrow>
          (case (action_digest_of F (ct_action original), action_digest_of F (im_action m)) of
             (Some a, Some b) \<Rightarrow>
               if a = b then Some (C, r\<lparr>dr_replays := dr_replays r + 1\<rparr>)
               else Some (C\<lparr>cc_integrity_failures := (cc_integrity_failures C)
                             (im_correlation m \<mapsto> (case cc_integrity_failures C (im_correlation m) of
                                                      None \<Rightarrow> 1 | Some n \<Rightarrow> n + 1))\<rparr>,
                          r\<lparr>dr_integrity_failures := dr_integrity_failures r + 1\<rparr>)
           | _ \<Rightarrow> None))"

definition open_transaction ::
    "foundation \<Rightarrow> draft \<Rightarrow> u64 \<Rightarrow> ingress_message \<Rightarrow> control_core \<Rightarrow> (control_transaction \<times> control_core) option" where
  "open_transaction F D now m C =
     (case pc_snapshot (cc_cognition C) of
        None \<Rightarrow> None
      | Some snap \<Rightarrow>
          (case classify D (im_action m) (cc_facts C) [] of
             None \<Rightarrow> None
           | Some intents \<Rightarrow>
               (let ps = map prepare (derive_requirement_set D snap intents) in
                case presatisfy F (cc_cognition C) (ck_generation (im_correlation m)) now
                       (im_activation_receipts m) (cc_spent_activations C) ps of (ps', spent) \<Rightarrow>
                let (i, minter) = minter_next (cc_minter C);
                    t = begin_control_transaction i (im_causal_parent m) (im_correlation m) (im_action m) intents
                          (cc_cognition C) \<lparr>pk_requirements = ps', pk_failure = default_failure D\<rparr>
                in Some (t, C\<lparr>cc_minter := minter, cc_spent_activations := spent,
                              cc_transactions := emplace (cc_transactions C) i t,
                              cc_by_correlation := emplace (cc_by_correlation C) (im_correlation m) i\<rparr>))))"

definition handle_proposal ::
    "foundation \<Rightarrow> draft \<Rightarrow> u64 \<Rightarrow> ingress_message \<Rightarrow> control_core \<times> resolver_task executor \<times> drain_result
     \<Rightarrow> (control_core \<times> resolver_task executor \<times> drain_result) option" where
  "handle_proposal F D now m s =
     (case s of (C, x, r) \<Rightarrow>
      case cc_by_correlation C (im_correlation m) of
        Some i \<Rightarrow> map_option (\<lambda>(C', r'). (C', x, r')) (handle_known_key F m i C r)
      | None \<Rightarrow>
          (case open_transaction F D now m C of
             None \<Rightarrow> None
           | Some (opened, C1) \<Rightarrow>
               (let i = ct_id opened; stored = the (cc_transactions C1 i) in
                case dispatch_resolvers C1 x stored of (t, C2, x') \<Rightarrow>
                let C3 = C2\<lparr>cc_outstanding := emplace (cc_outstanding C2) i 0\<rparr>;
                    t' = (if cc_outstanding C3 i = Some 0 then reevaluate_after_reports D C3 t else t)
                in Some (store_transaction i t' C3, x', r))))"

section \<open>Reports\<close>

fun update_first :: "('a \<Rightarrow> bool) \<Rightarrow> ('a \<Rightarrow> 'a) \<Rightarrow> 'a list \<Rightarrow> 'a list" where
  "update_first P f [] = []"
| "update_first P f (x # xs) = (if P x then f x # xs else x # update_first P f xs)"

text \<open>The last part of both report handlers: one report less is outstanding.\<close>

definition report_received :: "draft \<Rightarrow> u64 \<Rightarrow> control_transaction \<Rightarrow> control_core \<Rightarrow> control_core" where
  "report_received D i t C =
     (case cc_outstanding C (ct_id t) of
        None \<Rightarrow> store_transaction i t C
      | Some n \<Rightarrow>
          if 0 < n
          then let C1 = C\<lparr>cc_outstanding := (cc_outstanding C)(ct_id t \<mapsto> n - 1)\<rparr> in
               store_transaction i (if n - 1 = 0 then reevaluate_after_reports D C1 t else t) C1
          else store_transaction i t C)"

definition receipt_verdict ::
    "u64 \<Rightarrow> ingress_message \<Rightarrow> control_transaction \<Rightarrow> prepared_requirement \<Rightarrow> control_core \<Rightarrow> receipt_rejection" where
  "receipt_verdict now m t p C =
     (case binding_for (cc_registry C) (identity_of p) of
        Some b \<Rightarrow> validate_receipt (im_receipt m) b (identity_of p) (ck_generation (ct_correlation t))
                    (pc_policy_digest (cc_cognition C)) now
      | None \<Rightarrow> WrongRequirement)"

definition handle_evidence ::
    "draft \<Rightarrow> u64 \<Rightarrow> ingress_message \<Rightarrow> control_core \<Rightarrow> drain_result \<Rightarrow> control_core \<times> drain_result" where
  "handle_evidence D now m C r =
     (case cc_transactions C (im_transaction m) of
        None \<Rightarrow> (C, r\<lparr>dr_dropped_unknown := dr_dropped_unknown r + 1\<rparr>)
      | Some t \<Rightarrow>
          (let ps = pk_requirements (ct_packet t); hit = (\<lambda>p. identity_of p = im_requirement m) in
           case find hit ps of
             None \<Rightarrow> (C, r\<lparr>dr_dropped_unknown := dr_dropped_unknown r + 1\<rparr>)
           | Some p \<Rightarrow>
               if pr_status p \<noteq> Pending then (C, r\<lparr>dr_replays := dr_replays r + 1\<rparr>)
               else if receipt_verdict now m t p C = Rej_None
               then let p' = p\<lparr>pr_status := Satisfied,
                               pr_evidence := pr_evidence p @ [''receipt:'' @ to_string_u64 (er_id (im_receipt m))]\<rparr>;
                        t' = set_requirements (update_first hit (\<lambda>_. p') ps) t;
                        C1 = (if pr_blocking p \<and> pr_boundary p = BeforeJudgment
                              then C\<lparr>cc_redeliberation_pending := insert (ct_id t) (cc_redeliberation_pending C),
                                     cc_resume := (cc_resume C)(ct_id t \<mapsto> resume_receipts C (ct_id t) @ [im_receipt m])\<rparr>
                              else C)
                    in (report_received D (im_transaction m) t' C1, r)
               else let t' = set_requirements (update_first hit (\<lambda>_. p\<lparr>pr_status := Failed\<rparr>) ps) t
                    in (report_received D (im_transaction m) t' C,
                        r\<lparr>dr_receipt_rejections := dr_receipt_rejections r + 1,
                          dr_integrity_failures := dr_integrity_failures r + 1\<rparr>)))"

definition handle_failure ::
    "draft \<Rightarrow> ingress_message \<Rightarrow> control_core \<Rightarrow> drain_result \<Rightarrow> control_core \<times> drain_result" where
  "handle_failure D m C r =
     (case cc_transactions C (im_transaction m) of
        None \<Rightarrow> (C, r\<lparr>dr_dropped_unknown := dr_dropped_unknown r + 1\<rparr>)
      | Some t \<Rightarrow>
          (let ps = pk_requirements (ct_packet t); hit = (\<lambda>p. identity_of p = im_requirement m) in
           case find hit ps of
             None \<Rightarrow> (report_received D (im_transaction m) t C, r)
           | Some p \<Rightarrow>
               if pr_status p \<noteq> Pending then (C, r\<lparr>dr_replays := dr_replays r + 1\<rparr>)
               else (report_received D (im_transaction m)
                       (set_requirements (update_first hit (\<lambda>_. p\<lparr>pr_status := Failed\<rparr>) ps) t) C, r)))"

section \<open>Draining the queue\<close>

definition handle_message ::
    "foundation \<Rightarrow> draft \<Rightarrow> u64 \<Rightarrow> ingress_message \<Rightarrow> control_core \<times> resolver_task executor \<times> drain_result
     \<Rightarrow> (control_core \<times> resolver_task executor \<times> drain_result) option" where
  "handle_message F D now m s =
     (case s of (C, x, r) \<Rightarrow>
      (case im_kind m of
         Proposal \<Rightarrow> handle_proposal F D now m (C, x, r)
       | EvidenceDelivery \<Rightarrow> (case handle_evidence D now m C r of (C', r') \<Rightarrow> Some (C', x, r'))
       | ResolutionFailure \<Rightarrow> (case handle_failure D m C r of (C', r') \<Rightarrow> Some (C', x, r'))))"

text \<open>
  A drain pass over a queue that nobody fills meanwhile; \<open>clock\<close> gives the time of the
  \<open>n\<close>-th message.
\<close>

function drain ::
    "foundation \<Rightarrow> draft \<Rightarrow> (nat \<Rightarrow> u64) \<Rightarrow> nat \<Rightarrow> control_core \<times> resolver_task executor \<times> drain_result
     \<Rightarrow> ingress_message ingress_queue
     \<Rightarrow> ((control_core \<times> resolver_task executor \<times> drain_result) \<times> ingress_message ingress_queue) option" where
  "drain F D clock n s q =
     (case pop_wait q of
        (None, q') \<Rightarrow> Some (s, q')
      | (Some m, q') \<Rightarrow>
          (case handle_message F D (clock n) m s of
             None \<Rightarrow> None
           | Some (C, x, r) \<Rightarrow> drain F D clock (Suc n) (C, x, r\<lparr>dr_processed := dr_processed r + 1\<rparr>) q'))"
  by pat_completeness auto
termination
  by (relation "measure (\<lambda>(F, D, clock, n, s, q). length (iq_messages q))")
     (auto simp: pop_wait_def split: list.splits)

declare drain.simps [simp del]

end
