(* ===== verification/Core_Invariant.thy ===== *)
theory Core_Invariant
  imports Control_Core
begin

text \<open>
  The invariant of the control core, its preservation by every handler, and how transactions
  evolve from one message to the next.  A run of the core handles arbitrary messages, so the
  facts hold against any producer of the ingress queue.
\<close>

section \<open>Invariant\<close>

definition from_activation :: "prepared_requirement \<Rightarrow> bool" where
  "from_activation p \<longleftrightarrow> (\<exists>n. pr_evidence p = [''activation:'' @ to_string_u64 n])"

definition settled_phases :: "transaction_phase set" where
  "settled_phases = {Denied, ReDeliberationRequired, AwaitingRequirement, CognitiveAllowed}"

text \<open>
  The invariant of one transaction, given its number of outstanding reports and whether a
  blocking BeforeJudgment requirement was satisfied in flight.
\<close>

definition tx_ok :: "u64 option \<Rightarrow> bool \<Rightarrow> control_transaction \<Rightarrow> bool" where
  "tx_ok out late t \<longleftrightarrow>
     (case out of None \<Rightarrow> False
      | Some n \<Rightarrow> if n = 0 then ct_phase t \<in> settled_phases else ct_phase t = RequirementsDerived) \<and>
     distinct (map identity_of (pk_requirements (ct_packet t))) \<and>
     (ct_phase t = CognitiveAllowed \<longrightarrow>
        \<not> late \<and> pk_failure (ct_packet t) = PF_None \<and>
        (\<forall>p \<in> set (pk_requirements (ct_packet t)). pr_blocking p \<longrightarrow> pr_status p = Satisfied)) \<and>
     (\<not> late \<longrightarrow>
        (\<forall>p \<in> set (pk_requirements (ct_packet t)). blocking_bj p \<and> pr_status p = Satisfied \<longrightarrow> from_activation p))"

definition core_inv :: "control_core \<Rightarrow> bool" where
  "core_inv C \<longleftrightarrow>
     0 < cc_minter C \<and>
     (\<forall>i t. cc_transactions C i = Some t \<longrightarrow>
        ct_id t = i \<and> 0 < i \<and> i < cc_minter C \<and> cc_by_correlation C (ct_correlation t) = Some i \<and>
        tx_ok (cc_outstanding C i) (i \<in> cc_redeliberation_pending C) t) \<and>
     (\<forall>k i. cc_by_correlation C k = Some i \<longrightarrow> (\<exists>t. cc_transactions C i = Some t \<and> ct_correlation t = k)) \<and>
     cc_redeliberation_pending C \<subseteq> dom (cc_transactions C) \<and> dom (cc_resume C) \<subseteq> cc_redeliberation_pending C"

lemma core_invD:
  assumes "core_inv C" "cc_transactions C i = Some t"
  shows "ct_id t = i" "0 < i" "i < cc_minter C" "cc_by_correlation C (ct_correlation t) = Some i"
    "tx_ok (cc_outstanding C i) (i \<in> cc_redeliberation_pending C) t"
  using assms unfolding core_inv_def by blast+

lemma core_inv_key:
  assumes "core_inv C" "cc_by_correlation C k = Some i"
  obtains t where "cc_transactions C i = Some t" "ct_correlation t = k"
  using assms unfolding core_inv_def by blast

lemma core_inv_late: "core_inv C \<Longrightarrow> j \<in> cc_redeliberation_pending C \<Longrightarrow> j \<in> dom (cc_transactions C)"
  unfolding core_inv_def by blast

text \<open>Replacing one transaction keeps the invariant when its own part is kept.\<close>

lemma core_inv_replace:
  assumes inv: "core_inv C" and t: "cc_transactions C i = Some t"
    and t': "ct_id t' = i" "ct_correlation t' = ct_correlation t"
    and same: "cc_minter C' = cc_minter C" "cc_by_correlation C' = cc_by_correlation C"
    and upd: "cc_transactions C' = (cc_transactions C)(i \<mapsto> t')"
    and out: "\<And>j. j \<noteq> i \<Longrightarrow> cc_outstanding C' j = cc_outstanding C j"
    and late: "\<And>j. j \<noteq> i \<Longrightarrow> j \<in> cc_redeliberation_pending C' \<longleftrightarrow> j \<in> cc_redeliberation_pending C"
    and res: "dom (cc_resume C') \<subseteq> cc_redeliberation_pending C'"
    and ok: "tx_ok (cc_outstanding C' i) (i \<in> cc_redeliberation_pending C') t'"
  shows "core_inv C'"
proof -
  have "ct_id u = j \<and> 0 < j \<and> j < cc_minter C' \<and> cc_by_correlation C' (ct_correlation u) = Some j \<and>
      tx_ok (cc_outstanding C' j) (j \<in> cc_redeliberation_pending C') u"
    if u: "cc_transactions C' j = Some u" for j u
  proof (cases "j = i")
    case True
    with u upd have "u = t'" by simp
    with True show ?thesis using core_invD [OF inv t] t' ok same by simp
  next
    case False
    with u upd have "cc_transactions C j = Some u" by simp
    from core_invD [OF inv this] False show ?thesis using out late same by simp
  qed
  note T = this
  have K: "\<exists>u. cc_transactions C' j = Some u \<and> ct_correlation u = k" if k: "cc_by_correlation C' k = Some j" for k j
  proof -
    have "cc_by_correlation C k = Some j" using k same(2) by simp
    then obtain u where "cc_transactions C j = Some u" "ct_correlation u = k"
      by (rule core_inv_key [OF inv])
    then show ?thesis using upd t t' by (cases "j = i") auto
  qed
  have R: "cc_redeliberation_pending C' \<subseteq> dom (cc_transactions C')"
  proof
    fix j assume j: "j \<in> cc_redeliberation_pending C'"
    show "j \<in> dom (cc_transactions C')"
    proof (cases "j = i")
      case False
      with j late have "j \<in> cc_redeliberation_pending C" by blast
      from core_inv_late [OF inv this] show ?thesis using upd by simp
    qed (simp add: upd)
  qed
  have M: "0 < cc_minter C'" using inv same(1) by (simp add: core_inv_def)
  show ?thesis
    unfolding core_inv_def
    by (intro conjI allI impI M R res) (use T K in blast)+
qed

subsection \<open>Reevaluation settles a transaction\<close>

lemma reevaluate_keeps [simp]:
  "ct_id (reevaluate_after_reports D C t) = ct_id t"
  "ct_action (reevaluate_after_reports D C t) = ct_action t"
  "ct_correlation (reevaluate_after_reports D C t) = ct_correlation t"
  "ct_packet (reevaluate_after_reports D C t) = ct_packet t"
  by (simp_all add: reevaluate_after_reports_def Let_def)

lemma reevaluate_settles:
  assumes "draft_laws D" "ct_phase t = RequirementsDerived"
  shows "ct_phase (reevaluate_after_reports D C t) \<in> settled_phases"
    and "ct_phase (reevaluate_after_reports D C t) = CognitiveAllowed \<Longrightarrow>
       ct_id t \<notin> cc_redeliberation_pending C \<and> pk_failure (ct_packet t) = PF_None \<and>
       (\<forall>p \<in> set (pk_requirements (ct_packet t)). pr_blocking p \<longrightarrow> pr_status p = Satisfied)"
proof -
  have nt: "\<not> terminal t" using assms(2) by (simp add: terminal_def)
  let ?j = "snd (evaluate_before_judgment D t)"
  have j: "ct_phase ?j \<in> {Denied, PreparedForJudgment, ReDeliberationRequired}"
    using nt by (simp add: judgment_phase)
  show "ct_phase (reevaluate_after_reports D C t) \<in> settled_phases"
    using nt j by (auto simp: reevaluate_after_reports_def Let_def execution_phase settled_phases_def)
  assume a: "ct_phase (reevaluate_after_reports D C t) = CognitiveAllowed"
  then have "ct_id t \<notin> cc_redeliberation_pending C \<or> pk_failure (ct_packet t) \<noteq> PF_None"
    using nt by (auto simp: reevaluate_after_reports_def)
  moreover have "ct_phase ?j = PreparedForJudgment" "ready_for_execution D (ct_packet t)"
    using a nt j by (auto simp: reevaluate_after_reports_def Let_def execution_phase split: if_splits)
  moreover have "pk_failure (ct_packet t) = PF_None"
    by (rule draft_laws.execution_no_failure [OF assms(1) calculation(3)])
  ultimately show "ct_id t \<notin> cc_redeliberation_pending C \<and> pk_failure (ct_packet t) = PF_None \<and>
      (\<forall>p \<in> set (pk_requirements (ct_packet t)). pr_blocking p \<longrightarrow> pr_status p = Satisfied)"
    using draft_laws.execution_satisfied [OF assms(1)] by blast
qed

lemma tx_ok_reevaluate:
  assumes "draft_laws D" "tx_ok (Some n) (ct_id t \<in> cc_redeliberation_pending C) t" "n \<noteq> 0"
  shows "tx_ok (Some 0) (ct_id t \<in> cc_redeliberation_pending C) (reevaluate_after_reports D C t)"
proof -
  have "ct_phase t = RequirementsDerived" using assms(2,3) by (simp add: tx_ok_def)
  note r = reevaluate_settles [OF assms(1) this]
  note ok = assms(2) [unfolded tx_ok_def]
  show ?thesis
    unfolding tx_ok_def reevaluate_keeps
  proof (intro conjI)
    show "case Some (0 :: u64) of None \<Rightarrow> False
      | Some n \<Rightarrow> if n = 0 then ct_phase (reevaluate_after_reports D C t) \<in> settled_phases
          else ct_phase (reevaluate_after_reports D C t) = RequirementsDerived"
      using r(1) by simp
  qed (use r(2) ok in blast)+
qed

subsection \<open>Reports\<close>

lemma update_first_map:
  assumes "find P xs = Some x" "g y = g x"
  shows "map g (update_first P (\<lambda>_. y) xs) = map g xs"
  using assms by (induction xs) (auto split: if_splits)

lemma set_update_first: "set (update_first P (\<lambda>_. y) xs) \<subseteq> insert y (set xs)"
  by (induction xs) auto

lemma find_mem: "find P xs = Some x \<Longrightarrow> x \<in> set xs \<and> P x"
  by (induction xs) (auto split: if_splits)

lemma identity_of_verdict [simp]:
  "identity_of (p\<lparr>pr_status := st\<rparr>) = identity_of p"
  "identity_of (p\<lparr>pr_status := st, pr_evidence := ev\<rparr>) = identity_of p"
  by (simp_all add: identity_of_def)

abbreviation requirements :: "control_transaction \<Rightarrow> prepared_requirement list" where
  "requirements t \<equiv> pk_requirements (ct_packet t)"

text \<open>A verdict on a pending requirement keeps the transaction's invariant.\<close>

lemma tx_ok_verdict:
  assumes ok: "tx_ok out late t" and p: "find P (requirements t) = Some p" "pr_status p = Pending"
    and p': "identity_of p' = identity_of p" "pr_status p' = Satisfied \<Longrightarrow> blocking_bj p \<Longrightarrow> late'"
    and late: "late \<Longrightarrow> late'" "late' \<Longrightarrow> late \<or> blocking_bj p"
  shows "tx_ok out late' (set_requirements (update_first P (\<lambda>_. p') (requirements t)) t)"
proof -
  let ?ps = "update_first P (\<lambda>_. p') (requirements t)"
  have mem: "p \<in> set (requirements t)" using find_mem [OF p(1)] by blast
  have sub: "q \<in> set ?ps \<Longrightarrow> q = p' \<or> q \<in> set (requirements t)" for q
    using set_update_first [of P p' "requirements t"] by blast
  have same: "pr_blocking p' = pr_blocking p" "blocking_bj p' = blocking_bj p"
    using p'(1) by (auto simp: identity_of_def blocking_bj_def)
  note O = ok [unfolded tx_ok_def]
  have d: "distinct (map identity_of ?ps)" using O update_first_map [OF p(1) p'(1)] by simp
  have nb: "ct_phase t = CognitiveAllowed \<Longrightarrow> \<not> pr_blocking p" using O mem p(2) by force
  have bj: "blocking_bj q \<Longrightarrow> pr_blocking q" for q by (simp add: blocking_bj_def)
  have phase: "ct_phase (set_requirements ?ps t) = ct_phase t" by simp
  show ?thesis
    unfolding tx_ok_def
  proof (intro conjI impI ballI)
    show "case out of None \<Rightarrow> False | Some n \<Rightarrow> if n = 0 then ct_phase (set_requirements ?ps t) \<in> settled_phases
        else ct_phase (set_requirements ?ps t) = RequirementsDerived"
      unfolding phase using O by blast
    show "distinct (map identity_of (requirements (set_requirements ?ps t)))" using d by simp
  next
    assume a: "ct_phase (set_requirements ?ps t) = CognitiveAllowed"
    then have a': "ct_phase t = CognitiveAllowed" by simp
    show "\<not> late'" using O a' nb late(2) bj by blast
    show "pk_failure (ct_packet (set_requirements ?ps t)) = PF_None" using O a' by simp
    fix q assume "q \<in> set (requirements (set_requirements ?ps t))" "pr_blocking q"
    then show "pr_status q = Satisfied" using sub [of q] O a' nb same(1) by auto
  next
    fix q assume "\<not> late'" "q \<in> set (requirements (set_requirements ?ps t))" "blocking_bj q \<and> pr_status q = Satisfied"
    then show "from_activation q" using sub [of q] O late(1) p'(2) same(2) by auto
  qed
qed

lemma tx_ok_fewer: "tx_ok (Some n) late t \<Longrightarrow> 0 < n \<Longrightarrow> n - 1 \<noteq> 0 \<Longrightarrow> tx_ok (Some (n - 1)) late t"
  unfolding tx_ok_def by (simp add: word_greater_zero_iff)

lemma report_received_inv:
  assumes D: "draft_laws D" and inv: "core_inv C" and t: "cc_transactions C i = Some t"
    and t': "ct_id t' = i" "ct_correlation t' = ct_correlation t"
    and same: "cc_minter C1 = cc_minter C" "cc_by_correlation C1 = cc_by_correlation C"
      "cc_transactions C1 = cc_transactions C" "cc_outstanding C1 = cc_outstanding C"
    and late: "\<And>j. j \<noteq> i \<Longrightarrow> j \<in> cc_redeliberation_pending C1 \<longleftrightarrow> j \<in> cc_redeliberation_pending C"
    and res: "dom (cc_resume C1) \<subseteq> cc_redeliberation_pending C1"
    and ok: "tx_ok (cc_outstanding C i) (i \<in> cc_redeliberation_pending C1) t'"
  shows "core_inv (report_received D i t' C1)"
proof -
  obtain n where n: "cc_outstanding C i = Some n" using ok by (auto simp: tx_ok_def split: option.splits)
  let ?C' = "report_received D i t' C1"
  show ?thesis
  proof (cases "0 < n")
    case False
    then have C': "?C' = store_transaction i t' C1" using n t' same by (simp add: report_received_def)
    show ?thesis
      by (rule core_inv_replace [OF inv t t']) (simp_all add: C' store_transaction_def same late res ok)
  next
    case True
    let ?C2 = "C1\<lparr>cc_outstanding := (cc_outstanding C1)(i \<mapsto> n - 1)\<rparr>"
    let ?u = "if n - 1 = 0 then reevaluate_after_reports D ?C2 t' else t'"
    have C': "?C' = store_transaction i ?u ?C2" using True n t' same by (simp add: report_received_def Let_def)
    have "tx_ok (Some (n - 1)) (i \<in> cc_redeliberation_pending C1) ?u"
    proof (cases "n - 1 = 0")
      case z: True
      have "tx_ok (Some n) (ct_id t' \<in> cc_redeliberation_pending ?C2) t'" using ok n t'(1) by simp
      from tx_ok_reevaluate [OF D this] z True t'(1) show ?thesis by (simp add: word_greater_zero_iff)
    next
      case False
      with tx_ok_fewer [of n _ t'] ok n True show ?thesis by simp
    qed
    then show ?thesis
      by (intro core_inv_replace [OF inv t, of ?u]) (simp_all add: C' store_transaction_def same late res t')
  qed
qed

lemma handle_evidence_inv:
  assumes D: "draft_laws D" and inv: "core_inv C" and h: "handle_evidence D now m C r = (C', r')"
  shows "core_inv C'"
proof (cases "cc_transactions C (im_transaction m)")
  case None
  with h inv show ?thesis by (simp add: handle_evidence_def)
next
  case (Some t)
  let ?hit = "\<lambda>p. identity_of p = im_requirement m"
  let ?i = "im_transaction m"
  note T = core_invD [OF inv Some]
  show ?thesis
  proof (cases "find ?hit (requirements t)")
    case None
    with h inv Some show ?thesis by (simp add: handle_evidence_def)
  next
    case p: (Some p)
    show ?thesis
    proof (cases "pr_status p = Pending")
      case False
      with h inv Some p show ?thesis by (simp add: handle_evidence_def)
    next
      case pend: True
      show ?thesis
      proof (cases "receipt_verdict now m t p C = Rej_None")
        case False
        let ?t = "set_requirements (update_first ?hit (\<lambda>_. p\<lparr>pr_status := Failed\<rparr>) (requirements t)) t"
        have C': "C' = report_received D ?i ?t C"
          using h Some p pend False by (simp add: handle_evidence_def Let_def)
        have "tx_ok (cc_outstanding C ?i) (?i \<in> cc_redeliberation_pending C) ?t"
          by (rule tx_ok_verdict [OF T(5) p pend]) (simp_all add: identity_of_def)
        then show ?thesis
          unfolding C' using inv T(1)
          by (intro report_received_inv [OF D inv Some]) (simp_all add: core_inv_def)
      next
        case True
        let ?p = "p\<lparr>pr_status := Satisfied,
          pr_evidence := pr_evidence p @ [''receipt:'' @ to_string_u64 (er_id (im_receipt m))]\<rparr>"
        let ?t = "set_requirements (update_first ?hit (\<lambda>_. ?p) (requirements t)) t"
        let ?C1 = "if pr_blocking p \<and> pr_boundary p = BeforeJudgment
          then C\<lparr>cc_redeliberation_pending := insert (ct_id t) (cc_redeliberation_pending C),
                 cc_resume := (cc_resume C)(ct_id t \<mapsto> resume_receipts C (ct_id t) @ [im_receipt m])\<rparr> else C"
        have C': "C' = report_received D ?i ?t ?C1"
          using h Some p pend True by (simp add: handle_evidence_def Let_def)
        have "tx_ok (cc_outstanding C ?i) (?i \<in> cc_redeliberation_pending ?C1) ?t"
          by (rule tx_ok_verdict [OF T(5) p pend]) (auto simp: identity_of_def blocking_bj_def T(1) split: if_splits)
        moreover have "dom (cc_resume ?C1) \<subseteq> cc_redeliberation_pending ?C1"
          using inv by (auto simp: core_inv_def)
        ultimately show ?thesis
          unfolding C' using T(1)
          by (intro report_received_inv [OF D inv Some]) auto
      qed
    qed
  qed
qed

lemma handle_failure_inv:
  assumes D: "draft_laws D" and inv: "core_inv C" and h: "handle_failure D m C r = (C', r')"
  shows "core_inv C'"
proof (cases "cc_transactions C (im_transaction m)")
  case None
  with h inv show ?thesis by (simp add: handle_failure_def)
next
  case (Some t)
  let ?hit = "\<lambda>p. identity_of p = im_requirement m"
  let ?i = "im_transaction m"
  note T = core_invD [OF inv Some]
  have res: "dom (cc_resume C) \<subseteq> cc_redeliberation_pending C" using inv by (simp add: core_inv_def)
  show ?thesis
  proof (cases "find ?hit (requirements t)")
    case None
    then have "C' = report_received D ?i t C" using h Some by (simp add: handle_failure_def Let_def)
    then show ?thesis
      using T res by (auto intro!: report_received_inv [OF D inv Some])
  next
    case p: (Some p)
    let ?t = "set_requirements (update_first ?hit (\<lambda>_. p\<lparr>pr_status := Failed\<rparr>) (requirements t)) t"
    show ?thesis
    proof (cases "pr_status p = Pending")
      case False
      with h inv Some p show ?thesis by (simp add: handle_failure_def)
    next
      case pend: True
      have C': "C' = report_received D ?i ?t C"
        using h Some p pend by (simp add: handle_failure_def Let_def)
      have "tx_ok (cc_outstanding C ?i) (?i \<in> cc_redeliberation_pending C) ?t"
        by (rule tx_ok_verdict [OF T(5) p pend]) (simp_all add: identity_of_def)
      then show ?thesis
        unfolding C' using T(1) res
        by (intro report_received_inv [OF D inv Some]) simp_all
    qed
  qed
qed

subsection \<open>Proposals\<close>

lemma identity_of_prepare [simp]: "identity_of (prepare r) = rq_identity r"
  by (cases "rq_identity r") (simp add: identity_of_def prepare_def)

lemma presatisfy_one_facts:
  assumes "presatisfy_one F cog gen now as spent p = (p', spent')" "pr_status p = Pending" "pr_evidence p = []"
  shows "identity_of p' = identity_of p \<and> spent \<subseteq> spent' \<and>
     (p' = p \<or> pr_status p' = Satisfied \<and> from_activation p' \<and> blocking_bj p')"
  using assms
  by (auto simp: presatisfy_one_def identity_of_def from_activation_def blocking_bj_def split: if_splits option.splits)

lemma presatisfy_facts:
  "presatisfy F cog gen now as spent ps = (ps', spent') \<Longrightarrow>
   \<forall>p \<in> set ps. pr_status p = Pending \<and> pr_evidence p = [] \<Longrightarrow>
     map identity_of ps' = map identity_of ps \<and> spent \<subseteq> spent' \<and>
     (\<forall>p' \<in> set ps'. pr_status p' = Pending \<or> pr_status p' = Satisfied \<and> from_activation p' \<and> blocking_bj p')"
proof (induction ps arbitrary: spent ps' spent')
  case (Cons p ps)
  obtain q s1 where q: "presatisfy_one F cog gen now as spent p = (q, s1)" by fastforce
  obtain qs s2 where qs: "presatisfy F cog gen now as s1 ps = (qs, s2)" by fastforce
  have "ps' = q # qs" "spent' = s2" using Cons.prems(1) q qs by auto
  moreover have "pr_status p = Pending" "pr_evidence p = []" using Cons.prems(2) by auto
  from presatisfy_one_facts [OF q this] this
  have "identity_of q = identity_of p \<and> spent \<subseteq> s1 \<and>
      (pr_status q = Pending \<or> pr_status q = Satisfied \<and> from_activation q \<and> blocking_bj q)" by auto
  moreover note Cons.IH [OF qs]
  ultimately show ?case using Cons.prems(2) by auto
qed simp

lemma dispatch_one_facts:
  "dispatch_one R cog t x n p = (p', x', n') \<Longrightarrow> p' = p \<or> p' = p\<lparr>pr_status := Failed\<rparr>"
  by (auto simp: dispatch_one_def split: if_splits option.splits prod.splits bool.splits)

lemma dispatch_loop_facts:
  "dispatch_loop R cog t x n ps = (ps', x', n') \<Longrightarrow>
     map identity_of ps' = map identity_of ps \<and>
     (\<forall>p' \<in> set ps'. \<exists>p \<in> set ps. p' = p \<or> p' = p\<lparr>pr_status := Failed\<rparr>)"
proof (induction ps arbitrary: x n ps')
  case (Cons p ps)
  obtain q x1 n1 where q: "dispatch_one R cog t x n p = (q, x1, n1)" by (metis prod_cases3)
  obtain qs x2 n2 where qs: "dispatch_loop R cog t x1 n1 ps = (qs, x2, n2)" by (metis prod_cases3)
  have "ps' = q # qs" using Cons.prems q qs by auto
  moreover have "identity_of q = identity_of p" "q = p \<or> q = p\<lparr>pr_status := Failed\<rparr>"
    using dispatch_one_facts [OF q] by (auto simp: identity_of_def)
  moreover have "qs = qs \<and> n' = n2" using Cons.prems q qs by auto
  moreover have "map identity_of qs = map identity_of ps \<and>
      (\<forall>p' \<in> set qs. \<exists>p \<in> set ps. p' = p \<or> p' = p\<lparr>pr_status := Failed\<rparr>)"
    using Cons.prems q qs by (intro Cons.IH [of x1 n1]) auto
  ultimately show ?case by auto
qed simp

lemma open_transaction_facts:
  assumes "open_transaction F D now m C = Some (t, C1)"
  shows "ct_id t = cc_minter C" "ct_correlation t = im_correlation m" "ct_action t = im_action m"
    "ct_phase t = RequirementsDerived" "distinct (map identity_of (requirements t))"
    "\<forall>p \<in> set (requirements t). pr_status p = Pending \<or> pr_status p = Satisfied \<and> from_activation p \<and> blocking_bj p"
    "cc_minter C1 = cc_minter C + 1" "cc_transactions C1 = emplace (cc_transactions C) (cc_minter C) t"
    "cc_by_correlation C1 = emplace (cc_by_correlation C) (im_correlation m) (cc_minter C)"
    "cc_outstanding C1 = cc_outstanding C" "cc_redeliberation_pending C1 = cc_redeliberation_pending C"
    "cc_resume C1 = cc_resume C" "cc_registry C1 = cc_registry C" "cc_cognition C1 = cc_cognition C"
    "cc_spent_activations C \<subseteq> cc_spent_activations C1"
proof -
  from assms obtain snap intents ps spent where
    ps: "presatisfy F (cc_cognition C) (ck_generation (im_correlation m)) now (im_activation_receipts m)
       (cc_spent_activations C) (map prepare (derive_requirement_set D snap intents)) = (ps, spent)"
    and t: "t = begin_control_transaction (cc_minter C) (im_causal_parent m) (im_correlation m) (im_action m) intents
       (cc_cognition C) \<lparr>pk_requirements = ps, pk_failure = default_failure D\<rparr>"
    and C1: "C1 = C\<lparr>cc_minter := cc_minter C + 1, cc_spent_activations := spent,
       cc_transactions := emplace (cc_transactions C) (cc_minter C) t,
       cc_by_correlation := emplace (cc_by_correlation C) (im_correlation m) (cc_minter C)\<rparr>"
    by (auto simp: open_transaction_def minter_next_def Let_def split: option.splits prod.splits)
  have "distinct (map rq_identity (derive_requirement_set D snap intents))"
    using merged_derive by (simp add: merged_def)
  moreover have "\<forall>p \<in> set (map prepare (derive_requirement_set D snap intents)). pr_status p = Pending \<and> pr_evidence p = []"
    by (simp add: prepare_def)
  note P = presatisfy_facts [OF ps this]
  moreover have "map identity_of (map prepare (derive_requirement_set D snap intents)) =
      map rq_identity (derive_requirement_set D snap intents)" by simp
  ultimately have "distinct (map identity_of ps)" by (simp add: comp_def)
  then show "distinct (map identity_of (requirements t))" by (simp add: t begin_control_transaction_def)
  show "\<forall>p \<in> set (requirements t). pr_status p = Pending \<or> pr_status p = Satisfied \<and> from_activation p \<and> blocking_bj p"
    using P by (simp add: t begin_control_transaction_def)
  show "cc_spent_activations C \<subseteq> cc_spent_activations C1" using P by (simp add: C1)
qed (use assms in \<open>auto simp: open_transaction_def begin_control_transaction_def minter_next_def Let_def
       split: option.splits prod.splits\<close>)

lemma fresh_id:
  assumes "core_inv C"
  shows "cc_transactions C (cc_minter C) = None" "cc_minter C \<notin> cc_redeliberation_pending C"
proof -
  show n: "cc_transactions C (cc_minter C) = None"
    using core_invD(3) [OF assms] by (metis not_None_eq order.irrefl)
  show "cc_minter C \<notin> cc_redeliberation_pending C"
    using core_inv_late [OF assms] n by blast
qed

text \<open>Adding a transaction under a fresh identity and a fresh key.\<close>

lemma core_inv_insert:
  assumes inv: "core_inv C" and fresh: "cc_by_correlation C k = None" and nowrap: "cc_minter C \<noteq> - 1"
    and t: "ct_id t = cc_minter C" "ct_correlation t = k"
    and upd: "cc_minter C' = cc_minter C + 1" "cc_transactions C' = (cc_transactions C)(cc_minter C \<mapsto> t)"
      "cc_by_correlation C' = (cc_by_correlation C)(k \<mapsto> cc_minter C)"
      "cc_outstanding C' = (cc_outstanding C)(cc_minter C \<mapsto> n)"
      "cc_redeliberation_pending C' = cc_redeliberation_pending C" "cc_resume C' = cc_resume C"
    and ok: "tx_ok (Some n) False t"
  shows "core_inv C'"
proof -
  let ?i = "cc_minter C"
  have lt: "?i < ?i + 1" by (rule word_less_succ [OF nowrap])
  note f = fresh_id [OF inv]
  have T: "ct_id u = j \<and> 0 < j \<and> j < cc_minter C' \<and> cc_by_correlation C' (ct_correlation u) = Some j \<and>
      tx_ok (cc_outstanding C' j) (j \<in> cc_redeliberation_pending C') u"
    if u: "cc_transactions C' j = Some u" for j u
  proof (cases "j = ?i")
    case True
    with u upd have "u = t" by simp
    moreover have "0 < ?i" using inv by (simp add: core_inv_def)
    ultimately show ?thesis using True t upd ok lt f by simp
  next
    case False
    with u upd have uc: "cc_transactions C j = Some u" by simp
    note U = core_invD [OF inv uc]
    have "ct_correlation u \<noteq> k" using U(4) fresh by auto
    then show ?thesis using U False upd lt by auto
  qed
  have K: "\<exists>u. cc_transactions C' j = Some u \<and> ct_correlation u = k'" if k: "cc_by_correlation C' k' = Some j" for k' j
  proof (cases "k' = k")
    case True
    with k upd t show ?thesis by auto
  next
    case False
    with k upd have "cc_by_correlation C k' = Some j" by simp
    then obtain u where u: "cc_transactions C j = Some u" "ct_correlation u = k'" by (rule core_inv_key [OF inv])
    then have "j \<noteq> ?i" using f by auto
    with u upd show ?thesis by auto
  qed
  have M: "0 < cc_minter C'" unfolding upd(1) using lt by (rule le_less_trans [OF word_zero_le])
  have R: "cc_redeliberation_pending C' \<subseteq> dom (cc_transactions C')"
    using inv upd by (auto simp: core_inv_def)
  have S: "dom (cc_resume C') \<subseteq> cc_redeliberation_pending C'" using inv upd by (simp add: core_inv_def)
  show ?thesis
    unfolding core_inv_def
    by (intro conjI allI impI M R S) (use T K in blast)+
qed

lemma emplace_present [simp]: "emplace (m(k \<mapsto> v)) k w = m(k \<mapsto> v)"
  by (simp add: emplace_def)

text \<open>The new transaction as it is stored after dispatch.\<close>

lemma proposal_new:
  assumes inv: "core_inv C" and fresh: "cc_by_correlation C (im_correlation m) = None"
    and h: "handle_proposal F D now m (C, x, r) = Some (C', x', r')"
  obtains t C1 ps n u where "open_transaction F D now m C = Some (t, C1)"
    "dispatch_loop (cc_registry C) (cc_cognition C) t x 0 (requirements t) = (ps, x', n)"
    "u = (let C2 = C1\<lparr>cc_outstanding := (cc_outstanding C)(cc_minter C \<mapsto> n)\<rparr> in
            if n = 0 then reevaluate_after_reports D C2 (set_requirements ps t) else set_requirements ps t)"
    "C' = C1\<lparr>cc_outstanding := (cc_outstanding C)(cc_minter C \<mapsto> n),
             cc_transactions := (cc_transactions C)(cc_minter C \<mapsto> u)\<rparr>"
    "r' = r"
proof -
  obtain t C1 where o: "open_transaction F D now m C = Some (t, C1)"
    using h fresh by (auto simp: handle_proposal_def split: option.splits)
  note O = open_transaction_facts [OF o]
  have tr: "cc_transactions C1 = (cc_transactions C)(cc_minter C \<mapsto> t)"
    using O(8) fresh_id [OF inv] by (simp add: emplace_def)
  obtain ps x1 n where l: "dispatch_loop (cc_registry C) (cc_cognition C) t x 0 (requirements t) = (ps, x1, n)"
    by (metis prod_cases3)
  let ?C2 = "C1\<lparr>cc_outstanding := (cc_outstanding C)(cc_minter C \<mapsto> n)\<rparr>"
  have d: "dispatch_resolvers C1 x t = (set_requirements ps t, ?C2, x1)"
    using l O by (simp add: dispatch_resolvers_def)
  let ?u = "if n = 0 then reevaluate_after_reports D ?C2 (set_requirements ps t) else set_requirements ps t"
  have "Some (C', x', r') = Some (store_transaction (cc_minter C) ?u ?C2, x1, r)"
    unfolding h [symmetric] using fresh o d O(1) tr by (simp add: handle_proposal_def Let_def)
  then have "x' = x1" "r' = r"
    "C' = C1\<lparr>cc_outstanding := (cc_outstanding C)(cc_minter C \<mapsto> n),
       cc_transactions := (cc_transactions C)(cc_minter C \<mapsto> ?u)\<rparr>"
    using tr by (simp_all add: store_transaction_def)
  with o l that show thesis by (simp add: Let_def)
qed

lemma dispatched_ok:
  assumes "\<forall>p \<in> set (requirements t). pr_status p = Pending \<or> pr_status p = Satisfied \<and> from_activation p \<and> blocking_bj p"
    and "dispatch_loop R cog t x 0 (requirements t) = (ps, x', n)" "distinct (map identity_of (requirements t))"
    and "ct_phase t = RequirementsDerived" "n \<noteq> 0"
  shows "tx_ok (Some n) False (set_requirements ps t)"
proof -
  note L = dispatch_loop_facts [OF assms(2)]
  have "from_activation p'" if "p' \<in> set ps" "pr_status p' = Satisfied" for p'
    using L assms(1) that by (force simp: from_activation_def)
  then show ?thesis using L assms(3-5) by (simp add: tx_ok_def)
qed

lemma handle_proposal_inv:
  assumes D: "draft_laws D" and inv: "core_inv C" and nowrap: "cc_minter C \<noteq> - 1"
    and h: "handle_proposal F D now m (C, x, r) = Some (C', x', r')"
  shows "core_inv C'"
proof (cases "cc_by_correlation C (im_correlation m)")
  case (Some i)
  then have "C' = C \<or> (\<exists>f. C' = C\<lparr>cc_integrity_failures := f\<rparr>)"
    using h by (auto simp: handle_proposal_def handle_known_key_def split: option.splits if_splits)
  then show ?thesis using inv unfolding core_inv_def by (elim disjE exE) simp_all
next
  case None
  show ?thesis
  proof (rule proposal_new [OF inv None h])
    fix t C1 ps n u
    assume o: "open_transaction F D now m C = Some (t, C1)"
      and l: "dispatch_loop (cc_registry C) (cc_cognition C) t x 0 (requirements t) = (ps, x', n)"
      and u: "u = (let C2 = C1\<lparr>cc_outstanding := (cc_outstanding C)(cc_minter C \<mapsto> n)\<rparr> in
            if n = 0 then reevaluate_after_reports D C2 (set_requirements ps t) else set_requirements ps t)"
      and C': "C' = C1\<lparr>cc_outstanding := (cc_outstanding C)(cc_minter C \<mapsto> n),
             cc_transactions := (cc_transactions C)(cc_minter C \<mapsto> u)\<rparr>"
    note O = open_transaction_facts [OF o]
    let ?C2 = "C1\<lparr>cc_outstanding := (cc_outstanding C)(cc_minter C \<mapsto> n)\<rparr>"
    have ok: "tx_ok (Some n) False u"
    proof (cases "n = 0")
      case False
      with dispatched_ok [OF O(6) l O(5) O(4)] u show ?thesis by simp
    next
      case True
      have "tx_ok (Some 1) False (set_requirements ps t)"
        using dispatch_loop_facts [OF l] O(4-6)
        by (force simp: tx_ok_def from_activation_def)
      moreover have "ct_id (set_requirements ps t) \<notin> cc_redeliberation_pending ?C2"
        using O(1,11) fresh_id(2) [OF inv] by simp
      ultimately have "tx_ok (Some 0) False (reevaluate_after_reports D ?C2 (set_requirements ps t))"
        using tx_ok_reevaluate [OF D, of 1 "set_requirements ps t" ?C2] by simp
      with True u show ?thesis by (simp add: Let_def)
    qed
    have "ct_id u = cc_minter C" "ct_correlation u = im_correlation m"
      using O(1,2) u by (auto simp: Let_def)
    then show "core_inv C'"
      using O None by (intro core_inv_insert [OF inv None nowrap _ _ _ _ _ _ _ _ ok]) (simp_all add: C' emplace_def)
  qed
qed

section \<open>Runs of the core\<close>

text \<open>
  One step handles one message, whatever it contains and whoever produced it, with any executor
  and any clock.  The premise on the minter excludes the wrap-around of transaction identities
  after $2^{64} - 1$ proposals.
\<close>

inductive core_step :: "foundation \<Rightarrow> draft \<Rightarrow> control_core \<Rightarrow> control_core \<Rightarrow> bool" for F D where
  core_stepI:
    "cc_minter C \<noteq> - 1 \<Longrightarrow> handle_message F D now m (C, x, r) = Some (C', x', r') \<Longrightarrow> core_step F D C C'"

inductive core_reach :: "foundation \<Rightarrow> draft \<Rightarrow> control_core \<Rightarrow> bool" for F D where
  core_reach_init: "core_reach F D (core_init 1 reg cognition facts)"
| core_reach_step: "core_reach F D C \<Longrightarrow> core_step F D C C' \<Longrightarrow> core_reach F D C'"

inductive_cases core_stepE: "core_step F D C C'"

lemma core_step_inv:
  assumes "draft_laws D" "core_inv C" "core_step F D C C'"
  shows "core_inv C'"
  using assms(3)
proof (cases rule: core_step.cases)
  case (core_stepI now m x r x' r')
  then show ?thesis
    using handle_proposal_inv [OF assms(1,2), of F now m x r C' x' r']
      handle_evidence_inv [OF assms(1,2), of now m r C' r'] handle_failure_inv [OF assms(1,2), of m r C' r']
    by (auto simp: handle_message_def split: message_kind.splits prod.splits)
qed

lemma core_reach_inv:
  assumes "draft_laws D"
  shows "core_reach F D C \<Longrightarrow> core_inv C"
proof (induction rule: core_reach.induct)
  case (core_reach_init reg cognition facts)
  show ?case by (simp add: core_inv_def core_init_def)
next
  case (core_reach_step C C')
  then show ?case using core_step_inv [OF assms] by blast
qed

section \<open>How a transaction evolves\<close>

definition verdict_kept :: "prepared_requirement \<Rightarrow> prepared_requirement \<Rightarrow> bool" where
  "verdict_kept p p' \<longleftrightarrow> identity_of p' = identity_of p \<and> (pr_status p \<noteq> Pending \<longrightarrow> p' = p)"

text \<open>
  The exact action, its key and its identity stay, a settled phase stays, and a requirement
  with a verdict stays as it is.
\<close>

definition evolves :: "control_transaction \<Rightarrow> control_transaction \<Rightarrow> bool" where
  "evolves t t' \<longleftrightarrow>
     ct_id t' = ct_id t \<and> ct_action t' = ct_action t \<and> ct_correlation t' = ct_correlation t \<and>
     (ct_phase t \<noteq> RequirementsDerived \<longrightarrow> ct_phase t' = ct_phase t) \<and>
     list_all2 verdict_kept (requirements t) (requirements t')"

lemma list_all2_update_first:
  assumes "find P xs = Some x" "R x y" "\<And>z. R z z"
  shows "list_all2 R xs (update_first P (\<lambda>_. y) xs)"
  using assms(1)
proof (induction xs)
  case (Cons z zs)
  show ?case
  proof (cases "P z")
    case True
    then show ?thesis using Cons.prems assms(2,3) by (simp add: list_all2_refl)
  next
    case False
    then show ?thesis using Cons assms(3) by simp
  qed
qed simp

lemma evolves_refl: "evolves t t"
  by (simp add: evolves_def verdict_kept_def list_all2_refl)

lemma evolves_verdict:
  assumes "find P (requirements t) = Some p" "pr_status p = Pending" "identity_of p' = identity_of p"
  shows "evolves t (set_requirements (update_first P (\<lambda>_. p') (requirements t)) t)"
  using list_all2_update_first [OF assms(1), of verdict_kept p'] assms(2,3)
  by (simp add: evolves_def verdict_kept_def)

lemma evolves_reevaluate:
  "evolves t u \<Longrightarrow> ct_phase t = RequirementsDerived \<Longrightarrow> evolves t (reevaluate_after_reports D C u)"
  by (simp add: evolves_def)

text \<open>Every transaction of \<open>C\<close> is one of \<open>C'\<close>, evolved.\<close>

definition core_evolves :: "control_core \<Rightarrow> control_core \<Rightarrow> bool" where
  "core_evolves C C' \<longleftrightarrow>
     (\<forall>i t. cc_transactions C i = Some t \<longrightarrow> (\<exists>t'. cc_transactions C' i = Some t' \<and> evolves t t')) \<and>
     (\<forall>k i. cc_by_correlation C k = Some i \<longrightarrow> cc_by_correlation C' k = Some i) \<and>
     cc_spent_activations C \<subseteq> cc_spent_activations C'"

lemma core_evolves_refl: "core_evolves C C"
  using evolves_refl by (auto simp: core_evolves_def)

lemma report_received_evolves:
  assumes inv: "core_inv C" and t: "cc_transactions C i = Some t" and e: "evolves t t'"
    and same: "cc_transactions C1 = cc_transactions C" "cc_outstanding C1 = cc_outstanding C"
      "cc_by_correlation C1 = cc_by_correlation C" "cc_spent_activations C1 = cc_spent_activations C"
  shows "core_evolves C (report_received D i t' C1)"
proof -
  note T = core_invD [OF inv t]
  have id': "ct_id t' = i" using e T(1) by (simp add: evolves_def)
  obtain n where n: "cc_outstanding C i = Some n" "n \<noteq> 0 \<Longrightarrow> ct_phase t = RequirementsDerived"
    using T(5) by (auto simp: tx_ok_def split: option.splits if_splits)
  obtain u where u: "cc_transactions (report_received D i t' C1) = (cc_transactions C)(i \<mapsto> u)" "evolves t u"
  proof (cases "0 < n")
    case False
    with n id' same have "cc_transactions (report_received D i t' C1) = (cc_transactions C)(i \<mapsto> t')"
      by (simp add: report_received_def store_transaction_def)
    with e that show thesis by blast
  next
    case True
    let ?C2 = "C1\<lparr>cc_outstanding := (cc_outstanding C1)(i \<mapsto> n - 1)\<rparr>"
    let ?u = "if n - 1 = 0 then reevaluate_after_reports D ?C2 t' else t'"
    have "cc_transactions (report_received D i t' C1) = (cc_transactions C)(i \<mapsto> ?u)"
      using True n id' same by (simp add: report_received_def store_transaction_def Let_def)
    moreover have "evolves t ?u" using e n(2) True evolves_reevaluate by (simp add: word_greater_zero_iff)
    ultimately show thesis using that by blast
  qed
  have "cc_by_correlation (report_received D i t' C1) = cc_by_correlation C"
    "cc_spent_activations (report_received D i t' C1) = cc_spent_activations C"
    using same by (auto simp: report_received_def store_transaction_def Let_def split: option.splits)
  then show ?thesis
    using u t evolves_refl by (auto simp: core_evolves_def)
qed

lemma handle_evidence_evolves:
  assumes inv: "core_inv C" and h: "handle_evidence D now m C r = (C', r')"
  shows "core_evolves C C'"
proof (cases "cc_transactions C (im_transaction m)")
  case None
  with h core_evolves_refl show ?thesis by (simp add: handle_evidence_def)
next
  case (Some t)
  let ?hit = "\<lambda>p. identity_of p = im_requirement m"
  show ?thesis
  proof (cases "find ?hit (requirements t)")
    case None
    with h Some core_evolves_refl show ?thesis by (simp add: handle_evidence_def)
  next
    case p: (Some p)
    show ?thesis
    proof (cases "pr_status p = Pending")
      case False
      with h Some p core_evolves_refl show ?thesis by (simp add: handle_evidence_def)
    next
      case True
      have E: "evolves t (set_requirements (update_first ?hit (\<lambda>_. p') (requirements t)) t)"
        if "identity_of p' = identity_of p" for p'
        by (rule evolves_verdict [OF p True that])
      show ?thesis
        using h Some p True
        by (auto simp: handle_evidence_def Let_def split: if_splits
            intro!: report_received_evolves [OF inv Some] E)
    qed
  qed
qed

lemma handle_failure_evolves:
  assumes inv: "core_inv C" and h: "handle_failure D m C r = (C', r')"
  shows "core_evolves C C'"
proof (cases "cc_transactions C (im_transaction m)")
  case None
  with h core_evolves_refl show ?thesis by (simp add: handle_failure_def)
next
  case (Some t)
  let ?hit = "\<lambda>p. identity_of p = im_requirement m"
  show ?thesis
  proof (cases "find ?hit (requirements t)")
    case None
    with h Some show ?thesis
      by (auto simp: handle_failure_def intro!: report_received_evolves [OF inv Some] evolves_refl)
  next
    case p: (Some p)
    show ?thesis
    proof (cases "pr_status p = Pending")
      case False
      with h Some p core_evolves_refl show ?thesis by (simp add: handle_failure_def)
    next
      case True
      have "evolves t (set_requirements (update_first ?hit (\<lambda>_. p\<lparr>pr_status := Failed\<rparr>) (requirements t)) t)"
        by (rule evolves_verdict [OF p True]) (simp add: identity_of_def)
      with h Some p True show ?thesis
        by (auto simp: handle_failure_def Let_def intro!: report_received_evolves [OF inv Some])
    qed
  qed
qed

lemma handle_proposal_evolves:
  assumes inv: "core_inv C" and h: "handle_proposal F D now m (C, x, r) = Some (C', x', r')"
  shows "core_evolves C C'"
proof (cases "cc_by_correlation C (im_correlation m)")
  case (Some i)
  then have "cc_transactions C' = cc_transactions C" "cc_by_correlation C' = cc_by_correlation C"
    "cc_spent_activations C' = cc_spent_activations C"
    using h by (auto simp: handle_proposal_def handle_known_key_def split: option.splits if_splits)
  then show ?thesis using evolves_refl by (auto simp: core_evolves_def)
next
  case None
  show ?thesis
  proof (rule proposal_new [OF inv None h])
    fix t C1 ps n u
    assume o: "open_transaction F D now m C = Some (t, C1)"
      and C': "C' = C1\<lparr>cc_outstanding := (cc_outstanding C)(cc_minter C \<mapsto> n),
             cc_transactions := (cc_transactions C)(cc_minter C \<mapsto> u)\<rparr>"
    note O = open_transaction_facts [OF o]
    have "\<exists>t'. cc_transactions C' j = Some t' \<and> evolves v t'" if "cc_transactions C j = Some v" for j v
      using that fresh_id(1) [OF inv] evolves_refl by (auto simp: C')
    moreover have "cc_by_correlation C' k = Some j" if "cc_by_correlation C k = Some j" for k j
      using that None O(9) by (auto simp: C' emplace_def)
    ultimately show "core_evolves C C'" using O(15) by (simp add: core_evolves_def C')
  qed
qed

lemma core_step_evolves:
  assumes "core_inv C" "core_step F D C C'"
  shows "core_evolves C C'"
  using assms(2)
proof (cases rule: core_step.cases)
  case (core_stepI now m x r x' r')
  then show ?thesis
    using handle_proposal_evolves [OF assms(1), of F D now m x r C' x' r']
      handle_evidence_evolves [OF assms(1), of D now m r C' r'] handle_failure_evolves [OF assms(1), of D m r C' r']
    by (auto simp: handle_message_def split: message_kind.splits prod.splits)
qed

end
