(* ===== verification/Core_Runs.thy ===== *)
theory Core_Runs
  imports Core_Invariant
begin

text \<open>
  Runs of the control core together with the messages they handled.  \<open>core_run F D hist C\<close>: the
  core \<open>C\<close> is reached from an initial one by handling exactly the messages of \<open>hist\<close>, each with
  the wall clock of its handling.  The history makes statable where a transaction comes from and
  which activation, presented with its proposal, stands behind a requirement.
\<close>

section \<open>Runs with their history\<close>

inductive core_run :: "foundation \<Rightarrow> draft \<Rightarrow> (u64 \<times> ingress_message) list \<Rightarrow> control_core \<Rightarrow> bool" for F D where
  core_run_init: "core_run F D [] (core_init 1 reg cognition facts)"
| core_run_step:
    "core_run F D hist C \<Longrightarrow> cc_minter C \<noteq> - 1 \<Longrightarrow>
     handle_message F D now m (C, x, r) = Some (C', x', r') \<Longrightarrow> core_run F D (hist @ [(now, m)]) C'"

lemma core_run_reach: "core_run F D hist C \<Longrightarrow> core_reach F D C"
proof (induction rule: core_run.induct)
  case (core_run_step hist C now m x r C' x' r')
  show ?case
    by (rule core_reach_step [OF core_run_step.IH core_stepI [OF core_run_step.hyps(2,3)]])
qed (rule core_reach_init)

lemma core_reach_run: "core_reach F D C \<Longrightarrow> \<exists>hist. core_run F D hist C"
proof (induction rule: core_reach.induct)
  case (core_reach_init reg cognition facts)
  show ?case by (blast intro: core_run_init)
next
  case (core_reach_step C C')
  then show ?case by (blast elim: core_stepE intro: core_run_step)
qed

section \<open>What a step keeps of a transaction\<close>

text \<open>
  A step never takes a transaction off the late ones and never changes the cognition it was
  opened with, and unless it makes the transaction late it satisfies no blocking BeforeJudgment
  requirement of it.
\<close>

definition steady :: "control_core \<Rightarrow> control_core \<Rightarrow> bool" where
  "steady C C' \<longleftrightarrow>
     cc_redeliberation_pending C \<subseteq> cc_redeliberation_pending C' \<and> cc_cognition C' = cc_cognition C \<and>
     (\<forall>i t t'. cc_transactions C i = Some t \<longrightarrow> cc_transactions C' i = Some t' \<longrightarrow>
        ct_cognition t' = ct_cognition t \<and>
        (i \<notin> cc_redeliberation_pending C' \<longrightarrow>
           (\<forall>p \<in> set (requirements t'). blocking_bj p \<and> pr_status p = Satisfied \<longrightarrow> p \<in> set (requirements t))))"

lemma steady_same:
  assumes "cc_transactions C' = cc_transactions C" "cc_redeliberation_pending C' = cc_redeliberation_pending C"
    "cc_cognition C' = cc_cognition C"
  shows "steady C C'"
  using assms by (simp add: steady_def)

lemma reevaluate_cognition [simp]: "ct_cognition (reevaluate_after_reports D C t) = ct_cognition t"
  by (simp add: reevaluate_after_reports_def evaluate_before_judgment_def evaluate_before_execution_def Let_def)

lemma report_received_keeps:
  "cc_redeliberation_pending (report_received D i t C) = cc_redeliberation_pending C"
  "cc_cognition (report_received D i t C) = cc_cognition C"
  by (auto simp: report_received_def store_transaction_def Let_def split: option.splits)

lemma report_received_transaction:
  assumes "cc_transactions (report_received D i t C) j = Some u"
  shows "j \<noteq> i \<and> cc_transactions C j = Some u \<or>
     j = i \<and> requirements u = requirements t \<and> ct_cognition u = ct_cognition t"
  using assms
  by (auto simp: report_received_def store_transaction_def Let_def split: option.splits if_splits)

text \<open>A report with a verdict \<open>p'\<close> on the pending requirement \<open>p\<close> is steady.\<close>

lemma report_steady:
  assumes t: "cc_transactions C i = Some t" and p: "find P (requirements t) = Some p"
    and C1: "cc_transactions C1 = cc_transactions C" "cc_cognition C1 = cc_cognition C"
      "cc_redeliberation_pending C \<subseteq> cc_redeliberation_pending C1"
    and late: "blocking_bj p' \<Longrightarrow> pr_status p' = Satisfied \<Longrightarrow> i \<in> cc_redeliberation_pending C1"
  shows "steady C (report_received D i (set_requirements (update_first P (\<lambda>_. p') (requirements t)) t) C1)"
proof -
  let ?ps = "update_first P (\<lambda>_. p') (requirements t)"
  let ?C' = "report_received D i (set_requirements ?ps t) C1"
  have "ct_cognition u = ct_cognition v \<and>
      (j \<notin> cc_redeliberation_pending ?C' \<longrightarrow>
         (\<forall>q \<in> set (requirements u). blocking_bj q \<and> pr_status q = Satisfied \<longrightarrow> q \<in> set (requirements v)))"
    if v: "cc_transactions C j = Some v" and u: "cc_transactions ?C' j = Some u" for j u v
  proof (cases "j = i")
    case False
    then have "u = v" using report_received_transaction [OF u] C1(1) v by auto
    then show ?thesis by simp
  next
    case True
    then have u': "requirements u = ?ps" "ct_cognition u = ct_cognition t" and "v = t"
      using report_received_transaction [OF u] v t by auto
    moreover have "q \<in> set (requirements t)"
      if "j \<notin> cc_redeliberation_pending ?C'" "q \<in> set ?ps" "blocking_bj q" "pr_status q = Satisfied" for q
      using that late True set_update_first [of P p' "requirements t"] by (auto simp: report_received_keeps)
    ultimately show ?thesis by auto
  qed
  then show ?thesis using C1(2,3) by (simp add: steady_def report_received_keeps)
qed

lemma handle_evidence_steady:
  assumes inv: "core_inv C" and h: "handle_evidence D now m C r = (C', r')"
  shows "steady C C'"
proof (cases "C' = C")
  case True
  then show ?thesis by (simp add: steady_same)
next
  case False
  then obtain t p where t: "cc_transactions C (im_transaction m) = Some t"
    and p: "find (\<lambda>p. identity_of p = im_requirement m) (requirements t) = Some p" "pr_status p = Pending"
    using h by (auto simp: handle_evidence_def Let_def split: option.splits if_splits)
  have i: "ct_id t = im_transaction m" by (rule core_invD(1) [OF inv t])
  show ?thesis
  proof (cases "receipt_verdict now m t p C = Rej_None")
    case True
    then show ?thesis
      using h t p by (auto simp: handle_evidence_def Let_def blocking_bj_def i intro!: report_steady [OF t p(1)])
  next
    case rejected: False
    then show ?thesis
      using h t p by (auto simp: handle_evidence_def Let_def intro!: report_steady [OF t p(1)])
  qed
qed

lemma handle_failure_steady:
  assumes h: "handle_failure D m C r = (C', r')"
  shows "steady C C'"
proof (cases "cc_transactions C (im_transaction m)")
  case None
  with h show ?thesis by (simp add: handle_failure_def steady_same)
next
  case (Some t)
  show ?thesis
  proof (cases "find (\<lambda>p. identity_of p = im_requirement m) (requirements t)")
    case None
    then have C': "C' = report_received D (im_transaction m) t C" using h Some by (simp add: handle_failure_def)
    show ?thesis
      using Some by (auto simp: C' steady_def report_received_keeps dest!: report_received_transaction)
  next
    case p: (Some p)
    with h Some show ?thesis
      by (auto simp: handle_failure_def Let_def steady_same intro!: report_steady [OF Some p] split: if_splits)
  qed
qed

section \<open>Where a transaction comes from\<close>

text \<open>
  One of the presented activations is valid for the requirement under the cognition, the
  generation and the clock, it is spent, and the requirement's only evidence names it.
\<close>

definition backed_by ::
    "foundation \<Rightarrow> pinned_cognition \<Rightarrow> generation_id \<Rightarrow> u64 \<Rightarrow> activation_receipt list \<Rightarrow> u64 set
     \<Rightarrow> prepared_requirement \<Rightarrow> bool" where
  "backed_by F cog gen now activations spent p \<longleftrightarrow>
     (\<exists>a \<in> set activations. pr_evidence p = [''activation:'' @ to_string_u64 (ar_injection_event a)] \<and>
        activation_valid_for a (identity_of p) (pc_revision cog) (pc_snapshot_digest_sha256 cog) gen
          (pc_policy_digest cog) now \<and>
        activation_use_identity F a \<in> spent)"

lemma backed_by_mono: "backed_by F cog gen now as spent p \<Longrightarrow> spent \<subseteq> spent' \<Longrightarrow> backed_by F cog gen now as spent' p"
  unfolding backed_by_def by blast

lemma presatisfy_one_backed:
  assumes "presatisfy_one F cog gen now as spent p = (p', spent')" "pr_status p = Pending" "pr_evidence p = []"
    and "pr_status p' = Satisfied"
  shows "backed_by F cog gen now as spent' p'"
  using assms find_mem
  by (fastforce simp: presatisfy_one_def backed_by_def usable_activation_def split: if_splits option.splits)

lemma presatisfy_backed:
  "presatisfy F cog gen now as spent ps = (ps', spent') \<Longrightarrow>
   \<forall>p \<in> set ps. pr_status p = Pending \<and> pr_evidence p = [] \<Longrightarrow>
     \<forall>p' \<in> set ps'. pr_status p' = Satisfied \<longrightarrow> backed_by F cog gen now as spent' p'"
proof (induction ps arbitrary: spent ps' spent')
  case (Cons p ps)
  obtain q s1 where q: "presatisfy_one F cog gen now as spent p = (q, s1)" by fastforce
  obtain qs s2 where qs: "presatisfy F cog gen now as s1 ps = (qs, s2)" by fastforce
  have e: "ps' = q # qs" "spent' = s2" using Cons.prems(1) q qs by auto
  have ps: "\<forall>p \<in> set ps. pr_status p = Pending \<and> pr_evidence p = []" using Cons.prems(2) by simp
  have "backed_by F cog gen now as s2 q" if "pr_status q = Satisfied"
    using presatisfy_one_backed [OF q _ _ that] Cons.prems(2) presatisfy_facts [OF qs ps]
    by (auto intro: backed_by_mono)
  then show ?case using Cons.IH [OF qs ps] by (simp add: e)
qed simp

lemma open_transaction_backed:
  assumes "open_transaction F D now m C = Some (t, C1)"
  shows "ct_cognition t = cc_cognition C"
    and "\<forall>p \<in> set (requirements t). pr_status p = Satisfied \<longrightarrow>
       backed_by F (cc_cognition C) (ck_generation (im_correlation m)) now (im_activation_receipts m)
         (cc_spent_activations C1) p"
proof -
  from assms obtain snap intents ps spent where
    ps: "presatisfy F (cc_cognition C) (ck_generation (im_correlation m)) now (im_activation_receipts m)
       (cc_spent_activations C) (map prepare (derive_requirement_set D snap intents)) = (ps, spent)"
    and t: "requirements t = ps" "ct_cognition t = cc_cognition C" "cc_spent_activations C1 = spent"
    by (auto simp: open_transaction_def begin_control_transaction_def minter_next_def Let_def
        split: option.splits prod.splits)
  show "ct_cognition t = cc_cognition C" by (rule t(2))
  have "\<forall>p \<in> set (map prepare (derive_requirement_set D snap intents)). pr_status p = Pending \<and> pr_evidence p = []"
    by (simp add: prepare_def)
  from presatisfy_backed [OF ps this]
  show "\<forall>p \<in> set (requirements t). pr_status p = Satisfied \<longrightarrow>
       backed_by F (cc_cognition C) (ck_generation (im_correlation m)) now (im_activation_receipts m)
         (cc_spent_activations C1) p"
    by (simp add: t)
qed

text \<open>
  The transaction was opened by a proposal of the history, and unless a requirement of it was
  satisfied in flight, each satisfied blocking BeforeJudgment requirement is backed by an
  activation presented with that proposal.
\<close>

definition opened_by ::
    "foundation \<Rightarrow> (u64 \<times> ingress_message) list \<Rightarrow> control_core \<Rightarrow> transaction_id \<Rightarrow> control_transaction \<Rightarrow> bool" where
  "opened_by F hist C i t \<longleftrightarrow>
     (\<exists>(now, m) \<in> set hist. im_kind m = Proposal \<and> im_correlation m = ct_correlation t \<and> im_action m = ct_action t \<and>
        (i \<notin> cc_redeliberation_pending C \<longrightarrow>
           (\<forall>p \<in> set (requirements t). blocking_bj p \<and> pr_status p = Satisfied \<longrightarrow>
              backed_by F (ct_cognition t) (ck_generation (ct_correlation t)) now (im_activation_receipts m)
                (cc_spent_activations C) p)))"

lemma opened_by_kept:
  assumes o: "opened_by F hist C i t" and e: "evolves t t'" "cc_spent_activations C \<subseteq> cc_spent_activations C'"
    and s: "steady C C'" and t: "cc_transactions C i = Some t" "cc_transactions C' i = Some t'"
  shows "opened_by F (hist @ h) C' i t'"
proof -
  obtain now m where m: "(now, m) \<in> set hist" "im_kind m = Proposal" "im_correlation m = ct_correlation t"
      "im_action m = ct_action t"
    and b: "i \<notin> cc_redeliberation_pending C \<Longrightarrow> p \<in> set (requirements t) \<Longrightarrow> blocking_bj p \<Longrightarrow> pr_status p = Satisfied \<Longrightarrow>
      backed_by F (ct_cognition t) (ck_generation (ct_correlation t)) now (im_activation_receipts m) (cc_spent_activations C) p" for p
    using o unfolding opened_by_def by blast
  have k: "ct_correlation t' = ct_correlation t" "ct_action t' = ct_action t" using e(1) by (simp_all add: evolves_def)
  have c: "ct_cognition t' = ct_cognition t" and late: "i \<notin> cc_redeliberation_pending C' \<Longrightarrow> i \<notin> cc_redeliberation_pending C"
    and old: "i \<notin> cc_redeliberation_pending C' \<Longrightarrow> p \<in> set (requirements t') \<Longrightarrow> blocking_bj p \<Longrightarrow> pr_status p = Satisfied \<Longrightarrow>
      p \<in> set (requirements t)" for p
    using s t unfolding steady_def by blast+
  have "backed_by F (ct_cognition t') (ck_generation (ct_correlation t')) now (im_activation_receipts m) (cc_spent_activations C') p"
    if "i \<notin> cc_redeliberation_pending C'" "p \<in> set (requirements t')" "blocking_bj p" "pr_status p = Satisfied" for p
    unfolding c k using backed_by_mono [OF b [OF late old] e(2)] that by blast
  then show ?thesis using m k unfolding opened_by_def by fastforce
qed

lemma handle_proposal_opens:
  assumes inv: "core_inv C" and fresh: "cc_by_correlation C (im_correlation m) = None" and kind: "im_kind m = Proposal"
    and h: "handle_proposal F D now m (C, x, r) = Some (C', x', r')"
  shows "steady C C' \<and> cc_by_correlation C' (im_correlation m) = Some (cc_minter C) \<and>
     (\<forall>j. j \<noteq> cc_minter C \<longrightarrow> cc_transactions C' j = cc_transactions C j) \<and>
     (\<exists>u. cc_transactions C' (cc_minter C) = Some u \<and> ct_cognition u = cc_cognition C \<and>
        opened_by F (hist @ [(now, m)]) C' (cc_minter C) u)"
proof (rule proposal_new [OF inv fresh h])
  fix t C1 ps n u
  assume o: "open_transaction F D now m C = Some (t, C1)"
    and l: "dispatch_loop (cc_registry C) (cc_cognition C) t x 0 (requirements t) = (ps, x', n)"
    and u: "u = (let C2 = C1\<lparr>cc_outstanding := (cc_outstanding C)(cc_minter C \<mapsto> n)\<rparr> in
          if n = 0 then reevaluate_after_reports D C2 (set_requirements ps t) else set_requirements ps t)"
    and C': "C' = C1\<lparr>cc_outstanding := (cc_outstanding C)(cc_minter C \<mapsto> n),
           cc_transactions := (cc_transactions C)(cc_minter C \<mapsto> u)\<rparr>"
  note O = open_transaction_facts [OF o] and B = open_transaction_backed [OF o]
  have u': "requirements u = ps" "ct_cognition u = cc_cognition C" "ct_correlation u = im_correlation m" "ct_action u = im_action m"
    using u B(1) O(2,3) by (simp_all add: Let_def)
  have "backed_by F (cc_cognition C) (ck_generation (im_correlation m)) now (im_activation_receipts m) (cc_spent_activations C') p"
    if p: "p \<in> set ps" "pr_status p = Satisfied" for p
  proof -
    obtain q where "q \<in> set (requirements t)" "p = q \<or> p = q\<lparr>pr_status := Failed\<rparr>"
      using dispatch_loop_facts [OF l] p(1) by blast
    with p(2) B(2) show ?thesis by (auto simp: C')
  qed
  then have "opened_by F (hist @ [(now, m)]) C' (cc_minter C) u"
    using kind u' by (fastforce simp: opened_by_def)
  moreover have "steady C C'"
    using O(11,14) fresh_id(1) [OF inv] by (auto simp: C' steady_def)
  ultimately show ?thesis using u'(2) fresh O(9) by (simp add: C' emplace_def)
qed

lemma report_opens_nothing:
  assumes "im_kind m \<noteq> Proposal" "handle_message F D now m (C, x, r) = Some (C', x', r')" "cc_transactions C' i = Some t'"
  shows "\<exists>t. cc_transactions C i = Some t"
proof (cases "im_kind m")
  case EvidenceDelivery
  then show ?thesis using assms(2,3)
    by (auto simp: handle_message_def handle_evidence_def Let_def split: prod.splits option.splits if_splits
        dest!: report_received_transaction)
next
  case ResolutionFailure
  then show ?thesis using assms(2,3)
    by (auto simp: handle_message_def handle_failure_def Let_def split: prod.splits option.splits if_splits
        dest!: report_received_transaction)
qed (use assms(1) in simp)

lemma handle_message_traced:
  assumes inv: "core_inv C" and h: "handle_message F D now m (C, x, r) = Some (C', x', r')"
    and old: "\<And>i t. cc_transactions C i = Some t \<Longrightarrow> opened_by F hist C i t \<and> ct_cognition t = cc_cognition C"
    and min: "cc_minter C \<noteq> - 1"
  shows "steady C C' \<and> core_evolves C C' \<and> (im_kind m = Proposal \<longrightarrow> cc_by_correlation C' (im_correlation m) \<noteq> None) \<and>
     (\<forall>i t'. cc_transactions C' i = Some t' \<longrightarrow> opened_by F (hist @ [(now, m)]) C' i t' \<and> ct_cognition t' = cc_cognition C')"
proof -
  have e: "core_evolves C C'" by (rule core_step_evolves [OF inv core_stepI [OF min h]])
  have kept: "opened_by F (hist @ [(now, m)]) C' i t' \<and> ct_cognition t' = cc_cognition C'"
    if s: "steady C C'" and t: "cc_transactions C i = Some t" "cc_transactions C' i = Some t'" for i t t'
  proof -
    have "evolves t t'" "cc_spent_activations C \<subseteq> cc_spent_activations C'"
      using e t unfolding core_evolves_def by force+
    from opened_by_kept [OF _ this s t] old [OF t(1)] s t show ?thesis unfolding steady_def by metis
  qed
  show ?thesis
  proof (cases "im_kind m = Proposal \<and> cc_by_correlation C (im_correlation m) = None")
    case True
    then have h': "handle_proposal F D now m (C, x, r) = Some (C', x', r')" using h by (simp add: handle_message_def)
    note N = handle_proposal_opens [OF inv conjunct2 [OF True] conjunct1 [OF True] h', of hist]
    have "opened_by F (hist @ [(now, m)]) C' i t' \<and> ct_cognition t' = cc_cognition C'" if "cc_transactions C' i = Some t'" for i t'
    proof (cases "i = cc_minter C")
      case True
      then show ?thesis using N that by (auto simp: steady_def)
    next
      case False
      then have "cc_transactions C i = Some t'" using N that by simp
      then show ?thesis using kept N that by blast
    qed
    then show ?thesis using N e by simp
  next
    case False
    have same: "cc_transactions C' = cc_transactions C \<and> steady C C'" if "im_kind m = Proposal"
      using that h False
      by (auto simp: handle_message_def handle_proposal_def handle_known_key_def intro!: steady_same
          split: option.splits if_splits)
    have s: "steady C C'"
      using h same handle_evidence_steady [OF inv, of D now m r C' r'] handle_failure_steady [of D m C r C' r']
      by (auto simp: handle_message_def split: message_kind.splits prod.splits)
    have "\<exists>t. cc_transactions C i = Some t" if "cc_transactions C' i = Some t'" for i t'
      by (cases "im_kind m = Proposal") (use same report_opens_nothing [OF _ h that] that in auto)
    moreover have "im_kind m = Proposal \<longrightarrow> cc_by_correlation C' (im_correlation m) \<noteq> None"
      using False e unfolding core_evolves_def by (metis option.exhaust)
    ultimately show ?thesis using s e kept by blast
  qed
qed

text \<open>Every transaction of a run has its proposal in the history, and every proposal its transaction.\<close>

lemma core_run_traced:
  assumes "draft_laws D"
  shows "core_run F D hist C \<Longrightarrow>
     (\<forall>i t. cc_transactions C i = Some t \<longrightarrow> opened_by F hist C i t \<and> ct_cognition t = cc_cognition C) \<and>
     (\<forall>(now, m) \<in> set hist. im_kind m = Proposal \<longrightarrow> cc_by_correlation C (im_correlation m) \<noteq> None)"
proof (induction rule: core_run.induct)
  case (core_run_init reg cognition facts)
  show ?case by (simp add: core_init_def)
next
  case (core_run_step hist C now m x r C' x' r')
  have inv: "core_inv C" by (rule core_reach_inv [OF assms core_run_reach [OF core_run_step.hyps(1)]])
  have old: "opened_by F hist C i t \<and> ct_cognition t = cc_cognition C" if "cc_transactions C i = Some t" for i t
    using core_run_step.IH that by blast
  note H = handle_message_traced [OF inv core_run_step.hyps(3) old core_run_step.hyps(2)]
  have "cc_by_correlation C' (im_correlation m') \<noteq> None" if "(now', m') \<in> set hist" "im_kind m' = Proposal" for now' m'
  proof -
    have "cc_by_correlation C (im_correlation m') \<noteq> None" using core_run_step.IH that by blast
    then show ?thesis using H unfolding core_evolves_def by (metis option.exhaust)
  qed
  then show ?case using H by auto
qed

lemma core_run_opened:
  assumes "draft_laws D" "core_run F D hist C" "cc_transactions C i = Some t"
  shows "opened_by F hist C i t" "ct_cognition t = cc_cognition C"
  using core_run_traced [OF assms(1,2)] assms(3) by blast+

lemma core_run_known:
  assumes "draft_laws D" "core_run F D hist C" "(now, m) \<in> set hist" "im_kind m = Proposal"
  obtains i t where "cc_by_correlation C (im_correlation m) = Some i" "cc_transactions C i = Some t"
    "ct_correlation t = im_correlation m"
proof -
  have inv: "core_inv C" by (rule core_reach_inv [OF assms(1) core_run_reach [OF assms(2)]])
  obtain i where i: "cc_by_correlation C (im_correlation m) = Some i"
    using core_run_traced [OF assms(1,2)] assms(3,4) by fastforce
  from core_inv_key [OF inv i] that i show thesis by blast
qed

end
