(* ===== verification/Core_Properties.thy ===== *)
theory Core_Properties
  imports Core_Runs
begin

text \<open>
  The correctness properties of the control core: what an Allow disposition establishes, which
  phases are final, that duplicate proposals are idempotent, that evidence
  satisfies only through the registry, that dispatch and pre-satisfaction are exact, and what a
  drain pass does.
\<close>

section \<open>Runs\<close>

lemma verdict_kept_trans: "verdict_kept p q \<Longrightarrow> verdict_kept q r \<Longrightarrow> verdict_kept p r"
  unfolding verdict_kept_def by metis

lemma evolves_trans: "evolves t u \<Longrightarrow> evolves u v \<Longrightarrow> evolves t v"
  unfolding evolves_def
  using list_all2_trans [of verdict_kept verdict_kept verdict_kept "requirements t" "requirements u" "requirements v"]
    verdict_kept_trans by metis

lemma core_evolves_trans: "core_evolves A B \<Longrightarrow> core_evolves B C \<Longrightarrow> core_evolves A C"
  unfolding core_evolves_def using evolves_trans by (meson order_trans)

lemma run_evolves:
  assumes "draft_laws D" "core_inv C"
  shows "(core_step F D)\<^sup>*\<^sup>* C C' \<Longrightarrow> core_evolves C C' \<and> core_inv C'"
proof (induction rule: rtranclp_induct)
  case base
  show ?case using core_evolves_refl assms(2) by blast
next
  case (step C1 C2)
  then show ?case
    using core_step_evolves core_step_inv [OF assms(1)] core_evolves_trans by blast
qed

section \<open>Allow\<close>

text \<open>
  C1: whatever messages the core has handled, a transaction whose disposition is Allow was opened
  by a proposal of the handled messages with its key and its action; it has no preparation failure,
  every blocking requirement of it is satisfied, and none of its blocking BeforeJudgment
  requirements was satisfied while the proposal was in flight: each of them carries exactly one
  piece of evidence, and it names an activation that was presented with that proposal, was valid
  for that requirement under the pinned cognition and the generation of the key at the clock of the
  proposal, and is spent.
\<close>

theorem allow_is_prepared:
  assumes "draft_laws D" "core_run F D hist C" "tv_disposition (view C i) = Allow"
  shows "\<exists>t now m. transaction C i = Some t \<and> ct_phase t = CognitiveAllowed \<and> pk_failure (ct_packet t) = PF_None \<and>
     i \<notin> cc_redeliberation_pending C \<and> resume_receipts C i = [] \<and>
     (\<forall>p \<in> set (requirements t). pr_blocking p \<longrightarrow> pr_status p = Satisfied) \<and>
     (now, m) \<in> set hist \<and> im_kind m = Proposal \<and> im_correlation m = ct_correlation t \<and> im_action m = ct_action t \<and>
     (\<forall>p \<in> set (requirements t). blocking_bj p \<longrightarrow>
        (\<exists>a \<in> set (im_activation_receipts m).
           pr_evidence p = [''activation:'' @ to_string_u64 (ar_injection_event a)] \<and>
           activation_valid_for a (identity_of p) (pc_revision (cc_cognition C))
             (pc_snapshot_digest_sha256 (cc_cognition C)) (ck_generation (im_correlation m))
             (pc_policy_digest (cc_cognition C)) now \<and>
           activation_use_identity F a \<in> cc_spent_activations C))"
proof -
  have inv: "core_inv C" by (rule core_reach_inv [OF assms(1) core_run_reach [OF assms(2)]])
  obtain t where t: "transaction C i = Some t"
    using assms(3) by (cases "transaction C i") (simp_all add: view_def)
  have "disposition_of_phase (ct_phase t) = Allow"
    using assms(3) t by (simp add: view_def disposition_for_def)
  then have ph: "ct_phase t = CognitiveAllowed"
    by (cases "ct_phase t") simp_all
  note T = core_invD(5) [OF inv t [unfolded transaction_def], unfolded tx_ok_def]
  have late: "i \<notin> cc_redeliberation_pending C" and f: "pk_failure (ct_packet t) = PF_None"
    and sat: "\<forall>p \<in> set (requirements t). pr_blocking p \<longrightarrow> pr_status p = Satisfied"
    using T ph by blast+
  have res: "resume_receipts C i = []"
    using inv late unfolding core_inv_def resume_receipts_def by (auto split: option.splits)
  note o = core_run_opened [OF assms(1,2) t [unfolded transaction_def]]
  obtain now m where m: "(now, m) \<in> set hist" "im_kind m = Proposal" "im_correlation m = ct_correlation t"
      "im_action m = ct_action t"
    and b: "\<forall>p \<in> set (requirements t). blocking_bj p \<and> pr_status p = Satisfied \<longrightarrow>
      backed_by F (cc_cognition C) (ck_generation (im_correlation m)) now (im_activation_receipts m) (cc_spent_activations C) p"
    using o late unfolding opened_by_def by auto
  have "backed_by F (cc_cognition C) (ck_generation (im_correlation m)) now (im_activation_receipts m) (cc_spent_activations C) p"
    if "p \<in> set (requirements t)" "blocking_bj p" for p
    using b sat that by (simp add: blocking_bj_def)
  then show ?thesis
    using t ph f late res sat m unfolding backed_by_def by blast
qed

text \<open>
  C3: Denied, ReDeliberationRequired and CognitiveAllowed are final: a transaction in one of these
  phases has the same phase, and so shows the same disposition, in every later state of the core.
  In any phase it stays under its identity with the same action and correlation key, and no
  requirement that has a verdict ever gets another one.
\<close>

theorem settled_is_final:
  assumes "draft_laws D" "core_reach F D C" "(core_step F D)\<^sup>*\<^sup>* C C'" "transaction C i = Some t"
  shows "\<exists>t'. transaction C' i = Some t' \<and> ct_action t' = ct_action t \<and> ct_correlation t' = ct_correlation t \<and>
     (ct_phase t \<in> {Denied, ReDeliberationRequired, CognitiveAllowed} \<longrightarrow>
        ct_phase t' = ct_phase t \<and> tv_disposition (view C' i) = tv_disposition (view C i)) \<and>
     length (requirements t') = length (requirements t) \<and>
     (\<forall>k < length (requirements t). pr_status (requirements t ! k) \<noteq> Pending \<longrightarrow>
        requirements t' ! k = requirements t ! k)"
proof -
  have "core_evolves C C'" using run_evolves [OF assms(1) core_reach_inv [OF assms(1,2)] assms(3)] by blast
  then obtain t' where t': "transaction C' i = Some t'" "evolves t t'"
    using assms(4) unfolding core_evolves_def transaction_def by blast
  have "ct_phase t \<in> {Denied, ReDeliberationRequired, CognitiveAllowed} \<longrightarrow> ct_phase t' = ct_phase t"
    using t'(2) by (auto simp: evolves_def)
  then show ?thesis
    using t' assms(4) by (auto simp: evolves_def verdict_kept_def list_all2_conv_all_nth view_def disposition_for_def)
qed

text \<open>
  The execution gate itself lets a waiting transaction go on: once the packet is ready the same
  transaction crosses from AwaitingRequirement to CognitiveAllowed.  The core never takes it there:
  a transaction waits only when no report is outstanding, and later evidence is then stored without
  a reevaluation.
\<close>

lemma awaiting_gate_opens:
  assumes "draft_laws D" "ct_phase t = AwaitingRequirement" "ready_for_execution D (ct_packet t)"
  shows "evaluate_before_execution D t = (True, t\<lparr>ct_phase := CognitiveAllowed\<rparr>)"
  using assms draft_laws.execution_no_failure [OF assms(1,3)] by (simp add: evaluate_before_execution_def Let_def)

lemma awaiting_stays:
  assumes "draft_laws D" "core_reach F D C" "(core_step F D)\<^sup>*\<^sup>* C C'" "transaction C i = Some t"
    and "ct_phase t = AwaitingRequirement"
  shows "\<exists>t'. transaction C' i = Some t' \<and> ct_phase t' = AwaitingRequirement"
proof -
  have "core_evolves C C'" using run_evolves [OF assms(1) core_reach_inv [OF assms(1,2)] assms(3)] by blast
  with assms(4,5) show ?thesis unfolding core_evolves_def evolves_def transaction_def by fastforce
qed

text \<open>
  C6: a proposal whose correlation key is already known opens nothing: the executor and every
  transaction stay as they are; an identical action is counted as a replay and the core is
  unchanged, a different one is counted as an integrity failure of that key and changes nothing
  else of the core.  Two transactions never share a correlation key.
\<close>

theorem proposals_idempotent:
  assumes "draft_laws D" "core_reach F D C" "transaction C i = Some t"
    and "im_kind m = Proposal" "im_correlation m = ct_correlation t"
    and "action_digest_of F (ct_action t) = Some a" "action_digest_of F (im_action m) = Some b"
  shows "\<exists>C' r'. handle_message F D now m (C, x, r) = Some (C', x, r') \<and>
       cc_transactions C' = cc_transactions C \<and> cc_spent_activations C' = cc_spent_activations C \<and>
       (a = b \<longrightarrow> C' = C \<and> r' = r\<lparr>dr_replays := dr_replays r + 1\<rparr>) \<and>
       (a \<noteq> b \<longrightarrow> r' = r\<lparr>dr_integrity_failures := dr_integrity_failures r + 1\<rparr> \<and>
          C' = C\<lparr>cc_integrity_failures := (cc_integrity_failures C)
            (im_correlation m \<mapsto> (case cc_integrity_failures C (im_correlation m) of None \<Rightarrow> 1 | Some n \<Rightarrow> n + 1))\<rparr>) \<and>
       (\<forall>j u. transaction C j = Some u \<longrightarrow> ct_correlation u = ct_correlation t \<longrightarrow> j = i)"
proof -
  have inv: "core_inv C" by (rule core_reach_inv [OF assms(1,2)])
  have k: "cc_by_correlation C (ct_correlation t) = Some i"
    using core_invD(4) [OF inv] assms(3) by (simp add: transaction_def)
  let ?C = "if a = b then C else C\<lparr>cc_integrity_failures := (cc_integrity_failures C)
     (im_correlation m \<mapsto> (case cc_integrity_failures C (im_correlation m) of None \<Rightarrow> 1 | Some n \<Rightarrow> n + 1))\<rparr>"
  let ?r = "if a = b then r\<lparr>dr_replays := dr_replays r + 1\<rparr>
     else r\<lparr>dr_integrity_failures := dr_integrity_failures r + 1\<rparr>"
  have "handle_message F D now m (C, x, r) = Some (?C, x, ?r)"
    using k assms(3-7) by (simp add: handle_message_def handle_proposal_def handle_known_key_def)
  moreover have "cc_transactions ?C = cc_transactions C" "cc_spent_activations ?C = cc_spent_activations C"
    "a = b \<longrightarrow> ?C = C \<and> ?r = r\<lparr>dr_replays := dr_replays r + 1\<rparr>"
    "a \<noteq> b \<longrightarrow> ?r = r\<lparr>dr_integrity_failures := dr_integrity_failures r + 1\<rparr> \<and>
       ?C = C\<lparr>cc_integrity_failures := (cc_integrity_failures C)
         (im_correlation m \<mapsto> (case cc_integrity_failures C (im_correlation m) of None \<Rightarrow> 1 | Some n \<Rightarrow> n + 1))\<rparr>"
    by simp_all
  moreover have "j = i" if "transaction C j = Some u" "ct_correlation u = ct_correlation t" for j u
    using core_invD(4) [OF inv, of j u] that k by (simp add: transaction_def)
  ultimately show ?thesis by blast
qed

section \<open>Evidence\<close>

lemma distinct_identity:
  assumes "distinct (map f xs)" "p \<in> set xs" "q \<in> set xs" "f p = f q"
  shows "p = q"
  using assms by (simp add: distinct_map inj_on_def)

lemma update_first_mem:
  assumes "distinct (map f xs)" "find (\<lambda>p. f p = k) xs = Some x" "f y = f x"
    and "q \<in> set (update_first (\<lambda>p. f p = k) (\<lambda>_. y) xs)" "f q \<noteq> k"
  shows "q \<in> set xs"
proof -
  have "f x = k" using find_mem [OF assms(2)] by simp
  with assms(3,5) have "q \<noteq> y" by auto
  then show ?thesis using set_update_first [of "\<lambda>p. f p = k" y xs] assms(4) by blast
qed

lemma update_first_hit:
  assumes "distinct (map f xs)" "find (\<lambda>p. f p = k) xs = Some x" "f y = f x"
    and "q \<in> set (update_first (\<lambda>p. f p = k) (\<lambda>_. y) xs)" "f q = k"
  shows "q = y"
proof -
  let ?ys = "update_first (\<lambda>p. f p = k) (\<lambda>_. y) xs"
  have "distinct (map f ?ys)" using assms(1) update_first_map [OF assms(2,3)] by simp
  moreover have "y \<in> set ?ys" using assms(2) by (induction xs) (auto split: if_splits)
  moreover have "f y = k" using find_mem [OF assms(2)] assms(3) by simp
  ultimately show ?thesis using distinct_identity assms(4,5) by metis
qed

lemma report_received_requirements:
  assumes "cc_transactions (report_received D i t C) j = Some u"
  shows "j \<noteq> i \<and> cc_transactions C j = Some u \<or> j = i \<and> requirements u = requirements t"
  using assms
  by (auto simp: report_received_def store_transaction_def Let_def split: option.splits if_splits)

text \<open>
  C5: in a reachable core, handling an evidence message turns a pending requirement into a
  satisfied one only if the message names that transaction and that requirement, the registry
  has exactly one accepted binding for it, and the receipt validates against that binding, the
  transaction's generation and the pinned policy; no other requirement of any transaction
  becomes satisfied.
\<close>

theorem evidence_needs_valid_receipt:
  assumes "draft_laws D" "core_reach F D C" "handle_evidence D now m C r = (C', r')"
    and "transaction C i = Some t" "p \<in> set (requirements t)" "pr_status p = Pending"
    and "transaction C' i = Some t'" "p' \<in> set (requirements t')" "identity_of p' = identity_of p"
    and "pr_status p' = Satisfied"
  shows "i = im_transaction m \<and> identity_of p = im_requirement m \<and>
     (\<exists>b. find_for_kind_and_view (cc_registry C) (ri_kind (im_requirement m)) ''default'' = [b] \<and>
        validate_receipt (im_receipt m) b (im_requirement m) (ck_generation (ct_correlation t))
          (pc_policy_digest (cc_cognition C)) now = Rej_None)"
proof -
  have inv: "core_inv C" by (rule core_reach_inv [OF assms(1,2)])
  have t: "cc_transactions C i = Some t" using assms(4) by (simp add: transaction_def)
  have dist: "distinct (map identity_of (requirements t))"
    using core_invD(5) [OF inv t] by (simp add: tx_ok_def)
  have unchanged: False if "p' \<in> set (requirements t)"
    using distinct_identity [OF dist that assms(5,9)] assms(6,10) by simp
  have t': "cc_transactions C' i = Some t'" using assms(7) by (simp add: transaction_def)
  have "C' \<noteq> C" using unchanged t t' assms(8) by auto
  then obtain u q where u: "cc_transactions C (im_transaction m) = Some u"
    and q: "find (\<lambda>p. identity_of p = im_requirement m) (requirements u) = Some q" "pr_status q = Pending"
    using assms(3) by (auto simp: handle_evidence_def Let_def split: option.splits if_splits)
  define y where "y = (if receipt_verdict now m u q C = Rej_None
    then q\<lparr>pr_status := Satisfied, pr_evidence := pr_evidence q @ [''receipt:'' @ to_string_u64 (er_id (im_receipt m))]\<rparr>
    else q\<lparr>pr_status := Failed\<rparr>)"
  let ?v = "set_requirements (update_first (\<lambda>p. identity_of p = im_requirement m) (\<lambda>_. y) (requirements u)) u"
  obtain C1 where C1: "C' = report_received D (im_transaction m) ?v C1" "cc_transactions C1 = cc_transactions C"
  proof (cases "receipt_verdict now m u q C = Rej_None")
    case True
    with assms(3) u q that show thesis by (auto simp: handle_evidence_def Let_def y_def split: if_splits)
  next
    case False
    with assms(3) u q that show thesis by (auto simp: handle_evidence_def Let_def y_def)
  qed
  have i: "i = im_transaction m" and req: "requirements t' = requirements ?v"
    using report_received_requirements [OF t' [unfolded C1(1)]] C1(2) t unchanged assms(8) by auto
  have tu: "u = t" using t u i by simp
  have y: "identity_of y = identity_of q" by (simp add: y_def)
  have mem: "p' \<in> set (update_first (\<lambda>p. identity_of p = im_requirement m) (\<lambda>_. y) (requirements t))"
    using assms(8) req tu by simp
  have id: "identity_of p' = im_requirement m"
  proof (rule ccontr)
    assume "identity_of p' \<noteq> im_requirement m"
    with update_first_mem [OF dist q(1) [unfolded tu] y mem] unchanged show False by blast
  qed
  have "p' = y" by (rule update_first_hit [OF dist q(1) [unfolded tu] y mem id])
  with assms(10) have "receipt_verdict now m u q C = Rej_None" by (auto simp: y_def split: if_splits)
  moreover have "identity_of q = im_requirement m" using find_mem [OF q(1)] by simp
  ultimately show ?thesis
    using i id assms(9) tu
    by (auto simp: receipt_verdict_def binding_for_def split: option.splits list.splits)
qed

section \<open>Dispatch\<close>

definition awaiting :: "prepared_requirement \<Rightarrow> bool" where
  "awaiting p \<longleftrightarrow> pr_blocking p \<and> pr_status p = Pending"

lemma dispatch_one_exact:
  assumes "dispatch_one R cog t x n p = (p', x', n')"
  shows "xe_pending x' = xe_pending x @
      (if awaiting p' then [task_for cog t p' (the (binding_for R (identity_of p')))] else []) \<and>
    n' = n + (if awaiting p' then 1 else 0) \<and> (awaiting p' \<longrightarrow> binding_for R (identity_of p') \<noteq> None) \<and>
    (awaiting p \<longrightarrow> p' = p \<or> pr_status p' = Failed) \<and> (\<not> awaiting p \<longrightarrow> p' = p)"
  using assms
  by (auto simp: dispatch_one_def awaiting_def submit_def split: if_splits option.splits prod.splits)

lemma dispatch_loop_exact:
  "dispatch_loop R cog t x n ps = (ps', x', n') \<Longrightarrow>
     xe_pending x' = xe_pending x @
       map (\<lambda>p. task_for cog t p (the (binding_for R (identity_of p)))) (filter awaiting ps') \<and>
     n' = n + of_nat (length (filter awaiting ps')) \<and>
     (\<forall>p \<in> set (filter awaiting ps'). binding_for R (identity_of p) \<noteq> None) \<and>
     list_all2 (\<lambda>p p'. if awaiting p then p' = p \<or> pr_status p' = Failed else p' = p) ps ps'"
proof (induction ps arbitrary: x n ps')
  case (Cons p ps)
  obtain q x1 n1 where q: "dispatch_one R cog t x n p = (q, x1, n1)" by (metis prod_cases3)
  obtain qs x2 n2 where qs: "dispatch_loop R cog t x1 n1 ps = (qs, x2, n2)" by (metis prod_cases3)
  have e: "ps' = q # qs" "x' = x2" "n' = n2" using Cons.prems q qs by auto
  note Q = dispatch_one_exact [OF q]
  have IH: "xe_pending x' = xe_pending x1 @
       map (\<lambda>p. task_for cog t p (the (binding_for R (identity_of p)))) (filter awaiting qs) \<and>
     n' = n1 + of_nat (length (filter awaiting qs)) \<and>
     (\<forall>p \<in> set (filter awaiting qs). binding_for R (identity_of p) \<noteq> None) \<and>
     list_all2 (\<lambda>p p'. if awaiting p then p' = p \<or> pr_status p' = Failed else p' = p) ps qs"
    using qs e by (intro Cons.IH) simp
  show ?case using Q IH e by (cases "awaiting q") (auto simp: algebra_simps)
qed simp

lemma binding_for_Some: "binding_for R i = Some b \<longleftrightarrow> find_for_kind_and_view R (ri_kind i) ''default'' = [b]"
  by (auto simp: binding_for_def split: list.splits)

text \<open>
  dispatching a transaction submits, in order, exactly one task for each blocking requirement
  that stays pending, each carrying the one binding the registry accepts for its kind in the
  default view, and counts exactly those as outstanding; every other blocking pending
  requirement, one without a unique binding or refused by the executor, is failed at once, and
  nothing else changes.
\<close>

theorem dispatch_exact:
  assumes "dispatch_resolvers C x t = (t', C', x')"
  defines "waiting \<equiv> filter (\<lambda>p. pr_blocking p \<and> pr_status p = Pending) (requirements t')"
  shows "\<exists>tasks. xe_pending x' = xe_pending x @ tasks \<and> map rt_identity tasks = map identity_of waiting \<and>
     (\<forall>k \<in> set tasks. rt_transaction k = ct_id t \<and>
        find_for_kind_and_view (cc_registry C) (ri_kind (rt_identity k)) ''default'' = [rt_binding k]) \<and>
     cc_outstanding C' (ct_id t) = Some (of_nat (length tasks)) \<and>
     list_all2 (\<lambda>p p'. p' = p \<or> pr_blocking p \<and> pr_status p = Pending \<and> pr_status p' = Failed)
       (requirements t) (requirements t')"
proof -
  obtain ps n where l: "dispatch_loop (cc_registry C) (cc_cognition C) t x 0 (requirements t) = (ps, x', n)"
    and t': "t' = set_requirements ps t" and C': "C' = C\<lparr>cc_outstanding := (cc_outstanding C)(ct_id t \<mapsto> n)\<rparr>"
    using assms(1) by (auto simp: dispatch_resolvers_def split: prod.splits)
  note L = dispatch_loop_exact [OF l]
  have w: "waiting = filter awaiting ps"
    by (simp add: waiting_def t' awaiting_def [abs_def])
  let ?tasks = "map (\<lambda>p. task_for (cc_cognition C) t p (the (binding_for (cc_registry C) (identity_of p)))) (filter awaiting ps)"
  have "find_for_kind_and_view (cc_registry C) (ri_kind (identity_of p)) ''default'' =
      [the (binding_for (cc_registry C) (identity_of p))]" if "p \<in> set (filter awaiting ps)" for p
    using L that binding_for_Some by fastforce
  then have T: "\<forall>k \<in> set ?tasks. rt_transaction k = ct_id t \<and>
      find_for_kind_and_view (cc_registry C) (ri_kind (rt_identity k)) ''default'' = [rt_binding k]"
    by (auto simp: task_for_def)
  have A: "list_all2 (\<lambda>p p'. p' = p \<or> pr_blocking p \<and> pr_status p = Pending \<and> pr_status p' = Failed)
       (requirements t) (requirements t')"
    using L by (auto simp: t' awaiting_def elim!: list_all2_mono split: if_splits)
  have I: "map rt_identity ?tasks = map identity_of waiting"
    by (simp add: w task_for_def comp_def)
  have P: "xe_pending x' = xe_pending x @ ?tasks" using L by blast
  have N: "cc_outstanding C' (ct_id t) = Some (of_nat (length ?tasks))"
    using L by (simp add: C')
  show ?thesis
    by (rule exI [of _ ?tasks]) (intro conjI P I T N A)
qed

section \<open>Pre-satisfaction\<close>

lemma presatisfy_one_uses:
  assumes "presatisfy_one F cog gen now as spent p = (p', spent')"
  shows "p' = p \<and> spent' = spent \<or>
     (\<exists>a \<in> set as. usable_activation F cog gen now (identity_of p) spent a \<and> awaiting p \<and>
        blocking_bj p \<and> pr_status p' = Satisfied \<and> spent' = insert (activation_use_identity F a) spent)"
  using assms
  by (auto simp: presatisfy_one_def awaiting_def blocking_bj_def split: if_splits option.splits dest: find_mem)

definition changed :: "prepared_requirement list \<Rightarrow> prepared_requirement list \<Rightarrow> nat list" where
  "changed ps ps' = filter (\<lambda>k. ps' ! k \<noteq> ps ! k) [0..<length ps]"

lemma length_changed_Cons:
  "length (changed (p # ps) (q # qs)) = (if q = p then 0 else 1) + length (changed ps qs)"
proof -
  have "[0..<length (p # ps)] = 0 # map Suc [0..<length ps]"
    by (simp add: map_Suc_upt upt_conv_Cons del: upt_Suc)
  then show ?thesis by (simp add: changed_def filter_map comp_def)
qed

definition newly_satisfied :: "prepared_requirement \<Rightarrow> prepared_requirement \<Rightarrow> bool" where
  "newly_satisfied p p' \<longleftrightarrow> blocking_bj p \<and> pr_status p = Pending \<and> pr_status p' = Satisfied"

lemma presatisfy_uses:
  "presatisfy F cog gen now as spent ps = (ps', spent') \<Longrightarrow> finite spent \<Longrightarrow>
     spent \<subseteq> spent' \<and> finite spent' \<and> card (spent' - spent) = length (changed ps ps') \<and>
     list_all2 (\<lambda>p p'. p' = p \<or> newly_satisfied p p') ps ps'"
proof (induction ps arbitrary: spent ps')
  case Nil
  then show ?case by (simp add: changed_def)
next
  case (Cons p ps)
  obtain q s1 where q: "presatisfy_one F cog gen now as spent p = (q, s1)" by fastforce
  obtain qs s2 where qs: "presatisfy F cog gen now as s1 ps = (qs, s2)" by fastforce
  have e: "ps' = q # qs" "spent' = s2" using Cons.prems q qs by auto
  have one: "q = p \<and> s1 = spent \<or> (\<exists>u. u \<notin> spent \<and> s1 = insert u spent \<and> q \<noteq> p \<and> newly_satisfied p q)"
    using presatisfy_one_uses [OF q] by (auto simp: usable_activation_def awaiting_def newly_satisfied_def)
  then have "finite s1" using Cons.prems(2) by auto
  note IH = Cons.IH [OF qs [folded e(2)] this]
  from one show ?case
  proof
    assume "q = p \<and> s1 = spent"
    then show ?thesis using IH unfolding e(1) length_changed_Cons by simp
  next
    assume "\<exists>u. u \<notin> spent \<and> s1 = insert u spent \<and> q \<noteq> p \<and> newly_satisfied p q"
    then obtain u where u: "u \<notin> spent" "s1 = insert u spent" "q \<noteq> p" "newly_satisfied p q" by blast
    have "spent' - spent = insert u (spent' - s1)" "u \<notin> spent' - s1" using IH u by auto
    then have "card (spent' - spent) = Suc (card (spent' - s1))" using IH by simp
    then show ?thesis using IH u unfolding e(1) length_changed_Cons by simp
  qed
qed

text \<open>
  pre-satisfaction spends exactly one unspent activation for each requirement it satisfies,
  and satisfies only pending blocking BeforeJudgment requirements: the number of requirements it
  changes is the number of activations it newly spends, and nothing becomes unspent.
\<close>

theorem presatisfy_spends_one_each:
  assumes "presatisfy F cog gen now as spent ps = (ps', spent')" "finite spent"
  shows "spent \<subseteq> spent' \<and> length ps' = length ps \<and>
     card (spent' - spent) = length (filter (\<lambda>k. ps' ! k \<noteq> ps ! k) [0..<length ps]) \<and>
     (\<forall>k < length ps. ps' ! k \<noteq> ps ! k \<longrightarrow>
        blocking_bj (ps ! k) \<and> pr_status (ps ! k) = Pending \<and> pr_status (ps' ! k) = Satisfied)"
  using presatisfy_uses [OF assms]
  by (auto simp: changed_def newly_satisfied_def list_all2_conv_all_nth)

section \<open>Reports about unknown requirements\<close>

text \<open>
  A failure report that names a requirement the transaction never derived is nevertheless
  counted as one of its outstanding reports: when one report is outstanding it settles the
  transaction although the real requirement has not reported and is still pending, whereas an
  evidence report for the same unknown requirement is dropped and changes nothing.
\<close>

theorem unknown_failure_settles:
  assumes "draft_laws D" "cc_transactions C i = Some t" "ct_id t = i" "ct_phase t = RequirementsDerived"
    and "cc_outstanding C i = Some 1" "im_transaction m = i" "im_requirement m \<notin> identity_of ` set (requirements t)"
  shows "\<exists>C' t'. handle_failure D m C r = (C', r) \<and> cc_transactions C' i = Some t' \<and>
     ct_phase t' \<in> {Denied, ReDeliberationRequired, AwaitingRequirement, CognitiveAllowed} \<and>
     requirements t' = requirements t \<and>
     handle_evidence D now m C r = (C, r\<lparr>dr_dropped_unknown := dr_dropped_unknown r + 1\<rparr>)"
proof -
  have f: "find (\<lambda>p. identity_of p = im_requirement m) (requirements t) = None"
    using assms(7) unfolding find_None_iff by (metis imageI)
  let ?C1 = "C\<lparr>cc_outstanding := (cc_outstanding C)(i \<mapsto> 0)\<rparr>"
  let ?t = "reevaluate_after_reports D ?C1 t"
  have "handle_failure D m C r = (store_transaction i ?t ?C1, r)"
    using assms f by (simp add: handle_failure_def report_received_def Let_def)
  moreover have "ct_phase ?t \<in> settled_phases" by (rule reevaluate_settles(1) [OF assms(1,4)])
  moreover have "handle_evidence D now m C r = (C, r\<lparr>dr_dropped_unknown := dr_dropped_unknown r + 1\<rparr>)"
    using assms f by (simp add: handle_evidence_def)
  ultimately show ?thesis by (simp add: store_transaction_def settled_phases_def)
qed

section \<open>Draining\<close>

lemma pop_wait_cases:
  "iq_messages q = [] \<Longrightarrow> pop_wait q = (None, q)"
  "iq_messages q = m # ms \<Longrightarrow> pop_wait q = (Some m, q\<lparr>iq_messages := ms\<rparr>)"
  by (simp_all add: pop_wait_def)

lemma handle_message_minter:
  assumes "handle_message F D now m (C, x, r) = Some (C', x', r')"
  shows "cc_minter C' = cc_minter C \<or> cc_minter C' = cc_minter C + 1"
proof -
  have rr: "cc_minter (report_received D i t C1) = cc_minter C1" for i t C1
    by (simp add: report_received_def store_transaction_def Let_def split: option.splits)
  show ?thesis
  proof (cases "im_kind m")
    case Proposal
    then have "handle_proposal F D now m (C, x, r) = Some (C', x', r')"
      using assms by (simp add: handle_message_def)
    then show ?thesis
      by (auto simp: handle_proposal_def handle_known_key_def dispatch_resolvers_def store_transaction_def Let_def
          dest!: open_transaction_facts(7) split: option.splits if_splits prod.splits)
  next
    case EvidenceDelivery
    then show ?thesis using assms
      by (auto simp: handle_message_def handle_evidence_def rr Let_def split: prod.splits option.splits if_splits)
  next
    case ResolutionFailure
    then show ?thesis using assms
      by (auto simp: handle_message_def handle_failure_def rr Let_def split: prod.splits option.splits if_splits)
  qed
qed

text \<open>The number of processed messages is the business of the drain loop alone.\<close>

lemma handle_message_counter:
  "handle_message F D now m (C, x, r\<lparr>dr_processed := k\<rparr>) =
     map_option (\<lambda>(C', x', r'). (C', x', r'\<lparr>dr_processed := k\<rparr>)) (handle_message F D now m (C, x, r))"
proof (cases "im_kind m")
  case Proposal
  then show ?thesis
    by (auto simp: handle_message_def handle_proposal_def handle_known_key_def Let_def
        split: option.splits prod.splits)
next
  case EvidenceDelivery
  then show ?thesis by (auto simp: handle_message_def handle_evidence_def Let_def split: option.splits prod.splits)
next
  case ResolutionFailure
  then show ?thesis by (auto simp: handle_message_def handle_failure_def Let_def split: option.splits prod.splits)
qed

lemma handle_message_processed:
  assumes "handle_message F D now m (C, x, r) = Some (C', x', r')"
  shows "dr_processed r' = dr_processed r"
proof -
  have "handle_message F D now m (C, x, r\<lparr>dr_processed := dr_processed r\<rparr>) = Some (C', x', r'\<lparr>dr_processed := dr_processed r\<rparr>)"
    unfolding handle_message_counter assms by simp
  then show ?thesis using assms by (metis drain_result.select_convs(1) drain_result.surjective drain_result.update_convs(1)
        option.inject prod.inject)
qed

text \<open>A message is handled, never an assertion hit, when the snapshot is there and the actions have digests.\<close>

definition digestible :: "foundation \<Rightarrow> ingress_message \<Rightarrow> bool" where
  "digestible F m \<longleftrightarrow> (im_kind m = Proposal \<longrightarrow> action_digest_of F (im_action m) \<noteq> None)"

lemma handle_message_total:
  assumes "draft_laws D" "core_run F D hist C" "pc_snapshot (cc_cognition C) \<noteq> None"
    and "\<forall>(now, m) \<in> set hist. digestible F m" "digestible F m"
  obtains C' x' r' where "handle_message F D now m (C, x, r) = Some (C', x', r')"
proof (cases "im_kind m")
  case Proposal
  have "handle_proposal F D now m (C, x, r) \<noteq> None"
  proof (cases "cc_by_correlation C (im_correlation m)")
    case None
    obtain snap where "pc_snapshot (cc_cognition C) = Some snap" using assms(3) by blast
    then have "open_transaction F D now m C \<noteq> None"
      by (simp add: open_transaction_def classify_total Let_def split: prod.splits)
    then show ?thesis using None by (auto simp: handle_proposal_def Let_def split: option.splits prod.splits)
  next
    case (Some i)
    have inv: "core_inv C" by (rule core_reach_inv [OF assms(1) core_run_reach [OF assms(2)]])
    obtain t where t: "cc_transactions C i = Some t" using core_inv_key [OF inv Some] by blast
    obtain now' m' where "(now', m') \<in> set hist" "im_kind m' = Proposal" "im_action m' = ct_action t"
      using core_run_opened(1) [OF assms(1,2) t] unfolding opened_by_def by blast
    then have "action_digest_of F (ct_action t) \<noteq> None" using assms(4) by (fastforce simp: digestible_def)
    moreover have "action_digest_of F (im_action m) \<noteq> None" using assms(5) Proposal by (simp add: digestible_def)
    ultimately show ?thesis
      using Some t by (auto simp: handle_proposal_def handle_known_key_def transaction_def)
  qed
  then show ?thesis using Proposal that by (auto simp: handle_message_def)
next
  case EvidenceDelivery
  obtain C' r' where "handle_evidence D now m C r = (C', r')" by fastforce
  with EvidenceDelivery that show ?thesis by (simp add: handle_message_def)
next
  case ResolutionFailure
  obtain C' r' where "handle_failure D m C r = (C', r')" by fastforce
  with ResolutionFailure that show ?thesis by (simp add: handle_message_def)
qed

text \<open>The reference: each message handled in turn, nothing else.\<close>

fun handle_all ::
    "foundation \<Rightarrow> draft \<Rightarrow> (u64 \<times> ingress_message) list \<Rightarrow> control_core \<times> resolver_task executor \<times> drain_result
     \<Rightarrow> (control_core \<times> resolver_task executor \<times> drain_result) option" where
  "handle_all F D [] s = Some s"
| "handle_all F D ((now, m) # hs) s = Option.bind (handle_message F D now m s) (handle_all F D hs)"

lemma handle_all_counter:
  "handle_all F D hs (C, x, r\<lparr>dr_processed := k\<rparr>) =
     map_option (\<lambda>(C', x', r'). (C', x', r'\<lparr>dr_processed := k\<rparr>)) (handle_all F D hs (C, x, r))"
proof (induction hs arbitrary: C x r)
  case (Cons h hs)
  obtain now m where h: "h = (now, m)" by fastforce
  show ?case
    by (cases "handle_message F D now m (C, x, r)") (auto simp: h handle_message_counter Cons.IH)
qed simp

lemma minter_bound:
  fixes v w :: u64
  assumes "w = v \<or> w = v + 1" "unat v + Suc k < 2 ^ 64"
  shows "v \<noteq> - 1" "unat w + k < 2 ^ 64"
proof -
  show v: "v \<noteq> - 1" using assms(2) by (auto simp: unsigned_minus_1_eq_mask mask_eq_exp_minus_1)
  have "unat (v + 1) = Suc (unat v)" using v unatSuc [of v] by (metis add.commute add_eq_0_iff)
  then show "unat w + k < 2 ^ 64" using assms by auto
qed

text \<open>The queued messages with the clock readings of a pass that starts at the \<open>n\<close>-th reading.\<close>

abbreviation timed :: "(nat \<Rightarrow> u64) \<Rightarrow> nat \<Rightarrow> ingress_message list \<Rightarrow> (u64 \<times> ingress_message) list" where
  "timed clock n ms \<equiv> zip (map clock [n..<n + length ms]) ms"

lemma timed_Cons: "timed clock n (m # ms) = (clock n, m) # timed clock (Suc n) ms"
  by (simp add: upt_conv_Cons del: upt_Suc)

lemma drain_total:
  assumes "draft_laws D" "core_run F D hist C" "pc_snapshot (cc_cognition C) \<noteq> None"
    and "\<forall>(now, m) \<in> set hist. digestible F m" "\<forall>m \<in> set (iq_messages q). digestible F m"
    and "unat (cc_minter C) + length (iq_messages q) < 2 ^ 64"
  shows "\<exists>C' x' r'. drain F D clock n (C, x, r) q =
       Some ((C', x', r'\<lparr>dr_processed := dr_processed r + of_nat (length (iq_messages q))\<rparr>), q\<lparr>iq_messages := []\<rparr>) \<and>
     handle_all F D (timed clock n (iq_messages q)) (C, x, r) = Some (C', x', r') \<and>
     core_run F D (hist @ timed clock n (iq_messages q)) C'"
  using assms(2-6)
proof (induction "iq_messages q" arbitrary: hist n C x r q)
  case Nil
  have "q\<lparr>iq_messages := []\<rparr> = q" using Nil.hyps by (cases q) simp
  with Nil.hyps Nil.prems(1) show ?case
    by (simp add: drain.simps [of F D clock n "(C, x, r)" q] pop_wait_cases)
next
  case (Cons m ms)
  let ?q = "q\<lparr>iq_messages := ms\<rparr>"
  have ms: "iq_messages q = m # ms" using Cons.hyps(2) by simp
  have q: "pop_wait q = (Some m, ?q)" by (rule pop_wait_cases(2) [OF ms])
  obtain C1 x1 r1 where h: "handle_message F D (clock n) m (C, x, r) = Some (C1, x1, r1)"
    using handle_message_total [OF assms(1) Cons.prems(1-3)] Cons.prems(4) ms by (metis list.set_intros(1))
  have "unat (cc_minter C) + Suc (length ms) < 2 ^ 64" using Cons.prems(5) ms by simp
  note b = minter_bound [OF handle_message_minter [OF h] this]
  have run: "core_run F D (hist @ [(clock n, m)]) C1" by (rule core_run_step [OF Cons.prems(1) b(1) h])
  have cog: "cc_cognition C1 = cc_cognition C"
    using handle_message_traced [OF core_reach_inv [OF assms(1) core_run_reach [OF Cons.prems(1)]] h
        _ b(1)] core_run_opened [OF assms(1) Cons.prems(1)] by (auto simp: steady_def)
  let ?r = "r1\<lparr>dr_processed := dr_processed r1 + 1\<rparr>"
  have pre: "pc_snapshot (cc_cognition C1) \<noteq> None" "\<forall>(now, m) \<in> set (hist @ [(clock n, m)]). digestible F m"
    "\<forall>m \<in> set (iq_messages ?q). digestible F m" "unat (cc_minter C1) + length (iq_messages ?q) < 2 ^ 64"
    using Cons.prems(2-4) ms cog b(2) by auto
  obtain C' x' r' where d: "drain F D clock (Suc n) (C1, x1, ?r) ?q =
      Some ((C', x', r'\<lparr>dr_processed := dr_processed ?r + of_nat (length ms)\<rparr>), q\<lparr>iq_messages := []\<rparr>)"
    and a: "handle_all F D (timed clock (Suc n) ms) (C1, x1, ?r) = Some (C', x', r')"
    and c: "core_run F D ((hist @ [(clock n, m)]) @ timed clock (Suc n) ms) C'"
    using Cons.hyps(1) [OF _ run pre, of "Suc n" x1 ?r] by auto
  obtain r2 where a2: "handle_all F D (timed clock (Suc n) ms) (C1, x1, r1) = Some (C', x', r2)"
    and r2: "r' = r2\<lparr>dr_processed := dr_processed r1 + 1\<rparr>"
    using a unfolding handle_all_counter by auto
  have p: "dr_processed r1 = dr_processed r" by (rule handle_message_processed [OF h])
  have "drain F D clock n (C, x, r) q =
      Some ((C', x', r2\<lparr>dr_processed := dr_processed r + of_nat (length (iq_messages q))\<rparr>), q\<lparr>iq_messages := []\<rparr>)"
    using q h d ms p r2 by (simp add: drain.simps [of F D clock n "(C, x, r)" q] add.assoc)
  moreover have "handle_all F D (timed clock n (iq_messages q)) (C, x, r) = Some (C', x', r2)"
    unfolding ms timed_Cons using h a2 by simp
  moreover have "core_run F D (hist @ timed clock n (iq_messages q)) C'"
    unfolding ms timed_Cons using c by simp
  ultimately show ?case by blast
qed

text \<open>
  C10: draining a queue that nobody fills meanwhile always returns when the pinned snapshot is
  there, every proposed action can be digested and the transaction identities do not run out.  It
  leaves the queue empty; the core, the executor and the counters are those of handling every
  queued message once, in queue order, each with its own clock reading, and the processed counter
  alone is raised by the number of messages; the history of the core grows by exactly these
  messages, and every queued proposal has a transaction under its key.
\<close>

theorem drain_handles_all:
  assumes "draft_laws D" "core_run F D hist C" "pc_snapshot (cc_cognition C) \<noteq> None"
    and "\<forall>(now, m) \<in> set hist. digestible F m" "\<forall>m \<in> set (iq_messages q). digestible F m"
    and "unat (cc_minter C) + length (iq_messages q) < 2 ^ 64"
  shows "\<exists>C' x' r'. drain F D clock n (C, x, r) q =
       Some ((C', x', r'\<lparr>dr_processed := dr_processed r + of_nat (length (iq_messages q))\<rparr>), q\<lparr>iq_messages := []\<rparr>) \<and>
     handle_all F D (timed clock n (iq_messages q)) (C, x, r) = Some (C', x', r') \<and>
     core_run F D (hist @ timed clock n (iq_messages q)) C' \<and>
     (\<forall>m \<in> set (iq_messages q). im_kind m = Proposal \<longrightarrow>
        (\<exists>i t. cc_by_correlation C' (im_correlation m) = Some i \<and> transaction C' i = Some t \<and>
           ct_correlation t = im_correlation m))"
proof -
  obtain C' x' r' where D: "drain F D clock n (C, x, r) q =
       Some ((C', x', r'\<lparr>dr_processed := dr_processed r + of_nat (length (iq_messages q))\<rparr>), q\<lparr>iq_messages := []\<rparr>)"
    "handle_all F D (timed clock n (iq_messages q)) (C, x, r) = Some (C', x', r')"
    and R: "core_run F D (hist @ timed clock n (iq_messages q)) C'"
    using drain_total [OF assms, of clock n x r] by blast
  have "\<exists>i t. cc_by_correlation C' (im_correlation m) = Some i \<and> transaction C' i = Some t \<and> ct_correlation t = im_correlation m"
    if "m \<in> set (iq_messages q)" "im_kind m = Proposal" for m
  proof -
    have "m \<in> snd ` set (timed clock n (iq_messages q))"
      using that(1) by (simp add: set_map [symmetric] del: set_map)
    then obtain now where "(now, m) \<in> set (hist @ timed clock n (iq_messages q))" by (force simp del: set_zip)
    from core_run_known [OF assms(1) R this that(2)] show ?thesis unfolding transaction_def by blast
  qed
  then show ?thesis using D R by blast
qed

section \<open>A concrete run\<close>

text \<open>
  One proposal whose only requirement, a blocking BeforeJudgment recall of the policy, is
  satisfied by an activation presented with it; then the same proposal again.
\<close>

definition policy_requirement :: prepared_requirement where
  "policy_requirement =
     \<lparr>pr_requirement = \<lparr>cr_kind = MandatoryRecall, cr_subject = ''policy'', cr_blocking = True\<rparr>,
      pr_boundary = BeforeJudgment, pr_status = Pending, pr_evidence = []\<rparr>"

definition policy_draft :: draft where
  "policy_draft = ref_draft\<lparr>derive_requirements := (\<lambda>_ _. [policy_requirement])\<rparr>"

lemma policy_draft_laws: "draft_laws policy_draft"
  by unfold_locales (auto simp: policy_draft_def ref_draft_def list_all_iff)

definition blank_receipt :: evidence_receipt where
  "blank_receipt =
     \<lparr>er_id = 0,
      er_requirement = \<lparr>ri_kind = MandatoryRecall, ri_subject = [], ri_boundary = BeforeJudgment, ri_blocking = True\<rparr>,
      er_resolver = \<lparr>rv_name = [], rv_version = 0\<rparr>, er_type = RT_AttributableSearch, er_resolver_build = [],
      er_source_revision = [], er_source_path = [], er_evidence_type = AttributableSearch, er_subject = [],
      er_source = [], er_content_digest = replicate 32 0, er_issued_at_ms = 0, er_expires_at_ms = 0,
      er_policy_digest = replicate 32 0, er_generation = 0, er_reusable = False\<rparr>"

definition run_key :: correlation_key where
  "run_key = \<lparr>ck_generation = 1, ck_adapter = 2, ck_session = 3, ck_actor = 4, ck_action = 5\<rparr>"

definition run_activation :: activation_receipt where
  "run_activation =
     \<lparr>ar_kind = SessionStart, ar_subject = ''policy'', ar_canonical_revision = ''rev'',
      ar_injected_digest = replicate 32 9, ar_evidence_type = CanonicalRecord, ar_generation = 1,
      ar_actor_token = 4, ar_session_token = 3, ar_injection_event = 1, ar_expires_at_ms = 0\<rparr>"

definition run_proposal :: ingress_message where
  "run_proposal =
     \<lparr>im_kind = Proposal, im_correlation = run_key, im_action = ex_action, im_causal_parent = None,
      im_activation_receipts = [run_activation], im_transaction = 0, im_requirement = er_requirement blank_receipt,
      im_receipt = blank_receipt, im_sequence = 0\<rparr>"

definition run_start :: control_core where
  "run_start = core_init 1 \<lparr>rg_bindings = [], reg_revision = 0\<rparr> (ct_cognition (ex_transaction Pending)) ex_facts"

definition run_executor :: "resolver_task executor" where
  "run_executor =
     \<lparr>xe_capacity = 1, xe_pending = [], xe_running = 0, xe_shutdown = False, xe_max_concurrency = 0,
      xe_exceptions = 0, xe_workers = [Waiting]\<rparr>"

definition policy_identity :: requirement_identity where
  "policy_identity = \<lparr>ri_kind = MandatoryRecall, ri_subject = ''policy'', ri_boundary = BeforeJudgment, ri_blocking = True\<rparr>"

lemma identity_of_policy [simp]: "identity_of policy_requirement = policy_identity"
  by (simp add: identity_of_def policy_requirement_def policy_identity_def)

lemma prepare_policy: "rq_identity r = policy_identity \<Longrightarrow> prepare r = policy_requirement"
  by (simp add: prepare_def policy_identity_def policy_requirement_def)

lemma distinct_singleton: "distinct xs \<Longrightarrow> set xs = {a} \<Longrightarrow> xs = [a]"
  by (cases xs; cases "tl xs") auto

lemma policy_derived:
  assumes "s \<noteq> []"
  shows "map prepare (derive_requirement_set policy_draft snap s) = [policy_requirement]"
proof -
  let ?rs = "derive_requirement_set policy_draft snap s"
  have M: "distinct (map rq_identity ?rs)"
    "rq_identity ` set ?rs = rq_identity ` set (derived_instances policy_draft snap s)"
    using merged_derive [of policy_draft snap s] unfolding merged_def by blast+
  have "derive_requirements policy_draft snap x = [policy_requirement]" for x
    by (simp add: policy_draft_def)
  then have "rq_identity ` set (derived_instances policy_draft snap s) = {policy_identity}"
    using assms by (intro set_eqI) (auto simp only: identities_derived, auto simp: neq_Nil_conv)
  with M have "map rq_identity ?rs = [policy_identity]"
    by (intro distinct_singleton) simp_all
  then show ?thesis using prepare_policy by auto
qed

lemma run_activation_usable:
  "usable_activation ref_foundation (ct_cognition (ex_transaction Pending)) 1 now policy_identity {} run_activation"
  by (simp add: usable_activation_def activation_valid_for_def activation_complete_def evidence_type_for_def
      run_activation_def policy_identity_def ex_transaction_def begin_control_transaction_def)

definition run_requirement :: prepared_requirement where
  "run_requirement = policy_requirement\<lparr>pr_status := Satisfied, pr_evidence := [''activation:'' @ to_string_u64 1]\<rparr>"

lemma run_presatisfy:
  "presatisfy ref_foundation (ct_cognition (ex_transaction Pending)) 1 now [run_activation] {} [policy_requirement] =
     ([run_requirement], {activation_use_identity ref_foundation run_activation})"
  using run_activation_usable [of now]
  by (simp add: presatisfy_one_def policy_requirement_def run_requirement_def run_activation_def
      identity_of_policy [unfolded policy_requirement_def])

definition run_transaction :: control_transaction where
  "run_transaction =
     begin_control_transaction 1 None run_key ex_action
       (foldl keep_member [] (classification_members policy_draft ex_action ex_facts []))
       (ct_cognition (ex_transaction Pending)) \<lparr>pk_requirements = [run_requirement], pk_failure = PF_None\<rparr>"

definition run_allowed :: control_core where
  "run_allowed = run_start\<lparr>cc_minter := 2,
     cc_spent_activations := {activation_use_identity ref_foundation run_activation},
     cc_transactions := [1 \<mapsto> run_transaction\<lparr>ct_phase := CognitiveAllowed\<rparr>],
     cc_by_correlation := [run_key \<mapsto> 1], cc_outstanding := [1 \<mapsto> 0]\<rparr>"

lemma run_open:
  "open_transaction ref_foundation policy_draft now run_proposal run_start =
     Some (run_transaction, run_start\<lparr>cc_minter := 2,
       cc_spent_activations := {activation_use_identity ref_foundation run_activation},
       cc_transactions := [1 \<mapsto> run_transaction], cc_by_correlation := [run_key \<mapsto> 1]\<rparr>)"
proof -
  let ?s = "foldl keep_member [] (classification_members policy_draft ex_action ex_facts [])"
  have c: "classify policy_draft ex_action ex_facts [] = Some ?s" by (rule classify_total)
  have "?s \<noteq> []" by (rule make_intent_set_Inr(2)) simp
  then have d: "map prepare (derive_requirement_set policy_draft [] ?s) = [policy_requirement]"
    by (rule policy_derived)
  have k: "pc_snapshot (ct_cognition (ex_transaction Pending)) = Some []" "ck_generation run_key = 1"
    "default_failure policy_draft = PF_None"
    by (simp_all add: ex_transaction_def begin_control_transaction_def run_key_def policy_draft_def ref_draft_def)
  show ?thesis
    by (simp add: open_transaction_def run_start_def core_init_def run_proposal_def c d k run_presatisfy
        minter_next_def emplace_def run_transaction_def Let_def del: presatisfy.simps)
qed

lemma run_reevaluate:
  "reevaluate_after_reports policy_draft (run_start\<lparr>cc_minter := mt, cc_spent_activations := sp,
     cc_transactions := tx, cc_by_correlation := bc, cc_outstanding := ou\<rparr>) run_transaction =
   run_transaction\<lparr>ct_phase := CognitiveAllowed\<rparr>"
  by (simp add: reevaluate_after_reports_def run_transaction_def begin_control_transaction_def terminal_def
      run_start_def core_init_def evaluate_before_judgment_def evaluate_before_execution_def policy_draft_def
      ref_draft_def run_requirement_def policy_requirement_def Let_def)

lemma run_step:
  "handle_message ref_foundation policy_draft now run_proposal (run_start, run_executor, no_drain) =
     Some (run_allowed, run_executor, no_drain)"
proof -
  have r: "requirements run_transaction = [run_requirement]" "ct_id run_transaction = 1"
    by (simp_all add: run_transaction_def begin_control_transaction_def)
  have n: "\<not> awaiting run_requirement" by (simp add: awaiting_def run_requirement_def)
  have e: "set_requirements [run_requirement] run_transaction = run_transaction"
    by (simp add: run_transaction_def begin_control_transaction_def)
  have k: "im_kind run_proposal = Proposal" "cc_by_correlation run_start (im_correlation run_proposal) = None"
    by (simp_all add: run_proposal_def run_start_def core_init_def)
  have o: "cc_outstanding run_start = Map.empty" by (simp add: run_start_def core_init_def)
  have d: "dispatch_one R cog t x c run_requirement = (run_requirement, x, c)" for R cog t x c
    using n by (simp add: dispatch_one_def awaiting_def)
  show ?thesis
    by (simp add: handle_message_def handle_proposal_def k run_open r dispatch_resolvers_def d e Let_def o
        run_reevaluate store_transaction_def run_allowed_def)
qed

lemma run_start_run: "core_run ref_foundation policy_draft [] run_start"
  unfolding run_start_def by (rule core_run_init)

lemma run_allowed_run: "core_run ref_foundation policy_draft [(now, run_proposal)] run_allowed"
proof -
  have "cc_minter run_start \<noteq> - 1" by (simp add: run_start_def core_init_def)
  from core_run_step [OF run_start_run this run_step [of now]] show ?thesis by simp
qed

lemma run_reach: "core_reach ref_foundation policy_draft run_allowed"
  by (rule core_run_reach [OF run_allowed_run])

lemma run_view: "transaction run_allowed 1 = Some (run_transaction\<lparr>ct_phase := CognitiveAllowed\<rparr>)"
  by (simp add: transaction_def run_allowed_def)

theorem allow_is_prepared_witness:
  "tv_disposition (view run_allowed 1) = Allow \<and> blocking_bj run_requirement \<and>
   activation_valid_for run_activation policy_identity ''rev'' (replicate 32 9) 1 (replicate 32 3) 7 \<and>
   activation_use_identity ref_foundation run_activation \<in> cc_spent_activations run_allowed"
proof -
  have v: "tv_disposition (view run_allowed 1) = Allow" by (simp add: view_def run_view disposition_for_def)
  have t: "requirements (run_transaction\<lparr>ct_phase := CognitiveAllowed\<rparr>) = [run_requirement]"
    "blocking_bj run_requirement" "im_activation_receipts run_proposal = [run_activation]"
    "requirements run_transaction = [run_requirement]"
    "identity_of run_requirement = policy_identity" "ck_generation (im_correlation run_proposal) = 1"
    by (simp_all add: run_transaction_def begin_control_transaction_def blocking_bj_def run_requirement_def
        run_proposal_def run_key_def policy_requirement_def identity_of_def policy_identity_def)
  have c: "pc_revision (cc_cognition run_allowed) = ''rev''" "pc_snapshot_digest_sha256 (cc_cognition run_allowed) = replicate 32 9"
    "pc_policy_digest (cc_cognition run_allowed) = replicate 32 3"
    by (simp_all add: run_allowed_def run_start_def core_init_def ex_transaction_def begin_control_transaction_def)
  from allow_is_prepared [OF policy_draft_laws run_allowed_run [of 7] v] v show ?thesis
    unfolding run_view by (simp add: t c)
qed

lemma run_digest: "\<exists>a. action_digest_of ref_foundation ex_action = Some a"
  by (simp add: ex_action_def observe_action_def action_digest_of_def digest_of_def put_action_def sealed_def
      preimage_capacity_limit_def)

theorem proposals_idempotent_witness:
  "\<exists>r'. handle_message ref_foundation policy_draft 7 run_proposal (run_allowed, run_executor, no_drain) =
     Some (run_allowed, run_executor, r')"
proof -
  obtain a where a: "action_digest_of ref_foundation ex_action = Some a" using run_digest by blast
  let ?t = "run_transaction\<lparr>ct_phase := CognitiveAllowed\<rparr>"
  have t: "im_kind run_proposal = Proposal" "im_correlation run_proposal = ct_correlation ?t"
    "action_digest_of ref_foundation (ct_action ?t) = Some a" "action_digest_of ref_foundation (im_action run_proposal) = Some a"
    using a by (simp_all add: run_proposal_def run_transaction_def begin_control_transaction_def)
  from proposals_idempotent [OF policy_draft_laws run_reach run_view t] show ?thesis by blast
qed

theorem settled_is_final_witness:
  "\<exists>C' r'. handle_message ref_foundation policy_draft 7 run_proposal (run_allowed, run_executor, no_drain) =
     Some (C', run_executor, r') \<and> (\<exists>t'. transaction C' 1 = Some t' \<and> ct_phase t' = CognitiveAllowed)"
proof -
  obtain a where a: "action_digest_of ref_foundation ex_action = Some a" using run_digest by blast
  obtain r' where h: "handle_message ref_foundation policy_draft 7 run_proposal (run_allowed, run_executor, no_drain) =
      Some (run_allowed, run_executor, r')"
    using a run_view
    by (simp add: handle_message_def handle_proposal_def handle_known_key_def run_proposal_def run_allowed_def
        transaction_def run_transaction_def begin_control_transaction_def)
  have "cc_minter run_allowed \<noteq> - 1" by (simp add: run_allowed_def)
  then have "core_step ref_foundation policy_draft run_allowed run_allowed" using h by (rule core_stepI)
  then have "(core_step ref_foundation policy_draft)\<^sup>*\<^sup>* run_allowed run_allowed" by (rule r_into_rtranclp)
  from settled_is_final [OF policy_draft_laws run_reach this run_view] h show ?thesis
    by auto
qed

theorem presatisfy_spends_one_each_witness:
  "card (snd (presatisfy ref_foundation (ct_cognition (ex_transaction Pending)) 1 3 [run_activation] {} [policy_requirement])) = 1"
  using presatisfy_spends_one_each [OF run_presatisfy [of 3]] unfolding run_presatisfy by simp

subsection \<open>A requirement resolved in flight\<close>

definition wait_binding :: resolver_binding where
  "wait_binding =
     \<lparr>rb_key = \<lparr>rk_kind = MandatoryRecall, rk_type = RT_CanonicalRecall, rk_version = 1, rk_view = ''default''\<rparr>,
      rb_resolver = \<lparr>rv_name = ''recall'', rv_version = 1\<rparr>, rb_accepted = CanonicalRecord, rb_trust = Canonical\<rparr>"

definition wait_start :: control_core where
  "wait_start = core_init 1 \<lparr>rg_bindings = [wait_binding], reg_revision = 0\<rparr> (ct_cognition (ex_transaction Pending)) ex_facts"

definition wait_transaction :: control_transaction where
  "wait_transaction = set_requirements [policy_requirement] run_transaction"

definition wait_core :: control_core where
  "wait_core = wait_start\<lparr>cc_minter := 2, cc_transactions := [1 \<mapsto> wait_transaction],
     cc_by_correlation := [run_key \<mapsto> 1], cc_outstanding := [1 \<mapsto> 1]\<rparr>"

lemma wait_open:
  "open_transaction ref_foundation policy_draft now (run_proposal\<lparr>im_activation_receipts := []\<rparr>) wait_start =
     Some (wait_transaction, wait_start\<lparr>cc_minter := 2, cc_transactions := [1 \<mapsto> wait_transaction],
       cc_by_correlation := [run_key \<mapsto> 1]\<rparr>)"
proof -
  let ?s = "foldl keep_member [] (classification_members policy_draft ex_action ex_facts [])"
  have c: "classify policy_draft ex_action ex_facts [] = Some ?s" by (rule classify_total)
  have "?s \<noteq> []" by (rule make_intent_set_Inr(2)) simp
  then have d: "map prepare (derive_requirement_set policy_draft [] ?s) = [policy_requirement]"
    by (rule policy_derived)
  have k: "pc_snapshot (ct_cognition (ex_transaction Pending)) = Some []"
    "default_failure policy_draft = PF_None"
    by (simp_all add: ex_transaction_def begin_control_transaction_def policy_draft_def ref_draft_def)
  have p: "presatisfy F cog gen now [] sp [policy_requirement] = ([policy_requirement], sp)" for F cog gen sp
    by (simp add: presatisfy_one_def)
  show ?thesis
    by (simp add: open_transaction_def wait_start_def core_init_def run_proposal_def c d k p
        minter_next_def emplace_def run_transaction_def wait_transaction_def begin_control_transaction_def Let_def
        del: presatisfy.simps)
qed

lemma wait_binding_for: "binding_for \<lparr>rg_bindings = [wait_binding], reg_revision = 0\<rparr> policy_identity = Some wait_binding"
  by (simp add: binding_for_def find_for_kind_and_view_def wait_binding_def policy_identity_def)

lemma wait_step:
  "\<exists>x'. handle_message ref_foundation policy_draft now (run_proposal\<lparr>im_activation_receipts := []\<rparr>) (wait_start, run_executor, no_drain) =
     Some (wait_core, x', no_drain)"
proof -
  have r: "requirements wait_transaction = [policy_requirement]" "ct_id wait_transaction = 1"
    "set_requirements [policy_requirement] wait_transaction = wait_transaction"
    by (simp_all add: wait_transaction_def run_transaction_def begin_control_transaction_def)
  have k: "im_kind (run_proposal\<lparr>im_activation_receipts := []\<rparr>) = Proposal"
    "cc_by_correlation wait_start (im_correlation run_proposal) = None"
    by (simp_all add: run_proposal_def wait_start_def core_init_def)
  have o: "cc_outstanding wait_start = Map.empty" "cc_registry wait_start = \<lparr>rg_bindings = [wait_binding], reg_revision = 0\<rparr>"
    by (simp_all add: wait_start_def core_init_def)
  have "pr_blocking policy_requirement" "pr_status policy_requirement = Pending"
    by (simp_all add: policy_requirement_def)
  then have d: "dispatch_one \<lparr>rg_bindings = [wait_binding], reg_revision = 0\<rparr> cog wait_transaction run_executor 0 policy_requirement =
      (policy_requirement, run_executor\<lparr>xe_pending := [task_for cog wait_transaction policy_requirement wait_binding]\<rparr>, 1)" for cog
    by (simp add: dispatch_one_def wait_binding_for submit_def run_executor_def)
  show ?thesis
    by (simp add: handle_message_def handle_proposal_def k wait_open r dispatch_resolvers_def d Let_def o
        store_transaction_def wait_core_def)
qed

lemma wait_reach: "core_reach ref_foundation policy_draft wait_core"
proof -
  obtain x' where "handle_message ref_foundation policy_draft 0 (run_proposal\<lparr>im_activation_receipts := []\<rparr>)
      (wait_start, run_executor, no_drain) = Some (wait_core, x', no_drain)"
    using wait_step by blast
  moreover have "cc_minter wait_start \<noteq> - 1" by (simp add: wait_start_def core_init_def)
  ultimately have "core_step ref_foundation policy_draft wait_start wait_core" by (intro core_stepI)
  then show ?thesis unfolding wait_start_def by (rule core_reach_step [OF core_reach_init])
qed

definition wait_receipt :: evidence_receipt where
  "wait_receipt = blank_receipt\<lparr>er_id := 6, er_requirement := policy_identity, er_resolver := rb_resolver wait_binding,
     er_type := RT_CanonicalRecall, er_evidence_type := CanonicalRecord, er_source_revision := ''rev'',
     er_subject := ''policy'', er_content_digest := [1], er_policy_digest := replicate 32 3, er_generation := 1\<rparr>"

definition wait_message :: ingress_message where
  "wait_message = run_proposal\<lparr>im_kind := EvidenceDelivery, im_transaction := 1, im_requirement := policy_identity,
     im_receipt := wait_receipt\<rparr>"

lemma wait_verdict: "receipt_verdict 5 wait_message wait_transaction policy_requirement wait_core = Rej_None"
proof -
  have "cc_registry wait_core = \<lparr>rg_bindings = [wait_binding], reg_revision = 0\<rparr>"
    "ck_generation (ct_correlation wait_transaction) = 1" "pc_policy_digest (cc_cognition wait_core) = replicate 32 3"
    by (simp_all add: wait_core_def wait_start_def core_init_def wait_transaction_def run_transaction_def
        begin_control_transaction_def run_key_def ex_transaction_def)
  moreover have "validate_receipt (im_receipt wait_message) wait_binding policy_identity 1 (replicate 32 3) 5 = Rej_None"
    by (simp add: wait_message_def wait_receipt_def blank_receipt_def validate_receipt_def wait_binding_def)
  ultimately show ?thesis by (simp add: receipt_verdict_def wait_binding_for)
qed

definition wait_satisfied :: prepared_requirement where
  "wait_satisfied = policy_requirement\<lparr>pr_status := Satisfied, pr_evidence := [''receipt:'' @ to_string_u64 6]\<rparr>"

lemma wait_delivered:
  "\<exists>C' t'. handle_evidence policy_draft 5 wait_message wait_core no_drain = (C', no_drain) \<and>
     transaction C' 1 = Some t' \<and> requirements t' = [wait_satisfied] \<and> ct_phase t' = ReDeliberationRequired"
proof -
  have t: "cc_transactions wait_core 1 = Some wait_transaction"
    "requirements wait_transaction = [policy_requirement]" "im_requirement wait_message = policy_identity"
    "ct_id wait_transaction = 1" "cc_outstanding wait_core 1 = Some 1" "im_transaction wait_message = 1"
    "\<not> terminal wait_transaction" "pk_failure (ct_packet wait_transaction) = PF_None"
    by (simp_all add: wait_core_def wait_message_def wait_transaction_def run_transaction_def
        begin_control_transaction_def terminal_def)
  have p: "pr_status policy_requirement = Pending" "pr_blocking policy_requirement"
    "pr_boundary policy_requirement = BeforeJudgment" "pr_evidence policy_requirement = []"
    by (simp_all add: policy_requirement_def)
  have i: "er_id (im_receipt wait_message) = 6" by (simp add: wait_message_def wait_receipt_def)
  have nt: "\<not> terminal (set_requirements ps wait_transaction)" for ps
    using t(7) by (simp add: terminal_def)
  show ?thesis
    by (simp add: handle_evidence_def t p wait_verdict Let_def report_received_def reevaluate_after_reports_def nt
        store_transaction_def transaction_def wait_satisfied_def i)
qed

theorem evidence_needs_valid_receipt_witness:
  "find_for_kind_and_view (cc_registry wait_core) MandatoryRecall ''default'' = [wait_binding] \<and>
   validate_receipt wait_receipt wait_binding policy_identity 1 (replicate 32 3) 5 = Rej_None"
proof -
  obtain C' t' where h: "handle_evidence policy_draft 5 wait_message wait_core no_drain = (C', no_drain)"
    and t': "transaction C' 1 = Some t'" "requirements t' = [wait_satisfied]"
    using wait_delivered by blast
  have t: "transaction wait_core 1 = Some wait_transaction" "requirements wait_transaction = [policy_requirement]"
    by (simp_all add: transaction_def wait_core_def wait_transaction_def)
  have p: "pr_status policy_requirement = Pending" "pr_status wait_satisfied = Satisfied"
    "identity_of wait_satisfied = identity_of policy_requirement"
    by (simp_all add: policy_requirement_def wait_satisfied_def identity_of_def)
  have m: "policy_requirement \<in> set (requirements wait_transaction)" "wait_satisfied \<in> set (requirements t')"
    using t t' by simp_all
  have k: "im_requirement wait_message = policy_identity" "im_receipt wait_message = wait_receipt"
    "ck_generation (ct_correlation wait_transaction) = 1" "pc_policy_digest (cc_cognition wait_core) = replicate 32 3"
    "ri_kind policy_identity = MandatoryRecall" "rg_bindings (cc_registry wait_core) = [wait_binding]"
    by (simp_all add: wait_message_def wait_core_def wait_start_def core_init_def wait_transaction_def
        run_transaction_def begin_control_transaction_def run_key_def ex_transaction_def policy_identity_def)
  from evidence_needs_valid_receipt [OF policy_draft_laws wait_reach h t(1) m(1) p(1) t'(1) m(2) p(3,2)]
  show ?thesis unfolding k by (auto simp: find_for_kind_and_view_def k split: if_splits)
qed

theorem unknown_failure_settles_witness:
  "\<exists>C' t'. handle_failure policy_draft (wait_message\<lparr>im_requirement := policy_identity\<lparr>ri_subject := ''other''\<rparr>\<rparr>) wait_core no_drain = (C', no_drain) \<and>
     cc_transactions C' 1 = Some t' \<and> requirements t' = [policy_requirement] \<and> ct_phase t' \<noteq> RequirementsDerived"
proof -
  let ?m = "wait_message\<lparr>im_requirement := policy_identity\<lparr>ri_subject := ''other''\<rparr>\<rparr>"
  have t: "cc_transactions wait_core 1 = Some wait_transaction" "ct_id wait_transaction = 1"
    "ct_phase wait_transaction = RequirementsDerived" "cc_outstanding wait_core 1 = Some 1" "im_transaction ?m = 1"
    "requirements wait_transaction = [policy_requirement]"
    by (simp_all add: wait_core_def wait_message_def wait_transaction_def run_transaction_def begin_control_transaction_def)
  have "im_requirement ?m \<notin> identity_of ` set (requirements wait_transaction)"
    by (simp add: t(6) policy_identity_def)
  from unknown_failure_settles [OF policy_draft_laws t(1-5) this, of no_drain 0] t(6) show ?thesis by force
qed

theorem dispatch_exact_witness:
  "\<exists>t' C' x' tasks. dispatch_resolvers wait_start run_executor wait_transaction = (t', C', x') \<and>
     xe_pending x' = tasks \<and> map rt_identity tasks = [policy_identity]"
proof -
  obtain t' C' x' where d: "dispatch_resolvers wait_start run_executor wait_transaction = (t', C', x')"
    by (metis prod_cases3)
  have R: "requirements wait_transaction = [policy_requirement]"
    "cc_registry wait_start = \<lparr>rg_bindings = [wait_binding], reg_revision = 0\<rparr>"
    by (simp_all add: wait_transaction_def wait_start_def core_init_def)
  have "pr_blocking policy_requirement" "pr_status policy_requirement = Pending"
    by (simp_all add: policy_requirement_def)
  moreover from this have "requirements t' = [policy_requirement]"
    using d by (auto simp: dispatch_resolvers_def R dispatch_one_def wait_binding_for submit_def run_executor_def)
  ultimately show ?thesis
    using dispatch_exact [OF d] d by (auto simp: run_executor_def)
qed

theorem drain_handles_all_witness:
  "\<exists>C' x' r' q'. drain ref_foundation policy_draft (\<lambda>_. 5) 0 (run_start, run_executor, no_drain)
       \<lparr>iq_capacity = 4, iq_messages = [run_proposal, run_proposal], iq_closed = False\<rparr> = Some ((C', x', r'), q') \<and>
     dr_processed r' = 2 \<and> iq_messages q' = [] \<and>
     core_run ref_foundation policy_draft [(5, run_proposal), (5, run_proposal)] C' \<and>
     (\<exists>i t. transaction C' i = Some t \<and> ct_correlation t = run_key)"
proof -
  let ?q = "\<lparr>iq_capacity = 4, iq_messages = [run_proposal, run_proposal], iq_closed = False\<rparr>"
  have "pc_snapshot (cc_cognition run_start) \<noteq> None"
    by (simp add: run_start_def core_init_def ex_transaction_def begin_control_transaction_def)
  moreover have "\<forall>(now, m) \<in> set []. digestible ref_foundation m" by simp
  moreover have "\<forall>m \<in> set (iq_messages ?q). digestible ref_foundation m"
    using run_digest by (auto simp: digestible_def run_proposal_def)
  moreover have "unat (cc_minter run_start) + length (iq_messages ?q) < 2 ^ 64"
    by (simp add: run_start_def core_init_def)
  moreover have "im_kind run_proposal = Proposal" "im_correlation run_proposal = run_key"
    by (simp_all add: run_proposal_def)
  ultimately show ?thesis
    using drain_handles_all [OF policy_draft_laws run_start_run, of ?q "\<lambda>_. 5" 0 run_executor no_drain]
    by (force simp: no_drain_def upt_conv_Cons)
qed

end
