(* ===== verification/System.thy ===== *)
theory System
  imports Core_Properties
begin

text \<open>
  The control core together with the executor and the ingress queue: the resolver task that
  \<^verbatim>\<open>dispatch_resolvers\<close> builds (\<^verbatim>\<open>state.cpp\<close>), its report and the retry loop that posts it.
  The injected mechanism is a parameter; an exception it throws is the absence of a receipt.
  \<^verbatim>\<open>try_push\<close> takes its message by value, so an attempt that fails leaves the caller with a
  moved-from message, whose strings and vectors are empty and whose plain fields are unchanged.
\<close>

section \<open>Resolver tasks\<close>

type_synonym resolver_mechanism =
  "resolver_binding \<Rightarrow> requirement_identity \<Rightarrow> receipt_context \<Rightarrow> evidence_receipt option"

definition blank_identity :: requirement_identity where
  "blank_identity = \<lparr>ri_kind = MandatoryRecall, ri_subject = [], ri_boundary = BeforeJudgment, ri_blocking = True\<rparr>"

definition blank_action :: observed_action where
  "blank_action =
     \<lparr>oa_adapter = 0, oa_session = 0, oa_actor = 0, oa_capability = 0, oa_operation = [], oa_target = [],
      oa_argument_digest = replicate 32 0, oa_argument_blob = []\<rparr>"

definition blank_message :: ingress_message where
  "blank_message =
     \<lparr>im_kind = Proposal,
      im_correlation = \<lparr>ck_generation = 0, ck_adapter = 0, ck_session = 0, ck_actor = 0, ck_action = 0\<rparr>,
      im_action = blank_action, im_causal_parent = None, im_activation_receipts = [], im_transaction = 0,
      im_requirement = blank_identity, im_receipt = blank_receipt, im_sequence = 0\<rparr>"

definition task_context :: "resolver_task \<Rightarrow> u64 \<Rightarrow> receipt_context" where
  "task_context k now =
     \<lparr>rc_generation = rt_generation k, rc_policy_digest = rt_policy_digest k,
      rc_source_revision = rt_source_revision k, rc_resolver_build = ''loopback'', rc_now_ms = now\<rparr>"

definition task_report :: "resolver_mechanism option \<Rightarrow> u64 \<Rightarrow> resolver_task \<Rightarrow> ingress_message" where
  "task_report mechanism now k =
     (let report = blank_message\<lparr>im_transaction := rt_transaction k, im_requirement := rt_identity k\<rparr> in
      case (case mechanism of None \<Rightarrow> None
            | Some f \<Rightarrow> f (rt_binding k) (rt_identity k) (task_context k now)) of
        Some receipt \<Rightarrow> report\<lparr>im_kind := EvidenceDelivery, im_receipt := receipt\<rparr>
      | None \<Rightarrow> report\<lparr>im_kind := ResolutionFailure\<rparr>)"

definition moved_from :: "ingress_message \<Rightarrow> ingress_message" where
  "moved_from m =
     m\<lparr>im_action := (im_action m)\<lparr>oa_operation := [], oa_target := [], oa_argument_blob := []\<rparr>,
       im_activation_receipts := [],
       im_requirement := (im_requirement m)\<lparr>ri_subject := []\<rparr>,
       im_receipt := (im_receipt m)
         \<lparr>er_requirement := (er_requirement (im_receipt m))\<lparr>ri_subject := []\<rparr>,
          er_resolver := (er_resolver (im_receipt m))\<lparr>rv_name := []\<rparr>, er_resolver_build := [],
          er_source_revision := [], er_source_path := [], er_subject := [], er_source := []\<rparr>\<rparr>"

text \<open>One turn of the posting loop: done with the new queue, or the message left to retry with.\<close>

definition post_attempt ::
    "ingress_message ingress_queue \<Rightarrow> ingress_message \<Rightarrow> ingress_message ingress_queue + ingress_message" where
  "post_attempt q m = (case try_push q m of (True, q') \<Rightarrow> Inl q' | (False, q') \<Rightarrow> Inr (moved_from m))"

section \<open>A report that meets a full queue\<close>

text \<open>
  when the first attempt to post an evidence report meets a full queue, the message the loop
  finally posts names a requirement with an empty subject.  If no requirement of the transaction
  has an empty subject, the core drops it: the requirement stays pending, the report stays
  outstanding, and the transaction stays unsettled although its resolver succeeded.
\<close>

theorem retried_report_is_lost:
  assumes "f (rt_binding k) (rt_identity k) (task_context k now) = Some receipt"
    and "iq_capacity q \<le> length (iq_messages q)"
    and "cc_transactions C (rt_transaction k) = Some t"
    and "\<forall>p \<in> set (requirements t). cr_subject (pr_requirement p) \<noteq> []"
  shows "\<exists>m. post_attempt q (task_report (Some f) now k) = Inr m \<and> im_kind m = EvidenceDelivery \<and>
     handle_message F D later m (C, x, r) = Some (C, x, r\<lparr>dr_dropped_unknown := dr_dropped_unknown r + 1\<rparr>)"
proof -
  let ?m = "moved_from (task_report (Some f) now k)"
  have "post_attempt q (task_report (Some f) now k) = Inr ?m"
    using assms(2) by (simp add: post_attempt_def try_push_def)
  moreover have m: "im_kind ?m = EvidenceDelivery" "im_transaction ?m = rt_transaction k"
    "ri_subject (im_requirement ?m) = []"
    using assms(1) by (simp_all add: moved_from_def task_report_def Let_def)
  moreover have "find (\<lambda>p. identity_of p = im_requirement ?m) (requirements t) = None"
    using assms(4) m(3) unfolding find_None_iff identity_of_def
    by (metis requirement_identity.select_convs(2))
  ultimately show ?thesis
    using assms(3) by (simp add: handle_message_def handle_evidence_def)
qed

theorem retried_report_is_lost_witness:
  "\<exists>m. post_attempt \<lparr>iq_capacity = 1, iq_messages = [run_proposal], iq_closed = False\<rparr>
         (task_report (Some (\<lambda>_ _ _. Some wait_receipt)) 5
            (task_for (ct_cognition (ex_transaction Pending)) wait_transaction policy_requirement wait_binding)) = Inr m \<and>
     handle_message ref_foundation policy_draft 6 m (wait_core, run_executor, no_drain) =
       Some (wait_core, run_executor, no_drain\<lparr>dr_dropped_unknown := dr_dropped_unknown no_drain + 1\<rparr>)"
proof -
  let ?k = "task_for (ct_cognition (ex_transaction Pending)) wait_transaction policy_requirement wait_binding"
  have c: "cc_transactions wait_core (rt_transaction ?k) = Some wait_transaction"
    by (simp add: task_for_def wait_core_def wait_transaction_def run_transaction_def begin_control_transaction_def)
  have "\<forall>p \<in> set (requirements wait_transaction). cr_subject (pr_requirement p) \<noteq> []"
    by (simp add: wait_transaction_def policy_requirement_def)
  from retried_report_is_lost [where f = "\<lambda>_ _ _. Some wait_receipt" and now = 5 and later = 6 and
      q = "\<lparr>iq_capacity = 1, iq_messages = [run_proposal], iq_closed = False\<rparr>", OF refl _ c this]
  show ?thesis by fastforce
qed

end
