(* ===== verification/Framing.thy ===== *)
theory Framing
  imports Auth Contracts
begin

text \<open>
  Authenticated frames and the replay guard of a connection (\<^verbatim>\<open>ipc/framing.hpp\<close>,
  \<^verbatim>\<open>ipc/framing.cpp\<close>).  A frame is 32 header bytes, a 32-byte authentication code over header and
  body, and the body.
\<close>

section \<open>Frames\<close>

definition header_len :: nat where "header_len = 32"
definition mac_len :: nat where "mac_len = 32"
definition frame_prefix :: nat where "frame_prefix = header_len + mac_len"
definition frame_magic :: u32 where "frame_magic = 0x51565231"
definition protocol_version :: u16 where "protocol_version = 1"
definition max_body_bytes :: nat where "max_body_bytes = 1024 * 1024"
definition max_frame_bytes :: nat where "max_frame_bytes = max_body_bytes + 64"

record frame_header =
  fh_magic :: u32
  fh_proto :: u16
  fh_flags :: u16
  fh_body_len :: u64
  fh_request_id :: u64
  fh_connection_seq :: u64

record verified_frame =
  vf_header :: frame_header
  vf_body :: bytes

definition err_auth :: error where "err_auth = mk_error Cat_invalid_argument 62"
definition err_frame :: error where "err_frame = mk_error Cat_invalid_argument 64"

text \<open>The fields before the authentication code; the length field describes the actual body.\<close>

definition header_bytes :: "foundation \<Rightarrow> frame_header \<Rightarrow> nat \<Rightarrow> bytes" where
  "header_bytes F h n =
     enc_u32 F (fh_magic h) @ enc_u32 F (ucast (fh_proto h) OR push_bit 16 (ucast (fh_flags h))) @
     enc_u64 F (of_nat n) @ enc_u64 F (fh_request_id h) @ enc_u64 F (fh_connection_seq h)"

definition frame_encode :: "foundation \<Rightarrow> secret_key \<Rightarrow> frame_header \<Rightarrow> bytes \<Rightarrow> bytes" where
  "frame_encode F key h body =
     (let prefix = header_bytes F h (length body)
      in prefix @ hmac_sha256 F key (prefix @ body) @ body)"

definition frame_u32 :: "foundation \<Rightarrow> bytes \<Rightarrow> nat \<Rightarrow> u32" where
  "frame_u32 F bs offset = (case dec_u32 F (take 4 (drop offset bs)) of Some v \<Rightarrow> v | None \<Rightarrow> 0)"

definition frame_u64 :: "foundation \<Rightarrow> bytes \<Rightarrow> nat \<Rightarrow> u64" where
  "frame_u64 F bs offset = (case dec_u64 F (take 8 (drop offset bs)) of Some v \<Rightarrow> v | None \<Rightarrow> 0)"

definition decode_header :: "foundation \<Rightarrow> bytes \<Rightarrow> frame_header" where
  "decode_header F bs =
     (let proto_flags = frame_u32 F bs 4 in
      \<lparr>fh_magic = frame_u32 F bs 0, fh_proto = ucast (proto_flags AND 0xFFFF),
       fh_flags = ucast (drop_bit 16 proto_flags), fh_body_len = frame_u64 F bs 8,
       fh_request_id = frame_u64 F bs 16, fh_connection_seq = frame_u64 F bs 24\<rparr>)"

definition frame_decode :: "foundation \<Rightarrow> secret_key \<Rightarrow> bytes \<Rightarrow> verified_frame res" where
  "frame_decode F key bs =
     (if length bs < frame_prefix \<or> max_frame_bytes < length bs then Inl err_frame
      else
        let h = decode_header F bs in
        if fh_magic h \<noteq> frame_magic then Inl err_frame
        else if fh_proto h \<noteq> protocol_version then Inl err_frame
        else if fh_body_len h \<noteq> of_nat (length bs - frame_prefix) then Inl err_frame
        else if of_nat max_body_bytes < fh_body_len h then Inl err_frame
        else if \<not> constant_time_equal (take mac_len (drop header_len bs))
                  (hmac_sha256 F key (take header_len bs @ drop frame_prefix bs))
        then Inl err_auth
        else Inr \<lparr>vf_header = h, vf_body = drop frame_prefix bs\<rparr>)"

section \<open>Replay guard\<close>

definition window_ms :: u64 where "window_ms = 120000"
definition nonce_cache :: nat where "nonce_cache = 256"

definition hash_nonce :: "foundation \<Rightarrow> bytes \<Rightarrow> u64" where
  "hash_nonce F nonce = foldl (\<lambda>h b. (h XOR ucast b) * fnv_prime F) (fnv_basis F) nonce"

record replay_guard =
  rp_recent :: "bytes list"
  rp_seen :: "u64 set"
  rp_last_seq :: u64
  rp_wall_ms :: u64

definition guard_init :: replay_guard where
  "guard_init = \<lparr>rp_recent = [], rp_seen = {}, rp_last_seq = 0, rp_wall_ms = 0\<rparr>"

definition note_wall_clock :: "replay_guard \<Rightarrow> u64 \<Rightarrow> replay_guard" where
  "note_wall_clock g now = g\<lparr>rp_wall_ms := now\<rparr>"

definition drift :: "u64 \<Rightarrow> u64 \<Rightarrow> u64" where
  "drift reference timestamp = (if reference < timestamp then timestamp - reference else reference - timestamp)"

definition remember :: "foundation \<Rightarrow> bytes \<Rightarrow> replay_guard \<Rightarrow> replay_guard" where
  "remember F nonce g =
     (let recent = rp_recent g @ [nonce]; seen = insert (hash_nonce F nonce) (rp_seen g) in
      if nonce_cache < length recent
      then g\<lparr>rp_recent := tl recent, rp_seen := seen - {hash_nonce F (hd recent)}\<rparr>
      else g\<lparr>rp_recent := recent, rp_seen := seen\<rparr>)"

definition guard_accept ::
    "foundation \<Rightarrow> replay_guard \<Rightarrow> u64 \<Rightarrow> bytes \<Rightarrow> u64 \<Rightarrow> u64 \<Rightarrow> bool \<times> replay_guard" where
  "guard_accept F g connection_seq nonce timestamp_ms now_ms =
     (if connection_seq \<le> rp_last_seq g then (False, g)
      else if window_ms < drift (if rp_wall_ms g \<noteq> 0 then rp_wall_ms g else now_ms) timestamp_ms then (False, g)
      else if length nonce \<noteq> 16 then (False, g)
      else if hash_nonce F nonce \<in> rp_seen g then (False, g)
      else (True, (remember F nonce g)\<lparr>rp_last_seq := connection_seq\<rparr>))"

section \<open>The decoder accepts exactly the encodings\<close>

lemma low_half: "w AND 0xFFFF = take_bit 16 (w :: u32)"
  by (simp add: take_bit_eq_mask mask_eq_exp_minus_1)

lemma halves_of_word [simp]:
  fixes p f :: u16
  shows "ucast ((ucast p OR push_bit 16 (ucast f) :: u32) AND 0xFFFF) = p"
    and "ucast (drop_bit 16 (ucast p OR push_bit 16 (ucast f) :: u32)) = f"
  unfolding low_half
  by (rule bit_word_eqI, auto simp: bit_simps dest: bit_imp_le_length)+

lemma word_of_halves [simp]:
  fixes w :: u32
  shows "ucast (ucast (w AND 0xFFFF) :: u16) OR push_bit 16 (ucast (ucast (drop_bit 16 w) :: u16)) = w"
  unfolding low_half by (rule bit_word_eqI) (auto simp: bit_simps)

lemma take_drop_split: "k \<le> n \<Longrightarrow> take n xs = take k xs @ take (n - k) (drop k xs)"
  by (metis le_add_diff_inverse take_add)

context codec_laws
begin

lemma enc_frame_u32: "off + 4 \<le> length bs \<Longrightarrow> enc_u32 F (frame_u32 F bs off) = take 4 (drop off bs)"
  using le_bytes_le_value [of "take 4 (drop off bs)", where ?'a = 32]
  by (simp add: frame_u32_def dec_u32_le enc_u32_le)

lemma enc_frame_u64: "off + 8 \<le> length bs \<Longrightarrow> enc_u64 F (frame_u64 F bs off) = take 8 (drop off bs)"
  using le_bytes_le_value [of "take 8 (drop off bs)", where ?'a = 64]
  by (simp add: frame_u64_def dec_u64_le enc_u64_le)

lemma length_header_bytes [simp]: "length (header_bytes F h n) = header_len"
  by (simp add: header_bytes_def header_len_def)

lemma decode_header_bytes:
  "decode_header F (header_bytes F h n @ rest) = h\<lparr>fh_body_len := of_nat n\<rparr>"
  by (cases h) (simp add: decode_header_def header_bytes_def frame_u32_def frame_u64_def Let_def del: drop_bit_or)

lemma header_bytes_decode:
  assumes "header_len \<le> length bs"
  shows "header_bytes F (decode_header F bs) (unat (fh_body_len (decode_header F bs))) = take header_len bs"
proof -
  have "take 32 bs = take 4 bs @ take 4 (drop 4 bs) @ take 8 (drop 8 bs) @ take 8 (drop 16 bs) @ take 8 (drop 24 bs)"
    using take_add [of 4 28 bs] take_add [of 4 24 "drop 4 bs"] take_add [of 8 16 "drop 8 bs"]
      take_add [of 8 8 "drop 16 bs"] by simp
  then show ?thesis
    using assms
    by (simp add: header_bytes_def decode_header_def Let_def header_len_def enc_frame_u32 enc_frame_u64)
qed

lemma decode_encode:
  assumes "length (hmac_sha256 F key (header_bytes F h (length body) @ body)) = mac_len"
    and "fh_magic h = frame_magic" "fh_proto h = protocol_version" "fh_body_len h = of_nat (length body)"
    and "length body \<le> max_body_bytes"
  shows "frame_decode F key (frame_encode F key h body) = Inr \<lparr>vf_header = h, vf_body = body\<rparr>"
proof -
  let ?bs = "frame_encode F key h body"
  let ?mac = "hmac_sha256 F key (header_bytes F h (length body) @ body)"
  have bs: "?bs = header_bytes F h (length body) @ ?mac @ body" by (simp add: frame_encode_def Let_def)
  have parts: "take header_len ?bs = header_bytes F h (length body)" "take mac_len (drop header_len ?bs) = ?mac"
    "drop frame_prefix ?bs = body" "length ?bs = frame_prefix + length body"
    using assms(1) by (simp_all add: bs frame_prefix_def)
  have h: "decode_header F ?bs = h" using assms(4) by (simp add: bs decode_header_bytes)
  have "\<not> of_nat max_body_bytes < (of_nat (length body) :: u64)"
    using assms(5) by (simp add: word_less_nat_alt unat_of_nat max_body_bytes_def)
  then show ?thesis
    using assms parts h
    by (simp add: frame_decode_def Let_def constant_time_equal_iff max_frame_bytes_def frame_prefix_def header_len_def
        mac_len_def)
qed

lemma encode_decode:
  assumes "frame_decode F key bs = Inr f"
  shows "bs = frame_encode F key (vf_header f) (vf_body f) \<and> fh_magic (vf_header f) = frame_magic \<and>
     fh_proto (vf_header f) = protocol_version \<and> fh_body_len (vf_header f) = of_nat (length (vf_body f)) \<and>
     length (vf_body f) \<le> max_body_bytes"
proof -
  from assms have len: "frame_prefix \<le> length bs" "length bs \<le> max_frame_bytes"
    and f: "vf_header f = decode_header F bs" "vf_body f = drop frame_prefix bs"
    and m: "fh_magic (decode_header F bs) = frame_magic" "fh_proto (decode_header F bs) = protocol_version"
    and l: "fh_body_len (decode_header F bs) = of_nat (length bs - frame_prefix)"
    and mac: "take mac_len (drop header_len bs) = hmac_sha256 F key (take header_len bs @ drop frame_prefix bs)"
    by (auto simp: frame_decode_def Let_def constant_time_equal_iff split: if_splits)
  have n: "unat (of_nat (length bs - frame_prefix) :: u64) = length bs - frame_prefix"
    using len by (simp add: unat_of_nat take_bit_nat_eq_self max_frame_bytes_def max_body_bytes_def del: of_nat_diff)
  have head: "header_bytes F (decode_header F bs) (length bs - frame_prefix) = take header_len bs"
    using header_bytes_decode [of bs] len(1) n l by (simp add: frame_prefix_def)
  have "bs = take header_len bs @ take mac_len (drop header_len bs) @ drop frame_prefix bs"
    by (metis append_take_drop_id drop_drop add.commute frame_prefix_def)
  also have "\<dots> = frame_encode F key (vf_header f) (vf_body f)"
    using head mac len(1) by (simp add: frame_encode_def Let_def f)
  finally have "bs = frame_encode F key (vf_header f) (vf_body f)" .
  moreover have "length (drop frame_prefix bs) \<le> max_body_bytes"
    using len by (simp add: max_frame_bytes_def frame_prefix_def header_len_def mac_len_def)
  ultimately show ?thesis using m l f by simp
qed

end

text \<open>
  the decoder verifies a byte string to a frame exactly when the string is the encoding of
  that frame under the same key, the frame has the protocol's magic and version, its length field is
  the length of its body, and the body is at most one mebibyte.  Every other string is refused with
  the frame code or the authentication code.
\<close>

theorem frame_decode_exact:
  assumes "codec_laws F" "\<And>bs. length (sha256 F bs) = 32"
  shows "(frame_decode F key bs = Inr f \<longleftrightarrow>
      bs = frame_encode F key (vf_header f) (vf_body f) \<and> fh_magic (vf_header f) = frame_magic \<and>
      fh_proto (vf_header f) = protocol_version \<and> fh_body_len (vf_header f) = of_nat (length (vf_body f)) \<and>
      length (vf_body f) \<le> max_body_bytes) \<and>
    (frame_decode F key bs = Inl e \<longrightarrow> e = err_frame \<or> e = err_auth)"
proof -
  have "length (hmac_sha256 F key m) = mac_len" for m
    using assms(2) by (simp add: hmac_sha256_def Let_def mac_len_def)
  then have "frame_decode F key bs = Inr f"
    if "bs = frame_encode F key (vf_header f) (vf_body f)" "fh_magic (vf_header f) = frame_magic"
      "fh_proto (vf_header f) = protocol_version" "fh_body_len (vf_header f) = of_nat (length (vf_body f))"
      "length (vf_body f) \<le> max_body_bytes"
    using codec_laws.decode_encode [OF assms(1), of key "vf_header f" "vf_body f"] that by simp
  moreover have "e = err_frame \<or> e = err_auth" if "frame_decode F key bs = Inl e"
    using that by (auto simp: frame_decode_def Let_def split: if_splits)
  ultimately show ?thesis using codec_laws.encode_decode [OF assms(1)] by blast
qed

definition ex_header :: frame_header where
  "ex_header = \<lparr>fh_magic = frame_magic, fh_proto = protocol_version, fh_flags = 3, fh_body_len = 2,
     fh_request_id = 9, fh_connection_seq = 1\<rparr>"

theorem frame_decode_exact_witness:
  "frame_decode ref_foundation (replicate 32 5) (frame_encode ref_foundation (replicate 32 5) ex_header [1, 2]) =
     Inr \<lparr>vf_header = ex_header, vf_body = [1, 2]\<rparr>"
proof -
  have "length (sha256 ref_foundation bs) = 32" for bs by (simp add: ref_foundation_def)
  from frame_decode_exact [OF ref_codec_laws this,
      of "replicate 32 5" "frame_encode ref_foundation (replicate 32 5) ex_header [1, 2]"
         "\<lparr>vf_header = ex_header, vf_body = [1, 2]\<rparr>"]
  show ?thesis by (simp add: ex_header_def max_body_bytes_def)
qed

section \<open>Replays within a connection\<close>

text \<open>
  A request as the connection hands it to the guard; the journal clock may be noted before it.
\<close>

record guard_request =
  gr_wall :: "u64 option"
  gr_seq :: u64
  gr_nonce :: bytes
  gr_timestamp :: u64
  gr_now :: u64

definition note_wall :: "replay_guard \<Rightarrow> u64 option \<Rightarrow> replay_guard" where
  "note_wall g w = (case w of Some t \<Rightarrow> note_wall_clock g t | None \<Rightarrow> g)"

definition guard_attempt :: "foundation \<Rightarrow> replay_guard \<Rightarrow> guard_request \<Rightarrow> bool \<times> replay_guard" where
  "guard_attempt F g r =
     guard_accept F (note_wall g (gr_wall r)) (gr_seq r) (gr_nonce r) (gr_timestamp r) (gr_now r)"

lemma note_wall_sel [simp]:
  "rp_recent (note_wall g w) = rp_recent g" "rp_seen (note_wall g w) = rp_seen g"
  "rp_last_seq (note_wall g w) = rp_last_seq g" "w = Some t \<Longrightarrow> rp_wall_ms (note_wall g w) = t"
  by (cases w; simp add: note_wall_def note_wall_clock_def)+

text \<open>No element repeats among the \<open>k\<close> that follow it.\<close>

primrec windowed :: "nat \<Rightarrow> 'a list \<Rightarrow> bool" where
  "windowed k [] \<longleftrightarrow> True"
| "windowed k (x # xs) \<longleftrightarrow> x \<notin> set (take k xs) \<and> windowed k xs"

lemma windowed_map: "windowed k (map f xs) \<Longrightarrow> windowed k xs"
  by (induction xs) (auto simp: take_map)

lemma windowed_distinct: "length xs \<le> Suc k \<Longrightarrow> windowed k xs \<longleftrightarrow> distinct xs"
  by (induction xs) auto

lemma windowed_nth:
  assumes "windowed k xs" "i < j" "j < length xs" "j \<le> i + k"
  shows "xs ! i \<noteq> xs ! j"
  using assms
proof (induction xs arbitrary: i j)
  case (Cons x xs)
  obtain j' where j: "j = Suc j'" using Cons.prems(2) by (cases j) auto
  show ?case
  proof (cases i)
    case 0
    then have "xs ! j' \<in> set (take k xs)"
      using Cons.prems j by (auto simp: in_set_conv_nth intro!: exI [of _ j'])
    then show ?thesis using Cons.prems(1) 0 j by auto
  next
    case (Suc i')
    then show ?thesis using Cons.IH [of i' j'] Cons.prems j by simp
  qed
qed simp

definition guard_ok :: "foundation \<Rightarrow> replay_guard \<Rightarrow> bool" where
  "guard_ok F g \<longleftrightarrow>
     rp_seen g = hash_nonce F ` set (rp_recent g) \<and> distinct (map (hash_nonce F) (rp_recent g)) \<and>
     length (rp_recent g) \<le> nonce_cache"

lemma guard_ok_init: "guard_ok F guard_init"
  by (simp add: guard_ok_def guard_init_def)

text \<open>An accepted request is new, and the guard forgets at most the oldest nonce.\<close>

lemma accept_facts:
  assumes "guard_ok F g" "guard_attempt F g r = (True, g')"
  shows "guard_ok F g' \<and> rp_last_seq g < gr_seq r \<and> rp_last_seq g' = gr_seq r \<and> length (gr_nonce r) = 16 \<and>
     (\<exists>old. rp_recent g @ [gr_nonce r] = old @ rp_recent g' \<and>
        (old = [] \<or> (\<exists>x. old = [x] \<and> length (rp_recent g') = nonce_cache \<and>
                        hash_nonce F x \<notin> hash_nonce F ` set (rp_recent g'))))"
proof -
  let ?h = "hash_nonce F" and ?n = "gr_nonce r" and ?rs = "rp_recent g"
  from assms(2) have a: "rp_last_seq g < gr_seq r" "length ?n = 16" "?h ?n \<notin> rp_seen g"
    and g': "g' = (remember F ?n (note_wall g (gr_wall r)))\<lparr>rp_last_seq := gr_seq r\<rparr>"
    by (auto simp: guard_attempt_def guard_accept_def not_le split: if_splits)
  note ok = assms(1) [unfolded guard_ok_def]
  show ?thesis
  proof (cases "length ?rs < nonce_cache")
    case True
    then have "rp_recent g' = ?rs @ [?n]" "rp_seen g' = insert (?h ?n) (rp_seen g)"
      by (simp_all add: g' remember_def Let_def)
    then show ?thesis using ok a True by (auto simp: guard_ok_def g')
  next
    case False
    with ok obtain x xs where rs: "?rs = x # xs" and n: "length ?rs = nonce_cache"
      by (cases ?rs) (auto simp: nonce_cache_def)
    then have r': "rp_recent g' = xs @ [?n]" "rp_seen g' = insert (?h ?n) (rp_seen g) - {?h x}"
      by (simp_all add: g' remember_def Let_def)
    have x: "?h x \<notin> ?h ` set (xs @ [?n])" using ok a(3) rs by auto
    have "rp_seen g' = ?h ` set (xs @ [?n])" using ok rs r'(2) x by (simp add: insert_Diff_if)
    moreover have "distinct (map ?h (xs @ [?n]))" using ok rs a(3) by simp
    ultimately have "guard_ok F g'" using rs r'(1) n by (simp add: guard_ok_def)
    then show ?thesis using a x rs r' n by (auto simp: g')
  qed
qed

lemma reject_facts:
  assumes "guard_attempt F g r = (False, g')"
  shows "rp_recent g' = rp_recent g \<and> rp_seen g' = rp_seen g \<and> rp_last_seq g' = rp_last_seq g"
  using assms by (auto simp: guard_attempt_def guard_accept_def split: if_splits)

lemma guard_run_windowed:
  "guard_ok F g \<Longrightarrow>
     windowed nonce_cache (map (hash_nonce F) (rp_recent g @ map gr_nonce (granted (guard_attempt F) g rs)))"
proof (induction rs arbitrary: g)
  case Nil
  then show ?case using windowed_distinct [of "map (hash_nonce F) (rp_recent g)" nonce_cache] by (simp add: guard_ok_def)
next
  case (Cons r rs)
  obtain ok g' where a: "guard_attempt F g r = (ok, g')" by (cases "guard_attempt F g r")
  let ?acc = "map gr_nonce (granted (guard_attempt F) g' rs)"
  show ?case
  proof (cases ok)
    case False
    with a have "guard_ok F g'" "rp_recent g' = rp_recent g"
      using reject_facts [of F g r g'] Cons.prems by (simp_all add: guard_ok_def)
    then show ?thesis using Cons.IH [of g'] a False by simp
  next
    case True
    with a accept_facts [OF Cons.prems, of r g'] obtain old where ok': "guard_ok F g'"
      and old: "rp_recent g @ [gr_nonce r] = old @ rp_recent g'"
      and new: "old = [] \<or> (\<exists>x. old = [x] \<and> length (rp_recent g') = nonce_cache \<and>
                              hash_nonce F x \<notin> hash_nonce F ` set (rp_recent g'))"
      by auto
    have "rp_recent g @ map gr_nonce (granted (guard_attempt F) g (r # rs)) = old @ rp_recent g' @ ?acc"
      using a True old by simp
    then show ?thesis using Cons.IH [OF ok'] new by auto
  qed
qed

lemma guard_run_seqs:
  "guard_ok F g \<Longrightarrow> sorted_wrt (<) (rp_last_seq g # map gr_seq (granted (guard_attempt F) g rs))"
proof (induction rs arbitrary: g)
  case (Cons r rs)
  obtain ok g' where a: "guard_attempt F g r = (ok, g')" by (cases "guard_attempt F g r")
  show ?case
  proof (cases ok)
    case True
    then show ?thesis
      using a accept_facts [OF Cons.prems, of r g'] Cons.IH [of g'] by (auto intro: order.strict_trans)
  next
    case False
    then have "guard_ok F g'" using a reject_facts [of F g r g'] Cons.prems by (simp add: guard_ok_def)
    then show ?thesis using a False Cons.IH [of g'] reject_facts [of F g r g'] by simp
  qed
qed simp

lemma drift_bound:
  assumes "drift reference timestamp \<le> window_ms"
  shows "unat timestamp \<le> unat reference + 120000 \<and> unat reference \<le> unat timestamp + 120000"
  using assms unat_sub [of reference timestamp] unat_sub [of timestamp reference]
  by (auto simp: drift_def window_ms_def word_le_nat_alt word_less_nat_alt split: if_splits)

text \<open>
  The clock a request is measured against: the one noted last, with this request or with any
  before it, and the receiver's own clock as long as none was noted.
\<close>

definition noted_clock :: "guard_request list \<Rightarrow> u64" where
  "noted_clock rs = fold (\<lambda>r w. case gr_wall r of Some t \<Rightarrow> t | None \<Rightarrow> w) rs 0"

definition reference_clock :: "guard_request list \<Rightarrow> guard_request \<Rightarrow> u64" where
  "reference_clock before r =
     (if noted_clock (before @ [r]) \<noteq> 0 then noted_clock (before @ [r]) else gr_now r)"

abbreviation guard_after :: "foundation \<Rightarrow> guard_request list \<Rightarrow> replay_guard" where
  "guard_after F rs \<equiv> fold (\<lambda>r g. snd (guard_attempt F g r)) rs guard_init"

lemma attempt_wall: "rp_wall_ms (snd (guard_attempt F g r)) = (case gr_wall r of Some t \<Rightarrow> t | None \<Rightarrow> rp_wall_ms g)"
  by (auto simp: guard_attempt_def guard_accept_def remember_def note_wall_def note_wall_clock_def Let_def
      split: option.splits)

lemma wall_after: "rp_wall_ms (guard_after F rs) = noted_clock rs"
  by (induction rs rule: rev_induct)
     (auto simp: noted_clock_def guard_init_def attempt_wall split: option.splits)

lemma accepted_drift:
  assumes "granted (guard_attempt F) guard_init (before @ [r]) = granted (guard_attempt F) guard_init before @ [r]"
  shows "drift (reference_clock before r) (gr_timestamp r) \<le> window_ms"
proof -
  let ?g = "guard_after F before"
  have "granted (guard_attempt F) ?g [r] = [r]" using assms unfolding granted_append by simp
  then have "fst (guard_attempt F ?g r)" by (auto split: prod.splits if_splits)
  moreover have "rp_wall_ms (note_wall ?g (gr_wall r)) = noted_clock (before @ [r])"
    by (simp add: note_wall_def note_wall_clock_def wall_after noted_clock_def split: option.splits)
  ultimately show ?thesis
    by (auto simp: guard_attempt_def guard_accept_def reference_clock_def not_less split: if_splits)
qed

text \<open>
  C28: over every sequence of requests on one connection the accepted sequence numbers strictly
  increase, no nonce is accepted again within the next 256 acceptances, and the timestamp of every
  accepted request lies within two minutes of the journal clock noted last, with that request or
  with any earlier one, accepted or not, or of the receiver's own clock while none was noted.
\<close>

theorem replay_guard_sound:
  assumes acc_def: "acc = granted (guard_attempt F) guard_init rs"
  shows "sorted_wrt (<) (map gr_seq acc) \<and>
     (\<forall>i j. i < j \<and> j < length acc \<and> j \<le> i + 256 \<longrightarrow> gr_nonce (acc ! i) \<noteq> gr_nonce (acc ! j)) \<and>
     (\<forall>before r later. rs = before @ r # later \<and>
        granted (guard_attempt F) guard_init (before @ [r]) = granted (guard_attempt F) guard_init before @ [r] \<longrightarrow>
        unat (gr_timestamp r) \<le> unat (reference_clock before r) + 120000 \<and>
        unat (reference_clock before r) \<le> unat (gr_timestamp r) + 120000)"
proof (intro conjI allI impI)
  show "sorted_wrt (<) (map gr_seq acc)"
    using guard_run_seqs [OF guard_ok_init, of F rs] by (simp add: acc_def)
  have w: "windowed nonce_cache (map gr_nonce acc)"
    using guard_run_windowed [OF guard_ok_init, of F rs]
    by (intro windowed_map [of _ "hash_nonce F"]) (simp add: acc_def guard_init_def)
  show "gr_nonce (acc ! i) \<noteq> gr_nonce (acc ! j)" if "i < j \<and> j < length acc \<and> j \<le> i + 256" for i j
    using windowed_nth [OF w, of i j] that by (simp add: nonce_cache_def)
  fix before r later
  assume "rs = before @ r # later \<and>
    granted (guard_attempt F) guard_init (before @ [r]) = granted (guard_attempt F) guard_init before @ [r]"
  then show "unat (gr_timestamp r) \<le> unat (reference_clock before r) + 120000"
    "unat (reference_clock before r) \<le> unat (gr_timestamp r) + 120000"
    using drift_bound [OF accepted_drift] by blast+
qed

definition ex_request :: "u64 option \<Rightarrow> u64 \<Rightarrow> byte \<Rightarrow> guard_request" where
  "ex_request w q b = \<lparr>gr_wall = w, gr_seq = q, gr_nonce = replicate 16 b, gr_timestamp = 500001, gr_now = 7\<rparr>"

text \<open>The clock is noted with the first request; the second is measured against it, not against its own 7 ms.\<close>

theorem replay_guard_sound_witness:
  "granted (guard_attempt ref_foundation) guard_init [ex_request (Some 500000) 1 1, ex_request None 2 2] =
     [ex_request (Some 500000) 1 1, ex_request None 2 2] \<and>
   reference_clock [ex_request (Some 500000) 1 1] (ex_request None 2 2) = 500000 \<and>
   unat (gr_timestamp (ex_request None 2 2)) \<le> unat (500000 :: u64) + 120000 \<and>
   gr_nonce (ex_request (Some 500000) 1 1) \<noteq> gr_nonce (ex_request None 2 2)"
proof -
  let ?a = "ex_request (Some 500000) 1 1" and ?b = "ex_request None 2 2"
  have n: "hash_nonce ref_foundation (replicate 16 1) \<noteq> hash_nonce ref_foundation (replicate 16 2)"
    by code_simp
  have g: "granted (guard_attempt ref_foundation) guard_init [?a, ?b] = [?a, ?b]"
    "granted (guard_attempt ref_foundation) guard_init [?a] = [?a]"
    using n by (simp_all add: word_le_nat_alt guard_attempt_def guard_accept_def guard_init_def ex_request_def note_wall_def
        note_wall_clock_def drift_def window_ms_def remember_def nonce_cache_def Let_def)
  have c: "reference_clock [?a] ?b = 500000" by (simp add: reference_clock_def noted_clock_def ex_request_def)
  have s: "[?a, ?b] = [?a] @ ?b # []" by simp
  note R = replay_guard_sound [OF refl, of ref_foundation "[?a, ?b]", unfolded g]
  have "gr_nonce ([?a, ?b] ! 0) \<noteq> gr_nonce ([?a, ?b] ! 1)"
    using spec [OF spec [OF conjunct1 [OF conjunct2 [OF R]], of 0], of 1] by simp
  moreover have "unat (gr_timestamp ?b) \<le> unat (reference_clock [?a] ?b) + 120000"
    using conjunct2 [OF conjunct2 [OF R]] s g by (metis append_Cons append_Nil)
  ultimately show ?thesis using g(1) c by simp
qed

end
