(* ===== verification/Json.thy ===== *)
theory Json
  imports Prelude
begin

text \<open>
  The bounded JSON codec (\<^verbatim>\<open>jsonx/json_codec.hpp\<close>, \<^verbatim>\<open>jsonx/json_codec.cpp\<close>): value model, accessors,
  strict parser and deterministic writer.  The parser's position is the suffix of the input that is
  left, and a parsing function returns its result with the new suffix.  Code points are natural
  numbers: they stay below \<open>2 ^ 21\<close>, far from the width of the source's \<^verbatim>\<open>u32\<close>.
\<close>

section \<open>Values\<close>

datatype json =
    JNull
  | JBool bool
  | JNumber u64
  | JString string
  | JArray "json list"
  | JObject "(string \<times> json) list"

datatype json_kind = K_Null | K_Bool | K_Number | K_String | K_Array | K_Object

fun kind_of :: "json \<Rightarrow> json_kind" where
  "kind_of JNull = K_Null"
| "kind_of (JBool _) = K_Bool"
| "kind_of (JNumber _) = K_Number"
| "kind_of (JString _) = K_String"
| "kind_of (JArray _) = K_Array"
| "kind_of (JObject _) = K_Object"

fun json_find :: "json \<Rightarrow> string \<Rightarrow> json option" where
  "json_find (JObject members) key = map_of members key"
| "json_find _ key = None"

definition json_has :: "json \<Rightarrow> string \<Rightarrow> bool" where
  "json_has v key \<longleftrightarrow> json_find v key \<noteq> None"

definition json_is :: "json \<Rightarrow> string \<Rightarrow> json_kind \<Rightarrow> bool" where
  "json_is v key expected \<longleftrightarrow> (case json_find v key of Some w \<Rightarrow> kind_of w = expected | None \<Rightarrow> False)"

definition number_or :: "json \<Rightarrow> string \<Rightarrow> u64 \<Rightarrow> u64" where
  "number_or v key fallback = (case json_find v key of Some (JNumber n) \<Rightarrow> n | _ \<Rightarrow> fallback)"

definition string_or :: "json \<Rightarrow> string \<Rightarrow> string \<Rightarrow> string" where
  "string_or v key fallback = (case json_find v key of Some (JString s) \<Rightarrow> s | _ \<Rightarrow> fallback)"

section \<open>Bounds, errors, bytes\<close>

definition max_input_bytes :: nat where "max_input_bytes = 1024 * 1024"
definition max_depth :: nat where "max_depth = 8"

definition malformed :: error where "malformed = mk_error Cat_invalid_argument 64"
definition bounds_error :: error where "bounds_error = mk_error Cat_resource_exhausted 65"

abbreviation byte_of :: "char \<Rightarrow> nat" where "byte_of c \<equiv> of_char c"

abbreviation quote :: char where "quote \<equiv> CHR 0x22"
abbreviation backslash :: char where "backslash \<equiv> CHR 0x5C"

definition is_control_byte :: "char \<Rightarrow> bool" where
  "is_control_byte c \<longleftrightarrow> byte_of c < 0x20 \<or> byte_of c = 0x7F"

text \<open>
  The length of the UTF-8 sequence at the head of the text, 0 when there is none: overlong forms,
  surrogates and code points beyond the last plane are refused.
\<close>

fun continuation :: "nat \<Rightarrow> string \<Rightarrow> nat option" where
  "continuation cp [] = Some cp"
| "continuation cp (c # cs) =
     (if byte_of c AND 0xC0 \<noteq> 0x80 then None
      else continuation (push_bit 6 cp OR (byte_of c AND 0x3F)) cs)"

definition lead_shape :: "nat \<Rightarrow> (nat \<times> nat) option" where
  "lead_shape lead =
     (if lead AND 0xE0 = 0xC0 then Some (2, 0x80)
      else if lead AND 0xF0 = 0xE0 then Some (3, 0x800)
      else if lead AND 0xF8 = 0xF0 then Some (4, 0x10000)
      else None)"

definition utf8_sequence_length :: "string \<Rightarrow> nat" where
  "utf8_sequence_length s =
     (case s of [] \<Rightarrow> 0 | c # cs \<Rightarrow>
        let lead = byte_of c in
        if lead < 0x80 then 1
        else case lead_shape lead of
          None \<Rightarrow> 0
        | Some (n, minimum) \<Rightarrow>
            if length s < n then 0
            else case continuation (lead AND drop_bit n 0x7F) (take (n - 1) cs) of
              None \<Rightarrow> 0
            | Some cp \<Rightarrow>
                if cp < minimum \<or> 0x10FFFF < cp \<or> 0xD800 \<le> cp \<and> cp \<le> 0xDFFF then 0 else n)"

definition append_utf8 :: "nat \<Rightarrow> string" where
  "append_utf8 cp =
     map char_of
       (if cp < 0x80 then [cp]
        else if cp < 0x800 then [0xC0 OR drop_bit 6 cp, 0x80 OR (cp AND 0x3F)]
        else if cp < 0x10000
        then [0xE0 OR drop_bit 12 cp, 0x80 OR (drop_bit 6 cp AND 0x3F), 0x80 OR (cp AND 0x3F)]
        else [0xF0 OR drop_bit 18 cp, 0x80 OR (drop_bit 12 cp AND 0x3F),
              0x80 OR (drop_bit 6 cp AND 0x3F), 0x80 OR (cp AND 0x3F)])"

section \<open>Parser\<close>

type_synonym 'a parsed = "('a \<times> string) res"

definition is_ws :: "char \<Rightarrow> bool" where
  "is_ws c \<longleftrightarrow> c = CHR '' '' \<or> c = CHR 0x09 \<or> c = CHR 0x0D \<or> c = CHR 0x0A"

definition skip_ws :: "string \<Rightarrow> string" where
  "skip_ws s = dropWhile is_ws s"

text \<open>\<^verbatim>\<open>consume\<close>: the rest after the expected character, if it is next.\<close>

definition consume_char :: "char \<Rightarrow> string \<Rightarrow> string option" where
  "consume_char expected s = (case s of c # cs \<Rightarrow> if c = expected then Some cs else None | [] \<Rightarrow> None)"

definition is_digit :: "char \<Rightarrow> bool" where
  "is_digit c \<longleftrightarrow> 48 \<le> byte_of c \<and> byte_of c \<le> 57"

definition decimal :: "string \<Rightarrow> nat" where
  "decimal ds = foldl (\<lambda>n c. 10 * n + (byte_of c - 48)) 0 ds"

definition parse_number :: "string \<Rightarrow> json parsed" where
  "parse_number s =
     (let ds = takeWhile is_digit s; rest = dropWhile is_digit s in
      if s \<noteq> [] \<and> hd s \<in> {CHR ''-'', CHR ''+''} then Inl malformed
      else if rest \<noteq> [] \<and> hd rest \<in> {CHR ''.'', CHR ''e'', CHR ''E''} then Inl malformed
      else if ds = [] then Inl malformed
      else if 2 ^ 64 \<le> decimal ds then Inl malformed
      else Inr (JNumber (of_nat (decimal ds)), rest))"

definition hex_value :: "char \<Rightarrow> nat option" where
  "hex_value c =
     (let b = byte_of c in
      if 48 \<le> b \<and> b \<le> 57 then Some (b - 48)
      else if 97 \<le> b \<and> b \<le> 102 then Some (b - 97 + 10)
      else if 65 \<le> b \<and> b \<le> 70 then Some (b - 65 + 10)
      else None)"

fun hex_code :: "nat \<Rightarrow> string \<Rightarrow> nat option" where
  "hex_code cp [] = Some cp"
| "hex_code cp (c # cs) =
     (case hex_value c of None \<Rightarrow> None | Some d \<Rightarrow> hex_code (push_bit 4 cp OR d) cs)"

text \<open>The four digits after the escape letter.\<close>

definition parse_unicode_escape :: "string \<Rightarrow> string parsed" where
  "parse_unicode_escape s =
     (if length s < 4 then Inl malformed
      else case hex_code 0 (take 4 s) of
             None \<Rightarrow> Inl malformed
           | Some cp \<Rightarrow>
               if 0xD800 \<le> cp \<and> cp \<le> 0xDFFF then Inl malformed
               else Inr (append_utf8 cp, drop 4 s))"

definition simple_escape :: "char \<Rightarrow> char option" where
  "simple_escape c =
     (if c = quote then Some quote
      else if c = backslash then Some backslash
      else if c = CHR ''/'' then Some (CHR ''/'')
      else if c = CHR ''b'' then Some (CHR 0x08)
      else if c = CHR ''f'' then Some (CHR 0x0C)
      else if c = CHR ''n'' then Some (CHR 0x0A)
      else if c = CHR ''r'' then Some (CHR 0x0D)
      else if c = CHR ''t'' then Some (CHR 0x09)
      else None)"

lemma unicode_escape_shorter: "parse_unicode_escape s = Inr (t, rest) \<Longrightarrow> length rest < length s"
  by (auto simp: parse_unicode_escape_def split: if_splits option.splits)

function string_body :: "string \<Rightarrow> string \<Rightarrow> string parsed" where
  "string_body out s =
     (case s of [] \<Rightarrow> Inl malformed
      | c # cs \<Rightarrow>
          if c = quote then Inr (out, cs)
          else if c = backslash then
            (case cs of [] \<Rightarrow> Inl malformed
             | e # es \<Rightarrow>
                 case simple_escape e of
                   Some d \<Rightarrow> string_body (out @ [d]) es
                 | None \<Rightarrow>
                     if e = CHR ''u'' then
                       (case parse_unicode_escape es of
                          Inl er \<Rightarrow> Inl er
                        | Inr (t, rest) \<Rightarrow> string_body (out @ t) rest)
                     else Inl malformed)
          else if is_control_byte c then Inl malformed
          else
            let n = utf8_sequence_length s in
            if n = 0 then Inl malformed else string_body (out @ take n s) (drop n s))"
  by pat_completeness auto
termination
  by (relation "measure (\<lambda>(out, s). length s)") (auto dest: unicode_escape_shorter)

declare string_body.simps [simp del]

definition parse_string :: "string \<Rightarrow> string parsed" where
  "parse_string s = (case consume_char quote s of None \<Rightarrow> Inl malformed | Some rest \<Rightarrow> string_body [] rest)"

definition parse_literal :: "string \<Rightarrow> json \<Rightarrow> string \<Rightarrow> json parsed" where
  "parse_literal word v s =
     (if take (length word) s = word then Inr (v, drop (length word) s) else Inl malformed)"

text \<open>The values without nesting: strings, literals and numbers.\<close>

definition parse_scalar :: "string \<Rightarrow> json parsed" where
  "parse_scalar s =
     (case s of [] \<Rightarrow> Inl malformed
      | c # cs \<Rightarrow>
          if c = quote then
            (case parse_string s of Inl e \<Rightarrow> Inl e | Inr (t, rest) \<Rightarrow> Inr (JString t, rest))
          else if c = CHR ''t'' then parse_literal ''true'' (JBool True) s
          else if c = CHR ''f'' then parse_literal ''false'' (JBool False) s
          else if c = CHR ''n'' then parse_literal ''null'' JNull s
          else parse_number s)"

text \<open>
  \<^verbatim>\<open>parse_object\<close> and \<^verbatim>\<open>parse_array\<close> are their prologue (in \<open>parse_value\<close>) and their loop
  (\<open>object_members\<close>, \<open>array_items\<close>).
\<close>

function parse_value :: "nat \<Rightarrow> string \<Rightarrow> json parsed"
  and object_members :: "nat \<Rightarrow> (string \<times> json) list \<Rightarrow> string \<Rightarrow> json parsed"
  and array_items :: "nat \<Rightarrow> json list \<Rightarrow> string \<Rightarrow> json parsed" where
  "parse_value depth s =
     (if max_depth < depth then Inl bounds_error
      else case s of [] \<Rightarrow> Inl malformed
        | c # cs \<Rightarrow>
            if c = CHR ''{'' then
              (case consume_char (CHR ''}'') (skip_ws cs) of
                 Some rest \<Rightarrow> Inr (JObject [], rest)
               | None \<Rightarrow> object_members depth [] (skip_ws cs))
            else if c = CHR ''['' then
              (case consume_char (CHR '']'') (skip_ws cs) of
                 Some rest \<Rightarrow> Inr (JArray [], rest)
               | None \<Rightarrow> array_items depth [] (skip_ws cs))
            else parse_scalar s)"
| "object_members depth members s =
     (case parse_string (skip_ws s) of
        Inl e \<Rightarrow> Inl e
      | Inr (key, s1) \<Rightarrow>
          (case consume_char (CHR '':'') (skip_ws s1) of
             None \<Rightarrow> Inl malformed
           | Some s2 \<Rightarrow>
               (case parse_value (depth + 1) (skip_ws s2) of
                  Inl e \<Rightarrow> Inl e
                | Inr (v, s3) \<Rightarrow>
                    if key \<in> fst ` set members then Inl malformed
                    else
                      (case consume_char (CHR '','') (skip_ws s3) of
                         Some s4 \<Rightarrow> object_members depth (members @ [(key, v)]) s4
                       | None \<Rightarrow>
                           (case consume_char (CHR ''}'') (skip_ws s3) of
                              Some s4 \<Rightarrow> Inr (JObject (members @ [(key, v)]), s4)
                            | None \<Rightarrow> Inl malformed)))))"
| "array_items depth items s =
     (case parse_value (depth + 1) (skip_ws s) of
        Inl e \<Rightarrow> Inl e
      | Inr (v, s1) \<Rightarrow>
          (case consume_char (CHR '','') (skip_ws s1) of
             Some s2 \<Rightarrow> array_items depth (items @ [v]) s2
           | None \<Rightarrow>
               (case consume_char (CHR '']'') (skip_ws s1) of
                  Some s2 \<Rightarrow> Inr (JArray (items @ [v]), s2)
                | None \<Rightarrow> Inl malformed)))"
  by pat_completeness auto

lemma length_skip_ws: "length (skip_ws s) \<le> length s"
  by (simp add: skip_ws_def length_dropWhile_le)

lemma consume_char_Some: "consume_char c s = Some r \<longleftrightarrow> s = c # r"
  by (auto simp: consume_char_def split: list.splits if_splits)

lemma consume_char_shorter: "consume_char c (skip_ws s) = Some r \<Longrightarrow> length r < length s"
  using length_skip_ws [of s] by (auto simp: consume_char_Some)

lemma string_body_shorter: "string_body out s = Inr (t, r) \<Longrightarrow> length r < length s"
proof (induction out s arbitrary: t r rule: string_body.induct)
  case (1 out s)
  show ?case
  proof (cases s)
    case Nil
    then show ?thesis using 1(4) by (simp add: string_body.simps)
  next
    case (Cons c cs)
    then show ?thesis
      using 1(4) 1(1) [OF Cons] 1(2) [OF Cons] 1(3) [OF Cons]
      by (subst (asm) string_body.simps)
         (fastforce simp: Let_def split: if_splits list.splits option.splits sum.splits prod.splits
            dest: unicode_escape_shorter)
  qed
qed

lemma parse_string_shorter: "parse_string s = Inr (t, r) \<Longrightarrow> length r < length s"
  by (auto simp: parse_string_def consume_char_Some split: option.splits dest: string_body_shorter)

lemma parse_number_shorter: "parse_number s = Inr (v, r) \<Longrightarrow> length r < length s"
  by (cases s) (auto simp: parse_number_def Let_def less_Suc_eq_le length_dropWhile_le split: if_splits)

lemma parse_literal_shorter: "parse_literal word v s = Inr (w, r) \<Longrightarrow> word \<noteq> [] \<Longrightarrow> length r < length s"
  by (cases s; cases word) (auto simp: parse_literal_def split: if_splits)

lemma parse_scalar_shorter: "parse_scalar s = Inr (v, r) \<Longrightarrow> length r < length s"
  by (auto simp: parse_scalar_def split: list.splits if_splits sum.splits prod.splits
      dest: parse_string_shorter parse_number_shorter parse_literal_shorter)

lemma parse_shorter_partial:
  "parse_value_object_members_array_items_dom (Inl (depth, s)) \<Longrightarrow>
     parse_value depth s = Inr (v, r) \<longrightarrow> length r < length s"
  "parse_value_object_members_array_items_dom (Inr (Inl (depth, ms, s))) \<Longrightarrow>
     object_members depth ms s = Inr (v, r) \<longrightarrow> length r < length s"
  "parse_value_object_members_array_items_dom (Inr (Inr (depth, vs, s))) \<Longrightarrow>
     array_items depth vs s = Inr (v, r) \<longrightarrow> length r < length s"
proof (induction depth s and depth ms s and depth vs s arbitrary: v r and v r and v r
    rule: parse_value_object_members_array_items.pinduct)
  case (1 depth s v r)
  show ?case
  proof
    assume p: "parse_value depth s = Inr (v, r)"
    then obtain c cs where s: "s = c # cs" "\<not> max_depth < depth"
      by (auto simp: parse_value.psimps [OF "1.hyps"] split: if_splits list.splits)
    note q = p [unfolded parse_value.psimps [OF "1.hyps"]]
    consider "c = CHR ''{''" | "c = CHR ''[''" | "c \<noteq> CHR ''{''" "c \<noteq> CHR ''[''" by blast
    then show "length r < length s"
    proof cases
      case c: 1
      have q1: "(case consume_char (CHR ''}'') (skip_ws cs) of Some rest \<Rightarrow> Inr (JObject [], rest)
          | None \<Rightarrow> object_members depth [] (skip_ws cs)) = Inr (v, r)"
        using q unfolding s(1) c by (simp add: s(2))
      show ?thesis
      proof (cases "consume_char (CHR ''}'') (skip_ws cs)")
        case None
        with q1 have "object_members depth [] (skip_ws cs) = Inr (v, r)" by simp
        then show ?thesis using "1.IH"(1) [OF s(2,1) c None, of v r] length_skip_ws [of cs] s(1) by simp
      next
        case (Some rest)
        then show ?thesis using q1 consume_char_shorter [OF Some] s(1) by simp
      qed
    next
      case c: 2
      have q1: "(case consume_char (CHR '']'') (skip_ws cs) of Some rest \<Rightarrow> Inr (JArray [], rest)
          | None \<Rightarrow> array_items depth [] (skip_ws cs)) = Inr (v, r)"
        using q unfolding s(1) c by (simp add: s(2))
      show ?thesis
      proof (cases "consume_char (CHR '']'') (skip_ws cs)")
        case None
        with q1 have "array_items depth [] (skip_ws cs) = Inr (v, r)" by simp
        then show ?thesis using "1.IH"(2) [OF s(2,1) _ c None, of v r] c length_skip_ws [of cs] s(1) by simp
      next
        case (Some rest)
        then show ?thesis using q1 consume_char_shorter [OF Some] s(1) by simp
      qed
    next
      case 3
      then have "parse_scalar s = Inr (v, r)" using q s by simp
      then show ?thesis by (rule parse_scalar_shorter)
    qed
  qed
next
  case (2 depth ms s v r)
  show ?case
  proof
    assume "object_members depth ms s = Inr (v, r)"
    then obtain key s1 s2 w s3 where a: "parse_string (skip_ws s) = Inr (key, s1)"
      "consume_char (CHR '':'') (skip_ws s1) = Some s2" "parse_value (depth + 1) (skip_ws s2) = Inr (w, s3)"
      "key \<notin> fst ` set ms" and b:
      "(\<exists>s4. consume_char (CHR '','') (skip_ws s3) = Some s4 \<and> object_members depth (ms @ [(key, w)]) s4 = Inr (v, r)) \<or>
       consume_char (CHR ''}'') (skip_ws s3) = Some r"
      by (auto simp: object_members.psimps [OF "2.hyps"]
          split: sum.splits prod.splits option.splits if_splits)
    have "length s3 < length s"
      using "2.IH"(1) [OF a(1) refl a(2), of w s3] a(3) parse_string_shorter [OF a(1)] consume_char_shorter [OF a(2)]
        length_skip_ws [of s] length_skip_ws [of s2] by simp
    with b show "length r < length s"
      using "2.IH"(2) [OF a(1) refl a(2,3) refl a(4)] by (fastforce dest: consume_char_shorter)
  qed
next
  case (3 depth vs s v r)
  show ?case
  proof
    assume "array_items depth vs s = Inr (v, r)"
    then obtain w s1 where a: "parse_value (depth + 1) (skip_ws s) = Inr (w, s1)" and b:
      "(\<exists>s2. consume_char (CHR '','') (skip_ws s1) = Some s2 \<and> array_items depth (vs @ [w]) s2 = Inr (v, r)) \<or>
       consume_char (CHR '']'') (skip_ws s1) = Some r"
      by (auto simp: array_items.psimps [OF "3.hyps"]
          split: sum.splits prod.splits option.splits if_splits)
    have "length s1 < length s" using "3.IH"(1) [of w s1] a length_skip_ws [of s] by simp
    with b show "length r < length s"
      using "3.IH"(2) [OF a refl] by (fastforce dest: consume_char_shorter)
  qed
qed

lemma skip_shorter: "length r \<le> length s \<Longrightarrow> length (skip_ws r) \<le> length s"
  using length_skip_ws [of r] by simp

termination parse_value
proof (relation "measure (\<lambda>x. case x of Inl (d, s) \<Rightarrow> 2 * length s | Inr (Inl (d, ms, s)) \<Rightarrow> 2 * length s + 1
    | Inr (Inr (d, vs, s)) \<Rightarrow> 2 * length s + 1)", goal_cases)
  case (4 depth ms s b key s1 s2)
  then show ?case
    using parse_string_shorter [of "skip_ws s" key s1] consume_char_shorter [of "CHR '':''" s1 s2] length_skip_ws [of s]
      length_skip_ws [of s2] by simp
next
  case (5 depth ms s b key s1 s2 b' v s3 s4)
  then have "length s3 < length (skip_ws s2)" using parse_shorter_partial(1) [of "depth + 1" "skip_ws s2" v s3] by simp
  with 5 show ?case
    using parse_string_shorter [of "skip_ws s" key s1] consume_char_shorter [of "CHR '':''" s1 s2] length_skip_ws [of s]
      length_skip_ws [of s2] consume_char_shorter [of "CHR '',''" s3 s4] by simp
next
  case (7 depth vs s b v s1 s2)
  then have "length s1 < length (skip_ws s)" using parse_shorter_partial(1) [of "depth + 1" "skip_ws s" v s1] by simp
  with 7 show ?case using length_skip_ws [of s] consume_char_shorter [of "CHR '',''" s1 s2] by simp
qed (auto simp: less_Suc_eq_le length_skip_ws)

declare parse_value.simps [simp del] object_members.simps [simp del] array_items.simps [simp del]

definition json_parse :: "string \<Rightarrow> json res" where
  "json_parse s =
     (if max_input_bytes < length s then Inl bounds_error
      else case parse_value 1 (skip_ws s) of
             Inl e \<Rightarrow> Inl e
           | Inr (v, rest) \<Rightarrow> if skip_ws rest = [] then Inr v else Inl malformed)"

section \<open>Writer\<close>

definition short_escape :: "char \<Rightarrow> char option" where
  "short_escape c =
     (if c = quote then Some quote
      else if c = backslash then Some backslash
      else if c = CHR 0x08 then Some (CHR ''b'')
      else if c = CHR 0x0C then Some (CHR ''f'')
      else if c = CHR 0x0A then Some (CHR ''n'')
      else if c = CHR 0x0D then Some (CHR ''r'')
      else if c = CHR 0x09 then Some (CHR ''t'')
      else None)"

definition hex_char :: "nat \<Rightarrow> char" where
  "hex_char d = (if d < 10 then char_of (48 + d) else char_of (87 + d))"

text \<open>\<^verbatim>\<open>%04x\<close> of a byte.\<close>

definition hex4 :: "nat \<Rightarrow> string" where
  "hex4 b = [hex_char 0, hex_char 0, hex_char (b div 16), hex_char (b mod 16)]"

function escape_body :: "string \<Rightarrow> string" where
  "escape_body s =
     (case s of [] \<Rightarrow> [quote]
      | c # cs \<Rightarrow>
          (case short_escape c of
             Some e \<Rightarrow> backslash # e # escape_body cs
           | None \<Rightarrow>
               if is_control_byte c then backslash # CHR ''u'' # hex4 (byte_of c) @ escape_body cs
               else
                 let n = utf8_sequence_length s in
                 if n = 0 then [quote] else take n s @ escape_body (drop n s)))"
  by pat_completeness auto
termination by (relation "measure length") auto

declare escape_body.simps [simp del]

definition write_string_escaped :: "string \<Rightarrow> string" where
  "write_string_escaped s = quote # escape_body s"

fun comma_join :: "string list \<Rightarrow> string" where
  "comma_join [] = []"
| "comma_join [x] = x"
| "comma_join (x # y # ys) = x @ CHR '','' # comma_join (y # ys)"

primrec write_value :: "json \<Rightarrow> string" where
  "write_value JNull = ''null''"
| "write_value (JBool b) = (if b then ''true'' else ''false'')"
| "write_value (JNumber n) = to_string_u64 n"
| "write_value (JString s) = write_string_escaped s"
| "write_value (JArray vs) = CHR ''['' # comma_join (map write_value vs) @ '']''"
| "write_value (JObject ms) =
     CHR ''{'' # comma_join (map (\<lambda>m. write_string_escaped (fst m) @ CHR '':'' # snd m)
       (map (map_prod id write_value) ms)) @ ''}''"

definition json_write :: "json \<Rightarrow> string" where
  "json_write v = write_value v"

section \<open>Well-formed values\<close>

function utf8_ok :: "string \<Rightarrow> bool" where
  "utf8_ok s \<longleftrightarrow>
     (if s = [] then True
      else let n = utf8_sequence_length s in if n = 0 then False else utf8_ok (drop n s))"
  by pat_completeness auto
termination by (relation "measure length") auto

declare utf8_ok.simps [simp del]

text \<open>The value may stand at nesting depth \<open>d\<close>: depth bound, valid text, distinct keys.\<close>

primrec json_ok :: "json \<Rightarrow> nat \<Rightarrow> bool" where
  "json_ok JNull = (\<lambda>d. d \<le> max_depth)"
| "json_ok (JBool b) = (\<lambda>d. d \<le> max_depth)"
| "json_ok (JNumber n) = (\<lambda>d. d \<le> max_depth)"
| "json_ok (JString s) = (\<lambda>d. d \<le> max_depth \<and> utf8_ok s)"
| "json_ok (JArray vs) = (\<lambda>d. d \<le> max_depth \<and> list_all (\<lambda>p. p (d + 1)) (map json_ok vs))"
| "json_ok (JObject ms) =
     (\<lambda>d. d \<le> max_depth \<and> distinct (map fst ms) \<and>
        list_all (\<lambda>m. utf8_ok (fst m) \<and> snd m (d + 1)) (map (map_prod id json_ok) ms))"

section \<open>Text survives the writer\<close>

lemma utf8_length_bound: "utf8_sequence_length s \<le> length s"
  by (auto simp: utf8_sequence_length_def Let_def lead_shape_def Suc_le_eq split: list.splits if_splits option.splits)

lemma lead_shape_bound: "lead_shape b = Some (n, m) \<Longrightarrow> 2 \<le> n"
  by (auto simp: lead_shape_def split: if_splits)

lemma utf8_length_prefix:
  assumes "utf8_sequence_length s = n" "n \<noteq> 0"
  shows "utf8_sequence_length (take n s @ rest) = n"
proof -
  obtain c cs where s: "s = c # cs" using assms by (cases s) (auto simp: utf8_sequence_length_def)
  show ?thesis
  proof (cases "byte_of c < 0x80")
    case True
    then show ?thesis using assms s by (auto simp: utf8_sequence_length_def)
  next
    case False
    then obtain k m cp where k: "lead_shape (byte_of c) = Some (k, m)" "\<not> length s < k"
        "continuation (byte_of c AND drop_bit k 0x7F) (take (k - 1) cs) = Some cp"
        "\<not> (cp < m \<or> 0x10FFFF < cp \<or> 0xD800 \<le> cp \<and> cp \<le> 0xDFFF)" "n = k"
      using assms s by (auto simp: utf8_sequence_length_def Let_def split: option.splits if_splits)
    have "2 \<le> k" using lead_shape_bound [OF k(1)] .
    then have t: "take n s @ rest = c # take (k - 1) cs @ rest" "take (k - 1) (take (k - 1) cs @ rest) = take (k - 1) cs"
      using k s by (cases k; simp)+
    show ?thesis
      unfolding t(1) using False k t(2) s \<open>2 \<le> k\<close>
      by (auto simp: utf8_sequence_length_def Let_def)
  qed
qed

lemma utf8_length_ascii: "byte_of c < 0x80 \<Longrightarrow> utf8_sequence_length (c # cs) = 1"
  by (simp add: utf8_sequence_length_def)

lemma short_escape_parsed:
  assumes "short_escape c = Some e"
  shows "simple_escape e = Some c \<and> byte_of c < 0x80"
proof -
  have "(c, e) \<in> {(quote, quote), (backslash, backslash), (CHR 0x08, CHR ''b''), (CHR 0x0C, CHR ''f''),
      (CHR 0x0A, CHR ''n''), (CHR 0x0D, CHR ''r''), (CHR 0x09, CHR ''t'')}"
    using assms unfolding short_escape_def by (simp split: if_split_asm)
  then show ?thesis by (elim insertE emptyE) (simp_all add: simple_escape_def)
qed

lemma hex_char_value: "d < 16 \<Longrightarrow> hex_value (hex_char d) = Some d"
  by (simp add: hex_value_def hex_char_def Let_def)

lemma nibbles: "push_bit 4 (b div 16) OR b mod 16 = b" for b :: nat
proof -
  have "b div 16 = drop_bit 4 b" "b mod 16 = take_bit 4 b" by (simp_all add: drop_bit_eq_div take_bit_eq_mod)
  then show ?thesis by (simp only:) (rule bit_eqI, auto simp: bit_simps)
qed

lemma hex4_parsed:
  assumes "is_control_byte c"
  shows "parse_unicode_escape (hex4 (byte_of c) @ rest) = Inr ([c], rest)"
proof -
  have b: "byte_of c < 128" using assms by (auto simp: is_control_byte_def)
  then have "hex_code 0 (hex4 (byte_of c)) = Some (byte_of c)"
    by (simp add: hex4_def hex_char_value nibbles)
  moreover have "append_utf8 (byte_of c) = [c]" using b by (simp add: append_utf8_def)
  ultimately show ?thesis using b by (simp add: parse_unicode_escape_def hex4_def)
qed

lemma escape_body_plain:
  assumes "short_escape c = None" "\<not> is_control_byte c" "utf8_sequence_length (c # cs) \<noteq> 0"
  shows "escape_body (c # cs) =
     take (utf8_sequence_length (c # cs)) (c # cs) @ escape_body (drop (utf8_sequence_length (c # cs)) (c # cs))"
  by (subst escape_body.simps) (use assms in \<open>simp add: Let_def\<close>)

lemma string_body_plain:
  assumes "c \<noteq> quote" "c \<noteq> backslash" "\<not> is_control_byte c" "utf8_sequence_length (c # cs) \<noteq> 0"
  shows "string_body out (c # cs) = string_body (out @ take (utf8_sequence_length (c # cs)) (c # cs))
     (drop (utf8_sequence_length (c # cs)) (c # cs))"
  by (subst string_body.simps) (use assms in \<open>simp add: Let_def\<close>)

lemma string_body_escape:
  "utf8_ok s \<Longrightarrow> string_body out (escape_body s @ rest) = Inr (out @ s, rest)"
proof (induction s arbitrary: out rule: escape_body.induct)
  case (1 s)
  show ?case
  proof (cases s)
    case Nil
    then show ?thesis by (simp add: escape_body.simps string_body.simps)
  next
    case (Cons c cs)
    have ok: "utf8_sequence_length s \<noteq> 0" "utf8_ok (drop (utf8_sequence_length s) s)"
      using "1.prems" [unfolded utf8_ok.simps [of s] Let_def] unfolding Cons by (simp_all split: if_splits)
    consider (short) e where "short_escape c = Some e" | (control) "short_escape c = None" "is_control_byte c"
      | (plain) "short_escape c = None" "\<not> is_control_byte c" by (cases "short_escape c") auto
    then show ?thesis
    proof cases
      case short
      have n: "utf8_sequence_length s = 1" using short_escape_parsed [OF short] Cons by (simp add: utf8_length_ascii)
      have "escape_body s = backslash # e # escape_body cs" using short Cons by (simp add: escape_body.simps)
      then have "string_body out (escape_body s @ rest) = string_body (out @ [c]) (escape_body cs @ rest)"
        using short_escape_parsed [OF short] by (simp add: string_body.simps [of out])
      also have "\<dots> = Inr ((out @ [c]) @ cs, rest)" using "1.IH"(3) [OF Cons short] ok(2) n Cons by simp
      finally show ?thesis using Cons by simp
    next
      case control
      have n: "utf8_sequence_length s = 1" using control Cons by (auto simp: utf8_length_ascii is_control_byte_def)
      have "escape_body s = backslash # CHR ''u'' # hex4 (byte_of c) @ escape_body cs"
        using control Cons by (simp add: escape_body.simps)
      then have "string_body out (escape_body s @ rest) = string_body (out @ [c]) (escape_body cs @ rest)"
        using hex4_parsed [OF control(2)] by (simp add: string_body.simps [of out] simple_escape_def)
      also have "\<dots> = Inr ((out @ [c]) @ cs, rest)" using "1.IH"(1) [OF Cons control] ok(2) n Cons by simp
      finally show ?thesis using Cons by simp
    next
      case plain
      let ?n = "utf8_sequence_length s"
      have e: "escape_body s = take ?n s @ escape_body (drop ?n s)"
        using escape_body_plain [of c cs] plain ok(1) Cons by simp
      have h: "take ?n s @ x = c # (take (?n - 1) cs @ x)" for x using ok(1) Cons by (cases ?n) simp_all
      have c: "c \<noteq> quote" "c \<noteq> backslash" using plain(1) by (auto simp: short_escape_def)
      let ?t = "escape_body (drop ?n s) @ rest"
      have "utf8_sequence_length (take ?n s @ ?t) = ?n" by (rule utf8_length_prefix [OF refl ok(1)])
      then have "string_body out (take ?n s @ ?t) =
          string_body (out @ take ?n (take ?n s @ ?t)) (drop ?n (take ?n s @ ?t))"
        using string_body_plain [of c "take (?n - 1) cs @ ?t" out] c plain(2) ok(1) unfolding h by simp
      then have "string_body out (escape_body s @ rest) = string_body (out @ take ?n s) ?t"
        using utf8_length_bound [of s] by (simp add: e)
      also have "\<dots> = Inr ((out @ take ?n s) @ drop ?n s, rest)"
        using "1.IH"(2) [OF Cons plain refl ok(1)] ok(2) by simp
      finally show ?thesis by simp
    qed
  qed
qed

section \<open>Values survive the writer\<close>

lemma decimal_snoc: "decimal (ds @ [c]) = 10 * decimal ds + (byte_of c - 48)"
  by (simp add: decimal_def)

lemma digits_of_decimal: "digits_of n \<noteq> [] \<and> list_all is_digit (digits_of n) \<and> decimal (digits_of n) = n"
proof (induction n rule: digits_of.induct)
  case (1 n)
  show ?case
  proof (cases "n < 10")
    case True
    then show ?thesis by (simp add: digits_of.simps decimal_def is_digit_def)
  next
    case False
    then show ?thesis
      using 1 [OF False] by (simp add: digits_of.simps [of n] decimal_snoc is_digit_def)
  qed
qed

definition stop :: "string \<Rightarrow> bool" where
  "stop rest \<longleftrightarrow> rest = [] \<or> hd rest \<in> {CHR '','', CHR '']'', CHR ''}''}"

lemma stop_simps [simp]: "stop []" "stop (CHR '','' # s)" "stop (CHR '']'' # s)" "stop (CHR ''}'' # s)"
  by (simp_all add: stop_def)

lemma parse_number_written:
  assumes "stop rest"
  shows "parse_number (to_string_u64 n @ rest) = Inr (JNumber n, rest)"
proof -
  let ?ds = "to_string_u64 n"
  have d: "?ds \<noteq> []" "\<And>c. c \<in> set ?ds \<Longrightarrow> is_digit c" "decimal ?ds = unat n"
    using digits_of_decimal [of "unat n"] by (simp_all add: to_string_u64_def list_all_iff)
  have r: "rest \<noteq> [] \<Longrightarrow> \<not> is_digit (hd rest)" "rest \<noteq> [] \<Longrightarrow> hd rest \<notin> {CHR ''.'', CHR ''e'', CHR ''E''}"
    using assms by (auto simp: stop_def is_digit_def)
  then have t: "takeWhile is_digit rest = []" "dropWhile is_digit rest = rest" by (cases rest; simp)+
  have "is_digit (hd ?ds)" using d(1,2) by simp
  then have "hd ?ds \<notin> {CHR ''-'', CHR ''+''}" by (auto simp: is_digit_def)
  moreover have "unat n < 2 ^ 64" using unsigned_less [of n, where ?'a = nat] by simp
  ultimately show ?thesis
    using d r(2) t by (auto simp: parse_number_def Let_def takeWhile_append2 dropWhile_append2)
qed

lemma digit_neq:
  "is_digit c \<Longrightarrow> c \<noteq> quote \<and> c \<noteq> CHR ''{'' \<and> c \<noteq> CHR ''['' \<and> c \<noteq> CHR ''t'' \<and> c \<noteq> CHR ''f'' \<and> c \<noteq> CHR ''n'' \<and>
     \<not> is_ws c \<and> c \<noteq> CHR '']'' \<and> c \<noteq> CHR ''}''"
  by (auto simp: is_digit_def is_ws_def)

lemma to_string_u64_head: "\<exists>c cs. to_string_u64 n = c # cs \<and> is_digit c"
  using digits_of_decimal [of "unat n"] by (cases "to_string_u64 n") (auto simp: to_string_u64_def)

lemma write_value_head:
  "\<exists>c cs. write_value v = c # cs \<and> \<not> is_ws c \<and> c \<noteq> CHR '']'' \<and> c \<noteq> CHR ''}''"
proof (cases v)
  case (JNumber n)
  then show ?thesis using to_string_u64_head [of n] digit_neq by auto
qed (auto simp: write_string_escaped_def is_ws_def)

lemma skip_ws_Cons: "skip_ws (c # s) = (if is_ws c then skip_ws s else c # s)"
  by (simp add: skip_ws_def)

lemma skip_ws_written [simp]: "skip_ws (write_value v @ rest) = write_value v @ rest"
  using write_value_head [of v] by (auto simp: skip_ws_Cons)

lemma skip_ws_mark [simp]:
  "skip_ws (quote # s) = quote # s" "skip_ws (CHR '':'' # s) = CHR '':'' # s" "skip_ws (CHR '','' # s) = CHR '','' # s"
  "skip_ws (CHR '']'' # s) = CHR '']'' # s" "skip_ws (CHR ''}'' # s) = CHR ''}'' # s" "skip_ws [] = []"
  by (simp_all add: skip_ws_def is_ws_def)

lemma parse_string_written [simp]:
  "utf8_ok t \<Longrightarrow> parse_string (write_string_escaped t @ rest) = Inr (t, rest)"
  by (simp add: parse_string_def write_string_escaped_def consume_char_def string_body_escape)

lemma parse_scalar_written:
  assumes "json_ok v d" "stop rest" "kind_of v \<notin> {K_Array, K_Object}"
  shows "parse_value d (write_value v @ rest) = Inr (v, rest)"
proof -
  have s: "parse_scalar (write_value v @ rest) = Inr (v, rest)"
  proof (cases v)
    case (JNumber n)
    then show ?thesis
      using to_string_u64_head [of n] digit_neq parse_number_written [OF assms(2), of n]
      by (auto simp: parse_scalar_def)
  next
    case (JString t)
    then have "parse_string (quote # escape_body t @ rest) = Inr (t, rest)"
      using assms(1) parse_string_written [of t rest] by (simp add: write_string_escaped_def)
    with JString show ?thesis by (simp add: parse_scalar_def write_string_escaped_def)
  qed (use assms in \<open>auto simp: parse_scalar_def parse_literal_def\<close>)
  obtain c cs where c: "write_value v = c # cs" "c \<noteq> CHR ''{''" "c \<noteq> CHR ''[''"
  proof (cases v)
    case (JNumber n)
    then show ?thesis using that to_string_u64_head [of n] digit_neq by auto
  next
    case (JBool b)
    then show ?thesis using that by (cases b) auto
  qed (use assms that in \<open>auto simp: write_string_escaped_def\<close>)
  have "\<not> max_depth < d" using assms(1) by (cases v) auto
  then show ?thesis using s c by (simp add: parse_value.simps)
qed

lemma array_items_written:
  assumes "\<And>v rest. v \<in> set vs \<Longrightarrow> stop rest \<Longrightarrow> parse_value (d + 1) (write_value v @ rest) = Inr (v, rest)"
    and "vs \<noteq> []"
  shows "array_items d items (comma_join (map write_value vs) @ CHR '']'' # rest) = Inr (JArray (items @ vs), rest)"
  using assms
proof (induction vs arbitrary: items)
  case (Cons v vs)
  then have v: "stop r \<Longrightarrow> parse_value (Suc d) (write_value v @ r) = Inr (v, r)" for r by simp
  show ?case
  proof (cases vs)
    case Nil
    then show ?thesis using v by (simp add: array_items.simps consume_char_def)
  next
    case (Cons w ws)
    then have "comma_join (map write_value (v # vs)) @ CHR '']'' # rest =
        write_value v @ CHR '','' # (comma_join (map write_value vs) @ CHR '']'' # rest)" by simp
    then show ?thesis
      using v Cons Cons.IH [of "items @ [v]"] Cons.prems by (simp add: array_items.simps [of d items] consume_char_def)
  qed
qed simp

abbreviation write_member :: "string \<times> json \<Rightarrow> string" where
  "write_member m \<equiv> write_string_escaped (fst m) @ CHR '':'' # write_value (snd m)"

lemma write_object: "write_value (JObject ms) = CHR ''{'' # comma_join (map write_member ms) @ ''}''"
  by (simp add: comp_def)

lemma object_members_written:
  assumes "\<And>m rest. m \<in> set ms \<Longrightarrow> stop rest \<Longrightarrow> parse_value (d + 1) (write_value (snd m) @ rest) = Inr (snd m, rest)"
    and "\<And>m. m \<in> set ms \<Longrightarrow> utf8_ok (fst m)" "distinct (map fst (members @ ms))" "ms \<noteq> []"
  shows "object_members d members (comma_join (map write_member ms) @ CHR ''}'' # rest) =
     Inr (JObject (members @ ms), rest)"
  using assms
proof (induction ms arbitrary: members)
  case (Cons m ms)
  have v: "stop r \<Longrightarrow> parse_value (Suc d) (write_value (snd m) @ r) = Inr (snd m, r)" for r
    using Cons.prems(1) [of m r] by simp
  have k: "utf8_ok (fst m)" "fst m \<notin> fst ` set members" using Cons.prems(2,3) by auto
  have w: "skip_ws (write_string_escaped (fst m) @ r) = write_string_escaped (fst m) @ r" for r
    by (simp add: write_string_escaped_def)
  show ?case
  proof (cases ms)
    case Nil
    then show ?thesis using v k w by (simp add: object_members.simps consume_char_def)
  next
    case (Cons m2 ms2)
    then have e: "comma_join (map write_member (m # ms)) @ CHR ''}'' # rest =
        write_string_escaped (fst m) @ CHR '':'' # write_value (snd m) @
          CHR '','' # (comma_join (map write_member ms) @ CHR ''}'' # rest)" by simp
    have "object_members d (members @ [m]) (comma_join (map write_member ms) @ CHR ''}'' # rest) =
        Inr (JObject ((members @ [m]) @ ms), rest)"
      using Cons Cons.prems by (intro Cons.IH) auto
    then show ?thesis
      unfolding e using v k w by (simp add: object_members.simps [of d members] consume_char_def)
  qed
qed simp

lemma parse_value_written:
  "json_ok v d \<Longrightarrow> stop rest \<Longrightarrow> parse_value d (write_value v @ rest) = Inr (v, rest)"
proof (induction v arbitrary: d rest)
  case (JArray vs)
  have d: "\<not> max_depth < d" using JArray.prems by auto
  have i: "parse_value (d + 1) (write_value v @ r) = Inr (v, r)" if "v \<in> set vs" "stop r" for v r
    using JArray.IH [OF that(1) _ that(2)] JArray.prems that(1) by (simp add: list_all_iff)
  show ?case
  proof (cases vs)
    case Nil
    then show ?thesis using d by (simp add: parse_value.simps consume_char_def)
  next
    case (Cons w ws)
    then obtain c cs where h: "comma_join (map write_value vs) = c # cs" "\<not> is_ws c" "c \<noteq> CHR '']''"
      using write_value_head [of w] by (cases ws) auto
    have "array_items d [] (comma_join (map write_value vs) @ CHR '']'' # rest) = Inr (JArray vs, rest)"
      using array_items_written [of vs d "[]" rest] i Cons by simp
    then show ?thesis using d h by (simp add: parse_value.simps skip_ws_Cons consume_char_def)
  qed
next
  case (JObject ms)
  have d: "\<not> max_depth < d" using JObject.prems by auto
  have i: "parse_value (d + 1) (write_value (snd m) @ r) = Inr (snd m, r)" if "m \<in> set ms" "stop r" for m r
    using JObject.IH [OF that(1), of "snd m"] JObject.prems that by (cases m) (auto simp: list_all_iff)
  have k: "utf8_ok (fst m)" if "m \<in> set ms" for m using JObject.prems that by (auto simp: list_all_iff)
  show ?case
  proof (cases ms)
    case Nil
    then show ?thesis using d by (simp add: parse_value.simps consume_char_def)
  next
    case (Cons m ms')
    then obtain cs where h: "comma_join (map write_member ms) = quote # cs"
      by (cases ms') (auto simp: write_string_escaped_def)
    have "object_members d [] (comma_join (map write_member ms) @ CHR ''}'' # rest) = Inr (JObject ms, rest)"
      using object_members_written [of ms d "[]" rest] i k Cons JObject.prems by simp
    then show ?thesis unfolding write_object using d h by (simp add: parse_value.simps consume_char_def)
  qed
qed (rule parse_scalar_written; simp)+

lemma parse_written:
  "json_ok v 1 \<Longrightarrow> length (json_write v) \<le> max_input_bytes \<Longrightarrow> json_parse (json_write v) = Inr v"
  using parse_value_written [of v 1 "[]"] skip_ws_written [of v "[]"]
  by (simp add: json_parse_def json_write_def)

text \<open>
  C29: what the writer emits for a well-formed value (nesting at most eight, valid UTF-8, distinct
  keys) is read back as that value whenever it fits the input bound.
\<close>

theorem json_roundtrip:
  assumes "json_ok v 1" "length (json_write v) \<le> max_input_bytes"
  shows "json_parse (json_write v) = Inr v"
  using assms by (rule parse_written)

definition ex_json :: json where
  "ex_json = JObject [(''k'', JArray [JNumber 12, JBool False, JNull]), (''s'', JString [CHR 0x0A, quote, CHR 0xC3, CHR 0xA9])]"

theorem json_roundtrip_witness:
  "json_parse (json_write ex_json) = Inr ex_json"
proof (rule json_roundtrip)
  have "utf8_ok [CHR 0x0A, quote, CHR 0xC3, CHR 0xA9]" "utf8_ok ''k''" "utf8_ok ''s''"
    by (simp_all add: utf8_ok.simps utf8_sequence_length_def lead_shape_def push_bit_eq_mult Let_def)
  then show "json_ok ex_json 1" by (simp add: ex_json_def max_depth_def)
  show "length (json_write ex_json) \<le> max_input_bytes"
    by (simp add: ex_json_def json_write_def write_string_escaped_def escape_body.simps short_escape_def
        is_control_byte_def utf8_sequence_length_def lead_shape_def push_bit_eq_mult to_string_u64_def digits_of.simps max_input_bytes_def
        Let_def)
qed

section \<open>The parser returns only well-formed values\<close>

lemma utf8_ok_piece:
  assumes "utf8_sequence_length s = n" "n \<noteq> 0"
  shows "utf8_ok (take n s)"
proof -
  have "utf8_sequence_length (take n s) = n" using utf8_length_prefix [OF assms, of "[]"] by simp
  moreover have "utf8_ok []" by (simp add: utf8_ok.simps)
  ultimately show ?thesis using assms(2) by (subst utf8_ok.simps) (simp add: Let_def)
qed

lemma utf8_ok_append: "utf8_ok a \<Longrightarrow> utf8_ok b \<Longrightarrow> utf8_ok (a @ b)"
proof (induction a rule: utf8_ok.induct)
  case (1 a)
  let ?n = "utf8_sequence_length a"
  show ?case
  proof (cases "a = []")
    case True
    then show ?thesis using "1.prems" by simp
  next
    case False
    with "1.prems"(1) [unfolded utf8_ok.simps [of a]] have n: "?n \<noteq> 0" "utf8_ok (drop ?n a)"
      by (auto simp: Let_def split: if_splits)
    have "utf8_sequence_length (take ?n a @ (drop ?n a @ b)) = ?n" by (rule utf8_length_prefix [OF refl n(1)])
    then have l: "utf8_sequence_length (a @ b) = ?n" by (metis append_assoc append_take_drop_id)
    have "drop ?n (a @ b) = drop ?n a @ b" using utf8_length_bound [of a] by simp
    moreover have "utf8_ok (drop ?n a @ b)" using "1.IH" [OF False refl n(1)] n "1.prems"(2) by simp
    ultimately show ?thesis using l n(1) by (subst utf8_ok.simps) (simp add: Let_def)
  qed
qed

lemma utf8_ok_ascii: "list_all (\<lambda>c. byte_of c < 0x80) s \<Longrightarrow> utf8_ok s"
proof (induction s)
  case Nil
  then show ?case by (simp add: utf8_ok.simps)
next
  case (Cons c s)
  then show ?case by (subst utf8_ok.simps) (simp add: utf8_length_ascii)
qed

lemma and_sextet: "n AND 0x3F = n mod 64" for n :: nat
proof -
  have "n AND mask 6 = take_bit 6 n" by (simp add: take_bit_eq_mask)
  then show ?thesis by (simp add: mask_eq_exp_minus_1 take_bit_eq_mod)
qed

lemma sextets: "push_bit 6 (b div 64) OR b mod 64 = b" for b :: nat
proof -
  have "b div 64 = drop_bit 6 b" "b mod 64 = take_bit 6 b" by (simp_all add: drop_bit_eq_div take_bit_eq_mod)
  then show ?thesis by (simp only:) (rule bit_eqI, auto simp: bit_simps)
qed

lemma all_below:
  assumes "P 0" "P 1" "list_all P [2..<n]" "x < n"
  shows "P x"
proof -
  consider "x = 0" | "x = 1" | "x \<in> set [2..<n]" using assms(4) by force
  then show ?thesis using assms(1-3) by cases (simp_all add: list_all_iff)
qed

lemma trailing_byte: "x < 64 \<Longrightarrow> 0x80 OR x < 256 \<and> (0x80 OR x) AND 0xC0 = 0x80 \<and> (0x80 OR x) AND 0x3F = x" for x :: nat
  by (rule all_below [of "\<lambda>x. 0x80 OR x < 256 \<and> (0x80 OR x) AND 0xC0 = 0x80 \<and> (0x80 OR x) AND 0x3F = x" 64])
     simp_all

lemma lead_two: "x < 32 \<Longrightarrow> 0xC0 OR x < 256 \<and> \<not> 0xC0 OR x < 0x80 \<and> (0xC0 OR x) AND 0xE0 = 0xC0 \<and> (0xC0 OR x) AND 0x1F = x"
  for x :: nat
  by (rule all_below [of "\<lambda>x. 0xC0 OR x < 256 \<and> \<not> 0xC0 OR x < 0x80 \<and> (0xC0 OR x) AND 0xE0 = 0xC0 \<and>
        (0xC0 OR x) AND 0x1F = x" 32]) simp_all

lemma lead_three: "x < 16 \<Longrightarrow> 0xE0 OR x < 256 \<and> \<not> 0xE0 OR x < 0x80 \<and> (0xE0 OR x) AND 0xE0 \<noteq> 0xC0 \<and>
    (0xE0 OR x) AND 0xF0 = 0xE0 \<and> (0xE0 OR x) AND 0x0F = x"
  for x :: nat
  by (rule all_below [of "\<lambda>x. 0xE0 OR x < 256 \<and> \<not> 0xE0 OR x < 0x80 \<and> (0xE0 OR x) AND 0xE0 \<noteq> 0xC0 \<and>
        (0xE0 OR x) AND 0xF0 = 0xE0 \<and> (0xE0 OR x) AND 0x0F = x" 16]) simp_all

lemma append_utf8_valid:
  assumes "cp < 0x10000" "\<not> (0xD800 \<le> cp \<and> cp \<le> 0xDFFF)"
  shows "utf8_ok (append_utf8 cp)"
proof -
  let ?s = "append_utf8 cp"
  note t = trailing_byte [of "cp mod 64"]
  consider "cp < 0x80" | "0x80 \<le> cp" "cp < 0x800" | "0x800 \<le> cp" by linarith
  then have "utf8_sequence_length ?s = length ?s \<and> ?s \<noteq> []"
  proof cases
    case 1
    then show ?thesis by (simp add: append_utf8_def utf8_sequence_length_def)
  next
    case 2
    then have l: "cp div 64 < 32" by linarith
    have "?s = [char_of (0xC0 OR cp div 64), char_of (0x80 OR cp mod 64)]"
      using 2 by (simp add: append_utf8_def drop_bit_eq_div and_sextet)
    then show ?thesis
      using lead_two [OF l] t 2 assms sextets [of cp]
      by (simp add: utf8_sequence_length_def lead_shape_def Let_def drop_bit_eq_div)
  next
    case 3
    then have l: "cp div 4096 < 16" using assms(1) by linarith
    have d: "cp div 4096 = cp div 64 div 64" by (simp add: div_mult2_eq [symmetric])
    have "?s = [char_of (0xE0 OR cp div 4096), char_of (0x80 OR cp div 64 mod 64), char_of (0x80 OR cp mod 64)]"
      using 3 assms by (simp add: append_utf8_def drop_bit_eq_div and_sextet)
    then show ?thesis
      using lead_three [OF l] t trailing_byte [of "cp div 64 mod 64"] 3 assms sextets [of cp] sextets [of "cp div 64"]
      by (simp add: utf8_sequence_length_def lead_shape_def Let_def drop_bit_eq_div d)
  qed
  then show ?thesis using utf8_ok_piece [of ?s "length ?s"] by simp
qed

lemma hex_value_bound: "hex_value c = Some d \<Longrightarrow> d < 16"
  by (auto simp: hex_value_def Let_def split: if_splits)

lemma hex_code_bound: "hex_code n cs = Some cp \<Longrightarrow> cp < (n + 1) * 16 ^ length cs"
proof (induction cs arbitrary: n)
  case (Cons c cs)
  then obtain d where d: "hex_value c = Some d" "hex_code (push_bit 4 n OR d) cs = Some cp"
    by (auto split: option.splits)
  have "push_bit 4 n OR d = 16 * n + d" using nibbles [of "16 * n + d"] hex_value_bound [OF d(1)] by simp
  then have "(push_bit 4 n OR d) + 1 \<le> (n + 1) * 16" using hex_value_bound [OF d(1)] by simp
  then have "((push_bit 4 n OR d) + 1) * 16 ^ length cs \<le> (n + 1) * 16 * 16 ^ length cs" by (rule mult_le_mono1)
  with Cons.IH [OF d(2)] show ?case by (simp add: algebra_simps)
qed simp

lemma unicode_escape_valid: "parse_unicode_escape s = Inr (t, r) \<Longrightarrow> utf8_ok t"
  using hex_code_bound [of 0 "take 4 s"]
  by (auto simp: parse_unicode_escape_def intro!: append_utf8_valid split: if_splits option.splits)

lemma simple_escape_valid: "simple_escape e = Some d \<Longrightarrow> utf8_ok [d]"
  using utf8_ok_piece [of "[d]" 1]
  by (auto simp: simple_escape_def utf8_length_ascii split: if_splits)

lemma string_body_valid: "string_body out s = Inr (t, r) \<Longrightarrow> utf8_ok out \<Longrightarrow> utf8_ok t"
proof (induction out s rule: string_body.induct)
  case (1 out s)
  show ?case
  proof (cases s)
    case Nil
    then show ?thesis using "1.prems" by (simp add: string_body.simps)
  next
    case (Cons c cs)
    note p = "1.prems"(1) [unfolded string_body.simps [of out s]]
    note v = utf8_ok_append [OF "1.prems"(2)]
    show ?thesis
      using p "1.prems"(2) "1.IH"(1) [OF Cons] "1.IH"(2) [OF Cons] "1.IH"(3) [OF Cons]
        v [OF simple_escape_valid] v [OF unicode_escape_valid] v [OF utf8_ok_piece [OF refl, of s]]
      unfolding Cons
      by (fastforce simp: Let_def split: if_splits list.splits option.splits sum.splits prod.splits)
  qed
qed

lemma parse_string_valid: "parse_string s = Inr (t, r) \<Longrightarrow> utf8_ok t"
  using string_body_valid [of "[]"] by (auto simp: parse_string_def utf8_ok.simps [of "[]"] split: option.splits)

lemma parse_scalar_valid: "parse_scalar s = Inr (v, r) \<Longrightarrow> d \<le> max_depth \<Longrightarrow> json_ok v d"
  by (auto simp: parse_scalar_def parse_literal_def parse_number_def Let_def split: list.splits if_splits sum.splits
      dest: parse_string_valid)

definition members_ok :: "(string \<times> json) list \<Rightarrow> nat \<Rightarrow> bool" where
  "members_ok ms d \<longleftrightarrow> distinct (map fst ms) \<and> (\<forall>m \<in> set ms. utf8_ok (fst m) \<and> json_ok (snd m) d)"

lemma json_ok_object: "json_ok (JObject ms) d \<longleftrightarrow> d \<le> max_depth \<and> members_ok ms (d + 1)"
  by (auto simp: members_ok_def list_all_iff)

lemma json_ok_array: "json_ok (JArray vs) d \<longleftrightarrow> d \<le> max_depth \<and> (\<forall>v \<in> set vs. json_ok v (d + 1))"
  by (simp add: list_all_iff)

lemma parse_value_valid:
  "parse_value d s = Inr (v, r) \<Longrightarrow> json_ok v d"
  "object_members d ms s = Inr (v, r) \<Longrightarrow> d \<le> max_depth \<and> members_ok ms (d + 1) \<Longrightarrow> json_ok v d"
  "array_items d vs s = Inr (v, r) \<Longrightarrow> d \<le> max_depth \<and> (\<forall>w \<in> set vs. json_ok w (d + 1)) \<Longrightarrow> json_ok v d"
proof (induction d s and d ms s and d vs s arbitrary: v r and v r and v r
    rule: parse_value_object_members_array_items.induct)
  case (1 d s v r)
  note p = "1.prems" [unfolded parse_value.simps [of d s]]
  then obtain c cs where s: "s = c # cs" "\<not> max_depth < d" by (auto split: if_splits list.splits)
  have d: "d \<le> max_depth" using s(2) by simp
  consider (object) "c = CHR ''{''" | (array) "c = CHR ''[''" | (scalar) "c \<noteq> CHR ''{''" "c \<noteq> CHR ''[''" by blast
  then show ?case
  proof cases
    case object
    with p s have q: "(case consume_char (CHR ''}'') (skip_ws cs) of Some rest \<Rightarrow> Inr (JObject [], rest)
        | None \<Rightarrow> object_members d [] (skip_ws cs)) = Inr (v, r)" by simp
    show ?thesis
    proof (cases "consume_char (CHR ''}'') (skip_ws cs)")
      case None
      with q have "object_members d [] (skip_ws cs) = Inr (v, r)" by simp
      then show ?thesis using "1.IH"(1) [OF s(2,1) object None, of v r] d by (simp add: members_ok_def)
    next
      case (Some rest)
      then show ?thesis using q d by auto
    qed
  next
    case array
    with p s have q: "(case consume_char (CHR '']'') (skip_ws cs) of Some rest \<Rightarrow> Inr (JArray [], rest)
        | None \<Rightarrow> array_items d [] (skip_ws cs)) = Inr (v, r)" by simp
    show ?thesis
    proof (cases "consume_char (CHR '']'') (skip_ws cs)")
      case None
      with q have "array_items d [] (skip_ws cs) = Inr (v, r)" by simp
      then show ?thesis using "1.IH"(2) [OF s(2,1) _ array None, of v r] array d by simp
    next
      case (Some rest)
      then show ?thesis using q d by auto
    qed
  next
    case scalar
    with p s have "parse_scalar s = Inr (v, r)" by simp
    then show ?thesis using parse_scalar_valid d by blast
  qed
next
  case (2 d ms s v r)
  from "2.prems"(1) obtain key s1 s2 w s3 where a: "parse_string (skip_ws s) = Inr (key, s1)"
    "consume_char (CHR '':'') (skip_ws s1) = Some s2" "parse_value (d + 1) (skip_ws s2) = Inr (w, s3)"
    "key \<notin> fst ` set ms" and b:
    "(\<exists>s4. consume_char (CHR '','') (skip_ws s3) = Some s4 \<and> object_members d (ms @ [(key, w)]) s4 = Inr (v, r)) \<or>
     v = JObject (ms @ [(key, w)])"
    by (auto simp: object_members.simps [of d ms s] split: sum.splits prod.splits option.splits if_splits)
  have "members_ok (ms @ [(key, w)]) (d + 1)"
    using "2.prems"(2) a(4) "2.IH"(1) [OF a(1) refl a(2,3)] parse_string_valid [OF a(1)] by (auto simp: members_ok_def)
  then show ?case
    using b "2.prems"(2) "2.IH"(2) [OF a(1) refl a(2,3) refl a(4)] json_ok_object [of "ms @ [(key, w)]" d] by blast
next
  case (3 d vs s v r)
  from "3.prems"(1) obtain w s1 where a: "parse_value (d + 1) (skip_ws s) = Inr (w, s1)" and b:
    "(\<exists>s2. consume_char (CHR '','') (skip_ws s1) = Some s2 \<and> array_items d (vs @ [w]) s2 = Inr (v, r)) \<or>
     v = JArray (vs @ [w])"
    by (auto simp: array_items.simps [of d vs s] split: sum.splits prod.splits option.splits if_splits)
  have "\<forall>x \<in> set (vs @ [w]). json_ok x (d + 1)" using "3.prems"(2) "3.IH"(1) [OF a] by simp
  then show ?case
    using b "3.prems"(2) "3.IH"(2) [OF a refl] json_ok_array [of "vs @ [w]" d] by blast
qed

lemma json_parse_valid: "json_parse s = Inr v \<Longrightarrow> json_ok v 1"
  using parse_value_valid(1) [of 1 "skip_ws s"]
  by (auto simp: json_parse_def split: if_splits sum.splits prod.splits)

text \<open>
  the parser returns only values nested at most eight deep, with valid UTF-8 in every string
  and key and no key twice in an object; writing the result and parsing it again gives it back, if the
  written form fits the input bound.  A document beyond the bound is refused with the bounds code.
\<close>

theorem json_parse_sound:
  "(json_parse s = Inr v \<longrightarrow> json_ok v 1 \<and>
      (length (json_write v) \<le> max_input_bytes \<longrightarrow> json_parse (json_write v) = Inr v)) \<and>
   (max_input_bytes < length s \<longrightarrow> json_parse s = Inl bounds_error)"
  using json_parse_valid parse_written by (auto simp: json_parse_def)

theorem json_parse_sound_witness:
  "json_parse ''[1 ,null]'' = Inr (JArray [JNumber 1, JNull]) \<and> json_ok (JArray [JNumber 1, JNull]) 1"
proof -
  have "json_parse ''[1 ,null]'' = Inr (JArray [JNumber 1, JNull])"
    by (simp add: json_parse_def max_input_bytes_def parse_value.simps array_items.simps max_depth_def consume_char_def
        skip_ws_def is_ws_def parse_scalar_def parse_number_def is_digit_def decimal_def parse_literal_def Let_def)
  with json_parse_sound [of "''[1 ,null]''" "JArray [JNumber 1, JNull]"] show ?thesis by blast
qed

end
