(* ===== verification/Protocol.thy ===== *)
theory Protocol
  imports Framing Json
begin

text \<open>
  The request and reply envelopes over the frames (\<^verbatim>\<open>ipc/protocol.hpp\<close>, \<^verbatim>\<open>ipc/protocol.cpp\<close>).  A
  protocol error is its code; the detail text is left out.  Signed fields are words of their width.
\<close>

section \<open>Requests\<close>

datatype request_kind = Hello | Status | Doctor | Mutation | HookEvent | Shutdown | Refresh

record request =
  pq_kind :: request_kind
  pq_request_id :: u64
  pq_client_kind :: string
  pq_client_build :: u64
  pq_body :: string
  pq_event :: string
  pq_session_handle :: string
  pq_tool_name :: string
  pq_payload_sha256 :: string
  pq_payload_bytes :: u64
  pq_command :: string
  pq_file_path :: string
  pq_mediated_tools :: string
  pq_grace_ms :: u64

definition default_request :: request where
  "default_request =
     \<lparr>pq_kind = Status, pq_request_id = 0, pq_client_kind = [], pq_client_build = 0, pq_body = [], pq_event = [],
      pq_session_handle = [], pq_tool_name = [], pq_payload_sha256 = [], pq_payload_bytes = 0, pq_command = [],
      pq_file_path = [], pq_mediated_tools = [], pq_grace_ms = 0\<rparr>"

type_synonym protocol_error = int

definition bad :: protocol_error where "bad = 64"

definition request_fields :: "string set" where
  "request_fields =
     {''kind'', ''request_id'', ''client_kind'', ''client_build'', ''body'', ''event'', ''session_handle'', ''tool_name'',
      ''payload_sha256'', ''payload_bytes'', ''command'', ''file_path'', ''mediated_tools'', ''grace_ms''}"

definition decode_hook_event :: "json \<Rightarrow> protocol_error + request" where
  "decode_hook_event v =
     (let r = default_request
            \<lparr>pq_kind := HookEvent, pq_event := string_or v ''event'' [],
             pq_session_handle := string_or v ''session_handle'' [], pq_tool_name := string_or v ''tool_name'' [],
             pq_payload_sha256 := string_or v ''payload_sha256'' [], pq_payload_bytes := number_or v ''payload_bytes'' 0,
             pq_command := string_or v ''command'' [], pq_file_path := string_or v ''file_path'' [],
             pq_mediated_tools := string_or v ''mediated_tools'' []\<rparr> in
      if pq_event r \<noteq> ''session_start'' \<and> pq_event r \<noteq> ''pre_tool'' \<and> pq_event r \<noteq> ''post_tool'' then Inl bad
      else if pq_session_handle r = [] \<or> pq_payload_sha256 r = [] then Inl bad
      else Inr r)"

definition decode_kind :: "json \<Rightarrow> string \<Rightarrow> protocol_error + request" where
  "decode_kind v kind =
     (if kind = ''hello'' then
        let r = default_request\<lparr>pq_kind := Hello, pq_client_kind := string_or v ''client_kind'' [],
                  pq_client_build := number_or v ''client_build'' 0\<rparr>
        in if pq_client_kind r = [] then Inl bad else Inr r
      else if kind = ''status'' then Inr (default_request\<lparr>pq_kind := Status\<rparr>)
      else if kind = ''doctor'' then Inr (default_request\<lparr>pq_kind := Doctor\<rparr>)
      else if kind = ''mutation'' then
        Inr (default_request\<lparr>pq_kind := Mutation, pq_body := string_or v ''body'' []\<rparr>)
      else if kind = ''hook_event'' then decode_hook_event v
      else if kind = ''shutdown'' then
        let r = default_request\<lparr>pq_kind := Shutdown, pq_grace_ms := number_or v ''grace_ms'' 3000\<rparr>
        in if pq_grace_ms r = 0 \<or> 30000 < pq_grace_ms r then Inl bad else Inr r
      else if kind = ''refresh'' then Inr (default_request\<lparr>pq_kind := Refresh\<rparr>)
      else Inl bad)"

definition decode_request :: "string \<Rightarrow> protocol_error + request" where
  "decode_request body =
     (case json_parse body of
        Inl e \<Rightarrow> Inl bad
      | Inr v \<Rightarrow>
          (case v of
             JObject members \<Rightarrow>
               if \<not> list_all (\<lambda>m. fst m \<in> request_fields) members then Inl bad
               else if \<not> json_is v ''kind'' K_String then Inl bad
               else (case decode_kind v (string_or v ''kind'' []) of
                       Inl e \<Rightarrow> Inl e
                     | Inr r \<Rightarrow> Inr (r\<lparr>pq_request_id := number_or v ''request_id'' 0\<rparr>))
           | _ \<Rightarrow> Inl bad))"

definition request_members :: "request \<Rightarrow> (string \<times> json) list" where
  "request_members r =
     (case pq_kind r of
        Hello \<Rightarrow> [(''kind'', JString ''hello''), (''client_kind'', JString (pq_client_kind r)),
                  (''client_build'', JNumber (pq_client_build r))]
      | Status \<Rightarrow> [(''kind'', JString ''status'')]
      | Doctor \<Rightarrow> [(''kind'', JString ''doctor'')]
      | Mutation \<Rightarrow> [(''kind'', JString ''mutation''), (''body'', JString (pq_body r))]
      | HookEvent \<Rightarrow>
          [(''kind'', JString ''hook_event''), (''event'', JString (pq_event r)),
           (''session_handle'', JString (pq_session_handle r)), (''tool_name'', JString (pq_tool_name r)),
           (''payload_sha256'', JString (pq_payload_sha256 r)), (''payload_bytes'', JNumber (pq_payload_bytes r)),
           (''command'', JString (pq_command r)), (''file_path'', JString (pq_file_path r)),
           (''mediated_tools'', JString (pq_mediated_tools r))]
      | Shutdown \<Rightarrow> [(''kind'', JString ''shutdown''), (''grace_ms'', JNumber (pq_grace_ms r))]
      | Refresh \<Rightarrow> [(''kind'', JString ''refresh'')])"

definition encode_request_body :: "request \<Rightarrow> string" where
  "encode_request_body r = json_write (JObject (request_members r @ [(''request_id'', JNumber (pq_request_id r))]))"

section \<open>Replies\<close>

datatype reply_kind = HelloAck | StatusView | DoctorView | ErrorView | HookAck | ShutdownAck | RefreshAck

record reply =
  py_kind :: reply_kind
  py_request_id :: u64
  py_host_build :: string
  py_install_id :: string
  py_boot_epoch :: u64
  py_state :: string
  py_generation :: u64
  py_bundle_revision :: string
  py_journal_events :: u64
  py_quarantined :: bool
  py_refresh_state :: string
  py_last_refresh_ok_ms :: u64
  py_next_refresh_due_ms :: u64
  py_integrity_ok :: bool
  py_audit_chain_ok :: bool
  py_bundle_active_ok :: bool
  py_findings :: "string list"
  py_error_code :: u32
  py_error_detail :: string
  py_verdict :: string
  py_session_id :: string
  py_action_id :: string
  py_reason_code :: u64
  py_reason_detail :: string
  py_refresh :: string
  py_draining :: bool
  py_refresh_result :: string

definition default_reply :: reply where
  "default_reply =
     \<lparr>py_kind = ErrorView, py_request_id = 0, py_host_build = [], py_install_id = [], py_boot_epoch = 0, py_state = [],
      py_generation = 0, py_bundle_revision = [], py_journal_events = 0, py_quarantined = False, py_refresh_state = [],
      py_last_refresh_ok_ms = 0, py_next_refresh_due_ms = 0, py_integrity_ok = False, py_audit_chain_ok = False,
      py_bundle_active_ok = False, py_findings = [], py_error_code = 0, py_error_detail = [], py_verdict = [],
      py_session_id = [], py_action_id = [], py_reason_code = 0, py_reason_detail = [], py_refresh = [],
      py_draining = False, py_refresh_result = []\<rparr>"

definition make_error :: "u64 \<Rightarrow> u32 \<Rightarrow> string \<Rightarrow> reply" where
  "make_error request_id c detail =
     default_reply\<lparr>py_kind := ErrorView, py_request_id := request_id, py_error_code := c, py_error_detail := detail\<rparr>"

definition reply_members :: "reply \<Rightarrow> (string \<times> json) list" where
  "reply_members r =
     (case py_kind r of
        HelloAck \<Rightarrow>
          [(''kind'', JString ''hello_ack''), (''host_build'', JString (py_host_build r)),
           (''install_id'', JString (py_install_id r)), (''boot_epoch'', JNumber (py_boot_epoch r))]
      | StatusView \<Rightarrow>
          [(''kind'', JString ''status''), (''state'', JString (py_state r)), (''install_id'', JString (py_install_id r)),
           (''boot_epoch'', JNumber (py_boot_epoch r)), (''generation'', JNumber (py_generation r)),
           (''bundle_revision'', JString (py_bundle_revision r)), (''journal_events'', JNumber (py_journal_events r)),
           (''quarantined'', JBool (py_quarantined r)), (''refresh_state'', JString (py_refresh_state r)),
           (''last_refresh_ok_ms'', JNumber (py_last_refresh_ok_ms r)),
           (''next_refresh_due_ms'', JNumber (py_next_refresh_due_ms r))]
      | DoctorView \<Rightarrow>
          [(''kind'', JString ''doctor''), (''integrity_ok'', JBool (py_integrity_ok r)),
           (''audit_chain_ok'', JBool (py_audit_chain_ok r)), (''bundle_active_ok'', JBool (py_bundle_active_ok r)),
           (''findings'', JArray (map JString (py_findings r)))]
      | ErrorView \<Rightarrow>
          [(''kind'', JString ''error''),
           (''error'', JObject [(''code'', JNumber (scast (py_error_code r))),
                               (''detail'', JString (py_error_detail r))])]
      | HookAck \<Rightarrow>
          [(''kind'', JString ''hook_ack''), (''verdict'', JString (py_verdict r)),
           (''session_id'', JString (py_session_id r)), (''action_id'', JString (py_action_id r)),
           (''reason_code'', JNumber (py_reason_code r)), (''reason_detail'', JString (py_reason_detail r)),
           (''refresh'', JString (py_refresh r)), (''generation'', JNumber (py_generation r))]
      | ShutdownAck \<Rightarrow> [(''kind'', JString ''shutdown_ack''), (''draining'', JBool (py_draining r))]
      | RefreshAck \<Rightarrow>
          [(''kind'', JString ''refresh_ack''), (''refresh_state'', JString (py_refresh_state r)),
           (''last_refresh_ok_ms'', JNumber (py_last_refresh_ok_ms r)),
           (''next_refresh_due_ms'', JNumber (py_next_refresh_due_ms r)),
           (''refresh_result'', JString (py_refresh_result r))])"

definition encode_reply :: "reply \<Rightarrow> string" where
  "encode_reply r = json_write (JObject ((''request_id'', JNumber (py_request_id r)) # reply_members r))"

definition reply_fields :: "string set" where
  "reply_fields =
     {''kind'', ''request_id'', ''host_build'', ''install_id'', ''boot_epoch'', ''state'', ''generation'',
      ''bundle_revision'', ''journal_events'', ''quarantined'', ''refresh_state'', ''last_refresh_ok_ms'',
      ''next_refresh_due_ms'', ''refresh_result'', ''integrity_ok'', ''audit_chain_ok'', ''bundle_active_ok'',
      ''findings'', ''error'', ''verdict'', ''session_id'', ''action_id'', ''reason_code'', ''reason_detail'',
      ''refresh'', ''draining''}"

text \<open>A member that is a Boolean and true.\<close>

definition flag :: "json \<Rightarrow> string \<Rightarrow> bool" where
  "flag v key \<longleftrightarrow> json_find v key = Some (JBool True)"

fun strings_of :: "json list \<Rightarrow> string list" where
  "strings_of [] = []"
| "strings_of (JString s # vs) = s # strings_of vs"
| "strings_of (_ # vs) = strings_of vs"

definition decode_hook_ack :: "json \<Rightarrow> reply \<Rightarrow> protocol_error + reply" where
  "decode_hook_ack v r =
     (let r = r\<lparr>py_kind := HookAck, py_verdict := string_or v ''verdict'' [], py_session_id := string_or v ''session_id'' [],
               py_action_id := string_or v ''action_id'' [], py_reason_code := number_or v ''reason_code'' 0,
               py_reason_detail := string_or v ''reason_detail'' [], py_refresh := string_or v ''refresh'' [],
               py_generation := number_or v ''generation'' 0\<rparr> in
      if py_verdict r \<noteq> ''allow'' \<and> py_verdict r \<noteq> ''deny'' \<and> py_verdict r \<noteq> ''not_governed'' \<and>
         py_verdict r \<noteq> ''degraded'' then Inl bad
      else Inr r)"

definition decode_reply_kind :: "json \<Rightarrow> string \<Rightarrow> reply \<Rightarrow> protocol_error + reply" where
  "decode_reply_kind v kind r =
     (if kind = ''hello_ack'' then
        Inr (r\<lparr>py_kind := HelloAck, py_host_build := string_or v ''host_build'' [],
               py_install_id := string_or v ''install_id'' [], py_boot_epoch := number_or v ''boot_epoch'' 0\<rparr>)
      else if kind = ''status'' then
        Inr (r\<lparr>py_kind := StatusView, py_state := string_or v ''state'' [], py_install_id := string_or v ''install_id'' [],
               py_boot_epoch := number_or v ''boot_epoch'' 0, py_generation := number_or v ''generation'' 0,
               py_bundle_revision := string_or v ''bundle_revision'' [],
               py_journal_events := number_or v ''journal_events'' 0, py_quarantined := flag v ''quarantined'',
               py_refresh_state := string_or v ''refresh_state'' [],
               py_last_refresh_ok_ms := number_or v ''last_refresh_ok_ms'' 0,
               py_next_refresh_due_ms := number_or v ''next_refresh_due_ms'' 0\<rparr>)
      else if kind = ''doctor'' then
        Inr (r\<lparr>py_kind := DoctorView, py_integrity_ok := flag v ''integrity_ok'',
               py_audit_chain_ok := flag v ''audit_chain_ok'', py_bundle_active_ok := flag v ''bundle_active_ok'',
               py_findings := (case json_find v ''findings'' of Some (JArray fs) \<Rightarrow> strings_of fs | _ \<Rightarrow> [])\<rparr>)
      else if kind = ''error'' then
        (case json_find v ''error'' of
           Some (JObject ms) \<Rightarrow>
             Inr (r\<lparr>py_kind := ErrorView, py_error_code := ucast (number_or (JObject ms) ''code'' 0),
                    py_error_detail := string_or (JObject ms) ''detail'' []\<rparr>)
         | _ \<Rightarrow> Inl bad)
      else if kind = ''hook_ack'' then decode_hook_ack v r
      else if kind = ''shutdown_ack'' then Inr (r\<lparr>py_kind := ShutdownAck, py_draining := flag v ''draining''\<rparr>)
      else if kind = ''refresh_ack'' then
        Inr (r\<lparr>py_kind := RefreshAck, py_refresh_state := string_or v ''refresh_state'' [],
               py_last_refresh_ok_ms := number_or v ''last_refresh_ok_ms'' 0,
               py_next_refresh_due_ms := number_or v ''next_refresh_due_ms'' 0,
               py_refresh_result := string_or v ''refresh_result'' []\<rparr>)
      else Inl bad)"

definition decode_reply :: "string \<Rightarrow> protocol_error + reply" where
  "decode_reply body =
     (case json_parse body of
        Inl e \<Rightarrow> Inl bad
      | Inr v \<Rightarrow>
          (case v of
             JObject members \<Rightarrow>
               if \<not> list_all (\<lambda>m. fst m \<in> reply_fields) members then Inl bad
               else decode_reply_kind v (string_or v ''kind'' [])
                      (default_reply\<lparr>py_request_id := number_or v ''request_id'' 0\<rparr>)
           | _ \<Rightarrow> Inl bad))"

section \<open>Requests survive the wire\<close>

text \<open>The fields a request of its kind carries, the others at their defaults.\<close>

definition request_view :: "request \<Rightarrow> request" where
  "request_view r =
     (case pq_kind r of
        Hello \<Rightarrow> default_request\<lparr>pq_client_kind := pq_client_kind r, pq_client_build := pq_client_build r\<rparr>
      | Mutation \<Rightarrow> default_request\<lparr>pq_body := pq_body r\<rparr>
      | HookEvent \<Rightarrow>
          r\<lparr>pq_client_kind := [], pq_client_build := 0, pq_body := [], pq_grace_ms := 0\<rparr>
      | Shutdown \<Rightarrow> default_request\<lparr>pq_grace_ms := pq_grace_ms r\<rparr>
      | _ \<Rightarrow> default_request)\<lparr>pq_kind := pq_kind r, pq_request_id := pq_request_id r\<rparr>"

text \<open>What the host demands of a request of its kind, and valid text.\<close>

definition request_sendable :: "request \<Rightarrow> bool" where
  "request_sendable r \<longleftrightarrow>
     (case pq_kind r of
        Hello \<Rightarrow> pq_client_kind r \<noteq> [] \<and> utf8_ok (pq_client_kind r)
      | Mutation \<Rightarrow> utf8_ok (pq_body r)
      | HookEvent \<Rightarrow>
          pq_event r \<in> {''session_start'', ''pre_tool'', ''post_tool''} \<and> pq_session_handle r \<noteq> [] \<and>
          pq_payload_sha256 r \<noteq> [] \<and> utf8_ok (pq_session_handle r) \<and> utf8_ok (pq_tool_name r) \<and>
          utf8_ok (pq_payload_sha256 r) \<and> utf8_ok (pq_command r) \<and> utf8_ok (pq_file_path r) \<and>
          utf8_ok (pq_mediated_tools r)
      | Shutdown \<Rightarrow> pq_grace_ms r \<noteq> 0 \<and> pq_grace_ms r \<le> 30000
      | _ \<Rightarrow> True)"

lemmas accessors = string_or_def number_or_def json_is_def flag_def

lemma json_ok_members: "members_ok ms 2 \<Longrightarrow> json_ok (JObject ms) 1"
  unfolding json_ok_object by (simp add: max_depth_def numeral_2_eq_2)

lemma max_depth_3 [simp]: "2 \<le> max_depth" "3 \<le> max_depth" "Suc 0 \<le> max_depth"
  by (simp_all add: max_depth_def)

lemma request_json_ok:
  assumes "request_sendable r"
  shows "json_ok (JObject (request_members r @ [(''request_id'', JNumber (pq_request_id r))])) 1"
  using assms
  by (intro json_ok_members; cases "pq_kind r")
     (auto simp: members_ok_def request_members_def request_sendable_def utf8_ok_ascii)

lemma decode_encoded_request:
  assumes "request_sendable r" "length (encode_request_body r) \<le> max_input_bytes"
  shows "decode_request (encode_request_body r) = Inr (request_view r)"
proof -
  have p: "json_parse (encode_request_body r) =
      Inr (JObject (request_members r @ [(''request_id'', JNumber (pq_request_id r))]))"
    using parse_written [OF request_json_ok [OF assms(1)]] assms(2) by (simp add: encode_request_body_def)
  show ?thesis
    using assms(1) unfolding decode_request_def p
    by (cases "pq_kind r")
       (auto simp: request_members_def request_sendable_def request_view_def request_fields_def accessors
          decode_kind_def decode_hook_event_def default_request_def Let_def)
qed

text \<open>
  a request the client may send (the fields its kind demands are present and in range, all text
  is valid UTF-8, and the document fits the parser's bound) is decoded by the host to the same request,
  with the fields its kind does not carry at their defaults.
\<close>

theorem request_roundtrip:
  assumes "request_sendable r" "length (encode_request_body r) \<le> max_input_bytes"
  shows "decode_request (encode_request_body r) = Inr (request_view r)"
  using assms by (rule decode_encoded_request)

definition ex_shutdown :: request where
  "ex_shutdown = default_request\<lparr>pq_kind := Shutdown, pq_request_id := 7, pq_grace_ms := 500\<rparr>"

lemma ex_shutdown_length: "length (encode_request_body ex_shutdown) \<le> max_input_bytes"
  by (simp add: encode_request_body_def request_members_def ex_shutdown_def default_request_def json_write_def
      write_string_escaped_def escape_body.simps short_escape_def is_control_byte_def utf8_sequence_length_def
      to_string_u64_def digits_of.simps max_input_bytes_def Let_def)

theorem request_roundtrip_witness:
  "decode_request (encode_request_body ex_shutdown) = Inr ex_shutdown"
  using request_roundtrip [OF _ ex_shutdown_length]
  by (simp add: ex_shutdown_def request_sendable_def request_view_def default_request_def)

section \<open>Replies survive the wire\<close>

definition reply_view :: "reply \<Rightarrow> reply" where
  "reply_view r =
     (case py_kind r of
        HelloAck \<Rightarrow> default_reply\<lparr>py_host_build := py_host_build r, py_install_id := py_install_id r,
                      py_boot_epoch := py_boot_epoch r\<rparr>
      | StatusView \<Rightarrow>
          default_reply\<lparr>py_state := py_state r, py_install_id := py_install_id r, py_boot_epoch := py_boot_epoch r,
            py_generation := py_generation r, py_bundle_revision := py_bundle_revision r,
            py_journal_events := py_journal_events r, py_quarantined := py_quarantined r,
            py_refresh_state := py_refresh_state r, py_last_refresh_ok_ms := py_last_refresh_ok_ms r,
            py_next_refresh_due_ms := py_next_refresh_due_ms r\<rparr>
      | DoctorView \<Rightarrow>
          default_reply\<lparr>py_integrity_ok := py_integrity_ok r, py_audit_chain_ok := py_audit_chain_ok r,
            py_bundle_active_ok := py_bundle_active_ok r, py_findings := py_findings r\<rparr>
      | ErrorView \<Rightarrow> default_reply\<lparr>py_error_code := py_error_code r, py_error_detail := py_error_detail r\<rparr>
      | HookAck \<Rightarrow>
          default_reply\<lparr>py_verdict := py_verdict r, py_session_id := py_session_id r, py_action_id := py_action_id r,
            py_reason_code := py_reason_code r, py_reason_detail := py_reason_detail r, py_refresh := py_refresh r,
            py_generation := py_generation r\<rparr>
      | ShutdownAck \<Rightarrow> default_reply\<lparr>py_draining := py_draining r\<rparr>
      | RefreshAck \<Rightarrow>
          default_reply\<lparr>py_refresh_state := py_refresh_state r, py_last_refresh_ok_ms := py_last_refresh_ok_ms r,
            py_next_refresh_due_ms := py_next_refresh_due_ms r, py_refresh_result := py_refresh_result r\<rparr>)
     \<lparr>py_kind := py_kind r, py_request_id := py_request_id r\<rparr>"

definition reply_sendable :: "reply \<Rightarrow> bool" where
  "reply_sendable r \<longleftrightarrow>
     (case py_kind r of
        HelloAck \<Rightarrow> utf8_ok (py_host_build r) \<and> utf8_ok (py_install_id r)
      | StatusView \<Rightarrow> utf8_ok (py_state r) \<and> utf8_ok (py_install_id r) \<and> utf8_ok (py_bundle_revision r) \<and>
                     utf8_ok (py_refresh_state r)
      | DoctorView \<Rightarrow> list_all utf8_ok (py_findings r)
      | ErrorView \<Rightarrow> utf8_ok (py_error_detail r)
      | HookAck \<Rightarrow>
          py_verdict r \<in> {''allow'', ''deny'', ''not_governed'', ''degraded''} \<and> utf8_ok (py_session_id r) \<and>
          utf8_ok (py_action_id r) \<and> utf8_ok (py_reason_detail r) \<and> utf8_ok (py_refresh r)
      | ShutdownAck \<Rightarrow> True
      | RefreshAck \<Rightarrow> utf8_ok (py_refresh_state r) \<and> utf8_ok (py_refresh_result r))"

lemma strings_of_map [simp]: "strings_of (map JString ss) = ss"
  by (induction ss) simp_all

lemma signed_code [simp]: "ucast (scast (w :: u32) :: u64) = w"
  by (rule bit_word_eqI) (auto simp: bit_simps)

lemma reply_json_ok:
  assumes "reply_sendable r"
  shows "json_ok (JObject ((''request_id'', JNumber (py_request_id r)) # reply_members r)) 1"
  using assms
  by (intro json_ok_members; cases "py_kind r")
     (auto simp: members_ok_def reply_members_def reply_sendable_def utf8_ok_ascii list_all_iff numeral_2_eq_2 [symmetric])

lemma decode_encoded_reply:
  assumes "reply_sendable r" "length (encode_reply r) \<le> max_input_bytes"
  shows "decode_reply (encode_reply r) = Inr (reply_view r)"
proof -
  have p: "json_parse (encode_reply r) = Inr (JObject ((''request_id'', JNumber (py_request_id r)) # reply_members r))"
    using parse_written [OF reply_json_ok [OF assms(1)]] assms(2) by (simp add: encode_reply_def)
  show ?thesis
    using assms(1) unfolding decode_reply_def p
    by (cases "py_kind r")
       (auto simp: reply_members_def reply_sendable_def reply_view_def reply_fields_def accessors
          decode_reply_kind_def decode_hook_ack_def default_reply_def Let_def)
qed

text \<open>
  a reply of the host is decoded by the client to the same reply, error codes with their sign
  included, with the fields its kind does not carry at their defaults.
\<close>

theorem reply_roundtrip:
  assumes "reply_sendable r" "length (encode_reply r) \<le> max_input_bytes"
  shows "decode_reply (encode_reply r) = Inr (reply_view r)"
  using assms by (rule decode_encoded_reply)

definition ex_ack :: reply where
  "ex_ack = default_reply\<lparr>py_kind := ShutdownAck, py_request_id := 3, py_draining := True\<rparr>"

lemma ex_ack_length: "length (encode_reply ex_ack) \<le> max_input_bytes"
  by (simp add: encode_reply_def reply_members_def ex_ack_def default_reply_def json_write_def
      write_string_escaped_def escape_body.simps short_escape_def is_control_byte_def utf8_sequence_length_def
      to_string_u64_def digits_of.simps max_input_bytes_def Let_def)

theorem reply_roundtrip_witness: "decode_reply (encode_reply ex_ack) = Inr ex_ack"
  using reply_roundtrip [OF _ ex_ack_length]
  by (simp add: ex_ack_def reply_sendable_def reply_view_def default_reply_def)

section \<open>The vocabulary is closed, the types are not\<close>

lemma decode_hook_event_facts:
  assumes "decode_hook_event v = Inr r"
  shows "pq_kind r = HookEvent \<and> pq_event r \<in> {''session_start'', ''pre_tool'', ''post_tool''} \<and>
     pq_session_handle r \<noteq> [] \<and> pq_payload_sha256 r \<noteq> []"
  using assms unfolding decode_hook_event_def Let_def by (simp split: if_splits) auto

lemma decode_kind_facts:
  assumes "decode_kind v name = Inr r"
  shows "(name, pq_kind r) \<in> {(''hello'', Hello), (''status'', Status), (''doctor'', Doctor), (''mutation'', Mutation),
      (''hook_event'', HookEvent), (''shutdown'', Shutdown), (''refresh'', Refresh)} \<and>
     (pq_kind r = Hello \<longrightarrow> pq_client_kind r \<noteq> []) \<and>
     (pq_kind r = HookEvent \<longrightarrow> pq_event r \<in> {''session_start'', ''pre_tool'', ''post_tool''} \<and>
        pq_session_handle r \<noteq> [] \<and> pq_payload_sha256 r \<noteq> []) \<and>
     (pq_kind r = Shutdown \<longrightarrow> 0 < pq_grace_ms r \<and> pq_grace_ms r \<le> 30000)"
proof -
  consider "name = ''hello''" | "name = ''status''" | "name = ''doctor''" | "name = ''mutation''"
    | "name = ''hook_event''" | "name = ''shutdown''" | "name = ''refresh''"
    using assms unfolding decode_kind_def by (metis sum.distinct(1))
  then show ?thesis
  proof cases
    case 5
    then have "decode_hook_event v = Inr r" using assms by (simp add: decode_kind_def)
    from decode_hook_event_facts [OF this] 5 show ?thesis by simp
  next
    case 6
    then show ?thesis using assms by (auto simp: decode_kind_def Let_def word_neq_0_conv not_less split: if_splits)
  qed (use assms in \<open>auto simp: decode_kind_def Let_def split: if_splits\<close>)
qed

text \<open>
  whatever the host decodes is an object whose keys are all known fields, whose \<open>kind\<close> is a string
  naming the request's kind, and which meets the demands of that kind.
\<close>

theorem decode_request_closed:
  assumes "decode_request body = Inr r"
  shows "(\<exists>ms. json_parse body = Inr (JObject ms) \<and> fst ` set ms \<subseteq> request_fields \<and> distinct (map fst ms) \<and>
        (\<exists>name. map_of ms ''kind'' = Some (JString name) \<and>
          (name, pq_kind r) \<in> {(''hello'', Hello), (''status'', Status), (''doctor'', Doctor), (''mutation'', Mutation),
            (''hook_event'', HookEvent), (''shutdown'', Shutdown), (''refresh'', Refresh)})) \<and>
     (pq_kind r = Hello \<longrightarrow> pq_client_kind r \<noteq> []) \<and>
     (pq_kind r = HookEvent \<longrightarrow> pq_event r \<in> {''session_start'', ''pre_tool'', ''post_tool''} \<and>
        pq_session_handle r \<noteq> [] \<and> pq_payload_sha256 r \<noteq> []) \<and>
     (pq_kind r = Shutdown \<longrightarrow> 0 < pq_grace_ms r \<and> pq_grace_ms r \<le> 30000)"
proof -
  obtain v where v: "json_parse body = Inr v"
    using assms by (cases "json_parse body") (simp_all add: decode_request_def)
  obtain ms where m: "v = JObject ms" using assms v by (cases v) (simp_all add: decode_request_def)
  have ms: "json_parse body = Inr (JObject ms)" "list_all (\<lambda>m. fst m \<in> request_fields) ms"
      "json_is (JObject ms) ''kind'' K_String"
    using assms v m by (simp_all add: decode_request_def split: if_split_asm)
  obtain r0 where k: "decode_kind (JObject ms) (string_or (JObject ms) ''kind'' []) = Inr r0"
    and r: "r = r0\<lparr>pq_request_id := number_or (JObject ms) ''request_id'' 0\<rparr>"
    using assms ms by (cases "decode_kind (JObject ms) (string_or (JObject ms) ''kind'' [])")
      (simp_all add: decode_request_def)
  have ok: "json_ok (JObject ms) 1" by (rule json_parse_valid [OF ms(1)])
  obtain name where n: "map_of ms ''kind'' = Some (JString name)"
  proof -
    from ms(3) obtain w where w: "map_of ms ''kind'' = Some w" "kind_of w = K_String"
      by (auto simp: json_is_def split: option.splits)
    then show ?thesis using that by (cases w) auto
  qed
  then have q: "decode_kind (JObject ms) name = Inr r0" using k by (simp add: string_or_def)
  note f = conjunct1 [OF decode_kind_facts [OF q]] conjunct2 [OF decode_kind_facts [OF q]]
  have e: "pq_kind r = pq_kind r0" "pq_client_kind r = pq_client_kind r0" "pq_event r = pq_event r0"
    "pq_session_handle r = pq_session_handle r0" "pq_payload_sha256 r = pq_payload_sha256 r0"
    "pq_grace_ms r = pq_grace_ms r0" by (simp_all add: r)
  have a: "fst ` set ms \<subseteq> request_fields" using ms(2) by (auto simp: list_all_iff)
  have d: "distinct (map fst ms)" using ok by (simp only: json_ok_object members_ok_def)
  show ?thesis
    unfolding e by (intro conjI [OF _ f(2)] exI [of _ ms] exI [of _ name] conjI ms(1) a d n f(1))
qed

theorem decode_request_closed_witness:
  "pq_kind ex_shutdown = Shutdown \<and> 0 < pq_grace_ms ex_shutdown \<and>
     (\<exists>ms. json_parse (encode_request_body ex_shutdown) = Inr (JObject ms) \<and> fst ` set ms \<subseteq> request_fields)"
proof -
  have "decode_request (encode_request_body ex_shutdown) = Inr ex_shutdown"
    using decode_encoded_request [OF _ ex_shutdown_length]
    by (simp add: ex_shutdown_def request_sendable_def request_view_def default_request_def)
  from decode_request_closed [OF this] show ?thesis by (auto simp: ex_shutdown_def)
qed

text \<open>
  A known field of the wrong type is read as absent instead of being refused: a status request whose
  identifier is a text is accepted with identifier 0.
\<close>

theorem wrong_type_is_default:
  assumes "utf8_ok t" "length (json_write (JObject [(''kind'', JString ''status''), (''request_id'', JString t)])) \<le> max_input_bytes"
  shows "decode_request (json_write (JObject [(''kind'', JString ''status''), (''request_id'', JString t)])) =
     Inr (default_request\<lparr>pq_kind := Status\<rparr>)"
proof -
  have "json_ok (JObject [(''kind'', JString ''status''), (''request_id'', JString t)]) 1"
    using assms(1) by (intro json_ok_members) (simp add: members_ok_def utf8_ok_ascii)
  from parse_written [OF this assms(2)] show ?thesis
    by (simp add: decode_request_def request_fields_def accessors decode_kind_def default_request_def)
qed

end
