(* ===== verification/Serve.thy ===== *)
theory Serve
  imports Protocol
begin

text \<open>
  Serving one accepted connection (\<^verbatim>\<open>ipc/pipe_service.hpp\<close>, \<^verbatim>\<open>ipc/pipe_service.cpp\<close>).  The pipe is a list
  of turns: what the loop observes of the stop flag, what its read yields, and whether its write
  succeeds.  The admission and request callbacks and the wording of error details are parameters; the
  request callback carries its own state.  The linger after an error frame only waits.
\<close>

section \<open>The loop\<close>

definition text_of :: "bytes \<Rightarrow> string" where
  "text_of bs = map (\<lambda>b. char_of (unat b)) bs"

record serve_options =
  so_max_frames :: u64

record serve_stats =
  ss_frames_served :: u64
  ss_admitted :: bool
  ss_admission_rejected :: bool
  ss_seq_violation :: bool
  ss_frame_error :: bool
  ss_budget_closed :: bool
  ss_idle_closed :: bool
  ss_client_closed :: bool
  ss_stop_closed :: bool

definition no_stats :: serve_stats where
  "no_stats =
     \<lparr>ss_frames_served = 0, ss_admitted = False, ss_admission_rejected = False, ss_seq_violation = False,
      ss_frame_error = False, ss_budget_closed = False, ss_idle_closed = False, ss_client_closed = False,
      ss_stop_closed = False\<rparr>"

datatype read_event = Read_frame bytes | Read_aborted | Read_timed_out | Read_closed

record turn =
  tn_stop :: bool
  tn_read :: read_event
  tn_write_ok :: bool

datatype serve_error =
    Admission_rejected string
  | Frame_refused error
  | Sequence_regression u64 u64
  | Request_refused protocol_error
  | Budget_exceeded

text \<open>A frame handed to the pipe; its bytes are the codec's encoding of header and reply.\<close>

datatype sent = Sent_error frame_header reply | Sent_reply frame_header reply

definition default_header :: frame_header where
  "default_header = \<lparr>fh_magic = frame_magic, fh_proto = protocol_version, fh_flags = 0, fh_body_len = 0,
     fh_request_id = 0, fh_connection_seq = 1\<rparr>"

definition error_frame :: "(serve_error \<Rightarrow> string) \<Rightarrow> u64 \<Rightarrow> int \<Rightarrow> serve_error \<Rightarrow> sent" where
  "error_frame describe request_id c e =
     Sent_error (default_header\<lparr>fh_request_id := request_id\<rparr>) (make_error request_id (of_int c) (describe e))"

definition reply_header :: "frame_header \<Rightarrow> frame_header" where
  "reply_header h = default_header\<lparr>fh_request_id := fh_request_id h, fh_connection_seq := fh_connection_seq h\<rparr>"

fun sent_bytes :: "foundation \<Rightarrow> secret_key \<Rightarrow> sent \<Rightarrow> bytes" where
  "sent_bytes F key (Sent_error h r) = frame_encode F key h (text_bytes (encode_reply r))"
| "sent_bytes F key (Sent_reply h r) = frame_encode F key h (text_bytes (encode_reply r))"

text \<open>What the loop does with one frame: stop with an error frame, or a request to handle.\<close>

definition check_frame ::
    "foundation \<Rightarrow> secret_key \<Rightarrow> (serve_error \<Rightarrow> string) \<Rightarrow> serve_options \<Rightarrow> u64 \<Rightarrow> serve_stats \<Rightarrow> bytes
     \<Rightarrow> (sent \<times> serve_stats) + (frame_header \<times> request)" where
  "check_frame F key describe opts last_seq st bs =
     (case frame_decode F key bs of
        Inl e \<Rightarrow> Inl (error_frame describe 0 (code e) (Frame_refused e), st\<lparr>ss_frame_error := True\<rparr>)
      | Inr f \<Rightarrow>
          let h = vf_header f; rid = fh_request_id h; seq = fh_connection_seq h in
          if seq \<le> last_seq
          then Inl (error_frame describe rid 63 (Sequence_regression last_seq seq), st\<lparr>ss_seq_violation := True\<rparr>)
          else case decode_request (text_of (vf_body f)) of
            Inl e \<Rightarrow> Inl (error_frame describe rid e (Request_refused e), st\<lparr>ss_frame_error := True\<rparr>)
          | Inr q \<Rightarrow>
              if so_max_frames opts < ss_frames_served st + 1
              then Inl (error_frame describe rid 64 Budget_exceeded, st\<lparr>ss_budget_closed := True\<rparr>)
              else Inr (h, q))"

fun serve_loop ::
    "foundation \<Rightarrow> secret_key \<Rightarrow> (serve_error \<Rightarrow> string) \<Rightarrow> ('s \<Rightarrow> request \<Rightarrow> reply \<times> 's) \<Rightarrow> serve_options
     \<Rightarrow> 's \<Rightarrow> u64 \<Rightarrow> serve_stats \<Rightarrow> turn list \<Rightarrow> sent list \<times> serve_stats \<times> 's" where
  "serve_loop F key describe handle opts s last_seq st [] = ([], st, s)"
| "serve_loop F key describe handle opts s last_seq st (t # ts) =
     (if tn_stop t then ([], st\<lparr>ss_stop_closed := True\<rparr>, s)
      else case tn_read t of
        Read_aborted \<Rightarrow> ([], st\<lparr>ss_stop_closed := True\<rparr>, s)
      | Read_timed_out \<Rightarrow> ([], st\<lparr>ss_idle_closed := True\<rparr>, s)
      | Read_closed \<Rightarrow> ([], st\<lparr>ss_client_closed := True\<rparr>, s)
      | Read_frame bs \<Rightarrow>
          (case check_frame F key describe opts last_seq st bs of
             Inl (w, st') \<Rightarrow> ([w], st', s)
           | Inr (h, q) \<Rightarrow>
               (case handle s q of (r, s') \<Rightarrow>
                  if \<not> tn_write_ok t then ([Sent_reply (reply_header h) r], st\<lparr>ss_client_closed := True\<rparr>, s')
                  else
                    (case serve_loop F key describe handle opts s' (fh_connection_seq h)
                            (st\<lparr>ss_frames_served := ss_frames_served st + 1\<rparr>) ts of
                       (ws, st', s'') \<Rightarrow> (Sent_reply (reply_header h) r # ws, st', s'')))))"

definition serve_connection ::
    "foundation \<Rightarrow> secret_key \<Rightarrow> (serve_error \<Rightarrow> string) \<Rightarrow> string \<Rightarrow> ('s \<Rightarrow> request \<Rightarrow> reply \<times> 's) \<Rightarrow> serve_options
     \<Rightarrow> 's \<Rightarrow> turn list \<Rightarrow> sent list \<times> serve_stats \<times> 's" where
  "serve_connection F key describe rejection handle opts s turns =
     (if rejection \<noteq> []
      then ([error_frame describe 0 62 (Admission_rejected rejection)], no_stats\<lparr>ss_admission_rejected := True\<rparr>, s)
      else serve_loop F key describe handle opts s 0 (no_stats\<lparr>ss_admitted := True\<rparr>) turns)"

section \<open>What a connection can make the host do\<close>

lemma text_of_text_bytes [simp]: "text_of (text_bytes s) = s"
proof -
  have "unat (of_char c :: byte) = (of_char c :: nat)" for c
  proof -
    have "(of_char c :: byte) = of_nat (of_char c)" by (simp add: of_nat_of_char)
    then show ?thesis by (simp add: unat_of_nat take_bit_eq_mod)
  qed
  then show ?thesis by (simp add: text_of_def text_bytes_def comp_def)
qed

text \<open>A reply answers one authenticated, well-formed request of the connection.\<close>

definition answers ::
    "foundation \<Rightarrow> secret_key \<Rightarrow> ('s \<Rightarrow> request \<Rightarrow> reply \<times> 's) \<Rightarrow> turn list \<Rightarrow> sent \<Rightarrow> bool" where
  "answers F key handle turns w \<longleftrightarrow>
     (case w of
        Sent_error h r \<Rightarrow> True
      | Sent_reply h r \<Rightarrow>
          \<exists>t \<in> set turns. \<exists>bs f q s. \<not> tn_stop t \<and> tn_read t = Read_frame bs \<and> frame_decode F key bs = Inr f \<and>
            decode_request (text_of (vf_body f)) = Inr q \<and> r = fst (handle s q) \<and> h = reply_header (vf_header f))"

fun reply_seqs :: "sent list \<Rightarrow> u64 list" where
  "reply_seqs [] = []"
| "reply_seqs (Sent_reply h r # ws) = fh_connection_seq h # reply_seqs ws"
| "reply_seqs (Sent_error h r # ws) = reply_seqs ws"

lemma check_frame_Inr:
  "check_frame F key describe opts last_seq st bs = Inr (h, q) \<Longrightarrow>
     \<exists>f. frame_decode F key bs = Inr f \<and> h = vf_header f \<and> last_seq < fh_connection_seq h \<and>
       decode_request (text_of (vf_body f)) = Inr q \<and> \<not> so_max_frames opts < ss_frames_served st + 1"
  by (auto simp: check_frame_def Let_def not_le split: sum.splits if_splits)

lemma check_frame_Inl:
  "check_frame F key describe opts last_seq st bs = Inl (w, st') \<Longrightarrow>
     (\<exists>h r. w = Sent_error h r) \<and> ss_frames_served st' = ss_frames_served st"
  by (auto simp: check_frame_def error_frame_def Let_def split: sum.splits if_splits)

text \<open>One turn: the loop ends silently, ends with an error frame, or answers and may go on.\<close>

lemma serve_loop_Cons:
  assumes "serve_loop F key describe handle opts s q st (t # ts) = (ws, st', s')"
  obtains (ended) "ws = []" "ss_frames_served st' = ss_frames_served st"
  | (refused) h r where "ws = [Sent_error h r]" "ss_frames_served st' = ss_frames_served st"
  | (answered) bs f rq r s1 ws2 where "\<not> tn_stop t" "tn_read t = Read_frame bs" "frame_decode F key bs = Inr f"
      "decode_request (text_of (vf_body f)) = Inr rq" "handle s rq = (r, s1)" "q < fh_connection_seq (vf_header f)"
      "\<not> so_max_frames opts < ss_frames_served st + 1" "ws = Sent_reply (reply_header (vf_header f)) r # ws2"
      "ws2 = [] \<and> \<not> tn_write_ok t \<and> ss_frames_served st' = ss_frames_served st \<or>
       serve_loop F key describe handle opts s1 (fh_connection_seq (vf_header f))
         (st\<lparr>ss_frames_served := ss_frames_served st + 1\<rparr>) ts = (ws2, st', s')"
proof (cases "\<not> tn_stop t \<and> (\<exists>bs. tn_read t = Read_frame bs)")
  case False
  then show ?thesis using assms ended by (auto split: if_splits read_event.splits)
next
  case True
  then obtain bs where t: "\<not> tn_stop t" "tn_read t = Read_frame bs" by blast
  show ?thesis
  proof (cases "check_frame F key describe opts q st bs")
    case (Inl a)
    then obtain w st1 where c: "check_frame F key describe opts q st bs = Inl (w, st1)" by (cases a) auto
    then show ?thesis using assms t check_frame_Inl [OF c] refused by auto
  next
    case (Inr a)
    then obtain h rq where c: "check_frame F key describe opts q st bs = Inr (h, rq)" by (cases a) auto
    obtain f where f: "frame_decode F key bs = Inr f" "h = vf_header f" "q < fh_connection_seq h"
        "decode_request (text_of (vf_body f)) = Inr rq" "\<not> so_max_frames opts < ss_frames_served st + 1"
      using check_frame_Inr [OF c] by blast
    obtain r s1 where r: "handle s rq = (r, s1)" by (cases "handle s rq")
    obtain ws2 st2 s2 where rest: "serve_loop F key describe handle opts s1 (fh_connection_seq h)
        (st\<lparr>ss_frames_served := ss_frames_served st + 1\<rparr>) ts = (ws2, st2, s2)" by (rule prod_cases3)
    show ?thesis
    proof (cases "tn_write_ok t")
      case True
      then show ?thesis using assms t c r rest f by (intro answered [of bs f rq r s1 ws2]) auto
    next
      case False
      then show ?thesis using assms t c r f by (intro answered [of bs f rq r s1 "[]"]) auto
    qed
  qed
qed

lemma answers_later: "answers F key handle ts w \<Longrightarrow> answers F key handle (t # ts) w"
  by (cases w) (auto simp: answers_def)

lemma serve_loop_answers:
  "serve_loop F key describe handle opts s q st ts = (ws, st', s') \<Longrightarrow> w \<in> set ws \<Longrightarrow> answers F key handle ts w"
proof (induction ts arbitrary: s q st ws)
  case (Cons t ts)
  from Cons.prems(1) show ?case
  proof (cases rule: serve_loop_Cons)
    case (answered bs f rq r s1 ws2)
    have "answers F key handle (t # ts) (Sent_reply (reply_header (vf_header f)) r)"
      unfolding answers_def using answered(1-5) by (auto intro!: exI [of _ s])
    then show ?thesis using answered(8,9) Cons.prems(2) Cons.IH by (auto intro: answers_later)
  qed (use Cons.prems(2) in \<open>auto simp: answers_def\<close>)
qed simp

lemma serve_loop_seqs:
  "serve_loop F key describe handle opts s q st ts = (ws, st', s') \<Longrightarrow> sorted_wrt (<) (q # reply_seqs ws)"
proof (induction ts arbitrary: s q st ws)
  case (Cons t ts)
  from Cons.prems show ?case
  proof (cases rule: serve_loop_Cons)
    case (answered bs f rq r s1 ws2)
    then have "ws2 = [] \<or> sorted_wrt (<) (fh_connection_seq (vf_header f) # reply_seqs ws2)" using Cons.IH by blast
    then show ?thesis using answered(6,8) by (auto simp: reply_header_def intro: order.strict_trans)
  qed auto
qed simp

text \<open>Error frames come last, and the replies stay within the frame budget.\<close>

lemma serve_loop_errors:
  "serve_loop F key describe handle opts s q st ts = (ws, st', s') \<Longrightarrow> Sent_error h r \<in> set (butlast ws) \<Longrightarrow> False"
proof (induction ts arbitrary: s q st ws)
  case (Cons t ts)
  from Cons.prems(1) show ?case
  proof (cases rule: serve_loop_Cons)
    case (answered bs f rq r' s1 ws2)
    then show ?thesis using Cons.prems(2) Cons.IH by (auto split: if_splits)
  qed (use Cons.prems(2) in auto)
qed simp

lemma serve_loop_budget:
  "serve_loop F key describe handle opts s q st ts = (ws, st', s') \<Longrightarrow> so_max_frames opts \<noteq> - 1 \<Longrightarrow>
     ss_frames_served st \<le> so_max_frames opts \<Longrightarrow>
     length (reply_seqs ws) + unat (ss_frames_served st) \<le> unat (so_max_frames opts)"
proof (induction ts arbitrary: s q st ws)
  case (Cons t ts)
  let ?n = "ss_frames_served st" and ?m = "so_max_frames opts"
  from Cons.prems(1) show ?case
  proof (cases rule: serve_loop_Cons)
    case (answered bs f rq r s1 ws2)
    have "?n \<noteq> - 1" using Cons.prems(2,3) by (metis antisym word_order.extremum)
    then have u: "unat (?n + 1) = Suc (unat ?n)" by (rule unat_succ)
    from answered(7) have m: "?n + 1 \<le> ?m" by simp
    have "ws2 = [] \<or> length (reply_seqs ws2) + unat (?n + 1) \<le> unat ?m"
      using answered(9) Cons.IH [OF _ Cons.prems(2)] m by fastforce
    then show ?thesis using answered(8) u m by (auto simp: word_le_nat_alt)
  qed (use Cons.prems(3) in \<open>auto simp: word_le_nat_alt\<close>)
qed (simp add: word_le_nat_alt)

text \<open>
  C26: on one connection every reply answers a frame that verifies under the installation's key and
  carries a well-formed request, under that frame's identifiers; the sequence numbers answered
  strictly increase, so no frame is answered twice; at most the frame budget is answered; and an error
  frame is the last thing the connection receives.
\<close>

theorem serve_connection_sound:
  assumes "serve_connection F key describe rejection handle opts s turns = (ws, st, s')" "so_max_frames opts \<noteq> - 1"
  shows "(\<forall>w \<in> set ws. answers F key handle turns w) \<and> sorted_wrt (<) (reply_seqs ws) \<and>
     length (reply_seqs ws) \<le> unat (so_max_frames opts) \<and> (\<forall>h r. Sent_error h r \<notin> set (butlast ws)) \<and>
     (rejection \<noteq> [] \<longrightarrow> reply_seqs ws = [] \<and> s' = s)"
proof (cases "rejection = []")
  case True
  then have l: "serve_loop F key describe handle opts s 0 (no_stats\<lparr>ss_admitted := True\<rparr>) turns = (ws, st, s')"
    using assms(1) by (simp add: serve_connection_def)
  have "sorted_wrt (<) (reply_seqs ws)" using serve_loop_seqs [OF l] by simp
  moreover have "length (reply_seqs ws) \<le> unat (so_max_frames opts)"
    using serve_loop_budget [OF l assms(2)] by (simp add: no_stats_def)
  ultimately show ?thesis
    using True serve_loop_answers [OF l] serve_loop_errors [OF l] by blast
next
  case False
  then show ?thesis using assms(1) by (auto simp: serve_connection_def error_frame_def answers_def)
qed

section \<open>One exchange end to end\<close>

definition request_frame :: "foundation \<Rightarrow> secret_key \<Rightarrow> u64 \<Rightarrow> u64 \<Rightarrow> request \<Rightarrow> bytes" where
  "request_frame F key rid seq q =
     (let body = text_bytes (encode_request_body q) in
      frame_encode F key (default_header\<lparr>fh_request_id := rid, fh_connection_seq := seq,
        fh_body_len := of_nat (length body)\<rparr>) body)"

lemma frame_of_text:
  assumes "codec_laws F" "\<And>bs. length (sha256 F bs) = 32" "fh_magic h = frame_magic" "fh_proto h = protocol_version"
    and "length t \<le> max_body_bytes"
  shows "frame_decode F key (frame_encode F key h (text_bytes t)) =
     Inr \<lparr>vf_header = h\<lparr>fh_body_len := of_nat (length t)\<rparr>, vf_body = text_bytes t\<rparr>"
proof -
  let ?h = "h\<lparr>fh_body_len := of_nat (length t)\<rparr>"
  have "frame_encode F key h (text_bytes t) = frame_encode F key ?h (text_bytes t)"
    by (simp add: frame_encode_def header_bytes_def Let_def)
  moreover have "length (hmac_sha256 F key m) = mac_len" for m
    using assms(2) by (simp add: hmac_sha256_def Let_def mac_len_def)
  ultimately show ?thesis
    using codec_laws.decode_encode [OF assms(1), of key ?h "text_bytes t"] assms(3-5) by simp
qed

lemma body_fits: "length t \<le> max_input_bytes \<Longrightarrow> length t \<le> max_body_bytes"
  by (simp add: max_input_bytes_def max_body_bytes_def)


abbreviation ex_serve :: "sent list \<times> serve_stats \<times> nat" where
  "ex_serve \<equiv> serve_connection ref_foundation (replicate 32 5) (\<lambda>_. []) [] (\<lambda>n q. (ex_ack, Suc n)) \<lparr>so_max_frames = 64\<rparr> 0
     [\<lparr>tn_stop = False, tn_read = Read_frame (request_frame ref_foundation (replicate 32 5) 7 1 ex_shutdown),
       tn_write_ok = True\<rparr>]"

theorem serve_connection_sound_witness:
  "sorted_wrt (<) (reply_seqs (fst ex_serve)) \<and> length (reply_seqs (fst ex_serve)) \<le> 64"
proof -
  obtain ws st s where e: "ex_serve = (ws, st, s)" by (rule prod_cases3)
  from serve_connection_sound [OF e] show ?thesis unfolding e by simp
qed


end
