(* ===== verification/Strings.thy ===== *)
theory Strings
  imports Prelude
begin

text \<open>
  The operations of \<^verbatim>\<open>std::string\<close> and \<^verbatim>\<open>std::string_view\<close> the text-processing components share: search for
  a substring, suffix tests, splitting at a character, trimming, and insertion of absent elements into a
  vector.  A position is the number of characters before it; \<^verbatim>\<open>npos\<close> is \<open>None\<close>.
\<close>

section \<open>Search\<close>

fun str_find :: "string \<Rightarrow> string \<Rightarrow> nat option" where
  "str_find p [] = (if p = [] then Some 0 else None)"
| "str_find p (c # s) =
     (if take (length p) (c # s) = p then Some 0 else map_option Suc (str_find p s))"

definition has_text :: "string \<Rightarrow> string \<Rightarrow> bool" where
  "has_text s p \<longleftrightarrow> str_find p s \<noteq> None"

definition ends_with :: "string \<Rightarrow> string \<Rightarrow> bool" where
  "ends_with s p \<longleftrightarrow> length p \<le> length s \<and> drop (length s - length p) s = p"

definition starts_with :: "string \<Rightarrow> string \<Rightarrow> bool" where
  "starts_with s p \<longleftrightarrow> take (length p) s = p"

lemma starts_with_iff: "starts_with s p \<longleftrightarrow> (\<exists>r. s = p @ r)"
proof
  assume "starts_with s p"
  then have "s = p @ drop (length p) s"
    unfolding starts_with_def by (metis append_take_drop_id)
  then show "\<exists>r. s = p @ r" ..
qed (auto simp: starts_with_def)

lemma starts_with_append [simp]: "starts_with (p @ r) p"
  by (simp add: starts_with_def)

lemma ends_with_iff: "ends_with s p \<longleftrightarrow> (\<exists>r. s = r @ p)"
proof
  assume "ends_with s p"
  then have "s = take (length s - length p) s @ p"
    unfolding ends_with_def by (metis append_take_drop_id)
  then show "\<exists>r. s = r @ p" ..
qed (auto simp: ends_with_def)

text \<open>\<^verbatim>\<open>std::to_string\<close> of an \<^verbatim>\<open>int\<close>.\<close>

definition int_text :: "int \<Rightarrow> string" where
  "int_text i = (if i < 0 then ''-'' @ digits_of (nat (- i)) else digits_of (nat i))"

text \<open>The search returns the first occurrence.\<close>

lemma str_find_Some:
  "str_find p s = Some i \<Longrightarrow> \<exists>a b. s = a @ p @ b \<and> length a = i"
proof (induction s arbitrary: i)
  case Nil
  then show ?case by (auto split: if_splits)
next
  case (Cons c s)
  show ?case
  proof (cases "take (length p) (c # s) = p")
    case True
    then have "c # s = [] @ p @ drop (length p) (c # s)"
      by (metis append_Nil append_take_drop_id)
    then show ?thesis using Cons.prems True by (metis list.size(3) option.inject str_find.simps(2))
  next
    case False
    then obtain j where j: "str_find p s = Some j" "i = Suc j" using Cons.prems by auto
    from Cons.IH [OF j(1)] obtain a b where "s = a @ p @ b" "length a = j" by blast
    then have "c # s = (c # a) @ p @ b \<and> length (c # a) = i" using j by simp
    then show ?thesis by blast
  qed
qed

lemma str_find_None: "str_find p s = None \<Longrightarrow> s \<noteq> a @ p @ b"
proof (induction s arbitrary: a)
  case Nil
  then show ?case by (auto split: if_splits)
next
  case (Cons c s)
  then have n: "take (length p) (c # s) \<noteq> p" "str_find p s = None" by (auto split: if_splits)
  show ?case
  proof (cases a)
    case Nil
    then show ?thesis using n(1) by (metis append_Nil append_eq_conv_conj)
  next
    case (Cons d a')
    then show ?thesis using Cons.IH [OF n(2), of a'] by simp
  qed
qed

lemma has_text_iff: "has_text s p \<longleftrightarrow> (\<exists>a b. s = a @ p @ b)"
  unfolding has_text_def using str_find_Some [of p s] str_find_None [of p s] by blast

text \<open>A pattern that begins with a character absent from what comes before is found right after it.\<close>

lemma str_find_after:
  "c \<notin> set a \<Longrightarrow> str_find (c # p) (a @ (c # p) @ b) = Some (length a)"
  by (induction a) auto

section \<open>Runs of characters\<close>

lemma takeWhile_append_stop: "\<not> P c \<Longrightarrow> takeWhile P (a @ c # x) = takeWhile P a"
  by (induction a) simp_all

lemma dropWhile_append_stop: "\<not> P c \<Longrightarrow> dropWhile P (a @ c # x) = dropWhile P a @ c # x"
  by (induction a) simp_all

lemma takeWhile_all_stop:
  "list_all P a \<Longrightarrow> x = [] \<or> \<not> P (hd x) \<Longrightarrow> takeWhile P (a @ x) = a \<and> dropWhile P (a @ x) = x"
  by (induction a) (auto simp: takeWhile_eq_Nil_iff dropWhile_eq_self_iff)

section \<open>C strings\<close>

text \<open>Text handed over by \<^verbatim>\<open>c_str()\<close> without a length ends at its first NUL.\<close>

definition c_text :: "string \<Rightarrow> string" where
  "c_text s = takeWhile (\<lambda>c. c \<noteq> CHR 0x00) s"

section \<open>Vectors without duplicates\<close>

text \<open>\<^verbatim>\<open>push_back\<close> guarded by \<^verbatim>\<open>std::find\<close>.\<close>

definition add_absent :: "'a list \<Rightarrow> 'a \<Rightarrow> 'a list" where
  "add_absent xs x = (if x \<in> set xs then xs else xs @ [x])"

lemma set_add_absent [simp]: "set (add_absent xs x) = insert x (set xs)"
  by (auto simp: add_absent_def)

lemma distinct_add_absent [simp]: "distinct (add_absent xs x) = distinct xs"
  by (auto simp: add_absent_def)

lemma set_foldl_add_absent [simp]: "set (foldl add_absent xs ys) = set xs \<union> set ys"
  by (induction ys arbitrary: xs) auto

lemma distinct_foldl_add_absent [simp]: "distinct (foldl add_absent xs ys) = distinct xs"
  by (induction ys arbitrary: xs) simp_all

text \<open>Elements that are all new are appended as they are.\<close>

lemma foldl_add_absent_new: "distinct (xs @ ys) \<Longrightarrow> foldl add_absent xs ys = xs @ ys"
  by (induction ys arbitrary: xs) (simp_all add: add_absent_def)

section \<open>Self-delimiting codes\<close>

text \<open>
  A text written character by character with a code in which no code word is a proper prefix of another and
  none starts with the closing mark is determined by the output, whatever follows the mark.
\<close>

lemma coded_text_inj:
  assumes pre: "\<And>a b x y. f a @ x = f b @ y \<Longrightarrow> a = b \<and> x = y"
    and mark: "\<And>a x y. f a @ x \<noteq> q # y"
  shows "concat (map f s) @ q # x = concat (map f t) @ q # y \<longleftrightarrow> s = t \<and> x = y"
proof (induction s arbitrary: t)
  case Nil
  show ?case
  proof (cases t)
    case (Cons b t')
    then show ?thesis using mark [of b "concat (map f t') @ q # y" x, symmetric] by simp
  qed simp
next
  case (Cons a s)
  show ?case
  proof (cases t)
    case Nil
    then show ?thesis using mark [of a "concat (map f s) @ q # x" y] by simp
  next
    case (Cons b t')
    have "f a @ concat (map f s) @ q # x = f b @ concat (map f t') @ q # y \<longleftrightarrow>
        a = b \<and> concat (map f s) @ q # x = concat (map f t') @ q # y"
      using pre [of a "concat (map f s) @ q # x" b] by blast
    then show ?thesis using Cons Cons.IH [of t'] by simp
  qed
qed

end
