(* ===== verification/Task_Descriptor.thy ===== *)
theory Task_Descriptor
  imports Strings Json Identity
begin

text \<open>
  Task normalisation, \<^verbatim>\<open>cognition/task_descriptor.hpp/.cpp\<close>: the fixed derivation of a descriptor from a task
  envelope, the extraction of identifiers from free text, and the canonical JSON whose digest names the task.
  Theorems: the canonical JSON determines every field but the provenance flags; the derived fields are exactly
  the leading directories, languages and identifiers of the envelope.
\<close>

section \<open>Envelope and descriptor\<close>

datatype task_phase = Specify | Design | Implementation | Review | Acceptance
datatype task_risk = R0 | R1 | R2 | R3

record task_envelope =
  te_objective :: string
  te_repository :: string
  te_revision :: string
  te_changed_paths :: "string list"
  te_phase :: task_phase
  te_risk :: task_risk
  te_phase_observed :: bool
  te_risk_observed :: bool

record task_descriptor =
  td_objective :: string
  td_repository :: string
  td_revision :: string
  td_phase :: task_phase
  td_risk :: task_risk
  td_phase_observed :: bool
  td_risk_observed :: bool
  td_changed_paths :: "string list"
  td_path_prefixes :: "string list"
  td_languages :: "string list"
  td_explicit_ids :: "string list"
  td_boundary_kinds :: "string list"

fun phase_text :: "task_phase \<Rightarrow> string" where
  "phase_text Specify = ''specify''"
| "phase_text Design = ''design''"
| "phase_text Implementation = ''implementation''"
| "phase_text Review = ''review''"
| "phase_text Acceptance = ''acceptance''"

fun risk_text :: "task_risk \<Rightarrow> string" where
  "risk_text R0 = ''R0''"
| "risk_text R1 = ''R1''"
| "risk_text R2 = ''R2''"
| "risk_text R3 = ''R3''"

definition parse_task_phase :: "string \<Rightarrow> task_phase option" where
  "parse_task_phase t =
     (if t = ''specify'' then Some Specify
      else if t = ''design'' then Some Design
      else if t = ''implementation'' then Some Implementation
      else if t = ''review'' then Some Review
      else if t = ''acceptance'' then Some Acceptance
      else None)"

definition parse_task_risk :: "string \<Rightarrow> task_risk option" where
  "parse_task_risk t =
     (if t = ''R0'' then Some R0
      else if t = ''R1'' then Some R1
      else if t = ''R2'' then Some R2
      else if t = ''R3'' then Some R3
      else None)"

section \<open>Derived fields\<close>

definition is_lower :: "char \<Rightarrow> bool" where
  "is_lower c \<longleftrightarrow> 97 \<le> byte_of c \<and> byte_of c \<le> 122"

definition is_upper :: "char \<Rightarrow> bool" where
  "is_upper c \<longleftrightarrow> 65 \<le> byte_of c \<and> byte_of c \<le> 90"

definition to_lower :: "char \<Rightarrow> char" where
  "to_lower c = (if is_upper c then char_of (byte_of c + 32) else c)"

definition to_upper :: "char \<Rightarrow> char" where
  "to_upper c = (if is_lower c then char_of (byte_of c - 32) else c)"

definition run_char :: "bool \<Rightarrow> char \<Rightarrow> bool" where
  "run_char allow_dash c \<longleftrightarrow>
     is_lower c \<or> is_upper c \<or> is_digit c \<or> allow_dash \<and> c = CHR ''-'' \<or> c = CHR ''_''"

definition lower_alpha_run :: "bool \<Rightarrow> string \<Rightarrow> string \<times> string" where
  "lower_alpha_run allow_dash s =
     (map to_lower (takeWhile (run_char allow_dash) s), dropWhile (run_char allow_dash) s)"

definition language_of_extension :: "string \<Rightarrow> string option" where
  "language_of_extension path =
     (let ext = (\<lambda>suffix. length suffix < length path \<and> ends_with path suffix) in
      if ext ''.cpp'' \<or> ext ''.hpp'' \<or> ext ''.h'' \<or> ext ''.cxx'' then Some ''cpp''
      else if ext ''.py'' then Some ''python''
      else if ext ''.cmd'' \<or> ext ''.bat'' then Some ''batch''
      else if ext ''.cmake'' \<or> has_text path ''CMakeLists.txt'' then Some ''cmake''
      else if ext ''.md'' then Some ''markdown''
      else if ext ''.yaml'' \<or> ext ''.yml'' then Some ''yaml''
      else None)"

definition id_words :: "string set" where
  "id_words = {''adr'', ''obl'', ''mem'', ''tca''}"

definition tail_char :: "char \<Rightarrow> bool" where
  "tail_char c \<longleftrightarrow> is_digit c \<or> is_lower c \<or> is_upper c \<or> c = CHR ''-''"

text \<open>The scanning loop, on the part of the text that is still to be read.\<close>

function ids_loop :: "string \<Rightarrow> string list" where
  "ids_loop s =
     (if s = [] then []
      else case lower_alpha_run False s of (token, rest) \<Rightarrow>
        if token \<in> id_words \<and> rest \<noteq> [] \<and> hd rest = CHR ''-''
        then (map to_upper token @ CHR ''-'' # map to_upper (takeWhile tail_char (tl rest)))
               # ids_loop (dropWhile tail_char (tl rest))
        else ids_loop (if token = [] then tl s else rest))"
  by pat_completeness auto

lemma lower_alpha_run_length:
  "lower_alpha_run d s = (token, rest) \<Longrightarrow> length rest + length token = length s"
  unfolding lower_alpha_run_def
  by (metis Pair_inject add.commute length_append length_map takeWhile_dropWhile_id)

termination ids_loop
proof (relation "measure length", simp, goal_cases)
  case (1 s token rest)
  then have l: "lower_alpha_run False s = (token, rest)" "rest \<noteq> []" by simp_all
  have "length (dropWhile tail_char (tl rest)) \<le> length (tl rest)" by (rule length_dropWhile_le)
  also have "\<dots> < length rest" using l(2) by simp
  also have "\<dots> \<le> length s" using lower_alpha_run_length [OF l(1)] by simp
  finally show ?case by simp
next
  case (2 s token rest)
  then show ?case
    using lower_alpha_run_length [of False s token rest] by (cases token) auto
qed

declare ids_loop.simps [simp del]

definition extract_explicit_ids :: "string \<Rightarrow> string list" where
  "extract_explicit_ids text = foldl add_absent [] (ids_loop text)"

text \<open>
  The prefixes the loop over the slashes of a path collects: one for every slash before the last one.
  \<open>seen\<close> is the part of the path before the current position.
\<close>

fun slash_prefixes :: "string \<Rightarrow> string \<Rightarrow> string list" where
  "slash_prefixes seen [] = []"
| "slash_prefixes seen (c # rest) =
     (if c = CHR ''/'' \<and> CHR ''/'' \<in> set rest
      then (seen @ [c]) # slash_prefixes (seen @ [c]) rest
      else slash_prefixes (seen @ [c]) rest)"

definition note_path :: "task_descriptor \<Rightarrow> string \<Rightarrow> task_descriptor" where
  "note_path d path =
     d\<lparr>td_path_prefixes := foldl add_absent (td_path_prefixes d) (slash_prefixes [] path),
       td_languages :=
         (case language_of_extension path of
            None \<Rightarrow> td_languages d
          | Some l \<Rightarrow> add_absent (td_languages d) l)\<rparr>"

definition normalize_task :: "task_envelope \<Rightarrow> task_descriptor" where
  "normalize_task e =
     (foldl note_path
        \<lparr>td_objective = te_objective e, td_repository = te_repository e, td_revision = te_revision e,
         td_phase = te_phase e, td_risk = te_risk e, td_phase_observed = te_phase_observed e,
         td_risk_observed = te_risk_observed e, td_changed_paths = te_changed_paths e,
         td_path_prefixes = [], td_languages = [], td_explicit_ids = [], td_boundary_kinds = []\<rparr>
        (te_changed_paths e))
     \<lparr>td_explicit_ids := extract_explicit_ids (te_objective e)\<rparr>"

section \<open>Canonical JSON and digest\<close>

definition escape_char :: "char \<Rightarrow> string" where
  "escape_char c =
     (if c = quote \<or> c = backslash then [backslash] else []) @
     (if 32 \<le> byte_of c then [c]
      else if c = CHR 0x0A then [backslash, CHR ''n'']
      else if c = CHR 0x0D then [backslash, CHR ''r'']
      else if c = CHR 0x09 then [backslash, CHR ''t'']
      else backslash # CHR ''u'' # hex4 (byte_of c))"

definition json_escape :: "string \<Rightarrow> string" where
  "json_escape s = quote # concat (map escape_char s) @ [quote]"

definition append_string_list :: "string \<Rightarrow> string list \<Rightarrow> string" where
  "append_string_list key values =
     CHR '','' # quote # key @ [quote, CHR '':'', CHR ''['']
       @ comma_join (map json_escape values) @ [CHR '']'']"

definition canonical_json :: "task_descriptor \<Rightarrow> string" where
  "canonical_json d =
     ''{'' @ json_escape ''objective'' @ '':'' @ json_escape (td_objective d)
     @ '','' @ json_escape ''repository'' @ '':'' @ json_escape (td_repository d)
     @ '','' @ json_escape ''revision'' @ '':'' @ json_escape (td_revision d)
     @ '','' @ json_escape ''phase'' @ '':'' @ json_escape (phase_text (td_phase d))
     @ '','' @ json_escape ''risk'' @ '':'' @ json_escape (risk_text (td_risk d))
     @ append_string_list ''changed_paths'' (td_changed_paths d)
     @ append_string_list ''path_prefixes'' (td_path_prefixes d)
     @ append_string_list ''languages'' (td_languages d)
     @ append_string_list ''explicit_ids'' (td_explicit_ids d)
     @ append_string_list ''boundary_kinds'' (td_boundary_kinds d)
     @ ''}''"

definition hex_of :: "bytes \<Rightarrow> string" where
  "hex_of digest = concat (map hex_byte digest)"

definition sha256_hex :: "foundation \<Rightarrow> string \<Rightarrow> string" where
  "sha256_hex F s = hex_of (sha256 F (text_bytes s))"

definition digest_hex :: "foundation \<Rightarrow> task_descriptor \<Rightarrow> string" where
  "digest_hex F d = hex_of (sha256 F (text_bytes (canonical_json d)))"

lemma hex_of_digits: "set (hex_of bs) \<subseteq> set hex_digits"
proof -
  have "set (hex_byte b) \<subseteq> set hex_digits" for b
  proof -
    have "unat (drop_bit 4 b) < 16" "unat (b AND 0x0F) < 16"
      using unsigned_less [of b, where ?'a = nat] word_and_le1 [of b "0x0F"]
      by (simp_all add: drop_bit_eq_div unat_div word_le_nat_alt)
    moreover have "length hex_digits = 16" by (simp add: hex_digits_def)
    ultimately show ?thesis by (simp add: hex_byte_def)
  qed
  then show ?thesis by (auto simp: hex_of_def)
qed

section \<open>The canonical JSON determines the task\<close>

lemma hex4_inj: "m < 32 \<Longrightarrow> n < 32 \<Longrightarrow> hex4 m = hex4 n \<Longrightarrow> m = n"
proof -
  assume m: "m < 32" "n < 32" and h: "hex4 m = hex4 n"
  then have "hex_value (hex_char (m div 16)) = hex_value (hex_char (n div 16))"
    "hex_value (hex_char (m mod 16)) = hex_value (hex_char (n mod 16))" by (simp_all add: hex4_def)
  then have "m div 16 = n div 16" "m mod 16 = n mod 16" using m by (simp_all add: hex_char_value)
  then show "m = n" by (metis div_mult_mod_eq)
qed

lemma length_hex4 [simp]: "length (hex4 n) = 4"
  by (simp add: hex4_def)

lemma escape_char_cases:
  obtains (plain) "escape_char c = [c]" "c \<noteq> quote" "c \<noteq> backslash"
  | (special) "escape_char c = [backslash, c]" "c = quote \<or> c = backslash"
  | (letter) l where "escape_char c = [backslash, l]" "(c, l) \<in> {(CHR 0x0A, CHR ''n''), (CHR 0x0D, CHR ''r''), (CHR 0x09, CHR ''t'')}"
  | (code) "escape_char c = backslash # CHR ''u'' # hex4 (byte_of c)" "byte_of c < 32"
proof (cases "c = quote \<or> c = backslash")
  case True
  then show ?thesis using special by (auto simp: escape_char_def)
next
  case False
  consider "32 \<le> byte_of c" | "c = CHR 0x0A \<or> c = CHR 0x0D \<or> c = CHR 0x09"
    | "byte_of c < 32" "c \<noteq> CHR 0x0A" "c \<noteq> CHR 0x0D" "c \<noteq> CHR 0x09" by force
  then show ?thesis
  proof cases
    case 1
    then show ?thesis using plain False by (simp add: escape_char_def)
  next
    case 2
    then show ?thesis using letter False by (auto simp: escape_char_def)
  next
    case 3
    then show ?thesis using code False by (simp add: escape_char_def)
  qed
qed

lemma escape_char_prefix: "escape_char a @ x = escape_char b @ y \<Longrightarrow> a = b \<and> x = y"
proof -
  assume e: "escape_char a @ x = escape_char b @ y"
  show ?thesis
  proof (cases a rule: escape_char_cases)
    case plain
    show ?thesis using e plain by (cases b rule: escape_char_cases) auto
  next
    case special
    show ?thesis using e special by (cases b rule: escape_char_cases) auto
  next
    case letter
    show ?thesis using e letter by (cases b rule: escape_char_cases) auto
  next
    case code
    show ?thesis
    proof (cases b rule: escape_char_cases)
      case b: code
      then have "hex4 (byte_of a) @ x = hex4 (byte_of b) @ y" using e code by simp
      then have "hex4 (byte_of a) = hex4 (byte_of b)" "x = y" by (simp_all add: append_eq_fixed)
      moreover have "byte_of a = byte_of b" by (rule hex4_inj [OF code(2) b(2)]) fact
      ultimately show ?thesis by simp
    qed (use e code in auto)
  qed
qed

lemma escape_char_mark: "escape_char a @ x \<noteq> quote # y"
  by (cases a rule: escape_char_cases) auto

lemma json_escape_app [simp]: "json_escape s @ x = json_escape t @ y \<longleftrightarrow> s = t \<and> x = y"
  using coded_text_inj [of escape_char quote, OF escape_char_prefix escape_char_mark]
  by (simp add: json_escape_def)

lemma comma_join_Cons: "comma_join (x # xs) = x @ concat (map ((#) (CHR '','')) xs)"
  by (induction xs arbitrary: x) simp_all

lemma digits_app_inj:
  assumes "stop x" "stop y"
  shows "digits_of n @ x = digits_of m @ y \<longleftrightarrow> n = m \<and> x = y"
proof
  assume e: "digits_of n @ x = digits_of m @ y"
  have d: "takeWhile is_digit (digits_of k @ z) = digits_of k" if "stop z" for k z
  proof -
    have "z = [] \<or> \<not> is_digit (hd z)" using that by (auto simp: stop_def is_digit_def)
    then show ?thesis using digits_of_decimal [of k] takeWhile_all_stop [of is_digit "digits_of k" z] by blast
  qed
  have "digits_of n = digits_of m" using d [OF assms(1), of n] d [OF assms(2), of m] e by simp
  moreover from this have "decimal (digits_of n) = decimal (digits_of m)" by (rule arg_cong)
  then have "n = m" using digits_of_decimal by metis
  ultimately show "n = m \<and> x = y" using e by simp
qed simp

lemma digits_of_length: "n < 10 ^ Suc k \<Longrightarrow> length (digits_of n) \<le> Suc k"
proof (induction k arbitrary: n)
  case 0
  then show ?case by (simp add: digits_of.simps [of n])
next
  case (Suc k)
  then have "n div 10 < 10 ^ Suc k" by auto
  then have "length (digits_of (n div 10)) \<le> Suc k" by (rule Suc.IH)
  then show ?case by (simp add: digits_of.simps [of n])
qed

lemma to_string_u64_length: "length (to_string_u64 n) \<le> 20"
proof -
  have "unat n < 2 ^ 64" using unsigned_less [of n, where ?'a = nat] by simp
  then have "unat n < 10 ^ Suc 19" by simp
  then show ?thesis unfolding to_string_u64_def by (drule_tac digits_of_length) simp
qed

text \<open>A bracketed list of self-delimiting items determines the items.\<close>

lemma comma_list_inj:
  assumes item: "\<And>a b x y. f a @ x = f b @ y \<longleftrightarrow> a = b \<and> x = y"
    and mark: "\<And>a x y. f a @ x \<noteq> CHR '']'' # y"
  shows "comma_join (map f vs) @ CHR '']'' # x = comma_join (map f ws) @ CHR '']'' # y \<longleftrightarrow> vs = ws \<and> x = y"
proof -
  have tail: "concat (map (\<lambda>s. CHR '','' # f s) vs) @ CHR '']'' # x =
      concat (map (\<lambda>s. CHR '','' # f s) ws) @ CHR '']'' # y \<longleftrightarrow> vs = ws \<and> x = y" for vs ws
    by (rule coded_text_inj) (auto simp: item)
  have "f a @ z \<noteq> CHR '']'' # y" "CHR '']'' # y \<noteq> f a @ z" for a z y using mark by metis+
  then show ?thesis
    using tail by (cases vs; cases ws) (simp_all add: comma_join_Cons comp_def item)
qed

lemma append_string_list_app [simp]:
  "append_string_list key vs @ x = append_string_list key ws @ y \<longleftrightarrow> vs = ws \<and> x = y"
  using comma_list_inj [of json_escape vs x ws y] by (simp add: append_string_list_def) (simp add: json_escape_def)

lemma append_string_list_inj [simp]: "append_string_list key vs = append_string_list key ws \<longleftrightarrow> vs = ws"
  using append_string_list_app [of key vs "[]" ws "[]"] by simp

lemma phase_text_inj [simp]: "phase_text p = phase_text q \<longleftrightarrow> p = q"
  by (cases p; cases q) simp_all

lemma risk_text_inj [simp]: "risk_text p = risk_text q \<longleftrightarrow> p = q"
  by (cases p; cases q) simp_all

text \<open>
  Two descriptors have the same canonical JSON exactly when they agree in every field except the two
  provenance flags, whatever bytes their strings hold.  So tasks with different digests differ in a field, and
  tasks that differ in a field are told apart by the digest as far as the hash tells their canonical JSON apart.
\<close>

theorem canonical_json_determines:
  "canonical_json d = canonical_json e \<longleftrightarrow>
     d\<lparr>td_phase_observed := b, td_risk_observed := c\<rparr> = e\<lparr>td_phase_observed := b, td_risk_observed := c\<rparr>"
proof -
  have "canonical_json d = canonical_json e \<longleftrightarrow>
      td_objective d = td_objective e \<and> td_repository d = td_repository e \<and> td_revision d = td_revision e \<and>
      td_phase d = td_phase e \<and> td_risk d = td_risk e \<and> td_changed_paths d = td_changed_paths e \<and>
      td_path_prefixes d = td_path_prefixes e \<and> td_languages d = td_languages e \<and>
      td_explicit_ids d = td_explicit_ids e \<and> td_boundary_kinds d = td_boundary_kinds e"
    by (simp add: canonical_json_def)
  then show ?thesis by (cases d; cases e) auto
qed

section \<open>Identifiers in free text\<close>

text \<open>A character that neither continues a word nor an identifier.\<close>

definition separator :: "char \<Rightarrow> bool" where
  "separator c \<longleftrightarrow> \<not> run_char False c \<and> \<not> tail_char c"

lemma lower_alpha_run_stop:
  "separator c \<Longrightarrow> lower_alpha_run False (a @ c # x) =
     (fst (lower_alpha_run False a), snd (lower_alpha_run False a) @ c # x)"
  by (simp add: lower_alpha_run_def separator_def takeWhile_append_stop dropWhile_append_stop)

lemma ids_loop_Nil [simp]: "ids_loop [] = []"
  by (simp add: ids_loop.simps [of "[]"])

lemma ids_loop_skip: "separator c \<Longrightarrow> ids_loop (c # x) = ids_loop x"
  by (subst ids_loop.simps) (simp add: lower_alpha_run_def separator_def id_words_def)

text \<open>The scanner reads the text before and after a separator independently.\<close>

lemma ids_loop_split: "separator c \<Longrightarrow> ids_loop (a @ c # x) = ids_loop a @ ids_loop x"
proof (induction a rule: ids_loop.induct)
  case (1 a)
  show ?case
  proof (cases "a = []")
    case True
    then show ?thesis using ids_loop_skip [OF 1(3)] by simp
  next
    case False
    obtain token rest where r: "lower_alpha_run False a = (token, rest)" by fastforce
    have r': "lower_alpha_run False (a @ c # x) = (token, rest @ c # x)"
      using lower_alpha_run_stop [OF 1(3), of a x] r by simp
    have sep: "c \<noteq> CHR ''-''" "\<not> tail_char c" using 1(3) by (auto simp: separator_def tail_char_def)
    show ?thesis
    proof (cases "token \<in> id_words \<and> rest \<noteq> [] \<and> hd rest = CHR ''-''")
      case True
      then show ?thesis
        using 1(1) [OF False r [symmetric] True 1(3)] False sep
        by (simp add: ids_loop.simps [of a] ids_loop.simps [of "a @ c # x"] r r' takeWhile_append_stop
            dropWhile_append_stop)
    next
      case no: False
      then have "\<not> (token \<in> id_words \<and> rest @ c # x \<noteq> [] \<and> hd (rest @ c # x) = CHR ''-'')"
        using sep by (cases rest) auto
      then have "ids_loop (a @ c # x) = ids_loop ((if token = [] then tl a else rest) @ c # x)"
        using False by (subst ids_loop.simps) (auto simp: r')
      also have "\<dots> = ids_loop (if token = [] then tl a else rest) @ ids_loop x"
        by (rule 1(2) [OF False r [symmetric] no 1(3)])
      also have "ids_loop (if token = [] then tl a else rest) = ids_loop a"
        using False no by (subst (2) ids_loop.simps) (auto simp: r)
      finally show ?thesis .
    qed
  qed
qed

text \<open>An identifier as it is written: a known word in any case, a dash, and everything that may follow.\<close>

definition id_at :: "string \<Rightarrow> string \<Rightarrow> string \<Rightarrow> bool" where
  "id_at word tail after \<longleftrightarrow>
     map to_lower word \<in> id_words \<and> list_all tail_char tail \<and> (after = [] \<or> \<not> tail_char (hd after))"

definition id_text :: "string \<Rightarrow> string \<Rightarrow> string" where
  "id_text word tail = map to_upper word @ CHR ''-'' # map to_upper tail"

lemma to_upper_lower [simp]: "to_upper (to_lower c) = to_upper c"
  by (auto simp: to_upper_def to_lower_def is_upper_def is_lower_def)

lemma letter_of_lower: "is_lower (to_lower c) \<Longrightarrow> run_char False c"
  by (auto simp: to_lower_def run_char_def split: if_splits)

lemma id_words_lower: "w \<in> id_words \<Longrightarrow> list_all is_lower w \<and> w \<noteq> []"
  by (auto simp: id_words_def is_lower_def)

lemma id_word_run: "map to_lower w \<in> id_words \<Longrightarrow> list_all (run_char False) w"
  using id_words_lower [of "map to_lower w"] by (auto simp: list_all_iff letter_of_lower)

lemma ids_loop_at:
  assumes "id_at w t z"
  shows "ids_loop (w @ CHR ''-'' # t @ z) = id_text w t # ids_loop z"
proof -
  have w: "map to_lower w \<in> id_words" "list_all (run_char False) w"
    and t: "takeWhile tail_char (t @ z) = t" "dropWhile tail_char (t @ z) = z"
    using assms id_word_run takeWhile_all_stop [of tail_char t z] by (auto simp: id_at_def)
  have n: "\<not> run_char False (CHR ''-'')" by (simp add: run_char_def is_lower_def is_upper_def is_digit_def)
  have "lower_alpha_run False (w @ CHR ''-'' # t @ z) = (map to_lower w, CHR ''-'' # t @ z)"
    using takeWhile_all_stop [OF w(2), of "CHR ''-'' # t @ z"] n by (simp add: lower_alpha_run_def)
  then show ?thesis using w(1) by (subst ids_loop.simps) (simp add: t id_text_def comp_def)
qed

lemma ids_loop_sound:
  "i \<in> set (ids_loop s) \<Longrightarrow> \<exists>a w t z. s = a @ w @ CHR ''-'' # t @ z \<and> id_at w t z \<and> i = id_text w t"
proof (induction s rule: ids_loop.induct)
  case (1 s)
  then have ne: "s \<noteq> []" by auto
  obtain token rest where r: "lower_alpha_run False s = (token, rest)" by fastforce
  define w where "w = takeWhile (run_char False) s"
  have w: "s = w @ rest" "token = map to_lower w" using r by (auto simp: lower_alpha_run_def w_def)
  show ?case
  proof (cases "token \<in> id_words \<and> rest \<noteq> [] \<and> hd rest = CHR ''-''")
    case True
    define t where "t = takeWhile tail_char (tl rest)"
    define z where "z = dropWhile tail_char (tl rest)"
    have s: "s = w @ CHR ''-'' # t @ z" using w(1) True by (metis t_def z_def list.collapse takeWhile_dropWhile_id)
    have at: "id_at w t z"
      using True w(2) hd_dropWhile [of tail_char "tl rest"]
      by (auto simp: id_at_def t_def z_def list_all_iff dest: set_takeWhileD)
    have "ids_loop s = id_text w t # ids_loop z" using ids_loop_at [OF at] s by simp
    then consider "i = id_text w t" | "i \<in> set (ids_loop z)" using "1.prems" by auto
    then show ?thesis
    proof cases
      case 1
      then show ?thesis using s at by (metis append_Nil)
    next
      case 2
      then obtain a w' t' z' where "z = a @ w' @ CHR ''-'' # t' @ z'" "id_at w' t' z'" "i = id_text w' t'"
        using "1.IH"(1) [OF ne r [symmetric] True] by (auto simp: z_def)
      then show ?thesis using s by (metis append.assoc append_Cons)
    qed
  next
    case False
    define u where "u = (if token = [] then tl s else rest)"
    have "\<exists>b. s = b @ u" using ne w(1) by (cases s) (auto simp: u_def intro: exI [of _ "[hd s]"])
    then obtain b where b: "s = b @ u" by blast
    have "i \<in> set (ids_loop u)" using "1.prems" ne False by (simp add: ids_loop.simps [of s] r u_def)
    then obtain a w' t' z' where "u = a @ w' @ CHR ''-'' # t' @ z'" "id_at w' t' z'" "i = id_text w' t'"
      using "1.IH"(2) [OF ne r [symmetric] False] by (auto simp: u_def)
    then show ?thesis using b by (metis append.assoc)
  qed
qed

text \<open>
  Every identifier taken from a text is written there as a known word (ADR, OBL, MEM or TCA in any case), a
  dash and the longest run of letters, digits and dashes, and is reported in upper case without repetition; and
  every identifier so written at the start of the text or after a separator is reported.
\<close>

theorem explicit_ids_exact:
  "distinct (extract_explicit_ids text) \<and>
   (\<forall>i \<in> set (extract_explicit_ids text).
      \<exists>a w t z. text = a @ w @ CHR ''-'' # t @ z \<and> id_at w t z \<and> i = id_text w t) \<and>
   (\<forall>a w t z. text = a @ w @ CHR ''-'' # t @ z \<longrightarrow> id_at w t z \<longrightarrow> a = [] \<or> separator (last a) \<longrightarrow>
      id_text w t \<in> set (extract_explicit_ids text))"
proof (intro conjI ballI allI impI)
  show "distinct (extract_explicit_ids text)" by (simp add: extract_explicit_ids_def)
next
  fix i assume "i \<in> set (extract_explicit_ids text)"
  then show "\<exists>a w t z. text = a @ w @ CHR ''-'' # t @ z \<and> id_at w t z \<and> i = id_text w t"
    using ids_loop_sound by (simp add: extract_explicit_ids_def)
next
  fix a w t z
  assume t: "text = a @ w @ CHR ''-'' # t @ z" "id_at w t z" "a = [] \<or> separator (last a)"
  have "id_text w t \<in> set (ids_loop text)"
  proof (cases "a = []")
    case True
    then show ?thesis using t ids_loop_at by simp
  next
    case False
    then have "text = butlast a @ last a # w @ CHR ''-'' # t @ z" using t(1) by simp
    then have "ids_loop text = ids_loop (butlast a) @ ids_loop (w @ CHR ''-'' # t @ z)"
      using t(3) False ids_loop_split by metis
    then show ?thesis using ids_loop_at [OF t(2)] by simp
  qed
  then show "id_text w t \<in> set (extract_explicit_ids text)" by (simp add: extract_explicit_ids_def)
qed

theorem explicit_ids_exact_witness:
  "id_text ''adr'' ''24'' \<in> set (extract_explicit_ids ''see adr-24, x'') \<and>
   (\<exists>a w t z. ''see adr-24, x'' = a @ w @ CHR ''-'' # t @ z \<and> id_at w t z \<and> id_text ''adr'' ''24'' = id_text w t)"
proof -
  have "''see adr-24, x'' = ''see '' @ ''adr'' @ CHR ''-'' # ''24'' @ '', x''"
    "id_at ''adr'' ''24'' '', x''" "''see '' = [] \<or> separator (last ''see '')"
    by (simp_all add: id_at_def id_words_def to_lower_def is_upper_def is_lower_def is_digit_def tail_char_def
        separator_def run_char_def)
  then have "id_text ''adr'' ''24'' \<in> set (extract_explicit_ids ''see adr-24, x'')"
    by (rule explicit_ids_exact [THEN conjunct2, THEN conjunct2, rule_format])
  moreover from this have "\<exists>a w t z. ''see adr-24, x'' = a @ w @ CHR ''-'' # t @ z \<and> id_at w t z \<and>
      id_text ''adr'' ''24'' = id_text w t"
    by (rule explicit_ids_exact [THEN conjunct2, THEN conjunct1, rule_format])
  ultimately show ?thesis by (rule conjI)
qed

section \<open>Derived fields of a task\<close>

lemma in_slash_prefixes:
  "p \<in> set (slash_prefixes seen s) \<longleftrightarrow>
     (\<exists>a b. p = seen @ a @ ''/'' \<and> s = a @ CHR ''/'' # b \<and> CHR ''/'' \<in> set b)"
proof (induction s arbitrary: seen)
  case (Cons c s)
  have "(\<exists>a b. p = seen @ a @ ''/'' \<and> c # s = a @ CHR ''/'' # b \<and> CHR ''/'' \<in> set b) \<longleftrightarrow>
      p = seen @ ''/'' \<and> c = CHR ''/'' \<and> CHR ''/'' \<in> set s \<or>
      (\<exists>a b. p = (seen @ [c]) @ a @ ''/'' \<and> s = a @ CHR ''/'' # b \<and> CHR ''/'' \<in> set b)"
    by (auto simp: Cons_eq_append_conv)
  then show ?case using Cons.IH [of "seen @ [c]"] by auto
qed simp

lemma note_path_sel [simp]:
  "td_objective (note_path d p) = td_objective d" "td_repository (note_path d p) = td_repository d"
  "td_revision (note_path d p) = td_revision d" "td_phase (note_path d p) = td_phase d"
  "td_risk (note_path d p) = td_risk d" "td_changed_paths (note_path d p) = td_changed_paths d"
  "td_boundary_kinds (note_path d p) = td_boundary_kinds d"
  "td_phase_observed (note_path d p) = td_phase_observed d" "td_risk_observed (note_path d p) = td_risk_observed d"
  by (simp_all add: note_path_def)

lemma foldl_note_path [simp]:
  "td_objective (foldl note_path d ps) = td_objective d" "td_repository (foldl note_path d ps) = td_repository d"
  "td_revision (foldl note_path d ps) = td_revision d" "td_phase (foldl note_path d ps) = td_phase d"
  "td_risk (foldl note_path d ps) = td_risk d" "td_changed_paths (foldl note_path d ps) = td_changed_paths d"
  "td_boundary_kinds (foldl note_path d ps) = td_boundary_kinds d"
  "td_phase_observed (foldl note_path d ps) = td_phase_observed d"
  "td_risk_observed (foldl note_path d ps) = td_risk_observed d"
  by (induction ps arbitrary: d) simp_all

lemma foldl_note_path_derived:
  "set (td_path_prefixes (foldl note_path d ps)) =
     set (td_path_prefixes d) \<union> (\<Union>p \<in> set ps. set (slash_prefixes [] p))"
  "set (td_languages (foldl note_path d ps)) =
     set (td_languages d) \<union> {l. \<exists>p \<in> set ps. language_of_extension p = Some l}"
  "distinct (td_path_prefixes (foldl note_path d ps)) = distinct (td_path_prefixes d)"
  "distinct (td_languages (foldl note_path d ps)) = distinct (td_languages d)"
  by (induction ps arbitrary: d) (auto simp: note_path_def split: option.splits)

text \<open>
  A normalised task repeats the envelope; its path prefixes are, without repetition, the directories of the
  changed paths that contain a further directory; its languages are, without repetition, those of the changed
  paths; the boundary kinds stay empty.
\<close>

theorem normalize_task_exact:
  "set (td_path_prefixes (normalize_task e)) =
     {p @ ''/'' | p b. p @ CHR ''/'' # b \<in> set (te_changed_paths e) \<and> CHR ''/'' \<in> set b} \<and>
   distinct (td_path_prefixes (normalize_task e)) \<and>
   set (td_languages (normalize_task e)) = {l. \<exists>p \<in> set (te_changed_paths e). language_of_extension p = Some l} \<and>
   distinct (td_languages (normalize_task e)) \<and> td_boundary_kinds (normalize_task e) = [] \<and>
   td_explicit_ids (normalize_task e) = extract_explicit_ids (te_objective e) \<and>
   td_objective (normalize_task e) = te_objective e \<and> td_changed_paths (normalize_task e) = te_changed_paths e \<and>
   td_phase (normalize_task e) = te_phase e \<and> td_risk (normalize_task e) = te_risk e"
proof -
  have "set (td_path_prefixes (normalize_task e)) =
      {p @ ''/'' | p b. p @ CHR ''/'' # b \<in> set (te_changed_paths e) \<and> CHR ''/'' \<in> set b}"
    by (auto simp: normalize_task_def foldl_note_path_derived in_slash_prefixes; blast)
  then show ?thesis by (simp add: normalize_task_def foldl_note_path_derived)
qed

text \<open>
  The directory that holds a changed file is not among its prefixes: \<^verbatim>\<open>a/b/c.md\<close> yields only \<^verbatim>\<open>a/\<close>, although the
  comment in the source lists \<^verbatim>\<open>a/b/\<close> too, and a file one directory deep yields nothing.
\<close>

lemma prefixes_leave_out_parent:
  "slash_prefixes [] ''a/b/c.md'' = [''a/'']" "slash_prefixes [] ''a/c.md'' = []"
  by simp_all

lemma task_vocabulary_roundtrip:
  "parse_task_phase t = Some p \<longleftrightarrow> t = phase_text p" "parse_task_risk t = Some r \<longleftrightarrow> t = risk_text r"
  by (cases p; auto simp: parse_task_phase_def) (cases r; auto simp: parse_task_risk_def)

end
