(* ===== verification/Selector.thy ===== *)
theory Selector
  imports Task_Descriptor "HOL-Library.Product_Lexorder" "HOL-Library.Multiset"
begin

text \<open>
  Typed selection, \<^verbatim>\<open>cognition/selector_eval.hpp/.cpp\<close>, with the rule table of \<^verbatim>\<open>cognition/activation_policy.hpp\<close>:
  the verdict on every rule, the partition into protected, unresolved and ranked rules, and the budget law.
  A pointer to a rule of the policy is the rule itself.  Theorems: the verdict against a declarative reading of
  the selectors; protected rules are never dropped; the ranked rules are the longest affordable prefix of the
  ranking and stay within the supporting share.
\<close>

section \<open>Rules\<close>

datatype priority_class = P0Core | P1Protected | P2Required | P3Supporting | P4OnDemand
datatype rule_lifecycle = Lifecycle_Active | Superseded | Legacy | Retired

record rule_source =
  rs_repository :: string
  rs_path :: string
  rs_anchor :: string

record rule_selectors =
  sel_phases :: "string list"
  sel_risk :: "string list"
  sel_repositories :: "string list"
  sel_path_prefixes :: "string list"
  sel_languages :: "string list"
  sel_boundary_kinds :: "string list"
  sel_explicit_ids :: "string list"

record activation_rule =
  ru_id :: string
  ru_priority :: priority_class
  ru_lifecycle :: rule_lifecycle
  ru_source :: rule_source
  ru_selectors :: rule_selectors
  ru_expected_controls :: "string list"
  ru_independent_evidence :: "string list"

record activation_policy =
  ap_schema_version :: u32
  ap_rules :: "activation_rule list"

fun lifecycle_code :: "rule_lifecycle \<Rightarrow> nat" where
  "lifecycle_code Lifecycle_Active = 0"
| "lifecycle_code Superseded = 1"
| "lifecycle_code Legacy = 2"
| "lifecycle_code Retired = 3"

section \<open>Results\<close>

record budgets =
  bg_compact_core_max_bytes :: u64
  bg_task_payload_max_bytes :: u64
  bg_inlined_body_max_bytes :: u64
  bg_supporting_share_max_percent :: u64

datatype selector_verdict = Applicable | NotApplicable | Unresolved
datatype readiness =
    ReadyForPhase | NeedsEvidence | ReDeliberate | Readiness_Blocked | StaleGeneration | BudgetInsufficient

fun readiness_text :: "readiness \<Rightarrow> string" where
  "readiness_text ReadyForPhase = ''ReadyForPhase''"
| "readiness_text NeedsEvidence = ''NeedsEvidence''"
| "readiness_text ReDeliberate = ''ReDeliberate''"
| "readiness_text Readiness_Blocked = ''Blocked''"
| "readiness_text StaleGeneration = ''StaleGeneration''"
| "readiness_text BudgetInsufficient = ''BudgetInsufficient''"

fun selector_verdict_text :: "selector_verdict \<Rightarrow> string" where
  "selector_verdict_text Applicable = ''applicable''"
| "selector_verdict_text NotApplicable = ''not_applicable''"
| "selector_verdict_text Unresolved = ''unresolved''"

record rule_evaluation =
  re_rule :: activation_rule
  re_verdict :: selector_verdict
  re_evidence :: string
  re_rank_score :: u64

record selection_result =
  sr_evaluations :: "rule_evaluation list"
  sr_protected_included :: "activation_rule list"
  sr_unresolved :: "activation_rule list"
  sr_ranked_candidates :: "activation_rule list"
  sr_readiness :: readiness

section \<open>Matching and scoring\<close>

text \<open>
  \<^verbatim>\<open>path.compare(0, bound, prefix)\<close> compares the first \<open>bound\<close> characters of the path with the whole prefix.
\<close>

definition path_under_prefix :: "string \<Rightarrow> string \<Rightarrow> bool" where
  "path_under_prefix path prefix =
     (let bound = (if prefix \<noteq> [] \<and> last prefix = CHR ''/'' then length prefix - 1 else length prefix) in
      0 < bound \<and> bound < length path \<and> take bound path = prefix \<and> path ! bound = CHR ''/'')"

text \<open>The words of a control: the pieces between single spaces, without an empty last one.\<close>

function control_words :: "string \<Rightarrow> string list" where
  "control_words s =
     (if s = [] then []
      else let word = takeWhile (\<lambda>c. c \<noteq> CHR '' '') s; rest = dropWhile (\<lambda>c. c \<noteq> CHR '' '') s in
        if rest = [] then [word] else word # control_words (tl rest))"
  by pat_completeness auto

termination control_words
proof (relation "measure length", simp, goal_cases)
  case (1 s word rest)
  then have "length rest \<le> length s" by (simp add: length_dropWhile_le)
  moreover have "rest \<noteq> []" using 1 by auto
  ultimately show ?case by (cases rest) simp_all
qed

definition control_score :: "string \<Rightarrow> string \<Rightarrow> u64" where
  "control_score objective control =
     (if has_text objective control then 100
      else sum_list (map (\<lambda>w. if 5 \<le> length w \<and> has_text objective w then 10 else 0) (control_words control)))"

definition rank_score_of :: "activation_rule \<Rightarrow> task_descriptor \<Rightarrow> u64" where
  "rank_score_of rule task =
     sum_list (map (control_score (td_objective task)) (ru_expected_controls rule))
     + sum_list (map (\<lambda>i. if i \<in> set (td_explicit_ids task) then 50 else 0) (sel_explicit_ids (ru_selectors rule)))
     + (if td_repository task \<in> set (sel_repositories (ru_selectors rule)) then 5 else 0)"

section \<open>The verdict on one rule\<close>

text \<open>One typed dimension: skipped once the rule is out or when the rule declares nothing for it.\<close>

definition dimension :: "string list \<Rightarrow> bool \<Rightarrow> string \<Rightarrow> bool \<times> string \<Rightarrow> bool \<times> string" where
  "dimension declared matches name st =
     (case st of (applicable, because) \<Rightarrow>
        if applicable \<and> declared \<noteq> []
        then if matches then (True, because @ name @ '' '') else (False, name)
        else st)"

definition typed_dimensions :: "rule_selectors \<Rightarrow> task_descriptor \<Rightarrow> bool \<times> string" where
  "typed_dimensions s task =
     dimension (sel_languages s) (\<exists>l \<in> set (sel_languages s). l \<in> set (td_languages task)) ''language''
       (dimension (sel_path_prefixes s)
          (\<exists>p \<in> set (sel_path_prefixes s). \<exists>q \<in> set (td_changed_paths task). path_under_prefix q p) ''path_prefix''
          (dimension (sel_repositories s) (td_repository task \<in> set (sel_repositories s)) ''repository''
             (dimension (sel_risk s) (''all'' \<in> set (sel_risk s) \<or> risk_text (td_risk task) \<in> set (sel_risk s)) ''risk''
                (dimension (sel_phases s)
                   (''all'' \<in> set (sel_phases s) \<or> phase_text (td_phase task) \<in> set (sel_phases s)) ''phase''
                   (True, [])))))"

definition trigger_evidence :: "rule_selectors \<Rightarrow> task_descriptor \<Rightarrow> string" where
  "trigger_evidence s task =
     concat (map (\<lambda>i. ''explicit_id='' @ i @ '' '') (filter (\<lambda>i. i \<in> set (td_explicit_ids task)) (sel_explicit_ids s)))"

definition evaluate_rule :: "task_descriptor \<Rightarrow> activation_rule \<Rightarrow> rule_evaluation" where
  "evaluate_rule task rule =
     (let ev = (\<lambda>v e. \<lparr>re_rule = rule, re_verdict = v, re_evidence = e, re_rank_score = 0\<rparr>);
          s = ru_selectors rule in
      if ru_lifecycle rule \<noteq> Lifecycle_Active \<and> ru_priority rule \<noteq> P4OnDemand
      then ev NotApplicable
             (''lifecycle='' @ digits_of (lifecycle_code (ru_lifecycle rule)) @ '' is selectable only as P4 history'')
      else if \<exists>i \<in> set (sel_explicit_ids s). i \<in> set (td_explicit_ids task)
      then ev Applicable (trigger_evidence s task)
      else case typed_dimensions s task of (applicable, because) \<Rightarrow>
        if applicable \<and> sel_boundary_kinds s \<noteq> []
        then ev Unresolved ''boundary_kinds (no mechanical derivation)''
        else if applicable then ev Applicable because
        else ev NotApplicable because)"

section \<open>Selection\<close>

definition is_protected :: "activation_rule \<Rightarrow> bool" where
  "is_protected r \<longleftrightarrow> ru_priority r \<in> {P0Core, P1Protected, P2Required}"

definition is_critical :: "activation_rule \<Rightarrow> bool" where
  "is_critical r \<longleftrightarrow> ru_priority r \<in> {P0Core, P1Protected}"

definition entry_bytes :: "activation_rule \<Rightarrow> u64" where
  "entry_bytes r = of_nat (length (ru_id r)) + of_nat (length (rs_path (ru_source r))) + 64"

definition controls_bytes :: "activation_rule \<Rightarrow> u64" where
  "controls_bytes r = sum_list (map (\<lambda>c. of_nat (length c) + 1) (ru_expected_controls r))"

text \<open>The partition of one evaluation, with the bytes the protected part has taken.\<close>

definition partition_step :: "selection_result \<times> u64 \<Rightarrow> rule_evaluation \<Rightarrow> selection_result \<times> u64" where
  "partition_step st e =
     (case st of (res, used) \<Rightarrow>
        let r = re_rule e in
        if re_verdict e = Applicable then
          (if is_protected r
           then (res\<lparr>sr_protected_included := sr_protected_included res @ [r]\<rparr>,
                 used + controls_bytes r + entry_bytes r)
           else (res\<lparr>sr_ranked_candidates := sr_ranked_candidates res @ [r]\<rparr>, used))
        else if re_verdict e = Unresolved \<and> is_critical r
        then (res\<lparr>sr_unresolved := sr_unresolved res @ [r]\<rparr>, used + entry_bytes r)
        else st)"

definition note_score :: "task_descriptor \<Rightarrow> rule_evaluation \<Rightarrow> rule_evaluation" where
  "note_score task e =
     (if ru_priority (re_rule e) \<in> {P3Supporting, P4OnDemand}
      then e\<lparr>re_rank_score := rank_score_of (re_rule e) task\<rparr> else e)"

definition rank_order :: "task_descriptor \<Rightarrow> activation_rule list \<Rightarrow> activation_rule list" where
  "rank_order task = sort_key (\<lambda>r. (- uint (rank_score_of r task), ru_id r))"

fun fit_candidates :: "u64 \<Rightarrow> u64 \<Rightarrow> activation_rule list \<Rightarrow> activation_rule list" where
  "fit_candidates cap used [] = []"
| "fit_candidates cap used (r # rs) =
     (let size = entry_bytes r + controls_bytes r in
      if cap < used + size then [] else r # fit_candidates cap (used + size) rs)"

definition effective_budget :: "budgets \<Rightarrow> u64 \<Rightarrow> u64" where
  "effective_budget b requested =
     (if 0 < requested \<and> requested < bg_task_payload_max_bytes b then requested else bg_task_payload_max_bytes b)"

definition evaluate_selection ::
    "activation_policy \<Rightarrow> task_descriptor \<Rightarrow> budgets \<Rightarrow> u64 \<Rightarrow> selection_result" where
  "evaluate_selection policy task b requested =
     (let evs = map (evaluate_rule task) (ap_rules policy) in
      case foldl partition_step
             (\<lparr>sr_evaluations = evs, sr_protected_included = [], sr_unresolved = [], sr_ranked_candidates = [],
               sr_readiness = ReadyForPhase\<rparr>, 0) evs of
        (res, protected_bytes) \<Rightarrow>
          let ranked = rank_order task (sr_ranked_candidates res);
              res = res\<lparr>sr_ranked_candidates := ranked, sr_evaluations := map (note_score task) evs\<rparr>;
              budget = effective_budget b requested in
          if budget < protected_bytes then res\<lparr>sr_readiness := BudgetInsufficient\<rparr>
          else
            let remaining = budget - protected_bytes;
                cap = remaining * bg_supporting_share_max_percent b div 100 in
            res\<lparr>sr_ranked_candidates := fit_candidates cap 0 ranked,
                sr_readiness := (if sr_unresolved res = [] then ReadyForPhase else NeedsEvidence)\<rparr>)"

declare control_words.simps [simp del]

section \<open>The verdict, declaratively\<close>

lemma path_under_prefix_iff:
  "path_under_prefix path prefix \<longleftrightarrow>
     prefix \<noteq> [] \<and> last prefix \<noteq> CHR ''/'' \<and> (\<exists>rest. path = prefix @ CHR ''/'' # rest)"
proof (cases "prefix \<noteq> [] \<and> last prefix = CHR ''/''")
  case True
  then have "length (take (length prefix - 1) path) \<noteq> length prefix" by (cases prefix) auto
  then have "take (length prefix - 1) path \<noteq> prefix" by metis
  then show ?thesis using True by (simp add: path_under_prefix_def Let_def)
next
  case False
  have "length prefix < length path \<and> take (length prefix) path = prefix \<and> path ! length prefix = CHR ''/'' \<longleftrightarrow>
      (\<exists>rest. path = prefix @ CHR ''/'' # rest)"
    by (metis append_take_drop_id Cons_nth_drop_Suc append_eq_conv_conj length_append less_add_same_cancel1
        list.size(4) nth_append_length zero_less_Suc add_Suc_right)
  then show ?thesis using False by (auto simp: path_under_prefix_def Let_def)
qed

text \<open>What the typed selectors ask for: every declared dimension matches.\<close>

definition selectors_match :: "rule_selectors \<Rightarrow> task_descriptor \<Rightarrow> bool" where
  "selectors_match s task \<longleftrightarrow>
     (sel_phases s = [] \<or> ''all'' \<in> set (sel_phases s) \<or> phase_text (td_phase task) \<in> set (sel_phases s)) \<and>
     (sel_risk s = [] \<or> ''all'' \<in> set (sel_risk s) \<or> risk_text (td_risk task) \<in> set (sel_risk s)) \<and>
     (sel_repositories s = [] \<or> td_repository task \<in> set (sel_repositories s)) \<and>
     (sel_path_prefixes s = [] \<or>
        (\<exists>p \<in> set (sel_path_prefixes s). \<exists>rest. p \<noteq> [] \<and> last p \<noteq> CHR ''/'' \<and>
           p @ CHR ''/'' # rest \<in> set (td_changed_paths task))) \<and>
     (sel_languages s = [] \<or> set (sel_languages s) \<inter> set (td_languages task) \<noteq> {})"

definition selectable :: "activation_rule \<Rightarrow> bool" where
  "selectable r \<longleftrightarrow> ru_lifecycle r = Lifecycle_Active \<or> ru_priority r = P4OnDemand"

definition triggered :: "activation_rule \<Rightarrow> task_descriptor \<Rightarrow> bool" where
  "triggered r task \<longleftrightarrow> set (sel_explicit_ids (ru_selectors r)) \<inter> set (td_explicit_ids task) \<noteq> {}"

lemma fst_dimension [simp]: "fst (dimension d m n st) \<longleftrightarrow> fst st \<and> (d = [] \<or> m)"
  by (auto simp: dimension_def split: prod.splits)

lemma typed_dimensions_match: "fst (typed_dimensions s task) \<longleftrightarrow> selectors_match s task"
  by (auto simp: typed_dimensions_def selectors_match_def path_under_prefix_iff)

lemma evaluate_rule_sel [simp]: "re_rule (evaluate_rule task r) = r"
  by (simp add: evaluate_rule_def Let_def split: prod.splits)

text \<open>
  The verdict on a rule is the declarative reading of its selectors.  A rule that is neither active nor history
  never applies.  Otherwise it applies when one of its explicit identifiers occurs in the task, or every dimension
  it declares matches and it names no boundary kind; it is unresolved when it matches but names a boundary kind.
\<close>

theorem verdict_exact:
  "re_verdict (evaluate_rule task r) =
     (if selectable r \<and> (triggered r task \<or> selectors_match (ru_selectors r) task \<and> sel_boundary_kinds (ru_selectors r) = [])
      then Applicable
      else if selectable r \<and> selectors_match (ru_selectors r) task then Unresolved
      else NotApplicable)"
proof (cases "typed_dimensions (ru_selectors r) task")
  case (Pair applicable because)
  then have "applicable = selectors_match (ru_selectors r) task"
    using typed_dimensions_match [of "ru_selectors r" task] by simp
  then show ?thesis
    by (auto simp: evaluate_rule_def Let_def Pair selectable_def triggered_def)
qed

text \<open>
  A path prefix written with a trailing slash matches no path, although the comment in the source says the
  separator is normalised away: the characters before it are compared with the whole prefix.
\<close>

lemma slash_prefix_never_matches: "\<not> path_under_prefix path (p @ ''/'')"
  by (simp add: path_under_prefix_iff)

section \<open>The partition\<close>

definition verdict_of :: "task_descriptor \<Rightarrow> activation_rule \<Rightarrow> selector_verdict" where
  "verdict_of task r = re_verdict (evaluate_rule task r)"

definition protected_rules :: "task_descriptor \<Rightarrow> activation_rule list \<Rightarrow> activation_rule list" where
  "protected_rules task = filter (\<lambda>r. verdict_of task r = Applicable \<and> is_protected r)"

definition unresolved_rules :: "task_descriptor \<Rightarrow> activation_rule list \<Rightarrow> activation_rule list" where
  "unresolved_rules task = filter (\<lambda>r. verdict_of task r = Unresolved \<and> is_critical r)"

definition optional_rules :: "task_descriptor \<Rightarrow> activation_rule list \<Rightarrow> activation_rule list" where
  "optional_rules task = filter (\<lambda>r. verdict_of task r = Applicable \<and> \<not> is_protected r)"

definition entry_size :: "activation_rule \<Rightarrow> nat" where
  "entry_size r = length (ru_id r) + length (rs_path (ru_source r)) + 64"

definition rule_size :: "activation_rule \<Rightarrow> nat" where
  "rule_size r = entry_size r + sum_list (map (\<lambda>c. length c + 1) (ru_expected_controls r))"

definition protected_size :: "task_descriptor \<Rightarrow> activation_rule list \<Rightarrow> nat" where
  "protected_size task rules =
     sum_list (map rule_size (protected_rules task rules)) + sum_list (map entry_size (unresolved_rules task rules))"

lemma entry_bytes_size: "entry_bytes r = of_nat (entry_size r)"
  by (simp add: entry_bytes_def entry_size_def)

lemma rule_bytes_size: "entry_bytes r + controls_bytes r = of_nat (rule_size r)"
proof -
  have "sum_list (map (\<lambda>c. of_nat (length c) + 1) cs) = (of_nat (sum_list (map (\<lambda>c. length c + 1) cs)) :: u64)"
    for cs :: "string list" by (induction cs) (simp_all add: algebra_simps)
  then show ?thesis by (simp add: entry_bytes_size controls_bytes_def rule_size_def)
qed

lemma partition_step_rule:
  "partition_step (res, used) (evaluate_rule task r) =
     (if verdict_of task r = Applicable then
        (if is_protected r
         then (res\<lparr>sr_protected_included := sr_protected_included res @ [r]\<rparr>, used + of_nat (rule_size r))
         else (res\<lparr>sr_ranked_candidates := sr_ranked_candidates res @ [r]\<rparr>, used))
      else if verdict_of task r = Unresolved \<and> is_critical r
      then (res\<lparr>sr_unresolved := sr_unresolved res @ [r]\<rparr>, used + of_nat (entry_size r))
      else (res, used))"
  by (simp add: partition_step_def verdict_of_def Let_def algebra_simps entry_bytes_size flip: rule_bytes_size)

lemma partition_fold:
  "foldl partition_step (res, used) (map (evaluate_rule task) rules) =
     (res\<lparr>sr_protected_included := sr_protected_included res @ protected_rules task rules,
          sr_unresolved := sr_unresolved res @ unresolved_rules task rules,
          sr_ranked_candidates := sr_ranked_candidates res @ optional_rules task rules\<rparr>,
      used + of_nat (protected_size task rules))"
  by (induction rules arbitrary: res used)
    (auto simp: partition_step_rule protected_rules_def unresolved_rules_def optional_rules_def protected_size_def
      algebra_simps)

lemma selection_unfold:
  assumes "R = evaluate_selection policy task b requested" "rules = ap_rules policy"
    "budget = effective_budget b requested"
  shows "sr_protected_included R = protected_rules task rules"
    "sr_unresolved R = unresolved_rules task rules"
    "sr_readiness R =
       (if budget < of_nat (protected_size task rules) then BudgetInsufficient
        else if unresolved_rules task rules = [] then ReadyForPhase else NeedsEvidence)"
    "sr_ranked_candidates R =
       (if budget < of_nat (protected_size task rules) then rank_order task (optional_rules task rules)
        else fit_candidates ((budget - of_nat (protected_size task rules)) * bg_supporting_share_max_percent b div 100) 0
               (rank_order task (optional_rules task rules)))"
  unfolding assms by (simp_all add: evaluate_selection_def Let_def partition_fold)

text \<open>
  C38: Protected material is never dropped.  Whatever the budget, every applicable rule of the three protected
  classes is included and every unresolved critical rule stays visible, in policy order; when they need more
  than the effective budget the answer is BudgetInsufficient, when a critical rule is unresolved it is
  NeedsEvidence, and it is ReadyForPhase in the remaining case only.  A requested budget only narrows the
  policy's cap.
\<close>

theorem protected_never_truncated:
  assumes "protected_size task (ap_rules policy) < 2 ^ 64"
    and "R = evaluate_selection policy task b requested"
  shows "sr_protected_included R = protected_rules task (ap_rules policy) \<and>
    sr_unresolved R = unresolved_rules task (ap_rules policy) \<and>
    sr_readiness R =
      (if unat (effective_budget b requested) < protected_size task (ap_rules policy) then BudgetInsufficient
       else if unresolved_rules task (ap_rules policy) = [] then ReadyForPhase else NeedsEvidence) \<and>
    effective_budget b requested \<le> bg_task_payload_max_bytes b \<and>
    (requested = 0 \<or> effective_budget b requested \<le> requested)"
proof -
  have "effective_budget b requested < of_nat (protected_size task (ap_rules policy)) \<longleftrightarrow>
      unat (effective_budget b requested) < protected_size task (ap_rules policy)"
    using assms(1) by (simp add: word_less_nat_alt unat_of_nat take_bit_nat_eq_self)
  moreover have "effective_budget b requested \<le> bg_task_payload_max_bytes b \<and>
      (requested = 0 \<or> effective_budget b requested \<le> requested)"
    by (auto simp: effective_budget_def word_gt_0 not_less)
  ultimately show ?thesis using selection_unfold [OF assms(2) refl refl] by simp
qed

text \<open>A policy with a protected, an unresolved critical and an optional rule, and a task they apply to.\<close>

definition ex_selectors :: rule_selectors where
  "ex_selectors = \<lparr>sel_phases = [''all''], sel_risk = [], sel_repositories = [''r''], sel_path_prefixes = [],
     sel_languages = [], sel_boundary_kinds = [], sel_explicit_ids = []\<rparr>"

definition ex_rule :: "string \<Rightarrow> priority_class \<Rightarrow> activation_rule" where
  "ex_rule i p = \<lparr>ru_id = i, ru_priority = p, ru_lifecycle = Lifecycle_Active,
     ru_source = \<lparr>rs_repository = ''r'', rs_path = ''p'', rs_anchor = []\<rparr>, ru_selectors = ex_selectors,
     ru_expected_controls = [''c''], ru_independent_evidence = []\<rparr>"

definition ex_policy :: activation_policy where
  "ex_policy = \<lparr>ap_schema_version = 1, ap_rules =
     [ex_rule ''a'' P0Core,
      (ex_rule ''b'' P1Protected)\<lparr>ru_selectors := ex_selectors\<lparr>sel_boundary_kinds := [''ipc'']\<rparr>\<rparr>,
      ex_rule ''c'' P3Supporting]\<rparr>"

definition ex_task :: task_descriptor where
  "ex_task = \<lparr>td_objective = ''o'', td_repository = ''r'', td_revision = ''1'', td_phase = Design, td_risk = R2,
     td_phase_observed = False, td_risk_observed = False, td_changed_paths = [], td_path_prefixes = [],
     td_languages = [], td_explicit_ids = [], td_boundary_kinds = []\<rparr>"

definition ex_budgets :: budgets where
  "ex_budgets = \<lparr>bg_compact_core_max_bytes = 12288, bg_task_payload_max_bytes = 65536,
     bg_inlined_body_max_bytes = 8192, bg_supporting_share_max_percent = 25\<rparr>"

lemma ex_verdicts:
  "verdict_of ex_task (ex_rule i p) = Applicable"
  "verdict_of ex_task ((ex_rule ''b'' P1Protected)\<lparr>ru_selectors := ex_selectors\<lparr>sel_boundary_kinds := [''ipc'']\<rparr>\<rparr>) = Unresolved"
  by (simp_all add: verdict_of_def evaluate_rule_def ex_rule_def ex_selectors_def ex_task_def typed_dimensions_def
      dimension_def Let_def)

lemma ex_partition:
  "protected_rules ex_task (ap_rules ex_policy) = [ex_rule ''a'' P0Core]"
  "optional_rules ex_task (ap_rules ex_policy) = [ex_rule ''c'' P3Supporting]"
  "protected_size ex_task (ap_rules ex_policy) = 134" "unresolved_rules ex_task (ap_rules ex_policy) \<noteq> []"
  by (simp_all add: ex_policy_def protected_rules_def optional_rules_def unresolved_rules_def protected_size_def ex_verdicts)
    (simp_all add: ex_rule_def is_protected_def is_critical_def rule_size_def entry_size_def)

theorem protected_never_truncated_witness:
  "sr_readiness (evaluate_selection ex_policy ex_task ex_budgets 0) = NeedsEvidence \<and>
   sr_readiness (evaluate_selection ex_policy ex_task ex_budgets 100) = BudgetInsufficient \<and>
   sr_protected_included (evaluate_selection ex_policy ex_task ex_budgets 100) = [ex_rule ''a'' P0Core]"
  using protected_never_truncated [OF _ refl, of ex_task ex_policy ex_budgets 0]
    protected_never_truncated [OF _ refl, of ex_task ex_policy ex_budgets 100]
  by (simp add: ex_partition effective_budget_def ex_budgets_def)

section \<open>The ranking and the supporting share\<close>

lemma fit_candidates_greedy:
  assumes "u + sum_list (map rule_size rs) < 2 ^ 64"
  shows "\<exists>k \<le> length rs. fit_candidates cap (of_nat u) rs = take k rs \<and>
    (k = 0 \<or> u + sum_list (map rule_size (take k rs)) \<le> unat cap) \<and>
    (k = length rs \<or> unat cap < u + sum_list (map rule_size (take (Suc k) rs)))"
  using assms
proof (induction rs arbitrary: u)
  case (Cons r rs)
  have f: "fit_candidates cap (of_nat u) (r # rs) =
      (if unat cap < u + rule_size r then [] else r # fit_candidates cap (of_nat (u + rule_size r)) rs)"
    using Cons.prems
    by (simp add: Let_def rule_bytes_size word_less_nat_alt unat_of_nat take_bit_nat_eq_self flip: of_nat_add)
  show ?case
  proof (cases "unat cap < u + rule_size r")
    case True
    then show ?thesis using f by (intro exI [of _ 0]) simp
  next
    case False
    from Cons.IH [of "u + rule_size r"] Cons.prems
    obtain k where k: "k \<le> length rs" "fit_candidates cap (of_nat (u + rule_size r)) rs = take k rs"
      "k = 0 \<or> u + rule_size r + sum_list (map rule_size (take k rs)) \<le> unat cap"
      "k = length rs \<or> unat cap < u + rule_size r + sum_list (map rule_size (take (Suc k) rs))"
      by (auto simp: add.assoc)
    then show ?thesis using f False by (intro exI [of _ "Suc k"]) (auto simp: add.assoc)
  qed
qed simp

lemma rank_order_props:
  "mset (rank_order task rs) = mset rs"
  "sorted_wrt (\<lambda>r q. rank_score_of q task < rank_score_of r task \<or>
     rank_score_of q task = rank_score_of r task \<and> ru_id r \<le> ru_id q) (rank_order task rs)"
proof -
  show "mset (rank_order task rs) = mset rs" by (simp add: rank_order_def)
  have "sorted (map (\<lambda>r. (- uint (rank_score_of r task), ru_id r)) (rank_order task rs))"
    by (simp add: rank_order_def)
  then have "sorted_wrt (\<lambda>r q. (- uint (rank_score_of r task), ru_id r) \<le> (- uint (rank_score_of q task), ru_id q))
      (rank_order task rs)"
    by (simp add: sorted_map)
  then show "sorted_wrt (\<lambda>r q. rank_score_of q task < rank_score_of r task \<or>
     rank_score_of q task = rank_score_of r task \<and> ru_id r \<le> ru_id q) (rank_order task rs)"
    by (rule sorted_wrt_mono_rel [rotated]) (auto simp: less_eq_prod_def word_less_def word_uint_eq_iff)
qed

lemma supporting_cap:
  fixes remaining percent :: u64
  assumes "percent \<le> 100" "unat remaining \<le> 2 ^ 57"
  shows "unat (remaining * percent div 100) = unat remaining * unat percent div 100"
    "unat (remaining * percent div 100) \<le> unat remaining"
proof -
  have p: "unat percent \<le> 100" using assms(1) by (simp add: word_le_nat_alt)
  have "unat remaining * unat percent \<le> 2 ^ 57 * 100" using assms(2) p by (intro mult_le_mono)
  then have "unat (remaining * percent) = unat remaining * unat percent"
    by (simp add: unat_word_ariths(2) take_bit_eq_mod)
  then show u: "unat (remaining * percent div 100) = unat remaining * unat percent div 100"
    by (simp add: unat_div)
  have "unat remaining * unat percent \<le> unat remaining * 100" using p by simp
  then show "unat (remaining * percent div 100) \<le> unat remaining" unfolding u by linarith
qed

text \<open>
  When the protected material fits, the ranked candidates are the applicable optional rules ordered by
  descending score and then by rule id, cut to the longest prefix whose size fits the supporting share of what
  the protected material left, so protected and ranked material together stay within the effective budget.  The
  caps are those of a real policy: at most 100 percent, and below the size where the multiplication would wrap.
\<close>

theorem ranked_within_share:
  assumes "R = evaluate_selection policy task b requested"
    and "ranked = rank_order task (optional_rules task (ap_rules policy))"
    and "need = protected_size task (ap_rules policy)"
    and "sum_list (map rule_size ranked) < 2 ^ 64" "need \<le> unat (effective_budget b requested)"
    and "bg_supporting_share_max_percent b \<le> 100" "bg_task_payload_max_bytes b \<le> 2 ^ 57"
  shows "mset ranked = mset (optional_rules task (ap_rules policy)) \<and>
    sorted_wrt (\<lambda>r q. rank_score_of q task < rank_score_of r task \<or>
      rank_score_of q task = rank_score_of r task \<and> ru_id r \<le> ru_id q) ranked \<and>
    (\<exists>k \<le> length ranked. sr_ranked_candidates R = take k ranked \<and>
      sum_list (map rule_size (take k ranked))
        \<le> (unat (effective_budget b requested) - need) * unat (bg_supporting_share_max_percent b) div 100 \<and>
      (k = length ranked \<or>
       (unat (effective_budget b requested) - need) * unat (bg_supporting_share_max_percent b) div 100
         < sum_list (map rule_size (take (Suc k) ranked))) \<and>
      need + sum_list (map rule_size (take k ranked)) \<le> unat (bg_task_payload_max_bytes b))"
proof -
  let ?B = "effective_budget b requested" and ?p = "bg_supporting_share_max_percent b"
  define rem where "rem = ?B - of_nat need"
  have BP: "?B \<le> bg_task_payload_max_bytes b" by (auto simp: effective_budget_def)
  then have B: "unat ?B \<le> unat (bg_task_payload_max_bytes b)" "unat (bg_task_payload_max_bytes b) \<le> 2 ^ 57"
    using assms(7) by (simp_all add: word_le_nat_alt)
  have n: "unat (of_nat need :: u64) = need"
    using assms(5) B by (simp add: unat_of_nat take_bit_nat_eq_self)
  then have le: "of_nat need \<le> ?B" using assms(5) by (simp add: word_le_nat_alt)
  have rem: "unat rem = unat ?B - need" unfolding rem_def by (simp add: unat_sub [OF le] n)
  then have "unat rem \<le> 2 ^ 57" using B by simp
  note cap = supporting_cap [OF assms(6) this]
  have sel: "sr_ranked_candidates R = fit_candidates (rem * ?p div 100) (of_nat 0) ranked"
    using selection_unfold(4) [OF assms(1) refl refl] le assms(2,3) by (simp add: rem_def leD)
  obtain k where k: "k \<le> length ranked" "sr_ranked_candidates R = take k ranked"
    "k = 0 \<or> sum_list (map rule_size (take k ranked)) \<le> unat (rem * ?p div 100)"
    "k = length ranked \<or> unat (rem * ?p div 100) < sum_list (map rule_size (take (Suc k) ranked))"
    using fit_candidates_greedy [of 0 ranked "rem * ?p div 100"] assms(4) sel by auto
  have s: "sum_list (map rule_size (take k ranked)) \<le> unat (rem * ?p div 100)" using k(3) by auto
  then have "need + sum_list (map rule_size (take k ranked)) \<le> unat ?B"
    using cap(2) rem assms(5) by linarith
  then show ?thesis
    using k s B cap(1) rem rank_order_props [of task] assms(2) by (intro conjI exI [of _ k]) auto
qed

theorem ranked_within_share_witness:
  "\<exists>k \<le> 1. sr_ranked_candidates (evaluate_selection ex_policy ex_task ex_budgets 0) =
     take k [ex_rule ''c'' P3Supporting]"
proof -
  have r: "rank_order ex_task (optional_rules ex_task (ap_rules ex_policy)) = [ex_rule ''c'' P3Supporting]"
    by (simp add: rank_order_def ex_partition)
  have "rule_size (ex_rule ''c'' P3Supporting) = 68" by (simp add: rule_size_def entry_size_def ex_rule_def)
  then show ?thesis
    using ranked_within_share [OF refl r [symmetric] refl, of ex_budgets 0]
    by (auto simp: ex_partition effective_budget_def ex_budgets_def)
qed

end
