(* ===== verification/Source_Lock.thy ===== *)
theory Source_Lock
  imports Task_Descriptor "HOL-Library.Product_Lexorder" "HOL-Library.Multiset"
begin

text \<open>
  The external source lock, \<^verbatim>\<open>cognition/source_lock.hpp/.cpp\<close>: resolving the declared repositories at one exact
  commit each, listing and hashing the selected files, and the canonical JSON whose digest names the closure.
  Git is a parameter: \<open>git checkout args\<close> is the output of one invocation, \<open>None\<close> when it did not start, timed
  out or failed.  \<^verbatim>\<open>std::sort\<close> is a parameter too, since it leaves the order of equal keys open; its contract is
  \<open>sorts_by\<close>.
\<close>

section \<open>Data\<close>

definition max_lock_entries :: nat where "max_lock_entries = 4096"
definition max_locked_file_bytes :: u64 where "max_locked_file_bytes = 2 * 1024 * 1024"
definition max_locked_total_bytes :: u64 where "max_locked_total_bytes = 64 * 1024 * 1024"

datatype lock_error =
    GitUnavailable | RevisionUnresolved | DirtyCheckout | BoundExceeded | PathOutsideFilter | MalformedEntry

record lock_repository =
  lr_repository :: string
  lr_path_filters :: "string list"
  lr_checkout :: string
  lr_ref :: string

record lock_entry =
  lk_repository :: string
  lk_commit :: string
  lk_tree_oid :: string
  lk_path :: string
  lk_sha256 :: string
  lk_size_bytes :: u64

type_synonym source_lock = "lock_entry list"
type_synonym git_runner = "string \<Rightarrow> string list \<Rightarrow> string option"

section \<open>Plumbing output\<close>

definition is_hex_oid :: "string \<Rightarrow> bool" where
  "is_hex_oid s \<longleftrightarrow> length s = 40 \<and> list_all (\<lambda>c. c \<in> set hex_digits) s"

definition is_trimmed :: "char \<Rightarrow> bool" where
  "is_trimmed c \<longleftrightarrow> c = CHR 0x0A \<or> c = CHR 0x0D \<or> c = CHR '' ''"

definition trim :: "string \<Rightarrow> string" where
  "trim s = dropWhile is_trimmed (rev (dropWhile is_trimmed (rev s)))"

definition selected_by :: "string \<Rightarrow> string list \<Rightarrow> bool" where
  "selected_by path filters =
     list_ex (\<lambda>entry. path = entry \<or>
       length entry < length path \<and> take (length entry) path = entry \<and> path ! length entry = CHR ''/'') filters"

text \<open>\<^verbatim>\<open>std::getline\<close>: the pieces between line feeds, without an empty piece after the last one.\<close>

function getlines :: "string \<Rightarrow> string list" where
  "getlines s =
     (if s = [] then []
      else takeWhile (\<lambda>c. c \<noteq> CHR 0x0A) s # getlines (drop 1 (dropWhile (\<lambda>c. c \<noteq> CHR 0x0A) s)))"
  by pat_completeness auto

termination getlines
proof (relation "measure length", simp, goal_cases)
  case (1 s)
  have "length (dropWhile (\<lambda>c. c \<noteq> CHR 0x0A) s) \<le> length s" by (rule length_dropWhile_le)
  then show ?case using 1 by (simp add: diff_less_Suc less_le_trans) (cases s; simp)
qed

declare getlines.simps [simp del]

definition split_lines :: "string \<Rightarrow> string list" where
  "split_lines s =
     filter (\<lambda>l. l \<noteq> []) (map (\<lambda>l. rev (dropWhile (\<lambda>c. c = CHR 0x0D) (rev l))) (getlines s))"

record tree_row =
  tr_oid :: string
  tr_path :: string
  tr_size :: u64

text \<open>
  Extraction from a stream: a word is what comes before the next white space after skipping some, empty when
  nothing is left; a number is an optional sign and digits, and fails when there are none or they do not fit.
\<close>

definition stream_space :: "char \<Rightarrow> bool" where
  "stream_space c \<longleftrightarrow> c = CHR '' '' \<or> 9 \<le> byte_of c \<and> byte_of c \<le> 13"

definition stream_word :: "string \<Rightarrow> string \<times> string" where
  "stream_word s =
     (let t = dropWhile stream_space s in
      (takeWhile (\<lambda>c. \<not> stream_space c) t, dropWhile (\<lambda>c. \<not> stream_space c) t))"

definition stream_number :: "string \<Rightarrow> u64 option" where
  "stream_number s =
     (let t = dropWhile stream_space s;
          signed = (t \<noteq> [] \<and> (hd t = CHR ''-'' \<or> hd t = CHR ''+''));
          ds = takeWhile is_digit (if signed then tl t else t) in
      if ds = [] \<or> 2 ^ 64 \<le> decimal ds then None
      else Some (if signed \<and> hd t = CHR ''-'' then - of_nat (decimal ds) else of_nat (decimal ds)))"

text \<open>One line of \<^verbatim>\<open>ls-tree -r -l\<close>: refused, passed over, or a row.\<close>

definition tree_line :: "string \<Rightarrow> lock_error + tree_row option" where
  "tree_line line =
     (let meta = takeWhile (\<lambda>c. c \<noteq> CHR 0x09) line; path = drop (length meta + 1) line in
      if CHR 0x09 \<notin> set line \<or> path = [] then Inl MalformedEntry
      else
        let (mode, s1) = stream_word meta; (kind, s2) = stream_word s1; (oid, s3) = stream_word s2 in
        if kind \<noteq> ''blob'' \<or> length oid \<noteq> 40 then Inr None
        else case stream_number s3 of
          None \<Rightarrow> Inl MalformedEntry
        | Some n \<Rightarrow> Inr (Some \<lparr>tr_oid = oid, tr_path = path, tr_size = n\<rparr>))"

fun tree_rows :: "string list \<Rightarrow> lock_error + tree_row list" where
  "tree_rows [] = Inr []"
| "tree_rows (l # ls) =
     (case tree_line l of
        Inl e \<Rightarrow> Inl e
      | Inr found \<Rightarrow>
          (case tree_rows ls of
             Inl e \<Rightarrow> Inl e
           | Inr rows \<Rightarrow> Inr (case found of None \<Rightarrow> rows | Some r \<Rightarrow> r # rows)))"

definition list_tree :: "(string list \<Rightarrow> string option) \<Rightarrow> string \<Rightarrow> lock_error + tree_row list" where
  "list_tree run tree_oid =
     (case run [''ls-tree'', ''-r'', ''-l'', tree_oid] of
        None \<Rightarrow> Inl GitUnavailable
      | Some out \<Rightarrow> tree_rows (split_lines out))"

section \<open>Building the lock\<close>

text \<open>The part of a repository before its rows are read: the pinned commit and its tree.\<close>

definition pinned_tree :: "(string list \<Rightarrow> string option) \<Rightarrow> lock_repository \<Rightarrow> lock_error + string \<times> string" where
  "pinned_tree run repo =
     (case run [''rev-parse'', lr_ref repo @ ''^{commit}''] of
        None \<Rightarrow> Inl RevisionUnresolved
      | Some out \<Rightarrow>
          let commit_oid = trim out in
          if \<not> is_hex_oid commit_oid then Inl RevisionUnresolved
          else if map_option trim (run [''rev-parse'', ''HEAD'']) \<noteq> Some commit_oid then Inl RevisionUnresolved
          else case run [''status'', ''--porcelain''] of
            None \<Rightarrow> Inl GitUnavailable
          | Some status \<Rightarrow>
              if trim status \<noteq> [] then Inl DirtyCheckout
              else case run [''rev-parse'', commit_oid @ ''^{tree}''] of
                None \<Rightarrow> Inl RevisionUnresolved
              | Some out \<Rightarrow>
                  let tree_oid = trim out in
                  if \<not> is_hex_oid tree_oid then Inl RevisionUnresolved else Inr (commit_oid, tree_oid))"

fun lock_rows ::
    "foundation \<Rightarrow> (string list \<Rightarrow> string option) \<Rightarrow> lock_repository \<Rightarrow> string \<Rightarrow> string \<Rightarrow> tree_row list
     \<Rightarrow> source_lock \<times> u64 \<Rightarrow> lock_error + source_lock \<times> u64" where
  "lock_rows F run repo commit tree [] st = Inr st"
| "lock_rows F run repo commit tree (row # rows) (entries, used) =
     (if \<not> selected_by (tr_path row) (lr_path_filters repo) then lock_rows F run repo commit tree rows (entries, used)
      else if max_locked_file_bytes < tr_size row \<or> max_locked_total_bytes < used + tr_size row then Inl BoundExceeded
      else case run [''cat-file'', ''blob'', tr_oid row] of
        None \<Rightarrow> Inl GitUnavailable
      | Some blob \<Rightarrow>
          if of_nat (length blob) \<noteq> tr_size row then Inl MalformedEntry
          else
            let entry = \<lparr>lk_repository = lr_repository repo, lk_commit = commit, lk_tree_oid = tree,
                         lk_path = tr_path row, lk_sha256 = hex_of (sha256 F (text_bytes blob)),
                         lk_size_bytes = tr_size row\<rparr> in
            if max_lock_entries < length (entries @ [entry]) then Inl BoundExceeded
            else lock_rows F run repo commit tree rows (entries @ [entry], used + tr_size row))"

definition lock_one ::
    "foundation \<Rightarrow> git_runner \<Rightarrow> lock_repository \<Rightarrow> source_lock \<times> u64 \<Rightarrow> lock_error + source_lock \<times> u64" where
  "lock_one F git repo st =
     (if lr_checkout repo = [] \<or> lr_ref repo = [] \<or> lr_path_filters repo = [] \<or> lr_repository repo = []
      then Inl MalformedEntry
      else case pinned_tree (git (lr_checkout repo)) repo of
        Inl e \<Rightarrow> Inl e
      | Inr (commit, tree) \<Rightarrow>
          (case list_tree (git (lr_checkout repo)) tree of
             Inl e \<Rightarrow> Inl e
           | Inr rows \<Rightarrow> lock_rows F (git (lr_checkout repo)) repo commit tree rows st))"

fun lock_all ::
    "foundation \<Rightarrow> git_runner \<Rightarrow> lock_repository list \<Rightarrow> source_lock \<times> u64 \<Rightarrow> lock_error + source_lock \<times> u64" where
  "lock_all F git [] st = Inr st"
| "lock_all F git (repo # repos) st =
     (case lock_one F git repo st of Inl e \<Rightarrow> Inl e | Inr st' \<Rightarrow> lock_all F git repos st')"

definition entry_key :: "lock_entry \<Rightarrow> string \<times> string" where
  "entry_key e = (lk_repository e, lk_path e)"

text \<open>\<^verbatim>\<open>std::unique\<close>: of adjacent entries with one key the first stays.\<close>

fun unique_by :: "('a \<Rightarrow> 'k) \<Rightarrow> 'a list \<Rightarrow> 'a list" where
  "unique_by key (x # y # ys) =
     (if key x = key y then unique_by key (x # ys) else x # unique_by key (y # ys))"
| "unique_by key xs = xs"

definition lock_build ::
    "foundation \<Rightarrow> (source_lock \<Rightarrow> source_lock) \<Rightarrow> git_runner option \<Rightarrow> string \<Rightarrow> lock_repository list
     \<Rightarrow> lock_error + source_lock" where
  "lock_build F sorter git git_executable repos =
     (case git of
        None \<Rightarrow> Inl GitUnavailable
      | Some run \<Rightarrow>
          if git_executable = [] \<or> repos = [] then Inl GitUnavailable
          else case lock_all F run repos ([], 0) of
            Inl e \<Rightarrow> Inl e
          | Inr (entries, used) \<Rightarrow> Inr (unique_by entry_key (sorter entries)))"

section \<open>Canonical JSON\<close>

text \<open>The escaping of this file writes the same characters as the one of the task descriptor.\<close>

definition lock_escape_char :: "char \<Rightarrow> string" where
  "lock_escape_char c =
     (if c = quote then [backslash, quote]
      else if c = backslash then [backslash, backslash]
      else if c = CHR 0x0A then [backslash, CHR ''n'']
      else if c = CHR 0x0D then [backslash, CHR ''r'']
      else if c = CHR 0x09 then [backslash, CHR ''t'']
      else if byte_of c < 32 then backslash # CHR ''u'' # hex4 (byte_of c)
      else [c])"

definition lock_escape :: "string \<Rightarrow> string" where
  "lock_escape s = quote # concat (map lock_escape_char s) @ [quote]"

definition member_key :: "string \<Rightarrow> string" where
  "member_key k = quote # k @ [quote, CHR '':'']"

definition entry_json :: "lock_entry \<Rightarrow> string" where
  "entry_json e =
     ''{'' @ member_key ''repository'' @ lock_escape (lk_repository e)
     @ '','' @ member_key ''commit'' @ lock_escape (lk_commit e)
     @ '','' @ member_key ''tree'' @ lock_escape (lk_tree_oid e)
     @ '','' @ member_key ''path'' @ lock_escape (lk_path e)
     @ '','' @ member_key ''sha256'' @ lock_escape (lk_sha256 e)
     @ '','' @ member_key ''size'' @ to_string_u64 (lk_size_bytes e) @ ''}''"

definition lock_json :: "source_lock \<Rightarrow> string" where
  "lock_json entries =
     ''{'' @ member_key ''schema'' @ quote # ''qiven-source-lock-v1'' @ [quote]
     @ '','' @ member_key ''entries'' @ ''['' @ comma_join (map entry_json entries) @ '']}''"

definition lock_digest :: "foundation \<Rightarrow> source_lock \<Rightarrow> string" where
  "lock_digest F entries = hex_of (sha256 F (text_bytes (lock_json entries)))"

section \<open>The digest names the closure\<close>

lemma lock_escape_eq: "lock_escape s = json_escape s"
proof -
  have "lock_escape_char c = escape_char c" for c
    by (auto simp: lock_escape_char_def escape_char_def)
  then have "lock_escape_char = escape_char" by (rule ext)
  then show ?thesis by (simp add: lock_escape_def json_escape_def)
qed

lemma number_app_inj:
  "stop x \<Longrightarrow> stop y \<Longrightarrow> to_string_u64 n @ x = to_string_u64 m @ y \<longleftrightarrow> n = m \<and> x = y"
  by (simp add: to_string_u64_def digits_app_inj word_unat_eq_iff)

lemma entry_json_app: "entry_json e @ x = entry_json f @ y \<longleftrightarrow> e = f \<and> x = y"
proof -
  have "entry_json e @ x = entry_json f @ y \<longleftrightarrow>
      lk_repository e = lk_repository f \<and> lk_commit e = lk_commit f \<and> lk_tree_oid e = lk_tree_oid f \<and>
      lk_path e = lk_path f \<and> lk_sha256 e = lk_sha256 f \<and> lk_size_bytes e = lk_size_bytes f \<and> x = y"
    by (simp add: entry_json_def lock_escape_eq number_app_inj)
  then show ?thesis by auto
qed

text \<open>
  The canonical JSON of a lock determines its entries: repository, commit, tree, path, content digest and size
  of every file, in order.  Any change of an entry changes what is hashed; since every entry carries the commit,
  so does a new commit that touches none of the selected files.
\<close>

theorem lock_json_determines: "lock_json a = lock_json b \<longleftrightarrow> a = b"
  using comma_list_inj [of entry_json a "''}''" b "''}''"] entry_json_app
  by (simp add: lock_json_def) (simp add: entry_json_def)

section \<open>What a lock contains\<close>

definition sorts_by :: "('a \<Rightarrow> 'k::linorder) \<Rightarrow> ('a list \<Rightarrow> 'a list) \<Rightarrow> bool" where
  "sorts_by key sorter \<longleftrightarrow> (\<forall>xs. mset (sorter xs) = mset xs \<and> sorted (map key (sorter xs)))"

lemma selected_by_iff:
  "selected_by path filters \<longleftrightarrow> (\<exists>f \<in> set filters. path = f \<or> (\<exists>rest. path = f @ CHR ''/'' # rest))"
proof -
  have "length f < length path \<and> take (length f) path = f \<and> path ! length f = CHR ''/'' \<longleftrightarrow>
      (\<exists>rest. path = f @ CHR ''/'' # rest)" for f
    by (metis append_take_drop_id Cons_nth_drop_Suc append_eq_conv_conj length_append less_add_same_cancel1
        list.size(4) nth_append_length zero_less_Suc add_Suc_right)
  then show ?thesis by (simp add: selected_by_def list_ex_iff)
qed

lemma unique_by_subset: "mset (unique_by key xs) \<subseteq># mset xs"
proof (induction key xs rule: unique_by.induct)
  case (1 key x y ys)
  have "add_mset x (mset ys) \<subseteq># add_mset x (add_mset y (mset ys))" by (simp add: subset_mset.le_iff_add)
  then show ?case using 1 by (auto intro: subset_mset.order_trans)
qed simp_all

lemma unique_by_keys: "key ` set (unique_by key xs) = key ` set xs"
  by (induction key xs rule: unique_by.induct) auto

lemma unique_by_sorted: "sorted (map key xs) \<Longrightarrow> sorted_wrt (<) (map key (unique_by key xs))"
proof (induction key xs rule: unique_by.induct)
  case (1 key x y ys)
  show ?case
  proof (cases "key x = key y")
    case True
    then show ?thesis using 1 by simp
  next
    case False
    have "key x < z" if "z \<in> key ` set (unique_by key (y # ys))" for z
      using that False "1.prems" unfolding unique_by_keys by (auto intro: le_neq_trans order.strict_trans1)
    then show ?thesis using 1(2) [OF False] "1.prems" False by auto
  qed
qed simp_all

text \<open>An entry stands for one selected file of one pinned, clean checkout.\<close>

definition entry_from :: "foundation \<Rightarrow> git_runner \<Rightarrow> lock_repository \<Rightarrow> lock_entry \<Rightarrow> bool" where
  "entry_from F git repo e \<longleftrightarrow>
     lk_repository e = lr_repository repo \<and>
     pinned_tree (git (lr_checkout repo)) repo = Inr (lk_commit e, lk_tree_oid e) \<and>
     (\<exists>rows row blob. list_tree (git (lr_checkout repo)) (lk_tree_oid e) = Inr rows \<and> row \<in> set rows \<and>
        lk_path e = tr_path row \<and> selected_by (tr_path row) (lr_path_filters repo) \<and>
        git (lr_checkout repo) [''cat-file'', ''blob'', tr_oid row] = Some blob \<and>
        lk_sha256 e = hex_of (sha256 F (text_bytes blob)) \<and> lk_size_bytes e = of_nat (length blob) \<and>
        lk_size_bytes e \<le> max_locked_file_bytes)"

lemma pinned_tree_facts:
  assumes "pinned_tree run repo = Inr (c, t)"
  shows "is_hex_oid c \<and> is_hex_oid t \<and> map_option trim (run [''rev-parse'', ''HEAD'']) = Some c \<and>
    map_option trim (run [''status'', ''--porcelain'']) = Some []"
  using assms by (auto simp: pinned_tree_def Let_def split: option.split_asm if_split_asm)

definition lock_size :: "source_lock \<Rightarrow> nat" where
  "lock_size entries = sum_list (map (\<lambda>e. unat (lk_size_bytes e)) entries)"

definition within :: "source_lock \<times> u64 \<Rightarrow> bool" where
  "within st \<longleftrightarrow> length (fst st) \<le> max_lock_entries \<and> unat (snd st) = lock_size (fst st) \<and>
     snd st \<le> max_locked_total_bytes"

text \<open>One more file keeps the bounds, and the running total does not wrap.\<close>

lemma within_step:
  assumes "within (entries, used)" "\<not> max_locked_file_bytes < n" "\<not> max_locked_total_bytes < used + n"
    and "length (entries @ [e]) \<le> max_lock_entries" "lk_size_bytes e = n"
  shows "within (entries @ [e], used + n)"
proof -
  have "unat used \<le> 67108864" "unat n \<le> 2097152"
    using assms(1,2) by (simp_all add: within_def max_locked_total_bytes_def max_locked_file_bytes_def not_less word_le_nat_alt)
  then have "unat (used + n) = unat used + unat n" by (simp add: unat_word_ariths take_bit_eq_mod)
  then show ?thesis using assms by (simp add: within_def lock_size_def not_less)
qed

lemma lock_rows_facts:
  assumes "lock_rows F run repo c t rows (entries, used) = Inr (entries', used')" "within (entries, used)"
  shows "within (entries', used') \<and> (\<exists>new. entries' = entries @ new \<and>
    map lk_path new = map tr_path (filter (\<lambda>r. selected_by (tr_path r) (lr_path_filters repo)) rows) \<and>
    (\<forall>e \<in> set new. \<exists>row \<in> set rows. \<exists>blob. lk_repository e = lr_repository repo \<and> lk_commit e = c \<and> lk_tree_oid e = t \<and>
       lk_path e = tr_path row \<and> selected_by (tr_path row) (lr_path_filters repo) \<and>
       run [''cat-file'', ''blob'', tr_oid row] = Some blob \<and> lk_sha256 e = hex_of (sha256 F (text_bytes blob)) \<and>
       lk_size_bytes e = of_nat (length blob) \<and> lk_size_bytes e \<le> max_locked_file_bytes))"
  using assms
proof (induction rows arbitrary: entries used)
  case Nil
  then show ?case by simp
next
  case (Cons row rows)
  show ?case
  proof (cases "selected_by (tr_path row) (lr_path_filters repo)")
    case False
    then show ?thesis using Cons.prems Cons.IH [of entries used] by auto
  next
    case True
    obtain blob where b: "run [''cat-file'', ''blob'', tr_oid row] = Some blob" "of_nat (length blob) = tr_size row"
      "\<not> max_locked_file_bytes < tr_size row" "\<not> max_locked_total_bytes < used + tr_size row"
      using Cons.prems(1) True by (auto split: if_split_asm option.split_asm)
    define e where "e = \<lparr>lk_repository = lr_repository repo, lk_commit = c, lk_tree_oid = t, lk_path = tr_path row,
      lk_sha256 = hex_of (sha256 F (text_bytes blob)), lk_size_bytes = tr_size row\<rparr>"
    have r: "length (entries @ [e]) \<le> max_lock_entries"
      "lock_rows F run repo c t rows (entries @ [e], used + tr_size row) = Inr (entries', used')"
      using Cons.prems(1) True b by (auto simp: e_def Let_def split: if_split_asm)
    have w: "within (entries @ [e], used + tr_size row)"
      using within_step [OF Cons.prems(2) b(3,4) r(1)] by (simp add: e_def)
    from Cons.IH [OF r(2) w] obtain new where n: "within (entries', used')" "entries' = entries @ e # new"
      "map lk_path new = map tr_path (filter (\<lambda>r. selected_by (tr_path r) (lr_path_filters repo)) rows)"
      "\<forall>e \<in> set new. \<exists>row \<in> set rows. \<exists>blob. lk_repository e = lr_repository repo \<and> lk_commit e = c \<and> lk_tree_oid e = t \<and>
         lk_path e = tr_path row \<and> selected_by (tr_path row) (lr_path_filters repo) \<and>
         run [''cat-file'', ''blob'', tr_oid row] = Some blob \<and> lk_sha256 e = hex_of (sha256 F (text_bytes blob)) \<and>
         lk_size_bytes e = of_nat (length blob) \<and> lk_size_bytes e \<le> max_locked_file_bytes" by auto
    moreover have "\<exists>blob. lk_repository e = lr_repository repo \<and> lk_commit e = c \<and> lk_tree_oid e = t \<and>
        lk_path e = tr_path row \<and> run [''cat-file'', ''blob'', tr_oid row] = Some blob \<and>
        lk_sha256 e = hex_of (sha256 F (text_bytes blob)) \<and> lk_size_bytes e = of_nat (length blob) \<and>
        lk_size_bytes e \<le> max_locked_file_bytes" using b by (simp add: e_def not_less)
    ultimately show ?thesis using True by (intro conjI exI [of _ "e # new"]) (auto simp: e_def)
  qed
qed

lemma lock_one_facts:
  assumes "lock_one F git repo st = Inr st'" "within st"
  shows "within st' \<and> (\<exists>new. fst st' = fst st @ new \<and> (\<forall>e \<in> set new. entry_from F git repo e) \<and>
    (\<forall>c t rows. pinned_tree (git (lr_checkout repo)) repo = Inr (c, t) \<longrightarrow>
       list_tree (git (lr_checkout repo)) t = Inr rows \<longrightarrow>
       map entry_key new = map (\<lambda>r. (lr_repository repo, tr_path r)) (filter (\<lambda>r. selected_by (tr_path r) (lr_path_filters repo)) rows)))"
proof -
  obtain entries used entries' used' where st: "st = (entries, used)" "st' = (entries', used')" by fastforce
  obtain c t rows where p: "pinned_tree (git (lr_checkout repo)) repo = Inr (c, t)"
    "list_tree (git (lr_checkout repo)) t = Inr rows"
    "lock_rows F (git (lr_checkout repo)) repo c t rows (entries, used) = Inr (entries', used')"
    using assms(1) st by (auto simp: lock_one_def split: if_split_asm sum.split_asm)
  from lock_rows_facts [OF p(3)] assms(2) st obtain new where n: "within st'" "entries' = entries @ new"
    "map lk_path new = map tr_path (filter (\<lambda>r. selected_by (tr_path r) (lr_path_filters repo)) rows)"
    "\<forall>e \<in> set new. \<exists>row \<in> set rows. \<exists>blob. lk_repository e = lr_repository repo \<and> lk_commit e = c \<and> lk_tree_oid e = t \<and>
       lk_path e = tr_path row \<and> selected_by (tr_path row) (lr_path_filters repo) \<and>
       git (lr_checkout repo) [''cat-file'', ''blob'', tr_oid row] = Some blob \<and>
       lk_sha256 e = hex_of (sha256 F (text_bytes blob)) \<and>
       lk_size_bytes e = of_nat (length blob) \<and> lk_size_bytes e \<le> max_locked_file_bytes" by auto
  have "\<forall>e \<in> set new. entry_from F git repo e"
  proof
    fix e assume "e \<in> set new"
    with n(4) show "entry_from F git repo e" using p(1,2) unfolding entry_from_def by fastforce
  qed
  moreover have "map entry_key new = map (Pair (lr_repository repo)) (map lk_path new)"
    using n(4) by (auto simp: entry_key_def)
  ultimately show ?thesis
    using n(1,2,3) st p(1,2) by (intro conjI exI [of _ new]) (auto simp: comp_def)
qed

lemma lock_all_facts:
  assumes "lock_all F git repos st = Inr st'" "within st"
  shows "within st' \<and> (\<exists>new. fst st' = fst st @ new \<and>
    (\<forall>e \<in> set new. \<exists>repo \<in> set repos. entry_from F git repo e) \<and>
    (\<forall>repo \<in> set repos. \<exists>c t rows. pinned_tree (git (lr_checkout repo)) repo = Inr (c, t) \<and>
       list_tree (git (lr_checkout repo)) t = Inr rows \<and>
       (\<forall>row \<in> set rows. selected_by (tr_path row) (lr_path_filters repo) \<longrightarrow>
          (lr_repository repo, tr_path row) \<in> entry_key ` set new)))"
  using assms
proof (induction repos arbitrary: st)
  case Nil
  then show ?case by simp
next
  case (Cons repo repos)
  obtain st1 where s: "lock_one F git repo st = Inr st1" "lock_all F git repos st1 = Inr st'"
    using Cons.prems(1) by (auto split: sum.split_asm)
  obtain c t rows where p: "pinned_tree (git (lr_checkout repo)) repo = Inr (c, t)"
    "list_tree (git (lr_checkout repo)) t = Inr rows"
    using s(1) by (auto simp: lock_one_def split: if_split_asm sum.split_asm)
  from lock_one_facts [OF s(1) Cons.prems(2)] p obtain new1 where a: "within st1" "fst st1 = fst st @ new1"
    "\<forall>e \<in> set new1. entry_from F git repo e"
    "map entry_key new1 = map (\<lambda>r. (lr_repository repo, tr_path r)) (filter (\<lambda>r. selected_by (tr_path r) (lr_path_filters repo)) rows)"
    by blast
  from Cons.IH [OF s(2) a(1)] obtain new2 where b: "within st'" "fst st' = fst st1 @ new2"
    "\<forall>e \<in> set new2. \<exists>repo \<in> set repos. entry_from F git repo e"
    "\<forall>repo \<in> set repos. \<exists>c t rows. pinned_tree (git (lr_checkout repo)) repo = Inr (c, t) \<and>
       list_tree (git (lr_checkout repo)) t = Inr rows \<and>
       (\<forall>row \<in> set rows. selected_by (tr_path row) (lr_path_filters repo) \<longrightarrow>
          (lr_repository repo, tr_path row) \<in> entry_key ` set new2)" by blast
  have "entry_key ` set new1 = (\<lambda>r. (lr_repository repo, tr_path r)) ` {r \<in> set rows. selected_by (tr_path r) (lr_path_filters repo)}"
    using arg_cong [OF a(4), of set] by simp
  then have "\<forall>row \<in> set rows. selected_by (tr_path row) (lr_path_filters repo) \<longrightarrow>
      (lr_repository repo, tr_path row) \<in> entry_key ` set (new1 @ new2)" by auto
  moreover have "\<forall>r \<in> set repos. \<exists>c t rows. pinned_tree (git (lr_checkout r)) r = Inr (c, t) \<and>
       list_tree (git (lr_checkout r)) t = Inr rows \<and>
       (\<forall>row \<in> set rows. selected_by (tr_path row) (lr_path_filters r) \<longrightarrow>
          (lr_repository r, tr_path row) \<in> entry_key ` set (new1 @ new2))"
    using b(4) unfolding set_append image_Un by blast
  ultimately have "\<forall>r \<in> set (repo # repos). \<exists>c t rows. pinned_tree (git (lr_checkout r)) r = Inr (c, t) \<and>
       list_tree (git (lr_checkout r)) t = Inr rows \<and>
       (\<forall>row \<in> set rows. selected_by (tr_path row) (lr_path_filters r) \<longrightarrow>
          (lr_repository r, tr_path row) \<in> entry_key ` set (new1 @ new2))"
    using p by (metis set_ConsD)
  moreover have "\<forall>e \<in> set (new1 @ new2). \<exists>r \<in> set (repo # repos). entry_from F git r e" using a(3) b(3) by auto
  ultimately show ?case using a(2) b(1,2) by (intro conjI exI [of _ "new1 @ new2"]) simp_all
qed

lemma lock_size_mono: "mset xs \<subseteq># mset ys \<Longrightarrow> lock_size xs \<le> lock_size ys \<and> length xs \<le> length ys"
proof -
  assume s: "mset xs \<subseteq># mset ys"
  then obtain m where "mset ys = mset xs + m" by (metis subset_mset.le_iff_add)
  moreover have "lock_size zs = (\<Sum>e \<in># mset zs. unat (lk_size_bytes e))" for zs
    by (simp add: lock_size_def flip: sum_mset_sum_list)
  ultimately have "lock_size xs \<le> lock_size ys" by simp
  moreover have "length xs \<le> length ys" using size_mset_mono [OF s] by simp
  ultimately show ?thesis by simp
qed

text \<open>
  C39: A lock that is built lists exactly the selected files, once each, ordered by repository and path.  Every
  entry is a file that its repository's filters select component-wise, read at a commit that is the checkout's
  head while the working tree is clean, with the digest and the size of the blob; every selected file of every
  repository has its entry; and there are at most 4096 files of at most 2 MiB each and 64 MiB together.
\<close>

theorem lock_build_exact:
  assumes "lock_build F sorter (Some git) git_executable repos = Inr lock" "sorts_by entry_key sorter"
  shows "sorted_wrt (<) (map entry_key lock) \<and>
    (\<forall>e \<in> set lock. \<exists>repo \<in> set repos. entry_from F git repo e) \<and>
    (\<forall>repo \<in> set repos. \<exists>c t rows. pinned_tree (git (lr_checkout repo)) repo = Inr (c, t) \<and>
       list_tree (git (lr_checkout repo)) t = Inr rows \<and>
       (\<forall>row \<in> set rows. selected_by (tr_path row) (lr_path_filters repo) \<longrightarrow>
          (\<exists>e \<in> set lock. entry_key e = (lr_repository repo, tr_path row)))) \<and>
    length lock \<le> 4096 \<and> lock_size lock \<le> 64 * 1024 * 1024"
proof -
  obtain entries used where l: "lock_all F git repos ([], 0) = Inr (entries, used)"
    "lock = unique_by entry_key (sorter entries)"
    using assms(1) by (auto simp: lock_build_def split: if_split_asm sum.split_asm)
  have "within ([], 0)" by (simp add: within_def lock_size_def max_locked_total_bytes_def)
  note all = lock_all_facts [OF l(1) this]
  have m: "mset (sorter entries) = mset entries" and s: "sorted (map entry_key (sorter entries))"
    using assms(2) by (simp_all add: sorts_by_def)
  have sub: "mset lock \<subseteq># mset entries" using unique_by_subset [of entry_key "sorter entries"] m l(2) by simp
  have keys: "entry_key ` set lock = entry_key ` set entries"
    using unique_by_keys [of entry_key "sorter entries"] l(2) mset_eq_setD [OF m] by simp
  have bounds: "length entries \<le> 4096" "lock_size entries \<le> 64 * 1024 * 1024"
    using all by (simp_all add: within_def max_lock_entries_def max_locked_total_bytes_def word_le_nat_alt)
  have "set lock \<subseteq> set entries" using set_mset_mono [OF sub] by simp
  then have "\<forall>e \<in> set lock. \<exists>repo \<in> set repos. entry_from F git repo e" using all by auto
  moreover have "(k \<in> entry_key ` set entries) = (\<exists>e \<in> set lock. entry_key e = k)" for k
    unfolding keys [symmetric] by auto
  ultimately show ?thesis
    using all unique_by_sorted [OF s] l(2) bounds lock_size_mono [OF sub] by auto
qed

text \<open>A checkout with one selected and one unselected file.\<close>

definition ex_oid :: string where
  "ex_oid = ''aaaaaaaaaaaaaaaaaaaaaaaaaaaaaaaaaaaaaaaa''"

definition ex_git :: git_runner where
  "ex_git checkout args =
     (if args = [''rev-parse'', ''main^{commit}''] then Some (ex_oid @ [CHR 0x0A])
      else if args = [''rev-parse'', ''HEAD''] then Some (ex_oid @ [CHR 0x0A])
      else if args = [''status'', ''--porcelain''] then Some []
      else if args = [''rev-parse'', ex_oid @ ''^{tree}''] then Some (ex_oid @ [CHR 0x0A])
      else if args = [''ls-tree'', ''-r'', ''-l'', ex_oid]
      then Some (''100644 blob '' @ ex_oid @ '' 2'' @ CHR 0x09 # ''docs/a.md'' @ CHR 0x0A
                 # ''100644 blob '' @ ex_oid @ '' 2'' @ CHR 0x09 # ''src/b.cpp'' @ [CHR 0x0A])
      else if args = [''cat-file'', ''blob'', ex_oid] then Some ''hi''
      else None)"

definition ex_repo :: lock_repository where
  "ex_repo = \<lparr>lr_repository = ''r'', lr_path_filters = [''docs''], lr_checkout = ''c'', lr_ref = ''main''\<rparr>"

lemma ex_pinned: "pinned_tree (ex_git ''c'') ex_repo = Inr (ex_oid, ex_oid)"
proof -
  have o: "trim (ex_oid @ [CHR 0x0A]) = ex_oid" "is_hex_oid ex_oid" "trim [] = []"
    by (simp_all add: trim_def is_trimmed_def ex_oid_def is_hex_oid_def hex_digits_def)
  have "ex_git ''c'' [''rev-parse'', ''main^{commit}''] = Some (ex_oid @ [CHR 0x0A])"
    "ex_git ''c'' [''rev-parse'', ''HEAD''] = Some (ex_oid @ [CHR 0x0A])"
    "ex_git ''c'' [''status'', ''--porcelain''] = Some []"
    "ex_git ''c'' [''rev-parse'', ex_oid @ ''^{tree}''] = Some (ex_oid @ [CHR 0x0A])"
    by (simp_all add: ex_git_def ex_oid_def)
  then show ?thesis using o by (simp add: pinned_tree_def ex_repo_def Let_def)
qed

definition ex_row :: "string \<Rightarrow> tree_row" where
  "ex_row path = \<lparr>tr_oid = ex_oid, tr_path = path, tr_size = 2\<rparr>"

lemma ex_rows: "list_tree (ex_git ''c'') ex_oid = Inr [ex_row ''docs/a.md'', ex_row ''src/b.cpp'']"
proof -
  let ?l = "\<lambda>p. ''100644 blob '' @ ex_oid @ '' 2'' @ CHR 0x09 # p"
  have g: "ex_git ''c'' [''ls-tree'', ''-r'', ''-l'', ex_oid] =
      Some (?l ''docs/a.md'' @ CHR 0x0A # ?l ''src/b.cpp'' @ [CHR 0x0A])"
    by (simp add: ex_git_def)
  have line: "getlines (l @ CHR 0x0A # r) = l # getlines r" if "CHR 0x0A \<notin> set l" for l r
  proof -
    have "list_all (\<lambda>c. c \<noteq> CHR 0x0A) l" using that by (auto simp: list_all_iff)
    from takeWhile_all_stop [OF this, of "CHR 0x0A # r"] show ?thesis by (subst getlines.simps) simp
  qed
  have "CHR 0x0A \<notin> set (?l ''docs/a.md'')" "CHR 0x0A \<notin> set (?l ''src/b.cpp'')" by (simp_all add: ex_oid_def)
  then have "getlines (?l ''docs/a.md'' @ CHR 0x0A # ?l ''src/b.cpp'' @ [CHR 0x0A]) = [?l ''docs/a.md'', ?l ''src/b.cpp'']"
    using line [of "?l ''docs/a.md''"] line [of "?l ''src/b.cpp''" "[]"] by (simp add: getlines.simps [of "[]"])
  then have s: "split_lines (?l ''docs/a.md'' @ CHR 0x0A # ?l ''src/b.cpp'' @ [CHR 0x0A]) = [?l ''docs/a.md'', ?l ''src/b.cpp'']"
    by (simp add: split_lines_def)
  have t: "tree_line (?l ''docs/a.md'') = Inr (Some (ex_row ''docs/a.md''))"
    "tree_line (?l ''src/b.cpp'') = Inr (Some (ex_row ''src/b.cpp''))"
    by (simp_all add: tree_line_def stream_word_def stream_number_def stream_space_def ex_oid_def ex_row_def Let_def
        is_digit_def decimal_def)
  show ?thesis by (simp only: list_tree_def g s t option.case sum.case tree_rows.simps)
qed

lemma ex_lock_all:
  "lock_build ref_foundation (sort_key entry_key) (Some ex_git) ''git'' [ex_repo] =
     Inr [\<lparr>lk_repository = ''r'', lk_commit = ex_oid, lk_tree_oid = ex_oid, lk_path = ''docs/a.md'',
           lk_sha256 = hex_of (sha256 ref_foundation (text_bytes ''hi'')), lk_size_bytes = 2\<rparr>]"
proof -
  have "selected_by ''docs/a.md'' [''docs'']" "\<not> selected_by ''src/b.cpp'' [''docs'']"
    "ex_git ''c'' [''cat-file'', ''blob'', ex_oid] = Some ''hi''"
    by (simp_all add: selected_by_def ex_git_def)
  then show ?thesis using ex_pinned ex_rows
    by (simp add: lock_build_def lock_one_def) (simp add: ex_repo_def ex_row_def max_locked_file_bytes_def
        max_locked_total_bytes_def max_lock_entries_def Let_def)
qed

theorem lock_build_exact_witness:
  "\<exists>lock. lock_build ref_foundation (sort_key entry_key) (Some ex_git) ''git'' [ex_repo] = Inr lock \<and>
     lock \<noteq> [] \<and> (\<forall>e \<in> set lock. entry_from ref_foundation ex_git ex_repo e) \<and> length lock \<le> 4096"
proof -
  have "sorts_by entry_key (sort_key entry_key)" by (simp add: sorts_by_def)
  from lock_build_exact [OF ex_lock_all this] show ?thesis
    using ex_lock_all by (intro exI [of _ "[\<lparr>lk_repository = ''r'', lk_commit = ex_oid, lk_tree_oid = ex_oid,
        lk_path = ''docs/a.md'', lk_sha256 = hex_of (sha256 ref_foundation (text_bytes ''hi'')), lk_size_bytes = 2\<rparr>]"])
      simp
qed

end
