(* ===== verification/Activation_Index.thy ===== *)
theory Activation_Index
  imports Selector Source_Lock
begin

text \<open>
  The activation index, \<^verbatim>\<open>cognition/activation_index.hpp/.cpp\<close>: the policy digest and the identity of a
  generation, the rows of the index database, and the builder that stages a generation, renames it into place
  and switches the ACTIVE pointer.  The file system below \<^verbatim>\<open>activation-generations\<close> is the record
  \<open>index_store\<close>; whether an I/O step or the n-th SQLite call succeeds is an argument, so every fault path is a
  branch.  A failed build leaves only a staging directory behind, which the next build removes.
\<close>

section \<open>Identity\<close>

datatype index_error = InvalidRequest | BuildFailed | StagingFault | ManifestMismatch

record index_request =
  ir_runtime_root :: string
  ir_source_lock :: source_lock
  ir_policy :: activation_policy
  ir_canonical_bundle_digest :: string
  ir_runtime_generation_id :: string
  ir_publisher_build :: string
  ir_workspace_generation :: string
  ir_index_schema_version :: u32

fun priority_code :: "priority_class \<Rightarrow> nat" where
  "priority_code P0Core = 0"
| "priority_code P1Protected = 1"
| "priority_code P2Required = 2"
| "priority_code P3Supporting = 3"
| "priority_code P4OnDemand = 4"

definition slash_char :: "char \<Rightarrow> string" where
  "slash_char c = (if c = quote \<or> c = backslash then [backslash, c] else [c])"

definition quote_text :: "string \<Rightarrow> string" where
  "quote_text s = quote # concat (map slash_char s) @ [quote]"

definition quote_list :: "string list \<Rightarrow> string" where
  "quote_list values = ''['' @ comma_join (map quote_text values) @ '']''"

definition source_text :: "rule_source \<Rightarrow> string" where
  "source_text s = rs_repository s @ '':'' @ rs_path s @ '':'' @ rs_anchor s"

definition rule_json :: "activation_rule \<Rightarrow> string" where
  "rule_json r =
     (let s = ru_selectors r in
      ''{'' @ member_key ''rule_id'' @ quote_text (ru_id r)
      @ '','' @ member_key ''priority'' @ digits_of (priority_code (ru_priority r))
      @ '','' @ member_key ''lifecycle'' @ digits_of (lifecycle_code (ru_lifecycle r))
      @ '','' @ member_key ''source'' @ quote_text (source_text (ru_source r))
      @ '','' @ member_key ''phases'' @ quote_list (sel_phases s)
      @ '','' @ member_key ''risk'' @ quote_list (sel_risk s)
      @ '','' @ member_key ''repositories'' @ quote_list (sel_repositories s)
      @ '','' @ member_key ''path_prefixes'' @ quote_list (sel_path_prefixes s)
      @ '','' @ member_key ''languages'' @ quote_list (sel_languages s)
      @ '','' @ member_key ''boundary_kinds'' @ quote_list (sel_boundary_kinds s)
      @ '','' @ member_key ''explicit_ids'' @ quote_list (sel_explicit_ids s)
      @ '','' @ member_key ''evidence'' @ quote_list (ru_independent_evidence r)
      @ '','' @ member_key ''controls'' @ quote_list (ru_expected_controls r) @ ''}'')"

text \<open>\<open>sorter\<close> is \<^verbatim>\<open>std::sort\<close> by rule id.\<close>

definition policy_json :: "(activation_rule list \<Rightarrow> activation_rule list) \<Rightarrow> activation_policy \<Rightarrow> string" where
  "policy_json sorter policy =
     ''{'' @ member_key ''schema'' @ ''1,'' @ member_key ''rules'' @ ''[''
     @ comma_join (map rule_json (sorter (ap_rules policy))) @ '']}''"

definition policy_digest ::
    "foundation \<Rightarrow> (activation_rule list \<Rightarrow> activation_rule list) \<Rightarrow> activation_policy \<Rightarrow> string" where
  "policy_digest F sorter policy = sha256_hex F (policy_json sorter policy)"

definition activation_generation_of ::
    "foundation \<Rightarrow> (activation_rule list \<Rightarrow> activation_rule list) \<Rightarrow> index_request \<Rightarrow> string" where
  "activation_generation_of F sorter r =
     sha256_hex F
       (ir_canonical_bundle_digest r @ ''|'' @ ir_runtime_generation_id r @ ''|''
        @ lock_digest F (ir_source_lock r) @ ''|'' @ policy_digest F sorter (ir_policy r) @ ''|''
        @ digits_of (unat (ir_index_schema_version r)) @ ''|'' @ ir_publisher_build r)"

definition manifest_json ::
    "foundation \<Rightarrow> (activation_rule list \<Rightarrow> activation_rule list) \<Rightarrow> index_request \<Rightarrow> string" where
  "manifest_json F sorter r =
     (let q = (\<lambda>s. quote # s @ [quote]) in
      ''{'' @ member_key ''schema'' @ q ''qiven-activation-index-manifest-v1''
      @ '','' @ member_key ''activation_generation'' @ q (activation_generation_of F sorter r)
      @ '','' @ member_key ''canonical_bundle_sha256'' @ q (ir_canonical_bundle_digest r)
      @ '','' @ member_key ''runtime_generation'' @ q (ir_runtime_generation_id r)
      @ '','' @ member_key ''external_source_lock_sha256'' @ q (lock_digest F (ir_source_lock r))
      @ '','' @ member_key ''activation_policy_sha256'' @ q (policy_digest F sorter (ir_policy r))
      @ '','' @ member_key ''index_schema_version'' @ digits_of (unat (ir_index_schema_version r))
      @ '','' @ member_key ''publisher_build'' @ q (ir_publisher_build r) @ ''}'')"

definition provenance_json :: "string \<Rightarrow> string" where
  "provenance_json workspace =
     ''{'' @ member_key ''schema'' @ quote # ''qiven-workspace-provenance-v1'' @ quote
     # '','' @ member_key ''workspace_generation'' @ quote_text workspace
     @ '','' @ member_key ''binding'' @ quote # ''provenance-only-never-content'' @ quote # ''}''"

section \<open>The index database\<close>

text \<open>The token scanner: \<open>current\<close> is the token being collected.\<close>

definition token_char :: "string \<Rightarrow> char \<Rightarrow> bool" where
  "token_char current c \<longleftrightarrow> is_lower c \<or> is_upper c \<or> is_digit c \<or> c = CHR ''-'' \<and> current \<noteq> []"

fun tokenize_from :: "string \<Rightarrow> string \<Rightarrow> string list" where
  "tokenize_from current [] = (if current = [] then [] else [current])"
| "tokenize_from current (c # s) =
     (if token_char current c then tokenize_from (current @ [to_lower c]) s
      else if current \<noteq> [] then current # tokenize_from [] s
      else tokenize_from [] s)"

definition tokenize :: "string \<Rightarrow> string list" where
  "tokenize s = tokenize_from [] s"

record source_row =
  so_source_id :: nat
  so_repository :: string
  so_revision :: string
  so_path :: string
  so_content_sha256 :: string
  so_kind :: string
  so_title :: string
  so_size_bytes :: u64

record index_tables =
  ix_sources :: "source_row list"
  ix_selectors :: "(string \<times> string \<times> string \<times> nat) list"
  ix_rule_sources :: "(string \<times> nat \<times> string \<times> string) list"
  ix_documents :: "(nat \<times> string) list"
  ix_inverted :: "(string \<times> nat) list"

definition no_tables :: index_tables where
  "no_tables = \<lparr>ix_sources = [], ix_selectors = [], ix_rule_sources = [], ix_documents = [], ix_inverted = []\<rparr>"

text \<open>
  One SQLite call: the n-th succeeds when \<open>ok n\<close>.  Opening, the pragmas and the creation of the tables are the
  calls 0 to 2.
\<close>

type_synonym build_state = "index_tables \<times> nat"

definition stmt :: "(nat \<Rightarrow> bool) \<Rightarrow> (index_tables \<Rightarrow> index_tables) \<Rightarrow> build_state \<Rightarrow> index_error + build_state" where
  "stmt ok f st = (case st of (t, n) \<Rightarrow> if ok n then Inr (f t, Suc n) else Inl BuildFailed)"

fun stmts :: "(nat \<Rightarrow> bool) \<Rightarrow> (index_tables \<Rightarrow> index_tables) list \<Rightarrow> build_state \<Rightarrow> index_error + build_state" where
  "stmts ok [] st = Inr st"
| "stmts ok (f # fs) st = (case stmt ok f st of Inl e \<Rightarrow> Inl e | Inr st' \<Rightarrow> stmts ok fs st')"

definition source_kind :: "string \<Rightarrow> string" where
  "source_kind path = (if ends_with path ''.md'' then ''record'' else if ends_with path ''.yaml'' then ''policy'' else ''source'')"

definition source_row_of :: "nat \<Rightarrow> lock_entry \<Rightarrow> source_row" where
  "source_row_of i e =
     \<lparr>so_source_id = i, so_repository = c_text (lk_repository e), so_revision = c_text (lk_commit e),
      so_path = c_text (lk_path e), so_content_sha256 = c_text (lk_sha256 e), so_kind = source_kind (lk_path e),
      so_title = c_text (lk_path e), so_size_bytes = lk_size_bytes e\<rparr>"

definition entry_tokens :: "lock_entry \<Rightarrow> string list" where
  "entry_tokens e = tokenize (lk_repository e @ '' '' @ lk_path e)"

definition normalized_text :: "lock_entry \<Rightarrow> string" where
  "normalized_text e = concat (map (\<lambda>t. t @ '' '') (entry_tokens e))"

definition entry_stmts :: "nat \<Rightarrow> lock_entry \<Rightarrow> (index_tables \<Rightarrow> index_tables) list" where
  "entry_stmts i e =
     [\<lambda>t. t\<lparr>ix_sources := ix_sources t @ [source_row_of i e]\<rparr>]
     @ map (\<lambda>w t. t\<lparr>ix_inverted := ix_inverted t @ [(w, i)]\<rparr>) (entry_tokens e)
     @ [\<lambda>t. t\<lparr>ix_documents := ix_documents t @ [(i, normalized_text e)]\<rparr>]"

fun index_entries :: "(nat \<Rightarrow> bool) \<Rightarrow> nat \<Rightarrow> source_lock \<Rightarrow> build_state \<Rightarrow> index_error + build_state" where
  "index_entries ok i [] st = Inr st"
| "index_entries ok i (e # es) st =
     (case stmts ok (entry_stmts (Suc i) e) st of Inl x \<Rightarrow> Inl x | Inr st' \<Rightarrow> index_entries ok (Suc i) es st')"

definition source_by_repo_path :: "source_lock \<Rightarrow> string \<Rightarrow> nat option" where
  "source_by_repo_path lock =
     map_of (zip (map (\<lambda>e. lk_repository e @ CHR 0x0A # lk_path e) lock) [1..<Suc (length lock)])"

definition selector_rows :: "activation_rule \<Rightarrow> (string \<times> string \<times> string \<times> nat) list" where
  "selector_rows r =
     (let s = ru_selectors r;
          rows = (\<lambda>kind. map (\<lambda>v. (c_text (ru_id r), kind, c_text v, priority_code (ru_priority r)))) in
      rows ''phase'' (sel_phases s) @ rows ''risk'' (sel_risk s) @ rows ''repository'' (sel_repositories s)
      @ rows ''path_prefix'' (sel_path_prefixes s) @ rows ''language'' (sel_languages s)
      @ rows ''boundary_kind'' (sel_boundary_kinds s) @ rows ''explicit_id'' (sel_explicit_ids s))"

definition rule_source_row :: "activation_rule \<Rightarrow> nat \<Rightarrow> string \<times> nat \<times> string \<times> string" where
  "rule_source_row r i =
     (c_text (ru_id r), i, c_text (rs_anchor (ru_source r)),
      c_text (concat (map (\<lambda>c. c @ [CHR 0x0A]) (ru_expected_controls r))))"

definition rule_source_of :: "source_lock \<Rightarrow> activation_rule \<Rightarrow> nat option" where
  "rule_source_of lock r = source_by_repo_path lock (rs_repository (ru_source r) @ CHR 0x0A # rs_path (ru_source r))"

fun index_rules ::
    "(nat \<Rightarrow> bool) \<Rightarrow> source_lock \<Rightarrow> string list \<Rightarrow> activation_rule list \<Rightarrow> build_state \<Rightarrow> index_error + build_state" where
  "index_rules ok lock seen [] st = Inr st"
| "index_rules ok lock seen (r # rs) st =
     (if ru_id r \<in> set seen then Inl InvalidRequest
      else case stmts ok (map (\<lambda>row t. t\<lparr>ix_selectors := ix_selectors t @ [row]\<rparr>) (selector_rows r)) st of
        Inl e \<Rightarrow> Inl e
      | Inr st1 \<Rightarrow>
          (case rule_source_of lock r of
             None \<Rightarrow>
               if ru_priority r \<noteq> P4OnDemand then Inl InvalidRequest
               else index_rules ok lock (ru_id r # seen) rs st1
           | Some i \<Rightarrow>
               (case stmt ok (\<lambda>t. t\<lparr>ix_rule_sources := ix_rule_sources t @ [rule_source_row r i]\<rparr>) st1 of
                  Inl e \<Rightarrow> Inl e
                | Inr st2 \<Rightarrow> index_rules ok lock (ru_id r # seen) rs st2)))"

section \<open>The builder\<close>

record index_dir =
  xd_source_lock :: string
  xd_tables :: index_tables
  xd_manifest :: string
  xd_provenance :: "string option"

record index_store =
  xs_generations :: "string \<Rightarrow> index_dir option"
  xs_active :: "string option"

text \<open>
  Which I/O steps succeed.  The result of writing the provenance file is not looked at: a fault leaves some
  file, or none, behind.
\<close>

record index_io =
  io_manifest_readable :: bool
  io_staged :: bool
  io_lock_written :: bool
  io_sqlite :: "nat \<Rightarrow> bool"
  io_manifest_written :: bool
  io_provenance_fault :: "string option option"
  io_renamed :: bool
  io_pointer_switched :: bool

record index_result =
  xr_generation :: string
  xr_source_count :: nat
  xr_rule_count :: nat

definition write_provenance :: "index_io \<Rightarrow> string \<Rightarrow> index_dir \<Rightarrow> index_dir" where
  "write_provenance io workspace d =
     (case io_provenance_fault io of
        None \<Rightarrow> d\<lparr>xd_provenance := Some (provenance_json workspace)\<rparr>
      | Some left \<Rightarrow> d\<lparr>xd_provenance := left\<rparr>)"

definition build_tables :: "(nat \<Rightarrow> bool) \<Rightarrow> index_request \<Rightarrow> index_error + index_tables" where
  "build_tables ok r =
     (case stmts ok [id, id, id] (no_tables, 0) of
        Inl e \<Rightarrow> Inl e
      | Inr st \<Rightarrow>
          (case index_entries ok 0 (ir_source_lock r) st of
             Inl e \<Rightarrow> Inl e
           | Inr st \<Rightarrow>
               (case index_rules ok (ir_source_lock r) [] (ap_rules (ir_policy r)) st of
                  Inl e \<Rightarrow> Inl e
                | Inr (t, n) \<Rightarrow> Inr t)))"

definition index_build ::
    "foundation \<Rightarrow> (activation_rule list \<Rightarrow> activation_rule list) \<Rightarrow> index_io \<Rightarrow> index_request \<Rightarrow> index_store
     \<Rightarrow> (index_error + index_result) \<times> index_store" where
  "index_build F sorter io r store =
     (if ir_runtime_root r = [] \<or> ir_canonical_bundle_digest r = [] \<or> ir_runtime_generation_id r = [] \<or>
         ir_publisher_build r = [] \<or> ir_source_lock r = [] \<or> ap_rules (ir_policy r) = []
      then (Inl InvalidRequest, store)
      else
        let g = activation_generation_of F sorter r; manifest = manifest_json F sorter r;
            result = \<lparr>xr_generation = g, xr_source_count = length (ir_source_lock r),
                      xr_rule_count = length (ap_rules (ir_policy r))\<rparr> in
        case xs_generations store g of
          Some d \<Rightarrow>
            if \<not> io_manifest_readable io \<or> xd_manifest d \<noteq> manifest then (Inl ManifestMismatch, store)
            else (Inr result,
                  store\<lparr>xs_generations := (xs_generations store)
                    (g := Some (write_provenance io (ir_workspace_generation r) d))\<rparr>)
        | None \<Rightarrow>
            if \<not> io_staged io \<or> \<not> io_lock_written io then (Inl StagingFault, store)
            else case build_tables (io_sqlite io) r of
              Inl e \<Rightarrow> (Inl e, store)
            | Inr t \<Rightarrow>
                if \<not> io_manifest_written io \<or> \<not> io_renamed io then (Inl StagingFault, store)
                else
                  let d = write_provenance io (ir_workspace_generation r)
                            \<lparr>xd_source_lock = lock_json (ir_source_lock r), xd_tables = t, xd_manifest = manifest,
                             xd_provenance = None\<rparr>;
                      store1 = store\<lparr>xs_generations := (xs_generations store)(g := Some d)\<rparr> in
                  if \<not> io_pointer_switched io then (Inl StagingFault, store1)
                  else (Inr result, store1\<lparr>xs_active := Some (g @ [CHR 0x0A])\<rparr>))"

definition active_generation :: "index_store \<Rightarrow> string" where
  "active_generation store =
     (case xs_active store of None \<Rightarrow> [] | Some s \<Rightarrow> rev (dropWhile is_trimmed (rev s)))"

section \<open>What the policy digest binds\<close>

lemma quote_text_app [simp]: "quote_text s @ x = quote_text t @ y \<longleftrightarrow> s = t \<and> x = y"
proof -
  have "slash_char a @ x = slash_char b @ y \<Longrightarrow> a = b \<and> x = y" "slash_char a @ x \<noteq> quote # y" for a b x y
    by (auto simp: slash_char_def split: if_splits)
  from coded_text_inj [of slash_char quote, OF this] show ?thesis by (simp add: quote_text_def)
qed

lemma quote_list_app [simp]: "quote_list vs @ x = quote_list ws @ y \<longleftrightarrow> vs = ws \<and> x = y"
  using comma_list_inj [of quote_text vs x ws y] by (simp add: quote_list_def) (simp add: quote_text_def)

lemma code_inj [simp]:
  "priority_code p = priority_code q \<longleftrightarrow> p = q" "lifecycle_code l = lifecycle_code k \<longleftrightarrow> l = k"
  by (cases p; cases q; simp) (cases l; cases k; simp)

text \<open>A rule as its JSON shows it: the source is one text.\<close>

definition rule_view :: "activation_rule \<Rightarrow> activation_rule \<times> string" where
  "rule_view r =
     (r\<lparr>ru_source := \<lparr>rs_repository = [], rs_path = [], rs_anchor = []\<rparr>\<rparr>, source_text (ru_source r))"

lemma rule_json_app: "rule_json r @ x = rule_json q @ y \<longleftrightarrow> rule_view r = rule_view q \<and> x = y"
proof -
  have "rule_json r @ x = rule_json q @ y \<longleftrightarrow>
      ru_id r = ru_id q \<and> ru_priority r = ru_priority q \<and> ru_lifecycle r = ru_lifecycle q \<and>
      source_text (ru_source r) = source_text (ru_source q) \<and> sel_phases (ru_selectors r) = sel_phases (ru_selectors q) \<and>
      sel_risk (ru_selectors r) = sel_risk (ru_selectors q) \<and>
      sel_repositories (ru_selectors r) = sel_repositories (ru_selectors q) \<and>
      sel_path_prefixes (ru_selectors r) = sel_path_prefixes (ru_selectors q) \<and>
      sel_languages (ru_selectors r) = sel_languages (ru_selectors q) \<and>
      sel_boundary_kinds (ru_selectors r) = sel_boundary_kinds (ru_selectors q) \<and>
      sel_explicit_ids (ru_selectors r) = sel_explicit_ids (ru_selectors q) \<and>
      ru_independent_evidence r = ru_independent_evidence q \<and> ru_expected_controls r = ru_expected_controls q \<and> x = y"
    by (simp add: rule_json_def Let_def digits_app_inj)
  then show ?thesis by (cases r; cases q) (auto simp: rule_view_def)
qed

lemma comma_list_view:
  assumes "\<And>a b x y. f a @ x = f b @ y \<longleftrightarrow> v a = v b \<and> x = y" "\<And>a x y. f a @ x \<noteq> CHR '']'' # y"
  shows "comma_join (map f vs) @ CHR '']'' # x = comma_join (map f ws) @ CHR '']'' # y \<longleftrightarrow>
    map v vs = map v ws \<and> x = y"
proof -
  have tail: "concat (map (\<lambda>s. CHR '','' # f s) vs) @ CHR '']'' # x =
      concat (map (\<lambda>s. CHR '','' # f s) ws) @ CHR '']'' # y \<longleftrightarrow> map v vs = map v ws \<and> x = y" for vs ws
  proof (induction vs arbitrary: ws)
    case Nil
    then show ?case by (cases ws) auto
  next
    case (Cons a vs)
    then show ?case by (cases ws) (auto simp: assms(1))
  qed
  have "f a @ z \<noteq> CHR '']'' # y" "CHR '']'' # y \<noteq> f a @ z" for a z y using assms(2) by metis+
  then show ?thesis
    using tail by (cases vs; cases ws) (simp_all add: comma_join_Cons comp_def assms(1))
qed

text \<open>
  The text whose hash is the policy digest determines every field of every rule, in rule-id order, except that
  the three parts of a rule's source are only determined as one colon-separated text.
\<close>

theorem policy_json_determines:
  "policy_json sorter p = policy_json sorter q \<longleftrightarrow>
     map rule_view (sorter (ap_rules p)) = map rule_view (sorter (ap_rules q))"
  using comma_list_view [of rule_json rule_view "sorter (ap_rules p)" "''}''" "sorter (ap_rules q)" "''}''"] rule_json_app
  by (simp add: policy_json_def) (simp add: rule_json_def Let_def)

text \<open>
  So a colon may move between the parts of a source without changing the digest the index, the bundle and the
  receipt are bound to.
\<close>

lemma source_parts_not_bound:
  "source_text \<lparr>rs_repository = ''a:b'', rs_path = ''c'', rs_anchor = []\<rparr> =
   source_text \<lparr>rs_repository = ''a'', rs_path = ''b:c'', rs_anchor = []\<rparr>"
  by (simp add: source_text_def)

section \<open>The rows of a complete index\<close>

definition index_spec :: "source_lock \<Rightarrow> activation_rule list \<Rightarrow> index_tables" where
  "index_spec lock rules =
     \<lparr>ix_sources = map (\<lambda>(i, e). source_row_of i e) (enumerate 1 lock),
      ix_selectors = concat (map selector_rows rules),
      ix_rule_sources = concat (map (\<lambda>r. case rule_source_of lock r of None \<Rightarrow> [] | Some i \<Rightarrow> [rule_source_row r i]) rules),
      ix_documents = map (\<lambda>(i, e). (i, normalized_text e)) (enumerate 1 lock),
      ix_inverted = concat (map (\<lambda>(i, e). map (\<lambda>w. (w, i)) (entry_tokens e)) (enumerate 1 lock))\<rparr>"

definition closure_ok :: "source_lock \<Rightarrow> activation_rule list \<Rightarrow> bool" where
  "closure_ok lock rules \<longleftrightarrow> distinct (map ru_id rules) \<and>
     list_all (\<lambda>r. rule_source_of lock r = None \<longrightarrow> ru_priority r = P4OnDemand) rules"

lemma stmts_result:
  "stmts ok fs (t, n) = Inr (t', n') \<Longrightarrow> t' = foldl (\<lambda>t f. f t) t fs"
  by (induction fs arbitrary: t n) (auto simp: stmt_def split: if_split_asm)

lemma fold_rows:
  "foldl (\<lambda>t f. f t) t (map (\<lambda>w t. t\<lparr>ix_inverted := ix_inverted t @ [g w]\<rparr>) ws) = t\<lparr>ix_inverted := ix_inverted t @ map g ws\<rparr>"
  "foldl (\<lambda>t f. f t) t (map (\<lambda>w t. t\<lparr>ix_selectors := ix_selectors t @ [w]\<rparr>) rows) = t\<lparr>ix_selectors := ix_selectors t @ rows\<rparr>"
  by (induction ws arbitrary: t; simp) (induction rows arbitrary: t; simp)

lemma index_entries_result:
  "index_entries ok i es (t, n) = Inr (t', n') \<Longrightarrow>
     t' = t\<lparr>ix_sources := ix_sources t @ map (\<lambda>(i, e). source_row_of i e) (enumerate (Suc i) es),
            ix_documents := ix_documents t @ map (\<lambda>(i, e). (i, normalized_text e)) (enumerate (Suc i) es),
            ix_inverted := ix_inverted t @ concat (map (\<lambda>(i, e). map (\<lambda>w. (w, i)) (entry_tokens e)) (enumerate (Suc i) es))\<rparr>"
proof (induction es arbitrary: i t n)
  case (Cons e es)
  obtain t1 n1 where s: "stmts ok (entry_stmts (Suc i) e) (t, n) = Inr (t1, n1)"
    "index_entries ok (Suc i) es (t1, n1) = Inr (t', n')"
    using Cons.prems by (auto split: sum.split_asm)
  have "t1 = t\<lparr>ix_sources := ix_sources t @ [source_row_of (Suc i) e],
      ix_inverted := ix_inverted t @ map (\<lambda>w. (w, Suc i)) (entry_tokens e),
      ix_documents := ix_documents t @ [(Suc i, normalized_text e)]\<rparr>"
    using stmts_result [OF s(1)] by (simp add: entry_stmts_def fold_rows(1) [where g = "\<lambda>w. (w, Suc i)"])
  then show ?case using Cons.IH [OF s(2)] by simp
qed simp

lemma index_rules_result:
  "index_rules ok lock seen rs (t, n) = Inr (t', n') \<Longrightarrow>
     t' = t\<lparr>ix_selectors := ix_selectors t @ concat (map selector_rows rs),
            ix_rule_sources := ix_rule_sources t @
              concat (map (\<lambda>r. case rule_source_of lock r of None \<Rightarrow> [] | Some i \<Rightarrow> [rule_source_row r i]) rs)\<rparr> \<and>
     closure_ok lock rs \<and> set (map ru_id rs) \<inter> set seen = {}"
proof (induction rs arbitrary: seen t n)
  case Nil
  then show ?case by (simp add: closure_ok_def)
next
  case (Cons r rs)
  obtain t1 n1 where s: "ru_id r \<notin> set seen"
    "stmts ok (map (\<lambda>row t. t\<lparr>ix_selectors := ix_selectors t @ [row]\<rparr>) (selector_rows r)) (t, n) = Inr (t1, n1)"
    using Cons.prems by (auto split: if_split_asm sum.split_asm)
  have t1: "t1 = t\<lparr>ix_selectors := ix_selectors t @ selector_rows r\<rparr>"
    using stmts_result [OF s(2)] by (simp add: fold_rows)
  show ?case
  proof (cases "rule_source_of lock r")
    case None
    then have "ru_priority r = P4OnDemand" "index_rules ok lock (ru_id r # seen) rs (t1, n1) = Inr (t', n')"
      using Cons.prems s by (auto split: if_split_asm)
    then show ?thesis using Cons.IH [of "ru_id r # seen" t1 n1] t1 None s(1) by (auto simp: closure_ok_def)
  next
    case (Some i)
    then have s2: "index_rules ok lock (ru_id r # seen) rs
        (t1\<lparr>ix_rule_sources := ix_rule_sources t1 @ [rule_source_row r i]\<rparr>, Suc n1) = Inr (t', n')"
      using Cons.prems s by (auto simp: stmt_def split: if_split_asm)
    from Cons.IH [OF s2] show ?thesis using t1 Some s(1) by (auto simp: closure_ok_def)
  qed
qed

lemma build_tables_result:
  assumes "build_tables ok r = Inr t"
  shows "t = index_spec (ir_source_lock r) (ap_rules (ir_policy r)) \<and> closure_ok (ir_source_lock r) (ap_rules (ir_policy r))"
proof -
  obtain t0 n0 t1 n1 n2 where s: "stmts ok [id, id, id] (no_tables, 0) = Inr (t0, n0)"
    "index_entries ok 0 (ir_source_lock r) (t0, n0) = Inr (t1, n1)"
    "index_rules ok (ir_source_lock r) [] (ap_rules (ir_policy r)) (t1, n1) = Inr (t, n2)"
    using assms by (auto simp: build_tables_def split: sum.split_asm)
  have "t0 = no_tables" using stmts_result [OF s(1)] by simp
  then show ?thesis
    using index_entries_result [OF s(2)] index_rules_result [OF s(3)]
    by (simp add: index_spec_def no_tables_def)
qed

section \<open>Only complete generations are active\<close>

definition generation_complete ::
    "foundation \<Rightarrow> (activation_rule list \<Rightarrow> activation_rule list) \<Rightarrow> string \<Rightarrow> index_dir \<Rightarrow> bool" where
  "generation_complete F sorter g d \<longleftrightarrow>
     (\<exists>r. g = activation_generation_of F sorter r \<and> xd_manifest d = manifest_json F sorter r \<and>
        xd_source_lock d = lock_json (ir_source_lock r) \<and>
        xd_tables d = index_spec (ir_source_lock r) (ap_rules (ir_policy r)) \<and>
        closure_ok (ir_source_lock r) (ap_rules (ir_policy r)))"

definition store_ok :: "foundation \<Rightarrow> (activation_rule list \<Rightarrow> activation_rule list) \<Rightarrow> index_store \<Rightarrow> bool" where
  "store_ok F sorter store \<longleftrightarrow>
     (\<forall>g d. xs_generations store g = Some d \<longrightarrow> generation_complete F sorter g d) \<and>
     (xs_active store = None \<or>
      (\<exists>g. xs_active store = Some (g @ [CHR 0x0A]) \<and> xs_generations store g \<noteq> None \<and> set g \<subseteq> set hex_digits))"

lemma write_provenance_sel [simp]:
  "xd_manifest (write_provenance io w d) = xd_manifest d" "xd_tables (write_provenance io w d) = xd_tables d"
  "xd_source_lock (write_provenance io w d) = xd_source_lock d"
  by (simp_all add: write_provenance_def split: option.splits)

lemma generation_complete_provenance [simp]:
  "generation_complete F sorter g (write_provenance io w d) = generation_complete F sorter g d"
  by (simp add: generation_complete_def)

text \<open>The three ways a build can change the store.\<close>

lemma index_build_cases:
  assumes "index_build F sorter io r store = (res, store')" "g = activation_generation_of F sorter r"
  obtains (kept) e where "store' = store" "res = Inl e"
  | (reused) d x where "xs_generations store g = Some d" "xd_manifest d = manifest_json F sorter r" "res = Inr x"
      "xr_generation x = g"
      "store' = store\<lparr>xs_generations := (xs_generations store)(g := Some (write_provenance io (ir_workspace_generation r) d))\<rparr>"
  | (made) d where "xs_generations store g = None" "generation_complete F sorter g d" "xd_manifest d = manifest_json F sorter r"
      "xs_generations store' = (xs_generations store)(g := Some d)"
      "(\<exists>e. res = Inl e) \<and> xs_active store' = xs_active store \<or>
       (\<exists>x. res = Inr x \<and> xr_generation x = g) \<and> xs_active store' = Some (g @ [CHR 0x0A])"
proof (cases "xs_generations store g")
  case (Some d)
  show ?thesis
  proof (cases "res")
    case (Inl e)
    then have "store' = store" using assms Some
      by (auto simp: index_build_def Let_def split: if_split_asm)
    then show ?thesis using kept Inl by blast
  next
    case (Inr x)
    then show ?thesis using assms Some by (intro reused [of d x]) (auto simp: index_build_def Let_def split: if_split_asm)
  qed
next
  case None
  show ?thesis
  proof (cases "store' = store \<and> isl res")
    case True
    then show ?thesis using kept by (cases res) auto
  next
    case False
    then obtain t where t: "build_tables (io_sqlite io) r = Inr t"
      using assms None by (auto simp: index_build_def Let_def split: if_split_asm sum.split_asm)
    define d where "d = write_provenance io (ir_workspace_generation r)
        \<lparr>xd_source_lock = lock_json (ir_source_lock r), xd_tables = t, xd_manifest = manifest_json F sorter r,
         xd_provenance = None\<rparr>"
    have "generation_complete F sorter g d"
      using build_tables_result [OF t] assms(2) unfolding generation_complete_def d_def by auto
    then show ?thesis
      using assms None False t
      by (intro made [of d]) (auto simp: index_build_def Let_def d_def split: if_split_asm)
  qed
qed

lemma generation_hex: "set (activation_generation_of F sorter r) \<subseteq> set hex_digits"
  by (simp add: activation_generation_of_def sha256_hex_def hex_of_digits)

lemma store_ok_build:
  assumes "store_ok F sorter store"
  shows "store_ok F sorter (snd (index_build F sorter io r store))"
proof -
  obtain res store' where b: "index_build F sorter io r store = (res, store')" by fastforce
  define g where "g = activation_generation_of F sorter r"
  from b g_def have "store_ok F sorter store'"
  proof (cases rule: index_build_cases)
    case (kept e)
    then show ?thesis using assms by simp
  next
    case (reused d x)
    then show ?thesis using assms by (auto simp: store_ok_def)
  next
    case (made d)
    then show ?thesis using assms generation_hex [of F sorter r] g_def by (auto simp: store_ok_def)
  qed
  then show ?thesis using b by simp
qed

definition empty_store :: index_store where
  "empty_store = \<lparr>xs_generations = (\<lambda>_. None), xs_active = None\<rparr>"

definition build_all ::
    "foundation \<Rightarrow> (activation_rule list \<Rightarrow> activation_rule list) \<Rightarrow> (index_io \<times> index_request) list \<Rightarrow> index_store" where
  "build_all F sorter steps = foldl (\<lambda>s (io, r). snd (index_build F sorter io r s)) empty_store steps"

lemma store_ok_all: "store_ok F sorter (build_all F sorter steps)"
proof (induction steps rule: rev_induct)
  case Nil
  then show ?case by (simp add: build_all_def store_ok_def empty_store_def)
next
  case (snoc p steps)
  then show ?case using store_ok_build by (auto simp: build_all_def split: prod.splits)
qed

lemma active_generation_pointer:
  assumes "set g \<subseteq> set hex_digits" "xs_active store = Some (g @ [CHR 0x0A])"
  shows "active_generation store = g"
proof -
  have "\<not> is_trimmed c" if "c \<in> set hex_digits" for c
    using that by (auto simp: hex_digits_def is_trimmed_def)
  then have "dropWhile is_trimmed (rev g) = rev g"
    using assms(1) by (cases "rev g") (auto simp: dropWhile_eq_self_iff dest: arg_cong [of _ _ set])
  then show ?thesis using assms(2) by (simp add: active_generation_def is_trimmed_def)
qed

text \<open>
  Whatever builds were requested and whichever of their I/O steps and database calls failed, the ACTIVE pointer
  names no generation or a complete one: a generation whose manifest binds the inputs it is named after and whose
  database holds exactly the rows of that closure and policy, with distinct rule ids and a locked source for every
  rule that is not on demand.
\<close>

theorem active_generation_complete:
  "active_generation (build_all F sorter steps) = [] \<or>
   (\<exists>d. xs_generations (build_all F sorter steps) (active_generation (build_all F sorter steps)) = Some d \<and>
      generation_complete F sorter (active_generation (build_all F sorter steps)) d)"
proof -
  let ?s = "build_all F sorter steps"
  have ok: "store_ok F sorter ?s" by (rule store_ok_all)
  show ?thesis
  proof (cases "xs_active ?s")
    case None
    then show ?thesis by (simp add: active_generation_def)
  next
    case (Some p)
    then obtain g where "xs_active ?s = Some (g @ [CHR 0x0A])" "xs_generations ?s g \<noteq> None" "set g \<subseteq> set hex_digits"
      using ok by (auto simp: store_ok_def)
    then show ?thesis using active_generation_pointer [of g ?s] ok by (auto simp: store_ok_def)
  qed
qed

text \<open>
  A build that succeeds leaves its generation in the store under the manifest of its request and no other
  generation changed.  A generation made by this build becomes the active one; an existing one is reused only
  when its manifest equals the request's byte for byte, and then the pointer stays as it is.
\<close>

theorem index_build_success:
  assumes "index_build F sorter io r store = (Inr x, store')"
  shows "xr_generation x = activation_generation_of F sorter r \<and>
    (\<exists>d. xs_generations store' (xr_generation x) = Some d \<and> xd_manifest d = manifest_json F sorter r) \<and>
    (\<forall>h. h \<noteq> xr_generation x \<longrightarrow> xs_generations store' h = xs_generations store h) \<and>
    (case xs_generations store (xr_generation x) of
       None \<Rightarrow> active_generation store' = xr_generation x
     | Some d \<Rightarrow> xd_manifest d = manifest_json F sorter r \<and> xs_active store' = xs_active store)"
  using assms refl
proof (cases rule: index_build_cases)
  case (made d)
  then show ?thesis using active_generation_pointer [OF generation_hex, of store' F sorter r] by auto
qed auto

section \<open>A valid request is built\<close>

lemma stmts_total: "\<exists>st'. stmts (\<lambda>_. True) fs st = Inr st'"
  by (induction fs arbitrary: st) (auto simp: stmt_def split: prod.splits)

lemma index_entries_total: "\<exists>st'. index_entries (\<lambda>_. True) i es st = Inr st'"
proof (induction es arbitrary: i st)
  case (Cons e es)
  obtain st' where "stmts (\<lambda>_. True) (entry_stmts (Suc i) e) st = Inr st'" using stmts_total by blast
  then show ?case using Cons.IH by simp
qed simp

lemma index_rules_total:
  "closure_ok lock rs \<Longrightarrow> set (map ru_id rs) \<inter> set seen = {} \<Longrightarrow> \<exists>st'. index_rules (\<lambda>_. True) lock seen rs st = Inr st'"
proof (induction rs arbitrary: seen st)
  case (Cons r rs)
  obtain t n where s: "stmts (\<lambda>_. True) (map (\<lambda>row t. t\<lparr>ix_selectors := ix_selectors t @ [row]\<rparr>) (selector_rows r)) st = Inr (t, n)"
    using stmts_total [of "map (\<lambda>row t. t\<lparr>ix_selectors := ix_selectors t @ [row]\<rparr>) (selector_rows r)" st]
    by (elim exE) (metis surj_pair)
  have a: "closure_ok lock rs" "set (map ru_id rs) \<inter> set (ru_id r # seen) = {}" "ru_id r \<notin> set seen"
    "rule_source_of lock r = None \<Longrightarrow> ru_priority r = P4OnDemand"
    using Cons.prems by (auto simp: closure_ok_def)
  show ?case
  proof (cases "rule_source_of lock r")
    case None
    then show ?thesis
      using Cons.IH [OF a(1,2), of "(t, n)"] a(3) a(4) [OF None] by (simp only: index_rules.simps s) simp
  next
    case (Some i)
    then show ?thesis
      using Cons.IH [OF a(1,2), of "(t\<lparr>ix_rule_sources := ix_rule_sources t @ [rule_source_row r i]\<rparr>, Suc n)"] a(3)
      by (simp only: index_rules.simps s) (simp add: stmt_def)
  qed
qed simp

definition request_valid :: "index_request \<Rightarrow> bool" where
  "request_valid r \<longleftrightarrow> ir_runtime_root r \<noteq> [] \<and> ir_canonical_bundle_digest r \<noteq> [] \<and> ir_runtime_generation_id r \<noteq> [] \<and>
     ir_publisher_build r \<noteq> [] \<and> ir_source_lock r \<noteq> [] \<and> ap_rules (ir_policy r) \<noteq> [] \<and>
     closure_ok (ir_source_lock r) (ap_rules (ir_policy r))"

definition faultless :: index_io where
  "faultless = \<lparr>io_manifest_readable = True, io_staged = True, io_lock_written = True, io_sqlite = (\<lambda>_. True),
     io_manifest_written = True, io_provenance_fault = None, io_renamed = True, io_pointer_switched = True\<rparr>"

lemma index_build_total:
  assumes "request_valid r" "xs_generations store (activation_generation_of F sorter r) = None"
  shows "\<exists>x store'. index_build F sorter faultless r store = (Inr x, store')"
proof -
  obtain st1 where 1: "stmts (\<lambda>_. True) [id, id, id] (no_tables, 0) = Inr st1" using stmts_total by blast
  obtain st2 where 2: "index_entries (\<lambda>_. True) 0 (ir_source_lock r) st1 = Inr st2" using index_entries_total by blast
  obtain t n where 3: "index_rules (\<lambda>_. True) (ir_source_lock r) [] (ap_rules (ir_policy r)) st2 = Inr (t, n)"
    using index_rules_total [of "ir_source_lock r" "ap_rules (ir_policy r)" "[]" st2] assms(1)
    by (auto simp: request_valid_def)
  have "build_tables (\<lambda>_. True) r = Inr t" by (simp only: build_tables_def 1 2 3 sum.case prod.case)
  then show ?thesis using assms by (simp add: index_build_def faultless_def request_valid_def Let_def)
qed

definition ex_index_request :: index_request where
  "ex_index_request =
     \<lparr>ir_runtime_root = ''root'',
      ir_source_lock = [\<lparr>lk_repository = ''r'', lk_commit = ex_oid, lk_tree_oid = ex_oid, lk_path = ''p'',
                         lk_sha256 = ''00'', lk_size_bytes = 2\<rparr>],
      ir_policy = \<lparr>ap_schema_version = 1, ap_rules = [ex_rule ''a'' P0Core]\<rparr>,
      ir_canonical_bundle_digest = ''d'', ir_runtime_generation_id = ''g'', ir_publisher_build = ''b'',
      ir_workspace_generation = ''w'', ir_index_schema_version = 1\<rparr>"

lemma ex_request_valid: "request_valid ex_index_request"
  by (simp add: request_valid_def closure_ok_def ex_index_request_def rule_source_of_def source_by_repo_path_def
      ex_rule_def)

theorem index_build_success_witness:
  "\<exists>x store'. index_build ref_foundation (sort_key ru_id) faultless ex_index_request empty_store = (Inr x, store') \<and>
     active_generation store' = xr_generation x"
proof -
  obtain x store' where b: "index_build ref_foundation (sort_key ru_id) faultless ex_index_request empty_store = (Inr x, store')"
    using index_build_total [OF ex_request_valid, of empty_store ref_foundation "sort_key ru_id"]
    by (auto simp: empty_store_def)
  from index_build_success [OF b] show ?thesis using b by (auto simp: empty_store_def)
qed

end
