(* ===== verification/Activation_Policy.thy ===== *)
theory Activation_Policy
  imports Selector
begin

text \<open>
  The policy files, \<^verbatim>\<open>cognition/activation_policy.hpp/.cpp\<close>: the line tracker of the restricted YAML dialect and
  the two line-driven parsers, for \<^verbatim>\<open>cognition-core.yaml\<close> and for the activation policy.  A parser is a step
  function on a state record, applied to the lines in order; an error carries its kind and line.  Theorems: what
  a parsed policy and a parsed core are guaranteed to satisfy, among it that no declared entry is dropped.
\<close>

section \<open>Lines\<close>

definition max_activation_policy_bytes :: nat where "max_activation_policy_bytes = 256 * 1024"
definition max_activation_policy_rules :: nat where "max_activation_policy_rules = 512"

datatype policy_error_kind = Policy_Malformed | UnknownVocabulary | Policy_BoundExceeded | MissingField

type_synonym policy_error = "policy_error_kind \<times> nat"

record line =
  ln_number :: nat
  ln_indent :: nat
  ln_text :: string

fun pieces :: "string \<Rightarrow> string list" where
  "pieces [] = [[]]"
| "pieces (c # s) =
     (if c = CHR 0x0A then [] # pieces s
      else case pieces s of p # ps \<Rightarrow> (c # p) # ps | [] \<Rightarrow> [[c]])"

text \<open>What comes before a comment sign outside quotes.\<close>

fun strip_comment :: "bool \<Rightarrow> bool \<Rightarrow> string \<Rightarrow> string" where
  "strip_comment in_single in_double [] = []"
| "strip_comment in_single in_double (c # s) =
     (if c = CHR 0x27 \<and> \<not> in_double then c # strip_comment (\<not> in_single) in_double s
      else if c = quote \<and> \<not> in_single then c # strip_comment in_single (\<not> in_double) s
      else if c = CHR ''#'' \<and> \<not> in_single \<and> \<not> in_double then []
      else c # strip_comment in_single in_double s)"

definition is_indent :: "char \<Rightarrow> bool" where
  "is_indent c \<longleftrightarrow> c = CHR '' '' \<or> c = CHR 0x09"

definition is_tail_space :: "char \<Rightarrow> bool" where
  "is_tail_space c \<longleftrightarrow> c = CHR '' '' \<or> c = CHR 0x09 \<or> c = CHR 0x0D"

definition track_line :: "nat \<Rightarrow> string \<Rightarrow> line" where
  "track_line n raw =
     (let content = strip_comment False False raw; body = dropWhile is_indent content in
      \<lparr>ln_number = n, ln_indent = length (takeWhile is_indent content),
       ln_text = rev (dropWhile is_tail_space (rev body))\<rparr>)"

definition tracked_lines :: "string \<Rightarrow> line list" where
  "tracked_lines bs =
     filter (\<lambda>l. ln_text l \<noteq> []) (map (\<lambda>(n, raw). track_line n raw) (enumerate 1 (pieces bs)))"

definition split_key :: "string \<Rightarrow> (string \<times> string) option" where
  "split_key s =
     (let key = takeWhile (\<lambda>c. c \<noteq> CHR '':'') s in
      if CHR '':'' \<notin> set s \<or> key = [] then None
      else Some (key, rev (dropWhile (\<lambda>c. c = CHR '' '') (rev (dropWhile (\<lambda>c. c = CHR '' '') (drop (length key + 1) s))))))"

definition quoted_by :: "char \<Rightarrow> string \<Rightarrow> bool" where
  "quoted_by q s \<longleftrightarrow> 2 \<le> length s \<and> hd s = q \<and> last s = q"

definition unquote :: "string \<Rightarrow> string" where
  "unquote s = (if quoted_by (CHR 0x27) s \<or> quoted_by quote s then butlast (tl s) else s)"

definition list_item :: "string \<Rightarrow> string option" where
  "list_item s =
     (if length s < 2 \<or> s ! 0 \<noteq> CHR ''-'' \<or> s ! 1 \<noteq> CHR '' '' then None
      else let item = dropWhile (\<lambda>c. c = CHR '' '') (drop 2 s) in if item = [] then None else Some item)"

definition parse_u64 :: "string \<Rightarrow> u64 option" where
  "parse_u64 s = (if s \<noteq> [] \<and> list_all is_digit s \<and> decimal s < 2 ^ 64 then Some (of_nat (decimal s)) else None)"

section \<open>Vocabulary\<close>

definition parse_priority_class :: "string \<Rightarrow> priority_class option" where
  "parse_priority_class name =
     (if name = ''P0-core'' then Some P0Core
      else if name = ''P1-protected'' then Some P1Protected
      else if name = ''P2-required'' then Some P2Required
      else if name = ''P3-supporting'' then Some P3Supporting
      else if name = ''P4-on-demand'' then Some P4OnDemand
      else None)"

definition parse_lifecycle :: "string \<Rightarrow> rule_lifecycle option" where
  "parse_lifecycle name =
     (if name = ''active'' then Some Lifecycle_Active
      else if name = ''superseded'' then Some Superseded
      else if name = ''legacy'' then Some Legacy
      else if name = ''retired'' then Some Retired
      else None)"

definition schema_v1_phases :: "string list" where
  "schema_v1_phases = [''specify'', ''design'', ''implementation'', ''review'', ''acceptance'', ''all'']"

definition schema_v1_risks :: "string list" where
  "schema_v1_risks = [''R0'', ''R1'', ''R2'', ''R3'', ''all'']"

definition schema_v1_languages :: "string list" where
  "schema_v1_languages = [''cpp'', ''python'', ''batch'', ''cmake'', ''markdown'', ''yaml'']"

definition schema_v1_boundary_kinds :: "string list" where
  "schema_v1_boundary_kinds =
     [''ownership'', ''lifetime'', ''representation'', ''serialization'', ''ipc'', ''persistence'', ''concurrency'',
      ''platform'', ''external-contract'', ''security'', ''process-custody'', ''filesystem'', ''git'', ''cognition'',
      ''governance'', ''tooling'', ''human-interface'']"

definition schema_v1_evidence :: "string list" where
  "schema_v1_evidence = [''mechanical'', ''environmental'', ''fresh-cognitive'', ''owner-boundary'']"

section \<open>The activation policy\<close>

record policy_state =
  ps_schema_version :: u32
  ps_rules :: "activation_rule list"
  ps_rule :: "activation_rule option"
  ps_field :: string
  ps_list_key :: string
  ps_list_indent :: nat

definition default_rule :: activation_rule where
  "default_rule =
     \<lparr>ru_id = [], ru_priority = P3Supporting, ru_lifecycle = Lifecycle_Active,
      ru_source = \<lparr>rs_repository = [], rs_path = [], rs_anchor = []\<rparr>,
      ru_selectors = \<lparr>sel_phases = [], sel_risk = [], sel_repositories = [], sel_path_prefixes = [],
        sel_languages = [], sel_boundary_kinds = [], sel_explicit_ids = []\<rparr>,
      ru_expected_controls = [], ru_independent_evidence = []\<rparr>"

definition policy_start :: policy_state where
  "policy_start = \<lparr>ps_schema_version = 0, ps_rules = [], ps_rule = None, ps_field = [], ps_list_key = [], ps_list_indent = 0\<rparr>"

definition close_rule :: "policy_state \<Rightarrow> policy_state" where
  "close_rule st =
     st\<lparr>ps_rules := ps_rules st @ (case ps_rule st of None \<Rightarrow> [] | Some r \<Rightarrow> [r]), ps_rule := None,
        ps_field := [], ps_list_key := []\<rparr>"

definition policy_top :: "line \<Rightarrow> policy_state \<Rightarrow> policy_error + policy_state" where
  "policy_top l st =
     (let st = close_rule st in
      case split_key (ln_text l) of
        None \<Rightarrow> Inl (Policy_Malformed, ln_number l)
      | Some (key, value) \<Rightarrow>
          if key = ''schema_version'' then
            if parse_u64 value = Some 1 then Inr (st\<lparr>ps_schema_version := 1\<rparr>) else Inl (UnknownVocabulary, ln_number l)
          else if key = ''rules'' \<and> value = [] then Inr st
          else Inl (Policy_Malformed, ln_number l))"

definition policy_entry :: "line \<Rightarrow> string \<Rightarrow> policy_state \<Rightarrow> policy_error + policy_state" where
  "policy_entry l item st =
     (let st = close_rule st in
      case split_key item of
        Some (key, value) \<Rightarrow>
          if key = ''rule_id'' then Inr (st\<lparr>ps_rule := Some (default_rule\<lparr>ru_id := unquote value\<rparr>)\<rparr>)
          else Inl (Policy_Malformed, ln_number l)
      | None \<Rightarrow> Inl (Policy_Malformed, ln_number l))"

definition rule_sections :: "string list" where
  "rule_sections = [''source'', ''selectors'', ''expected_controls'', ''independent_evidence'', ''explicit_ids'']"

definition policy_rule_key :: "line \<Rightarrow> activation_rule \<Rightarrow> policy_state \<Rightarrow> policy_error + policy_state" where
  "policy_rule_key l r st =
     (let st = st\<lparr>ps_list_key := []\<rparr> in
      case split_key (ln_text l) of
        None \<Rightarrow> Inl (Policy_Malformed, ln_number l)
      | Some (key, value) \<Rightarrow>
          if key = ''priority_class'' then
            (case parse_priority_class value of
               None \<Rightarrow> Inl (UnknownVocabulary, ln_number l)
             | Some p \<Rightarrow> Inr (st\<lparr>ps_rule := Some (r\<lparr>ru_priority := p\<rparr>)\<rparr>))
          else if key = ''lifecycle'' then
            (case parse_lifecycle value of
               None \<Rightarrow> Inl (UnknownVocabulary, ln_number l)
             | Some p \<Rightarrow> Inr (st\<lparr>ps_rule := Some (r\<lparr>ru_lifecycle := p\<rparr>)\<rparr>))
          else if value = [] \<and> key \<in> set rule_sections then Inr (st\<lparr>ps_field := key\<rparr>)
          else Inl (Policy_Malformed, ln_number l))"

definition policy_source_line :: "line \<Rightarrow> activation_rule \<Rightarrow> policy_state \<Rightarrow> policy_error + policy_state" where
  "policy_source_line l r st =
     (case split_key (ln_text l) of
        None \<Rightarrow> Inl (Policy_Malformed, ln_number l)
      | Some (key, value) \<Rightarrow>
          let text = unquote value; s = ru_source r in
          if key = ''repository'' then Inr (st\<lparr>ps_rule := Some (r\<lparr>ru_source := s\<lparr>rs_repository := text\<rparr>\<rparr>)\<rparr>)
          else if key = ''path'' then Inr (st\<lparr>ps_rule := Some (r\<lparr>ru_source := s\<lparr>rs_path := text\<rparr>\<rparr>)\<rparr>)
          else if key = ''anchor'' then Inr (st\<lparr>ps_rule := Some (r\<lparr>ru_source := s\<lparr>rs_anchor := text\<rparr>\<rparr>)\<rparr>)
          else Inl (Policy_Malformed, ln_number l))"

definition selector_lists :: "string list" where
  "selector_lists = [''phases'', ''risk'', ''repositories'', ''path_prefixes'', ''languages'', ''boundary_kinds'', ''explicit_ids'']"

text \<open>An item of a selector list: \<open>None\<close> when it is outside the vocabulary.\<close>

definition add_selector :: "string \<Rightarrow> string \<Rightarrow> rule_selectors \<Rightarrow> rule_selectors option" where
  "add_selector key v s =
     (if key = ''phases'' then
        if v \<in> set schema_v1_phases then Some (s\<lparr>sel_phases := sel_phases s @ [v]\<rparr>) else None
      else if key = ''risk'' then
        if v \<in> set schema_v1_risks then Some (s\<lparr>sel_risk := sel_risk s @ [v]\<rparr>) else None
      else if key = ''repositories'' then Some (s\<lparr>sel_repositories := sel_repositories s @ [v]\<rparr>)
      else if key = ''path_prefixes'' then Some (s\<lparr>sel_path_prefixes := sel_path_prefixes s @ [v]\<rparr>)
      else if key = ''languages'' then
        if v \<in> set schema_v1_languages then Some (s\<lparr>sel_languages := sel_languages s @ [v]\<rparr>) else None
      else if key = ''boundary_kinds'' then
        if v \<in> set schema_v1_boundary_kinds then Some (s\<lparr>sel_boundary_kinds := sel_boundary_kinds s @ [v]\<rparr>) else None
      else if key = ''explicit_ids'' then Some (s\<lparr>sel_explicit_ids := sel_explicit_ids s @ [v]\<rparr>)
      else Some s)"

definition policy_selector_line :: "line \<Rightarrow> activation_rule \<Rightarrow> policy_state \<Rightarrow> policy_error + policy_state" where
  "policy_selector_line l r st =
     (let header = (case split_key (ln_text l) of Some (key, value) \<Rightarrow> if key \<in> set selector_lists then Some (key, value) else None
                    | None \<Rightarrow> None) in
      case header of
        Some (key, value) \<Rightarrow>
          if value \<noteq> [] then Inl (Policy_Malformed, ln_number l)
          else Inr (st\<lparr>ps_list_key := key, ps_list_indent := ln_indent l\<rparr>)
      | None \<Rightarrow>
          if ps_list_key st \<noteq> [] \<and> ps_list_indent st < ln_indent l then
            (case list_item (ln_text l) of
               None \<Rightarrow> Inl (Policy_Malformed, ln_number l)
             | Some item \<Rightarrow>
                 (case add_selector (ps_list_key st) (unquote item) (ru_selectors r) of
                    None \<Rightarrow> Inl (UnknownVocabulary, ln_number l)
                  | Some s \<Rightarrow> Inr (st\<lparr>ps_rule := Some (r\<lparr>ru_selectors := s\<rparr>)\<rparr>)))
          else Inl (Policy_Malformed, ln_number l))"

definition policy_list_line :: "line \<Rightarrow> activation_rule \<Rightarrow> policy_state \<Rightarrow> policy_error + policy_state" where
  "policy_list_line l r st =
     (case list_item (ln_text l) of
        None \<Rightarrow> Inl (Policy_Malformed, ln_number l)
      | Some item \<Rightarrow>
          let v = unquote item in
          if ps_field st = ''expected_controls''
          then Inr (st\<lparr>ps_rule := Some (r\<lparr>ru_expected_controls := ru_expected_controls r @ [v]\<rparr>)\<rparr>)
          else if ps_field st = ''independent_evidence'' then
            if v \<in> set schema_v1_evidence
            then Inr (st\<lparr>ps_rule := Some (r\<lparr>ru_independent_evidence := ru_independent_evidence r @ [v]\<rparr>)\<rparr>)
            else Inl (UnknownVocabulary, ln_number l)
          else Inr (st\<lparr>ps_rule := Some (r\<lparr>ru_selectors := (ru_selectors r)
                 \<lparr>sel_explicit_ids := sel_explicit_ids (ru_selectors r) @ [v]\<rparr>\<rparr>)\<rparr>))"

definition policy_line :: "line \<Rightarrow> policy_state \<Rightarrow> policy_error + policy_state" where
  "policy_line l st =
     (if ln_indent l = 0 then policy_top l st
      else case (if ln_indent l = 2 then list_item (ln_text l) else None) of
        Some item \<Rightarrow> policy_entry l item st
      | None \<Rightarrow>
          (case ps_rule st of
             None \<Rightarrow> Inl (Policy_Malformed, ln_number l)
           | Some r \<Rightarrow>
               if ln_indent l = 4 then policy_rule_key l r st
               else if ps_field st = ''source'' then policy_source_line l r st
               else if ps_field st = ''selectors'' then policy_selector_line l r st
               else if ps_field st \<in> {''expected_controls'', ''independent_evidence'', ''explicit_ids''}
               then policy_list_line l r st
               else Inl (Policy_Malformed, ln_number l)))"

fun run_lines :: "(line \<Rightarrow> 's \<Rightarrow> policy_error + 's) \<Rightarrow> line list \<Rightarrow> 's \<Rightarrow> policy_error + 's" where
  "run_lines step [] st = Inr st"
| "run_lines step (l # ls) st = (case step l st of Inl e \<Rightarrow> Inl e | Inr st' \<Rightarrow> run_lines step ls st')"

definition rule_id_char :: "char \<Rightarrow> bool" where
  "rule_id_char c \<longleftrightarrow> is_upper c \<or> is_digit c \<or> c = CHR ''-''"

definition check_rule :: "activation_rule \<Rightarrow> policy_error option" where
  "check_rule r =
     (if ru_id r = [] \<or> rs_repository (ru_source r) = [] \<or> rs_path (ru_source r) = [] then Some (MissingField, 0)
      else if \<not> list_all rule_id_char (ru_id r) \<or> hd (ru_id r) = CHR ''-'' then Some (Policy_Malformed, 0)
      else if rs_anchor (ru_source r) = [] then Some (MissingField, 0)
      else if ru_expected_controls r = [] then Some (MissingField, 0)
      else None)"

fun check_rules :: "activation_rule list \<Rightarrow> policy_error option" where
  "check_rules [] = None"
| "check_rules (r # rs) = (case check_rule r of Some e \<Rightarrow> Some e | None \<Rightarrow> check_rules rs)"

definition parse_activation_policy :: "string \<Rightarrow> policy_error + activation_policy" where
  "parse_activation_policy bs =
     (if max_activation_policy_bytes < length bs then Inl (Policy_BoundExceeded, 0)
      else case run_lines policy_line (tracked_lines bs) policy_start of
        Inl e \<Rightarrow> Inl e
      | Inr st \<Rightarrow>
          let st = close_rule st in
          if ps_schema_version st \<noteq> 1 \<or> ps_rules st = [] then Inl (MissingField, 0)
          else if max_activation_policy_rules < length (ps_rules st) then Inl (Policy_BoundExceeded, 0)
          else case check_rules (ps_rules st) of
            Some e \<Rightarrow> Inl e
          | None \<Rightarrow> Inr \<lparr>ap_schema_version = ps_schema_version st, ap_rules = ps_rules st\<rparr>)"

section \<open>The cognition core\<close>

record cognition_core =
  cc_schema_version :: u32
  cc_corpus :: "(string \<times> string list) list"
  cc_capabilities :: "(string \<times> string) list"
  cc_compact_core_max_bytes :: u64
  cc_task_payload_max_bytes :: u64
  cc_inlined_body_max_bytes :: u64
  cc_supporting_share_max_percent :: u64
  cc_selector_schema_version :: u32
  cc_activation_policy_path :: string
  cc_task_schema_repository :: string
  cc_task_schema_path :: string
  cc_fixtures_repository :: string
  cc_fixtures_path :: string
  cc_consumer_profiles :: "string list"
  cc_cold_rebuild_max_ms :: u64
  cc_warm_activation_p95_max_ms :: u64

definition no_core :: cognition_core where
  "no_core =
     \<lparr>cc_schema_version = 0, cc_corpus = [], cc_capabilities = [], cc_compact_core_max_bytes = 0,
      cc_task_payload_max_bytes = 0, cc_inlined_body_max_bytes = 0, cc_supporting_share_max_percent = 0,
      cc_selector_schema_version = 0, cc_activation_policy_path = [], cc_task_schema_repository = [],
      cc_task_schema_path = [], cc_fixtures_repository = [], cc_fixtures_path = [], cc_consumer_profiles = [],
      cc_cold_rebuild_max_ms = 0, cc_warm_activation_p95_max_ms = 0\<rparr>"

record core_state =
  cs_core :: cognition_core
  cs_section :: string
  cs_subsection :: string
  cs_repo :: "(string \<times> string list) option"
  cs_capability :: "(string \<times> string) option"
  cs_filter_indent :: nat
  cs_in_filters :: bool
  cs_close_error :: "policy_error option"

definition core_start :: core_state where
  "core_start = \<lparr>cs_core = no_core, cs_section = [], cs_subsection = [], cs_repo = None, cs_capability = None,
     cs_filter_indent = 0, cs_in_filters = False, cs_close_error = None\<rparr>"

definition close_repo :: "nat \<Rightarrow> core_state \<Rightarrow> core_state" where
  "close_repo n st =
     (case cs_repo st of
        None \<Rightarrow> st
      | Some (name, filters) \<Rightarrow>
          if name = [] \<or> filters = [] then st\<lparr>cs_close_error := Some (MissingField, n), cs_repo := None\<rparr>
          else st\<lparr>cs_core := (cs_core st)\<lparr>cc_corpus := cc_corpus (cs_core st) @ [(name, filters)]\<rparr>, cs_repo := None\<rparr>)"

definition close_capability :: "nat \<Rightarrow> core_state \<Rightarrow> core_state" where
  "close_capability n st =
     (case cs_capability st of
        None \<Rightarrow> st
      | Some (name, path) \<Rightarrow>
          if name = [] \<or> path = [] then st\<lparr>cs_close_error := Some (MissingField, n), cs_capability := None\<rparr>
          else st\<lparr>cs_core := (cs_core st)\<lparr>cc_capabilities := cc_capabilities (cs_core st) @ [(name, path)]\<rparr>,
                  cs_capability := None\<rparr>)"

definition core_top :: "line \<Rightarrow> core_state \<Rightarrow> policy_error + core_state" where
  "core_top l st =
     (let st = close_repo (ln_number l) st in
      case cs_close_error st of
        Some e \<Rightarrow> Inl e
      | None \<Rightarrow>
          let st = (close_capability (ln_number l) st)\<lparr>cs_subsection := []\<rparr> in
          if hd (ln_text l) = CHR ''-'' then Inl (Policy_Malformed, ln_number l)
          else case split_key (ln_text l) of
            None \<Rightarrow> Inl (Policy_Malformed, ln_number l)
          | Some (key, value) \<Rightarrow>
              if key = ''schema_version'' then
                if parse_u64 value = Some 1 then Inr (st\<lparr>cs_core := (cs_core st)\<lparr>cc_schema_version := 1\<rparr>\<rparr>)
                else Inl (UnknownVocabulary, ln_number l)
              else if value = [] then Inr (st\<lparr>cs_section := key\<rparr>)
              else Inl (Policy_Malformed, ln_number l))"

definition core_corpus_line :: "line \<Rightarrow> core_state \<Rightarrow> policy_error + core_state" where
  "core_corpus_line l st =
     (if ln_text l = ''repositories:'' \<and> ln_indent l = 2 then Inr (st\<lparr>cs_subsection := ''repositories''\<rparr>)
      else if cs_subsection st \<noteq> ''repositories'' then Inl (Policy_Malformed, ln_number l)
      else case (if ln_indent l = 4 then list_item (ln_text l) else None) of
        Some item \<Rightarrow>
          let st = close_repo (ln_number l) st in
          (case cs_close_error st of
             Some e \<Rightarrow> Inl e
           | None \<Rightarrow>
               (case split_key item of
                  Some (key, value) \<Rightarrow>
                    if key = ''repository''
                    then Inr (st\<lparr>cs_repo := Some (unquote value, []), cs_filter_indent := 4, cs_in_filters := False\<rparr>)
                    else Inl (Policy_Malformed, ln_number l)
                | None \<Rightarrow> Inl (Policy_Malformed, ln_number l)))
      | None \<Rightarrow>
          (case cs_repo st of
             None \<Rightarrow> Inl (Policy_Malformed, ln_number l)
           | Some (name, filters) \<Rightarrow>
               if ln_text l = ''path_filters:'' then Inr (st\<lparr>cs_filter_indent := ln_indent l, cs_in_filters := True\<rparr>)
               else if cs_in_filters st \<and> cs_filter_indent st < ln_indent l then
                 (case list_item (ln_text l) of
                    Some item \<Rightarrow> Inr (st\<lparr>cs_repo := Some (name, filters @ [unquote item])\<rparr>)
                  | None \<Rightarrow> Inl (Policy_Malformed, ln_number l))
               else Inl (Policy_Malformed, ln_number l)))"

definition core_capability_line :: "line \<Rightarrow> core_state \<Rightarrow> policy_error + core_state" where
  "core_capability_line l st =
     (case list_item (ln_text l) of
        Some item \<Rightarrow>
          let st = close_capability (ln_number l) st in
          (case split_key item of
             Some (key, value) \<Rightarrow>
               if key = ''repository'' then Inr (st\<lparr>cs_capability := Some (unquote value, [])\<rparr>)
               else Inl (Policy_Malformed, ln_number l)
           | None \<Rightarrow> Inl (Policy_Malformed, ln_number l))
      | None \<Rightarrow>
          (case (cs_capability st, split_key (ln_text l)) of
             (Some (name, path), Some (key, value)) \<Rightarrow>
               if key = ''path'' then Inr (st\<lparr>cs_capability := Some (name, unquote value)\<rparr>)
               else Inl (Policy_Malformed, ln_number l)
           | _ \<Rightarrow> Inl (Policy_Malformed, ln_number l)))"

definition set_number :: "string \<Rightarrow> string \<Rightarrow> u64 \<Rightarrow> cognition_core \<Rightarrow> cognition_core option" where
  "set_number section_name key n c =
     (if section_name = ''budgets'' then
        if key = ''compact_core_max_bytes'' then Some (c\<lparr>cc_compact_core_max_bytes := n\<rparr>)
        else if key = ''task_payload_max_bytes'' then Some (c\<lparr>cc_task_payload_max_bytes := n\<rparr>)
        else if key = ''inlined_body_max_bytes'' then Some (c\<lparr>cc_inlined_body_max_bytes := n\<rparr>)
        else if key = ''supporting_share_max_percent'' then Some (c\<lparr>cc_supporting_share_max_percent := n\<rparr>)
        else None
      else if key = ''cold_rebuild_max_ms'' then Some (c\<lparr>cc_cold_rebuild_max_ms := n\<rparr>)
      else if key = ''warm_activation_p95_max_ms'' then Some (c\<lparr>cc_warm_activation_p95_max_ms := n\<rparr>)
      else None)"

definition set_registry :: "string \<Rightarrow> string \<Rightarrow> cognition_core \<Rightarrow> cognition_core option" where
  "set_registry key text c =
     (if key = ''activation_policy_path'' then Some (c\<lparr>cc_activation_policy_path := text\<rparr>)
      else if key = ''task_schema_repository'' then Some (c\<lparr>cc_task_schema_repository := text\<rparr>)
      else if key = ''task_schema_path'' then Some (c\<lparr>cc_task_schema_path := text\<rparr>)
      else if key = ''fixtures_repository'' then Some (c\<lparr>cc_fixtures_repository := text\<rparr>)
      else if key = ''fixtures_path'' then Some (c\<lparr>cc_fixtures_path := text\<rparr>)
      else None)"

definition core_registry_line :: "line \<Rightarrow> string \<Rightarrow> string \<Rightarrow> core_state \<Rightarrow> policy_error + core_state" where
  "core_registry_line l key value st =
     (if key = ''selector_schema_version'' then
        if parse_u64 value = Some 1 then Inr (st\<lparr>cs_core := (cs_core st)\<lparr>cc_selector_schema_version := 1\<rparr>\<rparr>)
        else Inl (UnknownVocabulary, ln_number l)
      else case set_registry key (unquote value) (cs_core st) of
        None \<Rightarrow> Inl (Policy_Malformed, ln_number l)
      | Some c \<Rightarrow> Inr (st\<lparr>cs_core := c\<rparr>))"

definition core_line :: "line \<Rightarrow> core_state \<Rightarrow> policy_error + core_state" where
  "core_line l st =
     (let bad = Inl (Policy_Malformed, ln_number l) in
      if ln_indent l = 0 then core_top l st
      else if cs_section st = ''corpus'' then core_corpus_line l st
      else if cs_section st = ''capabilities'' then core_capability_line l st
      else if cs_section st = ''budgets'' \<or> cs_section st = ''latency_objectives'' then
        (case split_key (ln_text l) of
           None \<Rightarrow> bad
         | Some (key, value) \<Rightarrow>
             (case parse_u64 value of
                None \<Rightarrow> bad
              | Some n \<Rightarrow>
                  (case set_number (cs_section st) key n (cs_core st) of
                     None \<Rightarrow> bad
                   | Some c \<Rightarrow> Inr (st\<lparr>cs_core := c\<rparr>))))
      else if cs_section st = ''registry'' then
        (case split_key (ln_text l) of
           None \<Rightarrow> bad
         | Some (key, value) \<Rightarrow> core_registry_line l key value st)
      else if cs_section st = ''consumer_profiles'' then
        (case list_item (ln_text l) of
           None \<Rightarrow> bad
         | Some item \<Rightarrow>
             Inr (st\<lparr>cs_core := (cs_core st)\<lparr>cc_consumer_profiles := cc_consumer_profiles (cs_core st) @ [unquote item]\<rparr>\<rparr>))
      else bad)"

definition core_complete :: "cognition_core \<Rightarrow> bool" where
  "core_complete c \<longleftrightarrow>
     cc_schema_version c = 1 \<and> cc_corpus c \<noteq> [] \<and> cc_compact_core_max_bytes c \<noteq> 0 \<and> cc_task_payload_max_bytes c \<noteq> 0 \<and>
     cc_inlined_body_max_bytes c \<noteq> 0 \<and> cc_supporting_share_max_percent c \<noteq> 0 \<and> cc_activation_policy_path c \<noteq> [] \<and>
     cc_consumer_profiles c \<noteq> [] \<and> cc_cold_rebuild_max_ms c \<noteq> 0 \<and> cc_warm_activation_p95_max_ms c \<noteq> 0 \<and>
     cc_selector_schema_version c = 1 \<and> cc_task_schema_repository c \<noteq> [] \<and> cc_task_schema_path c \<noteq> [] \<and>
     cc_fixtures_repository c \<noteq> [] \<and> cc_fixtures_path c \<noteq> []"

definition parse_cognition_core :: "string \<Rightarrow> policy_error + cognition_core" where
  "parse_cognition_core bs =
     (if max_activation_policy_bytes < length bs then Inl (Policy_BoundExceeded, 0)
      else
        let ls = tracked_lines bs; end_line = (if ls = [] then 0 else ln_number (last ls)) in
        case run_lines core_line ls core_start of
          Inl e \<Rightarrow> Inl e
        | Inr st \<Rightarrow>
            let st = close_repo end_line st in
            case cs_close_error st of
              Some e \<Rightarrow> Inl e
            | None \<Rightarrow>
                let st = close_capability end_line st in
                (case cs_close_error st of
                   Some e \<Rightarrow> Inl e
                 | None \<Rightarrow> if core_complete (cs_core st) then Inr (cs_core st) else Inl (MissingField, 0)))"

section \<open>What a parsed policy satisfies\<close>

text \<open>The closed vocabulary of one rule.\<close>

definition rule_in_vocabulary :: "activation_rule \<Rightarrow> bool" where
  "rule_in_vocabulary r \<longleftrightarrow>
     set (sel_phases (ru_selectors r)) \<subseteq> set schema_v1_phases \<and>
     set (sel_risk (ru_selectors r)) \<subseteq> set schema_v1_risks \<and>
     set (sel_languages (ru_selectors r)) \<subseteq> set schema_v1_languages \<and>
     set (sel_boundary_kinds (ru_selectors r)) \<subseteq> set schema_v1_boundary_kinds \<and>
     set (ru_independent_evidence r) \<subseteq> set schema_v1_evidence"

definition rule_complete :: "activation_rule \<Rightarrow> bool" where
  "rule_complete r \<longleftrightarrow>
     ru_id r \<noteq> [] \<and> list_all rule_id_char (ru_id r) \<and> hd (ru_id r) \<noteq> CHR ''-'' \<and>
     rs_repository (ru_source r) \<noteq> [] \<and> rs_path (ru_source r) \<noteq> [] \<and> rs_anchor (ru_source r) \<noteq> [] \<and>
     ru_expected_controls r \<noteq> []"

lemma run_lines_invariant:
  assumes "run_lines step ls st = Inr st'" and "P st"
    and "\<And>l s s'. l \<in> set ls \<Longrightarrow> P s \<Longrightarrow> step l s = Inr s' \<Longrightarrow> P s'"
  shows "P st'"
  using assms
proof (induction ls arbitrary: st)
  case (Cons a ls)
  then obtain s where s: "step a st = Inr s" "run_lines step ls s = Inr st'" by (auto split: sum.splits)
  have "P s" using Cons.prems(2,3) s(1) by auto
  then show ?case using Cons.IH [OF s(2)] Cons.prems(3) by auto
qed simp

lemma run_lines_append:
  "run_lines step (ls @ ls') st = (case run_lines step ls st of Inl e \<Rightarrow> Inl e | Inr st' \<Rightarrow> run_lines step ls' st')"
  by (induction ls arbitrary: st) (auto split: sum.splits)

definition policy_inv :: "policy_state \<Rightarrow> bool" where
  "policy_inv st \<longleftrightarrow>
     list_all rule_in_vocabulary (ps_rules st) \<and> (case ps_rule st of None \<Rightarrow> True | Some r \<Rightarrow> rule_in_vocabulary r)"

lemma close_rule_inv: "policy_inv st \<Longrightarrow> policy_inv (close_rule st)"
  by (auto simp: policy_inv_def close_rule_def split: option.splits)

lemma default_rule_in_vocabulary: "rule_in_vocabulary (default_rule\<lparr>ru_id := i\<rparr>)"
  by (simp add: rule_in_vocabulary_def default_rule_def)

lemma rule_in_vocabulary_update [simp]:
  "rule_in_vocabulary (r\<lparr>ru_priority := p\<rparr>) = rule_in_vocabulary r"
  "rule_in_vocabulary (r\<lparr>ru_lifecycle := lc\<rparr>) = rule_in_vocabulary r"
  "rule_in_vocabulary (r\<lparr>ru_source := src\<rparr>) = rule_in_vocabulary r"
  "rule_in_vocabulary (r\<lparr>ru_expected_controls := cs\<rparr>) = rule_in_vocabulary r"
  "rule_in_vocabulary (r\<lparr>ru_selectors := (ru_selectors r)\<lparr>sel_explicit_ids := is\<rparr>\<rparr>) = rule_in_vocabulary r"
  "v \<in> set schema_v1_evidence \<Longrightarrow>
     rule_in_vocabulary (r\<lparr>ru_independent_evidence := ru_independent_evidence r @ [v]\<rparr>) = rule_in_vocabulary r"
  unfolding rule_in_vocabulary_def by simp_all

lemma add_selector_in_vocabulary:
  "rule_in_vocabulary r \<Longrightarrow> add_selector key v (ru_selectors r) = Some s \<Longrightarrow> rule_in_vocabulary (r\<lparr>ru_selectors := s\<rparr>)"
  unfolding add_selector_def rule_in_vocabulary_def
  by (auto split: if_splits)

lemma policy_top_inv: "policy_inv st \<Longrightarrow> policy_top l st = Inr st' \<Longrightarrow> policy_inv st'"
  using close_rule_inv [of st]
  by (auto simp: policy_top_def Let_def policy_inv_def split: option.splits if_splits)

lemma policy_entry_inv: "policy_inv st \<Longrightarrow> policy_entry l item st = Inr st' \<Longrightarrow> policy_inv st'"
  using close_rule_inv [of st]
  by (auto simp: policy_entry_def Let_def policy_inv_def default_rule_in_vocabulary split: option.splits if_splits)

lemma policy_rule_key_inv:
  "policy_inv st \<Longrightarrow> ps_rule st = Some r \<Longrightarrow> policy_rule_key l r st = Inr st' \<Longrightarrow> policy_inv st'"
  by (auto simp: policy_rule_key_def Let_def policy_inv_def
      split: option.splits if_splits)

lemma policy_source_line_inv:
  "policy_inv st \<Longrightarrow> ps_rule st = Some r \<Longrightarrow> policy_source_line l r st = Inr st' \<Longrightarrow> policy_inv st'"
  by (auto simp: policy_source_line_def Let_def policy_inv_def
      split: option.splits if_splits)

lemma policy_selector_line_inv:
  "policy_inv st \<Longrightarrow> ps_rule st = Some r \<Longrightarrow> policy_selector_line l r st = Inr st' \<Longrightarrow> policy_inv st'"
  by (auto simp: policy_selector_line_def Let_def policy_inv_def add_selector_in_vocabulary
      split: option.splits if_splits)

lemma policy_list_line_inv:
  "policy_inv st \<Longrightarrow> ps_rule st = Some r \<Longrightarrow> policy_list_line l r st = Inr st' \<Longrightarrow> policy_inv st'"
  by (auto simp: policy_list_line_def Let_def policy_inv_def
      split: option.splits if_splits)

lemma policy_line_inv: "policy_inv st \<Longrightarrow> policy_line l st = Inr st' \<Longrightarrow> policy_inv st'"
  unfolding policy_line_def
  by (auto split: if_splits option.splits
      intro: policy_top_inv policy_entry_inv policy_rule_key_inv policy_source_line_inv policy_selector_line_inv
        policy_list_line_inv)

lemma check_rule_None: "check_rule r = None \<longleftrightarrow> rule_complete r"
  by (auto simp: check_rule_def rule_complete_def)

lemma check_rules_None: "check_rules rs = None \<longleftrightarrow> list_all rule_complete rs"
  by (induction rs) (auto simp: check_rule_None [symmetric] split: option.splits)

text \<open>type: a policy file that is accepted gives a policy of schema 1 with 1 to 512 rules, each with an
  identifier of the registered character set, a full source reference and at least one expected control, and
  every phase, risk, language, boundary kind and evidence class of every rule is in the vocabulary of schema 1.\<close>

theorem parsed_policy_typed:
  assumes "parse_activation_policy bs = Inr p"
  shows "ap_schema_version p = 1 \<and> 0 < length (ap_rules p) \<and> length (ap_rules p) \<le> max_activation_policy_rules \<and>
    (\<forall>r \<in> set (ap_rules p). rule_complete r \<and> rule_in_vocabulary r)"
proof -
  obtain st where st: "run_lines policy_line (tracked_lines bs) policy_start = Inr st"
    and p: "p = \<lparr>ap_schema_version = ps_schema_version (close_rule st), ap_rules = ps_rules (close_rule st)\<rparr>"
    and ok: "ps_schema_version (close_rule st) = 1" "ps_rules (close_rule st) \<noteq> []"
      "length (ps_rules (close_rule st)) \<le> max_activation_policy_rules" "check_rules (ps_rules (close_rule st)) = None"
    using assms by (auto simp: parse_activation_policy_def Let_def not_less split: if_splits sum.splits option.splits)
  have start: "policy_inv policy_start" by (simp add: policy_inv_def policy_start_def)
  have "policy_inv st" by (rule run_lines_invariant [where P = policy_inv, OF st start]) (rule policy_line_inv)
  then have "policy_inv (close_rule st)" by (rule close_rule_inv)
  then show ?thesis
    using p ok by (auto simp: policy_inv_def check_rules_None list_all_iff)
qed

section \<open>What a parsed core satisfies\<close>

definition core_inv :: "core_state \<Rightarrow> bool" where
  "core_inv st \<longleftrightarrow>
     (\<forall>(name, filters) \<in> set (cc_corpus (cs_core st)). name \<noteq> [] \<and> filters \<noteq> []) \<and>
     (\<forall>(name, path) \<in> set (cc_capabilities (cs_core st)). name \<noteq> [] \<and> path \<noteq> [])"

lemma set_number_keeps [simp]:
  "set_number sec key n c = Some c' \<Longrightarrow> cc_corpus c' = cc_corpus c \<and> cc_capabilities c' = cc_capabilities c"
  by (auto simp: set_number_def split: if_splits)

lemma set_registry_keeps [simp]:
  "set_registry key text c = Some c' \<Longrightarrow> cc_corpus c' = cc_corpus c \<and> cc_capabilities c' = cc_capabilities c"
  by (auto simp: set_registry_def split: if_splits)

lemma close_repo_inv: "core_inv st \<Longrightarrow> core_inv (close_repo n st)"
  by (auto simp: core_inv_def close_repo_def split: option.splits)

lemma close_capability_inv: "core_inv st \<Longrightarrow> core_inv (close_capability n st)"
  by (auto simp: core_inv_def close_capability_def split: option.splits)

text \<open>\<open>core_inv\<close> reads the collected entries only.\<close>

lemma core_inv_update [simp]:
  "core_inv (st\<lparr>cs_section := a\<rparr>) = core_inv st"
  "core_inv (st\<lparr>cs_subsection := a\<rparr>) = core_inv st"
  "core_inv (st\<lparr>cs_repo := r\<rparr>) = core_inv st"
  "core_inv (st\<lparr>cs_capability := cap\<rparr>) = core_inv st"
  "core_inv (st\<lparr>cs_filter_indent := n\<rparr>) = core_inv st"
  "core_inv (st\<lparr>cs_in_filters := b\<rparr>) = core_inv st"
  "cc_corpus c = cc_corpus (cs_core st) \<Longrightarrow> cc_capabilities c = cc_capabilities (cs_core st) \<Longrightarrow>
     core_inv (st\<lparr>cs_core := c\<rparr>) = core_inv st"
  by (simp_all add: core_inv_def)

lemma core_top_inv: "core_inv st \<Longrightarrow> core_top l st = Inr st' \<Longrightarrow> core_inv st'"
  using close_capability_inv [OF close_repo_inv [of st "ln_number l"], of "ln_number l"]
  by (auto simp: core_top_def Let_def split: option.splits if_splits)

lemma core_corpus_line_inv: "core_inv st \<Longrightarrow> core_corpus_line l st = Inr st' \<Longrightarrow> core_inv st'"
  using close_repo_inv [of st "ln_number l"]
  by (auto simp: core_corpus_line_def Let_def split: option.splits if_splits)

lemma core_capability_line_inv: "core_inv st \<Longrightarrow> core_capability_line l st = Inr st' \<Longrightarrow> core_inv st'"
  using close_capability_inv [of st "ln_number l"]
  by (auto simp: core_capability_line_def Let_def split: option.splits if_splits)

lemma core_registry_line_inv: "core_inv st \<Longrightarrow> core_registry_line l key v st = Inr st' \<Longrightarrow> core_inv st'"
  by (auto simp: core_registry_line_def split: option.splits if_splits)

lemma core_line_inv: "core_inv st \<Longrightarrow> core_line l st = Inr st' \<Longrightarrow> core_inv st'"
  unfolding core_line_def Let_def
  by (auto split: option.splits if_splits
      intro: core_top_inv core_corpus_line_inv core_capability_line_inv core_registry_line_inv)

subsection \<open>No entry is dropped\<close>

text \<open>
  The section a line belongs to and the entries a file declares, read off the lines alone: the corpus entries are
  the list items of indent 4 of section \<open>corpus\<close>, the capabilities the list items of section \<open>capabilities\<close>.
\<close>

definition next_section :: "line \<Rightarrow> string \<Rightarrow> string" where
  "next_section l sec =
     (case split_key (ln_text l) of
        Some (key, value) \<Rightarrow> if ln_indent l = 0 \<and> key \<noteq> ''schema_version'' \<and> value = [] then key else sec
      | None \<Rightarrow> sec)"

fun declared :: "(string \<Rightarrow> line \<Rightarrow> bool) \<Rightarrow> string \<Rightarrow> line list \<Rightarrow> nat" where
  "declared entry sec [] = 0"
| "declared entry sec (l # ls) = (if entry sec l then 1 else 0) + declared entry (next_section l sec) ls"

definition corpus_entry :: "string \<Rightarrow> line \<Rightarrow> bool" where
  "corpus_entry sec l \<longleftrightarrow> sec = ''corpus'' \<and> ln_indent l = 4 \<and> list_item (ln_text l) \<noteq> None"

definition capability_entry :: "string \<Rightarrow> line \<Rightarrow> bool" where
  "capability_entry sec l \<longleftrightarrow> sec = ''capabilities'' \<and> ln_indent l \<noteq> 0 \<and> list_item (ln_text l) \<noteq> None"

definition held :: "'a option \<Rightarrow> nat" where
  "held x = (case x of None \<Rightarrow> 0 | Some _ \<Rightarrow> 1)"

definition corpus_count :: "core_state \<Rightarrow> nat" where
  "corpus_count st = length (cc_corpus (cs_core st)) + held (cs_repo st)"

definition capability_count :: "core_state \<Rightarrow> nat" where
  "capability_count st = length (cc_capabilities (cs_core st)) + held (cs_capability st)"

text \<open>What holds between the state before and the state after one accepted line.\<close>

definition counts_step :: "line \<Rightarrow> core_state \<Rightarrow> core_state \<Rightarrow> bool" where
  "counts_step l st st' \<longleftrightarrow>
     cs_section st' = next_section l (cs_section st) \<and>
     (cs_close_error st' = None \<longrightarrow>
        cs_close_error st = None \<and>
        corpus_count st' = corpus_count st + (if corpus_entry (cs_section st) l then 1 else 0) \<and>
        capability_count st' = capability_count st + (if capability_entry (cs_section st) l then 1 else 0))"

lemmas count_defs = corpus_count_def capability_count_def held_def

lemma close_repo_counts:
  "cs_section (close_repo n st) = cs_section st"
  "cs_repo (close_repo n st) = None"
  "cs_capability (close_repo n st) = cs_capability st"
  "capability_count (close_repo n st) = capability_count st"
  "cs_close_error (close_repo n st) = None \<Longrightarrow> cs_close_error st = None \<and> corpus_count (close_repo n st) = corpus_count st"
  by (auto simp: close_repo_def count_defs split: option.splits if_splits)

lemma close_capability_counts:
  "cs_section (close_capability n st) = cs_section st"
  "cs_capability (close_capability n st) = None"
  "cs_repo (close_capability n st) = cs_repo st"
  "corpus_count (close_capability n st) = corpus_count st"
  "cs_close_error (close_capability n st) = None \<Longrightarrow>
     cs_close_error st = None \<and> capability_count (close_capability n st) = capability_count st"
  by (auto simp: close_capability_def count_defs split: option.splits if_splits)

lemma count_update [simp]:
  "corpus_count (st\<lparr>cs_section := a\<rparr>) = corpus_count st"
  "corpus_count (st\<lparr>cs_subsection := a\<rparr>) = corpus_count st"
  "corpus_count (st\<lparr>cs_capability := cap\<rparr>) = corpus_count st"
  "corpus_count (st\<lparr>cs_filter_indent := n\<rparr>) = corpus_count st"
  "corpus_count (st\<lparr>cs_in_filters := b\<rparr>) = corpus_count st"
  "cc_corpus c = cc_corpus (cs_core st) \<Longrightarrow> corpus_count (st\<lparr>cs_core := c\<rparr>) = corpus_count st"
  "cs_repo st = None \<Longrightarrow> corpus_count (st\<lparr>cs_repo := Some r\<rparr>) = Suc (corpus_count st)"
  "cs_repo st = Some r' \<Longrightarrow> corpus_count (st\<lparr>cs_repo := Some r\<rparr>) = corpus_count st"
  "capability_count (st\<lparr>cs_section := a\<rparr>) = capability_count st"
  "capability_count (st\<lparr>cs_subsection := a\<rparr>) = capability_count st"
  "capability_count (st\<lparr>cs_repo := ro\<rparr>) = capability_count st"
  "capability_count (st\<lparr>cs_filter_indent := n\<rparr>) = capability_count st"
  "capability_count (st\<lparr>cs_in_filters := b\<rparr>) = capability_count st"
  "cc_capabilities c = cc_capabilities (cs_core st) \<Longrightarrow> capability_count (st\<lparr>cs_core := c\<rparr>) = capability_count st"
  "cs_capability st = None \<Longrightarrow> capability_count (st\<lparr>cs_capability := Some q\<rparr>) = Suc (capability_count st)"
  "cs_capability st = Some q' \<Longrightarrow> capability_count (st\<lparr>cs_capability := Some q\<rparr>) = capability_count st"
  by (simp_all add: count_defs)

lemma next_section_inside: "ln_indent l \<noteq> 0 \<Longrightarrow> next_section l sec = sec"
  by (auto simp: next_section_def split: option.splits)

lemma core_top_Inr:
  assumes "core_top l st = Inr st'"
  defines "s2 \<equiv> close_capability (ln_number l) (close_repo (ln_number l) st)"
  obtains key v where "split_key (ln_text l) = Some (key, v)" "cs_close_error (close_repo (ln_number l) st) = None"
    "(if key = ''schema_version'' then st' = s2\<lparr>cs_subsection := [], cs_core := (cs_core s2)\<lparr>cc_schema_version := 1\<rparr>\<rparr>
      else v = [] \<and> st' = s2\<lparr>cs_subsection := [], cs_section := key\<rparr>)"
  using assms(1) that unfolding core_top_def Let_def s2_def
  by (simp split: option.splits if_splits prod.splits)

lemma core_top_counts:
  assumes "ln_indent l = 0" and step: "core_top l st = Inr st'" shows "counts_step l st st'"
proof -
  let ?s1 = "close_repo (ln_number l) st" and ?s2 = "close_capability (ln_number l) (close_repo (ln_number l) st)"
  obtain key v where key: "split_key (ln_text l) = Some (key, v)" and none: "cs_close_error ?s1 = None"
    and st': "if key = ''schema_version'' then st' = ?s2\<lparr>cs_subsection := [], cs_core := (cs_core ?s2)\<lparr>cc_schema_version := 1\<rparr>\<rparr>
      else v = [] \<and> st' = ?s2\<lparr>cs_subsection := [], cs_section := key\<rparr>"
    using core_top_Inr [OF step] .
  have sec: "cs_section st' = next_section l (cs_section st)"
    using st' key assms(1) by (simp add: next_section_def close_repo_counts close_capability_counts split: if_splits)
  have same: "cs_close_error st' = cs_close_error ?s2" "corpus_count st' = corpus_count ?s2"
    "capability_count st' = capability_count ?s2"
    using st' by (simp_all split: if_splits)
  show ?thesis
    using sec same assms(1) close_repo_counts(4) [of "ln_number l" st] close_repo_counts(5) [OF none]
      close_capability_counts(4,5) [of "ln_number l" ?s1]
    by (simp add: counts_step_def corpus_entry_def capability_entry_def)
qed

lemma core_corpus_line_counts:
  "ln_indent l \<noteq> 0 \<Longrightarrow> cs_section st = ''corpus'' \<Longrightarrow> core_corpus_line l st = Inr st' \<Longrightarrow> counts_step l st st'"
  by (auto simp: core_corpus_line_def Let_def counts_step_def corpus_entry_def capability_entry_def
      next_section_inside close_repo_counts split: option.splits if_splits)

lemma core_capability_line_counts:
  "ln_indent l \<noteq> 0 \<Longrightarrow> cs_section st = ''capabilities'' \<Longrightarrow> core_capability_line l st = Inr st' \<Longrightarrow> counts_step l st st'"
  by (auto simp: core_capability_line_def Let_def counts_step_def corpus_entry_def capability_entry_def
      next_section_inside close_capability_counts split: option.splits if_splits)

lemma core_registry_line_counts:
  "ln_indent l \<noteq> 0 \<Longrightarrow> cs_section st = ''registry'' \<Longrightarrow> core_registry_line l key v st = Inr st' \<Longrightarrow> counts_step l st st'"
  by (auto simp: core_registry_line_def counts_step_def corpus_entry_def capability_entry_def
      next_section_inside split: option.splits if_splits)

lemma core_number_counts:
  assumes "ln_indent l \<noteq> 0" and "cs_section st \<notin> {''corpus'', ''capabilities''}"
    and "cc_corpus c = cc_corpus (cs_core st)" "cc_capabilities c = cc_capabilities (cs_core st)"
  shows "counts_step l st (st\<lparr>cs_core := c\<rparr>)"
  using assms by (simp add: counts_step_def corpus_entry_def capability_entry_def next_section_inside)

lemma core_line_counts:
  assumes step: "core_line l st = Inr st'" shows "counts_step l st st'"
proof -
  consider "ln_indent l = 0" | "ln_indent l \<noteq> 0" "cs_section st = ''corpus''"
    | "ln_indent l \<noteq> 0" "cs_section st = ''capabilities''"
    | "ln_indent l \<noteq> 0" "cs_section st = ''registry''"
    | (other) "ln_indent l \<noteq> 0" "cs_section st \<notin> {''corpus'', ''capabilities''}" "cs_section st \<noteq> ''registry''"
    by blast
  then show ?thesis
  proof cases
    case 1 then show ?thesis using step by (intro core_top_counts) (simp_all add: core_line_def)
  next
    case 2 then show ?thesis using step by (intro core_corpus_line_counts) (simp_all add: core_line_def)
  next
    case 3 then show ?thesis using step by (intro core_capability_line_counts) (simp_all add: core_line_def)
  next
    case 4
    then obtain key v where "core_registry_line l key v st = Inr st'"
      using step by (auto simp: core_line_def split: option.splits)
    then show ?thesis by (rule core_registry_line_counts [OF 4])
  next
    case other
    then obtain c where "st' = st\<lparr>cs_core := c\<rparr>"
      "cc_corpus c = cc_corpus (cs_core st) \<and> cc_capabilities c = cc_capabilities (cs_core st)"
      using step unfolding core_line_def Let_def by (auto split: option.splits if_splits dest: set_number_keeps)
    then show ?thesis using core_number_counts [OF other(1,2)] by simp
  qed
qed

lemma run_core_counts:
  "run_lines core_line ls st = Inr st' \<Longrightarrow> cs_close_error st' = None \<Longrightarrow>
     cs_close_error st = None \<and>
     corpus_count st' = corpus_count st + declared corpus_entry (cs_section st) ls \<and>
     capability_count st' = capability_count st + declared capability_entry (cs_section st) ls"
proof (induction ls arbitrary: st)
  case (Cons l ls)
  then obtain s where s: "core_line l st = Inr s" "run_lines core_line ls s = Inr st'" by (auto split: sum.splits)
  then show ?case
    using Cons.IH [OF s(2) Cons.prems(2)] core_line_counts [OF s(1)] by (simp add: counts_step_def)
qed simp

text \<open>invariant: a core file that is accepted is complete (every required field present and every budget and
  latency bound non-zero), every corpus entry has a name and at least one filter and every capability both of its
  parts, and no entry is silently dropped: the core has exactly as many corpus entries and capabilities as the
  file declares list items in those sections.\<close>

theorem parsed_core_sound:
  assumes "parse_cognition_core bs = Inr c"
  shows "core_complete c \<and>
    (\<forall>(name, filters) \<in> set (cc_corpus c). name \<noteq> [] \<and> filters \<noteq> []) \<and>
    (\<forall>(name, path) \<in> set (cc_capabilities c). name \<noteq> [] \<and> path \<noteq> []) \<and>
    length (cc_corpus c) = declared corpus_entry [] (tracked_lines bs) \<and>
    length (cc_capabilities c) = declared capability_entry [] (tracked_lines bs)"
proof -
  obtain st n where st: "run_lines core_line (tracked_lines bs) core_start = Inr st"
    and closed: "cs_close_error (close_repo n st) = None"
      "cs_close_error (close_capability n (close_repo n st)) = None"
    and c: "c = cs_core (close_capability n (close_repo n st))" "core_complete c"
    using assms by (auto simp: parse_cognition_core_def Let_def split: if_splits sum.splits option.splits)
  have start: "core_inv core_start" by (simp add: core_inv_def core_start_def no_core_def)
  have "core_inv st" by (rule run_lines_invariant [where P = core_inv, OF st start]) (rule core_line_inv)
  then have inv: "core_inv (close_capability n (close_repo n st))" by (intro close_capability_inv close_repo_inv)
  have none: "cs_close_error st = None" using close_repo_counts(5) [OF closed(1)] by simp
  have "corpus_count (close_capability n (close_repo n st)) = declared corpus_entry [] (tracked_lines bs)"
    "capability_count (close_capability n (close_repo n st)) = declared capability_entry [] (tracked_lines bs)"
    using run_core_counts [OF st none] close_repo_counts(4) [of n st] close_repo_counts(5) [OF closed(1)]
      close_capability_counts(4) [of n "close_repo n st"] close_capability_counts(5) [OF closed(2)]
    by (simp_all add: core_start_def no_core_def count_defs)
  then show ?thesis
    using inv c close_repo_counts(2) [of n st] close_capability_counts(2,3) [of n "close_repo n st"]
    by (simp add: core_inv_def count_defs)
qed

section \<open>Sample files\<close>

definition text_lines :: "string list \<Rightarrow> string" where
  "text_lines ls = concat (map (\<lambda>l. l @ [CHR 0x0A]) ls)"

definition sample_policy_text :: string where
  "sample_policy_text = text_lines
     [''schema_version: 1'', ''rules:'', ''  - rule_id: A-1  # first'', ''    priority_class: P1-protected'', ''    source:'',
      ''      repository: r'', ''      path: d.md'', ''      anchor: x'', ''    selectors:'', ''      phases:'',
      ''        - all'', ''    expected_controls:'', ''      - c'']"

lemma pieces_line: "CHR 0x0A \<notin> set l \<Longrightarrow> pieces (l @ CHR 0x0A # s) = l # pieces s"
  by (induction l) auto

lemma pieces_text_lines: "list_all (\<lambda>l. CHR 0x0A \<notin> set l) ls \<Longrightarrow> pieces (text_lines ls) = ls @ [[]]"
  by (induction ls) (simp_all add: text_lines_def pieces_line)

lemma sample_policy_lines:
  "tracked_lines sample_policy_text =
     [\<lparr>ln_number = 1, ln_indent = 0, ln_text = ''schema_version: 1''\<rparr>,
      \<lparr>ln_number = 2, ln_indent = 0, ln_text = ''rules:''\<rparr>,
      \<lparr>ln_number = 3, ln_indent = 2, ln_text = ''- rule_id: A-1''\<rparr>,
      \<lparr>ln_number = 4, ln_indent = 4, ln_text = ''priority_class: P1-protected''\<rparr>,
      \<lparr>ln_number = 5, ln_indent = 4, ln_text = ''source:''\<rparr>,
      \<lparr>ln_number = 6, ln_indent = 6, ln_text = ''repository: r''\<rparr>,
      \<lparr>ln_number = 7, ln_indent = 6, ln_text = ''path: d.md''\<rparr>,
      \<lparr>ln_number = 8, ln_indent = 6, ln_text = ''anchor: x''\<rparr>,
      \<lparr>ln_number = 9, ln_indent = 4, ln_text = ''selectors:''\<rparr>,
      \<lparr>ln_number = 10, ln_indent = 6, ln_text = ''phases:''\<rparr>,
      \<lparr>ln_number = 11, ln_indent = 8, ln_text = ''- all''\<rparr>,
      \<lparr>ln_number = 12, ln_indent = 4, ln_text = ''expected_controls:''\<rparr>,
      \<lparr>ln_number = 13, ln_indent = 6, ln_text = ''- c''\<rparr>]"
  unfolding tracked_lines_def sample_policy_text_def
  by (subst pieces_text_lines, simp, simp add: track_line_def is_indent_def is_tail_space_def Let_def)

definition sample_rule :: activation_rule where
  "sample_rule = default_rule\<lparr>ru_id := ''A-1'', ru_priority := P1Protected,
     ru_source := \<lparr>rs_repository = ''r'', rs_path = ''d.md'', rs_anchor = ''x''\<rparr>,
     ru_selectors := (ru_selectors default_rule)\<lparr>sel_phases := [''all'']\<rparr>, ru_expected_controls := [''c'']\<rparr>"

lemma sample_policy_run:
  "run_lines policy_line (tracked_lines sample_policy_text) policy_start =
     Inr \<lparr>ps_schema_version = 1, ps_rules = [], ps_rule = Some sample_rule, ps_field = ''expected_controls'',
       ps_list_key = [], ps_list_indent = 6\<rparr>"
  unfolding sample_policy_lines
  by (simp add: policy_line_def policy_top_def policy_entry_def policy_rule_key_def policy_source_line_def
      policy_selector_line_def policy_list_line_def split_key_def list_item_def unquote_def quoted_by_def
      parse_u64_def parse_priority_class_def close_rule_def policy_start_def Let_def rule_sections_def selector_lists_def
      add_selector_def schema_v1_phases_def sample_rule_def default_rule_def is_digit_def decimal_def)

definition sample_core_text :: string where
  "sample_core_text = text_lines
     [''schema_version: 1'',
      ''corpus:'',
      ''  repositories:'',
      ''    - repository: ctx'',
      ''      path_filters:'',
      ''        - docs'',
      ''        - '' @ [CHR 0x27] @ ''a#b'' @ [CHR 0x27],
      ''    - repository: rt'',
      ''      path_filters:'',
      ''        - include'',
      ''capabilities:'',
      ''  - repository: ctx'',
      ''    path: cap.md'',
      ''budgets:'',
      ''  compact_core_max_bytes: 10'',
      ''  task_payload_max_bytes: 20'',
      ''  inlined_body_max_bytes: 30'',
      ''  supporting_share_max_percent: 40'',
      ''registry:'',
      ''  selector_schema_version: 1'',
      ''  activation_policy_path: p.yaml'',
      ''  task_schema_repository: ctx'',
      ''  task_schema_path: t.yaml'',
      ''  fixtures_repository: ctx'',
      ''  fixtures_path: f'',
      ''consumer_profiles:'',
      ''  - main'',
      ''latency_objectives:'',
      ''  cold_rebuild_max_ms: 50'',
      ''  warm_activation_p95_max_ms: 60'']"

lemma sample_core_lines:
  "tracked_lines sample_core_text =
     [\<lparr>ln_number = 1, ln_indent = 0, ln_text = ''schema_version: 1''\<rparr>,
      \<lparr>ln_number = 2, ln_indent = 0, ln_text = ''corpus:''\<rparr>,
      \<lparr>ln_number = 3, ln_indent = 2, ln_text = ''repositories:''\<rparr>,
      \<lparr>ln_number = 4, ln_indent = 4, ln_text = ''- repository: ctx''\<rparr>,
      \<lparr>ln_number = 5, ln_indent = 6, ln_text = ''path_filters:''\<rparr>,
      \<lparr>ln_number = 6, ln_indent = 8, ln_text = ''- docs''\<rparr>,
      \<lparr>ln_number = 7, ln_indent = 8, ln_text = ''- '' @ [CHR 0x27] @ ''a#b'' @ [CHR 0x27]\<rparr>,
      \<lparr>ln_number = 8, ln_indent = 4, ln_text = ''- repository: rt''\<rparr>,
      \<lparr>ln_number = 9, ln_indent = 6, ln_text = ''path_filters:''\<rparr>,
      \<lparr>ln_number = 10, ln_indent = 8, ln_text = ''- include''\<rparr>,
      \<lparr>ln_number = 11, ln_indent = 0, ln_text = ''capabilities:''\<rparr>,
      \<lparr>ln_number = 12, ln_indent = 2, ln_text = ''- repository: ctx''\<rparr>,
      \<lparr>ln_number = 13, ln_indent = 4, ln_text = ''path: cap.md''\<rparr>,
      \<lparr>ln_number = 14, ln_indent = 0, ln_text = ''budgets:''\<rparr>,
      \<lparr>ln_number = 15, ln_indent = 2, ln_text = ''compact_core_max_bytes: 10''\<rparr>,
      \<lparr>ln_number = 16, ln_indent = 2, ln_text = ''task_payload_max_bytes: 20''\<rparr>,
      \<lparr>ln_number = 17, ln_indent = 2, ln_text = ''inlined_body_max_bytes: 30''\<rparr>,
      \<lparr>ln_number = 18, ln_indent = 2, ln_text = ''supporting_share_max_percent: 40''\<rparr>,
      \<lparr>ln_number = 19, ln_indent = 0, ln_text = ''registry:''\<rparr>,
      \<lparr>ln_number = 20, ln_indent = 2, ln_text = ''selector_schema_version: 1''\<rparr>,
      \<lparr>ln_number = 21, ln_indent = 2, ln_text = ''activation_policy_path: p.yaml''\<rparr>,
      \<lparr>ln_number = 22, ln_indent = 2, ln_text = ''task_schema_repository: ctx''\<rparr>,
      \<lparr>ln_number = 23, ln_indent = 2, ln_text = ''task_schema_path: t.yaml''\<rparr>,
      \<lparr>ln_number = 24, ln_indent = 2, ln_text = ''fixtures_repository: ctx''\<rparr>,
      \<lparr>ln_number = 25, ln_indent = 2, ln_text = ''fixtures_path: f''\<rparr>,
      \<lparr>ln_number = 26, ln_indent = 0, ln_text = ''consumer_profiles:''\<rparr>,
      \<lparr>ln_number = 27, ln_indent = 2, ln_text = ''- main''\<rparr>,
      \<lparr>ln_number = 28, ln_indent = 0, ln_text = ''latency_objectives:''\<rparr>,
      \<lparr>ln_number = 29, ln_indent = 2, ln_text = ''cold_rebuild_max_ms: 50''\<rparr>,
      \<lparr>ln_number = 30, ln_indent = 2, ln_text = ''warm_activation_p95_max_ms: 60''\<rparr>]"
  unfolding tracked_lines_def sample_core_text_def
  by (subst pieces_text_lines, simp, simp add: track_line_def is_indent_def is_tail_space_def Let_def)

lemmas core_line_defs = core_line_def core_top_def core_corpus_line_def core_capability_line_def core_registry_line_def
  split_key_def list_item_def unquote_def quoted_by_def parse_u64_def close_repo_def close_capability_def
  set_number_def set_registry_def is_digit_def decimal_def Let_def

definition sample_core :: cognition_core where
  "sample_core =
     \<lparr>cc_schema_version = 1, cc_corpus = [(''ctx'', [''docs'', ''a#b'']), (''rt'', [''include''])],
      cc_capabilities = [(''ctx'', ''cap.md'')], cc_compact_core_max_bytes = 10,
      cc_task_payload_max_bytes = 20, cc_inlined_body_max_bytes = 30, cc_supporting_share_max_percent = 40,
      cc_selector_schema_version = 1, cc_activation_policy_path = ''p.yaml'', cc_task_schema_repository = ''ctx'',
      cc_task_schema_path = ''t.yaml'', cc_fixtures_repository = ''ctx'', cc_fixtures_path = ''f'',
      cc_consumer_profiles = [''main''], cc_cold_rebuild_max_ms = 50, cc_warm_activation_p95_max_ms = 60\<rparr>"

lemma sample_core_run:
  "run_lines core_line (tracked_lines sample_core_text) core_start =
     Inr \<lparr>cs_core = sample_core, cs_section = ''latency_objectives'', cs_subsection = [], cs_repo = None,
       cs_capability = None, cs_filter_indent = 6, cs_in_filters = True, cs_close_error = None\<rparr>"
  unfolding sample_core_lines
  by (simp add: core_line_defs core_start_def no_core_def sample_core_def)

lemma sample_core_parses: "parse_cognition_core sample_core_text = Inr sample_core"
proof -
  have len: "length sample_core_text \<le> max_activation_policy_bytes"
    by (simp add: sample_core_text_def text_lines_def max_activation_policy_bytes_def)
  have "core_complete sample_core" by (simp add: core_complete_def sample_core_def)
  then show ?thesis
    using len by (simp add: parse_cognition_core_def sample_core_run Let_def close_repo_def close_capability_def)
qed

theorem parsed_core_sound_witness:
  "parse_cognition_core sample_core_text = Inr sample_core \<and> core_complete sample_core \<and>
   declared corpus_entry [] (tracked_lines sample_core_text) = 2"
  using parsed_core_sound [OF sample_core_parses] sample_core_parses by (simp add: sample_core_def)

lemma sample_policy_parses:
  "parse_activation_policy sample_policy_text = Inr \<lparr>ap_schema_version = 1, ap_rules = [sample_rule]\<rparr>"
proof -
  have len: "length sample_policy_text \<le> max_activation_policy_bytes"
    by (simp add: sample_policy_text_def text_lines_def max_activation_policy_bytes_def)
  have "rule_complete sample_rule"
    by (simp add: rule_complete_def sample_rule_def rule_id_char_def is_upper_def is_digit_def)
  then have "check_rule sample_rule = None" by (simp add: check_rule_None)
  then show ?thesis
    using len by (simp add: parse_activation_policy_def sample_policy_run Let_def close_rule_def
        max_activation_policy_rules_def)
qed

theorem parsed_policy_typed_witness:
  "parse_activation_policy sample_policy_text = Inr \<lparr>ap_schema_version = 1, ap_rules = [sample_rule]\<rparr> \<and>
   rule_complete sample_rule \<and> rule_in_vocabulary sample_rule"
  using parsed_policy_typed [OF sample_policy_parses] sample_policy_parses by simp

end
