(* ===== verification/Context_Receipt.thy ===== *)
theory Context_Receipt
  imports Task_Descriptor Auth
begin

text \<open>
  Context activation receipts, \<^verbatim>\<open>cognition/activation_receipt.hpp/.cpp\<close>: the canonical payload and its identifier,
  issuing, verification against the current facts, and the sidecar journal that persists a receipt and
  rehydrates it from the stored payload.  SQLite is a parameter, the record \<open>receipt_table\<close>, with the
  behaviour the journal relies on in the locale \<open>receipt_table_laws\<close>.
\<close>

section \<open>Receipts\<close>

record receipt_facts =
  cf_task_digest :: string
  cf_bundle_id :: string
  cf_runtime_generation_id :: string
  cf_activation_generation :: string
  cf_external_source_lock_sha256 :: string
  cf_activation_policy_sha256 :: string
  cf_budget_bytes :: u64
  cf_consumer_profile :: string
  cf_evidence_expires_ms :: u64

record context_receipt =
  cr_facts :: receipt_facts
  cr_receipt_id :: string
  cr_issued_at_ms :: u64
  cr_nonce_hex :: string
  cr_workspace_generation :: string

datatype receipt_error = Receipt_Invalid | Receipt_Persistence | Receipt_Unknown

datatype receipt_verify =
    Verify_Valid | TaskChanged | BundleChanged | GenerationChanged | SourceLockChanged | PolicyChanged
  | BudgetChanged | ProfileChanged | EvidenceExpired | IdMismatch

definition blank_char :: "char \<Rightarrow> string" where
  "blank_char c =
     (if c = quote \<or> c = backslash then [backslash] else []) @ (if 32 \<le> byte_of c then [c] else '' '')"

definition blank_escape :: "string \<Rightarrow> string" where
  "blank_escape s = quote # concat (map blank_char s) @ [quote]"

definition json_key :: "string \<Rightarrow> string" where
  "json_key k = quote # k @ [quote, CHR '':'']"

definition receipt_json :: "receipt_facts \<Rightarrow> string" where
  "receipt_json f =
     ''{'' @ json_key ''schema'' @ quote # ''qiven-context-activation-receipt-v1'' @ [quote]
     @ '','' @ json_key ''task_digest'' @ blank_escape (cf_task_digest f)
     @ '','' @ json_key ''bundle_id'' @ blank_escape (cf_bundle_id f)
     @ '','' @ json_key ''runtime_generation'' @ blank_escape (cf_runtime_generation_id f)
     @ '','' @ json_key ''activation_generation'' @ blank_escape (cf_activation_generation f)
     @ '','' @ json_key ''external_source_lock_sha256'' @ blank_escape (cf_external_source_lock_sha256 f)
     @ '','' @ json_key ''activation_policy_sha256'' @ blank_escape (cf_activation_policy_sha256 f)
     @ '','' @ json_key ''budget'' @ to_string_u64 (cf_budget_bytes f)
     @ '','' @ json_key ''consumer_profile'' @ blank_escape (cf_consumer_profile f)
     @ '','' @ json_key ''evidence_expires_ms'' @ to_string_u64 (cf_evidence_expires_ms f)
     @ ''}''"

definition compute_id :: "foundation \<Rightarrow> context_receipt \<Rightarrow> string" where
  "compute_id F r = sha256_hex F (receipt_json (cr_facts r))"

text \<open>The random device is the list of words the nonce is drawn from.\<close>

definition issue_receipt :: "foundation \<Rightarrow> u32 list \<Rightarrow> receipt_facts \<Rightarrow> u64 \<Rightarrow> context_receipt" where
  "issue_receipt F device facts now =
     \<lparr>cr_facts = facts, cr_receipt_id = sha256_hex F (receipt_json facts), cr_issued_at_ms = now,
      cr_nonce_hex = hex_of (fst (csrandom_fill 32 device)), cr_workspace_generation = []\<rparr>"

definition verify_receipt :: "foundation \<Rightarrow> context_receipt \<Rightarrow> receipt_facts \<Rightarrow> u64 \<Rightarrow> receipt_verify" where
  "verify_receipt F r current now =
     (let f = cr_facts r in
      if cr_receipt_id r \<noteq> compute_id F r then IdMismatch
      else if cf_task_digest f \<noteq> cf_task_digest current then TaskChanged
      else if cf_bundle_id f \<noteq> cf_bundle_id current then BundleChanged
      else if cf_runtime_generation_id f \<noteq> cf_runtime_generation_id current \<or>
              cf_activation_generation f \<noteq> cf_activation_generation current then GenerationChanged
      else if cf_external_source_lock_sha256 f \<noteq> cf_external_source_lock_sha256 current then SourceLockChanged
      else if cf_activation_policy_sha256 f \<noteq> cf_activation_policy_sha256 current then PolicyChanged
      else if cf_budget_bytes f \<noteq> cf_budget_bytes current then BudgetChanged
      else if cf_consumer_profile f \<noteq> cf_consumer_profile current then ProfileChanged
      else if cf_evidence_expires_ms f \<noteq> 0 \<and> cf_evidence_expires_ms f < now then EvidenceExpired
      else Verify_Valid)"

section \<open>The sidecar journal\<close>

record receipt_row =
  rr_facts_json :: string
  rr_issued_at_ms :: u64
  rr_nonce_hex :: string
  rr_workspace_generation :: "string option"

text \<open>
  What the journal asks of SQLite: opening for writing with creation of the table, the check for and the addition
  of the provenance column, the insertion that leaves an existing row alone, existence of the file, opening for
  reading, and the two forms of the query.  \<open>None\<close> is a failed call; a query returns at most one row.
\<close>

record 'db receipt_table =
  rt_open_table :: "'db \<Rightarrow> 'db option"
  rt_has_provenance :: "'db \<Rightarrow> bool"
  rt_add_provenance :: "'db \<Rightarrow> 'db option"
  rt_insert_or_ignore :: "string \<Rightarrow> receipt_row \<Rightarrow> 'db \<Rightarrow> 'db option"
  rt_file_exists :: "'db \<Rightarrow> bool"
  rt_open_read :: "'db \<Rightarrow> bool"
  rt_select :: "'db \<Rightarrow> (string \<Rightarrow> receipt_row option option) option"
  rt_select_legacy :: "'db \<Rightarrow> (string \<Rightarrow> receipt_row option option) option"

definition row_of :: "context_receipt \<Rightarrow> receipt_row" where
  "row_of r =
     \<lparr>rr_facts_json = c_text (receipt_json (cr_facts r)), rr_issued_at_ms = cr_issued_at_ms r,
      rr_nonce_hex = c_text (cr_nonce_hex r), rr_workspace_generation = Some (c_text (cr_workspace_generation r))\<rparr>"

definition persist :: "'db receipt_table \<Rightarrow> context_receipt \<Rightarrow> 'db \<Rightarrow> receipt_error + 'db" where
  "persist T r db =
     (case rt_open_table T db of
        None \<Rightarrow> Inl Receipt_Persistence
      | Some db1 \<Rightarrow>
          (case (if rt_has_provenance T db1 then Some db1 else rt_add_provenance T db1) of
             None \<Rightarrow> Inl Receipt_Persistence
           | Some db2 \<Rightarrow>
               (case rt_insert_or_ignore T (c_text (cr_receipt_id r)) (row_of r) db2 of
                  None \<Rightarrow> Inl Receipt_Persistence
                | Some db3 \<Rightarrow> Inr db3)))"

definition json_field :: "string \<Rightarrow> string \<Rightarrow> string" where
  "json_field json key =
     (let needle = json_key key @ [quote] in
      case str_find needle json of
        None \<Rightarrow> []
      | Some at \<Rightarrow>
          let rest = drop (at + length needle) json in
          if quote \<in> set rest then takeWhile (\<lambda>c. c \<noteq> quote) rest else [])"

text \<open>\<^verbatim>\<open>strtoull\<close> in base ten: white space, a sign, digits; too large a number saturates.\<close>

definition is_space :: "char \<Rightarrow> bool" where
  "is_space c \<longleftrightarrow> c = CHR '' '' \<or> 9 \<le> byte_of c \<and> byte_of c \<le> 13"

definition strtoull :: "string \<Rightarrow> u64" where
  "strtoull s =
     (let t = dropWhile is_space s;
          negative = (t \<noteq> [] \<and> hd t = CHR ''-'');
          u = (if t \<noteq> [] \<and> (hd t = CHR ''-'' \<or> hd t = CHR ''+'') then tl t else t);
          n = decimal (takeWhile is_digit u) in
      if 2 ^ 64 \<le> n then - 1 else if negative then - of_nat n else of_nat n)"

definition json_number :: "string \<Rightarrow> string \<Rightarrow> u64" where
  "json_number json key =
     (case str_find (json_key key) json of
        None \<Rightarrow> 0
      | Some at \<Rightarrow> strtoull (drop (at + length (json_key key)) json))"

definition rehydrate :: "string \<Rightarrow> receipt_facts" where
  "rehydrate json =
     \<lparr>cf_task_digest = json_field json ''task_digest'', cf_bundle_id = json_field json ''bundle_id'',
      cf_runtime_generation_id = json_field json ''runtime_generation'',
      cf_activation_generation = json_field json ''activation_generation'',
      cf_external_source_lock_sha256 = json_field json ''external_source_lock_sha256'',
      cf_activation_policy_sha256 = json_field json ''activation_policy_sha256'',
      cf_budget_bytes = json_number json ''budget'', cf_consumer_profile = json_field json ''consumer_profile'',
      cf_evidence_expires_ms = json_number json ''evidence_expires_ms''\<rparr>"

definition load ::
    "foundation \<Rightarrow> 'db receipt_table \<Rightarrow> string \<Rightarrow> 'db \<Rightarrow> receipt_error + context_receipt option" where
  "load F T receipt_id db =
     (if \<not> rt_file_exists T db then Inr None
      else if \<not> rt_open_read T db then Inl Receipt_Persistence
      else
        let provenance = rt_select T db \<noteq> None in
        case (if provenance then rt_select T db else rt_select_legacy T db) of
          None \<Rightarrow> Inl Receipt_Persistence
        | Some query \<Rightarrow>
            (case query (c_text receipt_id) of
               None \<Rightarrow> Inl Receipt_Persistence
             | Some None \<Rightarrow> Inr None
             | Some (Some row) \<Rightarrow>
                 let r = \<lparr>cr_facts = rehydrate (rr_facts_json row), cr_receipt_id = receipt_id,
                          cr_issued_at_ms = rr_issued_at_ms row, cr_nonce_hex = rr_nonce_hex row,
                          cr_workspace_generation =
                            (if provenance then case rr_workspace_generation row of None \<Rightarrow> [] | Some w \<Rightarrow> w else [])\<rparr> in
                 if compute_id F r \<noteq> receipt_id then Inl Receipt_Invalid else Inr (Some r)))"

section \<open>Verification\<close>

text \<open>
  A receipt verifies exactly when its identifier is the digest of its own facts, every bound fact equals the
  current one, and its evidence bound, if it has one, has not passed.
\<close>

theorem verify_receipt_iff:
  "verify_receipt F r current now = Verify_Valid \<longleftrightarrow>
     cr_receipt_id r = sha256_hex F (receipt_json (cr_facts r)) \<and>
     (cr_facts r)\<lparr>cf_evidence_expires_ms := 0\<rparr> = current\<lparr>cf_evidence_expires_ms := 0\<rparr> \<and>
     (cf_evidence_expires_ms (cr_facts r) = 0 \<or> now \<le> cf_evidence_expires_ms (cr_facts r))"
proof (cases "cr_facts r"; cases current)
  fix t b g a l p n c x t' b' g' a' l' p' n' c' x'
  assume "cr_facts r = \<lparr>cf_task_digest = t, cf_bundle_id = b, cf_runtime_generation_id = g,
      cf_activation_generation = a, cf_external_source_lock_sha256 = l, cf_activation_policy_sha256 = p,
      cf_budget_bytes = n, cf_consumer_profile = c, cf_evidence_expires_ms = x\<rparr>"
    "current = \<lparr>cf_task_digest = t', cf_bundle_id = b', cf_runtime_generation_id = g',
      cf_activation_generation = a', cf_external_source_lock_sha256 = l', cf_activation_policy_sha256 = p',
      cf_budget_bytes = n', cf_consumer_profile = c', cf_evidence_expires_ms = x'\<rparr>"
  then show ?thesis by (auto simp: verify_receipt_def compute_id_def Let_def)
qed

text \<open>
  The payload does not tell control characters from a space: two consumer profiles that differ there have one
  identifier.
\<close>

lemma receipt_id_blind_to_controls:
  "receipt_json (f\<lparr>cf_consumer_profile := [CHR 0x0A]\<rparr>) = receipt_json (f\<lparr>cf_consumer_profile := '' ''\<rparr>)"
  by (simp add: receipt_json_def blank_escape_def blank_char_def)

section \<open>Reading a payload back\<close>

text \<open>What follows the first occurrence of a pattern.\<close>

definition after :: "string \<Rightarrow> string \<Rightarrow> string option" where
  "after p s = map_option (\<lambda>i. drop (i + length p) s) (str_find p s)"

lemma after_Cons: "c \<noteq> d \<Longrightarrow> after (c # p) (d # s) = after (c # p) s"
  by (simp add: after_def option.map_comp comp_def)

lemma after_pass: "c \<notin> set a \<Longrightarrow> after (c # p) (a @ s) = after (c # p) s"
  by (induction a) (auto simp: after_Cons)

lemma after_skip: "c \<notin> set a \<Longrightarrow> \<not> starts_with s p \<Longrightarrow> after (c # p) (a @ c # s) = after (c # p) s"
  by (simp add: after_pass) (simp add: after_def starts_with_def option.map_comp comp_def)

lemma after_hit: "c \<notin> set a \<Longrightarrow> after (c # p) (a @ c # p @ s) = Some s"
  by (simp add: after_pass) (simp add: after_def)

lemma starts_with_Cons: "starts_with (c # s) (d # p) \<longleftrightarrow> c = d \<and> starts_with s p"
  by (simp add: starts_with_def)

lemma starts_with_marked:
  "c \<notin> set a \<Longrightarrow> c \<notin> set k \<Longrightarrow> starts_with (a @ c # x) (k @ c # y) \<longleftrightarrow> a = k \<and> starts_with x y"
proof (induction a arbitrary: k)
  case Nil
  then show ?case by (cases k) (auto simp: starts_with_def)
next
  case (Cons b a)
  then show ?case by (cases k) (auto simp: starts_with_def)
qed

text \<open>A flat object: string values without quotes and numbers, each member after a comma.\<close>

fun value_text :: "string + u64 \<Rightarrow> string" where
  "value_text (Inl s) = quote # s @ [quote]"
| "value_text (Inr n) = to_string_u64 n"

definition members_text :: "(string \<times> (string + u64)) list \<Rightarrow> string" where
  "members_text ms = concat (map (\<lambda>(k, v). CHR '','' # json_key k @ value_text v) ms)"

definition key_ok :: "string \<Rightarrow> bool" where
  "key_ok k \<longleftrightarrow> quote \<notin> set k \<and> k \<noteq> [] \<and> hd k \<noteq> CHR '':'' \<and> hd k \<noteq> CHR '','' \<and> hd k \<noteq> CHR ''}''"

definition value_ok :: "string + u64 \<Rightarrow> bool" where
  "value_ok v \<longleftrightarrow> (case v of Inl s \<Rightarrow> quote \<notin> set s | Inr n \<Rightarrow> True)"

lemma to_string_u64_no_quote: "quote \<notin> set (to_string_u64 n)"
  using digits_of_decimal [of "unat n"] digit_neq by (auto simp: to_string_u64_def list_all_iff)

lemma members_text_Cons [simp]:
  "members_text ((k, v) # ms) = CHR '','' # json_key k @ value_text v @ members_text ms"
  "members_text [] = []"
  by (simp_all add: members_text_def)

lemma members_text_stop: "\<exists>c z. members_text ms @ ''}'' = c # z \<and> (c = CHR '','' \<or> c = CHR ''}'')"
  by (cases ms) auto

lemma key_not_mark:
  "key_ok k \<Longrightarrow> c = CHR '':'' \<or> c = CHR '','' \<or> c = CHR ''}'' \<Longrightarrow> \<not> starts_with (c # z) (k @ y)"
  by (cases k) (auto simp: key_ok_def starts_with_def)

text \<open>A member with another key is passed over, whatever its value says.\<close>

lemma after_other_member:
  assumes "key_ok k" "key_ok k'" "k \<noteq> k'" "value_ok v" "quote \<notin> set pre"
  shows "\<exists>pre'. quote \<notin> set pre' \<and>
    after (json_key k @ q) (pre @ members_text ((k', v) # ms) @ ''}'') = after (json_key k @ q) (pre' @ members_text ms @ ''}'')"
proof -
  let ?p = "k @ quote # CHR '':'' # q" and ?rest = "members_text ms @ ''}''"
  have kq: "quote \<notin> set k" "quote \<notin> set k'" using assms(1,2) by (auto simp: key_ok_def)
  have needle: "json_key k @ q = quote # ?p" by (simp add: json_key_def)
  have "after (quote # ?p) (pre @ members_text ((k', v) # ms) @ ''}'') =
      after (quote # ?p) ((pre @ '','') @ quote # k' @ quote # CHR '':'' # value_text v @ ?rest)"
    by (simp add: json_key_def)
  also have "\<dots> = after (quote # ?p) (k' @ quote # CHR '':'' # value_text v @ ?rest)"
    using assms(3,5) kq by (intro after_skip) (auto simp: starts_with_marked)
  also have "\<dots> = after (quote # ?p) (CHR '':'' # value_text v @ ?rest)"
    using kq key_not_mark [OF assms(1)] by (intro after_skip) auto
  finally have a: "after (quote # ?p) (pre @ members_text ((k', v) # ms) @ ''}'') =
      after (quote # ?p) (CHR '':'' # value_text v @ ?rest)" .
  show ?thesis
  proof (cases v)
    case (Inl s)
    obtain c z where c: "?rest = c # z" "c = CHR '','' \<or> c = CHR ''}''" using members_text_stop by blast
    have s: "quote \<notin> set s" using assms(4) Inl by (simp add: value_ok_def)
    have "after (quote # ?p) (CHR '':'' # value_text v @ ?rest) = after (quote # ?p) ('':'' @ quote # s @ quote # c # z)"
      using Inl c(1) by simp
    also have "\<dots> = after (quote # ?p) (s @ quote # c # z)"
      using s kq c(2) by (intro after_skip) (auto simp: starts_with_marked starts_with_Cons)
    also have "\<dots> = after (quote # ?p) (c # z)"
      using s key_not_mark [OF assms(1)] c(2) by (intro after_skip) auto
    finally show ?thesis using a c(1) needle by (intro exI [of _ "[]"]) simp
  next
    case (Inr n)
    then show ?thesis
      using a needle to_string_u64_no_quote [of n] by (intro exI [of _ "CHR '':'' # to_string_u64 n"]) simp
  qed
qed

lemma after_member:
  assumes "(k, v) \<in> set ms" "distinct (map fst ms)" "\<forall>m \<in> set ms. key_ok (fst m) \<and> value_ok (snd m)"
    and "quote \<notin> set pre" "q = [] \<or> q = [quote] \<and> isl v"
  shows "\<exists>z. stop z \<and> z \<noteq> [] \<and>
    after (json_key k @ q) (pre @ members_text ms @ ''}'') = Some (drop (length q) (value_text v @ z))"
  using assms(1-4)
proof (induction ms arbitrary: pre)
  case (Cons m ms)
  obtain k' v' where m: "m = (k', v')" by fastforce
  show ?case
  proof (cases "k' = k")
    case True
    then have v: "v' = v" using Cons.prems(1,2) m by force
    obtain c z where c: "members_text ms @ ''}'' = c # z" "c = CHR '','' \<or> c = CHR ''}''"
      using members_text_stop by blast
    have q: "value_text v @ c # z = q @ drop (length q) (value_text v @ c # z)"
      using assms(5) by (cases v) auto
    have "after (json_key k @ q) (pre @ members_text (m # ms) @ ''}'') =
        after (quote # k @ quote # CHR '':'' # q)
          ((pre @ '','') @ quote # (k @ quote # CHR '':'' # q) @ drop (length q) (value_text v @ c # z))"
      using m True v c(1) q by (simp add: json_key_def)
    also have "\<dots> = Some (drop (length q) (value_text v @ c # z))"
      using after_hit [of quote "pre @ '',''" "k @ quote # CHR '':'' # q"] Cons.prems(4) by simp
    finally show ?thesis using c(2) by (intro exI [of _ "c # z"]) (auto simp: stop_def)
  next
    case False
    have prem: "(k, v) \<in> set ms" "distinct (map fst ms)" "\<forall>m \<in> set ms. key_ok (fst m) \<and> value_ok (snd m)"
      using Cons.prems m False by auto
    then have "key_ok k" "key_ok k'" "value_ok v'" using Cons.prems(3) m by auto
    then obtain pre' where "quote \<notin> set pre'" "after (json_key k @ q) (pre @ members_text (m # ms) @ ''}'') =
        after (json_key k @ q) (pre' @ members_text ms @ ''}'')"
      using after_other_member [of k k' v' pre q ms] False Cons.prems(4) m by auto
    then show ?thesis using Cons.IH [OF prem] by simp
  qed
qed simp

lemma json_field_after:
  "json_field json k =
     (case after (json_key k @ [quote]) json of
        None \<Rightarrow> [] | Some rest \<Rightarrow> if quote \<in> set rest then takeWhile (\<lambda>c. c \<noteq> quote) rest else [])"
  by (auto simp: json_field_def after_def Let_def split: option.splits)

lemma json_number_after:
  "json_number json k = (case after (json_key k) json of None \<Rightarrow> 0 | Some rest \<Rightarrow> strtoull rest)"
  by (auto simp: json_number_def after_def split: option.splits)

lemma strtoull_written:
  assumes "stop z"
  shows "strtoull (to_string_u64 n @ z) = n"
proof -
  have d: "list_all is_digit (to_string_u64 n)" "decimal (to_string_u64 n) = unat n"
    using digits_of_decimal [of "unat n"] by (simp_all add: to_string_u64_def)
  obtain c cs where c: "to_string_u64 n = c # cs" "is_digit c" using to_string_u64_head by blast
  then have "\<not> is_space c" "c \<noteq> CHR ''-''" "c \<noteq> CHR ''+''" by (auto simp: is_space_def is_digit_def)
  moreover have "takeWhile is_digit (to_string_u64 n @ z) = to_string_u64 n"
    using takeWhile_all_stop [OF d(1), of z] assms by (auto simp: stop_def is_digit_def)
  moreover have "\<not> 2 ^ 64 \<le> unat n" using unsigned_less [of n, where ?'a = nat] by simp
  ultimately show ?thesis using d(2) c(1) by (simp add: strtoull_def Let_def)
qed

text \<open>Facts whose texts are written verbatim: printable, without quotes and backslashes.\<close>

definition plain_text :: "string \<Rightarrow> bool" where
  "plain_text s \<longleftrightarrow> list_all (\<lambda>c. 32 \<le> byte_of c \<and> c \<noteq> quote \<and> c \<noteq> backslash) s"

definition plain_facts :: "receipt_facts \<Rightarrow> bool" where
  "plain_facts f \<longleftrightarrow>
     list_all plain_text [cf_task_digest f, cf_bundle_id f, cf_runtime_generation_id f, cf_activation_generation f,
       cf_external_source_lock_sha256 f, cf_activation_policy_sha256 f, cf_consumer_profile f]"

lemma blank_escape_plain: "plain_text s \<Longrightarrow> blank_escape s = value_text (Inl s) \<and> quote \<notin> set s"
  unfolding plain_text_def blank_escape_def by (induction s) (auto simp: blank_char_def)

definition receipt_members :: "receipt_facts \<Rightarrow> (string \<times> (string + u64)) list" where
  "receipt_members f =
     [(''schema'', Inl ''qiven-context-activation-receipt-v1''), (''task_digest'', Inl (cf_task_digest f)),
      (''bundle_id'', Inl (cf_bundle_id f)), (''runtime_generation'', Inl (cf_runtime_generation_id f)),
      (''activation_generation'', Inl (cf_activation_generation f)),
      (''external_source_lock_sha256'', Inl (cf_external_source_lock_sha256 f)),
      (''activation_policy_sha256'', Inl (cf_activation_policy_sha256 f)), (''budget'', Inr (cf_budget_bytes f)),
      (''consumer_profile'', Inl (cf_consumer_profile f)),
      (''evidence_expires_ms'', Inr (cf_evidence_expires_ms f))]"

lemma receipt_json_members:
  assumes "plain_facts f"
  shows "after (quote # p) (receipt_json f) = after (quote # p) (members_text (receipt_members f) @ ''}'')"
proof -
  have "\<exists>x. receipt_json f = CHR ''{'' # x \<and> members_text (receipt_members f) @ ''}'' = CHR '','' # x"
    using assms by (simp add: receipt_json_def receipt_members_def plain_facts_def blank_escape_plain)
  then show ?thesis by (auto simp: after_Cons)
qed

lemma receipt_members_ok:
  assumes "plain_facts f"
  shows "distinct (map fst (receipt_members f))" "\<forall>m \<in> set (receipt_members f). key_ok (fst m) \<and> value_ok (snd m)"
  using assms blank_escape_plain
  by (simp_all add: receipt_members_def key_ok_def value_ok_def plain_facts_def)

lemma receipt_field:
  assumes "plain_facts f" "(k, Inl s) \<in> set (receipt_members f)"
  shows "json_field (receipt_json f) k = s"
proof -
  have "value_ok (Inl s)" using receipt_members_ok(2) [OF assms(1)] assms(2) by force
  then have s: "quote \<notin> set s" by (simp add: value_ok_def)
  obtain z where "after (json_key k @ [quote]) (receipt_json f) = Some (s @ quote # z)"
    using after_member [OF assms(2) receipt_members_ok [OF assms(1)], of "[]" "[quote]"] receipt_json_members [OF assms(1)]
    by (auto simp: json_key_def)
  then show ?thesis using s by (simp add: json_field_after takeWhile_append_stop) (auto simp: takeWhile_eq_all_conv)
qed

lemma receipt_number:
  assumes "plain_facts f" "(k, Inr n) \<in> set (receipt_members f)"
  shows "json_number (receipt_json f) k = n"
proof -
  obtain z where "stop z" "after (json_key k) (receipt_json f) = Some (to_string_u64 n @ z)"
    using after_member [OF assms(2) receipt_members_ok [OF assms(1)], of "[]" "[]"] receipt_json_members [OF assms(1)]
    by (auto simp: json_key_def)
  then show ?thesis by (simp add: json_number_after strtoull_written)
qed

lemma rehydrate_payload: "plain_facts f \<Longrightarrow> rehydrate (receipt_json f) = f"
  by (simp add: rehydrate_def receipt_field receipt_number receipt_members_def)

section \<open>What the journal relies on\<close>

text \<open>
  The rows of the table, and the effect of each statement on them: creating the table and adding the column keep
  the rows, the latter with the column's default; an insertion adds a row or leaves the one with that key alone;
  a query that names existing columns can be prepared, and when it answers it returns the row.
\<close>

locale receipt_table_laws =
  fixes T :: "'db receipt_table" and rows :: "'db \<Rightarrow> string \<Rightarrow> receipt_row option"
  assumes open_rows: "rt_open_table T db = Some db' \<Longrightarrow> rows db' = rows db"
    and add_rows: "rt_add_provenance T db = Some db' \<Longrightarrow>
      rt_has_provenance T db' \<and> rows db' = (\<lambda>i. map_option (rr_workspace_generation_update (\<lambda>_. Some [])) (rows db i))"
    and insert_rows: "rt_has_provenance T db \<Longrightarrow> rt_insert_or_ignore T i row db = Some db' \<Longrightarrow>
      rt_has_provenance T db' \<and> rt_file_exists T db' \<and>
      rows db' = (if rows db i = None then (rows db)(i := Some row) else rows db)"
    and select_prepared: "rt_has_provenance T db \<Longrightarrow> rt_select T db \<noteq> None"
    and select_rows: "rt_has_provenance T db \<Longrightarrow> rt_select T db = Some query \<Longrightarrow> query i = Some found \<Longrightarrow> found = rows db i"
begin

lemma persist_rows:
  assumes "persist T r db = Inr db'"
  shows "rt_has_provenance T db' \<and> rt_file_exists T db' \<and>
    (rows db (c_text (cr_receipt_id r)) = None \<longrightarrow> rows db' (c_text (cr_receipt_id r)) = Some (row_of r)) \<and>
    (\<forall>i row. rows db i = Some row \<longrightarrow> (\<exists>w. rows db' i = Some (row\<lparr>rr_workspace_generation := w\<rparr>)))"
proof -
  obtain db1 db2 where o: "rt_open_table T db = Some db1"
    and p: "(if rt_has_provenance T db1 then Some db1 else rt_add_provenance T db1) = Some db2"
    and i: "rt_insert_or_ignore T (c_text (cr_receipt_id r)) (row_of r) db2 = Some db'"
    using assms by (auto simp: persist_def split: option.split_asm)
  have r1: "rows db1 = rows db" by (rule open_rows [OF o])
  have r2: "rt_has_provenance T db2 \<and> (\<forall>i. rows db2 i = None \<longleftrightarrow> rows db i = None) \<and>
      (\<forall>i row. rows db i = Some row \<longrightarrow> (\<exists>w. rows db2 i = Some (row\<lparr>rr_workspace_generation := w\<rparr>)))"
  proof (cases "rt_has_provenance T db1")
    case True
    have "row = row\<lparr>rr_workspace_generation := rr_workspace_generation row\<rparr>" for row :: receipt_row by simp
    then show ?thesis using True p r1 by (metis option.inject)
  next
    case False
    then show ?thesis using p add_rows [of db1 db2] r1 by auto
  qed
  then show ?thesis using insert_rows [OF _ i] by (auto split: if_splits)
qed

lemma load_persisted:
  assumes "persist T r db = Inr db'" "rows db (cr_receipt_id r) = None" "plain_facts (cr_facts r)"
    and "c_text (cr_receipt_id r) = cr_receipt_id r" "c_text (cr_nonce_hex r) = cr_nonce_hex r"
    and "c_text (cr_workspace_generation r) = cr_workspace_generation r"
    and "c_text (receipt_json (cr_facts r)) = receipt_json (cr_facts r)" "cr_receipt_id r = compute_id F r"
  shows "load F T (cr_receipt_id r) db' \<in> {Inl Receipt_Persistence, Inr (Some r)}"
proof -
  have p: "rt_has_provenance T db'" "rt_file_exists T db'" "rows db' (cr_receipt_id r) = Some (row_of r)"
    using persist_rows [OF assms(1)] assms(2,4) by auto
  then obtain query where q: "rt_select T db' = Some query" using select_prepared by auto
  have r: "\<lparr>cr_facts = rehydrate (rr_facts_json (row_of r)), cr_receipt_id = cr_receipt_id r,
      cr_issued_at_ms = rr_issued_at_ms (row_of r), cr_nonce_hex = rr_nonce_hex (row_of r),
      cr_workspace_generation = (case rr_workspace_generation (row_of r) of None \<Rightarrow> [] | Some w \<Rightarrow> w)\<rparr> = r"
    using assms(3,5-7) rehydrate_payload by (simp add: row_of_def)
  show ?thesis
  proof (cases "query (cr_receipt_id r)")
    case (Some row)
    then have "row = Some (row_of r)" using select_rows [OF p(1) q] p(3) by simp
    then show ?thesis using Some p(2) q r assms(4,8) by (simp add: load_def Let_def)
  qed (use p(2) q assms(4) in \<open>simp add: load_def Let_def\<close>)
qed

end

text \<open>A concrete table: no file, or its rows with the flag for the provenance column.\<close>

type_synonym ref_receipts = "(bool \<times> (string \<Rightarrow> receipt_row option)) option"

definition ref_receipt_table :: "ref_receipts receipt_table" where
  "ref_receipt_table =
     \<lparr>rt_open_table = (\<lambda>db. Some (Some (case db of None \<Rightarrow> (False, \<lambda>_. None) | Some t \<Rightarrow> t))),
      rt_has_provenance = (\<lambda>db. case db of None \<Rightarrow> False | Some (p, _) \<Rightarrow> p),
      rt_add_provenance = (\<lambda>db. case db of None \<Rightarrow> None
        | Some (_, t) \<Rightarrow> Some (Some (True, \<lambda>i. map_option (rr_workspace_generation_update (\<lambda>_. Some [])) (t i)))),
      rt_insert_or_ignore = (\<lambda>i row db. case db of None \<Rightarrow> None
        | Some (p, t) \<Rightarrow> Some (Some (p, if t i = None then t(i := Some row) else t))),
      rt_file_exists = (\<lambda>db. db \<noteq> None), rt_open_read = (\<lambda>db. db \<noteq> None),
      rt_select = (\<lambda>db. case db of None \<Rightarrow> None | Some (p, t) \<Rightarrow> if p then Some (\<lambda>i. Some (t i)) else None),
      rt_select_legacy = (\<lambda>db. case db of None \<Rightarrow> None | Some (p, t) \<Rightarrow> Some (\<lambda>i. Some (t i)))\<rparr>"

definition ref_rows :: "ref_receipts \<Rightarrow> string \<Rightarrow> receipt_row option" where
  "ref_rows db = (case db of None \<Rightarrow> (\<lambda>_. None) | Some (_, t) \<Rightarrow> t)"

interpretation ref_receipts: receipt_table_laws ref_receipt_table ref_rows
  by unfold_locales (auto simp: ref_receipt_table_def ref_rows_def split: option.splits if_splits)

section \<open>Issue, persist, load, verify\<close>

definition printable :: "string \<Rightarrow> bool" where
  "printable s \<longleftrightarrow> list_all (\<lambda>c. 32 \<le> byte_of c) s"

lemma printable_append [simp]: "printable (a @ b) \<longleftrightarrow> printable a \<and> printable b"
  by (simp add: printable_def)

lemma printable_Cons [simp]: "printable (c # s) \<longleftrightarrow> 32 \<le> byte_of c \<and> printable s" "printable []"
  by (simp_all add: printable_def)

lemma c_text_printable: "printable s \<Longrightarrow> c_text s = s"
proof -
  assume "printable s"
  moreover have "byte_of (CHR 0x00) = 0" by simp
  ultimately show ?thesis by (force simp: c_text_def printable_def list_all_iff takeWhile_eq_all_conv)
qed

lemma printable_hex_of: "printable (hex_of bs)"
proof -
  have "list_all (\<lambda>c. 32 \<le> byte_of c) hex_digits" by (simp add: hex_digits_def)
  then show ?thesis using hex_of_digits [of bs] by (auto simp: printable_def list_all_iff)
qed

lemma plain_printable: "plain_text s \<Longrightarrow> printable s"
  by (auto simp: plain_text_def printable_def list_all_iff)

lemma printable_receipt_json: "plain_facts f \<Longrightarrow> printable (receipt_json f)"
proof -
  assume f: "plain_facts f"
  have "printable (to_string_u64 n)" for n
    using digits_of_decimal [of "unat n"] by (auto simp: to_string_u64_def printable_def list_all_iff is_digit_def)
  then show ?thesis
    using f by (simp add: receipt_json_def json_key_def plain_facts_def blank_escape_plain plain_printable)
qed

text \<open>What is loaded carries the identifier that was asked for, and that is the digest of its facts.\<close>

lemma load_sound:
  "load F T i db = Inr (Some r) \<Longrightarrow> cr_receipt_id r = i \<and> i = sha256_hex F (receipt_json (cr_facts r))"
  by (auto simp: load_def compute_id_def Let_def split: if_split_asm option.split_asm)

text \<open>
  A receipt issued on plain facts and persisted under a new identifier is loaded back unchanged, envelope
  included, unless the database fails to answer; and it verifies against the facts it was issued on until its
  evidence bound passes.  The field-by-field extraction therefore recovers every fact from the stored payload.
\<close>

theorem receipt_journal_roundtrip:
  assumes "receipt_table_laws T rows" "plain_facts facts" "plain_text w"
    and "r = (issue_receipt F device facts now)\<lparr>cr_workspace_generation := w\<rparr>"
    and "persist T r db = Inr db'" "rows db (cr_receipt_id r) = None"
  shows "load F T (cr_receipt_id r) db' \<in> {Inl Receipt_Persistence, Inr (Some r)} \<and>
    (cf_evidence_expires_ms facts = 0 \<or> later \<le> cf_evidence_expires_ms facts \<longleftrightarrow>
       verify_receipt F r facts later = Verify_Valid)"
proof -
  have r: "cr_facts r = facts" "cr_receipt_id r = compute_id F r" "cr_workspace_generation r = w"
    using assms(4) by (simp_all add: issue_receipt_def compute_id_def)
  have c: "c_text (cr_receipt_id r) = cr_receipt_id r" "c_text (cr_nonce_hex r) = cr_nonce_hex r"
    "c_text (cr_workspace_generation r) = cr_workspace_generation r"
    "c_text (receipt_json (cr_facts r)) = receipt_json (cr_facts r)"
    using assms(2,3,4) printable_receipt_json plain_printable
    by (simp_all add: c_text_printable printable_hex_of issue_receipt_def sha256_hex_def)
  have "load F T (cr_receipt_id r) db' \<in> {Inl Receipt_Persistence, Inr (Some r)}"
    using receipt_table_laws.load_persisted [OF assms(1,5,6)] assms(2) r c by metis
  moreover have "verify_receipt F r facts later = Verify_Valid \<longleftrightarrow>
      cf_evidence_expires_ms facts = 0 \<or> later \<le> cf_evidence_expires_ms facts"
    using r by (auto simp: verify_receipt_def Let_def)
  ultimately show ?thesis by blast
qed

definition ex_facts :: receipt_facts where
  "ex_facts = \<lparr>cf_task_digest = ''t'', cf_bundle_id = ''bundle_id'', cf_runtime_generation_id = ''g'',
     cf_activation_generation = ''a'', cf_external_source_lock_sha256 = ''l'', cf_activation_policy_sha256 = ''p'',
     cf_budget_bytes = 4096, cf_consumer_profile = ''c'', cf_evidence_expires_ms = 7\<rparr>"

theorem receipt_journal_roundtrip_witness:
  "\<exists>db r. persist ref_receipt_table r None = Inr db \<and>
     load ref_foundation ref_receipt_table (cr_receipt_id r) db \<in> {Inl Receipt_Persistence, Inr (Some r)} \<and>
     verify_receipt ref_foundation r ex_facts 7 = Verify_Valid"
proof -
  define r where "r = (issue_receipt ref_foundation [] ex_facts 3)\<lparr>cr_workspace_generation := ''w''\<rparr>"
  obtain db where db: "persist ref_receipt_table r None = Inr db"
    by (simp add: persist_def ref_receipt_table_def)
  have "load ref_foundation ref_receipt_table (cr_receipt_id r) db \<in> {Inl Receipt_Persistence, Inr (Some r)} \<and>
    (cf_evidence_expires_ms ex_facts = 0 \<or> (7 :: u64) \<le> cf_evidence_expires_ms ex_facts \<longleftrightarrow>
       verify_receipt ref_foundation r ex_facts 7 = Verify_Valid)"
    by (rule receipt_journal_roundtrip [OF ref_receipts.receipt_table_laws_axioms _ _ r_def db])
      (simp_all add: plain_facts_def plain_text_def ex_facts_def ref_rows_def)
  then show ?thesis using db by (intro exI [of _ db] exI [of _ r]) (simp add: ex_facts_def)
qed

end
