(* ===== verification/Task_Bundle.thy ===== *)
theory Task_Bundle
  imports Activation_Index Activation_Policy Context_Receipt
begin

text \<open>
  Task bundles and the activation service, \<^verbatim>\<open>cognition/task_bundle.hpp/.cpp\<close> and
  \<^verbatim>\<open>cognition/activation_service.hpp/.cpp\<close>: the canonical payload, its size check, the bundle identity, atomic
  publication, and the pipeline that normalises a task, selects rules, publishes the bundle and issues and
  persists the receipt.  The directory \<^verbatim>\<open>task-bundles\<close> is a map from bundle id to the bytes of \<^verbatim>\<open>bundle.json\<close>;
  which I/O steps succeed is an argument.
\<close>

section \<open>The payload\<close>

datatype bundle_error = EmptySelection | BudgetExceeded | CompactCoreExceeded | PublishFault

record bundle_request =
  br_task :: task_descriptor
  br_selection :: selection_result
  br_budgets :: budgets
  br_requested_budget_bytes :: u64
  br_activation_generation :: string
  br_runtime_generation_id :: string
  br_external_source_lock_sha256 :: string
  br_activation_policy_sha256 :: string

record bundle_result =
  bb_bundle_id :: string
  bb_manifest_json :: string
  bb_payload_bytes :: u64
  bb_protected_count :: nat
  bb_candidate_count :: nat

definition joined_controls :: "activation_rule \<Rightarrow> string" where
  "joined_controls r = concat (map (\<lambda>c. c @ [CHR 0x0A]) (ru_expected_controls r))"

definition append_rule :: "activation_rule \<Rightarrow> string" where
  "append_rule r =
     '',{'' @ json_key ''rule_id'' @ blank_escape (ru_id r)
     @ '','' @ json_key ''priority'' @ digits_of (priority_code (ru_priority r))
     @ '','' @ json_key ''source'' @ blank_escape (source_text (ru_source r))
     @ '','' @ json_key ''controls'' @ blank_escape (joined_controls r) @ ''}''"

definition rule_array :: "activation_rule list \<Rightarrow> string" where
  "rule_array rules = ''['' @ comma_join (map append_rule rules) @ '']''"

definition stated_budget :: "bundle_request \<Rightarrow> u64" where
  "stated_budget q =
     (if 0 < br_requested_budget_bytes q then br_requested_budget_bytes q else bg_task_payload_max_bytes (br_budgets q))"

definition bundle_payload :: "bundle_request \<Rightarrow> string" where
  "bundle_payload q =
     ''{'' @ json_key ''schema'' @ quote # ''qiven-task-cognition-bundle-v1'' @ quote
     # '','' @ json_key ''task'' @ canonical_json (br_task q)
     @ '','' @ json_key ''bindings'' @ ''{'' @ json_key ''activation_generation'' @ blank_escape (br_activation_generation q)
     @ '','' @ json_key ''runtime_generation'' @ blank_escape (br_runtime_generation_id q)
     @ '','' @ json_key ''external_source_lock_sha256'' @ blank_escape (br_external_source_lock_sha256 q)
     @ '','' @ json_key ''activation_policy_sha256'' @ blank_escape (br_activation_policy_sha256 q)
     @ '','' @ json_key ''budget'' @ to_string_u64 (stated_budget q) @ ''}''
     @ '','' @ json_key ''protected'' @ rule_array (sr_protected_included (br_selection q))
     @ '','' @ json_key ''unresolved'' @ rule_array (sr_unresolved (br_selection q))
     @ '','' @ json_key ''candidates'' @ rule_array (sr_ranked_candidates (br_selection q)) @ ''}''"

definition resolved_budget :: "bundle_request \<Rightarrow> u64" where
  "resolved_budget q = effective_budget (br_budgets q) (br_requested_budget_bytes q)"

definition bundle_id_of :: "foundation \<Rightarrow> bundle_request \<Rightarrow> string" where
  "bundle_id_of F q =
     sha256_hex F
       (digest_hex F (br_task q) @ ''|'' @ br_activation_generation q @ ''|'' @ br_runtime_generation_id q @ ''|''
        @ br_external_source_lock_sha256 q @ ''|'' @ br_activation_policy_sha256 q @ ''|''
        @ to_string_u64 (resolved_budget q))"

section \<open>Publication\<close>

record bundle_io =
  bi_staged :: bool
  bi_written :: bool
  bi_renamed :: bool

type_synonym bundle_store = "string \<Rightarrow> string option"

definition publish ::
    "foundation \<Rightarrow> bundle_io \<Rightarrow> bundle_request \<Rightarrow> bundle_store \<Rightarrow> (bundle_error + bundle_result) \<times> bundle_store" where
  "publish F io q store =
     (let sel = br_selection q in
      if sr_protected_included sel = [] \<and> sr_ranked_candidates sel = [] \<and> sr_unresolved sel = []
      then (Inl EmptySelection, store)
      else if sr_readiness sel = BudgetInsufficient then (Inl BudgetExceeded, store)
      else
        let payload = bundle_payload q; payload_bytes = of_nat (length payload); bundle_id = bundle_id_of F q in
        if resolved_budget q < payload_bytes then (Inl BudgetExceeded, store)
        else if \<not> bi_staged io \<or> \<not> bi_written io then (Inl PublishFault, store)
        else if store bundle_id = None \<and> \<not> bi_renamed io then (Inl PublishFault, store)
        else
          (Inr \<lparr>bb_bundle_id = bundle_id, bb_manifest_json = payload, bb_payload_bytes = payload_bytes,
                bb_protected_count = length (sr_protected_included sel),
                bb_candidate_count = length (sr_ranked_candidates sel)\<rparr>,
           if store bundle_id = None then store(bundle_id := Some payload) else store))"

section \<open>The activation service\<close>

datatype activation_error =
    BundlePublishFailed | ReceiptPersistFailed | Activation_EmptySelection | Activation_BudgetInsufficient
  | UnknownConsumerProfile

record activation_request =
  aq_envelope :: task_envelope
  aq_core :: cognition_core
  aq_policy :: activation_policy
  aq_activation_generation :: string
  aq_runtime_generation_id :: string
  aq_external_source_lock_sha256 :: string
  aq_activation_policy_sha256 :: string
  aq_consumer_profile :: string
  aq_workspace_generation :: string
  aq_requested_budget_bytes :: u64
  aq_now_ms :: u64

record activation_outcome =
  ao_task :: task_descriptor
  ao_selection :: selection_result
  ao_bundle :: bundle_result
  ao_receipt :: context_receipt

definition core_budgets :: "cognition_core \<Rightarrow> budgets" where
  "core_budgets c =
     \<lparr>bg_compact_core_max_bytes = cc_compact_core_max_bytes c, bg_task_payload_max_bytes = cc_task_payload_max_bytes c,
      bg_inlined_body_max_bytes = cc_inlined_body_max_bytes c,
      bg_supporting_share_max_percent = cc_supporting_share_max_percent c\<rparr>"

definition service_bundle_request :: "activation_request \<Rightarrow> task_descriptor \<Rightarrow> selection_result \<Rightarrow> bundle_request" where
  "service_bundle_request a task sel =
     \<lparr>br_task = task, br_selection = sel, br_budgets = core_budgets (aq_core a),
      br_requested_budget_bytes = aq_requested_budget_bytes a, br_activation_generation = aq_activation_generation a,
      br_runtime_generation_id = aq_runtime_generation_id a,
      br_external_source_lock_sha256 = aq_external_source_lock_sha256 a,
      br_activation_policy_sha256 = aq_activation_policy_sha256 a\<rparr>"

definition receipt_budget :: "activation_request \<Rightarrow> u64" where
  "receipt_budget a =
     (let cap = bg_task_payload_max_bytes (core_budgets (aq_core a)); requested = aq_requested_budget_bytes a in
      if 0 < requested then if requested < cap then requested else cap else cap)"

definition service_facts :: "foundation \<Rightarrow> activation_request \<Rightarrow> task_descriptor \<Rightarrow> string \<Rightarrow> receipt_facts" where
  "service_facts F a task bundle_id =
     \<lparr>cf_task_digest = digest_hex F task, cf_bundle_id = bundle_id,
      cf_runtime_generation_id = aq_runtime_generation_id a, cf_activation_generation = aq_activation_generation a,
      cf_external_source_lock_sha256 = aq_external_source_lock_sha256 a,
      cf_activation_policy_sha256 = aq_activation_policy_sha256 a, cf_budget_bytes = receipt_budget a,
      cf_consumer_profile = aq_consumer_profile a, cf_evidence_expires_ms = 0\<rparr>"

definition activate ::
    "foundation \<Rightarrow> 'db receipt_table \<Rightarrow> bundle_io \<Rightarrow> u32 list \<Rightarrow> activation_request \<Rightarrow> bundle_store \<Rightarrow> 'db
     \<Rightarrow> (activation_error + activation_outcome) \<times> bundle_store \<times> 'db" where
  "activate F T io device a store db =
     (if aq_consumer_profile a \<notin> set (cc_consumer_profiles (aq_core a)) then (Inl UnknownConsumerProfile, store, db)
      else
        let task = normalize_task (aq_envelope a);
            sel = evaluate_selection (aq_policy a) task (core_budgets (aq_core a)) (aq_requested_budget_bytes a) in
        if sr_readiness sel = BudgetInsufficient then (Inl Activation_BudgetInsufficient, store, db)
        else if sr_protected_included sel = [] \<and> sr_unresolved sel = [] \<and> sr_ranked_candidates sel = []
        then (Inl Activation_EmptySelection, store, db)
        else case publish F io (service_bundle_request a task sel) store of
          (Inl e, store') \<Rightarrow> (Inl BundlePublishFailed, store', db)
        | (Inr bundle, store') \<Rightarrow>
            let receipt = (issue_receipt F device (service_facts F a task (bb_bundle_id bundle)) (aq_now_ms a))
                            \<lparr>cr_workspace_generation := aq_workspace_generation a\<rparr> in
            case persist T receipt db of
              Inl e \<Rightarrow> (Inl ReceiptPersistFailed, store', db)
            | Inr db' \<Rightarrow>
                (Inr \<lparr>ao_task = task, ao_selection = sel, ao_bundle = bundle, ao_receipt = receipt\<rparr>, store', db'))"

section \<open>What is published\<close>

lemma publish_Inl: "publish F io q store = (Inl e, store') \<Longrightarrow> store' = store"
  by (auto simp: publish_def Let_def split: if_split_asm)

lemma publish_Inr:
  "publish F io q store = (Inr b, store') \<Longrightarrow>
     bb_bundle_id b = bundle_id_of F q \<and> bb_manifest_json b = bundle_payload q \<and>
     bb_payload_bytes b = of_nat (length (bundle_payload q)) \<and>
     bb_payload_bytes b \<le> resolved_budget q \<and> sr_readiness (br_selection q) \<noteq> BudgetInsufficient \<and>
     store' = (if store (bundle_id_of F q) = None then store(bundle_id_of F q := Some (bundle_payload q)) else store)"
  by (simp add: publish_def Let_def split: if_split_asm) (auto simp: not_less)

text \<open>
  A bundle is published only from a selection that is neither empty nor over budget, and its payload fits the
  resolved budget.  The store then holds a bundle under its id: the payload itself when the id was new, the
  earlier bytes otherwise; no other bundle changes, and a refused or failed publication changes nothing.
\<close>

theorem publish_exact:
  "case publish F io q store of
     (Inl e, store') \<Rightarrow> store' = store
   | (Inr b, store') \<Rightarrow>
       bb_bundle_id b = bundle_id_of F q \<and> bb_manifest_json b = bundle_payload q \<and>
       bb_payload_bytes b \<le> resolved_budget q \<and> sr_readiness (br_selection q) \<noteq> BudgetInsufficient \<and>
       store' = (if store (bundle_id_of F q) = None then store(bundle_id_of F q := Some (bundle_payload q)) else store)"
proof (cases "publish F io q store")
  case (Pair res store')
  show ?thesis
  proof (cases res)
    case (Inl e)
    with Pair have p: "publish F io q store = (Inl e, store')" by simp
    show ?thesis unfolding p prod.case sum.case by (rule publish_Inl [OF p])
  next
    case (Inr b)
    with Pair have p: "publish F io q store = (Inr b, store')" by simp
    show ?thesis unfolding p prod.case sum.case using publish_Inr [OF p] by blast
  qed
qed

text \<open>
  The bundle id does not determine the bundle.  It is derived from the resolved budget but the payload states
  the requested one, so two requests that ask for different budgets above the policy's cap share an id and
  differ in their bytes; the second publication succeeds and returns bytes that are not the ones in the store.
\<close>

theorem bundle_id_aliases:
  assumes "bg_task_payload_max_bytes (br_budgets q) \<le> n" "bg_task_payload_max_bytes (br_budgets q) \<le> m" "n \<noteq> m"
    and "0 < n" "0 < m" "publish F io (q\<lparr>br_requested_budget_bytes := n\<rparr>) (\<lambda>_. None) = (Inr b, store)"
    and "publish F io (q\<lparr>br_requested_budget_bytes := m\<rparr>) store = (Inr c, store')"
  shows "bb_bundle_id c = bb_bundle_id b \<and> bb_manifest_json c \<noteq> bb_manifest_json b \<and>
    store' (bb_bundle_id c) = Some (bb_manifest_json b)"
proof -
  have id: "bundle_id_of F (q\<lparr>br_requested_budget_bytes := k\<rparr>) = bundle_id_of F q'"
    if "bg_task_payload_max_bytes (br_budgets q) \<le> k" "q' = q\<lparr>br_requested_budget_bytes := n\<rparr>" for k q'
    using that assms(1) by (simp add: bundle_id_of_def resolved_budget_def effective_budget_def leD)
  have payload: "bundle_payload (q\<lparr>br_requested_budget_bytes := m\<rparr>) \<noteq> bundle_payload (q\<lparr>br_requested_budget_bytes := n\<rparr>)"
  proof
    assume e: "bundle_payload (q\<lparr>br_requested_budget_bytes := m\<rparr>) = bundle_payload (q\<lparr>br_requested_budget_bytes := n\<rparr>)"
    define z where "z = '','' @ json_key ''protected'' @ rule_array (sr_protected_included (br_selection q))
     @ '','' @ json_key ''unresolved'' @ rule_array (sr_unresolved (br_selection q))
     @ '','' @ json_key ''candidates'' @ rule_array (sr_ranked_candidates (br_selection q)) @ ''}''"
    have "to_string_u64 m @ CHR ''}'' # z = to_string_u64 n @ CHR ''}'' # z"
      using e assms(4,5) by (simp add: bundle_payload_def stated_budget_def z_def)
    then show False using assms(3) number_app_inj [of "CHR ''}'' # z" "CHR ''}'' # z" m n] by simp
  qed
  show ?thesis
    using publish_Inr [OF assms(6)] publish_Inr [OF assms(7)] payload id [OF assms(2) refl] by simp
qed

text \<open>
  The rule arrays of a payload are not JSON: each rule is written with a comma of its own, so an array with a rule
  starts with a comma and the runtime's own parser refuses it wherever it stands.
\<close>

lemma comma_refused: "d < max_depth \<Longrightarrow> parse_value (d + 1) (CHR '','' # z) = Inl malformed"
proof -
  assume d: "d < max_depth"
  have "parse_scalar (CHR '','' # z) = Inl malformed"
    by (simp add: parse_scalar_def parse_number_def is_digit_def Let_def)
  then show ?thesis using d by (simp add: parse_value.simps [of "Suc d" "CHR '','' # z"])
qed

lemma comma_array_refused: "d < max_depth \<Longrightarrow> parse_value d (CHR ''['' # CHR '','' # z) = Inl malformed"
proof -
  assume d: "d < max_depth"
  have s: "skip_ws (CHR '','' # z) = CHR '','' # z" by (simp add: skip_ws_def is_ws_def)
  have "array_items d [] (CHR '','' # z) = Inl malformed"
    using comma_refused [OF d, of z] by (simp add: array_items.simps [of d "[]" "CHR '','' # z"] s)
  then show ?thesis
    using d s by (simp add: parse_value.simps [of d "CHR ''['' # CHR '','' # z"] consume_char_def)
qed

lemma rule_array_malformed:
  assumes "depth < max_depth"
  shows "parse_value depth (rule_array (r # rules) @ rest) = Inl malformed"
proof -
  have "rule_array (r # rules) @ rest = CHR ''['' # CHR '','' # drop 2 (rule_array (r # rules) @ rest)"
    by (simp add: rule_array_def comma_join_Cons append_rule_def)
  then show ?thesis using comma_array_refused [OF assms] by metis
qed

section \<open>What an activation guarantees\<close>

lemma activate_Inr:
  assumes "activate F T io device a store db = (Inr x, store', db')"
  shows "\<exists>task sel bd. task = normalize_task (aq_envelope a) \<and>
    sel = evaluate_selection (aq_policy a) task (core_budgets (aq_core a)) (aq_requested_budget_bytes a) \<and>
    aq_consumer_profile a \<in> set (cc_consumer_profiles (aq_core a)) \<and> sr_readiness sel \<noteq> BudgetInsufficient \<and>
    publish F io (service_bundle_request a task sel) store = (Inr bd, store') \<and>
    ao_task x = task \<and> ao_selection x = sel \<and> ao_bundle x = bd \<and>
    ao_receipt x = (issue_receipt F device (service_facts F a task (bb_bundle_id bd)) (aq_now_ms a))
      \<lparr>cr_workspace_generation := aq_workspace_generation a\<rparr> \<and>
    persist T (ao_receipt x) db = Inr db'"
proof -
  let ?task = "normalize_task (aq_envelope a)"
  let ?sel = "evaluate_selection (aq_policy a) ?task (core_budgets (aq_core a)) (aq_requested_budget_bytes a)"
  obtain res store1 where p: "publish F io (service_bundle_request a ?task ?sel) store = (res, store1)" by fastforce
  show ?thesis
  proof (cases res)
    case (Inl e)
    then show ?thesis using assms p by (simp add: activate_def Let_def split: if_split_asm)
  next
    case (Inr bd)
    then show ?thesis
      using assms p by (intro exI [of _ ?task] exI [of _ ?sel] exI [of _ bd])
        (auto simp: activate_def Let_def split: if_split_asm sum.split_asm)
  qed
qed

text \<open>
  C37: A successful activation admitted a listed consumer profile, included every applicable protected rule and kept
  every unresolved critical one visible.  Its bundle is the payload of the task and the selection, within the
  effective budget; it is stored under its id when that id is new, an earlier bundle of the same id stays as it is, and
  no other bundle changes.  The receipt is persisted and binds the task digest, the bundle id, both generations,
  the source lock, the policy, the effective budget and the profile: at any time, of all current facts without an
  evidence expiry of their own, it verifies against exactly these.
\<close>

theorem activation_binds:
  assumes "activate F T io device a store db = (Inr x, store', db')"
    and "task = normalize_task (aq_envelope a)" and "q = service_bundle_request a task (ao_selection x)"
  shows "aq_consumer_profile a \<in> set (cc_consumer_profiles (aq_core a)) \<and>
    sr_protected_included (ao_selection x) = protected_rules task (ap_rules (aq_policy a)) \<and>
    sr_unresolved (ao_selection x) = unresolved_rules task (ap_rules (aq_policy a)) \<and>
    sr_readiness (ao_selection x) \<noteq> BudgetInsufficient \<and>
    bb_bundle_id (ao_bundle x) = bundle_id_of F q \<and> bb_manifest_json (ao_bundle x) = bundle_payload q \<and>
    store' = (if store (bundle_id_of F q) = None then store(bundle_id_of F q := Some (bundle_payload q)) else store) \<and>
    bb_payload_bytes (ao_bundle x) = of_nat (length (bundle_payload q)) \<and>
    bb_payload_bytes (ao_bundle x) \<le> effective_budget (core_budgets (aq_core a)) (aq_requested_budget_bytes a) \<and>
    persist T (ao_receipt x) db = Inr db' \<and>
    cr_facts (ao_receipt x) =
      \<lparr>cf_task_digest = digest_hex F task, cf_bundle_id = bb_bundle_id (ao_bundle x),
       cf_runtime_generation_id = aq_runtime_generation_id a, cf_activation_generation = aq_activation_generation a,
       cf_external_source_lock_sha256 = aq_external_source_lock_sha256 a,
       cf_activation_policy_sha256 = aq_activation_policy_sha256 a,
       cf_budget_bytes = effective_budget (core_budgets (aq_core a)) (aq_requested_budget_bytes a),
       cf_consumer_profile = aq_consumer_profile a, cf_evidence_expires_ms = 0\<rparr> \<and>
    (cf_evidence_expires_ms current = 0 \<longrightarrow>
       (verify_receipt F (ao_receipt x) current later = Verify_Valid \<longleftrightarrow> current = cr_facts (ao_receipt x)))"
proof -
  from activate_Inr [OF assms(1)] assms(2) obtain sel bd where
    sel: "sel = evaluate_selection (aq_policy a) task (core_budgets (aq_core a)) (aq_requested_budget_bytes a)"
    and prof: "aq_consumer_profile a \<in> set (cc_consumer_profiles (aq_core a))" "sr_readiness sel \<noteq> BudgetInsufficient"
    and pub: "publish F io (service_bundle_request a task sel) store = (Inr bd, store')"
    and x: "ao_selection x = sel" "ao_bundle x = bd"
      "ao_receipt x = (issue_receipt F device (service_facts F a task (bb_bundle_id bd)) (aq_now_ms a))
        \<lparr>cr_workspace_generation := aq_workspace_generation a\<rparr>"
    and per: "persist T (ao_receipt x) db = Inr db'" by blast
  have q: "service_bundle_request a task sel = q" using assms(3) x(1) by simp
  have facts: "cr_facts (ao_receipt x) = service_facts F a task (bb_bundle_id bd)"
    and id: "cr_receipt_id (ao_receipt x) = sha256_hex F (receipt_json (cr_facts (ao_receipt x)))"
    using x(3) by (simp_all add: issue_receipt_def)
  have budget: "receipt_budget a = effective_budget (core_budgets (aq_core a)) (aq_requested_budget_bytes a)"
    by (simp add: receipt_budget_def effective_budget_def Let_def)
  have res: "resolved_budget q = effective_budget (core_budgets (aq_core a)) (aq_requested_budget_bytes a)"
    by (simp add: resolved_budget_def q [symmetric] service_bundle_request_def)
  note P = publish_Inr [OF pub [unfolded q], unfolded res]
  have all: "cr_facts (ao_receipt x) =
      \<lparr>cf_task_digest = digest_hex F task, cf_bundle_id = bb_bundle_id bd,
       cf_runtime_generation_id = aq_runtime_generation_id a, cf_activation_generation = aq_activation_generation a,
       cf_external_source_lock_sha256 = aq_external_source_lock_sha256 a,
       cf_activation_policy_sha256 = aq_activation_policy_sha256 a,
       cf_budget_bytes = effective_budget (core_budgets (aq_core a)) (aq_requested_budget_bytes a),
       cf_consumer_profile = aq_consumer_profile a, cf_evidence_expires_ms = 0\<rparr>"
    using facts budget by (simp add: service_facts_def)
  have v: "cf_evidence_expires_ms current = 0 \<longrightarrow>
      (verify_receipt F (ao_receipt x) current later = Verify_Valid \<longleftrightarrow> current = cr_facts (ao_receipt x))"
    using id facts by (cases current) (auto simp: verify_receipt_def compute_id_def Let_def service_facts_def)
  show ?thesis
    unfolding x(1,2) using prof all per P v selection_unfold(1,2) [OF sel refl refl] by blast
qed

text \<open>The evidence expiry of the current facts is the one axis that verification does not compare.\<close>

lemma expiry_not_compared:
  "verify_receipt F r (current\<lparr>cf_evidence_expires_ms := e\<rparr>) later = verify_receipt F r current later"
  by (simp add: verify_receipt_def Let_def)

section \<open>A run\<close>

definition ex_bundle_request :: "u64 \<Rightarrow> bundle_request" where
  "ex_bundle_request n =
     \<lparr>br_task = ex_task, br_selection = evaluate_selection ex_policy ex_task ex_budgets 0, br_budgets = ex_budgets,
      br_requested_budget_bytes = n, br_activation_generation = ''a'', br_runtime_generation_id = ''g'',
      br_external_source_lock_sha256 = ''l'', br_activation_policy_sha256 = ''p''\<rparr>"

lemma ex_selection:
  "sr_protected_included (evaluate_selection ex_policy ex_task ex_budgets 0) = [ex_rule ''a'' P0Core]"
  "sr_unresolved (evaluate_selection ex_policy ex_task ex_budgets 0) =
     [(ex_rule ''b'' P1Protected)\<lparr>ru_selectors := ex_selectors\<lparr>sel_boundary_kinds := [''ipc'']\<rparr>\<rparr>]"
  "sr_ranked_candidates (evaluate_selection ex_policy ex_task ex_budgets 0) = [ex_rule ''c'' P3Supporting]"
  "sr_readiness (evaluate_selection ex_policy ex_task ex_budgets 0) = NeedsEvidence"
proof -
  note u = selection_unfold [of _ ex_policy ex_task ex_budgets 0, OF refl refl refl]
  have b: "effective_budget ex_budgets 0 = 65536" by (simp add: effective_budget_def ex_budgets_def)
  have c: "bg_supporting_share_max_percent ex_budgets = 25" by (simp add: ex_budgets_def)
  have un: "unresolved_rules ex_task (ap_rules ex_policy) =
      [(ex_rule ''b'' P1Protected)\<lparr>ru_selectors := ex_selectors\<lparr>sel_boundary_kinds := [''ipc'']\<rparr>\<rparr>]"
    by (simp add: ex_policy_def unresolved_rules_def ex_verdicts) (simp add: ex_rule_def is_critical_def)
  have "rule_size (ex_rule ''c'' P3Supporting) = 68" by (simp add: rule_size_def entry_size_def ex_rule_def)
  then have r: "fit_candidates 16350 0 [ex_rule ''c'' P3Supporting] = [ex_rule ''c'' P3Supporting]"
    by (simp add: Let_def rule_bytes_size)
  show "sr_protected_included (evaluate_selection ex_policy ex_task ex_budgets 0) = [ex_rule ''a'' P0Core]"
    "sr_unresolved (evaluate_selection ex_policy ex_task ex_budgets 0) =
       [(ex_rule ''b'' P1Protected)\<lparr>ru_selectors := ex_selectors\<lparr>sel_boundary_kinds := [''ipc'']\<rparr>\<rparr>]"
    "sr_ranked_candidates (evaluate_selection ex_policy ex_task ex_budgets 0) = [ex_rule ''c'' P3Supporting]"
    "sr_readiness (evaluate_selection ex_policy ex_task ex_budgets 0) = NeedsEvidence"
    using r by (simp_all add: u un b c ex_partition rank_order_def)
qed

lemma length_blank_escape:
  "length (blank_escape s) = 2 + length s + length (filter (\<lambda>c. c = quote \<or> c = backslash) s)"
  by (induction s) (auto simp: blank_escape_def blank_char_def)

lemma ex_payload_length: "length (bundle_payload (ex_bundle_request n)) < 2000"
proof -
  have n: "length (to_string_u64 (stated_budget (ex_bundle_request n))) \<le> 20"
    by (rule to_string_u64_length)
  have t: "length (canonical_json ex_task) \<le> 300"
    by (simp add: canonical_json_def ex_task_def json_escape_def escape_char_def append_string_list_def)
  have r: "length (append_rule (ex_rule [c] p)) \<le> 200" "length (append_rule ((ex_rule [c] p)\<lparr>ru_selectors := s\<rparr>)) \<le> 200"
    for c p s
    by (cases p; simp add: append_rule_def json_key_def length_blank_escape ex_rule_def source_text_def
        joined_controls_def digits_of.simps)+
  have "length (rule_array [x]) = 2 + length (append_rule x)" for x by (simp add: rule_array_def)
  then show ?thesis
    using n t r(1) [of "CHR ''a''" P0Core] r(1) [of "CHR ''c''" P3Supporting]
      r(2) [where c = "CHR ''b''" and p = P1Protected and s = "ex_selectors\<lparr>sel_boundary_kinds := [''ipc'']\<rparr>"]
    by (simp add: bundle_payload_def json_key_def length_blank_escape ex_bundle_request_def ex_selection)
qed

definition bundle_faultless :: bundle_io where
  "bundle_faultless = \<lparr>bi_staged = True, bi_written = True, bi_renamed = True\<rparr>"

lemma ex_publish:
  assumes "n = 0 \<or> 65536 \<le> n"
  shows "\<exists>b store'. publish F bundle_faultless (ex_bundle_request n) store = (Inr b, store')"
proof -
  have "(of_nat (length (bundle_payload (ex_bundle_request n))) :: u64) \<le> 65536"
    using ex_payload_length [of n] by (simp add: word_le_nat_alt unat_of_nat take_bit_nat_eq_self)
  moreover have "resolved_budget (ex_bundle_request n) = 65536"
    using assms by (auto simp: resolved_budget_def effective_budget_def ex_bundle_request_def ex_budgets_def)
  moreover have "br_selection (ex_bundle_request n) = evaluate_selection ex_policy ex_task ex_budgets 0"
    by (simp add: ex_bundle_request_def)
  ultimately show ?thesis
    by (simp add: publish_def Let_def bundle_faultless_def ex_selection leD)
qed

theorem bundle_id_aliases_witness:
  "\<exists>b store c store'.
     publish ref_foundation bundle_faultless (ex_bundle_request 70000) (\<lambda>_. None) = (Inr b, store) \<and>
     publish ref_foundation bundle_faultless (ex_bundle_request 80000) store = (Inr c, store') \<and>
     bb_bundle_id c = bb_bundle_id b \<and> bb_manifest_json c \<noteq> bb_manifest_json b"
proof -
  obtain b store where b: "publish ref_foundation bundle_faultless (ex_bundle_request 70000) (\<lambda>_. None) = (Inr b, store)"
    using ex_publish [of 70000 ref_foundation "\<lambda>_. None"] by auto
  obtain c store' where c: "publish ref_foundation bundle_faultless (ex_bundle_request 80000) store = (Inr c, store')"
    using ex_publish [of 80000 ref_foundation store] by auto
  have u: "(ex_bundle_request 0)\<lparr>br_requested_budget_bytes := n\<rparr> = ex_bundle_request n" for n
    by (simp add: ex_bundle_request_def)
  have "bb_bundle_id c = bb_bundle_id b \<and> bb_manifest_json c \<noteq> bb_manifest_json b \<and>
      store' (bb_bundle_id c) = Some (bb_manifest_json b)"
    by (rule bundle_id_aliases [of "ex_bundle_request 0" 70000 80000 ref_foundation bundle_faultless, unfolded u, OF _ _ _ _ _ b c])
      (simp_all add: ex_bundle_request_def ex_budgets_def)
  then show ?thesis using b c by blast
qed

definition ex_core :: cognition_core where
  "ex_core = \<lparr>cc_schema_version = 1, cc_corpus = [], cc_capabilities = [], cc_compact_core_max_bytes = 12288,
     cc_task_payload_max_bytes = 65536, cc_inlined_body_max_bytes = 8192, cc_supporting_share_max_percent = 25,
     cc_selector_schema_version = 1, cc_activation_policy_path = [], cc_task_schema_repository = [],
     cc_task_schema_path = [], cc_fixtures_repository = [], cc_fixtures_path = [], cc_consumer_profiles = [''c''],
     cc_cold_rebuild_max_ms = 0, cc_warm_activation_p95_max_ms = 0\<rparr>"

definition ex_activation :: activation_request where
  "ex_activation =
     \<lparr>aq_envelope = \<lparr>te_objective = ''o'', te_repository = ''r'', te_revision = ''1'', te_changed_paths = [],
        te_phase = Design, te_risk = R2, te_phase_observed = False, te_risk_observed = False\<rparr>,
      aq_core = ex_core, aq_policy = ex_policy, aq_activation_generation = ''a'', aq_runtime_generation_id = ''g'',
      aq_external_source_lock_sha256 = ''l'', aq_activation_policy_sha256 = ''p'', aq_consumer_profile = ''c'',
      aq_workspace_generation = ''w'', aq_requested_budget_bytes = 0, aq_now_ms = 5\<rparr>"

lemma ex_activate:
  "\<exists>x store' db'. activate ref_foundation ref_receipt_table bundle_faultless [] ex_activation (\<lambda>_. None) None =
     (Inr x, store', db')"
proof -
  have "extract_explicit_ids ''o'' = []"
    by (simp add: extract_explicit_ids_def ids_loop.simps [of "''o''"] lower_alpha_run_def run_char_def is_lower_def
        to_lower_def is_upper_def id_words_def)
  then have t: "normalize_task (aq_envelope ex_activation) = ex_task"
    by (simp add: normalize_task_def ex_activation_def ex_task_def)
  have s: "evaluate_selection (aq_policy ex_activation) ex_task (core_budgets (aq_core ex_activation))
      (aq_requested_budget_bytes ex_activation) = evaluate_selection ex_policy ex_task ex_budgets 0"
    by (simp add: ex_activation_def core_budgets_def ex_core_def ex_budgets_def)
  have q: "service_bundle_request ex_activation ex_task (evaluate_selection ex_policy ex_task ex_budgets 0) = ex_bundle_request 0"
    by (simp add: service_bundle_request_def ex_activation_def ex_bundle_request_def core_budgets_def ex_core_def ex_budgets_def)
  obtain b store' where p: "publish ref_foundation bundle_faultless (ex_bundle_request 0) (\<lambda>_. None) = (Inr b, store')"
    using ex_publish [of 0 ref_foundation "\<lambda>_. None"] by auto
  have db: "\<exists>db'. persist ref_receipt_table r None = Inr db'" for r
    by (simp add: persist_def ref_receipt_table_def)
  define r where "r = (issue_receipt ref_foundation [] (service_facts ref_foundation ex_activation ex_task (bb_bundle_id b))
      (aq_now_ms ex_activation))\<lparr>cr_workspace_generation := aq_workspace_generation ex_activation\<rparr>"
  obtain db' where d: "persist ref_receipt_table r None = Inr db'" using db by blast
  have a: "aq_consumer_profile ex_activation \<in> set (cc_consumer_profiles (aq_core ex_activation))"
    by (simp add: ex_activation_def ex_core_def)
  show ?thesis
    using a d unfolding activate_def t Let_def s q r_def by (simp add: p ex_selection)
qed

theorem activation_binds_witness:
  "\<exists>x store' db'. activate ref_foundation ref_receipt_table bundle_faultless [] ex_activation (\<lambda>_. None) None =
     (Inr x, store', db') \<and> store' (bb_bundle_id (ao_bundle x)) = Some (bb_manifest_json (ao_bundle x)) \<and>
     verify_receipt ref_foundation (ao_receipt x) (cr_facts (ao_receipt x)) 9 = Verify_Valid \<and>
     verify_receipt ref_foundation (ao_receipt x) ((cr_facts (ao_receipt x))\<lparr>cf_consumer_profile := ''d''\<rparr>) 9 \<noteq> Verify_Valid"
proof -
  obtain x store' db' where a: "activate ref_foundation ref_receipt_table bundle_faultless [] ex_activation (\<lambda>_. None) None =
     (Inr x, store', db')" using ex_activate by blast
  note b = activation_binds [OF a refl refl]
  have f: "cf_evidence_expires_ms (cr_facts (ao_receipt x)) = 0" "cf_consumer_profile (cr_facts (ao_receipt x)) = ''c''"
    using b by (simp_all add: ex_activation_def)
  let ?other = "(cr_facts (ao_receipt x))\<lparr>cf_consumer_profile := ''d''\<rparr>"
  have o: "?other \<noteq> cr_facts (ao_receipt x)"
  proof
    assume "?other = cr_facts (ao_receipt x)"
    from arg_cong [OF this, of cf_consumer_profile] show False using f(2) by simp
  qed
  have "store' (bb_bundle_id (ao_bundle x)) = Some (bb_manifest_json (ao_bundle x))" using b by simp
  moreover have "verify_receipt ref_foundation (ao_receipt x) (cr_facts (ao_receipt x)) 9 = Verify_Valid"
    using b [of "cr_facts (ao_receipt x)" 9] f(1) by blast
  moreover have "cf_evidence_expires_ms ?other = 0" using f(1) by simp
  then have "verify_receipt ref_foundation (ao_receipt x) ?other 9 \<noteq> Verify_Valid"
    using b [of ?other 9] o by blast
  ultimately show ?thesis using a by blast
qed

end
