(* ===== verification/Journal.thy ===== *)
theory Journal
  imports Auth Contracts
begin

text \<open>
  The control journal, \<^verbatim>\<open>journal/schema\<close>, \<^verbatim>\<open>journal/recovery\<close>, \<^verbatim>\<open>journal/runtime_journal\<close> and
  \<^verbatim>\<open>port/runtime_journal.hpp\<close>: tables, statements, transactions, every command, the read surface, chain
  verification and recovery.

  A table is the list of its rows, the audit table in the order of its primary key.  SQLite is the layer below:
  a statement (its preparation, bindings and step) either fails, as the fault schedule \<open>jn_faults\<close> says for the
  statements in the order they run, or has the effect its SQL text has under the declared keys and checks; a
  transaction that does not commit leaves the tables as they were.  INTEGER columns hold the 64 bits the code
  stores and compare as signed numbers where SQL compares them.  An \<open>act\<close> is a piece of a method: it takes the
  journal object with its connection and returns a result and the object.
\<close>

section \<open>Schema\<close>

datatype journal_error = Err_Open | Err_Migration | Err_Constraint | Err_Chain | Err_Clock | Aborted

text \<open>The numeric code of a typed error; \<open>Aborted\<close> is a run that an assertion has ended.\<close>

fun journal_code :: "journal_error \<Rightarrow> nat option" where
  "journal_code Err_Open = Some 51"
| "journal_code Err_Migration = Some 52"
| "journal_code Err_Constraint = Some 53"
| "journal_code Err_Chain = Some 54"
| "journal_code Err_Clock = Some 55"
| "journal_code Aborted = None"

definition current_schema_version :: u64 where "current_schema_version = 1"

datatype tx_state =
    Tx_Observed | Tx_Judging | Tx_Redeliberate | Tx_Denied | Tx_Decided | Tx_Prepared | Tx_Dispatched
  | Tx_Succeeded | Tx_Failed | Tx_Indeterminate | Tx_Quarantined

datatype decision_state = De_Bound | De_Consumed | De_Stale

datatype dispatch_state = Dp_Prepared | Dp_Dispatched | Dp_Succeeded | Dp_Failed | Dp_Indeterminate | Dp_Quarantined

datatype outcome_status = Oc_Succeeded | Oc_Failed | Oc_Indeterminate

fun tx_text :: "tx_state \<Rightarrow> string" where
  "tx_text Tx_Observed = ''observed''"
| "tx_text Tx_Judging = ''judging''"
| "tx_text Tx_Redeliberate = ''redeliberate''"
| "tx_text Tx_Denied = ''denied''"
| "tx_text Tx_Decided = ''decided''"
| "tx_text Tx_Prepared = ''prepared''"
| "tx_text Tx_Dispatched = ''dispatched''"
| "tx_text Tx_Succeeded = ''succeeded''"
| "tx_text Tx_Failed = ''failed''"
| "tx_text Tx_Indeterminate = ''indeterminate''"
| "tx_text Tx_Quarantined = ''quarantined''"

fun decision_text :: "decision_state \<Rightarrow> string" where
  "decision_text De_Bound = ''bound''"
| "decision_text De_Consumed = ''consumed''"
| "decision_text De_Stale = ''stale''"

fun dispatch_text :: "dispatch_state \<Rightarrow> string" where
  "dispatch_text Dp_Prepared = ''prepared''"
| "dispatch_text Dp_Dispatched = ''dispatched''"
| "dispatch_text Dp_Succeeded = ''succeeded''"
| "dispatch_text Dp_Failed = ''failed''"
| "dispatch_text Dp_Indeterminate = ''indeterminate''"
| "dispatch_text Dp_Quarantined = ''quarantined''"

fun tx_of_status :: "outcome_status \<Rightarrow> tx_state" where
  "tx_of_status Oc_Succeeded = Tx_Succeeded"
| "tx_of_status Oc_Failed = Tx_Failed"
| "tx_of_status Oc_Indeterminate = Tx_Indeterminate"

fun dispatch_of_status :: "outcome_status \<Rightarrow> dispatch_state" where
  "dispatch_of_status Oc_Succeeded = Dp_Succeeded"
| "dispatch_of_status Oc_Failed = Dp_Failed"
| "dispatch_of_status Oc_Indeterminate = Dp_Indeterminate"

definition status_text :: "outcome_status \<Rightarrow> string" where
  "status_text s = tx_text (tx_of_status s)"

text \<open>\<^verbatim>\<open>is_valid_outcome_status\<close>: the three texts a status may be.\<close>

definition outcome_status_of :: "string \<Rightarrow> outcome_status option" where
  "outcome_status_of s =
     (if s = ''succeeded'' then Some Oc_Succeeded
      else if s = ''failed'' then Some Oc_Failed
      else if s = ''indeterminate'' then Some Oc_Indeterminate
      else None)"

record generation_row =
  jg_id :: u64
  jg_bundle :: bytes
  jg_profile :: bytes
  jg_build :: string
  jg_activated :: u64
  jg_active :: bool

record session_row =
  js_id :: u64
  js_generation :: u64
  js_actor :: "u64 option"
  js_harness :: string
  js_opened :: u64

record tx_row =
  jt_id :: u64
  jt_epoch :: u64
  jt_parent :: "u64 option"
  jt_correlation :: string
  jt_digest :: bytes
  jt_base :: "string option"
  jt_state :: tx_state

record decision_row =
  jd_id :: bytes
  jd_token :: bytes
  jd_tx :: u64
  jd_generation :: u64
  jd_binding :: bytes
  jd_expires :: u64
  jd_state :: decision_state
  jd_consumed_ms :: "u64 option"

record lease_row =
  jl_workspace :: string
  jl_holder :: string
  jl_boot :: u64
  jl_epoch :: u64
  jl_acquired :: u64
  jl_expires :: u64

record dispatch_row =
  jp_id :: bytes
  jp_tx :: u64
  jp_plan :: bytes
  jp_state :: dispatch_state
  jp_started :: u64
  jp_done :: "u64 option"

record outcome_row =
  jo_dispatch :: bytes
  jo_status :: outcome_status
  jo_ref :: "string option"
  jo_validator :: "bytes option"
  jo_observed :: u64

record barrier_row =
  jb_scope :: string
  jb_reason :: string
  jb_opened :: u64
  jb_closed :: "u64 option"
  jb_evidence :: string

record audit_row =
  ja_seq :: int
  ja_prev :: bytes
  ja_hash :: bytes
  ja_kind :: string
  ja_payload :: bytes

text \<open>\<open>db_seq\<close> is the high-water mark of the AUTOINCREMENT column.\<close>

record journal_db =
  db_meta :: "string \<Rightarrow> string option"
  db_generations :: "generation_row list"
  db_sessions :: "session_row list"
  db_transactions :: "tx_row list"
  db_decisions :: "decision_row list"
  db_leases :: "lease_row list"
  db_dispatches :: "dispatch_row list"
  db_outcomes :: "outcome_row list"
  db_barriers :: "barrier_row list"
  db_audit :: "audit_row list"
  db_seq :: int

definition empty_db :: journal_db where
  "empty_db =
     \<lparr>db_meta = Map.empty, db_generations = [], db_sessions = [], db_transactions = [], db_decisions = [],
      db_leases = [], db_dispatches = [], db_outcomes = [], db_barriers = [], db_audit = [], db_seq = 0\<rparr>"

section \<open>Statements and transactions\<close>

datatype stmt_fault = Bind_Failed | Step_Failed

fun fault_error :: "stmt_fault \<Rightarrow> journal_error" where
  "fault_error Bind_Failed = Err_Constraint"
| "fault_error Step_Failed = Err_Open"

record journal =
  jn_db :: journal_db
  jn_install :: string
  jn_boot_epoch :: u64
  jn_quarantined :: bool
  jn_append_failures :: u64
  jn_intact :: bool
  jn_faults :: "nat \<Rightarrow> stmt_fault option"
  jn_tick :: nat

type_synonym 'a act = "journal \<Rightarrow> (journal_error + 'a) \<times> journal"

definition ret :: "'a \<Rightarrow> 'a act" where
  "ret x J = (Inr x, J)"

definition deny :: "journal_error \<Rightarrow> 'a act" where
  "deny e J = (Inl e, J)"

definition and_then :: "'a act \<Rightarrow> ('a \<Rightarrow> 'b act) \<Rightarrow> 'b act" where
  "and_then m k J = (case m J of (Inl e, J') \<Rightarrow> (Inl e, J') | (Inr x, J') \<Rightarrow> k x J')"

definition tick :: "journal \<Rightarrow> journal" where
  "tick J = J\<lparr>jn_tick := jn_tick J + 1\<rparr>"

definition run_sql :: "(journal_db \<Rightarrow> journal_error + 'a \<times> journal_db) \<Rightarrow> 'a act" where
  "run_sql f J =
     (case jn_faults J (jn_tick J) of
        Some ft \<Rightarrow> (Inl (fault_error ft), tick J)
      | None \<Rightarrow>
          (case f (jn_db J) of
             Inl e \<Rightarrow> (Inl e, tick J)
           | Inr (x, db) \<Rightarrow> (Inr x, (tick J)\<lparr>jn_db := db\<rparr>)))"

definition query :: "(journal_db \<Rightarrow> 'a) \<Rightarrow> 'a act" where
  "query f = run_sql (\<lambda>db. Inr (f db, db))"

definition change :: "(journal_db \<Rightarrow> journal_db) \<Rightarrow> unit act" where
  "change f = run_sql (\<lambda>db. Inr ((), f db))"

text \<open>An INSERT that a key, check or reference may refuse.\<close>

definition insert_if :: "(journal_db \<Rightarrow> bool) \<Rightarrow> (journal_db \<Rightarrow> journal_db) \<Rightarrow> unit act" where
  "insert_if admissible f = run_sql (\<lambda>db. if admissible db then Inr ((), f db) else Inl Err_Open)"

definition exec_sql :: "unit act" where
  "exec_sql J = (if jn_faults J (jn_tick J) = None then (Inr (), tick J) else (Inl Err_Open, tick J))"

definition txn :: "'a act \<Rightarrow> 'a act" where
  "txn body J =
     (case exec_sql J of
        (Inl e, J1) \<Rightarrow> (Inl e, J1)
      | (Inr _, J1) \<Rightarrow>
          (case body J1 of
             (Inl e, J2) \<Rightarrow> (Inl e, J2\<lparr>jn_db := jn_db J1\<rparr>)
           | (Inr x, J2) \<Rightarrow>
               (case exec_sql J2 of
                  (Inl e, J3) \<Rightarrow> (Inl e, J3\<lparr>jn_db := jn_db J1\<rparr>)
                | (Inr _, J3) \<Rightarrow> (Inr x, J3))))"

definition quick_check :: "bool act" where
  "quick_check J =
     (case jn_faults J (jn_tick J) of
        Some _ \<Rightarrow> (Inl Err_Open, tick J)
      | None \<Rightarrow> (Inr (jn_intact J), tick J))"

section \<open>Helpers\<close>

text \<open>\<^verbatim>\<open>parse_u64\<close>: the digits from the last to the first, with the guards as written.\<close>

definition u64_max :: u64 where "u64_max = - 1"

fun parse_digits :: "string \<Rightarrow> u64 \<Rightarrow> u64 \<Rightarrow> u64 option" where
  "parse_digits [] value factor = Some value"
| "parse_digits (c # cs) value factor =
     (if of_char c < (48 :: nat) \<or> (57 :: nat) < of_char c then None
      else
        let digit = of_nat (of_char c - 48) in
        if u64_max - digit * factor < value then None
        else if cs \<noteq> [] \<and> u64_max div 10 < factor then None
        else parse_digits cs (value + digit * factor) (factor * 10))"

definition journal_parse_u64 :: "string \<Rightarrow> u64 option" where
  "journal_parse_u64 s = (if s = [] then None else parse_digits (rev s) 0 1)"

text \<open>The payload builder is bounded; the span of a builder that has overflowed is never read.\<close>

definition payload_capacity_limit :: nat where "payload_capacity_limit = 16 * 1024 * 1024"

definition payload_span :: "bytes \<Rightarrow> bytes act" where
  "payload_span bs J = (if length bs \<le> payload_capacity_limit then (Inr bs, J) else (Inl Aborted, J))"

definition put_blob :: "foundation \<Rightarrow> bytes \<Rightarrow> bytes" where
  "put_blob F bs = enc_u32 F (of_nat (length bs)) @ bs"

definition put_str :: "foundation \<Rightarrow> string \<Rightarrow> bytes" where
  "put_str F s = put_blob F (text_bytes s)"

definition put_opt_str :: "foundation \<Rightarrow> string option \<Rightarrow> bytes" where
  "put_opt_str F x = (case x of Some s \<Rightarrow> enc_u64 F 1 @ put_str F s | None \<Rightarrow> enc_u64 F 0)"

definition zero_hash :: bytes where "zero_hash = replicate 32 0"

definition to_hex :: "bytes \<Rightarrow> string" where
  "to_hex bs = concat (map hex_byte bs)"

definition chain_hash :: "foundation \<Rightarrow> bytes \<Rightarrow> string \<Rightarrow> bytes \<Rightarrow> bytes" where
  "chain_hash F prev kind payload = sha256 F (prev @ put_str F kind @ payload)"

definition read_meta :: "string \<Rightarrow> string option act" where
  "read_meta key = query (\<lambda>db. db_meta db key)"

definition write_meta :: "string \<Rightarrow> string \<Rightarrow> unit act" where
  "write_meta key value = change (\<lambda>db. db\<lparr>db_meta := (db_meta db)(key \<mapsto> value)\<rparr>)"

definition last_hash :: "journal_db \<Rightarrow> bytes option" where
  "last_hash db = (if db_audit db = [] then None else Some (ja_hash (last (db_audit db))))"

definition add_audit :: "audit_row \<Rightarrow> journal_db \<Rightarrow> journal_db" where
  "add_audit a db = db\<lparr>db_audit := db_audit db @ [a\<lparr>ja_seq := db_seq db + 1\<rparr>], db_seq := db_seq db + 1\<rparr>"

definition append_audit_row :: "foundation \<Rightarrow> string \<Rightarrow> bytes \<Rightarrow> bytes act" where
  "append_audit_row F kind payload =
     and_then (query last_hash) (\<lambda>found.
     let prev = (case found of None \<Rightarrow> zero_hash | Some h \<Rightarrow> h) in
     if length prev \<noteq> 32 then deny Err_Chain
     else
       and_then (payload_span (put_str F kind)) (\<lambda>_.
       let event = chain_hash F prev kind payload in
       and_then (insert_if (\<lambda>db. db_seq db < 2 ^ 63 - 1)
         (add_audit \<lparr>ja_seq = 0, ja_prev = prev, ja_hash = event, ja_kind = kind, ja_payload = payload\<rparr>)) (\<lambda>_.
       ret event)))"

definition append_audit :: "foundation \<Rightarrow> string \<Rightarrow> bytes \<Rightarrow> unit act" where
  "append_audit F kind payload =
     and_then (payload_span payload) (\<lambda>p. and_then (append_audit_row F kind p) (\<lambda>_. ret ()))"

definition find_tx :: "u64 \<Rightarrow> journal_db \<Rightarrow> tx_row option" where
  "find_tx i db = find (\<lambda>t. jt_id t = i) (db_transactions db)"

definition find_decision :: "bytes \<Rightarrow> journal_db \<Rightarrow> decision_row option" where
  "find_decision i db = find (\<lambda>d. jd_id d = i) (db_decisions db)"

definition find_dispatch :: "bytes \<Rightarrow> journal_db \<Rightarrow> dispatch_row option" where
  "find_dispatch i db = find (\<lambda>d. jp_id d = i) (db_dispatches db)"

definition find_lease :: "string \<Rightarrow> journal_db \<Rightarrow> lease_row option" where
  "find_lease w db = find (\<lambda>l. jl_workspace l = w) (db_leases db)"

text \<open>\<^verbatim>\<open>read_state_by_i64\<close> and \<^verbatim>\<open>read_state_by_blob\<close>: a row that is missing is a constraint error.\<close>

definition read_state :: "(journal_db \<Rightarrow> 'r option) \<Rightarrow> ('r \<Rightarrow> 's) \<Rightarrow> 's act" where
  "read_state lookup state =
     and_then (query lookup) (\<lambda>row. case row of None \<Rightarrow> deny Err_Constraint | Some r \<Rightarrow> ret (state r))"

text \<open>MAX over a signed INTEGER column, 0 for an empty table, and the next row number.\<close>

definition max_id :: "u64 list \<Rightarrow> int" where
  "max_id ids = (case ids of [] \<Rightarrow> 0 | i # is \<Rightarrow> fold max (map sint is) (sint i))"

definition next_id :: "u64 list \<Rightarrow> u64" where
  "next_id ids = of_int (min (max_id ids + 1) (2 ^ 63 - 1))"

section \<open>Guards\<close>

definition deny_if_quarantined :: "unit act" where
  "deny_if_quarantined =
     and_then (read_meta ''quarantine'') (\<lambda>flag J.
       if flag = Some ''1'' then (Inl Err_Chain, J\<lparr>jn_quarantined := True\<rparr>)
       else (Inr (), J\<lparr>jn_quarantined := False\<rparr>))"

definition check_clock :: "u64 \<Rightarrow> unit act" where
  "check_clock now =
     and_then (read_meta ''last_wall_ms'') (\<lambda>found.
       case Option.bind found journal_parse_u64 of
         Some last_ms \<Rightarrow> if now + 300000 < last_ms then deny Err_Clock else ret ()
       | None \<Rightarrow> ret ())"

definition touch_wall_clock :: "u64 \<Rightarrow> unit act" where
  "touch_wall_clock now =
     and_then (read_meta ''last_wall_ms'') (\<lambda>found.
       write_meta ''last_wall_ms'' (to_string_u64
         (case Option.bind found journal_parse_u64 of
            Some last_ms \<Rightarrow> if now < last_ms then last_ms else now
          | None \<Rightarrow> now)))"

text \<open>The prologue every command shares, and the epilogue of its transaction.\<close>

definition command :: "u64 \<Rightarrow> 'a act \<Rightarrow> 'a act" where
  "command now body =
     and_then deny_if_quarantined (\<lambda>_. and_then (check_clock now) (\<lambda>_. txn body))"

definition audited :: "foundation \<Rightarrow> string \<Rightarrow> bytes \<Rightarrow> u64 \<Rightarrow> 'a \<Rightarrow> 'a act" where
  "audited F kind payload now x =
     and_then (append_audit F kind payload) (\<lambda>_. and_then (touch_wall_clock now) (\<lambda>_. ret x))"

section \<open>Sessions, transactions, evidence\<close>

record session_open =
  so_generation :: u64
  so_actor :: "u64 option"
  so_harness :: string

record transaction_open =
  to_parent :: "u64 option"
  to_correlation :: string
  to_digest :: bytes
  to_base :: "string option"

definition open_session :: "foundation \<Rightarrow> session_open \<Rightarrow> u64 \<Rightarrow> u64 act" where
  "open_session F s now = command now
     (and_then (query (\<lambda>db. \<exists>g \<in> set (db_generations db). jg_id g = so_generation s \<and> jg_active g)) (\<lambda>active.
      if \<not> active then deny Err_Constraint
      else
        and_then (run_sql (\<lambda>db.
          let row = next_id (map js_id (db_sessions db)) in
          if max_id (map js_id (db_sessions db)) = 2 ^ 63 - 1 then Inl Err_Open
          else Inr (row, db\<lparr>db_sessions := db_sessions db @
            [\<lparr>js_id = row, js_generation = so_generation s, js_actor = so_actor s, js_harness = so_harness s,
              js_opened = now\<rparr>]\<rparr>))) (\<lambda>row.
        audited F ''session_opened''
          (enc_u64 F row @ enc_u64 F (so_generation s) @ enc_u64 F (case so_actor s of None \<Rightarrow> 0 | Some a \<Rightarrow> a) @
           put_str F (so_harness s) @ enc_u64 F now) now row)))"

definition new_tx :: "u64 \<Rightarrow> u64 \<Rightarrow> transaction_open \<Rightarrow> tx_row" where
  "new_tx i epoch t =
     \<lparr>jt_id = i, jt_epoch = epoch, jt_parent = to_parent t, jt_correlation = to_correlation t, jt_digest = to_digest t,
      jt_base = to_base t, jt_state = Tx_Observed\<rparr>"

definition open_journal_transaction :: "foundation \<Rightarrow> transaction_open \<Rightarrow> u64 \<Rightarrow> u64 act" where
  "open_journal_transaction F t now = command now (\<lambda>J.
     let epoch = jn_boot_epoch J in
     and_then (query (\<lambda>db. next_id (map jt_id (db_transactions db)))) (\<lambda>created.
     and_then (insert_if (\<lambda>db. find_tx created db = None)
       (\<lambda>db. db\<lparr>db_transactions := db_transactions db @ [new_tx created epoch t]\<rparr>)) (\<lambda>_.
     audited F ''transaction_opened''
       (enc_u64 F created @ enc_u64 F epoch @
        (case to_parent t of Some p \<Rightarrow> enc_u64 F 1 @ enc_u64 F p | None \<Rightarrow> enc_u64 F 0) @
        put_str F (to_correlation t) @ to_digest t @ put_opt_str F (to_base t)) now created)) J)"

definition tx_open :: "tx_state \<Rightarrow> bool" where
  "tx_open s \<longleftrightarrow> s = Tx_Observed \<or> s = Tx_Judging"

definition accept_evidence :: "foundation \<Rightarrow> u64 \<Rightarrow> bytes list \<Rightarrow> u64 \<Rightarrow> unit act" where
  "accept_evidence F tx evidence now = command now
     (and_then (read_state (find_tx tx) jt_state) (\<lambda>state.
      if \<not> tx_open state then deny Err_Constraint
      else audited F ''evidence_accepted''
        (enc_u64 F tx @ enc_u64 F (of_nat (length evidence)) @ concat evidence @ enc_u64 F now) now ()))"

section \<open>Decisions\<close>

record decision_bind =
  bd_id :: bytes
  bd_token_hash :: bytes
  bd_transaction :: u64
  bd_generation :: u64
  bd_binding_digest :: bytes
  bd_expires_ms :: u64

definition set_tx_state :: "u64 \<Rightarrow> tx_state set \<Rightarrow> tx_state \<Rightarrow> journal_db \<Rightarrow> journal_db" where
  "set_tx_state i from_states s db =
     db\<lparr>db_transactions := map (\<lambda>t. if jt_id t = i \<and> jt_state t \<in> from_states then t\<lparr>jt_state := s\<rparr> else t) (db_transactions db)\<rparr>"

definition bound_row :: "decision_bind \<Rightarrow> decision_row" where
  "bound_row d =
     \<lparr>jd_id = bd_id d, jd_token = bd_token_hash d, jd_tx = bd_transaction d, jd_generation = bd_generation d,
      jd_binding = bd_binding_digest d, jd_expires = bd_expires_ms d, jd_state = De_Bound, jd_consumed_ms = None\<rparr>"

definition bind_decision :: "foundation \<Rightarrow> decision_bind \<Rightarrow> u64 \<Rightarrow> unit act" where
  "bind_decision F d now = command now
     (and_then (read_state (find_tx (bd_transaction d)) jt_state) (\<lambda>state.
      if \<not> tx_open state then deny Err_Constraint
      else
        and_then (insert_if
          (\<lambda>db. find_decision (bd_id d) db = None \<and> bd_token_hash d \<notin> set (map jd_token (db_decisions db)))
          (\<lambda>db. db\<lparr>db_decisions := db_decisions db @ [bound_row d]\<rparr>)) (\<lambda>_.
        and_then (change (set_tx_state (bd_transaction d) {Tx_Observed, Tx_Judging} Tx_Decided)) (\<lambda>_.
        audited F ''decision_bound''
          (bd_id d @ bd_token_hash d @ enc_u64 F (bd_transaction d) @ enc_u64 F (bd_generation d) @
           bd_binding_digest d @ enc_u64 F (bd_expires_ms d) @ enc_u64 F now) now ()))))"

definition consume_row :: "bytes \<Rightarrow> u64 \<Rightarrow> journal_db \<Rightarrow> journal_db" where
  "consume_row i now db =
     db\<lparr>db_decisions := map (\<lambda>d. if jd_id d = i \<and> jd_state d = De_Bound
        then d\<lparr>jd_state := De_Consumed, jd_consumed_ms := Some now\<rparr> else d) (db_decisions db)\<rparr>"

definition consume_decision :: "foundation \<Rightarrow> bytes \<Rightarrow> u64 \<Rightarrow> unit act" where
  "consume_decision F i now = command now
     (and_then (query (find_decision i)) (\<lambda>row.
      case row of
        None \<Rightarrow> deny Err_Constraint
      | Some d \<Rightarrow>
          if jd_state d = De_Consumed then deny Err_Constraint
          else if jd_state d = De_Stale then deny Err_Constraint
          else if jd_expires d < now then deny Err_Constraint
          else
            and_then (change (consume_row i now)) (\<lambda>_.
            audited F ''decision_consumed'' (i @ enc_u64 F now) now ())))"

section \<open>Leases\<close>

record lease_request =
  lr_workspace :: string
  lr_holder :: string
  lr_ttl_ms :: u64

definition put_lease :: "lease_row \<Rightarrow> journal_db \<Rightarrow> journal_db" where
  "put_lease l db =
     db\<lparr>db_leases := (if find_lease (jl_workspace l) db = None then db_leases db @ [l]
        else map (\<lambda>x. if jl_workspace x = jl_workspace l then l else x) (db_leases db))\<rparr>"

definition acquire_journal_lease :: "foundation \<Rightarrow> lease_request \<Rightarrow> u64 \<Rightarrow> lease_row act" where
  "acquire_journal_lease F r now = command now (\<lambda>J.
     let boot = jn_boot_epoch J in
     and_then (query (find_lease (lr_workspace r))) (\<lambda>existing.
       if (case existing of None \<Rightarrow> False | Some l \<Rightarrow> now \<le> jl_expires l \<and> jl_holder l \<noteq> lr_holder r)
       then deny Err_Constraint
       else
         let epoch = (case existing of None \<Rightarrow> 1 | Some l \<Rightarrow> jl_epoch l + 1);
             acquired = \<lparr>jl_workspace = lr_workspace r, jl_holder = lr_holder r, jl_boot = boot, jl_epoch = epoch,
               jl_acquired = now, jl_expires = now + lr_ttl_ms r\<rparr> in
         and_then (change (put_lease acquired)) (\<lambda>_.
         audited F ''lease_acquired''
           (put_str F (lr_workspace r) @ put_str F (lr_holder r) @ enc_u64 F boot @ enc_u64 F epoch @
            enc_u64 F (now + lr_ttl_ms r)) now acquired)) J)"

section \<open>Dispatches and outcomes\<close>

record dispatch_prepared =
  dp_id :: bytes
  dp_transaction :: u64
  dp_plan_digest :: bytes

definition record_dispatch_prepared :: "foundation \<Rightarrow> dispatch_prepared \<Rightarrow> u64 \<Rightarrow> unit act" where
  "record_dispatch_prepared F d now = command now
     (and_then (read_state (find_tx (dp_transaction d)) jt_state) (\<lambda>state.
      if state \<noteq> Tx_Decided then deny Err_Constraint
      else
        and_then (insert_if (\<lambda>db. find_dispatch (dp_id d) db = None)
          (\<lambda>db. db\<lparr>db_dispatches := db_dispatches db @
            [\<lparr>jp_id = dp_id d, jp_tx = dp_transaction d, jp_plan = dp_plan_digest d, jp_state = Dp_Prepared,
              jp_started = now, jp_done = None\<rparr>]\<rparr>)) (\<lambda>_.
        and_then (change (set_tx_state (dp_transaction d) {Tx_Decided} Tx_Prepared)) (\<lambda>_.
        audited F ''dispatch_prepared''
          (dp_id d @ enc_u64 F (dp_transaction d) @ dp_plan_digest d @ enc_u64 F now) now ()))))"

record outcome_record =
  or_dispatch :: bytes
  or_status :: string
  or_ref_observed :: "string option"
  or_validator :: "bytes option"

definition insert_outcome :: "bytes \<Rightarrow> outcome_status \<Rightarrow> string option \<Rightarrow> bytes option \<Rightarrow> u64 \<Rightarrow> unit act" where
  "insert_outcome i status ref_observed validator now = insert_if
     (\<lambda>db. i \<notin> set (map jo_dispatch (db_outcomes db)) \<and> find_dispatch i db \<noteq> None)
     (\<lambda>db. db\<lparr>db_outcomes := db_outcomes db @
        [\<lparr>jo_dispatch = i, jo_status = status, jo_ref = ref_observed, jo_validator = validator, jo_observed = now\<rparr>]\<rparr>)"

definition close_dispatch :: "bytes \<Rightarrow> dispatch_state set \<Rightarrow> outcome_status \<Rightarrow> u64 \<Rightarrow> journal_db \<Rightarrow> journal_db" where
  "close_dispatch i from_states status now db =
     db\<lparr>db_dispatches := map (\<lambda>d. if jp_id d = i \<and> jp_state d \<in> from_states
        then d\<lparr>jp_state := dispatch_of_status status, jp_done := Some now\<rparr> else d) (db_dispatches db)\<rparr>"

definition close_tx_of :: "bytes \<Rightarrow> outcome_status \<Rightarrow> journal_db \<Rightarrow> journal_db" where
  "close_tx_of i status db =
     (case find_dispatch i db of
        None \<Rightarrow> db
      | Some d \<Rightarrow> set_tx_state (jp_tx d) {Tx_Prepared} (tx_of_status status) db)"

definition record_outcome :: "foundation \<Rightarrow> outcome_record \<Rightarrow> u64 \<Rightarrow> unit act" where
  "record_outcome F r now =
     and_then deny_if_quarantined (\<lambda>_. and_then (check_clock now) (\<lambda>_.
     case outcome_status_of (or_status r) of
       None \<Rightarrow> deny Err_Constraint
     | Some status \<Rightarrow> txn
         (and_then (read_state (find_dispatch (or_dispatch r)) jp_state) (\<lambda>state.
          if state \<noteq> Dp_Prepared then deny Err_Constraint
          else
            and_then (insert_outcome (or_dispatch r) status (or_ref_observed r) (or_validator r) now) (\<lambda>_.
            and_then (change (close_dispatch (or_dispatch r) {Dp_Prepared} status now)) (\<lambda>_.
            and_then (change (close_tx_of (or_dispatch r) status)) (\<lambda>_.
            audited F ''outcome_observed''
              (or_dispatch r @ put_str F (status_text status) @ put_opt_str F (or_ref_observed r) @ enc_u64 F now)
              now ())))))))"

section \<open>Barriers and generations\<close>

record barrier_open =
  bo_scope :: string
  bo_reason :: string
  bo_evidence :: string

definition barrier_rows_active :: "string \<Rightarrow> journal_db \<Rightarrow> bool" where
  "barrier_rows_active scope db \<longleftrightarrow> (\<exists>b \<in> set (db_barriers db). jb_scope b = scope \<and> jb_closed b = None)"

definition insert_barrier :: "string \<Rightarrow> string \<Rightarrow> u64 \<Rightarrow> string \<Rightarrow> unit act" where
  "insert_barrier scope reason now evidence = insert_if
     (\<lambda>db. scope \<notin> set (map jb_scope (db_barriers db)))
     (\<lambda>db. db\<lparr>db_barriers := db_barriers db @
        [\<lparr>jb_scope = scope, jb_reason = reason, jb_opened = now, jb_closed = None, jb_evidence = evidence\<rparr>]\<rparr>)"

definition open_barrier :: "foundation \<Rightarrow> barrier_open \<Rightarrow> u64 \<Rightarrow> unit act" where
  "open_barrier F b now = command now
     (and_then (insert_barrier (bo_scope b) (bo_reason b) now (bo_evidence b)) (\<lambda>_.
      audited F ''barrier_opened'' (put_str F (bo_scope b) @ put_str F (bo_reason b) @ enc_u64 F now) now ()))"

definition close_barrier :: "foundation \<Rightarrow> string \<Rightarrow> string \<Rightarrow> u64 \<Rightarrow> unit act" where
  "close_barrier F scope evidence now = command now
     (and_then (query (barrier_rows_active scope)) (\<lambda>active.
      if \<not> active then deny Err_Constraint
      else
        and_then (change (\<lambda>db. db\<lparr>db_barriers := map (\<lambda>b. if jb_scope b = scope \<and> jb_closed b = None
          then b\<lparr>jb_closed := Some now\<rparr> else b) (db_barriers db)\<rparr>)) (\<lambda>_.
        audited F ''barrier_closed'' (put_str F scope @ put_str F evidence @ enc_u64 F now) now ())))"

definition retire_generations :: "journal_db \<Rightarrow> journal_db" where
  "retire_generations db = db\<lparr>db_generations := map (\<lambda>g. g\<lparr>jg_active := False\<rparr>) (db_generations db)\<rparr>"

text \<open>An UPDATE of bound decisions to stale, with the number of rows it changed.\<close>

definition mark_stale :: "(decision_row \<Rightarrow> bool) \<Rightarrow> journal_db \<Rightarrow> nat \<times> journal_db" where
  "mark_stale affected db =
     (length (filter (\<lambda>d. jd_state d = De_Bound \<and> affected d) (db_decisions db)),
      db\<lparr>db_decisions := map (\<lambda>d. if jd_state d = De_Bound \<and> affected d then d\<lparr>jd_state := De_Stale\<rparr> else d) (db_decisions db)\<rparr>)"

definition advance_generation :: "foundation \<Rightarrow> u64 \<Rightarrow> bytes \<Rightarrow> bytes \<Rightarrow> string \<Rightarrow> u64 \<Rightarrow> unit act" where
  "advance_generation F i bundle_digest profile_digest build now = command now
     (and_then (change retire_generations) (\<lambda>_.
      and_then (insert_if (\<lambda>db. i \<notin> set (map jg_id (db_generations db)))
        (\<lambda>db. db\<lparr>db_generations := db_generations db @
           [\<lparr>jg_id = i, jg_bundle = bundle_digest, jg_profile = profile_digest, jg_build = build, jg_activated = now,
             jg_active = True\<rparr>]\<rparr>)) (\<lambda>_.
      and_then (run_sql (\<lambda>db. Inr (mark_stale (\<lambda>d. jd_generation d \<noteq> i) db))) (\<lambda>staled.
      audited F ''generation_advanced''
        (enc_u64 F i @ bundle_digest @ profile_digest @ put_str F build @ enc_u64 F now @ enc_u64 F (of_nat staled))
        now ()))))"

section \<open>Read surface\<close>

definition tx_state_of :: "u64 \<Rightarrow> string act" where
  "tx_state_of i = read_state (find_tx i) (\<lambda>t. tx_text (jt_state t))"

definition decision_state_of :: "bytes \<Rightarrow> string act" where
  "decision_state_of i = read_state (find_decision i) (\<lambda>d. decision_text (jd_state d))"

definition dispatch_state_of :: "bytes \<Rightarrow> string act" where
  "dispatch_state_of i = read_state (find_dispatch i) (\<lambda>d. dispatch_text (jp_state d))"

text \<open>The least identifier of a transaction's rows; blobs compare byte by byte.\<close>

definition first_id :: "(journal_db \<Rightarrow> bytes list) \<Rightarrow> bytes act" where
  "first_id ids =
     and_then (query ids) (\<lambda>found.
       case found of
         [] \<Rightarrow> deny Err_Constraint
       | i # is \<Rightarrow>
           let least = fold min is i in
           if length least \<noteq> 16 then deny Err_Open else ret least)"

definition first_decision_of_transaction :: "u64 \<Rightarrow> bytes act" where
  "first_decision_of_transaction tx = first_id (\<lambda>db. map jd_id (filter (\<lambda>d. jd_tx d = tx) (db_decisions db)))"

definition first_dispatch_of_transaction :: "u64 \<Rightarrow> bytes act" where
  "first_dispatch_of_transaction tx = first_id (\<lambda>db. map jp_id (filter (\<lambda>d. jp_tx d = tx) (db_dispatches db)))"

definition lease_of :: "string \<Rightarrow> lease_row option act" where
  "lease_of workspace = query (find_lease workspace)"

definition journal_barrier_active :: "string \<Rightarrow> bool act" where
  "journal_barrier_active scope = query (barrier_rows_active scope)"

definition audit_event_count :: "u64 act" where
  "audit_event_count = query (\<lambda>db. of_nat (length (db_audit db)))"

definition max_generation_id :: "u64 act" where
  "max_generation_id = query (\<lambda>db. of_int (max_id (map jg_id (db_generations db))))"

definition boot_epoch :: "u64 act" where
  "boot_epoch J = (Inr (jn_boot_epoch J), J)"

definition quarantined :: "bool act" where
  "quarantined J = (Inr (jn_quarantined J), J)"

definition install_id :: "string act" where
  "install_id J = (Inr (jn_install J), J)"

definition audit_append_failures :: "u64 act" where
  "audit_append_failures J = (Inr (jn_append_failures J), J)"

definition get_meta :: "string \<Rightarrow> string option act" where
  "get_meta key = read_meta key"

definition set_meta :: "string \<Rightarrow> string \<Rightarrow> unit act" where
  "set_meta key value = write_meta key value"

definition checkpoint :: "unit act" where
  "checkpoint = exec_sql"

definition append_audit_at :: "foundation \<Rightarrow> string \<Rightarrow> bytes \<Rightarrow> u64 \<Rightarrow> unit act" where
  "append_audit_at F kind payload now =
     and_then deny_if_quarantined (\<lambda>_. and_then (check_clock now) (\<lambda>_ J.
       case txn (and_then (append_audit_row F kind payload) (\<lambda>_. touch_wall_clock now)) J of
         (Inl e, J') \<Rightarrow> (Inl e, J'\<lparr>jn_append_failures := jn_append_failures J' + 1\<rparr>)
       | (Inr x, J') \<Rightarrow> (Inr x, J')))"

section \<open>The audit chain\<close>

text \<open>
  What is wrong with the rows from \<open>expected\<close> on, after a row with hash \<open>prev\<close>; \<open>genesis\<close> is wanted of the first
  row only.
\<close>

fun verify_rows :: "foundation \<Rightarrow> string option \<Rightarrow> int \<Rightarrow> bytes \<Rightarrow> audit_row list \<Rightarrow> journal_error option" where
  "verify_rows F genesis expected prev [] = None"
| "verify_rows F genesis expected prev (a # as) =
     (if ja_seq a \<noteq> expected then Some Err_Chain
      else if length (ja_prev a) \<noteq> 32 \<or> length (ja_hash a) \<noteq> 32 \<or> ja_kind a = [] then Some Err_Chain
      else if prev \<noteq> ja_prev a then Some Err_Chain
      else if payload_capacity_limit < length (put_str F (ja_kind a)) then Some Aborted
      else if chain_hash F prev (ja_kind a) (ja_payload a) \<noteq> ja_hash a then Some Err_Chain
      else if (case genesis of None \<Rightarrow> False | Some g \<Rightarrow> to_hex (ja_hash a) \<noteq> g) then Some Err_Chain
      else verify_rows F None (expected + 1) (ja_hash a) as)"

definition verify_audit_chain :: "foundation \<Rightarrow> unit act" where
  "verify_audit_chain F =
     and_then (read_meta ''genesis_hash'') (\<lambda>genesis.
     case genesis of
       None \<Rightarrow> deny Err_Chain
     | Some g \<Rightarrow>
         and_then (query db_audit) (\<lambda>rows.
         case verify_rows F (Some g) 1 zero_hash rows of
           Some e \<Rightarrow> deny e
         | None \<Rightarrow> if rows = [] then deny Err_Chain else ret ()))"

section \<open>Recovery\<close>

datatype recovery_classification = Rec_Clean | Rec_Reconstructed | Rec_NotPerformed | Rec_IndeterminateConflict | Rec_Quarantined

record pending_dispatch =
  pd_id :: bytes
  pd_transaction :: u64
  pd_plan_digest :: bytes
  pd_state :: string

record dispatch_resolution =
  dr_classification :: recovery_classification
  dr_status :: "string option"
  dr_ref_observed :: "string option"

definition fail_closed_classify :: "pending_dispatch \<Rightarrow> dispatch_resolution" where
  "fail_closed_classify d = \<lparr>dr_classification = Rec_IndeterminateConflict, dr_status = None, dr_ref_observed = None\<rparr>"

record recovery_report =
  rr_classification :: recovery_classification
  rr_unresolved :: nat
  rr_barriers :: nat
  rr_chain_verified :: bool

definition pending_rows :: "journal_db \<Rightarrow> dispatch_row list" where
  "pending_rows db =
     filter (\<lambda>d. (jp_state d = Dp_Prepared \<or> jp_state d = Dp_Dispatched) \<and> jp_id d \<notin> set (map jo_dispatch (db_outcomes db)))
       (db_dispatches db)"

fun read_pending :: "dispatch_row list \<Rightarrow> pending_dispatch list act" where
  "read_pending [] = ret []"
| "read_pending (d # ds) =
     (if length (jp_id d) \<noteq> 16 \<or> length (jp_plan d) \<noteq> 32 then deny Err_Open
      else and_then (read_pending ds) (\<lambda>ps. ret
        (\<lparr>pd_id = jp_id d, pd_transaction = jp_tx d, pd_plan_digest = jp_plan d, pd_state = dispatch_text (jp_state d)\<rparr> # ps)))"

definition apply_resolution :: "foundation \<Rightarrow> pending_dispatch \<Rightarrow> outcome_status \<Rightarrow> string option \<Rightarrow> u64 \<Rightarrow> unit act" where
  "apply_resolution F d status ref_observed now =
     and_then (insert_outcome (pd_id d) status ref_observed None now) (\<lambda>_.
     and_then (change (close_dispatch (pd_id d) {Dp_Prepared, Dp_Dispatched} status now)) (\<lambda>_.
     and_then (change (set_tx_state (pd_transaction d) {Tx_Prepared, Tx_Dispatched} (tx_of_status status))) (\<lambda>_.
     append_audit F ''outcome_observed'' (pd_id d @ put_str F (status_text status) @ enc_u64 F now))))"

record tally =
  ta_barriers :: nat
  ta_conflict :: bool
  ta_reconstructed :: bool
  ta_not_performed :: bool
  ta_quarantined :: bool

definition no_tally :: tally where
  "no_tally = \<lparr>ta_barriers = 0, ta_conflict = False, ta_reconstructed = False, ta_not_performed = False, ta_quarantined = False\<rparr>"

definition reconcile_scope :: "bytes \<Rightarrow> string" where
  "reconcile_scope i = ''journal.reconcile.'' @ to_hex i"

definition enter_quarantine :: "foundation \<Rightarrow> u64 \<Rightarrow> unit act" where
  "enter_quarantine F now =
     and_then (write_meta ''quarantine'' ''1'') (\<lambda>_.
     and_then (append_audit F ''quarantine_entered'' (put_str F ''recovery-inspector-quarantine'' @ enc_u64 F now)) (\<lambda>_ J.
     touch_wall_clock now (J\<lparr>jn_quarantined := True\<rparr>)))"

definition resolve_one :: "foundation \<Rightarrow> (pending_dispatch \<Rightarrow> dispatch_resolution) \<Rightarrow> u64 \<Rightarrow> pending_dispatch \<Rightarrow> tally \<Rightarrow> tally act" where
  "resolve_one F inspect now d t =
     (let r = inspect d in
      case dr_classification r of
        Rec_Reconstructed \<Rightarrow>
          (case outcome_status_of (case dr_status r of None \<Rightarrow> ''succeeded'' | Some s \<Rightarrow> s) of
             None \<Rightarrow> deny Err_Constraint
           | Some status \<Rightarrow>
               and_then (apply_resolution F d status (dr_ref_observed r) now) (\<lambda>_. ret (t\<lparr>ta_reconstructed := True\<rparr>)))
      | Rec_NotPerformed \<Rightarrow>
          and_then (apply_resolution F d Oc_Failed None now) (\<lambda>_. ret (t\<lparr>ta_not_performed := True\<rparr>))
      | Rec_IndeterminateConflict \<Rightarrow>
          and_then (apply_resolution F d Oc_Indeterminate None now) (\<lambda>_.
          and_then (insert_barrier (reconcile_scope (pd_id d)) ''reconciliation-unknown'' now ''inspector=fail-closed'') (\<lambda>_.
          ret (t\<lparr>ta_conflict := True, ta_barriers := ta_barriers t + 1\<rparr>)))
      | Rec_Quarantined \<Rightarrow> and_then (enter_quarantine F now) (\<lambda>_. ret (t\<lparr>ta_quarantined := True\<rparr>))
      | Rec_Clean \<Rightarrow> deny Err_Constraint)"

fun resolve_all :: "foundation \<Rightarrow> (pending_dispatch \<Rightarrow> dispatch_resolution) \<Rightarrow> u64 \<Rightarrow> pending_dispatch list \<Rightarrow> tally \<Rightarrow> tally act" where
  "resolve_all F inspect now [] t = ret t"
| "resolve_all F inspect now (d # ds) t =
     and_then (resolve_one F inspect now d t) (\<lambda>t'. if ta_quarantined t' then ret t' else resolve_all F inspect now ds t')"

definition tally_class :: "tally \<Rightarrow> recovery_classification" where
  "tally_class t =
     (if ta_quarantined t then Rec_Quarantined
      else if ta_conflict t then Rec_IndeterminateConflict
      else if ta_reconstructed t then Rec_Reconstructed
      else if ta_not_performed t then Rec_NotPerformed
      else Rec_Clean)"

definition tally_text :: "tally \<Rightarrow> string" where
  "tally_text t =
     (if ta_conflict t then ''indeterminate''
      else if ta_reconstructed t then ''reconstructed''
      else if ta_not_performed t then ''not_performed''
      else ''clean'')"

definition older_epoch :: "u64 \<Rightarrow> journal_db \<Rightarrow> decision_row \<Rightarrow> bool" where
  "older_epoch epoch db d \<longleftrightarrow> (\<exists>t \<in> set (db_transactions db). jt_id t = jd_tx d \<and> sint (jt_epoch t) < sint epoch)"

text \<open>
  The body of the recovery transaction.  The rows of a SELECT without ORDER BY come in the order \<open>scan\<close> puts them;
  the object's epoch is assigned while the transaction is open.
\<close>

definition recovery_walk ::
    "foundation \<Rightarrow> (pending_dispatch \<Rightarrow> dispatch_resolution) \<Rightarrow> (dispatch_row list \<Rightarrow> dispatch_row list) \<Rightarrow> u64 \<Rightarrow> recovery_report act" where
  "recovery_walk F inspect scan now J =
     (let epoch = jn_boot_epoch J + 1 in
      and_then (write_meta ''boot_epoch'' (to_string_u64 epoch)) (\<lambda>_.
      and_then (run_sql (\<lambda>db. Inr (mark_stale (older_epoch epoch db) db))) (\<lambda>_.
      and_then (query (\<lambda>db. length (filter (\<lambda>d. jd_state d = De_Stale) (db_decisions db)))) (\<lambda>stale_marked J.
      and_then (query (\<lambda>db. scan (pending_rows db))) (\<lambda>rows.
      and_then (read_pending rows) (\<lambda>pendings.
      and_then (resolve_all F inspect now pendings no_tally) (\<lambda>t.
      let report = \<lparr>rr_classification = tally_class t, rr_unresolved = length pendings, rr_barriers = ta_barriers t,
            rr_chain_verified = True\<rparr> in
      if ta_quarantined t then ret report
      else audited F ''recovery_completed''
        (enc_u64 F epoch @ enc_u64 F (of_nat stale_marked) @ enc_u64 F (of_nat (length pendings)) @
         enc_u64 F (of_nat (ta_barriers t)) @ put_str F (tally_text t)) now report)))
      (J\<lparr>jn_boot_epoch := epoch\<rparr>)))) J)"

definition mark_quarantined :: "journal \<Rightarrow> journal" where
  "mark_quarantined J = snd (txn (write_meta ''quarantine'' ''1'') J)"

definition recover_at ::
    "foundation \<Rightarrow> (pending_dispatch \<Rightarrow> dispatch_resolution) \<Rightarrow> (dispatch_row list \<Rightarrow> dispatch_row list) \<Rightarrow> u64 \<Rightarrow> recovery_report act" where
  "recover_at F inspect scan now J =
     (case quick_check J of
        (Inl e, J1) \<Rightarrow> (Inl e, mark_quarantined J1)
      | (Inr _, J1) \<Rightarrow>
          (case verify_audit_chain F J1 of
             (Inl e, J2) \<Rightarrow> (Inl e, mark_quarantined J2)
           | (Inr _, J2) \<Rightarrow> and_then (check_clock now) (\<lambda>_. txn (recovery_walk F inspect scan now)) J2))"

section \<open>The port\<close>

datatype record_kind =
    GenerationActivated | SessionOpened | TransactionOpened | RequirementTracked | EvidenceAccepted | DecisionBound
  | DecisionConsumed | LeaseAcquired | DispatchPrepared | OutcomeObserved | BarrierOpened | BarrierClosed | AuditEvent

fun port_kind_name :: "record_kind \<Rightarrow> string" where
  "port_kind_name GenerationActivated = ''record_generation_activated''"
| "port_kind_name SessionOpened = ''record_session_opened''"
| "port_kind_name TransactionOpened = ''record_transaction_opened''"
| "port_kind_name RequirementTracked = ''record_requirement_tracked''"
| "port_kind_name EvidenceAccepted = ''record_evidence_accepted''"
| "port_kind_name DecisionBound = ''record_decision_bound''"
| "port_kind_name DecisionConsumed = ''record_decision_consumed''"
| "port_kind_name LeaseAcquired = ''record_lease_acquired''"
| "port_kind_name DispatchPrepared = ''record_dispatch_prepared''"
| "port_kind_name OutcomeObserved = ''record_outcome_observed''"
| "port_kind_name BarrierOpened = ''record_barrier_opened''"
| "port_kind_name BarrierClosed = ''record_barrier_closed''"
| "port_kind_name AuditEvent = ''record_audit''"

record journal_record =
  rc_kind :: record_kind
  rc_record_id :: bytes
  rc_transaction :: u64
  rc_payload :: bytes

definition append_record :: "foundation \<Rightarrow> journal_record \<Rightarrow> u64 \<Rightarrow> unit act" where
  "append_record F r now = command now
     (audited F (port_kind_name (rc_kind r)) (rc_record_id r @ enc_u64 F (rc_transaction r) @ put_blob F (rc_payload r)) now ())"

text \<open>\<^verbatim>\<open>recover\<close>: every error becomes a quarantined report; \<open>None\<close> is an aborted run.\<close>

definition recover ::
    "foundation \<Rightarrow> (pending_dispatch \<Rightarrow> dispatch_resolution) \<Rightarrow> (dispatch_row list \<Rightarrow> dispatch_row list) \<Rightarrow> u64 \<Rightarrow> journal \<Rightarrow>
     recovery_report option \<times> journal" where
  "recover F inspect scan now J =
     (case recover_at F inspect scan now J of
        (Inr report, J') \<Rightarrow> (Some report, J')
      | (Inl e, J') \<Rightarrow>
          (if e = Aborted then None
           else Some \<lparr>rr_classification = Rec_Quarantined, rr_unresolved = 0, rr_barriers = 0, rr_chain_verified = False\<rparr>, J'))"

section \<open>Opening\<close>

datatype open_intent = CreateNew | OpenExisting

text \<open>What is at the path: the flag says whether the catalog of the database has the table of meta values.\<close>

datatype journal_file = No_File | Empty_File | Database bool journal_db

definition connection :: "(nat \<Rightarrow> stmt_fault option) \<Rightarrow> bool \<Rightarrow> journal_db \<Rightarrow> journal" where
  "connection faults intact db =
     \<lparr>jn_db = db, jn_install = [], jn_boot_epoch = 0, jn_quarantined = False, jn_append_failures = 0, jn_intact = intact,
      jn_faults = faults, jn_tick = 0\<rparr>"

definition populate :: "foundation \<Rightarrow> string \<Rightarrow> u64 \<Rightarrow> unit act" where
  "populate F install now = txn
     (and_then exec_sql (\<lambda>_.
      and_then (write_meta ''schema_version'' (to_string_u64 current_schema_version)) (\<lambda>_.
      and_then (write_meta ''install_id'' install) (\<lambda>_.
      and_then (write_meta ''boot_epoch'' ''0'') (\<lambda>_.
      and_then (write_meta ''quarantine'' ''0'') (\<lambda>_.
      and_then (write_meta ''last_wall_ms'' (to_string_u64 now)) (\<lambda>_.
      and_then (payload_span (put_str F install @ enc_u64 F current_schema_version @ enc_u64 F now)) (\<lambda>p.
      and_then (append_audit_row F ''journal_created'' p) (\<lambda>genesis.
      write_meta ''genesis_hash'' (to_hex genesis))))))))))"

fun require_meta :: "string list \<Rightarrow> unit act" where
  "require_meta [] = ret ()"
| "require_meta (k # ks) =
     and_then (read_meta k) (\<lambda>v. if v = None then deny Err_Open else require_meta ks)"

definition validate_existing :: "bool \<Rightarrow> unit act" where
  "validate_existing has_meta_table =
     and_then exec_sql (\<lambda>_.
     if \<not> has_meta_table then deny Err_Migration
     else
       and_then (read_meta ''schema_version'') (\<lambda>version.
       if version \<noteq> Some (to_string_u64 current_schema_version) then deny Err_Migration
       else require_meta [''install_id'', ''boot_epoch'', ''quarantine'', ''last_wall_ms'', ''genesis_hash'']))"

text \<open>
  \<^verbatim>\<open>JournalDb::open\<close>: the first statements of the schedule are the check of the path, the size of the file, the
  opening of the database and its pragmas.  The value of the physical check is not looked at.
\<close>

definition journal_db_open :: "foundation \<Rightarrow> u32 list \<Rightarrow> open_intent \<Rightarrow> u64 \<Rightarrow> journal_file \<Rightarrow> unit act" where
  "journal_db_open F device intent now file =
     and_then exec_sql (\<lambda>_.
     if intent = CreateNew \<and> file \<noteq> No_File \<or> intent = OpenExisting \<and> file = No_File then deny Err_Open
     else
       and_then (if intent = OpenExisting then exec_sql else ret ()) (\<lambda>_.
       if intent = OpenExisting \<and> file = Empty_File then deny Err_Open
       else
         and_then exec_sql (\<lambda>_. and_then exec_sql (\<lambda>_. and_then quick_check (\<lambda>_.
         if intent = CreateNew then populate F (to_hex (fst (csrandom_fill 16 device))) now
         else validate_existing (case file of Database has_meta _ \<Rightarrow> has_meta | _ \<Rightarrow> False))))))"

definition journal_open ::
    "foundation \<Rightarrow> (nat \<Rightarrow> stmt_fault option) \<Rightarrow> bool \<Rightarrow> u32 list \<Rightarrow> open_intent \<Rightarrow> u64 \<Rightarrow> journal_file \<Rightarrow> journal_error + journal" where
  "journal_open F faults intact device intent now file =
     (case and_then (journal_db_open F device intent now file) (\<lambda>_.
        and_then (read_meta ''install_id'') (\<lambda>install.
        case install of
          None \<Rightarrow> deny Err_Open
        | Some i \<Rightarrow>
            and_then (read_meta ''boot_epoch'') (\<lambda>epoch.
            case Option.bind epoch journal_parse_u64 of
              None \<Rightarrow> deny Err_Open
            | Some n \<Rightarrow> (\<lambda>J. (Inr (), J\<lparr>jn_install := i, jn_boot_epoch := n\<rparr>)))))
        (connection faults intact (case file of Database _ db \<Rightarrow> db | _ \<Rightarrow> empty_db)) of
        (Inl e, _) \<Rightarrow> Inl e
      | (Inr _, J) \<Rightarrow> Inr J)"

end
