(* ===== verification/Journal_Laws.thy ===== *)
theory Journal_Laws
  imports Journal
begin

text \<open>
  How the pieces of a journal method compose: what a successful run of each combinator says about the object before
  and after, that a transaction that fails leaves the tables alone, and, per command, the one function on the tables
  that its successful runs compute together with the conditions under which they succeed.
\<close>

section \<open>Successful runs\<close>

lemma tick_sel [simp]:
  "jn_db (tick J) = jn_db J" "jn_boot_epoch (tick J) = jn_boot_epoch J" "jn_install (tick J) = jn_install J"
  "jn_quarantined (tick J) = jn_quarantined J" "jn_append_failures (tick J) = jn_append_failures J"
  "jn_intact (tick J) = jn_intact J" "jn_faults (tick J) = jn_faults J"
  by (simp_all add: tick_def)

lemma ret_ok [simp]: "ret x J = (Inr y, J') \<longleftrightarrow> y = x \<and> J' = J"
  by (auto simp: ret_def)

lemma deny_ok [simp]: "deny e J \<noteq> (Inr y, J')"
  by (simp add: deny_def)

lemma and_then_ok:
  "and_then m k J = (Inr y, J') \<longleftrightarrow> (\<exists>x J1. m J = (Inr x, J1) \<and> k x J1 = (Inr y, J'))"
  by (auto simp: and_then_def split: prod.splits sum.splits)

lemma run_sql_ok:
  "run_sql f J = (Inr x, J') \<longleftrightarrow>
     jn_faults J (jn_tick J) = None \<and> (\<exists>db. f (jn_db J) = Inr (x, db) \<and> J' = (tick J)\<lparr>jn_db := db\<rparr>)"
  by (auto simp: run_sql_def split: option.splits sum.splits)

lemma query_ok:
  "query f J = (Inr x, J') \<longleftrightarrow> jn_faults J (jn_tick J) = None \<and> x = f (jn_db J) \<and> J' = tick J"
  by (auto simp: query_def run_sql_def split: option.splits)

lemma change_ok:
  "change f J = (Inr x, J') \<longleftrightarrow> jn_faults J (jn_tick J) = None \<and> J' = (tick J)\<lparr>jn_db := f (jn_db J)\<rparr>"
  by (auto simp: change_def run_sql_ok)

lemma insert_if_ok:
  "insert_if p f J = (Inr x, J') \<longleftrightarrow>
     jn_faults J (jn_tick J) = None \<and> p (jn_db J) \<and> J' = (tick J)\<lparr>jn_db := f (jn_db J)\<rparr>"
  by (auto simp: insert_if_def run_sql_ok split: if_splits)

lemma exec_sql_ok: "exec_sql J = (Inr x, J') \<longleftrightarrow> jn_faults J (jn_tick J) = None \<and> J' = tick J"
  by (auto simp: exec_sql_def)

lemma payload_span_ok: "payload_span bs J = (Inr x, J') \<longleftrightarrow> length bs \<le> payload_capacity_limit \<and> x = bs \<and> J' = J"
  by (auto simp: payload_span_def)

lemma read_state_ok:
  "read_state lookup state J = (Inr x, J') \<longleftrightarrow>
     jn_faults J (jn_tick J) = None \<and> J' = tick J \<and> (\<exists>r. lookup (jn_db J) = Some r \<and> x = state r)"
  by (auto simp: read_state_def and_then_ok query_ok split: option.splits)

lemma txn_ok:
  "txn body J = (Inr x, J') \<longleftrightarrow>
     (\<exists>J2. jn_faults J (jn_tick J) = None \<and> body (tick J) = (Inr x, J2) \<and> jn_faults J2 (jn_tick J2) = None \<and> J' = tick J2)"
  by (auto simp: txn_def exec_sql_def split: prod.splits sum.splits if_splits)

lemmas run_ok = and_then_ok query_ok change_ok insert_if_ok exec_sql_ok payload_span_ok read_state_ok

text \<open>A transaction that fails has no effect on the tables.\<close>

lemma txn_failed: "txn body J = (Inl e, J') \<Longrightarrow> jn_db J' = jn_db J"
  by (auto simp: txn_def exec_sql_def split: prod.splits sum.splits if_splits)

section \<open>The tables after an audited step\<close>

definition parsed_wall :: "journal_db \<Rightarrow> u64 option" where
  "parsed_wall db = Option.bind (db_meta db ''last_wall_ms'') journal_parse_u64"

definition touched :: "u64 \<Rightarrow> journal_db \<Rightarrow> journal_db" where
  "touched now db =
     db\<lparr>db_meta := (db_meta db)(''last_wall_ms'' \<mapsto> to_string_u64
       (case parsed_wall db of Some l \<Rightarrow> if now < l then l else now | None \<Rightarrow> now))\<rparr>"

definition prev_hash :: "journal_db \<Rightarrow> bytes" where
  "prev_hash db = (case last_hash db of None \<Rightarrow> zero_hash | Some h \<Rightarrow> h)"

definition event_row :: "foundation \<Rightarrow> string \<Rightarrow> bytes \<Rightarrow> journal_db \<Rightarrow> audit_row" where
  "event_row F kind payload db =
     \<lparr>ja_seq = 0, ja_prev = prev_hash db, ja_hash = chain_hash F (prev_hash db) kind payload, ja_kind = kind, ja_payload = payload\<rparr>"

definition logged :: "foundation \<Rightarrow> string \<Rightarrow> bytes \<Rightarrow> journal_db \<Rightarrow> journal_db" where
  "logged F kind payload db = add_audit (event_row F kind payload db) db"

definition loggable :: "foundation \<Rightarrow> string \<Rightarrow> journal_db \<Rightarrow> bool" where
  "loggable F kind db \<longleftrightarrow>
     length (prev_hash db) = 32 \<and> length (put_str F kind) \<le> payload_capacity_limit \<and> db_seq db < 2 ^ 63 - 1"

lemma append_audit_row_ok:
  assumes "append_audit_row F kind payload J = (Inr h, J')"
  shows "loggable F kind (jn_db J) \<and> jn_db J' = logged F kind payload (jn_db J) \<and>
    h = chain_hash F (prev_hash (jn_db J)) kind payload \<and>
    jn_boot_epoch J' = jn_boot_epoch J \<and> jn_faults J' = jn_faults J \<and> jn_quarantined J' = jn_quarantined J"
  using assms unfolding append_audit_row_def
  by (auto simp: run_ok loggable_def logged_def event_row_def prev_hash_def Let_def split: if_splits)

lemma append_audit_ok:
  assumes "append_audit F kind payload J = (Inr u, J')"
  shows "length payload \<le> payload_capacity_limit \<and> loggable F kind (jn_db J) \<and> jn_db J' = logged F kind payload (jn_db J) \<and>
    jn_boot_epoch J' = jn_boot_epoch J \<and> jn_faults J' = jn_faults J \<and> jn_quarantined J' = jn_quarantined J"
  using assms unfolding append_audit_def by (auto simp: run_ok dest: append_audit_row_ok)

lemma touch_wall_clock_ok:
  "touch_wall_clock now J = (Inr u, J') \<Longrightarrow>
     jn_db J' = touched now (jn_db J) \<and> jn_boot_epoch J' = jn_boot_epoch J \<and> jn_faults J' = jn_faults J \<and>
     jn_quarantined J' = jn_quarantined J"
  by (auto simp: touch_wall_clock_def read_meta_def write_meta_def run_ok touched_def parsed_wall_def)

definition audit_step :: "foundation \<Rightarrow> string \<Rightarrow> bytes \<Rightarrow> u64 \<Rightarrow> journal_db \<Rightarrow> journal_db" where
  "audit_step F kind payload now db = touched now (logged F kind payload db)"

lemma audited_ok:
  assumes "audited F kind payload now x J = (Inr y, J')"
  shows "y = x \<and> length payload \<le> payload_capacity_limit \<and> loggable F kind (jn_db J) \<and>
    jn_db J' = audit_step F kind payload now (jn_db J) \<and> jn_boot_epoch J' = jn_boot_epoch J \<and>
    jn_faults J' = jn_faults J \<and> jn_quarantined J' = jn_quarantined J"
  using assms unfolding audited_def and_then_ok ret_ok
  by (auto simp: audit_step_def dest!: append_audit_ok touch_wall_clock_ok)

section \<open>Commands\<close>

definition guard_open :: "u64 \<Rightarrow> journal_db \<Rightarrow> bool" where
  "guard_open now db \<longleftrightarrow>
     db_meta db ''quarantine'' \<noteq> Some ''1'' \<and> (case parsed_wall db of None \<Rightarrow> True | Some l \<Rightarrow> \<not> now + 300000 < l)"

lemma guards_ok:
  assumes "and_then deny_if_quarantined (\<lambda>_. and_then (check_clock now) k) J = (Inr x, J')"
  obtains J1 where "guard_open now (jn_db J)" "jn_db J1 = jn_db J" "jn_boot_epoch J1 = jn_boot_epoch J"
    "jn_faults J1 = jn_faults J" "\<not> jn_quarantined J1" "k () J1 = (Inr x, J')"
proof -
  obtain J1 J2 where 1: "deny_if_quarantined J = (Inr (), J1)" and 2: "check_clock now J1 = (Inr (), J2)"
    and 3: "k () J2 = (Inr x, J')"
    using assms unfolding and_then_ok by auto
  have q: "db_meta (jn_db J) ''quarantine'' \<noteq> Some ''1''" "J1 = (tick J)\<lparr>jn_quarantined := False\<rparr>"
    using 1 unfolding deny_if_quarantined_def by (auto simp: read_meta_def run_ok split: if_splits)
  have c: "case parsed_wall (jn_db J1) of None \<Rightarrow> True | Some l \<Rightarrow> \<not> now + 300000 < l" "J2 = tick J1"
    using 2 unfolding check_clock_def
    by (auto simp: read_meta_def run_ok parsed_wall_def split: option.splits if_splits)
  show thesis
    by (rule that [of J2]) (use q c 3 in \<open>simp_all add: guard_open_def\<close>)
qed

lemma command_ok:
  assumes "command now body J = (Inr x, J')"
  obtains J1 J2 where "guard_open now (jn_db J)" "jn_db J1 = jn_db J" "jn_boot_epoch J1 = jn_boot_epoch J"
    "jn_faults J1 = jn_faults J" "\<not> jn_quarantined J1" "body J1 = (Inr x, J2)" "J' = tick J2"
proof -
  obtain J1 where J1: "guard_open now (jn_db J)" "jn_db J1 = jn_db J" "jn_boot_epoch J1 = jn_boot_epoch J"
    "jn_faults J1 = jn_faults J" "\<not> jn_quarantined J1" "txn body J1 = (Inr x, J')"
    using guards_ok assms unfolding command_def by metis
  obtain J2 where "body (tick J1) = (Inr x, J2)" "J' = tick J2"
    using J1(6) unfolding txn_ok by auto
  then show thesis by (intro that [of "tick J1" J2]) (use J1 in simp_all)
qed

lemma and_then_failed:
  "and_then m k J = (Inl e, J') \<longleftrightarrow>
     m J = (Inl e, J') \<or> (\<exists>x J1. m J = (Inr x, J1) \<and> k x J1 = (Inl e, J'))"
  by (auto simp: and_then_def split: prod.splits sum.splits)

text \<open>Pieces that only read.\<close>

definition read_only :: "'a act \<Rightarrow> bool" where
  "read_only m \<longleftrightarrow> (\<forall>J. jn_db (snd (m J)) = jn_db J)"

lemma read_onlyD: "read_only m \<Longrightarrow> m J = (r, J') \<Longrightarrow> jn_db J' = jn_db J"
  unfolding read_only_def by (metis snd_conv)

lemma read_only_query [intro]: "read_only (query f)"
  by (simp add: read_only_def query_def run_sql_def split: option.split)

lemma read_only_ret [intro]: "read_only (ret x)" "read_only (deny e)"
  by (simp_all add: read_only_def ret_def deny_def)

lemma read_only_and_then [intro]: "read_only m \<Longrightarrow> (\<And>x. read_only (k x)) \<Longrightarrow> read_only (and_then m k)"
  by (simp add: read_only_def and_then_def split: prod.split sum.split) (metis snd_conv)

lemma read_only_guards: "read_only deny_if_quarantined" "read_only (check_clock now)"
proof -
  show "read_only deny_if_quarantined"
    unfolding deny_if_quarantined_def read_meta_def
    by (rule read_only_and_then, rule read_only_query) (simp add: read_only_def)
  show "read_only (check_clock now)"
    unfolding check_clock_def read_meta_def
    by (rule read_only_and_then) (auto intro: read_only_query split: option.split)
qed

lemma guards_failed:
  assumes "and_then deny_if_quarantined (\<lambda>_. and_then (check_clock now) k) J = (Inl e, J')"
    and k: "\<And>J1. k () J1 = (Inl e, J') \<Longrightarrow> jn_db J' = jn_db J1"
  shows "jn_db J' = jn_db J"
proof -
  consider "deny_if_quarantined J = (Inl e, J')"
    | J1 where "deny_if_quarantined J = (Inr (), J1)" "check_clock now J1 = (Inl e, J')"
    | J1 J2 where "deny_if_quarantined J = (Inr (), J1)" "check_clock now J1 = (Inr (), J2)" "k () J2 = (Inl e, J')"
    using assms(1) unfolding and_then_failed by auto
  then show ?thesis
    by cases (use k read_onlyD [OF read_only_guards(1)] read_onlyD [OF read_only_guards(2)] in \<open>force+\<close>)
qed

text \<open>A command that reports an error has changed no table.\<close>

lemma command_failed: "command now body J = (Inl e, J') \<Longrightarrow> jn_db J' = jn_db J"
  unfolding command_def by (erule guards_failed) (rule txn_failed)

subsection \<open>What each command does to the tables\<close>

definition add_session :: "session_open \<Rightarrow> u64 \<Rightarrow> journal_db \<Rightarrow> journal_db" where
  "add_session s now db = db\<lparr>db_sessions := db_sessions db @
     [\<lparr>js_id = next_id (map js_id (db_sessions db)), js_generation = so_generation s, js_actor = so_actor s,
       js_harness = so_harness s, js_opened = now\<rparr>]\<rparr>"

lemma open_session_ok:
  assumes "open_session F s now J = (Inr row, J')"
  shows "guard_open now (jn_db J) \<and> (\<exists>g \<in> set (db_generations (jn_db J)). jg_id g = so_generation s \<and> jg_active g) \<and>
    row = next_id (map js_id (db_sessions (jn_db J))) \<and> jn_boot_epoch J' = jn_boot_epoch J \<and> jn_faults J' = jn_faults J \<and>
    (\<exists>payload. loggable F ''session_opened'' (add_session s now (jn_db J)) \<and>
       jn_db J' = audit_step F ''session_opened'' payload now (add_session s now (jn_db J)))"
  using assms unfolding open_session_def
  by (elim command_ok) (auto simp: run_ok run_sql_ok add_session_def Let_def split: if_splits dest!: audited_ok)

definition add_tx :: "u64 \<Rightarrow> transaction_open \<Rightarrow> journal_db \<Rightarrow> journal_db" where
  "add_tx epoch t db = db\<lparr>db_transactions := db_transactions db @ [new_tx (next_id (map jt_id (db_transactions db))) epoch t]\<rparr>"

lemma open_journal_transaction_ok:
  assumes "open_journal_transaction F t now J = (Inr i, J')"
  shows "guard_open now (jn_db J) \<and> i = next_id (map jt_id (db_transactions (jn_db J))) \<and> find_tx i (jn_db J) = None \<and>
    jn_boot_epoch J' = jn_boot_epoch J \<and> jn_faults J' = jn_faults J \<and>
    (\<exists>payload. loggable F ''transaction_opened'' (add_tx (jn_boot_epoch J) t (jn_db J)) \<and>
       jn_db J' = audit_step F ''transaction_opened'' payload now (add_tx (jn_boot_epoch J) t (jn_db J)))"
  using assms unfolding open_journal_transaction_def
  by (elim command_ok) (auto simp: run_ok add_tx_def Let_def dest!: audited_ok)

lemma accept_evidence_ok:
  assumes "accept_evidence F tx evidence now J = (Inr u, J')"
  shows "guard_open now (jn_db J) \<and> (\<exists>r. find_tx tx (jn_db J) = Some r \<and> tx_open (jt_state r)) \<and>
    jn_boot_epoch J' = jn_boot_epoch J \<and> jn_faults J' = jn_faults J \<and>
    (\<exists>payload. loggable F ''evidence_accepted'' (jn_db J) \<and>
       jn_db J' = audit_step F ''evidence_accepted'' payload now (jn_db J))"
  using assms unfolding accept_evidence_def
  by (elim command_ok) (auto simp: run_ok split: if_splits dest!: audited_ok)

definition add_decision :: "decision_bind \<Rightarrow> journal_db \<Rightarrow> journal_db" where
  "add_decision d db = set_tx_state (bd_transaction d) {Tx_Observed, Tx_Judging} Tx_Decided
     (db\<lparr>db_decisions := db_decisions db @ [bound_row d]\<rparr>)"

lemma bind_decision_ok:
  assumes "bind_decision F d now J = (Inr u, J')"
  shows "guard_open now (jn_db J) \<and> (\<exists>r. find_tx (bd_transaction d) (jn_db J) = Some r \<and> tx_open (jt_state r)) \<and>
    find_decision (bd_id d) (jn_db J) = None \<and> bd_token_hash d \<notin> set (map jd_token (db_decisions (jn_db J))) \<and>
    jn_boot_epoch J' = jn_boot_epoch J \<and> jn_faults J' = jn_faults J \<and>
    (\<exists>payload. loggable F ''decision_bound'' (add_decision d (jn_db J)) \<and>
       jn_db J' = audit_step F ''decision_bound'' payload now (add_decision d (jn_db J)))"
  using assms unfolding bind_decision_def
  by (elim command_ok) (auto simp: run_ok add_decision_def split: if_splits dest!: audited_ok)

lemma consume_decision_ok:
  assumes "consume_decision F i now J = (Inr u, J')"
  shows "guard_open now (jn_db J) \<and>
    (\<exists>d. find_decision i (jn_db J) = Some d \<and> jd_state d = De_Bound \<and> now \<le> jd_expires d) \<and>
    jn_boot_epoch J' = jn_boot_epoch J \<and> jn_faults J' = jn_faults J \<and>
    (\<exists>payload. loggable F ''decision_consumed'' (consume_row i now (jn_db J)) \<and>
       jn_db J' = audit_step F ''decision_consumed'' payload now (consume_row i now (jn_db J)))"
  using assms unfolding consume_decision_def
  by (elim command_ok) (auto simp: run_ok not_less split: option.splits if_splits dest!: audited_ok intro: decision_state.exhaust)

definition lease_free :: "lease_request \<Rightarrow> u64 \<Rightarrow> journal_db \<Rightarrow> bool" where
  "lease_free r now db \<longleftrightarrow>
     (case find_lease (lr_workspace r) db of None \<Rightarrow> True | Some l \<Rightarrow> jl_expires l < now \<or> jl_holder l = lr_holder r)"

definition next_lease :: "u64 \<Rightarrow> lease_request \<Rightarrow> u64 \<Rightarrow> journal_db \<Rightarrow> lease_row" where
  "next_lease boot r now db =
     \<lparr>jl_workspace = lr_workspace r, jl_holder = lr_holder r, jl_boot = boot,
      jl_epoch = (case find_lease (lr_workspace r) db of None \<Rightarrow> 1 | Some l \<Rightarrow> jl_epoch l + 1),
      jl_acquired = now, jl_expires = now + lr_ttl_ms r\<rparr>"

lemma acquire_journal_lease_ok:
  assumes "acquire_journal_lease F r now J = (Inr l, J')"
  shows "guard_open now (jn_db J) \<and> lease_free r now (jn_db J) \<and> l = next_lease (jn_boot_epoch J) r now (jn_db J) \<and>
    jn_boot_epoch J' = jn_boot_epoch J \<and> jn_faults J' = jn_faults J \<and>
    (\<exists>payload. loggable F ''lease_acquired'' (put_lease l (jn_db J)) \<and>
       jn_db J' = audit_step F ''lease_acquired'' payload now (put_lease l (jn_db J)))"
  using assms unfolding acquire_journal_lease_def
  by (elim command_ok)
     (auto simp: run_ok lease_free_def next_lease_def Let_def not_le split: if_splits option.splits dest!: audited_ok)

definition add_dispatch :: "dispatch_prepared \<Rightarrow> u64 \<Rightarrow> journal_db \<Rightarrow> journal_db" where
  "add_dispatch d now db = set_tx_state (dp_transaction d) {Tx_Decided} Tx_Prepared
     (db\<lparr>db_dispatches := db_dispatches db @
        [\<lparr>jp_id = dp_id d, jp_tx = dp_transaction d, jp_plan = dp_plan_digest d, jp_state = Dp_Prepared, jp_started = now,
          jp_done = None\<rparr>]\<rparr>)"

lemma record_dispatch_prepared_ok:
  assumes "record_dispatch_prepared F d now J = (Inr u, J')"
  shows "guard_open now (jn_db J) \<and> (\<exists>r. find_tx (dp_transaction d) (jn_db J) = Some r \<and> jt_state r = Tx_Decided) \<and>
    find_dispatch (dp_id d) (jn_db J) = None \<and> jn_boot_epoch J' = jn_boot_epoch J \<and> jn_faults J' = jn_faults J \<and>
    (\<exists>payload. loggable F ''dispatch_prepared'' (add_dispatch d now (jn_db J)) \<and>
       jn_db J' = audit_step F ''dispatch_prepared'' payload now (add_dispatch d now (jn_db J)))"
  using assms unfolding record_dispatch_prepared_def
  by (elim command_ok) (auto simp: run_ok add_dispatch_def split: if_splits dest!: audited_ok)

definition add_outcome :: "bytes \<Rightarrow> outcome_status \<Rightarrow> string option \<Rightarrow> bytes option \<Rightarrow> u64 \<Rightarrow> journal_db \<Rightarrow> journal_db" where
  "add_outcome i status ref_observed validator now db = db\<lparr>db_outcomes := db_outcomes db @
     [\<lparr>jo_dispatch = i, jo_status = status, jo_ref = ref_observed, jo_validator = validator, jo_observed = now\<rparr>]\<rparr>"

lemma insert_outcome_ok:
  "insert_outcome i status ro v now J = (Inr u, J') \<longleftrightarrow>
     jn_faults J (jn_tick J) = None \<and> i \<notin> set (map jo_dispatch (db_outcomes (jn_db J))) \<and> find_dispatch i (jn_db J) \<noteq> None \<and>
     J' = (tick J)\<lparr>jn_db := add_outcome i status ro v now (jn_db J)\<rparr>"
  by (auto simp: insert_outcome_def insert_if_ok add_outcome_def)

definition settle_outcome :: "outcome_record \<Rightarrow> outcome_status \<Rightarrow> u64 \<Rightarrow> journal_db \<Rightarrow> journal_db" where
  "settle_outcome r status now db =
     close_tx_of (or_dispatch r) status
       (close_dispatch (or_dispatch r) {Dp_Prepared} status now
         (add_outcome (or_dispatch r) status (or_ref_observed r) (or_validator r) now db))"

lemma record_outcome_ok:
  assumes "record_outcome F r now J = (Inr u, J')"
  obtains status d payload where "guard_open now (jn_db J)" "outcome_status_of (or_status r) = Some status"
    "find_dispatch (or_dispatch r) (jn_db J) = Some d" "jp_state d = Dp_Prepared"
    "or_dispatch r \<notin> set (map jo_dispatch (db_outcomes (jn_db J)))"
    "jn_boot_epoch J' = jn_boot_epoch J" "jn_faults J' = jn_faults J"
    "loggable F ''outcome_observed'' (settle_outcome r status now (jn_db J))"
    "jn_db J' = audit_step F ''outcome_observed'' payload now (settle_outcome r status now (jn_db J))"
  using assms unfolding record_outcome_def
  by (elim guards_ok)
     (auto simp: txn_ok run_ok insert_outcome_ok settle_outcome_def split: if_splits option.splits dest!: audited_ok)

definition add_barrier :: "string \<Rightarrow> string \<Rightarrow> u64 \<Rightarrow> string \<Rightarrow> journal_db \<Rightarrow> journal_db" where
  "add_barrier scope reason now evidence db = db\<lparr>db_barriers := db_barriers db @
     [\<lparr>jb_scope = scope, jb_reason = reason, jb_opened = now, jb_closed = None, jb_evidence = evidence\<rparr>]\<rparr>"

lemma insert_barrier_ok:
  "insert_barrier scope reason now evidence J = (Inr u, J') \<longleftrightarrow>
     jn_faults J (jn_tick J) = None \<and> scope \<notin> set (map jb_scope (db_barriers (jn_db J))) \<and>
     J' = (tick J)\<lparr>jn_db := add_barrier scope reason now evidence (jn_db J)\<rparr>"
  by (auto simp: insert_barrier_def insert_if_ok add_barrier_def)

lemma open_barrier_ok:
  assumes "open_barrier F b now J = (Inr u, J')"
  shows "guard_open now (jn_db J) \<and> bo_scope b \<notin> set (map jb_scope (db_barriers (jn_db J))) \<and>
    jn_boot_epoch J' = jn_boot_epoch J \<and> jn_faults J' = jn_faults J \<and>
    (\<exists>payload. loggable F ''barrier_opened'' (add_barrier (bo_scope b) (bo_reason b) now (bo_evidence b) (jn_db J)) \<and>
       jn_db J' = audit_step F ''barrier_opened'' payload now (add_barrier (bo_scope b) (bo_reason b) now (bo_evidence b) (jn_db J)))"
  using assms unfolding open_barrier_def
  by (elim command_ok) (auto simp: and_then_ok insert_barrier_ok dest!: audited_ok)

definition shut_barrier :: "string \<Rightarrow> u64 \<Rightarrow> journal_db \<Rightarrow> journal_db" where
  "shut_barrier scope now db = db\<lparr>db_barriers := map (\<lambda>b. if jb_scope b = scope \<and> jb_closed b = None
     then b\<lparr>jb_closed := Some now\<rparr> else b) (db_barriers db)\<rparr>"

lemma close_barrier_ok:
  assumes "close_barrier F scope evidence now J = (Inr u, J')"
  shows "guard_open now (jn_db J) \<and> barrier_rows_active scope (jn_db J) \<and>
    jn_boot_epoch J' = jn_boot_epoch J \<and> jn_faults J' = jn_faults J \<and>
    (\<exists>payload. loggable F ''barrier_closed'' (shut_barrier scope now (jn_db J)) \<and>
       jn_db J' = audit_step F ''barrier_closed'' payload now (shut_barrier scope now (jn_db J)))"
  using assms unfolding close_barrier_def
  by (elim command_ok) (auto simp: run_ok shut_barrier_def split: if_splits dest!: audited_ok)

definition add_generation :: "u64 \<Rightarrow> bytes \<Rightarrow> bytes \<Rightarrow> string \<Rightarrow> u64 \<Rightarrow> journal_db \<Rightarrow> journal_db" where
  "add_generation i bundle_digest profile_digest build now db =
     snd (mark_stale (\<lambda>d. jd_generation d \<noteq> i)
       ((retire_generations db)\<lparr>db_generations := db_generations (retire_generations db) @
          [\<lparr>jg_id = i, jg_bundle = bundle_digest, jg_profile = profile_digest, jg_build = build, jg_activated = now,
            jg_active = True\<rparr>]\<rparr>))"

lemma advance_generation_ok:
  assumes "advance_generation F i bdg pdg build now J = (Inr u, J')"
  shows "guard_open now (jn_db J) \<and> i \<notin> set (map jg_id (db_generations (jn_db J))) \<and>
    jn_boot_epoch J' = jn_boot_epoch J \<and> jn_faults J' = jn_faults J \<and>
    (\<exists>payload. loggable F ''generation_advanced'' (add_generation i bdg pdg build now (jn_db J)) \<and>
       jn_db J' = audit_step F ''generation_advanced'' payload now (add_generation i bdg pdg build now (jn_db J)))"
  using assms unfolding advance_generation_def
  by (elim command_ok)
     (auto simp: run_ok run_sql_ok add_generation_def mark_stale_def retire_generations_def comp_def image_image dest!: audited_ok)

lemma append_record_ok:
  assumes "append_record F r now J = (Inr u, J')"
  shows "guard_open now (jn_db J) \<and> jn_boot_epoch J' = jn_boot_epoch J \<and> jn_faults J' = jn_faults J \<and>
    (\<exists>payload. loggable F (port_kind_name (rc_kind r)) (jn_db J) \<and>
       jn_db J' = audit_step F (port_kind_name (rc_kind r)) payload now (jn_db J))"
  using assms unfolding append_record_def by (elim command_ok) (auto dest!: audited_ok)

lemma append_audit_at_ok:
  assumes "append_audit_at F kind payload now J = (Inr u, J')"
  shows "guard_open now (jn_db J) \<and> jn_boot_epoch J' = jn_boot_epoch J \<and> jn_faults J' = jn_faults J \<and>
    loggable F kind (jn_db J) \<and> jn_db J' = audit_step F kind payload now (jn_db J)"
  using assms unfolding append_audit_at_def
  by (elim guards_ok)
     (auto simp: txn_ok and_then_ok audit_step_def split: prod.splits sum.splits dest!: append_audit_row_ok touch_wall_clock_ok)

section \<open>Recovery\<close>

definition settle_pending :: "pending_dispatch \<Rightarrow> outcome_status \<Rightarrow> string option \<Rightarrow> u64 \<Rightarrow> journal_db \<Rightarrow> journal_db" where
  "settle_pending d status ro now db =
     set_tx_state (pd_transaction d) {Tx_Prepared, Tx_Dispatched} (tx_of_status status)
       (close_dispatch (pd_id d) {Dp_Prepared, Dp_Dispatched} status now (add_outcome (pd_id d) status ro None now db))"

lemma apply_resolution_ok:
  assumes "apply_resolution F d status ro now J = (Inr u, J')"
  shows "pd_id d \<notin> set (map jo_dispatch (db_outcomes (jn_db J))) \<and> find_dispatch (pd_id d) (jn_db J) \<noteq> None \<and>
    jn_boot_epoch J' = jn_boot_epoch J \<and> jn_faults J' = jn_faults J \<and>
    (\<exists>payload. loggable F ''outcome_observed'' (settle_pending d status ro now (jn_db J)) \<and>
       jn_db J' = logged F ''outcome_observed'' payload (settle_pending d status ro now (jn_db J)))"
  using assms unfolding apply_resolution_def
  by (auto simp: run_ok insert_outcome_ok settle_pending_def dest!: append_audit_ok)

text \<open>The effect of one resolved dispatch on the tables, as a relation.\<close>

definition flag_quarantine :: "journal_db \<Rightarrow> journal_db" where
  "flag_quarantine db = db\<lparr>db_meta := (db_meta db)(''quarantine'' \<mapsto> ''1'')\<rparr>"

inductive resolved :: "foundation \<Rightarrow> u64 \<Rightarrow> pending_dispatch \<Rightarrow> journal_db \<Rightarrow> recovery_classification \<Rightarrow> journal_db \<Rightarrow> bool"
  for F now d db where
  proved: "pd_id d \<notin> set (map jo_dispatch (db_outcomes db)) \<Longrightarrow> find_dispatch (pd_id d) db \<noteq> None \<Longrightarrow>
     loggable F ''outcome_observed'' (settle_pending d status ro now db) \<Longrightarrow> c \<in> {Rec_Reconstructed, Rec_NotPerformed} \<Longrightarrow>
     (c = Rec_NotPerformed \<longrightarrow> status = Oc_Failed) \<Longrightarrow>
     resolved F now d db c (logged F ''outcome_observed'' payload (settle_pending d status ro now db))"
| conflict: "pd_id d \<notin> set (map jo_dispatch (db_outcomes db)) \<Longrightarrow> find_dispatch (pd_id d) db \<noteq> None \<Longrightarrow>
     loggable F ''outcome_observed'' (settle_pending d Oc_Indeterminate None now db) \<Longrightarrow>
     reconcile_scope (pd_id d) \<notin> set (map jb_scope (db_barriers db)) \<Longrightarrow>
     resolved F now d db Rec_IndeterminateConflict
       (add_barrier (reconcile_scope (pd_id d)) ''reconciliation-unknown'' now ''inspector=fail-closed''
         (logged F ''outcome_observed'' payload (settle_pending d Oc_Indeterminate None now db)))"
| stopped: "loggable F ''quarantine_entered'' (flag_quarantine db) \<Longrightarrow>
     resolved F now d db Rec_Quarantined (audit_step F ''quarantine_entered'' payload now (flag_quarantine db))"

lemma logged_barriers [simp]: "db_barriers (logged F kind payload db) = db_barriers db"
  by (simp add: logged_def add_audit_def)

lemma settle_pending_barriers [simp]: "db_barriers (settle_pending d status ro now db) = db_barriers db"
  by (simp add: settle_pending_def set_tx_state_def close_dispatch_def add_outcome_def)

lemma enter_quarantine_ok:
  assumes "enter_quarantine F now J = (Inr u, J')"
  shows "jn_boot_epoch J' = jn_boot_epoch J \<and> jn_faults J' = jn_faults J \<and>
    (\<exists>payload. loggable F ''quarantine_entered'' (flag_quarantine (jn_db J)) \<and>
       jn_db J' = audit_step F ''quarantine_entered'' payload now (flag_quarantine (jn_db J)))"
  using assms unfolding enter_quarantine_def
  by (auto simp: run_ok write_meta_def flag_quarantine_def audit_step_def dest!: append_audit_ok touch_wall_clock_ok)

definition tally_step :: "recovery_classification \<Rightarrow> tally \<Rightarrow> tally" where
  "tally_step c t =
     (case c of
        Rec_Reconstructed \<Rightarrow> t\<lparr>ta_reconstructed := True\<rparr>
      | Rec_NotPerformed \<Rightarrow> t\<lparr>ta_not_performed := True\<rparr>
      | Rec_IndeterminateConflict \<Rightarrow> t\<lparr>ta_conflict := True, ta_barriers := ta_barriers t + 1\<rparr>
      | Rec_Quarantined \<Rightarrow> t\<lparr>ta_quarantined := True\<rparr>
      | Rec_Clean \<Rightarrow> t)"

lemma resolve_one_ok:
  assumes "resolve_one F inspect now d t J = (Inr t', J')"
  shows "resolved F now d (jn_db J) (dr_classification (inspect d)) (jn_db J') \<and>
    t' = tally_step (dr_classification (inspect d)) t \<and>
    jn_boot_epoch J' = jn_boot_epoch J \<and> jn_faults J' = jn_faults J"
proof (cases "dr_classification (inspect d)")
  case Rec_Clean
  then show ?thesis using assms by (simp add: resolve_one_def)
next
  case Rec_Reconstructed
  then obtain status where "apply_resolution F d status (dr_ref_observed (inspect d)) now J = (Inr (), J')" "t' = t\<lparr>ta_reconstructed := True\<rparr>"
    using assms by (auto simp: resolve_one_def Let_def and_then_ok split: option.splits)
  then show ?thesis
    using Rec_Reconstructed by (auto simp: tally_step_def intro!: resolved.proved dest!: apply_resolution_ok)
next
  case Rec_NotPerformed
  then have "apply_resolution F d Oc_Failed None now J = (Inr (), J')" "t' = t\<lparr>ta_not_performed := True\<rparr>"
    using assms by (auto simp: resolve_one_def and_then_ok)
  then show ?thesis
    using Rec_NotPerformed by (auto simp: tally_step_def intro!: resolved.proved dest!: apply_resolution_ok)
next
  case Rec_IndeterminateConflict
  then obtain J1 where 1: "apply_resolution F d Oc_Indeterminate None now J = (Inr (), J1)"
    and 2: "insert_barrier (reconcile_scope (pd_id d)) ''reconciliation-unknown'' now ''inspector=fail-closed'' J1 = (Inr (), J')"
    and t': "t' = t\<lparr>ta_conflict := True, ta_barriers := ta_barriers t + 1\<rparr>"
    using assms by (auto simp: resolve_one_def and_then_ok)
  obtain payload where "jn_db J1 = logged F ''outcome_observed'' payload (settle_pending d Oc_Indeterminate None now (jn_db J))"
    using apply_resolution_ok [OF 1] by blast
  then show ?thesis
    using Rec_IndeterminateConflict t' apply_resolution_ok [OF 1] 2
    by (auto simp: tally_step_def insert_barrier_ok intro!: resolved.conflict)
next
  case Rec_Quarantined
  then have "enter_quarantine F now J = (Inr (), J')" "t' = t\<lparr>ta_quarantined := True\<rparr>"
    using assms by (auto simp: resolve_one_def and_then_ok)
  then show ?thesis
    using Rec_Quarantined by (auto simp: tally_step_def intro: resolved.stopped dest!: enter_quarantine_ok)
qed

text \<open>A chain of resolved dispatches, cut at the first that is quarantined.\<close>

inductive resolved_all ::
    "foundation \<Rightarrow> (pending_dispatch \<Rightarrow> dispatch_resolution) \<Rightarrow> u64 \<Rightarrow> pending_dispatch list \<Rightarrow> tally \<Rightarrow> journal_db \<Rightarrow> tally \<Rightarrow> journal_db \<Rightarrow> bool"
  for F inspect now where
  none: "resolved_all F inspect now [] t db t db"
| stop: "resolved F now d db Rec_Quarantined db' \<Longrightarrow> dr_classification (inspect d) = Rec_Quarantined \<Longrightarrow>
     resolved_all F inspect now (d # ds) t db (tally_step Rec_Quarantined t) db'"
| more: "resolved F now d db (dr_classification (inspect d)) db1 \<Longrightarrow> dr_classification (inspect d) \<noteq> Rec_Quarantined \<Longrightarrow>
     resolved_all F inspect now ds (tally_step (dr_classification (inspect d)) t) db1 t' db' \<Longrightarrow>
     resolved_all F inspect now (d # ds) t db t' db'"

lemma tally_step_quarantined [simp]:
  "ta_quarantined (tally_step c t) \<longleftrightarrow> ta_quarantined t \<or> c = Rec_Quarantined"
  by (cases c) (auto simp: tally_step_def)

lemma resolve_all_ok:
  assumes "resolve_all F inspect now ds t J = (Inr t', J')" "\<not> ta_quarantined t"
  shows "resolved_all F inspect now ds t (jn_db J) t' (jn_db J') \<and>
    jn_boot_epoch J' = jn_boot_epoch J \<and> jn_faults J' = jn_faults J"
  using assms
proof (induction ds arbitrary: t J)
  case Nil
  then show ?case by (auto intro: resolved_all.none)
next
  case (Cons d ds)
  then obtain t1 J1 where 1: "resolve_one F inspect now d t J = (Inr t1, J1)"
    and 2: "(if ta_quarantined t1 then ret t1 else resolve_all F inspect now ds t1) J1 = (Inr t', J')"
    by (auto simp: and_then_ok)
  note r = resolve_one_ok [OF 1]
  show ?case
  proof (cases "dr_classification (inspect d) = Rec_Quarantined")
    case True
    then have "t' = tally_step Rec_Quarantined t" "J' = J1" using r 2 by auto
    then show ?thesis using r True by (auto intro: resolved_all.stop)
  next
    case False
    then have "resolve_all F inspect now ds t1 J1 = (Inr t', J')" "\<not> ta_quarantined t1"
      using r 2 Cons.prems(2) by auto
    then show ?thesis using Cons.IH r False by (auto intro: resolved_all.more)
  qed
qed

text \<open>The tables when the walk over the pending dispatches begins.\<close>

definition epoch_started :: "u64 \<Rightarrow> journal_db \<Rightarrow> journal_db" where
  "epoch_started epoch db =
     (let db1 = db\<lparr>db_meta := (db_meta db)(''boot_epoch'' \<mapsto> to_string_u64 epoch)\<rparr> in
      snd (mark_stale (older_epoch epoch db1) db1))"

definition pending_of :: "dispatch_row \<Rightarrow> pending_dispatch" where
  "pending_of d = \<lparr>pd_id = jp_id d, pd_transaction = jp_tx d, pd_plan_digest = jp_plan d, pd_state = dispatch_text (jp_state d)\<rparr>"

lemma read_pending_ok:
  "read_pending ds J = (Inr ps, J') \<longleftrightarrow>
     list_all (\<lambda>d. length (jp_id d) = 16 \<and> length (jp_plan d) = 32) ds \<and> ps = map pending_of ds \<and> J' = J"
  by (induction ds arbitrary: ps) (auto simp: and_then_ok pending_of_def)

lemma recovery_walk_ok:
  assumes "recovery_walk F inspect scan now J = (Inr report, J')"
  obtains t db1 where
    "resolved_all F inspect now (map pending_of (scan (pending_rows (epoch_started (jn_boot_epoch J + 1) (jn_db J))))) no_tally
       (epoch_started (jn_boot_epoch J + 1) (jn_db J)) t db1"
    "if ta_quarantined t then jn_db J' = db1
     else loggable F ''recovery_completed'' db1 \<and> (\<exists>payload. jn_db J' = audit_step F ''recovery_completed'' payload now db1)"
    "report = \<lparr>rr_classification = tally_class t,
       rr_unresolved = length (scan (pending_rows (epoch_started (jn_boot_epoch J + 1) (jn_db J)))),
       rr_barriers = ta_barriers t, rr_chain_verified = True\<rparr>"
    "jn_boot_epoch J' = jn_boot_epoch J + 1" "jn_faults J' = jn_faults J"
proof -
  let ?db = "epoch_started (jn_boot_epoch J + 1) (jn_db J)"
  let ?rows = "scan (pending_rows ?db)"
  let ?report = "\<lambda>t. \<lparr>rr_classification = tally_class t, rr_unresolved = length ?rows, rr_barriers = ta_barriers t,
    rr_chain_verified = True\<rparr>"
  obtain Ja Jb Jc k n Jd rows ps Je t J2 where
    a: "write_meta ''boot_epoch'' (to_string_u64 (jn_boot_epoch J + 1)) J = (Inr (), Ja)"
    and b: "run_sql (\<lambda>db. Inr (mark_stale (older_epoch (jn_boot_epoch J + 1) db) db)) Ja = (Inr k, Jb)"
    and c: "query (\<lambda>db. length (filter (\<lambda>d. jd_state d = De_Stale) (db_decisions db))) Jb = (Inr n, Jc)"
    and d: "query (\<lambda>db. scan (pending_rows db)) (Jc\<lparr>jn_boot_epoch := jn_boot_epoch J + 1\<rparr>) = (Inr rows, Jd)"
    and e: "read_pending rows Jd = (Inr ps, Je)"
    and walk': "resolve_all F inspect now ps no_tally Je = (Inr t, J2)"
    and rest': "(if ta_quarantined t then ret \<lparr>rr_classification = tally_class t, rr_unresolved = length ps,
        rr_barriers = ta_barriers t, rr_chain_verified = True\<rparr>
      else audited F ''recovery_completed''
        (enc_u64 F (jn_boot_epoch J + 1) @ enc_u64 F (of_nat n) @ enc_u64 F (of_nat (length ps)) @
         enc_u64 F (of_nat (ta_barriers t)) @ put_str F (tally_text t)) now
        \<lparr>rr_classification = tally_class t, rr_unresolved = length ps, rr_barriers = ta_barriers t,
          rr_chain_verified = True\<rparr>) J2 = (Inr report, J')"
    using assms unfolding recovery_walk_def Let_def and_then_ok by (elim exE conjE) (simp (no_asm_use))
  have Jc: "jn_db Jc = ?db" "jn_faults Jc = jn_faults J"
    using a b c by (auto simp: write_meta_def run_ok run_sql_ok epoch_started_def Let_def)
  then have J1: "jn_db Je = ?db" "jn_boot_epoch Je = jn_boot_epoch J + 1" "jn_faults Je = jn_faults J"
    and ps: "ps = map pending_of ?rows"
    using d e by (auto simp: query_ok read_pending_ok)
  have walk: "resolve_all F inspect now (map pending_of ?rows) no_tally Je = (Inr t, J2)" using walk' ps by simp
  have rest: "if ta_quarantined t then report = ?report t \<and> J' = J2
      else \<exists>payload. audited F ''recovery_completed'' payload now (?report t) J2 = (Inr report, J')"
    using rest' unfolding ps by (auto split: if_splits)
  have r: "resolved_all F inspect now (map pending_of (scan (pending_rows ?db))) no_tally ?db t (jn_db J2)"
    "jn_boot_epoch J2 = jn_boot_epoch J + 1" "jn_faults J2 = jn_faults J"
    using resolve_all_ok [OF walk] J1 by (auto simp: no_tally_def)
  show thesis
    by (rule that [OF r(1)]) (use rest r in \<open>auto split: if_splits dest!: audited_ok\<close>)
qed

end
