(* ===== verification/Journal_Invariant.thy ===== *)
theory Journal_Invariant
  imports Journal_Laws "HOL-Library.Multiset"
begin

text \<open>
  Runs of the journal: the operations a host may issue in any order, restarts included, with any schedule of
  statement faults, and an invariant of the tables that every operation keeps.  Its parts are the audit chain and the
  life cycle of transactions, decisions, dispatches and outcomes.
\<close>

section \<open>Operations and runs\<close>

datatype journal_op =
    Op_Session session_open
  | Op_Transaction transaction_open
  | Op_Evidence u64 "bytes list"
  | Op_Bind decision_bind
  | Op_Consume bytes
  | Op_Lease lease_request
  | Op_Dispatch dispatch_prepared
  | Op_Outcome outcome_record
  | Op_Open_Barrier barrier_open
  | Op_Close_Barrier string string
  | Op_Generation u64 bytes bytes string
  | Op_Record journal_record
  | Op_Audit string bytes
  | Op_Meta string string
  | Op_Recover "pending_dispatch \<Rightarrow> dispatch_resolution" "dispatch_row list \<Rightarrow> dispatch_row list"
  | Op_Restart "nat \<Rightarrow> stmt_fault option" bool

datatype op_result = Res_None | Res_Id u64 | Res_Lease lease_row | Res_Report recovery_report

definition yielding :: "('a \<Rightarrow> op_result) \<Rightarrow> 'a act \<Rightarrow> op_result act" where
  "yielding f m = and_then m (\<lambda>x. ret (f x))"

text \<open>A restart opens the file again; when that fails the host is still down.\<close>

definition restart :: "foundation \<Rightarrow> (nat \<Rightarrow> stmt_fault option) \<Rightarrow> bool \<Rightarrow> u64 \<Rightarrow> unit act" where
  "restart F faults intact now J =
     (case journal_open F faults intact [] OpenExisting now (Database True (jn_db J)) of
        Inl e \<Rightarrow> (Inl e, J)
      | Inr J' \<Rightarrow> (Inr (), J'))"

fun run_op :: "foundation \<Rightarrow> u64 \<Rightarrow> journal_op \<Rightarrow> op_result act" where
  "run_op F now (Op_Session s) = yielding Res_Id (open_session F s now)"
| "run_op F now (Op_Transaction t) = yielding Res_Id (open_journal_transaction F t now)"
| "run_op F now (Op_Evidence tx evidence) = yielding (\<lambda>_. Res_None) (accept_evidence F tx evidence now)"
| "run_op F now (Op_Bind d) = yielding (\<lambda>_. Res_None) (bind_decision F d now)"
| "run_op F now (Op_Consume i) = yielding (\<lambda>_. Res_None) (consume_decision F i now)"
| "run_op F now (Op_Lease r) = yielding Res_Lease (acquire_journal_lease F r now)"
| "run_op F now (Op_Dispatch d) = yielding (\<lambda>_. Res_None) (record_dispatch_prepared F d now)"
| "run_op F now (Op_Outcome r) = yielding (\<lambda>_. Res_None) (record_outcome F r now)"
| "run_op F now (Op_Open_Barrier b) = yielding (\<lambda>_. Res_None) (open_barrier F b now)"
| "run_op F now (Op_Close_Barrier scope evidence) = yielding (\<lambda>_. Res_None) (close_barrier F scope evidence now)"
| "run_op F now (Op_Generation i bdg pdg build) = yielding (\<lambda>_. Res_None) (advance_generation F i bdg pdg build now)"
| "run_op F now (Op_Record r) = yielding (\<lambda>_. Res_None) (append_record F r now)"
| "run_op F now (Op_Audit kind payload) = yielding (\<lambda>_. Res_None) (append_audit_at F kind payload now)"
| "run_op F now (Op_Meta key value) = yielding (\<lambda>_. Res_None) (set_meta key value)"
| "run_op F now (Op_Recover inspect scan) = yielding Res_Report (recover_at F inspect scan now)"
| "run_op F now (Op_Restart faults intact) = yielding (\<lambda>_. Res_None) (restart F faults intact now)"

fun run_ops :: "foundation \<Rightarrow> (u64 \<times> journal_op) list \<Rightarrow> journal \<Rightarrow> journal" where
  "run_ops F [] J = J"
| "run_ops F ((now, op) # ops) J = run_ops F ops (snd (run_op F now op J))"

text \<open>What a host keeps to: its own meta keys, named audit events, and a SELECT that yields the rows there are.\<close>

definition reserved_keys :: "string set" where
  "reserved_keys = {''schema_version'', ''install_id'', ''boot_epoch'', ''quarantine'', ''last_wall_ms'', ''genesis_hash''}"

fun op_fit :: "journal_op \<Rightarrow> bool" where
  "op_fit (Op_Audit kind payload) \<longleftrightarrow> kind \<noteq> []"
| "op_fit (Op_Meta key value) \<longleftrightarrow> key \<notin> reserved_keys"
| "op_fit (Op_Recover inspect scan) \<longleftrightarrow> (\<forall>rows. mset (scan rows) = mset rows)"
| "op_fit _ \<longleftrightarrow> True"

section \<open>Effects on the tables\<close>

text \<open>
  The change one operation can make to the tables.  A failed operation changes nothing, except that a failed recovery
  may set the quarantine flag.
\<close>

inductive table_step :: "foundation \<Rightarrow> u64 \<Rightarrow> u64 \<Rightarrow> journal_op \<Rightarrow> journal_db \<Rightarrow> journal_db \<Rightarrow> bool"
  for F now epoch where
  idle: "table_step F now epoch op db db"
| session: "loggable F ''session_opened'' (add_session s now db) \<Longrightarrow>
     table_step F now epoch (Op_Session s) db (audit_step F ''session_opened'' payload now (add_session s now db))"
| transaction: "find_tx (next_id (map jt_id (db_transactions db))) db = None \<Longrightarrow>
     loggable F ''transaction_opened'' (add_tx epoch t db) \<Longrightarrow>
     table_step F now epoch (Op_Transaction t) db (audit_step F ''transaction_opened'' payload now (add_tx epoch t db))"
| evidence: "loggable F ''evidence_accepted'' db \<Longrightarrow>
     table_step F now epoch (Op_Evidence tx evidence) db (audit_step F ''evidence_accepted'' payload now db)"
| bound: "find_tx (bd_transaction d) db = Some r \<Longrightarrow> tx_open (jt_state r) \<Longrightarrow> find_decision (bd_id d) db = None \<Longrightarrow>
     bd_token_hash d \<notin> jd_token ` set (db_decisions db) \<Longrightarrow> loggable F ''decision_bound'' (add_decision d db) \<Longrightarrow>
     table_step F now epoch (Op_Bind d) db (audit_step F ''decision_bound'' payload now (add_decision d db))"
| consumed: "find_decision i db = Some d \<Longrightarrow> jd_state d = De_Bound \<Longrightarrow> now \<le> jd_expires d \<Longrightarrow>
     loggable F ''decision_consumed'' (consume_row i now db) \<Longrightarrow>
     table_step F now epoch (Op_Consume i) db (audit_step F ''decision_consumed'' payload now (consume_row i now db))"
| leased: "lease_free r now db \<Longrightarrow> loggable F ''lease_acquired'' (put_lease (next_lease epoch r now db) db) \<Longrightarrow>
     table_step F now epoch (Op_Lease r) db
       (audit_step F ''lease_acquired'' payload now (put_lease (next_lease epoch r now db) db))"
| dispatched: "find_tx (dp_transaction d) db = Some r \<Longrightarrow> jt_state r = Tx_Decided \<Longrightarrow> find_dispatch (dp_id d) db = None \<Longrightarrow>
     loggable F ''dispatch_prepared'' (add_dispatch d now db) \<Longrightarrow>
     table_step F now epoch (Op_Dispatch d) db (audit_step F ''dispatch_prepared'' payload now (add_dispatch d now db))"
| observed: "find_dispatch (or_dispatch r) db = Some d \<Longrightarrow> jp_state d = Dp_Prepared \<Longrightarrow>
     or_dispatch r \<notin> jo_dispatch ` set (db_outcomes db) \<Longrightarrow>
     loggable F ''outcome_observed'' (settle_outcome r status now db) \<Longrightarrow>
     table_step F now epoch (Op_Outcome r) db (audit_step F ''outcome_observed'' payload now (settle_outcome r status now db))"
| raised: "bo_scope b \<notin> jb_scope ` set (db_barriers db) \<Longrightarrow>
     loggable F ''barrier_opened'' (add_barrier (bo_scope b) (bo_reason b) now (bo_evidence b) db) \<Longrightarrow>
     table_step F now epoch (Op_Open_Barrier b) db
       (audit_step F ''barrier_opened'' payload now (add_barrier (bo_scope b) (bo_reason b) now (bo_evidence b) db))"
| lifted: "barrier_rows_active scope db \<Longrightarrow> loggable F ''barrier_closed'' (shut_barrier scope now db) \<Longrightarrow>
     table_step F now epoch (Op_Close_Barrier scope evidence) db
       (audit_step F ''barrier_closed'' payload now (shut_barrier scope now db))"
| advanced: "i \<notin> jg_id ` set (db_generations db) \<Longrightarrow>
     loggable F ''generation_advanced'' (add_generation i bdg pdg build now db) \<Longrightarrow>
     table_step F now epoch (Op_Generation i bdg pdg build) db
       (audit_step F ''generation_advanced'' payload now (add_generation i bdg pdg build now db))"
| recorded: "loggable F (port_kind_name (rc_kind r)) db \<Longrightarrow>
     table_step F now epoch (Op_Record r) db (audit_step F (port_kind_name (rc_kind r)) payload now db)"
| noted: "loggable F kind db \<Longrightarrow> table_step F now epoch (Op_Audit kind payload) db (audit_step F kind payload now db)"
| stored: "table_step F now epoch (Op_Meta key value) db (db\<lparr>db_meta := (db_meta db)(key \<mapsto> value)\<rparr>)"
| flagged: "table_step F now epoch (Op_Recover inspect scan) db (flag_quarantine db)"
| halted: "resolved_all F inspect now (map pending_of (scan (pending_rows (epoch_started (epoch + 1) db)))) no_tally
       (epoch_started (epoch + 1) db) t db1 \<Longrightarrow> ta_quarantined t \<Longrightarrow> table_step F now epoch (Op_Recover inspect scan) db db1"
| recovered: "resolved_all F inspect now (map pending_of (scan (pending_rows (epoch_started (epoch + 1) db)))) no_tally
       (epoch_started (epoch + 1) db) t db1 \<Longrightarrow> \<not> ta_quarantined t \<Longrightarrow> loggable F ''recovery_completed'' db1 \<Longrightarrow>
     table_step F now epoch (Op_Recover inspect scan) db (audit_step F ''recovery_completed'' payload now db1)"

lemma yielding_ok: "yielding f m J = (Inr r, J') \<longleftrightarrow> (\<exists>x. m J = (Inr x, J') \<and> r = f x)"
  by (auto simp: yielding_def and_then_ok)

lemma yielding_failed: "yielding f m J = (Inl e, J') \<longleftrightarrow> m J = (Inl e, J')"
  by (auto simp: yielding_def and_then_failed ret_def)

lemma mark_quarantined_db:
  "jn_db (mark_quarantined J) = jn_db J \<or> jn_db (mark_quarantined J) = flag_quarantine (jn_db J)"
  by (auto simp: mark_quarantined_def txn_def exec_sql_def write_meta_def change_def run_sql_def flag_quarantine_def
      split: option.splits)

lemma read_only_checks: "read_only quick_check" "read_only (verify_audit_chain F)"
proof -
  show "read_only quick_check" by (simp add: read_only_def quick_check_def split: option.split)
  show "read_only (verify_audit_chain F)"
    unfolding verify_audit_chain_def read_meta_def
    by (intro read_only_and_then read_only_query) (auto intro!: read_only_and_then split: option.split)
qed

lemma recover_failed:
  assumes "recover_at F inspect scan now J = (Inl e, J')"
  shows "jn_db J' = jn_db J \<or> jn_db J' = flag_quarantine (jn_db J)"
proof -
  obtain r1 J1 where 1: "quick_check J = (r1, J1)" by (cases "quick_check J")
  obtain r2 J2 where 2: "verify_audit_chain F J1 = (r2, J2)" by (cases "verify_audit_chain F J1")
  have db: "jn_db J1 = jn_db J" "jn_db J2 = jn_db J"
    using read_onlyD [OF read_only_checks(1) 1] read_onlyD [OF read_only_checks(2) 2] by simp_all
  consider "J' = mark_quarantined J1" | "J' = mark_quarantined J2"
    | "and_then (check_clock now) (\<lambda>_. txn (recovery_walk F inspect scan now)) J2 = (Inl e, J')"
    using assms 1 2 unfolding recover_at_def by (auto split: sum.splits)
  then show ?thesis
  proof cases
    case 3
    then have "jn_db J' = jn_db J2"
      using read_onlyD [OF read_only_guards(2)] txn_failed by (fastforce simp: and_then_failed)
    then show ?thesis using db by simp
  qed (use mark_quarantined_db [of J1] mark_quarantined_db [of J2] db in auto)
qed

lemma recover_ok:
  assumes "recover_at F inspect scan now J = (Inr report, J')"
  obtains J1 J2 where "jn_db J1 = jn_db J" "jn_boot_epoch J1 = jn_boot_epoch J" "verify_audit_chain F (tick J) = (Inr (), J1)"
    "recovery_walk F inspect scan now (tick (tick J1)) = (Inr report, J2)" "J' = tick J2"
    "case parsed_wall (jn_db J) of None \<Rightarrow> True | Some l \<Rightarrow> \<not> now + 300000 < l"
proof -
  obtain b J0 where 0: "quick_check J = (Inr b, J0)"
    using assms unfolding recover_at_def by (auto split: sum.splits prod.splits)
  then have J0: "J0 = tick J" by (auto simp: quick_check_def split: option.splits)
  obtain J1 where 1: "verify_audit_chain F (tick J) = (Inr (), J1)"
    and 2: "and_then (check_clock now) (\<lambda>_. txn (recovery_walk F inspect scan now)) J1 = (Inr report, J')"
    using assms 0 J0 unfolding recover_at_def by (auto split: sum.splits prod.splits)
  have J1: "jn_db J1 = jn_db J" "jn_boot_epoch J1 = jn_boot_epoch J"
    using 1 by (auto simp: verify_audit_chain_def read_meta_def run_ok split: option.splits if_splits)
  obtain J3 where c: "check_clock now J1 = (Inr (), J3)" and t: "txn (recovery_walk F inspect scan now) J3 = (Inr report, J')"
    using 2 unfolding and_then_ok by auto
  have "J3 = tick J1" "case parsed_wall (jn_db J) of None \<Rightarrow> True | Some l \<Rightarrow> \<not> now + 300000 < l"
    using c J1 unfolding check_clock_def
    by (auto simp: read_meta_def run_ok parsed_wall_def split: option.splits if_splits)
  then show thesis using that [OF J1 1] t unfolding txn_ok by auto
qed

lemma recover_step:
  assumes "recover_at F inspect scan now J = (Inr report, J')"
  shows "table_step F now (jn_boot_epoch J) (Op_Recover inspect scan) (jn_db J) (jn_db J') \<and>
    jn_boot_epoch J' = jn_boot_epoch J + 1"
proof -
  obtain J1 J2 where J1: "jn_db J1 = jn_db J" "jn_boot_epoch J1 = jn_boot_epoch J"
    and walk: "recovery_walk F inspect scan now (tick (tick J1)) = (Inr report, J2)" and J': "J' = tick J2"
    using assms by (rule recover_ok)
  let ?db = "epoch_started (jn_boot_epoch J + 1) (jn_db J)"
  obtain t db1 where r: "resolved_all F inspect now (map pending_of (scan (pending_rows ?db))) no_tally ?db t db1"
    and "if ta_quarantined t then jn_db J2 = db1
     else loggable F ''recovery_completed'' db1 \<and> (\<exists>payload. jn_db J2 = audit_step F ''recovery_completed'' payload now db1)"
    and "jn_boot_epoch J2 = jn_boot_epoch J + 1"
    using recovery_walk_ok [OF walk] J1 by (metis tick_sel(1,2))
  then show ?thesis
    using J' table_step.halted [where inspect = inspect and scan = scan and epoch = "jn_boot_epoch J" and db = "jn_db J", OF r]
      table_step.recovered [where inspect = inspect and scan = scan and epoch = "jn_boot_epoch J" and db = "jn_db J", OF r]
    by (auto split: if_splits)
qed

lemma read_only_open:
  "read_only exec_sql" "read_only (read_meta key)" "read_only (require_meta keys)" "read_only (validate_existing b)"
proof -
  show e: "read_only exec_sql" by (simp add: read_only_def exec_sql_def)
  show r: "read_only (read_meta key)" for key by (auto simp: read_meta_def)
  show m: "read_only (require_meta keys)" for keys by (induction keys) (auto intro!: read_only_and_then read_only_ret r)
  show "read_only (validate_existing b)" unfolding validate_existing_def by (auto intro!: read_only_and_then read_only_ret e r m)
qed

lemma open_existing_ok:
  assumes o: "journal_open F faults intact device OpenExisting now (Database valid db) = Inr J'"
  shows "jn_db J' = db"
proof -
  have ro: "read_only (journal_db_open F device OpenExisting now (Database valid db))"
    unfolding journal_db_open_def
    by (auto intro!: read_only_and_then read_only_ret read_only_open read_only_checks)
  have "read_only (\<lambda>K. (Inr (), K\<lparr>jn_install := i, jn_boot_epoch := n\<rparr>))" for i n
    by (simp add: read_only_def)
  then have "read_only (and_then (journal_db_open F device OpenExisting now (Database valid db)) (\<lambda>_.
        and_then (read_meta ''install_id'') (\<lambda>install.
        case install of
          None \<Rightarrow> deny Err_Open
        | Some i \<Rightarrow>
            and_then (read_meta ''boot_epoch'') (\<lambda>epoch.
            case Option.bind epoch journal_parse_u64 of
              None \<Rightarrow> deny Err_Open
            | Some n \<Rightarrow> (\<lambda>J. (Inr (), J\<lparr>jn_install := i, jn_boot_epoch := n\<rparr>))))))"
    by (auto intro!: read_only_and_then read_only_ret ro read_only_open split: option.split)
  then show ?thesis
    using o read_onlyD by (fastforce simp: journal_open_def connection_def split: prod.splits sum.splits)
qed

lemma restart_ok: "restart F faults intact now J = (Inr u, J') \<Longrightarrow> jn_db J' = jn_db J"
  using open_existing_ok by (fastforce simp: restart_def split: sum.splits)

lemma record_outcome_failed:
  assumes "record_outcome F r now J = (Inl e, J')" shows "jn_db J' = jn_db J"
  using assms unfolding record_outcome_def
proof (rule guards_failed)
  show "jn_db J' = jn_db J1" if "(case outcome_status_of (or_status r) of None \<Rightarrow> deny Err_Constraint | Some status \<Rightarrow> txn (f status)) J1 = (Inl e, J')" for f J1
    using that by (auto simp: deny_def split: option.splits dest: txn_failed)
qed

lemma append_audit_at_failed:
  assumes "append_audit_at F kind payload now J = (Inl e, J')" shows "jn_db J' = jn_db J"
  using assms unfolding append_audit_at_def
  by (rule guards_failed) (auto dest!: txn_failed split: prod.splits sum.splits)

text \<open>An operation that fails has changed no table, a failed recovery apart.\<close>

lemma run_op_failed:
  assumes "run_op F now op J = (Inl e, J')" "\<And>inspect scan. op \<noteq> Op_Recover inspect scan"
  shows "jn_db J' = jn_db J"
proof (cases op)
  case (Op_Outcome q)
  then show ?thesis using assms(1) record_outcome_failed by (auto simp: yielding_failed)
next
  case (Op_Audit kind payload)
  then show ?thesis using assms(1) append_audit_at_failed by (auto simp: yielding_failed)
next
  case (Op_Meta key v)
  then show ?thesis
    using assms(1) by (auto simp: yielding_failed set_meta_def write_meta_def change_def run_sql_def split: option.splits)
next
  case (Op_Restart faults intact)
  then show ?thesis using assms(1) by (auto simp: yielding_failed restart_def split: sum.splits)
qed (use assms in \<open>auto simp: yielding_failed open_session_def open_journal_transaction_def accept_evidence_def
    bind_decision_def consume_decision_def acquire_journal_lease_def record_dispatch_prepared_def open_barrier_def
    close_barrier_def advance_generation_def append_record_def dest: command_failed\<close>)

text \<open>Every run of every operation is a step on the tables.\<close>

lemma run_op_step:
  assumes "run_op F now op J = (r, J')"
  shows "table_step F now (jn_boot_epoch J) op (jn_db J) (jn_db J')"
proof (cases r)
  case (Inr x)
  show ?thesis
  proof (cases op)
    case (Op_Outcome q)
    then have "record_outcome F q now J = (Inr (), J')" using assms Inr by (auto simp: yielding_ok)
    then show ?thesis unfolding Op_Outcome by (elim record_outcome_ok) (auto intro: table_step.observed)
  next
    case (Op_Recover inspect scan)
    then show ?thesis using assms Inr recover_step by (auto simp: yielding_ok)
  next
    case (Op_Meta key v)
    then show ?thesis using assms Inr by (auto simp: yielding_ok set_meta_def write_meta_def change_ok intro: table_step.stored)
  next
    case (Op_Restart faults intact)
    then show ?thesis using assms Inr restart_ok by (fastforce simp: yielding_ok intro: table_step.idle)
  qed (use assms Inr in \<open>auto simp: yielding_ok intro: table_step.intros
      dest!: open_session_ok open_journal_transaction_ok accept_evidence_ok bind_decision_ok consume_decision_ok acquire_journal_lease_ok
        record_dispatch_prepared_ok open_barrier_ok close_barrier_ok advance_generation_ok append_record_ok append_audit_at_ok\<close>)
next
  case (Inl e)
  show ?thesis
  proof (cases "\<exists>inspect scan. op = Op_Recover inspect scan")
    case True
    then show ?thesis using assms Inl recover_failed by (fastforce simp: yielding_failed intro: table_step.idle table_step.flagged)
  next
    case False
    then have "jn_db J' = jn_db J" using assms Inl run_op_failed by blast
    then show ?thesis by (simp add: table_step.idle)
  qed
qed

section \<open>The audit chain\<close>

context digest_laws
begin

lemma chain_hash_length [simp]: "length (chain_hash F prev kind payload) = 32"
  by (simp add: chain_hash_def digest_length)

end

lemma verify_rows_append:
  "verify_rows F g e prev (as @ bs) =
     (case verify_rows F g e prev as of
        Some x \<Rightarrow> Some x
      | None \<Rightarrow> verify_rows F (if as = [] then g else None) (e + int (length as))
          (if as = [] then prev else ja_hash (last as)) bs)"
proof (induction as arbitrary: g e prev)
  case (Cons a as)
  have IH: "verify_rows F None (e + 1) (ja_hash a) (as @ bs) =
      (case verify_rows F None (e + 1) (ja_hash a) as of
         Some x \<Rightarrow> Some x
       | None \<Rightarrow> verify_rows F None (e + int (length (a # as))) (ja_hash (last (a # as))) bs)"
    using Cons.IH [of None "e + 1" "ja_hash a"] by (cases "as = []") (simp_all add: algebra_simps split: option.split)
  show ?case by (simp add: IH del: length_Cons last.simps)
qed simp

definition chain_inv :: "foundation \<Rightarrow> journal_db \<Rightarrow> bool" where
  "chain_inv F db \<longleftrightarrow>
     (\<exists>g. db_meta db ''genesis_hash'' = Some g \<and> verify_rows F (Some g) 1 zero_hash (db_audit db) = None) \<and>
     db_audit db \<noteq> [] \<and> db_seq db = int (length (db_audit db))"

text \<open>The chain reads the audit table, its counter and the genesis value only.\<close>

lemma chain_inv_cong:
  "db_audit db' = db_audit db \<Longrightarrow> db_seq db' = db_seq db \<Longrightarrow> db_meta db' ''genesis_hash'' = db_meta db ''genesis_hash'' \<Longrightarrow>
     chain_inv F db' = chain_inv F db"
  by (simp add: chain_inv_def)

lemmas effect_defs = add_session_def add_tx_def add_decision_def consume_row_def put_lease_def add_dispatch_def
  settle_outcome_def add_outcome_def close_dispatch_def close_tx_of_def add_barrier_def shut_barrier_def add_generation_def
  mark_stale_def retire_generations_def set_tx_state_def settle_pending_def epoch_started_def flag_quarantine_def

lemma effects_keep_chain [simp]:
  "chain_inv F (add_session s now db) = chain_inv F db"
  "chain_inv F (add_tx epoch t db) = chain_inv F db"
  "chain_inv F (add_decision d db) = chain_inv F db"
  "chain_inv F (consume_row i now db) = chain_inv F db"
  "chain_inv F (put_lease l db) = chain_inv F db"
  "chain_inv F (add_dispatch dd now db) = chain_inv F db"
  "chain_inv F (settle_outcome r status now db) = chain_inv F db"
  "chain_inv F (add_barrier scope reason now evidence db) = chain_inv F db"
  "chain_inv F (shut_barrier scope now db) = chain_inv F db"
  "chain_inv F (add_generation gi bdg pdg build now db) = chain_inv F db"
  "chain_inv F (settle_pending p status ro now db) = chain_inv F db"
  "chain_inv F (epoch_started epoch db) = chain_inv F db"
  "chain_inv F (flag_quarantine db) = chain_inv F db"
  "chain_inv F (touched now db) = chain_inv F db"
  by (rule chain_inv_cong; simp add: effect_defs touched_def Let_def split: option.split)+

context digest_laws
begin

lemma logged_chain:
  assumes "chain_inv F db" "loggable F kind db" "kind \<noteq> []"
  shows "chain_inv F (logged F kind payload db)"
proof -
  from assms(1) obtain g where g: "db_meta db ''genesis_hash'' = Some g" "verify_rows F (Some g) 1 zero_hash (db_audit db) = None"
    and ne: "db_audit db \<noteq> []" and seq: "db_seq db = int (length (db_audit db))"
    by (auto simp: chain_inv_def)
  have "prev_hash db = ja_hash (last (db_audit db))" using ne by (simp add: prev_hash_def last_hash_def)
  then show ?thesis
    using g ne seq assms(2,3)
    by (auto simp: chain_inv_def logged_def add_audit_def event_row_def verify_rows_append loggable_def not_less)
qed

lemma audit_step_chain:
  "chain_inv F db \<Longrightarrow> loggable F kind db \<Longrightarrow> kind \<noteq> [] \<Longrightarrow> chain_inv F (audit_step F kind payload now db)"
  by (simp add: audit_step_def logged_chain)

lemma resolved_chain: "resolved F now d db c db' \<Longrightarrow> chain_inv F db \<Longrightarrow> chain_inv F db'"
  by (induction rule: resolved.induct) (auto intro: logged_chain audit_step_chain)

lemma resolved_all_chain: "resolved_all F inspect now ds t db t' db' \<Longrightarrow> chain_inv F db \<Longrightarrow> chain_inv F db'"
  by (induction rule: resolved_all.induct) (auto dest: resolved_chain)

lemma table_step_chain:
  assumes "table_step F now epoch op db db'" "chain_inv F db" "op_fit op"
  shows "chain_inv F db'"
  using assms
proof (induction rule: table_step.induct)
  case (recorded r db payload)
  have "port_kind_name (rc_kind r) \<noteq> []" by (cases "rc_kind r") simp_all
  then show ?case using recorded by (intro audit_step_chain)
next
  case (stored key v db)
  then show ?case by (auto simp: chain_inv_def reserved_keys_def)
next
  case (halted inspect scan db t db1)
  then show ?case using resolved_all_chain by simp
next
  case (recovered inspect scan db t db1 payload)
  then show ?case using resolved_all_chain by (intro audit_step_chain) simp_all
qed (simp_all add: audit_step_chain)

end

section \<open>Life cycles\<close>

text \<open>
  A transaction is observed, then decided by its one decision, then prepared by its one dispatch, then ended by the
  one outcome of that dispatch.
\<close>

fun tx_of_dispatch :: "dispatch_state \<Rightarrow> tx_state" where
  "tx_of_dispatch Dp_Prepared = Tx_Prepared"
| "tx_of_dispatch Dp_Dispatched = Tx_Dispatched"
| "tx_of_dispatch Dp_Succeeded = Tx_Succeeded"
| "tx_of_dispatch Dp_Failed = Tx_Failed"
| "tx_of_dispatch Dp_Indeterminate = Tx_Indeterminate"
| "tx_of_dispatch Dp_Quarantined = Tx_Quarantined"

definition life_states :: "tx_state set" where
  "life_states = {Tx_Observed, Tx_Decided, Tx_Prepared, Tx_Succeeded, Tx_Failed, Tx_Indeterminate}"

definition keys_inv :: "journal_db \<Rightarrow> bool" where
  "keys_inv db \<longleftrightarrow>
     distinct (map jt_id (db_transactions db)) \<and> distinct (map jd_id (db_decisions db)) \<and>
     distinct (map jd_token (db_decisions db)) \<and> distinct (map jd_tx (db_decisions db)) \<and>
     distinct (map jp_id (db_dispatches db)) \<and> distinct (map jp_tx (db_dispatches db)) \<and>
     distinct (map jo_dispatch (db_outcomes db))"

definition decisions_inv :: "journal_db \<Rightarrow> bool" where
  "decisions_inv db \<longleftrightarrow>
     (\<forall>t \<in> set (db_transactions db). jt_state t \<in> life_states \<and>
        (jt_state t \<noteq> Tx_Observed \<longrightarrow> jt_id t \<in> jd_tx ` set (db_decisions db))) \<and>
     (\<forall>d \<in> set (db_decisions db). (jd_state d = De_Consumed) = (jd_consumed_ms d \<noteq> None) \<and>
        (\<exists>t \<in> set (db_transactions db). jt_id t = jd_tx d \<and> jt_state t \<noteq> Tx_Observed))"

definition dispatches_inv :: "journal_db \<Rightarrow> bool" where
  "dispatches_inv db \<longleftrightarrow>
     (\<forall>t \<in> set (db_transactions db). jt_state t \<notin> {Tx_Observed, Tx_Decided} \<longrightarrow> jt_id t \<in> jp_tx ` set (db_dispatches db)) \<and>
     (\<forall>p \<in> set (db_dispatches db). jp_state p \<notin> {Dp_Dispatched, Dp_Quarantined} \<and>
        (\<exists>t \<in> set (db_transactions db). jt_id t = jp_tx p \<and> jt_state t = tx_of_dispatch (jp_state p)) \<and>
        (jp_state p \<noteq> Dp_Prepared \<longrightarrow> jp_id p \<in> jo_dispatch ` set (db_outcomes db))) \<and>
     (\<forall>q \<in> set (db_outcomes db). \<exists>p \<in> set (db_dispatches db). jp_id p = jo_dispatch q \<and> jp_state p = dispatch_of_status (jo_status q))"

definition life_inv :: "journal_db \<Rightarrow> bool" where
  "life_inv db \<longleftrightarrow> keys_inv db \<and> decisions_inv db \<and> dispatches_inv db"

lemma key_unique: "distinct (map k xs) \<Longrightarrow> x \<in> set xs \<Longrightarrow> y \<in> set xs \<Longrightarrow> k x = k y \<Longrightarrow> x = y"
  by (auto simp: distinct_map dest: inj_onD)

lemma map_key_update: "(\<And>x. k (f x) = k x) \<Longrightarrow> map k (map f xs) = map k xs"
  by simp

lemma find_Some_key: "find (\<lambda>x. k x = i) xs = Some x \<Longrightarrow> x \<in> set xs \<and> k x = i"
  by (auto simp: find_Some_iff)

lemma find_None_key: "find (\<lambda>x. k x = i) xs = None \<longleftrightarrow> i \<notin> k ` set xs"
  by (auto simp: find_None_iff)

text \<open>The life cycles read four tables only.\<close>

lemma life_inv_cong:
  "db_transactions db' = db_transactions db \<Longrightarrow> db_decisions db' = db_decisions db \<Longrightarrow>
     db_dispatches db' = db_dispatches db \<Longrightarrow> db_outcomes db' = db_outcomes db \<Longrightarrow> life_inv db' = life_inv db"
  by (simp add: life_inv_def keys_inv_def decisions_inv_def dispatches_inv_def)

lemma effects_keep_life [simp]:
  "life_inv (add_session s now db) = life_inv db"
  "life_inv (put_lease l db) = life_inv db"
  "life_inv (add_barrier scope reason now evidence db) = life_inv db"
  "life_inv (shut_barrier scope now db) = life_inv db"
  "life_inv (flag_quarantine db) = life_inv db"
  "life_inv (touched now db) = life_inv db"
  "life_inv (logged F kind payload db) = life_inv db"
  "life_inv (audit_step F kind payload now db) = life_inv db"
  "life_inv (db\<lparr>db_meta := m\<rparr>) = life_inv db"
  "life_inv (db\<lparr>db_generations := gs\<rparr>) = life_inv db"
  by (rule life_inv_cong; simp add: effect_defs touched_def logged_def add_audit_def audit_step_def Let_def)+

lemma add_tx_life:
  assumes "life_inv db" "find_tx (next_id (map jt_id (db_transactions db))) db = None"
  shows "life_inv (add_tx epoch t db)"
  using assms unfolding life_inv_def keys_inv_def decisions_inv_def dispatches_inv_def
  by (simp add: add_tx_def new_tx_def find_tx_def find_None_key life_states_def)

text \<open>Decisions that change state without touching the other fields.\<close>

lemma decision_update_life:
  assumes "life_inv db" and f: "\<And>d. jd_id (f d) = jd_id d \<and> jd_token (f d) = jd_token d \<and> jd_tx (f d) = jd_tx d"
    and c: "\<And>d. (jd_state d = De_Consumed) = (jd_consumed_ms d \<noteq> None) \<Longrightarrow> (jd_state (f d) = De_Consumed) = (jd_consumed_ms (f d) \<noteq> None)"
  shows "life_inv (db\<lparr>db_decisions := map f (db_decisions db)\<rparr>)"
  using assms(1) c unfolding life_inv_def keys_inv_def decisions_inv_def dispatches_inv_def
  by (simp add: comp_def f image_image)

lemma consume_row_life: "life_inv db \<Longrightarrow> life_inv (consume_row i now db)"
  unfolding consume_row_def by (rule decision_update_life) auto

lemma mark_stale_life: "life_inv db \<Longrightarrow> life_inv (snd (mark_stale a db))"
  unfolding mark_stale_def snd_conv by (rule decision_update_life) auto

lemma add_generation_life: "life_inv db \<Longrightarrow> life_inv (add_generation i bdg pdg build now db)"
  unfolding add_generation_def
  by (rule mark_stale_life) (simp add: retire_generations_def)

lemma epoch_started_life: "life_inv db \<Longrightarrow> life_inv (epoch_started epoch db)"
  unfolding epoch_started_def Let_def by (rule mark_stale_life) simp

text \<open>The one transaction row a guarded update changes.\<close>

lemma set_tx_state_rows:
  assumes "distinct (map jt_id (db_transactions db))" "t \<in> set (db_transactions db)" "jt_state t \<in> S"
  shows "set (db_transactions (set_tx_state (jt_id t) S s db)) =
    insert (t\<lparr>jt_state := s\<rparr>) {u \<in> set (db_transactions db). jt_id u \<noteq> jt_id t}"
    "map jt_id (db_transactions (set_tx_state i S s db)) = map jt_id (db_transactions db)"
proof -
  have u: "u = t" if "u \<in> set (db_transactions db)" "jt_id u = jt_id t" for u
    using key_unique [OF assms(1) that(1) assms(2) that(2)] .
  show "set (db_transactions (set_tx_state (jt_id t) S s db)) =
    insert (t\<lparr>jt_state := s\<rparr>) {u \<in> set (db_transactions db). jt_id u \<noteq> jt_id t}"
    using assms(2,3) u by (auto simp: set_tx_state_def image_iff)
  show "map jt_id (db_transactions (set_tx_state i S s db)) = map jt_id (db_transactions db)"
    by (simp add: set_tx_state_def comp_def)
qed

lemma set_tx_state_tables [simp]:
  "db_decisions (set_tx_state i S s db) = db_decisions db" "db_dispatches (set_tx_state i S s db) = db_dispatches db"
  "db_outcomes (set_tx_state i S s db) = db_outcomes db"
  by (simp_all add: set_tx_state_def)

lemma tx_unique: "life_inv db \<Longrightarrow> t \<in> set (db_transactions db) \<Longrightarrow> u \<in> set (db_transactions db) \<Longrightarrow> jt_id t = jt_id u \<Longrightarrow> t = u"
  using key_unique [of jt_id "db_transactions db" t u] by (simp add: life_inv_def keys_inv_def)

lemma dispatch_unique: "life_inv db \<Longrightarrow> p \<in> set (db_dispatches db) \<Longrightarrow> q \<in> set (db_dispatches db) \<Longrightarrow> jp_id p = jp_id q \<Longrightarrow> p = q"
  using key_unique [of jp_id "db_dispatches db" p q] by (simp add: life_inv_def keys_inv_def)

lemma decision_tx:
  assumes "life_inv db" "t \<in> set (db_transactions db)" "jt_id t \<in> jd_tx ` set (db_decisions db)"
  shows "jt_state t \<noteq> Tx_Observed"
proof -
  obtain d u where "u \<in> set (db_transactions db)" "jt_id u = jt_id t" "jt_state u \<noteq> Tx_Observed"
    using assms unfolding life_inv_def decisions_inv_def by force
  then show ?thesis using tx_unique [OF assms(1)] assms(2) by blast
qed

lemma dispatch_tx:
  assumes "life_inv db" "t \<in> set (db_transactions db)" "p \<in> set (db_dispatches db)" "jp_tx p = jt_id t"
  shows "jt_state t = tx_of_dispatch (jp_state p)"
proof -
  obtain u where "u \<in> set (db_transactions db)" "jt_id u = jt_id t" "jt_state u = tx_of_dispatch (jp_state p)"
    using assms(1,3,4) unfolding life_inv_def dispatches_inv_def by force
  then show ?thesis using tx_unique [OF assms(1)] assms(2) by blast
qed

lemma tx_of_dispatch_late: "tx_of_dispatch s \<notin> {Tx_Observed, Tx_Decided}"
  by (cases s) simp_all

lemma add_decision_life:
  assumes inv: "life_inv db" and r: "find_tx (bd_transaction d) db = Some r" "tx_open (jt_state r)"
    and fresh: "find_decision (bd_id d) db = None" "bd_token_hash d \<notin> jd_token ` set (db_decisions db)"
  shows "life_inv (add_decision d db)"
proof -
  let ?db = "db\<lparr>db_decisions := db_decisions db @ [bound_row d]\<rparr>"
  have rt: "r \<in> set (db_transactions db)" "jt_id r = bd_transaction d"
    using find_Some_key [of jt_id] r(1) by (auto simp: find_tx_def)
  have obs: "jt_state r = Tx_Observed"
    using inv rt r(2) by (auto simp: life_inv_def decisions_inv_def life_states_def tx_open_def)
  have dist: "distinct (map jt_id (db_transactions db))" using inv by (simp add: life_inv_def keys_inv_def)
  have new: "bd_transaction d \<notin> jd_tx ` set (db_decisions db)"
    using decision_tx [OF inv rt(1)] obs rt(2) by auto
  have new': "jp_tx p \<noteq> bd_transaction d" if "p \<in> set (db_dispatches db)" for p
    using dispatch_tx [OF inv rt(1) that] tx_of_dispatch_late [of "jp_state p"] obs rt(2) by auto
  have rows: "set (db_transactions (add_decision d db)) =
      insert (r\<lparr>jt_state := Tx_Decided\<rparr>) {u \<in> set (db_transactions db). jt_id u \<noteq> bd_transaction d}"
    "map jt_id (db_transactions (add_decision d db)) = map jt_id (db_transactions db)"
    using set_tx_state_rows [where db = ?db and t = r and S = "{Tx_Observed, Tx_Judging}" and s = Tx_Decided] rt obs dist by (simp_all add: add_decision_def)
  have tables: "db_decisions (add_decision d db) = db_decisions db @ [bound_row d]"
    "db_dispatches (add_decision d db) = db_dispatches db" "db_outcomes (add_decision d db) = db_outcomes db"
    by (simp_all add: add_decision_def)
  have "keys_inv (add_decision d db)"
    using inv fresh new unfolding life_inv_def keys_inv_def rows(2) tables
    by (simp add: bound_row_def find_decision_def find_None_key)
  moreover have "decisions_inv (add_decision d db)"
    using inv rt new unfolding life_inv_def decisions_inv_def rows(1) tables
    by (simp add: bound_row_def life_states_def) (metis (no_types, lifting) image_eqI)
  moreover have "dispatches_inv (add_decision d db)"
    using inv new' unfolding life_inv_def dispatches_inv_def rows(1) tables by (simp, metis)
  ultimately show ?thesis by (simp add: life_inv_def)
qed

lemma add_dispatch_life:
  assumes inv: "life_inv db" and r: "find_tx (dp_transaction d) db = Some r" "jt_state r = Tx_Decided"
    and fresh: "find_dispatch (dp_id d) db = None"
  shows "life_inv (add_dispatch d now db)"
proof -
  let ?p = "\<lparr>jp_id = dp_id d, jp_tx = dp_transaction d, jp_plan = dp_plan_digest d, jp_state = Dp_Prepared, jp_started = now, jp_done = None\<rparr>"
  let ?db = "db\<lparr>db_dispatches := db_dispatches db @ [?p]\<rparr>"
  have rt: "r \<in> set (db_transactions db)" "jt_id r = dp_transaction d"
    using find_Some_key [of jt_id] r(1) by (auto simp: find_tx_def)
  have dist: "distinct (map jt_id (db_transactions db))" using inv by (simp add: life_inv_def keys_inv_def)
  have new: "jp_tx p \<noteq> dp_transaction d" if "p \<in> set (db_dispatches db)" for p
    using dispatch_tx [OF inv rt(1) that] tx_of_dispatch_late [of "jp_state p"] r(2) rt(2) by auto
  have rows: "set (db_transactions (add_dispatch d now db)) =
      insert (r\<lparr>jt_state := Tx_Prepared\<rparr>) {u \<in> set (db_transactions db). jt_id u \<noteq> dp_transaction d}"
    "map jt_id (db_transactions (add_dispatch d now db)) = map jt_id (db_transactions db)"
    using set_tx_state_rows [where db = ?db and t = r and S = "{Tx_Decided}" and s = Tx_Prepared] rt r dist
    by (simp_all add: add_dispatch_def)
  have tables: "db_decisions (add_dispatch d now db) = db_decisions db"
    "db_dispatches (add_dispatch d now db) = db_dispatches db @ [?p]" "db_outcomes (add_dispatch d now db) = db_outcomes db"
    by (simp_all add: add_dispatch_def)
  have new': "dp_transaction d \<notin> jp_tx ` set (db_dispatches db)" using new by (metis imageE)
  have dec: "dp_transaction d \<in> jd_tx ` set (db_decisions db)"
    using inv rt r(2) unfolding life_inv_def decisions_inv_def by force
  have "keys_inv (add_dispatch d now db)"
    using inv fresh new' unfolding life_inv_def keys_inv_def rows(2) tables
    by (simp add: find_dispatch_def find_None_key)
  moreover have "decisions_inv (add_dispatch d now db)"
    using inv rt dec unfolding life_inv_def decisions_inv_def rows(1) tables
    by (simp add: life_states_def) (metis tx_state.distinct(37))
  moreover have "dispatches_inv (add_dispatch d now db)"
    using inv new rt unfolding life_inv_def dispatches_inv_def rows(1) tables by (simp, metis)
  ultimately show ?thesis by (simp add: life_inv_def)
qed

lemma tx_of_status_dispatch: "tx_of_dispatch (dispatch_of_status s) = tx_of_status s"
  by (cases s) simp_all

lemma dispatch_of_status_ended: "dispatch_of_status s \<notin> {Dp_Prepared, Dp_Dispatched, Dp_Quarantined}"
  by (cases s) simp_all

lemma tx_of_status_ended: "tx_of_status s \<in> life_states - {Tx_Observed, Tx_Decided, Tx_Prepared}"
  by (cases s) (simp_all add: life_states_def)

lemma settle_life:
  assumes inv: "life_inv db" and p: "p \<in> set (db_dispatches db)" "jp_state p = Dp_Prepared"
    and D: "Dp_Prepared \<in> D" and S: "Tx_Prepared \<in> S"
    and db': "db' = set_tx_state (jp_tx p) S (tx_of_status st) (close_dispatch (jp_id p) D st now (add_outcome (jp_id p) st ro v now db))"
  shows "life_inv db'"
proof -
  let ?p = "p\<lparr>jp_state := dispatch_of_status st, jp_done := Some now\<rparr>"
  let ?o = "\<lparr>jo_dispatch = jp_id p, jo_status = st, jo_ref = ro, jo_validator = v, jo_observed = now\<rparr>"
  let ?db1 = "close_dispatch (jp_id p) D st now (add_outcome (jp_id p) st ro v now db)"
  obtain t where t: "t \<in> set (db_transactions db)" "jt_id t = jp_tx p" "jt_state t = Tx_Prepared"
    using inv p unfolding life_inv_def dispatches_inv_def by force
  have new: "jp_id p \<notin> jo_dispatch ` set (db_outcomes db)"
  proof
    assume "jp_id p \<in> jo_dispatch ` set (db_outcomes db)"
    then obtain q st' where "q \<in> set (db_dispatches db)" "jp_id q = jp_id p" "jp_state q = dispatch_of_status st'"
      using inv unfolding life_inv_def dispatches_inv_def by force
    then show False using dispatch_unique [OF inv _ p(1)] p(2) dispatch_of_status_ended [of st'] by force
  qed
  have uq: "\<forall>q \<in> set (db_dispatches db). jp_id q = jp_id p \<longrightarrow> q = p" using dispatch_unique [OF inv _ p(1)] by blast
  have disp: "set (db_dispatches db') = insert ?p {q \<in> set (db_dispatches db). jp_id q \<noteq> jp_id p}"
    using p D uq by (auto simp: db' close_dispatch_def add_outcome_def image_iff)
  have keys: "map jp_id (db_dispatches db') = map jp_id (db_dispatches db)" "map jp_tx (db_dispatches db') = map jp_tx (db_dispatches db)"
    by (simp_all add: db' close_dispatch_def add_outcome_def comp_def if_distrib cong: if_cong)
  have rows: "set (db_transactions db') = insert (t\<lparr>jt_state := tx_of_status st\<rparr>) {u \<in> set (db_transactions db). jt_id u \<noteq> jp_tx p}"
    "map jt_id (db_transactions db') = map jt_id (db_transactions db)"
    using set_tx_state_rows [where db = ?db1 and t = t and S = S and s = "tx_of_status st"] t S inv
    by (simp_all add: db' close_dispatch_def add_outcome_def life_inv_def keys_inv_def)
  have tables: "db_decisions db' = db_decisions db" "db_outcomes db' = db_outcomes db @ [?o]"
    by (simp_all add: db' close_dispatch_def add_outcome_def)
  have tx_ne: "jp_tx q \<noteq> jp_tx p" if "q \<in> set (db_dispatches db)" "jp_id q \<noteq> jp_id p" for q
    using key_unique [of jp_tx "db_dispatches db" q p] inv that p by (auto simp: life_inv_def keys_inv_def)
  have "keys_inv db'"
    using inv new unfolding life_inv_def keys_inv_def rows(2) tables keys by simp
  moreover have "decisions_inv db'"
  proof -
    have "jt_id t \<in> jd_tx ` set (db_decisions db)" using inv t unfolding life_inv_def decisions_inv_def by force
    then show ?thesis
      using inv t tx_of_status_ended [of st] unfolding life_inv_def decisions_inv_def rows(1) tables by (simp, metis)
  qed
  moreover have "dispatches_inv db'"
    unfolding dispatches_inv_def rows(1) tables disp
  proof (intro conjI ballI)
    fix u assume "u \<in> insert (t\<lparr>jt_state := tx_of_status st\<rparr>) {u \<in> set (db_transactions db). jt_id u \<noteq> jp_tx p}"
    then show "jt_state u \<notin> {Tx_Observed, Tx_Decided} \<longrightarrow> jt_id u \<in> jp_tx ` insert ?p {q \<in> set (db_dispatches db). jp_id q \<noteq> jp_id p}"
      using inv t(2) unfolding life_inv_def dispatches_inv_def by (auto simp: image_iff) (metis dispatch_unique [OF inv p(1)])
  next
    fix q assume q: "q \<in> insert ?p {q \<in> set (db_dispatches db). jp_id q \<noteq> jp_id p}"
    show "jp_state q \<notin> {Dp_Dispatched, Dp_Quarantined}"
      using q inv dispatch_of_status_ended [of st] unfolding life_inv_def dispatches_inv_def by auto
    show "\<exists>u \<in> insert (t\<lparr>jt_state := tx_of_status st\<rparr>) {u \<in> set (db_transactions db). jt_id u \<noteq> jp_tx p}.
        jt_id u = jp_tx q \<and> jt_state u = tx_of_dispatch (jp_state q)"
      using q inv t(2) tx_ne unfolding life_inv_def dispatches_inv_def by (auto simp: tx_of_status_dispatch)
    show "jp_state q \<noteq> Dp_Prepared \<longrightarrow> jp_id q \<in> jo_dispatch ` set (db_outcomes db @ [?o])"
      using q inv unfolding life_inv_def dispatches_inv_def by auto
  next
    fix w assume w: "w \<in> set (db_outcomes db @ [?o])"
    show "\<exists>q \<in> insert ?p {q \<in> set (db_dispatches db). jp_id q \<noteq> jp_id p}.
        jp_id q = jo_dispatch w \<and> jp_state q = dispatch_of_status (jo_status w)"
    proof (cases "w = ?o")
      case False
      then have "w \<in> set (db_outcomes db)" "jo_dispatch w \<noteq> jp_id p" using w new by (auto, metis imageI)
      then show ?thesis using inv unfolding life_inv_def dispatches_inv_def by fastforce
    qed simp
  qed
  ultimately show ?thesis by (simp add: life_inv_def)
qed

lemma find_dispatch_close:
  "find_dispatch i (close_dispatch i D st now db) =
     map_option (\<lambda>d. if jp_state d \<in> D then d\<lparr>jp_state := dispatch_of_status st, jp_done := Some now\<rparr> else d) (find_dispatch i db)"
proof -
  have "find (\<lambda>d. jp_id d = i) (map (\<lambda>d. if jp_id d = i \<and> jp_state d \<in> D then f d else d) ds) =
      map_option (\<lambda>d. if jp_state d \<in> D then f d else d) (find (\<lambda>d. jp_id d = i) ds)"
    if "\<And>d. jp_id (f d) = jp_id d" for f ds
    using that by (induction ds) auto
  from this [of "\<lambda>d. d\<lparr>jp_state := dispatch_of_status st, jp_done := Some now\<rparr>" "db_dispatches db"]
  show ?thesis by (simp add: find_dispatch_def close_dispatch_def)
qed

lemma settle_outcome_life:
  assumes "life_inv db" "find_dispatch (or_dispatch r) db = Some d" "jp_state d = Dp_Prepared"
  shows "life_inv (settle_outcome r status now db)"
proof -
  have d: "d \<in> set (db_dispatches db)" "jp_id d = or_dispatch r"
    using find_Some_key [of jp_id] assms(2) by (auto simp: find_dispatch_def)
  have "find_dispatch (or_dispatch r) (add_outcome (or_dispatch r) status (or_ref_observed r) (or_validator r) now db) = Some d"
    using assms(2) by (simp add: find_dispatch_def add_outcome_def)
  then have "settle_outcome r status now db = set_tx_state (jp_tx d) {Tx_Prepared} (tx_of_status status)
      (close_dispatch (jp_id d) {Dp_Prepared} status now
        (add_outcome (jp_id d) status (or_ref_observed r) (or_validator r) now db))"
    using assms(3) d(2) by (simp add: settle_outcome_def close_tx_of_def find_dispatch_close)
  then show ?thesis by (intro settle_life [OF assms(1) d(1) assms(3)]) simp_all
qed

text \<open>A dispatch that recovery has yet to classify, as the table has it.\<close>

definition still_pending :: "journal_db \<Rightarrow> pending_dispatch \<Rightarrow> bool" where
  "still_pending db d \<longleftrightarrow>
     (\<exists>p \<in> set (db_dispatches db). jp_id p = pd_id d \<and> jp_tx p = pd_transaction d \<and> jp_state p = Dp_Prepared)"

lemma settle_pending_life:
  assumes "life_inv db" "still_pending db d"
  shows "life_inv (settle_pending d status ro now db)"
proof -
  obtain p where p: "p \<in> set (db_dispatches db)" "jp_id p = pd_id d" "jp_tx p = pd_transaction d" "jp_state p = Dp_Prepared"
    using assms(2) by (auto simp: still_pending_def)
  show ?thesis
    by (rule settle_life [OF assms(1) p(1,4), where D = "{Dp_Prepared, Dp_Dispatched}" and S = "{Tx_Prepared, Tx_Dispatched}"])
       (simp_all add: settle_pending_def p(2,3))
qed

lemma dispatches_unchanged [simp]:
  "db_dispatches (logged F kind payload db) = db_dispatches db"
  "db_dispatches (audit_step F kind payload now db) = db_dispatches db"
  "db_dispatches (add_barrier scope reason now evidence db) = db_dispatches db"
  "db_dispatches (flag_quarantine db) = db_dispatches db"
  "db_dispatches (epoch_started epoch db) = db_dispatches db"
  by (simp_all add: logged_def add_audit_def audit_step_def touched_def add_barrier_def flag_quarantine_def epoch_started_def
      mark_stale_def Let_def)

lemma settle_pending_keeps:
  "pd_id e \<noteq> pd_id d \<Longrightarrow> still_pending db e \<Longrightarrow> still_pending (settle_pending d status ro now db) e"
  by (force simp: still_pending_def settle_pending_def set_tx_state_def close_dispatch_def add_outcome_def)

lemma resolved_life:
  assumes "resolved F now d db c db'" "life_inv db" "still_pending db d"
  shows "life_inv db' \<and> (\<forall>e. pd_id e \<noteq> pd_id d \<longrightarrow> still_pending db e \<longrightarrow> still_pending db' e)"
  using assms
proof (induction rule: resolved.induct)
  case (stopped payload)
  then show ?case by (simp add: still_pending_def)
qed (auto simp: settle_pending_life still_pending_def [of "logged _ _ _ _"] still_pending_def [of "add_barrier _ _ _ _ _"]
    still_pending_def [of "settle_pending _ _ _ _ _", symmetric] intro: settle_pending_keeps)

lemma resolved_all_life:
  assumes "resolved_all F inspect now ds t db t' db'" "life_inv db" "\<forall>d \<in> set ds. still_pending db d" "distinct (map pd_id ds)"
  shows "life_inv db'"
  using assms
proof (induction rule: resolved_all.induct)
  case (more d db db1 ds t t' db')
  have "life_inv db1" "\<forall>e \<in> set ds. still_pending db1 e"
    using resolved_life [OF more.hyps(1)] more.prems by (auto, metis image_eqI)
  then show ?case using more.IH more.prems by simp
qed (auto dest: resolved_life)

lemma pending_rows_life:
  assumes "life_inv db" "mset rows = mset (pending_rows db)"
  shows "\<forall>d \<in> set (map pending_of rows). still_pending db d" "distinct (map pd_id (map pending_of rows))"
proof -
  have set: "set rows = set (pending_rows db)" by (metis assms(2) set_mset_mset)
  show "\<forall>d \<in> set (map pending_of rows). still_pending db d"
    using assms(1) unfolding life_inv_def dispatches_inv_def
    by (auto simp: set pending_rows_def still_pending_def pending_of_def)
  have ids: "map pd_id (map pending_of rows) = map jp_id rows" by (simp add: pending_of_def comp_def)
  have "distinct (map jp_id (pending_rows db))"
    using assms(1) by (simp add: life_inv_def keys_inv_def pending_rows_def distinct_map_filter)
  moreover have "mset (map jp_id rows) = mset (map jp_id (pending_rows db))" by (simp add: assms(2))
  ultimately show "distinct (map pd_id (map pending_of rows))" unfolding ids by (metis mset_eq_imp_distinct_iff)
qed

lemma recovery_life:
  assumes "life_inv db" "\<forall>rows. mset (scan rows) = mset rows"
    and "resolved_all F inspect now (map pending_of (scan (pending_rows (epoch_started epoch db)))) no_tally
      (epoch_started epoch db) t db1"
  shows "life_inv db1"
  using resolved_all_life [OF assms(3) epoch_started_life [OF assms(1)]]
    pending_rows_life [OF epoch_started_life [OF assms(1)], of "scan (pending_rows (epoch_started epoch db))" epoch] assms(2)
  by simp

lemma table_step_life:
  assumes "table_step F now epoch op db db'" "life_inv db" "op_fit op"
  shows "life_inv db'"
  using assms
proof (induction rule: table_step.induct)
  case (halted inspect scan db t db1)
  then show ?case using recovery_life by simp
next
  case (recovered inspect scan db t db1 payload)
  then show ?case using recovery_life by simp
qed (simp_all add: add_tx_life add_decision_life consume_row_life add_dispatch_life settle_outcome_life add_generation_life)

section \<open>The invariant of a journal\<close>

definition journal_inv :: "foundation \<Rightarrow> journal_db \<Rightarrow> bool" where
  "journal_inv F db \<longleftrightarrow> chain_inv F db \<and> life_inv db"

context digest_laws
begin

lemma run_op_inv:
  "journal_inv F (jn_db J) \<Longrightarrow> op_fit op \<Longrightarrow> journal_inv F (jn_db (snd (run_op F now op J)))"
  using run_op_step [of F now op J] table_step_chain table_step_life
  by (cases "run_op F now op J") (auto simp: journal_inv_def)

lemma run_ops_inv:
  "journal_inv F (jn_db J) \<Longrightarrow> \<forall>(now, op) \<in> set ops. op_fit op \<Longrightarrow> journal_inv F (jn_db (run_ops F ops J))"
  by (induction ops arbitrary: J) (auto simp: run_op_inv)

lemma populate_inv:
  assumes "populate F install now J = (Inr u, J')" "jn_db J = empty_db"
  shows "journal_inv F (jn_db J')"
proof -
  let ?payload = "put_str F install @ enc_u64 F current_schema_version @ enc_u64 F now"
  obtain u0 u1 u2 u3 u4 u5 p h u6 K0 K1 K2 K3 K4 K5 J1 J2 K8 where
    k: "exec_sql (tick J) = (Inr u0, K0)" "write_meta ''schema_version'' (to_string_u64 current_schema_version) K0 = (Inr u1, K1)"
      "write_meta ''install_id'' install K1 = (Inr u2, K2)" "write_meta ''boot_epoch'' ''0'' K2 = (Inr u3, K3)"
      "write_meta ''quarantine'' ''0'' K3 = (Inr u4, K4)" "write_meta ''last_wall_ms'' (to_string_u64 now) K4 = (Inr u5, K5)"
    and p: "payload_span ?payload K5 = (Inr p, J1)" and 2: "append_audit_row F ''journal_created'' p J1 = (Inr h, J2)"
    and w: "write_meta ''genesis_hash'' (to_hex h) J2 = (Inr u6, K8)" and J': "J' = tick K8"
    using assms(1) unfolding populate_def txn_ok and_then_ok by blast
  have 1: "jn_db J1 = empty_db\<lparr>db_meta := db_meta (jn_db J1)\<rparr>"
    using k p assms(2) by (auto simp: exec_sql_ok write_meta_def change_ok payload_span_ok)
  have 3: "jn_db J' = (jn_db J2)\<lparr>db_meta := (db_meta (jn_db J2))(''genesis_hash'' \<mapsto> to_hex h)\<rparr>"
    using w J' by (auto simp: write_meta_def change_ok)
  have pp: "p = ?payload" using p by (simp add: payload_span_ok)
  have pz: "prev_hash (jn_db J1) = zero_hash" by (subst 1) (simp add: prev_hash_def last_hash_def empty_db_def)
  have db: "jn_db J2 = logged F ''journal_created'' (put_str F install @ enc_u64 F current_schema_version @ enc_u64 F now) (jn_db J1)"
    and l: "loggable F ''journal_created'' (jn_db J1)"
    and h: "h = chain_hash F zero_hash ''journal_created'' (put_str F install @ enc_u64 F current_schema_version @ enc_u64 F now)"
    using append_audit_row_ok [OF 2] pz pp by simp_all
  have e: "db_audit (jn_db J1) = []" "db_seq (jn_db J1) = 0" by (subst 1, simp add: empty_db_def)+
  have "chain_inv F (jn_db J')"
    using 3 db l h pz e
    by (simp add: chain_inv_def logged_def add_audit_def event_row_def loggable_def zero_hash_def)
  moreover have "life_inv (jn_db J1)"
    by (subst 1) (simp add: life_inv_def keys_inv_def decisions_inv_def dispatches_inv_def empty_db_def)
  then have "life_inv (jn_db J')" using 3 db by simp
  ultimately show ?thesis by (simp add: journal_inv_def)
qed

end

end
