(* ===== verification/Journal_Calm.thy ===== *)
theory Journal_Calm
  imports Journal_Invariant
begin

text \<open>
  Runs on a database that answers every statement: each piece of a method, the guards, the audit append and the
  creation of a journal, with the tables small enough for another audit row.
\<close>

section \<open>Runs without faults\<close>

definition faultless :: "journal \<Rightarrow> bool" where
  "faultless J \<longleftrightarrow> jn_faults J = (\<lambda>_. None)"

lemma faultless_keeps [simp]:
  "faultless (tick J) = faultless J" "faultless (J\<lparr>jn_db := db\<rparr>) = faultless J" "faultless (J\<lparr>jn_quarantined := q\<rparr>) = faultless J"
  "faultless (J\<lparr>jn_boot_epoch := n\<rparr>) = faultless J" "faultless (J\<lparr>jn_append_failures := m\<rparr>) = faultless J"
  by (simp_all add: faultless_def tick_def)

lemma tick_with [simp]:
  "tick (J\<lparr>jn_db := db\<rparr>) = (tick J)\<lparr>jn_db := db\<rparr>" "tick (J\<lparr>jn_boot_epoch := n\<rparr>) = (tick J)\<lparr>jn_boot_epoch := n\<rparr>"
  by (simp_all add: tick_def)

named_theorems calm_run \<open>what a piece of a method returns when no statement fails\<close>

lemma calm_statements [calm_run]:
  assumes "faultless J"
  shows "query f J = (Inr (f (jn_db J)), tick J)"
    "change g J = (Inr (), (tick J)\<lparr>jn_db := g (jn_db J)\<rparr>)"
    "exec_sql J = (Inr (), tick J)"
    "quick_check J = (Inr (jn_intact J), tick J)"
    "insert_if p g J = (if p (jn_db J) then (Inr (), (tick J)\<lparr>jn_db := g (jn_db J)\<rparr>) else (Inl Err_Open, tick J))"
  using assms by (simp_all add: faultless_def query_def change_def exec_sql_def quick_check_def insert_if_def run_sql_def)

lemma calm_run_sql [calm_run]: "faultless J \<Longrightarrow> run_sql (\<lambda>db. Inr (g db)) J = (Inr (fst (g (jn_db J))), (tick J)\<lparr>jn_db := snd (g (jn_db J))\<rparr>)"
  by (simp add: faultless_def run_sql_def split: prod.split)

lemma calm_flow [calm_run]:
  "ret x J = (Inr x, J)" "deny e J = (Inl e, J)"
  "length bs \<le> payload_capacity_limit \<Longrightarrow> payload_span bs J = (Inr bs, J)"
  by (simp_all add: ret_def deny_def payload_span_def)

lemma and_then_Inr [calm_run]: "m J = (Inr x, J') \<Longrightarrow> and_then m k J = k x J'"
  by (simp add: and_then_def)

lemma and_then_Inl [calm_run]: "m J = (Inl e, J') \<Longrightarrow> and_then m k J = (Inl e, J')"
  by (simp add: and_then_def)

text \<open>What the guards say when the database answers.\<close>

definition in_quarantine :: "journal_db \<Rightarrow> bool" where
  "in_quarantine db \<longleftrightarrow> db_meta db ''quarantine'' = Some ''1''"

definition clock_behind :: "u64 \<Rightarrow> journal_db \<Rightarrow> bool" where
  "clock_behind now db \<longleftrightarrow> (case parsed_wall db of None \<Rightarrow> False | Some l \<Rightarrow> now + 300000 < l)"

lemma calm_guards:
  assumes "faultless J"
  shows "and_then deny_if_quarantined (\<lambda>_. and_then (check_clock now) k) J =
    (if in_quarantine (jn_db J) then (Inl Err_Chain, (tick J)\<lparr>jn_quarantined := True\<rparr>)
     else if clock_behind now (jn_db J) then (Inl Err_Clock, tick ((tick J)\<lparr>jn_quarantined := False\<rparr>))
     else k () (tick ((tick J)\<lparr>jn_quarantined := False\<rparr>)))"
  using assms
  by (auto simp: deny_if_quarantined_def check_clock_def read_meta_def calm_run in_quarantine_def clock_behind_def
      parsed_wall_def and_then_def split: option.splits)

lemma calm_txn:
  assumes "faultless J" "body (tick J) = (r, J2)" "faultless J2"
  shows "fst (txn body J) = r"
  using assms by (cases r) (auto simp: txn_def calm_run)

lemma calm_append_row:
  assumes "faultless J" "loggable F kind (jn_db J)"
  obtains J' where "append_audit_row F kind payload J = (Inr (chain_hash F (prev_hash (jn_db J)) kind payload), J')" "faultless J'"
    "jn_db J' = logged F kind payload (jn_db J)" "jn_boot_epoch J' = jn_boot_epoch J"
  using assms unfolding append_audit_row_def
  by (auto simp: calm_run loggable_def prev_hash_def logged_def event_row_def Let_def)

lemma calm_append:
  assumes "faultless J" "loggable F kind (jn_db J)" "length payload \<le> payload_capacity_limit"
  obtains J' where "append_audit F kind payload J = (Inr (), J')" "faultless J'"
    "jn_db J' = logged F kind payload (jn_db J)" "jn_boot_epoch J' = jn_boot_epoch J"
proof -
  obtain J' where "append_audit_row F kind payload J = (Inr (chain_hash F (prev_hash (jn_db J)) kind payload), J')" "faultless J'"
    "jn_db J' = logged F kind payload (jn_db J)" "jn_boot_epoch J' = jn_boot_epoch J"
    using calm_append_row [OF assms(1,2)] by blast
  then show thesis using that [of J'] assms(3) by (simp add: append_audit_def calm_run)
qed

lemma calm_touch:
  assumes "faultless J"
  obtains J' where "touch_wall_clock now J = (Inr (), J')" "faultless J'" "jn_db J' = touched now (jn_db J)"
    "jn_boot_epoch J' = jn_boot_epoch J"
  using assms by (auto simp: touch_wall_clock_def read_meta_def write_meta_def calm_run touched_def parsed_wall_def)

lemma calm_audited:
  assumes "faultless J" "loggable F kind (jn_db J)" "length payload \<le> payload_capacity_limit"
  obtains J' where "audited F kind payload now x J = (Inr x, J')" "faultless J'"
    "jn_db J' = audit_step F kind payload now (jn_db J)" "jn_boot_epoch J' = jn_boot_epoch J"
proof -
  obtain J1 where 1: "append_audit F kind payload J = (Inr (), J1)" "faultless J1"
    "jn_db J1 = logged F kind payload (jn_db J)" "jn_boot_epoch J1 = jn_boot_epoch J"
    using calm_append [OF assms] by blast
  obtain J2 where 2: "touch_wall_clock now J1 = (Inr (), J2)" "faultless J2" "jn_db J2 = touched now (jn_db J1)"
    "jn_boot_epoch J2 = jn_boot_epoch J1"
    using calm_touch [OF 1(2)] by blast
  show thesis
    by (rule that [of J2]) (use 1 2 in \<open>simp_all add: audited_def calm_run audit_step_def\<close>)
qed

section \<open>Room for another event\<close>

text \<open>The audit table can take \<open>n\<close> more rows.\<close>

definition room :: "nat \<Rightarrow> journal_db \<Rightarrow> bool" where
  "room n db \<longleftrightarrow> db_seq db + int n < 2 ^ 63"

lemma verified_hash_lengths:
  "verify_rows F g e prev as = None \<Longrightarrow> a \<in> set as \<Longrightarrow> length (ja_hash a) = 32"
  by (induction as arbitrary: g e prev) (auto split: if_splits)

lemma chain_prev_hash: "chain_inv F db \<Longrightarrow> length (prev_hash db) = 32"
  using verified_hash_lengths last_in_set by (fastforce simp: chain_inv_def prev_hash_def last_hash_def)

context codec_laws
begin

lemma length_put_str [simp]: "length (put_str F s) = 4 + length s"
  by (simp add: put_str_def put_blob_def)

lemma chain_loggable:
  "chain_inv F db \<Longrightarrow> room 1 db \<Longrightarrow> length kind \<le> 100 \<Longrightarrow> loggable F kind db"
  by (simp add: loggable_def room_def chain_prev_hash payload_capacity_limit_def)

end

locale journal_foundation = codec_laws F + digest_laws F for F :: foundation

interpretation ref_journal: journal_foundation ref_foundation
  by unfold_locales

section \<open>Creation\<close>

lemma empty_meta: "db_meta empty_db = Map.empty"
  by (simp add: empty_db_def)

lemma csrandom_length: "length (fst (csrandom_fill n device)) \<le> n"
  by (induction n device rule: csrandom_fill.induct) (auto simp: Let_def split: prod.splits)

lemma to_hex_length: "length (to_hex bs) = 2 * length bs"
  by (induction bs) (simp_all add: to_hex_def hex_byte_def)

context journal_foundation
begin

lemma calm_populate:
  assumes J: "faultless J" "jn_db J = empty_db" and install: "length install \<le> 100"
  obtains J' where "populate F install now J = (Inr (), J')" "faultless J'" "db_meta (jn_db J') ''install_id'' = Some install"
    "db_meta (jn_db J') ''boot_epoch'' = Some ''0''"
proof -
  let ?payload = "put_str F install @ enc_u64 F current_schema_version @ enc_u64 F now"
  let ?m = "[''schema_version'' \<mapsto> to_string_u64 current_schema_version, ''install_id'' \<mapsto> install, ''boot_epoch'' \<mapsto> ''0'',
    ''quarantine'' \<mapsto> ''0'', ''last_wall_ms'' \<mapsto> to_string_u64 now]"
  let ?K = "tick (tick (tick (tick (tick (tick (tick J))))))\<lparr>jn_db := empty_db\<lparr>db_meta := ?m\<rparr>\<rparr>"
  have "loggable F ''journal_created'' (jn_db ?K)"
    by (simp add: loggable_def prev_hash_def last_hash_def zero_hash_def empty_db_def payload_capacity_limit_def)
  then obtain K where K: "append_audit_row F ''journal_created'' ?payload ?K =
      (Inr (chain_hash F (prev_hash (jn_db ?K)) ''journal_created'' ?payload), K)" "faultless K"
      "jn_db K = logged F ''journal_created'' ?payload (empty_db\<lparr>db_meta := ?m\<rparr>)"
    using calm_append_row [of ?K F "''journal_created''" ?payload] J by auto
  have p: "length ?payload \<le> payload_capacity_limit" using install by (simp add: payload_capacity_limit_def)
  let ?J' = "tick ((tick K)\<lparr>jn_db := (jn_db K)\<lparr>db_meta := (db_meta (jn_db K))(''genesis_hash'' \<mapsto>
      to_hex (chain_hash F (prev_hash (jn_db ?K)) ''journal_created'' ?payload))\<rparr>\<rparr>)"
  have "populate F install now J = (Inr (), ?J')"
    using J K(1,2) p by (simp add: populate_def txn_def write_meta_def calm_run empty_meta)
  then show thesis
    by (rule that) (use K in \<open>simp_all add: logged_def add_audit_def\<close>)
qed

text \<open>Creation succeeds, whatever the physical check has found.\<close>

lemma calm_create:
  "\<exists>J. journal_open F (\<lambda>_. None) intact device CreateNew now No_File = Inr J"
proof -
  let ?c = "connection (\<lambda>_. None) intact empty_db"
  let ?install = "to_hex (fst (csrandom_fill 16 device))"
  have c: "faultless ?c" "jn_db ?c = empty_db" by (simp_all add: connection_def faultless_def)
  have "length ?install \<le> 100" using csrandom_length [of 16 device] by (simp add: to_hex_length)
  then obtain K where K: "populate F ?install now (tick (tick (tick (tick ?c)))) = (Inr (), K)" "faultless K"
    "db_meta (jn_db K) ''install_id'' = Some ?install" "db_meta (jn_db K) ''boot_epoch'' = Some ''0''"
    using calm_populate [of "tick (tick (tick (tick ?c)))" ?install] c by auto
  have "journal_db_open F device CreateNew now No_File ?c = (Inr (), K)"
    using c K(1) by (simp add: journal_db_open_def calm_run)
  moreover have "journal_parse_u64 ''0'' = Some 0" by (simp add: journal_parse_u64_def)
  ultimately show ?thesis
    using K(2-4) by (simp add: journal_open_def calm_run read_meta_def)
qed

end

section \<open>A small journal\<close>

text \<open>One transaction with its decision and its dispatch still pending, on the concrete foundation.\<close>

definition sample_event :: audit_row where
  "sample_event =
     \<lparr>ja_seq = 1, ja_prev = zero_hash, ja_hash = chain_hash ref_foundation zero_hash ''journal_created'' [],
      ja_kind = ''journal_created'', ja_payload = []\<rparr>"

definition sample_db :: "string \<Rightarrow> journal_db" where
  "sample_db flag =
     \<lparr>db_meta = [''quarantine'' \<mapsto> flag, ''genesis_hash'' \<mapsto> to_hex (ja_hash sample_event)],
      db_generations = [], db_sessions = [],
      db_transactions = [\<lparr>jt_id = 1, jt_epoch = 0, jt_parent = None, jt_correlation = ''c'', jt_digest = [], jt_base = None,
        jt_state = Tx_Prepared\<rparr>],
      db_decisions = [\<lparr>jd_id = replicate 16 5, jd_token = replicate 32 6, jd_tx = 1, jd_generation = 1, jd_binding = [],
        jd_expires = 90, jd_state = De_Bound, jd_consumed_ms = None\<rparr>],
      db_leases = [],
      db_dispatches = [\<lparr>jp_id = replicate 16 7, jp_tx = 1, jp_plan = replicate 32 8, jp_state = Dp_Prepared, jp_started = 3,
        jp_done = None\<rparr>],
      db_outcomes = [], db_barriers = [], db_audit = [sample_event], db_seq = 1\<rparr>"

definition sample_journal :: "string \<Rightarrow> journal" where
  "sample_journal flag = connection (\<lambda>_. None) True (sample_db flag)"

lemma sample_parts [simp]:
  "jn_db (sample_journal flag) = sample_db flag" "faultless (sample_journal flag)" "jn_faults (sample_journal flag) = (\<lambda>_. None)"
  by (simp_all add: sample_journal_def connection_def faultless_def)

lemma sample_verifies: "verify_rows ref_foundation (Some (to_hex (ja_hash sample_event))) 1 zero_hash [sample_event] = None"
  by (simp add: sample_event_def zero_hash_def payload_capacity_limit_def)

lemma sample_inv: "journal_inv ref_foundation (sample_db flag)"
  using sample_verifies
  by (simp add: journal_inv_def chain_inv_def sample_db_def life_inv_def keys_inv_def decisions_inv_def dispatches_inv_def life_states_def)

end
