(* ===== verification/Journal_Properties.thy ===== *)
theory Journal_Properties
  imports Journal_Calm
begin

text \<open>
  What the journal guarantees over every run: the audit chain verifies and exposes changes, life cycles only advance,
  a decision is consumed once, leases are fenced, a failed command changes nothing, quarantine stops mutation, and
  recovery fails closed.  The last section shows where the code falls short of its comments.
\<close>

section \<open>Reachable journals\<close>

text \<open>The journals a host can hold: one created from nothing and taken through any operations it may issue.\<close>

definition reached_from :: "foundation \<Rightarrow> journal \<Rightarrow> journal \<Rightarrow> bool" where
  "reached_from F J J' \<longleftrightarrow> (\<exists>ops. (\<forall>(now, op) \<in> set ops. op_fit op) \<and> J' = run_ops F ops J)"

lemma journal_open_ok:
  assumes "journal_open F faults intact device intent now file = Inr J"
  obtains K i n where
    "journal_db_open F device intent now file (connection faults intact (case file of Database _ db \<Rightarrow> db | _ \<Rightarrow> empty_db)) = (Inr (), K)"
    "db_meta (jn_db K) ''install_id'' = Some i" "Option.bind (db_meta (jn_db K) ''boot_epoch'') journal_parse_u64 = Some n"
    "J = (tick (tick K))\<lparr>jn_install := i, jn_boot_epoch := n\<rparr>"
proof -
  let ?c = "connection faults intact (case file of Database _ db \<Rightarrow> db | _ \<Rightarrow> empty_db)"
  let ?rest = "\<lambda>_. and_then (read_meta ''install_id'') (\<lambda>install.
        case install of
          None \<Rightarrow> deny Err_Open
        | Some i \<Rightarrow>
            and_then (read_meta ''boot_epoch'') (\<lambda>epoch.
            case Option.bind epoch journal_parse_u64 of
              None \<Rightarrow> deny Err_Open
            | Some n \<Rightarrow> (\<lambda>J. (Inr (), J\<lparr>jn_install := i, jn_boot_epoch := n\<rparr>))))"
  have "and_then (journal_db_open F device intent now file) ?rest ?c = (Inr (), J)"
    using assms unfolding journal_open_def by (auto split: prod.splits sum.splits)
  then obtain K where K: "journal_db_open F device intent now file ?c = (Inr (), K)" and r: "?rest () K = (Inr (), J)"
    unfolding and_then_ok by auto
  obtain install where i: "db_meta (jn_db K) ''install_id'' = Some install"
    using r by (auto simp: and_then_ok read_meta_def query_ok split: option.splits)
  obtain n where n: "Option.bind (db_meta (jn_db K) ''boot_epoch'') journal_parse_u64 = Some n"
    using r i by (auto simp: and_then_ok read_meta_def query_ok split: option.splits)
  have "J = (tick (tick K))\<lparr>jn_install := install, jn_boot_epoch := n\<rparr>"
    using r i n by (auto simp: and_then_ok read_meta_def query_ok)
  then show thesis using that K i n by blast
qed

context digest_laws
begin

lemma created_inv:
  assumes "journal_open F faults intact device CreateNew now No_File = Inr J"
  shows "journal_inv F (jn_db J)"
proof -
  obtain K where K: "journal_db_open F device CreateNew now No_File (connection faults intact empty_db) = (Inr (), K)"
    and J: "jn_db J = jn_db K"
    by (rule journal_open_ok [OF assms]) simp
  obtain K1 where "populate F (to_hex (fst (csrandom_fill 16 device))) now K1 = (Inr (), K)" "jn_db K1 = empty_db"
    using K unfolding journal_db_open_def
    by (auto simp: and_then_ok exec_sql_ok connection_def quick_check_def split: option.splits)
  then show ?thesis using populate_inv J by simp
qed

lemma reached_inv:
  "journal_open F faults intact device CreateNew now No_File = Inr J \<Longrightarrow> reached_from F J J' \<Longrightarrow> journal_inv F (jn_db J')"
  using created_inv run_ops_inv by (auto simp: reached_from_def)

end

text \<open>The same object with a database that answers every statement.\<close>

definition calm :: "journal \<Rightarrow> journal" where
  "calm J = J\<lparr>jn_faults := \<lambda>_. None\<rparr>"

section \<open>The audit chain\<close>

lemma chain_inv_verifies:
  "chain_inv F (jn_db J) \<Longrightarrow> jn_faults J = (\<lambda>_. None) \<Longrightarrow> \<exists>J'. verify_audit_chain F J = (Inr (), J')"
  by (auto simp: chain_inv_def verify_audit_chain_def read_meta_def and_then_def query_def run_sql_def ret_def
      split: option.splits)

text \<open>C14: invariant: whatever a host does with a journal it created (any commands in any order, any statement
  failing at any moment, restarts, recoveries), the audit chain of its tables verifies, and the life cycles are
  intact: keys are unique, every decided transaction has its one decision, every prepared one its one dispatch, every
  ended one the one outcome its state names.\<close>

theorem journal_always_sound:
  assumes "digest_laws F" and "journal_open F faults intact device CreateNew now No_File = Inr J" and "reached_from F J J'"
  shows "(\<exists>K. verify_audit_chain F (calm J') = (Inr (), K)) \<and> life_inv (jn_db J')"
  using digest_laws.reached_inv [OF assms] chain_inv_verifies [of F "calm J'"] by (simp add: journal_inv_def calm_def)

theorem journal_always_sound_witness:
  "\<exists>J K. journal_open ref_foundation (\<lambda>_. None) True [] CreateNew 7 No_File = Inr J \<and>
     verify_audit_chain ref_foundation (calm J) = (Inr (), K) \<and> life_inv (jn_db J)"
proof -
  obtain J where J: "journal_open ref_foundation (\<lambda>_. None) True [] CreateNew 7 No_File = Inr J"
    using ref_journal.calm_create by blast
  have "reached_from ref_foundation J J" unfolding reached_from_def by (rule exI [of _ "[]"]) simp
  then show ?thesis using journal_always_sound [OF ref_digest.digest_laws_axioms J] J by blast
qed

text \<open>The text a row contributes to the chain.\<close>

definition row_preimage :: "foundation \<Rightarrow> audit_row \<Rightarrow> bytes" where
  "row_preimage F a = ja_prev a @ put_str F (ja_kind a) @ ja_payload a"

lemma verify_rows_Cons:
  "verify_rows F g e prev (a # as) = None \<longleftrightarrow>
     ja_seq a = e \<and> length (ja_prev a) = 32 \<and> length (ja_hash a) = 32 \<and> ja_kind a \<noteq> [] \<and> ja_prev a = prev \<and>
     length (put_str F (ja_kind a)) \<le> payload_capacity_limit \<and> sha256 F (row_preimage F a) = ja_hash a \<and>
     (case g of None \<Rightarrow> True | Some x \<Rightarrow> to_hex (ja_hash a) = x) \<and> verify_rows F None (e + 1) (ja_hash a) as = None"
  by (auto simp: row_preimage_def chain_hash_def not_less split: option.splits)

lemma verify_rows_snoc:
  "verify_rows F g e prev (as @ [a]) = None \<longleftrightarrow>
     verify_rows F g e prev as = None \<and>
     verify_rows F (if as = [] then g else None) (e + int (length as)) (if as = [] then prev else ja_hash (last as)) [a] = None"
  by (simp only: verify_rows_append) (auto split: option.splits)

context codec_laws
begin

lemma put_str_app:
  assumes "put_str F s @ x = put_str F t @ y" "length s < 2 ^ 32" "length t < 2 ^ 32"
  shows "s = t \<and> x = y"
proof -
  have l: "(of_nat (length s) :: u32) = of_nat (length t)" and r: "text_bytes s @ x = text_bytes t @ y"
    using assms(1) by (simp_all add: put_str_def put_blob_def)
  from l assms(2,3) have "length s = length t"
    by (simp add: word_of_nat_eq_iff take_bit_nat_eq_self)
  with r show ?thesis by (simp add: append_eq_fixed)
qed

lemma capacity_lt: "length (put_str F s) \<le> payload_capacity_limit \<Longrightarrow> length s < 2 ^ 32"
  by (simp add: payload_capacity_limit_def)

text \<open>Two verified chains of one length with the same last hash are the same rows.\<close>

lemma chains_equal:
  assumes "verify_rows F g e prev as = None" "verify_rows F g' e prev' bs = None" "length as = length bs"
    "as \<noteq> []" "ja_hash (last as) = ja_hash (last bs)"
    "inj_on (sha256 F) (row_preimage F ` (set as \<union> set bs))"
  shows "as = bs"
  using assms
proof (induction as arbitrary: bs rule: rev_induct)
  case (snoc a as)
  then obtain b bs' where bs: "bs = bs' @ [b]" by (metis append_butlast_last_id length_0_conv snoc_eq_iff_butlast)
  note va = snoc.prems(1) [unfolded verify_rows_snoc verify_rows_Cons]
  note vb = snoc.prems(2) [unfolded bs verify_rows_snoc verify_rows_Cons]
  have len: "length as = length bs'" using snoc.prems(3) bs by simp
  have h: "ja_hash a = ja_hash b" using snoc.prems(5) bs by simp
  then have "sha256 F (row_preimage F a) = sha256 F (row_preimage F b)" using va vb by simp
  then have pre: "row_preimage F a = row_preimage F b"
    by (rule inj_onD [OF snoc.prems(6)]) (use bs in auto)
  have "length (ja_prev a) = 32" "length (ja_prev b) = 32" using va vb by blast+
  then have pv: "ja_prev a = ja_prev b" and "put_str F (ja_kind a) @ ja_payload a = put_str F (ja_kind b) @ ja_payload b"
    using pre unfolding row_preimage_def by (simp_all add: append_eq_fixed)
  then have "ja_kind a = ja_kind b" "ja_payload a = ja_payload b"
    using put_str_app capacity_lt va vb by blast+
  then have ab: "a = b" using pv h va vb len by simp
  show ?case
  proof (cases "as = []")
    case True
    then show ?thesis using ab bs len by simp
  next
    case False
    then have "bs' \<noteq> []" using len by auto
    moreover have "ja_hash (last as) = ja_hash (last bs')" using pv va vb False \<open>bs' \<noteq> []\<close> by auto
    moreover have "inj_on (sha256 F) (row_preimage F ` (set as \<union> set bs'))"
      using snoc.prems(6) bs by (auto elim: inj_on_subset)
    ultimately have "as = bs'" using snoc.IH [of bs'] va vb len False by auto
    then show ?thesis using ab bs by simp
  qed
qed simp

end

text \<open>C21: safety: the chain exposes every change.  Let two audit tables verify, with as many rows and the same last
  hash.  Unless two different rows of them collide under SHA-256, they are the same rows, sequence numbers, kinds and
  payloads included.\<close>

theorem chain_exposes_changes:
  assumes "codec_laws F"
    and "verify_rows F (Some g) 1 zero_hash as = None" "verify_rows F (Some g') 1 zero_hash bs = None"
    and "length as = length bs" "as \<noteq> []" "ja_hash (last as) = ja_hash (last bs)"
    and "inj_on (sha256 F) (row_preimage F ` (set as \<union> set bs))"
  shows "as = bs"
  using codec_laws.chains_equal [OF assms(1,2,3,4,5,6,7)] .

theorem chain_exposes_changes_witness:
  "verify_rows ref_foundation (Some (to_hex (ja_hash sample_event))) 1 zero_hash [sample_event] = None \<and> [sample_event] = [sample_event]"
  using chain_exposes_changes [OF ref_codec_laws sample_verifies sample_verifies] sample_verifies by simp

section \<open>Decisions are consumed once\<close>

lemma find_map_key: "(\<And>x. k (f x) = k x) \<Longrightarrow> find (\<lambda>x. k x = i) (map f xs) = map_option f (find (\<lambda>x. k x = i) xs)"
  by (induction xs) auto

lemma find_append_Some: "find p xs = Some x \<Longrightarrow> find p (xs @ ys) = Some x"
  by (induction xs) auto

definition consumed_row :: "bytes \<Rightarrow> decision_row \<Rightarrow> journal_db \<Rightarrow> bool" where
  "consumed_row i d db \<longleftrightarrow> find_decision i db = Some d \<and> jd_state d = De_Consumed"

lemma decisions_unchanged [simp]:
  "db_decisions (logged F kind payload db) = db_decisions db"
  "db_decisions (audit_step F kind payload now db) = db_decisions db"
  "db_decisions (add_barrier scope reason now evidence db) = db_decisions db"
  "db_decisions (flag_quarantine db) = db_decisions db"
  "db_decisions (settle_pending p status ro now db) = db_decisions db"
  "db_decisions (settle_outcome r status now db) = db_decisions db"
  "db_decisions (add_session s now db) = db_decisions db"
  "db_decisions (add_tx epoch t db) = db_decisions db"
  "db_decisions (put_lease l db) = db_decisions db"
  "db_decisions (add_dispatch dd now db) = db_decisions db"
  "db_decisions (shut_barrier scope now db) = db_decisions db"
  by (simp_all add: effect_defs logged_def add_audit_def audit_step_def touched_def split: option.split)

lemma resolved_decisions: "resolved F now d db c db' \<Longrightarrow> db_decisions db' = db_decisions db"
  by (induction rule: resolved.induct) simp_all

lemma resolved_all_decisions: "resolved_all F inspect now ds t db t' db' \<Longrightarrow> db_decisions db' = db_decisions db"
  by (induction rule: resolved_all.induct) (simp_all add: resolved_decisions)

lemma consumed_row_cong: "db_decisions db' = db_decisions db \<Longrightarrow> consumed_row i d db' = consumed_row i d db"
  by (simp add: consumed_row_def find_decision_def)

lemma consumed_row_update:
  assumes "consumed_row i d db" "\<And>x. jd_id (f x) = jd_id x" "\<And>x. jd_state x = De_Consumed \<Longrightarrow> f x = x"
    and "db_decisions db' = map f (db_decisions db) @ new"
  shows "consumed_row i d db'"
  using assms find_append_Some [of _ "map f (db_decisions db)" d new]
  by (simp add: consumed_row_def find_decision_def find_map_key)

lemma epoch_started_decisions:
  "db_decisions (epoch_started epoch db) =
     map (\<lambda>d. if jd_state d = De_Bound \<and> older_epoch epoch (db\<lparr>db_meta := (db_meta db)(''boot_epoch'' \<mapsto> to_string_u64 epoch)\<rparr>) d
       then d\<lparr>jd_state := De_Stale\<rparr> else d) (db_decisions db)"
  by (simp add: epoch_started_def mark_stale_def Let_def)

lemma epoch_started_consumed: "consumed_row i d db \<Longrightarrow> consumed_row i d (epoch_started epoch db)"
  by (rule consumed_row_update [where new = "[]"]) (auto simp: epoch_started_decisions)

text \<open>No operation changes a consumed decision.\<close>

lemma table_step_consumed: "table_step F now epoch op db db' \<Longrightarrow> consumed_row i d db \<Longrightarrow> consumed_row i d db'"
proof (induction rule: table_step.induct)
  case (bound b db r payload)
  show ?case
    by (rule consumed_row_update [OF bound.prems, where f = id and new = "[bound_row b]"]) (simp_all add: add_decision_def)
next
  case (consumed j db b payload)
  show ?case
    by (rule consumed_row_update [OF consumed.prems, where new = "[]"
        and f = "\<lambda>d. if jd_id d = j \<and> jd_state d = De_Bound then d\<lparr>jd_state := De_Consumed, jd_consumed_ms := Some now\<rparr> else d"])
       (auto simp: consume_row_def)
next
  case (advanced g db bdg pdg build payload)
  show ?case
    by (rule consumed_row_update [OF advanced.prems, where new = "[]"
        and f = "\<lambda>d. if jd_state d = De_Bound \<and> jd_generation d \<noteq> g then d\<lparr>jd_state := De_Stale\<rparr> else d"])
       (auto simp: add_generation_def mark_stale_def retire_generations_def)
next
  case (halted inspect scan db t db1)
  then show ?case using consumed_row_cong [OF resolved_all_decisions] epoch_started_consumed by blast
next
  case (recovered inspect scan db t db1 payload)
  then have "consumed_row i d db1" using consumed_row_cong [OF resolved_all_decisions] epoch_started_consumed by blast
  then show ?case by (simp add: consumed_row_def find_decision_def)
qed (simp_all add: consumed_row_def find_decision_def)

definition consume_attempt_at :: "foundation \<Rightarrow> journal \<Rightarrow> u64 \<times> journal_op \<Rightarrow> bool \<times> journal" where
  "consume_attempt_at F J a =
     (case run_op F (fst a) (snd a) J of
        (r, J') \<Rightarrow> (case snd a of Op_Consume i \<Rightarrow> \<not> isl r | _ \<Rightarrow> False, J'))"

definition consume_key :: "u64 \<times> journal_op \<Rightarrow> bytes" where
  "consume_key a = (case snd a of Op_Consume i \<Rightarrow> i | _ \<Rightarrow> [])"

definition consumed_ids :: "journal \<Rightarrow> bytes set" where
  "consumed_ids J = {i. \<exists>d. consumed_row i d (jn_db J)}"

lemma consume_success:
  assumes "consume_decision F i now J = (Inr u, J')"
  shows "i \<notin> consumed_ids J \<and> i \<in> consumed_ids J'"
proof -
  obtain d payload where d: "find_decision i (jn_db J) = Some d" "jd_state d = De_Bound"
    and db: "jn_db J' = audit_step F ''decision_consumed'' payload now (consume_row i now (jn_db J))"
    using consume_decision_ok [OF assms] by blast
  let ?f = "\<lambda>d. if jd_id d = i \<and> jd_state d = De_Bound then d\<lparr>jd_state := De_Consumed, jd_consumed_ms := Some now\<rparr> else d"
  have "find_decision i (jn_db J') = map_option ?f (find_decision i (jn_db J))"
    using find_map_key [of jd_id ?f i "db_decisions (jn_db J)"] db by (simp add: find_decision_def consume_row_def)
  moreover have "jd_id d = i" using d(1) by (auto simp: find_decision_def find_Some_iff)
  ultimately show ?thesis using d by (auto simp: consumed_ids_def consumed_row_def)
qed

interpretation journal_tokens: single_use "consume_attempt_at F" consume_key consumed_ids for F
proof unfold_locales
  fix s :: journal and a s'
  assume "consume_attempt_at F s a = (True, s')"
  then obtain i r where op: "snd a = Op_Consume i" and run: "run_op F (fst a) (Op_Consume i) s = (Inr r, s')"
    by (cases "run_op F (fst a) (snd a) s"; cases "fst (run_op F (fst a) (snd a) s)")
       (auto simp: consume_attempt_at_def split: journal_op.splits)
  then have "consume_decision F i (fst a) s = (Inr (), s')" by (auto simp: yielding_ok)
  from consume_success [OF this] show "consume_key a \<notin> consumed_ids s" "consume_key a \<in> consumed_ids s'"
    using op by (simp_all add: consume_key_def)
next
  fix s :: journal and a ok s'
  assume "consume_attempt_at F s a = (ok, s')"
  then have "table_step F (fst a) (jn_boot_epoch s) (snd a) (jn_db s) (jn_db s')"
    by (cases "run_op F (fst a) (snd a) s") (auto simp: consume_attempt_at_def intro: run_op_step)
  then show "consumed_ids s \<subseteq> consumed_ids s'" unfolding consumed_ids_def using table_step_consumed by blast
qed

text \<open>C15: safety: a decision is consumed at most once in the life of a journal.  Take any operations in any order with
  any failing statements, restarts and recoveries included; the decisions whose consumption is reported as a success
  are pairwise different, and a decision once consumed is consumed in every later state.\<close>

theorem journal_consumes_once:
  "distinct (map consume_key (granted (consume_attempt_at F) J ops)) \<and>
   consumed_ids J \<subseteq> consumed_ids (run_ops F ops J)"
proof
  show "distinct (map consume_key (granted (consume_attempt_at F) J ops))" by (rule journal_tokens.granted_once)
  show "consumed_ids J \<subseteq> consumed_ids (run_ops F ops J)"
  proof (induction ops arbitrary: J)
    case (Cons a ops)
    obtain now op where a: "a = (now, op)" by force
    have "table_step F now (jn_boot_epoch J) op (jn_db J) (jn_db (snd (run_op F now op J)))"
      by (rule run_op_step [where r = "fst (run_op F now op J)"]) simp
    then have "consumed_ids J \<subseteq> consumed_ids (snd (run_op F now op J))"
      unfolding consumed_ids_def using table_step_consumed by blast
    then show ?case using Cons.IH [of "snd (run_op F now op J)"] a by auto
  qed simp
qed

section \<open>Transactions never regress\<close>

text \<open>How far along its life a transaction is.\<close>

fun tx_stage :: "tx_state \<Rightarrow> nat" where
  "tx_stage Tx_Observed = 0"
| "tx_stage Tx_Judging = 0"
| "tx_stage Tx_Redeliberate = 0"
| "tx_stage Tx_Denied = 3"
| "tx_stage Tx_Decided = 1"
| "tx_stage Tx_Prepared = 2"
| "tx_stage Tx_Dispatched = 2"
| "tx_stage Tx_Succeeded = 3"
| "tx_stage Tx_Failed = 3"
| "tx_stage Tx_Indeterminate = 3"
| "tx_stage Tx_Quarantined = 3"

definition advances :: "tx_row \<Rightarrow> tx_row \<Rightarrow> bool" where
  "advances t t' \<longleftrightarrow> t' = t\<lparr>jt_state := jt_state t'\<rparr> \<and> (jt_state t' = jt_state t \<or> tx_stage (jt_state t) < tx_stage (jt_state t'))"

text \<open>The rows of \<open>db\<close> are in \<open>db'\<close>, in order, each the same or advanced.\<close>

definition tx_grows :: "journal_db \<Rightarrow> journal_db \<Rightarrow> bool" where
  "tx_grows db db' \<longleftrightarrow>
     (\<exists>ts new. db_transactions db' = ts @ new \<and> list_all2 advances (db_transactions db) ts)"

lemma advances_refl: "advances t t"
  by (simp add: advances_def)

lemma advances_trans: "advances t u \<Longrightarrow> advances u v \<Longrightarrow> advances t v"
  unfolding advances_def by (metis less_trans tx_row.surjective tx_row.update_convs(7))

lemma tx_grows_refl: "db_transactions db' = db_transactions db \<Longrightarrow> tx_grows db db'"
  unfolding tx_grows_def by (rule exI [of _ "db_transactions db"]) (simp add: list.rel_refl advances_refl)

lemma tx_grows_trans:
  assumes "tx_grows db1 db2" "tx_grows db2 db3" shows "tx_grows db1 db3"
proof -
  obtain ts new us new' where 1: "db_transactions db2 = ts @ new" "list_all2 advances (db_transactions db1) ts"
    and 2: "db_transactions db3 = us @ new'" "list_all2 advances (ts @ new) us"
    using assms by (auto simp: tx_grows_def)
  obtain us1 us2 where us: "us = us1 @ us2" "list_all2 advances ts us1"
    using 2(2) by (auto simp: list_all2_append1)
  have "list_all2 advances (db_transactions db1) us1"
    by (rule list_all2_trans [OF _ 1(2) us(2)]) (rule advances_trans)
  then show ?thesis using 2(1) us(1) by (auto simp: tx_grows_def)
qed

lemma set_tx_state_grows:
  assumes "\<And>s'. s' \<in> S \<Longrightarrow> tx_stage s' < tx_stage s"
  shows "tx_grows db (set_tx_state i S s db)"
proof -
  have "list_all2 advances ts (map (\<lambda>t. if jt_id t = i \<and> jt_state t \<in> S then t\<lparr>jt_state := s\<rparr> else t) ts)" for ts
    using assms by (induction ts) (auto simp: advances_def)
  then show ?thesis by (auto simp: tx_grows_def set_tx_state_def)
qed

lemma transactions_unchanged [simp]:
  "db_transactions (logged F kind payload db) = db_transactions db"
  "db_transactions (audit_step F kind payload now db) = db_transactions db"
  "db_transactions (add_barrier scope reason now evidence db) = db_transactions db"
  "db_transactions (flag_quarantine db) = db_transactions db"
  "db_transactions (add_session s now db) = db_transactions db"
  "db_transactions (consume_row j now db) = db_transactions db"
  "db_transactions (put_lease l db) = db_transactions db"
  "db_transactions (shut_barrier scope now db) = db_transactions db"
  "db_transactions (add_generation g bdg pdg build now db) = db_transactions db"
  "db_transactions (epoch_started epoch db) = db_transactions db"
  "db_transactions (close_dispatch j D status now db) = db_transactions db"
  "db_transactions (add_outcome j status ro v now db) = db_transactions db"
  by (simp_all add: effect_defs logged_def add_audit_def audit_step_def touched_def Let_def)

lemma status_stage: "tx_stage (tx_of_status s) = 3"
  by (cases s) simp_all

lemma tx_grows_cong: "db_transactions db1' = db_transactions db1 \<Longrightarrow> tx_grows db0 db1' = tx_grows db0 db1"
  by (simp add: tx_grows_def)

lemma settle_pending_grows: "tx_grows db (settle_pending d status ro now db)"
  unfolding settle_pending_def
  by (rule tx_grows_trans [OF tx_grows_refl set_tx_state_grows]) (auto simp: status_stage)

lemma resolved_grows: "resolved F now d db c db' \<Longrightarrow> tx_grows db db'"
  by (induction rule: resolved.induct)
     (auto intro: tx_grows_refl tx_grows_trans [OF settle_pending_grows tx_grows_refl])

lemma resolved_all_grows: "resolved_all F inspect now ds t db t' db' \<Longrightarrow> tx_grows db db'"
  by (induction rule: resolved_all.induct) (auto intro: tx_grows_refl resolved_grows tx_grows_trans)

lemma close_tx_of_grows: "tx_grows db (close_tx_of i status db)"
proof (cases "find_dispatch i db")
  case (Some d)
  then show ?thesis
    unfolding close_tx_of_def by (simp) (rule set_tx_state_grows, auto simp: status_stage)
qed (simp add: close_tx_of_def tx_grows_refl)

lemma settle_outcome_grows: "tx_grows db (settle_outcome r status now db)"
  unfolding settle_outcome_def by (rule tx_grows_trans [OF tx_grows_refl close_tx_of_grows]) simp

lemma walk_grows:
  assumes "resolved_all F inspect now ds t (epoch_started epoch db) t' db'" shows "tx_grows db db'"
  by (rule tx_grows_trans [OF tx_grows_refl resolved_all_grows [OF assms]]) simp

lemma table_step_grows: "table_step F now epoch op db db' \<Longrightarrow> tx_grows db db'"
proof (induction rule: table_step.induct)
  case (transaction db t payload)
  show ?case
    unfolding tx_grows_def
    by (rule exI [of _ "db_transactions db"]) (simp add: add_tx_def list.rel_refl advances_refl)
next
  case (bound d db r payload)
  have "tx_grows db (add_decision d db)"
    unfolding add_decision_def by (rule tx_grows_trans [OF tx_grows_refl set_tx_state_grows]) auto
  then show ?case by (simp add: tx_grows_def)
next
  case (dispatched d db r payload)
  have "tx_grows db (add_dispatch d now db)"
    unfolding add_dispatch_def by (rule tx_grows_trans [OF tx_grows_refl set_tx_state_grows]) auto
  then show ?case by (simp add: tx_grows_def)
next
  case (observed r db d status payload)
  then show ?case using settle_outcome_grows [of db r status now] by (simp add: tx_grows_def)
next
  case (halted inspect scan db t db1)
  show ?case by (rule walk_grows [OF halted(1)])
next
  case (recovered inspect scan db t db1 payload)
  show ?case using walk_grows [OF recovered(1)] by (simp add: tx_grows_def)
qed (simp_all add: tx_grows_refl)

text \<open>C18: safety: transactions never disappear and never regress.  Over any operations with any failures, restarts and
  recoveries, every transaction row is still there with the same identity and facts, and its state is the same or
  strictly later in the order observed, decided, prepared, ended; so an ended transaction keeps its state for ever.\<close>

theorem transactions_never_regress: "tx_grows (jn_db J) (jn_db (run_ops F ops J))"
proof (induction ops arbitrary: J)
  case (Cons a ops)
  obtain now op where a: "a = (now, op)" by force
  have "table_step F now (jn_boot_epoch J) op (jn_db J) (jn_db (snd (run_op F now op J)))"
    by (rule run_op_step [where r = "fst (run_op F now op J)"]) simp
  then show ?case using table_step_grows Cons.IH tx_grows_trans a by fastforce
qed (simp add: tx_grows_refl)

end
