(* ===== verification/Journal_Fencing.thy ===== *)
theory Journal_Fencing
  imports Journal_Properties
begin

text \<open>
  What stops a command: quarantine, the clock, the state of a row, an unexpired lease.  A command that is stopped
  changes nothing; leases of a workspace are granted with consecutive epochs and change hands only after expiry.
\<close>

section \<open>Quarantine\<close>

text \<open>The operations that go through the guard: all but recovery, a restart and the raw store of a meta value.\<close>

fun guarded_op :: "journal_op \<Rightarrow> bool" where
  "guarded_op (Op_Meta _ _) = False"
| "guarded_op (Op_Recover _ _) = False"
| "guarded_op (Op_Restart _ _) = False"
| "guarded_op _ = True"

fun restart_op :: "journal_op \<Rightarrow> bool" where
  "restart_op (Op_Restart _ _) = True"
| "restart_op _ = False"

lemma guard_denies:
  assumes "in_quarantine (jn_db J)"
  obtains e J' where "and_then deny_if_quarantined k J = (Inl e, J')" "jn_faults J = (\<lambda>_. None) \<Longrightarrow> e = Err_Chain"
proof -
  have "\<exists>e J'. and_then deny_if_quarantined k J = (Inl e, J') \<and> (jn_faults J = (\<lambda>_. None) \<longrightarrow> e = Err_Chain)"
    using assms
    by (auto simp: in_quarantine_def deny_if_quarantined_def read_meta_def and_then_def query_def run_sql_def split: option.split)
  then show thesis using that by blast
qed

lemma yielding_guarded: "yielding f (and_then deny_if_quarantined k) = and_then deny_if_quarantined (\<lambda>x. and_then (k x) (\<lambda>y. ret (f y)))"
  by (rule ext) (simp add: yielding_def and_then_def split: prod.split sum.split)

lemma guarded_shape:
  assumes "guarded_op op"
  obtains k where "run_op F now op = and_then deny_if_quarantined k"
  using assms
  by (cases op)
     (auto simp: yielding_guarded open_session_def open_journal_transaction_def accept_evidence_def bind_decision_def
       consume_decision_def acquire_journal_lease_def record_dispatch_prepared_def record_outcome_def open_barrier_def
       close_barrier_def advance_generation_def append_record_def append_audit_at_def command_def)

lemma quarantine_denies:
  assumes "in_quarantine (jn_db J)" "guarded_op op"
  obtains e J' where "run_op F now op J = (Inl e, J')" "jn_db J' = jn_db J" "jn_faults J = (\<lambda>_. None) \<Longrightarrow> e = Err_Chain"
proof -
  obtain k where k: "run_op F now op = and_then deny_if_quarantined k" using guarded_shape assms(2) by blast
  obtain e J' where 1: "run_op F now op J = (Inl e, J')" "jn_faults J = (\<lambda>_. None) \<Longrightarrow> e = Err_Chain"
    unfolding k by (rule guard_denies [OF assms(1), where k = k]) blast
  moreover have "jn_db J' = jn_db J" by (rule run_op_failed [OF 1(1)]) (use assms(2) in auto)
  ultimately show thesis using that by blast
qed

inductive_cases restart_stepE: "table_step F now epoch (Op_Restart faults intact) db db'"

lemma restart_keeps: "restart_op op \<Longrightarrow> jn_db (snd (run_op F now op J)) = jn_db J"
  using run_op_step [of F now op J, OF prod.collapse [symmetric]] by (cases op) (auto elim: restart_stepE)

text \<open>safety: quarantine stops every mutation.  While the durable flag is set, every command fails, with the chain
  error when the database answers, and any run of commands and restarts leaves all tables as they were.\<close>

theorem quarantine_freezes:
  assumes "in_quarantine (jn_db J)" and "list_all (\<lambda>a. guarded_op (snd a) \<or> restart_op (snd a)) ops"
  shows "jn_db (run_ops F ops J) = jn_db J \<and>
    (\<forall>now op. guarded_op op \<longrightarrow> isl (fst (run_op F now op J)) \<and>
       (jn_faults J = (\<lambda>_. None) \<longrightarrow> fst (run_op F now op J) = Inl Err_Chain))"
proof (intro conjI allI impI)
  show "jn_db (run_ops F ops J) = jn_db J"
    using assms
  proof (induction ops arbitrary: J)
    case (Cons a ops)
    obtain now op where a: "a = (now, op)" by force
    have "jn_db (snd (run_op F now op J)) = jn_db J"
      using Cons.prems quarantine_denies [OF Cons.prems(1), of op F now] restart_keeps a by (auto, metis snd_conv)
    then show ?case using Cons.IH [of "snd (run_op F now op J)"] Cons.prems a by simp
  qed simp
next
  fix now op assume g: "guarded_op op"
  obtain e J' where r: "run_op F now op J = (Inl e, J')" "jn_faults J = (\<lambda>_. None) \<Longrightarrow> e = Err_Chain"
    by (rule quarantine_denies [OF assms(1) g]) blast
  show "isl (fst (run_op F now op J))" using r by simp
  show "fst (run_op F now op J) = Inl Err_Chain" if "jn_faults J = (\<lambda>_. None)" using r that by simp
qed

theorem quarantine_freezes_witness:
  "jn_db (run_ops ref_foundation [(5, Op_Consume (replicate 16 5)), (9, Op_Restart (\<lambda>_. None) True)] (sample_journal ''1'')) = sample_db ''1''"
  using quarantine_freezes [of "sample_journal ''1''" "[(5, Op_Consume (replicate 16 5)), (9, Op_Restart (\<lambda>_. None) True)]" ref_foundation]
  by (simp add: in_quarantine_def sample_db_def)

text \<open>C20: error: a command that reports an error has no effect.  Whatever the reason (a guard, a missing or ended row, a
  constraint, a statement or the commit failing at any moment), the tables are those before the call; only recovery
  can leave a mark, and that is at most the quarantine flag.\<close>

theorem failed_operation_inert:
  assumes "run_op F now op J = (Inl e, J')"
  shows "jn_db J' = jn_db J \<or> (\<exists>inspect scan. op = Op_Recover inspect scan) \<and> jn_db J' = flag_quarantine (jn_db J)"
proof (cases "\<exists>inspect scan. op = Op_Recover inspect scan")
  case True
  then show ?thesis using assms recover_failed by (fastforce simp: yielding_failed)
next
  case False
  then show ?thesis using run_op_failed [OF assms] by blast
qed

theorem failed_operation_inert_witness:
  "\<exists>e J'. run_op ref_foundation 5 (Op_Consume (replicate 16 5)) (sample_journal ''1'') = (Inl e, J') \<and> jn_db J' = sample_db ''1''"
proof -
  have "in_quarantine (jn_db (sample_journal ''1''))" by (simp add: in_quarantine_def sample_db_def)
  then obtain e J' where r: "run_op ref_foundation 5 (Op_Consume (replicate 16 5)) (sample_journal ''1'') = (Inl e, J')"
    by (rule quarantine_denies [where op = "Op_Consume (replicate 16 5)"]) simp_all
  then show ?thesis using failed_operation_inert [OF r] by auto
qed

section \<open>Leases\<close>

text \<open>The leases granted for a workspace over a run, with the moments of the grants.\<close>

fun lease_trace :: "foundation \<Rightarrow> string \<Rightarrow> journal \<Rightarrow> (u64 \<times> journal_op) list \<Rightarrow> (u64 \<times> lease_row) list" where
  "lease_trace F w J [] = []"
| "lease_trace F w J ((now, op) # ops) =
     (let (r, J') = run_op F now op J in
      (case r of Inr (Res_Lease l) \<Rightarrow> if jl_workspace l = w then [(now, l)] else [] | _ \<Rightarrow> []) @ lease_trace F w J' ops)"

text \<open>A grant that follows another: the next epoch, and the same holder or a moment past the expiry.\<close>

definition hands_over :: "u64 \<times> lease_row \<Rightarrow> u64 \<times> lease_row \<Rightarrow> bool" where
  "hands_over a b \<longleftrightarrow> jl_epoch (snd b) = jl_epoch (snd a) + 1 \<and>
     (jl_holder (snd b) = jl_holder (snd a) \<or> jl_expires (snd a) < fst b)"

lemma find_lease_put:
  "find_lease w (put_lease l db) = (if jl_workspace l = w then Some l else find_lease w db)"
proof -
  have 1: "find (\<lambda>x. jl_workspace x = w) (ls @ [l]) = (if jl_workspace l = w then Some l else find (\<lambda>x. jl_workspace x = w) ls)"
    if "find (\<lambda>x. jl_workspace x = jl_workspace l) ls = None" for ls
    using that by (induction ls) (auto split: if_splits)
  have 2: "find (\<lambda>x. jl_workspace x = w) (map (\<lambda>x. if jl_workspace x = jl_workspace l then l else x) ls) =
      (if jl_workspace l = w then map_option (\<lambda>_. l) (find (\<lambda>x. jl_workspace x = w) ls) else find (\<lambda>x. jl_workspace x = w) ls)" for ls
    by (induction ls) auto
  show ?thesis using 1 2 by (auto simp: find_lease_def put_lease_def)
qed

lemma leases_unchanged [simp]:
  "db_leases (logged F kind payload db) = db_leases db"
  "db_leases (audit_step F kind payload now db) = db_leases db"
  "db_leases (add_barrier scope reason now evidence db) = db_leases db"
  "db_leases (flag_quarantine db) = db_leases db"
  "db_leases (settle_pending p status ro now db) = db_leases db"
  "db_leases (settle_outcome r status now db) = db_leases db"
  "db_leases (add_session s now db) = db_leases db"
  "db_leases (add_tx epoch t db) = db_leases db"
  "db_leases (add_decision d db) = db_leases db"
  "db_leases (consume_row j now db) = db_leases db"
  "db_leases (add_dispatch dd now db) = db_leases db"
  "db_leases (shut_barrier scope now db) = db_leases db"
  "db_leases (add_generation g bdg pdg build now db) = db_leases db"
  "db_leases (epoch_started epoch db) = db_leases db"
  by (simp_all add: effect_defs logged_def add_audit_def audit_step_def touched_def Let_def split: option.split)

lemma resolved_leases: "resolved F now d db c db' \<Longrightarrow> db_leases db' = db_leases db"
  by (induction rule: resolved.induct) simp_all

lemma resolved_all_leases: "resolved_all F inspect now ds t db t' db' \<Longrightarrow> db_leases db' = db_leases db"
  by (induction rule: resolved_all.induct) (simp_all add: resolved_leases)

lemma table_step_leases:
  "table_step F now epoch op db db' \<Longrightarrow> \<nexists>r. op = Op_Lease r \<Longrightarrow> db_leases db' = db_leases db"
  by (induction rule: table_step.induct) (simp_all add: resolved_all_leases)

lemma run_op_lease:
  assumes "run_op F now op J = (r, J')"
  shows "(case r of Inr (Res_Lease l) \<Rightarrow>
       jl_epoch l = (case find_lease (jl_workspace l) (jn_db J) of None \<Rightarrow> 1 | Some m \<Rightarrow> jl_epoch m + 1) \<and>
       (case find_lease (jl_workspace l) (jn_db J) of None \<Rightarrow> True | Some m \<Rightarrow> jl_expires m < now \<or> jl_holder m = jl_holder l) \<and>
       (\<forall>w. find_lease w (jn_db J') = (if jl_workspace l = w then Some l else find_lease w (jn_db J)))
     | _ \<Rightarrow> db_leases (jn_db J') = db_leases (jn_db J))"
proof (cases "\<exists>q. op = Op_Lease q")
  case True
  then obtain q where q: "op = Op_Lease q" by blast
  show ?thesis
  proof (cases r)
    case (Inl e)
    then have "jn_db J' = jn_db J" using run_op_failed assms q by blast
    then show ?thesis using Inl by simp
  next
    case (Inr x)
    then obtain l where l: "x = Res_Lease l" "acquire_journal_lease F q now J = (Inr l, J')" using assms q by (auto simp: yielding_ok)
    obtain payload where db: "jn_db J' = audit_step F ''lease_acquired'' payload now (put_lease l (jn_db J))"
      and nl: "l = next_lease (jn_boot_epoch J) q now (jn_db J)" "lease_free q now (jn_db J)"
      using acquire_journal_lease_ok [OF l(2)] by blast
    have "find_lease w (jn_db J') = find_lease w (put_lease l (jn_db J))" for w
      by (simp add: db find_lease_def)
    then show ?thesis
      using Inr l(1) nl by (auto simp: find_lease_put next_lease_def lease_free_def split: option.splits)
  qed
next
  case False
  then have "db_leases (jn_db J') = db_leases (jn_db J)" using table_step_leases [OF run_op_step [OF assms]] by blast
  moreover have "r \<noteq> Inr (Res_Lease l)" for l
    using False assms by (cases op) (auto simp: yielding_ok)
  ultimately show ?thesis by (auto split: sum.splits op_result.splits)
qed

lemma lease_trace_head:
  "successively hands_over (lease_trace F w J ops) \<and>
   (lease_trace F w J ops \<noteq> [] \<longrightarrow>
     (case find_lease w (jn_db J) of
        None \<Rightarrow> jl_epoch (snd (hd (lease_trace F w J ops))) = 1
      | Some m \<Rightarrow> hands_over (0, m) (hd (lease_trace F w J ops))))"
proof (induction ops arbitrary: J)
  case (Cons a ops)
  obtain now op where a: "a = (now, op)" by force
  obtain r J' where run: "run_op F now op J = (r, J')" by force
  note R = run_op_lease [OF run]
  note IH = Cons.IH [of J']
  show ?case
  proof (cases "\<exists>l. r = Inr (Res_Lease l) \<and> jl_workspace l = w")
    case True
    then obtain l where l: "r = Inr (Res_Lease l)" "jl_workspace l = w" by blast
    have "find_lease w (jn_db J') = Some l" using R l by simp
    then show ?thesis
      using R l IH a run
      by (cases "lease_trace F w J' ops") (auto simp: hands_over_def split: option.splits)
  next
    case False
    then have f: "find_lease w (jn_db J') = find_lease w (jn_db J)"
      using R by (auto simp: find_lease_def split: sum.splits op_result.splits)
    have e: "lease_trace F w J (a # ops) = lease_trace F w J' ops"
      using False a run by (auto split: sum.split op_result.split)
    show ?thesis using IH unfolding e f .
  qed
qed simp

lemma consecutive_from:
  fixes f :: "'a \<Rightarrow> u64"
  assumes "successively (\<lambda>a b. f b = f a + 1) xs" "xs \<noteq> [] \<longrightarrow> f (hd xs) = s + 1"
  shows "map f xs = map (\<lambda>k. s + of_nat k + 1) [0..<length xs]"
  using assms
proof (induction xs arbitrary: s)
  case (Cons x xs)
  have "map f xs = map (\<lambda>k. (s + 1) + of_nat k + 1) [0..<length xs]"
    using Cons.prems by (intro Cons.IH) (auto simp: successively_Cons)
  moreover have "[0..<length (x # xs)] = 0 # map Suc [0..<length xs]" by (simp add: map_Suc_upt upt_conv_Cons del: upt_Suc)
  ultimately show ?case using Cons.prems(2) by (simp add: comp_def algebra_simps del: upt_Suc)
qed simp

text \<open>The epoch of the lease a workspace has, 0 for none.\<close>

definition lease_epoch :: "string \<Rightarrow> journal_db \<Rightarrow> u64" where
  "lease_epoch w db = (case find_lease w db of None \<Rightarrow> 0 | Some m \<Rightarrow> jl_epoch m)"

text \<open>C19: safety: leases of a workspace are fenced.  Over any operations with any failures, restarts and recoveries, the
  leases granted for a workspace carry consecutive epochs, on from the one it has, and one is granted to another
  holder only after the expiry of the one before it.\<close>

theorem leases_fenced:
  "map (\<lambda>g. jl_epoch (snd g)) (lease_trace F w J ops) =
     map (\<lambda>k. lease_epoch w (jn_db J) + of_nat k + 1) [0..<length (lease_trace F w J ops)] \<and>
   successively (\<lambda>g h. jl_holder (snd h) = jl_holder (snd g) \<or> jl_expires (snd g) < fst h) (lease_trace F w J ops)"
proof
  note H = lease_trace_head [of F w J ops]
  show "map (\<lambda>g. jl_epoch (snd g)) (lease_trace F w J ops) =
     map (\<lambda>k. lease_epoch w (jn_db J) + of_nat k + 1) [0..<length (lease_trace F w J ops)]"
    by (rule consecutive_from)
       (use H in \<open>auto simp: hands_over_def lease_epoch_def elim!: successively_mono split: option.splits\<close>)
  show "successively (\<lambda>g h. jl_holder (snd h) = jl_holder (snd g) \<or> jl_expires (snd g) < fst h) (lease_trace F w J ops)"
    using H by (auto simp: hands_over_def elim: successively_mono)
qed

end
