(* ===== verification/Journal_Recovery.thy ===== *)
theory Journal_Recovery
  imports Journal_Fencing
begin

text \<open>
  Runs on a database that answers every statement: what consumption returns in every case, and recovery with the
  inspector that fails closed, which succeeds and leaves nothing pending.
\<close>

section \<open>Consumption in every case\<close>

context codec_laws
begin

lemma consume_returns:
  assumes J: "faultless J" and c: "chain_inv F (jn_db J)" and r: "room 1 (jn_db J)" and i: "length i = 16"
  shows "fst (consume_decision F i now J) =
    (if in_quarantine (jn_db J) then Inl Err_Chain
     else if clock_behind now (jn_db J) then Inl Err_Clock
     else case find_decision i (jn_db J) of
       None \<Rightarrow> Inl Err_Constraint
     | Some d \<Rightarrow> if jd_state d = De_Bound \<and> now \<le> jd_expires d then Inr () else Inl Err_Constraint)"
proof -
  let ?J = "tick (tick ((tick J)\<lparr>jn_quarantined := False\<rparr>))"
  let ?body = "and_then (query (find_decision i)) (\<lambda>row.
      case row of
        None \<Rightarrow> deny Err_Constraint
      | Some d \<Rightarrow>
          if jd_state d = De_Consumed then deny Err_Constraint
          else if jd_state d = De_Stale then deny Err_Constraint
          else if jd_expires d < now then deny Err_Constraint
          else
            and_then (change (consume_row i now)) (\<lambda>_.
            audited F ''decision_consumed'' (i @ enc_u64 F now) now ()))"
  let ?K = "(tick (tick ?J))\<lparr>jn_db := consume_row i now (jn_db J)\<rparr>"
  have l: "loggable F ''decision_consumed'' (jn_db ?K)"
    by (rule chain_loggable) (use c r in \<open>simp_all add: room_def consume_row_def chain_inv_def\<close>)
  obtain K' where K: "audited F ''decision_consumed'' (i @ enc_u64 F now) now () ?K = (Inr (), K')" "faultless K'"
    by (rule calm_audited [OF _ l, where payload = "i @ enc_u64 F now" and now = now and x = "()"])
       (use J i in \<open>simp_all add: payload_capacity_limit_def\<close>)
  note T = calm_txn [where J = "tick ((tick J)\<lparr>jn_quarantined := False\<rparr>)" and body = ?body]
  have "fst (txn ?body (tick ((tick J)\<lparr>jn_quarantined := False\<rparr>))) =
    (case find_decision i (jn_db J) of
       None \<Rightarrow> Inl Err_Constraint
     | Some d \<Rightarrow> if jd_state d = De_Bound \<and> now \<le> jd_expires d then Inr () else Inl Err_Constraint)"
  proof (cases "find_decision i (jn_db J)")
    case None
    then have "?body ?J = (Inl Err_Constraint, tick ?J)" using J by (simp add: calm_run)
    from T [OF _ this] show ?thesis using None J by simp
  next
    case (Some d)
    show ?thesis
    proof (cases "jd_state d = De_Bound \<and> now \<le> jd_expires d")
      case True
      then have "?body ?J = (Inr (), K')" using Some J K(1) by (simp add: calm_run not_less)
      from T [OF _ this K(2)] show ?thesis using Some True J by simp
    next
      case False
      then have "?body ?J = (Inl Err_Constraint, tick ?J)"
        using Some J by (cases "jd_state d") (auto simp: calm_run not_le)
      from T [OF _ this] show ?thesis using Some False J by simp
    qed
  qed
  then show ?thesis using J by (simp add: consume_decision_def command_def calm_guards)
qed

end

text \<open>error: what the journal answers to a request to consume a decision, in every case.  When the database answers, the
  audit chain verifies and has room for another row, it is the chain error under quarantine, else the clock error when
  the wall clock is more than five minutes behind the last one recorded, else success exactly for a decision that
  is there, still bound and not past its expiry, and the constraint error otherwise.\<close>

theorem consume_decision_exact:
  assumes "codec_laws F" and "faultless J" and "chain_inv F (jn_db J)" and "room 1 (jn_db J)" and "length i = 16"
  shows "fst (consume_decision F i now J) =
    (if in_quarantine (jn_db J) then Inl Err_Chain
     else if clock_behind now (jn_db J) then Inl Err_Clock
     else case find_decision i (jn_db J) of
       None \<Rightarrow> Inl Err_Constraint
     | Some d \<Rightarrow> if jd_state d = De_Bound \<and> now \<le> jd_expires d then Inr () else Inl Err_Constraint)"
  using codec_laws.consume_returns [OF assms] .

theorem consume_decision_exact_witness:
  "fst (consume_decision ref_foundation (replicate 16 5) 90 (sample_journal ''0'')) = Inr () \<and>
   fst (consume_decision ref_foundation (replicate 16 5) 91 (sample_journal ''0'')) = Inl Err_Constraint"
proof -
  have c: "chain_inv ref_foundation (jn_db (sample_journal ''0''))" "room 1 (jn_db (sample_journal ''0''))"
    using sample_inv by (simp_all add: journal_inv_def room_def) (simp add: sample_db_def)
  show ?thesis
    using consume_decision_exact [OF ref_codec_laws _ c, of "replicate 16 5" 90]
      consume_decision_exact [OF ref_codec_laws _ c, of "replicate 16 5" 91]
    by (simp add: sample_db_def in_quarantine_def clock_behind_def parsed_wall_def find_decision_def)
qed

section \<open>Recovery that fails closed\<close>

text \<open>A dispatch that recovery has closed as indeterminate, behind a barrier of its own.\<close>

definition closed_off :: "journal_db \<Rightarrow> pending_dispatch \<Rightarrow> bool" where
  "closed_off db d \<longleftrightarrow>
     (\<exists>p \<in> set (db_dispatches db). jp_id p = pd_id d \<and> jp_tx p = pd_transaction d \<and> jp_state p = Dp_Indeterminate) \<and>
     barrier_rows_active (reconcile_scope (pd_id d)) db"

definition still_open :: "journal_db \<Rightarrow> dispatch_row set" where
  "still_open db = {p \<in> set (db_dispatches db). jp_state p = Dp_Prepared \<or> jp_state p = Dp_Dispatched}"

definition tx_epochs :: "journal_db \<Rightarrow> (u64 \<times> u64) list" where
  "tx_epochs db = map (\<lambda>t. (jt_id t, jt_epoch t)) (db_transactions db)"

lemma settle_pending_dispatches:
  "db_dispatches (settle_pending d status ro now db) =
     map (\<lambda>p. if jp_id p = pd_id d \<and> jp_state p \<in> {Dp_Prepared, Dp_Dispatched}
       then p\<lparr>jp_state := dispatch_of_status status, jp_done := Some now\<rparr> else p) (db_dispatches db)"
  by (simp add: settle_pending_def close_dispatch_def add_outcome_def)

lemma settle_pending_member:
  "p \<in> set (db_dispatches db) \<Longrightarrow>
     (if jp_id p = pd_id d \<and> jp_state p \<in> {Dp_Prepared, Dp_Dispatched}
      then p\<lparr>jp_state := dispatch_of_status status, jp_done := Some now\<rparr> else p)
     \<in> set (db_dispatches (settle_pending d status ro now db))"
  unfolding settle_pending_dispatches set_map by (rule imageI)

lemma tx_epochs_keeps [simp]:
  "tx_epochs (logged F kind payload db) = tx_epochs db" "tx_epochs (audit_step F kind payload now db) = tx_epochs db"
  "tx_epochs (add_barrier scope reason now evidence db) = tx_epochs db" "tx_epochs (epoch_started epoch db) = tx_epochs db"
  "tx_epochs (flag_quarantine db) = tx_epochs db" "tx_epochs (settle_pending d status ro now db) = tx_epochs db"
  by (simp_all add: tx_epochs_def settle_pending_def set_tx_state_def close_dispatch_def add_outcome_def comp_def if_distrib cong: if_cong)

lemma barrier_active_keeps [simp]:
  "barrier_rows_active s (logged F kind payload db) = barrier_rows_active s db"
  "barrier_rows_active s (audit_step F kind payload now db) = barrier_rows_active s db"
  "barrier_rows_active s (add_barrier scope reason now evidence db) \<longleftrightarrow> s = scope \<or> barrier_rows_active s db"
  "barrier_rows_active s (settle_pending d status ro now db) = barrier_rows_active s db"
  by (auto simp: barrier_rows_active_def audit_step_def touched_def add_barrier_def)

inductive_cases conflict_resolvedE: "resolved F now d db Rec_IndeterminateConflict db'"

text \<open>One dispatch the inspector cannot account for.\<close>

lemma conflict_step:
  assumes "resolved F now d db Rec_IndeterminateConflict db'"
  shows "still_pending db d \<Longrightarrow> closed_off db' d" "closed_off db e \<Longrightarrow> closed_off db' e"
    "still_open db' \<subseteq> {p \<in> still_open db. jp_id p \<noteq> pd_id d}" "tx_epochs db' = tx_epochs db"
    "db_meta db' ''boot_epoch'' = db_meta db ''boot_epoch''"
proof -
  obtain payload where db': "db' = add_barrier (reconcile_scope (pd_id d)) ''reconciliation-unknown'' now ''inspector=fail-closed''
      (logged F ''outcome_observed'' payload (settle_pending d Oc_Indeterminate None now db))"
    using assms by (auto elim: conflict_resolvedE)
  show "closed_off db' d" if pending: "still_pending db d"
  proof -
    obtain p where "p \<in> set (db_dispatches db)" "jp_id p = pd_id d" "jp_tx p = pd_transaction d" "jp_state p = Dp_Prepared"
      using pending unfolding still_pending_def by blast
    then show ?thesis
      using settle_pending_member [where p = p and d = d and status = Oc_Indeterminate and ro = None] unfolding closed_off_def db'
      by (intro conjI bexI [of _ "p\<lparr>jp_state := Dp_Indeterminate, jp_done := Some now\<rparr>"]) simp_all
  qed
  show "closed_off db' e" if closed: "closed_off db e"
  proof -
    obtain p where "p \<in> set (db_dispatches db)" "jp_id p = pd_id e" "jp_tx p = pd_transaction e" "jp_state p = Dp_Indeterminate"
      using closed unfolding closed_off_def by blast
    then show ?thesis
      using closed settle_pending_member [where p = p and d = d and status = Oc_Indeterminate and ro = None] unfolding closed_off_def db'
      by (intro conjI bexI [of _ p]) simp_all
  qed
  show "still_open db' \<subseteq> {p \<in> still_open db. jp_id p \<noteq> pd_id d}"
    by (auto simp: db' still_open_def settle_pending_dispatches split: if_splits)
  show "tx_epochs db' = tx_epochs db" by (simp add: db')
  show "db_meta db' ''boot_epoch'' = db_meta db ''boot_epoch''"
    by (simp add: db' add_barrier_def logged_def add_audit_def settle_pending_def set_tx_state_def close_dispatch_def add_outcome_def)
qed

lemma fail_closed_class [simp]: "dr_classification (fail_closed_classify d) = Rec_IndeterminateConflict"
  by (simp add: fail_closed_classify_def)

lemma fail_closed_walk:
  assumes "resolved_all F fail_closed_classify now ds t db t' db'"
  shows "(\<forall>e. closed_off db e \<longrightarrow> closed_off db' e) \<and>
    still_open db' \<subseteq> {p \<in> still_open db. jp_id p \<notin> pd_id ` set ds} \<and> tx_epochs db' = tx_epochs db \<and>
    db_meta db' ''boot_epoch'' = db_meta db ''boot_epoch'' \<and>
    ta_barriers t' = ta_barriers t + length ds \<and> ta_conflict t' = (ta_conflict t \<or> ds \<noteq> []) \<and>
    ta_quarantined t' = ta_quarantined t \<and> ta_reconstructed t' = ta_reconstructed t \<and> ta_not_performed t' = ta_not_performed t"
  using assms
proof (induction rule: resolved_all.induct)
  case (more d db db1 ds t t' db')
  then have r: "resolved F now d db Rec_IndeterminateConflict db1" by simp
  show ?case using conflict_step(2,3,4,5) [OF r] more.IH by (auto simp: tally_step_def)
qed (simp_all add: still_open_def)

lemma fail_closed_settles:
  assumes "resolved_all F fail_closed_classify now ds t db t' db'" "life_inv db" "\<forall>d \<in> set ds. still_pending db d"
    "distinct (map pd_id ds)"
  shows "\<forall>d \<in> set ds. closed_off db' d"
  using assms
proof (induction rule: resolved_all.induct)
  case (more d db db1 ds t t' db')
  then have r: "resolved F now d db Rec_IndeterminateConflict db1" by simp
  have "life_inv db1" "\<forall>e \<in> set ds. still_pending db1 e"
    using resolved_life [OF more.hyps(1)] more.prems by (auto, metis image_eqI)
  then have "\<forall>e \<in> set ds. closed_off db' e" using more.IH more.prems by simp
  moreover have "closed_off db' d"
    using conflict_step(1) [OF r] more.prems(2) fail_closed_walk [OF more.hyps(3)] by simp
  ultimately show ?case by simp
qed simp_all

lemma older_epoch_eq: "older_epoch epoch db d \<longleftrightarrow> (\<exists>(i, e) \<in> set (tx_epochs db). i = jd_tx d \<and> sint e < sint epoch)"
  by (auto simp: older_epoch_def tx_epochs_def)

lemma older_epoch_cong: "tx_epochs db' = tx_epochs db \<Longrightarrow> older_epoch epoch db' = older_epoch epoch db"
  by (rule ext) (simp add: older_epoch_eq)

lemma epoch_started_stale:
  assumes "d \<in> set (db_decisions (epoch_started epoch db))" "jd_state d = De_Bound"
  shows "\<not> older_epoch epoch (epoch_started epoch db) d"
proof -
  have "older_epoch epoch (epoch_started epoch db) = older_epoch epoch db"
    "older_epoch epoch (db\<lparr>db_meta := (db_meta db)(''boot_epoch'' \<mapsto> to_string_u64 epoch)\<rparr>) = older_epoch epoch db"
    by (rule older_epoch_cong, simp add: tx_epochs_def)+
  then show ?thesis using assms by (auto simp: epoch_started_decisions older_epoch_def split: if_splits)
qed

lemma epoch_started_pending [simp]: "pending_rows (epoch_started epoch db) = pending_rows db"
  by (simp add: pending_rows_def) (simp add: epoch_started_def mark_stale_def Let_def)

lemma still_open_life: "life_inv db \<Longrightarrow> still_open db = set (pending_rows db)"
proof -
  assume inv: "life_inv db"
  have "p \<in> set (pending_rows db)" if p: "p \<in> set (db_dispatches db)" "jp_state p = Dp_Prepared" for p
  proof -
    have "jp_id p \<noteq> jo_dispatch q" if "q \<in> set (db_outcomes db)" for q
      using inv that p dispatch_unique [OF inv _ p(1)] dispatch_of_status_ended unfolding life_inv_def dispatches_inv_def
      by (metis insertI1)
    then show ?thesis using p by (auto simp: pending_rows_def)
  qed
  moreover have "jp_state p \<noteq> Dp_Dispatched" if "p \<in> set (db_dispatches db)" for p
    using inv that unfolding life_inv_def dispatches_inv_def by auto
  ultimately show ?thesis by (auto simp: still_open_def) (auto simp: pending_rows_def)
qed

text \<open>The effect of a whole recovery, with the facts about its parts put together.\<close>

lemma fail_closed_effect:
  assumes inv: "life_inv db" and scan: "\<forall>rows. mset (scan rows) = mset rows"
    and walk: "resolved_all F fail_closed_classify now (map pending_of (scan (pending_rows db))) no_tally (epoch_started epoch db) t db1"
  shows "life_inv db1" "pending_rows db1 = []" "\<And>p. p \<in> set (pending_rows db) \<Longrightarrow> closed_off db1 (pending_of p)"
    "\<And>d. d \<in> set (db_decisions db1) \<Longrightarrow> jd_state d = De_Bound \<Longrightarrow> \<not> older_epoch epoch db1 d"
proof -
  let ?ds = "map pending_of (scan (pending_rows db))"
  have rows: "set (scan (pending_rows db)) = set (pending_rows db)" using scan by (metis set_mset_mset)
  have inv0: "life_inv (epoch_started epoch db)" by (rule epoch_started_life [OF inv])
  note P = pending_rows_life [OF inv0, of "scan (pending_rows db)"]
  have pend: "\<forall>d \<in> set ?ds. still_pending (epoch_started epoch db) d" "distinct (map pd_id ?ds)" using P scan by simp_all
  show inv1: "life_inv db1" by (rule resolved_all_life [OF walk inv0 pend])
  have "still_open db1 \<subseteq> {p \<in> still_open (epoch_started epoch db). jp_id p \<notin> pd_id ` set ?ds}"
    using fail_closed_walk [OF walk] by blast
  also have "\<dots> = {}" using still_open_life [OF inv0] rows by (force simp: pending_of_def)
  finally show "pending_rows db1 = []" using still_open_life [OF inv1] by simp
  show "closed_off db1 (pending_of p)" if "p \<in> set (pending_rows db)" for p
    using fail_closed_settles [OF walk inv0 pend] that rows by simp
  have "db_decisions db1 = db_decisions (epoch_started epoch db)" by (rule resolved_all_decisions [OF walk])
  moreover have "older_epoch epoch db1 = older_epoch epoch (epoch_started epoch db)"
    by (rule older_epoch_cong) (use fail_closed_walk [OF walk] in blast)
  ultimately show "\<not> older_epoch epoch db1 d" if "d \<in> set (db_decisions db1)" "jd_state d = De_Bound" for d
    using epoch_started_stale that by simp
qed

lemma closed_off_transaction:
  assumes "life_inv db" "closed_off db d"
  shows "\<exists>t \<in> set (db_transactions db). jt_id t = pd_transaction d \<and> jt_state t = Tx_Indeterminate"
proof -
  obtain p where "p \<in> set (db_dispatches db)" "jp_tx p = pd_transaction d" "jp_state p = Dp_Indeterminate"
    using assms(2) by (auto simp: closed_off_def)
  then show ?thesis using assms(1) unfolding life_inv_def dispatches_inv_def by force
qed

definition fail_closed_report :: "nat \<Rightarrow> recovery_report" where
  "fail_closed_report n =
     \<lparr>rr_classification = (if n = 0 then Rec_Clean else Rec_IndeterminateConflict), rr_unresolved = n, rr_barriers = n,
      rr_chain_verified = True\<rparr>"

text \<open>C16: safety: recovery fails closed.  A recovery that succeeds with the inspector that knows nothing leaves no pending
  dispatch; every dispatch that was pending, and its transaction, is indeterminate, behind an active barrier of its
  own; no decision of a transaction from an earlier epoch is still bound; the epoch has advanced; and the report
  counts the dispatches and says so.\<close>

theorem recovery_fails_closed:
  assumes "life_inv (jn_db J)" and "\<forall>rows. mset (scan rows) = mset rows"
    and "recover_at F fail_closed_classify scan now J = (Inr report, J')"
  shows "pending_rows (jn_db J') = [] \<and>
    (\<forall>p \<in> set (pending_rows (jn_db J)).
       barrier_rows_active (reconcile_scope (jp_id p)) (jn_db J') \<and>
       (\<exists>q \<in> set (db_dispatches (jn_db J')). jp_id q = jp_id p \<and> jp_state q = Dp_Indeterminate) \<and>
       (\<exists>t \<in> set (db_transactions (jn_db J')). jt_id t = jp_tx p \<and> jt_state t = Tx_Indeterminate)) \<and>
    (\<forall>d \<in> set (db_decisions (jn_db J')). jd_state d = De_Bound \<longrightarrow> \<not> older_epoch (jn_boot_epoch J') (jn_db J') d) \<and>
    jn_boot_epoch J' = jn_boot_epoch J + 1 \<and>
    report = fail_closed_report (length (pending_rows (jn_db J)))"
proof -
  let ?epoch = "jn_boot_epoch J + 1"
  obtain J1 J2 where J1: "jn_db J1 = jn_db J" "jn_boot_epoch J1 = jn_boot_epoch J"
    and walk0: "recovery_walk F fail_closed_classify scan now (tick (tick J1)) = (Inr report, J2)" and J': "J' = tick J2"
    using assms(3) by (rule recover_ok)
  obtain t db1 where walk: "resolved_all F fail_closed_classify now (map pending_of (scan (pending_rows (jn_db J)))) no_tally
      (epoch_started ?epoch (jn_db J)) t db1"
    and after: "if ta_quarantined t then jn_db J2 = db1
      else \<exists>payload. jn_db J2 = audit_step F ''recovery_completed'' payload now db1"
    and rep: "report = \<lparr>rr_classification = tally_class t, rr_unresolved = length (scan (pending_rows (jn_db J))),
      rr_barriers = ta_barriers t, rr_chain_verified = True\<rparr>"
    and ep: "jn_boot_epoch J2 = ?epoch"
    using recovery_walk_ok [OF walk0] J1 by (metis (no_types, lifting) epoch_started_pending tick_sel(1,2))
  note E = fail_closed_effect [OF assms(1,2) walk]
  note T = fail_closed_walk [OF walk]
  obtain payload where db2: "jn_db J2 = audit_step F ''recovery_completed'' payload now db1"
    using after T by (auto simp: no_tally_def)
  have len: "length (scan (pending_rows (jn_db J))) = length (pending_rows (jn_db J))"
    using assms(2) by (metis size_mset)
  have db': "pending_rows (jn_db J') = pending_rows db1" "db_dispatches (jn_db J') = db_dispatches db1"
    "db_transactions (jn_db J') = db_transactions db1" "db_decisions (jn_db J') = db_decisions db1"
    "barrier_rows_active s (jn_db J') = barrier_rows_active s db1" "older_epoch e (jn_db J') = older_epoch e db1" for s e
    using older_epoch_cong [of "jn_db J'" db1]
    by (simp_all add: J' db2 pending_rows_def) (simp_all add: audit_step_def touched_def logged_def add_audit_def)
  have "report = fail_closed_report (length (pending_rows (jn_db J)))"
    using rep T len by (auto simp: fail_closed_report_def tally_class_def no_tally_def)
  moreover have "barrier_rows_active (reconcile_scope (jp_id p)) db1 \<and>
      (\<exists>q \<in> set (db_dispatches db1). jp_id q = jp_id p \<and> jp_state q = Dp_Indeterminate) \<and>
      (\<exists>t \<in> set (db_transactions db1). jt_id t = jp_tx p \<and> jt_state t = Tx_Indeterminate)"
    if "p \<in> set (pending_rows (jn_db J))" for p
    using E(3) [OF that] closed_off_transaction [OF E(1) E(3) [OF that]] by (auto simp: closed_off_def pending_of_def)
  ultimately show ?thesis using E(2,4) J' ep unfolding db' by simp
qed

section \<open>Recovery succeeds\<close>

lemma to_hex_inj: "to_hex as = to_hex bs \<longleftrightarrow> as = bs"
proof
  have len: "length (hex_byte b) = 2" for b by (simp add: hex_byte_def)
  assume "to_hex as = to_hex bs"
  then show "as = bs"
  proof (induction as arbitrary: bs)
    case Nil
    then show ?case by (cases bs) (auto simp: to_hex_def hex_byte_def)
  next
    case (Cons a as)
    then obtain b bs' where bs: "bs = b # bs'" by (cases bs) (auto simp: to_hex_def hex_byte_def)
    have "hex_byte a @ to_hex as = hex_byte b @ to_hex bs'" using Cons.prems bs by (simp add: to_hex_def)
    then show ?case using Cons.IH bs append_eq_append_conv [of "hex_byte a" "hex_byte b"] len by simp
  qed
qed simp

lemma reconcile_scope_inj: "reconcile_scope i = reconcile_scope j \<longleftrightarrow> i = j"
  by (simp add: reconcile_scope_def to_hex_inj)

text \<open>A pending dispatch that can be closed off.\<close>

definition closable :: "journal_db \<Rightarrow> pending_dispatch \<Rightarrow> bool" where
  "closable db d \<longleftrightarrow> length (pd_id d) = 16 \<and> pd_id d \<in> jp_id ` set (db_dispatches db) \<and>
     pd_id d \<notin> jo_dispatch ` set (db_outcomes db) \<and> reconcile_scope (pd_id d) \<notin> jb_scope ` set (db_barriers db)"

lemma conflict_step_closable:
  assumes "resolved F now d db Rec_IndeterminateConflict db'" "closable db e" "pd_id e \<noteq> pd_id d"
  shows "closable db' e"
proof -
  obtain payload where "db' = add_barrier (reconcile_scope (pd_id d)) ''reconciliation-unknown'' now ''inspector=fail-closed''
      (logged F ''outcome_observed'' payload (settle_pending d Oc_Indeterminate None now db))"
    using assms(1) by (auto elim: conflict_resolvedE)
  then have tables: "db_outcomes db' = db_outcomes db @ [\<lparr>jo_dispatch = pd_id d, jo_status = Oc_Indeterminate, jo_ref = None,
      jo_validator = None, jo_observed = now\<rparr>]"
    "map jb_scope (db_barriers db') = map jb_scope (db_barriers db) @ [reconcile_scope (pd_id d)]"
    "map jp_id (db_dispatches db') = map jp_id (db_dispatches db)"
    by (simp_all add: settle_pending_dispatches comp_def if_distrib cong: if_cong)
       (simp_all add: add_barrier_def logged_def add_audit_def settle_pending_def set_tx_state_def close_dispatch_def add_outcome_def)
  have "jb_scope ` set (db_barriers db') = insert (reconcile_scope (pd_id d)) (jb_scope ` set (db_barriers db))"
    "jp_id ` set (db_dispatches db') = jp_id ` set (db_dispatches db)"
    using arg_cong [OF tables(2), of set] arg_cong [OF tables(3), of set] by simp_all
  then show ?thesis using assms(2,3) by (simp add: closable_def tables(1) reconcile_scope_inj)
qed

lemma conflict_step_seq:
  "resolved F now d db Rec_IndeterminateConflict db' \<Longrightarrow> db_seq db' = db_seq db + 1"
  by (erule conflict_resolvedE)
     (simp add: add_barrier_def logged_def add_audit_def settle_pending_def set_tx_state_def close_dispatch_def add_outcome_def)

context journal_foundation
begin

lemma calm_apply:
  assumes J: "faultless J" and c: "chain_inv F (jn_db J)" "room 1 (jn_db J)" and len: "length (pd_id d) = 16"
    and d: "pd_id d \<in> jp_id ` set (db_dispatches (jn_db J))" "pd_id d \<notin> jo_dispatch ` set (db_outcomes (jn_db J))"
  obtains K where "apply_resolution F d Oc_Indeterminate None now J = (Inr (), K)" "faultless K"
    "db_barriers (jn_db K) = db_barriers (jn_db J)" "jn_boot_epoch K = jn_boot_epoch J"
proof -
  let ?payload = "pd_id d @ put_str F (status_text Oc_Indeterminate) @ enc_u64 F now"
  let ?db = "settle_pending d Oc_Indeterminate None now (jn_db J)"
  let ?K = "(tick (tick (tick J)))\<lparr>jn_db := ?db\<rparr>"
  have "chain_inv F ?db" "db_seq ?db = db_seq (jn_db J)"
    using c by simp (simp add: settle_pending_def set_tx_state_def close_dispatch_def add_outcome_def)
  then have l: "loggable F ''outcome_observed'' (jn_db ?K)" using c(2) by (intro chain_loggable) (simp_all add: room_def)
  have p: "length ?payload \<le> payload_capacity_limit"
    using len by (simp add: payload_capacity_limit_def status_text_def)
  obtain K where K: "append_audit F ''outcome_observed'' ?payload ?K = (Inr (), K)" "faultless K"
      "jn_db K = logged F ''outcome_observed'' ?payload ?db" "jn_boot_epoch K = jn_boot_epoch J"
    by (rule calm_append [OF _ l p]) (use J in simp_all)
  have "find_dispatch (pd_id d) (jn_db J) \<noteq> None" using d by (simp add: find_dispatch_def find_None_key)
  then have "apply_resolution F d Oc_Indeterminate None now J = (Inr (), K)"
    using J d K(1) unfolding apply_resolution_def insert_outcome_def
    by (simp add: calm_run settle_pending_def add_outcome_def)
  then show thesis by (rule that) (use K in simp_all)
qed

lemma calm_resolve_one:
  assumes J: "faultless J" and c: "chain_inv F (jn_db J)" "room 1 (jn_db J)" and d: "closable (jn_db J) d"
  obtains J' where "resolve_one F fail_closed_classify now d t J = (Inr (tally_step Rec_IndeterminateConflict t), J')" "faultless J'"
proof -
  obtain K where K: "apply_resolution F d Oc_Indeterminate None now J = (Inr (), K)" "faultless K"
      "db_barriers (jn_db K) = db_barriers (jn_db J)"
    by (rule calm_apply [OF J c, of d now]) (use d in \<open>simp_all add: closable_def\<close>)
  have "insert_barrier (reconcile_scope (pd_id d)) ''reconciliation-unknown'' now ''inspector=fail-closed'' K =
      (Inr (), (tick K)\<lparr>jn_db := add_barrier (reconcile_scope (pd_id d)) ''reconciliation-unknown'' now ''inspector=fail-closed'' (jn_db K)\<rparr>)"
    using K(2,3) d by (simp add: insert_barrier_def calm_run closable_def add_barrier_def)
  then show thesis
    by (intro that) (simp add: resolve_one_def Let_def calm_run tally_step_def K(1), simp add: K(2))
qed

lemma calm_resolve_all:
  assumes "faultless J" "chain_inv F (jn_db J)" "room (length ds) (jn_db J)" "\<forall>d \<in> set ds. closable (jn_db J) d"
    "distinct (map pd_id ds)" "\<not> ta_quarantined t"
  shows "\<exists>t' J'. resolve_all F fail_closed_classify now ds t J = (Inr t', J') \<and> faultless J' \<and> chain_inv F (jn_db J') \<and>
    db_seq (jn_db J') = db_seq (jn_db J) + int (length ds) \<and> \<not> ta_quarantined t'"
  using assms
proof (induction ds arbitrary: J t)
  case Nil
  then show ?case by (simp add: calm_run)
next
  case (Cons d ds)
  have "room 1 (jn_db J)" using Cons.prems(3) by (simp add: room_def)
  then obtain J1 where 1: "resolve_one F fail_closed_classify now d t J = (Inr (tally_step Rec_IndeterminateConflict t), J1)" "faultless J1"
    using calm_resolve_one Cons.prems by (metis list.set_intros(1))
  have r: "resolved F now d (jn_db J) Rec_IndeterminateConflict (jn_db J1)" using resolve_one_ok [OF 1(1)] by simp
  have seq: "db_seq (jn_db J1) = db_seq (jn_db J) + 1" by (rule conflict_step_seq [OF r])
  have "\<forall>e \<in> set ds. closable (jn_db J1) e"
    using conflict_step_closable [OF r] Cons.prems(4,5) by (auto, metis image_eqI)
  then have "\<exists>t' J'. resolve_all F fail_closed_classify now ds (tally_step Rec_IndeterminateConflict t) J1 = (Inr t', J') \<and> faultless J' \<and>
      chain_inv F (jn_db J') \<and> db_seq (jn_db J') = db_seq (jn_db J1) + int (length ds) \<and> \<not> ta_quarantined t'"
    using Cons.prems resolved_chain [OF r] seq 1(2) by (intro Cons.IH) (simp_all add: room_def)
  then show ?case using 1(1) Cons.prems(6) seq by (auto simp: and_then_Inr)
qed

end

text \<open>What a recovery needs of the tables: sizes, free scopes, and room for its audit rows.\<close>

definition recoverable :: "u64 \<Rightarrow> journal_db \<Rightarrow> bool" where
  "recoverable now db \<longleftrightarrow> \<not> clock_behind now db \<and> room (length (pending_rows db) + 1) db \<and>
     (\<forall>p \<in> set (pending_rows db). length (jp_id p) = 16 \<and> length (jp_plan p) = 32 \<and>
        reconcile_scope (jp_id p) \<notin> jb_scope ` set (db_barriers db))"

lemma epoch_started_tables [simp]:
  "db_outcomes (epoch_started epoch db) = db_outcomes db" "db_barriers (epoch_started epoch db) = db_barriers db"
  "db_seq (epoch_started epoch db) = db_seq db" "db_audit (epoch_started epoch db) = db_audit db"
  by (simp_all add: epoch_started_def mark_stale_def Let_def)

lemma epoch_started_fold:
  "snd (mark_stale (older_epoch epoch (db\<lparr>db_meta := (db_meta db)(''boot_epoch'' \<mapsto> to_string_u64 epoch)\<rparr>))
     (db\<lparr>db_meta := (db_meta db)(''boot_epoch'' \<mapsto> to_string_u64 epoch)\<rparr>)) = epoch_started epoch db"
  by (simp add: epoch_started_def Let_def)

lemma tally_text_length: "length (tally_text t) \<le> 13"
  by (simp add: tally_text_def)

lemma read_pending_runs:
  "list_all (\<lambda>d. length (jp_id d) = 16 \<and> length (jp_plan d) = 32) ds \<Longrightarrow> read_pending ds J = (Inr (map pending_of ds), J)"
  by (simp add: read_pending_ok)

context journal_foundation
begin

lemma calm_walk:
  assumes J: "faultless J" and inv: "journal_inv F (jn_db J)" and scan: "\<forall>rows. mset (scan rows) = mset rows"
    and ready: "recoverable now (jn_db J)"
  shows "\<exists>report J'. recovery_walk F fail_closed_classify scan now J = (Inr report, J') \<and> faultless J'"
proof -
  let ?epoch = "jn_boot_epoch J + 1"
  let ?db = "epoch_started ?epoch (jn_db J)"
  let ?rows = "scan (pending_rows (jn_db J))"
  let ?K = "(tick (tick (tick (tick J)))\<lparr>jn_db := ?db, jn_boot_epoch := ?epoch\<rparr>)"
  have life: "life_inv (jn_db J)" and chain: "chain_inv F (jn_db J)" using inv by (simp_all add: journal_inv_def)
  have rows: "set ?rows = set (pending_rows (jn_db J))" "length ?rows = length (pending_rows (jn_db J))"
    using scan by (metis set_mset_mset, metis size_mset)
  have sized: "list_all (\<lambda>d. length (jp_id d) = 16 \<and> length (jp_plan d) = 32) ?rows"
    using ready rows by (simp add: recoverable_def list_all_iff)
  have "\<forall>d \<in> set (map pending_of ?rows). closable ?db d"
    using ready rows by (auto simp: recoverable_def closable_def pending_of_def pending_rows_def)
  moreover have "distinct (map pd_id (map pending_of ?rows))"
    by (rule pending_rows_life(2) [OF life]) (use scan in simp)
  moreover have "room (length (map pending_of ?rows)) ?db" using ready rows by (simp add: recoverable_def room_def)
  ultimately obtain t K where K: "resolve_all F fail_closed_classify now (map pending_of ?rows) no_tally ?K = (Inr t, K)" "faultless K"
      "chain_inv F (jn_db K)" "db_seq (jn_db K) = db_seq (jn_db J) + int (length ?rows)" "\<not> ta_quarantined t"
    using calm_resolve_all [of ?K "map pending_of ?rows" no_tally now] J chain by (auto simp: no_tally_def)
  have l: "loggable F ''recovery_completed'' (jn_db K)"
    by (rule chain_loggable) (use K(3,4) ready rows in \<open>simp_all add: recoverable_def room_def\<close>)
  have p: "length (enc_u64 F ?epoch @ enc_u64 F (of_nat n) @ enc_u64 F (of_nat m) @ enc_u64 F (of_nat b) @ put_str F (tally_text t))
      \<le> payload_capacity_limit" for n m b
    using tally_text_length [of t] by (simp add: payload_capacity_limit_def)
  have fin: "\<exists>J'. audited F ''recovery_completed'' (enc_u64 F ?epoch @ enc_u64 F (of_nat n) @ enc_u64 F (of_nat m) @
      enc_u64 F (of_nat b) @ put_str F (tally_text t)) now x K = (Inr x, J') \<and> faultless J'" for n m b and x :: recovery_report
    by (rule calm_audited [OF K(2) l p]) blast
  have "\<exists>n. recovery_walk F fail_closed_classify scan now J =
      audited F ''recovery_completed'' (enc_u64 F ?epoch @ enc_u64 F (of_nat n) @ enc_u64 F (of_nat (length ?rows)) @
        enc_u64 F (of_nat (ta_barriers t)) @ put_str F (tally_text t)) now
        \<lparr>rr_classification = tally_class t, rr_unresolved = length ?rows, rr_barriers = ta_barriers t, rr_chain_verified = True\<rparr> K"
    using K(1,5) J sized
    by (intro exI [of _ "length (filter (\<lambda>d. jd_state d = De_Stale) (db_decisions ?db))"])
       (simp add: recovery_walk_def Let_def write_meta_def calm_run epoch_started_fold read_pending_runs)
  then show ?thesis using fin by metis
qed

end

context journal_foundation
begin

lemma calm_recovery:
  assumes J: "faultless J" and inv: "journal_inv F (jn_db J)" and scan: "\<forall>rows. mset (scan rows) = mset rows"
    and ready: "recoverable now (jn_db J)"
  shows "\<exists>report J'. recover_at F fail_closed_classify scan now J = (Inr report, J')"
proof -
  obtain J1 where v: "verify_audit_chain F (tick J) = (Inr (), J1)"
    using chain_inv_verifies [of F "tick J"] inv J by (auto simp: journal_inv_def faultless_def)
  have J1: "jn_db J1 = jn_db J" "faultless J1"
    using v by (auto simp: verify_audit_chain_def read_meta_def run_ok faultless_def J [unfolded faultless_def] split: option.splits if_splits)
  have c: "check_clock now J1 = (Inr (), tick J1)"
    using ready J1 by (auto simp: check_clock_def read_meta_def calm_run recoverable_def clock_behind_def parsed_wall_def split: option.splits)
  obtain report J2 where w: "recovery_walk F fail_closed_classify scan now (tick (tick J1)) = (Inr report, J2)" "faultless J2"
    using calm_walk [of "tick (tick J1)" scan now] J1 inv scan ready by auto
  have "txn (recovery_walk F fail_closed_classify scan now) (tick J1) = (Inr report, tick J2)"
    using J1 w by (simp add: txn_def calm_run)
  then show ?thesis using J v c by (auto simp: recover_at_def calm_run)
qed

end

text \<open>C17: liveness: recovery succeeds.  On a database that answers and that its check reports as intact, with tables
  that satisfy the invariant of a reachable journal, a clock that is not behind, room in the audit table and scopes for
  the new barriers, recovery with the inspector that fails closed returns a report, however many dispatches are
  pending.\<close>

theorem recovery_completes:
  assumes "codec_laws F" and "digest_laws F" and "faultless J" and "jn_intact J" and "journal_inv F (jn_db J)"
    and "\<forall>rows. mset (scan rows) = mset rows" and "recoverable now (jn_db J)"
  shows "\<exists>report J'. recover_at F fail_closed_classify scan now J = (Inr report, J')"
  using journal_foundation.calm_recovery [OF journal_foundation.intro [OF assms(1,2)] assms(3,5-7)] .

text \<open>The answer of the check is not looked at: a database reported as damaged is recovered all the same.\<close>

lemma damaged_database_recovered:
  assumes "codec_laws F" and "digest_laws F" and "faultless J" and "\<not> jn_intact J" and "journal_inv F (jn_db J)"
    and "\<forall>rows. mset (scan rows) = mset rows" and "recoverable now (jn_db J)"
  shows "fst (quick_check J) = Inr False \<and> (\<exists>report J'. recover_at F fail_closed_classify scan now J = (Inr report, J'))"
  using journal_foundation.calm_recovery [OF journal_foundation.intro [OF assms(1,2)] assms(3,5-7)] assms(3,4)
  by (simp add: calm_run)

lemma sample_recoverable: "recoverable 50 (sample_db ''0'')"
  by (simp add: recoverable_def clock_behind_def parsed_wall_def room_def pending_rows_def sample_db_def)

theorem recovery_completes_witness:
  "jn_intact (sample_journal ''0'') \<and>
   (\<exists>report J'. recover_at ref_foundation fail_closed_classify (\<lambda>rows. rows) 50 (sample_journal ''0'') = (Inr report, J'))"
proof -
  have "jn_intact (sample_journal ''0'')" by (simp add: sample_journal_def connection_def)
  then show ?thesis
    using recovery_completes [OF ref_codec_laws ref_digest.digest_laws_axioms, of "sample_journal ''0''" "\<lambda>rows. rows" 50]
      sample_inv sample_recoverable by simp
qed

theorem recovery_fails_closed_witness:
  "\<exists>report J'. recover_at ref_foundation fail_closed_classify (\<lambda>rows. rows) 50 (sample_journal ''0'') = (Inr report, J') \<and>
     report = fail_closed_report 1 \<and> barrier_rows_active (reconcile_scope (replicate 16 7)) (jn_db J') \<and> pending_rows (jn_db J') = []"
proof -
  obtain report J' where r: "recover_at ref_foundation fail_closed_classify (\<lambda>rows. rows) 50 (sample_journal ''0'') = (Inr report, J')"
    using ref_journal.calm_recovery [of "sample_journal ''0''" "\<lambda>rows. rows" 50] sample_inv sample_recoverable by auto
  have l: "life_inv (jn_db (sample_journal ''0''))" using sample_inv by (simp add: journal_inv_def)
  have p: "map jp_id (pending_rows (sample_db ''0'')) = [replicate 16 7]"
    by (simp add: pending_rows_def sample_db_def)
  have "length (pending_rows (sample_db ''0'')) = 1" "replicate 16 7 \<in> jp_id ` set (pending_rows (sample_db ''0''))"
    using arg_cong [OF p, of length] arg_cong [OF p, of set] by simp_all
  then show ?thesis using recovery_fails_closed [OF l _ r] r by auto
qed

end
