(* ===== verification/Journal_Limits.thy ===== *)
theory Journal_Limits
  imports Journal_Recovery
begin

text \<open>
  The text of numbers in the table of meta values, and two places where the journal does less than its comments
  say: the range check of the parser, and a recovery that fails on a taken scope and moves the epoch of the object
  alone.
\<close>

section \<open>Numbers as text\<close>

lemma unat_of_small: "n < 2 ^ 64 \<Longrightarrow> unat (of_nat n :: u64) = n"
  by (simp add: unat_of_nat take_bit_nat_eq_self)

lemma unat_u64_max: "unat u64_max = 2 ^ 64 - 1"
  by (simp add: u64_max_def unsigned_minus_1_eq_mask mask_eq_exp_minus_1)

lemma digit_char: "n < 10 \<Longrightarrow> of_char (char_of (48 + n) :: char) = (48 + n :: nat)"
  by simp

lemma parse_step:
  assumes "d < 10" "v + d * f < 2 ^ 64" "cs = [] \<or> f * 10 < 2 ^ 64" "f < 2 ^ 64"
  shows "parse_digits (char_of (48 + d) # cs) (of_nat v) (of_nat f) = parse_digits cs (of_nat (v + d * f)) (of_nat (f * 10))"
proof -
  have c: "of_char (char_of (48 + d) :: char) = (48 + d :: nat)" using digit_char [OF assms(1)] .
  have df: "unat (of_nat d * of_nat f :: u64) = d * f" using unat_of_small [of "d * f"] assms(2) by simp
  have v: "unat (of_nat v :: u64) = v" by (rule unat_of_small) (use assms(2) in simp)
  have "unat (u64_max - of_nat d * of_nat f) = 2 ^ 64 - 1 - d * f"
    using df assms(2) by (subst unat_sub) (auto simp: unat_u64_max word_le_nat_alt)
  then have 1: "\<not> u64_max - of_nat d * of_nat f < (of_nat v :: u64)"
    using v assms(2) by (simp add: word_less_nat_alt)
  have "unat (u64_max div 10) = (2 ^ 64 - 1) div 10" by (simp add: unat_div unat_u64_max)
  then have 2: "\<not> u64_max div 10 < (of_nat f :: u64)" if "f * 10 < 2 ^ 64"
    using unat_of_small [of f] assms(4) that by (simp add: word_less_nat_alt)
  show ?thesis using c 1 2 assms(1,3) by (auto simp: Let_def)
qed

lemma parse_digits_of:
  "v + n * 10 ^ k < 2 ^ 64 \<Longrightarrow> 10 ^ k < (2 ^ 64 :: nat) \<Longrightarrow>
     parse_digits (rev (digits_of n)) (of_nat v) (of_nat (10 ^ k)) = Some (of_nat (v + n * 10 ^ k))"
proof (induction n arbitrary: v k rule: digits_of.induct)
  case (1 n)
  show ?case
  proof (cases "n < 10")
    case True
    then show ?thesis
      using parse_step [of n v "10 ^ k" "[]"] 1(2,3) by (simp add: digits_of.simps [of n])
  next
    case False
    let ?d = "n mod 10" and ?q = "n div 10"
    have split: "n * 10 ^ k = ?q * 10 ^ Suc k + ?d * 10 ^ k"
    proof -
      have "n * 10 ^ k = (?q * 10 + ?d) * 10 ^ k" by simp
      then show ?thesis by (simp only: add_mult_distrib power_Suc mult.assoc)
    qed
    have q: "1 \<le> ?q" using False by simp
    have "10 ^ Suc k \<le> ?q * 10 ^ Suc k" using mult_le_mono1 [OF q, of "10 ^ Suc k"] by simp
    then have big: "(10 :: nat) ^ Suc k < 2 ^ 64" using 1(2) split by linarith
    have "parse_digits (rev (digits_of n)) (of_nat v) (of_nat (10 ^ k)) =
        parse_digits (rev (digits_of ?q)) (of_nat (v + ?d * 10 ^ k)) (of_nat (10 ^ k * 10))"
      using False parse_step [of ?d v "10 ^ k" "rev (digits_of ?q)"] 1(2,3) split big
      by (simp add: digits_of.simps [of n] del: of_nat_add of_nat_mult of_nat_power)
    also have "\<dots> = Some (of_nat (v + ?d * 10 ^ k + ?q * 10 ^ Suc k))"
    proof -
      have "v + ?d * 10 ^ k + ?q * 10 ^ Suc k < 2 ^ 64" using 1(2) split by linarith
      from 1(1) [OF False this big] show ?thesis by (simp only: power_Suc mult.commute)
    qed
    finally show ?thesis using split by (simp only: add.assoc add.commute add.left_commute)
  qed
qed

text \<open>roundtrip: the numbers the journal stores as text (its boot epoch, the last wall clock) are read back exactly, for
  every 64-bit value.\<close>

theorem stored_number_roundtrip: "journal_parse_u64 (to_string_u64 w) = Some w"
proof -
  have ne: "to_string_u64 w \<noteq> []" by (simp add: to_string_u64_def digits_of.simps [of "unat w"])
  have "unat w < 2 ^ 64" using unsigned_less [of w, where ?'a = nat] by simp
  then show ?thesis
    using parse_digits_of [of 0 "unat w" 0] ne by (simp add: journal_parse_u64_def to_string_u64_def)
qed

text \<open>bounds: the parser's overflow check does not hold for twenty digits: the product of the last digit and its weight
  wraps before it is compared, so the text of 20000000000000000000 is accepted as another number.\<close>

theorem parse_accepts_overflow: "journal_parse_u64 ''20000000000000000000'' = Some 1553255926290448384"
  by (simp add: journal_parse_u64_def u64_max_def)

section \<open>Recovery on a taken scope\<close>

context journal_foundation
begin

lemma taken_scope_walk:
  assumes J: "faultless J" and inv: "journal_inv F (jn_db J)" and p: "pending_rows (jn_db J) = p # ps"
    and sized: "list_all (\<lambda>d. length (jp_id d) = 16 \<and> length (jp_plan d) = 32) (pending_rows (jn_db J))"
    and room: "room 1 (jn_db J)" and taken: "reconcile_scope (jp_id p) \<in> jb_scope ` set (db_barriers (jn_db J))"
  obtains J' where "recovery_walk F fail_closed_classify (\<lambda>rows. rows) now J = (Inl Err_Open, J')"
    "jn_boot_epoch J' = jn_boot_epoch J + 1" "faultless J'"
proof -
  let ?epoch = "jn_boot_epoch J + 1"
  let ?db = "epoch_started ?epoch (jn_db J)"
  let ?K = "(tick (tick (tick (tick J)))\<lparr>jn_db := ?db, jn_boot_epoch := ?epoch\<rparr>)"
  let ?d = "pending_of p"
  have id: "pd_id ?d = jp_id p" by (simp add: pending_of_def)
  have "p \<in> set (pending_rows (jn_db J))" by (simp add: p)
  then have d: "pd_id ?d \<in> jp_id ` set (db_dispatches (jn_db ?K))" "pd_id ?d \<notin> jo_dispatch ` set (db_outcomes (jn_db ?K))"
    by (auto simp: id pending_rows_def)
  have len: "length (pd_id ?d) = 16" using sized by (simp add: p id)
  have c: "chain_inv F (jn_db ?K)" "room 1 (jn_db ?K)" using inv room by (simp_all add: journal_inv_def room_def)
  obtain K where K: "apply_resolution F ?d Oc_Indeterminate None now ?K = (Inr (), K)" "faultless K"
      "db_barriers (jn_db K) = db_barriers (jn_db J)" "jn_boot_epoch K = ?epoch"
    by (rule calm_apply [OF _ c len d, where now = now]) (use J in simp_all)
  have "insert_barrier (reconcile_scope (pd_id ?d)) ''reconciliation-unknown'' now ''inspector=fail-closed'' K = (Inl Err_Open, tick K)"
    using K(2,3) taken by (simp add: insert_barrier_def calm_run id)
  then have r: "resolve_one F fail_closed_classify now ?d no_tally ?K = (Inl Err_Open, tick K)"
    by (simp add: resolve_one_def Let_def calm_run K(1))
  have "recovery_walk F fail_closed_classify (\<lambda>rows. rows) now J = (Inl Err_Open, tick K)"
    using J sized r
    by (simp add: recovery_walk_def Let_def write_meta_def calm_run epoch_started_fold read_pending_runs p pending_of_def)
  then show thesis by (rule that) (use K in simp_all)
qed

lemma taken_scope_recovery:
  assumes J: "faultless J" and inv: "journal_inv F (jn_db J)" and p: "pending_rows (jn_db J) = p # ps"
    and sized: "list_all (\<lambda>d. length (jp_id d) = 16 \<and> length (jp_plan d) = 32) (pending_rows (jn_db J))"
    and room: "room 1 (jn_db J)" and taken: "reconcile_scope (jp_id p) \<in> jb_scope ` set (db_barriers (jn_db J))"
    and clock: "\<not> clock_behind now (jn_db J)"
  shows "\<exists>J'. recover_at F fail_closed_classify (\<lambda>rows. rows) now J = (Inl Err_Open, J') \<and> jn_db J' = jn_db J \<and>
    jn_boot_epoch J' = jn_boot_epoch J + 1"
proof -
  obtain J1 where v: "verify_audit_chain F (tick J) = (Inr (), J1)"
    using chain_inv_verifies [of F "tick J"] inv J by (auto simp: journal_inv_def faultless_def)
  have J1: "jn_db J1 = jn_db J" "faultless J1" "jn_boot_epoch J1 = jn_boot_epoch J"
    using v by (auto simp: verify_audit_chain_def read_meta_def run_ok faultless_def J [unfolded faultless_def] split: option.splits if_splits)
  have c: "check_clock now J1 = (Inr (), tick J1)"
    using clock J1 by (auto simp: check_clock_def read_meta_def calm_run clock_behind_def parsed_wall_def split: option.splits)
  obtain J2 where w: "recovery_walk F fail_closed_classify (\<lambda>rows. rows) now (tick (tick J1)) = (Inl Err_Open, J2)"
      "jn_boot_epoch J2 = jn_boot_epoch J + 1"
    using taken_scope_walk [of "tick (tick J1)" p ps now] assms J1 by auto
  have "txn (recovery_walk F fail_closed_classify (\<lambda>rows. rows) now) (tick J1) = (Inl Err_Open, J2\<lparr>jn_db := jn_db J\<rparr>)"
    using J1 w(1) by (simp add: txn_def calm_run)
  then show ?thesis using J v c w(2) by (auto simp: recover_at_def calm_run)
qed

end

text \<open>error: a barrier that already has the scope of a pending dispatch (a client may open one of any name, and a closed
  one keeps its row) makes recovery fail.  The tables are as before, but the epoch of the object has moved on
  without the durable one, and does so at every further attempt.\<close>

theorem taken_scope_stops_recovery:
  assumes "codec_laws F" and "digest_laws F" and "faultless J" and "journal_inv F (jn_db J)"
    and "pending_rows (jn_db J) = p # ps"
    and "list_all (\<lambda>d. length (jp_id d) = 16 \<and> length (jp_plan d) = 32) (pending_rows (jn_db J))"
    and "room 1 (jn_db J)" and "reconcile_scope (jp_id p) \<in> jb_scope ` set (db_barriers (jn_db J))"
    and "\<not> clock_behind now (jn_db J)"
  shows "\<exists>J'. recover_at F fail_closed_classify (\<lambda>rows. rows) now J = (Inl Err_Open, J') \<and> jn_db J' = jn_db J \<and>
    jn_boot_epoch J' = jn_boot_epoch J + 1"
  using journal_foundation.taken_scope_recovery [OF journal_foundation.intro [OF assms(1,2)] assms(3-9)] .

definition taken_journal :: journal where
  "taken_journal = connection (\<lambda>_. None) True
     (add_barrier (reconcile_scope (replicate 16 7)) ''mine'' 2 [] (sample_db ''0''))"

theorem taken_scope_stops_recovery_witness:
  "\<exists>J'. recover_at ref_foundation fail_closed_classify (\<lambda>rows. rows) 50 taken_journal = (Inl Err_Open, J') \<and>
     jn_db J' = jn_db taken_journal \<and> jn_boot_epoch J' = jn_boot_epoch taken_journal + 1"
proof -
  have parts: "faultless taken_journal"
    "jn_db taken_journal = add_barrier (reconcile_scope (replicate 16 7)) ''mine'' 2 [] (sample_db ''0'')"
    by (simp_all add: taken_journal_def connection_def faultless_def)
  have inv: "journal_inv ref_foundation (jn_db taken_journal)" using sample_inv [of "''0''"] by (simp add: parts journal_inv_def)
  obtain p where p: "pending_rows (jn_db taken_journal) = [p]" "length (jp_plan p) = 32" "jp_id p = replicate 16 7"
    by (simp add: parts pending_rows_def add_barrier_def sample_db_def)
  show ?thesis
    by (rule taken_scope_stops_recovery [OF ref_codec_laws ref_digest.digest_laws_axioms parts(1) inv p(1)])
       (use p(2,3) in \<open>simp_all add: p(1)\<close>, simp_all add: parts add_barrier_def sample_db_def room_def clock_behind_def parsed_wall_def)
qed

end
