(* ===== verification/Invocation_Policy.thy ===== *)
theory Invocation_Policy
  imports Activation_Policy
begin

text \<open>
  The invocation policy, \<^verbatim>\<open>cognition/policy.hpp/.cpp\<close>: the strict line parser of the canonical machine instance.  The
  structs that the parser fills belong to the draft package; the enumerators are those the vocabulary tables name,
  and the rule a list row starts from is an argument.  Theorems: what a parsed policy satisfies, and that the
  parser reads back every policy written in the canonical shape.
\<close>

section \<open>Vocabulary\<close>

datatype action_name =
    An_BeginTask | An_EnterDomain | An_CreateCppSymbol | An_IntroducePrimitive | An_ModifyArchitecture | An_ModifyPublicAPI
  | An_InvokeTool | An_RetryFailure | An_MakeCanonicalClaim | An_MakeLiveClaim | An_ModifyReferencedContract | An_Commit
  | An_Publish | An_AcceptCandidate

datatype requirement_name =
    Rn_MandatoryRecall | Rn_SearchLowerLayer | Rn_VerifyCanonical | Rn_VerifyLive | Rn_InspectToolContract
  | Rn_InspectKnownPit | Rn_RunMechanicalCheck | Rn_RequestReview | Rn_AskHuman

datatype boundary_name = Bn_BeforeJudgment | Bn_BeforeExecution

datatype claim_name = Cn_LocalRecall | Cn_CanonicalFact | Cn_LiveFact | Cn_EvidenceInterpretation | Cn_Judgment

definition action_table :: "(string \<times> action_name) list" where
  "action_table =
     [(''BeginTask'', An_BeginTask), (''EnterDomain'', An_EnterDomain), (''CreateCppSymbol'', An_CreateCppSymbol),
      (''IntroducePrimitive'', An_IntroducePrimitive), (''ModifyArchitecture'', An_ModifyArchitecture),
      (''ModifyPublicAPI'', An_ModifyPublicAPI), (''InvokeTool'', An_InvokeTool), (''RetryFailure'', An_RetryFailure),
      (''MakeCanonicalClaim'', An_MakeCanonicalClaim), (''MakeLiveClaim'', An_MakeLiveClaim),
      (''ModifyReferencedContract'', An_ModifyReferencedContract), (''Commit'', An_Commit), (''Publish'', An_Publish),
      (''AcceptCandidate'', An_AcceptCandidate)]"

definition requirement_table :: "(string \<times> requirement_name) list" where
  "requirement_table =
     [(''MandatoryRecall'', Rn_MandatoryRecall), (''SearchLowerLayer'', Rn_SearchLowerLayer),
      (''VerifyCanonical'', Rn_VerifyCanonical), (''VerifyLive'', Rn_VerifyLive),
      (''InspectToolContract'', Rn_InspectToolContract), (''InspectKnownPit'', Rn_InspectKnownPit),
      (''RunMechanicalCheck'', Rn_RunMechanicalCheck), (''RequestReview'', Rn_RequestReview), (''AskHuman'', Rn_AskHuman)]"

definition boundary_table :: "(string \<times> boundary_name) list" where
  "boundary_table = [(''BeforeJudgment'', Bn_BeforeJudgment), (''BeforeExecution'', Bn_BeforeExecution)]"

definition claim_table :: "(string \<times> claim_name) list" where
  "claim_table =
     [(''LocalRecall'', Cn_LocalRecall), (''CanonicalFact'', Cn_CanonicalFact), (''LiveFact'', Cn_LiveFact),
      (''EvidenceInterpretation'', Cn_EvidenceInterpretation), (''Judgment'', Cn_Judgment)]"

definition parse_action_kind :: "string \<Rightarrow> action_name option" where
  "parse_action_kind name = map_of action_table name"

definition parse_requirement_kind :: "string \<Rightarrow> requirement_name option" where
  "parse_requirement_kind name = map_of requirement_table name"

definition parse_boundary :: "string \<Rightarrow> boundary_name option" where
  "parse_boundary name = map_of boundary_table name"

definition parse_claim_class :: "string \<Rightarrow> claim_name option" where
  "parse_claim_class name = map_of claim_table name"

definition parse_bool :: "string \<Rightarrow> bool option" where
  "parse_bool s = (if s = ''true'' then Some True else if s = ''false'' then Some False else None)"

text \<open>\<^verbatim>\<open>std::from_chars\<close> over the whole text: decimal digits, in range.\<close>

definition invocation_u64 :: "string \<Rightarrow> u64 option" where
  "invocation_u64 s =
     (if s \<noteq> [] \<and> list_all is_digit s \<and> decimal s < 2 ^ 64 then Some (of_nat (decimal s)) else None)"

definition trim_back :: "string \<Rightarrow> string" where
  "trim_back s = rev (dropWhile (\<lambda>c. c = CHR '' '' \<or> c = CHR 0x0D) (rev s))"

definition split_field :: "string \<Rightarrow> (string \<times> string) option" where
  "split_field line =
     (if CHR '':'' \<notin> set line then None
      else
        let key = takeWhile (\<lambda>c. c \<noteq> CHR '':'') line;
            v = dropWhile (\<lambda>c. c = CHR '' '') (trim_back (drop (length key + 1) line)) in
        Some (key, if quoted_by quote v then butlast (tl v) else v))"

section \<open>The policy\<close>

record invocation_rule =
  iv_action :: action_name
  iv_claim :: "claim_name option"
  iv_requirement :: requirement_name
  iv_boundary :: boundary_name
  iv_subject :: string
  iv_blocking :: bool

record parsed_resolver =
  pv_kind :: requirement_name
  pv_type :: string
  pv_min_version :: u64

definition new_resolver :: parsed_resolver where
  "new_resolver = \<lparr>pv_kind = Rn_MandatoryRecall, pv_type = [], pv_min_version = 1\<rparr>"

record invocation_policy =
  ip_present :: bool
  ip_rules :: "invocation_rule list"
  ip_resolvers :: "parsed_resolver list"
  ip_evidence_ttl :: u64
  ip_bundle_freshness :: u64
  ip_redeliberate :: bool
  ip_deny :: bool

definition max_policy_bytes :: nat where "max_policy_bytes = 256 * 1024"
definition max_rules :: nat where "max_rules = 512"

datatype policy_section = Sec_None | Sec_PolicyHeader | Sec_Rules | Sec_Resolvers | Sec_Freshness | Sec_Enforcement

record invocation_state =
  is_section :: policy_section
  is_policy :: invocation_policy
  is_schema_seen :: bool
  is_present_seen :: bool
  is_evidence_ttl :: bool
  is_bundle_ttl :: bool
  is_enf_bj :: bool
  is_enf_be :: bool

definition invocation_start :: invocation_state where
  "invocation_start =
     \<lparr>is_section = Sec_None,
      is_policy = \<lparr>ip_present = False, ip_rules = [], ip_resolvers = [], ip_evidence_ttl = 0, ip_bundle_freshness = 0,
        ip_redeliberate = True, ip_deny = True\<rparr>,
      is_schema_seen = False, is_present_seen = False, is_evidence_ttl = False, is_bundle_ttl = False,
      is_enf_bj = False, is_enf_be = False\<rparr>"

section \<open>The line parser\<close>

text \<open>A step yields \<open>None\<close> where the source clears its \<^verbatim>\<open>ok\<close> flag.\<close>

definition top_line :: "string \<Rightarrow> string \<Rightarrow> invocation_state \<Rightarrow> invocation_state option" where
  "top_line key v st =
     (if key = ''schema'' then
        if v = ''qiven-invocation-policy-v1'' then Some (st\<lparr>is_schema_seen := True, is_section := Sec_None\<rparr>) else None
      else if key = ''version'' then if invocation_u64 v = Some 1 then Some st else None
      else if key = ''policy'' then if v = [] then Some (st\<lparr>is_section := Sec_PolicyHeader\<rparr>) else None
      else if key = ''resolvers'' then if v = [] then Some (st\<lparr>is_section := Sec_Resolvers\<rparr>) else None
      else if key = ''freshness'' then if v = [] then Some (st\<lparr>is_section := Sec_Freshness\<rparr>) else None
      else if key = ''enforcement'' then if v = [] then Some (st\<lparr>is_section := Sec_Enforcement\<rparr>) else None
      else None)"

definition header_line :: "bool \<Rightarrow> string \<Rightarrow> string \<Rightarrow> invocation_state \<Rightarrow> invocation_state option" where
  "header_line is_list key v st =
     (if is_list then None
      else if key = ''present'' then
        (case parse_bool v of
           None \<Rightarrow> None
         | Some b \<Rightarrow> Some (st\<lparr>is_policy := (is_policy st)\<lparr>ip_present := b\<rparr>, is_present_seen := True\<rparr>))
      else if key = ''rules'' then if v = [] then Some (st\<lparr>is_section := Sec_Rules\<rparr>) else None
      else None)"

definition rule_field :: "string \<Rightarrow> string \<Rightarrow> invocation_rule \<Rightarrow> invocation_rule option" where
  "rule_field key v r =
     (if key = ''action'' then map_option (\<lambda>x. r\<lparr>iv_action := x\<rparr>) (parse_action_kind v)
      else if key = ''claim'' then map_option (\<lambda>x. r\<lparr>iv_claim := Some x\<rparr>) (parse_claim_class v)
      else if key = ''requirement'' then map_option (\<lambda>x. r\<lparr>iv_requirement := x\<rparr>) (parse_requirement_kind v)
      else if key = ''boundary'' then map_option (\<lambda>x. r\<lparr>iv_boundary := x\<rparr>) (parse_boundary v)
      else if key = ''subject'' then if v = [] then None else Some (r\<lparr>iv_subject := v\<rparr>)
      else if key = ''blocking'' then map_option (\<lambda>x. r\<lparr>iv_blocking := x\<rparr>) (parse_bool v)
      else None)"

definition resolver_field :: "string \<Rightarrow> string \<Rightarrow> parsed_resolver \<Rightarrow> parsed_resolver option" where
  "resolver_field key v r =
     (if key = ''requirement'' then map_option (\<lambda>x. r\<lparr>pv_kind := x\<rparr>) (parse_requirement_kind v)
      else if key = ''type'' then if v = [] then None else Some (r\<lparr>pv_type := v\<rparr>)
      else if key = ''min_version'' then
        (case invocation_u64 v of
           None \<Rightarrow> None
         | Some n \<Rightarrow> if 1 \<le> n then Some (r\<lparr>pv_min_version := n\<rparr>) else None)
      else None)"

text \<open>A list row opens an entry; every other row continues the last one.\<close>

definition entry_line :: "bool \<Rightarrow> 'e \<Rightarrow> ('e \<Rightarrow> 'e option) \<Rightarrow> 'e list \<Rightarrow> 'e list option" where
  "entry_line is_list blank f entries =
     (let es = (if is_list then entries @ [blank] else entries) in
      if es = [] then None else map_option (\<lambda>e. butlast es @ [e]) (f (last es)))"

definition rules_line :: "invocation_rule \<Rightarrow> bool \<Rightarrow> string \<Rightarrow> string \<Rightarrow> invocation_state \<Rightarrow> invocation_state option" where
  "rules_line blank is_list key v st =
     (if is_list \<and> max_rules \<le> length (ip_rules (is_policy st)) then None
      else map_option (\<lambda>rs. st\<lparr>is_policy := (is_policy st)\<lparr>ip_rules := rs\<rparr>\<rparr>)
        (entry_line is_list blank (rule_field key v) (ip_rules (is_policy st))))"

definition resolvers_line :: "bool \<Rightarrow> string \<Rightarrow> string \<Rightarrow> invocation_state \<Rightarrow> invocation_state option" where
  "resolvers_line is_list key v st =
     map_option (\<lambda>rs. st\<lparr>is_policy := (is_policy st)\<lparr>ip_resolvers := rs\<rparr>\<rparr>)
       (entry_line is_list new_resolver (resolver_field key v) (ip_resolvers (is_policy st)))"

definition freshness_line :: "bool \<Rightarrow> string \<Rightarrow> string \<Rightarrow> invocation_state \<Rightarrow> invocation_state option" where
  "freshness_line is_list key v st =
     (if is_list then None
      else if key = ''evidence_ttl_ms'' then
        (case invocation_u64 v of
           None \<Rightarrow> None
         | Some n \<Rightarrow> if 0 < n then Some (st\<lparr>is_policy := (is_policy st)\<lparr>ip_evidence_ttl := n\<rparr>, is_evidence_ttl := True\<rparr>) else None)
      else if key = ''bundle_freshness_ms'' then
        (case invocation_u64 v of
           None \<Rightarrow> None
         | Some n \<Rightarrow> if 0 < n then Some (st\<lparr>is_policy := (is_policy st)\<lparr>ip_bundle_freshness := n\<rparr>, is_bundle_ttl := True\<rparr>) else None)
      else None)"

definition enforcement_line :: "bool \<Rightarrow> string \<Rightarrow> string \<Rightarrow> invocation_state \<Rightarrow> invocation_state option" where
  "enforcement_line is_list key v st =
     (if is_list then None
      else if key = ''unsatisfied_before_judgment'' then
        if v = ''redeliberate'' then Some (st\<lparr>is_policy := (is_policy st)\<lparr>ip_redeliberate := True\<rparr>, is_enf_bj := True\<rparr>)
        else if v = ''deny'' then Some (st\<lparr>is_policy := (is_policy st)\<lparr>ip_redeliberate := False\<rparr>, is_enf_bj := True\<rparr>)
        else None
      else if key = ''unsatisfied_before_execution'' then
        if v = ''deny'' then Some (st\<lparr>is_policy := (is_policy st)\<lparr>ip_deny := True\<rparr>, is_enf_be := True\<rparr>) else None
      else None)"

definition section_line :: "invocation_rule \<Rightarrow> bool \<Rightarrow> string \<Rightarrow> string \<Rightarrow> invocation_state \<Rightarrow> invocation_state option" where
  "section_line blank is_list key v st =
     (case is_section st of
        Sec_PolicyHeader \<Rightarrow> header_line is_list key v st
      | Sec_Rules \<Rightarrow> rules_line blank is_list key v st
      | Sec_Resolvers \<Rightarrow> resolvers_line is_list key v st
      | Sec_Freshness \<Rightarrow> freshness_line is_list key v st
      | Sec_Enforcement \<Rightarrow> enforcement_line is_list key v st
      | Sec_None \<Rightarrow> None)"

definition invocation_line :: "invocation_rule \<Rightarrow> string \<Rightarrow> invocation_state \<Rightarrow> invocation_state option" where
  "invocation_line blank raw st =
     (let line = rev (dropWhile (\<lambda>c. c = CHR 0x0D) (rev raw)) in
      if CHR 0x09 \<in> set line then None
      else if line = [] \<or> hd line = CHR ''#'' then Some st
      else if hd line \<noteq> CHR '' '' then
        (case split_field line of None \<Rightarrow> None | Some (key, v) \<Rightarrow> top_line key v st)
      else
        let indent = length (takeWhile (\<lambda>c. c = CHR '' '') line);
            body = drop indent line;
            is_list = starts_with body ''- '' in
        if 8 < indent then None
        else
          case split_field (if is_list then drop 2 body else body) of
            None \<Rightarrow> None
          | Some (key, v) \<Rightarrow> section_line blank is_list key v st)"

fun invocation_lines :: "invocation_rule \<Rightarrow> nat \<Rightarrow> string list \<Rightarrow> invocation_state \<Rightarrow> nat + invocation_state" where
  "invocation_lines blank n [] st = Inr st"
| "invocation_lines blank n (l # ls) st =
     (case invocation_line blank l st of
        None \<Rightarrow> Inl (n + 1)
      | Some st' \<Rightarrow> invocation_lines blank (n + 1) ls st')"

definition invocation_complete :: "invocation_state \<Rightarrow> bool" where
  "invocation_complete st \<longleftrightarrow>
     is_schema_seen st \<and> is_present_seen st \<and> ip_present (is_policy st) \<and> ip_rules (is_policy st) \<noteq> [] \<and>
     list_all (\<lambda>r. iv_subject r \<noteq> []) (ip_rules (is_policy st)) \<and>
     list_all (\<lambda>r. pv_type r \<noteq> []) (ip_resolvers (is_policy st)) \<and>
     is_evidence_ttl st \<and> is_bundle_ttl st \<and> is_enf_bj st \<and> is_enf_be st"

text \<open>\<^verbatim>\<open>parse_invocation_policy\<close>: the error is the line it names, 0 for the checks on the whole file.\<close>

definition parse_invocation_policy :: "invocation_rule \<Rightarrow> string \<Rightarrow> nat + invocation_policy" where
  "parse_invocation_policy blank bs =
     (if max_policy_bytes < length bs then Inl 0
      else
        case invocation_lines blank 0 (pieces bs) invocation_start of
          Inl n \<Rightarrow> Inl n
        | Inr st \<Rightarrow> if invocation_complete st then Inr (is_policy st) else Inl 0)"

section \<open>What a parsed policy satisfies\<close>

lemma invocation_lines_invariant:
  assumes "invocation_lines blank n ls st = Inr st'" "P st"
    and "\<And>l s s'. P s \<Longrightarrow> invocation_line blank l s = Some s' \<Longrightarrow> P s'"
  shows "P st'"
  using assms(1,2)
proof (induction ls arbitrary: n st)
  case (Cons l ls)
  then show ?case using assms(3) by (auto split: option.splits)
qed simp

lemma invocation_lines_error: "invocation_lines blank n ls st = Inl k \<Longrightarrow> n < k \<and> k \<le> n + length ls"
  by (induction ls arbitrary: n st) (fastforce split: option.splits)+

definition invocation_inv :: "invocation_state \<Rightarrow> bool" where
  "invocation_inv st \<longleftrightarrow>
     length (ip_rules (is_policy st)) \<le> max_rules \<and> (\<forall>r \<in> set (ip_resolvers (is_policy st)). 1 \<le> pv_min_version r) \<and>
     (is_evidence_ttl st \<longrightarrow> 0 < ip_evidence_ttl (is_policy st)) \<and> (is_bundle_ttl st \<longrightarrow> 0 < ip_bundle_freshness (is_policy st)) \<and>
     ip_deny (is_policy st)"

lemma entry_line_Some:
  assumes "entry_line is_list blank f es = Some es'"
  obtains e where "es' = butlast (if is_list then es @ [blank] else es) @ [e]"
    "f (last (if is_list then es @ [blank] else es)) = Some e" "(if is_list then es @ [blank] else es) \<noteq> []"
  using assms by (auto simp: entry_line_def Let_def split: if_splits)

lemma rules_line_inv: "rules_line blank b key v st = Some st' \<Longrightarrow> invocation_inv st \<Longrightarrow> invocation_inv st'"
  unfolding rules_line_def
  by (auto simp: invocation_inv_def not_le split: if_splits elim!: entry_line_Some)

lemma resolver_field_version: "resolver_field key v r = Some r' \<Longrightarrow> 1 \<le> pv_min_version r \<Longrightarrow> 1 \<le> pv_min_version r'"
  by (auto simp: resolver_field_def split: if_splits option.splits)

lemma resolvers_line_inv:
  assumes "resolvers_line b key v st = Some st'" "invocation_inv st"
  shows "invocation_inv st'"
proof -
  let ?es = "if b then ip_resolvers (is_policy st) @ [new_resolver] else ip_resolvers (is_policy st)"
  obtain rs where rs: "entry_line b new_resolver (resolver_field key v) (ip_resolvers (is_policy st)) = Some rs"
    and st': "st' = st\<lparr>is_policy := (is_policy st)\<lparr>ip_resolvers := rs\<rparr>\<rparr>"
    using assms(1) by (auto simp: resolvers_line_def)
  obtain e where e: "rs = butlast ?es @ [e]" "resolver_field key v (last ?es) = Some e" "?es \<noteq> []"
    using rs by (rule entry_line_Some)
  have "\<forall>r \<in> set ?es. 1 \<le> pv_min_version r" using assms(2) by (auto simp: invocation_inv_def new_resolver_def)
  then have "\<forall>r \<in> set rs. 1 \<le> pv_min_version r"
    using e resolver_field_version [OF e(2)] by (auto dest: in_set_butlastD)
  then show ?thesis using assms(2) by (simp add: st' invocation_inv_def)
qed

lemma invocation_line_inv: "invocation_line blank l st = Some st' \<Longrightarrow> invocation_inv st \<Longrightarrow> invocation_inv st'"
proof -
  have top: "top_line key v st = Some st' \<Longrightarrow> invocation_inv st \<Longrightarrow> invocation_inv st'" for key v
    by (auto simp: top_line_def invocation_inv_def split: if_splits)
  have "header_line b key v st = Some st' \<Longrightarrow> invocation_inv st \<Longrightarrow> invocation_inv st'" for b key v
    by (auto simp: header_line_def invocation_inv_def split: if_splits option.splits)
  moreover have "freshness_line b key v st = Some st' \<Longrightarrow> invocation_inv st \<Longrightarrow> invocation_inv st'" for b key v
    by (auto simp: freshness_line_def invocation_inv_def split: if_splits option.splits)
  moreover have "enforcement_line b key v st = Some st' \<Longrightarrow> invocation_inv st \<Longrightarrow> invocation_inv st'" for b key v
    by (auto simp: enforcement_line_def invocation_inv_def split: if_splits)
  ultimately have sec: "section_line blank b key v st = Some st' \<Longrightarrow> invocation_inv st \<Longrightarrow> invocation_inv st'" for b key v
    using rules_line_inv resolvers_line_inv by (auto simp: section_line_def split: policy_section.splits)
  show "invocation_line blank l st = Some st' \<Longrightarrow> invocation_inv st \<Longrightarrow> invocation_inv st'"
    using top sec by (auto simp: invocation_line_def Let_def split: if_splits option.splits)
qed

text \<open>The policies a parse can return.\<close>

definition invocation_wf :: "invocation_policy \<Rightarrow> bool" where
  "invocation_wf p \<longleftrightarrow>
     ip_present p \<and> ip_rules p \<noteq> [] \<and> length (ip_rules p) \<le> max_rules \<and> (\<forall>r \<in> set (ip_rules p). iv_subject r \<noteq> []) \<and>
     (\<forall>r \<in> set (ip_resolvers p). pv_type r \<noteq> [] \<and> 1 \<le> pv_min_version r) \<and>
     0 < ip_evidence_ttl p \<and> 0 < ip_bundle_freshness p \<and> ip_deny p"

lemma parsed_wf:
  assumes "parse_invocation_policy blank bs = Inr p" shows "invocation_wf p"
proof -
  obtain st where run: "invocation_lines blank 0 (pieces bs) invocation_start = Inr st"
    and c: "invocation_complete st" and p: "p = is_policy st"
    using assms by (auto simp: parse_invocation_policy_def split: if_splits sum.splits)
  have "invocation_inv invocation_start" by (simp add: invocation_inv_def invocation_start_def)
  from invocation_lines_invariant [where P = invocation_inv, OF run this] have "invocation_inv st"
    using invocation_line_inv by blast
  then show ?thesis using c p by (auto simp: invocation_wf_def invocation_inv_def invocation_complete_def list_all_iff)
qed

section \<open>The canonical text of a policy\<close>

fun action_text :: "action_name \<Rightarrow> string" where
  "action_text An_BeginTask = ''BeginTask''"
| "action_text An_EnterDomain = ''EnterDomain''"
| "action_text An_CreateCppSymbol = ''CreateCppSymbol''"
| "action_text An_IntroducePrimitive = ''IntroducePrimitive''"
| "action_text An_ModifyArchitecture = ''ModifyArchitecture''"
| "action_text An_ModifyPublicAPI = ''ModifyPublicAPI''"
| "action_text An_InvokeTool = ''InvokeTool''"
| "action_text An_RetryFailure = ''RetryFailure''"
| "action_text An_MakeCanonicalClaim = ''MakeCanonicalClaim''"
| "action_text An_MakeLiveClaim = ''MakeLiveClaim''"
| "action_text An_ModifyReferencedContract = ''ModifyReferencedContract''"
| "action_text An_Commit = ''Commit''"
| "action_text An_Publish = ''Publish''"
| "action_text An_AcceptCandidate = ''AcceptCandidate''"

fun requirement_text :: "requirement_name \<Rightarrow> string" where
  "requirement_text Rn_MandatoryRecall = ''MandatoryRecall''"
| "requirement_text Rn_SearchLowerLayer = ''SearchLowerLayer''"
| "requirement_text Rn_VerifyCanonical = ''VerifyCanonical''"
| "requirement_text Rn_VerifyLive = ''VerifyLive''"
| "requirement_text Rn_InspectToolContract = ''InspectToolContract''"
| "requirement_text Rn_InspectKnownPit = ''InspectKnownPit''"
| "requirement_text Rn_RunMechanicalCheck = ''RunMechanicalCheck''"
| "requirement_text Rn_RequestReview = ''RequestReview''"
| "requirement_text Rn_AskHuman = ''AskHuman''"

fun boundary_text :: "boundary_name \<Rightarrow> string" where
  "boundary_text Bn_BeforeJudgment = ''BeforeJudgment''"
| "boundary_text Bn_BeforeExecution = ''BeforeExecution''"

fun claim_text :: "claim_name \<Rightarrow> string" where
  "claim_text Cn_LocalRecall = ''LocalRecall''"
| "claim_text Cn_CanonicalFact = ''CanonicalFact''"
| "claim_text Cn_LiveFact = ''LiveFact''"
| "claim_text Cn_EvidenceInterpretation = ''EvidenceInterpretation''"
| "claim_text Cn_Judgment = ''Judgment''"

definition bool_text :: "bool \<Rightarrow> string" where
  "bool_text b = (if b then ''true'' else ''false'')"

definition quoted :: "string \<Rightarrow> string" where
  "quoted s = quote # s @ [quote]"

text \<open>A row of \<open>n\<close> spaces, perhaps a dash, a key and a value.\<close>

definition row :: "nat \<Rightarrow> bool \<Rightarrow> string \<Rightarrow> string \<Rightarrow> string" where
  "row n is_list key v = replicate n CHR '' '' @ (if is_list then ''- '' else []) @ key @ '': '' @ v"

definition rule_rows :: "invocation_rule \<Rightarrow> string list" where
  "rule_rows r =
     row 4 True ''action'' (action_text (iv_action r)) #
     (case iv_claim r of None \<Rightarrow> [] | Some c \<Rightarrow> [row 6 False ''claim'' (claim_text c)]) @
     [row 6 False ''requirement'' (requirement_text (iv_requirement r)),
      row 6 False ''boundary'' (boundary_text (iv_boundary r)),
      row 6 False ''subject'' (quoted (iv_subject r)),
      row 6 False ''blocking'' (bool_text (iv_blocking r))]"

definition resolver_rows :: "parsed_resolver \<Rightarrow> string list" where
  "resolver_rows r =
     [row 2 True ''requirement'' (requirement_text (pv_kind r)), row 4 False ''type'' (quoted (pv_type r)),
      row 4 False ''min_version'' (to_string_u64 (pv_min_version r))]"

definition policy_rows :: "invocation_policy \<Rightarrow> string list" where
  "policy_rows p =
     [''schema: qiven-invocation-policy-v1'', ''version: 1'', ''policy:'', row 2 False ''present'' (bool_text (ip_present p)), ''  rules:''] @
     concat (map rule_rows (ip_rules p)) @ [''resolvers:''] @ concat (map resolver_rows (ip_resolvers p)) @
     [''freshness:'', row 2 False ''evidence_ttl_ms'' (to_string_u64 (ip_evidence_ttl p)),
      row 2 False ''bundle_freshness_ms'' (to_string_u64 (ip_bundle_freshness p)),
      ''enforcement:'', row 2 False ''unsatisfied_before_judgment'' (if ip_redeliberate p then ''redeliberate'' else ''deny''),
      row 2 False ''unsatisfied_before_execution'' ''deny'']"

text \<open>Values as a row can carry them, and the value a row yields.\<close>

definition bare :: "string \<Rightarrow> bool" where
  "bare v \<longleftrightarrow> v \<noteq> [] \<and> hd v \<notin> {CHR '' '', quote} \<and> last v \<notin> {CHR '' '', CHR 0x0D} \<and> CHR 0x09 \<notin> set v \<and> CHR 0x0A \<notin> set v"

definition carries :: "string \<Rightarrow> string \<Rightarrow> bool" where
  "carries v x \<longleftrightarrow> v = x \<and> bare x \<or> v = quoted x \<and> CHR 0x09 \<notin> set x \<and> CHR 0x0A \<notin> set x"

lemma carries_chars: "carries v x \<Longrightarrow> CHR 0x09 \<notin> set v \<and> CHR 0x0A \<notin> set v \<and> v \<noteq> [] \<and> last v \<noteq> CHR 0x0D"
  by (auto simp: carries_def bare_def quoted_def)

lemma split_field_row:
  assumes "CHR '':'' \<notin> set key" "carries v x"
  shows "split_field (key @ '': '' @ v) = Some (key, x)"
proof -
  have t: "takeWhile (\<lambda>c. c \<noteq> CHR '':'') (key @ '': '' @ v) = key"
    using assms(1) by (subst takeWhile_append2) auto
  have ne: "v \<noteq> []" "last v \<notin> {CHR '' '', CHR 0x0D}" "hd v \<noteq> CHR '' ''"
    using assms(2) by (auto simp: carries_def bare_def quoted_def)
  then obtain w c where v: "v = w @ [c]" "c \<notin> {CHR '' '', CHR 0x0D}" by (metis append_butlast_last_id)
  have "trim_back ('' '' @ v) = '' '' @ v" using v by (simp add: trim_back_def)
  moreover have "dropWhile (\<lambda>c. c = CHR '' '') ('' '' @ v) = v" using ne by (cases v) auto
  moreover have "(if quoted_by quote v then butlast (tl v) else v) = x"
    using assms(2) by (auto simp: carries_def bare_def quoted_by_def quoted_def)
  ultimately show ?thesis using t by (auto simp: split_field_def Let_def split: if_splits)
qed

lemma row_line:
  assumes "0 < n" "n \<le> 8" "CHR '':'' \<notin> set key" "CHR 0x09 \<notin> set key" "key \<noteq> []" "hd key \<noteq> CHR '' ''" "hd key \<noteq> CHR ''-''" "carries v x"
  shows "invocation_line blank (row n b key v) st = section_line blank b key x st"
proof -
  note cc = carries_chars [OF assms(8)]
  let ?body = "(if b then ''- '' else []) @ key @ '': '' @ v"
  have line: "row n b key v = replicate n CHR '' '' @ ?body" by (simp add: row_def)
  have last: "last (row n b key v) = last v" "row n b key v \<noteq> []" using cc by (simp_all add: row_def)
  have cr: "rev (dropWhile (\<lambda>c. c = CHR 0x0D) (rev (row n b key v))) = row n b key v"
    using last cc by (cases "row n b key v" rule: rev_cases) auto
  have tab: "CHR 0x09 \<notin> set (row n b key v)" using assms(4) cc by (auto simp: row_def)
  have hd: "hd (row n b key v) = CHR '' ''" using assms(1) by (cases n) (auto simp: row_def)
  have body: "hd ?body \<noteq> CHR '' ''" "?body \<noteq> []" using assms(5,6) by (auto simp: hd_append)
  then have ind: "takeWhile (\<lambda>c. c = CHR '' '') (row n b key v) = replicate n CHR '' ''"
    unfolding line by (cases ?body) (auto simp: takeWhile_append)
  have drop: "drop n (row n b key v) = ?body" by (simp add: row_def)
  have lst: "starts_with ?body ''- '' = b"
    using assms(5,7) by (cases key) (auto simp: starts_with_def)
  have sf: "split_field (if b then drop 2 ?body else ?body) = Some (key, x)"
    using split_field_row [OF assms(3,8)] by simp
  show ?thesis
    unfolding invocation_line_def Let_def cr ind length_replicate drop lst sf using tab last(2) hd assms(2) by simp
qed

subsection \<open>Rows and what they do\<close>

lemma texts_parsed [simp]:
  "parse_action_kind (action_text a) = Some a" "parse_requirement_kind (requirement_text r) = Some r"
  "parse_boundary (boundary_text b) = Some b" "parse_claim_class (claim_text c) = Some c" "parse_bool (bool_text t) = Some t"
  by (cases a, simp_all add: parse_action_kind_def action_table_def) (cases r, simp_all add: parse_requirement_kind_def requirement_table_def,
      cases b, simp_all add: parse_boundary_def boundary_table_def, cases c, simp_all add: parse_claim_class_def claim_table_def,
      simp add: parse_bool_def bool_text_def)

lemma texts_bare:
  "bare (action_text a)" "bare (requirement_text r)" "bare (boundary_text b)" "bare (claim_text c)" "bare (bool_text t)"
  by (cases a, simp_all add: bare_def) (cases r, simp_all, cases b, simp_all, cases c, simp_all, simp add: bool_text_def)

lemma number_bare: "bare (to_string_u64 w)" and number_parsed: "invocation_u64 (to_string_u64 w) = Some w"
proof -
  note d = digits_of_decimal [of "unat w"]
  have "is_digit c \<Longrightarrow> c \<notin> {CHR '' '', quote, CHR 0x0D, CHR 0x09, CHR 0x0A}" for c by (auto simp: is_digit_def)
  then show "bare (to_string_u64 w)"
    using d hd_in_set [of "digits_of (unat w)"] last_in_set [of "digits_of (unat w)"]
    by (auto simp: bare_def to_string_u64_def list_all_iff)
  show "invocation_u64 (to_string_u64 w) = Some w"
    using d unsigned_less [of w, where ?'a = nat] by (simp add: invocation_u64_def to_string_u64_def)
qed

lemmas carried = carries_def texts_bare number_bare

lemma invocation_lines_append:
  "invocation_lines blank n (ls @ ls') st =
     (case invocation_lines blank n ls st of Inl k \<Rightarrow> Inl k | Inr st' \<Rightarrow> invocation_lines blank (n + length ls) ls' st')"
  by (induction ls arbitrary: n st) (auto split: option.split sum.split)

lemma invocation_lines_Cons:
  "invocation_line blank l st = Some st' \<Longrightarrow> invocation_lines blank n (l # ls) st = invocation_lines blank (n + 1) ls st'"
  by simp

definition row_text :: "string \<Rightarrow> bool" where
  "row_text x \<longleftrightarrow> x \<noteq> [] \<and> CHR 0x09 \<notin> set x \<and> CHR 0x0A \<notin> set x"

text \<open>The rows of one rule add it to the rules.\<close>

lemma rule_rows_add:
  assumes "is_section st = Sec_Rules" "length (ip_rules (is_policy st)) < max_rules" "iv_claim blank = None" "row_text (iv_subject r)"
  shows "invocation_lines blank n (rule_rows r) st = Inr (st\<lparr>is_policy := (is_policy st)\<lparr>ip_rules := ip_rules (is_policy st) @ [r]\<rparr>\<rparr>)"
proof -
  have step: "invocation_line blank (row k b key v) st' = rules_line blank b key x st'"
    if "0 < k" "k \<le> 8" "CHR '':'' \<notin> set key" "CHR 0x09 \<notin> set key" "key \<noteq> []" "hd key \<noteq> CHR '' ''" "hd key \<noteq> CHR ''-''" "carries v x"
      "is_section st' = Sec_Rules" for k b key v x st'
    using row_line [OF that(1-8)] that(9) by (simp add: section_line_def)
  have "carries (quoted (iv_subject r)) (iv_subject r)" using assms(4) by (simp add: carries_def row_text_def)
  note rows = step [where x = "action_text (iv_action r)"] step [where x = "requirement_text (iv_requirement r)"]
    step [where x = "boundary_text (iv_boundary r)"] step [where x = "iv_subject r"] step [where x = "bool_text (iv_blocking r)"]
  note defs = rule_rows_def carried rules_line_def entry_line_def rule_field_def Let_def row_text_def not_le
  show ?thesis
  proof (cases "iv_claim r")
    case None
    then show ?thesis using \<open>carries _ _\<close> assms by (simp add: rows defs)
  next
    case (Some c)
    then show ?thesis using \<open>carries _ _\<close> assms by (simp add: rows step [where x = "claim_text c"] defs)
  qed
qed

lemma all_rule_rows_add:
  assumes "is_section st = Sec_Rules" "length (ip_rules (is_policy st)) + length rs \<le> max_rules" "iv_claim blank = None"
    "\<forall>r \<in> set rs. row_text (iv_subject r)"
  shows "invocation_lines blank n (concat (map rule_rows rs)) st =
    Inr (st\<lparr>is_policy := (is_policy st)\<lparr>ip_rules := ip_rules (is_policy st) @ rs\<rparr>\<rparr>)"
  using assms
proof (induction rs arbitrary: n st)
  case (Cons r rs)
  have "invocation_lines blank n (rule_rows r) st = Inr (st\<lparr>is_policy := (is_policy st)\<lparr>ip_rules := ip_rules (is_policy st) @ [r]\<rparr>\<rparr>)"
    by (rule rule_rows_add) (use Cons.prems in simp_all)
  then show ?case using Cons.prems by (simp add: invocation_lines_append Cons.IH)
qed simp

lemma resolver_rows_add:
  assumes "is_section st = Sec_Resolvers" "row_text (pv_type r)" "1 \<le> pv_min_version r"
  shows "invocation_lines blank n (resolver_rows r) st =
    Inr (st\<lparr>is_policy := (is_policy st)\<lparr>ip_resolvers := ip_resolvers (is_policy st) @ [r]\<rparr>\<rparr>)"
proof -
  have step: "invocation_line blank (row k b key v) st' = resolvers_line b key x st'"
    if "0 < k" "k \<le> 8" "CHR '':'' \<notin> set key" "CHR 0x09 \<notin> set key" "key \<noteq> []" "hd key \<noteq> CHR '' ''" "hd key \<noteq> CHR ''-''" "carries v x"
      "is_section st' = Sec_Resolvers" for k b key v x st'
    using row_line [OF that(1-8)] that(9) by (simp add: section_line_def)
  have "carries (quoted (pv_type r)) (pv_type r)" using assms(2) by (simp add: carries_def row_text_def)
  then show ?thesis
    using assms
    by (simp add: resolver_rows_def step [where x = "requirement_text (pv_kind r)"] step [where x = "pv_type r"]
        step [where x = "to_string_u64 (pv_min_version r)"] carried resolvers_line_def entry_line_def resolver_field_def
        number_parsed new_resolver_def Let_def row_text_def)
qed

lemma all_resolver_rows_add:
  assumes "is_section st = Sec_Resolvers" "\<forall>r \<in> set rs. row_text (pv_type r) \<and> 1 \<le> pv_min_version r"
  shows "invocation_lines blank n (concat (map resolver_rows rs)) st =
    Inr (st\<lparr>is_policy := (is_policy st)\<lparr>ip_resolvers := ip_resolvers (is_policy st) @ rs\<rparr>\<rparr>)"
  using assms by (induction rs arbitrary: n st) (simp_all add: invocation_lines_append resolver_rows_add)

lemma section_keys:
  "invocation_line blank ''schema: qiven-invocation-policy-v1'' st = Some (st\<lparr>is_schema_seen := True, is_section := Sec_None\<rparr>)"
  "invocation_line blank ''version: 1'' st = Some st"
  "invocation_line blank ''policy:'' st = Some (st\<lparr>is_section := Sec_PolicyHeader\<rparr>)"
  "invocation_line blank ''resolvers:'' st = Some (st\<lparr>is_section := Sec_Resolvers\<rparr>)"
  "invocation_line blank ''freshness:'' st = Some (st\<lparr>is_section := Sec_Freshness\<rparr>)"
  "invocation_line blank ''enforcement:'' st = Some (st\<lparr>is_section := Sec_Enforcement\<rparr>)"
  "invocation_line blank [] st = Some st"
  by (simp_all add: invocation_line_def Let_def split_field_def trim_back_def quoted_by_def top_line_def invocation_u64_def
      is_digit_def decimal_def)

lemma rules_key:
  "is_section st = Sec_PolicyHeader \<Longrightarrow> invocation_line blank ''  rules:'' st = Some (st\<lparr>is_section := Sec_Rules\<rparr>)"
  by (simp add: invocation_line_def Let_def split_field_def trim_back_def quoted_by_def starts_with_def section_line_def header_line_def)

lemma single_rows:
  "is_section st = Sec_PolicyHeader \<Longrightarrow> invocation_line blank (row 2 False ''present'' (bool_text b)) st =
     Some (st\<lparr>is_policy := (is_policy st)\<lparr>ip_present := b\<rparr>, is_present_seen := True\<rparr>)"
  "is_section st = Sec_Freshness \<Longrightarrow> 0 < w \<Longrightarrow> invocation_line blank (row 2 False ''evidence_ttl_ms'' (to_string_u64 w)) st =
     Some (st\<lparr>is_policy := (is_policy st)\<lparr>ip_evidence_ttl := w\<rparr>, is_evidence_ttl := True\<rparr>)"
  "is_section st = Sec_Freshness \<Longrightarrow> 0 < w \<Longrightarrow> invocation_line blank (row 2 False ''bundle_freshness_ms'' (to_string_u64 w)) st =
     Some (st\<lparr>is_policy := (is_policy st)\<lparr>ip_bundle_freshness := w\<rparr>, is_bundle_ttl := True\<rparr>)"
  "is_section st = Sec_Enforcement \<Longrightarrow>
     invocation_line blank (row 2 False ''unsatisfied_before_judgment'' (if q then ''redeliberate'' else ''deny'')) st =
     Some (st\<lparr>is_policy := (is_policy st)\<lparr>ip_redeliberate := q\<rparr>, is_enf_bj := True\<rparr>)"
  "is_section st = Sec_Enforcement \<Longrightarrow> invocation_line blank (row 2 False ''unsatisfied_before_execution'' ''deny'') st =
     Some (st\<lparr>is_policy := (is_policy st)\<lparr>ip_deny := True\<rparr>, is_enf_be := True\<rparr>)"
  by (simp_all add: row_line [where x = "bool_text b"] row_line [where x = "to_string_u64 w"] carried section_line_def header_line_def
      freshness_line_def number_parsed)
     (simp_all add: row_line [where x = "''redeliberate''"] row_line [where x = "''deny''"] carries_def bare_def section_line_def
      enforcement_line_def)

text \<open>What the canonical text can express: well formed, and texts that fit on a line.\<close>

definition writable :: "invocation_policy \<Rightarrow> bool" where
  "writable p \<longleftrightarrow> invocation_wf p \<and> (\<forall>r \<in> set (ip_rules p). row_text (iv_subject r)) \<and>
     (\<forall>r \<in> set (ip_resolvers p). row_text (pv_type r)) \<and> length (text_lines (policy_rows p)) \<le> max_policy_bytes"

lemma newline_row: "CHR 0x0A \<in> set (row n b key v) \<longleftrightarrow> CHR 0x0A \<in> set key \<or> CHR 0x0A \<in> set v"
  by (auto simp: row_def)

lemma bare_newline: "bare v \<Longrightarrow> CHR 0x0A \<notin> set v"
  by (simp add: bare_def)

lemmas no_newline = texts_bare [THEN bare_newline] number_bare [THEN bare_newline]

lemma policy_rows_no_newline:
  assumes "writable p" shows "list_all (\<lambda>l. CHR 0x0A \<notin> set l) (policy_rows p)"
proof -
  have "CHR 0x0A \<notin> set l" if "r \<in> set (ip_rules p)" "l \<in> set (rule_rows r)" for r l
    using that assms by (cases "iv_claim r") (auto simp: rule_rows_def newline_row no_newline quoted_def writable_def row_text_def)
  moreover have "CHR 0x0A \<notin> set l" if "r \<in> set (ip_resolvers p)" "l \<in> set (resolver_rows r)" for r l
    using that assms by (auto simp: resolver_rows_def newline_row no_newline quoted_def writable_def row_text_def)
  ultimately show ?thesis
    by (auto simp: policy_rows_def list_all_iff newline_row no_newline)
qed

text \<open>The state after the rows of a policy.\<close>

lemma policy_rows_run:
  assumes "writable p" "iv_claim blank = None"
  shows "invocation_lines blank 0 (policy_rows p) invocation_start =
    Inr \<lparr>is_section = Sec_Enforcement, is_policy = p, is_schema_seen = True, is_present_seen = True, is_evidence_ttl = True,
      is_bundle_ttl = True, is_enf_bj = True, is_enf_be = True\<rparr>"
proof -
  have p: "ip_present p" "ip_deny p" "0 < ip_evidence_ttl p" "0 < ip_bundle_freshness p" "length (ip_rules p) \<le> max_rules"
    "\<forall>r \<in> set (ip_rules p). row_text (iv_subject r)" "\<forall>r \<in> set (ip_resolvers p). row_text (pv_type r) \<and> 1 \<le> pv_min_version r"
    using assms(1) by (auto simp: writable_def invocation_wf_def)
  let ?st1 = "invocation_start\<lparr>is_schema_seen := True, is_section := Sec_Rules, is_present_seen := True,
    is_policy := (is_policy invocation_start)\<lparr>ip_present := True\<rparr>\<rparr>"
  have 1: "invocation_lines blank 0 [''schema: qiven-invocation-policy-v1'', ''version: 1'', ''policy:'',
      row 2 False ''present'' (bool_text (ip_present p)), ''  rules:''] invocation_start = Inr ?st1"
    using p(1) by (simp add: section_keys rules_key single_rows)
  have 2: "invocation_lines blank n (concat (map rule_rows (ip_rules p))) ?st1 =
      Inr (?st1\<lparr>is_policy := (is_policy ?st1)\<lparr>ip_rules := ip_rules p\<rparr>\<rparr>)" for n
    by (subst all_rule_rows_add) (use p assms(2) in \<open>simp_all add: invocation_start_def\<close>)
  let ?st2 = "?st1\<lparr>is_section := Sec_Resolvers, is_policy := (is_policy ?st1)\<lparr>ip_rules := ip_rules p, ip_resolvers := ip_resolvers p\<rparr>\<rparr>"
  have 3: "invocation_lines blank n [''resolvers:''] (?st1\<lparr>is_policy := (is_policy ?st1)\<lparr>ip_rules := ip_rules p\<rparr>\<rparr>) =
      Inr (?st1\<lparr>is_section := Sec_Resolvers, is_policy := (is_policy ?st1)\<lparr>ip_rules := ip_rules p\<rparr>\<rparr>)" for n
    by (simp add: section_keys)
  have 4: "invocation_lines blank n (concat (map resolver_rows (ip_resolvers p)))
      (?st1\<lparr>is_section := Sec_Resolvers, is_policy := (is_policy ?st1)\<lparr>ip_rules := ip_rules p\<rparr>\<rparr>) = Inr ?st2" for n
    by (subst all_resolver_rows_add) (use p in \<open>simp_all add: invocation_start_def\<close>)
  have 5: "invocation_lines blank n [''freshness:'', row 2 False ''evidence_ttl_ms'' (to_string_u64 (ip_evidence_ttl p)),
      row 2 False ''bundle_freshness_ms'' (to_string_u64 (ip_bundle_freshness p)), ''enforcement:'',
      row 2 False ''unsatisfied_before_judgment'' (if ip_redeliberate p then ''redeliberate'' else ''deny''),
      row 2 False ''unsatisfied_before_execution'' ''deny''] ?st2 =
    Inr \<lparr>is_section = Sec_Enforcement, is_policy = p, is_schema_seen = True, is_present_seen = True, is_evidence_ttl = True,
      is_bundle_ttl = True, is_enf_bj = True, is_enf_be = True\<rparr>" for n
    using p(1-4) single_rows(4) [of _ blank True] single_rows(4) [of _ blank False]
    by (cases "ip_redeliberate p"; cases p) (simp_all add: section_keys single_rows(2,3,5) invocation_start_def)
  show ?thesis unfolding policy_rows_def invocation_lines_append 1 2 3 4 5 sum.case ..
qed

lemma policy_reads_back:
  assumes "iv_claim blank = None" and w: "writable q"
  shows "parse_invocation_policy blank (text_lines (policy_rows q)) = Inr q"
proof -
  have "pieces (text_lines (policy_rows q)) = policy_rows q @ [[]]" by (rule pieces_text_lines) (rule policy_rows_no_newline [OF w])
  then show ?thesis
    using w policy_rows_run [OF w assms(1)]
    by (auto simp: parse_invocation_policy_def invocation_lines_append section_keys invocation_complete_def writable_def
        invocation_wf_def list_all_iff)
qed

text \<open>roundtrip: the parser of the invocation policy is exact.  What it returns is well formed (present, at least one
  and at most 512 rules with a subject each, resolvers with a type and a version from 1, positive freshness
  windows, denial before execution), an error names a line of the file or 0, and every writable policy is
  read back from its canonical text without change.\<close>

theorem invocation_policy_exact:
  assumes "iv_claim blank = None"
  shows "(case parse_invocation_policy blank bs of Inr p \<Rightarrow> invocation_wf p | Inl k \<Rightarrow> k \<le> length (pieces bs)) \<and>
    (writable q \<longrightarrow> parse_invocation_policy blank (text_lines (policy_rows q)) = Inr q)"
proof (intro conjI impI)
  show "case parse_invocation_policy blank bs of Inr p \<Rightarrow> invocation_wf p | Inl k \<Rightarrow> k \<le> length (pieces bs)"
  proof (cases "parse_invocation_policy blank bs")
    case (Inl k)
    then show ?thesis
      using invocation_lines_error [of blank 0 "pieces bs" invocation_start]
      by (auto simp: parse_invocation_policy_def split: sum.splits if_splits)
  qed (simp add: parsed_wf)
qed (rule policy_reads_back [OF assms])

definition blank_rule :: invocation_rule where
  "blank_rule = \<lparr>iv_action = An_BeginTask, iv_claim = None, iv_requirement = Rn_MandatoryRecall, iv_boundary = Bn_BeforeJudgment,
     iv_subject = [], iv_blocking = True\<rparr>"

definition sample_invocation :: invocation_policy where
  "sample_invocation =
     \<lparr>ip_present = True, ip_rules = [blank_rule\<lparr>iv_subject := ''a b'', iv_claim := Some Cn_LiveFact\<rparr>],
      ip_resolvers = [new_resolver\<lparr>pv_type := ''t'', pv_min_version := 3\<rparr>], ip_evidence_ttl = 60, ip_bundle_freshness = 5,
      ip_redeliberate = False, ip_deny = True\<rparr>"

lemma sample_writable: "writable sample_invocation"
proof -
  have len: "length (to_string_u64 60) = 2" "length (to_string_u64 5) = 1" "length (to_string_u64 3) = 1"
    by (simp_all add: to_string_u64_def digits_of.simps [of 60] digits_of.simps [of 6] digits_of.simps [of 5] digits_of.simps [of 3])
  show ?thesis
    by (simp add: writable_def sample_invocation_def invocation_wf_def blank_rule_def new_resolver_def row_text_def max_rules_def
        text_lines_def policy_rows_def rule_rows_def resolver_rows_def row_def quoted_def bool_text_def len max_policy_bytes_def)
qed

theorem invocation_policy_exact_witness:
  "parse_invocation_policy blank_rule (text_lines (policy_rows sample_invocation)) = Inr sample_invocation"
  using invocation_policy_exact [of blank_rule _ sample_invocation] sample_writable by (simp add: blank_rule_def)

end
