(* ===== verification/Cognition_Bundle.thy ===== *)
theory Cognition_Bundle
  imports Invocation_Policy Source_Lock Transaction
begin

text \<open>
  Cognition bundles, \<^verbatim>\<open>cognition/bundle.hpp/.cpp\<close>, \<^verbatim>\<open>cognition/publisher.hpp/.cpp\<close> and \<^verbatim>\<open>port/cognition_bundle.hpp\<close>: the
  directory of bundles, loading with re-verification, pinning, and the publisher that derives a bundle from one
  commit.  The directory is a state: per bundle its four parts, and the ACTIVE file.  A file that is absent here is
  one that does not exist or that the system refuses to open or read.  Names are compared as they are written.
\<close>

section \<open>Manifests\<close>

datatype bundle_error_kind = Be_Unavailable | Be_MalformedManifest | Be_DigestMismatch | Be_VersionUnsupported | Be_SourceUnverifiable

record bundle_manifest =
  bm_schema :: string
  bm_repository :: string
  bm_source_revision :: string
  bm_source_tree :: string
  bm_view :: string
  bm_snapshot_format :: u32
  bm_snapshot_digest :: content_digest
  bm_policy_digest :: content_digest
  bm_publisher_build :: string
  bm_published_at :: string
  bm_source_files :: "(string \<times> content_digest) list"

definition bundle_schema :: string where "bundle_schema = ''qiven-cognition-bundle-v1''"

definition bundle_digest_of :: "foundation \<Rightarrow> string \<Rightarrow> content_digest" where
  "bundle_digest_of F s = sha256 F (text_bytes s)"

definition hex_lower :: "bytes \<Rightarrow> string" where
  "hex_lower bs = concat (map hex_byte bs)"

definition hex_nibble :: "char \<Rightarrow> nat option" where
  "hex_nibble c =
     (let n = byte_of c in
      if 48 \<le> n \<and> n \<le> 57 then Some (n - 48) else if 97 \<le> n \<and> n \<le> 102 then Some (n - 97 + 10) else None)"

fun hex_bytes :: "string \<Rightarrow> bytes option" where
  "hex_bytes (h # l # s) =
     (case (hex_nibble h, hex_nibble l) of
        (Some high, Some low) \<Rightarrow> map_option (\<lambda>bs. of_nat (16 * high + low) # bs) (hex_bytes s)
      | _ \<Rightarrow> None)"
| "hex_bytes _ = Some []"

definition digest_from_hex :: "string \<Rightarrow> content_digest option" where
  "digest_from_hex s = (if length s \<noteq> 64 then None else hex_bytes s)"

section \<open>The directory\<close>

record bundle_files =
  bf_manifest :: "string option"
  bf_snapshot :: "string option"
  bf_policy :: "string option"
  bf_source :: "string list \<Rightarrow> string option"

record bundle_disk =
  bk_bundles :: "string \<Rightarrow> bundle_files option"
  bk_active :: "string option"

definition no_files :: bundle_files where
  "no_files = \<lparr>bf_manifest = None, bf_snapshot = None, bf_policy = None, bf_source = (\<lambda>_. None)\<rparr>"

text \<open>\<^verbatim>\<open>read_file_bytes\<close>: absent or unreadable, too long, or the content.\<close>

definition read_capped :: "nat \<Rightarrow> string option \<Rightarrow> bundle_error_kind + string" where
  "read_capped cap content =
     (case content of
        None \<Rightarrow> Inl Be_Unavailable
      | Some s \<Rightarrow> if cap < length s then Inl Be_MalformedManifest else Inr s)"

definition files_of :: "bundle_disk \<Rightarrow> string \<Rightarrow> bundle_files" where
  "files_of disk name = (case bk_bundles disk name of None \<Rightarrow> no_files | Some f \<Rightarrow> f)"

text \<open>The components of a path; both separators count.\<close>

fun path_parts :: "string \<Rightarrow> string list" where
  "path_parts [] = [[]]"
| "path_parts (c # s) =
     (if c = CHR ''/'' \<or> c = CHR 0x5C then [] # path_parts s
      else case path_parts s of p # ps \<Rightarrow> (c # p) # ps | [] \<Rightarrow> [[c]])"

definition normal_parts :: "string \<Rightarrow> string list" where
  "normal_parts path = filter (\<lambda>p. p \<noteq> [] \<and> p \<noteq> ''.'') (path_parts path)"

text \<open>
  The content under a source path, joined to the bundle's directory and normalised.  A name that ends in a
  separator is no file; a path that starts with one is joined as it stands and leaves the directory.
\<close>

definition source_content :: "(string \<Rightarrow> string option) \<Rightarrow> bundle_files \<Rightarrow> string \<Rightarrow> string option" where
  "source_content outside f path =
     (if path \<noteq> [] \<and> (hd path = CHR ''/'' \<or> hd path = CHR 0x5C) then outside path
      else if last (path_parts path) \<in> {[], ''.''} then None
      else bf_source f (normal_parts path))"

text \<open>\<^verbatim>\<open>digest_of_file\<close>: a stream that did not open yields no bytes.\<close>

definition digest_of_file :: "foundation \<Rightarrow> string option \<Rightarrow> content_digest" where
  "digest_of_file F content = bundle_digest_of F (case content of None \<Rightarrow> [] | Some s \<Rightarrow> s)"

section \<open>Loading\<close>

definition active_digest :: "bundle_disk \<Rightarrow> bundle_error_kind + content_digest" where
  "active_digest disk =
     (case read_capped 128 (bk_active disk) of
        Inl e \<Rightarrow> Inl e
      | Inr s \<Rightarrow>
          (case digest_from_hex (rev (dropWhile (\<lambda>c. c = CHR 0x0A \<or> c = CHR 0x0D \<or> c = CHR '' '') (rev s))) of
             None \<Rightarrow> Inl Be_MalformedManifest
           | Some d \<Rightarrow> Inr d))"

fun read_source_files :: "json list \<Rightarrow> (string \<times> content_digest) list \<Rightarrow> (string \<times> content_digest) list option" where
  "read_source_files [] files = Some files"
| "read_source_files (entry # entries) files =
     (if kind_of entry \<noteq> K_Object then None
      else
        let path = string_or entry ''path'' [] in
        case digest_from_hex (string_or entry ''sha256'' []) of
          None \<Rightarrow> None
        | Some d \<Rightarrow>
            if path = [] \<or> path \<in> set (map fst files) then None
            else read_source_files entries (files @ [(path, d)]))"

definition manifest_of_json :: "json \<Rightarrow> bundle_error_kind + bundle_manifest" where
  "manifest_of_json document =
     (let m = \<lparr>bm_schema = string_or document ''schema'' [], bm_repository = string_or document ''repository'' [],
          bm_source_revision = string_or document ''source_revision'' [], bm_source_tree = string_or document ''source_tree'' [],
          bm_view = string_or document ''view'' [], bm_snapshot_format = ucast (number_or document ''snapshot_format'' 0),
          bm_snapshot_digest = [], bm_policy_digest = [], bm_publisher_build = string_or document ''publisher_build'' [],
          bm_published_at = string_or document ''published_at'' [], bm_source_files = []\<rparr> in
      if bm_schema m \<noteq> bundle_schema then Inl Be_MalformedManifest
      else if bm_snapshot_format m \<noteq> 8 then Inl Be_VersionUnsupported
      else if bm_repository m = [] \<or> bm_source_revision m = [] \<or> bm_source_tree m = [] \<or> bm_view m = [] \<or>
        bm_publisher_build m = [] \<or> bm_published_at m = [] then Inl Be_MalformedManifest
      else
        case digest_from_hex (string_or document ''snapshot_sha256'' []) of
          None \<Rightarrow> Inl Be_MalformedManifest
        | Some snapshot \<Rightarrow>
            (case digest_from_hex (string_or document ''policy_sha256'' []) of
               None \<Rightarrow> Inl Be_MalformedManifest
             | Some policy \<Rightarrow>
                 (case json_find document ''source_files'' of
                    Some (JArray entries) \<Rightarrow>
                      (case read_source_files entries [] of
                         None \<Rightarrow> Inl Be_MalformedManifest
                       | Some files \<Rightarrow>
                           if files = [] then Inl Be_MalformedManifest
                           else Inr (m\<lparr>bm_snapshot_digest := snapshot, bm_policy_digest := policy, bm_source_files := files\<rparr>))
                  | _ \<Rightarrow> Inl Be_MalformedManifest)))"

definition escapes_bundle :: "string \<Rightarrow> bool" where
  "escapes_bundle path \<longleftrightarrow> has_text path ''..'' \<or> hd path = CHR ''/'' \<or> CHR '':'' \<in> set path"

fun verify_sources ::
    "foundation \<Rightarrow> (string \<Rightarrow> string option) \<Rightarrow> bundle_files \<Rightarrow> (string \<times> content_digest) list \<Rightarrow> bundle_error_kind option" where
  "verify_sources F outside f [] = None"
| "verify_sources F outside f ((path, d) # sources) =
     (if escapes_bundle path then Some Be_MalformedManifest
      else if digest_of_file F (source_content outside f path) \<noteq> d then Some Be_DigestMismatch
      else verify_sources F outside f sources)"

record verified_bundle =
  vb_manifest :: bundle_manifest
  vb_dir :: string
  vb_snapshot_bytes :: string
  vb_policy_bytes :: string

definition load_files :: "foundation \<Rightarrow> (string \<Rightarrow> string option) \<Rightarrow> content_digest \<Rightarrow> bundle_files \<Rightarrow> bundle_error_kind + verified_bundle" where
  "load_files F outside digest f =
     (case read_capped (1024 * 1024) (bf_manifest f) of
        Inl e \<Rightarrow> Inl e
      | Inr text \<Rightarrow>
          if bundle_digest_of F text \<noteq> digest then Inl Be_DigestMismatch
          else
            (case json_parse text of
               Inl _ \<Rightarrow> Inl Be_MalformedManifest
             | Inr document \<Rightarrow>
                 (case manifest_of_json document of
                    Inl e \<Rightarrow> Inl e
                  | Inr m \<Rightarrow>
                      (case verify_sources F outside f (bm_source_files m) of
                         Some e \<Rightarrow> Inl e
                       | None \<Rightarrow>
                           (case read_capped (16 * 1024 * 1024) (bf_snapshot f) of
                              Inl e \<Rightarrow> Inl e
                            | Inr snapshot \<Rightarrow>
                                if bundle_digest_of F snapshot \<noteq> bm_snapshot_digest m then Inl Be_DigestMismatch
                                else
                                  (case read_capped (1024 * 1024) (bf_policy f) of
                                     Inl e \<Rightarrow> Inl e
                                   | Inr policy \<Rightarrow>
                                       if bundle_digest_of F policy \<noteq> bm_policy_digest m then Inl Be_DigestMismatch
                                       else Inr \<lparr>vb_manifest = m, vb_dir = hex_lower digest, vb_snapshot_bytes = snapshot,
                                         vb_policy_bytes = policy\<rparr>))))))"

definition load_bundle :: "foundation \<Rightarrow> (string \<Rightarrow> string option) \<Rightarrow> bundle_disk \<Rightarrow> content_digest \<Rightarrow> bundle_error_kind + verified_bundle" where
  "load_bundle F outside disk digest = load_files F outside digest (files_of disk (hex_lower digest))"

definition load_active :: "foundation \<Rightarrow> (string \<Rightarrow> string option) \<Rightarrow> bundle_disk \<Rightarrow> bundle_error_kind + verified_bundle" where
  "load_active F outside disk = (case active_digest disk of Inl e \<Rightarrow> Inl e | Inr d \<Rightarrow> load_bundle F outside disk d)"

text \<open>
  \<^verbatim>\<open>pin_from_bundle\<close>: the ACTIVE bundle must be the requested manifest, field by field; the draft reader then opens
  the snapshot again.
\<close>

definition pin_from_bundle ::
    "foundation \<Rightarrow> (bytes \<Rightarrow> string \<Rightarrow> cognition_handle option \<times> deserialize_error) \<Rightarrow> (snapshot \<Rightarrow> bytes) \<Rightarrow>
     (string \<Rightarrow> string option) \<Rightarrow> bundle_disk \<Rightarrow> bundle_manifest \<Rightarrow> bundle_error_kind + pinned_cognition \<times> bundle_manifest" where
  "pin_from_bundle F create_cognition serialize_policy outside disk manifest =
     (case load_active F outside disk of
        Inl e \<Rightarrow> Inl e
      | Inr v \<Rightarrow>
          if vb_manifest v \<noteq> manifest then Inl Be_Unavailable
          else
            (case pin F create_cognition serialize_policy (vb_dir v @ ''/snapshot.qvs'')
                (map_option text_bytes (bf_snapshot (files_of disk (vb_dir v)))) [] of
               Inl _ \<Rightarrow> Inl Be_MalformedManifest
             | Inr p \<Rightarrow>
                 if pc_snapshot_digest_sha256 p \<noteq> bm_snapshot_digest (vb_manifest v) then Inl Be_DigestMismatch
                 else Inr (p\<lparr>pc_source_revision := bm_source_revision (vb_manifest v)\<rparr>, vb_manifest v)))"

section \<open>Publishing\<close>

definition max_source_files :: nat where "max_source_files = 256"
definition max_source_file_bytes :: nat where "max_source_file_bytes = 2 * 1024 * 1024"
definition max_source_total_bytes :: nat where "max_source_total_bytes = 64 * 1024 * 1024"

record publish_request =
  pr_repo_root :: string
  pr_ref :: string
  pr_repository_url :: string
  pr_view :: string
  pr_policy_path :: string
  pr_source_paths :: "string list"
  pr_publisher_build :: string
  pr_now_ms :: u64
  pr_git_executable :: string

text \<open>
  The calls into the system: git's answer to one command (\<open>None\<close> when it did not start, timed out or
  failed), the calendar of \<^verbatim>\<open>gmtime_s\<close>, what lands on the disk when a file is written (the stream is not checked), whether a
  call that throws does so before the bundle is in place, the rename of the staged directory and the swap of
  ACTIVE, and the draft's serialisation of a snapshot with the policy alone.
\<close>

record publish_system =
  sy_git :: "string list \<Rightarrow> string option"
  sy_calendar :: "u64 \<Rightarrow> nat list"
  sy_write :: "string list \<Rightarrow> string \<Rightarrow> string option"
  sy_throws :: bool
  sy_rename :: bool
  sy_replace :: bool
  sy_serialize :: "invocation_policy \<Rightarrow> string"
  sy_blank_rule :: invocation_rule

definition padded :: "nat \<Rightarrow> nat \<Rightarrow> string" where
  "padded width n = replicate (width - length (digits_of n)) CHR ''0'' @ digits_of n"

definition rfc3339_utc :: "(u64 \<Rightarrow> nat list) \<Rightarrow> u64 \<Rightarrow> string" where
  "rfc3339_utc calendar now =
     (let t = calendar (now div 1000) in
      padded 4 (t ! 0 + 1900) @ ''-'' @ padded 2 (t ! 1 + 1) @ ''-'' @ padded 2 (t ! 2) @ ''T'' @ padded 2 (t ! 3) @ '':'' @
      padded 2 (t ! 4) @ '':'' @ padded 2 (t ! 5) @ ''Z'')"

definition publisher_trim :: "string \<Rightarrow> string" where
  "publisher_trim s =
     dropWhile (\<lambda>c. c = CHR 0x0A \<or> c = CHR 0x0D \<or> c = CHR '' '')
       (rev (dropWhile (\<lambda>c. c = CHR 0x0A \<or> c = CHR 0x0D \<or> c = CHR '' '' \<or> c = CHR 0x09) (rev s)))"

definition path_selected :: "string \<Rightarrow> string list \<Rightarrow> bool" where
  "path_selected path entries \<longleftrightarrow> (\<exists>entry \<in> set entries. path = entry \<or> starts_with path (entry @ ''/''))"

definition request_complete :: "publish_request \<Rightarrow> bool" where
  "request_complete r \<longleftrightarrow>
     pr_git_executable r \<noteq> [] \<and> pr_repo_root r \<noteq> [] \<and> pr_ref r \<noteq> [] \<and> pr_policy_path r \<noteq> [] \<and>
     pr_source_paths r \<noteq> [] \<and> pr_publisher_build r \<noteq> []"

definition resolve_oid :: "(string list \<Rightarrow> string option) \<Rightarrow> string \<Rightarrow> string option" where
  "resolve_oid git name =
     (case git [''rev-parse'', name] of
        None \<Rightarrow> None
      | Some out \<Rightarrow> let oid = publisher_trim out in if is_hex_oid oid then Some oid else None)"

fun read_members :: "(string list \<Rightarrow> string option) \<Rightarrow> string \<Rightarrow> string list \<Rightarrow> nat \<Rightarrow> (string \<times> string) list option" where
  "read_members git commit [] total_bytes = Some []"
| "read_members git commit (path # paths) total_bytes =
     (case git [''cat-file'', ''blob'', commit @ '':'' @ path] of
        None \<Rightarrow> None
      | Some blob \<Rightarrow>
          if max_source_file_bytes < length blob then None
          else if max_source_total_bytes < total_bytes + length blob then None
          else map_option (\<lambda>ms. (path, blob) # ms) (read_members git commit paths (total_bytes + length blob)))"

definition bundle_manifest_json :: "foundation \<Rightarrow> bundle_manifest \<Rightarrow> json" where
  "bundle_manifest_json F m = JObject
     [(''schema'', JString (bm_schema m)), (''repository'', JString (bm_repository m)),
      (''source_revision'', JString (bm_source_revision m)), (''source_tree'', JString (bm_source_tree m)),
      (''view'', JString (bm_view m)), (''snapshot_format'', JNumber (ucast (bm_snapshot_format m))),
      (''snapshot_sha256'', JString (hex_sha256 F (bm_snapshot_digest m))),
      (''policy_sha256'', JString (hex_sha256 F (bm_policy_digest m))),
      (''source_files'', JArray (map (\<lambda>(path, d). JObject [(''path'', JString path), (''sha256'', JString (hex_sha256 F d))]) (bm_source_files m))),
      (''publisher_build'', JString (bm_publisher_build m)), (''published_at'', JString (bm_published_at m))]"

record publish_plan =
  pp_manifest :: bundle_manifest
  pp_members :: "(string \<times> string) list"
  pp_snapshot :: string
  pp_policy :: string

text \<open>Everything that happens before the first file is touched.\<close>

definition plan_bundle :: "foundation \<Rightarrow> publish_system \<Rightarrow> publish_request \<Rightarrow> bundle_error_kind + publish_plan" where
  "plan_bundle F sys r =
     (if \<not> request_complete r then Inl Be_MalformedManifest
      else
        case resolve_oid (sy_git sys) (pr_ref r @ ''^{commit}'') of
          None \<Rightarrow> Inl Be_SourceUnverifiable
        | Some commit \<Rightarrow>
            (case resolve_oid (sy_git sys) (commit @ ''^{tree}'') of
               None \<Rightarrow> Inl Be_SourceUnverifiable
             | Some tree \<Rightarrow>
                 (case sy_git sys [''ls-tree'', ''-r'', ''--name-only'', tree] of
                    None \<Rightarrow> Inl Be_SourceUnverifiable
                  | Some listing \<Rightarrow>
                      let selected = filter (\<lambda>p. p \<noteq> [] \<and> path_selected p (pr_source_paths r)) (pieces listing) in
                      if pr_policy_path r \<notin> set selected then Inl Be_MalformedManifest
                      else if max_source_files < length selected then Inl Be_SourceUnverifiable
                      else
                        case read_members (sy_git sys) commit selected 0 of
                          None \<Rightarrow> Inl Be_SourceUnverifiable
                        | Some members \<Rightarrow>
                            let policy = the (map_of members (pr_policy_path r)) in
                            (case parse_invocation_policy (sy_blank_rule sys) policy of
                               Inl _ \<Rightarrow> Inl Be_MalformedManifest
                             | Inr parsed \<Rightarrow>
                                 let snapshot = sy_serialize sys parsed in
                                 Inr \<lparr>pp_manifest =
                                       \<lparr>bm_schema = bundle_schema, bm_repository = pr_repository_url r,
                                        bm_source_revision = commit, bm_source_tree = tree, bm_view = pr_view r,
                                        bm_snapshot_format = 8, bm_snapshot_digest = bundle_digest_of F snapshot,
                                        bm_policy_digest = bundle_digest_of F policy, bm_publisher_build = pr_publisher_build r,
                                        bm_published_at = rfc3339_utc (sy_calendar sys) (pr_now_ms r),
                                        bm_source_files = map (\<lambda>(p, b). (p, bundle_digest_of F b)) members\<rparr>,
                                      pp_members = members, pp_snapshot = snapshot, pp_policy = policy\<rparr>))))"

fun stage_sources :: "(string list \<Rightarrow> string \<Rightarrow> string option) \<Rightarrow> (string \<times> string) list \<Rightarrow> (string list \<Rightarrow> string option) \<Rightarrow> string list \<Rightarrow> string option" where
  "stage_sources write [] source = source"
| "stage_sources write ((path, blob) # members) source =
     stage_sources write members (source(normal_parts path := write (''source'' # normal_parts path) blob))"

definition staged_files :: "publish_system \<Rightarrow> publish_plan \<Rightarrow> string \<Rightarrow> bundle_files" where
  "staged_files sys p text =
     \<lparr>bf_manifest = sy_write sys [''manifest.json''] text, bf_snapshot = sy_write sys [''snapshot.qvs''] (pp_snapshot p),
      bf_policy = sy_write sys [''policy.yaml''] (pp_policy p),
      bf_source = stage_sources (sy_write sys) (pp_members p) (\<lambda>_. None)\<rparr>"

record publish_result =
  pl_bundle_dir :: string
  pl_bundle_digest :: content_digest
  pl_manifest :: bundle_manifest

text \<open>\<^verbatim>\<open>publish\<close>; the outer \<open>None\<close> is an exception of the file system, which leaves the visible directory as it was.\<close>

definition publish_bundle ::
    "foundation \<Rightarrow> publish_system \<Rightarrow> publish_request \<Rightarrow> bundle_disk \<Rightarrow> (bundle_error_kind + publish_result) option \<times> bundle_disk" where
  "publish_bundle F sys r disk =
     (case plan_bundle F sys r of
        Inl e \<Rightarrow> (Some (Inl e), disk)
      | Inr p \<Rightarrow>
          if sy_throws sys then (None, disk)
          else
            let text = json_write (bundle_manifest_json F (pp_manifest p));
                digest = bundle_digest_of F text;
                name = hex_lower digest in
            if bk_bundles disk name = None \<and> \<not> sy_rename sys then (Some (Inl Be_SourceUnverifiable), disk)
            else
              let disk1 = (if bk_bundles disk name = None
                    then disk\<lparr>bk_bundles := (bk_bundles disk)(name \<mapsto> staged_files sys p text)\<rparr> else disk) in
              if \<not> sy_replace sys then (Some (Inl Be_SourceUnverifiable), disk1)
              else
                (Some (Inr \<lparr>pl_bundle_dir = name, pl_bundle_digest = digest, pl_manifest = pp_manifest p\<rparr>),
                 disk1\<lparr>bk_active := sy_write sys [''ACTIVE''] (name @ [CHR 0x0A])\<rparr>))"

section \<open>What a loaded bundle guarantees\<close>

lemma verify_sources_None:
  "verify_sources F outside f sources = None \<longleftrightarrow>
     (\<forall>(path, d) \<in> set sources. \<not> escapes_bundle path \<and> digest_of_file F (source_content outside f path) = d)"
  by (induction sources) (auto split: if_splits)

lemma read_capped_Inr: "read_capped cap c = Inr s \<longleftrightarrow> c = Some s \<and> length s \<le> cap"
  by (auto simp: read_capped_def split: option.splits if_splits)

lemma load_files_Inr:
  assumes "load_files F outside digest f = Inr v"
  obtains mt document where "bf_manifest f = Some mt" "bundle_digest_of F mt = digest" "json_parse mt = Inr document"
    "manifest_of_json document = Inr (vb_manifest v)" "verify_sources F outside f (bm_source_files (vb_manifest v)) = None"
    "bf_snapshot f = Some (vb_snapshot_bytes v)" "bundle_digest_of F (vb_snapshot_bytes v) = bm_snapshot_digest (vb_manifest v)"
    "bf_policy f = Some (vb_policy_bytes v)" "bundle_digest_of F (vb_policy_bytes v) = bm_policy_digest (vb_manifest v)"
    "vb_dir v = hex_lower digest"
  using assms unfolding load_files_def
  by (auto simp: read_capped_Inr split: sum.splits if_splits option.splits)

lemma read_source_files_Some:
  "read_source_files entries files = Some files' \<Longrightarrow> distinct (map fst files) \<Longrightarrow> \<forall>f \<in> set files. fst f \<noteq> [] \<Longrightarrow>
     distinct (map fst files') \<and> (\<forall>f \<in> set files'. fst f \<noteq> []) \<and> length files' = length files + length entries"
  by (induction entries files arbitrary: files' rule: read_source_files.induct)
     (auto simp: Let_def split: if_splits option.splits)

definition manifest_wf :: "bundle_manifest \<Rightarrow> bool" where
  "manifest_wf m \<longleftrightarrow>
     bm_schema m = bundle_schema \<and> bm_snapshot_format m = 8 \<and> [] \<notin> {bm_repository m, bm_source_revision m, bm_source_tree m,
       bm_view m, bm_publisher_build m, bm_published_at m} \<and>
     bm_source_files m \<noteq> [] \<and> distinct (map fst (bm_source_files m)) \<and> (\<forall>f \<in> set (bm_source_files m). fst f \<noteq> [])"

lemma manifest_of_json_wf:
  assumes "manifest_of_json document = Inr m" shows "manifest_wf m"
proof -
  obtain entries where "read_source_files entries [] = Some (bm_source_files m)" "bm_source_files m \<noteq> []"
    using assms by (auto simp: manifest_of_json_def Let_def split: if_splits option.splits json.splits)
  then have "distinct (map fst (bm_source_files m)) \<and> (\<forall>f \<in> set (bm_source_files m). fst f \<noteq> [])"
    using read_source_files_Some by fastforce
  then show ?thesis
    using assms by (auto simp: manifest_wf_def manifest_of_json_def Let_def split: if_splits option.splits json.splits)
qed

text \<open>The texts whose digests a load compares.\<close>

definition opened_text :: "(string \<Rightarrow> string option) \<Rightarrow> bundle_files \<Rightarrow> string \<Rightarrow> string" where
  "opened_text outside f path = (case source_content outside f path of None \<Rightarrow> [] | Some s \<Rightarrow> s)"

definition hashed_texts :: "(string \<Rightarrow> string option) \<Rightarrow> bundle_files \<Rightarrow> verified_bundle \<Rightarrow> string set" where
  "hashed_texts outside f v =
     {the (bf_manifest f), vb_snapshot_bytes v, vb_policy_bytes v} \<union> opened_text outside f ` fst ` set (bm_source_files (vb_manifest v))"

lemma load_files_sources:
  assumes "load_files F outside digest f = Inr v" "(path, d) \<in> set (bm_source_files (vb_manifest v))"
  shows "\<not> escapes_bundle path \<and> bundle_digest_of F (opened_text outside f path) = d"
  by (rule load_files_Inr [OF assms(1)]) (use assms(2) in \<open>auto simp: verify_sources_None digest_of_file_def opened_text_def\<close>)

lemma same_digest_same_text:
  assumes "inj_on (sha256 F) (text_bytes ` S)" "x \<in> S" "y \<in> S" "bundle_digest_of F x = bundle_digest_of F y"
  shows "x = y"
  using inj_onD [OF assms(1), of "text_bytes x" "text_bytes y"] assms(2-4) by (simp add: bundle_digest_of_def)


section \<open>What is published can be loaded\<close>

subsection \<open>Digests as text\<close>

lemma hex_nibble_digit: "n < 16 \<Longrightarrow> hex_nibble (hex_digits ! n) = Some n"
proof -
  have "\<forall>n \<in> {..<16}. hex_nibble (hex_digits ! n) = Some n"
    by (simp add: lessThan_nat_numeral lessThan_Suc hex_digits_def hex_nibble_def)
  then show "n < 16 \<Longrightarrow> hex_nibble (hex_digits ! n) = Some n" by blast
qed

lemma hex_bytes_lower: "hex_bytes (hex_lower bs) = Some bs"
proof (induction bs)
  case (Cons b bs)
  have "unat b < 256" using unsigned_less [of b, where ?'a = nat] by simp
  then have "hex_nibble (hex_digits ! (unat b div 16)) = Some (unat b div 16)" "hex_nibble (hex_digits ! (unat b mod 16)) = Some (unat b mod 16)"
    by (simp_all add: hex_nibble_digit less_mult_imp_div_less)
  moreover have "(of_nat (16 * (unat b div 16) + unat b mod 16) :: byte) = b" by simp
  ultimately show ?case using Cons by (simp add: hex_lower_def hex_byte_eq del: of_nat_add of_nat_mult)
qed (simp add: hex_lower_def)

lemma hex_lower_length: "length (hex_lower bs) = 2 * length bs"
  by (induction bs) (simp_all add: hex_lower_def hex_byte_def)

lemma digest_from_hex_lower: "length d = 32 \<Longrightarrow> digest_from_hex (hex_lower d) = Some d"
  by (simp add: digest_from_hex_def hex_lower_length hex_bytes_lower)

lemma hex_lower_chars: "set (hex_lower bs) \<subseteq> set hex_digits"
  using hex_of_digits [of bs] by (simp add: hex_lower_def hex_of_def)

lemma active_pointer:
  assumes "length d = 32"
  shows "active_digest (disk\<lparr>bk_active := Some (hex_lower d @ [CHR 0x0A])\<rparr>) = Inr d"
proof -
  have ne: "hex_lower d \<noteq> []" using hex_lower_length [of d] assms by auto
  have "last (hex_lower d) \<in> set hex_digits" using hex_lower_chars [of d] last_in_set [OF ne] by blast
  then have "last (hex_lower d) \<notin> {CHR 0x0A, CHR 0x0D, CHR '' ''}" by (auto simp: hex_digits_def)
  then have "dropWhile (\<lambda>c. c = CHR 0x0A \<or> c = CHR 0x0D \<or> c = CHR '' '') (rev (hex_lower d)) = rev (hex_lower d)"
    using ne by (cases "hex_lower d" rule: rev_cases) auto
  then show ?thesis
    using assms by (simp add: active_digest_def read_capped_def hex_lower_length digest_from_hex_lower)
qed

subsection \<open>Manifests as text\<close>

definition digests_sized :: "bundle_manifest \<Rightarrow> bool" where
  "digests_sized m \<longleftrightarrow> length (bm_snapshot_digest m) = 32 \<and> length (bm_policy_digest m) = 32 \<and>
     (\<forall>f \<in> set (bm_source_files m). length (snd f) = 32)"

text \<open>Digests are printed in lower-case hexadecimal.\<close>

locale printed_digests = digest_laws F for F :: foundation +
  assumes hex_sha256_lower: "hex_sha256 F d = hex_lower d"
begin

lemma bundle_digest_length [simp]: "length (bundle_digest_of F s) = 32"
  by (simp add: bundle_digest_of_def digest_length)

lemma read_entries:
  assumes "distinct (map fst (files @ fs))" "\<forall>f \<in> set fs. fst f \<noteq> [] \<and> length (snd f) = 32"
  shows "read_source_files (map (\<lambda>(path, d). JObject [(''path'', JString path), (''sha256'', JString (hex_sha256 F d))]) fs) files =
    Some (files @ fs)"
  using assms
proof (induction fs arbitrary: files)
  case (Cons f fs)
  obtain path d where f: "f = (path, d)" by force
  then show ?case
    using Cons.prems Cons.IH [of "files @ [f]"]
    by (simp add: string_or_def hex_sha256_lower digest_from_hex_lower)
qed simp

lemma manifest_read:
  assumes "manifest_wf m" "digests_sized m"
  shows "manifest_of_json (bundle_manifest_json F m) = Inr m"
proof -
  have files: "read_source_files (map (\<lambda>(path, d). JObject [(''path'', JString path), (''sha256'', JString (hex_sha256 F d))]) (bm_source_files m)) [] =
      Some (bm_source_files m)"
    by (subst read_entries) (use assms in \<open>auto simp: manifest_wf_def digests_sized_def\<close>)
  have hex: "digest_from_hex (hex_sha256 F (bm_snapshot_digest m)) = Some (bm_snapshot_digest m)"
    "digest_from_hex (hex_sha256 F (bm_policy_digest m)) = Some (bm_policy_digest m)"
    using assms(2) by (simp_all add: digests_sized_def hex_sha256_lower digest_from_hex_lower)
  show ?thesis
    using assms(1) files hex
    by (auto simp: manifest_of_json_def bundle_manifest_json_def string_or_def number_or_def manifest_wf_def Let_def)
qed

end

text \<open>Manifests whose text is valid and within the bound of the reader.\<close>

definition manifest_printable :: "foundation \<Rightarrow> bundle_manifest \<Rightarrow> bool" where
  "manifest_printable F m \<longleftrightarrow>
     list_all utf8_ok [bm_repository m, bm_source_revision m, bm_source_tree m, bm_view m, bm_publisher_build m, bm_published_at m] \<and>
     (\<forall>f \<in> set (bm_source_files m). utf8_ok (fst f)) \<and> length (json_write (bundle_manifest_json F m)) \<le> max_input_bytes"

lemma utf8_ok_hex: "utf8_ok (hex_lower bs)"
proof (rule utf8_ok_ascii)
  show "list_all (\<lambda>c. byte_of c < 128) (hex_lower bs)"
    using hex_lower_chars [of bs] by (auto simp: list_all_iff hex_digits_def)
qed

subsection \<open>Staged files\<close>

text \<open>The paths git can list for files that a bundle can carry.\<close>

definition plain_path :: "string \<Rightarrow> bool" where
  "plain_path p \<longleftrightarrow> p \<noteq> [] \<and> \<not> escapes_bundle p \<and> CHR 0x5C \<notin> set p \<and> (\<forall>c \<in> set (path_parts p). c \<noteq> [] \<and> c \<noteq> ''.'')"

fun join_parts :: "string list \<Rightarrow> string" where
  "join_parts [] = []"
| "join_parts [p] = p"
| "join_parts (p # ps) = p @ ''/'' @ join_parts ps"

lemma path_parts_nonempty: "path_parts s \<noteq> []"
  by (cases s) (auto split: list.split)

lemma join_path_parts: "CHR 0x5C \<notin> set s \<Longrightarrow> join_parts (path_parts s) = s"
proof (induction s)
  case (Cons c s)
  obtain p ps where ps: "path_parts s = p # ps" using path_parts_nonempty [of s] by (cases "path_parts s") auto
  then show ?case using Cons by (cases ps) auto
qed simp

lemma plain_normal: "plain_path p \<Longrightarrow> normal_parts p = path_parts p"
  by (auto simp: plain_path_def normal_parts_def filter_id_conv)

lemma plain_inj:
  assumes "plain_path p" "plain_path q" "normal_parts p = normal_parts q" shows "p = q"
proof -
  have "join_parts (path_parts p) = join_parts (path_parts q)" using assms by (simp only: plain_normal)
  then show ?thesis using assms(1,2) unfolding plain_path_def by (metis join_path_parts)
qed

lemma plain_content:
  assumes "plain_path p" shows "source_content outside f p = bf_source f (normal_parts p)"
proof -
  have "hd p \<noteq> CHR ''/''" using assms by (auto simp: plain_path_def escapes_bundle_def)
  moreover have "hd p \<noteq> CHR 0x5C" using assms unfolding plain_path_def by (metis hd_in_set)
  moreover have "last (path_parts p) \<notin> {[], ''.''}"
    using assms last_in_set [OF path_parts_nonempty, of p] by (auto simp: plain_path_def)
  ultimately show ?thesis by (simp add: source_content_def)
qed

lemma stage_sources_other:
  "key \<notin> (\<lambda>m. normal_parts (fst m)) ` set members \<Longrightarrow> stage_sources write members source key = source key"
  by (induction "write" members source rule: stage_sources.induct) auto

lemma stage_sources_member:
  assumes "distinct (map (\<lambda>m. normal_parts (fst m)) members)" "(p, b) \<in> set members" "\<And>path s. write path s = Some s"
  shows "stage_sources write members source (normal_parts p) = Some b"
  using assms
proof (induction "write" members source rule: stage_sources.induct)
  case (2 w path blob members src)
  show ?case
  proof (cases "(p, b) = (path, blob)")
    case True
    have "normal_parts path \<notin> (\<lambda>m. normal_parts (fst m)) ` set members" using "2.prems"(1) by auto
    then show ?thesis using True "2.prems"(3) by (simp add: stage_sources_other)
  next
    case False
    have "stage_sources w members (src(normal_parts path := w (''source'' # normal_parts path) blob)) (normal_parts p) = Some b"
      by (rule "2.IH") (use "2.prems" False in auto)
    then show ?thesis by simp
  qed
qed simp

text \<open>A plan that yields a bundle the reader accepts.\<close>

definition loadable :: "foundation \<Rightarrow> publish_plan \<Rightarrow> bool" where
  "loadable F p \<longleftrightarrow>
     manifest_wf (pp_manifest p) \<and> manifest_printable F (pp_manifest p) \<and> (\<forall>m \<in> set (pp_members p). plain_path (fst m)) \<and>
     length (pp_snapshot p) \<le> 16 * 1024 * 1024 \<and> length (pp_policy p) \<le> 1024 * 1024"

text \<open>The manifest of a plan states the digests of its parts.\<close>

definition plan_consistent :: "foundation \<Rightarrow> publish_plan \<Rightarrow> bool" where
  "plan_consistent F p \<longleftrightarrow>
     bm_snapshot_digest (pp_manifest p) = bundle_digest_of F (pp_snapshot p) \<and>
     bm_policy_digest (pp_manifest p) = bundle_digest_of F (pp_policy p) \<and>
     bm_source_files (pp_manifest p) = map (\<lambda>(path, b). (path, bundle_digest_of F b)) (pp_members p)"

lemma plan_bundle_consistent: "plan_bundle F sys r = Inr p \<Longrightarrow> plan_consistent F p"
  by (auto simp: plan_bundle_def plan_consistent_def Let_def split: if_splits option.splits sum.splits)

context printed_digests
begin

lemma manifest_parses:
  assumes "manifest_printable F m" "bm_schema m = bundle_schema"
  shows "json_parse (json_write (bundle_manifest_json F m)) = Inr (bundle_manifest_json F m)"
proof (rule parse_written)
  have "json_ok (JArray (map (\<lambda>(path, d). JObject [(''path'', JString path), (''sha256'', JString (hex_sha256 F d))]) (bm_source_files m))) 2"
    using assms(1)
    by (auto simp: json_ok_array json_ok_object members_ok_def manifest_printable_def max_depth_def hex_sha256_lower utf8_ok_hex utf8_ok_ascii
        simp del: json_ok.simps(5,6))
  then show "json_ok (bundle_manifest_json F m) 1"
    using assms unfolding bundle_manifest_json_def json_ok_object members_ok_def manifest_printable_def
    by (simp add: max_depth_def hex_sha256_lower utf8_ok_hex utf8_ok_ascii bundle_schema_def numeral_2_eq_2 del: json_ok.simps(5,6))
  show "length (json_write (bundle_manifest_json F m)) \<le> max_input_bytes" using assms(1) by (simp add: manifest_printable_def)
qed

lemma staged_load:
  assumes p: "plan_consistent F p" "loadable F p" and wr: "\<And>path s. sy_write sys path s = Some s"
    and mt: "mt = json_write (bundle_manifest_json F (pp_manifest p))"
  shows "load_files F outside (bundle_digest_of F mt) (staged_files sys p mt) =
    Inr \<lparr>vb_manifest = pp_manifest p, vb_dir = hex_lower (bundle_digest_of F mt), vb_snapshot_bytes = pp_snapshot p,
      vb_policy_bytes = pp_policy p\<rparr>"
proof -
  let ?m = "pp_manifest p" and ?f = "staged_files sys p mt"
  have parse: "json_parse mt = Inr (bundle_manifest_json F ?m)"
    unfolding mt by (rule manifest_parses) (use p(2) in \<open>simp_all add: loadable_def manifest_wf_def\<close>)
  have read: "manifest_of_json (bundle_manifest_json F ?m) = Inr ?m"
    by (rule manifest_read) (use p in \<open>auto simp: loadable_def plan_consistent_def digests_sized_def\<close>)
  have files: "bm_source_files ?m = map (\<lambda>(path, b). (path, bundle_digest_of F b)) (pp_members p)" using p(1) by (simp add: plan_consistent_def)
  have plain: "\<forall>m \<in> set (pp_members p). plain_path (fst m)" using p(2) by (simp add: loadable_def)
  have "distinct (map fst (pp_members p))" using p(2) files by (simp add: loadable_def manifest_wf_def comp_def case_prod_unfold)
  then have dist: "distinct (map (\<lambda>m. normal_parts (fst m)) (pp_members p))"
    using plain plain_inj by (auto simp: distinct_map inj_on_def)
  have "source_content outside ?f path = Some b" if "(path, b) \<in> set (pp_members p)" for path b
    using that plain stage_sources_member [OF dist that, of "sy_write sys"] wr by (force simp: plain_content staged_files_def)
  then have v: "verify_sources F outside ?f (bm_source_files ?m) = None"
    using plain by (force simp: verify_sources_None files digest_of_file_def plain_path_def)
  have len: "length mt \<le> 1024 * 1024" using p(2) unfolding mt by (simp add: loadable_def manifest_printable_def max_input_bytes_def)
  show ?thesis
    using parse read v len p wr
    by (simp add: load_files_def staged_files_def read_capped_def loadable_def plan_consistent_def)
qed

end

lemma publish_fresh:
  assumes "plan_bundle F sys r = Inr p" "\<not> sy_throws sys" "sy_rename sys" "sy_replace sys"
    "mt = json_write (bundle_manifest_json F (pp_manifest p))" "bk_bundles disk (hex_lower (bundle_digest_of F mt)) = None"
  shows "publish_bundle F sys r disk =
    (Some (Inr \<lparr>pl_bundle_dir = hex_lower (bundle_digest_of F mt), pl_bundle_digest = bundle_digest_of F mt, pl_manifest = pp_manifest p\<rparr>),
     disk\<lparr>bk_bundles := (bk_bundles disk)(hex_lower (bundle_digest_of F mt) \<mapsto> staged_files sys p mt),
       bk_active := sy_write sys [''ACTIVE''] (hex_lower (bundle_digest_of F mt) @ [CHR 0x0A])\<rparr>)"
  using assms by (simp add: publish_bundle_def Let_def)

lemma publish_staged:
  assumes "plan_bundle F sys r = Inr p" "\<not> sy_throws sys" "sy_rename sys" "sy_replace sys"
    "mt = json_write (bundle_manifest_json F (pp_manifest p))"
    "bk_bundles disk (hex_lower (bundle_digest_of F mt)) \<in> {None, Some (staged_files sys p mt)}"
  shows "publish_bundle F sys r disk =
    (Some (Inr \<lparr>pl_bundle_dir = hex_lower (bundle_digest_of F mt), pl_bundle_digest = bundle_digest_of F mt, pl_manifest = pp_manifest p\<rparr>),
     disk\<lparr>bk_bundles := (bk_bundles disk)(hex_lower (bundle_digest_of F mt) \<mapsto> staged_files sys p mt),
       bk_active := sy_write sys [''ACTIVE''] (hex_lower (bundle_digest_of F mt) @ [CHR 0x0A])\<rparr>)"
proof (cases "bk_bundles disk (hex_lower (bundle_digest_of F mt))")
  case None
  then show ?thesis by (rule publish_fresh [OF assms(1-5)])
next
  case (Some files)
  then have "bk_bundles disk (hex_lower (bundle_digest_of F mt)) = Some (staged_files sys p mt)" using assms(6) by simp
  moreover from this have "disk\<lparr>bk_bundles := (bk_bundles disk)(hex_lower (bundle_digest_of F mt) \<mapsto> staged_files sys p mt)\<rparr> = disk"
    by (simp add: map_upd_triv)
  ultimately show ?thesis using assms(1-5) by (simp add: publish_bundle_def Let_def map_upd_triv)
qed

context printed_digests
begin

lemma published_active:
  assumes "plan_bundle F sys r = Inr p" "loadable F p" "\<And>path s. sy_write sys path s = Some s"
    "mt = json_write (bundle_manifest_json F (pp_manifest p))"
  shows "load_active F outside (disk\<lparr>bk_bundles := (bk_bundles disk)(hex_lower (bundle_digest_of F mt) \<mapsto> staged_files sys p mt),
       bk_active := sy_write sys [''ACTIVE''] (hex_lower (bundle_digest_of F mt) @ [CHR 0x0A])\<rparr>) =
    Inr \<lparr>vb_manifest = pp_manifest p, vb_dir = hex_lower (bundle_digest_of F mt), vb_snapshot_bytes = pp_snapshot p,
      vb_policy_bytes = pp_policy p\<rparr>"
  using staged_load [OF plan_bundle_consistent [OF assms(1)] assms(2,3,4), of outside] assms(3)
  by (simp add: load_active_def active_pointer load_bundle_def files_of_def)

end

text \<open>C32: roundtrip: what is published can be loaded.  Let digests print as lower-case hexadecimal, let the commit yield a
  plan that is loadable (a well-formed manifest within the bounds of the reader, paths without colons, double dots,
  backslashes or empty parts), let the file system do what it is asked, and let no directory of the plan's digest be
  there yet, or only the one such a publication writes; a damaged one would be reused as it is.  Then publishing
  succeeds, makes the bundle ACTIVE, and the store loads it: the manifest, snapshot and policy are those of the
  plan, every source file verified.\<close>

theorem published_bundle_loads:
  assumes "printed_digests F" and "plan_bundle F sys r = Inr p" and "loadable F p"
    and "\<And>path s. sy_write sys path s = Some s" and "\<not> sy_throws sys" and "sy_rename sys" and "sy_replace sys"
    and "mt = json_write (bundle_manifest_json F (pp_manifest p))"
    and "bk_bundles disk (hex_lower (bundle_digest_of F mt)) \<in> {None, Some (staged_files sys p mt)}"
  shows "\<exists>disk'. publish_bundle F sys r disk =
      (Some (Inr \<lparr>pl_bundle_dir = hex_lower (bundle_digest_of F mt), pl_bundle_digest = bundle_digest_of F mt, pl_manifest = pp_manifest p\<rparr>), disk') \<and>
    bk_active disk' = Some (hex_lower (bundle_digest_of F mt) @ [CHR 0x0A]) \<and>
    load_active F outside disk' =
      Inr \<lparr>vb_manifest = pp_manifest p, vb_dir = hex_lower (bundle_digest_of F mt), vb_snapshot_bytes = pp_snapshot p,
        vb_policy_bytes = pp_policy p\<rparr>"
  using publish_staged [OF assms(2,5,6,7,8,9)] printed_digests.published_active [OF assms(1,2,3,4,8)] assms(4) by fastforce

text \<open>safety: published bundles are immutable and ACTIVE moves only on success.  Whatever git and the file system do,
  publishing leaves every bundle that was there exactly as it was, a damaged one included, and the ACTIVE file is
  touched only when the result is a success, whose digest it then names if the write went through.\<close>

theorem publish_preserves:
  assumes "publish_bundle F sys r disk = (result, disk')"
  shows "(\<forall>name files. bk_bundles disk name = Some files \<longrightarrow> bk_bundles disk' name = Some files) \<and>
    (case result of
       Some (Inr pl) \<Rightarrow> bk_active disk' = sy_write sys [''ACTIVE''] (hex_lower (pl_bundle_digest pl) @ [CHR 0x0A]) \<and>
         bk_bundles disk' (hex_lower (pl_bundle_digest pl)) \<noteq> None
     | _ \<Rightarrow> bk_active disk' = bk_active disk)"
  using assms by (auto simp: publish_bundle_def Let_def split: sum.splits if_splits)

text \<open>
  The publisher takes every path git lists; the store refuses those with a colon or two dots in a row.  A bundle with such
  a member is published, becomes ACTIVE and cannot be loaded.
\<close>

context printed_digests
begin

lemma escaping_unloadable:
  assumes p: "plan_bundle F sys r = Inr p" "manifest_wf (pp_manifest p)" "manifest_printable F (pp_manifest p)"
    and m: "(path, b) \<in> set (pp_members p)" "escapes_bundle path" and wr: "\<And>path s. sy_write sys path s = Some s"
    and mt: "mt = json_write (bundle_manifest_json F (pp_manifest p))"
  shows "load_files F outside (bundle_digest_of F mt) (staged_files sys p mt) \<noteq> Inr v"
proof
  assume l: "load_files F outside (bundle_digest_of F mt) (staged_files sys p mt) = Inr v"
  have c: "plan_consistent F p" by (rule plan_bundle_consistent [OF p(1)])
  have pa: "json_parse mt = Inr (bundle_manifest_json F (pp_manifest p))"
    unfolding mt by (rule manifest_parses) (use p in \<open>simp_all add: manifest_wf_def\<close>)
  have rd: "manifest_of_json (bundle_manifest_json F (pp_manifest p)) = Inr (pp_manifest p)"
    by (rule manifest_read) (use p c in \<open>auto simp: plan_consistent_def digests_sized_def\<close>)
  obtain mt' document where "bf_manifest (staged_files sys p mt) = Some mt'" "json_parse mt' = Inr document"
    "manifest_of_json document = Inr (vb_manifest v)" by (rule load_files_Inr [OF l])
  then have "vb_manifest v = pp_manifest p" using pa rd by (simp add: staged_files_def wr)
  then have "(path, bundle_digest_of F b) \<in> set (bm_source_files (vb_manifest v))"
    using c m(1) by (force simp: plan_consistent_def)
  from load_files_sources [OF l this] show False using m(2) by blast
qed

end

lemma escaping_path_published:
  assumes "printed_digests F" "plan_bundle F sys r = Inr p" "manifest_wf (pp_manifest p)" "manifest_printable F (pp_manifest p)"
    "(path, b) \<in> set (pp_members p)" "escapes_bundle path" "\<And>path s. sy_write sys path s = Some s"
    "\<not> sy_throws sys" "sy_rename sys" "sy_replace sys" "mt = json_write (bundle_manifest_json F (pp_manifest p))"
    "bk_bundles disk (hex_lower (bundle_digest_of F mt)) = None"
  shows "\<exists>pl disk'. publish_bundle F sys r disk = (Some (Inr pl), disk') \<and> (\<forall>v. load_active F outside disk' \<noteq> Inr v)"
proof -
  have "length (bundle_digest_of F mt) = 32" by (rule printed_digests.bundle_digest_length [OF assms(1)])
  then show ?thesis
    using publish_fresh [OF assms(2,8,9,10,11,12)] printed_digests.escaping_unloadable [OF assms(1-7,11), of outside] assms(7)
    by (simp add: load_active_def active_pointer load_bundle_def files_of_def)
qed

section \<open>A concrete publication\<close>

text \<open>A foundation that prints digests, a repository with one policy file, and a file system that works.\<close>

definition hex_foundation :: foundation where
  "hex_foundation = ref_foundation\<lparr>hex_sha256 := hex_lower\<rparr>"

interpretation hexed: printed_digests hex_foundation
  by unfold_locales (simp_all add: hex_foundation_def ref_foundation_def)

definition sample_policy_text :: string where
  "sample_policy_text = text_lines (policy_rows sample_invocation)"

definition sample_git :: "string list \<Rightarrow> string option" where
  "sample_git args =
     (if args = [''rev-parse'', ''main^{commit}''] then Some (replicate 40 CHR ''a'')
      else if args = [''rev-parse'', replicate 40 CHR ''a'' @ ''^{tree}''] then Some (replicate 40 CHR ''b'')
      else if args = [''ls-tree'', ''-r'', ''--name-only'', replicate 40 CHR ''b''] then Some (''p.yaml'' @ [CHR 0x0A])
      else if args = [''cat-file'', ''blob'', replicate 40 CHR ''a'' @ '':p.yaml''] then Some sample_policy_text
      else None)"

definition sample_system :: publish_system where
  "sample_system =
     \<lparr>sy_git = sample_git, sy_calendar = (\<lambda>_. [124, 0, 1, 0, 0, 0]), sy_write = (\<lambda>_. Some), sy_throws = False,
      sy_rename = True, sy_replace = True, sy_serialize = (\<lambda>_. ''QVS8''), sy_blank_rule = blank_rule\<rparr>"

definition sample_request :: publish_request where
  "sample_request =
     \<lparr>pr_repo_root = ''/r'', pr_ref = ''main'', pr_repository_url = ''https://h/r'', pr_view = ''production'',
      pr_policy_path = ''p.yaml'', pr_source_paths = [''p.yaml''], pr_publisher_build = ''b1'', pr_now_ms = 0,
      pr_git_executable = ''git''\<rparr>"

definition sample_plan :: publish_plan where
  "sample_plan =
     \<lparr>pp_manifest =
        \<lparr>bm_schema = bundle_schema, bm_repository = ''https://h/r'', bm_source_revision = replicate 40 CHR ''a'',
         bm_source_tree = replicate 40 CHR ''b'', bm_view = ''production'', bm_snapshot_format = 8,
         bm_snapshot_digest = bundle_digest_of hex_foundation ''QVS8'',
         bm_policy_digest = bundle_digest_of hex_foundation sample_policy_text, bm_publisher_build = ''b1'',
         bm_published_at = ''2024-01-01T00:00:00Z'',
         bm_source_files = [(''p.yaml'', bundle_digest_of hex_foundation sample_policy_text)]\<rparr>,
      pp_members = [(''p.yaml'', sample_policy_text)], pp_snapshot = ''QVS8'', pp_policy = sample_policy_text\<rparr>"

lemma sample_policy_short: "length sample_policy_text \<le> max_policy_bytes"
  using sample_writable by (simp add: sample_policy_text_def writable_def)

lemma sample_time: "rfc3339_utc (\<lambda>_. [124, 0, Suc 0, 0, 0, 0]) now = ''2024-01-01T00:00:00Z''"
  by (simp add: rfc3339_utc_def padded_def Let_def digits_of.simps [of 2024] digits_of.simps [of 202] digits_of.simps [of 20]
      digits_of.simps [of 2] digits_of.simps [of "Suc 0"] digits_of.simps [of 0] char_of_def bit_Suc_0_iff)

lemma sample_planned: "plan_bundle hex_foundation sample_system sample_request = Inr sample_plan"
proof -
  have parse: "parse_invocation_policy blank_rule sample_policy_text = Inr sample_invocation"
    unfolding sample_policy_text_def by (rule policy_reads_back) (simp_all add: blank_rule_def sample_writable)
  have oid: "resolve_oid sample_git ''main^{commit}'' = Some (replicate 40 CHR ''a'')"
    "resolve_oid sample_git (replicate 40 CHR ''a'' @ ''^{tree}'') = Some (replicate 40 CHR ''b'')"
    by (simp_all add: resolve_oid_def sample_git_def publisher_trim_def is_hex_oid_def hex_digits_def list_all_iff numeral_nat)
  have members: "read_members sample_git (replicate 40 CHR ''a'') [''p.yaml''] 0 = Some [(''p.yaml'', sample_policy_text)]"
    using sample_policy_short
    by (simp add: sample_git_def max_source_file_bytes_def max_source_total_bytes_def max_policy_bytes_def)
  have listing: "sample_git [''ls-tree'', ''-r'', ''--name-only'', replicate 40 CHR ''b''] = Some (''p.yaml'' @ [CHR 0x0A])"
    by (simp add: sample_git_def)
  have selected: "filter (\<lambda>p. p \<noteq> [] \<and> path_selected p [''p.yaml'']) (pieces (''p.yaml'' @ [CHR 0x0A])) = [''p.yaml'']"
    by (simp add: pieces.simps path_selected_def)
  show ?thesis
    using oid listing members selected parse
    by (simp add: plan_bundle_def sample_system_def sample_request_def request_complete_def max_source_files_def sample_time
        sample_plan_def Let_def)
qed

lemma escape_body_length: "length (escape_body s) \<le> 6 * length s + 1"
proof (induction s rule: length_induct)
  case (1 s)
  show ?case
  proof (cases s)
    case (Cons c cs)
    have t: "length (escape_body cs) \<le> 6 * length cs + 1" using 1 Cons by simp
    have d: "length (escape_body (drop n s)) \<le> 6 * length (drop n s) + 1" if "n \<noteq> 0" for n
    proof -
      have "length (drop n s) < length s" using that Cons by simp
      then show ?thesis using 1 by blast
    qed
    show ?thesis
    proof (cases "short_escape c = None \<and> \<not> is_control_byte c \<and> utf8_sequence_length s \<noteq> 0")
      case True
      then show ?thesis using d [of "utf8_sequence_length s"] Cons by (subst escape_body.simps) (simp add: Let_def)
    next
      case False
      then show ?thesis using t Cons by (subst escape_body.simps) (cases "short_escape c"; auto simp: Let_def hex4_def)
    qed
  qed (simp add: escape_body.simps)
qed

lemma sample_loadable: "loadable hex_foundation sample_plan"
proof -
  have h: "length (escape_body (hex_lower (bundle_digest_of hex_foundation s))) \<le> 385" for s
    using escape_body_length [of "hex_lower (bundle_digest_of hex_foundation s)"] by (simp add: hex_lower_length)
  have "list_all (\<lambda>s. length (escape_body s) \<le> 6 * length s + 1)
    [''schema'', ''qiven-cognition-bundle-v1'', ''repository'', ''https://h/r'', ''source_revision'', replicate 40 CHR ''a'',
     ''source_tree'', replicate 40 CHR ''b'', ''view'', ''production'', ''snapshot_format'', ''snapshot_sha256'', ''policy_sha256'',
     ''source_files'', ''path'', ''p.yaml'', ''sha256'', ''publisher_build'', ''b1'', ''published_at'', ''2024-01-01T00:00:00Z'']"
    by (simp only: list_all_iff escape_body_length simp_thms ball_triv)
  note k = this [unfolded list.pred_inject list.size length_replicate]
  have hex: "hex_sha256 hex_foundation = hex_lower" by (simp add: hex_foundation_def)
  have eight: "length (to_string_u64 8) = 1" by (simp add: to_string_u64_def digits_of.simps)
  have len: "length (json_write (bundle_manifest_json hex_foundation (pp_manifest sample_plan))) \<le> max_input_bytes"
    using h [of sample_policy_text] h [of "''QVS8''"] k
    by (simp add: hex sample_plan_def bundle_manifest_json_def json_write_def write_string_escaped_def max_input_bytes_def
        bundle_schema_def eight)
  show ?thesis
    using len sample_policy_short
    by (simp add: loadable_def manifest_wf_def manifest_printable_def sample_plan_def utf8_ok_ascii plain_path_def escapes_bundle_def
        max_policy_bytes_def bundle_schema_def list_all_iff has_text_def starts_with_def)
qed

theorem published_bundle_loads_witness:
  "\<exists>pl disk'. publish_bundle hex_foundation sample_system sample_request \<lparr>bk_bundles = Map.empty, bk_active = None\<rparr> = (Some (Inr pl), disk') \<and>
     pl_manifest pl = pp_manifest sample_plan \<and>
     load_active hex_foundation (\<lambda>_. None) disk' =
       Inr \<lparr>vb_manifest = pp_manifest sample_plan, vb_dir = hex_lower (pl_bundle_digest pl), vb_snapshot_bytes = ''QVS8'',
         vb_policy_bytes = sample_policy_text\<rparr>"
  using published_bundle_loads [OF hexed.printed_digests_axioms sample_planned sample_loadable _ _ _ _ refl,
      of "\<lparr>bk_bundles = Map.empty, bk_active = None\<rparr>" "\<lambda>_. None"]
  by (force simp: sample_system_def sample_plan_def)

definition crowded_disk :: bundle_disk where
  "crowded_disk = \<lparr>bk_bundles = [''x'' \<mapsto> no_files], bk_active = Some ''x''\<rparr>"

definition sample_manifest_text :: string where
  "sample_manifest_text = json_write (bundle_manifest_json hex_foundation (pp_manifest sample_plan))"

definition sample_digest :: content_digest where
  "sample_digest = bundle_digest_of hex_foundation sample_manifest_text"

lemma crowded_room: "bk_bundles crowded_disk (hex_lower sample_digest) = None"
proof -
  have "length (hex_lower sample_digest) = 64" by (simp add: sample_digest_def hex_lower_length)
  then have "hex_lower sample_digest \<noteq> ''x''" by auto
  then show ?thesis by (simp add: crowded_disk_def)
qed

lemma crowded_publish:
  "publish_bundle hex_foundation sample_system sample_request crowded_disk =
    (Some (Inr \<lparr>pl_bundle_dir = hex_lower sample_digest, pl_bundle_digest = sample_digest, pl_manifest = pp_manifest sample_plan\<rparr>),
     crowded_disk\<lparr>bk_bundles := (bk_bundles crowded_disk)(hex_lower sample_digest \<mapsto> staged_files sample_system sample_plan sample_manifest_text),
       bk_active := Some (hex_lower sample_digest @ [CHR 0x0A])\<rparr>)"
  using publish_fresh [OF sample_planned _ _ _ sample_manifest_text_def, of crowded_disk] crowded_room
  by (simp add: sample_digest_def sample_system_def)

theorem publish_preserves_witness:
  "\<exists>pl disk'. publish_bundle hex_foundation sample_system sample_request crowded_disk = (Some (Inr pl), disk') \<and>
     bk_bundles disk' ''x'' = Some no_files \<and> bk_active disk' = Some (hex_lower (pl_bundle_digest pl) @ [CHR 0x0A])"
  using publish_preserves [OF crowded_publish] crowded_publish by (fastforce simp: crowded_disk_def sample_system_def)

lemma sample_texts_distinct:
  "inj_on (sha256 hex_foundation) (text_bytes ` {sample_manifest_text, ''QVS8'', sample_policy_text})"
proof (rule inj_onI)
  obtain s t where starts: "sample_manifest_text = CHR ''{'' # s" "sample_policy_text = CHR ''s'' # t"
    by (simp add: sample_manifest_text_def json_write_def bundle_manifest_json_def sample_policy_text_def text_lines_def policy_rows_def)
  fix x y
  assume "x \<in> text_bytes ` {sample_manifest_text, ''QVS8'', sample_policy_text}" "y \<in> text_bytes ` {sample_manifest_text, ''QVS8'', sample_policy_text}"
    "sha256 hex_foundation x = sha256 hex_foundation y"
  then show "x = y"
    by (auto simp: starts hex_foundation_def ref_foundation_def text_bytes_def)
qed

lemma sample_load:
  "load_bundle hex_foundation outside
     \<lparr>bk_bundles = [hex_lower sample_digest \<mapsto> staged_files sample_system sample_plan sample_manifest_text], bk_active = None\<rparr> sample_digest =
   Inr \<lparr>vb_manifest = pp_manifest sample_plan, vb_dir = hex_lower sample_digest, vb_snapshot_bytes = ''QVS8'',
     vb_policy_bytes = sample_policy_text\<rparr>"
  using hexed.staged_load [OF plan_bundle_consistent [OF sample_planned] sample_loadable _ sample_manifest_text_def, of sample_system outside]
  by (simp add: load_bundle_def files_of_def sample_digest_def) (simp add: sample_system_def sample_plan_def)

lemma sample_hashed:
  "hashed_texts outside (staged_files sample_system sample_plan sample_manifest_text)
     \<lparr>vb_manifest = pp_manifest sample_plan, vb_dir = hex_lower sample_digest, vb_snapshot_bytes = ''QVS8'',
       vb_policy_bytes = sample_policy_text\<rparr> = {sample_manifest_text, ''QVS8'', sample_policy_text}"
  by (auto simp: hashed_texts_def staged_files_def sample_system_def sample_plan_def opened_text_def source_content_def normal_parts_def)


end
