(* ===== verification/Deployment_Profile.thy ===== *)
theory Deployment_Profile
  imports Invocation_Policy Scope
begin

text \<open>
  Accepted deployment profiles, \<^verbatim>\<open>host/deployment_profile.hpp/.cpp\<close> and \<^verbatim>\<open>port/deployment_profile.hpp\<close>: the bounded line
  parser, the checks on the whole file, the profile built from it, and \<^verbatim>\<open>FileProfileSource::accept\<close>.  The file is
  its content, \<open>None\<close> when it does not exist or does not open.  \<^verbatim>\<open>parse_u64\<close> and \<^verbatim>\<open>parse_bool\<close> are the functions of the
  invocation policy, written twice in the source.  Error details are left out.
\<close>

section \<open>The file\<close>

datatype profile_error_kind = Pe_Unavailable | Pe_Malformed | Pe_EvidenceMissing | Pe_ScopeAmbiguous | Pe_VersionMismatch

definition max_profile_bytes :: nat where "max_profile_bytes = 128 * 1024"

record profile_cognition =
  pg_repository :: string
  pg_authorized_ref :: string
  pg_policy_path :: string
  pg_policy_sha256 :: string
  pg_source_paths :: "string list"

record tool_row =
  tl_tool :: string
  tl_capability :: u64
  tl_extraction :: string
  tl_detector :: string

record profile_file =
  pf_profile_id :: string
  pf_revision :: u64
  pf_control_version :: u64
  pf_resolver_registry_revision :: u64
  pf_classifier_contract_revision :: u64
  pf_conformance_evidence :: string
  pf_freshness_window_ms :: u64
  pf_refresh_interval_ms :: u64
  pf_governed_paths :: "string list"
  pf_cognition :: profile_cognition
  pf_git_executable :: string
  pf_git_min_version :: u64
  pf_tool_inventory :: "tool_row list"
  pf_record_launcher :: string
  pf_built :: deployment_profile

definition new_tool_row :: tool_row where
  "new_tool_row = \<lparr>tl_tool = [], tl_capability = 0, tl_extraction = [], tl_detector = []\<rparr>"

definition new_profile_file :: profile_file where
  "new_profile_file =
     \<lparr>pf_profile_id = [], pf_revision = 0, pf_control_version = 0, pf_resolver_registry_revision = 0,
      pf_classifier_contract_revision = 0, pf_conformance_evidence = [], pf_freshness_window_ms = 0,
      pf_refresh_interval_ms = 900000, pf_governed_paths = [],
      pf_cognition = \<lparr>pg_repository = [], pg_authorized_ref = [], pg_policy_path = [], pg_policy_sha256 = [], pg_source_paths = []\<rparr>,
      pf_git_executable = [], pf_git_min_version = 0, pf_tool_inventory = [], pf_record_launcher = [],
      pf_built = empty_profile\<rparr>"

section \<open>Fields\<close>

definition parse_operation_class :: "string \<Rightarrow> operation_class option" where
  "parse_operation_class name = map_of
     [(''Observe'', Observe), (''FileSystemRead'', FileSystemRead), (''FileSystemWrite'', FileSystemWrite),
      (''ProcessLaunch'', ProcessLaunch), (''NetworkAccess'', NetworkAccess), (''ClaimChannel'', ClaimChannel)] name"

definition parse_mediation_kind :: "string \<Rightarrow> mediation_kind option" where
  "parse_mediation_kind name = map_of
     [(''ActionInterception'', ActionInterception), (''ClaimChannelOnly'', ClaimChannelOnly), (''Unmediated'', Unmediated)] name"

definition profile_field :: "string \<Rightarrow> (string \<times> string) option" where
  "profile_field line =
     (if CHR '':'' \<notin> set line then None
      else
        let key = takeWhile (\<lambda>c. c \<noteq> CHR '':'') line in
        Some (key, dropWhile (\<lambda>c. c = CHR '' '') (trim_back (drop (length key + 1) line))))"

definition git_version :: "string \<Rightarrow> u64 option" where
  "git_version v =
     (if CHR ''.'' \<notin> set v then map_option (push_bit 16) (invocation_u64 v)
      else
        case (invocation_u64 (takeWhile (\<lambda>c. c \<noteq> CHR ''.'') v), invocation_u64 (tl (dropWhile (\<lambda>c. c \<noteq> CHR ''.'') v))) of
          (Some major, Some minor) \<Rightarrow> Some (push_bit 16 major OR minor)
        | _ \<Rightarrow> None)"

datatype profile_section =
    Ps_None | Ps_GovernedPaths | Ps_Actors | Ps_Capabilities | Ps_Mediation | Ps_Claims | Ps_Cognition | Ps_CognitionSources
  | Ps_ToolInventory

record profile_state =
  ps_section :: profile_section
  ps_schema_seen :: bool
  ps_file :: profile_file
  ps_actors :: "actor_binding list"
  ps_capabilities :: "capability_descriptor list"
  ps_mediation :: "mediation_entry list"
  ps_tool_mediated :: bool
  ps_free_text :: bool

definition profile_start :: profile_state where
  "profile_start =
     \<lparr>ps_section = Ps_None, ps_schema_seen = False, ps_file = new_profile_file, ps_actors = [], ps_capabilities = [],
      ps_mediation = [], ps_tool_mediated = False, ps_free_text = False\<rparr>"

text \<open>A step yields \<open>None\<close> where the source clears its \<^verbatim>\<open>ok\<close> flag.\<close>

definition in_file :: "(profile_file \<Rightarrow> profile_file) \<Rightarrow> profile_state \<Rightarrow> profile_state" where
  "in_file f st = st\<lparr>ps_file := f (ps_file st)\<rparr>"

definition leave :: "profile_state \<Rightarrow> profile_state" where
  "leave st = st\<lparr>ps_section := Ps_None\<rparr>"

definition number_key :: "string \<Rightarrow> u64 \<Rightarrow> profile_file \<Rightarrow> profile_file option" where
  "number_key key v f =
     (if key = ''revision'' then Some (f\<lparr>pf_revision := v\<rparr>)
      else if key = ''control_version'' then Some (f\<lparr>pf_control_version := v\<rparr>)
      else if key = ''resolver_registry_revision'' then Some (f\<lparr>pf_resolver_registry_revision := v\<rparr>)
      else if key = ''classifier_contract_revision'' then Some (f\<lparr>pf_classifier_contract_revision := v\<rparr>)
      else if key = ''refresh_interval_ms'' then if 0 < v then Some (f\<lparr>pf_refresh_interval_ms := v\<rparr>) else None
      else if 0 < v then Some (f\<lparr>pf_freshness_window_ms := v\<rparr>) else None)"

definition number_keys :: "string list" where
  "number_keys = [''revision'', ''control_version'', ''resolver_registry_revision'', ''classifier_contract_revision'',
     ''freshness_window_ms'', ''refresh_interval_ms'']"

definition section_key :: "string \<Rightarrow> profile_section option" where
  "section_key key = map_of
     [(''governed_paths'', Ps_GovernedPaths), (''actors'', Ps_Actors), (''capabilities'', Ps_Capabilities),
      (''mediation'', Ps_Mediation), (''claims'', Ps_Claims), (''cognition'', Ps_Cognition), (''tool_inventory'', Ps_ToolInventory)] key"

definition profile_top :: "string \<Rightarrow> string \<Rightarrow> profile_state \<Rightarrow> profile_state option" where
  "profile_top key v st =
     (if key = ''schema'' then
        if v = ''qiven-deployment-profile-v1'' then Some (leave (st\<lparr>ps_schema_seen := True\<rparr>)) else None
      else if key = ''profile_id'' then
        if v = [] then None else Some (leave (in_file (\<lambda>f. f\<lparr>pf_profile_id := v\<rparr>) st))
      else if key \<in> set number_keys then
        (case invocation_u64 v of
           None \<Rightarrow> None
         | Some n \<Rightarrow> map_option (\<lambda>f. leave (st\<lparr>ps_file := f\<rparr>)) (number_key key n (ps_file st)))
      else if key = ''conformance_evidence'' then Some (leave (in_file (\<lambda>f. f\<lparr>pf_conformance_evidence := v\<rparr>) st))
      else if key = ''git_executable'' then Some (leave (in_file (\<lambda>f. f\<lparr>pf_git_executable := v\<rparr>) st))
      else if key = ''git_min_version'' then
        map_option (\<lambda>n. leave (in_file (\<lambda>f. f\<lparr>pf_git_min_version := n\<rparr>) st)) (git_version v)
      else if key = ''record_launcher'' then Some (leave (in_file (\<lambda>f. f\<lparr>pf_record_launcher := v\<rparr>) st))
      else
        case section_key key of
          None \<Rightarrow> None
        | Some s \<Rightarrow> if v = [] then Some (st\<lparr>ps_section := s\<rparr>) else None)"

definition plain_row :: "bool \<Rightarrow> string \<Rightarrow> bool" where
  "plain_row is_list body \<longleftrightarrow> is_list \<and> body \<noteq> [] \<and> CHR '' '' \<notin> set body"

definition actor_field :: "string \<Rightarrow> string \<Rightarrow> actor_binding \<Rightarrow> actor_binding option" where
  "actor_field key v a =
     (case invocation_u64 v of
        None \<Rightarrow> None
      | Some n \<Rightarrow>
          if key = ''adapter'' then Some (a\<lparr>ab_adapter := n\<rparr>)
          else if key = ''session_token'' then Some (a\<lparr>ab_session := n\<rparr>)
          else if key = ''credential_token'' then Some (a\<lparr>ab_credential := n\<rparr>)
          else None)"

definition capability_field :: "string \<Rightarrow> string \<Rightarrow> capability_descriptor \<Rightarrow> capability_descriptor option" where
  "capability_field key v c =
     (if key = ''id'' then map_option (\<lambda>n. c\<lparr>cap_id := n\<rparr>) (invocation_u64 v)
      else if key = ''adapter'' then map_option (\<lambda>n. c\<lparr>cap_adapter := n\<rparr>) (invocation_u64 v)
      else if key = ''operation_class'' then map_option (\<lambda>k. c\<lparr>cap_class := k\<rparr>) (parse_operation_class v)
      else if key = ''can_mutate_world'' then map_option (\<lambda>b. c\<lparr>can_mutate_world := b\<rparr>) (parse_bool v)
      else if key = ''can_publish_claims'' then map_option (\<lambda>b. c\<lparr>can_publish_claims := b\<rparr>) (parse_bool v)
      else if key = ''requires_execution_authority'' then map_option (\<lambda>b. c\<lparr>requires_execution_authority := b\<rparr>) (parse_bool v)
      else None)"

definition mediation_field :: "string \<Rightarrow> string \<Rightarrow> mediation_entry \<Rightarrow> mediation_entry option" where
  "mediation_field key v e =
     (if key = ''capability'' then map_option (\<lambda>n. e\<lparr>me_capability := n\<rparr>) (invocation_u64 v)
      else if key = ''kind'' then map_option (\<lambda>k. e\<lparr>me_kind := k\<rparr>) (parse_mediation_kind v)
      else None)"

definition tool_field :: "string \<Rightarrow> string \<Rightarrow> tool_row \<Rightarrow> tool_row option" where
  "tool_field key v t =
     (if key = ''tool'' then if v = [] then None else Some (t\<lparr>tl_tool := v\<rparr>)
      else if key = ''capability'' then map_option (\<lambda>n. t\<lparr>tl_capability := n\<rparr>) (invocation_u64 v)
      else if key = ''extraction'' then
        if v = ''command'' \<or> v = ''file_path'' then Some (t\<lparr>tl_extraction := v\<rparr>) else None
      else if key = ''detector'' then
        if v = ''exact_path'' \<or> v = ''conservative_text_reference'' then Some (t\<lparr>tl_detector := v\<rparr>) else None
      else None)"

definition claims_field :: "string \<Rightarrow> string \<Rightarrow> profile_state \<Rightarrow> profile_state option" where
  "claims_field key v st =
     (case parse_bool v of
        None \<Rightarrow> None
      | Some b \<Rightarrow>
          if key = ''tool_mediated'' then Some (st\<lparr>ps_tool_mediated := b\<rparr>)
          else if key = ''free_text'' then Some (st\<lparr>ps_free_text := b\<rparr>)
          else None)"

definition cognition_field :: "string \<Rightarrow> string \<Rightarrow> profile_state \<Rightarrow> profile_state option" where
  "cognition_field key v st =
     (let set_to = (\<lambda>g. Some (in_file (\<lambda>f. f\<lparr>pf_cognition := g (pf_cognition f)\<rparr>) st)) in
      if key = ''source_paths'' then if v = [] then Some (st\<lparr>ps_section := Ps_CognitionSources\<rparr>) else None
      else if v = [] then None
      else if key = ''repository'' then set_to (\<lambda>g. g\<lparr>pg_repository := v\<rparr>)
      else if key = ''authorized_ref'' then set_to (\<lambda>g. g\<lparr>pg_authorized_ref := v\<rparr>)
      else if key = ''policy_path'' then set_to (\<lambda>g. g\<lparr>pg_policy_path := v\<rparr>)
      else if key = ''policy_sha256'' then set_to (\<lambda>g. g\<lparr>pg_policy_sha256 := v\<rparr>)
      else None)"

definition new_actor :: actor_binding where
  "new_actor = \<lparr>ab_adapter = 0, ab_session = 0, ab_credential = 0\<rparr>"

definition new_mediation :: mediation_entry where
  "new_mediation = \<lparr>me_capability = 0, me_kind = Unmediated\<rparr>"

text \<open>A list row opens an entry before its field is read; every section but the two path lists needs a field.\<close>

definition profile_row :: "bool \<Rightarrow> string \<Rightarrow> profile_state \<Rightarrow> profile_state option" where
  "profile_row is_list body st =
     (case ps_section st of
        Ps_GovernedPaths \<Rightarrow>
          if plain_row is_list body then Some (in_file (\<lambda>f. f\<lparr>pf_governed_paths := pf_governed_paths f @ [body]\<rparr>) st) else None
      | Ps_Actors \<Rightarrow>
          (case profile_field body of
             None \<Rightarrow> None
           | Some (key, v) \<Rightarrow> map_option (\<lambda>es. st\<lparr>ps_actors := es\<rparr>) (entry_line is_list new_actor (actor_field key v) (ps_actors st)))
      | Ps_Capabilities \<Rightarrow>
          (case profile_field body of
             None \<Rightarrow> None
           | Some (key, v) \<Rightarrow>
               map_option (\<lambda>es. st\<lparr>ps_capabilities := es\<rparr>)
                 (entry_line is_list default_capability (capability_field key v) (ps_capabilities st)))
      | Ps_Mediation \<Rightarrow>
          (case profile_field body of
             None \<Rightarrow> None
           | Some (key, v) \<Rightarrow>
               map_option (\<lambda>es. st\<lparr>ps_mediation := es\<rparr>) (entry_line is_list new_mediation (mediation_field key v) (ps_mediation st)))
      | Ps_Claims \<Rightarrow>
          (case profile_field body of None \<Rightarrow> None | Some (key, v) \<Rightarrow> if is_list then None else claims_field key v st)
      | Ps_Cognition \<Rightarrow>
          (case profile_field body of None \<Rightarrow> None | Some (key, v) \<Rightarrow> if is_list then None else cognition_field key v st)
      | Ps_CognitionSources \<Rightarrow>
          if plain_row is_list body \<and> CHR '':'' \<notin> set body
          then Some (in_file (\<lambda>f. f\<lparr>pf_cognition := (pf_cognition f)\<lparr>pg_source_paths := pg_source_paths (pf_cognition f) @ [body]\<rparr>\<rparr>) st)
          else None
      | Ps_ToolInventory \<Rightarrow>
          (case profile_field body of
             None \<Rightarrow> None
           | Some (key, v) \<Rightarrow>
               map_option (\<lambda>es. in_file (\<lambda>f. f\<lparr>pf_tool_inventory := es\<rparr>) st)
                 (entry_line is_list new_tool_row (tool_field key v) (pf_tool_inventory (ps_file st))))
      | Ps_None \<Rightarrow> None)"

definition profile_line :: "string \<Rightarrow> profile_state \<Rightarrow> profile_state option" where
  "profile_line raw st =
     (let line = rev (dropWhile (\<lambda>c. c = CHR 0x0D) (rev raw)) in
      if CHR 0x09 \<in> set line then None
      else if line = [] \<or> hd line = CHR ''#'' then Some st
      else if hd line \<noteq> CHR '' '' then
        (case profile_field line of None \<Rightarrow> None | Some (key, v) \<Rightarrow> profile_top key v st)
      else
        let indent = length (takeWhile (\<lambda>c. c = CHR '' '') line);
            body = drop indent line;
            is_list = starts_with body ''- '' in
        if 6 < indent then None
        else profile_row is_list (if is_list then drop 2 body else body) st)"

fun profile_lines :: "string list \<Rightarrow> profile_state \<Rightarrow> profile_state option" where
  "profile_lines [] st = Some st"
| "profile_lines (l # ls) st = (case profile_line l st of None \<Rightarrow> None | Some st' \<Rightarrow> profile_lines ls st')"

section \<open>The checks on the whole file\<close>

definition path_ambiguous :: "string \<Rightarrow> bool" where
  "path_ambiguous p \<longleftrightarrow> CHR ''*'' \<in> set p \<or> has_text p ''..'' \<or> p = [] \<or> hd p = CHR ''/''"

definition cognition_missing :: "profile_cognition \<Rightarrow> bool" where
  "cognition_missing g \<longleftrightarrow>
     pg_repository g = [] \<or> pg_authorized_ref g = [] \<or> pg_policy_path g = [] \<or> pg_policy_sha256 g = [] \<or> pg_source_paths g = []"

definition tool_row_ok :: "capability_descriptor list \<Rightarrow> mediation_entry list \<Rightarrow> tool_row \<Rightarrow> bool" where
  "tool_row_ok capabilities mediation t \<longleftrightarrow>
     (case (find (\<lambda>e. me_capability e = tl_capability t) mediation, find (\<lambda>c. cap_id c = tl_capability t) capabilities) of
        (Some e, Some c) \<Rightarrow> me_kind e = ActionInterception \<and> cap_class c = FileSystemWrite
      | _ \<Rightarrow> False)"

definition profile_of_state :: "profile_state \<Rightarrow> deployment_profile" where
  "profile_of_state st =
     (let f = ps_file st; r = pf_revision f in
      (set_conformance_evidence (pf_conformance_evidence f) \<circ> set_control_version (pf_control_version f) \<circ>
       set_claims (ps_tool_mediated st) (ps_free_text st) \<circ> set_mediation_inventory r (ps_mediation st) \<circ>
       set_capability_universe r (ps_capabilities st) \<circ> set_actor_set r (ps_actors st) \<circ> set_revision r \<circ>
       set_name (pf_profile_id f)) empty_profile)"

definition check_profile :: "profile_state \<Rightarrow> profile_error_kind + profile_file" where
  "check_profile st =
     (let f = ps_file st in
      if \<not> ps_schema_seen st then Inl Pe_Malformed
      else if pf_profile_id f = [] \<or> pf_revision f = 0 \<or> pf_control_version f = 0 then Inl Pe_Malformed
      else if pf_refresh_interval_ms f \<noteq> 0 \<and> pf_freshness_window_ms f \<noteq> 0 \<and>
        pf_freshness_window_ms f \<le> pf_refresh_interval_ms f + 5000 then Inl Pe_Malformed
      else if pf_conformance_evidence f = [] then Inl Pe_EvidenceMissing
      else if pf_governed_paths f = [] then Inl Pe_ScopeAmbiguous
      else if list_ex path_ambiguous (pf_governed_paths f) then Inl Pe_ScopeAmbiguous
      else if cognition_missing (pf_cognition f) then Inl Pe_Malformed
      else if length (pg_policy_sha256 (pf_cognition f)) \<noteq> 64 then Inl Pe_Malformed
      else if \<exists>e \<in> set (ps_mediation st). \<not> (\<exists>c \<in> set (ps_capabilities st). cap_id c = me_capability e) then Inl Pe_Malformed
      else if \<exists>c \<in> set (ps_capabilities st). \<not> (\<exists>e \<in> set (ps_mediation st). me_capability e = cap_id c) then Inl Pe_Malformed
      else if \<exists>t \<in> set (pf_tool_inventory f). \<not> tool_row_ok (ps_capabilities st) (ps_mediation st) t then Inl Pe_Malformed
      else
        case scope_build (pf_governed_paths f) of
          Inl _ \<Rightarrow> Inl Pe_ScopeAmbiguous
        | Inr _ \<Rightarrow>
            (case profile_build (profile_of_state st) of
               Inl _ \<Rightarrow> Inl Pe_Malformed
             | Inr p \<Rightarrow>
                 Inr (f\<lparr>pf_built := p\<lparr>dp_resolver_registry_revision := pf_resolver_registry_revision f,
                   dp_classifier_contract_revision := pf_classifier_contract_revision f\<rparr>\<rparr>)))"

definition load_profile_file :: "string option \<Rightarrow> profile_error_kind + profile_file" where
  "load_profile_file content =
     (case content of
        None \<Rightarrow> Inl Pe_Unavailable
      | Some bs \<Rightarrow>
          if max_profile_bytes < length bs then Inl Pe_Malformed
          else
            case profile_lines (pieces bs) profile_start of
              None \<Rightarrow> Inl Pe_Malformed
            | Some st \<Rightarrow> check_profile st)"

section \<open>Acceptance\<close>

record accept_request =
  aq_profile_id :: string
  aq_expected_revision :: u64
  aq_governed_scope :: resource_scope
  aq_conformance_evidence :: string

definition profile_accept :: "string option \<Rightarrow> accept_request \<Rightarrow> profile_error_kind + deployment_profile" where
  "profile_accept content r =
     (case load_profile_file content of
        Inl e \<Rightarrow> Inl e
      | Inr f \<Rightarrow>
          if pf_profile_id f \<noteq> aq_profile_id r then Inl Pe_Malformed
          else if aq_expected_revision r \<noteq> 0 \<and> pf_revision f \<noteq> aq_expected_revision r then Inl Pe_VersionMismatch
          else if aq_conformance_evidence r = [] \<or> aq_conformance_evidence r \<noteq> pf_conformance_evidence f then Inl Pe_EvidenceMissing
          else if aq_governed_scope r = [] then Inl Pe_ScopeAmbiguous
          else
            (case scope_build (pf_governed_paths f) of
               Inl _ \<Rightarrow> Inl Pe_ScopeAmbiguous
             | Inr s \<Rightarrow> if aq_governed_scope r \<noteq> s then Inl Pe_ScopeAmbiguous else Inr (pf_built f)))"

section \<open>What an accepted profile satisfies\<close>

text \<open>The shape of a tool row that the parser can produce.\<close>

definition tool_row_shape :: "tool_row \<Rightarrow> bool" where
  "tool_row_shape t \<longleftrightarrow> tl_extraction t \<in> {[], ''command'', ''file_path''} \<and>
     tl_detector t \<in> {[], ''exact_path'', ''conservative_text_reference''}"

lemma tool_field_shape: "tool_field key v t = Some t' \<Longrightarrow> tool_row_shape t \<Longrightarrow> tool_row_shape t'"
  by (auto simp: tool_field_def tool_row_shape_def split: if_splits)

definition tools_shaped :: "profile_state \<Rightarrow> bool" where
  "tools_shaped st \<longleftrightarrow> (\<forall>t \<in> set (pf_tool_inventory (ps_file st)). tool_row_shape t)"

lemma entry_line_all:
  assumes "entry_line is_list blank f es = Some es'" "\<forall>e \<in> set es. P e" "P blank" "\<And>e e'. f e = Some e' \<Longrightarrow> P e \<Longrightarrow> P e'"
  shows "\<forall>e \<in> set es'. P e"
proof -
  let ?es = "if is_list then es @ [blank] else es"
  obtain e where e: "es' = butlast ?es @ [e]" "f (last ?es) = Some e" "?es \<noteq> []" using assms(1) by (rule entry_line_Some)
  have all: "\<forall>x \<in> set ?es. P x" using assms(2,3) by auto
  then have "P e" using assms(4) [OF e(2)] last_in_set [OF e(3)] by blast
  then show ?thesis using all e(1) in_set_butlastD [of _ ?es] by auto
qed

lemma number_key_tools: "number_key key n f = Some f' \<Longrightarrow> pf_tool_inventory f' = pf_tool_inventory f"
  by (auto simp: number_key_def split: if_splits)

lemma profile_top_tools: "profile_top key v st = Some st' \<Longrightarrow> pf_tool_inventory (ps_file st') = pf_tool_inventory (ps_file st)"
  by (auto simp: profile_top_def leave_def in_file_def number_key_tools split: if_splits option.splits)

lemma claims_field_tools: "claims_field key v st = Some st' \<Longrightarrow> pf_tool_inventory (ps_file st') = pf_tool_inventory (ps_file st)"
  by (auto simp: claims_field_def split: option.splits if_splits)

lemma cognition_field_tools: "cognition_field key v st = Some st' \<Longrightarrow> pf_tool_inventory (ps_file st') = pf_tool_inventory (ps_file st)"
  by (auto simp: cognition_field_def in_file_def Let_def split: if_splits)

lemma profile_row_tools:
  assumes "profile_row is_list body st = Some st'" "ps_section st \<noteq> Ps_ToolInventory"
  shows "pf_tool_inventory (ps_file st') = pf_tool_inventory (ps_file st)"
proof (cases "ps_section st")
  case Ps_Claims
  then show ?thesis using assms(1) by (auto simp: profile_row_def split: option.splits if_splits dest: claims_field_tools)
next
  case Ps_Cognition
  then show ?thesis using assms(1) by (auto simp: profile_row_def split: option.splits if_splits dest: cognition_field_tools)
qed (use assms in \<open>simp_all add: profile_row_def split: option.splits if_splits\<close>, auto simp: in_file_def)

lemma profile_row_shaped: "profile_row is_list body st = Some st' \<Longrightarrow> tools_shaped st \<Longrightarrow> tools_shaped st'"
proof -
  assume r: "profile_row is_list body st = Some st'" and s: "tools_shaped st"
  show ?thesis
  proof (cases "ps_section st = Ps_ToolInventory")
    case True
    obtain key v es where e: "entry_line is_list new_tool_row (tool_field key v) (pf_tool_inventory (ps_file st)) = Some es"
      "st' = in_file (\<lambda>f. f\<lparr>pf_tool_inventory := es\<rparr>) st"
      using r by (simp add: True profile_row_def split: option.splits prod.splits) blast
    have "\<forall>t \<in> set es. tool_row_shape t"
    proof (rule entry_line_all [OF e(1)])
      show "\<forall>t \<in> set (pf_tool_inventory (ps_file st)). tool_row_shape t" using s by (simp add: tools_shaped_def)
      show "tool_row_shape new_tool_row" by (simp add: tool_row_shape_def new_tool_row_def)
    qed (rule tool_field_shape)
    then show ?thesis using e(2) by (simp add: tools_shaped_def in_file_def)
  next
    case False
    from profile_row_tools [OF r this] show ?thesis using s by (simp add: tools_shaped_def)
  qed
qed

lemma profile_line_shaped: "profile_line raw st = Some st' \<Longrightarrow> tools_shaped st \<Longrightarrow> tools_shaped st'"
  by (auto simp: profile_line_def Let_def profile_row_shaped tools_shaped_def profile_top_tools split: if_splits option.splits
      dest: profile_row_shaped)

lemma profile_lines_shaped: "profile_lines ls st = Some st' \<Longrightarrow> tools_shaped st \<Longrightarrow> tools_shaped st'"
  by (induction ls arbitrary: st) (auto split: option.splits dest: profile_line_shaped)

definition profile_file_wf :: "profile_file \<Rightarrow> bool" where
  "profile_file_wf f \<longleftrightarrow>
     profile_ok (pf_built f) \<and> dp_name (pf_built f) = pf_profile_id f \<and> dp_revision (pf_built f) = pf_revision f \<and>
     dp_conformance_evidence (pf_built f) = pf_conformance_evidence f \<and> pf_control_version f \<noteq> 0 \<and>
     me_capability ` set (dp_mediation (pf_built f)) = cap_id ` set (dp_capabilities (pf_built f)) \<and>
     pf_governed_paths f \<noteq> [] \<and> (\<forall>p \<in> set (pf_governed_paths f). \<not> path_ambiguous p) \<and>
     (\<exists>s. scope_build (pf_governed_paths f) = Inr s) \<and>
     (\<forall>t \<in> set (pf_tool_inventory f). tool_row_shape t \<and>
        tool_row_ok (dp_capabilities (pf_built f)) (dp_mediation (pf_built f)) t)"

lemma check_profile_wf:
  assumes "check_profile st = Inr f" "tools_shaped st"
  shows "profile_file_wf f"
proof -
  obtain p s where p: "profile_build (profile_of_state st) = Inr p" "scope_build (pf_governed_paths (ps_file st)) = Inr s"
    and f: "f = (ps_file st)\<lparr>pf_built := p\<lparr>dp_resolver_registry_revision := pf_resolver_registry_revision (ps_file st),
      dp_classifier_contract_revision := pf_classifier_contract_revision (ps_file st)\<rparr>\<rparr>"
    and c: "pf_control_version (ps_file st) \<noteq> 0" "pf_governed_paths (ps_file st) \<noteq> []"
      "\<forall>q \<in> set (pf_governed_paths (ps_file st)). \<not> path_ambiguous q"
      "\<forall>e \<in> set (ps_mediation st). \<exists>c \<in> set (ps_capabilities st). cap_id c = me_capability e"
      "\<forall>c \<in> set (ps_capabilities st). \<exists>e \<in> set (ps_mediation st). me_capability e = cap_id c"
      "\<forall>t \<in> set (pf_tool_inventory (ps_file st)). tool_row_ok (ps_capabilities st) (ps_mediation st) t"
    using assms(1) by (auto simp: check_profile_def Let_def list_ex_iff split: if_splits sum.splits)
  have b: "p = profile_of_state st" "profile_ok (profile_of_state st)"
    using p(1) profile_build_iff by auto
  have same: "me_capability ` set (ps_mediation st) = cap_id ` set (ps_capabilities st)"
    using c(4,5) by (metis (no_types, lifting) image_cong image_eqI image_subsetI subset_antisym)
  show ?thesis
    using assms(2) b c(1-3,6) same p(2)
    by (simp add: f profile_file_wf_def profile_ok_def profile_of_state_def tools_shaped_def Let_def set_name_def set_revision_def set_actor_set_def
        set_capability_universe_def set_mediation_inventory_def set_claims_def set_control_version_def set_conformance_evidence_def)
qed

lemma loaded_profile_wf: "load_profile_file content = Inr f \<Longrightarrow> profile_file_wf f"
proof -
  assume "load_profile_file content = Inr f"
  then obtain bs st where "profile_lines (pieces bs) profile_start = Some st" "check_profile st = Inr f"
    by (auto simp: load_profile_file_def split: option.splits if_splits)
  moreover have "tools_shaped profile_start" by (simp add: tools_shaped_def profile_start_def new_profile_file_def)
  ultimately show ?thesis by (blast intro: check_profile_wf profile_lines_shaped)
qed

text \<open>C33: type: an accepted profile is explicit.  Accepting one means that the file parsed and is well formed (a name, a
  revision, cited evidence, distinct actors and capabilities, a mediation entry for exactly the declared
  capabilities, a non-empty scope without globs, and tool rows that name an intercepted file-system-write
  capability), and that the caller's identity, revision, evidence and normalised scope are those of the file.\<close>

theorem accepted_profile_sound:
  assumes "profile_accept content r = Inr p"
  shows "\<exists>f. load_profile_file content = Inr f \<and> profile_file_wf f \<and> p = pf_built f \<and> dp_name p = aq_profile_id r \<and>
    aq_expected_revision r \<in> {0, dp_revision p} \<and> dp_conformance_evidence p = aq_conformance_evidence r \<and>
    scope_build (pf_governed_paths f) = Inr (aq_governed_scope r)"
proof -
  obtain f where f: "load_profile_file content = Inr f" using assms by (auto simp: profile_accept_def split: sum.splits)
  have "profile_file_wf f" by (rule loaded_profile_wf [OF f])
  then show ?thesis
    using assms f by (auto simp: profile_accept_def profile_file_wf_def split: if_splits sum.splits)
qed

definition sample_profile_lines :: "string list" where
  "sample_profile_lines =
     [''schema: qiven-deployment-profile-v1'', ''profile_id: p'', ''revision: 3'', ''control_version: 1'',
      ''conformance_evidence: run-7'', ''freshness_window_ms: 100000'', ''refresh_interval_ms: 50000'',
      ''governed_paths:'', ''  - state/current.md'', ''  - ledger/'',
      ''actors:'', ''  - adapter: 9'', ''    session_token: 1'',
      ''capabilities:'', ''  - id: 5'', ''    operation_class: FileSystemWrite'',
      ''mediation:'', ''  - capability: 5'', ''    kind: ActionInterception'',
      ''cognition:'', ''  repository: u'', ''  authorized_ref: main'', ''  policy_path: p.yaml'',
      ''  policy_sha256: '' @ replicate 64 CHR ''0'', ''  source_paths:'', ''  - p.yaml'',
      ''tool_inventory:'', ''  - tool: Bash'', ''    capability: 5'', ''    extraction: command'',
      ''  - tool: Write'', ''    capability: 5'', ''    extraction: file_path'',
      ''  - tool: Odd'', ''    capability: 5'']"

definition sample_profile :: profile_file where
  "sample_profile =
     new_profile_file\<lparr>pf_profile_id := ''p'', pf_revision := 3, pf_control_version := 1, pf_conformance_evidence := ''run-7'',
       pf_freshness_window_ms := 100000, pf_refresh_interval_ms := 50000, pf_governed_paths := [''state/current.md'', ''ledger/''],
       pf_cognition := \<lparr>pg_repository = ''u'', pg_authorized_ref = ''main'', pg_policy_path = ''p.yaml'',
         pg_policy_sha256 = replicate 64 CHR ''0'', pg_source_paths = [''p.yaml'']\<rparr>,
       pf_tool_inventory := [\<lparr>tl_tool = ''Bash'', tl_capability = 5, tl_extraction = ''command'', tl_detector = []\<rparr>,
         \<lparr>tl_tool = ''Write'', tl_capability = 5, tl_extraction = ''file_path'', tl_detector = []\<rparr>,
         \<lparr>tl_tool = ''Odd'', tl_capability = 5, tl_extraction = [], tl_detector = []\<rparr>],
       pf_built := empty_profile\<lparr>dp_name := ''p'', dp_revision := 3, dp_actors_revision := 3,
         dp_actors := [\<lparr>ab_adapter = 9, ab_session = 1, ab_credential = 0\<rparr>], dp_capabilities_revision := 3,
         dp_capabilities := [default_capability\<lparr>cap_id := 5, cap_class := FileSystemWrite\<rparr>], dp_mediation_revision := 3,
         dp_mediation := [\<lparr>me_capability = 5, me_kind = ActionInterception\<rparr>], dp_control_version := 1,
         dp_conformance_evidence := ''run-7''\<rparr>\<rparr>"

lemma sample_lines_read:
  "profile_lines sample_profile_lines profile_start =
     Some \<lparr>ps_section = Ps_ToolInventory, ps_schema_seen = True, ps_file = sample_profile\<lparr>pf_built := empty_profile\<rparr>,
       ps_actors = [\<lparr>ab_adapter = 9, ab_session = 1, ab_credential = 0\<rparr>],
       ps_capabilities = [default_capability\<lparr>cap_id := 5, cap_class := FileSystemWrite\<rparr>],
       ps_mediation = [\<lparr>me_capability = 5, me_kind = ActionInterception\<rparr>], ps_tool_mediated = False, ps_free_text = False\<rparr>"
  by (simp add: sample_profile_lines_def profile_line_def profile_field_def Let_def trim_back_def profile_top_def
      leave_def in_file_def number_keys_def number_key_def invocation_u64_def is_digit_def decimal_def section_key_def starts_with_def
      profile_row_def plain_row_def entry_line_def actor_field_def capability_field_def mediation_field_def tool_field_def cognition_field_def
      parse_operation_class_def parse_mediation_kind_def new_actor_def new_mediation_def new_tool_row_def sample_profile_def
      profile_start_def new_profile_file_def default_capability_def)

lemma profile_lines_append:
  "profile_lines (ls @ ls') st = (case profile_lines ls st of None \<Rightarrow> None | Some st' \<Rightarrow> profile_lines ls' st')"
  by (induction ls arbitrary: st) (auto split: option.split)

lemma profile_text_lines:
  assumes "list_all (\<lambda>l. CHR 0x0A \<notin> set l) ls"
  shows "profile_lines (pieces (text_lines ls)) st = profile_lines ls st"
  using pieces_text_lines [OF assms] by (simp add: profile_lines_append profile_line_def split: option.split)

lemma sample_scope: "scope_build [''state/current.md'', ''ledger/''] = Inr [''ledger'', ''state/current.md'']"
  by (simp add: scope_build_def normalize_path_def forward_slashes_def strip_trailing.simps components_ok.simps Let_def less_char_def)

lemma sample_loaded: "load_profile_file (Some (text_lines sample_profile_lines)) = Inr sample_profile"
proof -
  have nl: "list_all (\<lambda>l. CHR 0x0A \<notin> set l) sample_profile_lines" by (simp add: sample_profile_lines_def)
  have len: "length (text_lines sample_profile_lines) \<le> max_profile_bytes"
    by (simp add: sample_profile_lines_def text_lines_def max_profile_bytes_def)
  show ?thesis
    using len sample_scope
    by (simp add: load_profile_file_def profile_text_lines [OF nl] sample_lines_read check_profile_def sample_profile_def new_profile_file_def
        path_ambiguous_def has_text_def starts_with_def cognition_missing_def tool_row_ok_def profile_of_state_def profile_build_def same_actor_def
        set_name_def set_revision_def set_actor_set_def set_capability_universe_def set_mediation_inventory_def set_claims_def
        set_control_version_def set_conformance_evidence_def default_capability_def empty_profile_def Let_def)
qed

theorem accepted_profile_sound_witness:
  "\<exists>p. profile_accept (Some (text_lines sample_profile_lines))
      \<lparr>aq_profile_id = ''p'', aq_expected_revision = 3, aq_governed_scope = [''ledger'', ''state/current.md''],
       aq_conformance_evidence = ''run-7''\<rparr> = Inr p \<and> dp_name p = ''p''"
proof -
  let ?r = "\<lparr>aq_profile_id = ''p'', aq_expected_revision = 3, aq_governed_scope = [''ledger'', ''state/current.md''],
    aq_conformance_evidence = ''run-7''\<rparr>"
  have a: "profile_accept (Some (text_lines sample_profile_lines)) ?r = Inr (pf_built sample_profile)"
    by (simp add: profile_accept_def sample_loaded) (simp add: sample_profile_def sample_scope)
  show ?thesis using accepted_profile_sound [OF a] a by auto
qed

text \<open>A tool row without an extraction is accepted: the field is checked only when it is present.\<close>

lemma row_without_extraction:
  "\<exists>content f t. load_profile_file content = Inr f \<and> t \<in> set (pf_tool_inventory f) \<and> tl_extraction t = []"
proof (intro exI conjI)
  show "load_profile_file (Some (text_lines sample_profile_lines)) = Inr sample_profile" by (rule sample_loaded)
  show "new_tool_row\<lparr>tl_tool := ''Odd'', tl_capability := 5\<rparr> \<in> set (pf_tool_inventory sample_profile)"
    by (simp add: sample_profile_def new_tool_row_def)
qed (simp add: new_tool_row_def)

end
