(* ===== verification/Hook_Judgment.thy ===== *)
theory Hook_Judgment
  imports Deployment_Profile Task_Descriptor Protocol
begin

text \<open>
  The judgment of \<^verbatim>\<open>RuntimeHost::handle_pre_tool\<close> (\<^verbatim>\<open>host/runtime_host.cpp\<close>): the text comparisons without case, the
  lexical form of a path, and whether the target of a tool call lies in the governed scope of the accepted
  profile.  Theorems: a target that the scope covers is judged governed in every spelling that the normal form
  preserves; the lemmas at the end show spellings that are not.
\<close>

section \<open>Comparisons without case\<close>

definition lower :: "string \<Rightarrow> string" where
  "lower s = map to_lower s"

definition contains_ci :: "string \<Rightarrow> string \<Rightarrow> bool" where
  "contains_ci haystack needle \<longleftrightarrow>
     needle \<noteq> [] \<and> length needle \<le> length haystack \<and> has_text (lower haystack) (lower needle)"

definition starts_with_ci :: "string \<Rightarrow> string \<Rightarrow> bool" where
  "starts_with_ci haystack needle \<longleftrightarrow>
     length needle \<le> length haystack \<and> take (length needle) (lower haystack) = lower needle"

definition ends_with_ci :: "string \<Rightarrow> string \<Rightarrow> bool" where
  "ends_with_ci haystack needle \<longleftrightarrow>
     length needle \<le> length haystack \<and> drop (length haystack - length needle) (lower haystack) = lower needle"

definition equals_ci :: "string \<Rightarrow> string \<Rightarrow> bool" where
  "equals_ci haystack needle \<longleftrightarrow> length haystack = length needle \<and> contains_ci haystack needle"

text \<open>Backslashes become slashes and trailing slashes go.\<close>

definition normalize_hook_path :: "string \<Rightarrow> string" where
  "normalize_hook_path raw = strip_trailing (forward_slashes raw)"

section \<open>The judgment\<close>

definition path_governed :: "string \<Rightarrow> string \<Rightarrow> string \<Rightarrow> bool" where
  "path_governed root target path \<longleftrightarrow>
     equals_ci target path \<or> starts_with_ci target (path @ ''/'') \<or>
     (starts_with_ci target (root @ ''/'') \<and> ends_with_ci target (''/'' @ path)) \<or>
     starts_with target (''/'' @ path @ ''/'') \<or> contains_ci target (path @ ''/'')"

text \<open>The outcomes: no target, no profile, or whether the action is governed and why.\<close>

datatype hook_judgment = Jm_NoTarget string | Jm_NoProfile | Jm_Judged bool string

definition judge_file :: "profile_error_kind + profile_file \<Rightarrow> string \<Rightarrow> string \<Rightarrow> hook_judgment" where
  "judge_file profile repo_root file_path =
     (let target = normalize_hook_path file_path in
      if has_text target ''..'' then Jm_Judged True (''traversal form rejected: '' @ file_path)
      else
        case profile of
          Inl _ \<Rightarrow> Jm_NoProfile
        | Inr f \<Rightarrow>
            (case find (path_governed (normalize_hook_path repo_root) target) (pf_governed_paths f) of
               None \<Rightarrow> Jm_Judged False []
             | Some path \<Rightarrow> Jm_Judged True (''write target is inside the governed scope: '' @ path)))"

definition judge_command :: "profile_error_kind + profile_file \<Rightarrow> string \<Rightarrow> string \<Rightarrow> hook_judgment" where
  "judge_command profile repo_root cmd =
     (case profile of
        Inl _ \<Rightarrow> Jm_Judged False []
      | Inr f \<Rightarrow>
          (case find (contains_ci cmd) (pf_governed_paths f) of
             Some path \<Rightarrow> Jm_Judged True (''command references governed scope '' @ [CHR 0x27] @ path @ [CHR 0x27] @
               '' (conservative detector: over-approximates to deny)'')
           | None \<Rightarrow>
               if contains_ci cmd (normalize_hook_path repo_root)
               then Jm_Judged True ''command references the governed checkout root (conservative detector)''
               else Jm_Judged False []))"

definition judge :: "profile_error_kind + profile_file \<Rightarrow> string \<Rightarrow> string \<Rightarrow> request \<Rightarrow> hook_judgment" where
  "judge profile repo_root extraction r =
     (if extraction = ''file_path'' then
        if pq_file_path r = [] then Jm_NoTarget ''file_path'' else judge_file profile repo_root (pq_file_path r)
      else if extraction = ''command'' then
        if pq_command r = [] then Jm_NoTarget ''command'' else judge_command profile repo_root (pq_command r)
      else Jm_Judged False [])"

section \<open>Governed targets are found\<close>

lemma lower_length [simp]: "length (lower s) = length s"
  by (simp add: lower_def)

lemma lower_append [simp]: "lower (a @ b) = lower a @ lower b"
  by (simp add: lower_def)

lemma has_text_whole: "has_text s s"
  unfolding has_text_iff by (metis append_Nil append_Nil2)

lemma equals_ci_refl: "s \<noteq> [] \<Longrightarrow> equals_ci s s"
  by (simp add: equals_ci_def contains_ci_def has_text_whole)

lemma equals_ci_iff: "lower s = lower t \<Longrightarrow> t \<noteq> [] \<Longrightarrow> equals_ci s t"
  by (metis contains_ci_def equals_ci_def has_text_whole le_refl lower_length)

lemma slash_lower [simp]: "to_lower (CHR ''/'') = CHR ''/''"
  by (simp add: to_lower_def is_upper_def)

lemma lower_slash [simp]: "lower (CHR ''/'' # s) = CHR ''/'' # lower s" "lower [] = []"
  by (simp_all add: lower_def)

lemma contained_ci:
  assumes "lower T = a @ lower n @ b" "n \<noteq> []" shows "contains_ci T n"
proof -
  have "length T = length a + length n + length b" using arg_cong [OF assms(1), of length] by simp
  then show ?thesis using assms unfolding contains_ci_def has_text_iff by auto
qed

lemma prefix_ci: "lower T = lower n @ b \<Longrightarrow> starts_with_ci T n"
  unfolding starts_with_ci_def by (metis append_eq_conv_conj le_add1 length_append lower_length)

lemma suffix_ci: "lower T = a @ lower n \<Longrightarrow> ends_with_ci T n"
  unfolding ends_with_ci_def
  by (metis add_diff_cancel_right' append_eq_conv_conj le_add2 length_append lower_length)

lemma path_contains_cases:
  assumes "path_contains q t" obtains "t = q" | r where "t = q @ ''/'' @ r"
proof (cases "q = t")
  case False
  then have l: "length q < length t" "take (length q) t = q" "t ! length q = CHR ''/''"
    using assms by (auto simp: path_contains_def split: if_splits)
  have "t = take (length q) t @ t ! length q # drop (Suc (length q)) t" using l(1) by (rule id_take_nth_drop)
  then show ?thesis using that(2) [of "drop (Suc (length q)) t"] l(2,3) by simp
qed (use that in auto)

lemma covered_spelling_governed:
  assumes "path_contains q t" "q \<noteq> []" "lower T = lower t \<or> lower T = lower (root @ ''/'' @ t)"
  shows "path_governed root T q"
  using assms(1)
proof (cases rule: path_contains_cases)
  case 1
  show ?thesis
  proof (cases "lower T = lower t")
    case True
    then show ?thesis using 1 assms(2) equals_ci_iff by (simp add: path_governed_def)
  next
    case False
    then have T: "lower T = lower root @ lower (''/'' @ q)" using 1 assms(3) by simp
    have "starts_with_ci T (root @ ''/'')" by (rule prefix_ci [of _ _ "lower q"]) (simp add: T)
    moreover have "ends_with_ci T (''/'' @ q)" by (rule suffix_ci) (rule T)
    ultimately show ?thesis by (simp add: path_governed_def)
  qed
next
  case (2 r)
  then have "\<exists>a. lower T = a @ lower (q @ ''/'') @ lower r"
    using assms(3) by (elim disjE) (rule exI [of _ "[]"], simp, rule exI [of _ "lower (root @ ''/'')"], simp)
  then have "contains_ci T (q @ ''/'')" using contained_ci by blast
  then show ?thesis by (simp add: path_governed_def)
qed

lemma normalize_all_same: "normalize_all ps = Some qs \<Longrightarrow> \<forall>p \<in> set ps. normalize_path p = Some p \<Longrightarrow> qs = ps"
  by (induction ps arbitrary: qs) (auto split: option.splits)

lemma scope_of_normal:
  assumes "scope_build ps = Inr s" "\<forall>p \<in> set ps. normalize_path p = Some p"
  shows "set s = set ps"
  using assms by (auto simp: scope_build_def Let_def split: option.splits if_splits dest: normalize_all_same)

text \<open>C25: safety: a target in the governed scope is judged governed.  Let the governed paths of the accepted profile be
  written in normal form.  Then every file path whose lexical form is, up to case, a path that the scope covers,
  relative or below the root of the checkout, is judged governed.\<close>

theorem governed_target_found:
  assumes "scope_build (pf_governed_paths f) = Inr s" and "\<forall>p \<in> set (pf_governed_paths f). normalize_path p = Some p"
    and "scope_covers s t = Covered"
    and "lower (normalize_hook_path file_path) = lower (forward_slashes t) \<or>
      lower (normalize_hook_path file_path) = lower (normalize_hook_path repo_root @ ''/'' @ forward_slashes t)"
  shows "\<exists>why. judge_file (Inr f) repo_root file_path = Jm_Judged True why"
proof (cases "has_text (normalize_hook_path file_path) ''..''")
  case False
  obtain q where q: "q \<in> set (pf_governed_paths f)" "path_contains q (forward_slashes t)"
    using assms(3) scope_of_normal [OF assms(1,2)] by (auto simp: scope_covers_def split: if_splits)
  have "q \<noteq> []" using q(1) assms(2) by (auto simp: normalize_path_def)
  then have "path_governed (normalize_hook_path repo_root) (normalize_hook_path file_path) q"
    using covered_spelling_governed [OF q(2)] assms(4) by blast
  then have "find (path_governed (normalize_hook_path repo_root) (normalize_hook_path file_path)) (pf_governed_paths f) \<noteq> None"
    using q(1) by (auto simp: find_None_iff)
  then show ?thesis using False by (auto simp: judge_file_def Let_def)
qed (simp add: judge_file_def)

definition normal_profile :: profile_file where
  "normal_profile = sample_profile\<lparr>pf_governed_paths := [''state/current.md'', ''ledger'']\<rparr>"

lemma normal_scope: "scope_build [''state/current.md'', ''ledger''] = Inr [''ledger'', ''state/current.md'']"
  "normalize_path ''state/current.md'' = Some ''state/current.md''" "normalize_path ''ledger'' = Some ''ledger''"
  by (simp_all add: scope_build_def normalize_path_def forward_slashes_def strip_trailing.simps components_ok.simps Let_def less_char_def)

theorem governed_target_found_witness:
  "\<exists>why. judge_file (Inr normal_profile) ''c:/repo'' (''C:'' @ [CHR 0x5C] @ ''Repo'' @ [CHR 0x5C] @ ''LEDGER'' @ [CHR 0x5C] @ ''a.md'') = Jm_Judged True why"
proof (rule governed_target_found)
  show "scope_build (pf_governed_paths normal_profile) = Inr [''ledger'', ''state/current.md'']"
    by (simp add: normal_profile_def normal_scope)
  show "scope_covers [''ledger'', ''state/current.md''] ''ledger/a.md'' = Covered"
    by (simp add: scope_covers_def path_contains_def forward_slashes_def)
qed (simp_all add: normal_profile_def normal_scope normalize_hook_path_def forward_slashes_def strip_trailing.simps lower_def
    to_lower_def is_upper_def char_of_def bit_Suc_0_iff)

section \<open>Spellings that are missed\<close>

text \<open>
  The lexical form keeps doubled separators and dot components, a command is searched as it is written, a governed
  path with a trailing slash matches nothing below it, and a tool without an extraction is never governed.
\<close>

lemma doubled_separator_missed: "judge_file (Inr sample_profile) ''c:/repo'' ''state//current.md'' = Jm_Judged False []"
  by (simp add: judge_file_def sample_profile_def normalize_hook_path_def forward_slashes_def strip_trailing.simps has_text_def starts_with_def
      path_governed_def equals_ci_def contains_ci_def starts_with_ci_def ends_with_ci_def lower_def to_lower_def is_upper_def Let_def)

lemma trailing_slash_missed:
  "scope_build (pf_governed_paths sample_profile) = Inr [''ledger'', ''state/current.md''] \<and>
   scope_covers [''ledger'', ''state/current.md''] ''ledger/a.md'' = Covered \<and>
   judge_file (Inr sample_profile) ''c:/repo'' ''ledger/a.md'' = Jm_Judged False []"
proof (intro conjI)
  show "scope_build (pf_governed_paths sample_profile) = Inr [''ledger'', ''state/current.md'']"
    by (simp add: sample_profile_def sample_scope)
  show "scope_covers [''ledger'', ''state/current.md''] ''ledger/a.md'' = Covered"
    by (simp add: scope_covers_def path_contains_def forward_slashes_def)
  show "judge_file (Inr sample_profile) ''c:/repo'' ''ledger/a.md'' = Jm_Judged False []"
    by (simp add: judge_file_def sample_profile_def normalize_hook_path_def forward_slashes_def strip_trailing.simps has_text_def starts_with_def
      path_governed_def equals_ci_def contains_ci_def starts_with_ci_def ends_with_ci_def lower_def to_lower_def is_upper_def Let_def)
qed

lemma backslash_command_missed:
  "judge_command (Inr normal_profile) (''C:'' @ [CHR 0x5C] @ ''repo'') (''echo x > C:'' @ [CHR 0x5C] @ ''repo'' @ [CHR 0x5C] @ ''state'' @ [CHR 0x5C] @ ''current.md'') =
     Jm_Judged False []"
  by (simp add: judge_command_def normal_profile_def normalize_hook_path_def forward_slashes_def strip_trailing.simps has_text_def
      contains_ci_def lower_def to_lower_def is_upper_def char_of_def)

lemma no_extraction_missed: "judge profile root [] r = Jm_Judged False []"
  by (simp add: judge_def)

end
