(* ===== verification/Zcode_Event.thy ===== *)
theory Zcode_Event
  imports Cognition_Bundle
begin

text \<open>
  The fields a hook reads from the payload of a harness event, \<^verbatim>\<open>adapter/zcode_event.hpp/.cpp\<close>: a scan that skips what it
  does not need.  A position in the text is the rest of the text; a scan that fails leaves the position where it
  stopped, because one caller goes on from there.  The flags that record which identity fields were present are
  never read.  The theorem compares the scan with the strict parser of the machine files.
\<close>

section \<open>Strings\<close>

text \<open>The four digits after the escape letter, and where the scan stands after them.\<close>

definition scan_unicode :: "string \<Rightarrow> string option \<times> string" where
  "scan_unicode s =
     (if length s < 4 then (None, s)
      else case hex_code 0 (take 4 s) of
             None \<Rightarrow> (None, s)
           | Some cp \<Rightarrow>
               if 0xD800 \<le> cp \<and> cp \<le> 0xDFFF then (None, drop 4 s)
               else (Some (append_utf8 cp), drop 4 s))"

lemma scan_unicode_length: "length (snd (scan_unicode s)) \<le> length s"
  by (auto simp: scan_unicode_def split: option.split)

function scan_body :: "string \<Rightarrow> string \<Rightarrow> string option \<times> string" where
  "scan_body out s =
     (case s of [] \<Rightarrow> (None, [])
      | c # cs \<Rightarrow>
          if c = quote then (Some out, cs)
          else if byte_of c < 0x20 then (None, s)
          else if c = backslash then
            (case cs of [] \<Rightarrow> (None, s)
             | e # es \<Rightarrow>
                 case simple_escape e of
                   Some d \<Rightarrow> scan_body (out @ [d]) es
                 | None \<Rightarrow>
                     if e = CHR ''u'' then
                       (case fst (scan_unicode es) of
                          None \<Rightarrow> (None, snd (scan_unicode es))
                        | Some t \<Rightarrow> scan_body (out @ t) (snd (scan_unicode es)))
                     else (None, es))
          else scan_body (out @ [c]) cs)"
  by pat_completeness auto
termination scan_body
  by (relation "measure (\<lambda>(out, s). length s)") (auto intro: le_less_trans [OF scan_unicode_length])

declare scan_body.simps [simp del]

definition scan_string :: "string \<Rightarrow> string option \<times> string" where
  "scan_string s = (case s of [] \<Rightarrow> (None, s) | c # cs \<Rightarrow> if c = quote then scan_body [] cs else (None, s))"

section \<open>Values that are skipped\<close>

definition max_hook_payload_bytes :: nat where "max_hook_payload_bytes = 1024 * 1024"

definition max_hook_payload_depth :: nat where "max_hook_payload_depth = 16"

definition number_char :: "char \<Rightarrow> bool" where
  "number_char c \<longleftrightarrow> is_digit c \<or> c = CHR ''-'' \<or> c = CHR ''+'' \<or> c = CHR ''.'' \<or> c = CHR ''e'' \<or> c = CHR ''E''"

definition skip_literal :: "string \<Rightarrow> string \<Rightarrow> string option" where
  "skip_literal word s = (if take (length word) s = word then Some (drop (length word) s) else None)"

definition skip_scalar :: "string \<Rightarrow> string option" where
  "skip_scalar s =
     (case s of [] \<Rightarrow> None
      | c # cs \<Rightarrow>
          if c = quote then (case scan_string s of (None, _) \<Rightarrow> None | (Some _, r) \<Rightarrow> Some r)
          else if c = CHR ''t'' then skip_literal ''true'' s
          else if c = CHR ''f'' then skip_literal ''false'' s
          else if c = CHR ''n'' then skip_literal ''null'' s
          else if c = CHR ''-'' \<or> c = CHR ''+'' \<or> is_digit c then Some (dropWhile number_char s)
          else None)"

text \<open>A key and its colon; the rest starts at the value.\<close>

definition member_key_at :: "string \<Rightarrow> (string \<times> string) option" where
  "member_key_at s =
     (case scan_string s of
        (None, _) \<Rightarrow> None
      | (Some key, s1) \<Rightarrow>
          (case consume_char (CHR '':'') (skip_ws s1) of None \<Rightarrow> None | Some s2 \<Rightarrow> Some (key, skip_ws s2)))"

definition after_comma :: "string \<Rightarrow> string" where
  "after_comma s = (case consume_char (CHR '','') (skip_ws s) of Some r \<Rightarrow> r | None \<Rightarrow> skip_ws s)"

text \<open>\<^verbatim>\<open>skip_value\<close>, with its loop over the entries of an object or array as \<open>skip_entries\<close>.\<close>

function (domintros) skip_value :: "nat \<Rightarrow> string \<Rightarrow> string option"
  and skip_entries :: "bool \<Rightarrow> nat \<Rightarrow> string \<Rightarrow> string option" where
  "skip_value depth s =
     (case s of [] \<Rightarrow> None
      | c # cs \<Rightarrow>
          if max_hook_payload_depth < depth then None
          else if c = CHR ''{'' then skip_entries True (depth + 1) cs
          else if c = CHR ''['' then skip_entries False (depth + 1) cs
          else skip_scalar s)"
| "skip_entries in_object depth s =
     (case skip_ws s of [] \<Rightarrow> None
      | c # cs \<Rightarrow>
          if c = (if in_object then CHR ''}'' else CHR '']'') then Some cs
          else
            (case (if in_object then map_option snd (member_key_at (c # cs)) else Some (c # cs)) of
               None \<Rightarrow> None
             | Some v \<Rightarrow>
                 (case skip_value depth v of
                    None \<Rightarrow> None
                  | Some r \<Rightarrow> skip_entries in_object depth (after_comma r))))"
  by pat_completeness auto

text \<open>The steps of the scan of a string.\<close>

lemma scan_body_steps:
  "scan_body out [] = (None, [])" "scan_body out (quote # cs) = (Some out, cs)"
  "c \<noteq> quote \<Longrightarrow> byte_of c < 0x20 \<Longrightarrow> scan_body out (c # cs) = (None, c # cs)"
  "c \<noteq> quote \<Longrightarrow> c \<noteq> backslash \<Longrightarrow> \<not> byte_of c < 0x20 \<Longrightarrow> scan_body out (c # cs) = scan_body (out @ [c]) cs"
  "scan_body out [backslash] = (None, [backslash])"
  "simple_escape e = Some d \<Longrightarrow> scan_body out (backslash # e # es) = scan_body (out @ [d]) es"
  "simple_escape e = None \<Longrightarrow> e \<noteq> CHR ''u'' \<Longrightarrow> scan_body out (backslash # e # es) = (None, es)"
  "fst (scan_unicode es) = None \<Longrightarrow> scan_body out (backslash # CHR ''u'' # es) = (None, snd (scan_unicode es))"
  "fst (scan_unicode es) = Some t \<Longrightarrow> scan_body out (backslash # CHR ''u'' # es) = scan_body (out @ t) (snd (scan_unicode es))"
  by (subst scan_body.simps, simp add: simple_escape_def)+

lemma scan_body_shorter:
  "scan_body out s = (x, r) \<Longrightarrow> length r \<le> length s \<and> (x \<noteq> None \<longrightarrow> length r < length s)"
proof (induction "length s" arbitrary: out s rule: less_induct)
  case less
  show ?case
  proof (cases s)
    case Nil
    then show ?thesis using less.prems by (simp add: scan_body_steps)
  next
    case (Cons c cs)
    consider (closed) "c = quote" | (control) "c \<noteq> quote" "byte_of c < 0x20" | (plain) "c \<noteq> quote" "c \<noteq> backslash" "\<not> byte_of c < 0x20"
      | (last) "c = backslash" "cs = []" | (escape) e es where "c = backslash" "cs = e # es" by (cases cs) auto
    then show ?thesis
    proof cases
      case plain
      then show ?thesis using less Cons by (fastforce simp: scan_body_steps)
    next
      case escape
      then show ?thesis
      proof (cases "simple_escape e")
        case (Some d)
        then show ?thesis using less(1) [of es "out @ [d]"] less.prems Cons escape by (simp add: scan_body_steps)
      next
        case None
        have l: "length (snd (scan_unicode es)) < length s" using scan_unicode_length [of es] Cons escape by simp
        show ?thesis
        proof (cases "e = CHR ''u''")
          case True
          then show ?thesis
            using less(1) [OF l] less.prems Cons escape l by (cases "fst (scan_unicode es)") (fastforce simp: scan_body_steps)+
        qed (use less.prems Cons escape None in \<open>auto simp: scan_body_steps\<close>)
      qed
    qed (use less.prems Cons in \<open>auto simp: scan_body_steps\<close>)
  qed
qed

lemma scan_string_shorter: "scan_string s = (x, r) \<Longrightarrow> length r \<le> length s \<and> (x \<noteq> None \<longrightarrow> length r < length s)"
  by (auto simp: scan_string_def split: list.splits if_splits dest: scan_body_shorter)

lemma skip_literal_shorter: "skip_literal word s = Some r \<Longrightarrow> word \<noteq> [] \<Longrightarrow> length r < length s"
  by (cases s; cases word) (auto simp: skip_literal_def split: if_splits)

lemma skip_scalar_shorter: "skip_scalar s = Some r \<Longrightarrow> length r < length s"
proof (cases s)
  case (Cons c cs)
  assume a: "skip_scalar s = Some r"
  have n: "length (dropWhile number_char s) < length s" if "c = CHR ''-'' \<or> c = CHR ''+'' \<or> is_digit c"
    using that Cons length_dropWhile_le [of number_char cs] by (auto simp: number_char_def less_Suc_eq_le)
  show ?thesis
    using a Cons n by (auto simp: skip_scalar_def split: if_splits prod.splits option.splits dest: scan_string_shorter skip_literal_shorter)
qed (simp add: skip_scalar_def)

lemma member_key_at_shorter: "member_key_at s = Some (key, r) \<Longrightarrow> length r < length s"
  using length_skip_ws by (fastforce simp: member_key_at_def split: prod.splits option.splits dest: scan_string_shorter consume_char_shorter
      intro: le_less_trans)

lemma after_comma_shorter: "length (after_comma s) \<le> length s"
  using length_skip_ws [of s] by (auto simp: after_comma_def split: option.split dest: consume_char_shorter)

lemma entry_value_shorter:
  assumes "skip_ws s = c # cs" "(if in_object then map_option snd (member_key_at (c # cs)) else Some (c # cs)) = Some v"
  shows "length v \<le> length s"
proof -
  have "length v \<le> length (c # cs)" using assms(2) by (auto split: if_splits dest: member_key_at_shorter)
  then show ?thesis using length_skip_ws [of s] assms(1) by simp
qed

lemma skip_shorter_partial:
  "skip_value_skip_entries_dom (Inl (depth, s)) \<Longrightarrow> skip_value depth s = Some r \<longrightarrow> length r < length s"
  "skip_value_skip_entries_dom (Inr (in_object, depth, s)) \<Longrightarrow> skip_entries in_object depth s = Some r \<longrightarrow> length r < length s"
proof (induction depth s and in_object depth s arbitrary: r and r rule: skip_value_skip_entries.pinduct)
  case (1 depth s)
  show ?case
  proof (cases s)
    case (Cons c cs)
    show ?thesis
    proof
      assume a: "skip_value depth s = Some r"
      have d: "\<not> max_hook_payload_depth < depth"
        using a [unfolded skip_value.psimps [OF "1.hyps"]] Cons by (auto split: if_splits)
      consider (object) "c = CHR ''{''" | (array) "c = CHR ''[''" | (scalar) "c \<noteq> CHR ''{''" "c \<noteq> CHR ''[''" by blast
      then show "length r < length s"
      proof cases
        case object
        then have "skip_entries True (depth + 1) cs = Some r"
          using a [unfolded skip_value.psimps [OF "1.hyps"]] d Cons by simp
        then show ?thesis using "1.IH"(1) [OF Cons d object, of r] Cons by simp
      next
        case array
        then have "skip_entries False (depth + 1) cs = Some r"
          using a [unfolded skip_value.psimps [OF "1.hyps"]] d Cons by simp
        then show ?thesis using "1.IH"(2) [OF Cons d _ array, of r] array Cons by simp
      next
        case scalar
        then have "skip_scalar s = Some r" using a [unfolded skip_value.psimps [OF "1.hyps"]] d Cons by simp
        then show ?thesis by (rule skip_scalar_shorter)
      qed
    qed
  qed (subst skip_value.psimps [OF "1.hyps"], simp)
next
  case (2 in_object depth s)
  show ?case
  proof
    assume a: "skip_entries in_object depth s = Some r"
    note e = a [unfolded skip_entries.psimps [OF "2.hyps"]]
    obtain c cs where s: "skip_ws s = c # cs" using e by (cases "skip_ws s") auto
    show "length r < length s"
    proof (cases "c = (if in_object then CHR ''}'' else CHR '']'')")
      case True
      then show ?thesis using e s length_skip_ws [of s] by simp
    next
      case False
      obtain v where v: "(if in_object then map_option snd (member_key_at (c # cs)) else Some (c # cs)) = Some v"
        using e s False by (auto split: option.splits)
      obtain q where q: "skip_value depth v = Some q"
        using e s False v by (cases "skip_value depth v") auto
      have more: "skip_entries in_object depth (after_comma q) = Some r" using e s False v q by simp
      have "length q < length v" using "2.IH"(1) [OF s False v, of q] q by simp
      moreover have "length r < length (after_comma q)" using "2.IH"(2) [OF s False v q, of r] more by simp
      ultimately show ?thesis using entry_value_shorter [OF s v] after_comma_shorter [of q] by simp
    qed
  qed
qed

lemma skip_total: "skip_value_skip_entries_dom x"
proof (induction x rule: measure_induct_rule
    [where f = "\<lambda>x. case x of Inl (d, s) \<Rightarrow> 2 * length s | Inr (b, d, s) \<Rightarrow> 2 * length s + 1"])
  case (less x)
  show ?case
  proof (cases x)
    case (Inl a)
    then show ?thesis using less by (cases a) (auto intro!: skip_value_skip_entries.domintros(1))
  next
    case (Inr a)
    obtain in_object depth s where a: "a = (in_object, depth, s)" by (cases a)
    show ?thesis
      unfolding Inr a
    proof (rule skip_value_skip_entries.domintros(2))
      fix c cs v
      assume s: "skip_ws s = c # cs" "(if in_object then map_option snd (member_key_at (c # cs)) else Some (c # cs)) = Some v"
      show v: "skip_value_skip_entries_dom (Inl (depth, v))"
        by (rule less) (use Inr a entry_value_shorter [OF s] in simp)
      show "skip_value_skip_entries_dom (Inr (in_object, depth, after_comma r))" if "skip_value depth v = Some r" for r
        by (rule less) (use Inr a entry_value_shorter [OF s] after_comma_shorter [of r] skip_shorter_partial(1) [OF v] that in force)
    qed
  qed
qed

termination skip_value
  by (simp add: skip_total)

declare skip_value.simps [simp del] skip_entries.simps [simp del]

lemmas skip_value_shorter = skip_shorter_partial(1) [OF skip_total, rule_format]

section \<open>The members that are wanted\<close>

record zcode_fields =
  zf_session_handle :: string
  zf_event_name :: string
  zf_tool_name :: string
  zf_command :: string
  zf_file_path :: string
  zf_payload_digest :: content_digest
  zf_payload_bytes :: u64

definition wanted_string :: "string \<Rightarrow> bool" where
  "wanted_string key \<longleftrightarrow> key \<in> {''session_id'', ''sessionId'', ''hook_event_name'', ''event_name'', ''tool_name'', ''toolName''}"

definition wanted_inner :: "string \<Rightarrow> bool" where
  "wanted_inner key \<longleftrightarrow> key \<in> {''command'', ''file_path'', ''filePath''}"

definition store_field :: "string \<Rightarrow> string \<Rightarrow> zcode_fields \<Rightarrow> zcode_fields" where
  "store_field key v f =
     (if key = ''session_id'' \<or> key = ''sessionId'' then f\<lparr>zf_session_handle := v\<rparr>
      else if key = ''hook_event_name'' \<or> key = ''event_name'' then f\<lparr>zf_event_name := v\<rparr>
      else if key = ''tool_name'' \<or> key = ''toolName'' then f\<lparr>zf_tool_name := v\<rparr>
      else if key = ''command'' then f\<lparr>zf_command := v\<rparr>
      else f\<lparr>zf_file_path := v\<rparr>)"

text \<open>
  The value of a wanted key that is not read as a string: an identity field fails; another one is skipped, from the
  position that a failed scan of a string has left.
\<close>

definition pass_value :: "nat \<Rightarrow> string \<Rightarrow> string option" where
  "pass_value depth s = (if snd (scan_string s) = [] then None else skip_value depth (snd (scan_string s)))"

text \<open>What follows a member: a comma, the end of the object, or a failure.\<close>

datatype after_member = Me_More string | Me_Done string | Me_Bad

definition member_end :: "string \<Rightarrow> after_member" where
  "member_end s =
     (case skip_ws s of [] \<Rightarrow> Me_Bad
      | c # cs \<Rightarrow> if c = CHR '','' then Me_More cs else if c = CHR ''}'' then Me_Done cs else Me_Bad)"

function parse_members :: "bool \<Rightarrow> nat \<Rightarrow> zcode_fields \<Rightarrow> string \<Rightarrow> (zcode_fields \<times> string) option" where
  "parse_members tool_input_level depth out s =
     (case skip_ws s of [] \<Rightarrow> None
      | c # cs \<Rightarrow>
          if c = CHR ''}'' then Some (out, cs)
          else
            (case member_key_at (c # cs) of
               None \<Rightarrow> None
             | Some (key, v) \<Rightarrow>
                 (case
                    (if \<not> tool_input_level \<and> wanted_string key \<or> tool_input_level \<and> wanted_inner key then
                       (case scan_string v of
                          (Some t, r) \<Rightarrow> Some (store_field key t out, r)
                        | (None, r) \<Rightarrow> if tool_input_level then map_option (Pair out) (pass_value (depth + 1) v) else None)
                     else if \<not> tool_input_level \<and> (key = ''tool_input'' \<or> key = ''toolInput'') \<and> v \<noteq> [] \<and> hd v = CHR ''{'' then
                       parse_members True (depth + 1) out (tl v)
                     else map_option (Pair out) (skip_value (depth + 1) v)) of
                    None \<Rightarrow> None
                  | Some (out', r) \<Rightarrow>
                      (case member_end r of
                         Me_Bad \<Rightarrow> None
                       | Me_Done r' \<Rightarrow> Some (out', r')
                       | Me_More r' \<Rightarrow> parse_members tool_input_level depth out' r'))))"
  by pat_completeness auto

lemma pass_value_shorter: "pass_value depth s = Some r \<Longrightarrow> length r < length s"
  using scan_string_shorter [of s "fst (scan_string s)" "snd (scan_string s)"]
  by (auto simp: pass_value_def split: if_splits dest!: skip_value_shorter)

lemma member_end_shorter: "member_end s = Me_More r \<or> member_end s = Me_Done r \<Longrightarrow> length r < length s"
  using length_skip_ws [of s] by (auto simp: member_end_def split: list.splits if_splits)

lemma member_value_shorter:
  assumes "skip_ws s = c # cs" "member_key_at (c # cs) = Some (key, v)"
  shows "length v < length s"
  using member_key_at_shorter [OF assms(2)] length_skip_ws [of s] assms(1) by simp

abbreviation (input) member_step :: "bool \<Rightarrow> nat \<Rightarrow> zcode_fields \<Rightarrow> string \<Rightarrow> string \<Rightarrow> (zcode_fields \<times> string) option" where
  "member_step tool_input_level depth out key v \<equiv>
     (if \<not> tool_input_level \<and> wanted_string key \<or> tool_input_level \<and> wanted_inner key then
        (case scan_string v of
           (Some t, r) \<Rightarrow> Some (store_field key t out, r)
         | (None, r) \<Rightarrow> if tool_input_level then map_option (Pair out) (pass_value (depth + 1) v) else None)
      else if \<not> tool_input_level \<and> (key = ''tool_input'' \<or> key = ''toolInput'') \<and> v \<noteq> [] \<and> hd v = CHR ''{'' then
        parse_members True (depth + 1) out (tl v)
      else map_option (Pair out) (skip_value (depth + 1) v))"

lemma member_step_shorter:
  assumes m: "member_step b depth out key v = Some (out', q)"
    and nested: "\<not> (\<not> b \<and> wanted_string key \<or> b \<and> wanted_inner key) \<Longrightarrow>
      \<not> b \<and> (key = ''tool_input'' \<or> key = ''toolInput'') \<and> v \<noteq> [] \<and> hd v = CHR ''{'' \<Longrightarrow>
      parse_members True (depth + 1) out (tl v) = Some (out', q) \<longrightarrow> length q < length (tl v)"
  shows "length q < length v"
proof (cases "\<not> b \<and> wanted_string key \<or> b \<and> wanted_inner key")
  case True
  then show ?thesis using m
    by (auto split: prod.splits option.splits if_splits dest: scan_string_shorter pass_value_shorter)
next
  case other: False
  show ?thesis
  proof (cases "\<not> b \<and> (key = ''tool_input'' \<or> key = ''toolInput'') \<and> v \<noteq> [] \<and> hd v = CHR ''{''")
    case True
    then have "parse_members True (depth + 1) out (tl v) = Some (out', q)" using m other by simp
    then have "length q < length (tl v)" using nested [OF other True] by simp
    then show ?thesis by simp
  next
    case False
    then have "map_option (Pair out) (skip_value (depth + 1) v) = Some (out', q)" using m other by (simp only: if_False)
    then show ?thesis by (auto dest: skip_value_shorter)
  qed
qed

lemma parse_members_shorter_partial:
  "parse_members_dom (b, depth, out, s) \<Longrightarrow> parse_members b depth out s = Some (f, r) \<longrightarrow> length r < length s"
proof (induction b depth out s arbitrary: f r rule: parse_members.pinduct)
  case (1 b depth out s)
  show ?case
  proof
    assume a: "parse_members b depth out s = Some (f, r)"
    note e = a [unfolded parse_members.psimps [OF "1.hyps"]]
    obtain c cs where s: "skip_ws s = c # cs" using e by (cases "skip_ws s") auto
    show "length r < length s"
    proof (cases "c = CHR ''}''")
      case True
      then show ?thesis using e s length_skip_ws [of s] by simp
    next
      case False
      obtain key v where k: "member_key_at (c # cs) = Some (key, v)" using e s False by (cases "member_key_at (c # cs)") auto
      obtain out' q where m: "member_step b depth out key v = Some (out', q)"
        using e unfolding s k list.case option.case prod.case using False by (cases "member_step b depth out key v") auto
      have "length q < length v" by (rule member_step_shorter [OF m]) (rule "1.IH"(1) [OF s False k refl])
      then have "length q < length s" using member_value_shorter [OF s k] by simp
      moreover have "length r < length q"
      proof (cases "member_end q")
        case (Me_More q')
        then have "parse_members b depth out' q' = Some (f, r)"
          using e unfolding s k list.case option.case prod.case m using False by simp
        then show ?thesis using "1.IH"(2) [OF s False k refl m refl Me_More, of f r] member_end_shorter [of q q'] Me_More by simp
      next
        case (Me_Done q')
        then show ?thesis using e member_end_shorter [of q q'] unfolding s k list.case option.case prod.case m using False by simp
      next
        case Me_Bad
        then show ?thesis using e unfolding s k list.case option.case prod.case m using False by simp
      qed
      ultimately show ?thesis by simp
    qed
  qed
qed

termination parse_members
proof (relation "measure (\<lambda>(b, d, out, s). length s)", goal_cases)
  case (2 b depth out s c cs a key v)
  have "length v < length s" using member_value_shorter [of s c cs key v] 2 by simp
  then show ?case by simp
next
  case (3 b depth out s c cs a key v x out' q q')
  have "length q < length v"
  proof (rule member_step_shorter [where b = b and depth = depth and out = out and key = key and out' = out'])
    assume "\<not> (\<not> b \<and> wanted_string key \<or> b \<and> wanted_inner key)"
      "\<not> b \<and> (key = ''tool_input'' \<or> key = ''toolInput'') \<and> v \<noteq> [] \<and> hd v = CHR ''{''"
    then have "parse_members_dom (True, depth + 1, out, tl v)" using 3 by blast
    then show "parse_members True (depth + 1) out (tl v) = Some (out', q) \<longrightarrow> length q < length (tl v)"
      by (rule parse_members_shorter_partial)
  qed (use 3 in simp)
  moreover have "length v < length s" using member_value_shorter [of s c cs key v] 3 by simp
  ultimately show ?case using member_end_shorter [of q q'] 3 by simp
qed simp

declare parse_members.simps [simp del]

section \<open>Extraction\<close>

definition new_fields :: "foundation \<Rightarrow> string \<Rightarrow> zcode_fields" where
  "new_fields F raw =
     \<lparr>zf_session_handle = [], zf_event_name = [], zf_tool_name = [], zf_command = [], zf_file_path = [],
      zf_payload_digest = bundle_digest_of F raw, zf_payload_bytes = of_nat (length raw)\<rparr>"

definition extract_zcode_event :: "foundation \<Rightarrow> string \<Rightarrow> int + zcode_fields" where
  "extract_zcode_event F raw =
     (if max_hook_payload_bytes < length raw then Inl 118
      else
        case consume_char (CHR ''{'') (skip_ws raw) of
          None \<Rightarrow> Inl 118
        | Some s \<Rightarrow>
            (case parse_members False 1 (new_fields F raw) s of
               None \<Rightarrow> Inl 118
             | Some (f, r) \<Rightarrow> if skip_ws r = [] then Inr f else Inl 118))"

section \<open>Agreement with the strict parser\<close>

text \<open>What the members of a parsed document say.\<close>

fun collect_members ::
    "(string \<Rightarrow> json \<Rightarrow> zcode_fields \<Rightarrow> zcode_fields option) \<Rightarrow> (string \<times> json) list \<Rightarrow> zcode_fields \<Rightarrow> zcode_fields option" where
  "collect_members member [] f = Some f"
| "collect_members member ((key, v) # ms) f =
     (case member key v f of None \<Rightarrow> None | Some f' \<Rightarrow> collect_members member ms f')"

definition inner_member :: "string \<Rightarrow> json \<Rightarrow> zcode_fields \<Rightarrow> zcode_fields option" where
  "inner_member key v f = Some (case v of JString t \<Rightarrow> if wanted_inner key then store_field key t f else f | _ \<Rightarrow> f)"

definition outer_member :: "string \<Rightarrow> json \<Rightarrow> zcode_fields \<Rightarrow> zcode_fields option" where
  "outer_member key v f =
     (if wanted_string key then (case v of JString t \<Rightarrow> Some (store_field key t f) | _ \<Rightarrow> None)
      else if key = ''tool_input'' \<or> key = ''toolInput'' then (case v of JObject ms \<Rightarrow> collect_members inner_member ms f | _ \<Rightarrow> Some f)
      else Some f)"

subsection \<open>Strings\<close>

lemma continuation_bytes: "continuation cp cs = Some x \<Longrightarrow> c \<in> set cs \<Longrightarrow> 128 \<le> byte_of c"
proof (induction cp cs rule: continuation.induct)
  case (2 cp d cs)
  have high: "128 \<le> n" if "n AND 0xC0 = (0x80 :: nat)" for n
  proof -
    have "bit (n AND 0xC0) 7" using that by (simp add: bit_iff_odd)
    then have "bit n 7" by (simp only: bit_and_iff)
    then have "odd (n div 128)" by (simp add: bit_iff_odd)
    then show ?thesis by (metis div_less even_zero not_less)
  qed
  show ?case using 2 high [of "byte_of d"] by (auto split: if_splits)
qed simp

lemma utf8_bytes:
  assumes "utf8_sequence_length (c # cs) = n" "n \<noteq> 0" "d \<in> set (take n (c # cs))"
  shows "d = c \<or> 128 \<le> byte_of d"
proof (cases "byte_of c < 0x80")
  case True
  then have "n = 1" using assms(1) by (simp add: utf8_sequence_length_def)
  then show ?thesis using assms(3) by simp
next
  case False
  then obtain m cp where "continuation (byte_of c AND drop_bit n 0x7F) (take (n - 1) cs) = Some cp"
    using assms(1,2) by (auto simp: utf8_sequence_length_def Let_def split: option.splits if_splits)
  moreover have "d = c \<or> d \<in> set (take (n - 1) cs)" using assms(2,3) by (cases n) auto
  ultimately show ?thesis using continuation_bytes by blast
qed

lemma scan_plain:
  "(\<And>c. c \<in> set p \<Longrightarrow> c \<noteq> quote \<and> c \<noteq> backslash \<and> \<not> byte_of c < 0x20) \<Longrightarrow> scan_body out (p @ s) = scan_body (out @ p) s"
  by (induction p arbitrary: out) (simp_all add: scan_body_steps(4))

lemma scan_unicode_strict: "parse_unicode_escape s = Inr (t, r) \<Longrightarrow> scan_unicode s = (Some t, r)"
  by (auto simp: parse_unicode_escape_def scan_unicode_def split: if_splits option.splits)

lemma scan_body_strict: "string_body out s = Inr (t, r) \<Longrightarrow> scan_body out s = (Some t, r)"
proof (induction "length s" arbitrary: out s rule: less_induct)
  case less
  note e = less.prems [unfolded string_body.simps [of out s]]
  obtain c cs where s: "s = c # cs" using e by (cases s) auto
  note e = e [unfolded s list.case]
  consider (closed) "c = quote" | (escape) d ds where "c = backslash" "cs = d # ds" | (plain) "c \<noteq> quote" "c \<noteq> backslash"
    using e by (cases "c = backslash"; cases cs) auto
  then show ?case
  proof cases
    case closed
    then show ?thesis using e s by (simp add: scan_body_steps)
  next
    case escape
    note e' = e [unfolded escape, simplified]
    show ?thesis
    proof (cases "simple_escape d")
      case (Some x)
      then show ?thesis using e' less(1) [of ds "out @ [x]"] s escape by (simp add: scan_body_steps(6))
    next
      case None
      then have u: "d = CHR ''u''" using e' by (simp split: if_splits)
      obtain x ds' where x: "parse_unicode_escape ds = Inr (x, ds')" "string_body (out @ x) ds' = Inr (t, r)"
        using e' None u by (auto split: sum.splits)
      then show ?thesis
        using scan_unicode_strict [OF x(1)] less(1) [of ds' "out @ x"] unicode_escape_shorter [OF x(1)] s escape u
        by (simp add: scan_body_steps(9))
    qed
  next
    case plain
    let ?n = "utf8_sequence_length (c # cs)"
    have p: "\<not> is_control_byte c" "?n \<noteq> 0" "string_body (out @ take ?n (c # cs)) (drop ?n (c # cs)) = Inr (t, r)"
      using e plain by (auto simp: Let_def split: if_splits)
    have "scan_body out (take ?n (c # cs) @ drop ?n (c # cs)) = scan_body (out @ take ?n (c # cs)) (drop ?n (c # cs))"
      by (rule scan_plain) (use utf8_bytes [OF refl p(2)] plain p(1) in \<open>fastforce simp: is_control_byte_def\<close>)
    then show ?thesis using less(1) [OF _ p(3)] p(2) s by simp
  qed
qed

lemma scan_string_strict: "parse_string s = Inr (t, r) \<Longrightarrow> scan_string s = (Some t, r)"
  by (auto simp: parse_string_def scan_string_def consume_char_Some split: option.splits dest: scan_body_strict)

subsection \<open>Values\<close>

definition follows :: "string \<Rightarrow> bool" where
  "follows r \<longleftrightarrow> r = [] \<or> \<not> number_char (hd r)"

lemma follows_mark: "consume_char c (skip_ws r) = Some q \<Longrightarrow> c \<in> {CHR '','', CHR ''}'', CHR '']''} \<Longrightarrow> follows r"
  by (cases r) (auto simp: follows_def consume_char_Some skip_ws_Cons is_ws_def number_char_def is_digit_def split: if_splits)

lemma skip_number_strict:
  assumes "parse_number s = Inr (v, r)" "follows r"
  shows "s \<noteq> [] \<and> is_digit (hd s) \<and> dropWhile number_char s = r"
proof -
  have r: "r = dropWhile is_digit s" and ds: "takeWhile is_digit s \<noteq> []"
    using assms(1) by (auto simp: parse_number_def Let_def split: if_splits)
  have "dropWhile number_char (takeWhile is_digit s @ r) = dropWhile number_char r"
    by (rule dropWhile_append2) (auto simp: number_char_def dest: set_takeWhileD)
  also have "\<dots> = r" using assms(2) by (cases r) (simp_all add: follows_def)
  finally have "dropWhile number_char s = r" using r by simp
  then show ?thesis using ds by (cases s) (auto split: if_splits)
qed

lemma skip_scalar_strict:
  assumes "parse_scalar s = Inr (v, r)" "follows r"
  shows "skip_scalar s = Some r"
proof -
  obtain c cs where s: "s = c # cs" using assms(1) by (cases s) (auto simp: parse_scalar_def)
  consider "c = quote" | "c = CHR ''t''" | "c = CHR ''f''" | "c = CHR ''n''"
    | (number) "c \<noteq> quote" "c \<noteq> CHR ''t''" "c \<noteq> CHR ''f''" "c \<noteq> CHR ''n''" by blast
  then show ?thesis
  proof cases
    case number
    then have "parse_number s = Inr (v, r)" using assms(1) s by (simp add: parse_scalar_def)
    from skip_number_strict [OF this assms(2)] show ?thesis using number s by (simp add: skip_scalar_def)
  qed (use assms(1) s in \<open>auto simp: parse_scalar_def skip_scalar_def parse_literal_def skip_literal_def split: sum.splits if_splits
      dest: scan_string_strict\<close>)
qed

lemma skip_ws_twice [simp]: "skip_ws (skip_ws s) = skip_ws s"
  by (induction s) (simp_all add: skip_ws_def)

lemma skip_entries_ws: "skip_entries b d (skip_ws s) = skip_entries b d s"
  by (simp add: skip_entries.simps [of b d s] skip_entries.simps [of b d "skip_ws s"])

lemma skip_entries_end:
  "consume_char (CHR '','') (skip_ws s) = None \<Longrightarrow> consume_char (CHR ''}'') (skip_ws s) = Some r \<Longrightarrow> skip_entries True d (after_comma s) = Some r"
  "consume_char (CHR '','') (skip_ws s) = None \<Longrightarrow> consume_char (CHR '']'') (skip_ws s) = Some r \<Longrightarrow> skip_entries False d (after_comma s) = Some r"
proof -
  assume n: "consume_char (CHR '','') (skip_ws s) = None"
  then have a: "after_comma s = skip_ws s" by (simp add: after_comma_def)
  show "skip_entries True d (after_comma s) = Some r" if "consume_char (CHR ''}'') (skip_ws s) = Some r"
    using that unfolding a skip_entries_ws skip_entries.simps [of True d s] consume_char_Some by simp
  show "skip_entries False d (after_comma s) = Some r" if "consume_char (CHR '']'') (skip_ws s) = Some r"
    using that unfolding a skip_entries_ws skip_entries.simps [of False d s] consume_char_Some by simp
qed

lemma member_key_strict:
  "parse_string s = Inr (key, s1) \<Longrightarrow> consume_char (CHR '':'') (skip_ws s1) = Some s2 \<Longrightarrow> member_key_at s = Some (key, skip_ws s2)"
  by (simp add: member_key_at_def scan_string_strict)

lemma parse_string_head: "parse_string s = Inr (t, r) \<Longrightarrow> \<exists>cs. s = quote # cs"
  by (auto simp: parse_string_def consume_char_Some split: option.splits)

lemma depth_bound: "parse_value d s = Inr (v, r) \<Longrightarrow> \<not> max_hook_payload_depth < d"
  by (auto simp: parse_value.simps max_depth_def max_hook_payload_depth_def split: if_splits)

lemma parse_scalar_head:
  assumes "parse_scalar s = Inr (v, r)"
  shows "s \<noteq> [] \<and> (hd s \<in> {quote, CHR ''t'', CHR ''f'', CHR ''n''} \<or> is_digit (hd s))"
proof -
  obtain c cs where s: "s = c # cs" using assms by (cases s) (auto simp: parse_scalar_def)
  have "is_digit c" if "c \<notin> {quote, CHR ''t'', CHR ''f'', CHR ''n''}"
  proof -
    have "parse_number s = Inr (v, r)" using that assms s by (simp add: parse_scalar_def)
    then have "takeWhile is_digit s \<noteq> []" by (auto simp: parse_number_def Let_def split: if_splits)
    then show ?thesis using s by (simp split: if_splits)
  qed
  then show ?thesis using s by auto
qed

lemma parse_value_head:
  assumes "parse_value d s = Inr (v, r)"
  shows "s \<noteq> [] \<and> hd s \<noteq> CHR ''}'' \<and> hd s \<noteq> CHR '']'' \<and> \<not> is_ws (hd s)"
proof -
  obtain c cs where s: "s = c # cs" using assms by (cases s) (auto simp: parse_value.simps split: if_splits)
  show ?thesis
  proof (cases "c = CHR ''{'' \<or> c = CHR ''[''")
    case False
    then have "parse_scalar s = Inr (v, r)" using assms s by (simp add: parse_value.simps split: if_splits)
    from parse_scalar_head [OF this] show ?thesis using s by (auto simp: is_ws_def is_digit_def)
  qed (use s in \<open>auto simp: is_ws_def\<close>)
qed

lemma skip_value_Cons:
  "skip_value d (c # cs) =
     (if max_hook_payload_depth < d then None else if c = CHR ''{'' then skip_entries True (d + 1) cs
      else if c = CHR ''['' then skip_entries False (d + 1) cs else skip_scalar (c # cs))"
  by (subst skip_value.simps) simp

lemma skip_value_strict:
  "parse_value d s = Inr (v, r) \<Longrightarrow> follows r \<Longrightarrow> skip_value d s = Some r"
  "object_members d ms s = Inr (v, r) \<Longrightarrow> skip_entries True (d + 1) s = Some r"
  "array_items d vs s = Inr (v, r) \<Longrightarrow> skip_entries False (d + 1) s = Some r"
proof (induction d s and d ms s and d vs s arbitrary: v r and v r and v r rule: parse_value_object_members_array_items.induct)
  case (1 d s)
  have deep: "\<not> max_depth < d" "\<not> max_hook_payload_depth < d" using 1(3) depth_bound by (auto simp: parse_value.simps split: if_splits)
  obtain c cs where s: "s = c # cs" using 1(3) parse_value_head by (cases s) auto
  note p = 1(3) [unfolded parse_value.simps [of d s]]
  consider (object) "c = CHR ''{''" | (array) "c = CHR ''[''" | (scalar) "c \<noteq> CHR ''{''" "c \<noteq> CHR ''[''" by blast
  then show ?case
  proof cases
    case object
    show ?thesis
    proof (cases "consume_char (CHR ''}'') (skip_ws cs)")
      case None
      then have "object_members d [] (skip_ws cs) = Inr (v, r)" using p s object deep by simp
      from 1(1) [OF deep(1) s object None this] show ?thesis
        using s object deep by (simp add: skip_value_Cons skip_entries_ws)
    next
      case (Some q)
      then show ?thesis using p s object deep
        by (simp add: skip_value_Cons) (simp add: skip_entries.simps consume_char_Some)
    qed
  next
    case array
    show ?thesis
    proof (cases "consume_char (CHR '']'') (skip_ws cs)")
      case None
      then have "array_items d [] (skip_ws cs) = Inr (v, r)" using p s array deep by simp
      from 1(2) [OF deep(1) s _ array None this] show ?thesis
        using s array deep by (simp add: skip_value_Cons skip_entries_ws)
    next
      case (Some q)
      then show ?thesis using p s array deep
        by (simp add: skip_value_Cons) (simp add: skip_entries.simps consume_char_Some)
    qed
  next
    case scalar
    then have "parse_scalar s = Inr (v, r)" using p s deep by simp
    then show ?thesis using skip_scalar_strict [OF _ 1(4)] s scalar deep by (simp add: skip_value_Cons)
  qed
next
  case (2 d ms s)
  then obtain key s1 s2 w s3 where a: "parse_string (skip_ws s) = Inr (key, s1)"
      "consume_char (CHR '':'') (skip_ws s1) = Some s2" "parse_value (d + 1) (skip_ws s2) = Inr (w, s3)" "key \<notin> fst ` set ms"
    and b: "(\<exists>s4. consume_char (CHR '','') (skip_ws s3) = Some s4 \<and> object_members d (ms @ [(key, w)]) s4 = Inr (v, r)) \<or>
       consume_char (CHR '','') (skip_ws s3) = None \<and> consume_char (CHR ''}'') (skip_ws s3) = Some r"
    by (auto simp: object_members.simps [of d ms s] split: sum.splits option.splits if_splits)
  have f: "follows s3" using b follows_mark by blast
  have v: "skip_value (d + 1) (skip_ws s2) = Some s3" using 2(1) [OF a(1) refl a(2) a(3) f] .
  obtain cs where q: "skip_ws s = quote # cs" using parse_string_head [OF a(1)] by blast
  have "skip_entries True (d + 1) s = skip_entries True (d + 1) (after_comma s3)"
    using v q member_key_strict [OF a(1,2)] by (simp add: skip_entries.simps [of True "Suc d" s])
  also have "\<dots> = Some r"
    using b
  proof
    assume "\<exists>s4. consume_char (CHR '','') (skip_ws s3) = Some s4 \<and> object_members d (ms @ [(key, w)]) s4 = Inr (v, r)"
    then obtain s4 where c: "consume_char (CHR '','') (skip_ws s3) = Some s4" "object_members d (ms @ [(key, w)]) s4 = Inr (v, r)" by blast
    show ?thesis using 2(2) [OF a(1) refl a(2,3) refl a(4) c] c(1) by (simp add: after_comma_def)
  next
    assume "consume_char (CHR '','') (skip_ws s3) = None \<and> consume_char (CHR ''}'') (skip_ws s3) = Some r"
    then show ?thesis using skip_entries_end by blast
  qed
  finally show ?case .
next
  case (3 d vs s)
  then obtain w s1 where a: "parse_value (d + 1) (skip_ws s) = Inr (w, s1)"
    and b: "(\<exists>s2. consume_char (CHR '','') (skip_ws s1) = Some s2 \<and> array_items d (vs @ [w]) s2 = Inr (v, r)) \<or>
       consume_char (CHR '','') (skip_ws s1) = None \<and> consume_char (CHR '']'') (skip_ws s1) = Some r"
    by (auto simp: array_items.simps [of d vs s] split: sum.splits option.splits)
  have f: "follows s1" using b follows_mark by blast
  have v: "skip_value (d + 1) (skip_ws s) = Some s1" using 3(1) [OF a f] .
  obtain c cs where q: "skip_ws s = c # cs" "c \<noteq> CHR '']''" using parse_value_head [OF a] by (cases "skip_ws s") auto
  have "skip_entries False (d + 1) s = skip_entries False (d + 1) (after_comma s1)"
    using v q by (simp add: skip_entries.simps [of False "Suc d" s])
  also have "\<dots> = Some r"
    using b
  proof
    assume "\<exists>s2. consume_char (CHR '','') (skip_ws s1) = Some s2 \<and> array_items d (vs @ [w]) s2 = Inr (v, r)"
    then obtain s2 where c: "consume_char (CHR '','') (skip_ws s1) = Some s2" "array_items d (vs @ [w]) s2 = Inr (v, r)" by blast
    show ?thesis using 3(2) [OF a refl c] c(1) by (simp add: after_comma_def)
  next
    assume "consume_char (CHR '','') (skip_ws s1) = None \<and> consume_char (CHR '']'') (skip_ws s1) = Some r"
    then show ?thesis using skip_entries_end by blast
  qed
  finally show ?case .
qed

subsection \<open>Members\<close>

lemma parse_members_ws: "parse_members b d out (skip_ws s) = parse_members b d out s"
  by (simp add: parse_members.simps [of b d out s] parse_members.simps [of b d out "skip_ws s"])

lemma member_end_strict:
  "consume_char (CHR '','') (skip_ws s) = Some r \<Longrightarrow> member_end s = Me_More r"
  "consume_char (CHR '','') (skip_ws s) = None \<Longrightarrow> consume_char (CHR ''}'') (skip_ws s) = Some r \<Longrightarrow> member_end s = Me_Done r"
  by (auto simp: member_end_def consume_char_def split: list.splits if_splits)

text \<open>What a scan makes of a member, against what the parsed value says.\<close>

definition member_agrees :: "bool \<Rightarrow> nat \<Rightarrow> (string \<Rightarrow> json \<Rightarrow> zcode_fields \<Rightarrow> zcode_fields option) \<Rightarrow> bool" where
  "member_agrees b d member \<longleftrightarrow>
     (\<forall>key s v r out. parse_value (d + 1) s = Inr (v, r) \<longrightarrow> follows r \<longrightarrow>
        member_step b d out key s = map_option (\<lambda>f. (f, r)) (member key v out))"

lemma members_agree:
  assumes "member_agrees b d member" "object_members d acc s = Inr (v, r)"
  shows "\<exists>ms. v = JObject (acc @ ms) \<and> parse_members b d out s = map_option (\<lambda>f. (f, r)) (collect_members member ms out)"
  using assms(2)
proof (induction "length s" arbitrary: acc s out rule: less_induct)
  case less
  obtain key s1 s2 w s3 where a: "parse_string (skip_ws s) = Inr (key, s1)"
      "consume_char (CHR '':'') (skip_ws s1) = Some s2" "parse_value (d + 1) (skip_ws s2) = Inr (w, s3)"
    and b: "(\<exists>s4. consume_char (CHR '','') (skip_ws s3) = Some s4 \<and> object_members d (acc @ [(key, w)]) s4 = Inr (v, r)) \<or>
       consume_char (CHR '','') (skip_ws s3) = None \<and> consume_char (CHR ''}'') (skip_ws s3) = Some r \<and> v = JObject (acc @ [(key, w)])"
    using less.prems by (auto simp: object_members.simps [of d acc s] split: sum.splits option.splits if_splits)
  have f: "follows s3" using b follows_mark by blast
  have m: "member_step b d out key (skip_ws s2) = map_option (\<lambda>f. (f, s3)) (member key w out)"
    using assms(1) a(3) f by (auto simp: member_agrees_def)
  obtain cs where q: "skip_ws s = quote # cs" using parse_string_head [OF a(1)] by blast
  have k: "member_key_at (quote # cs) = Some (key, skip_ws s2)" using member_key_strict [OF a(1,2)] q by simp
  have unfolded: "parse_members b d out s = (case map_option (\<lambda>f. (f, s3)) (member key w out) of
      None \<Rightarrow> None
    | Some (out', r) \<Rightarrow> (case member_end r of Me_Bad \<Rightarrow> None | Me_Done r' \<Rightarrow> Some (out', r') | Me_More r' \<Rightarrow> parse_members b d out' r'))"
    unfolding parse_members.simps [of b d out s] q list.case k option.case prod.case m by simp
  from b show ?case
  proof
    assume "\<exists>s4. consume_char (CHR '','') (skip_ws s3) = Some s4 \<and> object_members d (acc @ [(key, w)]) s4 = Inr (v, r)"
    then obtain s4 where c: "consume_char (CHR '','') (skip_ws s3) = Some s4" "object_members d (acc @ [(key, w)]) s4 = Inr (v, r)" by blast
    have "length s4 < length s"
      using consume_char_shorter [OF c(1)] skip_value_shorter [OF skip_value_strict(1) [OF a(3) f]] length_skip_ws [of s2]
        consume_char_shorter [OF a(2)] parse_string_shorter [OF a(1)] length_skip_ws [of s] by simp
    from less(1) [OF this c(2)] obtain ms where ms: "v = JObject ((acc @ [(key, w)]) @ ms)" by blast
    have "parse_members b d out' s4 = map_option (\<lambda>f. (f, r)) (collect_members member ms out')" for out'
      using less(1) [OF \<open>length s4 < length s\<close> c(2), of out'] ms by auto
    then show ?thesis
      using ms unfolded member_end_strict(1) [OF c(1)] by (intro exI [of _ "(key, w) # ms"]) (auto split: option.split)
  next
    assume c: "consume_char (CHR '','') (skip_ws s3) = None \<and> consume_char (CHR ''}'') (skip_ws s3) = Some r \<and> v = JObject (acc @ [(key, w)])"
    then show ?thesis
      using unfolded member_end_strict(2) [of s3 r] by (intro exI [of _ "[(key, w)]"]) (auto split: option.split)
  qed
qed

lemma container_kinds:
  "parse_value d s = parse_value d s"
  "object_members d ms s = Inr (v, r) \<Longrightarrow> \<exists>xs. v = JObject xs"
  "array_items d vs s = Inr (v, r) \<Longrightarrow> \<exists>xs. v = JArray xs"
proof (induction d s and d ms s and d vs s arbitrary: v r and v r and v r rule: parse_value_object_members_array_items.induct)
  case (2 d ms s)
  show ?case using 2(3) 2(2) by (subst (asm) object_members.simps) (auto split: sum.splits option.splits if_splits)
next
  case (3 d vs s)
  show ?case using 3(3) 3(2) by (subst (asm) array_items.simps) (auto split: sum.splits option.splits)
qed simp

lemma scan_value:
  assumes "parse_value d s = Inr (v, r)"
  shows "scan_string s = (case v of JString t \<Rightarrow> (Some t, r) | _ \<Rightarrow> (None, s))"
proof -
  obtain c cs where s: "s = c # cs" using parse_value_head [OF assms] by (cases s) auto
  show ?thesis
  proof (cases "c = quote")
    case True
    then obtain t where t: "parse_string s = Inr (t, r)" "v = JString t"
      using assms s by (auto simp: parse_value.simps parse_scalar_def split: if_splits sum.splits)
    then show ?thesis using scan_string_strict [OF t(1)] by simp
  next
    case False
    then have "\<nexists>t. v = JString t"
      using assms s by (auto simp: parse_value.simps parse_scalar_def parse_literal_def parse_number_def Let_def
          split: if_splits sum.splits option.splits dest: container_kinds(2,3))
    then show ?thesis using False s by (cases v) (auto simp: scan_string_def)
  qed
qed

lemma value_at: "parse_value d s = Inr (v, r) \<Longrightarrow> (\<exists>ms. v = JObject ms) \<longleftrightarrow> hd s = CHR ''{''"
  using parse_value_head [of d s v r]
  by (cases s) (auto simp: parse_value.simps parse_scalar_def parse_literal_def parse_number_def Let_def
      split: if_splits sum.splits option.splits dest: container_kinds(2,3))

lemma inner_agrees: "member_agrees True d inner_member"
  unfolding member_agrees_def
proof (intro allI impI)
  fix key s v r out
  assume p: "parse_value (d + 1) s = Inr (v, r)" and f: "follows r"
  have "skip_value (d + 1) s = Some r" by (rule skip_value_strict(1) [OF p f])
  moreover have "s \<noteq> []" using parse_value_head [OF p] by simp
  ultimately show "member_step True d out key s = map_option (\<lambda>f. (f, r)) (inner_member key v out)"
    using scan_value [OF p] by (cases v) (simp_all add: inner_member_def pass_value_def)
qed

lemma outer_agrees: "member_agrees False d outer_member"
  unfolding member_agrees_def
proof (intro allI impI)
  fix key s v r out
  assume p: "parse_value (d + 1) s = Inr (v, r)" and f: "follows r"
  have skip: "skip_value (d + 1) s = Some r" by (rule skip_value_strict(1) [OF p f])
  obtain c cs where s: "s = c # cs" using parse_value_head [OF p] by (cases s) auto
  consider (identity) "wanted_string key" | (input) ms where "\<not> wanted_string key" "key = ''tool_input'' \<or> key = ''toolInput''" "v = JObject ms"
    | (other) "\<not> wanted_string key" "\<not> ((key = ''tool_input'' \<or> key = ''toolInput'') \<and> (\<exists>ms. v = JObject ms))" by blast
  then show "member_step False d out key s = map_option (\<lambda>f. (f, r)) (outer_member key v out)"
  proof cases
    case identity
    then show ?thesis using scan_value [OF p] by (cases v) (simp_all add: outer_member_def)
  next
    case input
    have c: "c = CHR ''{''" using value_at [OF p] input(3) s by simp
    have "parse_members True (d + 1) out cs = map_option (\<lambda>f. (f, r)) (collect_members inner_member ms out)"
    proof (cases "consume_char (CHR ''}'') (skip_ws cs)")
      case None
      then have "object_members (d + 1) [] (skip_ws cs) = Inr (v, r)" using p s c by (simp add: parse_value.simps split: if_splits)
      from members_agree [OF inner_agrees this, of out] show ?thesis using input(3) by (simp add: parse_members_ws)
    next
      case (Some q)
      then have "q = r" "ms = []" using p s c input(3) by (simp_all add: parse_value.simps split: if_splits)
      then show ?thesis using Some by (simp add: parse_members.simps consume_char_Some)
    qed
    then show ?thesis using input s c by (simp add: outer_member_def)
  next
    case other
    then have "\<not> ((key = ''tool_input'' \<or> key = ''toolInput'') \<and> hd s = CHR ''{'')" using value_at [OF p] by simp
    then show ?thesis using other skip by (cases v) (auto simp: outer_member_def)
  qed
qed

lemma extract_strict:
  assumes "json_parse raw = Inr (JObject ms)" and "length raw \<le> max_hook_payload_bytes"
  shows "extract_zcode_event F raw = (case collect_members outer_member ms (new_fields F raw) of None \<Rightarrow> Inl 118 | Some f \<Rightarrow> Inr f)"
proof -
  obtain r where r: "parse_value 1 (skip_ws raw) = Inr (JObject ms, r)" "skip_ws r = []"
    using assms(1) by (auto simp: json_parse_def split: if_splits sum.splits)
  obtain c cs where s: "skip_ws raw = c # cs" using parse_value_head [OF r(1)] by (cases "skip_ws raw") auto
  have c: "c = CHR ''{''" using value_at [OF r(1)] s by simp
  have "parse_members False 1 out cs = map_option (\<lambda>f. (f, r)) (collect_members outer_member ms out)" for out
  proof (cases "consume_char (CHR ''}'') (skip_ws cs)")
    case None
    then have "object_members 1 [] (skip_ws cs) = Inr (JObject ms, r)" using r(1) s c by (simp add: parse_value.simps split: if_splits)
    from members_agree [OF outer_agrees this, of out] show ?thesis by (simp add: parse_members_ws)
  next
    case (Some q)
    then have "q = r" "ms = []" using r(1) s c by (simp_all add: parse_value.simps split: if_splits)
    then show ?thesis using Some by (simp add: parse_members.simps consume_char_Some)
  qed
  then show ?thesis
    using assms(2) s c r(2) by (auto simp: extract_zcode_event_def consume_char_def split: option.split)
qed

text \<open>C30: equivalence: on every payload that the strict parser of the machine files accepts as an object, the scan finds exactly
  what the parsed document says: the identity fields of the object, the last of several spellings, and the command and
  file path of its tool input, wherever they stand and whatever surrounds them; it fails exactly when an identity field
  is not a string.\<close>

theorem scan_agrees_with_parser:
  assumes "json_parse raw = Inr (JObject ms)" and "length raw \<le> max_hook_payload_bytes"
  shows "extract_zcode_event F raw = (case collect_members outer_member ms (new_fields F raw) of None \<Rightarrow> Inl 118 | Some f \<Rightarrow> Inr f)"
  by (rule extract_strict [OF assms])

definition sample_members :: "(string \<times> json) list" where
  "sample_members = [(''tool_name'', JString ''Bash''),
     (''tool_input'', JObject [(''n'', JArray [JNumber 1, JNull]), (''command'', JString ''ls'')])]"

abbreviation (input) sample_payload :: json where
  "sample_payload \<equiv> JObject sample_members"

theorem scan_agrees_with_parser_witness:
  "\<exists>f. extract_zcode_event ref_foundation (json_write sample_payload) = Inr f \<and> zf_tool_name f = ''Bash'' \<and> zf_command f = ''ls''"
proof -
  have u: "utf8_ok s" if "s \<in> {''tool_name'', ''Bash'', ''tool_input'', ''n'', ''command'', ''ls''}" for s :: string
    using that by (intro utf8_ok_ascii) auto
  have ok: "json_ok sample_payload 1" by (simp add: sample_members_def max_depth_def u)
  have l: "length (json_write sample_payload) = 63"
    by (simp add: sample_members_def json_write_def write_string_escaped_def escape_body.simps short_escape_def
        is_control_byte_def utf8_sequence_length_def to_string_u64_def digits_of.simps Let_def)
  have "json_parse (json_write sample_payload) = Inr sample_payload" by (rule parse_written [OF ok]) (simp add: l max_input_bytes_def)
  from scan_agrees_with_parser [OF this, of ref_foundation] l
  show ?thesis
    by (simp add: sample_members_def max_hook_payload_bytes_def outer_member_def inner_member_def wanted_string_def wanted_inner_def store_field_def)
qed

end
