(* ===== verification/Runtime_Host.thy ===== *)
theory Runtime_Host
  imports Hook_Judgment Journal Cognition_Bundle Context_Receipt
begin

text \<open>
  The composition root, \<^verbatim>\<open>host/runtime_host.hpp/.cpp\<close> and \<^verbatim>\<open>host/generation_activation.hpp/.cpp\<close>: boot, the requests of a
  connection, the three hook events, the refresh of the cognition bundle, eviction and drain.  The host is its
  record; the state mutex makes each request, each attempt of the refresh worker and the drain one step.
  The singleton mutex, the installation secret and the client record are operating-system calls: whether
  they succeed is an argument of boot.  Texts that the journal, the publisher or the profile parser report with an
  error are arguments.  A journal call that aborts the process is an error of the model like the others.
\<close>

section \<open>State\<close>

record hook_outstanding =
  ou_action_hex :: string
  ou_transaction :: u64

text \<open>Maps of the source are lists in the order of their keys.  The action counter of a session is never read.\<close>

record hook_session =
  hs_journal_row :: u64
  hs_id_hex :: string
  hs_degraded_tools :: "string set"
  hs_degraded_detail :: string
  hs_last_seen_ms :: u64
  hs_outstanding :: "(string \<times> hook_outstanding) list"

record host =
  rh_journal :: journal
  rh_install_id :: string
  rh_boot_epoch :: u64
  rh_generation :: u64
  rh_bundle_revision :: string
  rh_build_id :: string
  rh_state :: string
  rh_failure_detail :: string
  rh_quarantined :: bool
  rh_profile_cache :: "profile_file option"
  rh_profile_digest :: content_digest
  rh_repo_root :: string
  rh_git_executable :: string
  rh_active_bundle_digest :: content_digest
  rh_minter :: u64
  rh_sessions :: "(string \<times> hook_session) list"
  rh_last_refresh_ok_ms :: u64
  rh_freshness_window_ms :: u64
  rh_refresh_interval_ms :: u64
  rh_refresh_coalesce_ms :: u64
  rh_session_idle_evict_ms :: u64
  rh_shutting_down :: bool
  rh_refresh_pending :: bool
  rh_worker_running :: bool
  rh_last_attempt_ms :: u64
  rh_refresh_state :: string

text \<open>
  What a call finds outside: the wall clock at the n-th identifier, the content of the profile file, and the texts
  of errors.
\<close>

record host_env =
  he_wall :: "u64 \<Rightarrow> u64"
  he_profile :: "string option"
  he_journal_message :: "journal_error \<Rightarrow> string"
  he_bundle_message :: "bundle_error_kind \<Rightarrow> string"
  he_profile_message :: "profile_error_kind \<Rightarrow> string"

definition put_entry :: "string \<Rightarrow> 'v \<Rightarrow> (string \<times> 'v) list \<Rightarrow> (string \<times> 'v) list" where
  "put_entry k v m = insort_key fst (k, v) (filter (\<lambda>e. fst e \<noteq> k) m)"

definition drop_entry :: "string \<Rightarrow> (string \<times> 'v) list \<Rightarrow> (string \<times> 'v) list" where
  "drop_entry k m = filter (\<lambda>e. fst e \<noteq> k) m"

definition put_session :: "string \<Rightarrow> hook_session \<Rightarrow> host \<Rightarrow> host" where
  "put_session handle s h = h\<lparr>rh_sessions := put_entry handle s (rh_sessions h)\<rparr>"

definition cached_profile :: "host_env \<Rightarrow> host \<Rightarrow> profile_error_kind + profile_file" where
  "cached_profile env h = (case rh_profile_cache h of Some p \<Rightarrow> Inr p | None \<Rightarrow> load_profile_file (he_profile env))"

definition journaled :: "'a act \<Rightarrow> host \<Rightarrow> (journal_error + 'a) \<times> host" where
  "journaled a h = (case a (rh_journal h) of (r, J) \<Rightarrow> (r, h\<lparr>rh_journal := J\<rparr>))"

definition append_event :: "foundation \<Rightarrow> string \<Rightarrow> string \<Rightarrow> u64 \<Rightarrow> host \<Rightarrow> host" where
  "append_event F kind payload now h = snd (journaled (append_audit_at F kind (text_bytes (kind @ ''|'' @ payload)) now) h)"

definition mint :: "foundation \<Rightarrow> host_env \<Rightarrow> host \<Rightarrow> sortable_id \<times> host" where
  "mint F env h = (case sortable_next F (he_wall env (rh_minter h)) (rh_minter h) of (i, c) \<Rightarrow> (i, h\<lparr>rh_minter := c\<rparr>))"

section \<open>Generations\<close>

definition activate_generation :: "foundation \<Rightarrow> content_digest \<Rightarrow> content_digest \<Rightarrow> string \<Rightarrow> u64 \<Rightarrow> u64 act" where
  "activate_generation F bundle_digest profile_digest build now =
     and_then max_generation_id (\<lambda>m.
     and_then (advance_generation F (m + 1) bundle_digest profile_digest build now) (\<lambda>_. ret (m + 1)))"

section \<open>Freshness\<close>

definition refresh_expired :: "host \<Rightarrow> u64 \<Rightarrow> bool" where
  "refresh_expired h now \<longleftrightarrow>
     rh_freshness_window_ms h \<noteq> 0 \<and> rh_last_refresh_ok_ms h + rh_freshness_window_ms h \<le> now"

definition within_window :: "host \<Rightarrow> u64 \<Rightarrow> bool" where
  "within_window h now \<longleftrightarrow>
     rh_last_refresh_ok_ms h \<noteq> 0 \<and> rh_freshness_window_ms h \<noteq> 0 \<and>
     now < rh_last_refresh_ok_ms h + rh_freshness_window_ms h \<and> rh_last_refresh_ok_ms h \<le> now"

definition refresh_state_now :: "host \<Rightarrow> u64 \<Rightarrow> string" where
  "refresh_state_now h now =
     (if rh_refresh_state h = ''degraded'' then ''degraded''
      else if within_window h now then if rh_refresh_state h = [] then ''current'' else rh_refresh_state h
      else ''expired'')"

section \<open>Sessions\<close>

definition evict_idle_sessions :: "u64 \<Rightarrow> host \<Rightarrow> host" where
  "evict_idle_sessions now h = h\<lparr>rh_sessions := filter (\<lambda>(handle, s).
     \<not> (hs_outstanding s = [] \<and> hs_last_seen_ms s < now \<and> rh_session_idle_evict_ms h < now - hs_last_seen_ms s)) (rh_sessions h)\<rparr>"

definition ensure_session :: "foundation \<Rightarrow> host_env \<Rightarrow> request \<Rightarrow> u64 \<Rightarrow> host \<Rightarrow> hook_session option \<times> host" where
  "ensure_session F env r now h =
     (case map_of (rh_sessions h) (pq_session_handle r) of
        Some s \<Rightarrow>
          let s' = s\<lparr>hs_last_seen_ms := now\<rparr> in (Some s', put_session (pq_session_handle r) s' h)
      | None \<Rightarrow>
          (case mint F env h of (i, h1) \<Rightarrow>
             (case journaled (open_session F \<lparr>so_generation = rh_generation h, so_actor = None, so_harness = ''zcode''\<rparr> now) h1 of
                (Inl e, h2) \<Rightarrow> (None, h2)
              | (Inr entry_row, h2) \<Rightarrow>
                  let s = \<lparr>hs_journal_row = entry_row, hs_id_hex = hex_lower i, hs_degraded_tools = {}, hs_degraded_detail = [],
                        hs_last_seen_ms = now, hs_outstanding = []\<rparr> in
                  (Some s, append_event F ''session_registered'' (hex_lower i @ ''|'' @ pq_session_handle r) now
                    (put_session (pq_session_handle r) s h2)))))"

section \<open>Hook events\<close>

definition hook_ack :: "request \<Rightarrow> host \<Rightarrow> reply" where
  "hook_ack r h = default_reply\<lparr>py_kind := HookAck, py_request_id := pq_request_id r, py_generation := rh_generation h\<rparr>"

fun comma_pieces :: "string \<Rightarrow> string list" where
  "comma_pieces [] = [[]]"
| "comma_pieces (c # s) =
     (if c = CHR '','' then [] # comma_pieces s
      else case comma_pieces s of p # ps \<Rightarrow> (c # p) # ps | [] \<Rightarrow> [[c]])"

definition declared_tokens :: "string \<Rightarrow> string set" where
  "declared_tokens s = set (filter (\<lambda>t. t \<noteq> []) (comma_pieces s))"

definition lacks_text :: "string \<Rightarrow> string" where
  "lacks_text tool = ''hook manifest lacks declared tool '' @ [CHR 0x27] @ tool @ [CHR 0x27]"

fun degrade_rows :: "string set \<Rightarrow> tool_row list \<Rightarrow> hook_session \<Rightarrow> hook_session" where
  "degrade_rows offered [] s = s"
| "degrade_rows offered (entry_row # rows) s = degrade_rows offered rows
     (if tl_tool entry_row \<in> offered then s
      else s\<lparr>hs_degraded_tools := insert (tl_tool entry_row) (hs_degraded_tools s),
        hs_degraded_detail := hs_degraded_detail s @ (if hs_degraded_detail s = [] then [] else ''; '') @ lacks_text (tl_tool entry_row)\<rparr>)"

definition check_manifest :: "host_env \<Rightarrow> host \<Rightarrow> string \<Rightarrow> hook_session \<Rightarrow> hook_session" where
  "check_manifest env h tools s =
     (if tools = [] then s
      else
        case cached_profile env h of
          Inl e \<Rightarrow> s\<lparr>hs_degraded_tools := {''Bash'', ''Write'', ''Edit''},
            hs_degraded_detail := ''profile reload failed: '' @ he_profile_message env e\<rparr>
        | Inr p \<Rightarrow> degrade_rows (declared_tokens tools) (pf_tool_inventory p) (s\<lparr>hs_degraded_tools := {}, hs_degraded_detail := []\<rparr>))"

definition handle_session_start :: "foundation \<Rightarrow> host_env \<Rightarrow> request \<Rightarrow> u64 \<Rightarrow> host \<Rightarrow> reply \<times> host" where
  "handle_session_start F env r now h =
     (case ensure_session F env r now h of
        (None, h1) \<Rightarrow> (make_error (pq_request_id r) 61
          ''session identity could not be journaled (transient); the next event retries registration'', h1)
      | (Some s, h1) \<Rightarrow>
          let s' = check_manifest env h1 (pq_mediated_tools r) s;
              clean = (hs_degraded_tools s' = {}) in
          ((hook_ack r h)\<lparr>py_session_id := hs_id_hex s', py_verdict := (if clean then ''allow'' else ''degraded''),
             py_reason_code := (if clean then 0 else 113), py_reason_detail := hs_degraded_detail s',
             py_refresh := refresh_state_now h1 now\<rparr>,
           put_session (pq_session_handle r) s' h1))"

definition deny_ack :: "reply \<Rightarrow> u64 \<Rightarrow> string \<Rightarrow> reply" where
  "deny_ack ack reason detail = ack\<lparr>py_verdict := ''deny'', py_reason_code := reason, py_reason_detail := detail\<rparr>"

definition quoted_tool :: "string \<Rightarrow> string" where
  "quoted_tool tool = [CHR 0x27] @ tool @ [CHR 0x27]"

definition known_tool :: "profile_error_kind + profile_file \<Rightarrow> string \<Rightarrow> tool_row option" where
  "known_tool profile tool =
     (case profile of Inl _ \<Rightarrow> None | Inr p \<Rightarrow> find (\<lambda>entry_row. tl_tool entry_row = tool) (pf_tool_inventory p))"

text \<open>The last part of an admission: a decision is bound and consumed, and the call becomes outstanding.\<close>

definition admit_call :: "foundation \<Rightarrow> host_env \<Rightarrow> request \<Rightarrow> u64 \<Rightarrow> hook_session \<Rightarrow> string \<Rightarrow> content_digest \<Rightarrow> u64 \<Rightarrow> reply \<Rightarrow> host \<Rightarrow> reply \<times> host" where
  "admit_call F env r now s action_hex digest tx ack h =
     (case mint F env h of (i, h1) \<Rightarrow>
        (case journaled (bind_decision F
              \<lparr>bd_id = i, bd_token_hash = bundle_digest_of F (action_hex @ ''|'' @ pq_payload_sha256 r), bd_transaction = tx,
               bd_generation = rh_generation h, bd_binding_digest = digest, bd_expires_ms = now + 600000\<rparr> now) h1 of
           (Inl e, h2) \<Rightarrow> (make_error (pq_request_id r) 61 (''decision binding failed: '' @ he_journal_message env e), h2)
         | (Inr _, h2) \<Rightarrow>
             (case journaled (consume_decision F i now) h2 of
                (Inl e, h3) \<Rightarrow> (make_error (pq_request_id r) 61 (''decision consumption failed: '' @ he_journal_message env e), h3)
              | (Inr _, h3) \<Rightarrow>
                  (ack\<lparr>py_verdict := ''not_governed'', py_reason_detail := ''action outside the governed write scope (observed, correlated)''\<rparr>,
                   append_event F ''hook_admit'' (action_hex @ ''|'' @ pq_tool_name r) now
                     (put_session (pq_session_handle r)
                       (s\<lparr>hs_outstanding := put_entry (pq_tool_name r) \<lparr>ou_action_hex = action_hex, ou_transaction = tx\<rparr> (hs_outstanding s)\<rparr>)
                       h3)))))"

text \<open>A judged call is journaled first; a governed one is denied, any other is admitted.\<close>

definition record_judgment ::
    "foundation \<Rightarrow> host_env \<Rightarrow> request \<Rightarrow> u64 \<Rightarrow> hook_session \<Rightarrow> string \<Rightarrow> bool \<Rightarrow> string \<Rightarrow> reply \<Rightarrow> host \<Rightarrow> reply \<times> host" where
  "record_judgment F env r now s extraction governed why ack0 h =
     (case mint F env h of (action, h1) \<Rightarrow>
        let tool = pq_tool_name r; action_hex = hex_lower action; ack = ack0\<lparr>py_action_id := action_hex\<rparr>;
            digest = bundle_digest_of F (pq_payload_sha256 r @ ''|'' @ tool @ ''|'' @ pq_command r @ ''|'' @ pq_file_path r) in
        (case journaled (open_journal_transaction F
              \<lparr>to_parent = None, to_correlation = hs_id_hex s @ ''|'' @ action_hex @ ''|'' @ tool, to_digest = digest, to_base = None\<rparr> now) h1 of
           (Inl e, h2) \<Rightarrow> (make_error (pq_request_id r) 61 (''judgment journaling failed: '' @ he_journal_message env e), h2)
         | (Inr tx, h2) \<Rightarrow>
             if governed \<and> refresh_expired h2 now then
               (deny_ack ack 117 ''cognition freshness window exceeded and the last refresh failed (ARCH section 7.4: governed mutations are denied)'',
                append_event F ''hook_deny_expired_cognition'' tool now h2)
             else if governed then
               let reason = (if extraction = ''command'' then 111 else 110) in
               (deny_ack ack reason
                  (why @ ''; governed writes use the mediated record path (qiven-record; arrives with MVP-5) -- re-deliberate there''),
                append_event F ''hook_deny_governed'' (to_string_u64 reason @ ''|'' @ why @ ''|'' @ action_hex) now h2)
             else admit_call F env r now s action_hex digest tx ack h2))"

definition handle_pre_tool :: "foundation \<Rightarrow> host_env \<Rightarrow> request \<Rightarrow> u64 \<Rightarrow> host \<Rightarrow> reply \<times> host" where
  "handle_pre_tool F env r now h =
     (let tool = pq_tool_name r in
      case ensure_session F env r now h of
        (None, h1) \<Rightarrow>
          (deny_ack (hook_ack r h) 61 ''session identity could not be journaled (transient); the next call retries'', h1)
      | (Some s, h1) \<Rightarrow>
          let ack0 = (hook_ack r h)\<lparr>py_session_id := hs_id_hex s\<rparr>; profile = cached_profile env h1 in
          if tool \<in> hs_degraded_tools s then
            (deny_ack ack0 113 (hs_degraded_detail s), append_event F ''hook_deny_scope_mismatch'' tool now h1)
          else
            let ack = ack0\<lparr>py_refresh := refresh_state_now h1 now\<rparr> in
            case known_tool profile tool of
              None \<Rightarrow>
                (deny_ack ack 112 (''tool '' @ quoted_tool tool @ '' is not in the accepted tool inventory -- fail closed''),
                 append_event F ''hook_deny_unknown_tool'' tool now h1)
            | Some entry_row \<Rightarrow>
                if map_of (hs_outstanding s) tool \<noteq> None then
                  (deny_ack ack 115 (''a previous '' @ quoted_tool tool @
                     '' action awaits its PostToolUse observation (one outstanding pre per tool -- complete correlation)''),
                   append_event F ''hook_deny_outstanding'' tool now h1)
                else
                  case judge profile (rh_repo_root h1) (tl_extraction entry_row) r of
                    Jm_NoTarget field \<Rightarrow>
                      (deny_ack ack 118 (''tool '' @ quoted_tool tool @ '' exposed no '' @ field @ '' - target unverifiable, fail closed''),
                       append_event F ''hook_deny_no_target'' tool now h1)
                  | Jm_NoProfile \<Rightarrow>
                      (deny_ack ack 118 ''accepted profile unavailable - target unverifiable, fail closed'',
                       append_event F ''hook_deny_profile_unavailable'' tool now h1)
                  | Jm_Judged governed why \<Rightarrow> record_judgment F env r now s (tl_extraction entry_row) governed why ack h1)"

definition handle_post_tool :: "foundation \<Rightarrow> host_env \<Rightarrow> request \<Rightarrow> u64 \<Rightarrow> host \<Rightarrow> reply \<times> host" where
  "handle_post_tool F env r now h =
     (let tool = pq_tool_name r in
      case ensure_session F env r now h of
        (None, h1) \<Rightarrow>
          ((hook_ack r h)\<lparr>py_verdict := ''degraded'', py_reason_code := 115,
             py_reason_detail := ''session unavailable; outcome unobserved (transient)''\<rparr>, h1)
      | (Some s, h1) \<Rightarrow>
          let ack = (hook_ack r h)\<lparr>py_session_id := hs_id_hex s, py_refresh := refresh_state_now h1 now\<rparr> in
          case map_of (hs_outstanding s) tool of
            None \<Rightarrow>
              (ack\<lparr>py_verdict := ''degraded'', py_reason_code := 115,
                 py_reason_detail := ''no outstanding pre observation for '' @ quoted_tool tool @ '' -- outcome Indeterminate''\<rparr>,
               append_event F ''hook_outcome_unmatched'' tool now h1)
          | Some pre \<Rightarrow>
              (case mint F env h1 of (action, h2) \<Rightarrow>
                 (ack\<lparr>py_action_id := hex_lower action, py_verdict := ''allow'', py_reason_detail := ''outcome correlated; transaction closed''\<rparr>,
                  put_session (pq_session_handle r) (s\<lparr>hs_outstanding := drop_entry tool (hs_outstanding s)\<rparr>)
                    (append_event F ''hook_outcome'' (ou_action_hex pre @ ''|'' @ tool @ ''|'' @ pq_payload_sha256 r) now h2))))"

definition handle_hook_event :: "foundation \<Rightarrow> host_env \<Rightarrow> request \<Rightarrow> u64 \<Rightarrow> host \<Rightarrow> reply \<times> host" where
  "handle_hook_event F env r now h =
     (if pq_event r = ''session_start'' then handle_session_start F env r now h
      else if pq_event r = ''pre_tool'' then handle_pre_tool F env r now h
      else handle_post_tool F env r now h)"

section \<open>Requests\<close>

definition status_reply :: "request \<Rightarrow> u64 \<Rightarrow> host \<Rightarrow> reply \<times> host" where
  "status_reply r now h =
     (case journaled audit_event_count h of (events, h1) \<Rightarrow>
        (default_reply\<lparr>py_kind := StatusView, py_request_id := pq_request_id r, py_state := rh_state h, py_install_id := rh_install_id h,
           py_boot_epoch := rh_boot_epoch h, py_generation := rh_generation h, py_bundle_revision := rh_bundle_revision h,
           py_journal_events := (case events of Inr n \<Rightarrow> n | Inl _ \<Rightarrow> 0), py_quarantined := rh_quarantined h,
           py_refresh_state := refresh_state_now h now, py_last_refresh_ok_ms := rh_last_refresh_ok_ms h,
           py_next_refresh_due_ms :=
             (if rh_last_attempt_ms h < rh_last_attempt_ms h + rh_refresh_interval_ms h
              then rh_last_attempt_ms h + rh_refresh_interval_ms h else 0),
           py_findings := (if rh_failure_detail h = [] then [] else [rh_failure_detail h])\<rparr>, h1))"

definition doctor_reply :: "foundation \<Rightarrow> request \<Rightarrow> host \<Rightarrow> reply \<times> host" where
  "doctor_reply F r h =
     (case journaled (verify_audit_chain F) h of (chain, h1) \<Rightarrow>
        let ok = (case chain of Inr _ \<Rightarrow> True | Inl _ \<Rightarrow> False) in
        (default_reply\<lparr>py_kind := DoctorView, py_request_id := pq_request_id r, py_integrity_ok := True, py_audit_chain_ok := ok,
           py_bundle_active_ok := rh_bundle_revision h \<noteq> [],
           py_findings :=
             (if ok then [] else [''audit hash chain verification failed'']) @
             (if rh_bundle_revision h = [] then [''no ACTIVE cognition bundle: '' @ rh_failure_detail h] else []) @
             (if rh_quarantined h then [''journal is quarantined; governed mutation must stop''] else [])\<rparr>, h1))"

definition begin_drain :: "host \<Rightarrow> host" where
  "begin_drain h = h\<lparr>rh_shutting_down := True, rh_state := (if rh_state h = ''running'' then ''draining'' else rh_state h)\<rparr>"

definition refresh_reply :: "foundation \<Rightarrow> request \<Rightarrow> u64 \<Rightarrow> host \<Rightarrow> reply \<times> host" where
  "refresh_reply F r now h =
     (let result = (if \<not> rh_worker_running h then ''no_worker''
            else if rh_last_attempt_ms h + rh_refresh_coalesce_ms h \<le> now then ''triggered'' else ''coalesced_pending'');
          h1 = append_event F ''refresh_triggered'' result now (if rh_worker_running h then h\<lparr>rh_refresh_pending := True\<rparr> else h) in
      (default_reply\<lparr>py_kind := RefreshAck, py_request_id := pq_request_id r, py_refresh_state := refresh_state_now h1 now,
         py_last_refresh_ok_ms := rh_last_refresh_ok_ms h1, py_next_refresh_due_ms := rh_last_attempt_ms h1 + rh_refresh_interval_ms h1,
         py_refresh_result := result\<rparr>, h1))"

definition handle :: "foundation \<Rightarrow> host_env \<Rightarrow> request \<Rightarrow> u64 \<Rightarrow> host \<Rightarrow> reply \<times> host" where
  "handle F env r now h =
     (case pq_kind r of
        Hello \<Rightarrow>
          (default_reply\<lparr>py_kind := HelloAck, py_request_id := pq_request_id r, py_host_build := rh_build_id h,
             py_install_id := rh_install_id h, py_boot_epoch := rh_boot_epoch h\<rparr>, h)
      | Status \<Rightarrow> status_reply r now h
      | Doctor \<Rightarrow> doctor_reply F r h
      | Mutation \<Rightarrow>
          (make_error (pq_request_id r) 61
             (if rh_state h = ''running'' then ''governed mutation is not implemented until MVP-5''
              else ''host is recovering: '' @ rh_failure_detail h), h)
      | HookEvent \<Rightarrow>
          if rh_state h \<noteq> ''running'' \<or> rh_shutting_down h then
            (make_error (pq_request_id r) (if rh_shutting_down h then 119 else 61)
               (if rh_shutting_down h then ''host is draining for shutdown'' else ''host is recovering: '' @ rh_failure_detail h), h)
          else handle_hook_event F env r now h
      | Shutdown \<Rightarrow>
          (default_reply\<lparr>py_kind := ShutdownAck, py_request_id := pq_request_id r, py_draining := True\<rparr>,
           begin_drain (append_event F ''shutdown_requested'' (if pq_grace_ms r \<noteq> 0 then ''grace'' else ''default'') now h))
      | Refresh \<Rightarrow> refresh_reply F r now h)"

definition request_shutdown :: "host \<Rightarrow> host" where
  "request_shutdown h = begin_drain h"

definition record_audit :: "foundation \<Rightarrow> string \<Rightarrow> string \<Rightarrow> u64 \<Rightarrow> host \<Rightarrow> host" where
  "record_audit F kind detail now h = append_event F kind detail now h"

fun drain_calls :: "foundation \<Rightarrow> u64 \<Rightarrow> (string \<times> hook_outstanding) list \<Rightarrow> host \<Rightarrow> host" where
  "drain_calls F now [] h = h"
| "drain_calls F now ((tool, pre) # calls) h =
     drain_calls F now calls (append_event F ''hook_outcome_indeterminate'' (ou_action_hex pre @ ''|'' @ tool @ ''|drain'') now h)"

definition drain_host :: "foundation \<Rightarrow> u64 \<Rightarrow> host \<Rightarrow> host" where
  "drain_host F now h =
     (let h1 = begin_drain h;
          h2 = fold (\<lambda>(handle, s). drain_calls F now (hs_outstanding s)) (rh_sessions h1) h1;
          h3 = h2\<lparr>rh_sessions := map (\<lambda>(handle, s). (handle, s\<lparr>hs_outstanding := []\<rparr>)) (rh_sessions h2), rh_worker_running := False\<rparr> in
      snd (journaled checkpoint h3))"

section \<open>The refresh worker\<close>

datatype worker_action = Worker_Stop | Worker_Wait | Worker_Cooldown | Worker_Attempt

text \<open>One evaluation of the loop of \<^verbatim>\<open>refresh_worker_body\<close>; \<open>due\<close> says whether the cadence point has passed.\<close>

definition worker_decide :: "bool \<Rightarrow> u64 \<Rightarrow> host \<Rightarrow> worker_action \<times> host" where
  "worker_decide due now h =
     (if \<not> rh_worker_running h then (Worker_Stop, h)
      else if \<not> rh_refresh_pending h \<and> \<not> due then (Worker_Wait, h)
      else if now < rh_last_attempt_ms h + rh_refresh_coalesce_ms h then (Worker_Cooldown, h)
      else (Worker_Attempt, h\<lparr>rh_refresh_pending := False\<rparr>))"

definition start_refresh_worker :: "host \<Rightarrow> host" where
  "start_refresh_worker h = h\<lparr>rh_worker_running := True\<rparr>"

definition refresh_request :: "host_env \<Rightarrow> host \<Rightarrow> u64 \<Rightarrow> publish_request" where
  "refresh_request env h now =
     (let p = load_profile_file (he_profile env) in
      \<lparr>pr_repo_root = rh_repo_root h, pr_ref = ''refs/remotes/origin/main'',
       pr_repository_url = (case p of Inl _ \<Rightarrow> [] | Inr f \<Rightarrow> pg_repository (pf_cognition f)), pr_view = ''production'',
       pr_policy_path = (case p of Inl _ \<Rightarrow> [] | Inr f \<Rightarrow> pg_policy_path (pf_cognition f)),
       pr_source_paths = (case p of Inl _ \<Rightarrow> [] | Inr f \<Rightarrow> pg_source_paths (pf_cognition f)),
       pr_publisher_build = rh_build_id h, pr_now_ms = now, pr_git_executable = rh_git_executable h\<rparr>)"

text \<open>
  The part of \<^verbatim>\<open>refresh_cognition\<close> under the mutex: what was published, or why nothing was.  The result is the
  state it reports.
\<close>

definition refresh_swap :: "foundation \<Rightarrow> host_env \<Rightarrow> u64 \<Rightarrow> string + publish_result \<Rightarrow> host \<Rightarrow> string \<times> host" where
  "refresh_swap F env now published h =
     (case published of
        Inr pl \<Rightarrow>
          (case (if pl_bundle_digest pl = rh_active_bundle_digest h then (Inr (), h)
               else
                 case journaled (activate_generation F (pl_bundle_digest pl) (rh_profile_digest h) (rh_build_id h) now) h of
                   (Inl e, h1) \<Rightarrow> (Inl e, h1)
                 | (Inr g, h1) \<Rightarrow>
                     (Inr (), h1\<lparr>rh_generation := g, rh_bundle_revision := bm_source_revision (pl_manifest pl),
                       rh_active_bundle_digest := pl_bundle_digest pl\<rparr>)) of
             (Inl e, h1) \<Rightarrow>
               (''degraded'', append_event F ''refresh_activation_failed''
                  (rh_bundle_revision h1 @ ''|generation activation failed: '' @ he_journal_message env e) now h1)
           | (Inr _, h1) \<Rightarrow>
               (''current'', append_event F ''cognition_refreshed'' (rh_bundle_revision h1) now
                  (snd (journaled (set_meta ''last_refresh_ok_ms'' (to_string_u64 now)) (h1\<lparr>rh_last_refresh_ok_ms := now\<rparr>)))))
      | Inl detail \<Rightarrow>
          if within_window h now then
            (''local_fallback'', append_event F ''cognition_local_fallback''
               (''fetch failed ('' @ detail @ ''); using the verified local bundle'') now h)
          else (''expired'', append_event F ''cognition_expired'' ''window-exhausted'' now h))"

text \<open>What \<^verbatim>\<open>git fetch\<close> yields: the run did not take place, failed to start, or exited with a code.\<close>

datatype fetch_run = Fetch_Skipped | Fetch_Failed string | Fetch_Exit int

definition fetch_detail :: "fetch_run \<Rightarrow> string" where
  "fetch_detail run =
     (case run of Fetch_Skipped \<Rightarrow> [] | Fetch_Failed message \<Rightarrow> ''fetch failed: '' @ message
      | Fetch_Exit c \<Rightarrow> if c = 0 then [] else ''fetch exit '' @ int_text c)"

text \<open>One attempt of the worker; a call that throws is contained.\<close>

definition worker_attempt ::
    "foundation \<Rightarrow> host_env \<Rightarrow> publish_system \<Rightarrow> fetch_run \<Rightarrow> u64 \<Rightarrow> host \<times> bundle_disk \<Rightarrow> host \<times> bundle_disk" where
  "worker_attempt F env sys fetch now host_disk =
     (case host_disk of (h, disk) \<Rightarrow>
        let run = (if rh_repo_root h = [] \<or> rh_git_executable h = [] then Fetch_Skipped else fetch);
            finish = (\<lambda>published disk'. case refresh_swap F env now published h of (state, h1) \<Rightarrow>
              (evict_idle_sessions now (h1\<lparr>rh_refresh_state := state, rh_last_attempt_ms := now\<rparr>), disk')) in
        if run = Fetch_Exit 0 then
          (case publish_bundle F sys (refresh_request env h now) disk of
             (None, disk') \<Rightarrow>
               (append_event F ''refresh_fault'' ''worker attempt faulted; retrying at next cadence'' now
                  (h\<lparr>rh_refresh_state := ''degraded'', rh_last_attempt_ms := now\<rparr>), disk')
           | (Some (Inl e), disk') \<Rightarrow> finish (Inl (''publish after fetch failed: '' @ he_bundle_message env e)) disk'
           | (Some (Inr pl), disk') \<Rightarrow> finish (Inr pl) disk')
        else finish (Inl (fetch_detail run)) disk)"

section \<open>Boot\<close>

record host_boot =
  hb_repo_root :: string
  hb_git_executable :: string
  hb_build_id :: string
  hb_now_ms :: u64

record boot_world =
  bw_singleton :: bool
  bw_journal_file :: journal_file
  bw_faults :: "nat \<Rightarrow> stmt_fault option"
  bw_intact :: bool
  bw_device :: "u32 list"
  bw_scan :: "dispatch_row list \<Rightarrow> dispatch_row list"
  bw_secret_error :: "string option"
  bw_client_error :: "string option"
  bw_system :: publish_system
  bw_create_cognition :: "bytes \<Rightarrow> string \<Rightarrow> cognition_handle option \<times> deserialize_error"
  bw_serialize_policy :: "snapshot \<Rightarrow> bytes"
  bw_outside :: "string \<Rightarrow> string option"

datatype boot_error = Boot_Singleton | Boot_Journal journal_error

definition starting_host :: "host_boot \<Rightarrow> journal \<Rightarrow> host" where
  "starting_host b J =
     \<lparr>rh_journal = J, rh_install_id = jn_install J, rh_boot_epoch = jn_boot_epoch J, rh_generation = 0, rh_bundle_revision = [],
      rh_build_id = hb_build_id b, rh_state = ''starting'', rh_failure_detail = [], rh_quarantined = jn_quarantined J,
      rh_profile_cache = None, rh_profile_digest = zero_hash, rh_repo_root = [], rh_git_executable = [],
      rh_active_bundle_digest = zero_hash, rh_minter = 0, rh_sessions = [], rh_last_refresh_ok_ms = 0,
      rh_freshness_window_ms = 0, rh_refresh_interval_ms = 900000, rh_refresh_coalesce_ms = 30000,
      rh_session_idle_evict_ms = 86400000, rh_shutting_down = False, rh_refresh_pending = False, rh_worker_running = False,
      rh_last_attempt_ms = 0, rh_refresh_state = ''current''\<rparr>"

definition failing :: "string \<Rightarrow> host \<Rightarrow> host" where
  "failing detail h = h\<lparr>rh_failure_detail := detail\<rparr>"

definition boot_request :: "host_boot \<Rightarrow> profile_file \<Rightarrow> publish_request" where
  "boot_request b p =
     \<lparr>pr_repo_root = hb_repo_root b, pr_ref = pg_authorized_ref (pf_cognition p), pr_repository_url = pg_repository (pf_cognition p),
      pr_view = ''production'', pr_policy_path = pg_policy_path (pf_cognition p), pr_source_paths = pg_source_paths (pf_cognition p),
      pr_publisher_build = hb_build_id b, pr_now_ms = hb_now_ms b, pr_git_executable = hb_git_executable b\<rparr>"

definition load_freshness :: "u64 \<Rightarrow> host \<Rightarrow> host" where
  "load_freshness now h =
     (case journaled (get_meta ''last_refresh_ok_ms'') h of
        (Inr (Some (c # s)), h1) \<Rightarrow> h1\<lparr>rh_last_refresh_ok_ms := strtoull (c # s)\<rparr>
      | (_, h1) \<Rightarrow> snd (journaled (set_meta ''last_refresh_ok_ms'' (to_string_u64 now)) (h1\<lparr>rh_last_refresh_ok_ms := now\<rparr>)))"

text \<open>From the generation on: the host runs.\<close>

definition activate_host :: "foundation \<Rightarrow> host_env \<Rightarrow> host_boot \<Rightarrow> profile_file \<Rightarrow> publish_result \<Rightarrow> host \<Rightarrow> host" where
  "activate_host F env b p pl h =
     (case journaled (activate_generation F (pl_bundle_digest pl) (rh_profile_digest h) (hb_build_id b) (hb_now_ms b)) h of
        (Inl e, h1) \<Rightarrow> failing (''generation: '' @ he_journal_message env e) h1
      | (Inr g, h1) \<Rightarrow>
          let h2 = load_freshness (hb_now_ms b)
                (h1\<lparr>rh_generation := g, rh_bundle_revision := bm_source_revision (pl_manifest pl), rh_state := ''running'',
                  rh_repo_root := hb_repo_root b, rh_git_executable := hb_git_executable b,
                  rh_active_bundle_digest := pl_bundle_digest pl, rh_freshness_window_ms := pf_freshness_window_ms p,
                  rh_refresh_interval_ms := pf_refresh_interval_ms p\<rparr>) in
          h2\<lparr>rh_refresh_state := refresh_state_now h2 (hb_now_ms b)\<rparr>)"

text \<open>The bundle: published, its policy compared with the pin of the profile, loaded and pinned.\<close>

definition boot_bundle ::
    "foundation \<Rightarrow> host_env \<Rightarrow> boot_world \<Rightarrow> host_boot \<Rightarrow> profile_file \<Rightarrow> host \<Rightarrow> bundle_disk \<Rightarrow> host option \<times> bundle_disk" where
  "boot_bundle F env w b p h disk =
     (case publish_bundle F (bw_system w) (boot_request b p) disk of
        (None, disk') \<Rightarrow> (None, disk')
      | (Some (Inl e), disk') \<Rightarrow> (Some (failing (''publish: '' @ he_bundle_message env e) h), disk')
      | (Some (Inr pl), disk') \<Rightarrow>
          (Some
            (if hex_sha256 F (bm_policy_digest (pl_manifest pl)) \<noteq> pg_policy_sha256 (pf_cognition p)
             then failing ''policy digest disagrees with the accepted profile pin'' h
             else
               case load_active F (bw_outside w) disk' of
                 Inl e \<Rightarrow> failing (''bundle: '' @ he_bundle_message env e) h
               | Inr v \<Rightarrow>
                   (case pin_from_bundle F (bw_create_cognition w) (bw_serialize_policy w) (bw_outside w) disk' (pl_manifest pl) of
                      Inl e \<Rightarrow> failing (''pin: '' @ he_bundle_message env e) h
                    | Inr _ \<Rightarrow> activate_host F env b p pl h)), disk'))"

text \<open>\<^verbatim>\<open>RuntimeHost::boot\<close>; the outer \<open>None\<close> is an exception of the file system.\<close>

definition boot ::
    "foundation \<Rightarrow> host_env \<Rightarrow> boot_world \<Rightarrow> host_boot \<Rightarrow> bundle_disk \<Rightarrow> (boot_error + host) option \<times> bundle_disk" where
  "boot F env w b disk =
     (if \<not> bw_singleton w then (Some (Inl Boot_Singleton), disk)
      else
        case journal_open F (bw_faults w) (bw_intact w) (bw_device w)
            (if bw_journal_file w = No_File then CreateNew else OpenExisting) (hb_now_ms b) (bw_journal_file w) of
          Inl e \<Rightarrow> (Some (Inl (Boot_Journal e)), disk)
        | Inr J \<Rightarrow>
            (case recover_at F fail_closed_classify (bw_scan w) (hb_now_ms b) J of
               (Inl e, _) \<Rightarrow> (Some (Inl (Boot_Journal e)), disk)
             | (Inr _, J1) \<Rightarrow>
                 let h = starting_host b J1 in
                 (case bw_secret_error w of
                    Some message \<Rightarrow> (Some (Inr (failing message h)), disk)
                  | None \<Rightarrow>
                      (case bw_client_error w of
                         Some message \<Rightarrow> (Some (Inr (failing message h)), disk)
                       | None \<Rightarrow>
                           (case load_profile_file (he_profile env) of
                              Inl e \<Rightarrow> (Some (Inr (failing (''profile: '' @ he_profile_message env e) h)), disk)
                            | Inr p \<Rightarrow>
                                (case boot_bundle F env w b p
                                    (h\<lparr>rh_profile_cache := Some p,
                                       rh_profile_digest := bundle_digest_of F (case he_profile env of None \<Rightarrow> [] | Some s \<Rightarrow> s)\<rparr>) disk of
                                   (None, disk') \<Rightarrow> (None, disk')
                                 | (Some h1, disk') \<Rightarrow> (Some (Inr h1), disk')))))))"

end
