(* ===== verification/Host_Runs.thy ===== *)
theory Host_Runs
  imports Runtime_Host Journal_Recovery
begin

text \<open>
  Runs of the runtime host: requests, attempts of the refresh worker, drains and audit notes in any order.  Each is
  tied to the steps it makes on the tables of the journal, so that the laws of the journal carry over to the host.
\<close>

section \<open>Steps on the tables\<close>

inductive moves :: "foundation \<Rightarrow> (journal_op \<Rightarrow> bool) \<Rightarrow> journal_db \<Rightarrow> journal_db \<Rightarrow> bool"
  for F permitted where
  still: "moves F permitted db db"
| further: "moves F permitted db db1 \<Longrightarrow> permitted op \<Longrightarrow> op_fit op \<Longrightarrow> table_step F now epoch op db1 db2 \<Longrightarrow> moves F permitted db db2"

lemma moves_trans: "moves F P db1 db2 \<Longrightarrow> moves F P db db1 \<Longrightarrow> moves F P db db2"
  by (induction rule: moves.induct) (auto intro: moves.further)

lemma moves_mono: "moves F P db db' \<Longrightarrow> (\<And>op. P op \<Longrightarrow> Q op) \<Longrightarrow> moves F Q db db'"
  by (induction rule: moves.induct) (auto intro: moves.intros)

lemma snd_yielding [simp]: "snd (yielding f m J) = snd (m J)"
  by (auto simp: yielding_def and_then_def ret_def split: prod.splits sum.splits)

lemma moves_run: "moves F P db (jn_db J) \<Longrightarrow> P op \<Longrightarrow> op_fit op \<Longrightarrow> moves F P db (jn_db (snd (run_op F now op J)))"
  using run_op_step [of F now op J "fst (run_op F now op J)" "snd (run_op F now op J)"] by (auto intro: moves.further)

text \<open>What a host asks of its journal while it serves, and what is left of it once it drains.\<close>

fun quiet_op :: "journal_op \<Rightarrow> bool" where
  "quiet_op (Op_Audit kind payload) \<longleftrightarrow> True"
| "quiet_op (Op_Meta key v) \<longleftrightarrow> True"
| "quiet_op (Op_Generation i bdg pdg build) \<longleftrightarrow> True"
| "quiet_op _ \<longleftrightarrow> False"

fun serving_op :: "journal_op \<Rightarrow> bool" where
  "serving_op (Op_Session s) \<longleftrightarrow> True"
| "serving_op (Op_Transaction t) \<longleftrightarrow> True"
| "serving_op (Op_Bind d) \<longleftrightarrow> True"
| "serving_op (Op_Consume i) \<longleftrightarrow> True"
| "serving_op op \<longleftrightarrow> quiet_op op"

lemma quiet_serving: "quiet_op op \<Longrightarrow> serving_op op"
  by (cases op) simp_all

named_theorems host_moves \<open>the steps on the tables behind a piece of the host\<close>

lemma moves_calls [host_moves]:
  assumes "moves F serving_op db (jn_db J)"
  shows "moves F serving_op db (jn_db (snd (open_session F s now J)))"
    "moves F serving_op db (jn_db (snd (open_journal_transaction F t now J)))"
    "moves F serving_op db (jn_db (snd (bind_decision F d now J)))"
    "moves F serving_op db (jn_db (snd (consume_decision F i now J)))"
  using moves_run [OF assms, of "Op_Session s" now] moves_run [OF assms, of "Op_Transaction t" now]
    moves_run [OF assms, of "Op_Bind d" now] moves_run [OF assms, of "Op_Consume i" now]
  by simp_all

lemma moves_notes [host_moves]:
  assumes "moves F P db (jn_db J)" and "\<And>op. quiet_op op \<Longrightarrow> P op"
  shows "kind \<noteq> [] \<Longrightarrow> moves F P db (jn_db (snd (append_audit_at F kind payload now J)))"
    "key \<notin> reserved_keys \<Longrightarrow> moves F P db (jn_db (snd (set_meta key v J)))"
    "moves F P db (jn_db (snd (advance_generation F i bdg pdg build now J)))"
  using moves_run [OF assms(1), of "Op_Audit kind payload" now] moves_run [OF assms(1), of "Op_Meta key v" now]
    moves_run [OF assms(1), of "Op_Generation i bdg pdg build" now] assms(2)
  by simp_all

lemma read_only_moves: "read_only m \<Longrightarrow> moves F P db (jn_db J) \<Longrightarrow> moves F P db (jn_db (snd (m J)))"
  using read_onlyD [of m J "fst (m J)" "snd (m J)"] by simp

section \<open>The tables of a host\<close>

definition host_db :: "host \<Rightarrow> journal_db" where
  "host_db h = jn_db (rh_journal h)"

lemma journaled_eq: "journaled a h = (fst (a (rh_journal h)), h\<lparr>rh_journal := snd (a (rh_journal h))\<rparr>)"
  by (simp add: journaled_def split: prod.split)

lemma append_event_eq:
  "append_event F kind payload now h =
     h\<lparr>rh_journal := snd (append_audit_at F kind (text_bytes (kind @ ''|'' @ payload)) now (rh_journal h))\<rparr>"
  by (simp add: append_event_def journaled_eq)

lemma mint_eq: "mint F env h = (fst (mint F env h), h\<lparr>rh_minter := snd (sortable_next F (he_wall env (rh_minter h)) (rh_minter h))\<rparr>)"
  by (simp add: mint_def split: prod.split)

lemma host_db_frame [simp]:
  "host_db (h\<lparr>rh_sessions := ss\<rparr>) = host_db h" "host_db (h\<lparr>rh_minter := c\<rparr>) = host_db h"
  "host_db (h\<lparr>rh_shutting_down := b\<rparr>) = host_db h" "host_db (h\<lparr>rh_state := st\<rparr>) = host_db h"
  "host_db (h\<lparr>rh_refresh_pending := b\<rparr>) = host_db h" "host_db (h\<lparr>rh_worker_running := b\<rparr>) = host_db h"
  "host_db (h\<lparr>rh_generation := g\<rparr>) = host_db h" "host_db (h\<lparr>rh_bundle_revision := st\<rparr>) = host_db h"
  "host_db (h\<lparr>rh_active_bundle_digest := g'\<rparr>) = host_db h" "host_db (h\<lparr>rh_last_refresh_ok_ms := g\<rparr>) = host_db h"
  "host_db (h\<lparr>rh_refresh_state := st\<rparr>) = host_db h" "host_db (h\<lparr>rh_last_attempt_ms := g\<rparr>) = host_db h"
  "host_db (h\<lparr>rh_journal := J\<rparr>) = jn_db J" "host_db (put_session key s h) = host_db h"
  "host_db (begin_drain h) = host_db h" "host_db (evict_idle_sessions now h) = host_db h"
  "host_db (snd (mint F env h)) = host_db h"
  by (simp_all add: host_db_def put_session_def begin_drain_def evict_idle_sessions_def mint_def split: prod.split)

text \<open>The state of a session that a request finds or opens.\<close>

lemma append_event_moves [host_moves]:
  "moves F P db (host_db h) \<Longrightarrow> (\<And>op. quiet_op op \<Longrightarrow> P op) \<Longrightarrow> kind \<noteq> [] \<Longrightarrow> moves F P db (host_db (append_event F kind payload now h))"
  by (simp add: append_event_eq host_db_def moves_notes)

lemma journaled_calls [host_moves]:
  assumes "moves F serving_op db (host_db h)"
  shows "moves F serving_op db (host_db (snd (journaled (open_session F s now) h)))"
    "moves F serving_op db (host_db (snd (journaled (open_journal_transaction F t now) h)))"
    "moves F serving_op db (host_db (snd (journaled (bind_decision F d now) h)))"
    "moves F serving_op db (host_db (snd (journaled (consume_decision F i now) h)))"
  using assms by (simp_all add: journaled_eq host_db_def moves_calls)

lemma ensure_session_moves [host_moves]:
  assumes "moves F serving_op db (host_db h)"
  shows "moves F serving_op db (host_db (snd (ensure_session F env r now h)))"
proof (cases "map_of (rh_sessions h) (pq_session_handle r)")
  case None
  obtain i h1 where m: "mint F env h = (i, h1)" by (cases "mint F env h")
  have h1: "moves F serving_op db (host_db h1)" using assms host_db_frame(17) [of F env h] m by simp
  let ?open = "journaled (open_session F \<lparr>so_generation = rh_generation h, so_actor = None, so_harness = ''zcode''\<rparr> now) h1"
  obtain x h2 where o: "?open = (x, h2)" by (cases ?open)
  have "moves F serving_op db (host_db h2)" using journaled_calls(1) [OF h1] o by (metis snd_conv)
  then show ?thesis
    using None m o by (cases x) (simp_all add: ensure_session_def Let_def append_event_moves quiet_serving)
qed (use assms in \<open>simp add: ensure_session_def Let_def\<close>)

lemma admit_call_moves [host_moves]:
  assumes "moves F serving_op db (host_db h)"
  shows "moves F serving_op db (host_db (snd (admit_call F env r now s action_hex digest tx ack h)))"
proof -
  obtain i h1 where m: "mint F env h = (i, h1)" by (cases "mint F env h")
  have h1: "moves F serving_op db (host_db h1)" using assms host_db_frame(17) [of F env h] m by simp
  let ?d = "\<lparr>bd_id = i, bd_token_hash = bundle_digest_of F (action_hex @ ''|'' @ pq_payload_sha256 r), bd_transaction = tx,
               bd_generation = rh_generation h, bd_binding_digest = digest, bd_expires_ms = now + 600000\<rparr>"
  obtain x h2 where b: "journaled (bind_decision F ?d now) h1 = (x, h2)" by (cases "journaled (bind_decision F ?d now) h1")
  have h2: "moves F serving_op db (host_db h2)" using journaled_calls(3) [OF h1] b by (metis snd_conv)
  obtain y h3 where c: "journaled (consume_decision F i now) h2 = (y, h3)" by (cases "journaled (consume_decision F i now) h2")
  have "moves F serving_op db (host_db h3)" using journaled_calls(4) [OF h2] c by (metis snd_conv)
  then show ?thesis
    using m b c h2 by (cases x; cases y) (simp_all add: admit_call_def append_event_moves quiet_serving)
qed

lemma record_judgment_moves [host_moves]:
  assumes "moves F serving_op db (host_db h)"
  shows "moves F serving_op db (host_db (snd (record_judgment F env r now s extraction governed why ack h)))"
proof -
  obtain i h1 where m: "mint F env h = (i, h1)" by (cases "mint F env h")
  have h1: "moves F serving_op db (host_db h1)" using assms host_db_frame(17) [of F env h] m by simp
  let ?t = "\<lparr>to_parent = None, to_correlation = hs_id_hex s @ ''|'' @ hex_lower i @ ''|'' @ pq_tool_name r,
    to_digest = bundle_digest_of F (pq_payload_sha256 r @ ''|'' @ pq_tool_name r @ ''|'' @ pq_command r @ ''|'' @ pq_file_path r), to_base = None\<rparr>"
  obtain x h2 where t: "journaled (open_journal_transaction F ?t now) h1 = (x, h2)"
    by (cases "journaled (open_journal_transaction F ?t now) h1")
  have "moves F serving_op db (host_db h2)" using journaled_calls(2) [OF h1] t by (metis snd_conv)
  then show ?thesis
    using m t by (cases x) (simp_all add: record_judgment_def Let_def append_event_moves quiet_serving admit_call_moves)
qed

lemma handle_hook_event_moves [host_moves]:
  assumes "moves F serving_op db (host_db h)"
  shows "moves F serving_op db (host_db (snd (handle_hook_event F env r now h)))"
proof -
  obtain x h1 where e: "ensure_session F env r now h = (x, h1)" by (cases "ensure_session F env r now h")
  have h1: "moves F serving_op db (host_db h1)" using ensure_session_moves [OF assms] e by (metis snd_conv)
  have "moves F serving_op db (host_db (snd (handle_session_start F env r now h)))"
    using h1 e by (cases x) (simp_all add: handle_session_start_def Let_def)
  moreover have "moves F serving_op db (host_db (snd (handle_pre_tool F env r now h)))"
    using h1 e by (cases x) (simp_all add: handle_pre_tool_def Let_def append_event_moves quiet_serving record_judgment_moves
        split: option.split hook_judgment.split)
  moreover have "moves F serving_op db (host_db (snd (handle_post_tool F env r now h)))"
  proof -
    obtain i h2 where m: "mint F env h1 = (i, h2)" by (cases "mint F env h1")
    then have "moves F serving_op db (host_db h2)" using h1 host_db_frame(17) [of F env h1] by simp
    then show ?thesis
      using h1 e m by (cases x) (simp_all add: handle_post_tool_def Let_def append_event_moves quiet_serving split: option.split)
  qed
  ultimately show ?thesis by (simp add: handle_hook_event_def)
qed

section \<open>Sessions and calls\<close>

definition keyed :: "(string \<times> 'v) list \<Rightarrow> bool" where
  "keyed m \<longleftrightarrow> sorted (map fst m) \<and> distinct (map fst m)"

lemma map_of_insort: "k \<notin> fst ` set m \<Longrightarrow> map_of (insort_key fst (k, v) m) = (map_of m)(k \<mapsto> v)"
  by (induction m) (auto simp: fun_eq_iff)

lemma map_of_drop_entry: "map_of (drop_entry k m) = (map_of m)(k := None)"
  unfolding drop_entry_def by (induction m) auto

lemma map_of_put_entry [simp]: "map_of (put_entry k v m) = (map_of m)(k \<mapsto> v)"
  using map_of_insort [of k "drop_entry k m" v] map_of_drop_entry [of k m]
  by (simp add: put_entry_def drop_entry_def image_iff)

lemma set_put_entry: "set (put_entry k v m) = insert (k, v) (set (drop_entry k m))"
  by (simp add: put_entry_def drop_entry_def set_insort_key)

lemma drop_entry_keyed: "keyed m \<Longrightarrow> keyed (drop_entry k m)"
  unfolding keyed_def drop_entry_def by (induction m) (auto simp: sorted_filter distinct_map_filter)

lemma filter_keyed: "keyed m \<Longrightarrow> keyed (filter p m)"
  by (simp add: keyed_def sorted_filter distinct_map_filter)

lemma keys_insort: "map fst (insort_key fst x m) = insort (fst x) (map fst m)"
  by (induction m) auto

lemma put_entry_keyed: "keyed m \<Longrightarrow> keyed (put_entry k v m)"
  using drop_entry_keyed [of m k] unfolding keyed_def put_entry_def drop_entry_def
  by (auto simp: keys_insort sorted_insort distinct_insort)

lemma set_drop_entry: "e \<in> set (drop_entry k m) \<longleftrightarrow> e \<in> set m \<and> fst e \<noteq> k"
  by (auto simp: drop_entry_def)

text \<open>A call that is outstanding has a transaction whose decision the journal has consumed.\<close>

definition backed :: "journal_db \<Rightarrow> hook_outstanding \<Rightarrow> bool" where
  "backed db c \<longleftrightarrow> (\<exists>i d. consumed_row i d db \<and> jd_tx d = ou_transaction c)"

definition session_inv :: "journal_db \<Rightarrow> hook_session \<Rightarrow> bool" where
  "session_inv db s \<longleftrightarrow> keyed (hs_outstanding s) \<and> (\<forall>(tool, c) \<in> set (hs_outstanding s). backed db c)"

definition host_inv :: "host \<Rightarrow> bool" where
  "host_inv h \<longleftrightarrow> keyed (rh_sessions h) \<and> (\<forall>(key, s) \<in> set (rh_sessions h). session_inv (host_db h) s)"

lemma moves_backed: "moves F P db db' \<Longrightarrow> backed db c \<Longrightarrow> backed db' c"
  by (induction rule: moves.induct) (auto simp: backed_def dest: table_step_consumed)

lemma moves_session_inv: "moves F P db db' \<Longrightarrow> session_inv db s \<Longrightarrow> session_inv db' s"
  using moves_backed by (fastforce simp: session_inv_def)

lemma host_inv_moves:
  assumes "host_inv h" "rh_sessions h' = rh_sessions h" "moves F P (host_db h) (host_db h')"
  shows "host_inv h'"
  using assms moves_session_inv by (fastforce simp: host_inv_def)

lemma put_session_inv: "host_inv h \<Longrightarrow> session_inv (host_db h) s \<Longrightarrow> host_inv (put_session key s h)"
  using put_entry_keyed [of "rh_sessions h" key s]
  by (auto simp: host_inv_def put_session_def set_put_entry set_drop_entry host_db_def)

lemma host_inv_session: "host_inv h \<Longrightarrow> map_of (rh_sessions h) key = Some s \<Longrightarrow> session_inv (host_db h) s"
  unfolding host_inv_def by (fastforce dest: map_of_SomeD)

text \<open>Requests change the journal, the sessions and the counter of identifiers, and nothing else.\<close>

definition kept :: "host \<Rightarrow> host \<Rightarrow> bool" where
  "kept h h' \<longleftrightarrow> h'\<lparr>rh_journal := rh_journal h, rh_minter := rh_minter h, rh_sessions := rh_sessions h\<rparr> = h"

lemma kept_steps [simp, intro]:
  "kept h h" "kept h0 h \<Longrightarrow> kept h0 (h\<lparr>rh_journal := J\<rparr>)" "kept h0 h \<Longrightarrow> kept h0 (h\<lparr>rh_minter := c\<rparr>)"
  "kept h0 h \<Longrightarrow> kept h0 (h\<lparr>rh_sessions := ss\<rparr>)" "kept h0 h \<Longrightarrow> kept h0 (put_session key s h)"
  "kept h0 h \<Longrightarrow> kept h0 (append_event F kind payload now h)" "kept h0 h \<Longrightarrow> kept h0 (snd (journaled a h))"
  "kept h0 h \<Longrightarrow> kept h0 (snd (mint F env h))"
  by (auto simp: kept_def put_session_def append_event_eq journaled_eq mint_def split: prod.split)

lemma kept_trans:
  assumes "kept h h1" "kept h1 h2"
  shows "kept h h2"
proof -
  let ?reset = "\<lambda>k :: host. k\<lparr>rh_journal := rh_journal h, rh_minter := rh_minter h, rh_sessions := rh_sessions h\<rparr>"
  have "?reset h2 = ?reset (h2\<lparr>rh_journal := rh_journal h1, rh_minter := rh_minter h1, rh_sessions := rh_sessions h1\<rparr>)" by simp
  also have "\<dots> = h" using assms by (simp only: kept_def)
  finally show ?thesis by (simp add: kept_def)
qed

lemma kept_fields:
  assumes "kept h h'"
  shows "rh_generation h' = rh_generation h" "rh_profile_cache h' = rh_profile_cache h" "rh_repo_root h' = rh_repo_root h"
    "rh_state h' = rh_state h" "rh_shutting_down h' = rh_shutting_down h" "cached_profile env h' = cached_profile env h"
    "refresh_expired h' now = refresh_expired h now"
proof -
  have e: "h'\<lparr>rh_journal := rh_journal h, rh_minter := rh_minter h, rh_sessions := rh_sessions h\<rparr> = h"
    using assms by (simp add: kept_def)
  show f: "rh_generation h' = rh_generation h" "rh_profile_cache h' = rh_profile_cache h" "rh_repo_root h' = rh_repo_root h"
    "rh_state h' = rh_state h" "rh_shutting_down h' = rh_shutting_down h"
    using arg_cong [OF e, of rh_generation] arg_cong [OF e, of rh_profile_cache] arg_cong [OF e, of rh_repo_root]
      arg_cong [OF e, of rh_state] arg_cong [OF e, of rh_shutting_down] by simp_all
  show "cached_profile env h' = cached_profile env h" using f by (simp add: cached_profile_def)
  show "refresh_expired h' now = refresh_expired h now"
    using arg_cong [OF e, of rh_freshness_window_ms] arg_cong [OF e, of rh_last_refresh_ok_ms] by (simp add: refresh_expired_def)
qed

lemma journal_keeps_sessions [simp]:
  "rh_sessions (append_event F kind payload now h) = rh_sessions h" "rh_sessions (snd (journaled a h)) = rh_sessions h"
  "rh_sessions (snd (mint F env h)) = rh_sessions h" "rh_sessions (begin_drain h) = rh_sessions h"
  by (simp_all add: append_event_eq journaled_eq mint_def begin_drain_def split: prod.split)

lemma call_frame:
  "journaled a h = (x, h') \<Longrightarrow> kept h0 h \<Longrightarrow> kept h0 h'" "journaled a h = (x, h') \<Longrightarrow> rh_sessions h' = rh_sessions h"
  "mint F env h = (i, h') \<Longrightarrow> kept h0 h \<Longrightarrow> kept h0 h'" "mint F env h = (i, h') \<Longrightarrow> rh_sessions h' = rh_sessions h"
  by (auto simp: journaled_eq mint_def kept_def split: prod.splits)

lemma call_result: "journaled a h = (x, h') \<Longrightarrow> a (rh_journal h) = (x, rh_journal h')"
  by (auto simp: journaled_eq)

text \<open>The session a request works on: the one of its handle with the clock set, or a new one.\<close>

definition session_of :: "string \<Rightarrow> u64 \<Rightarrow> host \<Rightarrow> hook_session \<Rightarrow> bool" where
  "session_of key now h s \<longleftrightarrow>
     (case map_of (rh_sessions h) key of
        Some s0 \<Rightarrow> s = s0\<lparr>hs_last_seen_ms := now\<rparr>
      | None \<Rightarrow> hs_degraded_tools s = {} \<and> hs_outstanding s = [])"

lemma ensure_session_result:
  assumes "ensure_session F env r now h = (x, h1)"
  shows "kept h h1 \<and> (case x of None \<Rightarrow> rh_sessions h1 = rh_sessions h
    | Some s \<Rightarrow> session_of (pq_session_handle r) now h s \<and> rh_sessions h1 = put_entry (pq_session_handle r) s (rh_sessions h))"
proof (cases "map_of (rh_sessions h) (pq_session_handle r)")
  case None
  let ?h1 = "snd (mint F env h)"
  let ?open = "open_session F \<lparr>so_generation = rh_generation h, so_actor = None, so_harness = ''zcode''\<rparr> now"
  obtain y h2 where o: "journaled ?open ?h1 = (y, h2)" by (cases "journaled ?open ?h1")
  have h2: "kept h h2" "rh_sessions h2 = rh_sessions h"
    using kept_steps(7,8) [of h] journal_keeps_sessions(2,3) o by (metis kept_steps(1) snd_conv)+
  show ?thesis
    using assms None o h2
    by (cases y) (auto simp: ensure_session_def Let_def session_of_def put_session_def split: prod.splits)
qed (use assms in \<open>auto simp: ensure_session_def Let_def session_of_def put_session_def\<close>)

lemma ensure_session_inv:
  assumes "ensure_session F env r now h = (x, h1)" "host_inv h"
  shows "host_inv (h\<lparr>rh_sessions := rh_sessions h1\<rparr>) \<and> (\<forall>s. x = Some s \<longrightarrow> session_inv (host_db h) s)"
proof (cases x)
  case None
  then show ?thesis using ensure_session_result [OF assms(1)] assms(2) by simp
next
  case (Some s)
  have e: "session_of (pq_session_handle r) now h s" "rh_sessions h1 = put_entry (pq_session_handle r) s (rh_sessions h)"
    using ensure_session_result [OF assms(1)] Some by simp_all
  have "session_inv (host_db h) s"
  proof (cases "map_of (rh_sessions h) (pq_session_handle r)")
    case None
    then show ?thesis using e by (simp add: session_of_def session_inv_def keyed_def)
  next
    case (Some s0)
    then show ?thesis using host_inv_session [OF assms(2) Some] e by (simp add: session_of_def session_inv_def)
  qed
  then show ?thesis using put_session_inv [OF assms(2)] e Some by (simp add: put_session_def)
qed

section \<open>Admission\<close>

text \<open>A decision that is bound and then consumed is in the table as bound, except that it is consumed.\<close>

lemma find_append_None: "find p xs = None \<Longrightarrow> find p (xs @ ys) = find p ys"
  by (induction xs) (auto split: if_splits)

lemma bound_then_consumed:
  assumes "bind_decision F b now J = (Inr u, J1)" "consume_decision F i now J1 = (Inr v, J2)" "bd_id b = i"
  shows "consumed_row i ((bound_row b)\<lparr>jd_state := De_Consumed, jd_consumed_ms := Some now\<rparr>) (jn_db J2)"
proof -
  obtain payload where fresh: "find_decision i (jn_db J) = None"
    and 1: "jn_db J1 = audit_step F ''decision_bound'' payload now (add_decision b (jn_db J))"
    using bind_decision_ok [OF assms(1)] assms(3) by blast
  obtain payload' where 2: "jn_db J2 = audit_step F ''decision_consumed'' payload' now (consume_row i now (jn_db J1))"
    using consume_decision_ok [OF assms(2)] by blast
  let ?f = "\<lambda>d. if jd_id d = i \<and> jd_state d = De_Bound then d\<lparr>jd_state := De_Consumed, jd_consumed_ms := Some now\<rparr> else d"
  have "find_decision i (jn_db J1) = Some (bound_row b)"
    using fresh assms(3) by (simp add: 1 find_decision_def add_decision_def find_append_None bound_row_def)
  then have "find_decision i (jn_db J2) = Some (?f (bound_row b))"
    using find_map_key [of jd_id ?f i "db_decisions (jn_db J1)"] by (simp add: 2 find_decision_def consume_row_def)
  then show ?thesis using assms(3) by (simp add: consumed_row_def bound_row_def)
qed

lemma moves_consumed: "moves F P db db' \<Longrightarrow> consumed_row i d db \<Longrightarrow> consumed_row i d db'"
  by (induction rule: moves.induct) (auto dest: table_step_consumed)

lemma append_event_consumed:
  "consumed_row i d (host_db h) \<Longrightarrow> kind \<noteq> [] \<Longrightarrow> consumed_row i d (host_db (append_event F kind payload now h))"
  by (rule moves_consumed [where F = F and P = serving_op]) (simp_all add: append_event_moves moves.still quiet_serving)

lemma error_kind [simp]: "py_kind (make_error i c d) = ErrorView"
  by (simp add: make_error_def)

definition admitted_session :: "request \<Rightarrow> hook_session \<Rightarrow> string \<Rightarrow> u64 \<Rightarrow> hook_session" where
  "admitted_session r s action_hex tx =
     s\<lparr>hs_outstanding := put_entry (pq_tool_name r) \<lparr>ou_action_hex = action_hex, ou_transaction = tx\<rparr> (hs_outstanding s)\<rparr>"

lemma admit_call_result:
  assumes "admit_call F env r now s action_hex digest tx ack h = (reply, h')"
  obtains (refused) "kept h h'" "py_kind reply = ErrorView" "rh_sessions h' = rh_sessions h"
  | (admitted) i d where "kept h h'" "consumed_row i d (host_db h')" "jd_tx d = tx" "jd_generation d = rh_generation h" "jd_binding d = digest"
      "jd_expires d = now + 600000" "jd_token d = bundle_digest_of F (action_hex @ ''|'' @ pq_payload_sha256 r)"
      "rh_sessions h' = put_entry (pq_session_handle r) (admitted_session r s action_hex tx) (rh_sessions h)"
      "reply = ack\<lparr>py_verdict := ''not_governed'', py_reason_detail := ''action outside the governed write scope (observed, correlated)''\<rparr>"
proof -
  obtain i h1 where m: "mint F env h = (i, h1)" by (cases "mint F env h")
  have h1: "kept h h1" "rh_sessions h1 = rh_sessions h"
    using call_frame(3,4) [OF m] by simp_all
  let ?d = "\<lparr>bd_id = i, bd_token_hash = bundle_digest_of F (action_hex @ ''|'' @ pq_payload_sha256 r), bd_transaction = tx,
               bd_generation = rh_generation h, bd_binding_digest = digest, bd_expires_ms = now + 600000\<rparr>"
  obtain x h2 where b: "journaled (bind_decision F ?d now) h1 = (x, h2)" by (cases "journaled (bind_decision F ?d now) h1")
  have h2: "kept h h2" "rh_sessions h2 = rh_sessions h"
    using call_frame(1,2) [OF b] h1 by simp_all
  obtain y h3 where c: "journaled (consume_decision F i now) h2 = (y, h3)" by (cases "journaled (consume_decision F i now) h2")
  have h3: "kept h h3" "rh_sessions h3 = rh_sessions h"
    using call_frame(1,2) [OF c] h2 by simp_all
  show thesis
  proof (cases "isl x \<or> isl y")
    case True
    then show thesis using refused assms m b c h2 h3 by (cases x; cases y) (auto simp: admit_call_def)
  next
    case False
    then obtain u v where xy: "x = Inr u" "y = Inr v" by (cases x; cases y) auto
    have r: "reply = ack\<lparr>py_verdict := ''not_governed'', py_reason_detail := ''action outside the governed write scope (observed, correlated)''\<rparr>"
      and h': "h' = append_event F ''hook_admit'' (action_hex @ ''|'' @ pq_tool_name r) now
        (put_session (pq_session_handle r) (admitted_session r s action_hex tx) h3)"
      using assms m b c xy by (simp_all add: admit_call_def admitted_session_def)
    have "consumed_row i ((bound_row ?d)\<lparr>jd_state := De_Consumed, jd_consumed_ms := Some now\<rparr>) (host_db h3)"
      using bound_then_consumed [where b = ?d, OF call_result [OF b, unfolded xy] call_result [OF c, unfolded xy]]
      unfolding host_db_def by simp
    then have row: "consumed_row i ((bound_row ?d)\<lparr>jd_state := De_Consumed, jd_consumed_ms := Some now\<rparr>) (host_db h')"
      unfolding h' by (intro append_event_consumed) simp_all
    show thesis
      by (rule admitted [OF _ row _ _ _ _ _ _ r]) (simp_all add: h' h3 bound_row_def put_session_def)
  qed
qed

lemma record_judgment_result:
  assumes "record_judgment F env r now s extraction governed why ack0 h = (reply, h')"
    and "py_kind ack0 = HookAck"
  obtains (refused) "kept h h'" "py_kind reply = ErrorView \<or> py_verdict reply = ''deny''" "rh_sessions h' = rh_sessions h"
  | (admitted) i d tx where "\<not> governed" "kept h h'" "consumed_row i d (host_db h')" "jd_tx d = tx" "find_tx tx (host_db h) = None"
      "jd_generation d = rh_generation h" "jd_expires d = now + 600000"
      "jd_binding d = bundle_digest_of F (pq_payload_sha256 r @ ''|'' @ pq_tool_name r @ ''|'' @ pq_command r @ ''|'' @ pq_file_path r)"
      "jd_token d = bundle_digest_of F (py_action_id reply @ ''|'' @ pq_payload_sha256 r)"
      "rh_sessions h' = put_entry (pq_session_handle r) (admitted_session r s (py_action_id reply) tx) (rh_sessions h)"
      "py_verdict reply = ''not_governed''"
proof -
  obtain i h1 where m: "mint F env h = (i, h1)" by (cases "mint F env h")
  have h1: "kept h h1" "rh_sessions h1 = rh_sessions h" "host_db h1 = host_db h"
    using call_frame(3,4) [OF m] host_db_frame(17) [of F env h] m by simp_all
  let ?digest = "bundle_digest_of F (pq_payload_sha256 r @ ''|'' @ pq_tool_name r @ ''|'' @ pq_command r @ ''|'' @ pq_file_path r)"
  let ?t = "\<lparr>to_parent = None, to_correlation = hs_id_hex s @ ''|'' @ hex_lower i @ ''|'' @ pq_tool_name r,
    to_digest = ?digest, to_base = None\<rparr>"
  let ?ack = "ack0\<lparr>py_action_id := hex_lower i\<rparr>"
  obtain x h2 where t: "journaled (open_journal_transaction F ?t now) h1 = (x, h2)"
    by (cases "journaled (open_journal_transaction F ?t now) h1")
  have h2: "kept h h2" "rh_sessions h2 = rh_sessions h"
    using call_frame(1,2) [OF t] h1 by simp_all
  show thesis
  proof (cases "isl x \<or> governed")
    case True
    then show thesis using refused assms(1) m t h2
      by (cases x) (auto simp: record_judgment_def Let_def deny_ack_def split: if_splits)
  next
    case False
    then obtain tx where x: "x = Inr tx" by (cases x) auto
    have fresh: "find_tx tx (host_db h) = None"
      using open_journal_transaction_ok [OF call_result [OF t, unfolded x]] h1(3) unfolding host_db_def by metis
    have "admit_call F env r now s (hex_lower i) ?digest tx ?ack h2 = (reply, h')"
      using assms(1) m t x False by (simp add: record_judgment_def Let_def)
    then show thesis
    proof (cases rule: admit_call_result)
      case refused': refused
      have "kept h h'" using kept_trans [OF h2(1) refused'(1)] .
      then show thesis using refused refused' h2 by simp
    next
      case (admitted j d)
      have "kept h h'" using kept_trans [OF h2(1) admitted(1)] .
      moreover have "py_action_id reply = hex_lower i" using admitted(9) by simp
      ultimately show thesis
        using that(2) [OF _ _ admitted(2)] False fresh admitted h2 kept_fields(1) [OF h2(1)] by simp
    qed
  qed
qed

lemma hook_ack_kind [simp]: "py_kind (hook_ack r h) = HookAck"
  by (simp add: hook_ack_def)

text \<open>What \<^verbatim>\<open>handle_pre_tool\<close> does: it denies, or the call is admitted with everything that an admission needs.\<close>

definition admissible :: "host_env \<Rightarrow> request \<Rightarrow> u64 \<Rightarrow> host \<Rightarrow> hook_session \<Rightarrow> bool" where
  "admissible env r now h s \<longleftrightarrow>
     pq_tool_name r \<notin> hs_degraded_tools s \<and> map_of (hs_outstanding s) (pq_tool_name r) = None \<and>
     (\<exists>entry why. known_tool (cached_profile env h) (pq_tool_name r) = Some entry \<and>
        judge (cached_profile env h) (rh_repo_root h) (tl_extraction entry) r = Jm_Judged False why)"

lemma handle_pre_tool_result:
  assumes "handle_pre_tool F env r now h = (reply, h')"
  obtains (refused) h1 x where "ensure_session F env r now h = (x, h1)" "kept h h'" "py_kind reply = ErrorView \<or> py_verdict reply = ''deny''"
      "rh_sessions h' = rh_sessions h1"
  | (admitted) h1 s i d tx where "ensure_session F env r now h = (Some s, h1)" "admissible env r now h s" "kept h h'"
      "consumed_row i d (host_db h')" "jd_tx d = tx" "find_tx tx (host_db h1) = None"
      "jd_generation d = rh_generation h" "jd_expires d = now + 600000"
      "jd_binding d = bundle_digest_of F (pq_payload_sha256 r @ ''|'' @ pq_tool_name r @ ''|'' @ pq_command r @ ''|'' @ pq_file_path r)"
      "jd_token d = bundle_digest_of F (py_action_id reply @ ''|'' @ pq_payload_sha256 r)"
      "rh_sessions h' = put_entry (pq_session_handle r) (admitted_session r s (py_action_id reply) tx) (rh_sessions h1)"
      "py_verdict reply = ''not_governed''"
proof -
  obtain x h1 where e: "ensure_session F env r now h = (x, h1)" by (cases "ensure_session F env r now h")
  have k: "kept h h1" using ensure_session_result [OF e] by simp
  note f = kept_fields [OF k]
  have through: "kept h h2" if "kept h1 h2" for h2 using kept_trans [OF k that] .
  show thesis
  proof (cases "\<exists>s. x = Some s \<and> pq_tool_name r \<notin> hs_degraded_tools s \<and> map_of (hs_outstanding s) (pq_tool_name r) = None \<and>
      (\<exists>entry governed why. known_tool (cached_profile env h) (pq_tool_name r) = Some entry \<and>
        judge (cached_profile env h) (rh_repo_root h) (tl_extraction entry) r = Jm_Judged governed why)")
    case False
    then show thesis using assms e f k
      by (cases x) (auto simp: handle_pre_tool_def Let_def deny_ack_def intro: refused [OF e] split: if_splits option.splits hook_judgment.splits)
  next
    case True
    then obtain s entry governed why where s: "x = Some s" "pq_tool_name r \<notin> hs_degraded_tools s"
      "map_of (hs_outstanding s) (pq_tool_name r) = None" "known_tool (cached_profile env h) (pq_tool_name r) = Some entry"
      "judge (cached_profile env h) (rh_repo_root h) (tl_extraction entry) r = Jm_Judged governed why"
      by blast
    let ?ack = "(hook_ack r h)\<lparr>py_session_id := hs_id_hex s, py_refresh := refresh_state_now h1 now\<rparr>"
    have run: "record_judgment F env r now s (tl_extraction entry) governed why ?ack h1 = (reply, h')"
      using assms e s f by (simp add: handle_pre_tool_def Let_def)
    have ack: "py_kind ?ack = HookAck" by simp
    from run ack show thesis
    proof (cases rule: record_judgment_result)
      case refused': refused
      show thesis by (rule refused [OF e through [OF refused'(1)] refused'(2,3)])
    next
      case (admitted i d tx)
      have "admissible env r now h s" using s admitted(1) by (auto simp: admissible_def)
      then show thesis
        using that(2) [OF e [unfolded s(1)] _ through [OF admitted(2)] admitted(3-5) _ admitted(7-11)] admitted(6) f(1) by simp
    qed
  qed
qed

section \<open>What every step keeps\<close>

lemma update_session_inv:
  assumes "host_inv (h\<lparr>rh_sessions := ss\<rparr>)" "moves F P (host_db h) (host_db h')" "session_inv (host_db h') s"
    and "rh_sessions h' = put_entry key s ss"
  shows "host_inv h'"
proof -
  have "host_inv (h'\<lparr>rh_sessions := ss\<rparr>)" using host_inv_moves [OF assms(1), where F = F and P = P] assms(2) by simp
  then have "host_inv (put_session key s (h'\<lparr>rh_sessions := ss\<rparr>))" using put_session_inv assms(3) by simp
  moreover have "put_session key s (h'\<lparr>rh_sessions := ss\<rparr>) = h'\<lparr>rh_sessions := put_entry key s ss\<rparr>" by (simp add: put_session_def)
  then have "put_session key s (h'\<lparr>rh_sessions := ss\<rparr>) = h'" unfolding assms(4) [symmetric] by simp
  ultimately show ?thesis by simp
qed

lemma degrade_rows_calls [simp]: "hs_outstanding (degrade_rows offered rows s) = hs_outstanding s"
  by (induction rows arbitrary: s) simp_all

lemma check_manifest_calls [simp]: "hs_outstanding (check_manifest env h tools s) = hs_outstanding s"
  by (simp add: check_manifest_def split: sum.split)

lemma handle_hook_event_inv:
  assumes "host_inv h"
  shows "host_inv (snd (handle_hook_event F env r now h))"
proof -
  obtain x h1 where e: "ensure_session F env r now h = (x, h1)" by (cases "ensure_session F env r now h")
  note i = ensure_session_inv [OF e assms]
  have m1: "moves F serving_op (host_db h) (host_db h1)" using ensure_session_moves [OF moves.still] e by (metis snd_conv)
  let ?h' = "snd (handle_hook_event F env r now h)"
  have m: "moves F serving_op (host_db h) (host_db ?h')" by (rule handle_hook_event_moves [OF moves.still])
  have si: "session_inv (host_db ?h') s" if "x = Some s" for s using moves_session_inv [OF m] i that by blast
  consider (start) "pq_event r = ''session_start''" | (pre) "pq_event r = ''pre_tool''"
    | (post) "pq_event r \<noteq> ''session_start''" "pq_event r \<noteq> ''pre_tool''" by blast
  then show ?thesis
  proof cases
    case start
    show ?thesis
    proof (cases x)
      case None
      then show ?thesis using host_inv_moves [OF conjunct1 [OF i], of h1 F serving_op] m1 e start
        by (simp add: handle_hook_event_def handle_session_start_def)
    next
      case (Some s)
      have "rh_sessions ?h' = put_entry (pq_session_handle r) (check_manifest env h1 (pq_mediated_tools r) s) (rh_sessions h1)"
        using e Some start by (simp add: handle_hook_event_def handle_session_start_def Let_def put_session_def)
      moreover have "session_inv (host_db ?h') (check_manifest env h1 (pq_mediated_tools r) s)"
        using si [OF Some] by (simp add: session_inv_def)
      ultimately show ?thesis using update_session_inv [OF conjunct1 [OF i] m] by blast
    qed
  next
    case pre
    then have run: "handle_pre_tool F env r now h = (fst (handle_pre_tool F env r now h), ?h')" by (simp add: handle_hook_event_def)
    then show ?thesis
    proof (cases rule: handle_pre_tool_result)
      case (refused h2 y)
      then show ?thesis using host_inv_moves [OF conjunct1 [OF i] _, of ?h' F serving_op] m e by simp
    next
      case (admitted h2 s j d tx)
      have "session_inv (host_db ?h') s" using si e admitted(1) by simp
      then have "session_inv (host_db ?h') (admitted_session r s (py_action_id (fst (handle_pre_tool F env r now h))) tx)"
        using admitted(4,5) by (auto simp: session_inv_def admitted_session_def put_entry_keyed set_put_entry set_drop_entry backed_def)
      then show ?thesis using update_session_inv [OF conjunct1 [OF i] m] admitted(1,11) e by simp
    qed
  next
    case post
    show ?thesis
    proof (cases "\<exists>s c. x = Some s \<and> map_of (hs_outstanding s) (pq_tool_name r) = Some c")
      case True
      then obtain s c where s: "x = Some s" "map_of (hs_outstanding s) (pq_tool_name r) = Some c" by blast
      have "rh_sessions ?h' = put_entry (pq_session_handle r) (s\<lparr>hs_outstanding := drop_entry (pq_tool_name r) (hs_outstanding s)\<rparr>) (rh_sessions h1)"
        using e s post call_frame(4) [of F env h1]
        by (auto simp: handle_hook_event_def handle_post_tool_def Let_def put_session_def split: prod.split)
      moreover have "session_inv (host_db ?h') (s\<lparr>hs_outstanding := drop_entry (pq_tool_name r) (hs_outstanding s)\<rparr>)"
        using si [OF s(1)] by (auto simp: session_inv_def drop_entry_keyed set_drop_entry)
      ultimately show ?thesis using update_session_inv [OF conjunct1 [OF i] m] by blast
    next
      case False
      then have "rh_sessions ?h' = rh_sessions h1"
        using e post by (cases x) (auto simp: handle_hook_event_def handle_post_tool_def Let_def split: option.split)
      then show ?thesis using host_inv_moves [OF conjunct1 [OF i] _, of ?h' F serving_op] m by simp
    qed
  qed
qed

section \<open>Runs\<close>

datatype host_step =
    Step_Request host_env request u64
  | Step_Shutdown
  | Step_Drain u64
  | Step_Audit string string u64
  | Step_Start
  | Step_Decide bool u64
  | Step_Attempt host_env publish_system fetch_run u64

type_synonym host_state = "host \<times> bundle_disk"

fun run_step :: "foundation \<Rightarrow> host_step \<Rightarrow> host_state \<Rightarrow> reply list \<times> host_state" where
  "run_step F (Step_Request env r now) (h, disk) = (case handle F env r now h of (reply, h') \<Rightarrow> ([reply], h', disk))"
| "run_step F Step_Shutdown (h, disk) = ([], request_shutdown h, disk)"
| "run_step F (Step_Drain now) (h, disk) = ([], drain_host F now h, disk)"
| "run_step F (Step_Audit kind detail now) (h, disk) = ([], record_audit F kind detail now h, disk)"
| "run_step F Step_Start (h, disk) = ([], start_refresh_worker h, disk)"
| "run_step F (Step_Decide due now) (h, disk) = ([], snd (worker_decide due now h), disk)"
| "run_step F (Step_Attempt env sys fetch now) (h, disk) = ([], worker_attempt F env sys fetch now (h, disk))"

fun run_steps :: "foundation \<Rightarrow> host_step list \<Rightarrow> host_state \<Rightarrow> reply list \<times> host_state" where
  "run_steps F [] st = ([], st)"
| "run_steps F (a # as) st =
     (case run_step F a st of (rs, st1) \<Rightarrow> case run_steps F as st1 of (rs', st2) \<Rightarrow> (rs @ rs', st2))"

text \<open>An embedder names its audit notes.\<close>

fun step_fit :: "host_step \<Rightarrow> bool" where
  "step_fit (Step_Audit kind detail now) \<longleftrightarrow> kind \<noteq> []"
| "step_fit _ \<longleftrightarrow> True"

text \<open>The steps that are not hook events only note, store and advance.\<close>

lemma read_only_acts: "read_only audit_event_count" "read_only max_generation_id" "read_only checkpoint" "read_only (get_meta key)"
  "read_only (verify_audit_chain F)"
  by (auto simp: audit_event_count_def max_generation_id_def get_meta_def read_meta_def checkpoint_def read_only_def exec_sql_def
      read_only_checks [unfolded read_only_def] query_def run_sql_def split: option.splits)

lemma journaled_reads: "read_only a \<Longrightarrow> host_db (snd (journaled a h)) = host_db h"
  using read_onlyD [of a "rh_journal h" "fst (a (rh_journal h))" "snd (a (rh_journal h))"] by (simp add: journaled_eq host_db_def)

lemma activate_generation_moves [host_moves]:
  assumes "moves F P db (jn_db J)" and "\<And>op. quiet_op op \<Longrightarrow> P op"
  shows "moves F P db (jn_db (snd (activate_generation F bdg pdg build now J)))"
proof -
  obtain x J1 where 1: "max_generation_id J = (x, J1)" by (cases "max_generation_id J")
  have d: "jn_db J1 = jn_db J" using read_onlyD [OF read_only_acts(2) 1] .
  show ?thesis
  proof (cases x)
    case (Inr m)
    have "snd (activate_generation F bdg pdg build now J) = snd (advance_generation F (m + 1) bdg pdg build now J1)"
      using 1 Inr by (auto simp: activate_generation_def and_then_def ret_def split: prod.splits sum.splits)
    then show ?thesis using moves_notes(3) [of F P db J1] assms d by simp
  qed (use 1 assms d in \<open>simp add: activate_generation_def and_then_def\<close>)
qed

lemma drain_calls_moves: "moves F quiet_op db (host_db h) \<Longrightarrow> moves F quiet_op db (host_db (drain_calls F now calls h))"
  by (induction calls arbitrary: h) (auto simp: append_event_moves)

lemma drain_calls_sessions [simp]: "rh_sessions (drain_calls F now calls h) = rh_sessions h"
  by (induction calls arbitrary: h) auto

lemma drain_fold:
  "moves F quiet_op db (host_db h) \<Longrightarrow>
     moves F quiet_op db (host_db (fold (\<lambda>(key, s). drain_calls F now (hs_outstanding s)) ss h)) \<and>
     rh_sessions (fold (\<lambda>(key, s). drain_calls F now (hs_outstanding s)) ss h) = rh_sessions h"
  by (induction ss arbitrary: h) (auto simp: drain_calls_moves)

lemma drain_host_moves:
  "moves F quiet_op (host_db h) (host_db (drain_host F now h))"
  "rh_sessions (drain_host F now h) = map (\<lambda>(key, s). (key, s\<lparr>hs_outstanding := []\<rparr>)) (rh_sessions h)"
  using drain_fold [of F "host_db h" "begin_drain h" now "rh_sessions h"]
  by (simp_all add: drain_host_def Let_def journaled_reads read_only_acts moves.still)

lemma refresh_swap_moves:
  assumes "refresh_swap F env now published h = (state, h')"
  shows "moves F quiet_op (host_db h) (host_db h') \<and> rh_sessions h' = rh_sessions h"
proof (cases published)
  case (Inl detail)
  then show ?thesis using assms append_event_moves [of F quiet_op "host_db h" h] moves.still [of F quiet_op "host_db h"]
    by (auto simp: refresh_swap_def split: if_splits)
next
  case (Inr pl)
  let ?act = "activate_generation F (pl_bundle_digest pl) (rh_profile_digest h) (rh_build_id h) now"
  obtain x h1 where a: "journaled ?act h = (x, h1)" by (cases "journaled ?act h")
  have h1: "moves F quiet_op (host_db h) (host_db h1)" "rh_sessions h1 = rh_sessions h"
    using activate_generation_moves [OF moves.still, of quiet_op F "rh_journal h"] call_result [OF a] call_frame(2) [OF a]
    unfolding host_db_def by (metis snd_conv, simp)
  have key: "''last_refresh_ok_ms'' \<notin> reserved_keys" by (simp add: reserved_keys_def)
  have stored: "moves F quiet_op (host_db h) (host_db (append_event F ''cognition_refreshed'' t now
      (snd (journaled (set_meta ''last_refresh_ok_ms'' v) k))))" if "moves F quiet_op (host_db h) (host_db k)" for t v k
  proof (rule append_event_moves)
    show "moves F quiet_op (host_db h) (host_db (snd (journaled (set_meta ''last_refresh_ok_ms'' v) k)))"
      using moves_notes(2) [of F quiet_op _ "rh_journal k", OF _ _ key] that by (simp add: journaled_eq host_db_def)
  qed simp_all
  show ?thesis
    using assms Inr a h1 stored [of h] stored [of h1] moves.still [of F quiet_op "host_db h"]
    by (cases x) (auto simp: refresh_swap_def append_event_moves stored split: if_splits)
qed

lemma worker_attempt_moves:
  assumes "worker_attempt F env sys fetch now (h, disk) = (h', disk')"
  shows "moves F quiet_op (host_db h) (host_db h') \<and> (\<exists>p. rh_sessions h' = filter p (rh_sessions h))"
proof -
  have here: "\<exists>p. rh_sessions h = filter p (rh_sessions h)" by (rule exI [of _ "\<lambda>_. True"]) simp
  have ended: "moves F quiet_op (host_db h) (host_db (evict_idle_sessions now (k\<lparr>rh_refresh_state := state, rh_last_attempt_ms := now\<rparr>))) \<and>
      (\<exists>p. rh_sessions (evict_idle_sessions now (k\<lparr>rh_refresh_state := state, rh_last_attempt_ms := now\<rparr>)) = filter p (rh_sessions h))"
    if "refresh_swap F env now published h = (state, k)" for published state k
    using refresh_swap_moves [OF that] by (auto simp: evict_idle_sessions_def)
  have fault: "moves F quiet_op (host_db h) (host_db (append_event F ''refresh_fault'' t now (h\<lparr>rh_refresh_state := st, rh_last_attempt_ms := now\<rparr>)))"
    for t st by (rule append_event_moves) (simp_all add: moves.still)
  show ?thesis
    using assms ended fault here
    by (auto simp: worker_attempt_def Let_def split: if_splits prod.splits option.splits sum.splits)
qed

text \<open>The end of a shutdown: a host that drains goes on draining.\<close>

lemma drain_calls_frame [simp]: "rh_shutting_down (drain_calls F now calls h) = rh_shutting_down h"
  by (induction F now calls h rule: drain_calls.induct) (simp_all add: append_event_eq)

lemma drain_fold_frame: "rh_shutting_down (fold (\<lambda>(key, s). drain_calls F now (hs_outstanding s)) ss h) = rh_shutting_down h"
  by (induction ss arbitrary: h) (simp_all split: prod.split)

lemma drain_host_shut: "rh_shutting_down (drain_host F now h)"
  by (simp add: drain_host_def Let_def journaled_eq drain_fold_frame begin_drain_def)

lemma refresh_swap_shut: "refresh_swap F env now published h = (state, h') \<Longrightarrow> rh_shutting_down h' = rh_shutting_down h"
  by (auto simp: refresh_swap_def append_event_eq journaled_eq split: sum.splits if_splits prod.splits)

lemma worker_attempt_shut:
  "worker_attempt F env sys fetch now (h, disk) = (h', disk') \<Longrightarrow> rh_shutting_down h' = rh_shutting_down h"
  using refresh_swap_shut
  by (auto simp: worker_attempt_def Let_def evict_idle_sessions_def append_event_eq split: if_splits prod.splits option.splits sum.splits)

text \<open>What a request other than a hook event does.\<close>

lemma handle_other:
  assumes "handle F env r now h = (reply, h')" and "pq_kind r \<noteq> HookEvent \<or> rh_state h \<noteq> ''running'' \<or> rh_shutting_down h"
  shows "moves F quiet_op (host_db h) (host_db h') \<and> rh_sessions h' = rh_sessions h \<and> py_kind reply \<noteq> HookAck \<and>
    (rh_shutting_down h \<longrightarrow> rh_shutting_down h')"
proof (cases "pq_kind r")
  case Refresh
  let ?k = "if rh_worker_running h then h\<lparr>rh_refresh_pending := True\<rparr> else h"
  have "moves F quiet_op (host_db h) (host_db (append_event F ''refresh_triggered'' t now ?k))" for t
    by (rule append_event_moves) (simp_all add: moves.still)
  then show ?thesis using assms Refresh by (auto simp: handle_def refresh_reply_def Let_def append_event_eq)
next
  case Shutdown
  then show ?thesis using assms append_event_moves [OF moves.still, of quiet_op "''shutdown_requested''" F h]
    by (auto simp: handle_def) (auto simp: begin_drain_def append_event_eq)
next
  case Status
  then show ?thesis using assms journaled_reads [OF read_only_acts(1), of h] moves.still [of F quiet_op "host_db h"]
    by (auto simp: handle_def status_reply_def journaled_eq)
next
  case Doctor
  then show ?thesis using assms journaled_reads [OF read_only_acts(5), of F h] moves.still [of F quiet_op "host_db h"]
    by (auto simp: handle_def doctor_reply_def Let_def journaled_eq)
qed (use assms in \<open>auto simp: handle_def moves.still\<close>)

lemma handle_step:
  assumes "handle F env r now h = (reply, h')" "host_inv h"
  shows "moves F serving_op (host_db h) (host_db h') \<and> host_inv h'"
proof (cases "pq_kind r \<noteq> HookEvent \<or> rh_state h \<noteq> ''running'' \<or> rh_shutting_down h")
  case True
  note o = handle_other [OF assms(1) True]
  show ?thesis using host_inv_moves [OF assms(2), of h'] o moves_mono [of F quiet_op _ _ serving_op] quiet_serving by blast
next
  case False
  then have "handle_hook_event F env r now h = (reply, h')" using assms(1) by (simp add: handle_def)
  then show ?thesis
    using handle_hook_event_moves [OF moves.still, of F h env r now] handle_hook_event_inv [OF assms(2), of F env r now] by (metis snd_conv)
qed

lemma host_inv_subset:
  assumes "host_inv h" "rh_sessions h' = map (\<lambda>(key, s). (key, f s)) (filter p (rh_sessions h))" "moves F P (host_db h) (host_db h')"
    and "\<And>s. hs_outstanding (f s) = hs_outstanding s \<or> hs_outstanding (f s) = []"
  shows "host_inv h'"
proof -
  have "map fst (rh_sessions h') = map fst (filter p (rh_sessions h))"
    unfolding assms(2) by (simp add: case_prod_unfold)
  then have "keyed (rh_sessions h')" using filter_keyed [of "rh_sessions h" p] assms(1) by (simp add: keyed_def host_inv_def)
  moreover have "session_inv (host_db h') (f s)" if "(key, s) \<in> set (rh_sessions h)" for key s
  proof -
    have "session_inv (host_db h') s" using that assms(1) moves_session_inv [OF assms(3)] by (auto simp: host_inv_def)
    then show ?thesis using assms(4) [of s] by (auto simp: session_inv_def keyed_def)
  qed
  ultimately show ?thesis by (auto simp: host_inv_def assms(2))
qed

lemma worker_decide_frame [simp]:
  "rh_sessions (snd (worker_decide due now h)) = rh_sessions h" "rh_journal (snd (worker_decide due now h)) = rh_journal h"
  "rh_shutting_down (snd (worker_decide due now h)) = rh_shutting_down h"
  by (simp_all add: worker_decide_def)

lemma run_step_keeps:
  assumes "run_step F a (h, disk) = (rs, h', disk')" "step_fit a" "host_inv h"
  shows "moves F serving_op (host_db h) (host_db h') \<and> host_inv h'"
proof -
  have quiet: ?thesis if "moves F quiet_op (host_db h) (host_db h')"
      "rh_sessions h' = map (\<lambda>(key, s). (key, f s)) (filter p (rh_sessions h))"
      "\<And>s. hs_outstanding (f s) = hs_outstanding s \<or> hs_outstanding (f s) = []" for f p
    using host_inv_subset [OF assms(3) that(2,1,3)] moves_mono [OF that(1)] quiet_serving by blast
  note same = quiet [of id "\<lambda>_. True"]
  show ?thesis
  proof (cases a)
    case (Step_Request env r now)
    then have "handle F env r now h = (hd rs, h')" using assms(1) by (auto split: prod.splits)
    then show ?thesis using handle_step assms(3) by blast
  next
    case (Step_Drain now)
    then show ?thesis using quiet [of "\<lambda>s. s\<lparr>hs_outstanding := []\<rparr>" "\<lambda>_. True"] drain_host_moves [where F = F and h = h and now = now] assms(1) by simp
  next
    case (Step_Attempt env sys fetch now)
    then have "worker_attempt F env sys fetch now (h, disk) = (h', disk')" using assms(1) by simp
    then obtain p where "moves F quiet_op (host_db h) (host_db h')" "rh_sessions h' = filter p (rh_sessions h)"
      using worker_attempt_moves by blast
    then show ?thesis using quiet [of id p] by simp
  next
    case (Step_Audit kind detail now)
    then have "h' = append_event F kind detail now h" "kind \<noteq> []" using assms(1,2) by (simp_all add: record_audit_def)
    then show ?thesis using same append_event_moves [OF moves.still, of quiet_op kind F h detail now] by simp
  qed (use same assms(1) moves.still [of F quiet_op "host_db h"] in
      \<open>auto simp: request_shutdown_def start_refresh_worker_def begin_drain_def host_db_def\<close>)
qed

lemma run_step_draining:
  assumes "run_step F a (h, disk) = (rs, h', disk')" "step_fit a" "rh_shutting_down h"
  shows "rh_shutting_down h' \<and> moves F quiet_op (host_db h) (host_db h') \<and> (\<forall>reply \<in> set rs. py_kind reply \<noteq> HookAck) \<and>
    fst ` set (rh_sessions h') \<subseteq> fst ` set (rh_sessions h)"
proof (cases a)
  case (Step_Request env r now)
  then have "handle F env r now h = (hd rs, h')" "rs = [hd rs]" using assms(1) by (auto split: prod.splits)
  then show ?thesis using handle_other [of F env r now h "hd rs" h'] assms(3) by (metis empty_set insert_iff list.simps(15) singletonD subset_refl)
next
  case (Step_Drain now)
  then show ?thesis using drain_host_moves [where F = F and h = h and now = now] drain_host_shut [of F now h] assms(1) by force
next
  case (Step_Attempt env sys fetch now)
  then have w: "worker_attempt F env sys fetch now (h, disk) = (h', disk')" "rs = []" using assms(1) by simp_all
  then show ?thesis using worker_attempt_moves [OF w(1)] worker_attempt_shut [OF w(1)] assms(3) by auto
next
  case (Step_Audit kind detail now)
  then show ?thesis using assms append_event_moves [OF moves.still, of quiet_op kind F h]
    by (auto simp: record_audit_def) (auto simp: append_event_eq)
qed (use assms moves.still [of F quiet_op "host_db h"] in
    \<open>auto simp: request_shutdown_def start_refresh_worker_def begin_drain_def host_db_def\<close>)

lemma quiet_table_step: "table_step F now epoch op db db' \<Longrightarrow> quiet_op op \<Longrightarrow> db_transactions db' = db_transactions db \<and> db_sessions db' = db_sessions db"
  by (induction rule: table_step.induct)
     (auto simp: audit_step_def touched_def logged_def add_audit_def add_generation_def mark_stale_def retire_generations_def split: option.split)

lemma quiet_moves: "moves F quiet_op db db' \<Longrightarrow> db_transactions db' = db_transactions db \<and> db_sessions db' = db_sessions db"
  by (induction rule: moves.induct) (auto dest: quiet_table_step)

text \<open>Opening a session leaves the transactions alone.\<close>

lemma ensure_session_transactions:
  assumes "ensure_session F env r now h = (x, h1)"
  shows "db_transactions (host_db h1) = db_transactions (host_db h)"
proof (cases "map_of (rh_sessions h) (pq_session_handle r)")
  case None
  obtain i k where m: "mint F env h = (i, k)" by (cases "mint F env h")
  have k: "host_db k = host_db h" using host_db_frame(17) [of F env h] m by simp
  let ?s = "\<lparr>so_generation = rh_generation h, so_actor = None, so_harness = ''zcode''\<rparr>"
  obtain y h2 where o: "journaled (open_session F ?s now) k = (y, h2)" by (cases "journaled (open_session F ?s now) k")
  have "table_step F now (jn_boot_epoch (rh_journal k)) (Op_Session ?s) (host_db k) (host_db h2)"
    using run_op_step [of F now "Op_Session ?s" "rh_journal k"] call_result [OF o] snd_yielding [of Res_Id "open_session F ?s now" "rh_journal k"]
    unfolding host_db_def by (metis prod.collapse run_op.simps(1) snd_conv)
  then have "db_transactions (host_db h2) = db_transactions (host_db k)"
    by (cases rule: table_step.cases) (auto simp: audit_step_def touched_def logged_def add_audit_def add_session_def)
  moreover have "db_transactions (host_db (append_event F kind p now g)) = db_transactions (host_db g)" if "kind \<noteq> []" for kind p g
    using quiet_moves [OF append_event_moves [OF moves.still _ that]] by blast
  ultimately show ?thesis using assms None m o k by (cases y) (auto simp: ensure_session_def Let_def)
qed (use assms in \<open>auto simp: ensure_session_def Let_def\<close>)

end
