(* ===== verification/Host_Properties.thy ===== *)
theory Host_Properties
  imports Host_Runs Journal_Limits
begin

text \<open>
  What the runtime host promises: an admitted call has everything an admission needs and a consumed decision of its
  own, an admissible call on a healthy journal is admitted, every run keeps the audit chain, the life cycles and one
  call per tool, and a host that drains admits nothing more.
\<close>

section \<open>Commands on a healthy journal\<close>

text \<open>The database answers, its tables are sound and have room for \<open>n\<close> events, and neither guard denies.\<close>

definition ready :: "foundation \<Rightarrow> nat \<Rightarrow> u64 \<Rightarrow> journal \<Rightarrow> bool" where
  "ready F n now J \<longleftrightarrow>
     faultless J \<and> journal_inv F (jn_db J) \<and> \<not> in_quarantine (jn_db J) \<and> \<not> clock_behind now (jn_db J) \<and> room n (jn_db J)"

lemma calm_command:
  assumes "faultless J" "\<not> in_quarantine (jn_db J)" "\<not> clock_behind now (jn_db J)"
    and "body (tick (tick ((tick J)\<lparr>jn_quarantined := False\<rparr>))) = (Inr x, K)" "faultless K"
  shows "command now body J = (Inr x, tick K)"
  using assms by (simp add: command_def calm_guards) (simp add: txn_def calm_run)

lemma audit_step_guards:
  assumes "\<not> in_quarantine db" "\<not> clock_behind now db" "now \<le> now + 300000"
  shows "\<not> in_quarantine (audit_step F kind payload now db)" "\<not> clock_behind now (audit_step F kind payload now db)"
proof -
  let ?l = "case parsed_wall db of Some l \<Rightarrow> if now < l then l else now | None \<Rightarrow> now"
  have m: "db_meta (audit_step F kind payload now db) = (db_meta db)(''last_wall_ms'' \<mapsto> to_string_u64 ?l)"
    by (simp add: audit_step_def touched_def logged_def add_audit_def parsed_wall_def)
  then show "\<not> in_quarantine (audit_step F kind payload now db)" using assms(1) by (simp add: in_quarantine_def)
  have "parsed_wall (audit_step F kind payload now db) = Some ?l" by (simp add: parsed_wall_def m stored_number_roundtrip)
  then show "\<not> clock_behind now (audit_step F kind payload now db)"
    using assms(2,3) by (auto simp: clock_behind_def split: option.splits)
qed

lemma audit_step_room: "room (Suc n) db \<Longrightarrow> room n (audit_step F kind payload now db)"
  by (simp add: room_def audit_step_def touched_def logged_def add_audit_def)

context journal_foundation
begin

text \<open>A command whose statements before the audit row take \<open>J\<close> to the tables \<open>db\<close>.\<close>

lemma ready_command:
  assumes act: "act = command now body" and r: "ready F (Suc n) now J" and w: "now \<le> now + 300000"
    and run: "body (tick (tick ((tick J)\<lparr>jn_quarantined := False\<rparr>))) = audited F kind payload now x K"
    and K: "faultless K" "chain_inv F (jn_db K)" "db_seq (jn_db K) = db_seq (jn_db J)" "db_meta (jn_db K) = db_meta (jn_db J)"
    and small: "length kind \<le> 100" "length payload \<le> payload_capacity_limit"
  shows "\<exists>J'. act J = (Inr x, J') \<and> faultless J' \<and> jn_db J' = audit_step F kind payload now (jn_db K) \<and>
    \<not> in_quarantine (jn_db J') \<and> \<not> clock_behind now (jn_db J') \<and> room n (jn_db J')"
proof -
  have seq: "room (Suc n) (jn_db K)" using r unfolding ready_def room_def K(3) by blast
  then have "room 1 (jn_db K)" by (simp add: room_def)
  then have l: "loggable F kind (jn_db K)" by (rule chain_loggable [OF K(2) _ small(1)])
  obtain K' where K': "audited F kind payload now x K = (Inr x, K')" "faultless K'"
    "jn_db K' = audit_step F kind payload now (jn_db K)"
    by (rule calm_audited [OF K(1) l small(2)])
  have guards: "\<not> in_quarantine (jn_db K)" "\<not> clock_behind now (jn_db K)"
    using r unfolding ready_def in_quarantine_def clock_behind_def parsed_wall_def K(4) by blast+
  have J: "faultless J" "\<not> in_quarantine (jn_db J)" "\<not> clock_behind now (jn_db J)" using r by (simp_all add: ready_def)
  have "command now body J = (Inr x, tick K')" by (rule calm_command [where body = body, OF J trans [OF run K'(1)] K'(2)])
  then have "act J = (Inr x, tick K')" unfolding act .
  moreover have "\<not> in_quarantine (jn_db (tick K'))" "\<not> clock_behind now (jn_db (tick K'))" "room n (jn_db (tick K'))"
    by (simp_all only: tick_sel K'(3) audit_step_guards [OF guards w] audit_step_room [OF seq] not_False_eq_True)
  moreover have "faultless (tick K')" "jn_db (tick K') = audit_step F kind payload now (jn_db K)" by (simp_all add: K')
  ultimately show ?thesis by blast
qed

lemma ready_inv: "ready F n now J \<Longrightarrow> op_fit op \<Longrightarrow> journal_inv F (jn_db (snd (run_op F now op J)))"
  by (rule run_op_inv) (simp_all add: ready_def)

lemma ready_transaction:
  assumes r: "ready F (Suc n) now J" and w: "now \<le> now + 300000"
    and fresh: "find_tx (next_id (map jt_id (db_transactions (jn_db J)))) (jn_db J) = None"
    and t: "to_parent t = None" "to_base t = None" "length (to_digest t) = 32" "length (to_correlation t) \<le> 10000"
  obtains J' where "open_journal_transaction F t now J = (Inr (next_id (map jt_id (db_transactions (jn_db J)))), J')" "ready F n now J'"
    "db_transactions (jn_db J') = db_transactions (jn_db J) @ [new_tx (next_id (map jt_id (db_transactions (jn_db J)))) (jn_boot_epoch J) t]"
    "db_decisions (jn_db J') = db_decisions (jn_db J)"
proof -
  let ?i = "next_id (map jt_id (db_transactions (jn_db J)))"
  let ?J = "tick (tick ((tick J)\<lparr>jn_quarantined := False\<rparr>))"
  let ?db = "(jn_db J)\<lparr>db_transactions := db_transactions (jn_db J) @ [new_tx ?i (jn_boot_epoch J) t]\<rparr>"
  let ?K = "(tick (tick ?J))\<lparr>jn_db := ?db\<rparr>"
  let ?payload = "enc_u64 F ?i @ enc_u64 F (jn_boot_epoch J) @
        (case to_parent t of Some p \<Rightarrow> enc_u64 F 1 @ enc_u64 F p | None \<Rightarrow> enc_u64 F 0) @
        put_str F (to_correlation t) @ to_digest t @ put_opt_str F (to_base t)"
  have J: "faultless J" "chain_inv F (jn_db J)" using r by (simp_all add: ready_def journal_inv_def)
  have "\<exists>J'. open_journal_transaction F t now J = (Inr ?i, J') \<and> faultless J' \<and>
    jn_db J' = audit_step F ''transaction_opened'' ?payload now (jn_db ?K) \<and> \<not> in_quarantine (jn_db J') \<and> \<not> clock_behind now (jn_db J') \<and>
    room n (jn_db J')"
    by (rule ready_command [OF open_journal_transaction_def r w, where K = ?K and kind = "''transaction_opened''" and payload = ?payload and x = ?i])
       (use J fresh t in \<open>simp_all add: Let_def calm_run chain_inv_def put_opt_str_def payload_capacity_limit_def\<close>)
  then obtain J' where J': "open_journal_transaction F t now J = (Inr ?i, J')" "faultless J'"
    "jn_db J' = audit_step F ''transaction_opened'' ?payload now ?db" "\<not> in_quarantine (jn_db J')" "\<not> clock_behind now (jn_db J')" "room n (jn_db J')"
    by auto
  have "journal_inv F (jn_db J')" using ready_inv [OF r, of "Op_Transaction t"] J'(1) by simp
  then have "ready F n now J'" using J' by (simp add: ready_def)
  then show thesis using that [OF J'(1)] J'(3) by (simp add: audit_step_def touched_def logged_def add_audit_def)
qed

lemma ready_bind:
  assumes r: "ready F (Suc n) now J" and w: "now \<le> now + 300000"
    and tx: "find_tx (bd_transaction d) (jn_db J) = Some t" "tx_open (jt_state t)"
    and fresh: "find_decision (bd_id d) (jn_db J) = None" "bd_token_hash d \<notin> jd_token ` set (db_decisions (jn_db J))"
    and l: "length (bd_id d) = 16" "length (bd_token_hash d) = 32" "length (bd_binding_digest d) = 32"
  obtains J' where "bind_decision F d now J = (Inr (), J')" "ready F n now J'" "db_decisions (jn_db J') = db_decisions (jn_db J) @ [bound_row d]"
proof -
  let ?J = "tick (tick ((tick J)\<lparr>jn_quarantined := False\<rparr>))"
  let ?db = "set_tx_state (bd_transaction d) {Tx_Observed, Tx_Judging} Tx_Decided
    ((jn_db J)\<lparr>db_decisions := db_decisions (jn_db J) @ [bound_row d]\<rparr>)"
  let ?K = "(tick (tick (tick ?J)))\<lparr>jn_db := ?db\<rparr>"
  let ?payload = "bd_id d @ bd_token_hash d @ enc_u64 F (bd_transaction d) @ enc_u64 F (bd_generation d) @
           bd_binding_digest d @ enc_u64 F (bd_expires_ms d) @ enc_u64 F now"
  have J: "faultless J" "chain_inv F (jn_db J)" using r by (simp_all add: ready_def journal_inv_def)
  have "\<exists>J'. bind_decision F d now J = (Inr (), J') \<and> faultless J' \<and>
    jn_db J' = audit_step F ''decision_bound'' ?payload now (jn_db ?K) \<and> \<not> in_quarantine (jn_db J') \<and> \<not> clock_behind now (jn_db J') \<and>
    room n (jn_db J')"
    by (rule ready_command [OF bind_decision_def r w, where K = ?K and kind = "''decision_bound''" and payload = ?payload and x = "()"])
       (use J fresh tx l in \<open>simp_all add: calm_run read_state_def chain_inv_def set_tx_state_def payload_capacity_limit_def\<close>)
  then obtain J' where J': "bind_decision F d now J = (Inr (), J')" "faultless J'"
    "jn_db J' = audit_step F ''decision_bound'' ?payload now ?db" "\<not> in_quarantine (jn_db J')" "\<not> clock_behind now (jn_db J')" "room n (jn_db J')"
    by auto
  have "journal_inv F (jn_db J')" using ready_inv [OF r, of "Op_Bind d"] J'(1) by simp
  then have "ready F n now J'" using J' by (simp add: ready_def)
  then show thesis using that [OF J'(1)] J'(3) by (simp add: audit_step_def touched_def logged_def add_audit_def)
qed

lemma ready_consume:
  assumes r: "ready F (Suc n) now J" and i: "length i = 16"
    and d: "find_decision i (jn_db J) = Some d" "jd_state d = De_Bound" "now \<le> jd_expires d"
  obtains J' where "consume_decision F i now J = (Inr (), J')"
proof -
  have "fst (consume_decision F i now J) = Inr ()"
    using consume_returns [of J i now] r i d by (simp add: ready_def journal_inv_def room_def)
  then show thesis using that by (metis prod.collapse)
qed

end

text \<open>The identifier a host mints for its n-th request for one, from the counter it holds.\<close>

definition minted :: "foundation \<Rightarrow> host_env \<Rightarrow> u64 \<Rightarrow> sortable_id" where
  "minted F env c = fst (sortable_next F (he_wall env c) c)"

lemma mint_minted: "mint F env h = (minted F env (rh_minter h), h\<lparr>rh_minter := rh_minter h + 1\<rparr>)"
  by (simp add: mint_def minted_def sortable_next_def Let_def)

text \<open>What an admission needs beside an admissible call: a journal in working order and fresh keys.\<close>

definition admission_keys_fresh :: "foundation \<Rightarrow> host_env \<Rightarrow> request \<Rightarrow> host \<Rightarrow> bool" where
  "admission_keys_fresh F env r h \<longleftrightarrow>
     find_tx (next_id (map jt_id (db_transactions (host_db h)))) (host_db h) = None \<and>
     find_decision (minted F env (rh_minter h + 1)) (host_db h) = None \<and>
     bundle_digest_of F (hex_lower (minted F env (rh_minter h)) @ ''|'' @ pq_payload_sha256 r) \<notin> jd_token ` set (db_decisions (host_db h))"

context journal_foundation
begin

lemma length_minted: "length (minted F env c) = 16"
  by (simp add: minted_def length_sortable_next)

lemma admission_runs:
  assumes ready: "ready F 3 now (rh_journal h)" and w: "now \<le> now + 300000" "now \<le> now + 600000"
    and fresh: "admission_keys_fresh F env r h" and short: "length (hs_id_hex s) + length (pq_tool_name r) \<le> 5000"
  shows "fst (record_judgment F env r now s extraction False why ack h) =
    ack\<lparr>py_action_id := hex_lower (minted F env (rh_minter h)), py_verdict := ''not_governed'',
      py_reason_detail := ''action outside the governed write scope (observed, correlated)''\<rparr>"
proof -
  let ?a = "minted F env (rh_minter h)" and ?b = "minted F env (rh_minter h + 1)"
  let ?digest = "bundle_digest_of F (pq_payload_sha256 r @ ''|'' @ pq_tool_name r @ ''|'' @ pq_command r @ ''|'' @ pq_file_path r)"
  let ?t = "\<lparr>to_parent = None, to_correlation = hs_id_hex s @ ''|'' @ hex_lower ?a @ ''|'' @ pq_tool_name r, to_digest = ?digest, to_base = None\<rparr>"
  let ?tx = "next_id (map jt_id (db_transactions (jn_db (rh_journal h))))"
  let ?d = "\<lparr>bd_id = ?b, bd_token_hash = bundle_digest_of F (hex_lower ?a @ ''|'' @ pq_payload_sha256 r), bd_transaction = ?tx,
               bd_generation = rh_generation h, bd_binding_digest = ?digest, bd_expires_ms = now + 600000\<rparr>"
  have 3: "ready F (Suc 2) now (rh_journal h)" using ready by (simp add: numeral_3_eq_3 numeral_2_eq_2)
  obtain J1 where J1: "open_journal_transaction F ?t now (rh_journal h) = (Inr ?tx, J1)" "ready F 2 now J1"
    "db_transactions (jn_db J1) = db_transactions (jn_db (rh_journal h)) @ [new_tx ?tx (jn_boot_epoch (rh_journal h)) ?t]"
    "db_decisions (jn_db J1) = db_decisions (jn_db (rh_journal h))"
    by (rule ready_transaction [OF 3 w(1), where t = ?t])
       (use fresh short in \<open>simp_all add: admission_keys_fresh_def host_db_def hex_lower_length length_minted bundle_digest_of_def digest_length\<close>)
  have tx: "find_tx ?tx (jn_db J1) = Some (new_tx ?tx (jn_boot_epoch (rh_journal h)) ?t)"
    using fresh by (simp add: J1(3) find_tx_def find_append_None new_tx_def admission_keys_fresh_def host_db_def)
  have 2: "ready F (Suc 1) now J1" using J1(2) by (simp add: numeral_2_eq_2)
  have tx': "find_tx (bd_transaction ?d) (jn_db J1) = Some (new_tx ?tx (jn_boot_epoch (rh_journal h)) ?t)" using tx by simp
  have open': "tx_open (jt_state (new_tx ?tx (jn_boot_epoch (rh_journal h)) ?t))" by (simp add: new_tx_def tx_open_def)
  have fresh': "find_decision (bd_id ?d) (jn_db J1) = None" "bd_token_hash ?d \<notin> jd_token ` set (db_decisions (jn_db J1))"
    using fresh by (simp_all add: find_decision_def J1(4) admission_keys_fresh_def host_db_def)
  have sizes: "length (bd_id ?d) = 16" "length (bd_token_hash ?d) = 32" "length (bd_binding_digest ?d) = 32"
    by (simp_all add: length_minted bundle_digest_of_def digest_length)
  obtain J2 where J2: "bind_decision F ?d now J1 = (Inr (), J2)" "ready F 1 now J2" "db_decisions (jn_db J2) = db_decisions (jn_db J1) @ [bound_row ?d]"
    by (rule ready_bind [OF 2 w(1) tx' open' fresh' sizes])
  have d: "find_decision ?b (jn_db J2) = Some (bound_row ?d)"
    using fresh by (simp add: J2(3) J1(4) find_decision_def find_append_None bound_row_def admission_keys_fresh_def host_db_def)
  have 1: "ready F (Suc 0) now J2" using J2(2) by simp
  obtain J3 where J3: "consume_decision F ?b now J2 = (Inr (), J3)"
    by (rule ready_consume [OF 1 _ d]) (use w(2) in \<open>simp_all add: length_minted bound_row_def\<close>)
  show ?thesis
    using J1(1) J2(1) J3 by (simp add: record_judgment_def mint_minted Let_def journaled_eq admit_call_def)
qed

end

section \<open>Admission\<close>

text \<open>Everything an admission needs and leaves behind.\<close>

definition admission_recorded :: "foundation \<Rightarrow> host_env \<Rightarrow> request \<Rightarrow> u64 \<Rightarrow> host \<Rightarrow> reply \<Rightarrow> host \<Rightarrow> bool" where
  "admission_recorded F env r now h reply h' \<longleftrightarrow>
     rh_state h = ''running'' \<and> \<not> rh_shutting_down h \<and> py_verdict reply = ''not_governed'' \<and>
     (\<exists>s s' c i d. session_of (pq_session_handle r) now h s \<and> admissible env r now h s \<and>
        map_of (rh_sessions h') (pq_session_handle r) = Some s' \<and> map_of (hs_outstanding s') (pq_tool_name r) = Some c \<and>
        ou_action_hex c = py_action_id reply \<and> find_tx (ou_transaction c) (host_db h) = None \<and>
        consumed_row i d (host_db h') \<and> jd_tx d = ou_transaction c \<and> jd_generation d = rh_generation h \<and>
        jd_binding d = bundle_digest_of F (pq_payload_sha256 r @ ''|'' @ pq_tool_name r @ ''|'' @ pq_command r @ ''|'' @ pq_file_path r) \<and>
        jd_token d = bundle_digest_of F (py_action_id reply @ ''|'' @ pq_payload_sha256 r))"

lemma admitted_is_recorded:
  assumes "handle F env r now h = (reply, h')" and "pq_kind r = HookEvent" and "pq_event r = ''pre_tool''"
    and "py_kind reply = HookAck" and "py_verdict reply \<noteq> ''deny''"
  shows "admission_recorded F env r now h reply h'"
proof -
  have running: "rh_state h = ''running'' \<and> \<not> rh_shutting_down h"
    using handle_other [OF assms(1)] assms(4) by blast
  have "handle_pre_tool F env r now h = (reply, h')"
    using assms(1-3) running by (simp add: handle_def handle_hook_event_def)
  then show ?thesis
  proof (cases rule: handle_pre_tool_result)
    case (admitted h1 s i d tx)
    have s: "session_of (pq_session_handle r) now h s" using ensure_session_result [OF admitted(1)] by simp
    have "find_tx tx (host_db h) = None"
      using admitted(6) ensure_session_transactions [OF admitted(1)] by (simp add: find_tx_def)
    then show ?thesis
      using running s admitted by (auto simp: admission_recorded_def admitted_session_def intro!: exI [of _ s] exI [of _ i] exI [of _ d])
  qed (use assms in auto)
qed

text \<open>C11: safety: a tool call is admitted only with everything an admission needs.  When the host answers a pre-tool
  event with an acknowledgement that does not deny, it is running and not draining, the tool is in the accepted
  inventory and not degraded, its target has been judged outside the governed scope, and no call of the tool was
  outstanding in the session.  The verdict is that the action is not governed, and afterwards the call is outstanding under
  the action of the reply, with a transaction that did not exist before and whose decision, bound to the request, the
  action and the current generation, the journal has consumed.\<close>

theorem hook_admission_sound:
  assumes "handle F env r now h = (reply, h')" and "pq_kind r = HookEvent" and "pq_event r = ''pre_tool''"
    and "py_kind reply = HookAck" and "py_verdict reply \<noteq> ''deny''"
  shows "admission_recorded F env r now h reply h'"
  by (rule admitted_is_recorded [OF assms])

lemma admission_live:
  assumes "journal_foundation F" and h: "rh_state h = ''running''" "\<not> rh_shutting_down h"
    and r: "pq_kind r = HookEvent" "pq_event r = ''pre_tool''" and s: "map_of (rh_sessions h) (pq_session_handle r) = Some s"
    and a: "admissible env r now h s"
    and k: "ready F 3 now (rh_journal h)" "now \<le> now + 300000" "now \<le> now + 600000" "admission_keys_fresh F env r h"
    "length (hs_id_hex s) + length (pq_tool_name r) \<le> 5000"
  shows "fst (handle F env r now h) =
    (hook_ack r h)\<lparr>py_session_id := hs_id_hex s, py_refresh := refresh_state_now h now, py_action_id := hex_lower (minted F env (rh_minter h)),
      py_verdict := ''not_governed'', py_reason_detail := ''action outside the governed write scope (observed, correlated)''\<rparr>"
proof -
  let ?s = "s\<lparr>hs_last_seen_ms := now\<rparr>"
  let ?h = "put_session (pq_session_handle r) ?s h"
  let ?ack = "(hook_ack r h)\<lparr>py_session_id := hs_id_hex ?s, py_refresh := refresh_state_now ?h now\<rparr>"
  obtain entry why where e: "known_tool (cached_profile env h) (pq_tool_name r) = Some entry"
    "judge (cached_profile env h) (rh_repo_root h) (tl_extraction entry) r = Jm_Judged False why"
    using a by (auto simp: admissible_def)
  have same: "cached_profile env ?h = cached_profile env h" "rh_repo_root ?h = rh_repo_root h" "rh_journal ?h = rh_journal h"
    "admission_keys_fresh F env r ?h = admission_keys_fresh F env r h"
    by (simp_all add: put_session_def cached_profile_def admission_keys_fresh_def host_db_def)
  have run: "handle F env r now h = record_judgment F env r now ?s (tl_extraction entry) False why ?ack ?h"
    using h r s a e same by (simp add: handle_def handle_hook_event_def handle_pre_tool_def ensure_session_def Let_def admissible_def)
  show ?thesis
    unfolding run using journal_foundation.admission_runs [OF assms(1), of now ?h env r ?s] k same
    by (simp add: put_session_def refresh_state_now_def within_window_def)
qed

text \<open>C23: liveness: a tool call that may be admitted is admitted.  In a running host whose journal answers, is sound,
  is not quarantined, is not ahead of the clock and has room for three events, a pre-tool event of a known session, for a tool
  that is known, not degraded and has no call outstanding, and whose target is judged outside the governed scope,
  is acknowledged as not governed, provided the transaction, the decision identifier and the token it would use are new.\<close>

theorem hook_admission_live:
  assumes "journal_foundation F" and "rh_state h = ''running''" and "\<not> rh_shutting_down h"
    and "pq_kind r = HookEvent" and "pq_event r = ''pre_tool''" and "map_of (rh_sessions h) (pq_session_handle r) = Some s"
    and "admissible env r now h s" and "ready F 3 now (rh_journal h)" and "now \<le> now + 300000" and "now \<le> now + 600000"
    and "admission_keys_fresh F env r h" and "length (hs_id_hex s) + length (pq_tool_name r) \<le> 5000"
  shows "py_kind (fst (handle F env r now h)) = HookAck \<and> py_verdict (fst (handle F env r now h)) = ''not_governed''"
  using admission_live [OF assms] by simp

section \<open>A small host\<close>

definition clean_journal :: journal where
  "clean_journal = connection (\<lambda>_. None) True ((sample_db ''0'')\<lparr>db_transactions := [], db_decisions := [], db_dispatches := []\<rparr>)"

definition small_session :: hook_session where
  "small_session = \<lparr>hs_journal_row = 1, hs_id_hex = ''ab'', hs_degraded_tools = {}, hs_degraded_detail = [], hs_last_seen_ms = 5,
     hs_outstanding = []\<rparr>"

definition small_boot :: host_boot where
  "small_boot = \<lparr>hb_repo_root = ''c:/repo'', hb_git_executable = ''git'', hb_build_id = ''b1'', hb_now_ms = 5\<rparr>"

definition small_host :: host where
  "small_host = (starting_host small_boot clean_journal)\<lparr>rh_state := ''running'', rh_generation := 1, rh_repo_root := ''c:/repo'',
     rh_profile_cache := Some normal_profile, rh_sessions := [(''z1'', small_session)]\<rparr>"

definition small_env :: host_env where
  "small_env = \<lparr>he_wall = (\<lambda>_. 7), he_profile = None, he_journal_message = (\<lambda>_. []), he_bundle_message = (\<lambda>_. []), he_profile_message = (\<lambda>_. [])\<rparr>"

definition small_call :: request where
  "small_call = default_request\<lparr>pq_kind := HookEvent, pq_event := ''pre_tool'', pq_session_handle := ''z1'', pq_tool_name := ''Write'',
     pq_file_path := ''notes.txt''\<rparr>"

lemma clean_ready: "ready ref_foundation 3 9 clean_journal"
proof -
  have "journal_inv ref_foundation ((sample_db ''0'')\<lparr>db_transactions := [], db_decisions := [], db_dispatches := []\<rparr>)"
    using sample_inv [of "''0''"]
    by (simp add: journal_inv_def chain_inv_def sample_db_def life_inv_def keys_inv_def decisions_inv_def dispatches_inv_def)
  then show ?thesis
    by (simp add: ready_def clean_journal_def connection_def faultless_def)
       (simp add: sample_db_def in_quarantine_def clock_behind_def parsed_wall_def room_def)
qed

lemma small_admissible:
  assumes "pq_tool_name r = ''Write''" "pq_file_path r = ''notes.txt''"
  shows "admissible small_env r 9 small_host small_session"
  using assms
  by (simp add: admissible_def small_session_def small_host_def starting_host_def cached_profile_def known_tool_def normal_profile_def
      sample_profile_def new_profile_file_def judge_def judge_file_def normalize_hook_path_def forward_slashes_def
      strip_trailing.simps has_text_def starts_with_def path_governed_def equals_ci_def contains_ci_def starts_with_ci_def ends_with_ci_def
      lower_def to_lower_def is_upper_def Let_def)

lemma small_fresh: "admission_keys_fresh ref_foundation small_env r small_host"
  by (simp add: admission_keys_fresh_def host_db_def small_host_def starting_host_def clean_journal_def connection_def find_tx_def find_decision_def)

lemma small_host_parts:
  "rh_journal small_host = clean_journal" "rh_state small_host = ''running''" "\<not> rh_shutting_down small_host"
  "map_of (rh_sessions small_host) ''z1'' = Some small_session" "pq_kind small_call = HookEvent" "pq_event small_call = ''pre_tool''"
  "pq_session_handle small_call = ''z1''" "pq_tool_name small_call = ''Write''" "pq_file_path small_call = ''notes.txt''" "length (hs_id_hex small_session) + length (pq_tool_name small_call) \<le> 5000"
  by (simp_all add: small_host_def starting_host_def small_call_def small_session_def)

lemmas small_live_facts = ref_journal.journal_foundation_axioms small_host_parts(2,3,5,6)

theorem hook_admission_live_witness:
  "py_verdict (fst (handle ref_foundation small_env small_call 9 small_host)) = ''not_governed''"
  using hook_admission_live [OF small_live_facts, of small_session small_env 9] small_host_parts clean_ready small_admissible [of small_call] small_fresh by simp

theorem hook_admission_sound_witness:
  "\<exists>h' i d. handle ref_foundation small_env small_call 9 small_host = (fst (handle ref_foundation small_env small_call 9 small_host), h') \<and>
     consumed_row i d (host_db h')"
proof -
  have live: "py_kind (fst (handle ref_foundation small_env small_call 9 small_host)) = HookAck"
    "py_verdict (fst (handle ref_foundation small_env small_call 9 small_host)) = ''not_governed''"
    using admission_live [OF small_live_facts, of small_session small_env 9] small_host_parts clean_ready small_admissible [of small_call] small_fresh by simp_all
  let ?x = "handle ref_foundation small_env small_call 9 small_host"
  have "?x = (fst ?x, snd ?x)" by simp
  moreover have "py_verdict (fst ?x) \<noteq> ''deny''" using live(2) by simp
  ultimately have "\<exists>i d. consumed_row i d (host_db (snd ?x))"
    using hook_admission_sound [OF _ small_host_parts(5,6) live(1)] unfolding admission_recorded_def by blast
  then show ?thesis by (metis prod.collapse)
qed

section \<open>Runs\<close>

lemma run_steps_draining:
  assumes "run_steps F steps (h, disk) = (replies, h', disk')" "rh_shutting_down h" "\<forall>a \<in> set steps. step_fit a"
  shows "rh_shutting_down h' \<and> (\<forall>reply \<in> set replies. py_kind reply \<noteq> HookAck) \<and>
    moves F quiet_op (host_db h) (host_db h') \<and> fst ` set (rh_sessions h') \<subseteq> fst ` set (rh_sessions h)"
  using assms
proof (induction steps arbitrary: h disk replies)
  case Nil
  then show ?case by (simp add: moves.still)
next
  case (Cons a steps)
  obtain rs h1 disk1 where a: "run_step F a (h, disk) = (rs, h1, disk1)" by (cases "run_step F a (h, disk)") auto
  obtain rs' where steps: "run_steps F steps (h1, disk1) = (rs', h', disk')" and rs: "replies = rs @ rs'"
    using Cons.prems(1) a by (auto split: prod.splits)
  have one: "rh_shutting_down h1" "moves F quiet_op (host_db h) (host_db h1)" "\<forall>reply \<in> set rs. py_kind reply \<noteq> HookAck"
    "fst ` set (rh_sessions h1) \<subseteq> fst ` set (rh_sessions h)"
    using run_step_draining [OF a] Cons.prems(2,3) by auto
  have more: "rh_shutting_down h'" "moves F quiet_op (host_db h1) (host_db h')" "\<forall>reply \<in> set rs'. py_kind reply \<noteq> HookAck"
    "fst ` set (rh_sessions h') \<subseteq> fst ` set (rh_sessions h1)"
    using Cons.IH [OF steps one(1)] Cons.prems(3) by auto
  show ?case
    using more(1) moves_trans [OF more(2) one(2)] subset_trans [OF more(4) one(4)] one(3) more(3) rs by (simp add: ball_Un)
qed

text \<open>C22: safety: a host that drains admits nothing more.  From the moment shutdown has been requested, whatever requests,
  worker attempts, drains and audit notes follow, in any order, no hook event is acknowledged, no session and no
  transaction is opened in the journal, no harness session is added, and the host goes on draining.\<close>

theorem draining_is_final:
  assumes "rh_shutting_down h" and "\<forall>a \<in> set steps. step_fit a" and "run_steps F steps (h, disk) = (replies, h', disk')"
  shows "rh_shutting_down h' \<and> (\<forall>reply \<in> set replies. py_kind reply \<noteq> HookAck) \<and>
    db_transactions (host_db h') = db_transactions (host_db h) \<and> db_sessions (host_db h') = db_sessions (host_db h) \<and>
    fst ` set (rh_sessions h') \<subseteq> fst ` set (rh_sessions h)"
  using run_steps_draining [OF assms(3,1,2)] quiet_moves by blast

theorem draining_is_final_witness:
  "\<exists>reply h'. run_steps ref_foundation [Step_Request small_env small_call 9] (request_shutdown small_host, crowded_disk) = ([reply], h', crowded_disk) \<and>
     py_kind reply \<noteq> HookAck \<and> rh_shutting_down h'"
proof -
  let ?h = "request_shutdown small_host"
  obtain reply h' where run: "run_steps ref_foundation [Step_Request small_env small_call 9] (?h, crowded_disk) = ([reply], h', crowded_disk)"
    by (cases "handle ref_foundation small_env small_call 9 ?h") auto
  have "rh_shutting_down ?h" by (simp add: request_shutdown_def begin_drain_def)
  from draining_is_final [OF this _ run] show ?thesis using run by auto
qed

lemma run_steps_keeps:
  assumes "run_steps F steps (h, disk) = (replies, h', disk')" "host_inv h" "\<forall>a \<in> set steps. step_fit a"
  shows "host_inv h' \<and> moves F serving_op (host_db h) (host_db h')"
  using assms
proof (induction steps arbitrary: h disk replies)
  case Nil
  then show ?case by (simp add: moves.still)
next
  case (Cons a steps)
  obtain rs h1 disk1 where a: "run_step F a (h, disk) = (rs, h1, disk1)" by (cases "run_step F a (h, disk)") auto
  obtain rs' where steps: "run_steps F steps (h1, disk1) = (rs', h', disk')"
    using Cons.prems(1) a by (auto split: prod.splits)
  have one: "moves F serving_op (host_db h) (host_db h1)" "host_inv h1" using run_step_keeps [OF a] Cons.prems(2,3) by simp_all
  show ?case using Cons.IH [OF steps one(2)] moves_trans [OF _ one(1)] Cons.prems(3) by auto
qed

context digest_laws
begin

lemma moves_inv: "moves F P db db' \<Longrightarrow> journal_inv F db \<Longrightarrow> journal_inv F db'"
  by (induction rule: moves.induct) (auto simp: journal_inv_def dest: table_step_chain table_step_life)

end

section \<open>Boot\<close>

lemma load_freshness_moves: "moves F quiet_op db (host_db h) \<Longrightarrow> moves F quiet_op db (host_db (load_freshness now h))"
  and load_freshness_sessions [simp]: "rh_sessions (load_freshness now h) = rh_sessions h"
proof -
  have key: "''last_refresh_ok_ms'' \<notin> reserved_keys" by (simp add: reserved_keys_def)
  have read: "host_db (snd (journaled (get_meta ''last_refresh_ok_ms'') h)) = host_db h" by (rule journaled_reads [OF read_only_acts(4)])
  show "moves F quiet_op db (host_db (load_freshness now h))" if "moves F quiet_op db (host_db h)"
    using that read moves_notes(2) [of F quiet_op db _ "''last_refresh_ok_ms''" "to_string_u64 now", OF _ _ key]
    by (auto simp: load_freshness_def journaled_eq host_db_def split: sum.split option.split list.split)
  show "rh_sessions (load_freshness now h) = rh_sessions h"
    by (auto simp: load_freshness_def journaled_eq split: sum.split option.split list.split)
qed

lemma activate_host_moves:
  "moves F quiet_op (host_db h) (host_db (activate_host F env b p pl h)) \<and> rh_sessions (activate_host F env b p pl h) = rh_sessions h"
proof -
  let ?act = "activate_generation F (pl_bundle_digest pl) (rh_profile_digest h) (hb_build_id b) (hb_now_ms b)"
  obtain x h1 where a: "journaled ?act h = (x, h1)" by (cases "journaled ?act h")
  have "moves F quiet_op (host_db h) (host_db h1)" "rh_sessions h1 = rh_sessions h"
    using activate_generation_moves [OF moves.still, of quiet_op F "rh_journal h"] call_result [OF a] call_frame(2) [OF a]
    unfolding host_db_def by (metis snd_conv, simp)
  then show ?thesis
    using a by (cases x) (simp_all add: activate_host_def Let_def failing_def host_db_def load_freshness_moves [unfolded host_db_def])
qed

lemma boot_bundle_moves:
  "boot_bundle F env w b p h disk = (Some h', disk') \<Longrightarrow>
     moves F quiet_op (host_db h) (host_db h') \<and> rh_sessions h' = rh_sessions h"
  using activate_host_moves moves.still [of F quiet_op "host_db h"]
  by (auto simp: boot_bundle_def failing_def host_db_def split: prod.splits option.splits sum.splits if_splits)

text \<open>What a host starts with: a new journal, or one whose tables are sound.\<close>

definition sound_world :: "foundation \<Rightarrow> boot_world \<Rightarrow> bool" where
  "sound_world F w \<longleftrightarrow>
     (bw_journal_file w = No_File \<or> (\<exists>valid db. bw_journal_file w = Database valid db \<and> journal_inv F db)) \<and>
     (\<forall>rows. mset (bw_scan w rows) = mset rows)"

lemma boot_steps:
  assumes "boot F env w b disk = (Some (Inr h), disk')"
  obtains J report J1 where
    "journal_open F (bw_faults w) (bw_intact w) (bw_device w) (if bw_journal_file w = No_File then CreateNew else OpenExisting)
       (hb_now_ms b) (bw_journal_file w) = Inr J"
    "recover_at F fail_closed_classify (bw_scan w) (hb_now_ms b) J = (Inr report, J1)"
    "moves F quiet_op (jn_db J1) (host_db h)" "rh_sessions h = []"
proof -
  obtain J where J: "journal_open F (bw_faults w) (bw_intact w) (bw_device w) (if bw_journal_file w = No_File then CreateNew else OpenExisting)
       (hb_now_ms b) (bw_journal_file w) = Inr J"
    using assms by (auto simp: boot_def split: if_splits sum.splits)
  obtain report J1 where r: "recover_at F fail_closed_classify (bw_scan w) (hb_now_ms b) J = (Inr report, J1)"
    using assms J by (auto simp: boot_def Let_def split: if_splits sum.splits prod.splits)
  have start: "host_db (starting_host b J1) = jn_db J1" "rh_sessions (starting_host b J1) = []" by (simp_all add: starting_host_def host_db_def)
  have "moves F quiet_op (jn_db J1) (host_db h) \<and> rh_sessions h = []"
  proof (cases "bw_secret_error w = None \<and> bw_client_error w = None \<and> \<not> isl (load_profile_file (he_profile env))")
    case True
    then obtain p where p: "load_profile_file (he_profile env) = Inr p" by (cases "load_profile_file (he_profile env)") auto
    let ?h = "(starting_host b J1)\<lparr>rh_profile_cache := Some p, rh_profile_digest := bundle_digest_of F (case he_profile env of None \<Rightarrow> [] | Some s \<Rightarrow> s)\<rparr>"
    have "boot_bundle F env w b p ?h disk = (Some h, disk')"
      using assms J r True p by (auto simp: boot_def Let_def split: if_splits prod.splits option.splits)
    from boot_bundle_moves [OF this] show ?thesis using start by (simp add: host_db_def)
  next
    case False
    then show ?thesis using assms J r start moves.still [of F quiet_op "jn_db J1"]
      by (auto simp: boot_def Let_def failing_def host_db_def split: if_splits option.splits sum.splits)
  qed
  then show thesis using that J r by blast
qed

context digest_laws
begin

lemma boot_sound:
  assumes "boot F env w b disk = (Some (Inr h), disk')" "sound_world F w"
  shows "journal_inv F (host_db h) \<and> host_inv h"
proof -
  obtain J report J1 where s: "journal_open F (bw_faults w) (bw_intact w) (bw_device w) (if bw_journal_file w = No_File then CreateNew else OpenExisting)
       (hb_now_ms b) (bw_journal_file w) = Inr J"
    "recover_at F fail_closed_classify (bw_scan w) (hb_now_ms b) J = (Inr report, J1)"
    "moves F quiet_op (jn_db J1) (host_db h)" "rh_sessions h = []"
    using boot_steps [OF assms(1)] by metis
  have "journal_inv F (jn_db J)"
    using assms(2) s(1) created_inv open_existing_ok by (auto simp: sound_world_def)
  then have "journal_inv F (jn_db J1)"
    using run_op_inv [of J "Op_Recover fail_closed_classify (bw_scan w)" "hb_now_ms b"] s(2) assms(2) by (simp add: sound_world_def)
  then show ?thesis using moves_inv [OF s(3)] s(4) by (simp add: host_inv_def keyed_def)
qed

end

text \<open>C13: invariant: whatever a booted host does (any requests, worker attempts, drains and audit notes in any order,
  any statement of the database failing at any moment), the audit chain of its journal verifies and the life cycles
  in it are intact; every harness session occurs once, has at most one call outstanding per tool, and each call that is
  outstanding has a transaction whose decision the journal has consumed.\<close>

theorem host_always_sound:
  assumes "digest_laws F" and "sound_world F w" and "boot F env w b disk = (Some (Inr h), disk')"
    and "run_steps F steps (h, disk') = (replies, h', disk'')" and "\<forall>a \<in> set steps. step_fit a"
  shows "(\<exists>K. verify_audit_chain F (calm (rh_journal h')) = (Inr (), K)) \<and> life_inv (host_db h') \<and> distinct (map fst (rh_sessions h')) \<and>
    (\<forall>(key, s) \<in> set (rh_sessions h'). distinct (map fst (hs_outstanding s)) \<and>
       (\<forall>(tool, c) \<in> set (hs_outstanding s). \<exists>i d. consumed_row i d (host_db h') \<and> jd_tx d = ou_transaction c))"
proof -
  note start = digest_laws.boot_sound [OF assms(1,3,2)]
  have kept: "host_inv h'" "moves F serving_op (host_db h) (host_db h')" using run_steps_keeps [OF assms(4) _ assms(5)] start by auto
  have inv: "journal_inv F (host_db h')" using digest_laws.moves_inv [OF assms(1) kept(2)] start by simp
  then have "\<exists>K. verify_audit_chain F (calm (rh_journal h')) = (Inr (), K)"
    using chain_inv_verifies [of F "calm (rh_journal h')"] by (simp add: journal_inv_def calm_def host_db_def)
  then show ?thesis using inv kept(1) by (auto simp: journal_inv_def host_inv_def session_inv_def keyed_def backed_def)
qed

text \<open>A world in which the host finds its journal but not its secret.\<close>

definition stored_db :: journal_db where
  "stored_db = (sample_db ''0'')\<lparr>db_meta := [''schema_version'' \<mapsto> to_string_u64 current_schema_version, ''install_id'' \<mapsto> ''i1'',
     ''boot_epoch'' \<mapsto> ''0'', ''quarantine'' \<mapsto> ''0'', ''last_wall_ms'' \<mapsto> ''3'', ''genesis_hash'' \<mapsto> to_hex (ja_hash sample_event)]\<rparr>"

definition small_world :: boot_world where
  "small_world = \<lparr>bw_singleton = True, bw_journal_file = Database True stored_db, bw_faults = (\<lambda>_. None), bw_intact = True, bw_device = [],
     bw_scan = (\<lambda>rows. rows), bw_secret_error = Some ''secret unavailable'', bw_client_error = None, bw_system = sample_system,
     bw_create_cognition = (\<lambda>_ _. (None, \<lparr>de_kind = DK_Truncated, de_detail = []\<rparr>)), bw_serialize_policy = (\<lambda>_. []), bw_outside = (\<lambda>_. None)\<rparr>"

lemma stored_inv: "journal_inv ref_foundation stored_db"
  using sample_inv [of "''0''"] by (simp add: stored_db_def journal_inv_def chain_inv_def sample_db_def life_inv_def keys_inv_def
      decisions_inv_def dispatches_inv_def life_states_def)

lemma stored_opens:
  "\<exists>J. journal_open ref_foundation (\<lambda>_. None) True [] OpenExisting 5 (Database True stored_db) = Inr J \<and> faultless J \<and> jn_db J = stored_db"
proof -
  have "faultless (connection (\<lambda>_. None) True stored_db)" "jn_db (connection (\<lambda>_. None) True stored_db) = stored_db"
    by (simp_all add: connection_def faultless_def)
  moreover have "journal_parse_u64 ''0'' = Some 0" by (simp add: journal_parse_u64_def)
  moreover have "db_meta stored_db ''schema_version'' = Some (to_string_u64 current_schema_version)" "db_meta stored_db ''install_id'' = Some ''i1''"
    "db_meta stored_db ''boot_epoch'' = Some ''0''" "db_meta stored_db ''quarantine'' = Some ''0''" "db_meta stored_db ''last_wall_ms'' = Some ''3''"
    "db_meta stored_db ''genesis_hash'' = Some (to_hex (ja_hash sample_event))"
    by (simp_all add: stored_db_def)
  ultimately show ?thesis
    by (simp add: journal_open_def journal_db_open_def validate_existing_def read_meta_def calm_run) (simp add: faultless_def)
qed

lemma small_boots: "\<exists>h. boot ref_foundation small_env small_world small_boot crowded_disk = (Some (Inr h), crowded_disk)"
proof -
  obtain J where J: "journal_open ref_foundation (\<lambda>_. None) True [] OpenExisting 5 (Database True stored_db) = Inr J" "faultless J" "jn_db J = stored_db"
    using stored_opens by blast
  have "recoverable 5 stored_db"
    by (simp add: stored_db_def recoverable_def clock_behind_def parsed_wall_def room_def pending_rows_def sample_db_def journal_parse_u64_def)
  then obtain report J1 where "recover_at ref_foundation fail_closed_classify (\<lambda>rows. rows) 5 J = (Inr report, J1)"
    using ref_journal.calm_recovery [of J "\<lambda>rows. rows" 5] J stored_inv by auto
  then show ?thesis using J by (simp add: boot_def small_world_def small_boot_def Let_def)
qed

theorem host_always_sound_witness:
  "\<exists>h replies h'. boot ref_foundation small_env small_world small_boot crowded_disk = (Some (Inr h), crowded_disk) \<and>
     run_steps ref_foundation [Step_Request small_env small_call 9, Step_Audit ''note'' [] 9] (h, crowded_disk) = (replies, h', crowded_disk) \<and>
     life_inv (host_db h')"
proof -
  let ?steps = "[Step_Request small_env small_call 9, Step_Audit ''note'' [] 9]"
  obtain h where h: "boot ref_foundation small_env small_world small_boot crowded_disk = (Some (Inr h), crowded_disk)"
    using small_boots by blast
  obtain replies h' where run: "run_steps ref_foundation ?steps (h, crowded_disk) = (replies, h', crowded_disk)"
    by (cases "handle ref_foundation small_env small_call 9 h") simp
  have "sound_world ref_foundation small_world" using stored_inv by (auto simp: sound_world_def small_world_def)
  from host_always_sound [OF ref_digest.digest_laws_axioms this h run] show ?thesis using h run by auto
qed

section \<open>What an observed outcome leaves behind\<close>

text \<open>
  The reply to an observed outcome says that its transaction is closed; no transaction changes.  A host without a freshness window
  reports that its cognition has expired, and never denies for it.
\<close>

lemma outcome_leaves_transaction:
  assumes "map_of (rh_sessions h) (pq_session_handle r) = Some s" "map_of (hs_outstanding s) (pq_tool_name r) = Some c"
    and "handle_post_tool F env r now h = (reply, h')"
  shows "py_reason_detail reply = ''outcome correlated; transaction closed'' \<and> db_transactions (host_db h') = db_transactions (host_db h)"
proof -
  have "db_transactions (host_db (append_event F ''hook_outcome'' p now g)) = db_transactions (host_db g)" for p g
    using quiet_moves [OF append_event_moves [OF moves.still, of quiet_op "''hook_outcome''"]] by blast
  then show ?thesis
    using assms by (auto simp: handle_post_tool_def ensure_session_def Let_def mint_minted)
qed

lemma no_window_expired: "rh_freshness_window_ms h = 0 \<Longrightarrow> refresh_state_now h now \<in> {''degraded'', ''expired''} \<and> \<not> refresh_expired h now"
  by (simp add: refresh_state_now_def within_window_def refresh_expired_def)

end
