(* ===== verification/Zcode_Hook.thy ===== *)
theory Zcode_Hook
  imports Zcode_Event Host_Properties Serve
begin

text \<open>
  The hook process, \<^verbatim>\<open>adapter/zcode_hook.hpp/.cpp\<close>: from the payload of a harness event to an exit code.  The world is what
  the process meets outside: the installation secret, the file with the identity of the installation, the pipe, whether
  a write succeeds, and the frame that comes back, which may depend on what was written.  An error is its code and its
  message, since the hook classifies failures by their text.  Theorems: a tool call passes only on an authenticated
  acknowledgement that does not deny, and, when a host answers, only if that host has admitted it.
\<close>

section \<open>The run\<close>

record hook_run =
  hr_event :: string
  hr_payload :: string
  hr_deadline_ms :: u64
  hr_mediated_tools :: string
  hr_session_handle :: string
  hr_tool :: string

record hook_outcome =
  ho_exit_code :: int
  ho_stderr_text :: string

record hook_error =
  ke_code :: int
  ke_message :: string

datatype frame_read = Got_Frame bytes | Timed_Out | Ended

record hook_world =
  hw_secret :: "hook_error + secret_key"
  hw_install_id :: "string option"
  hw_connect_error :: "string option"
  hw_hello_written :: bool
  hw_hello :: "bytes \<Rightarrow> frame_read"
  hw_event_written :: bool
  hw_event :: "bytes \<Rightarrow> frame_read"
  hw_reply_error_detail :: "string \<Rightarrow> string"

definition allow_silent :: hook_outcome where
  "allow_silent = \<lparr>ho_exit_code = 0, ho_stderr_text = []\<rparr>"

definition advisory_note :: "string \<Rightarrow> hook_outcome" where
  "advisory_note t = \<lparr>ho_exit_code = 0, ho_stderr_text = ''[qiven-hook] '' @ t\<rparr>"

definition deny_client :: "int \<Rightarrow> string \<Rightarrow> hook_outcome" where
  "deny_client reason detail =
     \<lparr>ho_exit_code = 2, ho_stderr_text = ''[qiven-hook] deny '' @ int_text reason @ '' (hook-client; no host verdict): '' @ detail\<rparr>"

definition deny_host :: "int \<Rightarrow> string \<Rightarrow> hook_outcome" where
  "deny_host reason detail =
     \<lparr>ho_exit_code = 2, ho_stderr_text = ''[qiven-hook] deny '' @ int_text reason @ '' (host verdict): '' @ detail\<rparr>"

section \<open>Failures\<close>

text \<open>The text with which \<^verbatim>\<open>FrameCodec::decode\<close> refuses a frame.\<close>

definition frame_refusal :: "foundation \<Rightarrow> bytes \<Rightarrow> hook_error" where
  "frame_refusal F bs =
     (if length bs < frame_prefix \<or> max_frame_bytes < length bs then \<lparr>ke_code = 64, ke_message = ''frame size outside bounds''\<rparr>
      else
        let h = decode_header F bs in
        if fh_magic h \<noteq> frame_magic then \<lparr>ke_code = 64, ke_message = ''bad frame magic''\<rparr>
        else if fh_proto h \<noteq> protocol_version then \<lparr>ke_code = 64, ke_message = ''unsupported protocol version''\<rparr>
        else if fh_body_len h \<noteq> of_nat (length bs - frame_prefix) then \<lparr>ke_code = 64, ke_message = ''body length disagrees with frame''\<rparr>
        else if of_nat max_body_bytes < fh_body_len h then \<lparr>ke_code = 64, ke_message = ''body exceeds the 1 MiB cap''\<rparr>
        else \<lparr>ke_code = 62, ke_message = ''HMAC verification failed''\<rparr>)"

definition classify_transport_failure :: "hook_error \<Rightarrow> int" where
  "classify_transport_failure e =
     (let m = ke_message e in
      if has_text m ''pipe connect failed'' \<or> has_text m ''no RuntimeHost listener'' \<or> has_text m ''no installed RuntimeHost'' then 120
      else if ke_code e = 64 \<and> has_text m ''unsupported protocol version'' then 122
      else if ke_code e = 62 \<and> has_text m ''HMAC verification failed'' then 123
      else if has_text m ''secret'' \<or> has_text m ''CryptProtectData'' then 123
      else if ke_code e \<in> {120, 121, 122, 123, 124, 125} then ke_code e
      else 116)"

definition fail_with :: "int \<Rightarrow> string \<Rightarrow> hook_error + 'a" where
  "fail_with c m = Inl \<lparr>ke_code = c, ke_message = m\<rparr>"

section \<open>The exchange\<close>

text \<open>A frame that was read, verified and decoded; the texts name what was waited for.\<close>

definition read_reply :: "foundation \<Rightarrow> hook_world \<Rightarrow> secret_key \<Rightarrow> string \<Rightarrow> string \<Rightarrow> frame_read \<Rightarrow> hook_error + reply" where
  "read_reply F w key timeout_text end_text x =
     (case x of
        Timed_Out \<Rightarrow> fail_with 124 timeout_text
      | Ended \<Rightarrow> fail_with 116 end_text
      | Got_Frame bs \<Rightarrow>
          (case frame_decode F key bs of
             Inl _ \<Rightarrow> fail_with (classify_transport_failure (frame_refusal F bs)) (ke_message (frame_refusal F bs))
           | Inr f \<Rightarrow>
               (case decode_reply (text_of (vf_body f)) of
                  Inl c \<Rightarrow> fail_with c (hw_reply_error_detail w (text_of (vf_body f)))
                | Inr reply \<Rightarrow> Inr reply)))"

definition hello_request :: request where
  "hello_request = default_request\<lparr>pq_kind := Hello, pq_client_kind := ''zcode-hook'', pq_client_build := 2, pq_request_id := 1\<rparr>"

definition event_request :: "hook_run \<Rightarrow> zcode_fields \<Rightarrow> request" where
  "event_request run f =
     default_request\<lparr>pq_kind := HookEvent, pq_event := hr_event run, pq_session_handle := hr_session_handle run,
       pq_tool_name := (if hr_tool run = [] then zf_tool_name f else hr_tool run), pq_payload_sha256 := hex_lower (zf_payload_digest f),
       pq_payload_bytes := zf_payload_bytes f, pq_command := zf_command f, pq_file_path := zf_file_path f,
       pq_mediated_tools := hr_mediated_tools run, pq_request_id := 2\<rparr>"

text \<open>The frame of a request: \<^verbatim>\<open>header\<close> carries the identifier and the sequence number.\<close>

definition hook_frame :: "foundation \<Rightarrow> secret_key \<Rightarrow> u64 \<Rightarrow> request \<Rightarrow> bytes" where
  "hook_frame F key seq r =
     frame_encode F key (default_header\<lparr>fh_request_id := pq_request_id r, fh_connection_seq := seq\<rparr>) (text_bytes (encode_request_body r))"

definition check_hello :: "reply \<Rightarrow> hook_error option" where
  "check_hello reply =
     (if py_kind reply = ErrorView then
        let detail = py_error_detail reply in
        Some \<lparr>ke_code = (if starts_with detail ''admission rejected'' then 121 else if starts_with detail ''server busy'' then 125
                else sint (py_error_code reply)),
              ke_message = ''handshake rejected by host: '' @ detail\<rparr>
      else if py_kind reply \<noteq> HelloAck then Some \<lparr>ke_code = 116, ke_message = ''unexpected hello reply shape''\<rparr>
      else None)"

definition exchange_event :: "foundation \<Rightarrow> hook_world \<Rightarrow> hook_run \<Rightarrow> secret_key \<Rightarrow> zcode_fields \<Rightarrow> hook_error + reply" where
  "exchange_event F w run key f =
     (if \<not> hw_event_written w then fail_with 116 ''request write failed''
      else read_reply F w key (''no reply from host within '' @ to_string_u64 (hr_deadline_ms run) @ '' ms (timeout)'')
             ''no reply from host (connection ended)'' (hw_event w (hook_frame F key 2 (event_request run f))))"

definition transact :: "foundation \<Rightarrow> hook_world \<Rightarrow> hook_run \<Rightarrow> zcode_fields \<Rightarrow> hook_error + reply" where
  "transact F w run f =
     (case hw_secret w of
        Inl e \<Rightarrow> fail_with (classify_transport_failure e) (ke_message e)
      | Inr key \<Rightarrow>
          if hw_install_id w = None then fail_with 120 ''no installed RuntimeHost''
          else
            (case hw_connect_error w of
               Some m \<Rightarrow> fail_with 120 (''no RuntimeHost listener on the installation pipe ('' @ m @ '')'')
             | None \<Rightarrow>
                 if \<not> hw_hello_written w then fail_with 116 ''hello write failed''
                 else
                   (case read_reply F w key (''no hello reply within '' @ to_string_u64 (hr_deadline_ms run) @ '' ms (timeout)'')
                           ''no hello reply from host'' (hw_hello w (hook_frame F key 1 hello_request)) of
                      Inl e \<Rightarrow> Inl e
                    | Inr hello \<Rightarrow>
                        (case check_hello hello of
                           Some e \<Rightarrow> Inl e
                         | None \<Rightarrow> exchange_event F w run key f))))"

section \<open>The hook\<close>

definition unreachable_class :: "int \<Rightarrow> bool" where
  "unreachable_class c \<longleftrightarrow> c = 116 \<or> c = 120 \<or> c = 124"

definition transport_outcome :: "hook_run \<Rightarrow> hook_error \<Rightarrow> hook_outcome" where
  "transport_outcome run e =
     (let c = classify_transport_failure e in
      if hr_event run = ''pre_tool'' then
        deny_client c (ke_message e @
          (if unreachable_class c then '' -- fail-closed deny (nothing is governed while the host cannot be reached)''
           else '' -- fail-closed deny (no governed status without a completed handshake)''))
      else
        advisory_note (hr_event run @ '': '' @ (if unreachable_class c then ''host unreachable -- '' else ''host rejected the call -- '') @
          ke_message e @ (if hr_event run = ''session_start'' then ''; session NOT registered'' else ''; outcome unobserved'')))"

definition reply_outcome :: "hook_run \<Rightarrow> reply \<Rightarrow> hook_outcome" where
  "reply_outcome run reply =
     (if py_kind reply = ErrorView then
        if hr_event run = ''pre_tool'' then deny_host (sint (py_error_code reply)) (py_error_detail reply)
        else advisory_note (hr_event run @ '': host denied -- '' @ int_text (sint (py_error_code reply)) @ '': '' @ py_error_detail reply)
      else if py_kind reply \<noteq> HookAck then
        if hr_event run = ''pre_tool'' then deny_client 116 ''unexpected reply shape''
        else advisory_note (hr_event run @ '': unexpected reply shape'')
      else if py_verdict reply = ''deny'' then deny_host (sint (ucast (py_reason_code reply) :: u32)) (py_reason_detail reply)
      else if hr_event run = ''session_start'' \<and> py_verdict reply = ''degraded'' then
        advisory_note (''session registered (id '' @ py_session_id reply @ ''); DEGRADED: '' @ py_reason_detail reply)
      else if hr_event run = ''session_start'' \<and> py_refresh reply \<noteq> [] \<and> py_refresh reply \<noteq> ''current'' then
        advisory_note (''session registered (id '' @ py_session_id reply @ ''); cognition '' @ py_refresh reply)
      else allow_silent)"

text \<open>What the hook settles by itself, before it contacts the host.\<close>

definition local_outcome :: "hook_run \<Rightarrow> zcode_fields \<Rightarrow> hook_outcome option" where
  "local_outcome run f =
     (let pre_tool = (hr_event run = ''pre_tool''); is_advisory = (hr_event run = ''session_start'' \<or> hr_event run = ''post_tool'') in
      if pre_tool \<and> hr_tool run \<noteq> [] \<and> zf_tool_name f \<noteq> [] \<and> zf_tool_name f \<noteq> hr_tool run then
        Some (deny_client 118 (''payload tool '' @ quoted_tool (zf_tool_name f) @ '' contradicts the registered tool '' @
          quoted_tool (hr_tool run) @ '' (misregistration)''))
      else if hr_session_handle run = [] \<and> zf_session_handle f \<noteq> [] \<and> pre_tool then
        Some (deny_client 118 ''no --session-handle on the registration command line (payload fields are corroborating evidence only)'')
      else if hr_session_handle run = [] \<and> zf_session_handle f \<noteq> [] \<and> is_advisory then
        Some (advisory_note (hr_event run @ '': no --session-handle on the registration command line; event unregistered''))
      else None)"

definition run_zcode_hook :: "foundation \<Rightarrow> hook_world \<Rightarrow> hook_run \<Rightarrow> hook_outcome" where
  "run_zcode_hook F w run =
     (case (if max_hook_payload_bytes < length (hr_payload run) then Inl 118 else extract_zcode_event F (hr_payload run)) of
        Inl _ \<Rightarrow>
          if hr_event run = ''pre_tool'' then deny_client 118 ''hook payload oversize or unreadable (digest unavailable)''
          else if hr_event run = ''session_start'' \<or> hr_event run = ''post_tool'' then
            advisory_note (hr_event run @ '': payload not readable; event unregistered'')
          else deny_client 118 ''unknown event kind''
      | Inr f \<Rightarrow>
          (case local_outcome run f of
             Some outcome \<Rightarrow> outcome
           | None \<Rightarrow>
               (case transact F w run f of
                  Inl e \<Rightarrow> transport_outcome run e
                | Inr reply \<Rightarrow> reply_outcome run reply)))"

section \<open>What a passing call rests on\<close>

lemma read_reply_ok:
  assumes "read_reply F w key t e x = Inr reply"
  obtains bs f where "x = Got_Frame bs" "frame_decode F key bs = Inr f" "decode_reply (text_of (vf_body f)) = Inr reply"
  using assms by (auto simp: read_reply_def fail_with_def split: frame_read.splits sum.splits)

lemma transact_ok:
  assumes "transact F w run f = Inr reply"
  obtains key hello where "hw_secret w = Inr key" "hw_install_id w \<noteq> None" "hw_connect_error w = None"
    "read_reply F w key (''no hello reply within '' @ to_string_u64 (hr_deadline_ms run) @ '' ms (timeout)'') ''no hello reply from host''
       (hw_hello w (hook_frame F key 1 hello_request)) = Inr hello"
    "py_kind hello = HelloAck" "exchange_event F w run key f = Inr reply"
  using assms
  by (auto simp: transact_def fail_with_def check_hello_def Let_def split: sum.splits if_splits option.splits)

lemma pre_tool_zero:
  assumes "hr_event run = ''pre_tool''" "ho_exit_code (run_zcode_hook F w run) = 0"
  obtains f reply where "extract_zcode_event F (hr_payload run) = Inr f" "transact F w run f = Inr reply" "py_kind reply = HookAck"
    "py_verdict reply \<noteq> ''deny''"
  using assms
  by (auto simp: run_zcode_hook_def local_outcome_def transport_outcome_def reply_outcome_def deny_client_def deny_host_def Let_def
      split: sum.splits if_splits option.splits)

text \<open>C12: safety: the hook lets a tool call pass only on the host's word.  When the process exits with success for a pre-tool event,
  the payload was within bounds and readable, the installation secret was available, the host acknowledged the
  handshake, and the frame that came back for exactly the request built from the payload and the registration verifies
  under the secret and decodes to an acknowledgement whose verdict is not a denial.  In every other case, whatever fails
  or is missing, the call is denied.\<close>

theorem pre_tool_fails_closed:
  assumes "hr_event run = ''pre_tool''" and "ho_exit_code (run_zcode_hook F w run) = 0"
  shows "\<exists>key f hs hf hello bs ef reply. hw_secret w = Inr key \<and> extract_zcode_event F (hr_payload run) = Inr f \<and>
    hw_hello w (hook_frame F key 1 hello_request) = Got_Frame hs \<and> frame_decode F key hs = Inr hf \<and>
    decode_reply (text_of (vf_body hf)) = Inr hello \<and> py_kind hello = HelloAck \<and>
    hw_event w (hook_frame F key 2 (event_request run f)) = Got_Frame bs \<and> frame_decode F key bs = Inr ef \<and>
    decode_reply (text_of (vf_body ef)) = Inr reply \<and> py_kind reply = HookAck \<and> py_verdict reply \<noteq> ''deny''"
proof -
  obtain f reply where f: "extract_zcode_event F (hr_payload run) = Inr f" "transact F w run f = Inr reply" "py_kind reply = HookAck"
    "py_verdict reply \<noteq> ''deny''" using pre_tool_zero [OF assms] .
  obtain key hello where k: "hw_secret w = Inr key"
    "read_reply F w key (''no hello reply within '' @ to_string_u64 (hr_deadline_ms run) @ '' ms (timeout)'') ''no hello reply from host''
       (hw_hello w (hook_frame F key 1 hello_request)) = Inr hello" "py_kind hello = HelloAck" "exchange_event F w run key f = Inr reply"
    using transact_ok [OF f(2)] by metis
  obtain hs hf where h: "hw_hello w (hook_frame F key 1 hello_request) = Got_Frame hs" "frame_decode F key hs = Inr hf"
    "decode_reply (text_of (vf_body hf)) = Inr hello" using read_reply_ok [OF k(2)] .
  have e: "read_reply F w key (''no reply from host within '' @ to_string_u64 (hr_deadline_ms run) @ '' ms (timeout)'')
      ''no reply from host (connection ended)'' (hw_event w (hook_frame F key 2 (event_request run f))) = Inr reply"
    using k(4) by (auto simp: exchange_event_def fail_with_def split: if_splits)
  obtain bs ef where b: "hw_event w (hook_frame F key 2 (event_request run f)) = Got_Frame bs" "frame_decode F key bs = Inr ef"
    "decode_reply (text_of (vf_body ef)) = Inr reply" using read_reply_ok [OF e] .
  show ?thesis using k(1,3) f h b by blast
qed

section \<open>The hook and the host\<close>

text \<open>A world whose pipe ends in a host: it answers the handshake, and the event with the reply of the host to the request.\<close>

definition answers_with :: "foundation \<Rightarrow> hook_world \<Rightarrow> secret_key \<Rightarrow> bytes \<Rightarrow> (bytes \<Rightarrow> frame_read) \<Rightarrow> reply \<Rightarrow> bool" where
  "answers_with F w key frame channel reply \<longleftrightarrow>
     (\<exists>hd. fh_magic hd = frame_magic \<and> fh_proto hd = protocol_version \<and> channel frame = Got_Frame (sent_bytes F key (Sent_reply hd reply))) \<and>
     reply_sendable reply \<and> length (encode_reply reply) \<le> max_input_bytes"

definition connected :: "foundation \<Rightarrow> hook_world \<Rightarrow> secret_key \<Rightarrow> bool" where
  "connected F w key \<longleftrightarrow>
     hw_secret w = Inr key \<and> hw_install_id w \<noteq> None \<and> hw_connect_error w = None \<and> hw_hello_written w \<and> hw_event_written w \<and>
     (\<exists>hello. py_kind hello = HelloAck \<and> answers_with F w key (hook_frame F key 1 hello_request) (hw_hello w) hello)"

lemma read_answer:
  assumes "journal_foundation F" "answers_with F w key frame channel reply"
  shows "read_reply F w key t e (channel frame) = Inr (reply_view reply)"
proof -
  note laws = journal_foundation.axioms [OF assms(1)]
  obtain hd where hd: "fh_magic hd = frame_magic" "fh_proto hd = protocol_version"
    "channel frame = Got_Frame (sent_bytes F key (Sent_reply hd reply))"
    and r: "reply_sendable reply" "length (encode_reply reply) \<le> max_input_bytes"
    using assms(2) by (auto simp: answers_with_def)
  show ?thesis
    using frame_of_text [OF laws(1) digest_laws.digest_length [OF laws(2)] hd(1,2) body_fits [OF r(2)], of key] hd(3) decode_encoded_reply [OF r]
    by (simp add: read_reply_def)
qed

lemma transact_answered:
  assumes "journal_foundation F" "connected F w key"
    and "answers_with F w key (hook_frame F key 2 (event_request run f)) (hw_event w) reply"
  shows "transact F w run f = Inr (reply_view reply)"
proof -
  obtain hello where h: "py_kind hello = HelloAck" "answers_with F w key (hook_frame F key 1 hello_request) (hw_hello w) hello"
    using assms(2) by (auto simp: connected_def)
  have "check_hello (reply_view hello) = None" using h(1) by (simp add: check_hello_def reply_view_def)
  then show ?thesis
    using assms(2) read_answer [OF assms(1) h(2)] read_answer [OF assms(1,3)]
    by (auto simp: transact_def exchange_event_def connected_def)
qed

lemma hook_answered:
  assumes "journal_foundation F" "connected F w key" "extract_zcode_event F (hr_payload run) = Inr f" "local_outcome run f = None"
    and "answers_with F w key (hook_frame F key 2 (event_request run f)) (hw_event w) reply"
  shows "run_zcode_hook F w run = reply_outcome run (reply_view reply)"
proof -
  have "\<not> max_hook_payload_bytes < length (hr_payload run)"
    using assms(3) by (auto simp: extract_zcode_event_def split: if_splits)
  then show ?thesis using assms(3,4) transact_answered [OF assms(1,2,5)] by (simp add: run_zcode_hook_def)
qed

lemma view_verdict: "py_kind (reply_view r) = py_kind r" "py_kind r = HookAck \<Longrightarrow> py_verdict (reply_view r) = py_verdict r"
  by (simp_all add: reply_view_def)

text \<open>C24: refinement: the hook and the host together.  When the pipe ends in a host that answers the request of the hook, the
  process exits with success for a pre-tool event exactly when the host acknowledges the request and does not deny it;
  and then the host has recorded the admission of that request, with everything an admission needs.\<close>

theorem hook_passes_iff_admitted:
  assumes "journal_foundation F" and "connected F w key" and "hr_event run = ''pre_tool''"
    and "extract_zcode_event F (hr_payload run) = Inr f" and "local_outcome run f = None"
    and "handle F env (request_view (event_request run f)) now h = (reply, h')"
    and "answers_with F w key (hook_frame F key 2 (event_request run f)) (hw_event w) reply"
  shows "(ho_exit_code (run_zcode_hook F w run) = 0) = (py_kind reply = HookAck \<and> py_verdict reply \<noteq> ''deny'') \<and>
    (ho_exit_code (run_zcode_hook F w run) = 0 \<longrightarrow> admission_recorded F env (request_view (event_request run f)) now h reply h')"
proof -
  have "run_zcode_hook F w run = reply_outcome run (reply_view reply)" by (rule hook_answered [OF assms(1,2,4,5,7)])
  then have iff: "(ho_exit_code (run_zcode_hook F w run) = 0) = (py_kind reply = HookAck \<and> py_verdict reply \<noteq> ''deny'')"
    using assms(3) view_verdict [of reply]
    by (auto simp: reply_outcome_def deny_host_def deny_client_def allow_silent_def)
  have r: "pq_kind (request_view (event_request run f)) = HookEvent" "pq_event (request_view (event_request run f)) = ''pre_tool''"
    using assms(3) by (simp_all add: request_view_def event_request_def)
  show ?thesis using iff admitted_is_recorded [OF assms(6) r] by blast
qed

section \<open>A small exchange\<close>

definition small_members :: "(string \<times> json) list" where
  "small_members = [(''tool_name'', JString ''Write''), (''tool_input'', JObject [(''file_path'', JString ''notes.txt'')])]"

definition small_run :: hook_run where
  "small_run = \<lparr>hr_event = ''pre_tool'', hr_payload = json_write (JObject small_members), hr_deadline_ms = 4750, hr_mediated_tools = [],
     hr_session_handle = ''z1'', hr_tool = ''Write''\<rparr>"

definition small_fields :: zcode_fields where
  "small_fields = (new_fields ref_foundation (hr_payload small_run))\<lparr>zf_tool_name := ''Write'', zf_file_path := ''notes.txt''\<rparr>"

lemma small_extract: "extract_zcode_event ref_foundation (hr_payload small_run) = Inr small_fields"
proof -
  have u: "utf8_ok s" if "s \<in> {''tool_name'', ''Write'', ''tool_input'', ''file_path'', ''notes.txt''}" for s :: string
    using that by (intro utf8_ok_ascii) auto
  have ok: "json_ok (JObject small_members) 1" by (simp add: small_members_def max_depth_def u)
  have l: "length (json_write (JObject small_members)) \<le> 1000"
    by (simp add: small_members_def json_write_def write_string_escaped_def escape_body.simps short_escape_def
        is_control_byte_def utf8_sequence_length_def Let_def)
  have "json_parse (json_write (JObject small_members)) = Inr (JObject small_members)"
    by (rule parse_written [OF ok]) (use l in \<open>simp add: max_input_bytes_def\<close>)
  from extract_strict [OF this, of ref_foundation] l show ?thesis
    by (simp add: small_members_def max_hook_payload_bytes_def outer_member_def inner_member_def wanted_string_def wanted_inner_def store_field_def
        small_fields_def small_run_def new_fields_def)
qed

definition small_request :: request where
  "small_request = request_view (event_request small_run small_fields)"

definition small_reply :: reply where
  "small_reply = fst (handle ref_foundation small_env small_request 9 small_host)"

lemma small_request_parts:
  "pq_kind small_request = HookEvent" "pq_event small_request = ''pre_tool''" "pq_session_handle small_request = ''z1''"
  "pq_tool_name small_request = ''Write''" "pq_file_path small_request = ''notes.txt''" "pq_request_id small_request = 2"
  by (simp_all add: small_request_def request_view_def event_request_def small_run_def small_fields_def)

lemma small_reply_eq:
  "small_reply = (hook_ack small_request small_host)\<lparr>py_session_id := ''ab'', py_refresh := ''expired'',
     py_action_id := hex_lower (minted ref_foundation small_env 0), py_verdict := ''not_governed'',
     py_reason_detail := ''action outside the governed write scope (observed, correlated)''\<rparr>"
proof -
  have "refresh_state_now small_host 9 = ''expired''" "rh_minter small_host = 0" "hs_id_hex small_session = ''ab''"
    by (simp_all add: refresh_state_now_def within_window_def small_host_def starting_host_def small_session_def)
  then show ?thesis
    using admission_live [OF ref_journal.journal_foundation_axioms small_host_parts(2,3) small_request_parts(1,2), of small_session small_env 9]
      small_request_parts small_host_parts clean_ready small_admissible small_fresh
    by (simp add: small_reply_def)
qed

lemma small_reply_short: "length (encode_reply small_reply) \<le> max_input_bytes"
proof -
  have "length (hex_lower (minted ref_foundation small_env 0)) = 32" by (simp add: hex_lower_length ref_journal.length_minted)
  then have h: "length (escape_body (hex_lower (minted ref_foundation small_env 0))) \<le> 200"
    using escape_body_length [of "hex_lower (minted ref_foundation small_env 0)"] by simp
  have "list_all (\<lambda>s. length (escape_body s) \<le> 6 * length s + 1)
    [''request_id'', ''kind'', ''hook_ack'', ''verdict'', ''not_governed'', ''session_id'', ''ab'', ''action_id'', ''reason_code'', ''reason_detail'',
     ''action outside the governed write scope (observed, correlated)'', ''refresh'', ''expired'', ''generation'']"
    by (simp only: list_all_iff escape_body_length simp_thms ball_triv)
  note k = this [unfolded list.pred_inject list.size]
  have n: "length (to_string_u64 0) = 1" "length (to_string_u64 1) = 1" "length (to_string_u64 2) = 1"
    by (simp_all add: to_string_u64_def digits_of.simps)
  show ?thesis
    using h k small_request_parts(6)
    by (simp add: small_reply_eq encode_reply_def reply_members_def hook_ack_def default_reply_def json_write_def write_string_escaped_def
        max_input_bytes_def n small_host_def starting_host_def)
qed

definition hello_ack :: reply where
  "hello_ack = default_reply\<lparr>py_kind := HelloAck, py_request_id := 1\<rparr>"

definition small_pipe :: hook_world where
  "small_pipe = \<lparr>hw_secret = Inr (replicate 32 5), hw_install_id = Some ''i1'', hw_connect_error = None, hw_hello_written = True,
     hw_hello = (\<lambda>_. Got_Frame (sent_bytes ref_foundation (replicate 32 5) (Sent_reply default_header hello_ack))), hw_event_written = True,
     hw_event = (\<lambda>_. Got_Frame (sent_bytes ref_foundation (replicate 32 5) (Sent_reply default_header small_reply))),
     hw_reply_error_detail = (\<lambda>_. [])\<rparr>"

lemma small_connected: "connected ref_foundation small_pipe (replicate 32 5)"
proof -
  have "length (encode_reply hello_ack) \<le> max_input_bytes"
    by (simp add: encode_reply_def reply_members_def hello_ack_def default_reply_def json_write_def
      write_string_escaped_def escape_body.simps short_escape_def is_control_byte_def utf8_sequence_length_def
      to_string_u64_def digits_of.simps max_input_bytes_def Let_def)
  moreover have "reply_sendable hello_ack" by (simp add: reply_sendable_def hello_ack_def default_reply_def utf8_ok_ascii)
  ultimately show ?thesis
    by (auto simp: connected_def small_pipe_def answers_with_def default_header_def intro!: exI [of _ hello_ack] exI [of _ default_header])
       (simp add: hello_ack_def)
qed

lemma small_answered: "answers_with ref_foundation small_pipe (replicate 32 5) frame (hw_event small_pipe) small_reply"
proof -
  have "reply_sendable small_reply"
    by (simp add: reply_sendable_def small_reply_eq utf8_ok_hex utf8_ok_ascii)
  then show ?thesis
    using small_reply_short by (auto simp: answers_with_def small_pipe_def default_header_def intro!: exI [of _ default_header])
qed

lemma small_local: "local_outcome small_run small_fields = None" "hr_event small_run = ''pre_tool''"
  by (simp_all add: local_outcome_def small_run_def small_fields_def)

lemma small_passes: "ho_exit_code (run_zcode_hook ref_foundation small_pipe small_run) = 0"
  using hook_answered [OF ref_journal.journal_foundation_axioms small_connected small_extract small_local(1) small_answered]
  by (simp add: reply_outcome_def view_verdict small_reply_eq small_run_def allow_silent_def)

theorem pre_tool_fails_closed_witness:
  "\<exists>key frame bs ef reply. hw_secret small_pipe = Inr key \<and> hw_event small_pipe frame = Got_Frame bs \<and> frame_decode ref_foundation key bs = Inr ef \<and>
     decode_reply (text_of (vf_body ef)) = Inr reply \<and> py_verdict reply \<noteq> ''deny''"
  using pre_tool_fails_closed [OF small_local(2) small_passes] by blast

theorem hook_passes_iff_admitted_witness:
  "\<exists>h'. handle ref_foundation small_env small_request 9 small_host = (small_reply, h') \<and>
     admission_recorded ref_foundation small_env small_request 9 small_host small_reply h'"
proof -
  obtain h' where h': "handle ref_foundation small_env small_request 9 small_host = (small_reply, h')"
    by (cases "handle ref_foundation small_env small_request 9 small_host") (simp add: small_reply_def)
  from hook_passes_iff_admitted [OF ref_journal.journal_foundation_axioms small_connected small_local(2) small_extract small_local(1)
      h' [unfolded small_request_def] small_answered]
  show ?thesis using small_passes h' by (auto simp: small_request_def)
qed

end
