(* ===== verification/Shadow_Compare.thy ===== *)
theory Shadow_Compare
  imports Json Source_Lock
begin

text \<open>
  The shadow comparison, \<^verbatim>\<open>cognition/shadow_compare.hpp/.cpp\<close>: the minimal reader of the workspace lock, the comparison of
  a source lock with the nodes of the workspace in both tiers, and the receipt.  The theorems say exactly when a
  comparison is evidence for a cutover, in terms of the documents compared, that the reader agrees with the strict writer, and
  that the receipt is JSON with the fields of the result.
\<close>

section \<open>The minimal JSON reader\<close>

datatype lock_doc =
    D_Object "(string \<times> lock_doc) list"
  | D_Array "lock_doc list"
  | D_String string
  | D_Number string
  | D_Boolean bool
  | D_Null

definition doc_escape :: "char \<Rightarrow> char option" where
  "doc_escape e =
     (if e = CHR ''n'' then Some (CHR 0x0A)
      else if e = CHR ''t'' then Some (CHR 0x09)
      else if e = CHR ''r'' then Some (CHR 0x0D)
      else if e = CHR ''b'' then Some (CHR 0x08)
      else if e = CHR ''f'' then Some (CHR 0x0C)
      else if e = CHR ''u'' then None
      else Some e)"

text \<open>A string after its opening quote.  A backslash that ends the input stands for itself.\<close>

fun doc_text :: "string \<Rightarrow> string \<Rightarrow> (string \<times> string) option" where
  "doc_text out [] = None"
| "doc_text out (c # cs) =
     (if c = quote then Some (out, cs)
      else if c = backslash \<and> cs \<noteq> [] then
        (case doc_escape (hd cs) of None \<Rightarrow> None | Some d \<Rightarrow> doc_text (out @ [d]) (tl cs))
      else doc_text (out @ [c]) cs)"

definition literal_char :: "char \<Rightarrow> bool" where
  "literal_char c \<longleftrightarrow> is_digit c \<or> c \<in> {CHR ''-'', CHR ''+'', CHR ''.'', CHR ''e'', CHR ''E''}"

text \<open>The scalars of \<^verbatim>\<open>value\<close>: everything but objects and arrays.\<close>

definition doc_scalar :: "string \<Rightarrow> (lock_doc \<times> string) option" where
  "doc_scalar s =
     (if s = [] then None
      else if hd s = quote then map_option (\<lambda>(t, r). (D_String t, r)) (doc_text [] (tl s))
      else if hd s = CHR ''t'' \<or> hd s = CHR ''f'' then
        if take 4 s = ''true'' then Some (D_Boolean True, drop 4 s)
        else if take 5 s = ''false'' then Some (D_Boolean False, drop 5 s)
        else None
      else if hd s = CHR ''n'' then
        if take 4 s = ''null'' then Some (D_Null, drop 4 s) else None
      else if takeWhile literal_char s = [] then None
      else Some (D_Number (takeWhile literal_char s), dropWhile literal_char s))"

text \<open>
  \<^verbatim>\<open>value\<close>, with its loops over the fields of an object and the items of an array.  Between a key and its value
  everything up to the next colon is passed over.
\<close>

function doc_value :: "string \<Rightarrow> (lock_doc \<times> string) option"
  and doc_fields :: "(string \<times> lock_doc) list \<Rightarrow> string \<Rightarrow> (lock_doc \<times> string) option"
  and doc_items :: "lock_doc list \<Rightarrow> string \<Rightarrow> (lock_doc \<times> string) option" where
  "doc_value s =
     (case skip_ws s of [] \<Rightarrow> None
      | c # cs \<Rightarrow>
          if c = CHR ''{'' then
            (case consume_char (CHR ''}'') (skip_ws cs) of Some r \<Rightarrow> Some (D_Object [], r) | None \<Rightarrow> doc_fields [] cs)
          else if c = CHR ''['' then
            (case consume_char (CHR '']'') (skip_ws cs) of Some r \<Rightarrow> Some (D_Array [], r) | None \<Rightarrow> doc_items [] cs)
          else doc_scalar (c # cs))"
| "doc_fields fs s =
     (case consume_char quote (skip_ws s) of None \<Rightarrow> None
      | Some k \<Rightarrow>
          (case doc_text [] k of None \<Rightarrow> None
           | Some (key, s1) \<Rightarrow>
               if key \<in> fst ` set fs then None
               else
                 (case dropWhile (\<lambda>c. c \<noteq> CHR '':'') s1 of [] \<Rightarrow> None
                  | colon # s2 \<Rightarrow>
                      (case doc_value s2 of None \<Rightarrow> None
                       | Some (v, s3) \<Rightarrow>
                           (case consume_char (CHR '','') (skip_ws s3) of
                              Some s4 \<Rightarrow> doc_fields (fs @ [(key, v)]) s4
                            | None \<Rightarrow> map_option (\<lambda>s4. (D_Object (fs @ [(key, v)]), s4)) (consume_char (CHR ''}'') (skip_ws s3)))))))"
| "doc_items vs s =
     (case doc_value s of None \<Rightarrow> None
      | Some (v, s3) \<Rightarrow>
          (case consume_char (CHR '','') (skip_ws s3) of
             Some s4 \<Rightarrow> doc_items (vs @ [v]) s4
           | None \<Rightarrow> map_option (\<lambda>s4. (D_Array (vs @ [v]), s4)) (consume_char (CHR '']'') (skip_ws s3))))"
  by pat_completeness auto

lemma doc_text_shorter: "doc_text out s = Some (t, r) \<Longrightarrow> length r < length s"
proof (induction out s rule: doc_text.induct)
  case (2 out c cs)
  show ?case
  proof (cases "c = quote \<or> c = backslash \<and> cs \<noteq> []")
    case True
    then show ?thesis
      using 2 by (cases cs) (auto split: if_splits option.splits intro: less_trans)
  next
    case False
    then show ?thesis using 2 by auto
  qed
qed simp

lemma doc_scalar_shorter:
  assumes "doc_scalar s = Some (v, r)"
  shows "length r < length s"
proof -
  have n: "s \<noteq> []" and "r = drop 4 s \<or> r = drop 5 s \<or> (\<exists>t. doc_text [] (tl s) = Some (t, r)) \<or>
      takeWhile literal_char s \<noteq> [] \<and> r = dropWhile literal_char s"
    using assms by (auto simp: doc_scalar_def split: if_split_asm)
  moreover have "length (dropWhile literal_char s) < length s" if "takeWhile literal_char s \<noteq> []"
    using arg_cong [OF takeWhile_dropWhile_id [of literal_char s], of length] that
    by (cases "takeWhile literal_char s") (simp_all del: takeWhile_dropWhile_id)
  moreover have "length (drop k s) < length s" if "0 < k" for k using n that by simp
  ultimately show ?thesis using n doc_text_shorter [of "[]" "tl s"] by fastforce
qed

lemma past_colon: "dropWhile (\<lambda>c. c \<noteq> CHR '':'') s = c # r \<Longrightarrow> length r < length s"
  using length_dropWhile_le [of "\<lambda>c. c \<noteq> CHR '':''" s] by simp

lemma skip_ws_shorter: "skip_ws s = c # r \<Longrightarrow> length r < length s"
  using length_skip_ws [of s] by simp

lemma doc_shorter_partial:
  "doc_value_doc_fields_doc_items_dom (Inl s) \<Longrightarrow> doc_value s = Some (v, r) \<longrightarrow> length r < length s"
  "doc_value_doc_fields_doc_items_dom (Inr (Inl (fs, s))) \<Longrightarrow> doc_fields fs s = Some (v, r) \<longrightarrow> length r < length s"
  "doc_value_doc_fields_doc_items_dom (Inr (Inr (vs, s))) \<Longrightarrow> doc_items vs s = Some (v, r) \<longrightarrow> length r < length s"
proof (induction s and fs s and vs s arbitrary: v r and v r and v r rule: doc_value_doc_fields_doc_items.pinduct)
  case (1 s)
  show ?case
  proof
    assume a: "doc_value s = Some (v, r)"
    note e = a [unfolded doc_value.psimps [OF "1.hyps"]]
    obtain c cs where s: "skip_ws s = c # cs" using e by (cases "skip_ws s") auto
    note l = skip_ws_shorter [OF s]
    have d: "length r < Suc (length cs)"
    proof (cases "c = CHR ''{'' \<or> c = CHR ''[''")
      case True
      then show ?thesis
        using e s "1.IH"(1) [OF s, of v r] "1.IH"(2) [OF s, of v r]
        by (auto split: option.splits dest: consume_char_shorter)
    next
      case False
      then have "doc_scalar (c # cs) = Some (v, r)" using e s by simp
      then show ?thesis using doc_scalar_shorter [of "c # cs"] by simp
    qed
    then show "length r < length s" using l by simp
  qed
next
  case (2 fs s)
  show ?case
  proof
    assume a: "doc_fields fs s = Some (v, r)"
    note e = a [unfolded doc_fields.psimps [OF "2.hyps"]]
    obtain k where k: "consume_char quote (skip_ws s) = Some k" using e by (auto split: option.splits)
    obtain key s1 where t: "doc_text [] k = Some (key, s1)" using e k by (auto split: option.splits)
    have f: "key \<notin> fst ` set fs" using e k t by (auto split: if_splits)
    obtain colon s2 where c: "dropWhile (\<lambda>c. c \<noteq> CHR '':'') s1 = colon # s2"
      using e k t f by (cases "dropWhile (\<lambda>c. c \<noteq> CHR '':'') s1") auto
    obtain w s3 where w: "doc_value s2 = Some (w, s3)" using e k t f c by (auto split: option.splits)
    have l: "length s3 < length s"
      using consume_char_shorter [OF k] doc_text_shorter [OF t] past_colon [OF c] "2.IH"(1) [OF k t refl f c, of w s3] w by simp
    show "length r < length s"
    proof (cases "consume_char (CHR '','') (skip_ws s3)")
      case None
      then have "consume_char (CHR ''}'') (skip_ws s3) = Some r" using e k t f c w by simp
      then show ?thesis using consume_char_shorter [of "CHR ''}''" s3 r] l by simp
    next
      case (Some s4)
      then have "doc_fields (fs @ [(key, w)]) s4 = Some (v, r)" using e k t f c w by simp
      then show ?thesis
        using "2.IH"(2) [OF k t refl f c w refl Some, of v r] consume_char_shorter [OF Some] l by simp
    qed
  qed
next
  case (3 vs s)
  show ?case
  proof
    assume a: "doc_items vs s = Some (v, r)"
    note e = a [unfolded doc_items.psimps [OF "3.hyps"]]
    obtain w s3 where w: "doc_value s = Some (w, s3)" using e by (auto split: option.splits)
    have l: "length s3 < length s" using "3.IH"(1) [of w s3] w by simp
    show "length r < length s"
    proof (cases "consume_char (CHR '','') (skip_ws s3)")
      case None
      then have "consume_char (CHR '']'') (skip_ws s3) = Some r" using e w by simp
      then show ?thesis using consume_char_shorter [of "CHR '']''" s3 r] l by simp
    next
      case (Some s4)
      then have "doc_items (vs @ [w]) s4 = Some (v, r)" using e w by simp
      then show ?thesis using "3.IH"(2) [OF w refl Some, of v r] consume_char_shorter [OF Some] l by simp
    qed
  qed
qed

termination doc_value
proof (relation "measure (\<lambda>x. case x of Inl s \<Rightarrow> 2 * length s | Inr (Inl (fs, s)) \<Rightarrow> 2 * length s + 1 | Inr (Inr (vs, s)) \<Rightarrow> 2 * length s + 1)",
    goal_cases)
  case (4 fs s k p key s1 colon s2)
  then show ?case using consume_char_shorter [of quote s k] doc_text_shorter [of "[]" k key s1] past_colon [of s1 colon s2] by simp
next
  case (5 fs s k p key s1 colon s2 q v s3 s4)
  then have "length s3 < length s2" using doc_shorter_partial(1) [of s2 v s3] by simp
  then show ?case
    using 5 consume_char_shorter [of quote s k] doc_text_shorter [of "[]" k key s1] past_colon [of s1 colon s2]
      consume_char_shorter [of "CHR '',''" s3 s4] by simp
next
  case (7 vs s p v s3 s4)
  then show ?case using doc_shorter_partial(1) [of s v s3] consume_char_shorter [of "CHR '',''" s3 s4] by simp
qed (auto dest: skip_ws_shorter)

declare doc_value.simps [simp del] doc_fields.simps [simp del] doc_items.simps [simp del]

text \<open>\<^verbatim>\<open>parse_json\<close>.\<close>

definition parse_doc :: "string \<Rightarrow> lock_doc option" where
  "parse_doc bytes = (case doc_value bytes of Some (v, r) \<Rightarrow> if skip_ws r = [] then Some v else None | None \<Rightarrow> None)"

fun doc_find :: "lock_doc \<Rightarrow> string \<Rightarrow> lock_doc option" where
  "doc_find (D_Object fs) key = map_of fs key"
| "doc_find _ key = None"

section \<open>The workspace lock\<close>

record workspace_node =
  wn_commit :: string
  wn_tree :: string
  wn_shadow_only :: bool
  wn_present :: bool

record workspace_lock =
  wl_generation :: string
  wl_nodes :: "string \<rightharpoonup> workspace_node"

definition text_field :: "lock_doc \<Rightarrow> string \<Rightarrow> string" where
  "text_field d key = (case doc_find d key of Some (D_String t) \<Rightarrow> t | _ \<Rightarrow> [])"

text \<open>The node of an object; a declaration that does not say otherwise leaves it shadow only.\<close>

definition read_node :: "lock_doc \<Rightarrow> workspace_node" where
  "read_node d =
     \<lparr>wn_commit = text_field d ''commit'', wn_tree = text_field d ''tree'',
      wn_shadow_only =
        (case doc_find d ''declaration'' of
           Some (D_Object ds) \<Rightarrow> (case doc_find (D_Object ds) ''shadow_only'' of Some (D_Boolean b) \<Rightarrow> b | _ \<Rightarrow> True)
         | _ \<Rightarrow> True),
      wn_present = True\<rparr>"

text \<open>The loop over the nodes; \<^verbatim>\<open>emplace\<close> keeps the first entry of a key.\<close>

fun read_nodes :: "(string \<times> lock_doc) list \<Rightarrow> (string \<rightharpoonup> workspace_node) \<Rightarrow> string \<rightharpoonup> workspace_node" where
  "read_nodes [] nodes = nodes"
| "read_nodes ((repository, D_Object fs) # ms) nodes =
     read_nodes ms (if nodes repository = None then nodes(repository \<mapsto> read_node (D_Object fs)) else nodes)"
| "read_nodes (_ # ms) nodes = read_nodes ms nodes"

definition parse_workspace_lock :: "string \<Rightarrow> workspace_lock" where
  "parse_workspace_lock bytes =
     (case parse_doc bytes of
        None \<Rightarrow> \<lparr>wl_generation = [], wl_nodes = Map.empty\<rparr>
      | Some d \<Rightarrow>
          \<lparr>wl_generation = text_field d ''generation'',
           wl_nodes = (case doc_find d ''nodes'' of Some (D_Object ms) \<Rightarrow> read_nodes ms Map.empty | _ \<Rightarrow> Map.empty)\<rparr>)"

section \<open>The comparison\<close>

datatype shadow_divergence = Sd_None | StaleNode | NodeMissing | FilterSetMismatch | ContentConflict

definition shadow_divergence_text :: "shadow_divergence \<Rightarrow> string" where
  "shadow_divergence_text d =
     (case d of Sd_None \<Rightarrow> ''none'' | StaleNode \<Rightarrow> ''StaleNode'' | NodeMissing \<Rightarrow> ''NodeMissing''
      | FilterSetMismatch \<Rightarrow> ''FilterSetMismatch'' | ContentConflict \<Rightarrow> ''ContentIdentityConflict'')"

record shadow_filters =
  sf_filters :: "string \<rightharpoonup> string list"
  sf_carrier_table_present :: bool

record shadow_repo =
  sr_repository :: string
  sr_lock_commit :: string
  sr_lock_tree :: string
  sr_node_commit :: string
  sr_node_tree :: string
  sr_divergence :: shadow_divergence
  sr_shadow_only_node :: bool
  sr_detail :: string

record shadow_result =
  sx_workspace_generation :: string
  sx_source_lock_sha256 :: string
  sx_workspace_lock_binding :: string
  sx_repositories :: "shadow_repo list"

definition all_equal :: "shadow_result \<Rightarrow> bool" where
  "all_equal x = (list_all (\<lambda>r. sr_divergence r = Sd_None) (sx_repositories x) \<and> sx_repositories x \<noteq> [])"

definition cutover_grade :: "shadow_result \<Rightarrow> bool" where
  "cutover_grade x = (all_equal x \<and> list_all (\<lambda>r. \<not> sr_shadow_only_node r) (sx_repositories x))"

text \<open>A \<^verbatim>\<open>std::map\<close> is its entries in the order of the keys.\<close>

fun slot_put :: "string \<Rightarrow> 'v \<Rightarrow> (string \<times> 'v) list \<Rightarrow> (string \<times> 'v) list" where
  "slot_put k v [] = [(k, v)]"
| "slot_put k v ((a, b) # xs) =
     (if k = a then (k, v) # xs else if k < a then (k, v) # (a, b) # xs else (a, b) # slot_put k v xs)"

definition new_row :: "string \<Rightarrow> string \<times> string \<Rightarrow> shadow_repo" where
  "new_row repository p =
     \<lparr>sr_repository = repository, sr_lock_commit = fst p, sr_lock_tree = snd p, sr_node_commit = [], sr_node_tree = [],
      sr_divergence = Sd_None, sr_shadow_only_node = False, sr_detail = []\<rparr>"

definition conflict_row :: "workspace_lock \<Rightarrow> string \<Rightarrow> string \<times> string \<Rightarrow> shadow_repo" where
  "conflict_row ws repository slot =
     (new_row repository slot)
       \<lparr>sr_node_commit := (case wl_nodes ws repository of Some n \<Rightarrow> wn_commit n | None \<Rightarrow> []),
        sr_divergence := ContentConflict, sr_detail := ''lock records multiple (commit, tree) pairs for one repository''\<rparr>"

text \<open>One entry of the lock: the slots of the repositories, those in conflict, and the rows reported so far.\<close>

definition lock_slot :: "workspace_lock \<Rightarrow> lock_entry \<Rightarrow>
    (string \<times> string \<times> string) list \<times> string set \<times> shadow_repo list \<Rightarrow>
    (string \<times> string \<times> string) list \<times> string set \<times> shadow_repo list" where
  "lock_slot ws e = (\<lambda>(locked, conflicted, rows).
     let repository = lk_repository e; pair = (lk_commit e, lk_tree_oid e);
         slot = (case map_of locked repository of Some p \<Rightarrow> p | None \<Rightarrow> ([], [])) in
     if fst slot = [] then (slot_put repository pair locked, conflicted, rows)
     else if fst slot \<noteq> lk_commit e \<or> snd slot \<noteq> lk_tree_oid e then
       (slot_put repository pair locked, insert repository conflicted, rows @ [conflict_row ws repository slot])
     else (locked, conflicted, rows))"

text \<open>The second tier of one repository whose commit and tree agree.\<close>

definition compare_filters :: "shadow_filters \<Rightarrow> shadow_filters \<Rightarrow> string \<Rightarrow> shadow_repo \<Rightarrow> shadow_repo" where
  "compare_filters filters_used filters_at_node repository r =
     (if \<not> sf_carrier_table_present filters_at_node then
        r\<lparr>sr_divergence := FilterSetMismatch, sr_detail := ''corpus table absent at the workspace node's carrier revision''\<rparr>
      else case sf_filters filters_at_node repository of
        None \<Rightarrow> r\<lparr>sr_divergence := FilterSetMismatch, sr_detail := ''corpus table at the node revision does not cover this repository''\<rparr>
      | Some at_node \<Rightarrow>
          if sf_filters filters_used repository = None \<or> sf_filters filters_used repository \<noteq> Some at_node then
            r\<lparr>sr_divergence := FilterSetMismatch, sr_detail := ''path filters differ between the lock-driving table and the node revision''\<rparr>
          else r)"

definition compare_repo ::
  "workspace_lock \<Rightarrow> (shadow_filters \<times> shadow_filters) option \<Rightarrow> string \<times> string \<times> string \<Rightarrow> shadow_repo" where
  "compare_repo ws filters = (\<lambda>(repository, pair).
     let r = new_row repository pair in
     case wl_nodes ws repository of
       None \<Rightarrow> r\<lparr>sr_divergence := NodeMissing, sr_detail := ''corpus repository has no workspace lock node''\<rparr>
     | Some n \<Rightarrow>
         if \<not> wn_present n then r\<lparr>sr_divergence := NodeMissing, sr_detail := ''corpus repository has no workspace lock node''\<rparr>
         else
           let r' = r\<lparr>sr_node_commit := wn_commit n, sr_node_tree := wn_tree n, sr_shadow_only_node := wn_shadow_only n\<rparr> in
           if fst pair \<noteq> wn_commit n \<or> snd pair \<noteq> wn_tree n then
             r'\<lparr>sr_divergence := StaleNode, sr_detail := ''workspace node commit/tree != the locked closure revision''\<rparr>
           else case filters of None \<Rightarrow> r' | Some (used, at_node) \<Rightarrow> compare_filters used at_node repository r')"

definition compare_one ::
  "foundation \<Rightarrow> source_lock \<Rightarrow> workspace_lock \<Rightarrow> (shadow_filters \<times> shadow_filters) option \<Rightarrow> shadow_result" where
  "compare_one F lock ws filters =
     (let (locked, conflicted, rows) = fold (lock_slot ws) lock ([], {}, []) in
      \<lparr>sx_workspace_generation = wl_generation ws, sx_source_lock_sha256 = lock_digest F lock, sx_workspace_lock_binding = [],
       sx_repositories = rows @ map (compare_repo ws filters) (filter (\<lambda>(repository, pair). repository \<notin> conflicted) locked)\<rparr>)"

definition shadow_compare :: "foundation \<Rightarrow> source_lock \<Rightarrow> workspace_lock \<Rightarrow> shadow_result" where
  "shadow_compare F lock ws = compare_one F lock ws None"

definition shadow_compare_filtered ::
  "foundation \<Rightarrow> source_lock \<Rightarrow> workspace_lock \<Rightarrow> shadow_filters \<Rightarrow> shadow_filters \<Rightarrow> shadow_result" where
  "shadow_compare_filtered F lock ws used at_node = compare_one F lock ws (Some (used, at_node))"

section \<open>The receipt\<close>

definition receipt_escape_char :: "char \<Rightarrow> string" where
  "receipt_escape_char c =
     (if c = quote then [backslash, quote]
      else if c = backslash then [backslash, backslash]
      else if c = CHR 0x0A then [backslash, CHR ''n'']
      else if c = CHR 0x09 then [backslash, CHR ''t'']
      else if c = CHR 0x0D then [backslash, CHR ''r'']
      else [c])"

definition receipt_escape :: "string \<Rightarrow> string" where
  "receipt_escape s = concat (map receipt_escape_char s)"

text \<open>Members whose value is a string, escaped or as it is, and one whose value is a truth value.\<close>

definition plain_member :: "string \<Rightarrow> string \<Rightarrow> string" where
  "plain_member key s = quote # key @ [quote, CHR '':'', quote] @ s @ [quote]"

definition text_member :: "string \<Rightarrow> string \<Rightarrow> string" where
  "text_member key s = plain_member key (receipt_escape s)"

definition truth_member :: "string \<Rightarrow> bool \<Rightarrow> string" where
  "truth_member key b = quote # key @ [quote, CHR '':''] @ (if b then ''true'' else ''false'')"

definition repo_json :: "shadow_repo \<Rightarrow> string" where
  "repo_json r =
     ''{'' @ text_member ''repository'' (sr_repository r) @ '','' @ text_member ''lock_commit'' (sr_lock_commit r) @ '','' @
     text_member ''lock_tree'' (sr_lock_tree r) @ '','' @ text_member ''node_commit'' (sr_node_commit r) @ '','' @
     text_member ''node_tree'' (sr_node_tree r) @ '','' @
     plain_member ''divergence'' (shadow_divergence_text (sr_divergence r)) @ '','' @
     truth_member ''shadow_only_node'' (sr_shadow_only_node r) @ '','' @ text_member ''detail'' (sr_detail r) @ ''}''"

fun repo_array :: "bool \<Rightarrow> shadow_repo list \<Rightarrow> string" where
  "repo_array first [] = []"
| "repo_array first (r # rs) = (if first then [] else '','') @ repo_json r @ repo_array False rs"

definition shadow_compare_receipt_json :: "shadow_result \<Rightarrow> string" where
  "shadow_compare_receipt_json x =
     ''{'' @ text_member ''schema'' ''qiven-tca-shadow-compare-v1'' @ '','' @
     text_member ''workspace_generation'' (sx_workspace_generation x) @ '','' @
     text_member ''external_source_lock_sha256'' (sx_source_lock_sha256 x) @ '','' @
     text_member ''source_lock_binding'' (sx_workspace_lock_binding x) @ '','' @
     truth_member ''all_equal'' (all_equal x) @ '','' @ truth_member ''cutover_grade'' (cutover_grade x) @ '','' @
     quote # ''repositories'' @ [quote, CHR '':'', CHR ''[''] @ repo_array True (sx_repositories x) @ '']}''"

section \<open>What the slots hold\<close>

lemma slot_put_map: "map_of (slot_put k v xs) = (map_of xs)(k \<mapsto> v)"
  by (induction k v xs rule: slot_put.induct) (auto simp: fun_eq_iff)

lemma slot_put_keys: "fst ` set (slot_put k v xs) = insert k (fst ` set xs)"
  by (induction k v xs rule: slot_put.induct) auto

lemma slot_put_sorted: "sorted_wrt (<) (map fst xs) \<Longrightarrow> sorted_wrt (<) (map fst (slot_put k v xs))"
proof (induction k v xs rule: slot_put.induct)
  case (2 k v a b xs)
  then show ?case using slot_put_keys [of k v xs] by (force simp: neq_iff)
qed simp

abbreviation entry_pair :: "lock_entry \<Rightarrow> string \<times> string" where
  "entry_pair e \<equiv> (lk_commit e, lk_tree_oid e)"

text \<open>
  After the entries \<open>es\<close>: rows and conflicts appear together, a conflict means two entries that disagree, and without one each
  repository has one slot with the pair of all its entries.
\<close>

definition slots_inv :: "lock_entry list \<Rightarrow> (string \<times> string \<times> string) list \<times> string set \<times> shadow_repo list \<Rightarrow> bool" where
  "slots_inv es st \<longleftrightarrow> (case st of (locked, conflicted, rows) \<Rightarrow>
     (rows = [] \<longleftrightarrow> conflicted = {}) \<and> list_all (\<lambda>r. sr_divergence r = ContentConflict) rows \<and>
     sorted_wrt (<) (map fst locked) \<and> (\<forall>(k, p) \<in> set locked. \<exists>e \<in> set es. lk_repository e = k \<and> entry_pair e = p) \<and>
     (conflicted \<noteq> {} \<longrightarrow> (\<exists>e \<in> set es. \<exists>e' \<in> set es. lk_repository e = lk_repository e' \<and> entry_pair e \<noteq> entry_pair e')) \<and>
     (conflicted = {} \<longrightarrow> (\<forall>e \<in> set es. map_of locked (lk_repository e) = Some (entry_pair e))))"

lemma slot_in: "(k, p) \<in> set (slot_put a b xs) \<Longrightarrow> (k, p) = (a, b) \<or> (k, p) \<in> set xs"
  by (induction a b xs rule: slot_put.induct) (auto split: if_splits)

lemma slots_inv_step:
  assumes "slots_inv es (locked, conflicted, rows)" "\<forall>x \<in> set es. lk_commit x \<noteq> []"
  shows "slots_inv (es @ [e]) (lock_slot ws e (locked, conflicted, rows))"
proof -
  let ?k = "lk_repository e" and ?s = "case map_of locked (lk_repository e) of Some p \<Rightarrow> p | None \<Rightarrow> ([], [])"
  have i: "(rows = []) = (conflicted = {})" "list_all (\<lambda>r. sr_divergence r = ContentConflict) rows" "sorted_wrt (<) (map fst locked)"
    "\<forall>(k, p) \<in> set locked. \<exists>e \<in> set es. lk_repository e = k \<and> entry_pair e = p"
    "conflicted \<noteq> {} \<Longrightarrow> \<exists>e \<in> set es. \<exists>e' \<in> set es. lk_repository e = lk_repository e' \<and> entry_pair e \<noteq> entry_pair e'"
    "conflicted = {} \<Longrightarrow> \<forall>e \<in> set es. map_of locked (lk_repository e) = Some (entry_pair e)"
    using assms(1) by (auto simp: slots_inv_def)
  have put: "sorted_wrt (<) (map fst (slot_put ?k (entry_pair e) locked))"
    "\<forall>(k, p) \<in> set (slot_put ?k (entry_pair e) locked). \<exists>x \<in> set (es @ [e]). lk_repository x = k \<and> entry_pair x = p"
    using slot_put_sorted [OF i(3)] i(4) by (auto dest!: slot_in)
  have some: "\<exists>x \<in> set es. lk_repository x = ?k \<and> entry_pair x = p" if "map_of locked ?k = Some p" for p
    using i(4) map_of_SomeD [OF that] by fastforce
  consider (new) "map_of locked ?k = None" | (same) "map_of locked ?k = Some (entry_pair e)"
    | (other) p where "map_of locked ?k = Some p" "p \<noteq> entry_pair e" by (cases "map_of locked ?k") auto
  then show ?thesis
  proof cases
    case new
    have step: "lock_slot ws e (locked, conflicted, rows) = (slot_put ?k (entry_pair e) locked, conflicted, rows)"
      using new by (simp add: lock_slot_def)
    have "map_of (slot_put ?k (entry_pair e) locked) (lk_repository x) = Some (entry_pair x)"
      if "conflicted = {}" "x \<in> set (es @ [e])" for x
      using i(6) [OF that(1)] that(2) new by (auto simp: slot_put_map)
    moreover have "\<exists>x \<in> set (es @ [e]). \<exists>x' \<in> set (es @ [e]). lk_repository x = lk_repository x' \<and> entry_pair x \<noteq> entry_pair x'"
      if "conflicted \<noteq> {}" using i(5) [OF that] unfolding set_append by blast
    ultimately show ?thesis unfolding step slots_inv_def prod.case using i(1,2) put by blast
  next
    case same
    have n: "lk_commit e \<noteq> []" using some [OF same] assms(2) by auto
    have step: "lock_slot ws e (locked, conflicted, rows) = (locked, conflicted, rows)"
      using same n by (simp add: lock_slot_def)
    have "map_of locked (lk_repository x) = Some (entry_pair x)" if "conflicted = {}" "x \<in> set (es @ [e])" for x
      using i(6) [OF that(1)] that(2) same by auto
    moreover have "\<exists>x \<in> set (es @ [e]). \<exists>x' \<in> set (es @ [e]). lk_repository x = lk_repository x' \<and> entry_pair x \<noteq> entry_pair x'"
      if "conflicted \<noteq> {}" using i(5) [OF that] unfolding set_append by blast
    moreover have "\<forall>(k, p) \<in> set locked. \<exists>x \<in> set (es @ [e]). lk_repository x = k \<and> entry_pair x = p" using i(4) by fastforce
    ultimately show ?thesis unfolding step slots_inv_def prod.case using i(1,2,3) by blast
  next
    case other
    have n: "fst p \<noteq> []" using some [OF other(1)] assms(2) by auto
    have "fst p \<noteq> lk_commit e \<or> snd p \<noteq> lk_tree_oid e" using other(2) by (cases p) auto
    then have step: "lock_slot ws e (locked, conflicted, rows) =
        (slot_put ?k (entry_pair e) locked, insert ?k conflicted, rows @ [conflict_row ws ?k p])"
      using other(1) n by (auto simp: lock_slot_def Let_def)
    obtain x where "x \<in> set es" "lk_repository x = ?k" "entry_pair x \<noteq> entry_pair e" using some [OF other(1)] other(2) by auto
    then have "\<exists>x \<in> set (es @ [e]). \<exists>x' \<in> set (es @ [e]). lk_repository x = lk_repository x' \<and> entry_pair x \<noteq> entry_pair x'"
      by (intro bexI [of _ x] bexI [of _ e]) auto
    moreover have "list_all (\<lambda>r. sr_divergence r = ContentConflict) (rows @ [conflict_row ws ?k p])"
      using i(2) by (simp add: conflict_row_def)
    ultimately show ?thesis unfolding step slots_inv_def prod.case using put by blast
  qed
qed

lemma slots_inv_fold:
  assumes "slots_inv es st" "\<forall>x \<in> set (es @ lock). lk_commit x \<noteq> []"
  shows "slots_inv (es @ lock) (fold (lock_slot ws) lock st)"
  using assms
proof (induction lock arbitrary: es st)
  case (Cons e lock)
  obtain locked conflicted rows where st: "st = (locked, conflicted, rows)" by (cases st)
  have "slots_inv (es @ [e]) (lock_slot ws e st)" unfolding st by (rule slots_inv_step) (use Cons.prems st in auto)
  from Cons.IH [OF this] show ?case using Cons.prems(2) by simp
qed simp

section \<open>When a comparison is evidence\<close>

definition node_agrees :: "workspace_lock \<Rightarrow> (shadow_filters \<times> shadow_filters) option \<Rightarrow> string \<times> string \<times> string \<Rightarrow> bool" where
  "node_agrees ws filters = (\<lambda>(repository, pair).
     (\<exists>n. wl_nodes ws repository = Some n \<and> wn_present n \<and> \<not> wn_shadow_only n \<and> pair = (wn_commit n, wn_tree n)) \<and>
     (case filters of None \<Rightarrow> True
      | Some (used, at_node) \<Rightarrow> sf_carrier_table_present at_node \<and> sf_filters at_node repository \<noteq> None \<and>
          sf_filters used repository = sf_filters at_node repository))"

lemma node_agrees_unique: "node_agrees ws filters (k, p) \<Longrightarrow> node_agrees ws filters (k, q) \<Longrightarrow> p = q"
  by (auto simp: node_agrees_def)

lemma compare_repo_ok:
  "sr_divergence (compare_repo ws filters x) = Sd_None \<and> \<not> sr_shadow_only_node (compare_repo ws filters x) \<longleftrightarrow> node_agrees ws filters x"
  by (cases x) (auto simp: compare_repo_def node_agrees_def compare_filters_def new_row_def Let_def split: option.split)

lemma cutover_iff:
  assumes "\<forall>e \<in> set lock. lk_commit e \<noteq> []"
  shows "cutover_grade (compare_one F lock ws filters) \<longleftrightarrow>
    lock \<noteq> [] \<and> (\<forall>e \<in> set lock. node_agrees ws filters (lk_repository e, entry_pair e))"
proof -
  obtain locked conflicted rows where st: "fold (lock_slot ws) lock ([], {}, []) = (locked, conflicted, rows)"
    by (cases "fold (lock_slot ws) lock ([], {}, [])")
  have "slots_inv ([] @ lock) (fold (lock_slot ws) lock ([], {}, []))"
    by (rule slots_inv_fold) (use assms in \<open>simp_all add: slots_inv_def\<close>)
  then have i: "(rows = []) = (conflicted = {})" "list_all (\<lambda>r. sr_divergence r = ContentConflict) rows" "sorted_wrt (<) (map fst locked)"
    "\<forall>(k, p) \<in> set locked. \<exists>e \<in> set lock. lk_repository e = k \<and> entry_pair e = p"
    "conflicted \<noteq> {} \<Longrightarrow> \<exists>e \<in> set lock. \<exists>e' \<in> set lock. lk_repository e = lk_repository e' \<and> entry_pair e \<noteq> entry_pair e'"
    "conflicted = {} \<Longrightarrow> \<forall>e \<in> set lock. map_of locked (lk_repository e) = Some (entry_pair e)"
    by (auto simp: slots_inv_def st)
  show ?thesis
  proof (cases "conflicted = {}")
    case False
    then obtain r where "r \<in> set rows" using i(1) by (cases rows) auto
    then have "\<not> cutover_grade (compare_one F lock ws filters)"
      using i(2) by (auto simp: cutover_grade_def all_equal_def compare_one_def st list_all_iff)
    moreover have "\<not> (\<forall>e \<in> set lock. node_agrees ws filters (lk_repository e, entry_pair e))"
      using i(5) [OF False] node_agrees_unique by metis
    ultimately show ?thesis by blast
  next
    case True
    have "set locked = (\<lambda>e. (lk_repository e, entry_pair e)) ` set lock"
      using i(4) i(6) [OF True] map_of_SomeD by fastforce
    moreover have "sx_repositories (compare_one F lock ws filters) = map (compare_repo ws filters) locked"
      using True i(1) by (simp add: compare_one_def st)
    moreover have "(locked = []) = (lock = [])" using calculation(1) by (cases lock) auto
    ultimately have "cutover_grade (compare_one F lock ws filters) \<longleftrightarrow> lock \<noteq> [] \<and>
        (\<forall>e \<in> set lock. sr_divergence (compare_repo ws filters (lk_repository e, entry_pair e)) = Sd_None \<and>
          \<not> sr_shadow_only_node (compare_repo ws filters (lk_repository e, entry_pair e)))"
      unfolding cutover_grade_def all_equal_def list_all_iff by auto
    then show ?thesis unfolding compare_repo_ok .
  qed
qed

text \<open>The reader keeps the keys of every object apart.\<close>

primrec doc_wf :: "lock_doc \<Rightarrow> bool" where
  "doc_wf (D_Object fs) = (distinct (map fst fs) \<and> list_all snd (map (map_prod id doc_wf) fs))"
| "doc_wf (D_Array vs) = list_all id (map doc_wf vs)"
| "doc_wf (D_String s) = True"
| "doc_wf (D_Number s) = True"
| "doc_wf (D_Boolean b) = True"
| "doc_wf D_Null = True"

lemma doc_scalar_wf: "doc_scalar s = Some (v, r) \<Longrightarrow> doc_wf v"
  by (auto simp: doc_scalar_def split: if_split_asm)

lemma doc_parsed_wf:
  "doc_value s = Some (v, r) \<Longrightarrow> doc_wf v"
  "doc_fields fs s = Some (v, r) \<Longrightarrow> doc_wf (D_Object fs) \<Longrightarrow> doc_wf v"
  "doc_items vs s = Some (v, r) \<Longrightarrow> doc_wf (D_Array vs) \<Longrightarrow> doc_wf v"
proof (induction s and fs s and vs s arbitrary: v r and v r and v r rule: doc_value_doc_fields_doc_items.induct)
  case (1 s)
  note e = "1.prems" [unfolded doc_value.simps [of s]]
  obtain c cs where s: "skip_ws s = c # cs" using e by (cases "skip_ws s") auto
  show ?case
    using e s "1.IH"(1) [OF s, of v r] "1.IH"(2) [OF s, of v r]
    by (auto split: option.splits if_splits dest: doc_scalar_wf)
next
  case (2 fs s)
  note e = "2.prems"(1) [unfolded doc_fields.simps [of fs s]]
  obtain k where k: "consume_char quote (skip_ws s) = Some k" using e by (auto split: option.splits)
  obtain key s1 where t: "doc_text [] k = Some (key, s1)" using e k by (auto split: option.splits)
  have f: "key \<notin> fst ` set fs" using e k t by (auto split: if_splits)
  obtain colon s2 where c: "dropWhile (\<lambda>c. c \<noteq> CHR '':'') s1 = colon # s2"
    using e k t f by (cases "dropWhile (\<lambda>c. c \<noteq> CHR '':'') s1") auto
  obtain w s3 where w: "doc_value s2 = Some (w, s3)" using e k t f c by (auto split: option.splits)
  have "doc_wf w" by (rule "2.IH"(1) [OF k t refl f c w])
  then have o: "doc_wf (D_Object (fs @ [(key, w)]))" using "2.prems"(2) f by auto
  show ?case
  proof (cases "consume_char (CHR '','') (skip_ws s3)")
    case None
    then have "v = D_Object (fs @ [(key, w)])" using e k t f c w by auto
    then show ?thesis using o by simp
  next
    case (Some s4)
    then have "doc_fields (fs @ [(key, w)]) s4 = Some (v, r)" using e k t f c w by simp
    then show ?thesis by (rule "2.IH"(2) [OF k t refl f c w refl Some _ o])
  qed
next
  case (3 vs s)
  note e = "3.prems"(1) [unfolded doc_items.simps [of vs s]]
  obtain w s3 where w: "doc_value s = Some (w, s3)" using e by (auto split: option.splits)
  have "doc_wf w" by (rule "3.IH"(1) [OF w])
  then have o: "doc_wf (D_Array (vs @ [w]))" using "3.prems"(2) by auto
  show ?case
  proof (cases "consume_char (CHR '','') (skip_ws s3)")
    case None
    then have "v = D_Array (vs @ [w])" using e w by auto
    then show ?thesis using o by simp
  next
    case (Some s4)
    then have "doc_items (vs @ [w]) s4 = Some (v, r)" using e w by simp
    then show ?thesis by (rule "3.IH"(2) [OF w refl Some _ o])
  qed
qed

lemma parse_doc_wf: "parse_doc bytes = Some d \<Longrightarrow> doc_wf d"
  by (auto simp: parse_doc_def split: option.splits if_splits dest: doc_parsed_wf(1))

lemma read_nodes_distinct:
  assumes "distinct (map fst ms)"
  shows "read_nodes ms nodes k = (case nodes k of Some n \<Rightarrow> Some n
    | None \<Rightarrow> (case map_of ms k of Some (D_Object fs) \<Rightarrow> Some (read_node (D_Object fs)) | _ \<Rightarrow> None))"
  using assms
proof (induction ms arbitrary: nodes)
  case (Cons m ms)
  obtain a d where m: "m = (a, d)" by (cases m)
  have n: "map_of ms a = None" using Cons.prems m by (simp add: map_of_eq_None_iff)
  show ?case
  proof (cases d)
    case (D_Object fs)
    then show ?thesis using Cons m n by (cases "a = k") (auto split: option.split)
  qed (use Cons m n in \<open>cases "a = k"; auto split: option.split\<close>)+
qed (simp split: option.split)

text \<open>What a workspace lock says in favour of an entry: a node of the repository with its commit and tree, declared authoritative.\<close>

definition node_evidence :: "lock_doc \<Rightarrow> lock_entry \<Rightarrow> bool" where
  "node_evidence doc e \<longleftrightarrow> (\<exists>nodes node declaration. doc_find doc ''nodes'' = Some nodes \<and> doc_find nodes (lk_repository e) = Some node \<and>
     doc_find node ''commit'' = Some (D_String (lk_commit e)) \<and> doc_find node ''tree'' = Some (D_String (lk_tree_oid e)) \<and>
     doc_find node ''declaration'' = Some declaration \<and> doc_find declaration ''shadow_only'' = Some (D_Boolean False))"

lemma doc_find_object: "doc_find d key = Some v \<Longrightarrow> \<exists>fs. d = D_Object fs \<and> map_of fs key = Some v"
  by (cases d) auto

lemma text_field_nonempty: "t \<noteq> [] \<Longrightarrow> text_field d key = t \<longleftrightarrow> doc_find d key = Some (D_String t)"
  by (auto simp: text_field_def split: option.splits lock_doc.splits)

lemma read_node_authoritative:
  "\<not> wn_shadow_only (read_node d) \<longleftrightarrow> (\<exists>dd. doc_find d ''declaration'' = Some dd \<and> doc_find dd ''shadow_only'' = Some (D_Boolean False))"
proof
  assume a: "\<not> wn_shadow_only (read_node d)"
  then obtain ds where d: "doc_find d ''declaration'' = Some (D_Object ds)"
    by (cases "doc_find d ''declaration''") (auto simp: read_node_def split: lock_doc.split_asm)
  obtain v where v: "map_of ds ''shadow_only'' = Some v" using a d by (cases "map_of ds ''shadow_only''") (auto simp: read_node_def)
  have "v = D_Boolean False" using a d v by (cases v) (auto simp: read_node_def)
  then show "\<exists>dd. doc_find d ''declaration'' = Some dd \<and> doc_find dd ''shadow_only'' = Some (D_Boolean False)" using d v by auto
next
  assume "\<exists>dd. doc_find d ''declaration'' = Some dd \<and> doc_find dd ''shadow_only'' = Some (D_Boolean False)"
  then show "\<not> wn_shadow_only (read_node d)" by (auto simp: read_node_def dest!: doc_find_object)
qed

lemma parsed_node:
  assumes "parse_doc bytes = Some doc"
  shows "wl_nodes (parse_workspace_lock bytes) k =
    (case doc_find doc ''nodes'' of
       Some nodes \<Rightarrow> (case doc_find nodes k of Some (D_Object fs) \<Rightarrow> Some (read_node (D_Object fs)) | _ \<Rightarrow> None)
     | None \<Rightarrow> None)"
proof (cases "doc_find doc ''nodes''")
  case (Some nodes)
  show ?thesis
  proof (cases nodes)
    case (D_Object ms)
    have "doc_wf nodes"
      using parse_doc_wf [OF assms] doc_find_object [OF Some] by (fastforce simp: list_all_iff dest!: map_of_SomeD)
    then show ?thesis
      using assms Some D_Object read_nodes_distinct [of ms Map.empty k] by (simp add: parse_workspace_lock_def)
  qed (use assms Some in \<open>simp_all add: parse_workspace_lock_def\<close>)
qed (use assms in \<open>simp add: parse_workspace_lock_def\<close>)

lemma node_evidence_iff:
  assumes "parse_doc bytes = Some doc" "lk_commit e \<noteq> []" "lk_tree_oid e \<noteq> []"
  shows "node_evidence doc e \<longleftrightarrow> (\<exists>n. wl_nodes (parse_workspace_lock bytes) (lk_repository e) = Some n \<and> wn_present n \<and>
    \<not> wn_shadow_only n \<and> entry_pair e = (wn_commit n, wn_tree n))"
proof
  assume "node_evidence doc e"
  then obtain nodes node where d: "doc_find doc ''nodes'' = Some nodes" "doc_find nodes (lk_repository e) = Some node"
    "doc_find node ''commit'' = Some (D_String (lk_commit e))" "doc_find node ''tree'' = Some (D_String (lk_tree_oid e))"
    "\<exists>dd. doc_find node ''declaration'' = Some dd \<and> doc_find dd ''shadow_only'' = Some (D_Boolean False)"
    by (auto simp: node_evidence_def)
  obtain fs where f: "node = D_Object fs" using doc_find_object [OF d(3)] by blast
  have "wl_nodes (parse_workspace_lock bytes) (lk_repository e) = Some (read_node node)"
    using parsed_node [OF assms(1)] d(1,2) f by simp
  moreover have "text_field node ''commit'' = lk_commit e" "text_field node ''tree'' = lk_tree_oid e"
    using d(3,4) assms(2,3) by (simp_all add: text_field_nonempty)
  ultimately show "\<exists>n. wl_nodes (parse_workspace_lock bytes) (lk_repository e) = Some n \<and> wn_present n \<and> \<not> wn_shadow_only n \<and>
      entry_pair e = (wn_commit n, wn_tree n)"
    using d(5) read_node_authoritative [of node] by (auto simp: read_node_def)
next
  assume "\<exists>n. wl_nodes (parse_workspace_lock bytes) (lk_repository e) = Some n \<and> wn_present n \<and> \<not> wn_shadow_only n \<and>
      entry_pair e = (wn_commit n, wn_tree n)"
  then obtain n where n: "wl_nodes (parse_workspace_lock bytes) (lk_repository e) = Some n" "\<not> wn_shadow_only n"
    "wn_commit n = lk_commit e" "wn_tree n = lk_tree_oid e" by auto
  obtain nodes fs where d: "doc_find doc ''nodes'' = Some nodes" "doc_find nodes (lk_repository e) = Some (D_Object fs)"
    "n = read_node (D_Object fs)"
    using n(1) by (auto simp: parsed_node [OF assms(1)] split: option.splits lock_doc.splits)
  have "text_field (D_Object fs) ''commit'' = lk_commit e" "text_field (D_Object fs) ''tree'' = lk_tree_oid e"
    using n(3,4) d(3) by (simp_all add: read_node_def)
  then have "doc_find (D_Object fs) ''commit'' = Some (D_String (lk_commit e))" "doc_find (D_Object fs) ''tree'' = Some (D_String (lk_tree_oid e))"
    using text_field_nonempty assms(2,3) by blast+
  moreover have "\<exists>dd. doc_find (D_Object fs) ''declaration'' = Some dd \<and> doc_find dd ''shadow_only'' = Some (D_Boolean False)"
    using n(2) d(3) read_node_authoritative by blast
  ultimately show "node_evidence doc e" using d(1,2) unfolding node_evidence_def by blast
qed

lemma built_lock_oids:
  assumes "lock_build F sorter (Some git) git_executable repos = Inr lock" "sorts_by entry_key sorter" "e \<in> set lock"
  shows "lk_commit e \<noteq> [] \<and> lk_tree_oid e \<noteq> []"
proof -
  obtain entries used where l: "lock_all F git repos ([], 0) = Inr (entries, used)" "lock = unique_by entry_key (sorter entries)"
    using assms(1) by (auto simp: lock_build_def split: if_split_asm sum.split_asm)
  have "within ([], 0)" by (simp add: within_def lock_size_def max_locked_total_bytes_def)
  note all = lock_all_facts [OF l(1) this]
  have "mset (sorter entries) = mset entries" using assms(2) by (simp add: sorts_by_def)
  then have "mset lock \<subseteq># mset entries" using unique_by_subset [of entry_key "sorter entries"] l(2) by simp
  then have "e \<in> set entries" using set_mset_mono [of "mset lock" "mset entries"] assms(3) by auto
  then obtain repo where "entry_from F git repo e" using all by auto
  then show ?thesis using pinned_tree_facts by (fastforce simp: entry_from_def is_hex_oid_def)
qed

text \<open>C36: safety: a comparison is cutover grade exactly when the documents say so.  Let the source lock be one that the builder
  made.  The comparison with a workspace lock file, in both tiers, is cutover grade if and only if the lock has entries,
  the corpus table exists at the node revision, the file parses, and for every entry the file has a node of that repository
  with the locked commit and tree and an explicit declaration that it is not shadow only, and both tables have the
  same path filters for the repository.  A malformed file, an unknown authority or a conflict is never evidence.\<close>

theorem cutover_exact:
  assumes "lock_build F sorter (Some git) git_executable repos = Inr lock" and "sorts_by entry_key sorter"
  shows "cutover_grade (shadow_compare_filtered F lock (parse_workspace_lock bytes) used at_node) \<longleftrightarrow>
    lock \<noteq> [] \<and> sf_carrier_table_present at_node \<and>
    (\<exists>doc. parse_doc bytes = Some doc \<and> (\<forall>e \<in> set lock. node_evidence doc e \<and>
       sf_filters at_node (lk_repository e) \<noteq> None \<and> sf_filters used (lk_repository e) = sf_filters at_node (lk_repository e)))"
proof -
  have o: "lk_commit e \<noteq> []" "lk_tree_oid e \<noteq> []" if "e \<in> set lock" for e using built_lock_oids [OF assms that] by auto
  have c: "cutover_grade (shadow_compare_filtered F lock (parse_workspace_lock bytes) used at_node) \<longleftrightarrow>
      lock \<noteq> [] \<and> (\<forall>e \<in> set lock. node_agrees (parse_workspace_lock bytes) (Some (used, at_node)) (lk_repository e, entry_pair e))"
    unfolding shadow_compare_filtered_def by (rule cutover_iff) (use o in blast)
  show ?thesis
  proof (cases "parse_doc bytes")
    case None
    then have "wl_nodes (parse_workspace_lock bytes) = Map.empty" by (simp add: parse_workspace_lock_def)
    then show ?thesis using c None by (cases lock) (auto simp: node_agrees_def)
  next
    case (Some doc)
    have "node_agrees (parse_workspace_lock bytes) (Some (used, at_node)) (lk_repository e, entry_pair e) \<longleftrightarrow>
        node_evidence doc e \<and> sf_carrier_table_present at_node \<and> sf_filters at_node (lk_repository e) \<noteq> None \<and>
        sf_filters used (lk_repository e) = sf_filters at_node (lk_repository e)" if "e \<in> set lock" for e
      unfolding node_evidence_iff [OF Some o(1) [OF that] o(2) [OF that]] by (simp add: node_agrees_def)
    then show ?thesis using c Some by (cases lock) auto
  qed
qed

section \<open>The reader and the strict writer\<close>

lemma not_continuation: "x < 128 \<Longrightarrow> x AND 0xC0 \<noteq> (0x80 :: nat)"
  by (rule all_below [of "\<lambda>x. x AND 0xC0 \<noteq> 0x80" 128]) simp_all

lemma continuation_wide: "continuation cp cs = Some n \<Longrightarrow> c \<in> set cs \<Longrightarrow> 0x80 \<le> byte_of c"
proof (induction cp cs rule: continuation.induct)
  case (2 cp d cs)
  then show ?case using not_continuation [of "byte_of d"] by (force split: if_splits)
qed simp

lemma sequence_wide:
  assumes "utf8_sequence_length (c # cs) = n" "n \<noteq> 0" "0x80 \<le> byte_of c" "d \<in> set (take n (c # cs))"
  shows "0x80 \<le> byte_of d"
proof -
  obtain k m cp where k: "lead_shape (byte_of c) = Some (k, m)" "continuation (byte_of c AND drop_bit k 0x7F) (take (k - 1) cs) = Some cp" "n = k"
    using assms by (auto simp: utf8_sequence_length_def Let_def split: option.splits if_splits)
  have "2 \<le> k" by (rule lead_shape_bound [OF k(1)])
  then have "set (take n (c # cs)) = insert c (set (take (k - 1) cs))" using k(3) by (cases k) auto
  then show ?thesis using assms(3,4) continuation_wide [OF k(2)] by auto
qed

text \<open>Text whose control characters all have a short escape, so that none is written by its code.\<close>

definition short_text :: "string \<Rightarrow> bool" where
  "short_text s \<longleftrightarrow> list_all (\<lambda>c. is_control_byte c \<longrightarrow> short_escape c \<noteq> None) s"

definition escaped_char :: "char \<Rightarrow> string" where
  "escaped_char c = (case short_escape c of Some e \<Rightarrow> [backslash, e] | None \<Rightarrow> [c])"

lemma wide_unescaped: "0x80 \<le> byte_of c \<Longrightarrow> escaped_char c = [c]"
  using short_escape_parsed [of c] by (cases "short_escape c") (auto simp: escaped_char_def)

lemma escape_body_chars: "utf8_ok s \<Longrightarrow> short_text s \<Longrightarrow> escape_body s = concat (map escaped_char s) @ [quote]"
proof (induction s rule: escape_body.induct)
  case (1 s)
  show ?case
  proof (cases s)
    case Nil
    then show ?thesis by (simp add: escape_body.simps)
  next
    case (Cons c cs)
    let ?n = "utf8_sequence_length s"
    have ok: "?n \<noteq> 0" "utf8_ok (drop ?n s)"
      using "1.prems"(1) [unfolded utf8_ok.simps [of s] Let_def] unfolding Cons by (simp_all split: if_splits)
    show ?thesis
    proof (cases "short_escape c")
      case (Some e)
      have n: "?n = 1" using short_escape_parsed [OF Some] Cons by (simp add: utf8_length_ascii)
      have "escape_body s = backslash # e # escape_body cs" using Some Cons by (simp add: escape_body.simps)
      then show ?thesis using "1.IH"(3) [OF Cons Some] ok(2) n Cons Some "1.prems"(2) by (simp add: escaped_char_def short_text_def)
    next
      case None
      then have c: "\<not> is_control_byte c" using "1.prems"(2) Cons by (auto simp: short_text_def)
      have e: "escape_body s = take ?n s @ escape_body (drop ?n s)" using escape_body_plain [of c cs] None c ok(1) Cons by simp
      have t: "concat (map escaped_char (take ?n s)) = take ?n s"
      proof (cases "byte_of c < 0x80")
        case True
        then show ?thesis using Cons None by (simp add: utf8_length_ascii escaped_char_def)
      next
        case False
        then have "escaped_char d = [d]" if "d \<in> set (take ?n s)" for d
          using sequence_wide [of c cs ?n d] ok(1) that Cons wide_unescaped by simp
        then have "map escaped_char (take ?n s) = map (\<lambda>d. [d]) (take ?n s)" by (intro map_cong) auto
        then show ?thesis by (simp only: concat_map_singleton list.map_ident)
      qed
      have "short_text (drop ?n s)" using "1.prems"(2) by (auto simp: short_text_def list_all_iff dest: in_set_dropD)
      then have "escape_body (drop ?n s) = concat (map escaped_char (drop ?n s)) @ [quote]"
        using "1.IH"(2) [OF Cons None c refl ok(1)] ok(2) by simp
      then have "escape_body s = concat (map escaped_char (take ?n s @ drop ?n s)) @ [quote]" using e t by (simp del: append_take_drop_id)
      then show ?thesis by simp
    qed
  qed
qed

lemma short_escape_read:
  assumes "short_escape c = Some e"
  shows "doc_escape e = Some c"
proof -
  have "(c, e) \<in> {(quote, quote), (backslash, backslash), (CHR 0x08, CHR ''b''), (CHR 0x0C, CHR ''f''),
      (CHR 0x0A, CHR ''n''), (CHR 0x0D, CHR ''r''), (CHR 0x09, CHR ''t'')}"
    using assms unfolding short_escape_def by (simp split: if_split_asm)
  then show ?thesis by (elim insertE emptyE) (simp_all add: doc_escape_def)
qed

lemma doc_text_chars: "doc_text out (concat (map escaped_char s) @ quote # rest) = Some (out @ s, rest)"
proof (induction s arbitrary: out)
  case (Cons c s)
  show ?case
  proof (cases "short_escape c")
    case None
    then have "c \<noteq> quote" "c \<noteq> backslash" by (auto simp: short_escape_def)
    then show ?thesis using Cons None by (simp add: escaped_char_def)
  qed (use Cons short_escape_read in \<open>simp add: escaped_char_def\<close>)
qed simp

lemma doc_text_written: "utf8_ok t \<Longrightarrow> short_text t \<Longrightarrow> doc_text [] (escape_body t @ rest) = Some (t, rest)"
  using doc_text_chars [of "[]" t rest] by (simp add: escape_body_chars)

primrec doc_of :: "json \<Rightarrow> lock_doc" where
  "doc_of JNull = D_Null"
| "doc_of (JBool b) = D_Boolean b"
| "doc_of (JNumber n) = D_Number (to_string_u64 n)"
| "doc_of (JString s) = D_String s"
| "doc_of (JArray vs) = D_Array (map doc_of vs)"
| "doc_of (JObject ms) = D_Object (map (map_prod id doc_of) ms)"

primrec json_short :: "json \<Rightarrow> bool" where
  "json_short JNull = True"
| "json_short (JBool b) = True"
| "json_short (JNumber n) = True"
| "json_short (JString s) = short_text s"
| "json_short (JArray vs) = list_all id (map json_short vs)"
| "json_short (JObject ms) = list_all (\<lambda>m. short_text (fst m) \<and> snd m) (map (map_prod id json_short) ms)"

lemma doc_scalar_written:
  assumes "json_ok v d" "json_short v" "stop rest" "kind_of v \<notin> {K_Array, K_Object}"
  shows "doc_value (write_value v @ rest) = Some (doc_of v, rest)"
proof -
  obtain c cs where h: "write_value v @ rest = c # cs" "\<not> is_ws c" "c \<noteq> CHR ''{''" "c \<noteq> CHR ''[''"
  proof (cases v)
    case (JNumber n)
    then show ?thesis using that to_string_u64_head [of n] digit_neq by auto
  next
    case (JBool b)
    then show ?thesis using that by (cases b) (auto simp: is_ws_def)
  qed (use assms that in \<open>auto simp: write_string_escaped_def is_ws_def\<close>)
  have "doc_scalar (write_value v @ rest) = Some (doc_of v, rest)"
  proof (cases v)
    case (JNumber n)
    obtain x xs where x: "to_string_u64 n = x # xs" "is_digit x" using to_string_u64_head [of n] by auto
    have "\<And>y. y \<in> set (to_string_u64 n) \<Longrightarrow> literal_char y"
      using digits_of_decimal [of "unat n"] by (auto simp: to_string_u64_def list_all_iff literal_char_def)
    moreover have "takeWhile literal_char rest = []" "dropWhile literal_char rest = rest"
      using assms(3) by (cases rest; auto simp: stop_def literal_char_def is_digit_def)+
    ultimately show ?thesis
      using JNumber x digit_neq [of x] by (simp add: doc_scalar_def takeWhile_append2 dropWhile_append2)
  next
    case (JString t)
    then show ?thesis using assms doc_text_written [of t rest] by (simp add: doc_scalar_def write_string_escaped_def)
  next
    case (JBool b)
    then show ?thesis by (cases b) (simp_all add: doc_scalar_def)
  qed (use assms in \<open>simp_all add: doc_scalar_def\<close>)
  then show ?thesis using h by (simp add: doc_value.simps skip_ws_Cons)
qed

lemma doc_items_written:
  assumes "\<And>v rest. v \<in> set vs \<Longrightarrow> stop rest \<Longrightarrow> doc_value (write_value v @ rest) = Some (doc_of v, rest)" and "vs \<noteq> []"
  shows "doc_items items (comma_join (map write_value vs) @ CHR '']'' # rest) = Some (D_Array (items @ map doc_of vs), rest)"
  using assms
proof (induction vs arbitrary: items)
  case (Cons v vs)
  then have v: "stop r \<Longrightarrow> doc_value (write_value v @ r) = Some (doc_of v, r)" for r by simp
  show ?case
  proof (cases vs)
    case Nil
    then show ?thesis using v by (simp add: doc_items.simps consume_char_def)
  next
    case (Cons w ws)
    then have "comma_join (map write_value (v # vs)) @ CHR '']'' # rest =
        write_value v @ CHR '','' # (comma_join (map write_value vs) @ CHR '']'' # rest)" by simp
    then show ?thesis
      using v Cons Cons.IH [of "items @ [doc_of v]"] Cons.prems by (simp add: doc_items.simps [of items] consume_char_def)
  qed
qed simp

lemma doc_fields_written:
  assumes "\<And>m rest. m \<in> set ms \<Longrightarrow> stop rest \<Longrightarrow> doc_value (write_value (snd m) @ rest) = Some (doc_of (snd m), rest)"
    and "\<And>m. m \<in> set ms \<Longrightarrow> utf8_ok (fst m) \<and> short_text (fst m)" "distinct (map fst fs @ map fst ms)" "ms \<noteq> []"
  shows "doc_fields fs (comma_join (map write_member ms) @ CHR ''}'' # rest) = Some (D_Object (fs @ map (map_prod id doc_of) ms), rest)"
  using assms
proof (induction ms arbitrary: fs)
  case (Cons m ms)
  have v: "stop r \<Longrightarrow> doc_value (write_value (snd m) @ r) = Some (doc_of (snd m), r)" for r
    using Cons.prems(1) [of m r] by simp
  have k: "fst m \<notin> fst ` set fs" "doc_text [] (escape_body (fst m) @ r) = Some (fst m, r)" for r
    using Cons.prems(2,3) doc_text_written [of "fst m" r] by auto
  show ?case
  proof (cases ms)
    case Nil
    then show ?thesis using v k by (cases m) (simp add: doc_fields.simps consume_char_def write_string_escaped_def)
  next
    case (Cons m2 ms2)
    then have e: "comma_join (map write_member (m # ms)) @ CHR ''}'' # rest =
        quote # escape_body (fst m) @ CHR '':'' # write_value (snd m) @
          CHR '','' # (comma_join (map write_member ms) @ CHR ''}'' # rest)" by (simp add: write_string_escaped_def)
    have "doc_fields (fs @ [(fst m, doc_of (snd m))]) (comma_join (map write_member ms) @ CHR ''}'' # rest) =
        Some (D_Object ((fs @ [(fst m, doc_of (snd m))]) @ map (map_prod id doc_of) ms), rest)"
      using Cons Cons.prems by (intro Cons.IH) auto
    then show ?thesis
      unfolding e using v k by (cases m) (simp add: doc_fields.simps [of fs] consume_char_def map_prod_def)
  qed
qed simp

lemma doc_value_written: "json_ok v d \<Longrightarrow> json_short v \<Longrightarrow> stop rest \<Longrightarrow> doc_value (write_value v @ rest) = Some (doc_of v, rest)"
proof (induction v arbitrary: d rest)
  case (JArray vs)
  have i: "doc_value (write_value v @ r) = Some (doc_of v, r)" if "v \<in> set vs" "stop r" for v r
    using JArray.IH [OF that(1), of "d + 1" r] JArray.prems that by (simp add: list_all_iff)
  show ?case
  proof (cases vs)
    case Nil
    then show ?thesis by (simp add: doc_value.simps skip_ws_Cons is_ws_def consume_char_def)
  next
    case (Cons w ws)
    then obtain c cs where h: "comma_join (map write_value vs) = c # cs" "\<not> is_ws c" "c \<noteq> CHR '']''"
      using write_value_head [of w] by (cases ws) auto
    have "doc_items [] (comma_join (map write_value vs) @ CHR '']'' # rest) = Some (D_Array (map doc_of vs), rest)"
      using doc_items_written [of vs "[]" rest] i Cons by simp
    then show ?thesis using h by (simp add: doc_value.simps skip_ws_Cons is_ws_def consume_char_def)
  qed
next
  case (JObject ms)
  have i: "doc_value (write_value (snd m) @ r) = Some (doc_of (snd m), r)" if "m \<in> set ms" "stop r" for m r
    using JObject.IH [OF that(1), of "snd m" "d + 1" r] JObject.prems that by (cases m) (fastforce simp: list_all_iff)
  have k: "utf8_ok (fst m) \<and> short_text (fst m)" if "m \<in> set ms" for m using JObject.prems that by (auto simp: list_all_iff)
  show ?case
  proof (cases ms)
    case Nil
    then show ?thesis by (simp add: doc_value.simps skip_ws_Cons is_ws_def consume_char_def)
  next
    case (Cons m ms')
    then obtain cs where h: "comma_join (map write_member ms) = quote # cs"
      by (cases ms') (auto simp: write_string_escaped_def)
    have "doc_fields [] (comma_join (map write_member ms) @ CHR ''}'' # rest) = Some (D_Object (map (map_prod id doc_of) ms), rest)"
      using doc_fields_written [of ms "[]" rest] i k Cons JObject.prems by simp
    then show ?thesis unfolding write_object using h by (simp add: doc_value.simps skip_ws_Cons is_ws_def consume_char_def)
  qed
qed (erule doc_scalar_written; simp)+

lemma parse_doc_written: "json_ok v d \<Longrightarrow> json_short v \<Longrightarrow> parse_doc (json_write v) = Some (doc_of v)"
  using doc_value_written [of v d "[]"] by (simp add: parse_doc_def json_write_def)

text \<open>equivalence: the minimal reader agrees with the strict codec.  Every value that the strict writer may write and that
  needs no escape by code point is read by both readers as the same document, numbers kept as their literals; what
  the strict reader returns for the text is the value itself.\<close>

theorem readers_agree:
  assumes "json_ok v 1" and "json_short v" and "length (json_write v) \<le> max_input_bytes"
  shows "json_parse (json_write v) = Inr v \<and> parse_doc (json_write v) = Some (doc_of v)"
  using parse_written [OF assms(1,3)] parse_doc_written [OF assms(1,2)] by blast

text \<open>A workspace lock whose node agrees with the lock of the sample checkout.\<close>

definition ex_workspace :: "bool \<Rightarrow> json" where
  "ex_workspace shadow_only = JObject [(''generation'', JString ''g''), (''nodes'', JObject [(''r'', JObject [(''commit'', JString ex_oid),
     (''tree'', JString ex_oid), (''declaration'', JObject [(''shadow_only'', JBool shadow_only)])])])]"

lemma ex_workspace_ok: "json_ok (ex_workspace b) 1 \<and> json_short (ex_workspace b)"
proof -
  have u: "utf8_ok s \<and> short_text s" if "s \<in> {''generation'', ''g'', ''nodes'', ''r'', ''commit'', ex_oid, ''tree'', ''declaration'', ''shadow_only''}" for s
  proof
    show "utf8_ok s" by (rule utf8_ok_ascii) (use that in \<open>auto simp: ex_oid_def\<close>)
    show "short_text s" using that by (auto simp: short_text_def is_control_byte_def ex_oid_def)
  qed
  then show ?thesis by (simp add: ex_workspace_def max_depth_def)
qed

theorem readers_agree_witness: "parse_doc (json_write (ex_workspace False)) = Some (doc_of (ex_workspace False))"
proof -
  have "length (json_write (ex_workspace False)) \<le> max_input_bytes"
    by (simp add: ex_workspace_def ex_oid_def json_write_def write_string_escaped_def escape_body.simps short_escape_def
        is_control_byte_def utf8_sequence_length_def max_input_bytes_def Let_def)
  then show ?thesis using readers_agree [of "ex_workspace False"] ex_workspace_ok by blast
qed

definition ex_filters :: shadow_filters where
  "ex_filters = \<lparr>sf_filters = [''r'' \<mapsto> [''docs'']], sf_carrier_table_present = True\<rparr>"

theorem cutover_exact_witness:
  "\<exists>lock. lock_build ref_foundation (sort_key entry_key) (Some ex_git) ''git'' [ex_repo] = Inr lock \<and>
     cutover_grade (shadow_compare_filtered ref_foundation lock (parse_workspace_lock (json_write (ex_workspace False))) ex_filters ex_filters) \<and>
     \<not> cutover_grade (shadow_compare_filtered ref_foundation lock (parse_workspace_lock (json_write (ex_workspace True))) ex_filters ex_filters)"
proof -
  obtain lock where l: "lock_build ref_foundation (sort_key entry_key) (Some ex_git) ''git'' [ex_repo] = Inr lock"
    "lock = [\<lparr>lk_repository = ''r'', lk_commit = ex_oid, lk_tree_oid = ex_oid, lk_path = ''docs/a.md'',
       lk_sha256 = hex_of (sha256 ref_foundation (text_bytes ''hi'')), lk_size_bytes = 2\<rparr>]" using ex_lock_all by blast
  have s: "sorts_by entry_key (sort_key entry_key)" by (simp add: sorts_by_def)
  have d: "parse_doc (json_write (ex_workspace b)) = Some (doc_of (ex_workspace b))" for b
    by (rule parse_doc_written [of _ 1]) (use ex_workspace_ok [of b] in blast)+
  show ?thesis
    using l(1) cutover_exact [OF l(1) s, of "json_write (ex_workspace False)" ex_filters ex_filters]
      cutover_exact [OF l(1) s, of "json_write (ex_workspace True)" ex_filters ex_filters]
    by (intro exI [of _ lock]) (simp add: d l(2) ex_filters_def, simp add: node_evidence_def ex_workspace_def)
qed

section \<open>Receipts are JSON\<close>

text \<open>Text that needs no escape but those the receipt makes.\<close>

definition receipt_text :: "string \<Rightarrow> bool" where
  "receipt_text s \<longleftrightarrow> utf8_ok s \<and> list_all (\<lambda>c. is_control_byte c \<longrightarrow> c \<in> {CHR 0x0A, CHR 0x09, CHR 0x0D}) s"

lemma receipt_escape_chars:
  assumes "receipt_text s"
  shows "escape_body s = receipt_escape s @ [quote]"
proof -
  have s: "utf8_ok s" "\<And>c. c \<in> set s \<Longrightarrow> is_control_byte c \<Longrightarrow> c \<in> {CHR 0x0A, CHR 0x09, CHR 0x0D}"
    using assms by (auto simp: receipt_text_def list_all_iff)
  have "short_text s" unfolding short_text_def list_all_iff using s(2) by (auto simp: short_escape_def)
  moreover have "receipt_escape_char c = escaped_char c" if "c \<in> set s" for c
  proof -
    have "c \<noteq> CHR 0x08" "c \<noteq> CHR 0x0C" using s(2) [OF that] by (auto simp: is_control_byte_def)
    then show ?thesis by (auto simp: receipt_escape_char_def escaped_char_def short_escape_def)
  qed
  ultimately show ?thesis using escape_body_chars [OF s(1)] by (simp add: receipt_escape_def cong: map_cong)
qed

definition repo_value :: "shadow_repo \<Rightarrow> json" where
  "repo_value r = JObject [(''repository'', JString (sr_repository r)), (''lock_commit'', JString (sr_lock_commit r)),
     (''lock_tree'', JString (sr_lock_tree r)), (''node_commit'', JString (sr_node_commit r)), (''node_tree'', JString (sr_node_tree r)),
     (''divergence'', JString (shadow_divergence_text (sr_divergence r))), (''shadow_only_node'', JBool (sr_shadow_only_node r)),
     (''detail'', JString (sr_detail r))]"

definition receipt_value :: "shadow_result \<Rightarrow> json" where
  "receipt_value x = JObject [(''schema'', JString ''qiven-tca-shadow-compare-v1''), (''workspace_generation'', JString (sx_workspace_generation x)),
     (''external_source_lock_sha256'', JString (sx_source_lock_sha256 x)), (''source_lock_binding'', JString (sx_workspace_lock_binding x)),
     (''all_equal'', JBool (all_equal x)), (''cutover_grade'', JBool (cutover_grade x)),
     (''repositories'', JArray (map repo_value (sx_repositories x)))]"

definition repo_texts :: "shadow_repo \<Rightarrow> string list" where
  "repo_texts r = [sr_repository r, sr_lock_commit r, sr_lock_tree r, sr_node_commit r, sr_node_tree r, sr_detail r]"

definition receipt_texts :: "shadow_result \<Rightarrow> string list" where
  "receipt_texts x = [sx_workspace_generation x, sx_source_lock_sha256 x, sx_workspace_lock_binding x] @
     concat (map repo_texts (sx_repositories x))"

lemma receipt_text_ascii: "list_all (\<lambda>c. 0x20 \<le> byte_of c \<and> byte_of c < 0x7F) s \<Longrightarrow> receipt_text s"
  by (fastforce simp: receipt_text_def is_control_byte_def list_all_iff intro!: utf8_ok_ascii)

definition receipt_keys :: "string list" where
  "receipt_keys = [''repository'', ''lock_commit'', ''lock_tree'', ''node_commit'', ''node_tree'', ''divergence'', ''shadow_only_node'', ''detail'',
     ''schema'', ''workspace_generation'', ''external_source_lock_sha256'', ''source_lock_binding'', ''all_equal'', ''cutover_grade'',
     ''repositories'', ''qiven-tca-shadow-compare-v1'', ''none'', ''StaleNode'', ''NodeMissing'', ''FilterSetMismatch'', ''ContentIdentityConflict'']"

lemma receipt_keys_plain:
  assumes "key \<in> set receipt_keys"
  shows "receipt_text key" "receipt_escape key = key"
proof -
  have "list_all (\<lambda>key. list_all (\<lambda>c. 0x20 \<le> byte_of c \<and> byte_of c < 0x7F) key \<and> receipt_escape key = key) receipt_keys"
    by (simp add: receipt_keys_def receipt_escape_def receipt_escape_char_def)
  then show "receipt_text key" "receipt_escape key = key" using receipt_text_ascii assms by (auto simp: list_all_iff)
qed

lemma key_written: "key \<in> set receipt_keys \<Longrightarrow> write_string_escaped key = quote # key @ [quote]"
  using receipt_escape_chars [of key] receipt_keys_plain [of key] by (simp add: write_string_escaped_def)

lemma text_member_written:
  "key \<in> set receipt_keys \<Longrightarrow> receipt_text s \<Longrightarrow> text_member key s = write_member (key, JString s)"
  using receipt_escape_chars [of s] by (simp add: text_member_def plain_member_def key_written) (simp add: write_string_escaped_def)

lemma plain_member_written:
  "key \<in> set receipt_keys \<Longrightarrow> s \<in> set receipt_keys \<Longrightarrow> plain_member key s = write_member (key, JString s)"
  by (simp add: plain_member_def key_written)

lemma truth_member_written: "key \<in> set receipt_keys \<Longrightarrow> truth_member key b = write_member (key, JBool b)"
  by (simp add: truth_member_def key_written)

lemma in_keys:
  "''repository'' \<in> set receipt_keys" "''lock_commit'' \<in> set receipt_keys" "''lock_tree'' \<in> set receipt_keys" "''node_commit'' \<in> set receipt_keys"
  "''node_tree'' \<in> set receipt_keys" "''divergence'' \<in> set receipt_keys" "''shadow_only_node'' \<in> set receipt_keys" "''detail'' \<in> set receipt_keys"
  "''schema'' \<in> set receipt_keys" "''workspace_generation'' \<in> set receipt_keys" "''external_source_lock_sha256'' \<in> set receipt_keys"
  "''source_lock_binding'' \<in> set receipt_keys" "''all_equal'' \<in> set receipt_keys" "''cutover_grade'' \<in> set receipt_keys"
  "''repositories'' \<in> set receipt_keys" "''qiven-tca-shadow-compare-v1'' \<in> set receipt_keys" "shadow_divergence_text d \<in> set receipt_keys"
  by (simp_all add: receipt_keys_def shadow_divergence_text_def split: shadow_divergence.split)

lemma repo_json_written:
  assumes "list_all receipt_text (repo_texts r)"
  shows "repo_json r = write_value (repo_value r)"
proof -
  have r: "receipt_text (sr_repository r)" "receipt_text (sr_lock_commit r)" "receipt_text (sr_lock_tree r)" "receipt_text (sr_node_commit r)"
    "receipt_text (sr_node_tree r)" "receipt_text (sr_detail r)"
    using assms by (simp_all add: repo_texts_def)
  show ?thesis unfolding repo_value_def write_object repo_json_def text_member_written [OF in_keys(1) r(1)] text_member_written [OF in_keys(2) r(2)]
      text_member_written [OF in_keys(3) r(3)] text_member_written [OF in_keys(4) r(4)] text_member_written [OF in_keys(5) r(5)]
      plain_member_written [OF in_keys(6) in_keys(17)] truth_member_written [OF in_keys(7)] text_member_written [OF in_keys(8) r(6)]
    by simp
qed

lemma repo_array_written:
  assumes "\<And>r. r \<in> set rs \<Longrightarrow> repo_json r = write_value (repo_value r)"
  shows "repo_array True rs = comma_join (map write_value (map repo_value rs))"
proof (cases rs)
  case (Cons r rs')
  have "repo_array False rs' = concat (map (\<lambda>r. CHR '','' # write_value (repo_value r)) rs')"
    if "set rs' \<subseteq> set rs" for rs' using assms that by (induction rs') auto
  moreover have c: "comma_join (x # xs) = x @ concat (map (\<lambda>y. CHR '','' # y) xs)" for x xs
    by (induction xs arbitrary: x) auto
  ultimately show ?thesis using Cons assms [of r] c [of "write_value (repo_value r)"] by (simp add: comp_def subset_insertI)
qed simp

lemma receipt_written:
  assumes "list_all receipt_text (receipt_texts x)"
  shows "shadow_compare_receipt_json x = json_write (receipt_value x)"
proof -
  have r: "repo_json r = write_value (repo_value r)" if "r \<in> set (sx_repositories x)" for r
    using assms that by (intro repo_json_written) (auto simp: receipt_texts_def list_all_iff)
  have s: "receipt_text (sx_workspace_generation x)" "receipt_text (sx_source_lock_sha256 x)" "receipt_text (sx_workspace_lock_binding x)"
    using assms by (simp_all add: receipt_texts_def)
  show ?thesis
    unfolding receipt_value_def json_write_def write_object shadow_compare_receipt_json_def
      text_member_written [OF in_keys(9) receipt_keys_plain(1) [OF in_keys(16)]] text_member_written [OF in_keys(10) s(1)]
      text_member_written [OF in_keys(11) s(2)] text_member_written [OF in_keys(12) s(3)] truth_member_written [OF in_keys(13)]
      truth_member_written [OF in_keys(14)]
    by (simp add: key_written [OF in_keys(15)] repo_array_written [OF r])
qed

lemma receipt_value_ok:
  assumes "list_all receipt_text (receipt_texts x)"
  shows "json_ok (receipt_value x) 1"
proof -
  have k: "utf8_ok key" if "key \<in> set receipt_keys" for key using receipt_keys_plain(1) [OF that] by (simp add: receipt_text_def)
  have "json_ok (repo_value r) 3" if "r \<in> set (sx_repositories x)" for r
  proof -
    have "list_all utf8_ok (repo_texts r)" using assms that by (auto simp: receipt_texts_def list_all_iff receipt_text_def)
    then show ?thesis by (simp add: repo_value_def repo_texts_def max_depth_def k in_keys)
  qed
  moreover have "list_all utf8_ok [sx_workspace_generation x, sx_source_lock_sha256 x, sx_workspace_lock_binding x]"
    using assms by (simp add: receipt_texts_def receipt_text_def)
  ultimately show ?thesis by (simp add: receipt_value_def max_depth_def k in_keys list_all_iff numeral_3_eq_3)
qed

text \<open>roundtrip: a receipt whose texts are valid UTF-8 without control characters, but for tab, line feed and carriage
  return, is a JSON document: it parses, within the input bound, to exactly the fields of the result and its rows
  with the verdicts computed from them.\<close>

theorem receipt_parses:
  assumes "list_all receipt_text (receipt_texts x)" and "length (shadow_compare_receipt_json x) \<le> max_input_bytes"
  shows "json_parse (shadow_compare_receipt_json x) = Inr (receipt_value x)"
  using parse_written [OF receipt_value_ok [OF assms(1)]] assms(2) by (simp add: receipt_written [OF assms(1)])

definition ex_result :: shadow_result where
  "ex_result = \<lparr>sx_workspace_generation = ''g'', sx_source_lock_sha256 = ''ab'', sx_workspace_lock_binding = ''fresh-build'',
     sx_repositories = [(new_row ''r'' (''c'', ''t''))\<lparr>sr_divergence := NodeMissing, sr_detail := [CHR ''a'', CHR 0x0A, quote]\<rparr>]\<rparr>"

theorem receipt_parses_witness: "json_parse (shadow_compare_receipt_json ex_result) = Inr (receipt_value ex_result)"
proof (rule receipt_parses)
  have "utf8_ok s" if "s \<in> {''g'', ''ab'', ''fresh-build'', ''r'', ''c'', ''t'', [CHR ''a'', CHR 0x0A, quote], []}" for s :: string
    using that by (intro utf8_ok_ascii) auto
  then show "list_all receipt_text (receipt_texts ex_result)"
    by (simp add: ex_result_def receipt_texts_def repo_texts_def new_row_def receipt_text_def is_control_byte_def)
  show "length (shadow_compare_receipt_json ex_result) \<le> max_input_bytes"
    by (simp add: ex_result_def shadow_compare_receipt_json_def repo_json_def text_member_def truth_member_def plain_member_def new_row_def
        receipt_escape_def receipt_escape_char_def shadow_divergence_text_def max_input_bytes_def)
qed

text \<open>The reader passes over anything between a key and its colon.\<close>

lemma garbage_before_colon: "parse_doc [CHR ''{'', quote, CHR ''a'', quote, CHR ''x'', CHR '':'', CHR ''1'', CHR ''}''] = Some (D_Object [(''a'', D_Number ''1'')])"
  by (simp add: parse_doc_def doc_value.simps doc_fields.simps skip_ws_Cons is_ws_def consume_char_def doc_scalar_def literal_char_def is_digit_def)

text \<open>A repository whose pairs change twice is reported in two rows.\<close>

definition ex_entry :: "string \<Rightarrow> lock_entry" where
  "ex_entry commit = \<lparr>lk_repository = ''r'', lk_commit = commit, lk_tree_oid = ''t'', lk_path = commit, lk_sha256 = [], lk_size_bytes = 0\<rparr>"

lemma conflict_reported_twice:
  "map sr_repository (sx_repositories (shadow_compare F [ex_entry ''a'', ex_entry ''b'', ex_entry ''c''] \<lparr>wl_generation = [], wl_nodes = Map.empty\<rparr>)) =
     [''r'', ''r'']"
  by (simp add: shadow_compare_def compare_one_def lock_slot_def ex_entry_def conflict_row_def new_row_def Let_def)

end
