(* ===== verification/Adapter_Bridge.thy ===== *)
theory Adapter_Bridge
  imports Action Activation Context_Receipt Source_Lock
begin

text \<open>
  The adapter bridge, \<^verbatim>\<open>adapter/bridge.hpp/.cpp\<close>: a hook process that keeps its ledger of proposals, activations and
  observations as lines of one state disk.  The state is the object together with the disk; each operation also takes
  what the disk system does to it: whether the disk can be probed and opened, and what becomes of each of the two saves.
  The theorems say that a process that starts later finds exactly the state an accepted operation left, and that no
  harness action has two accepted observations, over any sequence of operations, failed saves and restarts.
\<close>

section \<open>State\<close>

record intercept_command =
  ic_tool_name :: string
  ic_session_token :: u64
  ic_harness_action :: u64
  ic_raw_payload :: bytes

record observation_command =
  oc_harness_action :: u64
  oc_has_exit_code :: bool
  oc_exit_code :: int

record bridge_report =
  br_accepted :: bool
  br_detail :: string

record bridge =
  ab_manifest :: adapter_manifest
  ab_proposals :: u64
  ab_activations :: u64
  ab_next_injection :: u64
  ab_observed :: "u64 list"
  ab_log :: "string list"
  ab_loaded :: bool

definition activation_kind_name :: "activation_kind \<Rightarrow> string" where
  "activation_kind_name k =
     (case k of SessionStart \<Rightarrow> ''session-start'' | PromptSubmission \<Rightarrow> ''prompt-submission'' | TaskTransition \<Rightarrow> ''task-transition''
      | WorkflowTransition \<Rightarrow> ''workflow-transition'' | DeclaredIntent \<Rightarrow> ''declared-intent'')"

definition hex_digest :: "foundation \<Rightarrow> bytes \<Rightarrow> string" where
  "hex_digest F payload = hex_of (sha256 F payload)"

text \<open>The constructor.\<close>

definition new_bridge :: "foundation \<Rightarrow> string \<Rightarrow> u64 \<Rightarrow> bridge" where
  "new_bridge F adapter_name credential_token =
     (let m = \<lparr>mf_adapter_name = adapter_name, mf_version = 1, mf_capabilities = [], mf_credential = credential_token\<rparr>;
          tool_actions = default_capability\<lparr>cap_id := 1, cap_adapter := adapter_instance_id F m, cap_class := Observe\<rparr> in
      \<lparr>ab_manifest = m\<lparr>mf_capabilities := [tool_actions]\<rparr>, ab_proposals = 0, ab_activations = 0, ab_next_injection = 1,
       ab_observed = [], ab_log = [], ab_loaded = False\<rparr>)"

definition declared_window :: string where
  "declared_window = ''hook process boundary: the residual check-to-execution window '' @
     ''spans bridge-exit to tool dispatch and is harness-owned; this '' @
     ''adapter cannot prove it, only declare it''"

section \<open>The state file\<close>

text \<open>
  A save fails when the temporary file cannot be opened or renamed; then the state file stays.  The writes are not checked,
  so a save may also succeed with only the first characters of the text.
\<close>

datatype save_run = Save_Unopened | Save_Unrenamed | Save_Whole | Save_Cut nat

record bridge_io =
  bi_probed :: bool
  bi_opened :: bool
  bi_first :: save_run
  bi_second :: save_run

definition log_text :: "string list \<Rightarrow> string" where
  "log_text ls = concat (map (\<lambda>l. l @ [CHR 0x0A]) ls)"

text \<open>One line of the file.\<close>

definition load_line :: "string \<Rightarrow> bridge \<Rightarrow> bridge" where
  "load_line l b =
     (let b1 = b\<lparr>ab_log := ab_log b @ [l]\<rparr> in
      if starts_with l ''proposal '' then b1\<lparr>ab_proposals := ab_proposals b + 1\<rparr>
      else if starts_with l ''activation '' then
        let b2 = b1\<lparr>ab_activations := ab_activations b + 1\<rparr>; event = strtoull (drop 10 l) in
        if ab_next_injection b \<le> event then b2\<lparr>ab_next_injection := event + 1\<rparr> else b2
      else if starts_with l ''observation '' then b1\<lparr>ab_observed := ab_observed b @ [strtoull (drop 12 l)]\<rparr>
      else b1)"

definition bridge_load :: "bridge_io \<Rightarrow> string option \<Rightarrow> bridge \<Rightarrow> bool \<times> bridge" where
  "bridge_load io disk b =
     (if ab_loaded b then (True, b)
      else
        let b1 = b\<lparr>ab_loaded := True\<rparr> in
        case disk of
          None \<Rightarrow> (True, b1)
        | Some s \<Rightarrow>
            if \<not> bi_probed io then (True, b1)
            else if \<not> bi_opened io then (False, b1)
            else (True, fold load_line (getlines s) b1))"

definition bridge_save :: "save_run \<Rightarrow> bridge \<Rightarrow> string option \<Rightarrow> bool \<times> string option" where
  "bridge_save run b disk =
     (case run of
        Save_Unopened \<Rightarrow> (False, disk)
      | Save_Unrenamed \<Rightarrow> (False, disk)
      | Save_Whole \<Rightarrow> (True, Some (log_text (ab_log b)))
      | Save_Cut n \<Rightarrow> (True, Some (take n (log_text (ab_log b)))))"

text \<open>The first condition of every operation: \<^verbatim>\<open>load() && save()\<close>.\<close>

definition open_ledger :: "bridge_io \<Rightarrow> bridge \<times> string option \<Rightarrow> bool \<times> bridge \<times> string option" where
  "open_ledger io = (\<lambda>(b, disk).
     case bridge_load io disk b of
       (False, b1) \<Rightarrow> (False, b1, disk)
     | (True, b1) \<Rightarrow> (case bridge_save (bi_first io) b1 disk of (saved, disk1) \<Rightarrow> (saved, b1, disk1)))"

definition refused :: "string \<Rightarrow> bridge_report" where
  "refused detail = \<lparr>br_accepted = False, br_detail = detail\<rparr>"

text \<open>An operation ends by saving; what it reports depends on the save, or, for a rejection, does not.\<close>

definition close_ledger ::
  "bridge_io \<Rightarrow> string \<Rightarrow> bridge \<Rightarrow> string option \<Rightarrow> bridge_report \<times> bridge \<times> string option" where
  "close_ledger io detail b disk =
     (case bridge_save (bi_second io) b disk of
        (saved, disk1) \<Rightarrow> (if saved then \<lparr>br_accepted = True, br_detail = detail\<rparr> else refused ''state write failed'', b, disk1))"

definition reject_ledger ::
  "bridge_io \<Rightarrow> string \<Rightarrow> bridge \<Rightarrow> string option \<Rightarrow> bridge_report \<times> bridge \<times> string option" where
  "reject_ledger io detail b disk = (refused detail, b, snd (bridge_save (bi_second io) b disk))"

section \<open>Operations\<close>

text \<open>The lines that operations log.\<close>

definition activation_line :: "u64 \<Rightarrow> activation_kind \<Rightarrow> string" where
  "activation_line event kind = ''activation '' @ to_string_u64 event @ '' '' @ activation_kind_name kind"

definition proposal_line :: "foundation \<Rightarrow> intercept_command \<Rightarrow> string" where
  "proposal_line F c = ''proposal '' @ to_string_u64 (ic_harness_action c) @ '' '' @ ic_tool_name c @ '' session '' @
     to_string_u64 (ic_session_token c) @ '' sha256 '' @ hex_digest F (ic_raw_payload c)"

definition outcome_of :: "observation_command \<Rightarrow> string \<times> string" where
  "outcome_of c =
     (if \<not> oc_has_exit_code c then (''indeterminate'', [])
      else if oc_exit_code c = 0 then (''succeeded'', ''exit 0'')
      else (''failed'', ''exit '' @ int_text (oc_exit_code c)))"

definition observation_line :: "observation_command \<Rightarrow> string" where
  "observation_line c = (let (outcome, evidence) = outcome_of c in
     ''observation '' @ to_string_u64 (oc_harness_action c) @ '' '' @ outcome @ (if evidence = [] then [] else '' '' @ evidence))"

definition duplicate_line :: "u64 \<Rightarrow> string" where
  "duplicate_line action = ''rejected-observation duplicate '' @ to_string_u64 action"

definition rejected_line :: "bool \<Rightarrow> string" where
  "rejected_line complete = (if complete then ''rejected-proposal materialization-failed'' else ''rejected-proposal incomplete-surface'')"

definition bridge_activate ::
  "bridge_io \<Rightarrow> activation_kind \<Rightarrow> bridge \<times> string option \<Rightarrow> bridge_report \<times> bridge \<times> string option" where
  "bridge_activate io kind st =
     (case open_ledger io st of
        (False, b, disk) \<Rightarrow> (refused ''state file unavailable'', b, disk)
      | (True, b, disk) \<Rightarrow>
          let event = ab_next_injection b;
              b1 = b\<lparr>ab_next_injection := event + 1, ab_activations := ab_activations b + 1,
                     ab_log := ab_log b @ [activation_line event kind]\<rparr> in
          close_ledger io (''injection-event '' @ to_string_u64 event) b1 disk)"

definition bridge_proposal :: "bridge \<Rightarrow> intercept_command \<Rightarrow> intercepted_proposal" where
  "bridge_proposal b c =
     \<lparr>ip_adapter_name = mf_adapter_name (ab_manifest b), ip_session = ic_session_token c, ip_actor = 1,
      ip_credential = mf_credential (ab_manifest b), ip_capability = 1, ip_operation = ic_tool_name c,
      ip_target = ''harness:'' @ ic_tool_name c, ip_arguments = ic_raw_payload c, ip_harness_action = ic_harness_action c\<rparr>"

definition bridge_intercept ::
  "foundation \<Rightarrow> bridge_io \<Rightarrow> intercept_command \<Rightarrow> bridge \<times> string option \<Rightarrow> bridge_report \<times> bridge \<times> string option" where
  "bridge_intercept F io c st =
     (case open_ledger io st of
        (False, b, disk) \<Rightarrow> (refused ''state file unavailable'', b, disk)
      | (True, b, disk) \<Rightarrow>
          if ic_tool_name c = [] \<or> ic_session_token c = 0 \<or> ic_harness_action c = 0 then
            reject_ledger io ''incomplete interception surface (ADL 14)''
              (b\<lparr>ab_log := ab_log b @ [rejected_line False]\<rparr>) disk
          else case materialize_proposal F (bridge_proposal b c) of
            Inl e \<Rightarrow> reject_ledger io ''incomplete interception surface (ADL 14)'' (b\<lparr>ab_log := ab_log b @ [rejected_line True]\<rparr>) disk
          | Inr act \<Rightarrow>
              let b1 = b\<lparr>ab_proposals := ab_proposals b + 1,
                         ab_log := ab_log b @ [proposal_line F c]\<rparr> in
              close_ledger io (''accepted; argument digest sha256 '' @ hex_digest F (ic_raw_payload c)) b1 disk)"

definition bridge_observe ::
  "bridge_io \<Rightarrow> observation_command \<Rightarrow> bridge \<times> string option \<Rightarrow> bridge_report \<times> bridge \<times> string option" where
  "bridge_observe io c st =
     (case open_ledger io st of
        (False, b, disk) \<Rightarrow> (refused ''state file unavailable'', b, disk)
      | (True, b, disk) \<Rightarrow>
          if oc_harness_action c \<in> set (ab_observed b) then
            reject_ledger io ''duplicate observation (ADL 46)''
              (b\<lparr>ab_log := ab_log b @ [duplicate_line (oc_harness_action c)]\<rparr>) disk
          else
            close_ledger io (''outcome '' @ fst (outcome_of c))
              (b\<lparr>ab_observed := ab_observed b @ [oc_harness_action c], ab_log := ab_log b @ [observation_line c]\<rparr>) disk)"

definition bridge_route_claim :: "claim_channel \<Rightarrow> claim_channel_result" where
  "bridge_route_claim channel = (if channel = ToolMediated then Governed else NotGovernedClaim)"

definition evidence_dump :: "bridge_io \<Rightarrow> bridge \<times> string option \<Rightarrow> string \<times> bridge" where
  "evidence_dump io = (\<lambda>(b, disk).
     case bridge_load io disk b of (True, b1) \<Rightarrow> (log_text (ab_log b1), b1) | (False, b1) \<Rightarrow> (''state file unavailable'', b1))"

definition bridge_proposals :: "bridge_io \<Rightarrow> bridge \<times> string option \<Rightarrow> u64 \<times> bridge" where
  "bridge_proposals io = (\<lambda>(b, disk). let b1 = snd (bridge_load io disk b) in (ab_proposals b1, b1))"

definition bridge_activations :: "bridge_io \<Rightarrow> bridge \<times> string option \<Rightarrow> u64 \<times> bridge" where
  "bridge_activations io = (\<lambda>(b, disk). let b1 = snd (bridge_load io disk b) in (ab_activations b1, b1))"

definition bridge_observation_recorded :: "bridge_io \<Rightarrow> u64 \<Rightarrow> bridge \<times> string option \<Rightarrow> bool \<times> bridge" where
  "bridge_observation_recorded io action = (\<lambda>(b, disk).
     case bridge_load io disk b of (ok, b1) \<Rightarrow> (ok \<and> action \<in> set (ab_observed b1), b1))"

section \<open>Lines\<close>

definition one_line :: "string \<Rightarrow> bool" where
  "one_line l \<longleftrightarrow> CHR 0x0A \<notin> set l"

lemma one_line_append [simp]: "one_line (a @ b) \<longleftrightarrow> one_line a \<and> one_line b"
  by (simp add: one_line_def)

lemma one_line_Cons: "one_line (c # s) \<longleftrightarrow> c \<noteq> CHR 0x0A \<and> one_line s" "one_line []"
  by (auto simp: one_line_def)

lemma one_line_digits: "one_line (digits_of n)"
  using digits_of_decimal [of n] by (auto simp: one_line_def list_all_iff is_digit_def)

lemma one_line_numbers: "one_line (to_string_u64 n)" "one_line (int_text i)"
  by (simp_all add: to_string_u64_def int_text_def one_line_digits one_line_Cons)

lemma one_line_digest: "one_line (hex_digest F payload)"
  using hex_of_digits [of "sha256 F payload"] by (auto simp: hex_digest_def one_line_def hex_digits_def)

lemma getlines_line: "one_line l \<Longrightarrow> getlines (l @ CHR 0x0A # r) = l # getlines r"
proof -
  assume "one_line l"
  then have "list_all (\<lambda>c. c \<noteq> CHR 0x0A) l" by (auto simp: one_line_def list_all_iff)
  from takeWhile_all_stop [OF this, of "CHR 0x0A # r"] show ?thesis by (subst getlines.simps) simp
qed

lemma getlines_log: "list_all one_line ls \<Longrightarrow> getlines (log_text ls) = ls"
  by (induction ls) (simp_all add: log_text_def getlines.simps [of "[]"] getlines_line)

lemma strtoull_number:
  assumes "z = [] \<or> \<not> is_digit (hd z)"
  shows "strtoull (to_string_u64 n @ z) = n" "strtoull (CHR '' '' # to_string_u64 n @ z) = n"
proof -
  have d: "list_all is_digit (to_string_u64 n)" "decimal (to_string_u64 n) = unat n"
    using digits_of_decimal [of "unat n"] by (simp_all add: to_string_u64_def)
  obtain c cs where c: "to_string_u64 n = c # cs" "is_digit c" using to_string_u64_head by blast
  then have "\<not> is_space c" "c \<noteq> CHR ''-''" "c \<noteq> CHR ''+''" by (auto simp: is_space_def is_digit_def)
  moreover have "takeWhile is_digit (to_string_u64 n @ z) = to_string_u64 n"
    using takeWhile_all_stop [OF d(1), of z] assms by (cases z) auto
  moreover have "\<not> 2 ^ 64 \<le> unat n" using unsigned_less [of n, where ?'a = nat] by simp
  ultimately show "strtoull (to_string_u64 n @ z) = n" using d(2) c(1) by (simp add: strtoull_def Let_def)
  then show "strtoull (CHR '' '' # to_string_u64 n @ z) = n" by (simp add: strtoull_def is_space_def)
qed

text \<open>Loading the line an operation logs does what the operation did.\<close>

lemma load_activation:
  "load_line (activation_line (ab_next_injection b) kind) b =
     b\<lparr>ab_next_injection := ab_next_injection b + 1, ab_activations := ab_activations b + 1,
       ab_log := ab_log b @ [activation_line (ab_next_injection b) kind]\<rparr>"
  using strtoull_number(2) [of "'' '' @ activation_kind_name kind" "ab_next_injection b"]
  by (simp add: load_line_def activation_line_def starts_with_def is_digit_def Let_def)

lemma load_proposal: "load_line (proposal_line F c) b = b\<lparr>ab_proposals := ab_proposals b + 1, ab_log := ab_log b @ [proposal_line F c]\<rparr>"
  by (simp add: load_line_def starts_with_def proposal_line_def)

lemma load_rejection:
  "load_line (rejected_line complete) b = b\<lparr>ab_log := ab_log b @ [rejected_line complete]\<rparr>"
  "load_line (duplicate_line action) b = b\<lparr>ab_log := ab_log b @ [duplicate_line action]\<rparr>"
  by (simp_all add: load_line_def starts_with_def rejected_line_def duplicate_line_def)

lemma load_observation:
  "load_line (observation_line c) b =
     b\<lparr>ab_observed := ab_observed b @ [oc_harness_action c], ab_log := ab_log b @ [observation_line c]\<rparr>"
proof -
  have "\<exists>s. observation_line c = ''observation '' @ to_string_u64 (oc_harness_action c) @ '' '' @ s"
    unfolding observation_line_def Let_def case_prod_beta by blast
  then obtain s where "observation_line c = ''observation '' @ to_string_u64 (oc_harness_action c) @ '' '' @ s" ..
  then show ?thesis
    using strtoull_number(1) [of "'' '' @ s" "oc_harness_action c"] by (simp add: load_line_def starts_with_def is_digit_def)
qed

lemma logged_lines:
  "one_line (activation_line n kind)" "one_line (ic_tool_name k) \<Longrightarrow> one_line (proposal_line F k)" "one_line (observation_line c)"
  "one_line (rejected_line complete)" "one_line (duplicate_line n)"
  by (simp_all add: activation_line_def proposal_line_def observation_line_def rejected_line_def duplicate_line_def outcome_of_def
      activation_kind_name_def one_line_numbers one_line_digest one_line_Cons split: activation_kind.split prod.split)

lemma load_line_grows:
  "ab_log (load_line l b) = ab_log b @ [l]" "ab_loaded (load_line l b) = ab_loaded b" "set (ab_observed b) \<subseteq> set (ab_observed (load_line l b))"
  by (auto simp: load_line_def Let_def)

lemma replay_grows:
  "ab_log (fold load_line ls b) = ab_log b @ ls" "ab_loaded (fold load_line ls b) = ab_loaded b"
  "set (ab_observed b) \<subseteq> set (ab_observed (fold load_line ls b))"
proof (induction ls arbitrary: b)
  case (Cons l ls)
  { case 1 then show ?case by (simp add: Cons load_line_grows) }
  { case 2 then show ?case by (simp add: Cons load_line_grows) }
  { case 3 then show ?case using Cons(3) [of "load_line l b"] load_line_grows(3) [of b l] by auto }
qed simp_all

section \<open>Runs\<close>

datatype bridge_call =
    Call_Activate activation_kind
  | Call_Intercept intercept_command
  | Call_Observe observation_command
  | Call_Restart

text \<open>A call, or the end of the process and the start of the next one, which has only the file.\<close>

definition bridge_step :: "foundation \<Rightarrow> string \<Rightarrow> u64 \<Rightarrow> bridge_io \<times> bridge_call \<Rightarrow> bridge \<times> string option \<Rightarrow> bridge_report \<times> bridge \<times> string option" where
  "bridge_step F name credential = (\<lambda>(io, call) st.
     case call of
       Call_Activate kind \<Rightarrow> bridge_activate io kind st
     | Call_Intercept c \<Rightarrow> bridge_intercept F io c st
     | Call_Observe c \<Rightarrow> bridge_observe io c st
     | Call_Restart \<Rightarrow> (refused [], new_bridge F name credential, snd st))"

fun bridge_run :: "foundation \<Rightarrow> string \<Rightarrow> u64 \<Rightarrow> (bridge_io \<times> bridge_call) list \<Rightarrow> bridge \<times> string option \<Rightarrow> bridge \<times> string option" where
  "bridge_run F name credential [] st = st"
| "bridge_run F name credential (a # as) st = bridge_run F name credential as (snd (bridge_step F name credential a st))"

text \<open>The file can be read when it exists, saves are complete or fail, and tool names hold no line feed.\<close>

definition fit_call :: "bridge_io \<times> bridge_call \<Rightarrow> bool" where
  "fit_call = (\<lambda>(io, call). bi_probed io \<and> bi_opened io \<and> bi_first io \<in> {Save_Unopened, Save_Unrenamed, Save_Whole} \<and>
     bi_second io \<in> {Save_Unopened, Save_Unrenamed, Save_Whole} \<and>
     (case call of Call_Intercept c \<Rightarrow> one_line (ic_tool_name c) | _ \<Rightarrow> True))"

abbreviation replayed :: "bridge \<Rightarrow> string list \<Rightarrow> bridge" where
  "replayed b0 ls \<equiv> fold load_line ls (b0\<lparr>ab_loaded := True\<rparr>)"

text \<open>The lines that the file holds.\<close>

definition filed :: "string list \<Rightarrow> string option \<Rightarrow> bool" where
  "filed ls disk \<longleftrightarrow> list_all one_line ls \<and> (disk = None \<and> ls = [] \<or> disk = Some (log_text ls))"

lemma filed_unique: "filed ls disk \<Longrightarrow> filed ls' disk \<Longrightarrow> ls = ls'"
  by (auto simp: filed_def) (metis getlines_log)

lemma load_filed:
  assumes "filed ls disk" "\<not> ab_loaded b0" "bi_probed io" "bi_opened io"
  shows "bridge_load io disk b0 = (True, replayed b0 ls)"
  using assms by (auto simp: filed_def bridge_load_def Let_def getlines_log)

lemma replayed_log: "ab_log b0 = [] \<Longrightarrow> ab_log (replayed b0 ls) = ls" and replayed_loaded: "ab_loaded (replayed b0 ls)"
  by (simp_all only: replay_grows) simp_all

lemma replayed_observed: "set (ab_observed (replayed b0 ls)) \<subseteq> set (ab_observed (replayed b0 (ls @ ext)))"
  using replay_grows(3) [of "replayed b0 ls" ext] by simp

text \<open>The file holds the first lines of the log, and the object is what replaying its log yields.\<close>

definition ledger_inv :: "bridge \<Rightarrow> bridge \<times> string option \<Rightarrow> bool" where
  "ledger_inv b0 = (\<lambda>(b, disk). \<exists>ls more. filed ls disk \<and> list_all one_line more \<and>
     (if ab_loaded b then b = replayed b0 (ls @ more) else b = b0))"

lemma open_ledger_inv:
  assumes "ledger_inv b0 (b, disk)" "open_ledger io (b, disk) = (ok, b1, disk1)" "filed old disk" "\<not> ab_loaded b0" "ab_log b0 = []"
    and "bi_probed io" "bi_opened io" "bi_first io \<in> {Save_Unopened, Save_Unrenamed, Save_Whole}"
  shows "\<exists>ext more. filed (old @ ext) disk1 \<and> list_all one_line more \<and> b1 = replayed b0 (old @ ext @ more) \<and> (ok \<longrightarrow> more = [])"
proof -
  obtain ls more where i: "filed ls disk" "list_all one_line more" "if ab_loaded b then b = replayed b0 (ls @ more) else b = b0"
    using assms(1) by (auto simp: ledger_inv_def)
  have ls: "ls = old" by (rule filed_unique [OF i(1) assms(3)])
  have "\<exists>more. list_all one_line more \<and> bridge_load io disk b = (True, replayed b0 (old @ more))"
  proof (cases "ab_loaded b")
    case True
    then show ?thesis using i ls by (intro exI [of _ more]) (simp add: bridge_load_def)
  next
    case False
    then show ?thesis using i load_filed [OF assms(3,4,6,7)] by (intro exI [of _ "[]"]) simp
  qed
  then obtain more where l: "list_all one_line more" "bridge_load io disk b = (True, replayed b0 (old @ more))" by blast
  show ?thesis
  proof (cases "bi_first io = Save_Whole")
    case True
    then have "ok" "b1 = replayed b0 (old @ more)" "disk1 = Some (log_text (old @ more))"
      using assms(2) l(2) replayed_log [OF assms(5), of "old @ more"] by (auto simp: open_ledger_def bridge_save_def)
    then show ?thesis using l(1) assms(3) by (intro exI [of _ more] exI [of _ "[]"]) (simp add: filed_def)
  next
    case False
    then have "\<not> ok" "b1 = replayed b0 (old @ more)" "disk1 = disk"
      using assms(2,8) l(2) by (auto simp: open_ledger_def bridge_save_def)
    then show ?thesis using l(1) assms(3) by (intro exI [of _ "[]"] exI [of _ more]) simp
  qed
qed

lemma operations_by_loading:
  "bridge_activate io kind st =
     (case open_ledger io st of
        (False, b, disk) \<Rightarrow> (refused ''state file unavailable'', b, disk)
      | (True, b, disk) \<Rightarrow> close_ledger io (''injection-event '' @ to_string_u64 (ab_next_injection b))
          (load_line (activation_line (ab_next_injection b) kind) b) disk)"
  "bridge_intercept F io c st =
     (case open_ledger io st of
        (False, b, disk) \<Rightarrow> (refused ''state file unavailable'', b, disk)
      | (True, b, disk) \<Rightarrow>
          if ic_tool_name c = [] \<or> ic_session_token c = 0 \<or> ic_harness_action c = 0 then
            reject_ledger io ''incomplete interception surface (ADL 14)'' (load_line (rejected_line False) b) disk
          else case materialize_proposal F (bridge_proposal b c) of
            Inl e \<Rightarrow> reject_ledger io ''incomplete interception surface (ADL 14)'' (load_line (rejected_line True) b) disk
          | Inr act \<Rightarrow> close_ledger io (''accepted; argument digest sha256 '' @ hex_digest F (ic_raw_payload c)) (load_line (proposal_line F c) b) disk)"
  "bridge_observe io d st =
     (case open_ledger io st of
        (False, b, disk) \<Rightarrow> (refused ''state file unavailable'', b, disk)
      | (True, b, disk) \<Rightarrow>
          if oc_harness_action d \<in> set (ab_observed b) then
            reject_ledger io ''duplicate observation (ADL 46)'' (load_line (duplicate_line (oc_harness_action d)) b) disk
          else close_ledger io (''outcome '' @ fst (outcome_of d)) (load_line (observation_line d) b) disk)"
  unfolding bridge_activate_def bridge_intercept_def bridge_observe_def load_activation load_rejection load_proposal load_observation Let_def
  by (rule refl)+

lemma close_shape:
  assumes "close_ledger io detail b disk = (r, b', disk')"
  shows "b' = b \<and> disk' = snd (bridge_save (bi_second io) b' disk) \<and> (br_accepted r \<longrightarrow> fst (bridge_save (bi_second io) b' disk))"
  using assms by (auto simp: close_ledger_def refused_def split: prod.splits if_splits)

lemma reject_shape:
  assumes "reject_ledger io detail b disk = (r, b', disk')"
  shows "b' = b \<and> disk' = snd (bridge_save (bi_second io) b' disk) \<and> \<not> br_accepted r"
  using assms by (auto simp: reject_ledger_def refused_def)

text \<open>An operation that gets past the first save logs one line, as loading that line would, and saves again.\<close>

lemma step_shape:
  assumes "bridge_step F name credential (io, call) st = (r, b', disk')" "fit_call (io, call)" "call \<noteq> Call_Restart"
    "open_ledger io st = (ok, b, disk)"
  shows "if ok then \<exists>l. one_line l \<and> b' = load_line l b \<and> disk' = snd (bridge_save (bi_second io) b' disk) \<and>
      (br_accepted r \<longrightarrow> fst (bridge_save (bi_second io) b' disk)) \<and>
      (br_accepted r \<longrightarrow> (case call of Call_Observe c \<Rightarrow> oc_harness_action c \<notin> set (ab_observed b) \<and> oc_harness_action c \<in> set (ab_observed b') | _ \<Rightarrow> True))
    else \<not> br_accepted r \<and> b' = b \<and> disk' = disk"
proof (cases ok)
  case False
  then show ?thesis using assms by (cases call) (auto simp: bridge_step_def operations_by_loading refused_def)
next
  case True
  show ?thesis
  proof (cases call)
    case (Call_Activate kind)
    then have "close_ledger io (''injection-event '' @ to_string_u64 (ab_next_injection b)) (load_line (activation_line (ab_next_injection b) kind) b) disk =
        (r, b', disk')" using assms(1,4) True by (simp add: bridge_step_def operations_by_loading)
    from close_shape [OF this] show ?thesis using True Call_Activate logged_lines(1) by fastforce
  next
    case (Call_Intercept c)
    have "one_line (proposal_line F c)" using assms(2) Call_Intercept logged_lines(2) by (simp add: fit_call_def)
    moreover have "(\<exists>d k. reject_ledger io d (load_line (rejected_line k) b) disk = (r, b', disk')) \<or>
        (\<exists>d. close_ledger io d (load_line (proposal_line F c) b) disk = (r, b', disk'))"
      using assms(1,4) True Call_Intercept by (auto simp: bridge_step_def operations_by_loading split: if_splits sum.splits)
    ultimately show ?thesis
      using True Call_Intercept logged_lines(4) by (auto dest!: close_shape reject_shape)
  next
    case (Call_Observe c)
    show ?thesis
    proof (cases "oc_harness_action c \<in> set (ab_observed b)")
      case dup: True
      then have "reject_ledger io ''duplicate observation (ADL 46)'' (load_line (duplicate_line (oc_harness_action c)) b) disk = (r, b', disk')"
        using assms(1,4) True Call_Observe by (simp add: bridge_step_def operations_by_loading)
      from reject_shape [OF this] show ?thesis using True logged_lines(5) by auto
    next
      case new: False
      then have "close_ledger io (''outcome '' @ fst (outcome_of c)) (load_line (observation_line c) b) disk = (r, b', disk')"
        using assms(1,4) True Call_Observe by (simp add: bridge_step_def operations_by_loading)
      moreover have "oc_harness_action c \<in> set (ab_observed (load_line (observation_line c) b))" by (simp add: load_observation)
      ultimately show ?thesis using True new Call_Observe logged_lines(3) by (auto dest!: close_shape)
    qed
  qed (use assms in simp)
qed

lemma new_bridge_fresh: "\<not> ab_loaded (new_bridge F name credential)" "ab_log (new_bridge F name credential) = []"
  by (simp_all add: new_bridge_def Let_def)

definition good_io :: bridge_io where
  "good_io = \<lparr>bi_probed = True, bi_opened = True, bi_first = Save_Whole, bi_second = Save_Whole\<rparr>"

text \<open>A call leaves a file that extends the one it found, up to the last line of the log when it is accepted.\<close>

lemma fit_step:
  assumes "ledger_inv b0 st" "bridge_step F name credential (io, call) st = (r, b', disk')" "fit_call (io, call)" "call \<noteq> Call_Restart"
    and "\<not> ab_loaded b0" "ab_log b0 = []" "filed old (snd st)"
  obtains ext more where "filed (old @ ext) disk'" "list_all one_line more" "b' = replayed b0 (old @ ext @ more)"
    "br_accepted r \<Longrightarrow> more = []"
    "\<And>c. br_accepted r \<Longrightarrow> call = Call_Observe c \<Longrightarrow> oc_harness_action c \<notin> set (ab_observed (replayed b0 old)) \<and>
       oc_harness_action c \<in> set (ab_observed (replayed b0 (old @ ext)))"
proof -
  have io: "bi_probed io" "bi_opened io" "bi_first io \<in> {Save_Unopened, Save_Unrenamed, Save_Whole}"
    "bi_second io \<in> {Save_Unopened, Save_Unrenamed, Save_Whole}" using assms(3) by (auto simp: fit_call_def)
  obtain ok b disk where o: "open_ledger io st = (ok, b, disk)" by (cases "open_ledger io st")
  obtain ext more where e: "filed (old @ ext) disk" "list_all one_line more" "b = replayed b0 (old @ ext @ more)" "ok \<longrightarrow> more = []"
    using open_ledger_inv [of b0 "fst st" "snd st" io ok b disk old] assms(1,5,6,7) o io by auto
  note s = step_shape [OF assms(2,3,4) o]
  show thesis
  proof (cases ok)
    case False
    then show thesis using that [of ext more] e s by simp
  next
    case True
    then obtain l where l: "one_line l" "b' = load_line l b" "disk' = snd (bridge_save (bi_second io) b' disk)"
      "br_accepted r \<longrightarrow> fst (bridge_save (bi_second io) b' disk)"
      "\<And>c. br_accepted r \<Longrightarrow> call = Call_Observe c \<Longrightarrow> oc_harness_action c \<notin> set (ab_observed b) \<and> oc_harness_action c \<in> set (ab_observed b')"
      using s by (auto split: bridge_call.splits)
    have b: "b = replayed b0 (old @ ext)" "b' = replayed b0 (old @ ext @ [l])" using e(3,4) True l(2) by simp_all
    have n: "oc_harness_action c \<notin> set (ab_observed (replayed b0 old))" if "br_accepted r" "call = Call_Observe c" for c
      using l(5) [OF that] replayed_observed [of old b0 ext] b(1) by blast
    show thesis
    proof (cases "bi_second io = Save_Whole")
      case whole: True
      then have "disk' = Some (log_text (old @ ext @ [l]))"
        using l(3) replayed_log [OF assms(6), of "old @ ext @ [l]"] b(2) by (simp add: bridge_save_def)
      then have "filed (old @ ext @ [l]) disk'" using e(1) l(1) by (simp add: filed_def)
      then show thesis using that [of "ext @ [l]" "[]"] b(2) l(5) n by simp
    next
      case False
      then have f: "disk' = disk" "\<not> br_accepted r" using l(3,4) io(4) by (auto simp: bridge_save_def)
      then show thesis using that [of ext "[l]"] e(1) l(1) b(2) by simp
    qed
  qed
qed

lemma restart_step: "bridge_step F name credential (io, Call_Restart) st = (refused [], new_bridge F name credential, snd st)"
  by (simp add: bridge_step_def)

lemma ledger_step:
  assumes "ledger_inv (new_bridge F name credential) st" "fit_call a"
  shows "ledger_inv (new_bridge F name credential) (snd (bridge_step F name credential a st))"
proof -
  obtain io call where a: "a = (io, call)" by (cases a)
  obtain r b' disk' where s: "bridge_step F name credential (io, call) st = (r, b', disk')" by (cases "bridge_step F name credential (io, call) st")
  obtain old where old: "filed old (snd st)" using assms(1) by (cases st) (auto simp: ledger_inv_def)
  show ?thesis
  proof (cases "call = Call_Restart")
    case True
    then show ?thesis
      using old a by (simp add: restart_step ledger_inv_def new_bridge_fresh) (metis list.pred_inject(1))
  next
    case False
    obtain ext more where "filed (old @ ext) disk'" "list_all one_line more" "b' = replayed (new_bridge F name credential) (old @ ext @ more)"
      using fit_step [OF assms(1) s _ False new_bridge_fresh old] assms(2) a by metis
    moreover have "ab_loaded (replayed (new_bridge F name credential) (old @ ext @ more))" by (rule replayed_loaded)
    ultimately show ?thesis using a s unfolding ledger_inv_def by (auto simp del: fold_append) (metis append_assoc)
  qed
qed

lemma ledger_start: "ledger_inv (new_bridge F name credential) (new_bridge F name credential, None)"
  by (auto simp: ledger_inv_def new_bridge_fresh filed_def intro!: exI [of _ "[]"])

lemma ledger_run:
  "ledger_inv (new_bridge F name credential) st \<Longrightarrow> list_all fit_call as \<Longrightarrow>
   ledger_inv (new_bridge F name credential) (bridge_run F name credential as st)"
  by (induction as arbitrary: st) (simp_all add: ledger_step)

text \<open>C35: refinement: the state file is the state.  Over any sequence of calls and restarts, with saves that may fail, as
  soon as a call is accepted a process that starts afterwards reads back exactly the object as the call left it: its
  counters, the next injection event, the observed actions and the whole log.  Reads are assumed to work, saves to be
  complete when they succeed, and tool names not to contain a line feed.\<close>

theorem accepted_survives_restart:
  assumes "list_all fit_call calls" and "fit_call (io, call)"
    and "bridge_step F name credential (io, call) (bridge_run F name credential calls (new_bridge F name credential, None)) = (r, b, disk)"
    and "br_accepted r"
  shows "bridge_load good_io disk (new_bridge F name credential) = (True, b)"
proof -
  let ?st = "bridge_run F name credential calls (new_bridge F name credential, None)"
  have i: "ledger_inv (new_bridge F name credential) ?st" by (rule ledger_run [OF ledger_start assms(1)])
  then obtain old where old: "filed old (snd ?st)" by (cases ?st) (auto simp: ledger_inv_def)
  have "call \<noteq> Call_Restart" using assms(3,4) by (auto simp: restart_step refused_def)
  from fit_step [OF i assms(3,2) this new_bridge_fresh old] assms(4)
  obtain ext where e: "filed (old @ ext) disk" "b = replayed (new_bridge F name credential) (old @ ext)" by (metis append_Nil2)
  show ?thesis using load_filed [OF e(1) new_bridge_fresh(1), of good_io] e(2) by (simp add: good_io_def)
qed

definition small_calls :: "(bridge_io \<times> bridge_call) list" where
  "small_calls = [(good_io, Call_Activate SessionStart),
     (good_io\<lparr>bi_second := Save_Unrenamed\<rparr>, Call_Observe \<lparr>oc_harness_action = 4, oc_has_exit_code = True, oc_exit_code = 0\<rparr>),
     (good_io, Call_Restart)]"

lemma small_calls_fit: "list_all fit_call small_calls"
  by (simp add: small_calls_def fit_call_def good_io_def)

abbreviation (input) small_observation :: bridge_call where
  "small_observation \<equiv> Call_Observe \<lparr>oc_harness_action = 4, oc_has_exit_code = True, oc_exit_code = 0\<rparr>"

lemma small_accepted:
  "br_accepted (fst (bridge_step F name credential (good_io, small_observation)
     (bridge_run F name credential small_calls (new_bridge F name credential, None))))"
proof -
  let ?n = "new_bridge F name credential"
  let ?st = "bridge_run F name credential small_calls (?n, None)"
  have l: "one_line (activation_line 1 SessionStart)" by (rule logged_lines)
  have r: "replayed ?n [activation_line 1 SessionStart] =
      ?n\<lparr>ab_loaded := True, ab_next_injection := 2, ab_activations := 1, ab_log := [activation_line 1 SessionStart]\<rparr>"
    using load_activation [of "?n\<lparr>ab_loaded := True\<rparr>" SessionStart] by (simp add: new_bridge_def Let_def)
  have "?st = (?n, Some (log_text [activation_line 1 SessionStart]))"
    by (simp add: small_calls_def bridge_step_def bridge_activate_def bridge_observe_def open_ledger_def bridge_load_def bridge_save_def
        close_ledger_def refused_def good_io_def new_bridge_def Let_def split: prod.split)
  moreover have "bridge_load good_io (Some (log_text [activation_line 1 SessionStart])) ?n = (True, replayed ?n [activation_line 1 SessionStart])"
    by (rule load_filed) (simp_all add: filed_def l new_bridge_fresh good_io_def)
  ultimately show ?thesis
    unfolding r
    by (simp add: bridge_step_def bridge_observe_def open_ledger_def bridge_save_def close_ledger_def refused_def good_io_def)
       (simp add: new_bridge_def Let_def)
qed

theorem accepted_survives_restart_witness:
  "\<exists>r b disk. bridge_step ref_foundation ''z'' 7 (good_io, small_observation)
       (bridge_run ref_foundation ''z'' 7 small_calls (new_bridge ref_foundation ''z'' 7, None)) = (r, b, disk) \<and>
     br_accepted r \<and> bridge_load good_io disk (new_bridge ref_foundation ''z'' 7) = (True, b)"
proof -
  obtain r b disk where s: "bridge_step ref_foundation ''z'' 7 (good_io, small_observation)
       (bridge_run ref_foundation ''z'' 7 small_calls (new_bridge ref_foundation ''z'' 7, None)) = (r, b, disk)" by (metis prod_cases3)
  have a: "br_accepted r" using small_accepted [of ref_foundation "''z''" 7] s by simp
  have "fit_call (good_io, small_observation)" by (simp add: fit_call_def good_io_def)
  from accepted_survives_restart [OF small_calls_fit this s a] show ?thesis using s a by blast
qed

section \<open>One observation per action\<close>

text \<open>
  Single use where the laws hold on the reachable states only: an invariant that requests of a given kind keep.
\<close>

locale kept_single_use =
  fixes attempt :: "'s \<Rightarrow> 'a \<Rightarrow> bool \<times> 's"
    and key :: "'a \<Rightarrow> 'k"
    and spent :: "'s \<Rightarrow> 'k set"
    and inv :: "'s \<Rightarrow> bool"
    and fit :: "'a \<Rightarrow> bool"
  assumes inv_kept: "inv s \<Longrightarrow> fit a \<Longrightarrow> attempt s a = (ok, s') \<Longrightarrow> inv s'"
    and success_fresh: "inv s \<Longrightarrow> fit a \<Longrightarrow> attempt s a = (True, s') \<Longrightarrow> key a \<notin> spent s"
    and success_spends: "inv s \<Longrightarrow> fit a \<Longrightarrow> attempt s a = (True, s') \<Longrightarrow> key a \<in> spent s'"
    and spent_grows: "inv s \<Longrightarrow> fit a \<Longrightarrow> attempt s a = (ok, s') \<Longrightarrow> spent s \<subseteq> spent s'"
begin

lemma kept_granted:
  "inv s \<Longrightarrow> list_all fit as \<Longrightarrow> distinct (map key (granted attempt s as)) \<and> key ` set (granted attempt s as) \<inter> spent s = {}"
proof (induction as arbitrary: s)
  case (Cons a as)
  obtain ok s' where a: "attempt s a = (ok, s')" by (cases "attempt s a")
  have f: "fit a" "list_all fit as" using Cons.prems by auto
  note later = Cons.IH [OF inv_kept [OF Cons.prems(1) f(1) a] f(2)] and grows = spent_grows [OF Cons.prems(1) f(1) a]
  show ?case
  proof (cases ok)
    case True
    then have "key a \<notin> spent s" "key a \<in> spent s'"
      using success_fresh [of s a s'] success_spends [of s a s'] Cons.prems(1) f(1) a by simp_all
    then show ?thesis using True a later grows by auto
  next
    case False
    then show ?thesis using a later grows by auto
  qed
qed simp

lemma kept_recorded:
  "inv s \<Longrightarrow> list_all fit as \<Longrightarrow> spent s \<union> key ` set (granted attempt s as) \<subseteq> spent (fold (\<lambda>a s. snd (attempt s a)) as s)"
proof (induction as arbitrary: s)
  case (Cons a as)
  obtain ok s' where a: "attempt s a = (ok, s')" by (cases "attempt s a")
  have f: "fit a" "list_all fit as" using Cons.prems by auto
  have "ok \<Longrightarrow> key a \<in> spent s'" using success_spends [of s a s'] Cons.prems(1) f(1) a by simp
  then show ?case
    using Cons.IH [OF inv_kept [OF Cons.prems(1) f(1) a] f(2)] spent_grows [OF Cons.prems(1) f(1) a] a by auto
qed simp

end

text \<open>An attempt succeeds when it is an accepted observation; what the file records as observed is spent.\<close>

definition observe_attempt :: "foundation \<Rightarrow> string \<Rightarrow> u64 \<Rightarrow> bridge \<times> string option \<Rightarrow> bridge_io \<times> bridge_call \<Rightarrow> bool \<times> bridge \<times> string option" where
  "observe_attempt F name credential st a =
     (case bridge_step F name credential a st of
        (r, st') \<Rightarrow> (br_accepted r \<and> (case snd a of Call_Observe c \<Rightarrow> True | _ \<Rightarrow> False), st'))"

definition call_action :: "bridge_io \<times> bridge_call \<Rightarrow> u64" where
  "call_action a = (case snd a of Call_Observe c \<Rightarrow> oc_harness_action c | _ \<Rightarrow> 0)"

definition filed_actions :: "bridge \<Rightarrow> bridge \<times> string option \<Rightarrow> u64 set" where
  "filed_actions b0 = (\<lambda>(b, disk). set (ab_observed (snd (bridge_load good_io disk b0))))"

lemma filed_actions_eq:
  "filed ls disk \<Longrightarrow> filed_actions (new_bridge F name credential) (b, disk) = set (ab_observed (replayed (new_bridge F name credential) ls))"
  using load_filed [of ls disk "new_bridge F name credential" good_io] by (simp add: filed_actions_def new_bridge_fresh good_io_def)

lemma observe_attempt_laws:
  assumes "ledger_inv (new_bridge F name credential) st" "fit_call a" "observe_attempt F name credential st a = (ok, st')"
  shows "ledger_inv (new_bridge F name credential) st'"
    "ok \<Longrightarrow> call_action a \<notin> filed_actions (new_bridge F name credential) st \<and> call_action a \<in> filed_actions (new_bridge F name credential) st'"
    "filed_actions (new_bridge F name credential) st \<subseteq> filed_actions (new_bridge F name credential) st'"
proof -
  let ?n = "new_bridge F name credential"
  obtain io call where a: "a = (io, call)" by (cases a)
  obtain r b' disk' where s: "bridge_step F name credential (io, call) st = (r, b', disk')" by (metis prod_cases3)
  obtain b disk where st: "st = (b, disk)" by (cases st)
  have st': "st' = (b', disk')" "ok = (br_accepted r \<and> (case call of Call_Observe c \<Rightarrow> True | _ \<Rightarrow> False))"
    using assms(3) s a by (auto simp: observe_attempt_def)
  show "ledger_inv ?n st'" using ledger_step [OF assms(1,2)] s a st' by simp
  obtain old where old: "filed old disk" using assms(1) st by (auto simp: ledger_inv_def)
  have "(ok \<longrightarrow> call_action a \<notin> filed_actions ?n st \<and> call_action a \<in> filed_actions ?n st') \<and> filed_actions ?n st \<subseteq> filed_actions ?n st'"
  proof (cases "call = Call_Restart")
    case True
    then show ?thesis using s st st' by (auto simp: restart_step refused_def filed_actions_def)
  next
    case False
    obtain ext extra where e: "filed (old @ ext) disk'" "b' = replayed ?n (old @ ext @ extra)"
      "\<And>c. br_accepted r \<Longrightarrow> call = Call_Observe c \<Longrightarrow> oc_harness_action c \<notin> set (ab_observed (replayed ?n old)) \<and>
         oc_harness_action c \<in> set (ab_observed (replayed ?n (old @ ext)))"
      using fit_step [OF assms(1) s _ False new_bridge_fresh, of old] assms(2) a old st by (metis snd_conv)
    then show ?thesis
      using filed_actions_eq [OF old, of F name credential b] filed_actions_eq [OF e(1), of F name credential b'] st st' a
        replayed_observed [of old ?n ext]
      by (auto simp: call_action_def split: bridge_call.splits)
  qed
  then show "ok \<Longrightarrow> call_action a \<notin> filed_actions ?n st \<and> call_action a \<in> filed_actions ?n st'" "filed_actions ?n st \<subseteq> filed_actions ?n st'"
    by blast+
qed

interpretation observations: kept_single_use "observe_attempt F name credential" call_action
  "filed_actions (new_bridge F name credential)" "ledger_inv (new_bridge F name credential)" fit_call for F name credential
proof
  fix s a ok s'
  assume "ledger_inv (new_bridge F name credential) s" "fit_call a" "observe_attempt F name credential s a = (ok, s')"
  from observe_attempt_laws(1,3) [OF this]
  show "ledger_inv (new_bridge F name credential) s'"
    "filed_actions (new_bridge F name credential) s \<subseteq> filed_actions (new_bridge F name credential) s'" .
next
  fix s a s'
  assume "ledger_inv (new_bridge F name credential) s" "fit_call a" "observe_attempt F name credential s a = (True, s')"
  from observe_attempt_laws(2) [OF this]
  show "call_action a \<notin> filed_actions (new_bridge F name credential) s" "call_action a \<in> filed_actions (new_bridge F name credential) s'"
    by auto
qed

lemma observe_run:
  "fold (\<lambda>a st. snd (observe_attempt F name credential st a)) calls st = bridge_run F name credential calls st"
  by (induction calls arbitrary: st) (simp_all add: observe_attempt_def split: prod.split)

text \<open>C34: safety: no harness action is observed twice.  Let the state file be readable whenever it exists, let a save write the
  whole file or leave the old one, and let tool names contain no line feed.  Then over any sequence of activations,
  interceptions, observations and restarts of the process, with saves that may fail, at most one observation of
  an action is accepted, and the file records every action whose observation was.\<close>

theorem observed_at_most_once:
  assumes "list_all fit_call calls"
  shows "distinct (map call_action (granted (observe_attempt F name credential) (new_bridge F name credential, None) calls)) \<and>
    call_action ` set (granted (observe_attempt F name credential) (new_bridge F name credential, None) calls) \<subseteq>
      filed_actions (new_bridge F name credential) (bridge_run F name credential calls (new_bridge F name credential, None))"
  using observations.kept_granted [OF ledger_start assms] observations.kept_recorded [OF ledger_start assms]
  unfolding observe_run by blast

lemma small_calls_refused: "granted (observe_attempt F name credential) (new_bridge F name credential, None) small_calls = []"
  by (simp add: small_calls_def observe_attempt_def bridge_step_def bridge_activate_def bridge_observe_def open_ledger_def bridge_load_def
      bridge_save_def close_ledger_def refused_def good_io_def new_bridge_def Let_def split: prod.split)

theorem observed_at_most_once_witness:
  "granted (observe_attempt ref_foundation ''z'' 7) (new_bridge ref_foundation ''z'' 7, None)
     (small_calls @ [(good_io, small_observation), (good_io, Call_Restart), (good_io, small_observation)]) =
   [(good_io, small_observation)]"
proof -
  let ?n = "new_bridge ref_foundation ''z'' 7" and ?a = "observe_attempt ref_foundation ''z'' 7" and ?o = "(good_io, small_observation)"
  let ?st = "bridge_run ref_foundation ''z'' 7 small_calls (?n, None)"
  have "fst (?a ?st ?o)"
    using small_accepted [of ref_foundation "''z''" 7] by (auto simp: observe_attempt_def split: prod.split)
  then obtain st1 where o: "?a ?st ?o = (True, st1)" by (metis (full_types) prod.collapse)
  obtain st2 where r: "?a st1 (good_io, Call_Restart) = (False, st2)"
    by (simp add: observe_attempt_def restart_step refused_def)
  let ?rest = "granted ?a st2 [?o]"
  have g: "granted ?a (?n, None) (small_calls @ [?o, (good_io, Call_Restart), ?o]) = ?o # ?rest"
    unfolding granted_append small_calls_refused observe_run using o r by simp
  have "list_all fit_call (small_calls @ [?o, (good_io, Call_Restart), ?o])"
    by (simp add: small_calls_def fit_call_def good_io_def)
  then have "distinct (map call_action (?o # ?rest))"
    unfolding g [symmetric] by (rule conjunct1 [OF observed_at_most_once])
  moreover have "?rest = [] \<or> ?rest = [?o]" by (auto split: prod.split)
  ultimately have "?rest = []" by (auto simp del: granted.simps)
  then show ?thesis using g by simp
qed

section \<open>Where the ledger is lost\<close>

text \<open>
  A ledger that cannot be opened is reported once; the same object then takes itself for loaded, and its next call
  overwrites the file with an empty log.
\<close>

lemma unopened_ledger_overwritten:
  "let st = (new_bridge F name credential, Some s); (r, st1) = bridge_activate (good_io\<lparr>bi_opened := False\<rparr>) SessionStart st;
       (r', b, disk) = bridge_activate good_io SessionStart st1
   in \<not> br_accepted r \<and> snd st1 = Some s \<and> br_accepted r' \<and> disk = Some (log_text [activation_line 1 SessionStart])"
  by (simp add: bridge_activate_def open_ledger_def bridge_load_def bridge_save_def close_ledger_def refused_def good_io_def new_bridge_def Let_def)

text \<open>A tool name with a line feed is logged as two lines; after a restart the second one counts as an observation.\<close>

lemma tool_name_forges_observation:
  "ab_observed (snd (bridge_load good_io (Some (log_text [proposal_line F \<lparr>ic_tool_name = ''a'' @ CHR 0x0A # ''observation 5'', ic_session_token = 1,
     ic_harness_action = 1, ic_raw_payload = p\<rparr>])) (new_bridge F name credential))) = [5]"
proof -
  let ?l = "''proposal 1 a''" and ?m = "''observation 5'' @ '' session 1 sha256 '' @ hex_digest F p"
  have "log_text [proposal_line F \<lparr>ic_tool_name = ''a'' @ CHR 0x0A # ''observation 5'', ic_session_token = 1, ic_harness_action = 1, ic_raw_payload = p\<rparr>] =
      log_text [?l, ?m]"
    by (simp add: log_text_def proposal_line_def to_string_u64_def digits_of.simps char_of_def bit_iff_odd)
  moreover have "list_all one_line [?l, ?m]" by (simp add: one_line_Cons one_line_digest)
  ultimately have "getlines (log_text [proposal_line F \<lparr>ic_tool_name = ''a'' @ CHR 0x0A # ''observation 5'', ic_session_token = 1,
      ic_harness_action = 1, ic_raw_payload = p\<rparr>]) = [?l, ?m]" by (simp only: getlines_log)
  then show ?thesis
    by (simp only: bridge_load_def new_bridge_fresh if_False Let_def option.case)
       (simp add: good_io_def new_bridge_def Let_def load_line_def starts_with_def strtoull_def is_space_def is_digit_def decimal_def)
qed

end
