(* ===== verification/Spec2Isabelle.thy ===== *)
theory Spec2Isabelle
  imports Scope State_Store Admission System Serve Task_Bundle Journal_Limits Cognition_Bundle Hook_Judgment Zcode_Hook Shadow_Compare Adapter_Bridge
begin

text \<open>
  A verification library for the control core of the Qiven Cognitive Control Runtime.

  \<^bold>\<open>The program.\<close>  An adapter intercepts the actions an agent proposes and turns each into an observed
  action.  A bounded ingress queue carries it to the control core, which classifies it into an
  intent set, derives the requirements the pinned cognition snapshot puts on those intents, and
  opens a transaction.  Requirements are satisfied by activation receipts that came with the
  proposal or by resolver tasks that an executor runs and whose reports come back through the
  queue.  When every report has arrived the gates settle the transaction as allowed, denied or to
  be deliberated again.  An allowed transaction is bound into a single-use, authenticated
  decision; consuming it against the current facts, passing the reconciliation barrier and
  obtaining a fenced grant of the execution authority yields a dispatch permit.  The observed
  outcome closes the loop: an indeterminate effect raises the barrier, reconciliation lifts it, a
  failure is remembered and changes the next classification.  Consumed tokens and barriers survive
  a restart through a serialised image.

  Around this core stand four more parts.  Clients talk to the runtime over framed, authenticated connections
  whose bodies are JSON.  A compiler of task cognition turns rule files at pinned revisions of the
  source repositories into an index, selects the rules a task activates within a byte budget, publishes them as
  a bundle and issues a receipt.  A journal keeps sessions, transactions, decisions, leases,
  dispatches, outcomes and barriers in a database with a hash-chained audit table, and recovers it
  when the host starts.  The host ties them together: it boots over the journal, loads an accepted deployment
  profile and a published cognition bundle, and answers the events that a hook process sends before and after each tool call.

  \<^bold>\<open>Conventions.\<close>  Structs are records, enums are datatypes, \<^verbatim>\<open>u64\<close>, \<^verbatim>\<open>u32\<close> and bytes are words, so counters wrap.
  A \<^verbatim>\<open>qiven::Result\<close> is a sum with the error on the left; an outer \<open>None\<close> is a run that the source
  ends by an assertion.  A method that changes its object returns the new record.  Code of the
  packages qiven-foundation and qiven-context-draft is not part of the repository: it is the record
  \<open>foundation\<close> (hashing, little-endian codecs) and the record \<open>draft\<close> (the v4 semantics of intents,
  requirements and snapshots) that the definitions take as an argument.  What a theorem needs of
  them is the locale \<open>codec_laws\<close> or \<open>draft_laws\<close>, and \<open>ref_foundation\<close> and \<open>ref_draft\<close> are concrete
  instances on which witnesses evaluate.  Collision freedom of a hash is never assumed in general: a
  theorem that needs it names the two preimages.  The clock and the random device are arguments, and so are git,
  the file system, \<^verbatim>\<open>std::sort\<close> and the order of an unordered SELECT, with what the code relies on as a named hypothesis.
  SQLite is a set of tables whose statements have the effect of their SQL text or fail, as a schedule of
  faults says; that a transaction which does not commit has no effect, and so that ROLLBACK succeeds, is assumed of
  it.  Git is one function for the whole of a build: the repositories do not move meanwhile.

  \<^bold>\<open>Theories and sources\<close> (below \<^verbatim>\<open>src/src\<close> and \<^verbatim>\<open>src/include/qiven/runtime\<close>).
  \<^item> \<open>Prelude\<close>: word types, the error type, byte strings and their little-endian coding, shared lemmas.
  \<^item> \<open>Foundation\<close>: the external packages as parameters, with their laws.
  \<^item> \<open>Contracts\<close>: the interfaces as locales.  \<open>single_use\<close>: a granted key is never granted again.
    \<open>bounded_fifo\<close>: a bounded queue is first in first out over every run.  \<open>fenced_lease\<close>: live leases have
    distinct epochs that only grow.
  \<^item> \<open>Identity\<close>: \<^verbatim>\<open>identity.hpp/.cpp\<close>.  Identifiers, rendering, the sortable-id minter; its first 64 ids
    differ, which fields an id determines, when ids repeat and why they do not sort by time.
  \<^item> \<open>Auth\<close>: \<^verbatim>\<open>auth.hpp/.cpp\<close>.  HMAC, secrets, comparison without early exit.
  \<^item> \<open>Manifest\<close>: \<^verbatim>\<open>adapter/manifest\<close>, \<^verbatim>\<open>profile\<close>, \<^verbatim>\<open>adapter/handshake\<close>, \<^verbatim>\<open>generation\<close>.  The builder's checks, the
    manifest digest as an injective encoding, and the handshake that admits exactly the declared surface.
  \<^item> \<open>Scope\<close>: \<^verbatim>\<open>scope\<close>, \<^verbatim>\<open>claims\<close>.  Path normalisation against a component-wise specification, coverage, and the
    governance reports.
  \<^item> \<open>Action\<close>: \<^verbatim>\<open>observed_action\<close>, \<^verbatim>\<open>port/interception\<close>, \<^verbatim>\<open>port/claims\<close>, \<^verbatim>\<open>adapter/loopback\<close>.
  \<^item> \<open>Intent\<close>: \<^verbatim>\<open>intent\<close>.  Classification and its mechanical floor.
  \<^item> \<open>Requirement\<close>: \<^verbatim>\<open>requirement\<close>.  Derivation and merging, against the set of derived instances.
  \<^item> \<open>Resolver\<close>: \<^verbatim>\<open>resolver\<close>.  The registry builder, receipts and their validation.
  \<^item> \<open>Activation\<close>: \<^verbatim>\<open>port/activation\<close>.  Receipts and the spending ledger, an instance of \<open>single_use\<close>.
  \<^item> \<open>Ingress\<close>: \<^verbatim>\<open>ingress\<close>.  The queue, an instance of \<open>bounded_fifo\<close>.
  \<^item> \<open>Executor\<close>: \<^verbatim>\<open>executor\<close>.  Workers as an interleaving step relation at the granularity of the critical
    sections; no task is lost or run twice, the capacity bounds hold, shutdown is reached.
  \<^item> \<open>Transaction\<close>: \<^verbatim>\<open>cognition\<close>, \<^verbatim>\<open>port/cognition_port\<close>, \<^verbatim>\<open>transaction\<close>.  Pinning a snapshot, phases and gates.
  \<^item> \<open>Decision\<close>: \<^verbatim>\<open>decision\<close>.  Binding, consuming; an instance of \<open>single_use\<close>; what the authentication code binds.
  \<^item> \<open>Outcome\<close>: \<^verbatim>\<open>outcome\<close>, \<^verbatim>\<open>reconciliation\<close>, \<^verbatim>\<open>failure\<close>.  Observations, barriers, failure memory.
  \<^item> \<open>Admission\<close>: \<^verbatim>\<open>port/execution_authority\<close>, \<^verbatim>\<open>admission\<close>.  The null authority as an instance of
    \<open>fenced_lease\<close> and the composition of the admission conditions over an arbitrary authority.
  \<^item> \<open>State_Store\<close>: \<^verbatim>\<open>state_store\<close>.  The image codec (exactness of the decoder) and what a restart keeps.
  \<^item> \<open>Control_Core\<close>, \<open>Core_Invariant\<close>, \<open>Core_Runs\<close>, \<open>Core_Properties\<close>: \<^verbatim>\<open>state\<close>.  All message handlers and the drain
    loop; an invariant kept by every step, the evolution order of a transaction, runs with the messages they
    handled and the proposal each transaction comes from, and the contracts of the handlers over all reachable
    states.
  \<^item> \<open>System\<close>: the resolver task of \<^verbatim>\<open>state.cpp\<close> with its report and posting loop.
  \<^item> \<open>Framing\<close>: \<^verbatim>\<open>ipc/framing\<close>.  The frame codec, exact in both directions, and the replay guard.
  \<^item> \<open>Strings\<close>, \<open>Json\<close>: \<^verbatim>\<open>jsonx\<close>.  The parser with its bounds and UTF-8 checks, the printer, their round trip.
  \<^item> \<open>Protocol\<close>: \<^verbatim>\<open>ipc/protocol\<close>.  Requests and replies as JSON bodies, both directions.
  \<^item> \<open>Serve\<close>: \<^verbatim>\<open>ipc/pipe_service\<close>.  A connection served to its end, over any sequence of what the pipe yields.
  \<^item> \<open>Task_Descriptor\<close>: \<^verbatim>\<open>cognition/task_descriptor\<close>.  Normalisation and the canonical text, which determines the task.
  \<^item> \<open>Activation_Policy\<close>: \<^verbatim>\<open>cognition/activation_policy\<close>.  Both line parsers; what they return is well formed.
  \<^item> \<open>Selector\<close>: \<^verbatim>\<open>cognition/selector_eval\<close>.  Verdicts, order and budget; protected rules are never cut.
  \<^item> \<open>Source_Lock\<close>: \<^verbatim>\<open>cognition/source_lock\<close>.  What is locked, within which bounds.
  \<^item> \<open>Activation_Index\<close>: \<^verbatim>\<open>cognition/activation_index\<close>.  Building, reuse, and the pointer to a complete generation.
  \<^item> \<open>Context_Receipt\<close>: \<^verbatim>\<open>cognition/activation_receipt\<close>.  Issue, verification, storage.
  \<^item> \<open>Task_Bundle\<close>: \<^verbatim>\<open>cognition/task_bundle\<close>, \<^verbatim>\<open>cognition/activation_service\<close>.  The whole activation of a task.
  \<^item> \<open>Journal\<close>: \<^verbatim>\<open>journal/schema\<close>, \<^verbatim>\<open>journal/recovery\<close>, \<^verbatim>\<open>journal/runtime_journal\<close>, \<^verbatim>\<open>port/runtime_journal.hpp\<close>.  Tables,
    statements, commands, reads, the audit chain, recovery, opening.  \<open>Journal_Laws\<close>: what a successful run of each
    method does to the tables.  \<open>Journal_Invariant\<close>: operations in any order with any failures, their
    steps on the tables, and the invariant (chain and life cycles) that each keeps.  \<open>Journal_Calm\<close>: runs without failures.
    \<open>Journal_Properties\<close>: the chain verifies and exposes changes, decisions are consumed once (an instance of
    \<open>single_use\<close>), transactions never regress.  \<open>Journal_Fencing\<close>: quarantine, failed commands, leases.
    \<open>Journal_Recovery\<close>: recovery fails closed and completes.  \<open>Journal_Limits\<close>: where it does not.

  \<^item> \<open>Invocation_Policy\<close>: \<^verbatim>\<open>cognition/policy\<close>.  The policy parser, exact on canonical texts.
  \<^item> \<open>Cognition_Bundle\<close>: \<^verbatim>\<open>cognition/bundle\<close>, \<^verbatim>\<open>cognition/publisher\<close>, \<^verbatim>\<open>port/cognition_bundle.hpp\<close>.  Loading a bundle, planning
    and publishing one; its digest binds all of it, what is published loads, published bundles never change.
  \<^item> \<open>Deployment_Profile\<close>: \<^verbatim>\<open>host/deployment_profile\<close>, \<^verbatim>\<open>port/deployment_profile.hpp\<close>.  The profile parser and its acceptance.
  \<^item> \<open>Hook_Judgment\<close>: the judgment of a tool call's target in \<^verbatim>\<open>host/runtime_host.cpp\<close>, sound against \<open>Scope\<close>, and its gaps.
  \<^item> \<open>Runtime_Host\<close>: the rest of \<^verbatim>\<open>host/runtime_host\<close> and \<^verbatim>\<open>host/generation_activation\<close>.  Boot, the request handler, sessions,
    drain, the refresh worker, over \<open>Journal\<close>, \<open>Cognition_Bundle\<close> and \<open>Protocol\<close>.  \<open>Host_Runs\<close>: runs of a host and what each
    step does to its journal.  \<open>Host_Properties\<close>: admissions are recorded, possible ones happen, draining is final, and
    the journal of a booted host is always sound.
  \<^item> \<open>Zcode_Event\<close>: \<^verbatim>\<open>adapter/zcode_event\<close>.  The payload scan, equal to the strict JSON parser where that accepts.
  \<^item> \<open>Zcode_Hook\<close>: \<^verbatim>\<open>adapter/zcode_hook\<close>.  The hook process; it fails closed and passes exactly what the host admits.
  \<^item> \<open>Adapter_Bridge\<close>: \<^verbatim>\<open>adapter/bridge\<close>.  The ledger of a hook process in its state file, over restarts and failed saves; no
    action is observed twice (\<open>kept_single_use\<close>, single use under an invariant), and what was accepted survives.
  \<^item> \<open>Shadow_Compare\<close>: \<^verbatim>\<open>cognition/shadow_compare\<close>.  The reader of the workspace lock, the comparison in both tiers and its
    receipt; exactly which documents are evidence for a cutover.

  \<^bold>\<open>Loops.\<close>  Loops over vectors are structural recursions.  \<open>drain\<close> recurs on the number of queued
  messages, and the queue it takes is the one the drain sees (reports that workers post meanwhile are
  drained by the next call); it is shown to return when no assertion can fail.  The worker loop and the posting loop, which may run for ever, are step
  functions of a step relation.  The JSON parser recurs on the rest of its input and its depth bound, the file
  parsers on the lines, the connection loop on what the pipe still yields.  No definition uses fuel.

  \<^bold>\<open>Not modelled.\<close>  The named-pipe transport and the child processes are calls of the Windows interface with their
  threads and handles; what they yield is an argument of \<open>Serve\<close>, \<open>Zcode_Hook\<close> and \<open>Cognition_Bundle\<close>.  The
  command-line programs read arguments and print around the library.
  Destructors, memory, the crash points of the tests and the scheduling inside a critical section are outside the model;
  an attempt of the refresh worker, which the host splits over two critical sections, is one step of \<open>Host_Runs\<close>.
\<close>

end
